(* ===== verification/Prelude.thy ===== *)
theory Prelude
  imports Complex_Main "HOL-Library.AList" "HOL-Library.Multiset"
begin

section \<open>Prelude: the fragment of Python the components share\<close>

text \<open>
  What every component theory uses of the language and its standard library: the exceptions the
  sources raise, results that are either an exception or a value, sequencing and loops over such
  results, dictionaries (insertion-ordered, as Python's are), list indexing with its
  \<open>IndexError\<close>, \<open>itertools.groupby\<close>, consecutive pairs and the sorted link tuple.  Floating
  point numbers are modelled by the exact rationals (\<open>pyfloat\<close>): rounding is not modelled.
\<close>

named_theorems res_simps \<open>equations that drive results through \<open>rbind\<close>\<close>
named_theorems dict_simps \<open>lookup laws of dictionaries\<close>

subsection \<open>Exceptions and results\<close>

datatype py_error =
    ValueError | KeyError | IndexError | TypeError | NameError | AttributeError
  | IOError | StopIteration | ZeroDivisionError | NotImplementedError
  | FileExistsError | FileNotFoundError

type_synonym 'a res = "py_error + 'a"
type_synonym pyfloat = rat

definition rbind :: "'a res \<Rightarrow> ('a \<Rightarrow> 'b res) \<Rightarrow> 'b res" where
  "rbind m f = (case m of Inl e \<Rightarrow> Inl e | Inr x \<Rightarrow> f x)"

lemma rbind_simps [simp, res_simps]:
  "rbind (Inl e) f = Inl e"
  "rbind (Inr x) f = f x"
  by (simp_all add: rbind_def)

lemma rbind_Inr_iff [res_simps]: "rbind m f = Inr y \<longleftrightarrow> (\<exists>x. m = Inr x \<and> f x = Inr y)"
  by (auto simp: rbind_def split: sum.splits)

lemma rbind_Inl_iff: "rbind m f = Inl e \<longleftrightarrow> m = Inl e \<or> (\<exists>x. m = Inr x \<and> f x = Inl e)"
  by (auto simp: rbind_def split: sum.splits)

lemma rbind_assoc: "rbind (rbind m f) g = rbind m (\<lambda>x. rbind (f x) g)"
  by (simp add: rbind_def split: sum.splits)

lemma rbind_cong [fundef_cong]:
  "m = m' \<Longrightarrow> (\<And>x. m' = Inr x \<Longrightarrow> f x = f' x) \<Longrightarrow> rbind m f = rbind m' f'"
  by (auto simp: rbind_def split: sum.splits)

definition is_ok :: "'a res \<Rightarrow> bool" where
  "is_ok m = (case m of Inl _ \<Rightarrow> False | Inr _ \<Rightarrow> True)"

lemma is_ok_iff: "is_ok m \<longleftrightarrow> (\<exists>x. m = Inr x)"
  by (cases m) (simp_all add: is_ok_def)

text \<open>Division of floats.\<close>

definition py_div :: "pyfloat \<Rightarrow> pyfloat \<Rightarrow> pyfloat res" where
  "py_div x y = (if y = 0 then Inl ZeroDivisionError else Inr (x / y))"

subsection \<open>Loops\<close>

text \<open>
  A \<open>for\<close> loop that updates a state and may raise (\<open>fold_res\<close>), and a list comprehension whose
  element expression may raise (\<open>map_res\<close>); both stop at the first exception.
\<close>

fun fold_res :: "('s \<Rightarrow> 'a \<Rightarrow> 's res) \<Rightarrow> 's \<Rightarrow> 'a list \<Rightarrow> 's res" where
  "fold_res f s [] = Inr s"
| "fold_res f s (x # xs) = rbind (f s x) (\<lambda>s'. fold_res f s' xs)"

fun map_res :: "('a \<Rightarrow> 'b res) \<Rightarrow> 'a list \<Rightarrow> 'b list res" where
  "map_res f [] = Inr []"
| "map_res f (x # xs) = rbind (f x) (\<lambda>y. rbind (map_res f xs) (\<lambda>ys. Inr (y # ys)))"

text \<open>A list comprehension with a condition that may raise.\<close>

fun filter_res :: "('a \<Rightarrow> bool res) \<Rightarrow> 'a list \<Rightarrow> 'a list res" where
  "filter_res P [] = Inr []"
| "filter_res P (x # xs) = rbind (P x) (\<lambda>b. rbind (filter_res P xs) (\<lambda>ys. Inr (if b then x # ys else ys)))"

lemma fold_res_append: "fold_res f s (xs @ ys) = rbind (fold_res f s xs) (\<lambda>s'. fold_res f s' ys)"
  by (induction xs arbitrary: s) (simp_all add: rbind_assoc)

lemma fold_res_inv:
  assumes "P s" and "fold_res f s xs = Inr s'"
    and "\<And>s x t. P s \<Longrightarrow> x \<in> set xs \<Longrightarrow> f s x = Inr t \<Longrightarrow> P t"
  shows "P s'"
  using assms
proof (induction xs arbitrary: s)
  case (Cons x xs)
  from Cons.prems(2) obtain t where "f s x = Inr t" "fold_res f t xs = Inr s'"
    by (auto simp: rbind_Inr_iff)
  moreover from this have "P t" using Cons.prems(1,3) by auto
  ultimately show ?case using Cons.prems(3) by (auto intro: Cons.IH)
qed simp

lemma fold_res_total:
  assumes "P s"
    and "\<And>s x. P s \<Longrightarrow> x \<in> set xs \<Longrightarrow> \<exists>t. f s x = Inr t \<and> P t"
  shows "\<exists>s'. fold_res f s xs = Inr s' \<and> P s'"
  using assms
proof (induction xs arbitrary: s)
  case (Cons x xs)
  from Cons.prems obtain t where "f s x = Inr t" "P t" by (meson list.set_intros(1))
  moreover from Cons.IH [OF \<open>P t\<close>] Cons.prems(2)
  obtain s' where "fold_res f t xs = Inr s'" "P s'" by auto
  ultimately show ?case by simp
qed simp

lemma fold_res_cong [fundef_cong]:
  "s = s' \<Longrightarrow> xs = xs' \<Longrightarrow> (\<And>t x. x \<in> set xs' \<Longrightarrow> f t x = g t x) \<Longrightarrow> fold_res f s xs = fold_res g s' xs'"
proof (induction xs arbitrary: s s' xs')
  case (Cons x xs)
  have "f s x = g s x" using Cons.prems by auto
  moreover have "fold_res f t xs = fold_res g t xs" for t
    by (rule Cons.IH) (use Cons.prems in auto)
  ultimately show ?case using Cons.prems(1,2) by (auto simp flip: Cons.prems(2))
qed simp

lemma map_res_cong [fundef_cong]:
  "xs = ys \<Longrightarrow> (\<And>x. x \<in> set ys \<Longrightarrow> f x = g x) \<Longrightarrow> map_res f xs = map_res g ys"
  by (induction xs arbitrary: ys) auto

lemma map_res_Inr_map:
  "(\<And>x. x \<in> set xs \<Longrightarrow> f x = Inr (g x)) \<Longrightarrow> map_res f xs = Inr (map g xs)"
  by (induction xs) auto

lemma map_res_Inr_iff:
  "map_res f xs = Inr ys \<longleftrightarrow> list_all2 (\<lambda>x y. f x = Inr y) xs ys"
  by (induction xs arbitrary: ys) (auto simp: rbind_Inr_iff list_all2_Cons1)

lemma map_res_total:
  assumes "\<forall>x \<in> set xs. \<exists>y. f x = Inr y"
  obtains ys where "map_res f xs = Inr ys" "\<forall>x \<in> set xs. \<exists>y \<in> set ys. f x = Inr y"
proof -
  have "\<exists>ys. map_res f xs = Inr ys \<and> (\<forall>x \<in> set xs. \<exists>y \<in> set ys. f x = Inr y)"
    using assms by (induction xs) auto
  then show thesis using that by blast
qed

lemma filter_res_pure: "(\<And>x. x \<in> set xs \<Longrightarrow> P x = Inr (Q x)) \<Longrightarrow> filter_res P xs = Inr (filter Q xs)"
  by (induction xs) auto

lemma map_res_append:
  "map_res f (xs @ ys) = rbind (map_res f xs) (\<lambda>a. rbind (map_res f ys) (\<lambda>b. Inr (a @ b)))"
  by (induction xs) (simp_all add: rbind_def split: sum.splits)

lemma map_res_length: "map_res f xs = Inr ys \<Longrightarrow> length ys = length xs"
  by (simp add: map_res_Inr_iff list_all2_lengthD)

subsection \<open>Dictionaries\<close>

text \<open>
  A dictionary is the list of its items in insertion order.  \<open>AList.update\<close> overwrites in place or
  appends, which is what \<open>d[k] = v\<close> does.
\<close>

type_synonym ('k, 'v) dict = "('k \<times> 'v) list"

definition dict_get :: "('k, 'v) dict \<Rightarrow> 'k \<Rightarrow> 'v res" where
  "dict_get d k = (case map_of d k of None \<Rightarrow> Inl KeyError | Some v \<Rightarrow> Inr v)"

definition dict_get_default :: "('k, 'v) dict \<Rightarrow> 'k \<Rightarrow> 'v \<Rightarrow> 'v" where
  "dict_get_default d k v0 = (case map_of d k of None \<Rightarrow> v0 | Some v \<Rightarrow> v)"

definition dict_set :: "('k, 'v) dict \<Rightarrow> 'k \<Rightarrow> 'v \<Rightarrow> ('k, 'v) dict" where
  "dict_set d k v = AList.update k v d"

definition dict_del :: "('k, 'v) dict \<Rightarrow> 'k \<Rightarrow> ('k, 'v) dict" where
  "dict_del d k = AList.delete k d"

definition dict_has :: "('k, 'v) dict \<Rightarrow> 'k \<Rightarrow> bool" where
  "dict_has d k \<longleftrightarrow> k \<in> set (map fst d)"

abbreviation dict_keys :: "('k, 'v) dict \<Rightarrow> 'k list" where
  "dict_keys d \<equiv> map fst d"

abbreviation dict_values :: "('k, 'v) dict \<Rightarrow> 'v list" where
  "dict_values d \<equiv> map snd d"

definition dict_wf :: "('k, 'v) dict \<Rightarrow> bool" where
  "dict_wf d \<longleftrightarrow> distinct (dict_keys d)"

text \<open>Building a dictionary from items in order, later items overwriting earlier ones.\<close>

definition dict_of :: "('k \<times> 'v) list \<Rightarrow> ('k, 'v) dict" where
  "dict_of items = fold (\<lambda>(k, v) d. dict_set d k v) items []"

lemma map_of_dict_set [simp, dict_simps]: "map_of (dict_set d k v) = (map_of d)(k \<mapsto> v)"
  by (simp add: dict_set_def update_conv')

lemma map_of_dict_del [simp, dict_simps]: "map_of (dict_del d k) = (map_of d)(k := None)"
  by (simp add: dict_del_def delete_conv')

lemma dict_get_set [simp, dict_simps]:
  "dict_get (dict_set d k v) k' = (if k' = k then Inr v else dict_get d k')"
  by (simp add: dict_get_def)

lemma dict_get_Inr_iff: "dict_get d k = Inr v \<longleftrightarrow> map_of d k = Some v"
  by (auto simp: dict_get_def split: option.splits)

lemma dict_get_Inl_iff: "dict_get d k = Inl e \<longleftrightarrow> map_of d k = None \<and> e = KeyError"
  by (auto simp: dict_get_def split: option.splits)

lemma dict_has_iff: "dict_has d k \<longleftrightarrow> (\<exists>v. map_of d k = Some v)"
  by (metis dict_has_def map_of_eq_None_iff not_None_eq list.set_map)

lemma keys_lookup: "k \<in> set (dict_keys d) \<Longrightarrow> \<exists>v. map_of d k = Some v"
  using dict_has_iff [of d k] by (simp only: dict_has_def)

lemma dict_keys_set [simp]:
  "dict_keys (dict_set d k v) = (if k \<in> set (dict_keys d) then dict_keys d else dict_keys d @ [k])"
  by (simp add: dict_set_def update_keys)

lemma dict_wf_Nil [simp]: "dict_wf []"
  by (simp add: dict_wf_def)

lemma dict_wf_set [simp, intro]: "dict_wf d \<Longrightarrow> dict_wf (dict_set d k v)"
  by (simp add: dict_wf_def)

lemma dict_wf_del [simp, intro]: "dict_wf d \<Longrightarrow> dict_wf (dict_del d k)"
  by (simp add: dict_wf_def dict_del_def distinct_delete)

lemma dict_wf_map_of_in: "dict_wf d \<Longrightarrow> (k, v) \<in> set d \<longleftrightarrow> map_of d k = Some v"
  by (auto simp: dict_wf_def map_of_is_SomeI dest: map_of_SomeD)

lemma length_dict_set_new: "k \<notin> set (dict_keys d) \<Longrightarrow> length (dict_set d k v) = Suc (length d)"
proof -
  assume "k \<notin> set (dict_keys d)"
  then have "length (dict_keys (dict_set d k v)) = Suc (length (dict_keys d))"
    by (simp only: dict_keys_set) simp
  then show ?thesis by (simp only: length_map)
qed

lemma length_dict_set_old: "k \<in> set (dict_keys d) \<Longrightarrow> length (dict_set d k v) = length d"
proof -
  assume "k \<in> set (dict_keys d)"
  then have "length (dict_keys (dict_set d k v)) = length (dict_keys d)"
    by (simp only: dict_keys_set) simp
  then show ?thesis by (simp only: length_map)
qed

lemma dict_set_self: "map_of d k = Some v \<Longrightarrow> dict_set d k v = d"
proof (induction d)
  case (Cons p d)
  then show ?case by (cases p) (auto simp: dict_set_def split: if_splits)
qed simp

lemma keys_dict_del: "set (dict_keys (dict_del d k)) = set (dict_keys d) - {k}"
  by (simp add: dict_del_def delete_keys)

lemma length_dict_del:
  assumes "dict_wf d" and "k \<in> set (dict_keys d)"
  shows "Suc (length (dict_del d k)) = length d"
proof -
  have "length d = card (set (dict_keys d))"
    using assms(1) by (metis dict_wf_def distinct_card length_map)
  moreover have "length (dict_del d k) = card (set (dict_keys (dict_del d k)))"
    using dict_wf_del [OF assms(1)] by (metis dict_wf_def distinct_card length_map)
  moreover have "Suc (card (set (dict_keys d) - {k})) = card (set (dict_keys d))"
    by (rule card_Suc_Diff1) (use assms(2) in auto)
  ultimately show ?thesis by (simp only: keys_dict_del)
qed

lemma set_dict_set_subset: "set (dict_set d k v) \<subseteq> insert (k, v) (set d)"
proof (induction d)
  case (Cons p d)
  then show ?case by (cases p) (auto simp: dict_set_def)
qed (simp add: dict_set_def)

lemma dict_set_in: "(k, v) \<in> set (dict_set d k v)"
proof (induction d)
  case (Cons p d)
  then show ?case by (cases p) (auto simp: dict_set_def)
qed (simp add: dict_set_def)

lemma map_of_dict_of: "map_of (dict_of items) = map_of (rev items)"
  by (induction items rule: rev_induct) (auto simp: dict_of_def)

lemma dict_wf_dict_of: "dict_wf (dict_of items)"
  by (induction items rule: rev_induct) (auto simp: dict_of_def)

lemma dict_of_in: "(k, v) \<in> set (dict_of items) \<Longrightarrow> (k, v) \<in> set items"
  using dict_wf_map_of_in [OF dict_wf_dict_of, of k v items] by (auto simp: map_of_dict_of dest: map_of_SomeD)

lemma set_keys_dict_of: "set (dict_keys (dict_of items)) = set (map fst items)"
proof -
  have "dom (map_of (dict_of items)) = dom (map_of (rev items))" by (simp only: map_of_dict_of)
  then show ?thesis by (simp add: dom_map_of_conv_image_fst)
qed

lemma update_new: "k \<notin> set (dict_keys d) \<Longrightarrow> dict_set d k v = d @ [(k, v)]"
  unfolding dict_set_def by (induction d) auto

lemma dict_of_distinct: "distinct (map fst items) \<Longrightarrow> dict_of items = items"
proof (induction items rule: rev_induct)
  case (snoc x xs)
  obtain k v where x: "x = (k, v)" by (cases x)
  have "dict_of (xs @ [x]) = dict_set (dict_of xs) k v" by (simp add: dict_of_def x)
  then show ?case using snoc x update_new [of k xs v] by simp
qed (simp add: dict_of_def)

text \<open>\<open>d[k].append(v)\<close> on a \<open>defaultdict(list)\<close>.\<close>

definition group_append :: "('k, 'v list) dict \<Rightarrow> 'k \<times> 'v \<Rightarrow> ('k, 'v list) dict" where
  "group_append d = (\<lambda>(k, v). dict_set d k (dict_get_default d k [] @ [v]))"

lemma group_append_lookup:
  "dict_get_default (foldl group_append d xs) k [] = dict_get_default d k [] @ map snd (filter (\<lambda>x. fst x = k) xs)"
  by (induction xs arbitrary: d) (auto simp: group_append_def dict_get_default_def split: prod.splits)

subsection \<open>Lists\<close>

text \<open>\<open>xs[i]\<close> with Python's negative indices, and \<open>xs.index(x)\<close>.\<close>

definition py_nth :: "'a list \<Rightarrow> int \<Rightarrow> 'a res" where
  "py_nth items pos =
     (if 0 \<le> pos \<and> nat pos < length items then Inr (items ! nat pos)
      else if pos < 0 \<and> nat (- pos) \<le> length items then Inr (items ! (length items - nat (- pos)))
      else Inl IndexError)"

fun py_index :: "'a list \<Rightarrow> 'a \<Rightarrow> nat res" where
  "py_index [] x = Inl ValueError"
| "py_index (y # ys) x = (if y = x then Inr 0 else rbind (py_index ys x) (\<lambda>i. Inr (Suc i)))"

lemma py_nth_nat [simp]: "py_nth xs (int i) = (if i < length xs then Inr (xs ! i) else Inl IndexError)"
  by (simp add: py_nth_def)

lemma py_nth_first: "py_nth (x # xs) 0 = Inr x"
  by (simp add: py_nth_def)

lemma py_nth_last: "xs \<noteq> [] \<Longrightarrow> py_nth xs (- 1) = Inr (last xs)"
  by (cases xs rule: rev_cases) (simp_all add: py_nth_def nat_diff_distrib')

lemma py_index_distinct: "distinct xs \<Longrightarrow> i < length xs \<Longrightarrow> py_index xs (xs ! i) = Inr i"
proof (induction xs arbitrary: i)
  case (Cons y ys)
  then show ?case by (cases i) auto
qed simp

lemma py_index_Inr: "py_index xs x = Inr i \<Longrightarrow> i < length xs \<and> xs ! i = x"
  by (induction xs arbitrary: i) (auto simp: rbind_Inr_iff split: if_splits)

lemma py_index_in: "x \<in> set xs \<Longrightarrow> \<exists>i. py_index xs x = Inr i"
  by (induction xs) auto

lemma py_index_notin: "x \<notin> set xs \<Longrightarrow> py_index xs x = Inl ValueError"
  by (induction xs) auto

text \<open>A set kept as a list: \<open>s.add(x)\<close>.\<close>

definition set_add :: "'a list \<Rightarrow> 'a \<Rightarrow> 'a list" where
  "set_add xs x = (if x \<in> set xs then xs else xs @ [x])"

lemma set_set_add [simp]: "set (set_add xs x) = insert x (set xs)"
  by (auto simp: set_add_def)

lemma distinct_set_add [simp, intro]: "distinct xs \<Longrightarrow> distinct (set_add xs x)"
  by (simp add: set_add_def)

definition pairwise :: "'a list \<Rightarrow> ('a \<times> 'a) list" where
  "pairwise xs = zip xs (tl xs)"

lemma pairwise_simps [simp]:
  "pairwise [] = []" "pairwise [x] = []"
  "pairwise (x # y # zs) = (x, y) # pairwise (y # zs)"
  by (simp_all add: pairwise_def)

lemma length_pairwise [simp]: "length (pairwise xs) = length xs - 1"
  by (simp add: pairwise_def)

lemma pairwise_snoc: "xs \<noteq> [] \<Longrightarrow> pairwise (xs @ [y]) = pairwise xs @ [(last xs, y)]"
proof (induction xs)
  case (Cons x xs)
  then show ?case by (cases xs) auto
qed simp

text \<open>\<open>tuple(sorted((u, v)))\<close>, the key of an undirected link.\<close>

definition link_key :: "'a::linorder \<times> 'a \<Rightarrow> 'a \<times> 'a" where
  "link_key e = (min (fst e) (snd e), max (fst e) (snd e))"

lemma link_key_sym: "link_key (u, v) = link_key (v, u)"
  by (simp add: link_key_def min.commute max.commute)

lemma link_key_idem [simp]: "link_key (link_key e) = link_key e"
  by (cases "fst e" "snd e" rule: linorder_cases) (simp_all add: link_key_def)

lemma link_key_eq_iff:
  "link_key (u, v) = link_key (a, b) \<longleftrightarrow> (u = a \<and> v = b) \<or> (u = b \<and> v = a)"
  by (auto simp: link_key_def min_def max_def split: if_splits)

text \<open>\<open>itertools.groupby\<close>: maximal runs of equal keys.\<close>

fun groupby :: "('a \<Rightarrow> 'k) \<Rightarrow> 'a list \<Rightarrow> ('k \<times> 'a list) list" where
  "groupby key [] = []"
| "groupby key (x # xs) =
     (case groupby key xs of
        [] \<Rightarrow> [(key x, [x])]
      | (k, g) # gs \<Rightarrow> if k = key x then (k, x # g) # gs else (key x, [x]) # (k, g) # gs)"

lemma groupby_Cons_cases:
  obtains (new) "groupby key (x # xs) = (key x, [x]) # groupby key xs"
      "groupby key xs = [] \<or> fst (hd (groupby key xs)) \<noteq> key x"
    | (run) g gs where "groupby key xs = (key x, g) # gs"
      "groupby key (x # xs) = (key x, x # g) # gs"
proof (cases "groupby key xs")
  case Nil
  then show thesis using new by simp
next
  case (Cons p gs)
  obtain k g where "p = (k, g)" by (cases p)
  then show thesis using Cons new run by (cases "k = key x") auto
qed

lemma groupby_keys_in: "fst ` set (groupby key xs) = key ` set xs"
proof (induction xs)
  case (Cons x xs)
  then show ?case by (cases rule: groupby_Cons_cases [of key x xs]) (simp_all, force)
qed simp

lemma groupby_nonempty: "groupby key xs = [] \<longleftrightarrow> xs = []"
  using groupby_keys_in [of key xs] by auto

lemma groupby_first_key: "groupby key xs = (k, g) # gs \<Longrightarrow> k = key (hd xs)"
proof (cases xs)
  case (Cons y ys)
  assume "groupby key xs = (k, g) # gs"
  with Cons show ?thesis by (cases rule: groupby_Cons_cases [of key y ys]) simp_all
qed simp

lemma groupby_sorted:
  fixes key :: "'a \<Rightarrow> 'k::linorder"
  assumes "sorted (map key xs)"
  shows "sorted_wrt (<) (map fst (groupby key xs))
    \<and> (\<forall>p \<in> set (groupby key xs). snd p = filter (\<lambda>x. key x = fst p) xs)"
  using assms
proof (induction xs)
  case (Cons x xs)
  then have IH: "sorted_wrt (<) (map fst (groupby key xs))"
    "\<forall>p \<in> set (groupby key xs). snd p = filter (\<lambda>x. key x = fst p) xs" by auto
  have le: "key x \<le> key y" if "y \<in> set xs" for y using Cons.prems that by auto
  show ?case
  proof (cases rule: groupby_Cons_cases [of key x xs])
    case new
    have lt: "key x < key y" if "y \<in> set xs" for y
    proof -
      from that obtain k g gs where g: "groupby key xs = (k, g) # gs"
        using groupby_nonempty [of key xs] by (metis list.exhaust list.set_cases list.simps(3) prod.collapse)
      then have "k = key (hd xs)" "k \<noteq> key x" using groupby_first_key new(2) by fastforce+
      moreover have "key (hd xs) \<le> key y" using that Cons.prems by (cases xs) auto
      moreover have "key x \<le> key (hd xs)" using that le by (cases xs) auto
      ultimately show ?thesis by simp
    qed
    then have "\<forall>k \<in> fst ` set (groupby key xs). key x < k" by (simp add: groupby_keys_in)
    moreover have "filter (\<lambda>y. key y = key x) xs = []" by (rule filter_False) (use lt in fastforce)
    ultimately show ?thesis using IH new(1) by auto
  next
    case (run g gs)
    then have "\<forall>p \<in> set gs. fst p \<noteq> key x" using IH(1) by auto
    then show ?thesis using IH run by auto
  qed
qed simp

end
