(* ===== verification/Numpy.thy ===== *)
theory Numpy
  imports Prelude
begin

section \<open>Random numbers (numpy)\<close>

text \<open>
  numpy's generator is not part of the repository: it is a parameter (\<open>np_random\<close>, with its state
  threaded through), and \<open>np_random_ok\<close> is the documented behaviour the code relies on.
  \<open>np_choice r n k\<close> samples \<open>k\<close> of the indices \<open>0, \<dots>, n - 1\<close> without replacement,
  \<open>np_choice1 r n\<close> draws one index, \<open>np_randint r lo hi\<close> draws an integer of \<open>[lo, hi)\<close>.  Choosing
  from a list is choosing its indices.
\<close>

record 'r np_random =
  np_choice :: "'r \<Rightarrow> nat \<Rightarrow> nat \<Rightarrow> (nat list \<times> 'r) res"
  np_choice1 :: "'r \<Rightarrow> nat \<Rightarrow> (nat \<times> 'r) res"
  np_randint :: "'r \<Rightarrow> int \<Rightarrow> int \<Rightarrow> (int \<times> 'r) res"

definition np_random_ok :: "'r np_random \<Rightarrow> bool" where
  "np_random_ok np \<longleftrightarrow>
     (\<forall>r n k. if k \<le> n
        then (\<exists>js r'. np_choice np r n k = Inr (js, r') \<and> length js = k \<and> distinct js \<and> set js \<subseteq> {..<n})
        else np_choice np r n k = Inl ValueError)
   \<and> (\<forall>r n. if 0 < n then (\<exists>j r'. np_choice1 np r n = Inr (j, r') \<and> j < n)
        else np_choice1 np r n = Inl ValueError)
   \<and> (\<forall>r lo hi. if lo < hi then (\<exists>x r'. np_randint np r lo hi = Inr (x, r') \<and> lo \<le> x \<and> x < hi)
        else np_randint np r lo hi = Inl ValueError)"

definition sample :: "'r np_random \<Rightarrow> 'r \<Rightarrow> 'a list \<Rightarrow> nat \<Rightarrow> ('a list \<times> 'r) res" where
  "sample np r xs k =
     rbind (np_choice np r (length xs) k) (\<lambda>(js, r'). Inr (map (\<lambda>j. xs ! j) js, r'))"

definition sample1 :: "'r np_random \<Rightarrow> 'r \<Rightarrow> 'a list \<Rightarrow> ('a \<times> 'r) res" where
  "sample1 np r xs = rbind (np_choice1 np r (length xs)) (\<lambda>(j, r'). Inr (xs ! j, r'))"

lemma np_choice_cases:
  assumes "np_random_ok np"
  obtains (ok) js r' where "k \<le> n" "np_choice np r n k = Inr (js, r')" "length js = k"
      "distinct js" "set js \<subseteq> {..<n}"
    | (err) "n < k" "np_choice np r n k = Inl ValueError"
proof (cases "k \<le> n")
  case True
  from assms have "\<exists>js r'. np_choice np r n k = Inr (js, r') \<and> length js = k \<and> distinct js \<and> set js \<subseteq> {..<n}"
    unfolding np_random_ok_def using True by metis
  then show thesis using ok True by blast
next
  case False
  from assms have "np_choice np r n k = Inl ValueError"
    unfolding np_random_ok_def using False by metis
  then show thesis using err False by simp
qed

lemma sample_ok:
  assumes "np_random_ok np" and "k \<le> length xs" and "distinct xs"
  shows "\<exists>ys r'. sample np r xs k = Inr (ys, r') \<and> length ys = k \<and> distinct ys \<and> set ys \<subseteq> set xs"
  using assms(1)
proof (cases rule: np_choice_cases [where k = k and n = "length xs" and r = r])
  case (ok js r')
  then have "inj_on ((!) xs) (set js)" using assms(3) by (intro inj_on_nth) auto
  moreover have "(!) xs ` set js \<subseteq> set xs" using ok by (auto dest!: subsetD)
  ultimately show ?thesis using ok by (simp add: sample_def distinct_map)
next
  case err
  with assms(2) show ?thesis by simp
qed

lemma sample_subset:
  assumes "np_random_ok np" and "sample np r xs k = Inr (ys, r')"
  shows "set ys \<subseteq> set xs \<and> length ys = k \<and> k \<le> length xs"
  using assms(1)
proof (cases rule: np_choice_cases [where k = k and n = "length xs" and r = r])
  case (ok js r'')
  moreover from this have "(!) xs ` set js \<subseteq> set xs" by (auto dest!: subsetD)
  ultimately show ?thesis using assms(2) by (auto simp: sample_def)
next
  case err
  with assms(2) show ?thesis by (simp add: sample_def)
qed

lemma sample1_cases:
  assumes "np_random_ok np"
  obtains (ok) x r' where "xs \<noteq> []" "sample1 np r xs = Inr (x, r')" "x \<in> set xs"
    | (err) "xs = []" "sample1 np r xs = Inl ValueError"
proof (cases "xs = []")
  case True
  with assms have "np_choice1 np r 0 = Inl ValueError" unfolding np_random_ok_def by (metis less_irrefl)
  then show thesis using err True by (simp add: sample1_def)
next
  case False
  then obtain j r' where "np_choice1 np r (length xs) = Inr (j, r')" "j < length xs"
    using assms unfolding np_random_ok_def by (metis length_greater_0_conv)
  then show thesis using ok [of "xs ! j" r'] False by (simp add: sample1_def)
qed

lemma sample_total:
  assumes "np_random_ok np" and "k \<le> length xs"
  shows "\<exists>ys r'. sample np r xs k = Inr (ys, r') \<and> set ys \<subseteq> set xs \<and> length ys = k"
  using assms(1)
proof (cases rule: np_choice_cases [where k = k and n = "length xs" and r = r])
  case (ok js r')
  then have "sample np r xs k = Inr (map (\<lambda>j. xs ! j) js, r')" by (simp add: sample_def)
  with sample_subset [OF assms(1) this] show ?thesis by blast
qed (use assms(2) in simp)

text \<open>A concrete generator that always takes the first choice.\<close>

definition np_first :: "unit np_random" where
  "np_first =
     \<lparr>np_choice = (\<lambda>r n k. if k \<le> n then Inr ([0..<k], r) else Inl ValueError),
      np_choice1 = (\<lambda>r n. if 0 < n then Inr (0, r) else Inl ValueError),
      np_randint = (\<lambda>r lo hi. if lo < hi then Inr (lo, r) else Inl ValueError)\<rparr>"

lemma np_first_ok: "np_random_ok np_first"
  by (auto simp: np_random_ok_def np_first_def)

end
