(* ===== verification/Parallel_Graph.thy ===== *)
theory Parallel_Graph
  imports Simulator
begin

section \<open>The graph of parallel paths\<close>

text \<open>
  Models \<open>build_n_parallel_graph\<close> of \<open>rest_client/path_hopping_simulator.py\<close>: \<open>number_of_paths\<close> chains of
  \<open>path_length\<close> nodes between a source and a sink.  A networkx graph is the list of its nodes in
  insertion order with the list of its (undirected) edges.  The lemmas show that the simple paths from
  source to sink are exactly the chains, so that whatever maximal family of disjoint paths networkx
  returns (\<open>disjoint_paths_ok\<close>, the documented behaviour of \<open>node_disjoint_paths\<close>) consists of all of them.
\<close>

subsection \<open>Building the graph\<close>

record nx_graph =
  g_nodes :: "node list"
  g_edges :: "(node \<times> node) list"

definition nx_empty :: nx_graph where
  "nx_empty = \<lparr>g_nodes = [], g_edges = []\<rparr>"

definition add_node :: "nx_graph \<Rightarrow> node \<Rightarrow> nx_graph" where
  "add_node G n = G\<lparr>g_nodes := set_add (g_nodes G) n\<rparr>"

definition add_edge :: "nx_graph \<Rightarrow> node \<Rightarrow> node \<Rightarrow> nx_graph" where
  "add_edge G u v =
     (let G1 = add_node (add_node G u) v in G1\<lparr>g_edges := set_add (g_edges G1) (link_key (u, v))\<rparr>)"

definition add_chain :: "nat \<Rightarrow> nx_graph \<Rightarrow> int \<Rightarrow> nx_graph \<times> node list \<times> int" where
  "add_chain path_length G counter =
     fold (\<lambda>_ (G, p_i, c). (add_node G c, p_i @ [c], c + 1)) [0..<path_length] (G, [], counter)"

definition add_chains :: "nat \<Rightarrow> nat \<Rightarrow> nx_graph \<times> node list list \<times> int" where
  "add_chains number_of_paths path_length =
     fold (\<lambda>_ (G, paths, c). let (G', p_i, c') = add_chain path_length G c in (G', paths @ [p_i], c'))
       [0..<number_of_paths] (nx_empty, [], 0)"

definition wire_chain :: "node \<Rightarrow> node \<Rightarrow> nx_graph \<Rightarrow> node list \<Rightarrow> nx_graph res" where
  "wire_chain source sink G p_i =
     rbind (py_nth p_i 0) (\<lambda>h.
     let G1 = add_edge G source h
     in rbind (py_nth p_i (- 1)) (\<lambda>l.
        let G2 = add_edge G1 sink l
        in Inr (fold (\<lambda>(u, v) G. add_edge G u v) (pairwise p_i) G2)))"

definition build_n_parallel_graph :: "nat \<Rightarrow> nat \<Rightarrow> (nx_graph \<times> node \<times> node) res" where
  "build_n_parallel_graph number_of_paths path_length =
     (let (G, paths, c) = add_chains number_of_paths path_length;
          source_node = c; sink_node = c + 1
      in rbind (fold_res (wire_chain source_node sink_node) G paths) (\<lambda>G'. Inr (G', source_node, sink_node)))"


subsection \<open>Its nodes and edges\<close>

definition chain :: "nat \<Rightarrow> nat \<Rightarrow> node list" where
  "chain L n = map int [n * L..<n * L + L]"

lemma add_chain_eq:
  assumes "set (g_nodes G) \<subseteq> {..<c}"
  shows "add_chain L G c = (G\<lparr>g_nodes := g_nodes G @ map (\<lambda>k. c + int k) [0..<L]\<rparr>, map (\<lambda>k. c + int k) [0..<L], c + int L)"
proof (induction L)
  case (Suc L)
  have "c + int L \<notin> set (g_nodes G @ map (\<lambda>k. c + int k) [0..<L])" using assms by auto
  then show ?case using Suc by (simp add: add_chain_def add_node_def set_add_def)
qed (simp add: add_chain_def)

lemma chain_alt: "map (\<lambda>k. int (n * L) + int k) [0..<L] = chain L n"
  by (rule nth_equalityI) (simp_all add: chain_def)

lemma add_chains_eq:
  "add_chains N L = (\<lparr>g_nodes = map int [0..<N * L], g_edges = []\<rparr>, map (chain L) [0..<N], int (N * L))"
proof (induction N)
  case (Suc N)
  have sub: "set (g_nodes \<lparr>g_nodes = map int [0..<N * L], g_edges = []\<rparr>) \<subseteq> {..<int (N * L)}"
    by (auto simp del: of_nat_mult)
  have "[0..<Suc N * L] = [0..<N * L] @ [N * L..<N * L + L]"
    using upt_add_eq_append [of 0 "N * L" L] by (simp add: add.commute)
  then have nodes: "map int [0..<Suc N * L] = map int [0..<N * L] @ chain L N" by (simp only: map_append chain_def)
  have "add_chains (Suc N) L = (let (G, paths, c) = add_chains N L; (G', p_i, c') = add_chain L G c in (G', paths @ [p_i], c'))"
    by (simp add: add_chains_def case_prod_unfold Let_def)
  then have "add_chains (Suc N) L = (\<lparr>g_nodes = map int [0..<N * L] @ chain L N, g_edges = []\<rparr>,
      map (chain L) [0..<N] @ [chain L N], int (N * L) + int L)"
    by (simp only: Suc add_chain_eq [OF sub] chain_alt Let_def prod.case nx_graph.simps)
  then show ?case by (simp only: nodes) (simp add: add.commute)
qed (simp add: add_chains_def nx_empty_def)


lemma set_add_edge [simp]:
  "set (g_edges (add_edge G u v)) = insert (link_key (u, v)) (set (g_edges G))"
  "set (g_nodes (add_edge G u v)) = insert u (insert v (set (g_nodes G)))"
  by (auto simp: add_edge_def add_node_def Let_def)

lemma add_edge_fold:
  "set (g_edges (fold (\<lambda>(u, v) G. add_edge G u v) es G)) = link_key ` set es \<union> set (g_edges G)"
  "set (g_nodes (fold (\<lambda>(u, v) G. add_edge G u v) es G)) = fst ` set es \<union> snd ` set es \<union> set (g_nodes G)"
  by (induction es arbitrary: G) auto

lemma set_pairwise_subset: "set (pairwise p) \<subseteq> set p \<times> set p"
  by (cases p) (auto simp: pairwise_def dest: set_zip_leftD set_zip_rightD)

lemma distinct_add_edge: "distinct (g_nodes G) \<Longrightarrow> distinct (g_nodes (add_edge G u v))"
  by (simp add: add_edge_def add_node_def Let_def)

lemma distinct_add_edges: "distinct (g_nodes G) \<Longrightarrow> distinct (g_nodes (fold (\<lambda>(u, v) G. add_edge G u v) es G))"
  by (induction es arbitrary: G) (auto simp: distinct_add_edge)

definition chain_edges :: "node \<Rightarrow> node \<Rightarrow> node list \<Rightarrow> (node \<times> node) set" where
  "chain_edges s t p = insert (link_key (s, hd p)) (insert (link_key (t, last p)) (link_key ` set (pairwise p)))"

lemma wire_chain_ok:
  assumes "p \<noteq> []"
  shows "\<exists>G'. wire_chain s t G p = Inr G' \<and> set (g_edges G') = chain_edges s t p \<union> set (g_edges G)
    \<and> (set p \<subseteq> set (g_nodes G) \<longrightarrow> set (g_nodes G') = insert s (insert t (set (g_nodes G))))
    \<and> (distinct (g_nodes G) \<longrightarrow> distinct (g_nodes G'))"
proof -
  let ?G2 = "add_edge (add_edge G s (hd p)) t (last p)"
  let ?G = "fold (\<lambda>(u, v) G. add_edge G u v) (pairwise p) ?G2"
  have "py_nth p 0 = Inr (hd p)" using assms by (cases p) (simp_all add: py_nth_first)
  then have "wire_chain s t G p = Inr ?G" using assms by (simp add: wire_chain_def py_nth_last)
  moreover have "set (g_edges ?G) = chain_edges s t p \<union> set (g_edges G)"
    by (auto simp: add_edge_fold chain_edges_def)
  moreover have "set (g_nodes ?G) = insert s (insert t (set (g_nodes G)))" if "set p \<subseteq> set (g_nodes G)"
  proof -
    have "fst ` set (pairwise p) \<union> snd ` set (pairwise p) \<subseteq> set p" using set_pairwise_subset [of p] by auto
    moreover have "hd p \<in> set p" "last p \<in> set p" using assms by simp_all
    ultimately show ?thesis using that unfolding add_edge_fold by auto
  qed
  ultimately show ?thesis by (auto intro!: distinct_add_edges distinct_add_edge)
qed

lemma wire_chains_ok:
  assumes "[] \<notin> set ps" and "\<Union> (set ` set ps) \<subseteq> set (g_nodes G)" and "distinct (g_nodes G)"
  shows "\<exists>G'. fold_res (wire_chain s t) G ps = Inr G' \<and> set (g_edges G') = \<Union> (chain_edges s t ` set ps) \<union> set (g_edges G)
    \<and> set (g_nodes G') = (if ps = [] then {} else {s, t}) \<union> set (g_nodes G) \<and> distinct (g_nodes G')"
  using assms
proof (induction ps arbitrary: G)
  case (Cons p ps)
  from wire_chain_ok [of p s t G] Cons.prems obtain G1 where
    1: "wire_chain s t G p = Inr G1" "set (g_edges G1) = chain_edges s t p \<union> set (g_edges G)"
      "set (g_nodes G1) = insert s (insert t (set (g_nodes G)))" "distinct (g_nodes G1)" by auto
  have "[] \<notin> set ps" "\<Union> (set ` set ps) \<subseteq> set (g_nodes G1)" using Cons.prems(1,2) 1(3) by auto
  from Cons.IH [OF this 1(4)] obtain G' where "fold_res (wire_chain s t) G1 ps = Inr G'"
    "set (g_edges G') = \<Union> (chain_edges s t ` set ps) \<union> set (g_edges G1)"
    "set (g_nodes G') = (if ps = [] then {} else {s, t}) \<union> set (g_nodes G1)" "distinct (g_nodes G')" by blast
  then show ?case using 1 by auto
qed simp

lemma chain_props:
  assumes "0 < L"
  shows "chain L n \<noteq> []" "length (chain L n) = L" "k < L \<Longrightarrow> chain L n ! k = int (n * L + k)"
    "hd (chain L n) = int (n * L)" "last (chain L n) = int (n * L + (L - 1))"
proof -
  show l: "length (chain L n) = L" by (simp add: chain_def)
  show ne: "chain L n \<noteq> []" using l assms by auto
  show nth: "chain L n ! k = int (n * L + k)" if "k < L" for k using that by (simp add: chain_def del: of_nat_add of_nat_mult)
  show "hd (chain L n) = int (n * L)" using nth [OF assms] ne by (simp add: hd_conv_nth)
  show "last (chain L n) = int (n * L + (L - 1))" using nth [of "L - 1"] assms ne l by (simp add: last_conv_nth)
qed

lemma chain_in:
  fixes n N k L :: nat
  assumes "n < N" and "k < L"
  shows "n * L + k < N * L"
proof -
  have "n * L + k < n * L + L" by (rule add_strict_left_mono [OF assms(2)])
  also have "\<dots> = Suc n * L" by simp
  also have "\<dots> \<le> N * L" using assms(1) by (intro mult_le_mono1) simp
  finally show ?thesis .
qed

lemma set_chain: "x \<in> set (chain L n) \<longleftrightarrow> (\<exists>k<L. x = int (n * L + k))"
proof
  assume "x \<in> set (chain L n)"
  then obtain m where m: "n * L \<le> m" "m < n * L + L" "x = int m" by (auto simp: chain_def simp del: of_nat_add of_nat_mult)
  then have "n * L + (m - n * L) = m" "m - n * L < L" by linarith+
  then show "\<exists>k<L. x = int (n * L + k)" using m(3) by (intro exI [of _ "m - n * L"]) metis
qed (auto simp: chain_def simp del: of_nat_add of_nat_mult)

lemma build_ok:
  assumes "0 < N" and "0 < L"
  shows "\<exists>G. build_n_parallel_graph N L = Inr (G, int (N * L), int (N * L) + 1)
    \<and> set (g_edges G) = (\<Union>n<N. chain_edges (int (N * L)) (int (N * L) + 1) (chain L n))
    \<and> set (g_nodes G) = int ` {..<N * L + 2} \<and> distinct (g_nodes G)"
proof -
  let ?G = "\<lparr>g_nodes = map int [0..<N * L], g_edges = []\<rparr>"
  have 1: "[] \<notin> set (map (chain L) [0..<N])" using chain_props(1) [OF assms(2)] by (auto dest: sym)
  have "x \<in> int ` {0..<N * L}" if "n < N" "x \<in> set (chain L n)" for n x
  proof -
    from that(2) obtain k where "k < L" "x = int (n * L + k)" unfolding set_chain by blast
    then show ?thesis using chain_in [OF that(1)] by (intro image_eqI [of _ _ "n * L + k"]) simp_all
  qed
  then have 2: "\<Union> (set ` set (map (chain L) [0..<N])) \<subseteq> set (g_nodes ?G)" by auto
  have 3: "distinct (g_nodes ?G)" by (simp add: distinct_map)
  from wire_chains_ok [OF 1 2 3, of "int (N * L)" "int (N * L) + 1"] obtain G where
    G: "fold_res (wire_chain (int (N * L)) (int (N * L) + 1)) ?G (map (chain L) [0..<N]) = Inr G"
      "set (g_edges G) = \<Union> (chain_edges (int (N * L)) (int (N * L) + 1) ` set (map (chain L) [0..<N])) \<union> set (g_edges ?G)"
      "set (g_nodes G) = (if map (chain L) [0..<N] = [] then {} else {int (N * L), int (N * L) + 1}) \<union> set (g_nodes ?G)"
      "distinct (g_nodes G)" by blast
  have "{..<N * L + 2} = {..<N * L} \<union> {N * L, N * L + 1}" by auto
  then have "int ` {..<N * L + 2} = int ` {..<N * L} \<union> {int (N * L), int (N * L) + 1}" by (auto simp del: of_nat_mult)
  then have "set (g_nodes G) = int ` {..<N * L + 2}" using G(3) assms(1) by (auto simp: atLeast0LessThan)
  moreover have "set (g_edges G) = (\<Union>n<N. chain_edges (int (N * L)) (int (N * L) + 1) (chain L n))"
    using G(2) by (auto simp: atLeast0LessThan)
  ultimately show ?thesis using G(1,4) by (simp add: build_n_parallel_graph_def add_chains_eq Let_def)
qed


subsection \<open>Its paths\<close>

definition simple_path :: "nx_graph \<Rightarrow> node \<Rightarrow> node \<Rightarrow> node list \<Rightarrow> bool" where
  "simple_path G s t p \<longleftrightarrow> p \<noteq> [] \<and> distinct p \<and> hd p = s \<and> last p = t
   \<and> (\<forall>e \<in> set (pairwise p). link_key e \<in> set (g_edges G))"

definition disjoint_family :: "nx_graph \<Rightarrow> node \<Rightarrow> node \<Rightarrow> node list list \<Rightarrow> bool" where
  "disjoint_family G s t ps \<longleftrightarrow> distinct ps \<and> (\<forall>p \<in> set ps. simple_path G s t p)
   \<and> (\<forall>p \<in> set ps. \<forall>q \<in> set ps. p \<noteq> q \<longrightarrow> set p \<inter> set q \<subseteq> {s, t})"

definition disjoint_paths_ok :: "(nx_graph \<Rightarrow> node \<Rightarrow> node \<Rightarrow> node list list) \<Rightarrow> nx_graph \<Rightarrow> node \<Rightarrow> node \<Rightarrow> bool" where
  "disjoint_paths_ok nx G s t \<longleftrightarrow> disjoint_family G s t (nx G s t)
   \<and> (\<forall>ps. disjoint_family G s t ps \<longrightarrow> length ps \<le> length (nx G s t))"

lemma nth_pairwise: "Suc k < length p \<Longrightarrow> (p ! k, p ! Suc k) \<in> set (pairwise p)"
proof (induction p arbitrary: k)
  case (Cons x p)
  then show ?case by (cases p; cases k) auto
qed simp

lemma in_pairwise: "e \<in> set (pairwise p) \<Longrightarrow> \<exists>k. Suc k < length p \<and> e = (p ! k, p ! Suc k)"
proof (induction p)
  case (Cons x p)
  show ?case
  proof (cases p)
    case (Cons y q)
    with Cons.prems consider "e = (x, y)" | "e \<in> set (pairwise p)" by auto
    then show ?thesis
    proof cases
      case 1
      then show ?thesis using Cons by (intro exI [of _ 0]) simp
    next
      case 2
      from Cons.IH [OF this] obtain k where "Suc k < length p" "e = (p ! k, p ! Suc k)" by blast
      then show ?thesis by (intro exI [of _ "Suc k"]) simp
    qed
  qed (use Cons.prems in simp)
qed simp

lemma chain_unique:
  fixes n m k j L :: nat
  assumes "n * L + k = m * L + j" and "k < L" and "j < L"
  shows "n = m \<and> k = j"
proof -
  have "(n * L + k) div L = n" "(m * L + j) div L = m" using assms(2,3) by simp_all
  then show ?thesis using assms(1) by simp
qed

lemma chain_edge_cases:
  assumes "link_key (u, v) \<in> chain_edges s t (chain L n)" and "0 < L"
  obtains (source) "(u = s \<and> v = int (n * L)) \<or> (v = s \<and> u = int (n * L))"
    | (sink) "(u = t \<and> v = int (n * L + (L - 1))) \<or> (v = t \<and> u = int (n * L + (L - 1)))"
    | (inner) k where "Suc k < L" "(u = int (n * L + k) \<and> v = int (n * L + Suc k)) \<or> (v = int (n * L + k) \<and> u = int (n * L + Suc k))"
proof -
  from assms(1) consider "link_key (u, v) = link_key (s, int (n * L))"
    | "link_key (u, v) = link_key (t, int (n * L + (L - 1)))" | e where "e \<in> set (pairwise (chain L n))" "link_key (u, v) = link_key e"
    unfolding chain_edges_def chain_props(4,5) [OF assms(2)] by blast
  then show thesis
  proof cases
    case 1
    then show thesis using source unfolding link_key_eq_iff by blast
  next
    case 2
    then show thesis using sink unfolding link_key_eq_iff by blast
  next
    case 3
    from in_pairwise [OF 3(1)] obtain k where k: "Suc k < L" "e = (chain L n ! k, chain L n ! Suc k)"
      using chain_props(2) [OF assms(2)] by auto
    then have "e = (int (n * L + k), int (n * L + Suc k))" using chain_props(3) [OF assms(2)] by simp
    then show thesis using inner [OF k(1)] 3(2) link_key_eq_iff [of u v "int (n * L + k)" "int (n * L + Suc k)"] by blast
  qed
qed

definition full_path :: "nat \<Rightarrow> nat \<Rightarrow> nat \<Rightarrow> node list" where
  "full_path N L n = int (N * L) # chain L n @ [int (N * L) + 1]"

lemma full_path_nth:
  assumes "0 < L"
  shows "length (full_path N L n) = L + 2" "full_path N L n ! 0 = int (N * L)"
    "k < L \<Longrightarrow> full_path N L n ! Suc k = int (n * L + k)" "full_path N L n ! Suc L = int (N * L) + 1"
  using chain_props(2) [OF assms, of n] chain_props(3) [OF assms, of k n] by (simp_all add: full_path_def nth_append)

lemma full_path_simple:
  assumes G: "set (g_edges G) = (\<Union>n<N. chain_edges (int (N * L)) (int (N * L) + 1) (chain L n))"
    and n: "n < N" and L: "0 < L"
  shows "simple_path G (int (N * L)) (int (N * L) + 1) (full_path N L n)"
proof -
  let ?c = "chain L n"
  note c = chain_props(1) [OF L, of n]
  have small: "x < int (N * L)" if "x \<in> set ?c" for x
    using that chain_in [OF n] by (auto simp: set_chain simp del: of_nat_add of_nat_mult)
  have "distinct ?c" by (simp add: chain_def distinct_map)
  then have "distinct (full_path N L n)" using small by (fastforce simp: full_path_def)
  moreover have "link_key e \<in> set (g_edges G)" if e: "e \<in> set (pairwise (full_path N L n))" for e
  proof -
    have "pairwise (full_path N L n) = (int (N * L), hd ?c) # pairwise ?c @ [(last ?c, int (N * L) + 1)]"
      using c pairwise_snoc [of ?c] by (cases ?c) (simp_all add: full_path_def)
    with e have "link_key e \<in> chain_edges (int (N * L)) (int (N * L) + 1) ?c"
      unfolding chain_edges_def by (auto simp: link_key_sym)
    then show ?thesis using G n by blast
  qed
  ultimately show ?thesis by (simp add: simple_path_def full_path_def)
qed


lemma simple_path_chain:
  assumes G: "set (g_edges G) = (\<Union>n<N. chain_edges (int (N * L)) (int (N * L) + 1) (chain L n))"
    and L: "0 < L" and p: "simple_path G (int (N * L)) (int (N * L) + 1) p"
  shows "\<exists>n<N. p = full_path N L n"
proof -
  let ?s = "int (N * L)" and ?t = "int (N * L) + 1"
  have d: "distinct p" "p \<noteq> []" and p0: "p ! 0 = ?s" and pl: "p ! (length p - 1) = ?t"
    using p hd_conv_nth [of p] last_conv_nth [of p] by (auto simp: simple_path_def simp del: of_nat_mult)
  have edge: "\<exists>n<N. link_key (p ! k, p ! Suc k) \<in> chain_edges ?s ?t (chain L n)" if "Suc k < length p" for k
    using p nth_pairwise [OF that] G by (auto simp: simple_path_def)
  have inj: "p ! i = p ! j \<longleftrightarrow> i = j" if "i < length p" "j < length p" for i j
    using d(1) that by (rule nth_eq_iff_index_eq)
  have last_t: "p ! k = ?t \<longleftrightarrow> k = length p - 1" if "k < length p" for k
    using inj [OF that, of "length p - 1"] pl d(2) by auto
  have not_t: "Suc k < length p" if "k < length p" "p ! k \<noteq> ?t" for k
    using last_t [OF that(1)] that by linarith
  have 1: "1 < length p" using not_t [of 0] p0 d(2) by simp
  from edge [of 0] 1 obtain n where n: "n < N" "link_key (?s, p ! 1) \<in> chain_edges ?s ?t (chain L n)" by (auto simp: p0)
  have small: "int (n * L + k) < ?s" if "k < L" for k using chain_in [OF n(1) that] by linarith
  from n(2) L have p1: "p ! 1 = int (n * L)"
  proof (cases rule: chain_edge_cases)
    case source
    then show ?thesis using small [OF L] by auto
  next
    case sink
    then show ?thesis using small [of "L - 1"] L by auto
  next
    case (inner k)
    then show ?thesis using small [of k] small [of "Suc k"] by auto
  qed
  have step: "Suc (Suc k) < length p \<and> p ! Suc (Suc k) = (if Suc k < L then int (n * L + Suc k) else ?t)"
    if k: "k < L" and len1: "Suc k < length p" and before: "\<And>j. j \<le> k \<Longrightarrow> p ! Suc j = int (n * L + j)" for k
  proof -
    have pk: "p ! Suc k = int (n * L + k)" using before by simp
    have len: "Suc (Suc k) < length p" using not_t [OF len1] pk small [OF k] by simp
    from edge [OF len] obtain m where m: "m < N" "link_key (p ! Suc k, p ! Suc (Suc k)) \<in> chain_edges ?s ?t (chain L m)" by blast
    from m(2) L have "p ! Suc (Suc k) = (if Suc k < L then int (n * L + Suc k) else ?t)"
    proof (cases rule: chain_edge_cases)
      case source
      then have "p ! Suc (Suc k) = p ! 0" using pk small [OF k] p0 by auto
      then show ?thesis using inj [OF len, of 0] d(2) by simp
    next
      case sink
      then have s: "n * L + k = m * L + (L - 1)" "p ! Suc (Suc k) = ?t" using pk small [OF k]
        by (auto simp del: of_nat_add of_nat_mult)
      then show ?thesis using chain_unique [OF s(1) k] L by simp
    next
      case (inner j)
      then consider "n * L + k = m * L + j" "p ! Suc (Suc k) = int (m * L + Suc j)"
        | "n * L + k = m * L + Suc j" "p ! Suc (Suc k) = int (m * L + j)" using pk by linarith
      then show ?thesis
      proof cases
        case 1
        then show ?thesis using chain_unique [OF 1(1) k] inner(1) by simp
      next
        case 2
        then have mj: "m = n" "k = Suc j" using chain_unique [OF 2(1) k] inner(1) by auto
        then have "p ! k = p ! Suc (Suc k)" using before [of j] 2(2) by simp
        then show ?thesis using inj [OF _ len, of k] len by simp
      qed
    qed
    then show ?thesis using len by blast
  qed
  have along: "Suc k < length p \<and> (\<forall>j\<le>k. p ! Suc j = int (n * L + j))" if "k < L" for k
    using that
  proof (induction k)
    case 0
    then show ?case using 1 p1 by simp
  next
    case (Suc k)
    then show ?case using step [of k] by (auto simp: le_Suc_eq)
  qed
  have end1: "Suc L < length p" "p ! Suc L = ?t"
    using step [of "L - 1"] along [of "L - 1"] L by auto
  then have len: "length p = L + 2" using last_t [OF end1(1)] by simp
  have "p = full_path N L n"
  proof (rule nth_equalityI)
    show "length p = length (full_path N L n)" using len full_path_nth(1) [OF L] by simp
    fix i
    assume "i < length p"
    then consider "i = 0" | k where "i = Suc k" "k < L" | "i = Suc L" using len by (cases i) (auto simp: less_Suc_eq)
    then show "p ! i = full_path N L n ! i"
      using p0 end1(2) along full_path_nth(2-4) [OF L] by cases (auto simp del: of_nat_add of_nat_mult)
  qed
  then show ?thesis using n(1) by blast
qed

lemma all_chains_family:
  assumes G: "set (g_edges G) = (\<Union>n<N. chain_edges (int (N * L)) (int (N * L) + 1) (chain L n))" and L: "0 < L"
  shows "disjoint_family G (int (N * L)) (int (N * L) + 1) (map (full_path N L) [0..<N])"
proof -
  let ?s = "int (N * L)" and ?t = "int (N * L) + 1"
  let ?all = "map (full_path N L) [0..<N]"
  have inj: "n = m" if "full_path N L n = full_path N L m" for n m
  proof -
    have "int (n * L + 0) = int (m * L + 0)" using that full_path_nth(3) [OF L L] by metis
    then show ?thesis using L by simp
  qed
  have "distinct ?all" using inj by (auto simp: distinct_map inj_on_def)
  moreover have "set (full_path N L n) \<inter> set (full_path N L m) \<subseteq> {?s, ?t}" if "n \<noteq> m" for n m
  proof
    fix x
    assume x: "x \<in> set (full_path N L n) \<inter> set (full_path N L m)"
    show "x \<in> {?s, ?t}"
    proof (rule ccontr)
      assume "x \<notin> {?s, ?t}"
      with x have "x \<in> set (chain L n)" "x \<in> set (chain L m)" by (auto simp: full_path_def)
      then obtain k j where "k < L" "j < L" "n * L + k = m * L + j" by (auto simp: set_chain simp del: of_nat_add of_nat_mult)
      then show False using chain_unique that by blast
    qed
  qed
  then have "set p \<inter> set q \<subseteq> {?s, ?t}" if "p \<in> set ?all" "q \<in> set ?all" "p \<noteq> q" for p q
    using that by (metis (no_types, lifting) ex_map_conv)
  moreover have "\<forall>p \<in> set ?all. simple_path G ?s ?t p"
    using full_path_simple [OF G _ L] by (simp del: of_nat_mult)
  ultimately show ?thesis unfolding disjoint_family_def by blast
qed

lemma disjoint_family_bound:
  assumes G: "set (g_edges G) = (\<Union>n<N. chain_edges (int (N * L)) (int (N * L) + 1) (chain L n))" and L: "0 < L"
    and ps: "disjoint_family G (int (N * L)) (int (N * L) + 1) ps"
  shows "\<forall>p \<in> set ps. \<exists>n<N. p = full_path N L n" and "length ps \<le> N"
proof -
  show shape: "\<forall>p \<in> set ps. \<exists>n<N. p = full_path N L n"
    using ps simple_path_chain [OF G L] unfolding disjoint_family_def by blast
  have "distinct ps" using ps by (simp add: disjoint_family_def)
  then have "length ps = card (set ps)" by (simp add: distinct_card)
  also have "\<dots> \<le> card (full_path N L ` {..<N})" by (rule card_mono) (use shape in auto)
  also have "\<dots> \<le> N" using card_image_le [of "{..<N}" "full_path N L"] by simp
  finally show "length ps \<le> N" .
qed

lemma disjoint_paths_shape:
  assumes G: "set (g_edges G) = (\<Union>n<N. chain_edges (int (N * L)) (int (N * L) + 1) (chain L n))"
    and L: "0 < L" and nx: "disjoint_paths_ok nx G (int (N * L)) (int (N * L) + 1)"
  shows "length (nx G (int (N * L)) (int (N * L) + 1)) = N"
    and "\<forall>p \<in> set (nx G (int (N * L)) (int (N * L) + 1)). \<exists>n<N. p = full_path N L n"
proof -
  let ?ps = "nx G (int (N * L)) (int (N * L) + 1)"
  have fam: "disjoint_family G (int (N * L)) (int (N * L) + 1) ?ps" using nx by (simp only: disjoint_paths_ok_def)
  show "\<forall>p \<in> set ?ps. \<exists>n<N. p = full_path N L n" by (rule disjoint_family_bound(1) [OF G L fam])
  have "N \<le> length ?ps" using nx all_chains_family [OF G L] unfolding disjoint_paths_ok_def
    by (metis length_map length_upt minus_nat.diff_0)
  then show "length ?ps = N" using disjoint_family_bound(2) [OF G L fam] by simp
qed

lemma all_chains_ok:
  assumes "0 < N" and "0 < L" and "build_n_parallel_graph N L = Inr (G, s, t)"
  shows "disjoint_paths_ok (\<lambda>G s t. map (full_path N L) [0..<N]) G s t"
proof -
  from build_ok [OF assms(1,2)] assms(3) have st: "s = int (N * L)" "t = int (N * L) + 1"
    and G: "set (g_edges G) = (\<Union>n<N. chain_edges (int (N * L)) (int (N * L) + 1) (chain L n))" by auto
  show ?thesis unfolding st disjoint_paths_ok_def
    using all_chains_family [OF G assms(2)] disjoint_family_bound(2) [OF G assms(2)] by simp
qed

end
