(* ===== verification/Network_Invariant.thy ===== *)
theory Network_Invariant
  imports Simulator
begin

section \<open>The invariant of the simulated network\<close>

text \<open>
  What theory \<open>Simulator\<close> keeps true: every share in flight is at the node of its path that its age
  names, shares in flight are pairwise different, and for every message the shares received and the
  shares in flight add up to \<open>K\<close>.  The main lemma, \<open>network_step_ok\<close>, says that the network part of a
  simulation step never raises from a state with this invariant and reaches one with it again;
  \<open>share_old_delivered\<close> and \<open>messages_outstanding\<close> are its consequences for the flows.
\<close>

subsection \<open>The network invariant\<close>

text \<open>
  A flow is well formed over the node set \<open>N\<close> when its paths are simple paths of \<open>N\<close> from its source
  to its sink, \<open>K\<close> of them are active, and its counters agree: every message sent is either
  received or still has an entry in \<open>shares_received\<close>.
\<close>

definition path_ok :: "node set \<Rightarrow> ph_flow \<Rightarrow> node list \<Rightarrow> bool" where
  "path_ok N f p \<longleftrightarrow>
     distinct p \<and> 2 \<le> length p \<and> hd p = source_node f \<and> last p = sink_node f \<and> set p \<subseteq> N \<and> - 1 \<notin> set p"

definition flow_static_ok :: "node set \<Rightarrow> int \<Rightarrow> ph_flow \<Rightarrow> bool" where
  "flow_static_ok N i f \<longleftrightarrow>
     flow_id f = i \<and> 0 < flow_K f \<and> flow_K f \<le> length (flow_paths f) \<and> (\<forall>p \<in> set (flow_paths f). path_ok N f p)"

definition flow_active_ok :: "ph_flow \<Rightarrow> bool" where
  "flow_active_ok f \<longleftrightarrow>
     length (active_paths f) = flow_K f \<and> distinct (active_paths f)
   \<and> set (active_paths f) \<subseteq> {..<length (flow_paths f)}"

definition flow_counts_ok :: "ph_flow \<Rightarrow> bool" where
  "flow_counts_ok f \<longleftrightarrow>
     dict_wf (shares_received f) \<and> (\<forall>(q, c) \<in> set (shares_received f). q < seq_num f \<and> c < flow_K f)
   \<and> messages_tx f = seq_num f \<and> messages_rx f + length (shares_received f) = seq_num f"

definition flows_ok :: "node set \<Rightarrow> flows \<Rightarrow> bool" where
  "flows_ok N fs \<longleftrightarrow> dict_wf fs
   \<and> (\<forall>i f. map_of fs i = Some f \<longrightarrow> flow_static_ok N i f \<and> flow_active_ok f \<and> flow_counts_ok f)"

text \<open>
  Where a share is: \<open>share_at fs d k s\<close> says that \<open>s\<close> sits at node \<open>k\<close>, which is the node of its path
  at the position given by its age (the number of messages its flow has sent since, less the lag
  \<open>d\<close> its flow has while a step is under way).
\<close>

definition share_of_flow :: "ph_flow \<Rightarrow> share \<Rightarrow> bool" where
  "share_of_flow f s \<longleftrightarrow>
     share_path_idx s < length (flow_paths f) \<and> share_seq_num s < seq_num f \<and> share_num s < flow_K f
   \<and> share_source_node s = source_node f \<and> share_sink_node s = sink_node f"

definition share_at :: "flows \<Rightarrow> nat \<Rightarrow> node \<Rightarrow> share \<Rightarrow> bool" where
  "share_at fs d k s \<longleftrightarrow>
     (case map_of fs (share_flow_id s) of None \<Rightarrow> False
      | Some f \<Rightarrow> share_of_flow f s
          \<and> (let p = flow_paths f ! share_path_idx s; a = seq_num f - d - share_seq_num s
             in a < length p \<and> p ! a = k))"

text \<open>A share is alive while it has not left the last node of its path.\<close>

definition alive :: "flows \<Rightarrow> share \<Rightarrow> bool" where
  "alive fs s \<longleftrightarrow>
     (case map_of fs (share_flow_id s) of None \<Rightarrow> False
      | Some f \<Rightarrow> seq_num f - share_seq_num s < length (flow_paths f ! share_path_idx s))"

text \<open>The shares the flows are about to send.\<close>

definition new_shares :: "flows \<Rightarrow> share set" where
  "new_shares fs = {s. \<exists>f. map_of fs (share_flow_id s) = Some f \<and> s \<in> set (fst (create_shares f))}"

definition received :: "ph_flow \<Rightarrow> nat \<Rightarrow> nat" where
  "received f q = (case map_of (shares_received f) q of None \<Rightarrow> flow_K f | Some c \<Rightarrow> c)"

definition inflight :: "(node \<times> share) list \<Rightarrow> int \<Rightarrow> nat \<Rightarrow> nat" where
  "inflight L i q = length (filter (\<lambda>(k, s). share_flow_id s = i \<and> share_seq_num s = q) L)"

text \<open>
  The shares in flight are pairwise different, and for every message the shares received and the
  shares in flight add up to \<open>K\<close>.
\<close>

definition shares_ok :: "flows \<Rightarrow> (node \<times> share) list \<Rightarrow> bool" where
  "shares_ok fs L \<longleftrightarrow> distinct (map snd L)
   \<and> (\<forall>i f q. map_of fs i = Some f \<longrightarrow> q < seq_num f \<longrightarrow> received f q + inflight L i q = flow_K f)"

definition located :: "nodes \<Rightarrow> (node \<times> share) list" where
  "located ns = concat (map (\<lambda>(k, n). map (Pair k) (resident_shares n)) ns)"

definition nodes_ok :: "nodes \<Rightarrow> bool" where
  "nodes_ok ns \<longleftrightarrow> dict_wf ns \<and> (\<forall>(k, n) \<in> set ns. node_id n = k)"

definition net_inv :: "nodes \<Rightarrow> flows \<Rightarrow> bool" where
  "net_inv ns fs \<longleftrightarrow> nodes_ok ns \<and> flows_ok (set (dict_keys ns)) fs
   \<and> (\<forall>(k, s) \<in> set (located ns). share_at fs 0 k s) \<and> shares_ok fs (located ns)"

subsection \<open>Every network step keeps the invariant and never raises\<close>

subsubsection \<open>Bookkeeping lemmas\<close>

lemma located_Cons: "located ((k, n) # ns) = map (Pair k) (resident_shares n) @ located ns"
  by (simp add: located_def)

lemma located_Nil [simp]: "located [] = []"
  by (simp add: located_def)

lemma mset_located_set:
  assumes "map_of ns k = Some n"
  shows "mset (located (dict_set ns k n')) + mset (map (Pair k) (resident_shares n))
    = mset (located ns) + mset (map (Pair k) (resident_shares n'))"
  using assms
proof (induction ns)
  case (Cons p ns)
  obtain k0 n0 where p: "p = (k0, n0)" by (cases p)
  show ?case
  proof (cases "k0 = k")
    case True
    then show ?thesis using Cons.prems p by (simp add: dict_set_def located_Cons)
  next
    case False
    then have "mset (located (dict_set ns k n')) + mset (map (Pair k) (resident_shares n))
      = mset (located ns) + mset (map (Pair k) (resident_shares n'))" using Cons p by simp
    then show ?thesis using p False
      by (simp add: dict_set_def located_Cons)
  qed
qed simp

lemma inflight_mset: "inflight L i q = size (filter_mset (\<lambda>(k, s). share_flow_id s = i \<and> share_seq_num s = q) (mset L))"
  unfolding inflight_def mset_filter [symmetric] size_mset ..

lemma inflight_simps [simp]:
  "inflight [] i q = 0"
  "inflight ((k, s) # L) i q = (if share_flow_id s = i \<and> share_seq_num s = q then Suc (inflight L i q) else inflight L i q)"
  "inflight (L @ L') i q = inflight L i q + inflight L' i q"
  by (simp_all add: inflight_def)

lemma shares_ok_perm:
  assumes "mset L = mset L'"
  shows "shares_ok fs L = shares_ok fs L'"
proof -
  have "distinct (map snd L) = distinct (map snd L')"
    using assms by (metis mset_eq_imp_distinct_iff mset_map)
  moreover have "inflight L = inflight L'" using assms by (intro ext) (simp add: inflight_mset)
  ultimately show ?thesis by (simp add: shares_ok_def)
qed

lemma shares_okD:
  "shares_ok fs L \<Longrightarrow> map_of fs i = Some f \<Longrightarrow> q < seq_num f \<Longrightarrow> received f q + inflight L i q = flow_K f"
  by (simp add: shares_ok_def)

text \<open>What a step keeps of a flow, and by how much it advances the sequence number.\<close>

definition flow_frame :: "nat \<Rightarrow> ph_flow \<Rightarrow> ph_flow \<Rightarrow> bool" where
  "flow_frame d f f' \<longleftrightarrow> flow_id f' = flow_id f \<and> source_node f' = source_node f \<and> sink_node f' = sink_node f
   \<and> flow_paths f' = flow_paths f \<and> flow_K f' = flow_K f \<and> seq_num f' = seq_num f + d"

definition flows_frame :: "nat \<Rightarrow> flows \<Rightarrow> flows \<Rightarrow> bool" where
  "flows_frame d fs fs' \<longleftrightarrow> dict_keys fs' = dict_keys fs
   \<and> (\<forall>i f. map_of fs i = Some f \<longrightarrow> (\<exists>f'. map_of fs' i = Some f' \<and> flow_frame d f f'))"

lemma flows_frame_refl: "flows_frame 0 fs fs"
  by (simp add: flows_frame_def flow_frame_def)

lemma flows_frame_trans: "flows_frame d fs fs1 \<Longrightarrow> flows_frame e fs1 fs2 \<Longrightarrow> flows_frame (d + e) fs fs2"
  by (fastforce simp: flows_frame_def flow_frame_def)

lemma alive_frame:
  assumes "flows_frame 0 fs fs'"
  shows "alive fs' s = alive fs s"
proof (cases "map_of fs (share_flow_id s)")
  case None
  moreover from this have "map_of fs' (share_flow_id s) = None"
    using assms by (metis flows_frame_def list.set_map map_of_eq_None_iff)
  ultimately show ?thesis by (simp add: alive_def)
next
  case (Some f)
  then show ?thesis using assms by (fastforce simp: alive_def flows_frame_def flow_frame_def)
qed

lemma nodes_ok_keep:
  assumes "nodes_ok ns" and "map_of ns k = Some n" and "node_id n' = node_id n"
  shows "nodes_ok (dict_set ns k n')"
proof -
  have "node_id n = k" using assms by (auto simp: nodes_ok_def dest!: map_of_SomeD)
  then show ?thesis using assms set_dict_set_subset [of ns k n'] by (auto simp: nodes_ok_def)
qed

lemma dict_keys_set_old: "map_of d k = Some v0 \<Longrightarrow> dict_keys (dict_set d k v) = dict_keys d"
  by (force simp: dest: map_of_SomeD)

lemma flows_frame_upd:
  assumes "map_of fs i = Some f" and "flow_frame 0 f f'"
  shows "flows_frame 0 fs (dict_set fs i f')"
  using assms dict_keys_set_old [OF assms(1), of f'] by (simp add: flows_frame_def) (simp add: flow_frame_def)

lemma deliver_ok:
  assumes "nodes_ok ns" and "k \<in> set (dict_keys ns)" and "s \<notin> snd ` set (located ns)"
  shows "\<exists>ns'. deliver k ns s = Inr ns' \<and> nodes_ok ns' \<and> dict_keys ns' = dict_keys ns
    \<and> mset (located ns') = add_mset (k, s) (mset (located ns))"
proof -
  from assms(2) obtain n where n: "map_of ns k = Some n"
    by (metis map_of_eq_None_iff not_None_eq list.set_map)
  then have "s \<notin> set (resident_shares n)"
    using assms(3) by (force simp: located_def dest!: map_of_SomeD)
  then have res: "resident_shares (node_receive_share n s) = resident_shares n @ [s]"
    by (simp add: node_receive_share_def set_add_def)
  let ?ns = "dict_set ns k (node_receive_share n s)"
  have "mset (located ?ns) + mset (map (Pair k) (resident_shares n))
    = mset (located ns) + mset (map (Pair k) (resident_shares n @ [s]))"
    using mset_located_set [OF n, of "node_receive_share n s"] res by simp
  then have "mset (located ?ns) = add_mset (k, s) (mset (located ns))" by simp
  moreover have "nodes_ok ?ns" by (rule nodes_ok_keep [OF assms(1) n]) (simp add: node_receive_share_def)
  ultimately show ?thesis using n dict_keys_set_old [OF n]
    by (simp add: deliver_def dict_get_def)
qed

lemma deliver_all_ok:
  assumes "nodes_ok ns" and "k \<in> set (dict_keys ns)"
    and "distinct ss" and "set ss \<inter> snd ` set (located ns) = {}"
  shows "\<exists>ns'. fold_res (deliver k) ns ss = Inr ns' \<and> nodes_ok ns' \<and> dict_keys ns' = dict_keys ns
    \<and> mset (located ns') = mset (map (Pair k) ss) + mset (located ns)"
  using assms
proof (induction ss arbitrary: ns)
  case (Cons s ss)
  from deliver_ok [OF Cons.prems(1,2), of s] Cons.prems(4)
  obtain ns1 where ns1: "deliver k ns s = Inr ns1" "nodes_ok ns1" "dict_keys ns1 = dict_keys ns"
    "mset (located ns1) = add_mset (k, s) (mset (located ns))" by auto
  have "set (located ns1) = insert (k, s) (set (located ns))"
    using ns1(4) by (metis set_mset_add_mset_insert set_mset_mset)
  then have "set ss \<inter> snd ` set (located ns1) = {}" using Cons.prems(3,4) by auto
  from Cons.IH [OF ns1(2) _ _ this] Cons.prems ns1(3)
  obtain ns' where "fold_res (deliver k) ns1 ss = Inr ns'" "nodes_ok ns'" "dict_keys ns' = dict_keys ns1"
    "mset (located ns') = mset (map (Pair k) ss) + mset (located ns1)" by auto
  then show ?case using ns1 by auto
qed simp

lemma share_at_upd:
  assumes "map_of fs i = Some f" and "flow_paths f' = flow_paths f" "flow_K f' = flow_K f"
    "seq_num f' = seq_num f" "source_node f' = source_node f" "sink_node f' = sink_node f"
  shows "share_at (dict_set fs i f') d k s = share_at fs d k s"
  using assms by (simp add: share_at_def share_of_flow_def split: option.splits)

lemma flows_ok_upd:
  assumes "flows_ok N fs" and "flow_static_ok N i f" "flow_active_ok f" "flow_counts_ok f"
  shows "flows_ok N (dict_set fs i f)"
  using assms by (auto simp: flows_ok_def)


subsubsection \<open>Injecting shares\<close>

lemma set_create_shares_for:
  "s \<in> set (create_shares_for i src snk q K ps) \<longleftrightarrow>
     share_flow_id s = i \<and> share_seq_num s = q \<and> share_source_node s = src \<and> share_sink_node s = snk
     \<and> share_num s < length ps \<and> share_path_idx s = ps ! share_num s"
proof -
  have "s = \<lparr>share_flow_id = share_flow_id s, share_seq_num = share_seq_num s, share_num = share_num s,
    share_path_idx = share_path_idx s, share_source_node = share_source_node s, share_sink_node = share_sink_node s\<rparr>"
    by simp
  then show ?thesis
    by (auto simp: create_shares_for_def in_set_enumerate_eq image_iff
        intro!: bexI [of _ "(share_num s, share_path_idx s)"])
qed

lemma distinct_create_shares_for: "distinct (create_shares_for i src snk q K ps)"
proof -
  have "inj_on (\<lambda>(n, p). \<lparr>share_flow_id = i, share_seq_num = q, share_num = n, share_path_idx = p,
        share_source_node = src, share_sink_node = snk\<rparr>) A" for A
    by (auto simp: inj_on_def)
  then show ?thesis by (simp add: create_shares_for_def distinct_map distinct_enumerate)
qed

lemma length_create_shares_for [simp]: "length (create_shares_for i src snk q K ps) = length ps"
  by (simp add: create_shares_for_def)

lemma inflight_new_shares:
  "inflight (map (Pair k) (create_shares_for i src snk q K ps)) j q' =
     (if j = i \<and> q' = q then length ps else 0)"
proof -
  let ?L = "create_shares_for i src snk q K ps"
  have "inflight (map (Pair k) ?L) j q' = length (filter (\<lambda>s. share_flow_id s = j \<and> share_seq_num s = q') ?L)"
    by (simp add: inflight_def comp_def)
  also have "filter (\<lambda>s. share_flow_id s = j \<and> share_seq_num s = q') ?L = (if j = i \<and> q' = q then ?L else [])"
    by (auto simp: set_create_shares_for filter_empty_conv intro!: filter_True)
  finally show ?thesis by simp
qed

definition sent :: "ph_flow \<Rightarrow> ph_flow" where
  "sent f = f\<lparr>messages_tx := messages_tx f + 1, seq_num := seq_num f + 1,
        shares_received := dict_set (shares_received f) (seq_num f) 0\<rparr>"

lemma sent_simps [simp]:
  "flow_id (sent f) = flow_id f" "source_node (sent f) = source_node f" "sink_node (sent f) = sink_node f"
  "flow_paths (sent f) = flow_paths f" "active_paths (sent f) = active_paths f" "flow_K (sent f) = flow_K f"
  "seq_num (sent f) = Suc (seq_num f)" "messages_tx (sent f) = Suc (messages_tx f)"
  "messages_rx (sent f) = messages_rx f"
  "shares_received (sent f) = dict_set (shares_received f) (seq_num f) 0"
  by (simp_all add: sent_def)

lemma create_shares_eq:
  "create_shares f =
     (create_shares_for (flow_id f) (source_node f) (sink_node f) (seq_num f) (flow_K f) (active_paths f), sent f)"
  by (simp add: create_shares_def get_next_seq_num_def sent_def)

lemma flow_counts_ok_send:
  assumes "flow_counts_ok f" and "0 < flow_K f"
  shows "flow_counts_ok (sent f)"
proof -
  have new: "seq_num f \<notin> set (dict_keys (shares_received f))"
    using assms(1) by (auto simp: flow_counts_ok_def)
  show ?thesis using assms length_dict_set_new [OF new, of 0] set_dict_set_subset [of "shares_received f" "seq_num f" 0]
    by (fastforce simp: flow_counts_ok_def)
qed


lemma share_at_sent_old:
  assumes "map_of fs i = Some f" and "share_at fs (d (share_flow_id s)) k s" and "d i = 0"
  shows "share_at (dict_set fs i (sent f)) ((d(i := 1)) (share_flow_id s)) k s"
  using assms by (auto simp: share_at_def share_of_flow_def Let_def split: option.splits)

lemma share_at_sent_new:
  assumes f: "flow_static_ok N i f" "flow_active_ok f"
    and s: "s \<in> set (create_shares_for (flow_id f) (source_node f) (sink_node f) (seq_num f) (flow_K f) (active_paths f))"
  shows "share_at (dict_set fs i (sent f)) 1 (source_node f) s"
proof -
  from s have s': "share_flow_id s = i" "share_seq_num s = seq_num f" "share_num s < flow_K f"
    "share_source_node s = source_node f" "share_sink_node s = sink_node f"
    "share_path_idx s \<in> set (active_paths f)"
    using f by (auto simp: set_create_shares_for flow_static_ok_def flow_active_ok_def)
  then have idx: "share_path_idx s < length (flow_paths f)" using f(2) by (auto simp: flow_active_ok_def)
  then have "path_ok N f (flow_paths f ! share_path_idx s)" using f(1) by (simp add: flow_static_ok_def)
  then have "flow_paths f ! share_path_idx s \<noteq> []" "hd (flow_paths f ! share_path_idx s) = source_node f"
    by (auto simp: path_ok_def)
  then show ?thesis using s' idx by (simp add: share_at_def share_of_flow_def hd_conv_nth)
qed

lemma shares_ok_sent:
  assumes fs: "map_of fs i = Some f" "flow_static_ok N i f" "flow_active_ok f"
    and ok: "shares_ok fs L" and at: "\<forall>(k, s) \<in> set L. share_at fs (d (share_flow_id s)) k s"
  shows "shares_ok (dict_set fs i (sent f))
    (map (Pair (source_node f)) (create_shares_for (flow_id f) (source_node f) (sink_node f) (seq_num f) (flow_K f) (active_paths f)) @ L)"
    (is "shares_ok ?fs (map (Pair ?k) ?new @ L)")
proof -
  have old: "share_seq_num s < seq_num f" if "(k, s) \<in> set L" "share_flow_id s = i" for k s
    using at that fs(1) by (fastforce simp: share_at_def share_of_flow_def)
  have disj: "set ?new \<inter> snd ` set L = {}"
    using old fs(2) by (fastforce simp: set_create_shares_for flow_static_ok_def)
  have zero: "inflight L i (seq_num f) = 0"
    using old by (fastforce simp: inflight_def filter_empty_conv)
  have "received g q + inflight (map (Pair ?k) ?new @ L) j q = flow_K g"
    if "map_of ?fs j = Some g" "q < seq_num g" for j g q
  proof (cases "j = i")
    case True
    then have g: "g = sent f" using that(1) by simp
    show ?thesis
    proof (cases "q = seq_num f")
      case True
      then show ?thesis using g \<open>j = i\<close> zero fs
        by (simp add: received_def inflight_new_shares flow_static_ok_def flow_active_ok_def)
    next
      case False
      then have "q < seq_num f" using that(2) g by simp
      then have "received f q + inflight L i q = flow_K f" using ok fs(1) by (simp add: shares_ok_def)
      then show ?thesis using g \<open>j = i\<close> False by (simp add: received_def inflight_new_shares split: option.splits)
    qed
  next
    case False
    then have "received g q + inflight L j q = flow_K g" using ok that by (simp add: shares_ok_def)
    then show ?thesis using False fs(2) by (simp add: inflight_new_shares flow_static_ok_def)
  qed
  moreover have "distinct (map snd (map (Pair ?k) ?new @ L))"
    using disj ok distinct_create_shares_for by (auto simp: shares_ok_def comp_def)
  ultimately show ?thesis by (simp add: shares_ok_def)
qed


lemma inject_flow_ok:
  assumes ns: "nodes_ok ns" and fs: "flows_ok (set (dict_keys ns)) fs" "map_of fs i = Some f"
    and at: "\<forall>(k, s) \<in> set (located ns). share_at fs (d (share_flow_id s)) k s" and ok: "shares_ok fs (located ns)"
    and d: "d i = 0"
  shows "\<exists>ns'. inject_flow (ns, fs) i = Inr (ns', dict_set fs i (sent f)) \<and> nodes_ok ns'
    \<and> dict_keys ns' = dict_keys ns \<and> flows_ok (set (dict_keys ns)) (dict_set fs i (sent f))
    \<and> (\<forall>(k, s) \<in> set (located ns'). share_at (dict_set fs i (sent f)) ((d(i := 1)) (share_flow_id s)) k s)
    \<and> shares_ok (dict_set fs i (sent f)) (located ns')
    \<and> snd ` set (located ns') = snd ` set (located ns) \<union> set (fst (create_shares f))"
proof -
  let ?new = "create_shares_for (flow_id f) (source_node f) (sink_node f) (seq_num f) (flow_K f) (active_paths f)"
  let ?fs = "dict_set fs i (sent f)"
  from fs have f: "flow_static_ok (set (dict_keys ns)) i f" "flow_active_ok f" "flow_counts_ok f"
    by (auto simp: flows_ok_def)
  have src: "source_node f \<in> set (dict_keys ns)"
  proof -
    from f(1) have "flow_paths f \<noteq> []" by (auto simp: flow_static_ok_def)
    then have "path_ok (set (dict_keys ns)) f (hd (flow_paths f))" using f(1) by (simp add: flow_static_ok_def)
    then show ?thesis by (metis hd_in_set list.size(3) not_numeral_le_zero path_ok_def subsetD)
  qed
  have sok: "shares_ok ?fs (map (Pair (source_node f)) ?new @ located ns)"
    by (rule shares_ok_sent [OF fs(2) f(1,2) ok at])
  then have "set ?new \<inter> snd ` set (located ns) = {}" by (auto simp: shares_ok_def comp_def)
  from deliver_all_ok [OF ns src distinct_create_shares_for this]
  obtain ns' where ns': "fold_res (deliver (source_node f)) ns ?new = Inr ns'" "nodes_ok ns'"
    "dict_keys ns' = dict_keys ns" "mset (located ns') = mset (map (Pair (source_node f)) ?new) + mset (located ns)"
    by blast
  have perm: "mset (located ns') = mset (map (Pair (source_node f)) ?new @ located ns)"
    using ns'(4) by simp
  then have "shares_ok ?fs (located ns')" using sok shares_ok_perm by blast
  moreover have "snd ` set (located ns') = snd ` set (located ns) \<union> set (fst (create_shares f))"
    using mset_eq_setD [OF perm] by (auto simp: image_Un image_image create_shares_eq)
  moreover have "share_at ?fs ((d(i := 1)) (share_flow_id s)) k s" if "(k, s) \<in> set (located ns')" for k s
  proof -
    from that mset_eq_setD [OF perm] consider "k = source_node f" "s \<in> set ?new" | "(k, s) \<in> set (located ns)"
      by auto
    then show ?thesis
    proof cases
      case 1
      then have "share_flow_id s = i" using f(1) by (simp add: set_create_shares_for flow_static_ok_def)
      then show ?thesis using share_at_sent_new [OF f(1,2) 1(2)] 1(1) by simp
    next
      case 2
      then show ?thesis using share_at_sent_old [where d = d, OF fs(2) _ d] at by fastforce
    qed
  qed
  moreover have "flows_ok (set (dict_keys ns)) ?fs"
    by (rule flows_ok_upd [OF fs(1)])
       (use f flow_counts_ok_send [OF f(3)] in \<open>auto simp: flow_static_ok_def flow_active_ok_def path_ok_def\<close>)
  moreover have "inject_flow (ns, fs) i = Inr (ns', ?fs)"
    using fs(2) ns'(1) by (simp add: inject_flow_def dict_get_def create_shares_eq)
  ultimately show ?thesis using ns' by blast
qed


text \<open>The invariant while the flows are being injected: flow \<open>i\<close> lags by \<open>d i\<close>.\<close>

definition mid_inv :: "(int \<Rightarrow> nat) \<Rightarrow> nodes \<Rightarrow> flows \<Rightarrow> bool" where
  "mid_inv d ns fs \<longleftrightarrow> nodes_ok ns \<and> flows_ok (set (dict_keys ns)) fs
   \<and> (\<forall>(k, s) \<in> set (located ns). share_at fs (d (share_flow_id s)) k s) \<and> shares_ok fs (located ns)"

lemma net_inv_mid: "net_inv ns fs \<longleftrightarrow> mid_inv (\<lambda>_. 0) ns fs"
  by (simp add: net_inv_def mid_inv_def)

definition sent_from :: "flows \<Rightarrow> int list \<Rightarrow> flows \<Rightarrow> bool" where
  "sent_from fs is fs' \<longleftrightarrow> (\<forall>i. map_of fs' i = (if i \<in> set is then map_option sent (map_of fs i) else map_of fs i))"

lemma create_shares_flow_id: "s \<in> set (fst (create_shares f)) \<Longrightarrow> share_flow_id s = flow_id f"
  by (simp add: create_shares_eq set_create_shares_for)

lemma new_shares_of:
  assumes "map_of fs i = Some f" and "flow_id f = i"
  shows "set (fst (create_shares f)) = {s \<in> new_shares fs. share_flow_id s = i}"
proof (intro set_eqI iffI)
  fix s
  assume s: "s \<in> set (fst (create_shares f))"
  then have "share_flow_id s = i" using create_shares_flow_id assms(2) by simp
  then show "s \<in> {s \<in> new_shares fs. share_flow_id s = i}" using s assms(1) by (simp add: new_shares_def)
next
  fix s
  assume "s \<in> {s \<in> new_shares fs. share_flow_id s = i}"
  then obtain g where "map_of fs i = Some g" "s \<in> set (fst (create_shares g))" unfolding new_shares_def by blast
  then show "s \<in> set (fst (create_shares f))" using assms(1) by simp
qed

lemma inject_list_ok:
  assumes "mid_inv d ns fs" and "distinct is" and "set is \<subseteq> set (dict_keys fs)" and "\<forall>i \<in> set is. d i = 0"
  shows "\<exists>ns' fs'. fold_res inject_flow (ns, fs) is = Inr (ns', fs') \<and> dict_keys ns' = dict_keys ns
    \<and> dict_keys fs' = dict_keys fs \<and> sent_from fs is fs' \<and> mid_inv (\<lambda>i. if i \<in> set is then 1 else d i) ns' fs'
    \<and> snd ` set (located ns') = snd ` set (located ns) \<union> {s \<in> new_shares fs. share_flow_id s \<in> set is}"
  using assms
proof (induction "is" arbitrary: ns fs d)
  case Nil
  then show ?case by (simp add: sent_from_def)
next
  case (Cons i "is")
  from Cons.prems(3) obtain f where f: "map_of fs i = Some f"
    by (metis list.set_intros(1) list.set_map map_of_eq_None_iff not_None_eq subsetD)
  from Cons.prems(1,4) have pre: "nodes_ok ns" "flows_ok (set (dict_keys ns)) fs" "shares_ok fs (located ns)"
    "\<forall>(k, s) \<in> set (located ns). share_at fs (d (share_flow_id s)) k s" "d i = 0" by (simp_all add: mid_inv_def)
  from inject_flow_ok [where d = d, OF pre(1,2) f pre(4,3,5)] obtain ns1 where
    ns1: "inject_flow (ns, fs) i = Inr (ns1, dict_set fs i (sent f))" "dict_keys ns1 = dict_keys ns"
    "nodes_ok ns1" "flows_ok (set (dict_keys ns)) (dict_set fs i (sent f))"
    "\<forall>(k, s) \<in> set (located ns1). share_at (dict_set fs i (sent f)) ((d(i := 1)) (share_flow_id s)) k s"
    "shares_ok (dict_set fs i (sent f)) (located ns1)"
    and loc1: "snd ` set (located ns1) = snd ` set (located ns) \<union> set (fst (create_shares f))"
    by (elim exE conjE) (rule that)
  then have mid1: "mid_inv (d(i := 1)) ns1 (dict_set fs i (sent f))" by (simp only: mid_inv_def simp_thms)
  have keys: "dict_keys (dict_set fs i (sent f)) = dict_keys fs" by (rule dict_keys_set_old [OF f])
  have "distinct is" "set is \<subseteq> set (dict_keys (dict_set fs i (sent f)))" "\<forall>j \<in> set is. (d(i := 1)) j = 0"
    using Cons.prems by (auto simp only: keys distinct.simps list.set fun_upd_apply) auto
  from Cons.IH [OF mid1 this, unfolded keys] obtain ns' fs' where
    r: "fold_res inject_flow (ns1, dict_set fs i (sent f)) is = Inr (ns', fs')" "dict_keys ns' = dict_keys ns1"
    "dict_keys fs' = dict_keys fs" "sent_from (dict_set fs i (sent f)) is fs'"
    "mid_inv (\<lambda>j. if j \<in> set is then 1 else (d(i := 1)) j) ns' fs'"
    "snd ` set (located ns') = snd ` set (located ns1) \<union> {s \<in> new_shares (dict_set fs i (sent f)). share_flow_id s \<in> set is}"
    by (elim exE conjE) (rule that)
  have new: "{s \<in> new_shares (dict_set fs i (sent f)). share_flow_id s \<in> set is} = {s \<in> new_shares fs. share_flow_id s \<in> set is}"
    using Cons.prems(2) by (auto simp: new_shares_def)
  have "flow_static_ok (set (dict_keys ns)) i f" using pre(2) f by (simp only: flows_ok_def)
  then have "flow_id f = i" by (simp only: flow_static_ok_def)
  then have "set (fst (create_shares f)) = {s \<in> new_shares fs. share_flow_id s = i}"
    by (rule new_shares_of [OF f])
  then have loc: "snd ` set (located ns') = snd ` set (located ns) \<union> {s \<in> new_shares fs. share_flow_id s \<in> set (i # is)}"
    unfolding r(6) loc1 new by auto
  have "sent_from fs (i # is) fs'" using r(4) f Cons.prems(2) by (auto simp: sent_from_def)
  moreover have "(\<lambda>j. if j \<in> set is then 1 else (d(i := 1)) j) = (\<lambda>j. if j \<in> set (i # is) then 1 else d j)"
    by auto
  moreover have "fold_res inject_flow (ns, fs) (i # is) = Inr (ns', fs')" using ns1(1) r(1) by simp
  moreover have "dict_keys ns' = dict_keys ns" unfolding r(2) ns1(2) ..
  ultimately show ?case using r(3,5) loc by (intro exI [of _ ns'] exI [of _ fs'] conjI) (simp_all only:)
qed

lemma inject_all_ok:
  assumes "net_inv ns fs"
  shows "\<exists>ns' fs'. inject_all ns fs = Inr (ns', fs') \<and> dict_keys ns' = dict_keys ns
    \<and> dict_keys fs' = dict_keys fs \<and> sent_from fs (dict_keys fs) fs' \<and> mid_inv (\<lambda>_. 1) ns' fs'
    \<and> snd ` set (located ns') = snd ` set (located ns) \<union> new_shares fs"
proof -
  have inv: "mid_inv (\<lambda>_. 0) ns fs" and wf: "distinct (dict_keys fs)"
    using assms by (auto simp: net_inv_mid mid_inv_def flows_ok_def dict_wf_def)
  from inject_list_ok [OF inv wf] obtain ns' fs' where
    r: "inject_all ns fs = Inr (ns', fs')" "dict_keys ns' = dict_keys ns" "dict_keys fs' = dict_keys fs"
      "sent_from fs (dict_keys fs) fs'" "mid_inv (\<lambda>i. if i \<in> set (dict_keys fs) then 1 else 0) ns' fs'"
      "snd ` set (located ns') = snd ` set (located ns) \<union> {s \<in> new_shares fs. share_flow_id s \<in> set (dict_keys fs)}"
    unfolding inject_all_def by auto
  have "{s \<in> new_shares fs. share_flow_id s \<in> set (dict_keys fs)} = new_shares fs"
    by (force simp: new_shares_def dest: map_of_SomeD)
  note loc = r(6) [unfolded this]
  have "share_at fs' 1 k s" if "(k, s) \<in> set (located ns')" for k s
  proof -
    have *: "share_at fs' (if share_flow_id s \<in> set (dict_keys fs) then 1 else 0) k s"
      using r(5) that unfolding mid_inv_def by (metis (no_types, lifting) case_prodD)
    then have "share_flow_id s \<in> set (dict_keys fs')"
      by (auto simp: share_at_def split: option.splits dest!: map_of_SomeD) force
    then have "share_flow_id s \<in> set (dict_keys fs)" by (simp only: r(3))
    with * show ?thesis by (simp only: if_True)
  qed
  then have "mid_inv (\<lambda>_. 1) ns' fs'" using r(5) by (simp add: mid_inv_def case_prod_unfold)
  with r(1-4) loc show ?thesis by blast
qed

subsubsection \<open>Moving shares\<close>

definition pend_located :: "pending \<Rightarrow> (node \<times> share) list" where
  "pend_located pend = concat (map (\<lambda>(k, ss). map (Pair k) ss) pend)"

lemma pend_located_simps [simp]:
  "pend_located [] = []" "pend_located ((k, ss) # pend) = map (Pair k) ss @ pend_located pend"
  by (simp_all add: pend_located_def)

lemma mset_pend_add:
  assumes "s \<notin> snd ` set (pend_located pend)"
  shows "mset (pend_located (dict_set pend k (set_add (dict_get_default pend k []) s)))
    = add_mset (k, s) (mset (pend_located pend))"
  using assms
proof (induction pend)
  case Nil
  then show ?case by (simp add: dict_set_def dict_get_default_def set_add_def)
next
  case (Cons p pend)
  obtain k0 ss where p: "p = (k0, ss)" by (cases p)
  show ?case
  proof (cases "k0 = k")
    case True
    with Cons.prems p have "s \<notin> set ss" by force
    then show ?thesis using p True by (simp add: dict_set_def dict_get_default_def set_add_def)
  next
    case False
    have "s \<notin> snd ` set (pend_located pend)" using Cons.prems p by force
    from Cons.IH [OF this] show ?thesis using p False
      by (simp add: dict_set_def dict_get_default_def)
  qed
qed

text \<open>
  The invariant of the move loop: the shares still to be moved (\<open>R\<close>) are where they were, the ones
  moved (\<open>pend\<close>) are one position further.
\<close>

definition move_inv :: "node set \<Rightarrow> (node \<times> share) list \<Rightarrow> flows \<times> pending \<Rightarrow> bool" where
  "move_inv N R = (\<lambda>(fs, pend). flows_ok N fs \<and> dict_wf pend
     \<and> (\<forall>(k, s) \<in> set R. share_at fs 1 k s) \<and> (\<forall>(k, s) \<in> set (pend_located pend). share_at fs 0 k s)
     \<and> shares_ok fs (R @ pend_located pend))"

lemma next_hop_cases:
  assumes fs: "flows_ok N fs" and at: "share_at fs 1 k s" and k: "node_id n = k"
  obtains (sink) f where "map_of fs (share_flow_id s) = Some f" "get_next_hop_for_share f s n = Inr (- 1)"
      "\<not> alive fs s"
    | (hop) f h where "map_of fs (share_flow_id s) = Some f" "get_next_hop_for_share f s n = Inr h" "h \<noteq> - 1"
      "share_at fs 0 h s" "h \<in> N" "alive fs s"
proof -
  obtain f where f: "map_of fs (share_flow_id s) = Some f" using at
    by (auto simp: share_at_def split: option.splits)
  define p where "p = flow_paths f ! share_path_idx s"
  define a where "a = seq_num f - 1 - share_seq_num s"
  have s: "share_of_flow f s" "a < length p" "p ! a = k"
    using at f by (auto simp: share_at_def p_def a_def Let_def)
  have ok: "path_ok N f p" using fs f s(1)
    by (auto simp: flows_ok_def flow_static_ok_def share_of_flow_def p_def)
  have idx: "py_index p k = Inr a" using py_index_distinct [of p a] ok s by (simp add: path_ok_def)
  have nh: "get_next_hop_for_share f s n = (if a + 1 = length p then Inr (- 1) else Inr (p ! (a + 1)))"
    using s idx k by (simp add: get_next_hop_for_share_def share_of_flow_def p_def [symmetric] Let_def)
       (metis Suc_lessI py_nth_nat of_nat_Suc)
  show thesis
  proof (cases "a + 1 = length p")
    case True
    moreover from this have "seq_num f - share_seq_num s = length p" using s(1) by (auto simp: a_def share_of_flow_def)
    ultimately show thesis using sink f nh by (simp add: alive_def p_def)
  next
    case False
    then have a1: "a + 1 < length p" using s(2) by simp
    then have mem: "p ! (a + 1) \<in> set p" by (rule nth_mem)
    have "a + 1 = seq_num f - 0 - share_seq_num s" using s(1) by (auto simp: a_def share_of_flow_def)
    then have "share_at fs 0 (p ! (a + 1)) s" using f s(1) a1 by (simp add: share_at_def p_def Let_def)
    moreover have "p ! (a + 1) \<noteq> - 1" "p ! (a + 1) \<in> N" using mem ok by (auto simp: path_ok_def)
    moreover have "alive fs s" using calculation(1) f by (auto simp: alive_def share_at_def Let_def)
    ultimately show thesis using hop [OF f, of "p ! (a + 1)"] nh False by simp
  qed
qed


lemma flow_receive_share_ok:
  assumes f: "flow_counts_ok f" and c: "map_of (shares_received f) (share_seq_num s) = Some c"
  shows "\<exists>f'. flow_receive_share f s = Inr f' \<and> flow_counts_ok f' \<and> flow_id f' = flow_id f
    \<and> source_node f' = source_node f \<and> sink_node f' = sink_node f \<and> flow_paths f' = flow_paths f
    \<and> active_paths f' = active_paths f \<and> flow_K f' = flow_K f \<and> seq_num f' = seq_num f
    \<and> (\<forall>q. received f' q = (if q = share_seq_num s then Suc (received f q) else received f q))"
proof -
  let ?q = "share_seq_num s"
  have wf: "dict_wf (shares_received f)" and cK: "c < flow_K f"
    using f c by (auto simp: flow_counts_ok_def dest!: map_of_SomeD)
  have key: "?q \<in> set (dict_keys (shares_received f))" using c by (force dest: map_of_SomeD)
  show ?thesis
  proof (cases "c + 1 = flow_K f")
    case True
    let ?f = "f\<lparr>messages_rx := messages_rx f + 1,
      shares_received := dict_del (dict_set (shares_received f) ?q (c + 1)) ?q\<rparr>"
    have "flow_receive_share f s = Inr ?f" using True c by (simp add: flow_receive_share_def dict_get_def Let_def)
    moreover have "received ?f q = (if q = ?q then Suc (received f q) else received f q)" for q
      using True c by (auto simp: received_def split: option.splits)
    moreover have "flow_counts_ok ?f"
    proof -
      have "Suc (length (dict_del (dict_set (shares_received f) ?q (c + 1)) ?q)) = length (shares_received f)"
        using length_dict_del [OF dict_wf_set [OF wf], of ?q ?q "c + 1"] length_dict_set_old [OF key] key by simp
      moreover have "set (dict_del (dict_set (shares_received f) ?q (c + 1)) ?q) \<subseteq> set (shares_received f)"
        using dict_wf_map_of_in [OF wf] dict_wf_map_of_in [OF dict_wf_del [OF dict_wf_set [OF wf]]]
        by (auto split: if_splits)
      ultimately show ?thesis using f wf by (auto simp: flow_counts_ok_def)
    qed
    ultimately show ?thesis by simp
  next
    case False
    let ?f = "f\<lparr>shares_received := dict_set (shares_received f) ?q (c + 1)\<rparr>"
    have "flow_receive_share f s = Inr ?f" using False c by (simp add: flow_receive_share_def dict_get_def Let_def)
    moreover have "received ?f q = (if q = ?q then Suc (received f q) else received f q)" for q
      using c by (auto simp: received_def split: option.splits)
    moreover have "flow_counts_ok ?f"
      using f wf False cK c length_dict_set_old [OF key, of "c + 1"] set_dict_set_subset [of "shares_received f" ?q "c + 1"]
      by (fastforce simp: flow_counts_ok_def dest: map_of_SomeD)
    ultimately show ?thesis by simp
  qed
qed

lemma move_share_ok:
  assumes inv: "move_inv N ((k, s) # R) (fs, pend)" and n: "node_id n = k"
    and N: "set (dict_keys pend) \<subseteq> N"
  shows "\<exists>fs' pend'. move_share n (fs, pend) s = Inr (fs', pend') \<and> move_inv N R (fs', pend')
    \<and> set (dict_keys pend') \<subseteq> N \<and> flows_frame 0 fs fs'
    \<and> snd ` set (pend_located pend') = snd ` set (pend_located pend) \<union> {t \<in> {s}. alive fs t}"
proof -
  from inv have fs: "flows_ok N fs" and at: "share_at fs 1 k s"
    and atR: "\<forall>(k, s) \<in> set R. share_at fs 1 k s" and atP: "\<forall>(k, s) \<in> set (pend_located pend). share_at fs 0 k s"
    and ok: "shares_ok fs (((k, s) # R) @ pend_located pend)" and wfp: "dict_wf pend"
    by (auto simp: move_inv_def)
  let ?i = "share_flow_id s" and ?q = "share_seq_num s"
  have sp: "s \<notin> snd ` set (pend_located pend)" using ok by (auto simp: shares_ok_def)
  show ?thesis
    using fs at n
  proof (cases rule: next_hop_cases)
    case (hop f h)
    let ?pend = "dict_set pend h (set_add (dict_get_default pend h []) s)"
    have m: "mset (pend_located ?pend) = add_mset (h, s) (mset (pend_located pend))"
      by (rule mset_pend_add [OF sp])
    have "shares_ok fs (R @ pend_located ?pend) = shares_ok fs ((h, s) # R @ pend_located pend)"
      by (rule shares_ok_perm) (simp add: m)
    moreover have "shares_ok fs ((h, s) # R @ pend_located pend) = shares_ok fs (((k, s) # R) @ pend_located pend)"
      by (simp add: shares_ok_def)
    moreover have ins: "set (pend_located ?pend) = insert (h, s) (set (pend_located pend))"
      using m by (metis set_mset_add_mset_insert set_mset_mset)
    ultimately have "move_inv N R (fs, ?pend)" using ok fs atR atP hop(4) wfp by (simp add: move_inv_def)
    moreover have "move_share n (fs, pend) s = Inr (fs, ?pend)"
      using hop by (simp add: move_share_def dict_get_def)
    moreover have "set (dict_keys ?pend) \<subseteq> N" using N hop(5) by (simp only: dict_keys_set) auto
    moreover have "snd ` set (pend_located ?pend) = snd ` set (pend_located pend) \<union> {t \<in> {s}. alive fs t}"
      using ins hop(6) by auto
    ultimately show ?thesis using flows_frame_refl by blast
  next
    case (sink f)
    have sq: "?q < seq_num f" using at sink(1) by (auto simp: share_at_def share_of_flow_def)
    have f: "flow_static_ok N ?i f" "flow_active_ok f" "flow_counts_ok f" using fs sink(1) by (auto simp: flows_ok_def)
    have "received f ?q + inflight (((k, s) # R) @ pend_located pend) ?i ?q = flow_K f"
      by (rule shares_okD [OF ok sink(1) sq])
    then have "received f ?q < flow_K f" by simp
    then obtain c where "map_of (shares_received f) ?q = Some c"
      by (cases "map_of (shares_received f) ?q") (auto simp: received_def)
    from flow_receive_share_ok [OF f(3) this] obtain f' where
      f': "flow_receive_share f s = Inr f'" "flow_counts_ok f'" "flow_id f' = flow_id f"
      "source_node f' = source_node f" "sink_node f' = sink_node f" "flow_paths f' = flow_paths f"
      "active_paths f' = active_paths f" "flow_K f' = flow_K f" "seq_num f' = seq_num f"
      "\<And>q. received f' q = (if q = ?q then Suc (received f q) else received f q)" by blast
    let ?fs = "dict_set fs ?i f'"
    have at_eq: "share_at ?fs d k' t = share_at fs d k' t" for d k' t
      by (rule share_at_upd [OF sink(1)]) (use f' in simp_all)
    have "flows_ok N ?fs"
      by (rule flows_ok_upd [OF fs]) (use f f' in \<open>simp_all add: flow_static_ok_def flow_active_ok_def path_ok_def\<close>)
    moreover have "shares_ok ?fs (R @ pend_located pend)"
    proof -
      have "received g q + inflight (R @ pend_located pend) j q = flow_K g"
        if "map_of ?fs j = Some g" "q < seq_num g" for j g q
      proof (cases "j = ?i")
        case True
        then have "received f q + inflight (((k, s) # R) @ pend_located pend) ?i q = flow_K f"
          using that f'(9) by (intro shares_okD [OF ok sink(1)]) simp
        then show ?thesis using True that(1) f'(8,10) by (auto split: if_splits)
      next
        case False
        then have "received g q + inflight (((k, s) # R) @ pend_located pend) j q = flow_K g"
          using that by (intro shares_okD [OF ok]) simp_all
        then show ?thesis using False by simp
      qed
      then show ?thesis using ok by (simp add: shares_ok_def)
    qed
    ultimately have "move_inv N R (?fs, pend)" using atR atP wfp by (simp add: move_inv_def at_eq case_prod_unfold)
    moreover have "move_share n (fs, pend) s = Inr (?fs, pend)"
      using sink f'(1) by (simp add: move_share_def dict_get_def)
    moreover have "flows_frame 0 fs ?fs" by (rule flows_frame_upd [OF sink(1)]) (use f' in \<open>simp add: flow_frame_def\<close>)
    moreover have "{t \<in> {s}. alive fs t} = {}" using sink(3) by simp
    ultimately show ?thesis using N by blast
  qed
qed


lemma move_shares_ok:
  assumes "move_inv N (map (Pair (node_id n)) ss @ R) (fs, pend)" and "set (dict_keys pend) \<subseteq> N"
  shows "\<exists>fs' pend'. fold_res (move_share n) (fs, pend) ss = Inr (fs', pend') \<and> move_inv N R (fs', pend')
    \<and> set (dict_keys pend') \<subseteq> N \<and> flows_frame 0 fs fs'
    \<and> snd ` set (pend_located pend') = snd ` set (pend_located pend) \<union> {t \<in> set ss. alive fs t}"
  using assms
proof (induction ss arbitrary: fs pend)
  case Nil
  then show ?case by (simp add: flows_frame_refl)
next
  case (Cons s ss)
  from move_share_ok [of N "node_id n" s "map (Pair (node_id n)) ss @ R" fs pend n] Cons.prems
  obtain fs1 pend1 where 1: "move_share n (fs, pend) s = Inr (fs1, pend1)"
    "move_inv N (map (Pair (node_id n)) ss @ R) (fs1, pend1)" "set (dict_keys pend1) \<subseteq> N" "flows_frame 0 fs fs1"
    "snd ` set (pend_located pend1) = snd ` set (pend_located pend) \<union> {t \<in> {s}. alive fs t}"
    by auto
  from Cons.IH [OF 1(2,3)] obtain fs' pend' where
    2: "fold_res (move_share n) (fs1, pend1) ss = Inr (fs', pend')"
    "move_inv N R (fs', pend')" "set (dict_keys pend') \<subseteq> N" "flows_frame 0 fs1 fs'"
    "snd ` set (pend_located pend') = snd ` set (pend_located pend1) \<union> {t \<in> set ss. alive fs1 t}" by blast
  have "snd ` set (pend_located pend') = snd ` set (pend_located pend) \<union> {t \<in> set (s # ss). alive fs t}"
    unfolding 2(5) 1(5) alive_frame [OF 1(4)] by auto
  then show ?case using 1 2 flows_frame_trans [of 0 fs fs1 0 fs'] by auto
qed

lemma move_nodes_ok:
  assumes "move_inv N (located ns) (fs, pend)" and "set (dict_keys pend) \<subseteq> N"
    and "\<forall>(k, n) \<in> set ns. node_id n = k"
  shows "\<exists>fs' pend'. move_nodes ns (fs, pend) = Inr (map (\<lambda>(k, n). (k, clear_resident_packets n)) ns, fs', pend')
    \<and> move_inv N [] (fs', pend') \<and> set (dict_keys pend') \<subseteq> N \<and> flows_frame 0 fs fs'
    \<and> snd ` set (pend_located pend') = snd ` set (pend_located pend) \<union> {t \<in> snd ` set (located ns). alive fs t}"
  using assms
proof (induction ns arbitrary: fs pend)
  case Nil
  then show ?case by (simp add: flows_frame_refl)
next
  case (Cons p ns)
  obtain k n where p: "p = (k, n)" by (cases p)
  then have k: "node_id n = k" using Cons.prems(3) by simp
  have "move_inv N (map (Pair (node_id n)) (resident_shares n) @ located ns) (fs, pend)"
    using Cons.prems(1) p k by (simp add: located_Cons)
  from move_shares_ok [OF this Cons.prems(2)] obtain fs1 pend1 where
    1: "fold_res (move_share n) (fs, pend) (resident_shares n) = Inr (fs1, pend1)"
      "move_inv N (located ns) (fs1, pend1)" "set (dict_keys pend1) \<subseteq> N" "flows_frame 0 fs fs1"
      "snd ` set (pend_located pend1) = snd ` set (pend_located pend) \<union> {t \<in> set (resident_shares n). alive fs t}" by blast
  from Cons.IH [OF 1(2,3)] Cons.prems(3) obtain fs' pend' where
    2: "move_nodes ns (fs1, pend1) = Inr (map (\<lambda>(k, n). (k, clear_resident_packets n)) ns, fs', pend')"
    "move_inv N [] (fs', pend')" "set (dict_keys pend') \<subseteq> N" "flows_frame 0 fs1 fs'"
    "snd ` set (pend_located pend') = snd ` set (pend_located pend1) \<union> {t \<in> snd ` set (located ns). alive fs1 t}" by auto
  have "snd ` set (pend_located pend') = snd ` set (pend_located pend) \<union> {t \<in> snd ` set (located (p # ns)). alive fs t}"
    unfolding 2(5) 1(5) alive_frame [OF 1(4)] p located_Cons by (auto simp: image_Un image_image)
  then show ?case using 1 2 p flows_frame_trans [of 0 fs fs1 0 fs'] by auto
qed

lemma place_pending_ok:
  assumes "nodes_ok ns" and "set (dict_keys pend) \<subseteq> set (dict_keys ns)"
    and "distinct (map snd (pend_located pend @ located ns))"
  shows "\<exists>ns'. place_pending ns pend = Inr ns' \<and> nodes_ok ns' \<and> dict_keys ns' = dict_keys ns
    \<and> mset (located ns') = mset (pend_located pend) + mset (located ns)"
  using assms
proof (induction pend arbitrary: ns)
  case Nil
  then show ?case by (simp add: place_pending_def)
next
  case (Cons p pend)
  obtain k ss where p: "p = (k, ss)" by (cases p)
  have "k \<in> set (dict_keys ns)" "distinct ss" "set ss \<inter> snd ` set (located ns) = {}"
    using Cons.prems p by (auto simp: comp_def)
  from deliver_all_ok [OF Cons.prems(1) this] obtain ns1 where
    1: "fold_res (deliver k) ns ss = Inr ns1" "nodes_ok ns1" "dict_keys ns1 = dict_keys ns"
      "mset (located ns1) = mset (map (Pair k) ss) + mset (located ns)" by blast
  have "mset (map snd (pend_located pend @ located ns1)) = mset (map snd (pend_located (p # pend) @ located ns))"
    using p by (simp add: 1(4) multiset.map_comp comp_def)
  then have "distinct (map snd (pend_located pend @ located ns1))"
    using Cons.prems(3) mset_eq_imp_distinct_iff by blast
  moreover have "set (dict_keys pend) \<subseteq> set (dict_keys ns1)" using Cons.prems(2) unfolding 1(3) by auto
  ultimately obtain ns' where "place_pending ns1 pend = Inr ns'" "nodes_ok ns'" "dict_keys ns' = dict_keys ns1"
    "mset (located ns') = mset (pend_located pend) + mset (located ns1)" using Cons.IH [OF 1(2)] by blast
  then show ?case using 1 p by (auto simp: place_pending_def)
qed

lemma located_cleared: "located (map (\<lambda>(k, n). (k, clear_resident_packets n)) ns) = []"
  by (induction ns) (auto simp: located_Cons clear_resident_packets_def)

lemma dict_keys_cleared: "dict_keys (map (\<lambda>(k, n). (k, clear_resident_packets n)) ns) = dict_keys ns"
  by (induction ns) auto

lemma nodes_ok_cleared: "nodes_ok ns \<Longrightarrow> nodes_ok (map (\<lambda>(k, n). (k, clear_resident_packets n)) ns)"
  unfolding nodes_ok_def dict_wf_def dict_keys_cleared by (auto simp: clear_resident_packets_def)


subsubsection \<open>Hopping, and the whole step\<close>

lemma hop_ok:
  assumes "np_random_ok np" and "flow_static_ok N i f"
  shows "\<exists>js r'. hop np r f = Inr (f\<lparr>active_paths := js\<rparr>, r') \<and> flow_active_ok (f\<lparr>active_paths := js\<rparr>)"
proof -
  have "flow_K f \<le> length [0..<length (flow_paths f)]" using assms(2) by (simp add: flow_static_ok_def)
  from sample_ok [OF assms(1) this, of r] obtain js r' where
    "sample np r [0..<length (flow_paths f)] (flow_K f) = Inr (js, r')" "length js = flow_K f" "distinct js"
    "set js \<subseteq> set [0..<length (flow_paths f)]" by auto
  then show ?thesis by (intro exI [of _ js] exI [of _ r']) (auto simp: hop_def flow_active_ok_def)
qed

lemma received_hop: "received (f\<lparr>active_paths := js\<rparr>) q = received f q"
  by (simp add: received_def split: option.splits)

lemma hop_flow_ok:
  assumes np: "np_random_ok np" and inv: "net_inv ns fs" and i: "i \<in> set (dict_keys fs)"
  shows "\<exists>fs' r'. hop_flow np (fs, r) i = Inr (fs', r') \<and> net_inv ns fs' \<and> flows_frame 0 fs fs'"
proof -
  from i obtain f where f: "map_of fs i = Some f"
    by (metis list.set_map map_of_eq_None_iff not_None_eq)
  from inv f have fo: "flow_static_ok (set (dict_keys ns)) i f" "flow_counts_ok f"
    and fs: "flows_ok (set (dict_keys ns)) fs" by (auto simp: net_inv_def flows_ok_def)
  from hop_ok [OF np fo(1)] obtain js r' where h: "hop np r f = Inr (f\<lparr>active_paths := js\<rparr>, r')"
    "flow_active_ok (f\<lparr>active_paths := js\<rparr>)" by blast
  let ?f = "f\<lparr>active_paths := js\<rparr>"
  let ?fs = "dict_set fs i ?f"
  have "flows_ok (set (dict_keys ns)) ?fs"
    by (rule flows_ok_upd [OF fs _ h(2)]) (use fo in \<open>simp_all add: flow_static_ok_def flow_counts_ok_def path_ok_def\<close>)
  moreover have "share_at ?fs d k s = share_at fs d k s" for d k s
    by (rule share_at_upd [OF f]) simp_all
  moreover have "shares_ok ?fs (located ns)"
  proof -
    have "received g q + inflight (located ns) j q = flow_K g" if "map_of ?fs j = Some g" "q < seq_num g" for j g q
      using that inv f shares_okD [of fs "located ns" j _ q]
      by (auto simp: net_inv_def received_hop split: if_splits)
    then show ?thesis using inv by (simp add: net_inv_def shares_ok_def)
  qed
  ultimately have "net_inv ns ?fs" using inv by (simp add: net_inv_def)
  moreover have "hop_flow np (fs, r) i = Inr (?fs, r')" using f h(1) by (simp add: hop_flow_def dict_get_def)
  moreover have "flows_frame 0 fs ?fs" by (rule flows_frame_upd [OF f]) (simp add: flow_frame_def)
  ultimately show ?thesis by blast
qed

lemma hop_all_ok:
  assumes np: "np_random_ok np" and inv: "net_inv ns fs"
  shows "\<exists>fs' r'. hop_all np r fs = Inr (fs', r') \<and> net_inv ns fs' \<and> flows_frame 0 fs fs'"
proof -
  let ?P = "\<lambda>st. net_inv ns (fst st) \<and> flows_frame 0 fs (fst st)"
  have "\<exists>st. fold_res (hop_flow np) (fs, r) (dict_keys fs) = Inr st \<and> ?P st"
  proof (rule fold_res_total)
    show "?P (fs, r)" using inv flows_frame_refl by simp
    fix st :: "flows \<times> 'a" and i
    assume st: "?P st" "i \<in> set (dict_keys fs)"
    obtain fs1 r1 where eq: "st = (fs1, r1)" by (cases st)
    have keys: "dict_keys fs1 = dict_keys fs" using st(1) eq by (simp add: flows_frame_def)
    from hop_flow_ok [OF np, of ns fs1 i r1] st eq obtain fs2 r2 where
      "hop_flow np (fs1, r1) i = Inr (fs2, r2)" "net_inv ns fs2" "flows_frame 0 fs1 fs2" unfolding keys by auto
    then show "\<exists>t. hop_flow np st i = Inr t \<and> ?P t" using st(1) eq flows_frame_trans [of 0 fs fs1 0 fs2] by auto
  qed
  then show ?thesis by (auto simp: hop_all_def)
qed

lemma sent_from_frame:
  assumes "sent_from fs (dict_keys fs) fs'" and "dict_keys fs' = dict_keys fs"
  shows "flows_frame 1 fs fs'"
proof -
  have "map_of fs' i = Some (sent f)" if "map_of fs i = Some f" for i f
    using assms(1) that by (force simp: sent_from_def dest: map_of_SomeD)
  then show ?thesis using assms(2) by (simp add: flows_frame_def flow_frame_def)
qed

lemma network_step_ok:
  assumes np: "np_random_ok np" and inv: "net_inv ns fs"
  shows "\<exists>ns' fs' r'. network_step np r ns fs = Inr (ns', fs', r') \<and> net_inv ns' fs'
    \<and> dict_keys ns' = dict_keys ns \<and> flows_frame 1 fs fs'
    \<and> snd ` set (located ns') = {s \<in> snd ` set (located ns) \<union> new_shares fs. alive fs' s}"
proof -
  from inject_all_ok [OF inv] obtain ns1 fs1 where
    1: "inject_all ns fs = Inr (ns1, fs1)" "dict_keys ns1 = dict_keys ns" "flows_frame 1 fs fs1" "mid_inv (\<lambda>_. 1) ns1 fs1"
      "snd ` set (located ns1) = snd ` set (located ns) \<union> new_shares fs"
    using sent_from_frame by blast
  let ?N = "set (dict_keys ns1)"
  let ?ns2 = "map (\<lambda>(k, n). (k, clear_resident_packets n)) ns1"
  have "move_inv ?N (located ns1) (fs1, [])" using 1(4) by (simp add: mid_inv_def move_inv_def)
  from move_nodes_ok [OF this] 1(4) obtain fs2 pend where
    2: "move_nodes ns1 (fs1, []) = Inr (?ns2, fs2, pend)" "move_inv ?N [] (fs2, pend)" "set (dict_keys pend) \<subseteq> ?N"
      "flows_frame 0 fs1 fs2" "snd ` set (pend_located pend) = {t \<in> snd ` set (located ns1). alive fs1 t}"
    by (auto simp: mid_inv_def nodes_ok_def)
  have "distinct (map snd (pend_located pend @ located ?ns2))"
    using 2(2) by (simp add: located_cleared move_inv_def shares_ok_def)
  moreover have "nodes_ok ?ns2" using 1(4) by (intro nodes_ok_cleared) (simp add: mid_inv_def)
  moreover have "set (dict_keys pend) \<subseteq> set (dict_keys ?ns2)" using 2(3) by (simp only: dict_keys_cleared)
  ultimately obtain ns3 where
    3: "place_pending ?ns2 pend = Inr ns3" "nodes_ok ns3" "dict_keys ns3 = dict_keys ns1"
      "mset (located ns3) = mset (pend_located pend)"
    using place_pending_ok [of ?ns2 pend] unfolding dict_keys_cleared located_cleared by auto
  have "net_inv ns3 fs2"
    using 2(2) 3(2) shares_ok_perm [OF 3(4)] mset_eq_setD [OF 3(4)]
    unfolding net_inv_def move_inv_def 3(3) by simp
  from hop_all_ok [OF np this, of r] obtain fs3 r' where
    4: "hop_all np r fs2 = Inr (fs3, r')" "net_inv ns3 fs3" "flows_frame 0 fs2 fs3" by blast
  have "flows_frame 1 fs fs3"
    using flows_frame_trans [OF flows_frame_trans [OF 1(3) 2(4)] 4(3)] by simp
  moreover have "snd ` set (located ns3) = {s \<in> snd ` set (located ns) \<union> new_shares fs. alive fs3 s}"
    unfolding mset_eq_setD [OF 3(4)] 2(5) 1(5) alive_frame [OF 4(3)] alive_frame [OF 2(4)] ..
  ultimately show ?thesis using 1(1,2) 2(1) 3(1,3) 4(1,2) by (simp add: network_step_def)
qed


subsubsection \<open>What the invariant gives\<close>

lemma net_inv_flow:
  assumes "net_inv ns fs" and "map_of fs i = Some f"
  shows "flow_static_ok (set (dict_keys ns)) i f" and "flow_active_ok f" and "flow_counts_ok f"
  using assms by (auto simp: net_inv_def flows_ok_def)

lemma net_inv_resident:
  assumes "net_inv ns fs" and "map_of ns k = Some n" and "s \<in> set (resident_shares n)"
  shows "share_at fs 0 k s" and "node_id n = k"
proof -
  have "(k, s) \<in> set (located ns)" using assms(2,3) by (force simp: located_def dest!: map_of_SomeD)
  then show "share_at fs 0 k s" using assms(1) by (auto simp: net_inv_def)
  show "node_id n = k" using assms(1,2) by (auto simp: net_inv_def nodes_ok_def dest!: map_of_SomeD)
qed

lemma share_old_delivered:
  assumes inv: "net_inv ns fs" and f: "map_of fs i = Some f"
    and L: "\<forall>p \<in> set (flow_paths f). length p \<le> L" and q: "q + L \<le> seq_num f" "0 < L"
  shows "map_of (shares_received f) q = None"
proof -
  have "share_at fs 0 k s \<Longrightarrow> share_flow_id s = i \<Longrightarrow> share_seq_num s \<noteq> q" for k s
  proof
    assume at: "share_at fs 0 k s" "share_flow_id s = i" and "share_seq_num s = q"
    then have "share_path_idx s < length (flow_paths f)" "seq_num f - q < length (flow_paths f ! share_path_idx s)"
      using f by (auto simp: share_at_def share_of_flow_def Let_def)
    then show False using L q(1) by (metis add_le_imp_le_diff leD le_diff_conv2 le_trans nth_mem add.commute le_add2)
  qed
  then have "inflight (located ns) i q = 0"
    using inv by (fastforce simp: inflight_def filter_empty_conv net_inv_def)
  then have "received f q = flow_K f"
    using inv f q shares_okD [of fs "located ns" i f q] by (simp add: net_inv_def)
  moreover have "c < flow_K f" if "map_of (shares_received f) q = Some c" for c
    using net_inv_flow(3) [OF inv f] that by (auto simp: flow_counts_ok_def dest!: map_of_SomeD)
  ultimately show ?thesis by (cases "map_of (shares_received f) q") (auto simp: received_def)
qed

lemma messages_outstanding:
  assumes inv: "net_inv ns fs" and f: "map_of fs i = Some f"
    and L: "\<forall>p \<in> set (flow_paths f). length p \<le> L" "0 < L"
  shows "messages_tx f \<le> messages_rx f + (L - 1)"
proof -
  have cok: "flow_counts_ok f" by (rule net_inv_flow(3) [OF inv f])
  have "seq_num f - L < q \<and> q < seq_num f \<or> seq_num f < L \<and> q < seq_num f"
    if "q \<in> set (dict_keys (shares_received f))" for q
  proof -
    from that obtain c where c: "map_of (shares_received f) q = Some c"
      by (metis list.set_map map_of_eq_None_iff not_None_eq)
    then have "q < seq_num f" using cok by (auto simp: flow_counts_ok_def dest!: map_of_SomeD)
    moreover have "\<not> q + L \<le> seq_num f" using share_old_delivered [OF inv f L(1) _ L(2)] c by auto
    ultimately show ?thesis by linarith
  qed
  then have sub: "set (dict_keys (shares_received f)) \<subseteq> {seq_num f - (L - 1)..<seq_num f}" by fastforce
  have "length (shares_received f) = card (set (dict_keys (shares_received f)))"
    using cok by (metis flow_counts_ok_def dict_wf_def distinct_card length_map)
  also have "\<dots> \<le> card {seq_num f - (L - 1)..<seq_num f}" by (rule card_mono [OF _ sub]) simp
  also have "\<dots> \<le> L - 1" by simp
  finally show ?thesis using cok by (simp add: flow_counts_ok_def)
qed

end
