(* ===== verification/Attackers.thy ===== *)
theory Attackers
  imports Simulator
begin

unbundle bit_operations_syntax

section \<open>The attackers of the path-hopping simulation\<close>

text \<open>
  Models \<open>rest_client/path_hopping_simulator/attackers.py\<close>.  An attacker object is a record with the
  fields of the base class \<open>Attacker\<close> and of all its subclasses (the ones a class does not have keep
  their initial value); its class is an \<open>attacker_class\<close>, on which the overridden methods
  (\<open>select_monitored_nodes\<close>, \<open>capture_shares\<close>) dispatch.  Sets of nodes and of path indices are lists
  without duplicates.  \<open>flows[0]\<close> and, in \<open>PlannedAttacker\<close>, \<open>self._flows[0]\<close> are the same dictionary of
  the simulation, so the flows are an argument of every method that reads them.

  The locale \<open>attacker_ops\<close> states what the simulation relies on of an attacker, \<open>budgeted_attacker\<close>
  adds that at most \<open>K\<close> nodes are monitored at a time; both are interpreted on the methods of the
  classes.
\<close>

subsection \<open>State\<close>

datatype attacker_class =
    RandomNodeHoppingAttacker | RandomPathHoppingAttacker | IdealRandomPathHoppingAttacker
  | OneNodePerPathAttacker | FixedAttacker | PlannedAttacker | TotalAttacker

record attacker =
  monitored_nodes :: "node list"
  att_N :: nat
  att_K :: nat
  captured_shares :: "share list"
  hop_period :: nat
  hop_count :: nat
  node_collection :: "node list option"
  path_collection :: "node list list option"
  att_active_paths :: "nat list"
  monitored_paths :: "nat list"
  hop_index :: nat

definition new_attacker :: "nat \<Rightarrow> nat \<Rightarrow> nat \<Rightarrow> attacker" where
  "new_attacker N K period =
     \<lparr>monitored_nodes = [], att_N = N, att_K = K, captured_shares = [], hop_period = period, hop_count = 0,
      node_collection = None, path_collection = None, att_active_paths = [], monitored_paths = [],
      hop_index = 1\<rparr>"

subsection \<open>Capturing shares\<close>

definition base_capture_shares :: "flows \<Rightarrow> attacker \<Rightarrow> ph_node \<Rightarrow> attacker res" where
  "base_capture_shares fs a n = Inr (a\<lparr>captured_shares := captured_shares a @ vulnerable_shares n\<rparr>)"

text \<open>\<open>next(path_idx for path_idx, p_i in enumerate(paths) if node_id in p_i)\<close>\<close>

fun path_idx_for_node :: "node list list \<Rightarrow> node \<Rightarrow> nat res" where
  "path_idx_for_node [] k = Inl StopIteration"
| "path_idx_for_node (p # ps) k =
     (if k \<in> set p then Inr 0 else rbind (path_idx_for_node ps k) (\<lambda>j. Inr (Suc j)))"

definition planned_capture_shares :: "flows \<Rightarrow> attacker \<Rightarrow> ph_node \<Rightarrow> attacker res" where
  "planned_capture_shares fs a n =
     (let shares = vulnerable_shares n
      in rbind (dict_get fs 0) (\<lambda>f.
         rbind (path_idx_for_node (flow_paths f) (node_id n)) (\<lambda>idx.
           let a1 = a\<lparr>monitored_paths := set_add (monitored_paths a) idx\<rparr>;
               a2 = (if shares \<noteq> [] then a1\<lparr>att_active_paths := set_add (att_active_paths a1) idx\<rparr> else a1)
           in Inr (a2\<lparr>captured_shares := captured_shares a2 @ shares\<rparr>))))"

definition capture_shares :: "attacker_class \<Rightarrow> flows \<Rightarrow> attacker \<Rightarrow> ph_node \<Rightarrow> attacker res" where
  "capture_shares cls = (case cls of PlannedAttacker \<Rightarrow> planned_capture_shares | _ \<Rightarrow> base_capture_shares)"

definition monitor :: "attacker_class \<Rightarrow> nodes \<Rightarrow> flows \<Rightarrow> attacker \<Rightarrow> attacker res" where
  "monitor cls ns fs a =
     fold_res (\<lambda>a k. rbind (dict_get ns k) (capture_shares cls fs a)) a (monitored_nodes a)"

subsection \<open>Reconstructing messages\<close>

definition reconstruct_captured_messages :: "attacker \<Rightarrow> nat list" where
  "reconstruct_captured_messages a =
     map fst (filter (\<lambda>(q, share_group). length (remdups (map share_num share_group)) = att_K a)
       (groupby share_seq_num (sort_key share_seq_num (captured_shares a))))"

subsection \<open>Selecting the monitored nodes\<close>

text \<open>\<open>(simulation_time % hop_period) == 0\<close>\<close>

definition period_elapsed :: "nat \<Rightarrow> nat \<Rightarrow> bool res" where
  "period_elapsed t period = (if period = 0 then Inl ZeroDivisionError else Inr (t mod period = 0))"

definition interior :: "node list \<Rightarrow> node list" where
  "interior p = butlast (tl p)"

definition random_node_select ::
    "'r np_random \<Rightarrow> node list \<Rightarrow> flows \<Rightarrow> nat \<Rightarrow> attacker \<Rightarrow> 'r \<Rightarrow> (attacker \<times> 'r) res" where
  "random_node_select np nodes fs t a r =
     rbind (case node_collection a of
         Some coll \<Rightarrow> Inr coll
       | None \<Rightarrow> rbind (dict_get fs 0) (\<lambda>f.
           Inr (sort (filter (\<lambda>n. n \<noteq> source_node f \<and> n \<noteq> sink_node f) nodes)))) (\<lambda>coll.
     let a1 = a\<lparr>node_collection := Some coll\<rparr>
     in rbind (period_elapsed t (hop_period a1)) (\<lambda>b.
          if b then rbind (sample np r coll (att_K a1)) (\<lambda>(picked, r').
                 Inr (a1\<lparr>monitored_nodes := remdups picked, hop_count := hop_count a1 + 1\<rparr>, r'))
          else Inr (a1, r)))"

definition second_nodes :: "node list list \<Rightarrow> node list" where
  "second_nodes paths = map (\<lambda>p. p ! 1) (filter (\<lambda>p. \<not> length p \<le> 2) paths)"

definition random_path_select ::
    "'r np_random \<Rightarrow> node list \<Rightarrow> flows \<Rightarrow> nat \<Rightarrow> attacker \<Rightarrow> 'r \<Rightarrow> (attacker \<times> 'r) res" where
  "random_path_select np nodes fs t a r =
     rbind (dict_get fs 0) (\<lambda>f.
     let coll = sort (case node_collection a of Some coll \<Rightarrow> coll | None \<Rightarrow> second_nodes (flow_paths f));
         a1 = a\<lparr>node_collection := Some coll\<rparr>
     in rbind (period_elapsed t (hop_period a1)) (\<lambda>b.
          if b then rbind (sample np r coll (att_K a1)) (\<lambda>(picked, r').
                 Inr (a1\<lparr>monitored_nodes := remdups picked, hop_count := hop_count a1 + 1\<rparr>, r'))
          else Inr (a1, r)))"

definition path_coll :: "attacker \<Rightarrow> ph_flow \<Rightarrow> node list list" where
  "path_coll a f = (case path_collection a of Some coll \<Rightarrow> coll | None \<Rightarrow> map interior (flow_paths f))"

definition ideal_select ::
    "'r np_random \<Rightarrow> node list \<Rightarrow> flows \<Rightarrow> nat \<Rightarrow> attacker \<Rightarrow> 'r \<Rightarrow> (attacker \<times> 'r) res" where
  "ideal_select np nodes fs t a r =
     rbind (dict_get fs 0) (\<lambda>f.
     let coll = path_coll a f; a1 = a\<lparr>path_collection := Some coll\<rparr>
     in rbind (period_elapsed t (hop_period a1)) (\<lambda>b.
          if b then rbind (sample np r [0..<length coll] (att_K a1)) (\<lambda>(picked, r').
                 Inr (a1\<lparr>monitored_nodes := remdups (concat (map (\<lambda>j. coll ! j) picked)),
                         hop_count := hop_count a1 + 1\<rparr>, r'))
          else Inr (a1, r)))"

text \<open>\<open>{np.random.choice(p_i) for p_i in ps}\<close>\<close>

fun sample_each :: "'r np_random \<Rightarrow> 'r \<Rightarrow> 'a list list \<Rightarrow> ('a list \<times> 'r) res" where
  "sample_each np r [] = Inr ([], r)"
| "sample_each np r (p # ps) =
     rbind (sample1 np r p) (\<lambda>(x, r1). rbind (sample_each np r1 ps) (\<lambda>(xs, r2). Inr (x # xs, r2)))"

definition one_node_each ::
    "'r np_random \<Rightarrow> node list list \<Rightarrow> nat \<Rightarrow> 'r \<Rightarrow> (node list \<times> 'r) res" where
  "one_node_each np coll k r =
     rbind (sample np r [0..<length coll] k) (\<lambda>(picked, r1).
     rbind (sample_each np r1 (map (\<lambda>j. coll ! j) picked)) (\<lambda>(ns, r2). Inr (remdups ns, r2)))"

text \<open>The source tests \<open>simulation_time & hop_period == 0\<close>, a bitwise \<open>and\<close>.\<close>

definition one_node_per_path_select ::
    "'r np_random \<Rightarrow> node list \<Rightarrow> flows \<Rightarrow> nat \<Rightarrow> attacker \<Rightarrow> 'r \<Rightarrow> (attacker \<times> 'r) res" where
  "one_node_per_path_select np nodes fs t a r =
     rbind (dict_get fs 0) (\<lambda>f.
     let coll = path_coll a f; a1 = a\<lparr>path_collection := Some coll\<rparr>
     in if t AND hop_period a1 = 0
        then rbind (one_node_each np coll (att_K a1) r) (\<lambda>(ns, r').
               Inr (a1\<lparr>monitored_nodes := ns, hop_count := hop_count a1 + 1\<rparr>, r'))
        else Inr (a1, r))"

definition fixed_select ::
    "'r np_random \<Rightarrow> node list \<Rightarrow> flows \<Rightarrow> nat \<Rightarrow> attacker \<Rightarrow> 'r \<Rightarrow> (attacker \<times> 'r) res" where
  "fixed_select np nodes fs t a r =
     rbind (dict_get fs 0) (\<lambda>f.
     if path_collection a = None
     then let coll = map interior (flow_paths f); a1 = a\<lparr>path_collection := Some coll\<rparr>
          in rbind (one_node_each np coll (att_K a1) r) (\<lambda>(ns, r').
               Inr (a1\<lparr>monitored_nodes := ns, hop_count := 1\<rparr>, r'))
     else Inr (a, r))"

definition max_len :: "'a list list \<Rightarrow> nat res" where
  "max_len ps = (if ps = [] then Inl ValueError else Inr (Max (set (map length ps))))"

definition planned_select ::
    "'r np_random \<Rightarrow> node list \<Rightarrow> flows \<Rightarrow> nat \<Rightarrow> attacker \<Rightarrow> 'r \<Rightarrow> (attacker \<times> 'r) res" where
  "planned_select np nodes fs t a r =
     rbind (dict_get fs 0) (\<lambda>f.
     rbind (period_elapsed t (hop_period a)) (\<lambda>b.
     rbind (if b then
         rbind (max_len (flow_paths f)) (\<lambda>m.
         let a1 = (if m \<le> hop_index a \<or> length (monitored_paths a) = att_N a
                   then a\<lparr>hop_index := 1, att_active_paths := [], monitored_paths := []\<rparr> else a)
         in rbind (map_res (\<lambda>p. py_nth p (int (hop_index a1))) (flow_paths f)) (\<lambda>nodes_at_hop.
            rbind (map_res (\<lambda>j. py_nth (flow_paths f) (int j)) (monitored_paths a1)) (\<lambda>mpaths.
            rbind (map_res (\<lambda>p. py_nth p (int (hop_index a1))) mpaths) (\<lambda>monitored_at_hop.
            let possible = remdups (filter (\<lambda>n. n \<notin> set monitored_at_hop) nodes_at_hop)
            in if length possible \<le> att_K a1 then Inr (a1\<lparr>monitored_nodes := possible\<rparr>, r)
               else rbind (sample np r possible (att_K a1)) (\<lambda>(picked, r').
                      Inr (a1\<lparr>monitored_nodes := picked\<rparr>, r'))))))
       else Inr (a, r)) (\<lambda>(a2, r2).
     Inr (a2\<lparr>hop_index := hop_index a2 + 1\<rparr>, r2))))"

definition total_select ::
    "'r np_random \<Rightarrow> node list \<Rightarrow> flows \<Rightarrow> nat \<Rightarrow> attacker \<Rightarrow> 'r \<Rightarrow> (attacker \<times> 'r) res" where
  "total_select np nodes fs t a r =
     (if length (monitored_nodes a) = 0
      then rbind (dict_get fs 0) (\<lambda>f.
           rbind (map_res (\<lambda>p. py_nth p 1) (flow_paths f)) (\<lambda>ns.
           Inr (a\<lparr>monitored_nodes := remdups ns\<rparr>, r)))
      else Inr (a, r))"

definition select_monitored_nodes ::
    "attacker_class \<Rightarrow> 'r np_random \<Rightarrow> node list \<Rightarrow> flows \<Rightarrow> nat \<Rightarrow> attacker \<Rightarrow> 'r \<Rightarrow> (attacker \<times> 'r) res" where
  "select_monitored_nodes cls = (case cls of
       RandomNodeHoppingAttacker \<Rightarrow> random_node_select
     | RandomPathHoppingAttacker \<Rightarrow> random_path_select
     | IdealRandomPathHoppingAttacker \<Rightarrow> ideal_select
     | OneNodePerPathAttacker \<Rightarrow> one_node_per_path_select
     | FixedAttacker \<Rightarrow> fixed_select
     | PlannedAttacker \<Rightarrow> planned_select
     | TotalAttacker \<Rightarrow> total_select)"

text \<open>The static \<open>create\<close> methods: all select at time 1, \<open>PlannedAttacker\<close> at time 0.\<close>

definition create_attacker ::
    "attacker_class \<Rightarrow> 'r np_random \<Rightarrow> nat \<Rightarrow> nat \<Rightarrow> node list \<Rightarrow> flows \<Rightarrow> nat \<Rightarrow> 'r \<Rightarrow> (attacker \<times> 'r) res" where
  "create_attacker cls np N K graph_nodes fs period r =
     select_monitored_nodes cls np graph_nodes fs (if cls = PlannedAttacker then 0 else 1)
       (new_attacker N K period) r"

subsection \<open>Reconstruction: what is recovered\<close>

lemma reconstruct_iff:
  "q \<in> set (reconstruct_captured_messages a) \<longleftrightarrow>
     (\<exists>s \<in> set (captured_shares a). share_seq_num s = q)
     \<and> card (share_num ` {s \<in> set (captured_shares a). share_seq_num s = q}) = att_K a"
proof -
  let ?xs = "sort_key share_seq_num (captured_shares a)"
  have g: "snd p = filter (\<lambda>x. share_seq_num x = fst p) ?xs" if "p \<in> set (groupby share_seq_num ?xs)" for p
    using groupby_sorted [of share_seq_num ?xs] that by simp
  have card: "length (remdups (map share_num (filter (\<lambda>x. share_seq_num x = q) ?xs)))
    = card (share_num ` {s \<in> set (captured_shares a). share_seq_num s = q})"
    by (simp add: length_remdups_card_conv)
  have "q \<in> set (reconstruct_captured_messages a) \<longleftrightarrow>
    (\<exists>p \<in> set (groupby share_seq_num ?xs). fst p = q \<and> length (remdups (map share_num (snd p))) = att_K a)"
    by (force simp: reconstruct_captured_messages_def)
  also have "\<dots> \<longleftrightarrow> q \<in> fst ` set (groupby share_seq_num ?xs)
    \<and> length (remdups (map share_num (filter (\<lambda>x. share_seq_num x = q) ?xs))) = att_K a"
    using g by (force simp: image_iff)
  also have "\<dots> \<longleftrightarrow> (\<exists>s \<in> set (captured_shares a). share_seq_num s = q)
    \<and> card (share_num ` {s \<in> set (captured_shares a). share_seq_num s = q}) = att_K a"
    unfolding card groupby_keys_in by auto
  finally show ?thesis .
qed

lemma reconstruct_sorted: "sorted_wrt (<) (reconstruct_captured_messages a)"
proof -
  have "sorted_wrt (<) (map fst (groupby share_seq_num (sort_key share_seq_num (captured_shares a))))"
    using groupby_sorted [of share_seq_num "sort_key share_seq_num (captured_shares a)"] by simp
  then show ?thesis unfolding reconstruct_captured_messages_def
    by (simp add: sorted_wrt_map sorted_wrt_filter)
qed


subsection \<open>What the simulation relies on of an attacker\<close>

locale attacker_ops =
  fixes select :: "'r np_random \<Rightarrow> node list \<Rightarrow> flows \<Rightarrow> nat \<Rightarrow> attacker \<Rightarrow> 'r \<Rightarrow> (attacker \<times> 'r) res"
    and capture :: "flows \<Rightarrow> attacker \<Rightarrow> ph_node \<Rightarrow> attacker res"
  assumes select_keeps: "select np ks fs t a r = Inr (a', r') \<Longrightarrow>
      captured_shares a' = captured_shares a \<and> att_K a' = att_K a \<and> att_N a' = att_N a"
    and capture_appends: "capture fs a n = Inr a' \<Longrightarrow>
      captured_shares a' = captured_shares a @ vulnerable_shares n
      \<and> att_K a' = att_K a \<and> att_N a' = att_N a \<and> monitored_nodes a' = monitored_nodes a"
begin

lemma watch_nodes:
  assumes "fold_res (\<lambda>a k. rbind (dict_get ns k) (capture fs a)) a ks = Inr a'"
  shows "\<exists>vs. map_res (dict_get ns) ks = Inr vs
    \<and> captured_shares a' = captured_shares a @ concat (map vulnerable_shares vs)
    \<and> att_K a' = att_K a \<and> att_N a' = att_N a \<and> monitored_nodes a' = monitored_nodes a"
  using assms
proof (induction ks arbitrary: a)
  case (Cons k ks)
  from Cons.prems obtain n a1 where n: "dict_get ns k = Inr n" "capture fs a n = Inr a1"
    "fold_res (\<lambda>a k. rbind (dict_get ns k) (capture fs a)) a1 ks = Inr a'"
    by (auto simp: rbind_Inr_iff)
  from Cons.IH [OF n(3)] obtain vs where "map_res (dict_get ns) ks = Inr vs"
    "captured_shares a' = captured_shares a1 @ concat (map vulnerable_shares vs)"
    "att_K a' = att_K a1" "att_N a' = att_N a1" "monitored_nodes a' = monitored_nodes a1" by blast
  then show ?case using n capture_appends [OF n(2)] by (intro exI [of _ "n # vs"]) simp
qed simp

lemma watch_set:
  assumes "fold_res (\<lambda>a k. rbind (dict_get ns k) (capture fs a)) a ks = Inr a'"
  shows "set (captured_shares a') = set (captured_shares a)
    \<union> {s. \<exists>k \<in> set ks. \<exists>n. map_of ns k = Some n \<and> s \<in> set (vulnerable_shares n)}"
proof -
  from watch_nodes [OF assms] obtain vs where vs: "map_res (dict_get ns) ks = Inr vs"
    "captured_shares a' = captured_shares a @ concat (map vulnerable_shares vs)" by blast
  have "list_all2 (\<lambda>k n. map_of ns k = Some n) ks vs"
    using vs(1) by (simp add: map_res_Inr_iff dict_get_Inr_iff)
  then have "n \<in> set vs \<longleftrightarrow> (\<exists>k \<in> set ks. map_of ns k = Some n)" for n
    by (induction ks vs rule: list_all2_induct) auto
  then show ?thesis using vs(2) by (auto; blast)
qed

end

locale budgeted_attacker = attacker_ops +
  assumes select_budget: "np_random_ok np \<Longrightarrow> length (monitored_nodes a) \<le> att_K a \<Longrightarrow>
      select np ks fs t a r = Inr (a', r') \<Longrightarrow> length (monitored_nodes a') \<le> att_K a'"
begin

lemma round_budget:
  assumes "np_random_ok np" and "length (monitored_nodes a) \<le> att_K a"
    and "fold_res (\<lambda>a k. rbind (dict_get ns k) (capture fs a)) a (monitored_nodes a) = Inr a1"
    and "select np ks fs t a1 r = Inr (a2, r')"
  shows "length (monitored_nodes a2) \<le> att_K a2 \<and> att_K a2 = att_K a"
proof -
  from watch_nodes [OF assms(3)] have "monitored_nodes a1 = monitored_nodes a" "att_K a1 = att_K a" by blast+
  then show ?thesis using select_budget [OF assms(1) _ assms(4)] select_keeps [OF assms(4)] assms(2) by simp
qed

end

subsubsection \<open>The classes keep the contract\<close>

lemmas select_defs = random_node_select_def random_path_select_def ideal_select_def
  one_node_per_path_select_def fixed_select_def planned_select_def total_select_def

lemma select_monitored_nodes_keeps:
  assumes "select_monitored_nodes cls np ks fs t a r = Inr (a', r')"
  shows "captured_shares a' = captured_shares a \<and> att_K a' = att_K a \<and> att_N a' = att_N a"
  using assms
  by (cases cls) (auto simp: select_monitored_nodes_def select_defs rbind_Inr_iff Let_def
      split: if_splits option.splits prod.splits)

lemma capture_shares_appends:
  assumes "capture_shares cls fs a n = Inr a'"
  shows "captured_shares a' = captured_shares a @ vulnerable_shares n
    \<and> att_K a' = att_K a \<and> att_N a' = att_N a \<and> monitored_nodes a' = monitored_nodes a"
proof (cases "cls = PlannedAttacker")
  case True
  then show ?thesis using assms
    by (cases "vulnerable_shares n = []")
      (auto simp: capture_shares_def planned_capture_shares_def rbind_Inr_iff Let_def)
next
  case False
  then have "capture_shares cls = base_capture_shares" by (cases cls) (simp_all add: capture_shares_def)
  then show ?thesis using assms by (auto simp: base_capture_shares_def)
qed

interpretation att: attacker_ops "select_monitored_nodes cls" "capture_shares cls" for cls
  by unfold_locales (rule select_monitored_nodes_keeps, assumption, rule capture_shares_appends, assumption)

lemma sample_each_length:
  "sample_each np r ps = Inr (xs, r') \<Longrightarrow> length xs = length ps"
  by (induction ps arbitrary: r xs r') (auto simp: rbind_Inr_iff split: prod.splits)

lemma one_node_each_budget:
  assumes "np_random_ok np" and "one_node_each np coll k r = Inr (ns, r')"
  shows "length ns \<le> k"
proof -
  from assms(2) obtain picked r1 xs where
    "sample np r [0..<length coll] k = Inr (picked, r1)"
    "sample_each np r1 (map (\<lambda>j. coll ! j) picked) = Inr (xs, r')" "ns = remdups xs"
    by (auto simp: one_node_each_def rbind_Inr_iff)
  then show ?thesis using sample_subset [OF assms(1)] sample_each_length
    by (metis length_map length_remdups_leq)
qed

lemma sample_remdups_budget:
  "np_random_ok np \<Longrightarrow> sample np r xs k = Inr (ys, r') \<Longrightarrow> length ys \<le> k \<and> length (remdups ys) \<le> k"
  using sample_subset [of np r xs k ys r'] length_remdups_leq [of ys] by simp

definition within_budget :: "attacker_class \<Rightarrow> bool" where
  "within_budget cls \<longleftrightarrow> cls \<in> {RandomNodeHoppingAttacker, RandomPathHoppingAttacker,
     OneNodePerPathAttacker, FixedAttacker, PlannedAttacker}"

lemma select_within_budget:
  assumes "within_budget cls" and "np_random_ok np" and "length (monitored_nodes a) \<le> att_K a"
    and "select_monitored_nodes cls np ks fs t a r = Inr (a', r')"
  shows "length (monitored_nodes a') \<le> att_K a'"
  using assms
  by (cases cls) (auto simp: within_budget_def select_monitored_nodes_def select_defs rbind_Inr_iff Let_def
      split: if_splits option.splits prod.splits dest: sample_remdups_budget one_node_each_budget)

interpretation random_node: budgeted_attacker
    "select_monitored_nodes RandomNodeHoppingAttacker" "capture_shares RandomNodeHoppingAttacker"
  by unfold_locales (rule select_within_budget, simp_all add: within_budget_def)

interpretation random_path: budgeted_attacker
    "select_monitored_nodes RandomPathHoppingAttacker" "capture_shares RandomPathHoppingAttacker"
  by unfold_locales (rule select_within_budget, simp_all add: within_budget_def)

interpretation one_node: budgeted_attacker
    "select_monitored_nodes OneNodePerPathAttacker" "capture_shares OneNodePerPathAttacker"
  by unfold_locales (rule select_within_budget, simp_all add: within_budget_def)

interpretation fixed: budgeted_attacker
    "select_monitored_nodes FixedAttacker" "capture_shares FixedAttacker"
  by unfold_locales (rule select_within_budget, simp_all add: within_budget_def)

interpretation planned: budgeted_attacker
    "select_monitored_nodes PlannedAttacker" "capture_shares PlannedAttacker"
  by unfold_locales (rule select_within_budget, simp_all add: within_budget_def)

lemmas monitor_captured = att.watch_set [of ns cls fs a "monitored_nodes a" a', folded monitor_def]
  for ns cls fs a a'

lemmas monitor_keeps = att.watch_nodes [of ns cls fs a "monitored_nodes a" a', folded monitor_def]
  for ns cls fs a a'

end
