(* ===== verification/Simulation.thy ===== *)
theory Simulation
  imports Network_Invariant Attackers
begin

section \<open>The path-hopping simulation\<close>

text \<open>
  Models \<open>PathHoppingSimulation\<close> of \<open>rest_client/path_hopping_simulator/simulator.py\<close> with its attackers:
  \<open>create\<close>, \<open>add_attacker\<close> and \<open>step\<close>, and the states a run of the program reaches.  The histories of the
  runs are tracked by a ghost assignment \<open>H\<close> (which paths each message was sent over): the shares in
  flight are a function of \<open>H\<close> and of the sequence numbers (\<open>tracked\<close>), and what an attacker recovers is
  decided by \<open>H\<close> and by the paths it has seen (\<open>recovered_iff\<close>).
\<close>

subsection \<open>State and operations\<close>

record simulation =
  ticks :: nat
  sim_nodes :: nodes
  sim_flows :: flows
  sim_attackers :: "(attacker_class \<times> attacker) list"

definition new_simulation :: "ph_node list \<Rightarrow> ph_flow list \<Rightarrow> simulation" where
  "new_simulation ns fs =
     \<lparr>ticks = 1, sim_nodes = dict_of (map (\<lambda>n. (node_id n, n)) ns),
      sim_flows = dict_of (map (\<lambda>f. (flow_id f, f)) fs), sim_attackers = []\<rparr>"

definition create_simulation :: "node list \<Rightarrow> ph_flow list \<Rightarrow> simulation" where
  "create_simulation graph_nodes fs = new_simulation (map new_node graph_nodes) fs"

definition add_attacker :: "simulation \<Rightarrow> attacker_class \<times> attacker \<Rightarrow> simulation" where
  "add_attacker sim the_attacker = sim\<lparr>sim_attackers := sim_attackers sim @ [the_attacker]\<rparr>"

definition attack_step ::
    "'r np_random \<Rightarrow> nodes \<Rightarrow> flows \<Rightarrow> nat \<Rightarrow> attacker_class \<times> attacker \<Rightarrow> 'r \<Rightarrow> ((attacker_class \<times> attacker) \<times> 'r) res" where
  "attack_step np ns fs t = (\<lambda>(cls, a) r.
     rbind (monitor cls ns fs a) (\<lambda>a1.
     rbind (select_monitored_nodes cls np (dict_keys ns) fs t a1 r) (\<lambda>(a2, r'). Inr ((cls, a2), r'))))"

fun attack_all ::
    "'r np_random \<Rightarrow> nodes \<Rightarrow> flows \<Rightarrow> nat \<Rightarrow> (attacker_class \<times> attacker) list \<Rightarrow> 'r
      \<Rightarrow> ((attacker_class \<times> attacker) list \<times> 'r) res" where
  "attack_all np ns fs t [] r = Inr ([], r)"
| "attack_all np ns fs t (a # as) r =
     rbind (attack_step np ns fs t a r) (\<lambda>(a', r1).
     rbind (attack_all np ns fs t as r1) (\<lambda>(as', r2). Inr (a' # as', r2)))"

definition sim_step :: "'r np_random \<Rightarrow> simulation \<Rightarrow> 'r \<Rightarrow> (simulation \<times> 'r) res" where
  "sim_step np sim r =
     rbind (network_step np r (sim_nodes sim) (sim_flows sim)) (\<lambda>(ns, fs, r1).
     rbind (attack_all np ns fs (ticks sim) (sim_attackers sim) r1) (\<lambda>(as, r2).
     Inr (sim\<lparr>sim_nodes := ns, sim_flows := fs, sim_attackers := as, ticks := ticks sim + 1\<rparr>, r2)))"

fun run_sim :: "'r np_random \<Rightarrow> nat \<Rightarrow> simulation \<Rightarrow> 'r \<Rightarrow> (simulation \<times> 'r) res" where
  "run_sim np 0 sim r = Inr (sim, r)"
| "run_sim np (Suc n) sim r = rbind (sim_step np sim r) (\<lambda>(sim', r'). run_sim np n sim' r')"

text \<open>
  The states of a run: a simulation is created, attackers are created from its flows and added, and
  it is stepped.
\<close>

inductive sim_reachable :: "'r np_random \<Rightarrow> node list \<Rightarrow> ph_flow list \<Rightarrow> 'r \<Rightarrow> simulation \<Rightarrow> 'r \<Rightarrow> bool"
  for np :: "'r np_random" and graph_nodes :: "node list" and fs0 :: "ph_flow list" and r0 :: 'r where
  created: "sim_reachable np graph_nodes fs0 r0 (create_simulation graph_nodes fs0) r0"
| attacker_added: "sim_reachable np graph_nodes fs0 r0 sim r \<Longrightarrow>
    create_attacker cls np N K graph_nodes (sim_flows sim) period r = Inr (a, r') \<Longrightarrow>
    sim_reachable np graph_nodes fs0 r0 (add_attacker sim (cls, a)) r'"
| stepped: "sim_reachable np graph_nodes fs0 r0 sim r \<Longrightarrow> sim_step np sim r = Inr (sim', r') \<Longrightarrow>
    sim_reachable np graph_nodes fs0 r0 sim' r'"

text \<open>A flow as \<open>create_random_flow\<close> makes it, before the first message.\<close>

definition fresh_flow :: "node set \<Rightarrow> ph_flow \<Rightarrow> bool" where
  "fresh_flow N f \<longleftrightarrow> flow_static_ok N (flow_id f) f \<and> flow_active_ok f
   \<and> seq_num f = 0 \<and> shares_received f = [] \<and> messages_tx f = 0 \<and> messages_rx f = 0"

definition setup_ok :: "node list \<Rightarrow> ph_flow list \<Rightarrow> bool" where
  "setup_ok graph_nodes fs \<longleftrightarrow> (\<forall>f \<in> set fs. fresh_flow (set graph_nodes) f)"

subsection \<open>Steps of a simulation\<close>

lemma sim_stepE:
  assumes "sim_step np sim r = Inr (sim', r')"
  obtains ns fs r1 as where "network_step np r (sim_nodes sim) (sim_flows sim) = Inr (ns, fs, r1)"
    "attack_all np ns fs (ticks sim) (sim_attackers sim) r1 = Inr (as, r')"
    "sim' = sim\<lparr>sim_nodes := ns, sim_flows := fs, sim_attackers := as, ticks := ticks sim + 1\<rparr>"
  using assms by (auto simp: sim_step_def rbind_Inr_iff)

lemma attack_stepE:
  assumes "attack_step np ns fs t (cls, a) r = Inr ((cls', a'), r')"
  obtains a1 where "cls' = cls" "monitor cls ns fs a = Inr a1"
    "select_monitored_nodes cls np (dict_keys ns) fs t a1 r = Inr (a', r')"
  using assms by (auto simp: attack_step_def rbind_Inr_iff)

lemma attack_all_list:
  assumes "attack_all np ns fs t as r = Inr (as', r')"
  shows "list_all2 (\<lambda>a a'. \<exists>r r'. attack_step np ns fs t a r = Inr (a', r')) as as'"
  using assms by (induction as arbitrary: r as' r') (auto simp: rbind_Inr_iff list_all2_Cons1, blast)

lemma attack_step_captured:
  assumes "attack_step np ns fs t (cls, a) r = Inr ((cls', a'), r')"
  shows "cls' = cls" and "att_K a' = att_K a" and "att_N a' = att_N a"
    and "set (captured_shares a') = set (captured_shares a)
      \<union> {s. \<exists>k \<in> set (monitored_nodes a). \<exists>n. map_of ns k = Some n \<and> s \<in> set (vulnerable_shares n)}"
proof -
  from assms obtain a1 where a1: "cls' = cls" "monitor cls ns fs a = Inr a1"
    "select_monitored_nodes cls np (dict_keys ns) fs t a1 r = Inr (a', r')" by (rule attack_stepE)
  note k = select_monitored_nodes_keeps [OF a1(3)] and m = monitor_keeps [OF a1(2)]
  show "cls' = cls" by (rule a1(1))
  show "att_K a' = att_K a" "att_N a' = att_N a" using k m by auto
  show "set (captured_shares a') = set (captured_shares a)
      \<union> {s. \<exists>k \<in> set (monitored_nodes a). \<exists>n. map_of ns k = Some n \<and> s \<in> set (vulnerable_shares n)}"
    using k monitor_captured [OF a1(2)] by simp
qed

subsection \<open>The network invariant in every reachable state\<close>

lemma create_simulation_nodes:
  "set (dict_keys (sim_nodes (create_simulation g fs))) = set g"
  "located (sim_nodes (create_simulation g fs)) = []"
  "nodes_ok (sim_nodes (create_simulation g fs))"
proof -
  let ?ns = "dict_of (map (\<lambda>n. (node_id n, n)) (map new_node g))"
  have ns: "sim_nodes (create_simulation g fs) = ?ns" by (simp add: create_simulation_def new_simulation_def)
  have in_ns: "node_id n = k \<and> resident_shares n = []" if "(k, n) \<in> set ?ns" for k n
    using dict_of_in [OF that] by (auto simp: new_node_def)
  show "set (dict_keys (sim_nodes (create_simulation g fs))) = set g"
    unfolding ns set_keys_dict_of by (force simp: new_node_def)
  show "located (sim_nodes (create_simulation g fs)) = []" unfolding ns
    using in_ns by (auto simp: located_def)
  show "nodes_ok (sim_nodes (create_simulation g fs))" unfolding ns
    using in_ns dict_wf_dict_of by (auto simp: nodes_ok_def)
qed

lemma create_simulation_flow:
  assumes "map_of (sim_flows (create_simulation g fs)) i = Some f"
  shows "f \<in> set fs \<and> flow_id f = i"
proof -
  have "(i, f) \<in> set (dict_of (map (\<lambda>f. (flow_id f, f)) fs))"
    using assms by (auto simp: create_simulation_def new_simulation_def dest: map_of_SomeD)
  from dict_of_in [OF this] show ?thesis by auto
qed

lemma create_simulation_inv:
  assumes "setup_ok g fs"
  shows "net_inv (sim_nodes (create_simulation g fs)) (sim_flows (create_simulation g fs))"
proof -
  let ?s = "create_simulation g fs"
  have f: "fresh_flow (set g) f \<and> flow_id f = i" if "map_of (sim_flows ?s) i = Some f" for i f
    using create_simulation_flow [OF that] assms by (auto simp: setup_ok_def)
  have "dict_wf (sim_flows ?s)" by (simp add: create_simulation_def new_simulation_def dict_wf_dict_of)
  then have "flows_ok (set g) (sim_flows ?s)"
    using f by (auto simp: flows_ok_def fresh_flow_def flow_counts_ok_def)
  moreover have "shares_ok (sim_flows ?s) []" using f by (fastforce simp: shares_ok_def fresh_flow_def)
  ultimately show ?thesis
    unfolding net_inv_def create_simulation_nodes(1,2) using create_simulation_nodes(3) by simp
qed

lemma sim_step_net:
  assumes np: "np_random_ok np" and inv: "net_inv (sim_nodes sim) (sim_flows sim)"
    and step: "sim_step np sim r = Inr (sim', r')"
  shows "net_inv (sim_nodes sim') (sim_flows sim')"
    and "dict_keys (sim_nodes sim') = dict_keys (sim_nodes sim)"
    and "flows_frame 1 (sim_flows sim) (sim_flows sim')" and "ticks sim' = ticks sim + 1"
    and "snd ` set (located (sim_nodes sim')) =
      {s \<in> snd ` set (located (sim_nodes sim)) \<union> new_shares (sim_flows sim). alive (sim_flows sim') s}"
proof -
  from network_step_ok [OF np inv, of r] obtain ns fs r1 where
    n: "network_step np r (sim_nodes sim) (sim_flows sim) = Inr (ns, fs, r1)" "net_inv ns fs"
      "dict_keys ns = dict_keys (sim_nodes sim)" "flows_frame 1 (sim_flows sim) fs"
      "snd ` set (located ns) = {s \<in> snd ` set (located (sim_nodes sim)) \<union> new_shares (sim_flows sim). alive fs s}"
    by blast
  from step n(1) have eq: "sim_nodes sim' = ns" "sim_flows sim' = fs" "ticks sim' = ticks sim + 1"
    by (auto elim!: sim_stepE)
  show "net_inv (sim_nodes sim') (sim_flows sim')" unfolding eq by (rule n(2))
  show "dict_keys (sim_nodes sim') = dict_keys (sim_nodes sim)" unfolding eq by (rule n(3))
  show "flows_frame 1 (sim_flows sim) (sim_flows sim')" unfolding eq by (rule n(4))
  show "ticks sim' = ticks sim + 1" by (rule eq(3))
  show "snd ` set (located (sim_nodes sim')) =
      {s \<in> snd ` set (located (sim_nodes sim)) \<union> new_shares (sim_flows sim). alive (sim_flows sim') s}"
    unfolding eq by (rule n(5))
qed

definition sim_inv :: "simulation \<Rightarrow> bool" where
  "sim_inv sim \<longleftrightarrow> net_inv (sim_nodes sim) (sim_flows sim)
   \<and> (\<forall>i f. map_of (sim_flows sim) i = Some f \<longrightarrow> Suc (seq_num f) = ticks sim)"

lemma sim_step_inv:
  assumes "np_random_ok np" and "sim_inv sim" and "sim_step np sim r = Inr (sim', r')"
  shows "sim_inv sim'"
proof -
  have inv: "net_inv (sim_nodes sim) (sim_flows sim)" using assms(2) by (simp add: sim_inv_def)
  note n = sim_step_net [OF assms(1) inv assms(3)]
  have "Suc (seq_num f') = ticks sim'" if f': "map_of (sim_flows sim') i = Some f'" for i f'
  proof -
    have "i \<in> set (dict_keys (sim_flows sim'))" using f' by (force dest: map_of_SomeD)
    then have "i \<in> set (dict_keys (sim_flows sim))" using n(3) by (simp only: flows_frame_def)
    then obtain f where f: "map_of (sim_flows sim) i = Some f"
      by (metis list.set_map map_of_eq_None_iff not_None_eq)
    then have "seq_num f' = Suc (seq_num f)" using n(3) f' by (fastforce simp: flows_frame_def flow_frame_def)
    then show ?thesis using assms(2) f n(4) by (simp add: sim_inv_def)
  qed
  then show ?thesis using n(1) by (simp add: sim_inv_def)
qed

lemma reachable_sim_inv:
  assumes "sim_reachable np g fs0 r0 sim r" and "np_random_ok np" and "setup_ok g fs0"
  shows "sim_inv sim"
  using assms
proof (induction rule: sim_reachable.induct)
  case created
  have "Suc (seq_num f) = 1" if "map_of (sim_flows (create_simulation g fs0)) i = Some f" for i f
    using create_simulation_flow [OF that] created.prems by (auto simp: setup_ok_def fresh_flow_def)
  then show ?case using create_simulation_inv [OF created.prems(2)]
    by (simp add: sim_inv_def) (simp add: create_simulation_def new_simulation_def)
next
  case (attacker_added sim r cls N K period a r')
  then show ?case by (simp add: sim_inv_def add_attacker_def)
next
  case (stepped sim r sim' r')
  show ?case by (rule sim_step_inv [OF stepped.prems(1) stepped.IH [OF stepped.prems] stepped.hyps(2)])
qed

subsection \<open>Tracking the messages\<close>

text \<open>
  \<open>H i q\<close> is the list of path indices message \<open>q\<close> of flow \<open>i\<close> was sent over.  A share belongs to the
  history when it is the share the source made for its message.
\<close>

type_synonym history = "int \<Rightarrow> nat \<Rightarrow> nat list"

definition history_ok :: "history \<Rightarrow> flows \<Rightarrow> bool" where
  "history_ok H fs \<longleftrightarrow> (\<forall>i f q. map_of fs i = Some f \<longrightarrow> q < seq_num f \<longrightarrow>
     length (H i q) = flow_K f \<and> distinct (H i q) \<and> set (H i q) \<subseteq> {..<length (flow_paths f)})"

definition share_in :: "history \<Rightarrow> flows \<Rightarrow> share \<Rightarrow> bool" where
  "share_in H fs s \<longleftrightarrow> (\<exists>f. map_of fs (share_flow_id s) = Some f \<and> share_seq_num s < seq_num f
     \<and> share_num s < flow_K f \<and> share_path_idx s = H (share_flow_id s) (share_seq_num s) ! share_num s
     \<and> share_source_node s = source_node f \<and> share_sink_node s = sink_node f)"

definition tracked :: "history \<Rightarrow> nodes \<Rightarrow> flows \<Rightarrow> bool" where
  "tracked H ns fs \<longleftrightarrow> history_ok H fs \<and> snd ` set (located ns) = {s. share_in H fs s \<and> alive fs s}"

definition extend_history :: "history \<Rightarrow> flows \<Rightarrow> history" where
  "extend_history H fs i q = (case map_of fs i of
     Some f \<Rightarrow> if q = seq_num f then active_paths f else H i q | None \<Rightarrow> H i q)"

text \<open>Runs that record the history: every step adds the paths that are active when it begins.\<close>

inductive sim_trace ::
    "'r np_random \<Rightarrow> node list \<Rightarrow> ph_flow list \<Rightarrow> 'r \<Rightarrow> simulation \<Rightarrow> 'r \<Rightarrow> history \<Rightarrow> bool"
  for np :: "'r np_random" and graph_nodes :: "node list" and fs0 :: "ph_flow list" and r0 :: 'r where
  trace_created: "sim_trace np graph_nodes fs0 r0 (create_simulation graph_nodes fs0) r0 (\<lambda>_ _. [])"
| trace_attacker: "sim_trace np graph_nodes fs0 r0 sim r H \<Longrightarrow>
    create_attacker cls np N K graph_nodes (sim_flows sim) period r = Inr (a, r') \<Longrightarrow>
    sim_trace np graph_nodes fs0 r0 (add_attacker sim (cls, a)) r' H"
| trace_step: "sim_trace np graph_nodes fs0 r0 sim r H \<Longrightarrow> sim_step np sim r = Inr (sim', r') \<Longrightarrow>
    sim_trace np graph_nodes fs0 r0 sim' r' (extend_history H (sim_flows sim))"

lemma trace_reachable: "sim_trace np g fs0 r0 sim r H \<Longrightarrow> sim_reachable np g fs0 r0 sim r"
  by (induction rule: sim_trace.induct) (auto intro: sim_reachable.intros)

lemma reachable_trace: "sim_reachable np g fs0 r0 sim r \<Longrightarrow> \<exists>H. sim_trace np g fs0 r0 sim r H"
  by (induction rule: sim_reachable.induct) (blast intro: sim_trace.intros)+

lemma flows_frame_back:
  assumes "flows_frame d fs fs'" and "map_of fs' i = Some f'"
  obtains f where "map_of fs i = Some f" "flow_frame d f f'"
proof -
  have "i \<in> set (dict_keys fs')" using assms(2) by (force dest: map_of_SomeD)
  then have "i \<in> set (dict_keys fs)" using assms(1) by (simp only: flows_frame_def)
  then obtain f where "map_of fs i = Some f" by (metis list.set_map map_of_eq_None_iff not_None_eq)
  then show thesis using that assms by (fastforce simp: flows_frame_def)
qed

lemma share_in_extend_old:
  assumes "share_in H fs s" and "flows_frame 1 fs fs'"
  shows "share_in (extend_history H fs) fs' s"
proof -
  from assms(1) obtain f where f: "map_of fs (share_flow_id s) = Some f" "share_seq_num s < seq_num f"
    "share_num s < flow_K f" "share_path_idx s = H (share_flow_id s) (share_seq_num s) ! share_num s"
    "share_source_node s = source_node f" "share_sink_node s = sink_node f" by (auto simp: share_in_def)
  moreover from this(1) assms(2) obtain f' where "map_of fs' (share_flow_id s) = Some f'" "flow_frame 1 f f'"
    by (auto simp: flows_frame_def)
  ultimately show ?thesis by (simp add: share_in_def extend_history_def flow_frame_def)
qed

lemma share_in_extend:
  assumes frame: "flows_frame 1 fs fs'" and fs: "flows_ok N fs"
  shows "share_in (extend_history H fs) fs' s \<longleftrightarrow> share_in H fs s \<or> s \<in> new_shares fs"
proof
  assume "share_in (extend_history H fs) fs' s"
  then obtain f' where f': "map_of fs' (share_flow_id s) = Some f'" "share_seq_num s < seq_num f'"
    "share_num s < flow_K f'" "share_path_idx s = extend_history H fs (share_flow_id s) (share_seq_num s) ! share_num s"
    "share_source_node s = source_node f'" "share_sink_node s = sink_node f'" by (auto simp: share_in_def)
  from flows_frame_back [OF frame f'(1)] obtain f where f: "map_of fs (share_flow_id s) = Some f" "flow_frame 1 f f'" .
  have ok: "flow_id f = share_flow_id s" "length (active_paths f) = flow_K f"
    using fs f(1) by (auto simp: flows_ok_def flow_static_ok_def flow_active_ok_def)
  show "share_in H fs s \<or> s \<in> new_shares fs"
  proof (cases "share_seq_num s = seq_num f")
    case True
    then have "s \<in> set (fst (create_shares f))"
      using f f' ok by (simp add: create_shares_eq set_create_shares_for flow_frame_def extend_history_def)
    then show ?thesis using f(1) by (auto simp: new_shares_def)
  next
    case False
    then show ?thesis using f f' by (auto simp: share_in_def flow_frame_def extend_history_def)
  qed
next
  assume "share_in H fs s \<or> s \<in> new_shares fs"
  then show "share_in (extend_history H fs) fs' s"
  proof
    assume "share_in H fs s"
    then show ?thesis using share_in_extend_old frame by blast
  next
    assume "s \<in> new_shares fs"
    then obtain f where f: "map_of fs (share_flow_id s) = Some f" "s \<in> set (fst (create_shares f))"
      by (auto simp: new_shares_def)
    moreover from f(1) frame obtain f' where "map_of fs' (share_flow_id s) = Some f'" "flow_frame 1 f f'"
      by (auto simp: flows_frame_def)
    moreover have "length (active_paths f) = flow_K f" using fs f(1) by (auto simp: flows_ok_def flow_active_ok_def)
    ultimately show ?thesis
      by (simp add: share_in_def extend_history_def flow_frame_def create_shares_eq set_create_shares_for)
  qed
qed

lemma history_ok_extend:
  assumes "history_ok H fs" and frame: "flows_frame 1 fs fs'" and fs: "flows_ok N fs"
  shows "history_ok (extend_history H fs) fs'"
  unfolding history_ok_def
proof (intro allI impI)
  fix i f' q
  assume f': "map_of fs' i = Some f'" "q < seq_num f'"
  from flows_frame_back [OF frame f'(1)] obtain f where f: "map_of fs i = Some f" "flow_frame 1 f f'" .
  then have "flow_active_ok f" using fs by (auto simp: flows_ok_def)
  then show "length (extend_history H fs i q) = flow_K f' \<and> distinct (extend_history H fs i q)
    \<and> set (extend_history H fs i q) \<subseteq> {..<length (flow_paths f')}"
    using f f' assms(1) by (cases "q = seq_num f") (auto simp: extend_history_def flow_frame_def flow_active_ok_def history_ok_def)
qed

lemma alive_back:
  assumes "flows_frame d fs fs'" and "alive fs' s"
  shows "alive fs s"
proof -
  from assms(2) obtain f' where f': "map_of fs' (share_flow_id s) = Some f'"
    "seq_num f' - share_seq_num s < length (flow_paths f' ! share_path_idx s)"
    by (auto simp: alive_def split: option.splits)
  from flows_frame_back [OF assms(1) f'(1)] obtain f where "map_of fs (share_flow_id s) = Some f" "flow_frame d f f'" .
  then show ?thesis using f' by (auto simp: alive_def flow_frame_def)
qed

lemma tracked_step:
  assumes np: "np_random_ok np" and inv: "net_inv (sim_nodes sim) (sim_flows sim)"
    and step: "sim_step np sim r = Inr (sim', r')" and tr: "tracked H (sim_nodes sim) (sim_flows sim)"
  shows "tracked (extend_history H (sim_flows sim)) (sim_nodes sim') (sim_flows sim')"
proof -
  note n = sim_step_net [OF np inv step]
  let ?fs = "sim_flows sim" and ?fs' = "sim_flows sim'"
  have fs: "flows_ok (set (dict_keys (sim_nodes sim))) ?fs" using inv by (simp only: net_inv_def)
  have "snd ` set (located (sim_nodes sim')) = {s. share_in (extend_history H ?fs) ?fs' s \<and> alive ?fs' s}"
    unfolding n(5) share_in_extend [OF n(3) fs] using tr alive_back [OF n(3)] by (auto simp: tracked_def)
  moreover have "history_ok (extend_history H ?fs) ?fs'"
    by (rule history_ok_extend [OF _ n(3) fs]) (use tr in \<open>simp add: tracked_def\<close>)
  ultimately show ?thesis by (simp add: tracked_def)
qed

lemma tracked_created:
  assumes "setup_ok g fs0"
  shows "tracked H (sim_nodes (create_simulation g fs0)) (sim_flows (create_simulation g fs0))"
proof -
  have "seq_num f = 0" if "map_of (sim_flows (create_simulation g fs0)) i = Some f" for i f
    using create_simulation_flow [OF that] assms by (auto simp: setup_ok_def fresh_flow_def)
  then show ?thesis by (fastforce simp: tracked_def history_ok_def share_in_def create_simulation_nodes(2))
qed

subsection \<open>What the attackers have seen\<close>

definition seen_ok :: "history \<Rightarrow> flows \<Rightarrow> attacker \<Rightarrow> bool" where
  "seen_ok H fs a \<longleftrightarrow> (\<forall>s \<in> set (captured_shares a). share_in H fs s)"

lemma resident_located:
  assumes "map_of ns k = Some n" and "s \<in> set (resident_shares n)"
  shows "s \<in> snd ` set (located ns)"
  using assms by (force simp: located_def dest!: map_of_SomeD)

lemma attack_step_seen:
  assumes tr: "tracked H ns fs" and seen: "seen_ok H fs a"
    and step: "attack_step np ns fs t (cls, a) r = Inr ((cls', a'), r')"
  shows "seen_ok H fs a'"
proof -
  have "share_in H fs s" if "map_of ns k = Some n" "s \<in> set (vulnerable_shares n)" for k n s
    using resident_located [OF that(1)] that(2) tr by (auto simp: tracked_def vulnerable_shares_def)
  then show ?thesis using seen unfolding seen_ok_def attack_step_captured(4) [OF step] by blast
qed

lemma attack_all_seen:
  assumes "tracked H ns fs" and "\<forall>(cls, a) \<in> set as. seen_ok H fs a"
    and "attack_all np ns fs t as r = Inr (as', r')"
  shows "\<forall>(cls, a) \<in> set as'. seen_ok H fs a"
proof -
  from attack_all_list [OF assms(3)] have "list_all2 (\<lambda>a a'. seen_ok H fs (snd a) \<longrightarrow> seen_ok H fs (snd a')) as as'"
  proof (rule list_all2_mono)
    fix a a'
    assume "\<exists>r r'. attack_step np ns fs t a r = Inr (a', r')"
    then show "seen_ok H fs (snd a) \<longrightarrow> seen_ok H fs (snd a')"
      using attack_step_seen [OF assms(1)] by (metis prod.collapse)
  qed
  then show ?thesis using assms(2) by (auto simp: list_all2_conv_all_nth all_set_conv_all_nth case_prod_unfold)
qed

lemma seen_ok_extend:
  "seen_ok H fs a \<Longrightarrow> flows_frame 1 fs fs' \<Longrightarrow> seen_ok (extend_history H fs) fs' a"
  by (simp add: seen_ok_def share_in_extend_old)

lemma create_attacker_captured:
  assumes "create_attacker cls np N K g fs period r = Inr (a, r')"
  shows "captured_shares a = []" and "att_K a = K" and "att_N a = N"
  using select_monitored_nodes_keeps [OF assms [unfolded create_attacker_def]] by (simp_all add: new_attacker_def)

lemma trace_tracked:
  assumes "sim_trace np g fs0 r0 sim r H" and "np_random_ok np" and "setup_ok g fs0"
  shows "tracked H (sim_nodes sim) (sim_flows sim) \<and> (\<forall>(cls, a) \<in> set (sim_attackers sim). seen_ok H (sim_flows sim) a)"
  using assms
proof (induction rule: sim_trace.induct)
  case trace_created
  then show ?case using tracked_created by (fastforce simp: create_simulation_def new_simulation_def)
next
  case (trace_attacker sim r H cls N K period a r')
  then show ?case using create_attacker_captured(1) [OF trace_attacker.hyps(2)]
    by (auto simp: add_attacker_def seen_ok_def)
next
  case (trace_step sim r H sim' r')
  from trace_step.IH [OF trace_step.prems] have H: "tracked H (sim_nodes sim) (sim_flows sim)"
    "\<forall>(cls, a) \<in> set (sim_attackers sim). seen_ok H (sim_flows sim) a" by blast+
  have inv: "net_inv (sim_nodes sim) (sim_flows sim)"
    using reachable_sim_inv [OF trace_reachable [OF trace_step.hyps(1)] trace_step.prems] by (simp add: sim_inv_def)
  note tr = tracked_step [OF trace_step.prems(1) inv trace_step.hyps(2) H(1)]
  note n = sim_step_net [OF trace_step.prems(1) inv trace_step.hyps(2)]
  from trace_step.hyps(2) obtain r1 where att: "attack_all np (sim_nodes sim') (sim_flows sim') (ticks sim)
    (sim_attackers sim) r1 = Inr (sim_attackers sim', r')" by (auto elim!: sim_stepE)
  have "\<forall>(cls, a) \<in> set (sim_attackers sim). seen_ok (extend_history H (sim_flows sim)) (sim_flows sim') a"
    using H(2) seen_ok_extend [OF _ n(3)] by auto
  from attack_all_seen [OF tr this att] show ?case using tr by blast
qed

lemma reachable_tracked:
  assumes "sim_reachable np g fs0 r0 sim r" and "np_random_ok np" and "setup_ok g fs0"
  shows "\<exists>H. tracked H (sim_nodes sim) (sim_flows sim) \<and> (\<forall>(cls, a) \<in> set (sim_attackers sim). seen_ok H (sim_flows sim) a)"
  using reachable_trace [OF assms(1)] trace_tracked [OF _ assms(2,3)] by blast

subsection \<open>Which messages an attacker recovers\<close>

definition single_flow_sim :: "flows \<Rightarrow> ph_flow \<Rightarrow> bool" where
  "single_flow_sim fs f \<longleftrightarrow> dict_keys fs = [0] \<and> map_of fs 0 = Some f"

lemma single_flow_share:
  assumes "single_flow_sim fs f" and "share_in H fs s"
  shows "share_flow_id s = 0" "share_seq_num s < seq_num f" "share_num s < flow_K f"
    "share_path_idx s = H 0 (share_seq_num s) ! share_num s"
proof -
  from assms(2) obtain g where g: "map_of fs (share_flow_id s) = Some g" "share_seq_num s < seq_num g"
    "share_num s < flow_K g" "share_path_idx s = H (share_flow_id s) (share_seq_num s) ! share_num s"
    by (auto simp: share_in_def)
  have "share_flow_id s \<in> set (dict_keys fs)" using g(1) by (force dest: map_of_SomeD)
  then show "share_flow_id s = 0" using assms(1) by (simp only: single_flow_sim_def list.set) simp
  then show "share_seq_num s < seq_num f" "share_num s < flow_K f"
    "share_path_idx s = H 0 (share_seq_num s) ! share_num s"
    using g assms(1) by (auto simp: single_flow_sim_def)
qed

lemma history_okD:
  assumes "history_ok H fs" and "map_of fs i = Some f" and "q < seq_num f"
  shows "length (H i q) = flow_K f" "distinct (H i q)" "set (H i q) \<subseteq> {..<length (flow_paths f)}"
  using assms unfolding history_ok_def by blast+

definition seen_nums :: "attacker \<Rightarrow> nat \<Rightarrow> nat set" where
  "seen_nums a q = share_num ` {s \<in> set (captured_shares a). share_seq_num s = q}"

lemma reconstruct_seen:
  assumes fs: "single_flow_sim fs f" "0 < flow_K f" and seen: "seen_ok H fs a" and K: "att_K a = flow_K f"
  shows "q \<in> set (reconstruct_captured_messages a) \<longleftrightarrow> seen_nums a q = {..<flow_K f}"
proof -
  have sub: "seen_nums a q \<subseteq> {..<flow_K f}"
    using seen single_flow_share(3) [OF fs(1)] by (auto simp: seen_nums_def seen_ok_def)
  have "(\<exists>s \<in> set (captured_shares a). share_seq_num s = q) \<longleftrightarrow> seen_nums a q \<noteq> {}" by (auto simp: seen_nums_def)
  then have "q \<in> set (reconstruct_captured_messages a) \<longleftrightarrow> seen_nums a q \<noteq> {} \<and> card (seen_nums a q) = flow_K f"
    by (simp only: reconstruct_iff seen_nums_def K)
  moreover have "card (seen_nums a q) = flow_K f \<longleftrightarrow> seen_nums a q = {..<flow_K f}"
    using card_subset_eq [OF finite_lessThan sub] by (metis card_lessThan)
  moreover have "{..<flow_K f} \<noteq> {}" using fs(2) by blast
  ultimately show ?thesis by metis
qed

lemma recovered_iff:
  assumes fs: "single_flow_sim fs f" "0 < flow_K f" and seen: "seen_ok H fs a" and K: "att_K a = flow_K f"
    and H: "history_ok H fs"
  shows "q \<in> set (reconstruct_captured_messages a) \<longleftrightarrow>
    q < seq_num f \<and> (\<forall>j \<in> set (H 0 q). \<exists>s \<in> set (captured_shares a). share_seq_num s = q \<and> share_path_idx s = j)"
proof
  assume "q \<in> set (reconstruct_captured_messages a)"
  then have all: "seen_nums a q = {..<flow_K f}" using reconstruct_seen [OF fs seen K] by simp
  then have "0 \<in> seen_nums a q" using fs(2) by simp
  then obtain s where s: "s \<in> set (captured_shares a)" "share_seq_num s = q" by (auto simp: seen_nums_def)
  then have q: "q < seq_num f" using seen single_flow_share(2) [OF fs(1)] by (auto simp: seen_ok_def)
  then have len: "length (H 0 q) = flow_K f" using history_okD(1) [OF H, of 0 f] fs(1) by (simp add: single_flow_sim_def)
  have "\<exists>s \<in> set (captured_shares a). share_seq_num s = q \<and> share_path_idx s = H 0 q ! m" if "m < flow_K f" for m
  proof -
    have "m \<in> seen_nums a q" using all that by simp
    then obtain s where "s \<in> set (captured_shares a)" "share_seq_num s = q" "share_num s = m"
      by (auto simp: seen_nums_def)
    then show ?thesis using seen single_flow_share(4) [OF fs(1)] by (auto simp: seen_ok_def)
  qed
  then show "q < seq_num f \<and> (\<forall>j \<in> set (H 0 q). \<exists>s \<in> set (captured_shares a). share_seq_num s = q \<and> share_path_idx s = j)"
    using q len by (metis in_set_conv_nth)
next
  assume R: "q < seq_num f \<and> (\<forall>j \<in> set (H 0 q). \<exists>s \<in> set (captured_shares a). share_seq_num s = q \<and> share_path_idx s = j)"
  then have len: "length (H 0 q) = flow_K f" "distinct (H 0 q)"
    using history_okD(1,2) [OF H, of 0 f] fs(1) by (simp_all add: single_flow_sim_def)
  have "m \<in> seen_nums a q" if m: "m < flow_K f" for m
  proof -
    from R m len(1) obtain s where s: "s \<in> set (captured_shares a)" "share_seq_num s = q" "share_path_idx s = H 0 q ! m"
      by (metis nth_mem)
    then have "share_in H fs s" using seen by (simp add: seen_ok_def)
    from single_flow_share(3,4) [OF fs(1) this] s(2,3) have "H 0 q ! share_num s = H 0 q ! m" "share_num s < flow_K f"
      by auto
    then have "share_num s = m" using len m nth_eq_iff_index_eq by metis
    then show ?thesis using s by (auto simp: seen_nums_def)
  qed
  moreover have "seen_nums a q \<subseteq> {..<flow_K f}"
    using seen single_flow_share(3) [OF fs(1)] by (auto simp: seen_nums_def seen_ok_def)
  ultimately show "q \<in> set (reconstruct_captured_messages a)" using reconstruct_seen [OF fs seen K] by auto
qed

subsection \<open>The attacker on every path\<close>

definition long_paths :: "ph_flow \<Rightarrow> bool" where
  "long_paths f \<longleftrightarrow> (\<forall>p \<in> set (flow_paths f). 3 \<le> length p)"

lemma second_node_inner:
  assumes "distinct p" and "3 \<le> length p"
  shows "p ! 1 \<noteq> hd p \<and> p ! 1 \<noteq> last p"
proof -
  have "p \<noteq> []" using assms(2) by auto
  then show ?thesis using assms by (simp add: hd_conv_nth last_conv_nth nth_eq_iff_index_eq)
qed

lemma newest_vulnerable:
  assumes inv: "net_inv ns fs" and tr: "tracked H ns fs" and fs: "map_of fs 0 = Some f" "long_paths f"
    and q: "seq_num f = Suc q" and m: "m < flow_K f"
  shows "\<exists>s n. map_of ns (flow_paths f ! (H 0 q ! m) ! 1) = Some n \<and> s \<in> set (vulnerable_shares n)
    \<and> share_seq_num s = q \<and> share_num s = m \<and> H 0 q ! m < length (flow_paths f)"
proof -
  let ?j = "H 0 q ! m"
  let ?p = "flow_paths f ! ?j"
  let ?s = "\<lparr>share_flow_id = 0, share_seq_num = q, share_num = m, share_path_idx = ?j,
    share_source_node = source_node f, share_sink_node = sink_node f\<rparr>"
  have H: "length (H 0 q) = flow_K f" "set (H 0 q) \<subseteq> {..<length (flow_paths f)}"
    using history_okD(1,3) [of H fs 0 f q] tr fs(1) q by (simp_all add: tracked_def)
  then have "?j \<in> {..<length (flow_paths f)}" using m nth_mem [of m "H 0 q"] by (metis subsetD)
  then have j: "?j < length (flow_paths f)" by simp
  then have p: "3 \<le> length ?p" "path_ok (set (dict_keys ns)) f ?p"
    using fs(2) net_inv_flow(1) [OF inv fs(1)] nth_mem [OF j] by (auto simp: long_paths_def flow_static_ok_def)
  have "share_in H fs ?s" using fs(1) q m by (simp add: share_in_def)
  moreover have "alive fs ?s" using fs(1) q p(1) by (simp add: alive_def)
  ultimately have "?s \<in> snd ` set (located ns)" using tr by (auto simp: tracked_def)
  then obtain k n where kn: "(k, n) \<in> set ns" "?s \<in> set (resident_shares n)" by (auto simp: located_def)
  then have n: "map_of ns k = Some n" using inv by (auto simp: net_inv_def nodes_ok_def dict_wf_map_of_in)
  from net_inv_resident [OF inv n kn(2)] have k: "k = ?p ! 1" "node_id n = k"
    using fs(1) q by (auto simp: share_at_def Let_def)
  have "?p ! 1 \<noteq> hd ?p" "?p ! 1 \<noteq> last ?p"
    using second_node_inner [of ?p] p by (auto simp: path_ok_def)
  then have "?s \<in> set (vulnerable_shares n)" using kn(2) k p(2) by (auto simp: vulnerable_shares_def path_ok_def)
  then show ?thesis using n k(1) j by (intro exI [of _ ?s] exI [of _ n]) auto
qed

definition watches_all :: "flows \<Rightarrow> attacker \<Rightarrow> bool" where
  "watches_all fs a \<longleftrightarrow> (\<exists>f. map_of fs 0 = Some f \<and> set (monitored_nodes a) = (\<lambda>p. p ! 1) ` set (flow_paths f))"

lemma total_select_watches:
  assumes "total_select np ks fs t a r = Inr (a', r')" and "monitored_nodes a = [] \<or> watches_all fs a"
    and "map_of fs 0 = Some f" "flow_paths f \<noteq> []"
  shows "watches_all fs a'"
proof (cases "monitored_nodes a = []")
  case True
  then obtain ns where ns: "map_res (\<lambda>p. py_nth p 1) (flow_paths f) = Inr ns" "a' = a\<lparr>monitored_nodes := remdups ns\<rparr>"
    using assms by (auto simp: total_select_def rbind_Inr_iff dict_get_def)
  have nth: "py_nth p 1 = Inr n \<Longrightarrow> n = p ! 1" for p :: "int list" and n
    using py_nth_nat [of p 1] by (simp split: if_splits)
  from ns(1) have "list_all2 (\<lambda>p n. py_nth p 1 = Inr n) (flow_paths f) ns" by (simp add: map_res_Inr_iff)
  then have "list_all2 (\<lambda>p n. n = p ! 1) (flow_paths f) ns" by (rule list_all2_mono) (rule nth)
  then have "ns = map (\<lambda>p. p ! 1) (flow_paths f)" by (auto simp: list_all2_conv_all_nth intro: nth_equalityI)
  then show ?thesis using ns(2) assms(3) by (auto simp: watches_all_def)
next
  case False
  then show ?thesis using assms by (auto simp: total_select_def)
qed


lemma total_recovers_newest:
  assumes inv: "net_inv ns fs" and tr: "tracked H ns fs" and fs: "single_flow_sim fs f" "long_paths f"
    and q: "seq_num f = Suc q" and a: "watches_all fs a" "att_K a = flow_K f" "seen_ok H fs a"
    and step: "attack_step np ns fs t (cls, a) r = Inr ((cls', a'), r')"
  shows "q \<in> set (reconstruct_captured_messages a')"
proof -
  have f: "map_of fs 0 = Some f" using fs(1) by (simp add: single_flow_sim_def)
  have K: "0 < flow_K f" using net_inv_flow(1) [OF inv f] by (simp add: flow_static_ok_def)
  have "m \<in> seen_nums a' q" if "m < flow_K f" for m
  proof -
    from newest_vulnerable [OF inv tr f fs(2) q that] obtain s n where
      s: "map_of ns (flow_paths f ! (H 0 q ! m) ! 1) = Some n" "s \<in> set (vulnerable_shares n)"
      "share_seq_num s = q" "share_num s = m" "H 0 q ! m < length (flow_paths f)" by blast
    have "flow_paths f ! (H 0 q ! m) ! 1 \<in> set (monitored_nodes a)"
      using a(1) f nth_mem [OF s(5)] by (auto simp: watches_all_def)
    then have "s \<in> set (captured_shares a')" using s(1,2) unfolding attack_step_captured(4) [OF step] by blast
    then show ?thesis using s(3,4) by (auto simp: seen_nums_def)
  qed
  moreover have seen': "seen_ok H fs a'" by (rule attack_step_seen [OF tr a(3) step])
  moreover have "seen_nums a' q \<subseteq> {..<flow_K f}"
    using seen' single_flow_share(3) [OF fs(1)] by (auto simp: seen_nums_def seen_ok_def)
  ultimately have "seen_nums a' q = {..<flow_K f}" by auto
  moreover have "att_K a' = flow_K f" using attack_step_captured(2) [OF step] a(2) by simp
  ultimately show ?thesis using reconstruct_seen [OF fs(1) K seen'] by blast
qed

lemma attack_step_recovered:
  assumes fs: "single_flow_sim fs f" "0 < flow_K f" and tr: "tracked H ns fs"
    and a: "att_K a = flow_K f" "seen_ok H fs a" and step: "attack_step np ns fs t (cls, a) r = Inr ((cls', a'), r')"
  shows "set (reconstruct_captured_messages a) \<subseteq> set (reconstruct_captured_messages a')"
proof
  fix q
  assume "q \<in> set (reconstruct_captured_messages a)"
  then have "{..<flow_K f} \<subseteq> seen_nums a q" using reconstruct_seen [OF fs a(2,1)] by blast
  also have "\<dots> \<subseteq> seen_nums a' q" unfolding seen_nums_def attack_step_captured(4) [OF step] by blast
  finally have "{..<flow_K f} \<subseteq> seen_nums a' q" .
  moreover have seen': "seen_ok H fs a'" by (rule attack_step_seen [OF tr a(2) step])
  moreover have "seen_nums a' q \<subseteq> {..<flow_K f}"
    using seen' single_flow_share(3) [OF fs(1)] by (auto simp: seen_nums_def seen_ok_def)
  ultimately show "q \<in> set (reconstruct_captured_messages a')"
    using reconstruct_seen [OF fs seen', of q] attack_step_captured(2) [OF step] a(1) by simp
qed

lemma single_flow_frame:
  assumes "flows_frame d fs fs'" and "single_flow_sim fs f"
  obtains f' where "single_flow_sim fs' f'" "flow_frame d f f'"
  using assms that by (auto simp: flows_frame_def single_flow_sim_def)

lemma watches_all_frame:
  assumes "flows_frame d fs fs'" and "watches_all fs a"
  shows "watches_all fs' a"
  using assms by (fastforce simp: flows_frame_def flow_frame_def watches_all_def)


lemma net_inv_paths: "net_inv ns fs \<Longrightarrow> map_of fs i = Some f \<Longrightarrow> flow_paths f \<noteq> []"
  using net_inv_flow(1) [of ns fs i f] by (auto simp: flow_static_ok_def)

lemma total_attack_step_watches:
  assumes "attack_step np ns fs t (TotalAttacker, a) r = Inr ((cls', a'), r')"
    and "watches_all fs a" and "net_inv ns fs"
  shows "watches_all fs a'"
proof -
  from assms(1) obtain a1 where a1: "monitor TotalAttacker ns fs a = Inr a1"
    "select_monitored_nodes TotalAttacker np (dict_keys ns) fs t a1 r = Inr (a', r')" by (rule attack_stepE)
  from monitor_keeps [OF a1(1)] have m: "monitored_nodes a1 = monitored_nodes a" by blast
  obtain f where f: "map_of fs 0 = Some f" using assms(2) by (auto simp: watches_all_def)
  have "watches_all fs a1" using assms(2) m by (simp add: watches_all_def)
  then show ?thesis
    using total_select_watches [of np "dict_keys ns" fs t a1 r a' r' f] a1(2) f net_inv_paths [OF assms(3) f]
    by (simp add: select_monitored_nodes_def)
qed

lemma attack_all_prev:
  assumes "attack_all np ns fs t as r = Inr (as', r')" and "(cls, a') \<in> set as'"
  shows "\<exists>a r2 r3. (cls, a) \<in> set as \<and> attack_step np ns fs t (cls, a) r2 = Inr ((cls, a'), r3)"
proof -
  from assms(2) obtain j where j: "j < length as'" "as' ! j = (cls, a')" by (metis in_set_conv_nth)
  obtain cls0 a where a: "as ! j = (cls0, a)" by (cases "as ! j")
  have "j < length as" using j(1) list_all2_lengthD [OF attack_all_list [OF assms(1)]] by simp
  with list_all2_nthD [OF attack_all_list [OF assms(1)] this] j a obtain r2 r3 where
    st: "attack_step np ns fs t (cls0, a) r2 = Inr ((cls, a'), r3)" and "(cls0, a) \<in> set as" by (metis nth_mem)
  then show ?thesis using attack_step_captured(1) [OF st] by blast
qed

lemma reachable_total_watches:
  assumes "sim_reachable np g fs0 r0 sim r" and "np_random_ok np" and "setup_ok g fs0"
  shows "\<forall>a. (TotalAttacker, a) \<in> set (sim_attackers sim) \<longrightarrow> watches_all (sim_flows sim) a"
  using assms
proof (induction rule: sim_reachable.induct)
  case created
  then show ?case by (simp add: create_simulation_def new_simulation_def)
next
  case (attacker_added sim r cls N K period a r')
  have inv: "net_inv (sim_nodes sim) (sim_flows sim)"
    using reachable_sim_inv [OF attacker_added.hyps(1) attacker_added.prems] by (simp add: sim_inv_def)
  have "watches_all (sim_flows sim) a" if "cls = TotalAttacker"
  proof -
    have sel: "total_select np g (sim_flows sim) 1 (new_attacker N K period) r = Inr (a, r')"
      using attacker_added.hyps(2) that by (simp add: create_attacker_def select_monitored_nodes_def)
    then obtain f where "map_of (sim_flows sim) 0 = Some f"
      by (auto simp: total_select_def new_attacker_def rbind_Inr_iff dict_get_Inr_iff)
    then show ?thesis using total_select_watches [OF sel] net_inv_paths [OF inv] by (simp add: new_attacker_def)
  qed
  then show ?case using attacker_added.IH [OF attacker_added.prems] by (auto simp: add_attacker_def)
next
  case (stepped sim r sim' r')
  have inv: "net_inv (sim_nodes sim) (sim_flows sim)"
    using reachable_sim_inv [OF stepped.hyps(1) stepped.prems] by (simp add: sim_inv_def)
  note n = sim_step_net [OF stepped.prems(1) inv stepped.hyps(2)]
  from stepped.hyps(2) obtain r1 where att: "attack_all np (sim_nodes sim') (sim_flows sim') (ticks sim)
    (sim_attackers sim) r1 = Inr (sim_attackers sim', r')" by (auto elim!: sim_stepE)
  show ?case
  proof (intro allI impI)
    fix a'
    assume "(TotalAttacker, a') \<in> set (sim_attackers sim')"
    from attack_all_prev [OF att this] obtain a r2 r3 where c: "(TotalAttacker, a) \<in> set (sim_attackers sim)"
      and st: "attack_step np (sim_nodes sim') (sim_flows sim') (ticks sim) (TotalAttacker, a) r2 = Inr ((TotalAttacker, a'), r3)"
      by blast
    have "watches_all (sim_flows sim) a" by (rule stepped.IH [OF stepped.prems, rule_format, OF c])
    then have "watches_all (sim_flows sim') a" by (rule watches_all_frame [OF n(3)])
    then show "watches_all (sim_flows sim') a'" by (rule total_attack_step_watches [OF st _ n(1)])
  qed
qed

lemma total_step:
  assumes reach: "sim_reachable np g fs0 r0 sim r" and ok: "np_random_ok np" "setup_ok g fs0"
    and fs: "single_flow_sim (sim_flows sim) f" "long_paths f"
    and a: "j < length (sim_attackers sim)" "sim_attackers sim ! j = (TotalAttacker, a)" "att_K a = flow_K f"
    and step: "sim_step np sim r = Inr (sim', r')"
  shows "\<exists>a' f'. j < length (sim_attackers sim') \<and> sim_attackers sim' ! j = (TotalAttacker, a') \<and> att_K a' = att_K a
    \<and> single_flow_sim (sim_flows sim') f' \<and> flow_frame 1 f f'
    \<and> insert (seq_num f) (set (reconstruct_captured_messages a)) \<subseteq> set (reconstruct_captured_messages a')"
proof -
  have inv: "net_inv (sim_nodes sim) (sim_flows sim)" using reachable_sim_inv [OF reach ok] by (simp add: sim_inv_def)
  note n = sim_step_net [OF ok(1) inv step]
  from reachable_tracked [OF reach ok] obtain H where H: "tracked H (sim_nodes sim) (sim_flows sim)"
    "\<forall>(cls, a) \<in> set (sim_attackers sim). seen_ok H (sim_flows sim) a" by blast
  let ?H = "extend_history H (sim_flows sim)"
  have tr: "tracked ?H (sim_nodes sim') (sim_flows sim')" by (rule tracked_step [OF ok(1) inv step H(1)])
  have mem: "(TotalAttacker, a) \<in> set (sim_attackers sim)" using a(1,2) nth_mem by fastforce
  have seen: "seen_ok ?H (sim_flows sim') a" using H(2) mem by (intro seen_ok_extend [OF _ n(3)]) auto
  have w: "watches_all (sim_flows sim') a"
    using reachable_total_watches [OF reach ok] mem by (intro watches_all_frame [OF n(3)]) simp
  from single_flow_frame [OF n(3) fs(1)] obtain f' where f': "single_flow_sim (sim_flows sim') f'" "flow_frame 1 f f'" .
  then have f'': "long_paths f'" "seq_num f' = Suc (seq_num f)" "att_K a = flow_K f'" "map_of (sim_flows sim') 0 = Some f'"
    using fs(2) a(3) by (auto simp: long_paths_def flow_frame_def single_flow_sim_def)
  have K: "0 < flow_K f'" using net_inv_flow(1) [OF n(1) f''(4)] by (simp add: flow_static_ok_def)
  from step obtain r1 where att: "attack_all np (sim_nodes sim') (sim_flows sim') (ticks sim)
    (sim_attackers sim) r1 = Inr (sim_attackers sim', r')" by (auto elim!: sim_stepE)
  from list_all2_nthD [OF attack_all_list [OF att] a(1)] obtain cls' a' r2 r3 where
    st: "attack_step np (sim_nodes sim') (sim_flows sim') (ticks sim) (TotalAttacker, a) r2 = Inr ((cls', a'), r3)"
      "sim_attackers sim' ! j = (cls', a')"
    using a(2) by (metis prod.collapse)
  have "seq_num f \<in> set (reconstruct_captured_messages a')"
    by (rule total_recovers_newest [OF n(1) tr f'(1) f''(1,2) w f''(3) seen st(1)])
  moreover have "set (reconstruct_captured_messages a) \<subseteq> set (reconstruct_captured_messages a')"
    by (rule attack_step_recovered [OF f'(1) K tr f''(3) seen st(1)])
  moreover have "j < length (sim_attackers sim')" using list_all2_lengthD [OF attack_all_list [OF att]] a(1) by simp
  ultimately show ?thesis using st(2) attack_step_captured(1,2) [OF st(1)] f' by auto
qed

lemma total_run:
  assumes "sim_reachable np g fs0 r0 sim r" and "np_random_ok np" "setup_ok g fs0"
    and "single_flow_sim (sim_flows sim) f" "long_paths f"
    and "j < length (sim_attackers sim)" "sim_attackers sim ! j = (TotalAttacker, a)" "att_K a = flow_K f"
    and "run_sim np n sim r = Inr (sim', r')"
  shows "\<exists>a'. sim_attackers sim' ! j = (TotalAttacker, a')
    \<and> set (reconstruct_captured_messages a) \<union> {seq_num f..<seq_num f + n} \<subseteq> set (reconstruct_captured_messages a')"
  using assms
proof (induction n arbitrary: sim r f a)
  case (Suc n)
  from Suc.prems(9) obtain sim1 r1 where s: "sim_step np sim r = Inr (sim1, r1)" "run_sim np n sim1 r1 = Inr (sim', r')"
    by (auto simp: rbind_Inr_iff)
  from total_step [OF Suc.prems(1-8) s(1)] obtain a1 f1 where
    1: "j < length (sim_attackers sim1)" "sim_attackers sim1 ! j = (TotalAttacker, a1)" "att_K a1 = att_K a"
       "single_flow_sim (sim_flows sim1) f1" "flow_frame 1 f f1"
       "insert (seq_num f) (set (reconstruct_captured_messages a)) \<subseteq> set (reconstruct_captured_messages a1)" by blast
  have "long_paths f1" "att_K a1 = flow_K f1" "seq_num f1 = Suc (seq_num f)"
    using 1(3,5) Suc.prems(5,8) by (auto simp: long_paths_def flow_frame_def)
  with Suc.IH [OF sim_reachable.stepped [OF Suc.prems(1) s(1)] Suc.prems(2,3) 1(4) _ 1(1,2) _ s(2)]
  obtain a' where "sim_attackers sim' ! j = (TotalAttacker, a')"
    "set (reconstruct_captured_messages a1) \<union> {Suc (seq_num f)..<Suc (seq_num f) + n} \<subseteq> set (reconstruct_captured_messages a')"
    by auto
  moreover have "{seq_num f..<seq_num f + Suc n} = insert (seq_num f) {Suc (seq_num f)..<Suc (seq_num f) + n}" by auto
  ultimately show ?case using 1(6) by auto
qed auto

end
