(* ===== verification/Attacker_Totality.thy ===== *)
theory Attacker_Totality
  imports Simulation
begin

section \<open>When the attackers never raise\<close>

text \<open>
  The attackers of \<open>rest_client/path_hopping_simulator/attackers.py\<close> index the paths of the target flow
  and sample from their nodes, which raises when the paths are too short, of different lengths or too
  few.  \<open>target_ok\<close> and \<open>att_fit\<close> are what a simulation has to provide for that not to happen; every
  method keeps them, so a simulation of a fitting target never raises (\<open>run_fit_total\<close>).
\<close>

definition target_ok :: "node list \<Rightarrow> ph_flow \<Rightarrow> nat \<Rightarrow> bool" where
  "target_ok ks f M \<longleftrightarrow> 3 \<le> M \<and> flow_paths f \<noteq> [] \<and> (\<forall>p \<in> set (flow_paths f). length p = M \<and> set p \<subseteq> set ks)"

definition att_fit :: "node list \<Rightarrow> ph_flow \<Rightarrow> attacker_class \<Rightarrow> attacker \<Rightarrow> bool" where
  "att_fit ks f cls a \<longleftrightarrow> 0 < hop_period a \<and> att_K a \<le> length (flow_paths f)
     \<and> att_K a \<le> length (filter (\<lambda>n. n \<noteq> source_node f \<and> n \<noteq> sink_node f) ks)
     \<and> set (monitored_nodes a) \<subseteq> set ks
     \<and> (cls = PlannedAttacker \<longrightarrow> set (monitored_nodes a) \<subseteq> \<Union> (set ` set (flow_paths f)))
     \<and> (\<forall>coll. node_collection a = Some coll \<longrightarrow> att_K a \<le> length coll \<and> set coll \<subseteq> set ks)
     \<and> (\<forall>coll. path_collection a = Some coll \<longrightarrow> coll = map interior (flow_paths f))
     \<and> set (monitored_paths a) \<subseteq> {..<length (flow_paths f)}"

lemma sample_each_total:
  assumes "np_random_ok np" and "[] \<notin> set ps"
  shows "\<exists>xs r'. sample_each np r ps = Inr (xs, r') \<and> set xs \<subseteq> \<Union> (set ` set ps)"
  using assms(2)
proof (induction ps arbitrary: r)
  case (Cons p ps)
  from assms(1) obtain x r1 where x: "sample1 np r p = Inr (x, r1)" "x \<in> set p"
    by (cases rule: sample1_cases [where xs = p and r = r]) (use Cons.prems in auto)
  from Cons.IH [of r1] Cons.prems obtain xs r2 where "sample_each np r1 ps = Inr (xs, r2)" "set xs \<subseteq> \<Union> (set ` set ps)"
    by auto
  then show ?case using x by auto
qed simp

lemma interior_subset: "set (interior p) \<subseteq> set p"
  by (cases p) (auto simp: interior_def dest: in_set_butlastD)

lemma interior_nonempty: "3 \<le> length p \<Longrightarrow> interior p \<noteq> []"
  by (cases p; cases "tl p"; cases "tl (tl p)") (simp_all add: interior_def)

lemma one_node_each_total:
  assumes np: "np_random_ok np" and f: "target_ok ks f M" and k: "k \<le> length (flow_paths f)"
  shows "\<exists>ns r'. one_node_each np (map interior (flow_paths f)) k r = Inr (ns, r') \<and> set ns \<subseteq> set ks"
proof -
  let ?coll = "map interior (flow_paths f)"
  from sample_total [OF np, of k "[0..<length ?coll]" r] k obtain picked r1 where
    p: "sample np r [0..<length ?coll] k = Inr (picked, r1)" "set picked \<subseteq> {..<length ?coll}"
    by (auto simp: atLeast0LessThan)
  have sub: "set (map (\<lambda>j. ?coll ! j) picked) \<subseteq> interior ` set (flow_paths f)" using p(2) by auto
  have int: "q \<noteq> [] \<and> set q \<subseteq> set ks" if q: "q \<in> interior ` set (flow_paths f)" for q
  proof -
    from q obtain p where "p \<in> set (flow_paths f)" "q = interior p" by blast
    then show ?thesis using f interior_nonempty [of p] interior_subset [of p] by (auto simp: target_ok_def)
  qed
  have "[] \<notin> set (map (\<lambda>j. ?coll ! j) picked)" using sub int by blast
  from sample_each_total [OF np this, of r1] obtain xs r2 where
    xs: "sample_each np r1 (map (\<lambda>j. ?coll ! j) picked) = Inr (xs, r2)" "set xs \<subseteq> \<Union> (set ` set (map (\<lambda>j. ?coll ! j) picked))"
    by blast
  have "set xs \<subseteq> set ks" using xs(2) sub int by blast
  then show ?thesis using p(1) xs(1) by (simp add: one_node_each_def)
qed


lemma sampled_tail:
  assumes np: "np_random_ok np" and fit: "att_fit ks f cls a" and cls: "cls \<noteq> PlannedAttacker"
    and c: "att_K a \<le> length coll" "set coll \<subseteq> set ks"
  shows "\<exists>a' r'. (let a1 = a\<lparr>node_collection := Some coll\<rparr>
     in rbind (period_elapsed t (hop_period a1)) (\<lambda>b.
          if b then rbind (sample np r coll (att_K a1)) (\<lambda>(picked, r').
                 Inr (a1\<lparr>monitored_nodes := remdups picked, hop_count := hop_count a1 + 1\<rparr>, r'))
          else Inr (a1, r))) = Inr (a', r') \<and> att_fit ks f cls a'"
proof -
  from sample_total [OF np c(1), of r] obtain ys r1 where "sample np r coll (att_K a) = Inr (ys, r1)" "set ys \<subseteq> set coll" by blast
  then show ?thesis using fit c cls by (auto simp: att_fit_def period_elapsed_def Let_def)
qed

lemma random_node_total:
  assumes np: "np_random_ok np" and fs: "map_of fs 0 = Some f" and f: "target_ok ks f M"
    and fit: "att_fit ks f RandomNodeHoppingAttacker a"
  shows "\<exists>a' r'. random_node_select np ks fs t a r = Inr (a', r') \<and> att_fit ks f RandomNodeHoppingAttacker a'"
proof -
  define coll where "coll = (case node_collection a of Some coll \<Rightarrow> coll
    | None \<Rightarrow> sort (filter (\<lambda>n. n \<noteq> source_node f \<and> n \<noteq> sink_node f) ks))"
  have c: "att_K a \<le> length coll" "set coll \<subseteq> set ks"
    using fit by (auto simp: coll_def att_fit_def split: option.splits)
  have "(case node_collection a of
         Some coll \<Rightarrow> Inr coll
       | None \<Rightarrow> rbind (dict_get fs 0) (\<lambda>f.
           Inr (sort (filter (\<lambda>n. n \<noteq> source_node f \<and> n \<noteq> sink_node f) ks)))) = Inr coll"
    using fs by (simp add: coll_def dict_get_def split: option.splits)
  then show ?thesis unfolding random_node_select_def using sampled_tail [OF np fit _ c] by simp
qed

lemma random_path_total:
  assumes np: "np_random_ok np" and fs: "map_of fs 0 = Some f" and f: "target_ok ks f M"
    and fit: "att_fit ks f RandomPathHoppingAttacker a"
  shows "\<exists>a' r'. random_path_select np ks' fs t a r = Inr (a', r') \<and> att_fit ks f RandomPathHoppingAttacker a'"
proof -
  define coll where "coll = sort (case node_collection a of Some coll \<Rightarrow> coll | None \<Rightarrow> second_nodes (flow_paths f))"
  have "filter (\<lambda>p. \<not> length p \<le> 2) (flow_paths f) = flow_paths f"
    using f by (intro filter_True) (auto simp: target_ok_def)
  then have sec: "second_nodes (flow_paths f) = map (\<lambda>p. p ! 1) (flow_paths f)" unfolding second_nodes_def by (simp only:)
  have "(\<lambda>p. p ! 1) ` set (flow_paths f) \<subseteq> set ks"
    using f nth_mem by (force simp: target_ok_def)
  then have "set (second_nodes (flow_paths f)) \<subseteq> set ks" unfolding sec by auto
  then have c: "att_K a \<le> length coll" "set coll \<subseteq> set ks"
    using fit sec by (auto simp: coll_def att_fit_def split: option.splits)
  have "random_path_select np ks' fs t a r = (let a1 = a\<lparr>node_collection := Some coll\<rparr>
     in rbind (period_elapsed t (hop_period a1)) (\<lambda>b.
          if b then rbind (sample np r coll (att_K a1)) (\<lambda>(picked, r').
                 Inr (a1\<lparr>monitored_nodes := remdups picked, hop_count := hop_count a1 + 1\<rparr>, r'))
          else Inr (a1, r)))"
    using fs by (simp only: random_path_select_def dict_get_def option.case rbind_simps coll_def Let_def)
  then show ?thesis using sampled_tail [OF np fit _ c] by simp
qed

lemma ideal_total:
  assumes np: "np_random_ok np" and fs: "map_of fs 0 = Some f" and f: "target_ok ks f M"
    and fit: "att_fit ks f IdealRandomPathHoppingAttacker a"
  shows "\<exists>a' r'. ideal_select np ks' fs t a r = Inr (a', r') \<and> att_fit ks f IdealRandomPathHoppingAttacker a'"
proof -
  let ?coll = "map interior (flow_paths f)"
  have c: "path_coll a f = ?coll" using fit by (auto simp: path_coll_def att_fit_def split: option.splits)
  have "att_K a \<le> length [0..<length ?coll]" using fit by (simp add: att_fit_def)
  from sample_total [OF np this, of r] obtain js r1 where
    s: "sample np r [0..<length ?coll] (att_K a) = Inr (js, r1)" "set js \<subseteq> {..<length ?coll}"
    by (auto simp: atLeast0LessThan)
  have "set (concat (map (\<lambda>j. ?coll ! j) js)) \<subseteq> set ks"
    using s(2) f interior_subset by (force simp: target_ok_def)
  then show ?thesis unfolding ideal_select_def using fit fs s(1)
    by (auto simp: att_fit_def period_elapsed_def Let_def dict_get_def c)
qed

lemma one_node_per_path_total:
  assumes np: "np_random_ok np" and fs: "map_of fs 0 = Some f" and f: "target_ok ks f M"
    and fit: "att_fit ks f OneNodePerPathAttacker a"
  shows "\<exists>a' r'. one_node_per_path_select np ks' fs t a r = Inr (a', r') \<and> att_fit ks f OneNodePerPathAttacker a'"
proof -
  have c: "path_coll a f = map interior (flow_paths f)" using fit by (auto simp: path_coll_def att_fit_def split: option.splits)
  have "att_K a \<le> length (flow_paths f)" using fit by (simp add: att_fit_def)
  from one_node_each_total [OF np f this, of r] show ?thesis
    unfolding one_node_per_path_select_def using fit fs by (auto simp: att_fit_def Let_def dict_get_def c)
qed

lemma fixed_total:
  assumes np: "np_random_ok np" and fs: "map_of fs 0 = Some f" and f: "target_ok ks f M"
    and fit: "att_fit ks f FixedAttacker a"
  shows "\<exists>a' r'. fixed_select np ks' fs t a r = Inr (a', r') \<and> att_fit ks f FixedAttacker a'"
proof -
  have "att_K a \<le> length (flow_paths f)" using fit by (simp add: att_fit_def)
  from one_node_each_total [OF np f this, of r] show ?thesis
    unfolding fixed_select_def using fit fs by (auto simp: att_fit_def Let_def dict_get_def)
qed

lemma total_total:
  assumes fs: "map_of fs 0 = Some f" and f: "target_ok ks f M" and fit: "att_fit ks f TotalAttacker a"
  shows "\<exists>a' r'. total_select np ks' fs t a r = Inr (a', r') \<and> att_fit ks f TotalAttacker a'"
proof -
  have "map_res (\<lambda>p. py_nth p 1) (flow_paths f) = Inr (map (\<lambda>p. p ! 1) (flow_paths f))"
  proof (rule map_res_Inr_map)
    fix p
    assume "p \<in> set (flow_paths f)"
    then have "1 < length p" using f by (auto simp: target_ok_def)
    then show "py_nth p 1 = Inr (p ! 1)" using py_nth_nat [of p 1] by simp
  qed
  moreover have "(\<lambda>p. p ! 1) ` set (flow_paths f) \<subseteq> set ks"
    using f nth_mem by (force simp: target_ok_def)
  ultimately show ?thesis unfolding total_select_def using fit fs by (auto simp: att_fit_def dict_get_def)
qed


lemma planned_total:
  assumes np: "np_random_ok np" and fs: "map_of fs 0 = Some f" and f: "target_ok ks f M"
    and fit: "att_fit ks f PlannedAttacker a"
  shows "\<exists>a' r'. planned_select np ks' fs t a r = Inr (a', r') \<and> att_fit ks f PlannedAttacker a'"
proof -
  define a1 where "a1 = (if M \<le> hop_index a \<or> length (monitored_paths a) = att_N a
    then a\<lparr>hop_index := 1, att_active_paths := [], monitored_paths := []\<rparr> else a)"
  have M: "3 \<le> M" "\<forall>p \<in> set (flow_paths f). length p = M" using f by (auto simp: target_ok_def)
  have fit1: "att_fit ks f PlannedAttacker a1" "hop_index a1 < M" "att_K a1 = att_K a"
    using fit M(1) by (auto simp: a1_def att_fit_def)
  have "length ` set (flow_paths f) = {M}" using M(2) f by (auto simp: target_ok_def image_iff) (metis list.set_sel(1))
  then have max: "max_len (flow_paths f) = Inr M" using f by (simp add: max_len_def target_ok_def)
  let ?at = "\<lambda>p. p ! hop_index a1"
  have at: "py_nth p (int (hop_index a1)) = Inr (?at p)" if "p \<in> set (flow_paths f)" for p
    using that M(2) fit1(2) by simp
  let ?mp = "map (\<lambda>j. flow_paths f ! j) (monitored_paths a1)"
  have mp: "map_res (\<lambda>j. py_nth (flow_paths f) (int j)) (monitored_paths a1) = Inr ?mp"
    using fit1(1) by (intro map_res_Inr_map) (auto simp: att_fit_def)
  have "set ?mp \<subseteq> set (flow_paths f)" using fit1(1) by (auto simp: att_fit_def)
  then have mh: "map_res (\<lambda>p. py_nth p (int (hop_index a1))) ?mp = Inr (map ?at ?mp)"
    using at by (intro map_res_Inr_map) blast
  have nh: "map_res (\<lambda>p. py_nth p (int (hop_index a1))) (flow_paths f) = Inr (map ?at (flow_paths f))"
    using at by (intro map_res_Inr_map) blast
  define possible where "possible = remdups (filter (\<lambda>n. n \<notin> set (map ?at ?mp)) (map ?at (flow_paths f)))"
  have "?at p \<in> set p" if "p \<in> set (flow_paths f)" for p using that M(2) fit1(2) by (intro nth_mem) simp
  then have pos: "set possible \<subseteq> \<Union> (set ` set (flow_paths f))" unfolding possible_def by auto
  then have pos': "set possible \<subseteq> set ks" using f by (auto simp: target_ok_def)
  have sel: "planned_select np ks' fs t a r = rbind (period_elapsed t (hop_period a)) (\<lambda>b.
     rbind (if b then (if length possible \<le> att_K a1 then Inr (a1\<lparr>monitored_nodes := possible\<rparr>, r)
               else rbind (sample np r possible (att_K a1)) (\<lambda>(picked, r').
                      Inr (a1\<lparr>monitored_nodes := picked\<rparr>, r')))
       else Inr (a, r)) (\<lambda>(a2, r2). Inr (a2\<lparr>hop_index := hop_index a2 + 1\<rparr>, r2)))"
    unfolding planned_select_def using fs
    by (simp only: dict_get_def option.case rbind_simps max Let_def a1_def [symmetric] nh mp mh possible_def [symmetric])
  show ?thesis
  proof (cases "length possible \<le> att_K a1")
    case True
    then show ?thesis unfolding sel using fit fit1(1) pos pos' by (auto simp: att_fit_def period_elapsed_def)
  next
    case False
    then have "att_K a1 \<le> length possible" by simp
    from sample_total [OF np this, of r] obtain ys r1 where "sample np r possible (att_K a1) = Inr (ys, r1)"
      "set ys \<subseteq> set possible" by blast
    moreover from this(2) have "set ys \<subseteq> \<Union> (set ` set (flow_paths f))" "set ys \<subseteq> set ks" using pos pos' by blast+
    ultimately show ?thesis unfolding sel using False fit fit1(1) by (auto simp: att_fit_def period_elapsed_def)
  qed
qed

lemma select_total:
  assumes "np_random_ok np" and "map_of fs 0 = Some f" and "target_ok ks f M" and "att_fit ks f cls a"
  shows "\<exists>a' r'. select_monitored_nodes cls np ks fs t a r = Inr (a', r') \<and> att_fit ks f cls a'"
  using assms random_node_total random_path_total ideal_total one_node_per_path_total fixed_total planned_total total_total
  by (cases cls) (simp_all add: select_monitored_nodes_def)

lemma path_idx_total:
  "k \<in> \<Union> (set ` set ps) \<Longrightarrow> \<exists>j. path_idx_for_node ps k = Inr j \<and> j < length ps"
proof (induction ps)
  case (Cons p ps)
  show ?case
  proof (cases "k \<in> set p")
    case False
    with Cons obtain j where "path_idx_for_node ps k = Inr j" "j < length ps" by auto
    then show ?thesis using False by simp
  qed simp
qed simp

lemma capture_total:
  assumes fs: "map_of fs 0 = Some f" and fit: "att_fit ks f cls a"
    and k: "cls = PlannedAttacker \<Longrightarrow> node_id n \<in> \<Union> (set ` set (flow_paths f))"
  shows "\<exists>a'. capture_shares cls fs a n = Inr a' \<and> att_fit ks f cls a'"
proof (cases "cls = PlannedAttacker")
  case True
  from path_idx_total [OF k [OF True]] obtain j where "path_idx_for_node (flow_paths f) (node_id n) = Inr j" "j < length (flow_paths f)" by blast
  then show ?thesis using fs fit True
    by (auto simp: capture_shares_def planned_capture_shares_def dict_get_def Let_def att_fit_def)
next
  case False
  then have "capture_shares cls = base_capture_shares" by (cases cls) (simp_all add: capture_shares_def)
  then show ?thesis using fit by (simp add: base_capture_shares_def att_fit_def)
qed

lemma monitor_total:
  assumes ns: "nodes_ok ns" "dict_keys ns = ks" and fs: "map_of fs 0 = Some f" and fit: "att_fit ks f cls a"
  shows "\<exists>a'. monitor cls ns fs a = Inr a' \<and> att_fit ks f cls a'"
  unfolding monitor_def
proof (rule fold_res_total [where P = "att_fit ks f cls"])
  show "att_fit ks f cls a" by (rule fit)
  fix b k
  assume b: "att_fit ks f cls b" and k: "k \<in> set (monitored_nodes a)"
  have "k \<in> set ks" using k fit by (auto simp: att_fit_def)
  then obtain n where n: "map_of ns k = Some n" unfolding ns(2) [symmetric]
    by (metis list.set_map map_of_eq_None_iff not_None_eq)
  then have "node_id n = k" using ns(1) by (auto simp: nodes_ok_def dest!: map_of_SomeD)
  then have "cls = PlannedAttacker \<Longrightarrow> node_id n \<in> \<Union> (set ` set (flow_paths f))"
    using k fit by (simp add: att_fit_def subset_iff)
  from capture_total [OF fs b this] n show "\<exists>t. rbind (dict_get ns k) (capture_shares cls fs b) = Inr t \<and> att_fit ks f cls t"
    by (simp add: dict_get_def)
qed

lemma attack_all_total:
  assumes np: "np_random_ok np" and ns: "nodes_ok ns" "dict_keys ns = ks" and fs: "map_of fs 0 = Some f" "target_ok ks f M"
    and "\<forall>(cls, a) \<in> set as. att_fit ks f cls a"
  shows "\<exists>as' r'. attack_all np ns fs t as r = Inr (as', r') \<and> (\<forall>(cls, a) \<in> set as'. att_fit ks f cls a)"
  using assms(6)
proof (induction as arbitrary: r)
  case (Cons c as)
  obtain cls a where c: "c = (cls, a)" by (cases c)
  with Cons.prems have fit: "att_fit ks f cls a" by simp
  from monitor_total [OF ns fs(1) fit] obtain a1 where a1: "monitor cls ns fs a = Inr a1" "att_fit ks f cls a1" by blast
  from select_total [OF np fs a1(2), of t r] obtain a2 r2 where
    a2: "select_monitored_nodes cls np ks fs t a1 r = Inr (a2, r2)" "att_fit ks f cls a2" by blast
  from Cons.IH [of r2] Cons.prems obtain as' r' where "attack_all np ns fs t as r2 = Inr (as', r')"
    "\<forall>(cls, a) \<in> set as'. att_fit ks f cls a" by auto
  then show ?case using a1 a2 c ns(2) by (auto simp: attack_step_def)
qed simp


subsection \<open>Whole runs\<close>

definition sim_fit :: "node list \<Rightarrow> nat \<Rightarrow> simulation \<Rightarrow> bool" where
  "sim_fit ks M sim \<longleftrightarrow> net_inv (sim_nodes sim) (sim_flows sim) \<and> dict_keys (sim_nodes sim) = ks
     \<and> (\<exists>f. map_of (sim_flows sim) 0 = Some f \<and> target_ok ks f M \<and> (\<forall>(cls, a) \<in> set (sim_attackers sim). att_fit ks f cls a))"

lemma att_fit_frame: "flow_frame d f f' \<Longrightarrow> att_fit ks f' cls a = att_fit ks f cls a"
  by (simp add: att_fit_def flow_frame_def)

lemma target_ok_frame: "flow_frame d f f' \<Longrightarrow> target_ok ks f' M = target_ok ks f M"
  by (simp add: target_ok_def flow_frame_def)

lemma step_fit_total:
  assumes np: "np_random_ok np" and fit: "sim_fit ks M sim"
  shows "\<exists>sim' r'. sim_step np sim r = Inr (sim', r') \<and> sim_fit ks M sim'"
proof -
  from fit obtain f where f: "map_of (sim_flows sim) 0 = Some f" "target_ok ks f M"
    "\<forall>(cls, a) \<in> set (sim_attackers sim). att_fit ks f cls a"
    and inv: "net_inv (sim_nodes sim) (sim_flows sim)" and ks: "dict_keys (sim_nodes sim) = ks"
    unfolding sim_fit_def by blast
  from network_step_ok [OF np inv, of r] obtain ns fs r1 where
    n: "network_step np r (sim_nodes sim) (sim_flows sim) = Inr (ns, fs, r1)" "net_inv ns fs"
      "dict_keys ns = dict_keys (sim_nodes sim)" "flows_frame 1 (sim_flows sim) fs" by blast
  from n(4) f(1) obtain f' where f': "map_of fs 0 = Some f'" "flow_frame 1 f f'" unfolding flows_frame_def by blast
  have t': "target_ok ks f' M" "\<forall>(cls, a) \<in> set (sim_attackers sim). att_fit ks f' cls a"
    using f(2,3) target_ok_frame [OF f'(2)] att_fit_frame [OF f'(2)] by auto
  have "nodes_ok ns" using n(2) by (simp add: net_inv_def)
  from attack_all_total [OF np this _ f'(1) t'(1) t'(2), of "ticks sim" r1] obtain as r2 where
    a: "attack_all np ns fs (ticks sim) (sim_attackers sim) r1 = Inr (as, r2)" "\<forall>(cls, a) \<in> set as. att_fit ks f' cls a"
    using n(3) ks by auto
  let ?sim = "sim\<lparr>sim_nodes := ns, sim_flows := fs, sim_attackers := as, ticks := ticks sim + 1\<rparr>"
  have "sim_step np sim r = Inr (?sim, r2)" using n(1) a(1) by (simp add: sim_step_def)
  moreover have "sim_fit ks M ?sim" unfolding sim_fit_def using n(2,3) ks f'(1) t'(1) a(2) by simp
  ultimately show ?thesis by blast
qed

lemma run_fit_total:
  assumes "np_random_ok np" and "sim_fit ks M sim"
  shows "\<exists>sim' r'. run_sim np n sim r = Inr (sim', r') \<and> sim_fit ks M sim'"
  using assms(2)
proof (induction n arbitrary: sim r)
  case (Suc n)
  from step_fit_total [OF assms(1) Suc.prems, of r] obtain sim1 r1 where
    "sim_step np sim r = Inr (sim1, r1)" "sim_fit ks M sim1" by blast
  with Suc.IH [of sim1 r1] show ?case by simp
qed simp

lemma new_attacker_fit:
  assumes "0 < period" and "K \<le> length (flow_paths f)"
    and "K \<le> length (filter (\<lambda>n. n \<noteq> source_node f \<and> n \<noteq> sink_node f) ks)"
  shows "att_fit ks f cls (new_attacker N K period)"
  using assms by (simp add: att_fit_def new_attacker_def)

end
