(* ===== verification/Simulation_Properties.thy ===== *)
theory Simulation_Properties
  imports Simulation
begin

section \<open>Properties of the path-hopping simulation\<close>

text \<open>
  The properties of the simulator and of its attackers, each over every reachable state of a
  simulation, with a small concrete simulation (a generator that always picks the first choices, a
  flow over two disjoint paths) that the witnesses run.
\<close>

subsection \<open>A small simulation\<close>

definition ex_flow :: ph_flow where
  "ex_flow = \<lparr>flow_id = 0, source_node = 0, sink_node = 3, flow_paths = [[0, 1, 3], [0, 2, 3]],
     active_paths = [0, 1], data_volume = 1, flow_N = 2, flow_K = 2, seq_num = 0,
     shares_received = [], messages_tx = 0, messages_rx = 0\<rparr>"

definition ex_sim :: simulation where
  "ex_sim = create_simulation [0, 1, 2, 3] [ex_flow]"

definition ex_attacker :: attacker where
  "ex_attacker = (new_attacker 2 2 1)\<lparr>monitored_nodes := [1, 2]\<rparr>"

definition ex_fixed_attacker :: attacker where
  "ex_fixed_attacker =
     (new_attacker 2 2 1)\<lparr>monitored_nodes := [1, 2], hop_count := 1, path_collection := Some [[1], [2]]\<rparr>"

definition ex_attacked_sim :: simulation where
  "ex_attacked_sim = add_attacker (add_attacker ex_sim (TotalAttacker, ex_attacker)) (FixedAttacker, ex_fixed_attacker)"

lemma ex_setup: "setup_ok [0, 1, 2, 3] [ex_flow]"
  by (simp add: setup_ok_def fresh_flow_def flow_static_ok_def flow_active_ok_def path_ok_def ex_flow_def)

lemma ex_sim_reachable: "sim_reachable np_first [0, 1, 2, 3] [ex_flow] () ex_sim ()"
  unfolding ex_sim_def by (rule sim_reachable.created)

lemma ex_create_total:
  "create_attacker TotalAttacker np_first 2 2 [0, 1, 2, 3] (sim_flows ex_sim) 1 () = Inr (ex_attacker, ())"
  by code_simp

lemma ex_create_fixed:
  "create_attacker FixedAttacker np_first 2 2 [0, 1, 2, 3]
     (sim_flows (add_attacker ex_sim (TotalAttacker, ex_attacker))) 1 () = Inr (ex_fixed_attacker, ())"
  by code_simp

lemma ex_attacked_trace: "sim_trace np_first [0, 1, 2, 3] [ex_flow] () ex_attacked_sim () (\<lambda>_ _. [])"
  unfolding ex_attacked_sim_def
  by (rule sim_trace.trace_attacker [OF sim_trace.trace_attacker [OF _ ex_create_total] ex_create_fixed])
     (simp add: ex_sim_def sim_trace.trace_created)

lemma run_sim_trace:
  assumes "run_sim np n sim r = Inr (sim', r')" and "sim_trace np g fs0 r0 sim r H"
  shows "\<exists>H'. sim_trace np g fs0 r0 sim' r' H'"
  using assms
proof (induction n arbitrary: sim r H)
  case (Suc n)
  then obtain sim1 r1 where "sim_step np sim r = Inr (sim1, r1)" "run_sim np n sim1 r1 = Inr (sim', r')"
    by (auto simp: rbind_Inr_iff)
  then show ?case using Suc.IH sim_trace.trace_step [OF Suc.prems(2)] by blast
qed auto

definition ex_final :: "simulation \<Rightarrow> bool" where
  "ex_final sim \<longleftrightarrow> ticks sim = 4 \<and> map fst (sim_flows sim) = [0]
   \<and> map (flow_K \<circ> snd) (sim_flows sim) = [2] \<and> map (flow_paths \<circ> snd) (sim_flows sim) = [[[0, 1, 3], [0, 2, 3]]]
   \<and> map fst (sim_attackers sim) = [TotalAttacker, FixedAttacker] \<and> map (att_K \<circ> snd) (sim_attackers sim) = [2, 2]"

lemma ex_finalE:
  assumes "ex_final sim"
  obtains f a b where "ticks sim = 4" "sim_flows sim = [(0, f)]" "sim_attackers sim = [(TotalAttacker, a), (FixedAttacker, b)]"
    "att_K a = 2" "att_K b = 2" "flow_K f = 2" "flow_paths f = [[0, 1, 3], [0, 2, 3]]"
proof -
  from assms obtain f where f: "sim_flows sim = [(0, f)]" by (auto simp: ex_final_def map_eq_Cons_conv)
  from assms have "map fst (sim_attackers sim) = [TotalAttacker, FixedAttacker]" by (simp add: ex_final_def)
  then obtain a b where a: "sim_attackers sim = [(TotalAttacker, a), (FixedAttacker, b)]"
    by (auto simp: map_eq_Cons_conv)
  show thesis using that [OF _ f a] assms f a by (simp add: ex_final_def)
qed

lemma ex_run:
  "\<exists>sim r H. run_sim np_first 3 ex_attacked_sim () = Inr (sim, r) \<and> ex_final sim
    \<and> sim_trace np_first [0, 1, 2, 3] [ex_flow] () sim r H"
proof -
  have "case run_sim np_first 3 ex_attacked_sim () of Inl _ \<Rightarrow> False | Inr (sim, r) \<Rightarrow> ex_final sim"
    by code_simp
  then show ?thesis using run_sim_trace [OF _ ex_attacked_trace] by (auto split: sum.splits)
qed

subsection \<open>The network\<close>

text \<open>
  C3.  In every state a simulation reaches, whatever attackers it has, the network invariant holds:
  the nodes and flows are well formed, every share in flight sits on the node of its path that its
  age names, no share is in flight twice, and for every message of every flow the shares received
  and the shares in flight add up to \<open>K\<close>.
\<close>

theorem network_invariant:
  assumes "np_random_ok np" and "setup_ok g fs0" and "sim_reachable np g fs0 r0 sim r"
  shows "net_inv (sim_nodes sim) (sim_flows sim)"
  using reachable_sim_inv [OF assms(3,1,2)] by (simp add: sim_inv_def)

theorem network_invariant_witness:
  "\<exists>sim r. run_sim np_first 3 ex_attacked_sim () = Inr (sim, r) \<and> net_inv (sim_nodes sim) (sim_flows sim)"
  using ex_run network_invariant [OF np_first_ok ex_setup] trace_reachable by metis

text \<open>
  C4.  The shares in flight are exactly determined by the sequence numbers and by the paths the
  flows had hopped to when the messages were sent (the history \<open>H\<close> of the run): share \<open>m\<close> of message
  \<open>q\<close> travels on path \<open>H i q ! m\<close>, one node per step, and disappears after the last node.
\<close>

theorem shares_in_flight:
  assumes "np_random_ok np" and "setup_ok g fs0" and "sim_trace np g fs0 r0 sim r H"
  shows "(k, s) \<in> set (located (sim_nodes sim)) \<longleftrightarrow>
    (\<exists>f. map_of (sim_flows sim) (share_flow_id s) = Some f \<and> share_seq_num s < seq_num f \<and> share_num s < flow_K f
       \<and> share_source_node s = source_node f \<and> share_sink_node s = sink_node f
       \<and> share_path_idx s = H (share_flow_id s) (share_seq_num s) ! share_num s
       \<and> (let p = flow_paths f ! share_path_idx s; age = seq_num f - share_seq_num s
          in age < length p \<and> k = p ! age))"
proof -
  have inv: "net_inv (sim_nodes sim) (sim_flows sim)"
    using reachable_sim_inv [OF trace_reachable [OF assms(3)] assms(1,2)] by (simp add: sim_inv_def)
  have loc: "snd ` set (located (sim_nodes sim)) = {s. share_in H (sim_flows sim) s \<and> alive (sim_flows sim) s}"
    using trace_tracked [OF assms(3,1,2)] by (simp add: tracked_def)
  have at: "\<exists>f. map_of (sim_flows sim) (share_flow_id s) = Some f
      \<and> k = flow_paths f ! share_path_idx s ! (seq_num f - share_seq_num s)"
    if "(k, s) \<in> set (located (sim_nodes sim))" for k s
  proof -
    have "share_at (sim_flows sim) 0 k s" using inv that by (auto simp: net_inv_def)
    then show ?thesis by (auto simp: share_at_def Let_def split: option.splits)
  qed
  have "(k, s) \<in> set (located (sim_nodes sim)) \<longleftrightarrow>
    s \<in> snd ` set (located (sim_nodes sim)) \<and>
    (\<exists>f. map_of (sim_flows sim) (share_flow_id s) = Some f
      \<and> k = flow_paths f ! share_path_idx s ! (seq_num f - share_seq_num s))"
  proof (intro iffI conjI)
    assume "s \<in> snd ` set (located (sim_nodes sim)) \<and> (\<exists>f. map_of (sim_flows sim) (share_flow_id s) = Some f
      \<and> k = flow_paths f ! share_path_idx s ! (seq_num f - share_seq_num s))"
    moreover from this obtain k' where "(k', s) \<in> set (located (sim_nodes sim))" by auto
    ultimately show "(k, s) \<in> set (located (sim_nodes sim))" using at [of k' s] by auto
  qed (use at in \<open>force+\<close>)
  also have "\<dots> \<longleftrightarrow> share_in H (sim_flows sim) s \<and> alive (sim_flows sim) s \<and>
    (\<exists>f. map_of (sim_flows sim) (share_flow_id s) = Some f
      \<and> k = flow_paths f ! share_path_idx s ! (seq_num f - share_seq_num s))"
    unfolding loc by blast
  finally show ?thesis by (auto simp: share_in_def alive_def Let_def)
qed

theorem shares_in_flight_witness:
  "\<exists>sim r H. run_sim np_first 3 ex_attacked_sim () = Inr (sim, r) \<and> ex_final sim \<and>
    (\<forall>k s. (k, s) \<in> set (located (sim_nodes sim)) \<longleftrightarrow>
    (\<exists>f. map_of (sim_flows sim) (share_flow_id s) = Some f \<and> share_seq_num s < seq_num f \<and> share_num s < flow_K f
       \<and> share_source_node s = source_node f \<and> share_sink_node s = sink_node f
       \<and> share_path_idx s = H (share_flow_id s) (share_seq_num s) ! share_num s
       \<and> (let p = flow_paths f ! share_path_idx s; age = seq_num f - share_seq_num s
          in age < length p \<and> k = p ! age)))"
  using ex_run shares_in_flight [OF np_first_ok ex_setup] by metis

text \<open>
  A simulation without attackers never raises: from every reachable state any number of steps
  can be made, and each sends one message per flow.
\<close>

theorem run_total:
  assumes "np_random_ok np" and "setup_ok g fs0" and "sim_reachable np g fs0 r0 sim r" and "sim_attackers sim = []"
  shows "\<exists>sim' r'. run_sim np n sim r = Inr (sim', r') \<and> ticks sim' = ticks sim + n"
  using assms(3,4)
proof (induction n arbitrary: sim r)
  case (Suc n)
  have "net_inv (sim_nodes sim) (sim_flows sim)"
    using reachable_sim_inv [OF Suc.prems(1) assms(1,2)] by (simp add: sim_inv_def)
  from network_step_ok [OF assms(1) this, of r] obtain sim1 r1 where
    1: "sim_step np sim r = Inr (sim1, r1)" "sim_attackers sim1 = []" "ticks sim1 = ticks sim + 1"
    using Suc.prems(2) by (auto simp: sim_step_def)
  from Suc.IH [OF sim_reachable.stepped [OF Suc.prems(1) 1(1)] 1(2)] 1 show ?case by auto
qed simp

theorem run_total_witness:
  "\<exists>sim' r'. run_sim np_first 10 ex_sim () = Inr (sim', r') \<and> ticks sim' = ticks ex_sim + 10"
  by (rule run_total [OF np_first_ok ex_setup ex_sim_reachable])
     (simp add: ex_sim_def create_simulation_def new_simulation_def)

text \<open>
  C5.  Message accounting: in every reachable state each flow has sent one message per tick, every
  message sent is either received or pending, and no message is pending for longer than its longest
  path takes, so at most \<open>L - 1\<close> messages are pending when no path has more than \<open>L\<close> nodes.
\<close>

theorem message_accounting:
  assumes "np_random_ok np" and "setup_ok g fs0" and "sim_reachable np g fs0 r0 sim r"
    and "map_of (sim_flows sim) i = Some f" and "\<forall>p \<in> set (flow_paths f). length p \<le> L"
  shows "messages_tx f + 1 = ticks sim \<and> messages_tx f = messages_rx f + length (shares_received f)
    \<and> length (shares_received f) \<le> L - 1 \<and> (\<forall>q \<in> set (dict_keys (shares_received f)). messages_tx f < q + L)"
proof -
  have sinv: "sim_inv sim" by (rule reachable_sim_inv [OF assms(3,1,2)])
  then have inv: "net_inv (sim_nodes sim) (sim_flows sim)" by (simp add: sim_inv_def)
  have c: "flow_counts_ok f" by (rule net_inv_flow(3) [OF inv assms(4)])
  have L: "0 < L"
  proof -
    have "flow_paths f \<noteq> []" by (rule net_inv_paths [OF inv assms(4)])
    then have "hd (flow_paths f) \<in> set (flow_paths f)" by simp
    moreover from this have "2 \<le> length (hd (flow_paths f))"
      using net_inv_flow(1) [OF inv assms(4)] by (auto simp: flow_static_ok_def path_ok_def)
    ultimately show ?thesis using assms(5) by fastforce
  qed
  have "messages_tx f < q + L" if "q \<in> set (dict_keys (shares_received f))" for q
  proof (rule ccontr)
    assume "\<not> messages_tx f < q + L"
    then have "q + L \<le> seq_num f" using c by (simp add: flow_counts_ok_def)
    from share_old_delivered [OF inv assms(4,5) this L] show False using that
      by (metis list.set_map map_of_eq_None_iff)
  qed
  moreover have "messages_tx f + 1 = ticks sim" using sinv assms(4) c by (simp add: sim_inv_def flow_counts_ok_def)
  moreover have "messages_tx f \<le> messages_rx f + (L - 1)" by (rule messages_outstanding [OF inv assms(4,5) L])
  ultimately show ?thesis using c by (auto simp: flow_counts_ok_def)
qed

theorem message_accounting_witness:
  "\<exists>sim r f. run_sim np_first 3 ex_attacked_sim () = Inr (sim, r) \<and> map_of (sim_flows sim) 0 = Some f \<and>
    messages_tx f + 1 = ticks sim \<and> messages_tx f = messages_rx f + length (shares_received f)
    \<and> length (shares_received f) \<le> 3 - 1 \<and> (\<forall>q \<in> set (dict_keys (shares_received f)). messages_tx f < q + 3)"
proof -
  from ex_run obtain sim r H where s: "run_sim np_first 3 ex_attacked_sim () = Inr (sim, r)" "ex_final sim"
    "sim_trace np_first [0, 1, 2, 3] [ex_flow] () sim r H" by blast
  from s(2) obtain f where f: "sim_flows sim = [(0, f)]" "flow_paths f = [[0, 1, 3], [0, 2, 3]]" by (rule ex_finalE)
  have "map_of (sim_flows sim) 0 = Some f" "\<forall>p \<in> set (flow_paths f). length p \<le> 3" using f by simp_all
  from message_accounting [OF np_first_ok ex_setup trace_reachable [OF s(3)] this] this(1) s(1)
  show ?thesis by blast
qed

subsection \<open>The attackers\<close>

lemma attack_step_budget:
  assumes "within_budget cls" and "np_random_ok np" and "length (monitored_nodes a) \<le> att_K a"
    and "attack_step np ns fs t (cls, a) r = Inr ((cls', a'), r')"
  shows "length (monitored_nodes a') \<le> att_K a'"
proof -
  from assms(4) obtain a1 where a1: "monitor cls ns fs a = Inr a1"
    "select_monitored_nodes cls np (dict_keys ns) fs t a1 r = Inr (a', r')" by (rule attack_stepE)
  have w: "fold_res (\<lambda>a k. rbind (dict_get ns k) (capture_shares cls fs a)) a (monitored_nodes a) = Inr a1"
    using a1(1) by (simp add: monitor_def)
  show ?thesis
  proof (cases cls)
    case RandomNodeHoppingAttacker
    show ?thesis by (rule random_node.round_budget [OF assms(2,3) w [unfolded RandomNodeHoppingAttacker] a1(2) [unfolded RandomNodeHoppingAttacker], THEN conjunct1])
  next
    case RandomPathHoppingAttacker
    show ?thesis by (rule random_path.round_budget [OF assms(2,3) w [unfolded RandomPathHoppingAttacker] a1(2) [unfolded RandomPathHoppingAttacker], THEN conjunct1])
  next
    case OneNodePerPathAttacker
    show ?thesis by (rule one_node.round_budget [OF assms(2,3) w [unfolded OneNodePerPathAttacker] a1(2) [unfolded OneNodePerPathAttacker], THEN conjunct1])
  next
    case FixedAttacker
    show ?thesis by (rule fixed.round_budget [OF assms(2,3) w [unfolded FixedAttacker] a1(2) [unfolded FixedAttacker], THEN conjunct1])
  next
    case PlannedAttacker
    show ?thesis by (rule planned.round_budget [OF assms(2,3) w [unfolded PlannedAttacker] a1(2) [unfolded PlannedAttacker], THEN conjunct1])
  qed (use assms(1) in \<open>simp_all add: within_budget_def\<close>)
qed

lemma reachable_budget:
  assumes "sim_reachable np g fs0 r0 sim r" and "np_random_ok np"
  shows "\<forall>(cls, a) \<in> set (sim_attackers sim). within_budget cls \<longrightarrow> length (monitored_nodes a) \<le> att_K a"
  using assms
proof (induction rule: sim_reachable.induct)
  case created
  then show ?case by (simp add: create_simulation_def new_simulation_def)
next
  case (attacker_added sim r cls N K period a r')
  have "length (monitored_nodes (new_attacker N K period)) \<le> att_K (new_attacker N K period)"
    by (simp add: new_attacker_def)
  from select_within_budget [OF _ attacker_added.prems this] attacker_added.hyps(2)
  have "within_budget cls \<Longrightarrow> length (monitored_nodes a) \<le> att_K a" unfolding create_attacker_def by blast
  then show ?case using attacker_added.IH [OF attacker_added.prems] by (auto simp: add_attacker_def)
next
  case (stepped sim r sim' r')
  from stepped.hyps(2) obtain ns fs r1 where att: "attack_all np ns fs (ticks sim) (sim_attackers sim) r1
    = Inr (sim_attackers sim', r')" by (auto elim!: sim_stepE)
  have "length (monitored_nodes a') \<le> att_K a'" if "(cls, a') \<in> set (sim_attackers sim')" "within_budget cls" for cls a'
  proof -
    from attack_all_prev [OF att that(1)] obtain a r2 r3 where a: "(cls, a) \<in> set (sim_attackers sim)"
      and st: "attack_step np ns fs (ticks sim) (cls, a) r2 = Inr ((cls, a'), r3)" by blast
    have "length (monitored_nodes a) \<le> att_K a" using stepped.IH [OF stepped.prems] a that(2) by auto
    from attack_step_budget [OF that(2) stepped.prems this st] show ?thesis .
  qed
  then show ?case by blast
qed

text \<open>
  C6.  Threshold secrecy.  In a simulation of the target flow, an attacker that knows the flow's
  threshold recovers message \<open>q\<close> exactly when it has captured a share of \<open>q\<close> on every one of the \<open>K\<close>
  paths \<open>q\<close> was sent over: missing a single path is enough for the message to stay secret.
\<close>

theorem recovery_needs_every_path:
  assumes "np_random_ok np" and "setup_ok g fs0" and "sim_trace np g fs0 r0 sim r H"
    and "single_flow_sim (sim_flows sim) f" and "(cls, a) \<in> set (sim_attackers sim)" and "att_K a = flow_K f"
  shows "q \<in> set (reconstruct_captured_messages a) \<longleftrightarrow>
    q < messages_tx f \<and> (\<forall>j \<in> set (H 0 q). \<exists>s \<in> set (captured_shares a). share_seq_num s = q \<and> share_path_idx s = j)"
proof -
  have inv: "net_inv (sim_nodes sim) (sim_flows sim)"
    using reachable_sim_inv [OF trace_reachable [OF assms(3)] assms(1,2)] by (simp add: sim_inv_def)
  have f: "map_of (sim_flows sim) 0 = Some f" using assms(4) by (simp add: single_flow_sim_def)
  have K: "0 < flow_K f" "messages_tx f = seq_num f" using net_inv_flow(1,3) [OF inv f]
    by (simp_all add: flow_static_ok_def flow_counts_ok_def)
  have "history_ok H (sim_flows sim)" "seen_ok H (sim_flows sim) a"
    using trace_tracked [OF assms(3,1,2)] assms(5) by (auto simp: tracked_def)
  then show ?thesis using recovered_iff [OF assms(4) K(1) _ assms(6)] K(2) by simp
qed

theorem recovery_needs_every_path_witness:
  "\<exists>sim r H f a. run_sim np_first 3 ex_attacked_sim () = Inr (sim, r) \<and> (FixedAttacker, a) \<in> set (sim_attackers sim)
    \<and> single_flow_sim (sim_flows sim) f \<and> (\<forall>q. q \<in> set (reconstruct_captured_messages a) \<longleftrightarrow>
    q < messages_tx f \<and> (\<forall>j \<in> set ((H :: history) 0 q). \<exists>s \<in> set (captured_shares a). share_seq_num s = q \<and> share_path_idx s = j))"
proof -
  from ex_run obtain sim r H where s: "run_sim np_first 3 ex_attacked_sim () = Inr (sim, r)" "ex_final sim"
    "sim_trace np_first [0, 1, 2, 3] [ex_flow] () sim r H" by blast
  from s(2) obtain f b a where f: "sim_flows sim = [(0, f)]" "flow_K f = 2" "att_K a = 2"
    "sim_attackers sim = [(TotalAttacker, b), (FixedAttacker, a)]" by (rule ex_finalE)
  have h: "single_flow_sim (sim_flows sim) f" "(FixedAttacker, a) \<in> set (sim_attackers sim)" "att_K a = flow_K f"
    using f by (simp_all add: single_flow_sim_def)
  show ?thesis
    by (rule exI [of _ sim], rule exI [of _ r], rule exI [of _ H], rule exI [of _ f], rule exI [of _ a])
       (intro conjI allI s(1) h(2,1) recovery_needs_every_path [OF np_first_ok ex_setup s(3) h])
qed

text \<open>
  The attacker that watches the first hop of every path recovers every message: once a
  \<open>TotalAttacker\<close> is part of a simulation of the target flow, whose paths have at least one interior
  node, each of the \<open>n\<close> messages sent in the next \<open>n\<close> steps is recovered.
\<close>

theorem total_attacker_recovers_all:
  assumes "np_random_ok np" and "setup_ok g fs0" and "sim_reachable np g fs0 r0 sim r"
    and "single_flow_sim (sim_flows sim) f" and "long_paths f"
    and "j < length (sim_attackers sim)" and "sim_attackers sim ! j = (TotalAttacker, a)" and "att_K a = flow_K f"
    and "run_sim np n sim r = Inr (sim', r')"
  shows "{messages_tx f..<messages_tx f + n} \<subseteq> set (reconstruct_captured_messages (snd (sim_attackers sim' ! j)))"
proof -
  have "net_inv (sim_nodes sim) (sim_flows sim)"
    using reachable_sim_inv [OF assms(3,1,2)] by (simp add: sim_inv_def)
  then have "messages_tx f = seq_num f"
    using net_inv_flow(3) [of _ _ 0 f] assms(4) by (auto simp: single_flow_sim_def flow_counts_ok_def)
  then show ?thesis using total_run [OF assms(3,1,2,4-9)] by auto
qed

theorem total_attacker_recovers_all_witness:
  "\<exists>sim r. run_sim np_first 3 ex_attacked_sim () = Inr (sim, r)
    \<and> {messages_tx ex_flow..<messages_tx ex_flow + 3} \<subseteq> set (reconstruct_captured_messages (snd (sim_attackers sim ! 0)))"
proof -
  from ex_run obtain sim r where s: "run_sim np_first 3 ex_attacked_sim () = Inr (sim, r)" by blast
  have "single_flow_sim (sim_flows ex_attacked_sim) ex_flow" unfolding single_flow_sim_def by code_simp
  moreover have "long_paths ex_flow" by code_simp
  moreover have "0 < length (sim_attackers ex_attacked_sim)" "att_K ex_attacker = flow_K ex_flow" by code_simp+
  moreover have "sim_attackers ex_attacked_sim ! 0 = (TotalAttacker, ex_attacker)" by code_simp
  ultimately show ?thesis
    using total_attacker_recovers_all [OF np_first_ok ex_setup trace_reachable [OF ex_attacked_trace] _ _ _ _ _ s] s by blast
qed

text \<open>
  C8.  The attackers that are given a budget keep it: in every reachable state an attacker of one of
  the classes \<open>RandomNodeHoppingAttacker\<close>, \<open>RandomPathHoppingAttacker\<close>, \<open>OneNodePerPathAttacker\<close>,
  \<open>FixedAttacker\<close> and \<open>PlannedAttacker\<close> monitors at most \<open>K\<close> nodes.
\<close>

theorem attacker_budget:
  assumes "np_random_ok np" and "sim_reachable np g fs0 r0 sim r" and "(cls, a) \<in> set (sim_attackers sim)"
    and "within_budget cls"
  shows "length (monitored_nodes a) \<le> att_K a"
  using reachable_budget [OF assms(2,1)] assms(3,4) by auto

theorem attacker_budget_witness:
  "\<exists>sim r a. run_sim np_first 3 ex_attacked_sim () = Inr (sim, r) \<and> (FixedAttacker, a) \<in> set (sim_attackers sim)
    \<and> length (monitored_nodes a) \<le> att_K a"
proof -
  from ex_run obtain sim r H where s: "run_sim np_first 3 ex_attacked_sim () = Inr (sim, r)" "ex_final sim"
    "sim_trace np_first [0, 1, 2, 3] [ex_flow] () sim r H" by blast
  from s(2) obtain b a where "sim_attackers sim = [(TotalAttacker, b), (FixedAttacker, a)]" by (rule ex_finalE)
  then have "(FixedAttacker, a) \<in> set (sim_attackers sim)" "within_budget FixedAttacker"
    by (simp_all add: within_budget_def)
  from attacker_budget [OF np_first_ok trace_reachable [OF s(3)] this] this(1) s(1) show ?thesis by blast
qed

text \<open>
  \<open>OneNodePerPathAttacker\<close> tests \<open>simulation_time & hop_period\<close> where the other attackers test
  \<open>simulation_time % hop_period\<close>: with a hop period of 1 it stays where it is at every odd tick,
  whatever the generator does, although its period has elapsed.
\<close>

theorem one_node_per_path_skips_odd_ticks:
  assumes "hop_period a = 1" and "odd t" and "select_monitored_nodes OneNodePerPathAttacker np ks fs t a r = Inr (a', r')"
  shows "monitored_nodes a' = monitored_nodes a \<and> hop_count a' = hop_count a \<and> r' = r
    \<and> period_elapsed t (hop_period a) = Inr True"
proof -
  have "t AND 1 = 1" using assms(2) by (simp add: and_one_eq odd_iff_mod_2_eq_one)
  then have "t AND hop_period a \<noteq> 0" using assms(1) by simp
  then show ?thesis using assms(1,3)
    by (auto simp: select_monitored_nodes_def one_node_per_path_select_def rbind_Inr_iff Let_def period_elapsed_def)
qed

theorem one_node_per_path_skips_odd_ticks_witness:
  "\<exists>a'. select_monitored_nodes OneNodePerPathAttacker np_first [0, 1, 2, 3] (sim_flows ex_sim) 5 ex_attacker () = Inr (a', ())
    \<and> monitored_nodes a' = monitored_nodes ex_attacker \<and> hop_count a' = hop_count ex_attacker
    \<and> period_elapsed 5 (hop_period ex_attacker) = Inr True"
proof -
  have p: "hop_period ex_attacker = 1" "odd (5 :: nat)" by (simp_all add: ex_attacker_def new_attacker_def)
  have "select_monitored_nodes OneNodePerPathAttacker np_first [0, 1, 2, 3] (sim_flows ex_sim) 5 ex_attacker ()
    = Inr (ex_attacker\<lparr>path_collection := Some [[1], [2]]\<rparr>, ())" by code_simp
  from one_node_per_path_skips_odd_ticks [OF p this] this show ?thesis by blast
qed

end
