(* ===== verification/Conduct.thy ===== *)
theory Conduct
  imports Parallel_Graph Attacker_Totality Simulation_Properties
begin

section \<open>Conducting a simulation\<close>

text \<open>
  Models \<open>conduct_path_hopping_simulation\<close> of \<open>rest_client/path_hopping_simulator.py\<close>: the graph of
  parallel paths, the target flow, one attacker of every class, and the run.  numpy's generator and
  seeding and networkx' \<open>node_disjoint_paths\<close> are parameters; printing is left out.  For parameters that
  make sense (\<open>conduct_ok\<close>) the entry point never raises, and its outcome is known exactly for the
  flow and for the \<open>TotalAttacker\<close>.
\<close>

subsection \<open>The entry point\<close>

fun create_attackers ::
    "'r np_random \<Rightarrow> nat \<Rightarrow> nat \<Rightarrow> node list \<Rightarrow> flows \<Rightarrow> nat \<Rightarrow> attacker_class list \<Rightarrow> 'r
      \<Rightarrow> ((attacker_class \<times> attacker) list \<times> 'r) res" where
  "create_attackers np N K graph_nodes fs period [] r = Inr ([], r)"
| "create_attackers np N K graph_nodes fs period (cls # clss) r =
     rbind (create_attacker cls np N K graph_nodes fs period r) (\<lambda>(a, r1).
     rbind (create_attackers np N K graph_nodes fs period clss r1) (\<lambda>(as, r2). Inr ((cls, a) # as, r2)))"

definition attacker_order :: "attacker_class list" where
  "attacker_order =
     [RandomPathHoppingAttacker, RandomNodeHoppingAttacker, IdealRandomPathHoppingAttacker,
      OneNodePerPathAttacker, FixedAttacker, PlannedAttacker, TotalAttacker]"

definition recovered_messages :: "simulation \<Rightarrow> (string \<times> nat list) list" where
  "recovered_messages sim =
     zip [''random-path-hopping-attacker-recovered-messages'',
          ''random-node-hopping-attacker-recovered-messages'',
          ''ideal-random-path-hopping-attacker-recovered-messages'',
          ''one-node-per-path-attacker-recovered-messages'',
          ''fixed-attacker-recovered-messages'',
          ''planned-attacker-recovered-messages'']
       (map (reconstruct_captured_messages \<circ> snd) (sim_attackers sim))"

definition conduct_path_hopping_simulation ::
    "'r np_random \<Rightarrow> (int \<Rightarrow> 'r res) \<Rightarrow> (nx_graph \<Rightarrow> node \<Rightarrow> node \<Rightarrow> node list list)
      \<Rightarrow> nat \<Rightarrow> nat \<Rightarrow> int \<Rightarrow> nat \<Rightarrow> nat \<Rightarrow> nat \<Rightarrow> ((string \<times> nat list) list \<times> simulation \<times> 'r) res" where
  "conduct_path_hopping_simulation np np_seed node_disjoint_paths N K seed_number path_length attacker_hop_period sim_duration =
     rbind (np_seed seed_number) (\<lambda>r0.
     rbind (build_n_parallel_graph N path_length) (\<lambda>(G, source_id, sink_id).
     rbind (create_random_flow np r0 (node_disjoint_paths G) (g_nodes G) N K 1 100 source_id sink_id (Some 0) 0) (\<lambda>(flow, _, r1).
     let simulation = create_simulation (g_nodes G) [flow]
     in rbind (create_attackers np N K (g_nodes G) (sim_flows simulation) attacker_hop_period attacker_order r1) (\<lambda>(attackers, r2).
        let simulation = fold (\<lambda>a s. add_attacker s a) attackers simulation
        in rbind (run_sim np sim_duration simulation r2) (\<lambda>(simulation, r3).
           Inr (recovered_messages simulation, simulation, r3))))))"

subsection \<open>From the parameters to the simulation\<close>

lemma create_simulation_keys:
  assumes "distinct g"
  shows "dict_keys (sim_nodes (create_simulation g fs)) = g"
proof -
  have "map fst (map (\<lambda>n. (node_id n, n)) (map new_node g)) = g" by (induction g) (simp_all add: new_node_def)
  then have "dict_of (map (\<lambda>n. (node_id n, n)) (map new_node g)) = map (\<lambda>n. (node_id n, n)) (map new_node g)"
    using assms by (intro dict_of_distinct) simp
  with \<open>map fst (map (\<lambda>n. (node_id n, n)) (map new_node g)) = g\<close> show ?thesis
    unfolding create_simulation_def new_simulation_def by (simp only: simulation.simps)
qed

lemma fold_add_attacker:
  "fold (\<lambda>a s. add_attacker s a) as sim = sim\<lparr>sim_attackers := sim_attackers sim @ as\<rparr>"
  by (induction as arbitrary: sim) (simp_all add: add_attacker_def)

lemma create_attackers_reachable:
  assumes "sim_reachable np g fs0 r0 sim r" and "create_attackers np N K g (sim_flows sim) period clss r = Inr (as, r')"
  shows "sim_reachable np g fs0 r0 (fold (\<lambda>a s. add_attacker s a) as sim) r'
    \<and> map fst as = clss \<and> (\<forall>(cls, a) \<in> set as. att_K a = K \<and> captured_shares a = [])"
  using assms
proof (induction clss arbitrary: sim r as)
  case (Cons cls clss)
  from Cons.prems(2) obtain a r1 as1 where
    1: "create_attacker cls np N K g (sim_flows sim) period r = Inr (a, r1)"
      "create_attackers np N K g (sim_flows sim) period clss r1 = Inr (as1, r')" "as = (cls, a) # as1"
    by (auto simp: rbind_Inr_iff)
  have "sim_reachable np g fs0 r0 (add_attacker sim (cls, a)) r1" by (rule sim_reachable.attacker_added [OF Cons.prems(1) 1(1)])
  from Cons.IH [OF this] 1 show ?case using create_attacker_captured [OF 1(1)] by (auto simp: add_attacker_def)
qed simp

lemma create_attackers_total:
  assumes np: "np_random_ok np" and f: "map_of fs 0 = Some f" "target_ok g f M"
    and K: "0 < period" "K \<le> length (flow_paths f)" "K \<le> length (filter (\<lambda>n. n \<noteq> source_node f \<and> n \<noteq> sink_node f) g)"
  shows "\<exists>as r'. create_attackers np N K g fs period clss r = Inr (as, r') \<and> (\<forall>(cls, a) \<in> set as. att_fit g f cls a)"
proof (induction clss arbitrary: r)
  case (Cons cls clss)
  from select_total [OF np f new_attacker_fit [OF K]] obtain a r1 where
    "create_attacker cls np N K g fs period r = Inr (a, r1)" "att_fit g f cls a"
    unfolding create_attacker_def by blast
  with Cons [of r1] show ?case by auto
qed simp

lemma create_random_flow_ok:
  assumes np: "np_random_ok np" and st: "s \<in> set g" "t \<in> set g" and vol: "min_volume \<le> max_volume"
    and paths: "dp s t = ps" "N \<le> length ps" and K: "0 < K" "K \<le> length ps"
    and ok: "\<forall>p \<in> set ps. distinct p \<and> 2 \<le> length p \<and> hd p = s \<and> last p = t \<and> set p \<subseteq> set g \<and> - 1 \<notin> set p"
  shows "\<exists>f r'. create_random_flow np r dp g N K min_volume max_volume s t (Some i) c = Inr (f, c, r')
    \<and> fresh_flow (set g) f \<and> flow_id f = i \<and> flow_paths f = ps \<and> flow_K f = K \<and> source_node f = s \<and> sink_node f = t"
proof -
  have "min_volume < max_volume + 1" using vol by simp
  then obtain v r1 where v: "np_randint np r min_volume (max_volume + 1) = Inr (v, r1)"
    using np unfolding np_random_ok_def by metis
  define f where "f = fst (new_flow s t v ps N K (Some i) c)"
  have f: "new_flow s t v ps N K (Some i) c = (f, c)" by (simp add: f_def new_flow_def)
  have fields: "flow_id f = i" "source_node f = s" "sink_node f = t" "flow_paths f = ps" "flow_K f = K" "seq_num f = 0"
    "shares_received f = []" "messages_tx f = 0" "messages_rx f = 0" by (simp_all add: f_def new_flow_def)
  have st_ok: "flow_static_ok (set g) i f" using fields K ok by (simp add: flow_static_ok_def path_ok_def)
  from hop_ok [OF np st_ok, of r1] obtain js r2 where h: "hop np r1 f = Inr (f\<lparr>active_paths := js\<rparr>, r2)"
    "flow_active_ok (f\<lparr>active_paths := js\<rparr>)" by blast
  have "create_random_flow np r dp g N K min_volume max_volume s t (Some i) c = Inr (f\<lparr>active_paths := js\<rparr>, c, r2)"
    using st v paths f h(1) by (simp add: create_random_flow_def)
  moreover have "fresh_flow (set g) (f\<lparr>active_paths := js\<rparr>)"
    using st_ok h(2) fields by (simp add: fresh_flow_def flow_static_ok_def path_ok_def)
  ultimately show ?thesis using fields by simp
qed


lemma young_pending:
  assumes inv: "net_inv ns fs" and tr: "tracked H ns fs" and f: "map_of fs i = Some f"
    and M: "\<forall>p \<in> set (flow_paths f). length p = M" and q: "q < seq_num f" "seq_num f - q < M"
  shows "q \<in> set (dict_keys (shares_received f))"
proof -
  note fo = net_inv_flow [OF inv f]
  have K: "0 < flow_K f" using fo(1) by (simp add: flow_static_ok_def)
  have H: "length (H i q) = flow_K f" "set (H i q) \<subseteq> {..<length (flow_paths f)}"
    using history_okD(1,3) [of H fs i f q] tr f q(1) by (simp_all add: tracked_def)
  let ?s = "\<lparr>share_flow_id = i, share_seq_num = q, share_num = 0, share_path_idx = H i q ! 0,
    share_source_node = source_node f, share_sink_node = sink_node f\<rparr>"
  have "H i q ! 0 \<in> set (H i q)" using H(1) K by simp
  then have "H i q ! 0 < length (flow_paths f)" using H(2) by blast
  then have "alive fs ?s" using f q(2) M by (simp add: alive_def)
  moreover have "share_in H fs ?s" using f q(1) K by (simp add: share_in_def)
  ultimately have "?s \<in> snd ` set (located ns)" using tr by (auto simp: tracked_def)
  then obtain k where "(k, ?s) \<in> set (located ns)" by auto
  then have "inflight (located ns) i q \<noteq> 0" by (force simp: inflight_def filter_empty_conv)
  moreover have "received f q + inflight (located ns) i q = flow_K f"
    using inv f q(1) shares_okD [of fs "located ns" i f q] by (simp add: net_inv_def)
  ultimately have "received f q \<noteq> flow_K f" by linarith
  then have "map_of (shares_received f) q \<noteq> None" by (auto simp: received_def split: option.splits)
  then show ?thesis by (metis list.set_map map_of_eq_None_iff)
qed

lemma uniform_delivery:
  assumes inv: "net_inv ns fs" and tr: "tracked H ns fs" and f: "map_of fs i = Some f"
    and M: "\<forall>p \<in> set (flow_paths f). length p = M"
  shows "messages_rx f = seq_num f - (M - 1)"
proof -
  have cok: "flow_counts_ok f" by (rule net_inv_flow(3) [OF inv f])
  have "flow_paths f \<noteq> []" by (rule net_inv_paths [OF inv f])
  then have "hd (flow_paths f) \<in> set (flow_paths f)" by simp
  then have M0: "0 < M" using M net_inv_flow(1) [OF inv f] by (fastforce simp: flow_static_ok_def path_ok_def)
  have "set (dict_keys (shares_received f)) = {seq_num f - (M - 1)..<seq_num f}"
  proof (intro set_eqI iffI)
    fix q
    assume q: "q \<in> set (dict_keys (shares_received f))"
    then obtain c where c: "map_of (shares_received f) q = Some c" by (metis list.set_map map_of_eq_None_iff not_None_eq)
    then have "q < seq_num f" using cok by (auto simp: flow_counts_ok_def dest!: map_of_SomeD)
    moreover have "\<not> q + M \<le> seq_num f" using share_old_delivered [OF inv f _ _ M0] M c by auto
    ultimately show "q \<in> {seq_num f - (M - 1)..<seq_num f}" by auto
  next
    fix q
    assume "q \<in> {seq_num f - (M - 1)..<seq_num f}"
    then show "q \<in> set (dict_keys (shares_received f))" using M0 by (intro young_pending [OF inv tr f M]) auto
  qed
  moreover have "length (shares_received f) = card (set (dict_keys (shares_received f)))"
    using cok by (metis flow_counts_ok_def dict_wf_def distinct_card length_map)
  ultimately have "length (shares_received f) = seq_num f - (seq_num f - (M - 1))" by simp
  moreover have "messages_rx f + length (shares_received f) = seq_num f" using cok by (simp add: flow_counts_ok_def)
  ultimately show ?thesis by linarith
qed

lemma run_sim_reachable:
  "run_sim np n sim r = Inr (sim', r') \<Longrightarrow> sim_reachable np g fs0 r0 sim r \<Longrightarrow> sim_reachable np g fs0 r0 sim' r'"
proof (induction n arbitrary: sim r)
  case (Suc n)
  then obtain sim1 r1 where "sim_step np sim r = Inr (sim1, r1)" "run_sim np n sim1 r1 = Inr (sim', r')"
    by (auto simp: rbind_Inr_iff)
  then show ?case using Suc.IH sim_reachable.stepped [OF Suc.prems(2)] by blast
qed simp

lemma sim_step_attackers:
  assumes "sim_step np sim r = Inr (sim', r')"
  shows "list_all2 (\<lambda>a a'. fst a' = fst a \<and> att_K (snd a') = att_K (snd a)) (sim_attackers sim) (sim_attackers sim')"
proof -
  from assms obtain ns fs r1 where att: "attack_all np ns fs (ticks sim) (sim_attackers sim) r1 = Inr (sim_attackers sim', r')"
    by (auto elim!: sim_stepE)
  show ?thesis
  proof (rule list_all2_mono [OF attack_all_list [OF att]])
    fix a a'
    assume "\<exists>r r'. attack_step np ns fs (ticks sim) a r = Inr (a', r')"
    then obtain r r' where "attack_step np ns fs (ticks sim) (fst a, snd a) r = Inr ((fst a', snd a'), r')" by auto
    from attack_step_captured(1,2) [OF this] show "fst a' = fst a \<and> att_K (snd a') = att_K (snd a)" by simp
  qed
qed

lemma run_sim_flow:
  assumes "np_random_ok np" and "setup_ok g fs0" and "sim_reachable np g fs0 r0 sim r"
    and "run_sim np n sim r = Inr (sim', r')" and "sim_flows sim = [(i, f)]"
  shows "\<exists>f'. sim_flows sim' = [(i, f')] \<and> flow_paths f' = flow_paths f \<and> flow_K f' = flow_K f"
  using assms(3,4,5)
proof (induction n arbitrary: sim r f)
  case (Suc n)
  from Suc.prems(2) obtain sim1 r1 where s: "sim_step np sim r = Inr (sim1, r1)" "run_sim np n sim1 r1 = Inr (sim', r')"
    by (auto simp: rbind_Inr_iff)
  have "net_inv (sim_nodes sim) (sim_flows sim)"
    using reachable_sim_inv [OF Suc.prems(1) assms(1,2)] by (simp add: sim_inv_def)
  note frame = sim_step_net(3) [OF assms(1) this s(1)]
  have "dict_keys (sim_flows sim1) = [i]" using frame Suc.prems(3) by (simp add: flows_frame_def)
  then obtain f1 where f1: "sim_flows sim1 = [(i, f1)]" by (auto simp: map_eq_Cons_conv)
  have "map_of (sim_flows sim) i = Some f" "map_of (sim_flows sim1) i = Some f1" using Suc.prems(3) f1 by simp_all
  with frame have f1': "flow_frame 1 f f1" by (fastforce simp: flows_frame_def)
  from Suc.IH [OF sim_reachable.stepped [OF Suc.prems(1) s(1)] s(2) f1] f1' show ?case by (simp add: flow_frame_def)
qed simp

lemma run_sim_attackers:
  assumes "run_sim np n sim r = Inr (sim', r')"
  shows "list_all2 (\<lambda>a a'. fst a' = fst a \<and> att_K (snd a') = att_K (snd a)) (sim_attackers sim) (sim_attackers sim')"
  using assms
proof (induction n arbitrary: sim r)
  case 0
  then show ?case by (auto intro: list_all2_refl)
next
  case (Suc n)
  then obtain sim1 r1 where "sim_step np sim r = Inr (sim1, r1)" "run_sim np n sim1 r1 = Inr (sim', r')"
    by (auto simp: rbind_Inr_iff)
  from sim_step_attackers [OF this(1)] Suc.IH [OF this(2)] show ?case
    by (rule list_all2_trans [rotated]) simp
qed

lemma run_sim_ticks: "run_sim np n sim r = Inr (sim', r') \<Longrightarrow> ticks sim' = ticks sim + n"
proof (induction n arbitrary: sim r)
  case (Suc n)
  then obtain sim1 r1 where s: "sim_step np sim r = Inr (sim1, r1)" "run_sim np n sim1 r1 = Inr (sim', r')"
    by (auto simp: rbind_Inr_iff)
  from s(1) have "ticks sim1 = ticks sim + 1" by (auto elim!: sim_stepE)
  then show ?case using Suc.IH [OF s(2)] by simp
qed simp


text \<open>What the entry point needs of its parameters.\<close>

definition conduct_ok ::
    "'r np_random \<Rightarrow> (int \<Rightarrow> 'r res) \<Rightarrow> (nx_graph \<Rightarrow> node \<Rightarrow> node \<Rightarrow> node list list) \<Rightarrow> nat \<Rightarrow> nat \<Rightarrow> int \<Rightarrow> nat \<Rightarrow> nat \<Rightarrow> bool" where
  "conduct_ok np np_seed nx N K seed L period \<longleftrightarrow> np_random_ok np \<and> is_ok (np_seed seed)
     \<and> 0 < K \<and> K \<le> N \<and> 0 < L \<and> 0 < period
     \<and> (\<forall>G s t. build_n_parallel_graph N L = Inr (G, s, t) \<longrightarrow> disjoint_paths_ok nx G s t)"

lemma full_path_set:
  assumes "n < N" and "0 < L"
  shows "set (full_path N L n) \<subseteq> int ` {..<N * L + 2}"
proof
  fix x
  assume "x \<in> set (full_path N L n)"
  then consider "x = int (N * L)" | "x \<in> set (chain L n)" | "x = int (N * L + 1)" unfolding full_path_def by auto
  then show "x \<in> int ` {..<N * L + 2}"
  proof cases
    case 1
    show ?thesis unfolding 1 by (rule imageI) simp
  next
    case 3
    show ?thesis unfolding 3 by (rule imageI) simp
  next
    case 2
    then obtain k where k: "k < L" "x = int (n * L + k)" unfolding set_chain by blast
    then have "n * L + k < N * L + 2" using chain_in [OF assms(1) k(1)] by linarith
    then show ?thesis using k(2) by blast
  qed
qed

lemma length_inner_nodes:
  assumes "distinct g" and "set g = int ` {..<m + 2}"
  shows "length (filter (\<lambda>n. n \<noteq> int m \<and> n \<noteq> int m + 1) g) = m"
proof -
  have "set (filter (\<lambda>n. n \<noteq> int m \<and> n \<noteq> int m + 1) g) = int ` {..<m}" using assms(2) by (auto simp: image_iff)
  moreover have "card (int ` {..<m}) = m" by (simp add: card_image)
  ultimately show ?thesis using assms(1) by (metis distinct_card distinct_filter)
qed

lemma conduct_graph:
  assumes ok: "conduct_ok np np_seed nx N K seed L period"
  obtains G s t where "build_n_parallel_graph N L = Inr (G, s, t)" "distinct (g_nodes G)" "s \<in> set (g_nodes G)" "t \<in> set (g_nodes G)"
    "length (nx G s t) = N" "N \<le> length (filter (\<lambda>n. n \<noteq> s \<and> n \<noteq> t) (g_nodes G))"
    "\<forall>p \<in> set (nx G s t). distinct p \<and> length p = L + 2 \<and> hd p = s \<and> last p = t \<and> set p \<subseteq> set (g_nodes G) \<and> - 1 \<notin> set p"
proof -
  from ok have N: "0 < N" and L: "0 < L"
    and nx: "\<And>G s t. build_n_parallel_graph N L = Inr (G, s, t) \<Longrightarrow> disjoint_paths_ok nx G s t"
    by (simp_all add: conduct_ok_def)
  define s where "s = int (N * L)"
  define t where "t = s + 1"
  note built = build_ok [OF N L, folded s_def, folded t_def]
  from built obtain G where G: "build_n_parallel_graph N L = Inr (G, s, t)"
    "set (g_edges G) = (\<Union>n<N. chain_edges s t (chain L n))" "set (g_nodes G) = int ` {..<N * L + 2}" "distinct (g_nodes G)"
    by (elim exE conjE) (rule that)
  note dp = nx [OF G(1)]
  note shape = disjoint_paths_shape [of G N L nx, folded s_def, folded t_def, OF G(2) L dp]
  have paths: "distinct p \<and> length p = L + 2 \<and> hd p = s \<and> last p = t \<and> set p \<subseteq> set (g_nodes G) \<and> - 1 \<notin> set p"
    if p: "p \<in> set (nx G s t)" for p
  proof -
    have sp: "simple_path G s t p" using dp p by (simp add: disjoint_paths_ok_def disjoint_family_def)
    obtain n where n: "n < N" "p = full_path N L n" using shape(2) p by blast
    have sub: "set p \<subseteq> int ` {..<N * L + 2}" using full_path_set [OF n(1) L] n(2) by simp
    then have "- 1 \<notin> set p" by auto
    then show ?thesis using sp sub n(2) full_path_nth(1) [OF L] unfolding simple_path_def G(3) by simp
  qed
  have st: "s \<in> set (g_nodes G)" "t \<in> set (g_nodes G)"
    unfolding G(3) t_def s_def by (rule imageI, simp, rule image_eqI [of _ _ "N * L + 1"], simp_all)
  have "N * 1 \<le> N * L" using L by (intro mult_le_mono2) simp
  then have "N \<le> length (filter (\<lambda>n. n \<noteq> s \<and> n \<noteq> t) (g_nodes G))"
    using length_inner_nodes [OF G(4,3)] unfolding t_def s_def by simp
  with G(1,4) st shape(1) show thesis by (rule that) (use paths in blast)
qed

lemma conduct_cases:
  assumes ok: "conduct_ok np np_seed nx N K seed L period"
  obtains g f sim0 r1 r2 sim r where
    "conduct_path_hopping_simulation np np_seed nx N K seed L period duration = Inr (recovered_messages sim, sim, r)"
    "setup_ok g [f]" "sim_reachable np g [f] r1 sim0 r2" "run_sim np duration sim0 r2 = Inr (sim, r)"
    "map fst (sim_attackers sim0) = attacker_order" "\<forall>(cls, a) \<in> set (sim_attackers sim0). att_K a = K"
    "sim_flows sim0 = [(0, f)]" "fresh_flow (set g) f" "flow_K f = K" "\<forall>p \<in> set (flow_paths f). length p = L + 2"
    "ticks sim0 = 1"
proof -
  from ok have np: "np_random_ok np" and K: "0 < K" "K \<le> N" and L: "0 < L" and period: "0 < period"
    by (simp_all add: conduct_ok_def)
  from ok obtain r0 where r0: "np_seed seed = Inr r0" by (auto simp: conduct_ok_def is_ok_iff)
  from ok obtain G s t where G: "build_n_parallel_graph N L = Inr (G, s, t)" "distinct (g_nodes G)" "s \<in> set (g_nodes G)" "t \<in> set (g_nodes G)"
    "length (nx G s t) = N" "N \<le> length (filter (\<lambda>n. n \<noteq> s \<and> n \<noteq> t) (g_nodes G))"
    "\<forall>p \<in> set (nx G s t). distinct p \<and> length p = L + 2 \<and> hd p = s \<and> last p = t \<and> set p \<subseteq> set (g_nodes G) \<and> - 1 \<notin> set p"
    by (rule conduct_graph)
  let ?g = "g_nodes G" and ?ps = "nx G s t"
  have ps: "\<forall>p \<in> set ?ps. distinct p \<and> 2 \<le> length p \<and> hd p = s \<and> last p = t \<and> set p \<subseteq> set ?g \<and> - 1 \<notin> set p"
    using G(7) by simp
  have Nps: "N \<le> length ?ps" "K \<le> length ?ps" using G(5) K(2) by simp_all
  from create_random_flow_ok [where dp = "nx G", OF np G(3,4) _ refl Nps(1) K(1) Nps(2) ps, of 1 100 r0 0 0] obtain f r1 where
    f: "create_random_flow np r0 (nx G) ?g N K 1 100 s t (Some 0) 0 = Inr (f, 0, r1)" "fresh_flow (set ?g) f"
      "flow_id f = 0" "flow_paths f = ?ps" "flow_K f = K" "source_node f = s" "sink_node f = t" by auto
  have su: "setup_ok ?g [f]" using f(2) by (simp add: setup_ok_def)
  let ?sim = "create_simulation ?g [f]"
  have flows: "sim_flows ?sim = [(0, f)]" using f(3) by (simp add: create_simulation_def new_simulation_def dict_of_def dict_set_def)
  have f0: "map_of (sim_flows ?sim) 0 = Some f" using flows by simp
  have "?ps \<noteq> []" using G(5) K by auto
  then have target: "target_ok ?g f (L + 2)" using L f(4) G(7) by (simp add: target_ok_def)
  have Kf: "K \<le> length (flow_paths f)" "K \<le> length (filter (\<lambda>n. n \<noteq> source_node f \<and> n \<noteq> sink_node f) ?g)"
    using f(4,6,7) G(6) Nps(2) K(2) by simp_all
  from create_attackers_total [OF np f0 target period Kf, of N attacker_order r1]
  obtain as r2 where as: "create_attackers np N K ?g (sim_flows ?sim) period attacker_order r1 = Inr (as, r2)"
    "\<forall>(cls, a) \<in> set as. att_fit ?g f cls a" by blast
  let ?with_att = "fold (\<lambda>a s. add_attacker s a) as ?sim"
  from create_attackers_reachable [OF sim_reachable.created as(1)]
  have reach: "sim_reachable np ?g [f] r1 ?with_att r2" "map fst as = attacker_order" "\<forall>(cls, a) \<in> set as. att_K a = K" by auto
  have sim0: "sim_attackers ?with_att = as" "sim_flows ?with_att = [(0, f)]" "sim_nodes ?with_att = sim_nodes ?sim" "ticks ?with_att = 1"
    using flows by (simp_all add: fold_add_attacker) (simp_all add: create_simulation_def new_simulation_def)
  have inv: "net_inv (sim_nodes ?sim) (sim_flows ?sim)" by (rule create_simulation_inv [OF su])
  have "sim_fit ?g (L + 2) ?with_att"
    unfolding sim_fit_def sim0 create_simulation_keys [OF G(2)] using inv [unfolded flows] target as(2) by simp
  from run_fit_total [OF np this, of duration r2] obtain sim r where
    run: "run_sim np duration ?with_att r2 = Inr (sim, r)" by blast
  have "conduct_path_hopping_simulation np np_seed nx N K seed L period duration = Inr (recovered_messages sim, sim, r)"
    unfolding conduct_path_hopping_simulation_def r0 G(1) rbind_simps prod.case f(1) Let_def as(1) run ..
  moreover have "\<forall>p \<in> set (flow_paths f). length p = L + 2" using G(7) f(4) by simp
  ultimately show thesis
    using su reach(1) run reach(2,3) sim0 f(2,5) by (intro that [of sim r ?g f r1 ?with_att r2]) simp_all
qed


subsection \<open>Properties\<close>

definition ex_seed :: "int \<Rightarrow> unit res" where
  "ex_seed n = (if 0 \<le> n \<and> n < 2 ^ 32 then Inr () else Inl ValueError)"

lemma ex_conduct_ok: "conduct_ok np_first ex_seed (\<lambda>G s t. map (full_path 2 1) [0..<2]) 2 2 7 1 1"
  using all_chains_ok [of 2 1] np_first_ok by (auto simp: conduct_ok_def ex_seed_def is_ok_def)

text \<open>
  C1.  For sensible parameters (\<open>0 < K \<le> N\<close>, paths with an interior node, a positive hop period, an
  accepted seed) conducting a simulation with all seven attackers never raises; the flow has then
  sent one message per step and received all but the ones still on their way over the
  \<open>path_length + 2\<close> nodes of a path.
\<close>

theorem conduct_total:
  assumes "conduct_ok np np_seed nx N K seed L period"
  shows "\<exists>out sim r f. conduct_path_hopping_simulation np np_seed nx N K seed L period duration = Inr (out, sim, r)
    \<and> ticks sim = duration + 1 \<and> map fst (sim_attackers sim) = attacker_order \<and> length out = 6
    \<and> sim_flows sim = [(0, f)] \<and> messages_tx f = duration \<and> messages_rx f = duration - (L + 1)"
proof -
  from assms obtain g f0 sim0 r1 r2 sim r where
    c: "conduct_path_hopping_simulation np np_seed nx N K seed L period duration = Inr (recovered_messages sim, sim, r)"
    "setup_ok g [f0]" "sim_reachable np g [f0] r1 sim0 r2" "run_sim np duration sim0 r2 = Inr (sim, r)"
    "map fst (sim_attackers sim0) = attacker_order" "sim_flows sim0 = [(0, f0)]" "fresh_flow (set g) f0"
    "\<forall>p \<in> set (flow_paths f0). length p = L + 2" "ticks sim0 = 1"
    by (rule conduct_cases [where duration = duration])
  have np: "np_random_ok np" using assms by (simp add: conduct_ok_def)
  have ticks: "ticks sim = duration + 1" using run_sim_ticks [OF c(4)] c(9) by simp
  have "list_all2 (\<lambda>a a'. fst a' = fst a) (sim_attackers sim0) (sim_attackers sim)"
    using run_sim_attackers [OF c(4)] by (rule list_all2_mono) simp
  then have "map fst (sim_attackers sim) = map fst (sim_attackers sim0)"
    by (induction rule: list_all2_induct) simp_all
  then have cls: "map fst (sim_attackers sim) = attacker_order" unfolding c(5) .
  have "length (sim_attackers sim) = 7" using arg_cong [OF cls, of length] by (simp add: attacker_order_def)
  then have len: "length (recovered_messages sim) = 6" by (simp add: recovered_messages_def)
  have reach: "sim_reachable np g [f0] r1 sim r" by (rule run_sim_reachable [OF c(4,3)])
  from run_sim_flow [OF np c(2,3,4,6)] obtain f where
    f: "sim_flows sim = [(0, f)]" "flow_paths f = flow_paths f0" by blast
  have sinv: "sim_inv sim" by (rule reachable_sim_inv [OF reach np c(2)])
  then have inv: "net_inv (sim_nodes sim) (sim_flows sim)" and seq: "Suc (seq_num f) = duration + 1"
    using f(1) ticks by (simp_all add: sim_inv_def)
  have f0: "map_of (sim_flows sim) 0 = Some f" using f(1) by simp
  from reachable_tracked [OF reach np c(2)] obtain H where "tracked H (sim_nodes sim) (sim_flows sim)" by blast
  from uniform_delivery [OF inv this f0, of "L + 2"] f(2) c(8) have "messages_rx f = seq_num f - (L + 2 - 1)" by simp
  moreover have "messages_tx f = seq_num f" using net_inv_flow(3) [OF inv f0] by (simp add: flow_counts_ok_def)
  ultimately show ?thesis using c(1) ticks cls len f(1) seq by auto
qed

theorem conduct_total_witness:
  "\<exists>out sim r f. conduct_path_hopping_simulation np_first ex_seed (\<lambda>G s t. map (full_path 2 1) [0..<2]) 2 2 7 1 1 5 = Inr (out, sim, r)
    \<and> ticks sim = 5 + 1 \<and> map fst (sim_attackers sim) = attacker_order \<and> length out = 6
    \<and> sim_flows sim = [(0, f)] \<and> messages_tx f = 5 \<and> messages_rx f = 5 - (1 + 1)"
  by (rule conduct_total [OF ex_conduct_ok])


text \<open>
  C2.  What a conducted simulation reports: every list of recovered messages is strictly increasing
  and names only messages that were sent, and the \<open>TotalAttacker\<close>, which is on every path, has
  recovered exactly all of them.
\<close>

theorem conduct_recovered:
  assumes "conduct_ok np np_seed nx N K seed L period"
    and "conduct_path_hopping_simulation np np_seed nx N K seed L period duration = Inr (out, sim, r)"
  shows "(\<forall>(name, ms) \<in> set out. sorted_wrt (<) ms \<and> set ms \<subseteq> {..<duration})
    \<and> reconstruct_captured_messages (snd (sim_attackers sim ! 6)) = [0..<duration]"
proof -
  from assms(1) obtain g f0 sim0 r1 r2 sim' r' where
    c: "conduct_path_hopping_simulation np np_seed nx N K seed L period duration = Inr (recovered_messages sim', sim', r')"
    "setup_ok g [f0]" "sim_reachable np g [f0] r1 sim0 r2" "run_sim np duration sim0 r2 = Inr (sim', r')"
    "map fst (sim_attackers sim0) = attacker_order" "\<forall>(cls, a) \<in> set (sim_attackers sim0). att_K a = K"
    "sim_flows sim0 = [(0, f0)]" "fresh_flow (set g) f0" "flow_K f0 = K"
    "\<forall>p \<in> set (flow_paths f0). length p = L + 2" "ticks sim0 = 1"
    by (rule conduct_cases [where duration = duration])
  have eq: "out = recovered_messages sim'" "sim = sim'" using assms(2) c(1) by auto
  have np: "np_random_ok np" and L: "0 < L" using assms(1) by (simp_all add: conduct_ok_def)
  have reach: "sim_reachable np g [f0] r1 sim' r'" by (rule run_sim_reachable [OF c(4,3)])
  from run_sim_flow [OF np c(2,3,4,7)] obtain f where f: "sim_flows sim' = [(0, f)]" by blast
  have "Suc (seq_num f) = duration + 1"
    using reachable_sim_inv [OF reach np c(2)] f run_sim_ticks [OF c(4)] c(11) by (simp add: sim_inv_def)
  then have seq: "seq_num f = duration" by simp
  have single: "single_flow_sim (sim_flows sim') f" using f by (simp add: single_flow_sim_def)
  from reachable_tracked [OF reach np c(2)] obtain H where
    H: "\<forall>(cls, a) \<in> set (sim_attackers sim'). seen_ok H (sim_flows sim') a" by blast
  have sent: "set (reconstruct_captured_messages (snd a)) \<subseteq> {..<duration}" if "a \<in> set (sim_attackers sim')" for a
  proof
    fix q
    assume "q \<in> set (reconstruct_captured_messages (snd a))"
    then obtain s where "s \<in> set (captured_shares (snd a))" "share_seq_num s = q" by (auto simp: reconstruct_iff)
    moreover from this have "share_in H (sim_flows sim') s" using H that by (auto simp: seen_ok_def)
    ultimately show "q \<in> {..<duration}" using single_flow_share(2) [OF single] seq by blast
  qed
  have "ms \<in> (\<lambda>a. reconstruct_captured_messages (snd a)) ` set (sim_attackers sim')" if "(name, ms) \<in> set out" for name ms
    using that unfolding eq recovered_messages_def by (auto dest!: set_zip_rightD)
  then have 1: "\<forall>(name, ms) \<in> set out. sorted_wrt (<) ms \<and> set ms \<subseteq> {..<duration}"
    using reconstruct_sorted sent by blast
  have long: "long_paths f0" using c(10) L by (simp add: long_paths_def)
  have seven: "length (sim_attackers sim0) = 7" using arg_cong [OF c(5), of length] by (simp add: attacker_order_def)
  then have "fst (sim_attackers sim0 ! 6) = TotalAttacker"
    using arg_cong [OF c(5), of "\<lambda>xs. xs ! 6"] by (simp add: attacker_order_def)
  then obtain a where a: "6 < length (sim_attackers sim0)" "sim_attackers sim0 ! 6 = (TotalAttacker, a)"
    using seven by (cases "sim_attackers sim0 ! 6") simp
  then have "att_K a = flow_K f0" using c(6,9) nth_mem [OF a(1)] by auto
  from total_run [OF c(3) np c(2) _ long a this c(4)] c(7) obtain a' where
    a': "sim_attackers sim' ! 6 = (TotalAttacker, a')" "{seq_num f0..<seq_num f0 + duration} \<subseteq> set (reconstruct_captured_messages a')"
    by (auto simp: single_flow_sim_def)
  have "length (sim_attackers sim') = 7" using list_all2_lengthD [OF run_sim_attackers [OF c(4)]] seven by simp
  then have "(TotalAttacker, a') \<in> set (sim_attackers sim')" using a'(1) nth_mem [of 6 "sim_attackers sim'"] by simp
  from sent [OF this] a'(2) c(8) have "set (reconstruct_captured_messages a') = set [0..<duration]"
    by (auto simp: fresh_flow_def)
  then have "reconstruct_captured_messages a' = [0..<duration]"
    by (intro strict_sorted_equal) (simp_all add: reconstruct_sorted)
  then show ?thesis using 1 a'(1) eq(2) by simp
qed

theorem conduct_recovered_witness:
  "\<exists>out sim r. conduct_path_hopping_simulation np_first ex_seed (\<lambda>G s t. map (full_path 2 1) [0..<2]) 2 2 7 1 1 4 = Inr (out, sim, r)
    \<and> (\<forall>(name, ms) \<in> set out. sorted_wrt (<) ms \<and> set ms \<subseteq> {..<4})
    \<and> reconstruct_captured_messages (snd (sim_attackers sim ! 6)) = [0..<4]"
proof -
  have "is_ok (conduct_path_hopping_simulation np_first ex_seed (\<lambda>G s t. map (full_path 2 1) [0..<2]) 2 2 7 1 1 4)"
    by code_simp
  then obtain out sim r where
    "conduct_path_hopping_simulation np_first ex_seed (\<lambda>G s t. map (full_path 2 1) [0..<2]) 2 2 7 1 1 4 = Inr (out, sim, r)"
    unfolding is_ok_iff by (metis prod.collapse)
  from this conduct_recovered [OF ex_conduct_ok this] show ?thesis by blast
qed

text \<open>
  C7.  The error paths of the entry point: without an interior node the graph cannot be built
  (\<open>p_i[0]\<close> of an empty list), and a threshold above the number of paths makes the first hop of the
  flow raise.
\<close>

theorem conduct_errors:
  assumes "np_random_ok np" and "np_seed seed = Inr r0" and "0 < N"
  shows "conduct_path_hopping_simulation np np_seed nx N K seed 0 period duration = Inl IndexError
    \<and> (0 < L \<and> N < K \<and> (\<forall>G s t. build_n_parallel_graph N L = Inr (G, s, t) \<longrightarrow> disjoint_paths_ok nx G s t) \<longrightarrow>
       conduct_path_hopping_simulation np np_seed nx N K seed L period duration = Inl ValueError)"
proof (intro conjI impI)
  have "chain 0 n = []" for n by (simp add: chain_def)
  moreover obtain m where "N = Suc m" using assms(3) gr0_implies_Suc by blast
  moreover have "[0..<Suc m] = 0 # [1..<Suc m]" by (simp add: upt_conv_Cons)
  ultimately have "build_n_parallel_graph N 0 = Inl IndexError"
    by (simp add: build_n_parallel_graph_def add_chains_eq wire_chain_def py_nth_def del: upt_Suc)
  then show "conduct_path_hopping_simulation np np_seed nx N K seed 0 period duration = Inl IndexError"
    using assms(2) by (simp add: conduct_path_hopping_simulation_def)
next
  assume h: "0 < L \<and> N < K \<and> (\<forall>G s t. build_n_parallel_graph N L = Inr (G, s, t) \<longrightarrow> disjoint_paths_ok nx G s t)"
  then have ok: "conduct_ok np np_seed nx N N seed L 1"
    using assms by (auto simp: conduct_ok_def is_ok_def)
  from ok obtain G s t where G: "build_n_parallel_graph N L = Inr (G, s, t)" "s \<in> set (g_nodes G)" "t \<in> set (g_nodes G)"
    "length (nx G s t) = N" by (rule conduct_graph)
  have "(1 :: int) < 100 + 1" by simp
  then obtain v r1 where v: "np_randint np r0 1 (100 + 1) = Inr (v, r1)" using assms(1) unfolding np_random_ok_def by metis
  have "np_choice np r1 N K = Inl ValueError" using assms(1) h unfolding np_random_ok_def by (metis not_le)
  then have "create_random_flow np r0 (nx G) (g_nodes G) N K 1 100 s t (Some 0) 0 = Inl ValueError"
    using G v by (simp add: create_random_flow_def new_flow_def hop_def sample_def)
  then show "conduct_path_hopping_simulation np np_seed nx N K seed L period duration = Inl ValueError"
    using assms(2) G(1) by (simp add: conduct_path_hopping_simulation_def)
qed

theorem conduct_errors_witness:
  "conduct_path_hopping_simulation np_first ex_seed (\<lambda>G s t. []) 2 2 7 0 1 5 = Inl IndexError
   \<and> conduct_path_hopping_simulation np_first ex_seed (\<lambda>G s t. map (full_path 2 1) [0..<2]) 2 3 7 1 1 5 = Inl ValueError"
proof -
  have s: "ex_seed 7 = Inr ()" by (simp add: ex_seed_def)
  have two: "0 < (2 :: nat)" by simp
  note e1 = conduct_errors [where np_seed = ex_seed and seed = 7 and nx = "\<lambda>G s t. []" and K = 2 and period = 1 and duration = 5, OF np_first_ok s two]
  note e2 = conduct_errors [where np_seed = ex_seed and seed = 7 and nx = "\<lambda>G s t. map (full_path 2 1) [0..<2]"
      and K = 3 and period = 1 and duration = 5 and L = 1, OF np_first_ok s two]
  show ?thesis using e1 e2 all_chains_ok [of 2 1] by auto
qed

end
