(* ===== verification/Admission.thy ===== *)
theory Admission
  imports Prelude
begin

section \<open>Admission loops\<close>

text \<open>
  The flow allocators of \<open>rest_client/path_hopping/flow_allocation.py\<close> share a shape: \<open>while True\<close>, draw
  a candidate flow, try to admit it, stop at the first one that does not fit.  \<open>admit_while\<close> is that
  loop with fuel (\<open>None\<close> is running out of it); the locale \<open>admission\<close> states what makes it end: every
  admitted candidate adds at least a tenth to a weight that never exceeds the capacity.  It is
  interpreted on the allocators in the theories that model them.
\<close>

fun admit_while ::
    "('r \<Rightarrow> ('c \<times> 'r) res) \<Rightarrow> ('s \<Rightarrow> 'c \<Rightarrow> ('s \<times> bool) res) \<Rightarrow> nat \<Rightarrow> 's \<Rightarrow> 'r \<Rightarrow> ('s \<times> 'r) res option" where
  "admit_while draw admit 0 s r = None"
| "admit_while draw admit (Suc fuel) s r =
     (case draw r of Inl e \<Rightarrow> Some (Inl e)
      | Inr (c, r') \<Rightarrow> (case admit s c of Inl e \<Rightarrow> Some (Inl e)
          | Inr (s', go) \<Rightarrow> if go then admit_while draw admit fuel s' r' else Some (Inr (s', r'))))"

lemma admit_while_more:
  "admit_while draw admit fuel s r = Some res \<Longrightarrow> fuel \<le> fuel' \<Longrightarrow> admit_while draw admit fuel' s r = Some res"
proof (induction fuel arbitrary: s r fuel')
  case (Suc fuel)
  then obtain f' where "fuel' = Suc f'" "fuel \<le> f'" by (metis Suc_le_D Suc_le_mono)
  then show ?case using Suc.prems(1) Suc.IH by (auto split: sum.splits prod.splits if_splits)
qed simp

text \<open>A property that every admission keeps holds of what the loop returns.\<close>

lemma admit_while_inv:
  assumes "admit_while draw admit fuel s r = Some (Inr (s', r'))" and "I s"
    and "\<And>r c r'. draw r = Inr (c, r') \<Longrightarrow> C c"
    and "\<And>s c s'. I s \<Longrightarrow> C c \<Longrightarrow> admit s c = Inr (s', True) \<Longrightarrow> I s'"
    and "\<And>s c s'. I s \<Longrightarrow> C c \<Longrightarrow> admit s c = Inr (s', False) \<Longrightarrow> J s'"
  shows "J s'"
  using assms(1,2)
proof (induction fuel arbitrary: s r)
  case (Suc fuel)
  from Suc.prems(1) obtain c r1 s1 go where c: "draw r = Inr (c, r1)" "admit s c = Inr (s1, go)"
    "if go then admit_while draw admit fuel s1 r1 = Some (Inr (s', r')) else s1 = s'"
    by (auto split: sum.splits prod.splits if_splits)
  show ?case
  proof (cases go)
    case True
    have "I s1" by (rule assms(4) [OF Suc.prems(2) assms(3) [OF c(1)]]) (use c(2) True in simp)
    then show ?thesis using Suc.IH c(3) True by simp
  next
    case False
    have "J s1" by (rule assms(5) [OF Suc.prems(2) assms(3) [OF c(1)]]) (use c(2) False in simp)
    then show ?thesis using c(3) False by simp
  qed
qed simp

locale admission =
  fixes admit :: "'s \<Rightarrow> 'c \<Rightarrow> ('s \<times> bool) res"
    and I :: "'s \<Rightarrow> bool"
    and C :: "'c \<Rightarrow> bool"
    and weight :: "'s \<Rightarrow> rat"
    and capacity :: rat
  assumes admits: "I s \<Longrightarrow> C c \<Longrightarrow> \<exists>s' go. admit s c = Inr (s', go) \<and> (go \<longrightarrow> I s' \<and> weight s + 1 / 10 \<le> weight s')"
    and bounded: "I s \<Longrightarrow> weight s \<le> capacity"
begin

lemma loop_returns:
  assumes "I s" and draw: "\<And>r. \<exists>c r'. draw r = Inr (c, r') \<and> C c"
    and "10 * (capacity - weight s) < of_nat fuel"
  shows "\<exists>s' r'. admit_while draw admit fuel s r = Some (Inr (s', r'))"
  using assms(1,3)
proof (induction fuel arbitrary: s r)
  case 0
  then show ?case using bounded [OF 0(1)] by simp
next
  case (Suc fuel)
  from draw obtain c r1 where c: "draw r = Inr (c, r1)" "C c" by blast
  from admits [OF Suc.prems(1) c(2)] obtain s1 go where
    s1: "admit s c = Inr (s1, go)" "go \<longrightarrow> I s1 \<and> weight s + 1 / 10 \<le> weight s1" by blast
  show ?case
  proof (cases go)
    case True
    then have "10 * (capacity - weight s1) < of_nat fuel" using s1(2) Suc.prems(2) by (auto simp: algebra_simps)
    with True Suc.IH [of s1 r1] s1 c show ?thesis by simp
  next
    case False
    then show ?thesis using c s1 by simp
  qed
qed

end

end
