(* ===== verification/Json.thy ===== *)
theory Json
  imports Prelude
begin

section \<open>JSON values\<close>

text \<open>
  The values that \<open>json.dumps\<close> and \<open>json.loads\<close> of the standard library exchange.  The text between the
  two is not modelled: what is written is the value, and \<open>loads (dumps v) = v\<close> for the values that
  have a JSON form (object keys are strings).  Reading a field of something that is not an object
  raises \<open>TypeError\<close>, a missing key \<open>KeyError\<close>.
\<close>

datatype json =
    JNull
  | JBool bool
  | JInt int
  | JFloat pyfloat
  | JStr string
  | JList "json list"
  | JObj "(string \<times> json) list"

fun json_get :: "json \<Rightarrow> string \<Rightarrow> json res" where
  "json_get (JObj d) k = dict_get d k"
| "json_get _ k = Inl TypeError"

fun json_list :: "json \<Rightarrow> json list res" where
  "json_list (JList xs) = Inr xs"
| "json_list _ = Inl TypeError"

fun json_int :: "json \<Rightarrow> int res" where
  "json_int (JInt i) = Inr i"
| "json_int _ = Inl TypeError"

fun json_float :: "json \<Rightarrow> pyfloat res" where
  "json_float (JFloat x) = Inr x"
| "json_float (JInt i) = Inr (of_int i)"
| "json_float _ = Inl TypeError"

fun json_str :: "json \<Rightarrow> string res" where
  "json_str (JStr s) = Inr s"
| "json_str _ = Inl TypeError"

text \<open>
  A value type with a JSON form: what is read back from what was written is what was there.  Lists and
  pairs of such values have the property again, so a record's round trip follows from its fields'.
\<close>

locale codec =
  fixes enc :: "'a \<Rightarrow> json"
    and dec :: "json \<Rightarrow> 'a res"
  assumes dec_enc: "dec (enc x) = Inr x"
begin

lemma dec_enc_list: "rbind (json_list (JList (map enc xs))) (map_res dec) = Inr xs"
  by (induction xs) (simp_all add: dec_enc)

lemma enc_inj: "enc x = enc y \<Longrightarrow> x = y"
  using dec_enc by (metis Inr_inject)

end

interpretation int_codec: codec JInt json_int
  by unfold_locales simp

interpretation float_codec: codec JFloat json_float
  by unfold_locales simp

interpretation str_codec: codec JStr json_str
  by unfold_locales simp

definition list_enc :: "('a \<Rightarrow> json) \<Rightarrow> 'a list \<Rightarrow> json" where
  "list_enc enc xs = JList (map enc xs)"

definition list_dec :: "(json \<Rightarrow> 'a res) \<Rightarrow> json \<Rightarrow> 'a list res" where
  "list_dec dec j = rbind (json_list j) (map_res dec)"

context codec
begin

lemma list_dec_enc: "list_dec dec (list_enc enc xs) = Inr xs"
  using dec_enc_list [of xs] by (simp add: list_enc_def list_dec_def)

end

lemma codec_list: "codec enc dec \<Longrightarrow> codec (list_enc enc) (list_dec dec)"
  by (simp add: codec_def codec.list_dec_enc)

interpretation ints_codec: codec "list_enc JInt" "list_dec json_int"
  by (rule codec_list) (rule int_codec.codec_axioms)

interpretation floats_codec: codec "list_enc JFloat" "list_dec json_float"
  by (rule codec_list) (rule float_codec.codec_axioms)

interpretation int_lists_codec: codec "list_enc (list_enc JInt)" "list_dec (list_dec json_int)"
  by (rule codec_list) (rule ints_codec.codec_axioms)

text \<open>The same for values that have to satisfy an invariant to be read back.\<close>

locale wf_codec =
  fixes ok :: "'a \<Rightarrow> bool"
    and enc :: "'a \<Rightarrow> json"
    and dec :: "json \<Rightarrow> 'a res"
  assumes dec_enc_ok: "ok x \<Longrightarrow> dec (enc x) = Inr x"
begin

lemma list_dec_enc_ok: "\<forall>x \<in> set xs. ok x \<Longrightarrow> list_dec dec (list_enc enc xs) = Inr xs"
proof -
  assume "\<forall>x \<in> set xs. ok x"
  then have "map_res dec (map enc xs) = Inr xs" by (induction xs) (simp_all add: dec_enc_ok)
  then show ?thesis by (simp add: list_dec_def list_enc_def)
qed

end

sublocale codec \<subseteq> wf_codec "\<lambda>_. True" enc dec
  by unfold_locales (rule dec_enc)

definition json_field :: "json \<Rightarrow> string \<Rightarrow> (json \<Rightarrow> 'a res) \<Rightarrow> 'a res" where
  "json_field j k dec = rbind (json_get j k) dec"

fun json_bool :: "json \<Rightarrow> bool res" where
  "json_bool (JBool b) = Inr b"
| "json_bool _ = Inl TypeError"

lemma json_field_hit [simp]: "json_field (JObj ((k, v) # d)) k dec = dec v"
  by (simp add: json_field_def dict_get_def)

lemma json_field_miss [simp]: "k' \<noteq> k \<Longrightarrow> json_field (JObj ((k', v) # d)) k dec = json_field (JObj d) k dec"
  by (simp add: json_field_def dict_get_def)

end
