(* ===== verification/Flow_Allocation.thy ===== *)
theory Flow_Allocation
  imports Admission Numpy Json
begin

section \<open>Allocating flows to a network\<close>

text \<open>
  Models \<open>Flow\<close>, \<open>FlowSet\<close> and the allocators of \<open>rest_client/path_hopping/flow_allocation.py\<close> that do not
  use the linear programming solver: the greedy allocation, the test, equal and unequal allocations,
  the single flow, and the JSON form of a list of flows.  Rates and ratios are exact rationals
  (floating point rounding is not modelled).  numpy, networkx and the caller's \<open>flow_selection_fn\<close> are
  parameters, gathered in \<open>fa_env\<close>.
\<close>

subsection \<open>Flows\<close>

type_synonym fa_node = int
type_synonym fa_link = "fa_node \<times> fa_node"
type_synonym link_util = "(fa_link, pyfloat) dict"

record alloc_flow =
  fl_source :: fa_node
  fl_destination :: fa_node
  fl_tx_rate :: pyfloat
  fl_paths :: "fa_node list list"
  fl_splitting_ratio :: "pyfloat list"

record flow_set =
  fs_flows :: "alloc_flow list"

definition new_flow_set :: flow_set where
  "new_flow_set = \<lparr>fs_flows = []\<rparr>"

definition add_flow :: "flow_set \<Rightarrow> alloc_flow \<Rightarrow> flow_set" where
  "add_flow fset f = fset\<lparr>fs_flows := fs_flows fset @ [f]\<rparr>"

definition add_flows :: "flow_set \<Rightarrow> alloc_flow list \<Rightarrow> flow_set" where
  "add_flows fset fs = fset\<lparr>fs_flows := fs_flows fset @ fs\<rparr>"

definition LINK_CAPACITY :: pyfloat where "LINK_CAPACITY = 1"
definition FLOW_TX_RATE_LOWER_BOUND :: pyfloat where "FLOW_TX_RATE_LOWER_BOUND = 1 / 10"
definition FLOW_TX_RATE_UPPER_BOUND :: pyfloat where "FLOW_TX_RATE_UPPER_BOUND = 1 / 2"

text \<open>\<open>[tuple(sorted(t_i)) for t_i in nx.utils.pairwise(p)]\<close>\<close>

definition path_links :: "fa_node list \<Rightarrow> fa_link list" where
  "path_links p = map link_key (pairwise p)"

subsection \<open>The greedy allocation\<close>

text \<open>The inner loops: the utilisation so far and whether the capacity was exceeded.\<close>

fun add_links :: "pyfloat \<Rightarrow> link_util \<Rightarrow> fa_link list \<Rightarrow> (link_util \<times> bool) res" where
  "add_links rate util [] = Inr (util, False)"
| "add_links rate util (l # ls) =
     rbind (dict_get util l) (\<lambda>x.
       if LINK_CAPACITY < x + rate then Inr (util, True)
       else add_links rate (dict_set util l (x + rate)) ls)"

fun add_paths :: "pyfloat \<Rightarrow> link_util \<Rightarrow> fa_node list list \<Rightarrow> (link_util \<times> bool) res" where
  "add_paths rate util [] = Inr (util, False)"
| "add_paths rate util (p # ps) =
     rbind (add_links rate util (path_links p)) (\<lambda>(util', exceeded).
       if exceeded then Inr (util', True) else add_paths rate util' ps)"

type_synonym candidate = "fa_node \<times> fa_node \<times> pyfloat \<times> fa_node list list"

definition greedy_admit :: "alloc_flow list \<times> link_util \<Rightarrow> candidate \<Rightarrow> ((alloc_flow list \<times> link_util) \<times> bool) res" where
  "greedy_admit = (\<lambda>(flows, util) (source_node, destination_node, flow_tx_rate, connecting_paths).
     let disjoint_path_count = length connecting_paths
     in if disjoint_path_count = 0 then Inl ZeroDivisionError
        else rbind (add_paths (flow_tx_rate / of_nat disjoint_path_count) util connecting_paths) (\<lambda>(util', exceeded).
          if exceeded then Inr ((flows, util'), False)
          else Inr ((flows @ [\<lparr>fl_source = source_node, fl_destination = destination_node, fl_tx_rate = flow_tx_rate,
                 fl_paths = connecting_paths,
                 fl_splitting_ratio = replicate disjoint_path_count (1 / of_nat disjoint_path_count)\<rparr>], util'), True)))"

text \<open>What the loop draws: \<open>flow_selection_fn\<close>, numpy's \<open>uniform\<close> and networkx' paths.\<close>

record 'r fa_env =
  flow_selection_fn :: "'r \<Rightarrow> fa_node list \<Rightarrow> ((fa_node \<times> fa_node) \<times> 'r) res"
  np_uniform :: "'r \<Rightarrow> pyfloat \<Rightarrow> pyfloat \<Rightarrow> pyfloat \<times> 'r"
  disjoint_paths :: "fa_node \<Rightarrow> fa_node \<Rightarrow> fa_node list list"

definition draw_flow :: "'r fa_env \<Rightarrow> fa_node list \<Rightarrow> 'r \<Rightarrow> (candidate \<times> 'r) res" where
  "draw_flow env graph_nodes r =
     rbind (flow_selection_fn env r graph_nodes) (\<lambda>((source_node, destination_node), r1).
     let (flow_tx_rate, r2) = np_uniform env r1 FLOW_TX_RATE_LOWER_BOUND FLOW_TX_RATE_UPPER_BOUND
     in Inr ((source_node, destination_node, flow_tx_rate, disjoint_paths env source_node destination_node), r2))"

definition compute_greedy_flow_allocations ::
    "'r fa_env \<Rightarrow> fa_node list \<Rightarrow> fa_link list \<Rightarrow> nat \<Rightarrow> 'r \<Rightarrow> ((alloc_flow list \<times> link_util) \<times> 'r) res option" where
  "compute_greedy_flow_allocations env graph_nodes graph_edges fuel r =
     admit_while (draw_flow env graph_nodes) greedy_admit fuel
       ([], dict_of (map (\<lambda>e. (link_key e, 0)) graph_edges)) r"

subsection \<open>Utilisation and load\<close>

definition util_at :: "link_util \<Rightarrow> fa_link \<Rightarrow> pyfloat" where
  "util_at util l = dict_get_default util l 0"

definition total_util :: "link_util \<Rightarrow> pyfloat" where
  "total_util util = sum_list (map snd util)"

text \<open>The load a flow puts on a link: its share of the rate on every path through the link.\<close>

definition flow_load :: "alloc_flow \<Rightarrow> fa_link \<Rightarrow> pyfloat" where
  "flow_load f l = (\<Sum>(p, x)\<leftarrow>zip (fl_paths f) (fl_splitting_ratio f).
     x * fl_tx_rate f * of_nat (count_list (path_links p) l))"

definition total_load :: "alloc_flow list \<Rightarrow> fa_link \<Rightarrow> pyfloat" where
  "total_load flows l = (\<Sum>f\<leftarrow>flows. flow_load f l)"

lemma total_util_set:
  "map_of util l = Some x \<Longrightarrow> total_util (dict_set util l y) = total_util util - x + y"
proof (induction util)
  case (Cons p util)
  then show ?case by (cases p) (auto simp: dict_set_def total_util_def split: if_splits)
qed simp

lemma util_at_set: "util_at (dict_set util l y) k = (if k = l then y else util_at util k)"
  by (simp add: util_at_def dict_get_default_def)

text \<open>
  \<open>grown util util' ls\<close>: the utilisation after adding \<open>rate\<close> for each link of \<open>ls\<close>.
\<close>

definition grown :: "pyfloat \<Rightarrow> link_util \<Rightarrow> link_util \<Rightarrow> fa_link list \<Rightarrow> bool" where
  "grown rate util util' ls \<longleftrightarrow> dict_keys util' = dict_keys util
   \<and> (\<forall>l. util_at util' l = util_at util l + rate * of_nat (count_list ls l))
   \<and> total_util util' = total_util util + rate * of_nat (length ls)"

definition fits :: "link_util \<Rightarrow> bool" where
  "fits util \<longleftrightarrow> (\<forall>l. util_at util l \<le> LINK_CAPACITY)"

lemma grown_refl: "grown rate util util []"
  by (simp add: grown_def)

lemma grown_trans: "grown rate u v ls \<Longrightarrow> grown rate v w ks \<Longrightarrow> grown rate u w (ls @ ks)"
  by (simp add: grown_def algebra_simps)

lemma grown_step:
  assumes "map_of util l = Some x"
  shows "grown rate util (dict_set util l (x + rate)) [l]"
proof -
  have "dict_keys (dict_set util l (x + rate)) = dict_keys util" using assms by (force dest: map_of_SomeD)
  moreover have "util_at util l = x" using assms by (simp add: util_at_def dict_get_default_def)
  ultimately show ?thesis unfolding grown_def using total_util_set [OF assms] by (simp add: util_at_set)
qed

lemma add_links_ok:
  assumes "set ls \<subseteq> set (dict_keys util)" and "fits util"
  shows "\<exists>util' ex ks. add_links rate util ls = Inr (util', ex) \<and> fits util' \<and> grown rate util util' ks
    \<and> (if ex then \<exists>rest. ls = ks @ rest else ks = ls)"
  using assms
proof (induction ls arbitrary: util)
  case Nil
  then show ?case using grown_refl by auto
next
  case (Cons l ls)
  from Cons.prems(1) obtain x where x: "map_of util l = Some x"
    by (metis list.set_intros(1) list.set_map map_of_eq_None_iff not_None_eq subsetD)
  show ?case
  proof (cases "LINK_CAPACITY < x + rate")
    case True
    then show ?thesis using x Cons.prems(2) grown_refl [of rate util]
      by (intro exI [of _ util] exI [of _ True] exI [of _ "[]"]) (simp add: dict_get_def)
  next
    case False
    let ?u = "dict_set util l (x + rate)"
    note g = grown_step [OF x, of rate]
    have keys: "dict_keys ?u = dict_keys util" using g by (simp only: grown_def)
    have "fits ?u" using Cons.prems(2) False by (simp add: fits_def util_at_set)
    moreover have "set ls \<subseteq> set (dict_keys ?u)" using Cons.prems(1) by (simp only: keys) simp
    ultimately obtain util' ex ks where r: "add_links rate ?u ls = Inr (util', ex)" "fits util'" "grown rate ?u util' ks"
      "if ex then \<exists>rest. ls = ks @ rest else ks = ls" using Cons.IH by blast
    have "grown rate util util' (l # ks)" using grown_trans [OF g r(3)] by simp
    moreover have "if ex then \<exists>rest. l # ls = (l # ks) @ rest else l # ks = l # ls" using r(4) by auto
    moreover have "add_links rate util (l # ls) = Inr (util', ex)" using x False r(1) by (simp add: dict_get_def)
    ultimately show ?thesis using r(2) by blast
  qed
qed

lemma add_paths_ok:
  assumes "\<forall>p \<in> set ps. set (path_links p) \<subseteq> set (dict_keys util)" and "fits util"
  shows "\<exists>util' ex ks. add_paths rate util ps = Inr (util', ex) \<and> fits util' \<and> grown rate util util' ks
    \<and> (if ex then \<exists>rest. concat (map path_links ps) = ks @ rest else ks = concat (map path_links ps))"
  using assms
proof (induction ps arbitrary: util)
  case Nil
  then show ?case using grown_refl by auto
next
  case (Cons p ps)
  from Cons.prems add_links_ok [of "path_links p" util rate] obtain u1 ex1 ks1 where
    1: "add_links rate util (path_links p) = Inr (u1, ex1)" "fits u1" "grown rate util u1 ks1"
      "if ex1 then \<exists>rest. path_links p = ks1 @ rest else ks1 = path_links p" by auto
  show ?case
  proof (cases ex1)
    case True
    then obtain rest where "path_links p = ks1 @ rest" using 1(4) by auto
    then show ?thesis using 1 True by (intro exI [of _ u1] exI [of _ True] exI [of _ ks1]) simp
  next
    case False
    then have ks1: "ks1 = path_links p" using 1(4) by simp
    have "dict_keys u1 = dict_keys util" using 1(3) by (simp only: grown_def)
    then have "\<forall>p \<in> set ps. set (path_links p) \<subseteq> set (dict_keys u1)" using Cons.prems(1) by (simp only:) simp
    from Cons.IH [OF this 1(2)] obtain u2 ex2 ks2 where
      2: "add_paths rate u1 ps = Inr (u2, ex2)" "fits u2" "grown rate u1 u2 ks2"
        "if ex2 then \<exists>rest. concat (map path_links ps) = ks2 @ rest else ks2 = concat (map path_links ps)" by blast
    have "grown rate util u2 (ks1 @ ks2)" by (rule grown_trans [OF 1(3) 2(3)])
    moreover have "if ex2 then \<exists>rest. concat (map path_links (p # ps)) = (ks1 @ ks2) @ rest
      else ks1 @ ks2 = concat (map path_links (p # ps))" using 2(4) ks1 by auto
    moreover have "add_paths rate util (p # ps) = Inr (u2, ex2)" using 1(1) 2(1) False by simp
    ultimately show ?thesis using 2(2) by blast
  qed
qed


subsection \<open>The invariant of the greedy allocation\<close>

definition valid_flow :: "fa_link list \<Rightarrow> alloc_flow \<Rightarrow> bool" where
  "valid_flow edges f \<longleftrightarrow> FLOW_TX_RATE_LOWER_BOUND \<le> fl_tx_rate f \<and> fl_tx_rate f \<le> FLOW_TX_RATE_UPPER_BOUND
   \<and> fl_paths f \<noteq> [] \<and> (\<forall>p \<in> set (fl_paths f). 2 \<le> length p \<and> set (path_links p) \<subseteq> link_key ` set edges)
   \<and> length (fl_splitting_ratio f) = length (fl_paths f) \<and> sum_list (fl_splitting_ratio f) = 1
   \<and> (\<forall>x \<in> set (fl_splitting_ratio f). 0 \<le> x)"

definition candidate_ok :: "fa_link list \<Rightarrow> candidate \<Rightarrow> bool" where
  "candidate_ok edges = (\<lambda>(s, d, rate, ps). FLOW_TX_RATE_LOWER_BOUND \<le> rate \<and> rate \<le> FLOW_TX_RATE_UPPER_BOUND
     \<and> ps \<noteq> [] \<and> (\<forall>p \<in> set ps. 2 \<le> length p \<and> set (path_links p) \<subseteq> link_key ` set edges))"

definition greedy_inv :: "fa_link list \<Rightarrow> alloc_flow list \<times> link_util \<Rightarrow> bool" where
  "greedy_inv edges = (\<lambda>(flows, util). dict_wf util \<and> set (dict_keys util) = link_key ` set edges \<and> fits util
     \<and> (\<forall>l. util_at util l = total_load flows l) \<and> (\<forall>f \<in> set flows. valid_flow edges f))"

lemma count_list_append [simp]: "count_list (xs @ ys) l = count_list xs l + count_list ys l"
  by (induction xs) auto

lemma equal_split_load:
  "(\<Sum>(p, x)\<leftarrow>zip ps (replicate (length ps) c). x * rate * of_nat (count_list (path_links p) l))
    = c * rate * of_nat (count_list (concat (map path_links ps)) l)"
  by (induction ps) (simp_all add: algebra_simps)

lemma links_at_least_paths:
  "\<forall>p \<in> set ps. 2 \<le> length p \<Longrightarrow> length ps \<le> length (concat (map path_links ps))"
  by (induction ps) (auto simp: path_links_def)

lemma total_util_bound:
  assumes "fits util" "dict_wf util"
  shows "total_util util \<le> of_nat (length util)"
proof -
  have "v \<le> 1" if "(l, v) \<in> set util" for l v
  proof -
    have "util_at util l = v" using that assms(2) by (simp add: dict_wf_map_of_in util_at_def dict_get_default_def)
    then show ?thesis using assms(1) unfolding fits_def LINK_CAPACITY_def by metis
  qed
  then have "\<forall>p \<in> set util. snd p \<le> 1" by auto
  then have "sum_list (map snd util) \<le> of_nat (length util)"
    by (induction util) (simp_all add: add_mono add.commute)
  then show ?thesis by (simp add: total_util_def)
qed

lemma greedy_admit_cases:
  assumes inv: "greedy_inv edges (flows, util)" and c: "candidate_ok edges (s, d, rate, ps)"
  obtains (full) util' where "greedy_admit (flows, util) (s, d, rate, ps) = Inr ((flows, util'), False)"
      "fits util'" "dict_keys util' = dict_keys util" "\<forall>l. util_at util l \<le> util_at util' l"
    | (fit) util' f where "greedy_admit (flows, util) (s, d, rate, ps) = Inr ((flows @ [f], util'), True)"
      "greedy_inv edges (flows @ [f], util')" "total_util util + 1 / 10 \<le> total_util util'"
      "fl_source f = s" "fl_destination f = d" "fl_tx_rate f = rate" "fl_paths f = ps"
proof -
  let ?n = "length ps"
  let ?r = "rate / of_nat ?n"
  have ps: "ps \<noteq> []" "\<forall>p \<in> set ps. 2 \<le> length p" and rate: "1 / 10 \<le> rate" "rate \<le> FLOW_TX_RATE_UPPER_BOUND"
    and links: "\<forall>p \<in> set ps. set (path_links p) \<subseteq> link_key ` set edges"
    using c by (auto simp: candidate_ok_def FLOW_TX_RATE_LOWER_BOUND_def)
  have keys: "set (dict_keys util) = link_key ` set edges" and "fits util" "dict_wf util"
    and load: "\<forall>l. util_at util l = total_load flows l" and vf: "\<forall>f \<in> set flows. valid_flow edges f"
    using inv by (simp_all add: greedy_inv_def)
  have "\<forall>p \<in> set ps. set (path_links p) \<subseteq> set (dict_keys util)" unfolding keys by (rule links)
  from add_paths_ok [OF this \<open>fits util\<close>, of ?r] obtain util' ex ks where
    a: "add_paths ?r util ps = Inr (util', ex)" "fits util'" "grown ?r util util' ks"
      "if ex then \<exists>rest. concat (map path_links ps) = ks @ rest else ks = concat (map path_links ps)" by blast
  have r0: "0 \<le> ?r" using rate by simp
  have at: "util_at util' l = util_at util l + ?r * of_nat (count_list ks l)" for l using a(3) unfolding grown_def by blast
  have n: "0 < (of_nat ?n :: rat)" using ps(1) by simp
  show thesis
  proof (cases ex)
    case True
    have "util_at util l \<le> util_at util' l" for l
      unfolding at using mult_nonneg_nonneg [OF r0 of_nat_0_le_iff] by (simp only: le_add_same_cancel1)
    moreover have "dict_keys util' = dict_keys util" using a(3) by (simp only: grown_def)
    ultimately show thesis using full [of util'] a(1,2) True ps(1) by (simp add: greedy_admit_def)
  next
    case False
    then have ks: "ks = concat (map path_links ps)" using a(4) by simp
    let ?f = "\<lparr>fl_source = s, fl_destination = d, fl_tx_rate = rate, fl_paths = ps,
      fl_splitting_ratio = replicate ?n (1 / of_nat ?n)\<rparr>"
    have "flow_load ?f l = ?r * of_nat (count_list ks l)" for l
      using equal_split_load [where ps = ps and c = "1 / of_nat ?n" and rate = rate and l = l] by (simp add: flow_load_def ks)
    then have "util_at util' l = total_load (flows @ [?f]) l" for l
      unfolding at load [rule_format] by (simp add: total_load_def)
    moreover have "valid_flow edges ?f"
      using ps rate links n by (simp add: valid_flow_def FLOW_TX_RATE_LOWER_BOUND_def sum_list_replicate)
    moreover have wf: "dict_keys util' = dict_keys util" using a(3) by (simp only: grown_def)
    moreover have "dict_wf util'" using \<open>dict_wf util\<close> wf by (simp only: dict_wf_def)
    moreover have "set (dict_keys util') = link_key ` set edges" unfolding wf by (rule keys)
    ultimately have inv': "greedy_inv edges (flows @ [?f], util')" using a(2) vf unfolding greedy_inv_def prod.case by simp
    have "rate \<le> ?r * of_nat (length ks)"
    proof -
      have "of_nat ?n \<le> (of_nat (length ks) :: rat)" using links_at_least_paths [OF ps(2)] ks by (simp only: of_nat_le_iff)
      then have "?r * of_nat ?n \<le> ?r * of_nat (length ks)" by (rule mult_left_mono [OF _ r0])
      then show ?thesis using n by simp
    qed
    moreover have "total_util util' = total_util util + ?r * of_nat (length ks)" using a(3) unfolding grown_def by blast
    ultimately have "total_util util + 1 / 10 \<le> total_util util'" using rate(1) by linarith
    then show thesis using fit [of ?f util'] inv' a(1) False ps(1) by (simp add: greedy_admit_def Let_def)
  qed
qed

interpretation greedy: admission greedy_admit "greedy_inv edges" "candidate_ok edges" "total_util \<circ> snd" "of_nat (length edges)" for edges
proof unfold_locales
  fix st :: "alloc_flow list \<times> link_util" and c
  assume h: "greedy_inv edges st" "candidate_ok edges c"
  obtain flows util where st: "st = (flows, util)" by (cases st)
  obtain s d rate ps where c: "c = (s, d, rate, ps)" by (metis prod.exhaust)
  show "\<exists>s' go. greedy_admit st c = Inr (s', go) \<and> (go \<longrightarrow> greedy_inv edges s' \<and> (total_util \<circ> snd) st + 1 / 10 \<le> (total_util \<circ> snd) s')"
    using h unfolding st c by (cases rule: greedy_admit_cases) auto
next
  fix st :: "alloc_flow list \<times> link_util"
  assume h: "greedy_inv edges st"
  obtain flows util where st: "st = (flows, util)" by (cases st)
  have wf: "dict_wf util" "set (dict_keys util) = link_key ` set edges" "fits util" using h st by (simp_all add: greedy_inv_def)
  have "length util = card (link_key ` set edges)" using wf(1,2) by (metis dict_wf_def distinct_card length_map)
  also have "\<dots> \<le> length edges" by (metis card_image_le card_length le_trans List.finite_set)
  finally have "(of_nat (length util) :: rat) \<le> of_nat (length edges)" by (simp only: of_nat_le_iff)
  then show "(total_util \<circ> snd) st \<le> of_nat (length edges)" using total_util_bound [OF wf(3,1)] st by simp
qed


text \<open>What the loop relies on of its callers and of numpy and networkx.\<close>

definition fa_env_ok :: "'r fa_env \<Rightarrow> fa_node list \<Rightarrow> fa_link list \<Rightarrow> bool" where
  "fa_env_ok env graph_nodes graph_edges \<longleftrightarrow>
     (\<forall>r. \<exists>s d r'. flow_selection_fn env r graph_nodes = Inr ((s, d), r') \<and> disjoint_paths env s d \<noteq> []
        \<and> (\<forall>p \<in> set (disjoint_paths env s d). 2 \<le> length p \<and> set (path_links p) \<subseteq> link_key ` set graph_edges))
   \<and> (\<forall>r lo hi. lo < hi \<longrightarrow> lo \<le> fst (np_uniform env r lo hi) \<and> fst (np_uniform env r lo hi) < hi)"

lemma draw_flow_ok:
  assumes "fa_env_ok env graph_nodes graph_edges"
  shows "\<exists>c r'. draw_flow env graph_nodes r = Inr (c, r') \<and> candidate_ok graph_edges c"
proof -
  from assms obtain s d r1 where s: "flow_selection_fn env r graph_nodes = Inr ((s, d), r1)" "disjoint_paths env s d \<noteq> []"
    "\<forall>p \<in> set (disjoint_paths env s d). 2 \<le> length p \<and> set (path_links p) \<subseteq> link_key ` set graph_edges"
    unfolding fa_env_ok_def by blast
  obtain x r2 where u: "np_uniform env r1 FLOW_TX_RATE_LOWER_BOUND FLOW_TX_RATE_UPPER_BOUND = (x, r2)"
    by (cases "np_uniform env r1 FLOW_TX_RATE_LOWER_BOUND FLOW_TX_RATE_UPPER_BOUND")
  have "FLOW_TX_RATE_LOWER_BOUND < FLOW_TX_RATE_UPPER_BOUND" by (simp add: FLOW_TX_RATE_LOWER_BOUND_def FLOW_TX_RATE_UPPER_BOUND_def)
  then have "FLOW_TX_RATE_LOWER_BOUND \<le> x" "x < FLOW_TX_RATE_UPPER_BOUND"
    using assms u unfolding fa_env_ok_def by (metis fst_conv)+
  then show ?thesis using s u by (simp add: draw_flow_def candidate_ok_def)
qed

lemma draw_flow_only_ok:
  assumes "fa_env_ok env graph_nodes graph_edges" and "draw_flow env graph_nodes r = Inr (c, r')"
  shows "candidate_ok graph_edges c"
  using draw_flow_ok [OF assms(1), of r] assms(2) by auto

lemma greedy_init: "greedy_inv edges ([], dict_of (map (\<lambda>e. (link_key e, 0)) edges))"
proof -
  let ?u = "dict_of (map (\<lambda>e. (link_key e, 0 :: rat)) edges)"
  have "util_at ?u l = 0" for l
    unfolding util_at_def dict_get_default_def map_of_dict_of
    by (auto split: option.splits dest!: map_of_SomeD)
  moreover have "set (dict_keys ?u) = link_key ` set edges" unfolding set_keys_dict_of by force
  ultimately show ?thesis
    by (simp only: greedy_inv_def prod.case) (simp add: dict_wf_dict_of fits_def LINK_CAPACITY_def total_load_def)
qed

lemma greedy_result:
  assumes env: "fa_env_ok env graph_nodes edges"
    and run: "compute_greedy_flow_allocations env graph_nodes edges fuel r = Some (Inr ((flows, util), r'))"
  shows "(\<forall>f \<in> set flows. valid_flow edges f) \<and> (\<forall>l. total_load flows l \<le> util_at util l \<and> util_at util l \<le> LINK_CAPACITY)"
proof -
  let ?J = "\<lambda>(flows, util). (\<forall>f \<in> set flows. valid_flow edges f) \<and> (\<forall>l. total_load flows l \<le> util_at util l \<and> util_at util l \<le> LINK_CAPACITY)"
  have "?J (flows, util)"
  proof (rule admit_while_inv [where I = "greedy_inv edges" and C = "candidate_ok edges", OF run [unfolded compute_greedy_flow_allocations_def] greedy_init])
    show "\<And>r c r'. draw_flow env graph_nodes r = Inr (c, r') \<Longrightarrow> candidate_ok edges c"
      using draw_flow_only_ok [OF env] by blast
  next
    fix st c st'
    assume h: "greedy_inv edges st" "candidate_ok edges c" "greedy_admit st c = Inr (st', True)"
    obtain fl ut where st: "st = (fl, ut)" by (cases st)
    obtain s d rate ps where c: "c = (s, d, rate, ps)" by (metis prod.exhaust)
    from h(1,2) [unfolded st c] show "greedy_inv edges st'"
      by (cases rule: greedy_admit_cases) (use h(3) st c in auto)
  next
    fix st c st'
    assume h: "greedy_inv edges st" "candidate_ok edges c" "greedy_admit st c = Inr (st', False)"
    obtain fl ut where st: "st = (fl, ut)" by (cases st)
    obtain s d rate ps where c: "c = (s, d, rate, ps)" by (metis prod.exhaust)
    have inv: "\<forall>f \<in> set fl. valid_flow edges f" "\<And>l. util_at ut l = total_load fl l" using h(1) st by (auto simp: greedy_inv_def)
    from h(1,2) [unfolded st c] show "?J st'"
    proof (cases rule: greedy_admit_cases)
      case (full ut')
      then have "st' = (fl, ut')" using h(3) st c by simp
      moreover have "total_load fl l \<le> util_at ut' l \<and> util_at ut' l \<le> LINK_CAPACITY" for l
        using full(4) [rule_format, of l] full(2) inv(2) [of l] by (simp only: fits_def)
      ultimately show ?thesis using inv(1) by simp
    next
      case (fit ut' f)
      then show ?thesis using h(3) st c by simp
    qed
  qed
  then show ?thesis by simp
qed

lemma greedy_returns:
  assumes env: "fa_env_ok env graph_nodes edges" and fuel: "10 * length edges < fuel"
  shows "\<exists>flows util r'. compute_greedy_flow_allocations env graph_nodes edges fuel r = Some (Inr ((flows, util), r'))"
proof -
  let ?u = "dict_of (map (\<lambda>e. (link_key e, 0 :: rat)) edges)"
  have "x = 0" if "x \<in> set (map snd ?u)" for x using that dict_of_in by fastforce
  then have "map snd ?u = map (\<lambda>_. 0) ?u" by (simp add: map_eq_conv)
  then have "total_util ?u = 0" by (simp only: total_util_def sum_list_0)
  moreover have "10 * of_nat (length edges) < (of_nat fuel :: rat)" using fuel by (metis of_nat_less_iff of_nat_mult of_nat_numeral)
  ultimately have "10 * (of_nat (length edges) - (total_util \<circ> snd) ([], ?u)) < (of_nat fuel :: rat)" by simp
  from greedy.loop_returns [OF greedy_init _ this, of "draw_flow env graph_nodes" r] draw_flow_ok [OF env]
  show ?thesis unfolding compute_greedy_flow_allocations_def by (metis surj_pair)
qed


subsection \<open>The allocations without a solver\<close>

text \<open>
  \<open>sorted(nx.all_simple_paths(...), key=len)\<close> followed by \<open>islice(..., K)\<close>; \<open>simple_paths\<close> stands for networkx'
  enumeration with its cutoff.
\<close>

definition k_shortest_paths :: "(fa_node \<Rightarrow> fa_node \<Rightarrow> fa_node list list) \<Rightarrow> nat \<Rightarrow> fa_node \<Rightarrow> fa_node \<Rightarrow> fa_node list list" where
  "k_shortest_paths simple_paths K source destination = take K (sort_key length (simple_paths source destination))"

text \<open>\<open>link_utilization[u, v] += rate\<close> over the links of the paths.\<close>

definition charge_links :: "pyfloat \<Rightarrow> link_util \<Rightarrow> fa_link list \<Rightarrow> link_util res" where
  "charge_links rate util ls = fold_res (\<lambda>u l. rbind (dict_get u l) (\<lambda>x. Inr (dict_set u l (x + rate)))) util ls"

text \<open>
  \<open>compute_test_flow_allocations\<close>: the keys of \<open>link_utilization\<close> are the graph's edges as they are, the
  links looked up are sorted.
\<close>

fun test_flows ::
    "'r np_random \<Rightarrow> (fa_node \<Rightarrow> fa_node \<Rightarrow> fa_node list list) \<Rightarrow> nat \<Rightarrow> fa_node \<Rightarrow> fa_node list \<Rightarrow> nat
      \<Rightarrow> alloc_flow list \<Rightarrow> link_util \<Rightarrow> 'r \<Rightarrow> (alloc_flow list \<times> link_util) res" where
  "test_flows np simple_paths K source destinations 0 flows util r = Inr (flows, util)"
| "test_flows np simple_paths K source destinations (Suc n) flows util r =
     rbind (sample np r destinations 1) (\<lambda>(picked, r').
     rbind (py_nth picked 0) (\<lambda>destination.
     let paths = k_shortest_paths simple_paths K source destination
     in rbind (charge_links (10 / of_nat K) util (concat (map path_links paths))) (\<lambda>util'.
        test_flows np simple_paths K source destinations n
          (flows @ [\<lparr>fl_source = source, fl_destination = destination, fl_tx_rate = 10 / 10, fl_paths = paths,
             fl_splitting_ratio = replicate K (1 / of_nat K)\<rparr>]) util' r')))"

definition compute_test_flow_allocations ::
    "'r np_random \<Rightarrow> 'r \<Rightarrow> (fa_node \<Rightarrow> fa_node \<Rightarrow> fa_node list list) \<Rightarrow> fa_node list \<Rightarrow> fa_link list \<Rightarrow> nat \<Rightarrow> nat
      \<Rightarrow> (nat \<times> alloc_flow list \<times> link_util) res" where
  "compute_test_flow_allocations np r simple_paths graph_nodes graph_edges number_of_flows K =
     rbind (sample np r graph_nodes 1) (\<lambda>(picked, r').
     rbind (py_nth picked 0) (\<lambda>source.
     rbind (test_flows np simple_paths K source (filter (\<lambda>n. n \<noteq> source) graph_nodes) number_of_flows []
        (dict_of (map (\<lambda>e. (e, 0)) graph_edges)) r') (\<lambda>(flows, util).
     Inr (123456789, flows, util))))"

text \<open>One flow from every node, over the \<open>K\<close> shortest paths or over the shortest one.\<close>

fun flows_from_nodes ::
    "'r np_random \<Rightarrow> (fa_node \<Rightarrow> fa_node \<Rightarrow> alloc_flow) \<Rightarrow> fa_node list \<Rightarrow> fa_node list \<Rightarrow> 'r \<Rightarrow> alloc_flow list res" where
  "flows_from_nodes np mk graph_nodes [] r = Inr []"
| "flows_from_nodes np mk graph_nodes (node # ns) r =
     rbind (sample np r (filter (\<lambda>n. n \<noteq> node) graph_nodes) 1) (\<lambda>(picked, r').
     rbind (py_nth picked 0) (\<lambda>destination.
     rbind (flows_from_nodes np mk graph_nodes ns r') (\<lambda>flows. Inr (mk node destination # flows))))"

definition compute_equal_flow_allocations ::
    "'r np_random \<Rightarrow> 'r \<Rightarrow> (fa_node \<Rightarrow> fa_node \<Rightarrow> fa_node list list) \<Rightarrow> fa_node list \<Rightarrow> nat \<Rightarrow> (nat \<times> alloc_flow list) res" where
  "compute_equal_flow_allocations np r simple_paths graph_nodes K =
     rbind (flows_from_nodes np (\<lambda>node destination.
        \<lparr>fl_source = node, fl_destination = destination, fl_tx_rate = 10,
         fl_paths = k_shortest_paths simple_paths K node destination,
         fl_splitting_ratio = replicate K (1 / of_nat K)\<rparr>) graph_nodes graph_nodes r) (\<lambda>flows.
     Inr (3735928559, flows))"

definition compute_unequal_flow_allocations ::
    "'r np_random \<Rightarrow> 'r \<Rightarrow> (fa_node \<Rightarrow> fa_node \<Rightarrow> fa_node list) \<Rightarrow> fa_node list \<Rightarrow> (nat \<times> alloc_flow list) res" where
  "compute_unequal_flow_allocations np r shortest_path graph_nodes =
     rbind (flows_from_nodes np (\<lambda>node destination.
        \<lparr>fl_source = node, fl_destination = destination, fl_tx_rate = 10,
         fl_paths = [shortest_path node destination], fl_splitting_ratio = [1]\<rparr>) graph_nodes graph_nodes r) (\<lambda>flows.
     Inr (3735928559, flows))"

definition single_flow ::
    "'r np_random \<Rightarrow> 'r \<Rightarrow> (fa_node \<Rightarrow> fa_node \<Rightarrow> fa_node list list) \<Rightarrow> fa_node list \<Rightarrow> (nat \<times> alloc_flow list) res" where
  "single_flow np r node_disjoint_paths graph_nodes =
     rbind (sample np r graph_nodes 2) (\<lambda>(picked, r').
     rbind (py_nth picked 0) (\<lambda>source. rbind (py_nth picked 1) (\<lambda>destination.
     let paths = node_disjoint_paths source destination
     in Inr (3405691582, [\<lparr>fl_source = source, fl_destination = destination, fl_tx_rate = 1 / 2, fl_paths = paths,
           fl_splitting_ratio = 1 # replicate (length paths - 1) 0\<rparr>]))))"

subsection \<open>The JSON form\<close>

text \<open>\<open>parse_flows_from_json\<close> leaves paths and splitting ratios unset.\<close>

record bare_flow =
  bf_source :: fa_node
  bf_destination :: fa_node
  bf_tx_rate :: pyfloat

definition create_flow_json :: "alloc_flow list \<Rightarrow> json" where
  "create_flow_json flows =
     JList (map (\<lambda>f. JObj [(''source-node'', JInt (fl_source f)), (''destination-node'', JInt (fl_destination f)),
       (''flow-tx-rate'', JFloat (fl_tx_rate f))]) flows)"

definition parse_flows_from_json :: "json \<Rightarrow> bare_flow list res" where
  "parse_flows_from_json j =
     rbind (json_list j) (map_res (\<lambda>flow_dict.
       rbind (rbind (json_get flow_dict ''source-node'') json_int) (\<lambda>s.
       rbind (rbind (json_get flow_dict ''destination-node'') json_int) (\<lambda>d.
       rbind (rbind (json_get flow_dict ''flow-tx-rate'') json_float) (\<lambda>x.
       Inr \<lparr>bf_source = s, bf_destination = d, bf_tx_rate = x\<rparr>)))))"

definition forget_routes :: "alloc_flow \<Rightarrow> bare_flow" where
  "forget_routes f = \<lparr>bf_source = fl_source f, bf_destination = fl_destination f, bf_tx_rate = fl_tx_rate f\<rparr>"


lemma sample_one:
  assumes "np_random_ok np" and "xs \<noteq> []"
  shows "\<exists>x r'. sample np r xs 1 = Inr ([x], r') \<and> x \<in> set xs"
proof -
  have "1 \<le> length xs" using assms(2) by (cases xs) simp_all
  from sample_total [OF assms(1) this, of r] obtain ys r' where
    "sample np r xs 1 = Inr (ys, r')" "set ys \<subseteq> set xs" "length ys = 1" by blast
  then show ?thesis by (cases ys) auto
qed

lemma flows_from_nodes_ok:
  assumes np: "np_random_ok np" and two: "\<forall>n \<in> set ns. \<exists>m \<in> set graph_nodes. m \<noteq> n"
  shows "\<exists>ds. flows_from_nodes np mk graph_nodes ns r = Inr (map2 mk ns ds) \<and> length ds = length ns
    \<and> (\<forall>(n, d) \<in> set (zip ns ds). d \<in> set graph_nodes \<and> d \<noteq> n)"
  using two
proof (induction ns arbitrary: r)
  case (Cons n ns)
  then have "filter (\<lambda>m. m \<noteq> n) graph_nodes \<noteq> []" by (auto simp: filter_empty_conv)
  from sample_one [OF np this, of r] obtain d r' where
    d: "sample np r (filter (\<lambda>m. m \<noteq> n) graph_nodes) 1 = Inr ([d], r')" "d \<in> set graph_nodes" "d \<noteq> n" by auto
  from Cons.IH [of r'] Cons.prems obtain ds where
    "flows_from_nodes np mk graph_nodes ns r' = Inr (map2 mk ns ds)" "length ds = length ns"
    "\<forall>(n, d) \<in> set (zip ns ds). d \<in> set graph_nodes \<and> d \<noteq> n" by auto
  then show ?case using d by (intro exI [of _ "d # ds"]) (simp add: py_nth_first)
qed simp

subsection \<open>Properties\<close>

definition ex_env :: "unit fa_env" where
  "ex_env = \<lparr>flow_selection_fn = (\<lambda>r nodes. Inr ((1, 3), ())), np_uniform = (\<lambda>r lo hi. ((2 * lo + 8 * hi) / 10, ())),
     disjoint_paths = (\<lambda>s d. [[1, 2, 3], [1, 3]])\<rparr>"

lemma ex_env_ok: "fa_env_ok ex_env [1, 2, 3] [(1, 2), (2, 3), (3, 1)]"
  by (auto simp: fa_env_ok_def ex_env_def path_links_def link_key_def)

text \<open>
  C13.  The greedy allocation ends and is safe: after at most ten times as many rounds as the network
  has links it returns; every admitted flow is valid (its rate within the bounds, its ratios
  non-negative, as many as its paths and summing to one), and the load the flows put on a link never
  exceeds the reported utilisation, which never exceeds the capacity.
\<close>

theorem greedy_allocation_correct:
  assumes "fa_env_ok env graph_nodes edges" and "10 * length edges < fuel"
  shows "\<exists>flows util r'. compute_greedy_flow_allocations env graph_nodes edges fuel r = Some (Inr ((flows, util), r'))
    \<and> (\<forall>f \<in> set flows. valid_flow edges f)
    \<and> (\<forall>l. total_load flows l \<le> util_at util l \<and> util_at util l \<le> LINK_CAPACITY)"
proof -
  from greedy_returns [OF assms, of r] obtain flows util r' where
    run: "compute_greedy_flow_allocations env graph_nodes edges fuel r = Some (Inr ((flows, util), r'))" by blast
  with greedy_result [OF assms(1) run] show ?thesis by blast
qed

theorem greedy_allocation_correct_witness:
  "\<exists>flows util r'. compute_greedy_flow_allocations ex_env [1, 2, 3] [(1, 2), (2, 3), (3, 1)] 31 () = Some (Inr ((flows, util), r'))
    \<and> (\<forall>f \<in> set flows. valid_flow [(1, 2), (2, 3), (3, 1)] f)
    \<and> (\<forall>l. total_load flows l \<le> util_at util l \<and> util_at util l \<le> LINK_CAPACITY)"
  by (rule greedy_allocation_correct [OF ex_env_ok]) simp

text \<open>
  A flow that does not fit still leaves its mark: the links it was charged for before the first
  full one stay charged in the utilisation that is returned.  Here the link \<open>(1, 2)\<close> is reported as
  more loaded than the admitted flows load it.
\<close>

theorem greedy_reports_rejected_load:
  "\<exists>env edges flows util r. compute_greedy_flow_allocations env [1, 2, 3] edges 20 (0 :: nat) = Some (Inr ((flows, util), r))
    \<and> length flows = 2 \<and> total_load flows (1, 2) < util_at util (1, 2)"
proof -
  let ?env = "\<lparr>flow_selection_fn = (\<lambda>r nodes. Inr (if r < 2 then (2, 3) else (1, 3), Suc r)), np_uniform = (\<lambda>r lo hi. (2 / 5, r)),
     disjoint_paths = (\<lambda>s d. if s = 2 then [[2, 3]] else [[1, 2, 3]])\<rparr> :: nat fa_env"
  have "case compute_greedy_flow_allocations ?env [1, 2, 3] [(1, 2), (2, 3)] 20 0 of
      Some (Inr ((flows, util), _)) \<Rightarrow> length flows = 2 \<and> total_load flows (1, 2) < util_at util (1, 2) | _ \<Rightarrow> False"
    by code_simp
  then show ?thesis
    by (intro exI [of _ ?env] exI [of _ "[(1, 2), (2, 3)]"]) (auto split: option.splits sum.splits)
qed

text \<open>
  The equal allocation makes exactly one flow per node, in the order of the graph, to another
  node of the graph.  Its paths are at most \<open>K\<close> and sorted by length, but its list of ratios always has
  \<open>K\<close> entries, whatever the number of paths.
\<close>

theorem equal_allocation:
  assumes "np_random_ok np" and "\<forall>n \<in> set graph_nodes. \<exists>m \<in> set graph_nodes. m \<noteq> n"
  shows "\<exists>flows. compute_equal_flow_allocations np r simple_paths graph_nodes K = Inr (3735928559, flows)
    \<and> map fl_source flows = graph_nodes
    \<and> (\<forall>f \<in> set flows. fl_destination f \<in> set graph_nodes \<and> fl_destination f \<noteq> fl_source f
        \<and> length (fl_paths f) \<le> K \<and> sorted (map length (fl_paths f))
        \<and> set (fl_paths f) \<subseteq> set (simple_paths (fl_source f) (fl_destination f))
        \<and> fl_splitting_ratio f = replicate K (1 / of_nat K))"
proof -
  let ?mk = "\<lambda>node destination. \<lparr>fl_source = node, fl_destination = destination, fl_tx_rate = 10,
         fl_paths = k_shortest_paths simple_paths K node destination, fl_splitting_ratio = replicate K (1 / of_nat K)\<rparr>"
  from flows_from_nodes_ok [OF assms, of ?mk r] obtain ds where
    d: "flows_from_nodes np ?mk graph_nodes graph_nodes r = Inr (map2 ?mk graph_nodes ds)" "length ds = length graph_nodes"
      "\<forall>(n, d) \<in> set (zip graph_nodes ds). d \<in> set graph_nodes \<and> d \<noteq> n" by blast
  have "map fl_source (map2 ?mk graph_nodes ds) = graph_nodes"
    using d(2) by (simp add: comp_def case_prod_unfold)
  moreover have k: "length (k_shortest_paths simple_paths K s e) \<le> K" "sorted (map length (k_shortest_paths simple_paths K s e))"
    "set (k_shortest_paths simple_paths K s e) \<subseteq> set (simple_paths s e)" for s e
    using set_take_subset [of K "sort_key length (simple_paths s e)"]
    by (simp_all add: k_shortest_paths_def take_map [symmetric] sorted_wrt_take)
  ultimately show ?thesis using d(1,3)
    by (intro exI [of _ "map2 ?mk graph_nodes ds"]) (auto simp: compute_equal_flow_allocations_def dest: subsetD [OF k(3)])
qed

theorem equal_allocation_witness:
  "\<exists>np :: unit np_random. \<exists>flows. compute_equal_flow_allocations np () (\<lambda>s d. [[s, d]]) [1, 2] 3 = Inr (3735928559, flows)
    \<and> map fl_source flows = [1, 2]
    \<and> (\<forall>f \<in> set flows. fl_destination f \<in> set [1, 2] \<and> fl_destination f \<noteq> fl_source f
        \<and> length (fl_paths f) \<le> 3 \<and> sorted (map length (fl_paths f))
        \<and> set (fl_paths f) \<subseteq> set [[fl_source f, fl_destination f]]
        \<and> fl_splitting_ratio f = replicate 3 (1 / of_nat 3))"
proof -
  let ?np = "\<lparr>np_choice = (\<lambda>r n k. if k \<le> n then Inr ([0..<k], r) else Inl ValueError),
      np_choice1 = (\<lambda>r n. if 0 < n then Inr (0, r) else Inl ValueError),
      np_randint = (\<lambda>r lo hi. if lo < hi then Inr (lo, r) else Inl ValueError)\<rparr> :: unit np_random"
  have ok: "np_random_ok ?np" by (auto simp: np_random_ok_def)
  have two: "\<forall>n \<in> set [1, 2 :: int]. \<exists>m \<in> set [1, 2]. m \<noteq> n" by simp
  show ?thesis by (rule exI [of _ ?np]) (rule equal_allocation [OF ok two])
qed

text \<open>
  Writing flows to JSON and reading them back keeps the end points and the rate of every flow, in
  order; the routes are not part of the file.
\<close>

theorem flow_json_roundtrip:
  "parse_flows_from_json (create_flow_json flows) = Inr (map forget_routes flows)"
  unfolding create_flow_json_def parse_flows_from_json_def
  by (induction flows) (simp_all add: dict_get_def forget_routes_def)

text \<open>
  \<open>compute_test_flow_allocations\<close> charges links under their sorted name while its table has them
  as the graph lists its edges: on a graph that lists an edge the other way round, the first flow over
  it raises \<open>KeyError\<close>.
\<close>

theorem test_allocation_unsorted_edge:
  "charge_links rate (dict_of [((v, u), 0)]) (path_links [u, v]) = (if u \<le> v \<and> u \<noteq> v then Inl KeyError
     else Inr [((v, u), rate)])"
  by (auto simp: charge_links_def path_links_def link_key_def dict_of_def dict_set_def dict_get_def min_def max_def)

end
