(* ===== verification/Strings.thy ===== *)
theory Strings
  imports Prelude
begin

section \<open>Strings\<close>

text \<open>
  What the sources use of \<open>str\<close>: \<open>'%d'\<close> formatting, \<open>int(s)\<close>, \<open>split\<close> and \<open>join\<close> with a separator,
  \<open>strip\<close>, \<open>in\<close> and \<open>startswith\<close>.  Strings are lists of characters.  The lemmas say that printing and
  parsing numbers, and joining and splitting, undo one another.
\<close>

subsection \<open>Numbers\<close>

definition digit_char :: "nat \<Rightarrow> char" where
  "digit_char d = char_of (48 + d)"

definition is_digit :: "char \<Rightarrow> bool" where
  "is_digit c \<longleftrightarrow> 48 \<le> (of_char c :: nat) \<and> (of_char c :: nat) \<le> 57"

fun show_nat :: "nat \<Rightarrow> string" where
  "show_nat n = (if n < 10 then [digit_char n] else show_nat (n div 10) @ [digit_char (n mod 10)])"

declare show_nat.simps [simp del]

definition show_int :: "int \<Rightarrow> string" where
  "show_int i = (if i < 0 then CHR ''-'' # show_nat (nat (- i)) else show_nat (nat i))"

definition digits_value :: "string \<Rightarrow> nat" where
  "digits_value s = foldl (\<lambda>acc c. 10 * acc + (of_char c - 48)) 0 s"

lemma of_digit_char: "d < 10 \<Longrightarrow> (of_char (digit_char d) :: nat) = 48 + d"
  by (simp add: digit_char_def)

lemma is_digit_digit_char: "d < 10 \<Longrightarrow> is_digit (digit_char d)"
  by (simp add: is_digit_def of_digit_char)

lemma digits_value_snoc: "digits_value (s @ [c]) = 10 * digits_value s + (of_char c - 48)"
  by (simp add: digits_value_def)

lemma show_nat_digits: "c \<in> set (show_nat n) \<Longrightarrow> is_digit c"
proof (induction n rule: show_nat.induct)
  case (1 n)
  then show ?case by (subst (asm) (2) show_nat.simps) (auto simp: is_digit_digit_char split: if_splits)
qed

lemma show_nat_nonempty: "show_nat n \<noteq> []"
  by (subst show_nat.simps) simp

lemma digits_value_show_nat: "digits_value (show_nat n) = n"
proof (induction n rule: show_nat.induct)
  case (1 n)
  show ?case
  proof (cases "n < 10")
    case True
    then show ?thesis by (subst show_nat.simps) (simp add: digits_value_def of_digit_char)
  next
    case False
    then show ?thesis using 1 by (subst show_nat.simps) (simp add: digits_value_snoc of_digit_char)
  qed
qed

subsection \<open>Splitting and joining\<close>

fun split_on :: "char \<Rightarrow> string \<Rightarrow> string list" where
  "split_on c [] = [[]]"
| "split_on c (x # xs) =
     (if x = c then [] # split_on c xs
      else (case split_on c xs of [] \<Rightarrow> [[x]] | w # ws \<Rightarrow> (x # w) # ws))"

fun join_with :: "string \<Rightarrow> string list \<Rightarrow> string" where
  "join_with sep [] = []"
| "join_with sep [w] = w"
| "join_with sep (w # w' # ws) = w @ sep @ join_with sep (w' # ws)"

lemma split_on_nonempty: "split_on c s \<noteq> []"
  by (induction s) (auto split: list.splits)

lemma split_on_none: "c \<notin> set s \<Longrightarrow> split_on c s = [s]"
  by (induction s) auto

lemma split_on_append: "c \<notin> set w \<Longrightarrow> split_on c (w @ c # s) = w # split_on c s"
  by (induction w) auto

lemma split_join:
  "ws \<noteq> [] \<Longrightarrow> \<forall>w \<in> set ws. c \<notin> set w \<Longrightarrow> split_on c (join_with [c] ws) = ws"
  by (induction "[c]" ws rule: join_with.induct) (simp_all add: split_on_none split_on_append)

lemma set_join: "set (join_with sep ws) \<subseteq> (\<Union>w \<in> set ws. set w) \<union> set sep"
  by (induction sep ws rule: join_with.induct) auto

lemma join_split: "join_with [c] (split_on c s) = s"
proof (induction s)
  case (Cons x s)
  obtain w ws where s: "split_on c s = w # ws" using split_on_nonempty [of c s] by (cases "split_on c s") auto
  then show ?case using Cons by (cases ws) auto
qed simp

subsection \<open>Stripping, membership and prefixes\<close>

definition is_space :: "char \<Rightarrow> bool" where
  "is_space c \<longleftrightarrow> c = CHR '' '' \<or> (9 \<le> (of_char c :: nat) \<and> (of_char c :: nat) \<le> 13)"

definition strip :: "string \<Rightarrow> string" where
  "strip s = rev (dropWhile is_space (rev (dropWhile is_space s)))"

fun startswith :: "string \<Rightarrow> string \<Rightarrow> bool" where
  "startswith s [] = True"
| "startswith [] (c # cs) = False"
| "startswith (x # xs) (c # cs) = (x = c \<and> startswith xs cs)"

fun contains_str :: "string \<Rightarrow> string \<Rightarrow> bool" where
  "contains_str [] s = (s = [])"
| "contains_str (x # xs) s = (startswith (x # xs) s \<or> contains_str xs s)"

definition lower :: "string \<Rightarrow> string" where
  "lower s = map (\<lambda>c. let n = (of_char c :: nat) in if 65 \<le> n \<and> n \<le> 90 then char_of (n + 32) else c) s"

lemma startswith_iff: "startswith s p \<longleftrightarrow> (\<exists>t. s = p @ t)"
  by (induction s p rule: startswith.induct) auto

lemma contains_char: "contains_str s [c] \<longleftrightarrow> c \<in> set s"
  by (induction s) (auto simp: startswith_iff)

lemma digit_not_space: "is_digit c \<Longrightarrow> \<not> is_space c"
  by (auto simp: is_digit_def is_space_def)

lemma dropWhile_none: "\<forall>c \<in> set s. \<not> P c \<Longrightarrow> dropWhile P s = s"
  by (cases s) simp_all

lemma strip_digits: "\<forall>c \<in> set s. \<not> is_space c \<Longrightarrow> strip s = s"
  by (simp add: strip_def dropWhile_none)

lemma strip_left_space: "is_space c \<Longrightarrow> strip (c # s) = strip s"
  by (simp add: strip_def)

text \<open>\<open>int(s)\<close>: surrounding white space, a sign and single underscores between digits are allowed.\<close>

definition unsigned_value :: "string \<Rightarrow> int res" where
  "unsigned_value s = (let groups = split_on (CHR ''_'') s in
     if \<forall>g \<in> set groups. g \<noteq> [] \<and> (\<forall>c \<in> set g. is_digit c) then Inr (int (digits_value (concat groups)))
     else Inl ValueError)"

definition signed_value :: "string \<Rightarrow> int res" where
  "signed_value s = (case s of
       [] \<Rightarrow> Inl ValueError
     | c # cs \<Rightarrow> if c = CHR ''-'' then rbind (unsigned_value cs) (\<lambda>i. Inr (- i))
                else if c = CHR ''+'' then unsigned_value cs
                else unsigned_value (c # cs))"

definition py_int :: "string \<Rightarrow> int res" where
  "py_int s = signed_value (strip s)"

lemma unsigned_value_digits:
  assumes "s \<noteq> []" and "\<forall>c \<in> set s. is_digit c"
  shows "unsigned_value s = Inr (int (digits_value s))"
proof -
  have "\<not> is_digit (CHR ''_'')" by (simp add: is_digit_def)
  then have "CHR ''_'' \<notin> set s" using assms(2) by blast
  then have "split_on (CHR ''_'') s = [s]" by (rule split_on_none)
  then show ?thesis using assms by (simp add: unsigned_value_def)
qed

lemma py_int_digits:
  assumes "s \<noteq> []" and "\<forall>c \<in> set s. is_digit c"
  shows "py_int s = Inr (int (digits_value s))"
proof -
  have st: "strip s = s" using assms(2) digit_not_space by (intro strip_digits) blast
  have "\<not> is_digit (CHR ''-'')" "\<not> is_digit (CHR ''+'')" by (simp_all add: is_digit_def)
  then show ?thesis using assms unsigned_value_digits [OF assms] unfolding py_int_def st signed_value_def by (cases s) auto
qed

lemma py_int_show_nat [simp]: "py_int (show_nat n) = Inr (int n)"
  using py_int_digits [OF show_nat_nonempty] show_nat_digits by (simp add: digits_value_show_nat)

lemma py_int_strip: "strip s = strip t \<Longrightarrow> py_int s = py_int t"
  by (simp add: py_int_def)

lemma py_int_space: "is_space c \<Longrightarrow> py_int (c # s) = py_int s"
  by (rule py_int_strip) (rule strip_left_space)

lemma py_int_show_int [simp]: "py_int (show_int i) = Inr i"
proof (cases "i < 0")
  case True
  have dig: "\<forall>c \<in> set (show_nat (nat (- i))). is_digit c" using show_nat_digits by blast
  then have "\<forall>c \<in> set (show_int i). \<not> is_space c"
    using True digit_not_space by (auto simp: show_int_def is_space_def)
  then have "strip (show_int i) = show_int i" by (rule strip_digits)
  then show ?thesis using True unsigned_value_digits [OF show_nat_nonempty dig]
    by (simp add: py_int_def signed_value_def show_int_def digits_value_show_nat)
next
  case False
  then show ?thesis by (simp add: show_int_def)
qed

lemma not_in_show_nat: "\<not> is_digit c \<Longrightarrow> c \<notin> set (show_nat n)"
  using show_nat_digits by blast

text \<open>The digits as characters, so that \<open>simp\<close> prints a concrete number.\<close>

lemma digit_chars:
  "digit_char 0 = CHR ''0''"
  "digit_char (Suc 0) = CHR ''1''"
  "digit_char 2 = CHR ''2''"
  "digit_char 3 = CHR ''3''"
  "digit_char 4 = CHR ''4''"
  "digit_char 5 = CHR ''5''"
  "digit_char 6 = CHR ''6''"
  "digit_char 7 = CHR ''7''"
  "digit_char 8 = CHR ''8''"
  "digit_char 9 = CHR ''9''"
  by (simp_all add: digit_char_def char_of_def bit_iff_odd)

lemmas print_simps = show_int_def show_nat.simps digit_chars

end
