(* ===== verification/Lp_Models.thy ===== *)
theory Lp_Models
  imports Flow_Allocation Strings
begin

section \<open>Linear programs\<close>

text \<open>
  The optimisation models that \<open>rest_client/path_hopping/flow_allocation.py\<close> builds with gurobipy: the
  variables in the order they are added, with their bounds, and the constraints.  A variable of the
  model is a constructor of \<open>lp_var\<close>; its name string is \<open>var_name\<close>, and what the source later recovers
  from the names is computed from the strings (\<open>variable_name_to_index_tuple\<close>).  The solver is a
  parameter (\<open>optimize\<close>) of which the allocators rely on soundness: a solution it returns satisfies the
  bounds and the constraints.

  A gurobipy variable plus an expression is an expression that contains the variable.  \<open>Y[f, l] += ...\<close>
  therefore leaves the variable \<open>Y\<close> itself in the sum, and the same holds for \<open>U\<close>; being non-negative
  they act as slack.
\<close>

subsection \<open>Expressions, constraints and models\<close>

datatype lp_var =
    VX nat nat | VY nat nat | VT nat nat | VU nat | VK nat | VF nat fa_node fa_node | VAlpha

type_synonym lin_expr = "(pyfloat \<times> lp_var) list"
type_synonym assignment = "lp_var \<Rightarrow> pyfloat"

datatype lp_constr = EqConst lin_expr pyfloat | EqExpr lin_expr lin_expr | LeExpr lin_expr lin_expr | GeConst lin_expr pyfloat

datatype vtype = CONTINUOUS | SEMICONT

record lp_decl =
  dv_var :: lp_var
  dv_type :: vtype
  dv_lb :: pyfloat
  dv_ub :: "pyfloat option"

record lp_model =
  lp_vars :: "lp_decl list"
  lp_constrs :: "lp_constr list"
  lp_objective :: lp_var

definition addVar :: "lp_var \<Rightarrow> lp_decl" where
  "addVar v = \<lparr>dv_var = v, dv_type = CONTINUOUS, dv_lb = 0, dv_ub = None\<rparr>"

definition addVar_unit :: "lp_var \<Rightarrow> lp_decl" where
  "addVar_unit v = \<lparr>dv_var = v, dv_type = CONTINUOUS, dv_lb = 0, dv_ub = Some 1\<rparr>"

definition lin_val :: "assignment \<Rightarrow> lin_expr \<Rightarrow> pyfloat" where
  "lin_val x e = (\<Sum>(c, v)\<leftarrow>e. c * x v)"

fun constr_holds :: "assignment \<Rightarrow> lp_constr \<Rightarrow> bool" where
  "constr_holds x (EqConst e c) \<longleftrightarrow> lin_val x e = c"
| "constr_holds x (EqExpr e e') \<longleftrightarrow> lin_val x e = lin_val x e'"
| "constr_holds x (LeExpr e e') \<longleftrightarrow> lin_val x e \<le> lin_val x e'"
| "constr_holds x (GeConst e c) \<longleftrightarrow> c \<le> lin_val x e"

definition in_bounds :: "lp_decl \<Rightarrow> pyfloat \<Rightarrow> bool" where
  "in_bounds d v \<longleftrightarrow> (dv_type d = SEMICONT \<and> v = 0) \<or> (dv_lb d \<le> v \<and> (case dv_ub d of None \<Rightarrow> True | Some u \<Rightarrow> v \<le> u))"

definition feasible :: "lp_model \<Rightarrow> assignment \<Rightarrow> bool" where
  "feasible m x \<longleftrightarrow> (\<forall>d \<in> set (lp_vars m). in_bounds d (x (dv_var d))) \<and> (\<forall>c \<in> set (lp_constrs m). constr_holds x c)"

lemma lin_val_simps [simp]:
  "lin_val x [] = 0" "lin_val x ((c, v) # e) = c * x v + lin_val x e" "lin_val x (e @ e') = lin_val x e + lin_val x e'"
  by (simp_all add: lin_val_def)

subsection \<open>Variable names\<close>

fun var_name :: "lp_var \<Rightarrow> string" where
  "var_name (VX i j) = ''X{'' @ show_nat i @ '','' @ show_nat j @ ''}''"
| "var_name (VY i j) = ''Y{'' @ show_nat i @ '','' @ show_nat j @ ''}''"
| "var_name (VT i j) = ''T{'' @ show_nat i @ '', '' @ show_nat j @ ''}''"
| "var_name (VU i) = ''U{'' @ show_nat i @ ''}''"
| "var_name (VK i) = ''K{'' @ show_nat i @ ''}''"
| "var_name (VF i u v) = ''F{'' @ show_nat i @ '','' @ show_int u @ '','' @ show_int v @ ''}''"
| "var_name VAlpha = ''alpha''"

datatype index_tuple = Indices "int list" | Index int | NoIndex

definition variable_name_to_index_tuple :: "string \<Rightarrow> index_tuple res" where
  "variable_name_to_index_tuple variable_name =
     (let body = butlast (drop 2 variable_name) in
      if contains_str variable_name ''X'' \<or> contains_str variable_name ''Y''
      then rbind (map_res py_int (split_on (CHR '','') body)) (\<lambda>is. Inr (Indices is))
      else if contains_str variable_name ''U'' \<or> contains_str variable_name ''K''
      then rbind (py_int body) (\<lambda>i. Inr (Index i))
      else Inr NoIndex)"

lemma name_chars:
  "c \<in> set (var_name v) \<Longrightarrow> is_digit c \<or> c \<in> set (''XYTUKF{}, -alph'')"
  by (cases v) (auto simp: show_int_def dest: show_nat_digits split: if_splits)

lemma letter_not_digit [simp]:
  "\<not> is_digit (CHR ''X'')" "\<not> is_digit (CHR ''Y'')" "\<not> is_digit (CHR ''U'')" "\<not> is_digit (CHR ''K'')" "\<not> is_digit (CHR '','')"
  by (simp_all add: is_digit_def)

lemma letter_not_shown [simp]:
  "CHR ''X'' \<notin> set (show_nat n)" "CHR ''Y'' \<notin> set (show_nat n)" "CHR ''U'' \<notin> set (show_nat n)" "CHR ''K'' \<notin> set (show_nat n)"
  "CHR '','' \<notin> set (show_nat n)"
  by (simp_all add: not_in_show_nat)

lemma letter_not_shown_int [simp]:
  "CHR ''X'' \<notin> set (show_int n)" "CHR ''Y'' \<notin> set (show_int n)" "CHR ''U'' \<notin> set (show_int n)" "CHR ''K'' \<notin> set (show_int n)"
  by (simp_all add: show_int_def)

lemma name_X: "contains_str (var_name v) ''X'' \<longleftrightarrow> (\<exists>i j. v = VX i j)"
  by (cases v) (simp_all add: contains_char)

lemma name_K: "contains_str (var_name v) ''K'' \<longleftrightarrow> (\<exists>i. v = VK i)"
  by (cases v) (simp_all add: contains_char)

lemma two_indices:
  "map_res py_int (split_on (CHR '','') (show_nat i @ CHR '','' # show_nat j)) = Inr [int i, int j]"
  by (simp add: split_on_append split_on_none)

lemma name_parts:
  "butlast (drop 2 (var_name (VX i j))) = show_nat i @ CHR '','' # show_nat j"
  "butlast (drop 2 (var_name (VY i j))) = show_nat i @ CHR '','' # show_nat j"
  "butlast (drop 2 (var_name (VU i))) = show_nat i"
  "butlast (drop 2 (var_name (VK i))) = show_nat i"
  by (simp_all add: butlast_append)

lemma index_of_X: "variable_name_to_index_tuple (var_name (VX i j)) = Inr (Indices [int i, int j])"
  unfolding variable_name_to_index_tuple_def name_parts two_indices Let_def by (simp add: contains_char)

lemma index_of_K: "variable_name_to_index_tuple (var_name (VK i)) = Inr (Index (int i))"
  unfolding variable_name_to_index_tuple_def name_parts Let_def by (simp add: contains_char)

text \<open>
  The indices the allocators read back from the names of the model's variables are the indices
  the variables were made with.
\<close>

theorem variable_name_roundtrip:
  "variable_name_to_index_tuple (var_name (VX i j)) = Inr (Indices [int i, int j])
   \<and> variable_name_to_index_tuple (var_name (VY i j)) = Inr (Indices [int i, int j])
   \<and> variable_name_to_index_tuple (var_name (VU i)) = Inr (Index (int i))
   \<and> variable_name_to_index_tuple (var_name (VK i)) = Inr (Index (int i))
   \<and> variable_name_to_index_tuple (var_name VAlpha) = Inr NoIndex"
proof -
  have "variable_name_to_index_tuple (var_name (VY i j)) = Inr (Indices [int i, int j])"
    unfolding variable_name_to_index_tuple_def name_parts two_indices Let_def by (simp add: contains_char)
  moreover have "variable_name_to_index_tuple (var_name (VU i)) = Inr (Index (int i))"
    unfolding variable_name_to_index_tuple_def name_parts Let_def by (simp add: contains_char)
  moreover have "variable_name_to_index_tuple (var_name VAlpha) = Inr NoIndex"
    by (simp add: variable_name_to_index_tuple_def contains_char)
  ultimately show ?thesis by (simp only: index_of_X index_of_K simp_thms)
qed

subsection \<open>The K-paths models\<close>

text \<open>
  \<open>create_k_paths_model\<close> and \<open>create_path_hopping_ilp_model\<close> differ in the bounds of the splitting ratios \<open>X\<close>
  only; the rest is shared here.  \<open>path_uses\<close> lists, for every flow and path in order, the links the
  path uses.
\<close>

definition link_set :: "fa_link list \<Rightarrow> (fa_link, nat) dict" where
  "link_set edges = dict_of (map (\<lambda>(i, e). (link_key e, i)) (enumerate 0 edges))"

definition flow_routing :: "(nat \<Rightarrow> nat \<Rightarrow> lp_decl) \<Rightarrow> alloc_flow list \<Rightarrow> lp_decl list \<times> lp_constr list" where
  "flow_routing mkX flows =
     (concat (map (\<lambda>(f, fl). map (mkX f) [0..<length (fl_paths fl)]) (enumerate 0 flows)),
      map (\<lambda>(f, fl). EqConst (map (\<lambda>p. (1, VX f p)) [0..<length (fl_paths fl)]) 1) (enumerate 0 flows))"

definition path_uses :: "nat \<times> alloc_flow \<Rightarrow> (nat \<times> nat \<times> fa_link \<times> pyfloat) list" where
  "path_uses = (\<lambda>(f, fl). concat (map (\<lambda>(p, path). map (\<lambda>l. (f, p, l, fl_tx_rate fl)) (path_links path)) (enumerate 0 (fl_paths fl))))"

definition add_use ::
    "(fa_link, nat) dict \<Rightarrow> (nat \<times> nat, lin_expr) dict \<Rightarrow> nat \<times> nat \<times> fa_link \<times> pyfloat \<Rightarrow> (nat \<times> nat, lin_expr) dict res" where
  "add_use links Y = (\<lambda>(f, p, l, rate).
     rbind (dict_get links l) (\<lambda>link_index.
     rbind (dict_get Y (f, link_index)) (\<lambda>e.
     Inr (dict_set Y (f, link_index) (e @ [(rate, VX f p)])))))"

definition link_portions :: "(fa_link, nat) dict \<Rightarrow> alloc_flow list \<Rightarrow> (nat \<times> nat, lin_expr) dict res" where
  "link_portions links flows =
     fold_res (add_use links)
       (dict_of (map (\<lambda>(f, l). ((f, l), [(1, VY f l)])) (List.product [0..<length flows] (dict_values links))))
       (concat (map path_uses (enumerate 0 flows)))"

definition add_portion :: "(nat, lin_expr) dict \<Rightarrow> nat \<times> nat \<Rightarrow> (nat, lin_expr) dict res" where
  "add_portion U = (\<lambda>(f, l). rbind (dict_get U l) (\<lambda>e. Inr (dict_set U l (e @ [(1, VT f l)]))))"

definition link_totals :: "(fa_link, nat) dict \<Rightarrow> (nat \<times> nat) list \<Rightarrow> (nat, lin_expr) dict res" where
  "link_totals links Ts = fold_res add_portion (dict_of (map (\<lambda>l. (l, [(1, VU l)])) (dict_values links))) Ts"

definition paths_model :: "(nat \<Rightarrow> nat \<Rightarrow> lp_decl) \<Rightarrow> fa_link list \<Rightarrow> alloc_flow list \<Rightarrow> lp_model res" where
  "paths_model mkX edges flows =
     (let links = link_set edges; (Xs, routing) = flow_routing mkX flows in
      rbind (link_portions links flows) (\<lambda>Y.
      rbind (link_totals links (dict_keys Y)) (\<lambda>U.
      Inr \<lparr>lp_vars = Xs
             @ map (\<lambda>(f, l). addVar_unit (VY f l)) (List.product [0..<length flows] (dict_values links))
             @ map (\<lambda>(f, l). addVar_unit (VT f l)) (dict_keys Y)
             @ [addVar_unit VAlpha]
             @ map (\<lambda>l. addVar (VU l)) (dict_values links)
             @ map (\<lambda>l. addVar (VK l)) (dict_values links),
           lp_constrs = routing
             @ map (\<lambda>((f, l), y). EqExpr [(1, VT f l)] y) Y
             @ [GeConst [(1, VAlpha)] 0]
             @ concat (map (\<lambda>(l, u). [EqExpr [(1, VK l)] u, LeExpr [(1, VK l)] [(LINK_CAPACITY, VAlpha)]]) U),
           lp_objective = VAlpha\<rparr>)))"

definition unrouted :: "candidate \<Rightarrow> alloc_flow" where
  "unrouted = (\<lambda>(s, d, rate, paths). \<lparr>fl_source = s, fl_destination = d, fl_tx_rate = rate, fl_paths = paths, fl_splitting_ratio = []\<rparr>)"

definition create_k_paths_model :: "fa_link list \<Rightarrow> alloc_flow list \<Rightarrow> candidate \<Rightarrow> lp_model res" where
  "create_k_paths_model edges flows new = paths_model (\<lambda>f p. addVar_unit (VX f p)) edges (flows @ [unrouted new])"

definition create_path_hopping_ilp_model :: "nat \<Rightarrow> fa_link list \<Rightarrow> alloc_flow list \<Rightarrow> candidate \<Rightarrow> lp_model res" where
  "create_path_hopping_ilp_model K edges flows new =
     (if K = 0 \<and> (\<exists>f \<in> set (flows @ [unrouted new]). fl_paths f \<noteq> []) then Inl ZeroDivisionError
      else paths_model (\<lambda>f p. \<lparr>dv_var = VX f p, dv_type = SEMICONT, dv_lb = 1 / of_nat K, dv_ub = Some (1 / of_nat K)\<rparr>)
             edges (flows @ [unrouted new]))"

subsection \<open>What the K-paths models say\<close>

text \<open>Accumulating terms under keys that are present appends, per key, the terms in order.\<close>

lemma accumulate_terms:
  assumes "\<And>D u. u \<in> set us \<Longrightarrow> key u \<in> set (dict_keys D) \<Longrightarrow>
      step D u = Inr (dict_set D (key u) (the (map_of D (key u)) @ [trm u]))"
    and "key ` set us \<subseteq> set (dict_keys D)"
  shows "\<exists>D'. fold_res step D us = Inr D' \<and> dict_keys D' = dict_keys D
    \<and> (\<forall>k. map_of D' k = map_option (\<lambda>e. e @ map trm (filter (\<lambda>u. key u = k) us)) (map_of D k))"
  using assms
proof (induction us arbitrary: D)
  case Nil
  then show ?case by (simp add: option.map_ident)
next
  case (Cons u us)
  let ?D = "dict_set D (key u) (the (map_of D (key u)) @ [trm u])"
  have st: "step D u = Inr ?D" using Cons.prems by simp
  have in_keys: "key u \<in> set (dict_keys D)" using Cons.prems(2) by simp
  then have keys: "dict_keys ?D = dict_keys D" by simp
  have "key ` set us \<subseteq> set (dict_keys ?D)" unfolding keys using Cons.prems(2) by simp
  from Cons.IH [OF Cons.prems(1) this] obtain D' where
    D': "fold_res step ?D us = Inr D'" "dict_keys D' = dict_keys ?D"
      "\<And>k. map_of D' k = map_option (\<lambda>e. e @ map trm (filter (\<lambda>u. key u = k) us)) (map_of ?D k)" by auto
  obtain e where "map_of D (key u) = Some e" using keys_lookup [OF in_keys] by blast
  then show ?case using st D' keys by (intro exI [of _ D']) auto
qed

lemma link_set_Some: "map_of (link_set edges) l = Some i \<Longrightarrow> i < length edges \<and> l = link_key (edges ! i)"
  unfolding link_set_def map_of_dict_of by (auto dest!: map_of_SomeD simp: in_set_enumerate_eq)

lemma link_set_keys: "set (dict_keys (link_set edges)) = link_key ` set edges"
proof -
  have "map fst (map (\<lambda>(i, e). (link_key e, i)) (enumerate 0 edges)) = map link_key (map snd (enumerate 0 edges))"
    by (simp only: map_map, rule map_cong) auto
  then show ?thesis unfolding link_set_def set_keys_dict_of by simp
qed

lemma link_set_defined: "l \<in> link_key ` set edges \<Longrightarrow> \<exists>i. map_of (link_set edges) l = Some i"
  using link_set_keys [of edges] keys_lookup [of l "link_set edges"] by blast

lemma link_set_values: "i \<in> set (dict_values (link_set edges)) \<longleftrightarrow> (\<exists>l. map_of (link_set edges) l = Some i)"
proof -
  have "dict_wf (link_set edges)" unfolding link_set_def by (rule dict_wf_dict_of)
  then have "(l, i) \<in> set (link_set edges) \<longleftrightarrow> map_of (link_set edges) l = Some i" for l by (rule dict_wf_map_of_in)
  then show ?thesis by (simp add: image_iff) (metis prod.collapse snd_conv)
qed

definition routed :: "assignment \<Rightarrow> nat \<times> alloc_flow \<Rightarrow> alloc_flow" where
  "routed x = (\<lambda>(f, fl). fl\<lparr>fl_splitting_ratio := map (\<lambda>p. x (VX f p)) [0..<length (fl_paths fl)]\<rparr>)"

definition use_key :: "(fa_link, nat) dict \<Rightarrow> nat \<times> nat \<times> fa_link \<times> pyfloat \<Rightarrow> nat \<times> nat" where
  "use_key links = (\<lambda>(f, p, l, rate). (f, the (map_of links l)))"

definition use_term :: "nat \<times> nat \<times> fa_link \<times> pyfloat \<Rightarrow> pyfloat \<times> lp_var" where
  "use_term = (\<lambda>(f, p, l, rate). (rate, VX f p))"

lemma path_load:
  assumes "\<forall>p \<in> set ps. set (path_links p) \<subseteq> link_key ` set edges" and "map_of (link_set edges) l = Some i"
  shows "lin_val x (map use_term (filter (\<lambda>u. use_key (link_set edges) u = (f, i))
      (concat (map (\<lambda>(p, path). map (\<lambda>l. (f, p, l, rate)) (path_links path)) (enumerate m ps)))))
    = (\<Sum>(p, r)\<leftarrow>zip ps (map (\<lambda>p. x (VX f p)) [m..<m + length ps]). r * rate * of_nat (count_list (path_links p) l))"
  using assms(1)
proof (induction ps arbitrary: m)
  case (Cons p ps)
  have one: "lin_val x (map use_term (filter (\<lambda>u. use_key (link_set edges) u = (f, i)) (map (\<lambda>l. (f, m, l, rate)) ls)))
    = x (VX f m) * rate * of_nat (count_list ls l)" if "set ls \<subseteq> link_key ` set edges" for ls
    using that
  proof (induction ls)
    case (Cons k ls)
    then have "k \<in> link_key ` set edges" by simp
    then obtain j where j: "map_of (link_set edges) k = Some j" using link_set_defined by blast
    then have "j = i \<longleftrightarrow> k = l" using link_set_Some [OF j] link_set_Some [OF assms(2)] assms(2) by (metis option.inject)
    then show ?case using Cons j by (simp add: use_key_def use_term_def algebra_simps)
  qed simp
  have "[m..<m + length (p # ps)] = m # [Suc m..<Suc m + length ps]"
    using upt_conv_Cons [of m "m + length (p # ps)"] by (simp del: upt_Suc)
  then show ?case using Cons one [of "path_links p"] by (simp del: upt_Suc)
qed simp

lemma other_flow_load:
  "f' \<noteq> f \<Longrightarrow> filter (\<lambda>u. use_key links u = (f, i)) (path_uses (f', fl)) = []"
  by (auto simp: filter_empty_conv path_uses_def use_key_def)

lemma flow_portion:
  assumes "\<forall>fl \<in> set flows. \<forall>p \<in> set (fl_paths fl). set (path_links p) \<subseteq> link_key ` set edges"
    and "map_of (link_set edges) l = Some i" and "f < length flows"
  shows "lin_val x (map use_term (filter (\<lambda>u. use_key (link_set edges) u = (n + f, i)) (concat (map path_uses (enumerate n flows)))))
    = flow_load (routed x (n + f, flows ! f)) l"
  using assms(1,3)
proof (induction flows arbitrary: n f)
  case (Cons fl flows)
  show ?case
  proof (cases f)
    case 0
    have "filter (\<lambda>u. use_key (link_set edges) u = (n, i)) (concat (map path_uses (enumerate (Suc n) flows))) = []"
      by (auto simp: filter_empty_conv in_set_enumerate_eq path_uses_def use_key_def)
    moreover have "lin_val x (map use_term (filter (\<lambda>u. use_key (link_set edges) u = (n, i)) (path_uses (n, fl))))
      = flow_load (routed x (n, fl)) l"
      using path_load [OF _ assms(2), of "fl_paths fl" x n "fl_tx_rate fl" 0] Cons.prems(1)
      by (simp add: path_uses_def flow_load_def routed_def)
    ultimately show ?thesis using 0 by simp
  next
    case (Suc g)
    then show ?thesis using Cons.IH [of g "Suc n"] Cons.prems other_flow_load [of n "n + f" "link_set edges" i fl] by simp
  qed
qed simp

lemma link_portions_ok:
  assumes "\<forall>fl \<in> set flows. \<forall>p \<in> set (fl_paths fl). set (path_links p) \<subseteq> link_key ` set edges"
  shows "\<exists>Y. link_portions (link_set edges) flows = Inr Y
    \<and> dict_wf Y \<and> set (dict_keys Y) = {0..<length flows} \<times> set (dict_values (link_set edges))
    \<and> (\<forall>f l i. f < length flows \<longrightarrow> map_of (link_set edges) l = Some i \<longrightarrow>
          (\<exists>e. map_of Y (f, i) = Some e \<and> lin_val x e = x (VY f i) + flow_load (routed x (f, flows ! f)) l))"
proof -
  let ?L = "link_set edges"
  let ?us = "concat (map path_uses (enumerate 0 flows))"
  let ?D = "dict_of (map (\<lambda>(f, l). ((f, l), [(1, VY f l)])) (List.product [0..<length flows] (dict_values ?L))) :: (nat \<times> nat, lin_expr) dict"
  have us: "\<exists>i. map_of ?L l = Some i \<and> f < length flows" if "(f, p, l, rate) \<in> set ?us" for f p l rate
  proof -
    from that have p: "f < length flows" "p < length (fl_paths (flows ! f))" "l \<in> set (path_links (fl_paths (flows ! f) ! p))"
      by (auto simp: path_uses_def in_set_enumerate_eq)
    then obtain fl path where f: "f < length flows" "fl = flows ! f" "path \<in> set (fl_paths fl)" "l \<in> set (path_links path)"
      using nth_mem by blast
    then have "l \<in> link_key ` set edges" using assms nth_mem [OF f(1)] by blast
    then show ?thesis using link_set_defined f(1) by blast
  qed
  have keys: "set (dict_keys ?D) = {0..<length flows} \<times> set (dict_values ?L)"
    unfolding set_keys_dict_of by force
  have step: "add_use ?L D u = Inr (dict_set D (use_key ?L u) (the (map_of D (use_key ?L u)) @ [use_term u]))"
    if u: "u \<in> set ?us" "use_key ?L u \<in> set (dict_keys D)" for u and D :: "(nat \<times> nat, lin_expr) dict"
  proof -
    obtain f p l rate where u': "u = (f, p, l, rate)" by (metis prod.exhaust)
    then obtain i where i: "map_of ?L l = Some i" using us u(1) by blast
    then have "(f, i) \<in> set (dict_keys D)" using u(2) u' by (simp only: use_key_def prod.case option.sel)
    then obtain e where "map_of D (f, i) = Some e" by (elim keys_lookup [THEN exE])
    then show ?thesis using u' i by (simp add: add_use_def use_key_def use_term_def dict_get_def)
  qed
  have sub: "use_key ?L ` set ?us \<subseteq> set (dict_keys ?D)"
  proof
    fix k assume "k \<in> use_key ?L ` set ?us"
    then obtain u where k: "u \<in> set ?us" "k = use_key ?L u" by blast
    obtain f p l rate where "u = (f, p, l, rate)" by (metis prod.exhaust)
    with k have u: "(f, p, l, rate) \<in> set ?us" "k = (f, the (map_of ?L l))" by (simp_all only: use_key_def prod.case)
    from us [OF u(1)] obtain i where i: "map_of ?L l = Some i" "f < length flows" by blast
    then have "i \<in> set (dict_values ?L)" using link_set_values by blast
    then show "k \<in> set (dict_keys ?D)" unfolding keys u(2) using i by simp
  qed
  have "\<exists>Y. fold_res (add_use ?L) ?D ?us = Inr Y \<and> dict_keys Y = dict_keys ?D
      \<and> (\<forall>k. map_of Y k = map_option (\<lambda>e. e @ map use_term (filter (\<lambda>u. use_key ?L u = k) ?us)) (map_of ?D k))"
    by (rule accumulate_terms [OF step sub])
  then obtain Y where
    Y: "link_portions ?L flows = Inr Y" "dict_keys Y = dict_keys ?D"
      "\<And>k. map_of Y k = map_option (\<lambda>e. e @ map use_term (filter (\<lambda>u. use_key ?L u = k) ?us)) (map_of ?D k)"
    unfolding link_portions_def by blast
  have "\<exists>e. map_of Y (f, i) = Some e \<and> lin_val x e = x (VY f i) + flow_load (routed x (f, flows ! f)) l"
    if f: "f < length flows" and l: "map_of ?L l = Some i" for f l i
  proof -
    from l have "i \<in> set (dict_values ?L)" using link_set_values by blast
    then have "(f, i) \<in> set (dict_keys ?D)" unfolding keys using f by simp
    then obtain e where "map_of ?D (f, i) = Some e" by (elim keys_lookup [THEN exE])
    moreover from this have "e = [(1, VY f i)]" unfolding map_of_dict_of by (auto dest!: map_of_SomeD)
    ultimately show ?thesis using Y(3) flow_portion [OF assms l f, of x 0] by simp
  qed
  moreover have "dict_wf Y" unfolding dict_wf_def Y(2) by (rule dict_wf_dict_of [unfolded dict_wf_def])
  ultimately show ?thesis using Y(1,2) keys by (intro exI [of _ Y]) simp
qed

lemma link_totals_ok:
  assumes "set Ts \<subseteq> A \<times> set (dict_values links)"
  shows "\<exists>U. link_totals links Ts = Inr U \<and> set (dict_keys U) = set (dict_values links)
    \<and> (\<forall>i \<in> set (dict_values links). \<exists>e. map_of U i = Some e
        \<and> lin_val x e = x (VU i) + (\<Sum>(f, j)\<leftarrow>filter (\<lambda>u. snd u = i) Ts. x (VT f j)))"
proof -
  let ?D = "dict_of (map (\<lambda>l. (l, [(1, VU l)])) (dict_values links)) :: (nat, lin_expr) dict"
  have keys: "set (dict_keys ?D) = set (dict_values links)" unfolding set_keys_dict_of by force
  have step: "add_portion D u = Inr (dict_set D (snd u) (the (map_of D (snd u)) @ [(1, VT (fst u) (snd u))]))"
    if "snd u \<in> set (dict_keys D)" for u and D :: "(nat, lin_expr) dict"
  proof -
    obtain f l where u: "u = (f, l)" by (cases u)
    from that have "l \<in> set (dict_keys D)" by (simp only: u snd_conv)
    then obtain e where "map_of D l = Some e" by (elim keys_lookup [THEN exE])
    then show ?thesis unfolding u by (simp add: add_portion_def dict_get_def)
  qed
  have sub: "snd ` set Ts \<subseteq> set (dict_keys ?D)" unfolding keys using assms by auto
  from accumulate_terms [where trm = "\<lambda>u. (1, VT (fst u) (snd u))", OF step sub] obtain U where
    U: "link_totals links Ts = Inr U" "dict_keys U = dict_keys ?D"
      "\<And>k. map_of U k = map_option (\<lambda>e. e @ map (\<lambda>u. (1, VT (fst u) (snd u))) (filter (\<lambda>u. snd u = k) Ts)) (map_of ?D k)"
    unfolding link_totals_def by blast
  have "\<exists>e. map_of U i = Some e \<and> lin_val x e = x (VU i) + (\<Sum>(f, j)\<leftarrow>filter (\<lambda>u. snd u = i) Ts. x (VT f j))"
    if "i \<in> set (dict_values links)" for i
  proof -
    from that have "i \<in> set (dict_keys ?D)" by (simp only: keys)
    then obtain e where "map_of ?D i = Some e" by (elim keys_lookup [THEN exE])
    moreover from this have "e = [(1, VU i)]" unfolding map_of_dict_of by (auto dest!: map_of_SomeD)
    ultimately show ?thesis using U(3) by (simp add: lin_val_def comp_def case_prod_unfold)
  qed
  then show ?thesis using U(1,2) keys by (intro exI [of _ U]) simp
qed

text \<open>
  Every path over links of the graph gives a model, and a solution of the model routes every flow
  completely and loads no link beyond \<open>alpha\<close>.
\<close>

lemma paths_model_total:
  assumes "\<forall>fl \<in> set flows. \<forall>p \<in> set (fl_paths fl). set (path_links p) \<subseteq> link_key ` set edges"
  obtains m Y U where "paths_model mkX edges flows = Inr m" "link_portions (link_set edges) flows = Inr Y"
    "link_totals (link_set edges) (dict_keys Y) = Inr U"
    "set (dict_keys Y) = {0..<length flows} \<times> set (dict_values (link_set edges))"
proof -
  from link_portions_ok [OF assms, of undefined] obtain Y where
    Y: "link_portions (link_set edges) flows = Inr Y" "set (dict_keys Y) = {0..<length flows} \<times> set (dict_values (link_set edges))" by blast
  then have "set (dict_keys Y) \<subseteq> {0..<length flows} \<times> set (dict_values (link_set edges))" by blast
  from link_totals_ok [OF this, of undefined] obtain U where U: "link_totals (link_set edges) (dict_keys Y) = Inr U" by blast
  then show thesis using Y that by (simp add: paths_model_def flow_routing_def Let_def)
qed

lemma lin_val_ones: "lin_val x (map (\<lambda>p. (1, g p)) ps) = sum_list (map (\<lambda>p. x (g p)) ps)"
  by (induction ps) simp_all

lemma lin_val_single: "lin_val x [(c, v)] = c * x v"
  by simp

lemma total_load_enumerate:
  "total_load (map (routed x) (enumerate 0 flows)) l = (\<Sum>f = 0..<length flows. flow_load (routed x (f, flows ! f)) l)"
proof -
  have "total_load (map (routed x) (enumerate 0 flows)) l = (\<Sum>p\<leftarrow>enumerate 0 flows. flow_load (routed x p) l)"
    by (simp add: total_load_def comp_def)
  also have "\<dots> = (\<Sum>f = 0..<length flows. flow_load (routed x (f, flows ! f)) l)"
    by (subst sum_list_sum_nth) (simp add: nth_enumerate_eq)
  finally show ?thesis .
qed

lemma paths_model_sound:
  assumes ok: "\<forall>fl \<in> set flows. \<forall>p \<in> set (fl_paths fl). set (path_links p) \<subseteq> link_key ` set edges"
    and m: "paths_model mkX edges flows = Inr m" and x: "feasible m x"
  shows "\<forall>f < length flows. (\<Sum>p\<leftarrow>[0..<length (fl_paths (flows ! f))]. x (VX f p)) = 1
      \<and> (\<forall>p < length (fl_paths (flows ! f)). in_bounds (mkX f p) (x (dv_var (mkX f p))))"
    and "\<forall>l \<in> link_key ` set edges. \<forall>i. map_of (link_set edges) l = Some i \<longrightarrow>
      total_load (map (routed x) (enumerate 0 flows)) l \<le> x (VK i) \<and> x (VK i) \<le> x VAlpha"
    and "x VAlpha \<le> 1"
proof -
  let ?L = "link_set edges"
  from link_portions_ok [OF ok, of x] obtain Y where
    Y: "link_portions ?L flows = Inr Y" "dict_wf Y" "set (dict_keys Y) = {0..<length flows} \<times> set (dict_values ?L)"
      "\<And>f l i. f < length flows \<Longrightarrow> map_of ?L l = Some i \<Longrightarrow>
          \<exists>e. map_of Y (f, i) = Some e \<and> lin_val x e = x (VY f i) + flow_load (routed x (f, flows ! f)) l" by auto
  then have "set (dict_keys Y) \<subseteq> {0..<length flows} \<times> set (dict_values ?L)" by blast
  from link_totals_ok [OF this, of x] obtain U where
    U: "link_totals ?L (dict_keys Y) = Inr U" and
    Uv: "\<And>i. i \<in> set (dict_values ?L) \<Longrightarrow> \<exists>e. map_of U i = Some e
        \<and> lin_val x e = x (VU i) + (\<Sum>(f, j)\<leftarrow>filter (\<lambda>u. snd u = i) (dict_keys Y). x (VT f j))" by blast
  have md: "lp_vars m = fst (flow_routing mkX flows)
             @ map (\<lambda>(f, l). addVar_unit (VY f l)) (List.product [0..<length flows] (dict_values ?L))
             @ map (\<lambda>(f, l). addVar_unit (VT f l)) (dict_keys Y)
             @ [addVar_unit VAlpha]
             @ map (\<lambda>l. addVar (VU l)) (dict_values ?L)
             @ map (\<lambda>l. addVar (VK l)) (dict_values ?L)"
      "lp_constrs m = snd (flow_routing mkX flows)
             @ map (\<lambda>((f, l), y). EqExpr [(1, VT f l)] y) Y
             @ [GeConst [(1, VAlpha)] 0]
             @ concat (map (\<lambda>(l, u). [EqExpr [(1, VK l)] u, LeExpr [(1, VK l)] [(LINK_CAPACITY, VAlpha)]]) U)"
    using m Y(1) U by (auto simp: paths_model_def Let_def split: prod.splits)
  have b: "in_bounds d (x (dv_var d))" if "d \<in> set (lp_vars m)" for d using x that unfolding feasible_def by blast
  have c: "constr_holds x k" if "k \<in> set (lp_constrs m)" for k using x that unfolding feasible_def by blast
  show "x VAlpha \<le> 1" using b [of "addVar_unit VAlpha"] unfolding md(1) by (simp add: in_bounds_def addVar_unit_def)
  show "\<forall>f < length flows. (\<Sum>p\<leftarrow>[0..<length (fl_paths (flows ! f))]. x (VX f p)) = 1
      \<and> (\<forall>p < length (fl_paths (flows ! f)). in_bounds (mkX f p) (x (dv_var (mkX f p))))"
  proof (intro allI impI conjI)
    fix f assume f: "f < length flows"
    have e: "(f, flows ! f) \<in> set (enumerate 0 flows)" using f by (simp add: in_set_enumerate_eq)
    have "EqConst (map (\<lambda>p. (1, VX f p)) [0..<length (fl_paths (flows ! f))]) 1 \<in> set (lp_constrs m)"
      unfolding md(2) flow_routing_def snd_conv set_append set_map using e by (intro UnI1) (rule image_eqI [rotated], simp, simp)
    from c [OF this] show "(\<Sum>p\<leftarrow>[0..<length (fl_paths (flows ! f))]. x (VX f p)) = 1" by (simp add: lin_val_ones)
    fix p assume p: "p < length (fl_paths (flows ! f))"
    have "mkX f p \<in> set (fst (flow_routing mkX flows))" using e p by (force simp: flow_routing_def)
    then show "in_bounds (mkX f p) (x (dv_var (mkX f p)))" by (intro b) (simp add: md(1))
  qed
  show "\<forall>l \<in> link_key ` set edges. \<forall>i. map_of ?L l = Some i \<longrightarrow>
      total_load (map (routed x) (enumerate 0 flows)) l \<le> x (VK i) \<and> x (VK i) \<le> x VAlpha"
  proof (intro ballI allI impI conjI)
    fix l i assume l: "map_of ?L l = Some i"
    then have i: "i \<in> set (dict_values ?L)" using link_set_values by blast
    from Uv [OF this] obtain e where e: "map_of U i = Some e"
      "lin_val x e = x (VU i) + (\<Sum>(f, j)\<leftarrow>filter (\<lambda>u. snd u = i) (dict_keys Y). x (VT f j))" by blast
    then have "(i, e) \<in> set U" by (auto dest: map_of_SomeD)
    then have "EqExpr [(1, VK i)] e \<in> set (lp_constrs m)" "LeExpr [(1, VK i)] [(LINK_CAPACITY, VAlpha)] \<in> set (lp_constrs m)"
      unfolding md(2) by auto
    from c [OF this(1)] c [OF this(2)] have K: "x (VK i) = lin_val x e" "x (VK i) \<le> x VAlpha"
      by (simp_all add: LINK_CAPACITY_def)
    then show "x (VK i) \<le> x VAlpha" by simp
    have U0: "0 \<le> x (VU i)" using b [of "addVar (VU i)"] i unfolding md(1) by (auto simp: in_bounds_def addVar_def)
    have T: "flow_load (routed x (f, flows ! f)) l \<le> x (VT f i) \<and> 0 \<le> x (VT f i)" if f: "f < length flows" for f
    proof -
      from Y(4) [OF f l] obtain y where y: "map_of Y (f, i) = Some y" "lin_val x y = x (VY f i) + flow_load (routed x (f, flows ! f)) l" by blast
      then have yin: "((f, i), y) \<in> set Y" by (auto dest: map_of_SomeD)
      then have "EqExpr [(1, VT f i)] y \<in> set (lp_constrs m)" unfolding md(2) by force
      from c [OF this] have "x (VT f i) = x (VY f i) + flow_load (routed x (f, flows ! f)) l" using y(2) by simp
      moreover have "addVar_unit (VY f i) \<in> set (lp_vars m)" unfolding md(1) using f i by force
      from b [OF this] have "0 \<le> x (VY f i)" by (simp add: in_bounds_def addVar_unit_def)
      moreover have "addVar_unit (VT f i) \<in> set (lp_vars m)" unfolding md(1) using yin by force
      from b [OF this] have "0 \<le> x (VT f i)" by (simp add: in_bounds_def addVar_unit_def)
      ultimately show ?thesis by simp
    qed
    let ?ks = "filter (\<lambda>u. snd u = i) (dict_keys Y)"
    have ks: "set ?ks = (\<lambda>f. (f, i)) ` {0..<length flows}" unfolding set_filter Y(3) using i by auto
    have "(\<Sum>(f, j)\<leftarrow>?ks. x (VT f j)) = (\<Sum>(f, j)\<in>set ?ks. x (VT f j))"
      by (rule sum_list_distinct_conv_sum_set) (use Y(2) in \<open>simp only: dict_wf_def distinct_filter\<close>)
    also have "\<dots> = (\<Sum>f = 0..<length flows. x (VT f i))" unfolding ks by (subst sum.reindex) (simp_all add: inj_on_def)
    finally have Tsum: "(\<Sum>(f, j)\<leftarrow>?ks. x (VT f j)) = (\<Sum>f = 0..<length flows. x (VT f i))" .
    have "total_load (map (routed x) (enumerate 0 flows)) l = (\<Sum>f = 0..<length flows. flow_load (routed x (f, flows ! f)) l)"
      by (rule total_load_enumerate)
    also have "\<dots> \<le> (\<Sum>f = 0..<length flows. x (VT f i))" using T by (intro sum_mono) simp
    finally show "total_load (map (routed x) (enumerate 0 flows)) l \<le> x (VK i)" using K(1) e(2) U0 Tsum by simp
  qed
qed

end
