(* ===== verification/Lp_Allocation.thy ===== *)
theory Lp_Allocation
  imports Lp_Models
begin

section \<open>Allocating flows with the solver\<close>

text \<open>
  Models \<open>compute_ilp_flows\<close>, \<open>compute_path_hopping_flows_ilp\<close> and \<open>testing_k_paths_flow_allocation\<close> of
  \<open>rest_client/path_hopping/flow_allocation.py\<close>: flows are added until the model with one more flow has no
  solution; the splitting ratios and utilisations are then read back from the last solution by the
  names of its variables.  \<open>optimize m\<close> is \<open>None\<close> for the three infeasible or unbounded statuses.
\<close>

type_synonym solver = "lp_model \<Rightarrow> assignment option"
type_synonym lp_state = "alloc_flow list \<times> (lp_model \<times> assignment) option"

definition solver_sound :: "solver \<Rightarrow> bool" where
  "solver_sound optimize \<longleftrightarrow> (\<forall>m x. optimize m = Some x \<longrightarrow> feasible m x)"

definition lp_admit :: "(alloc_flow list \<Rightarrow> candidate \<Rightarrow> lp_model res) \<Rightarrow> solver \<Rightarrow> lp_state \<Rightarrow> candidate \<Rightarrow> (lp_state \<times> bool) res" where
  "lp_admit create_model optimize = (\<lambda>(flows, feasible_model) c.
     rbind (create_model flows c) (\<lambda>m.
       case optimize m of
         None \<Rightarrow> Inr ((flows, feasible_model), False)
       | Some x \<Rightarrow> Inr ((flows @ [unrouted c], Some (m, x)), True)))"

text \<open>One variable of the solution: \<open>X\<close> goes to its flow's ratios, \<open>K\<close> to the utilisation of its link.\<close>

definition read_var :: "(nat, fa_link) dict \<Rightarrow> assignment \<Rightarrow> alloc_flow list \<times> link_util \<Rightarrow> lp_decl \<Rightarrow> (alloc_flow list \<times> link_util) res" where
  "read_var names x = (\<lambda>(flows, U) d.
     let varName = var_name (dv_var d) in
     if contains_str varName ''X'' then
       rbind (variable_name_to_index_tuple varName) (\<lambda>t.
         case t of
           Indices [flow_index, path_index] \<Rightarrow>
             rbind (py_nth flows flow_index) (\<lambda>fl.
               Inr (flows[nat flow_index := fl\<lparr>fl_splitting_ratio := fl_splitting_ratio fl @ [x (dv_var d)]\<rparr>], U))
         | _ \<Rightarrow> Inl ValueError)
     else if contains_str varName ''K'' then
       rbind (variable_name_to_index_tuple varName) (\<lambda>t.
         case t of
           Index link_index \<Rightarrow> rbind (dict_get names (nat link_index)) (\<lambda>l. Inr (flows, dict_set U l (x (dv_var d))))
         | _ \<Rightarrow> Inl TypeError)
     else Inr (flows, U))"

definition read_solution :: "(nat, fa_link) dict \<Rightarrow> lp_model \<Rightarrow> assignment \<Rightarrow> alloc_flow list \<Rightarrow> (alloc_flow list \<times> link_util) res" where
  "read_solution names m x flows = fold_res (read_var names x) (flows, []) (lp_vars m)"

text \<open>\<open>link_capacity_map\<close>: keyed by the edges as the graph lists them, charged under sorted links.\<close>

definition charge_flow :: "link_util \<Rightarrow> alloc_flow \<Rightarrow> link_util res" where
  "charge_flow util fl =
     fold_res (\<lambda>u (path, splitting_ratio). charge_links (splitting_ratio * fl_tx_rate fl) u (path_links path)) util
       (zip (fl_paths fl) (fl_splitting_ratio fl))"

definition link_capacity_map :: "fa_link list \<Rightarrow> alloc_flow list \<Rightarrow> link_util res" where
  "link_capacity_map edges flows = fold_res charge_flow (dict_of (map (\<lambda>e. (e, 0)) edges)) flows"

definition finish_ilp :: "fa_link list \<Rightarrow> lp_state \<Rightarrow> (alloc_flow list \<times> link_util) res" where
  "finish_ilp edges = (\<lambda>(flows, feasible_model). case feasible_model of
     None \<Rightarrow> Inr ([], [])
   | Some (m, x) \<Rightarrow>
       rbind (read_solution (enumerate 0 edges) m x flows) (\<lambda>(flows', U).
       rbind (link_capacity_map edges flows') (\<lambda>util. Inr (flows', util))))"

definition after_loop :: "('s \<Rightarrow> 'a res) \<Rightarrow> ('s \<times> 'r) res option \<Rightarrow> 'a res option" where
  "after_loop finish out = map_option (\<lambda>res. rbind res (\<lambda>(st, r). finish st)) out"

definition compute_ilp_flows ::
    "'r fa_env \<Rightarrow> solver \<Rightarrow> fa_node list \<Rightarrow> fa_link list \<Rightarrow> nat \<Rightarrow> 'r \<Rightarrow> (alloc_flow list \<times> link_util) res option" where
  "compute_ilp_flows env optimize graph_nodes graph_edges fuel r =
     after_loop (finish_ilp graph_edges)
       (admit_while (draw_flow env graph_nodes) (lp_admit (create_k_paths_model graph_edges) optimize) fuel ([], None) r)"

definition finish_path_hopping :: "fa_link list \<Rightarrow> lp_state \<Rightarrow> (alloc_flow list \<times> link_util) res" where
  "finish_path_hopping edges = (\<lambda>(flows, feasible_model). case feasible_model of
     None \<Rightarrow> Inr ([], [])
   | Some (m, x) \<Rightarrow> read_solution (enumerate 0 (map link_key edges)) m x flows)"

definition compute_path_hopping_flows_ilp ::
    "'r fa_env \<Rightarrow> solver \<Rightarrow> nat \<Rightarrow> fa_node list \<Rightarrow> fa_link list \<Rightarrow> nat \<Rightarrow> 'r \<Rightarrow> (alloc_flow list \<times> link_util) res option" where
  "compute_path_hopping_flows_ilp env optimize K graph_nodes graph_edges fuel r =
     after_loop (finish_path_hopping graph_edges)
       (admit_while (draw_flow env graph_nodes) (lp_admit (create_path_hopping_ilp_model K graph_edges) optimize) fuel ([], None) r)"

text \<open>
  \<open>testing_k_paths_flow_allocation\<close> calls the second definition of \<open>create_test_k_paths_model\<close> (it hides the first).
  That one accumulates under the last flow's index (\<open>flow_idnex\<close> is the loop variable), and its call
  \<open>addVar("alpha", lb=0.0, ub=1.0)\<close> gives the lower bound twice, a \<open>TypeError\<close>.
\<close>

definition test_use ::
    "(fa_link, nat) dict \<Rightarrow> nat \<Rightarrow> nat \<Rightarrow> (nat \<times> nat, lin_expr) dict \<Rightarrow> nat \<times> nat \<times> fa_link \<times> pyfloat \<Rightarrow> (nat \<times> nat, lin_expr) dict res" where
  "test_use links flow_index path_count Y_rhs = (\<lambda>(f, p, l, rate).
     rbind (dict_get links l) (\<lambda>link_index.
     rbind (dict_get Y_rhs (flow_index, link_index)) (\<lambda>e.
     if p < path_count then Inr (dict_set Y_rhs (flow_index, link_index) (e @ [(rate, VX flow_index p)]))
     else Inl KeyError)))"

definition create_test_k_paths_model :: "fa_link list \<Rightarrow> alloc_flow list \<Rightarrow> candidate \<Rightarrow> lp_model res" where
  "create_test_k_paths_model edges flows new =
     (let potential_flow_set = flows @ [unrouted new]; links = link_set edges;
          last_index = length flows; last_paths = length (fl_paths (unrouted new))
      in rbind (fold_res (test_use links last_index last_paths)
           (dict_of (map (\<lambda>fl. (fl, [])) (List.product [0..<length potential_flow_set] (dict_values links))))
           (concat (map path_uses (enumerate 0 potential_flow_set)))) (\<lambda>Y_rhs.
         Inl TypeError))"

definition draw_test_flow :: "'r fa_env \<Rightarrow> fa_node list \<Rightarrow> 'r \<Rightarrow> (candidate \<times> 'r) res" where
  "draw_test_flow env graph_nodes r =
     rbind (flow_selection_fn env r graph_nodes) (\<lambda>((source_node, destination_node), r1).
     Inr ((source_node, destination_node, 1 / 5, disjoint_paths env source_node destination_node), r1))"

definition testing_k_paths_flow_allocation ::
    "'r fa_env \<Rightarrow> solver \<Rightarrow> fa_node list \<Rightarrow> fa_link list \<Rightarrow> nat \<Rightarrow> 'r \<Rightarrow> (alloc_flow list \<times> link_util) res option" where
  "testing_k_paths_flow_allocation env optimize graph_nodes graph_edges fuel r =
     after_loop (finish_ilp graph_edges)
       (admit_while (draw_test_flow env graph_nodes) (lp_admit (create_test_k_paths_model graph_edges) optimize) fuel ([], None) r)"

subsection \<open>Reading a solution back\<close>

lemma read_var_X:
  "dv_var d = VX f p \<Longrightarrow> f < length flows \<Longrightarrow>
   read_var names x (flows, U) d =
     Inr (flows[f := (flows ! f)\<lparr>fl_splitting_ratio := fl_splitting_ratio (flows ! f) @ [x (VX f p)]\<rparr>], U)"
  using name_X [of "VX f p"] by (simp only: read_var_def prod.case Let_def index_of_X) simp

lemma read_var_K:
  "map_of names i = Some l \<Longrightarrow> read_var names x (flows, U) (addVar (VK i)) = Inr (flows, dict_set U l (x (VK i)))"
  using name_X [of "VK i"] name_K [of "VK i"]
  by (simp only: read_var_def prod.case Let_def addVar_def lp_decl.simps index_of_K) (simp add: dict_get_def)

lemma read_var_other:
  "(\<forall>f p. dv_var d \<noteq> VX f p) \<Longrightarrow> (\<forall>i. dv_var d \<noteq> VK i) \<Longrightarrow> read_var names x (flows, U) d = Inr (flows, U)"
  using name_X [of "dv_var d"] name_K [of "dv_var d"] by (simp add: read_var_def)

lemma read_others:
  "\<forall>d \<in> set ds. (\<forall>f p. dv_var d \<noteq> VX f p) \<and> (\<forall>i. dv_var d \<noteq> VK i) \<Longrightarrow>
   fold_res (read_var names x) (flows, U) ds = Inr (flows, U)"
  by (induction ds) (simp_all add: read_var_other)

lemma read_Ks:
  "set is \<subseteq> dom (map_of names) \<Longrightarrow>
   fold_res (read_var names x) (flows, U) (map (\<lambda>i. addVar (VK i)) is) =
     Inr (flows, fold (\<lambda>i U. dict_set U (the (map_of names i)) (x (VK i))) is U)"
proof (induction "is" arbitrary: U)
  case (Cons i "is")
  then obtain l where "map_of names i = Some l" by auto
  then show ?case using Cons read_var_K [of names i l x flows U] by simp
qed simp

text \<open>The laws of the splitting-ratio variables on which the two allocators agree.\<close>

locale ratio_bounds =
  fixes mkX :: "nat \<Rightarrow> nat \<Rightarrow> lp_decl"
  assumes var: "dv_var (mkX f p) = VX f p"
    and nonneg: "in_bounds (mkX f p) v \<Longrightarrow> 0 \<le> v"
begin

lemma read_Xs_of_flow:
  assumes "f < length flows"
  shows "fold_res (read_var names x) (flows, U) (map (mkX f) ps) =
     Inr (flows[f := (flows ! f)\<lparr>fl_splitting_ratio := fl_splitting_ratio (flows ! f) @ map (\<lambda>p. x (VX f p)) ps\<rparr>], U)"
  using assms by (induction ps arbitrary: flows) (simp_all add: read_var_X [OF var])

lemma read_Xs:
  assumes "\<forall>fl \<in> set todo. fl_splitting_ratio fl = []"
  shows "fold_res (read_var names x) (handled @ todo, U)
      (concat (map (\<lambda>(f, fl). map (mkX f) [0..<length (fl_paths fl)]) (enumerate (length handled) todo)))
    = Inr (handled @ map (routed x) (enumerate (length handled) todo), U)"
  using assms
proof (induction todo arbitrary: handled)
  case (Cons fl todo)
  let ?fl = "routed x (length handled, fl)"
  have "fold_res (read_var names x) (handled @ fl # todo, U) (map (mkX (length handled)) [0..<length (fl_paths fl)])
    = Inr ((handled @ [?fl]) @ todo, U)"
    using Cons.prems by (subst read_Xs_of_flow) (simp_all add: routed_def)
  then show ?case using Cons.IH [of "handled @ [?fl]"] Cons.prems by (simp add: fold_res_append)
qed simp

lemma read_solution_ok:
  assumes ok: "\<forall>fl \<in> set flows. fl_splitting_ratio fl = [] \<and> (\<forall>p \<in> set (fl_paths fl). set (path_links p) \<subseteq> link_key ` set edges)"
    and m: "paths_model mkX edges flows = Inr m"
    and names: "set (dict_values (link_set edges)) \<subseteq> dom (map_of names)"
  shows "read_solution names m x flows = Inr (map (routed x) (enumerate 0 flows),
    dict_of (map (\<lambda>i. (the (map_of names i), x (VK i))) (dict_values (link_set edges))))"
proof -
  let ?L = "link_set edges"
  from ok have "\<forall>fl \<in> set flows. \<forall>p \<in> set (fl_paths fl). set (path_links p) \<subseteq> link_key ` set edges" by blast
  from paths_model_total [OF this, of mkX] obtain Y U where Y: "link_portions ?L flows = Inr Y" "link_totals ?L (dict_keys Y) = Inr U" by metis
  let ?mid = "map (\<lambda>(f, l). addVar_unit (VY f l)) (List.product [0..<length flows] (dict_values ?L))
             @ map (\<lambda>(f, l). addVar_unit (VT f l)) (dict_keys Y) @ [addVar_unit VAlpha] @ map (\<lambda>l. addVar (VU l)) (dict_values ?L)"
  let ?Xs = "concat (map (\<lambda>(f, fl). map (mkX f) [0..<length (fl_paths fl)]) (enumerate 0 flows))"
  have vars: "lp_vars m = ?Xs @ ?mid @ map (\<lambda>l. addVar (VK l)) (dict_values ?L)"
    using m Y by (auto simp: paths_model_def flow_routing_def Let_def)
  have X: "fold_res (read_var names x) (flows, []) ?Xs = Inr (map (routed x) (enumerate 0 flows), [])"
    using read_Xs [of flows names x "[]" "[]"] ok by simp
  have mid: "fold_res (read_var names x) (fs, W) ?mid = Inr (fs, W)" for fs W
    by (rule read_others) (auto simp: addVar_unit_def addVar_def)
  have K: "fold (\<lambda>i U. dict_set U (the (map_of names i)) (x (VK i))) is [] = dict_of (map (\<lambda>i. (the (map_of names i), x (VK i))) is)" for "is"
    by (simp add: dict_of_def fold_map comp_def)
  show ?thesis
    unfolding read_solution_def vars fold_res_append [of _ _ ?Xs] X rbind_simps fold_res_append [of _ _ ?mid] mid read_Ks [OF names] K ..
qed

end

definition ph_decl :: "nat \<Rightarrow> nat \<Rightarrow> nat \<Rightarrow> lp_decl" where
  "ph_decl K f p = \<lparr>dv_var = VX f p, dv_type = SEMICONT, dv_lb = 1 / of_nat K, dv_ub = Some (1 / of_nat K)\<rparr>"

interpretation k_paths: ratio_bounds "\<lambda>f p. addVar_unit (VX f p)"
  by unfold_locales (auto simp: addVar_unit_def in_bounds_def)

interpretation path_hop: ratio_bounds "ph_decl K" for K
proof unfold_locales
  fix f p v
  assume "in_bounds (ph_decl K f p) v"
  moreover have "0 \<le> (1 / of_nat K :: rat)" by simp
  ultimately show "0 \<le> v" unfolding in_bounds_def ph_decl_def lp_decl.simps by (metis order.trans order_refl)
qed (simp add: ph_decl_def)

subsection \<open>Progress of the loop\<close>

definition lp_flow_ok :: "fa_link list \<Rightarrow> alloc_flow \<Rightarrow> bool" where
  "lp_flow_ok edges fl \<longleftrightarrow> fl_splitting_ratio fl = [] \<and> FLOW_TX_RATE_LOWER_BOUND \<le> fl_tx_rate fl \<and> fl_tx_rate fl \<le> FLOW_TX_RATE_UPPER_BOUND
   \<and> fl_paths fl \<noteq> [] \<and> (\<forall>p \<in> set (fl_paths fl). 2 \<le> length p \<and> set (path_links p) \<subseteq> link_key ` set edges)"

definition lp_inv :: "(nat \<Rightarrow> nat \<Rightarrow> lp_decl) \<Rightarrow> fa_link list \<Rightarrow> lp_state \<Rightarrow> bool" where
  "lp_inv mkX edges = (\<lambda>(flows, best). (\<forall>fl \<in> set flows. lp_flow_ok edges fl) \<and>
     (case best of None \<Rightarrow> flows = [] | Some (m, x) \<Rightarrow> paths_model mkX edges flows = Inr m \<and> feasible m x))"

definition total_rate :: "lp_state \<Rightarrow> pyfloat" where
  "total_rate st = sum_list (map fl_tx_rate (fst st))"

lemma candidate_unrouted: "candidate_ok edges c \<Longrightarrow> lp_flow_ok edges (unrouted c)"
  by (auto simp: candidate_ok_def lp_flow_ok_def unrouted_def)

lemma sum_count_list:
  "finite X \<Longrightarrow> set xs \<subseteq> X \<Longrightarrow> (\<Sum>l\<in>X. of_nat (count_list xs l) :: rat) = of_nat (length xs)"
proof (induction xs)
  case (Cons y xs)
  have "(\<Sum>l\<in>X. of_nat (count_list (y # xs) l) :: rat) = (\<Sum>l\<in>X. of_nat (count_list xs l) + (if l = y then 1 else 0))"
    by (rule sum.cong) auto
  also have "\<dots> = of_nat (length xs) + 1" using Cons by (simp add: sum.distrib)
  finally show ?case by simp
qed simp

text \<open>A flow loads the links by at least its rate, for its paths have a link each and its ratios sum to one.\<close>

lemma flow_load_total:
  fixes rate :: pyfloat
  assumes "finite X" and "\<forall>p \<in> set ps. 2 \<le> length p \<and> set (path_links p) \<subseteq> X" and "\<forall>r \<in> set rs. 0 \<le> r"
    and "0 \<le> rate" and "length rs = length ps"
  shows "sum_list rs * rate \<le> (\<Sum>l\<in>X. \<Sum>(p, r)\<leftarrow>zip ps rs. r * rate * of_nat (count_list (path_links p) l))"
  using assms(5,2,3)
proof (induction rs ps rule: list_induct2)
  case (Cons r rs p ps)
  have "1 \<le> (of_nat (length (path_links p)) :: rat)" using Cons.prems(1) by (simp add: path_links_def of_nat_diff)
  then have "r * rate * 1 \<le> r * rate * of_nat (length (path_links p))" using Cons.prems(2) assms(4) by (intro mult_left_mono) auto
  moreover have "(\<Sum>l\<in>X. r * rate * of_nat (count_list (path_links p) l)) = r * rate * of_nat (length (path_links p))"
    using Cons.prems(1) by (simp add: sum_count_list assms(1) flip: sum_distrib_left)
  moreover have "sum_list rs * rate \<le> (\<Sum>l\<in>X. \<Sum>(p, r)\<leftarrow>zip ps rs. r * rate * of_nat (count_list (path_links p) l))"
    using Cons.prems by (intro Cons.IH) auto
  ultimately show ?case by (simp add: sum.distrib algebra_simps)
qed simp

lemma sum_list_0_all: "\<forall>y \<in> set ys. y = (0 :: rat) \<Longrightarrow> sum_list ys = 0"
  by (induction ys) simp_all

lemma load_swap: "(\<Sum>fl\<leftarrow>fs. \<Sum>l\<in>S. flow_load fl l) = (\<Sum>l\<in>S. total_load fs l)"
  unfolding total_load_def by (induction fs) (simp_all add: sum.distrib)

context ratio_bounds
begin

lemma solution_ratios:
  assumes ok: "\<forall>fl \<in> set flows. lp_flow_ok edges fl" and m: "paths_model mkX edges flows = Inr m" "feasible m x"
  shows "\<forall>fl \<in> set (map (routed x) (enumerate 0 flows)). valid_flow edges fl"
proof
  fix fl assume "fl \<in> set (map (routed x) (enumerate 0 flows))"
  then obtain f where f: "f < length flows" "fl = routed x (f, flows ! f)" by (auto simp: in_set_enumerate_eq)
  have links: "\<forall>fl \<in> set flows. \<forall>p \<in> set (fl_paths fl). set (path_links p) \<subseteq> link_key ` set edges" using ok by (auto simp: lp_flow_ok_def)
  have "(\<Sum>p\<leftarrow>[0..<length (fl_paths (flows ! f))]. x (VX f p)) = 1"
    "\<forall>p < length (fl_paths (flows ! f)). in_bounds (mkX f p) (x (dv_var (mkX f p)))"
    using paths_model_sound(1) [OF links m] f(1) by blast+
  moreover have "lp_flow_ok edges (flows ! f)" using ok f(1) by simp
  ultimately show "valid_flow edges fl"
    using nonneg by (auto simp: valid_flow_def lp_flow_ok_def f(2) routed_def var)
qed

lemma rate_bounded:
  assumes "lp_inv mkX edges st"
  shows "total_rate st \<le> of_nat (length edges)"
proof -
  obtain flows best where st: "st = (flows, best)" by (cases st)
  show ?thesis
  proof (cases best)
    case None
    then show ?thesis using assms st by (simp add: lp_inv_def total_rate_def)
  next
    case (Some mx)
    obtain m x where mx: "mx = (m, x)" by (cases mx)
    have ok: "\<forall>fl \<in> set flows. lp_flow_ok edges fl" and m: "paths_model mkX edges flows = Inr m" "feasible m x"
      using assms st Some mx by (simp_all add: lp_inv_def)
    have links: "\<forall>fl \<in> set flows. \<forall>p \<in> set (fl_paths fl). set (path_links p) \<subseteq> link_key ` set edges" using ok by (auto simp: lp_flow_ok_def)
    let ?rs = "map (routed x) (enumerate 0 flows)"
    let ?S = "link_key ` set edges"
    have "fl_tx_rate fl \<le> (\<Sum>l\<in>?S. flow_load fl l)" if "fl \<in> set ?rs" for fl
    proof -
      have v: "valid_flow edges fl" using solution_ratios [OF ok m] that by blast
      then have "0 \<le> fl_tx_rate fl" by (simp add: valid_flow_def FLOW_TX_RATE_LOWER_BOUND_def)
      then have "sum_list (fl_splitting_ratio fl) * fl_tx_rate fl \<le> (\<Sum>l\<in>?S. flow_load fl l)"
        unfolding flow_load_def using v by (intro flow_load_total) (auto simp: valid_flow_def)
      then show ?thesis using v by (simp add: valid_flow_def)
    qed
    then have "sum_list (map fl_tx_rate ?rs) \<le> sum_list (map (\<lambda>fl. \<Sum>l\<in>?S. flow_load fl l) ?rs)" by (rule sum_list_mono)
    also have "\<dots> = (\<Sum>l\<in>?S. total_load ?rs l)" by (rule load_swap)
    also have "\<dots> \<le> (\<Sum>l\<in>?S. 1)"
    proof (rule sum_mono)
      fix l assume l: "l \<in> ?S"
      then obtain i where "map_of (link_set edges) l = Some i" using link_set_defined by blast
      then show "total_load ?rs l \<le> 1" using paths_model_sound(2,3) [OF links m] l by fastforce
    qed
    also have "\<dots> \<le> of_nat (length edges)" using card_image_le [of "set edges" link_key] card_length [of edges] by simp
    finally have "sum_list (map fl_tx_rate ?rs) \<le> of_nat (length edges)" .
    moreover have "map fl_tx_rate ?rs = map fl_tx_rate flows"
      by (rule nth_equalityI) (simp_all add: routed_def nth_enumerate_eq)
    ultimately show ?thesis by (simp only: total_rate_def st fst_conv)
  qed
qed

lemma lp_admission:
  assumes "solver_sound optimize"
  shows "admission (lp_admit (\<lambda>flows c. paths_model mkX edges (flows @ [unrouted c])) optimize)
    (lp_inv mkX edges) (candidate_ok edges) total_rate (of_nat (length edges))"
proof unfold_locales
  fix st c
  assume I: "lp_inv mkX edges st" and c: "candidate_ok edges c"
  obtain flows best where st: "st = (flows, best)" by (cases st)
  let ?fs = "flows @ [unrouted c]"
  have ok: "\<forall>fl \<in> set ?fs. lp_flow_ok edges fl" using I candidate_unrouted [OF c] st by (simp add: lp_inv_def)
  then have "\<forall>fl \<in> set ?fs. \<forall>p \<in> set (fl_paths fl). set (path_links p) \<subseteq> link_key ` set edges" by (auto simp: lp_flow_ok_def)
  then obtain m where m: "paths_model mkX edges ?fs = Inr m" using paths_model_total by metis
  show "\<exists>s' go. lp_admit (\<lambda>flows c. paths_model mkX edges (flows @ [unrouted c])) optimize st c = Inr (s', go)
      \<and> (go \<longrightarrow> lp_inv mkX edges s' \<and> total_rate st + 1 / 10 \<le> total_rate s')"
  proof (cases "optimize m")
    case None
    then show ?thesis using m st by (intro exI [of _ st] exI [of _ False]) (simp add: lp_admit_def)
  next
    case (Some x)
    then have "feasible m x" using assms by (simp add: solver_sound_def)
    then have "lp_inv mkX edges (?fs, Some (m, x))" using ok m by (simp add: lp_inv_def)
    moreover have "1 / 10 \<le> fl_tx_rate (unrouted c)" using ok by (simp add: lp_flow_ok_def FLOW_TX_RATE_LOWER_BOUND_def)
    ultimately show ?thesis using m st Some
      by (intro exI [of _ "(?fs, Some (m, x))"] exI [of _ True]) (simp add: lp_admit_def total_rate_def)
  qed
qed (rule rate_bounded)

end

subsection \<open>Recomputing the utilisation\<close>

lemma charge_links_ok:
  "set ls \<subseteq> set (dict_keys util) \<Longrightarrow> \<exists>util'. charge_links rate util ls = Inr util' \<and> grown rate util util' ls"
proof (induction ls arbitrary: util)
  case Nil
  then show ?case using grown_refl by (simp add: charge_links_def)
next
  case (Cons l ls)
  from Cons.prems have "l \<in> set (dict_keys util)" by simp
  then obtain y where y: "map_of util l = Some y" by (elim keys_lookup [THEN exE])
  note g = grown_step [OF y, of rate]
  have "dict_keys (dict_set util l (y + rate)) = dict_keys util" using g by (simp only: grown_def)
  then have "set ls \<subseteq> set (dict_keys (dict_set util l (y + rate)))" using Cons.prems by (simp only: set_simps) blast
  from Cons.IH [OF this] obtain util' where "charge_links rate (dict_set util l (y + rate)) ls = Inr util'"
    "grown rate (dict_set util l (y + rate)) util' ls" by blast
  then show ?case using grown_trans [OF g] y by (intro exI [of _ util']) (simp add: charge_links_def dict_get_def)
qed

lemma charge_flow_ok:
  assumes "\<forall>p \<in> set (fl_paths fl). set (path_links p) \<subseteq> set (dict_keys util)"
  shows "\<exists>util'. charge_flow util fl = Inr util' \<and> dict_keys util' = dict_keys util \<and> (\<forall>l. util_at util' l = util_at util l + flow_load fl l)"
proof -
  have "\<exists>util'. fold_res (\<lambda>u (path, splitting_ratio). charge_links (splitting_ratio * fl_tx_rate fl) u (path_links path)) util (zip ps rs) = Inr util'
      \<and> dict_keys util' = dict_keys util
      \<and> (\<forall>l. util_at util' l = util_at util l + (\<Sum>(p, x)\<leftarrow>zip ps rs. x * fl_tx_rate fl * of_nat (count_list (path_links p) l)))"
    if "\<forall>p \<in> set ps. set (path_links p) \<subseteq> set (dict_keys util)" for ps rs and util :: link_util
    using that
  proof (induction ps arbitrary: rs util)
    case (Cons p ps)
    show ?case
    proof (cases rs)
      case (Cons r rs')
      have "set (path_links p) \<subseteq> set (dict_keys util)" using Cons.prems by simp
      from charge_links_ok [OF this, of "r * fl_tx_rate fl"] obtain u1 where
        u1: "charge_links (r * fl_tx_rate fl) util (path_links p) = Inr u1" "dict_keys u1 = dict_keys util"
          "\<And>l. util_at u1 l = util_at util l + r * fl_tx_rate fl * of_nat (count_list (path_links p) l)" unfolding grown_def by blast
      have "\<forall>p \<in> set ps. set (path_links p) \<subseteq> set (dict_keys u1)" unfolding u1(2) using Cons.prems by simp
      from Cons.IH [OF this, of rs'] obtain u2 where
        "fold_res (\<lambda>u (path, splitting_ratio). charge_links (splitting_ratio * fl_tx_rate fl) u (path_links path)) u1 (zip ps rs') = Inr u2"
        "dict_keys u2 = dict_keys u1"
        "\<And>l. util_at u2 l = util_at u1 l + (\<Sum>(p, x)\<leftarrow>zip ps rs'. x * fl_tx_rate fl * of_nat (count_list (path_links p) l))" by blast
      then show ?thesis using u1 Cons by (intro exI [of _ u2]) simp
    qed simp
  qed simp
  from this [OF assms, of "fl_splitting_ratio fl"] show ?thesis unfolding charge_flow_def flow_load_def by blast
qed

lemma link_capacity_map_ok:
  assumes "\<forall>e \<in> set edges. link_key e = e" and "\<forall>fl \<in> set flows. \<forall>p \<in> set (fl_paths fl). set (path_links p) \<subseteq> link_key ` set edges"
  shows "\<exists>util. link_capacity_map edges flows = Inr util \<and> (\<forall>l. util_at util l = total_load flows l)"
proof -
  have "\<exists>util'. fold_res charge_flow util flows = Inr util' \<and> (\<forall>l. util_at util' l = util_at util l + total_load flows l)"
    if "\<forall>fl \<in> set flows. \<forall>p \<in> set (fl_paths fl). set (path_links p) \<subseteq> set (dict_keys util)" for util
    using that
  proof (induction flows arbitrary: util)
    case (Cons fl flows)
    then have "\<forall>p \<in> set (fl_paths fl). set (path_links p) \<subseteq> set (dict_keys util)" by simp
    from charge_flow_ok [OF this] obtain u1 where
      u1: "charge_flow util fl = Inr u1" "dict_keys u1 = dict_keys util" "\<And>l. util_at u1 l = util_at util l + flow_load fl l" by blast
    have "\<forall>fl \<in> set flows. \<forall>p \<in> set (fl_paths fl). set (path_links p) \<subseteq> set (dict_keys u1)" unfolding u1(2) using Cons.prems by simp
    from Cons.IH [OF this] obtain u2 where "fold_res charge_flow u1 flows = Inr u2" "\<And>l. util_at u2 l = util_at u1 l + total_load flows l" by blast
    then show ?case using u1 by (intro exI [of _ u2]) (simp add: total_load_def)
  qed (simp add: total_load_def)
  moreover have "set (dict_keys (dict_of (map (\<lambda>e. (e, 0 :: pyfloat)) edges))) = link_key ` set edges"
    unfolding set_keys_dict_of using assms(1) by force
  moreover have "util_at (dict_of (map (\<lambda>e. (e, 0)) edges)) l = 0" for l
    unfolding util_at_def dict_get_default_def map_of_dict_of by (auto split: option.splits dest!: map_of_SomeD)
  ultimately show ?thesis using assms(2) unfolding link_capacity_map_def by (metis add_0)
qed

context ratio_bounds
begin

lemma allocation_loop:
  assumes env: "fa_env_ok env graph_nodes edges" and sound: "solver_sound optimize" and fuel: "10 * length edges < fuel"
  shows "\<exists>st r'. admit_while (draw_flow env graph_nodes) (lp_admit (\<lambda>flows c. paths_model mkX edges (flows @ [unrouted c])) optimize) fuel ([], None) r
      = Some (Inr (st, r')) \<and> lp_inv mkX edges st"
proof -
  let ?admit = "lp_admit (\<lambda>flows c. paths_model mkX edges (flows @ [unrouted c])) optimize"
  note adm = lp_admission [OF sound, of edges]
  have I0: "lp_inv mkX edges ([], None)" by (simp add: lp_inv_def)
  have "10 * (of_nat (length edges) - total_rate ([], None)) < (of_nat fuel :: rat)"
    using fuel by (simp add: total_rate_def)
  from admission.loop_returns [where draw = "draw_flow env graph_nodes" and r = r, OF adm I0 draw_flow_ok [OF env] this] obtain st r' where
    run: "admit_while (draw_flow env graph_nodes) ?admit fuel ([], None) r = Some (Inr (st, r'))" by blast
  have "lp_inv mkX edges st"
  proof (rule admit_while_inv [where I = "lp_inv mkX edges" and C = "candidate_ok edges", OF run I0])
    show "\<And>r c r'. draw_flow env graph_nodes r = Inr (c, r') \<Longrightarrow> candidate_ok edges c" using draw_flow_only_ok [OF env] by blast
    show "\<And>s c s'. lp_inv mkX edges s \<Longrightarrow> candidate_ok edges c \<Longrightarrow> ?admit s c = Inr (s', True) \<Longrightarrow> lp_inv mkX edges s'"
      using admission.admits [OF adm] by fastforce
    show "\<And>s c s'. lp_inv mkX edges s \<Longrightarrow> candidate_ok edges c \<Longrightarrow> ?admit s c = Inr (s', False) \<Longrightarrow> lp_inv mkX edges s'"
      by (auto simp: lp_admit_def rbind_Inr_iff split: option.splits)
  qed
  with run show ?thesis by blast
qed

text \<open>What the loop leaves is either nothing or a set of flows with a solution that routes them all.\<close>

lemma allocation_cases:
  assumes "lp_inv mkX edges (flows, best)"
  obtains (none) "best = None" "flows = []"
    | (some) m x where "best = Some (m, x)"
        "\<And>names. set (dict_values (link_set edges)) \<subseteq> dom (map_of names) \<Longrightarrow>
          read_solution names m x flows = Inr (map (routed x) (enumerate 0 flows),
            dict_of (map (\<lambda>i. (the (map_of names i), x (VK i))) (dict_values (link_set edges))))"
        "\<forall>fl \<in> set (map (routed x) (enumerate 0 flows)). valid_flow edges fl"
        "\<forall>fl \<in> set (map (routed x) (enumerate 0 flows)). \<forall>v \<in> set (fl_splitting_ratio fl). \<exists>f p. in_bounds (mkX f p) v"
        "\<And>l i. map_of (link_set edges) l = Some i \<Longrightarrow>
           total_load (map (routed x) (enumerate 0 flows)) l \<le> x (VK i) \<and> x (VK i) \<le> 1"
proof (cases best)
  case None
  then show thesis using assms none by (simp add: lp_inv_def)
next
  case (Some mx)
  obtain m x where mx: "mx = (m, x)" by (cases mx)
  have ok: "\<forall>fl \<in> set flows. lp_flow_ok edges fl" and m: "paths_model mkX edges flows = Inr m" "feasible m x"
    using assms Some mx by (simp_all add: lp_inv_def)
  have links: "\<forall>fl \<in> set flows. \<forall>p \<in> set (fl_paths fl). set (path_links p) \<subseteq> link_key ` set edges"
    and ok': "\<forall>fl \<in> set flows. fl_splitting_ratio fl = [] \<and> (\<forall>p \<in> set (fl_paths fl). set (path_links p) \<subseteq> link_key ` set edges)"
    using ok by (auto simp: lp_flow_ok_def)
  note sound = paths_model_sound [OF links m]
  have "total_load (map (routed x) (enumerate 0 flows)) l \<le> x (VK i) \<and> x (VK i) \<le> 1" if l: "map_of (link_set edges) l = Some i" for l i
  proof -
    have "l \<in> link_key ` set edges" using link_set_Some [OF l] by (metis imageI nth_mem)
    then show ?thesis using sound(2,3) l by fastforce
  qed
  moreover have "\<exists>f p. in_bounds (mkX f p) v"
    if "fl \<in> set (map (routed x) (enumerate 0 flows))" "v \<in> set (fl_splitting_ratio fl)" for fl v
  proof -
    from that obtain f p where "f < length flows" "p < length (fl_paths (flows ! f))" "v = x (VX f p)"
      by (auto simp: in_set_enumerate_eq routed_def)
    then show ?thesis using sound(1) var by metis
  qed
  ultimately show thesis using some [of m x] Some mx read_solution_ok [OF ok' m(1)] solution_ratios [OF ok m] by blast
qed

end

subsection \<open>Properties\<close>

lemma create_k_paths_model_eq: "create_k_paths_model edges = (\<lambda>flows c. paths_model (\<lambda>f p. addVar_unit (VX f p)) edges (flows @ [unrouted c]))"
  by (intro ext) (simp add: create_k_paths_model_def)

lemma create_path_hopping_eq:
  "0 < K \<Longrightarrow> create_path_hopping_ilp_model K edges = (\<lambda>flows c. paths_model (ph_decl K) edges (flows @ [unrouted c]))"
  by (intro ext) (simp add: create_path_hopping_ilp_model_def ph_decl_def [abs_def])

lemma link_set_names: "set (dict_values (link_set edges)) \<subseteq> dom (map_of (enumerate 0 (map g edges)))"
proof
  fix i assume "i \<in> set (dict_values (link_set edges))"
  then have "i < length edges" using link_set_values link_set_Some by blast
  then have "(i, g (edges ! i)) \<in> set (enumerate 0 (map g edges))" by (simp add: in_set_enumerate_eq)
  then show "i \<in> dom (map_of (enumerate 0 (map g edges)))" unfolding dom_map_of_conv_image_fst by (metis fst_conv imageI)
qed

definition no_solution :: solver where
  "no_solution m = None"

lemma no_solution_sound: "solver_sound no_solution"
  by (simp add: solver_sound_def no_solution_def)

lemma ilp_allocation_holds:
  assumes "fa_env_ok env graph_nodes edges" and "solver_sound optimize"
    and "\<forall>e \<in> set edges. link_key e = e" and "10 * length edges < fuel"
  shows "\<exists>flows util. compute_ilp_flows env optimize graph_nodes edges fuel r = Some (Inr (flows, util))
    \<and> (\<forall>f \<in> set flows. valid_flow edges f) \<and> (\<forall>l. util_at util l = total_load flows l \<and> util_at util l \<le> LINK_CAPACITY)"
proof -
  from k_paths.allocation_loop [OF assms(1,2,4), of r] obtain flows best r' where
    run: "admit_while (draw_flow env graph_nodes) (lp_admit (create_k_paths_model edges) optimize) fuel ([], None) r = Some (Inr ((flows, best), r'))"
    and inv: "lp_inv (\<lambda>f p. addVar_unit (VX f p)) edges (flows, best)" unfolding create_k_paths_model_eq by auto
  have out: "compute_ilp_flows env optimize graph_nodes edges fuel r = Some (finish_ilp edges (flows, best))"
    by (simp add: compute_ilp_flows_def run after_loop_def)
  from inv show ?thesis
  proof (cases rule: k_paths.allocation_cases)
    case none
    then show ?thesis using out by (simp add: finish_ilp_def util_at_def dict_get_default_def total_load_def LINK_CAPACITY_def)
  next
    case (some m x)
    let ?fs = "map (routed x) (enumerate 0 flows)"
    have names: "set (dict_values (link_set edges)) \<subseteq> dom (map_of (enumerate 0 edges))" using link_set_names [of edges id] by simp
    have links: "\<forall>fl \<in> set ?fs. \<forall>p \<in> set (fl_paths fl). set (path_links p) \<subseteq> link_key ` set edges"
      using some(3) unfolding valid_flow_def by blast
    from link_capacity_map_ok [OF assms(3) this] obtain util where
      util: "link_capacity_map edges ?fs = Inr util" "\<And>l. util_at util l = total_load ?fs l" by blast
    have "util_at util l \<le> LINK_CAPACITY" for l
    proof (cases "map_of (link_set edges) l")
      case None
      then have "l \<notin> link_key ` set edges" using link_set_defined by fastforce
      then have zero: "count_list (path_links p) l = 0" if "fl \<in> set ?fs" "p \<in> set (fl_paths fl)" for fl p
        using links that by (meson count_list_0_iff subsetD)
      then have "flow_load fl l = 0" if "fl \<in> set ?fs" for fl
      proof -
        have "v * fl_tx_rate fl * of_nat (count_list (path_links p) l) = 0" if "(p, v) \<in> set (zip (fl_paths fl) (fl_splitting_ratio fl))" for p v
          using zero \<open>fl \<in> set ?fs\<close> set_zip_leftD [OF that] by simp
        then show ?thesis unfolding flow_load_def by (intro sum_list_0_all) auto
      qed
      then show ?thesis unfolding util(2) total_load_def LINK_CAPACITY_def by (subst sum_list_0_all) auto
    next
      case (Some i)
      then show ?thesis using some(5) [OF Some] unfolding util(2) LINK_CAPACITY_def by simp
    qed
    moreover have "finish_ilp edges (flows, best) = Inr (?fs, util)"
      using some(1) some(2) [OF names] util(1) by (simp add: finish_ilp_def)
    ultimately show ?thesis using out some(3) util(2) by (intro exI [of _ ?fs] exI [of _ util]) simp
  qed
qed



lemma semicontinuous_ratio: "in_bounds (ph_decl K f p) v \<Longrightarrow> v = 0 \<or> v = 1 / of_nat K"
  by (auto simp: in_bounds_def ph_decl_def)

lemma equal_ratios_count:
  fixes vs :: "pyfloat list"
  assumes "\<forall>v \<in> set vs. v = 0 \<or> v = 1 / of_nat K" and "sum_list vs = 1" and "0 < K"
  shows "length (filter (\<lambda>v. v \<noteq> 0) vs) = K"
proof -
  have "sum_list vs = of_nat (length (filter (\<lambda>v. v \<noteq> 0) vs)) / (of_nat K :: rat)"
    using assms(1) by (induction vs) (auto simp: add_divide_distrib)
  then have "of_nat (length (filter (\<lambda>v. v \<noteq> 0) vs)) = (of_nat K :: rat)" using assms(2,3) by (simp add: field_simps)
  then show ?thesis by (simp only: of_nat_eq_iff)
qed

lemma solution_utilisation:
  assumes "map_of (link_set edges) l = Some i"
  shows "util_at (dict_of (map (\<lambda>i. (the (map_of (enumerate 0 (map link_key edges)) i), x (VK i))) (dict_values (link_set edges)))) l = x (VK i)"
proof -
  let ?names = "enumerate 0 (map link_key edges)"
  let ?items = "map (\<lambda>i. (the (map_of ?names i), x (VK i))) (dict_values (link_set edges))"
  have nm: "map_of ?names j = Some (link_key (edges ! j))" if "j < length edges" for j
    using that by (intro map_of_is_SomeI) (simp_all add: in_set_enumerate_eq)
  have key: "the (map_of ?names j) = k" if "map_of (link_set edges) k = Some j" for j k
    using link_set_Some [OF that] nm [of j] by (metis option.sel)
  have i: "i \<in> set (dict_values (link_set edges))" using assms link_set_values by blast
  have "(l, x (VK i)) \<in> set ?items" using i key [OF assms] by force
  then have "l \<in> set (map fst (rev ?items))" by force
  then obtain v where v: "map_of (rev ?items) l = Some v" by (elim keys_lookup [THEN exE])
  then have "(l, v) \<in> set ?items" using map_of_SomeD [OF v] by (simp only: set_rev)
  then obtain j where j': "j \<in> set (dict_values (link_set edges))" "(l, v) = (the (map_of ?names j), x (VK j))"
    unfolding set_map [of _ "dict_values (link_set edges)"] by (elim imageE)
  then have j: "j \<in> set (dict_values (link_set edges))" "the (map_of ?names j) = l" "v = x (VK j)" by (simp_all only: prod.inject)
  from j(1) obtain k where "map_of (link_set edges) k = Some j" using link_set_values by blast
  then have "map_of (link_set edges) l = Some j" using key j(2) by auto
  then show ?thesis using assms v j(3) by (simp add: util_at_def dict_get_default_def map_of_dict_of)
qed



definition ex_slack :: assignment where
  "ex_slack v = (case v of VX _ _ \<Rightarrow> 1 | VT f l \<Rightarrow> (if l = 0 then 1 / 10 else 0) | VU l \<Rightarrow> (if l = 1 then 1 / 10 else 0)
     | VK _ \<Rightarrow> 1 / 10 | VAlpha \<Rightarrow> 1 / 10 | _ \<Rightarrow> 0)"

definition ex_slack_model :: "lp_model res" where
  "ex_slack_model = create_path_hopping_ilp_model 1 [(1, 2), (2, 3)] [] (1, 2, 1 / 10, [[1, 2]])"

text \<open>
  The utilisation the path-hopping allocation reports can overstate the load even for an optimal
  solution.  The variables \<open>Y\<close> and \<open>U\<close> stay in the sums they were meant to stand for; here an optimal
  solution for one flow over the link \<open>(1, 2)\<close> gives the unused link \<open>(2, 3)\<close> the utilisation \<open>1/10\<close>.
\<close>

theorem path_hopping_utilisation_overstated:
  "\<exists>m flows util. ex_slack_model = Inr m \<and> feasible m ex_slack \<and> (\<forall>x. feasible m x \<longrightarrow> ex_slack VAlpha \<le> x VAlpha)
    \<and> finish_path_hopping [(1, 2), (2, 3)] ([unrouted (1, 2, 1 / 10, [[1, 2]])], Some (m, ex_slack)) = Inr (flows, util)
    \<and> util_at util (2, 3) = 1 / 10 \<and> total_load flows (2, 3) = 0"
proof -
  let ?fl = "unrouted (1, 2, 1 / 10, [[1, 2]])"
  let ?edges = "[(1, 2), (2, 3)] :: fa_link list"
  have "case ex_slack_model of Inl _ \<Rightarrow> False | Inr m \<Rightarrow> feasible m ex_slack \<and>
     (case finish_path_hopping ?edges ([?fl], Some (m, ex_slack)) of Inl _ \<Rightarrow> False
      | Inr (flows, util) \<Rightarrow> util_at util (2, 3) = 1 / 10 \<and> total_load flows (2, 3) = 0)"
    by code_simp
  then obtain m flows util where m: "ex_slack_model = Inr m" "feasible m ex_slack"
    "finish_path_hopping ?edges ([?fl], Some (m, ex_slack)) = Inr (flows, util)"
    "util_at util (2, 3) = 1 / 10" "total_load flows (2, 3) = 0" by (auto split: sum.splits)
  have pm: "paths_model (ph_decl 1) ?edges [?fl] = Inr m"
    using m(1) by (simp add: ex_slack_model_def create_path_hopping_eq)
  have links: "\<forall>fl \<in> set [?fl]. \<forall>p \<in> set (fl_paths fl). set (path_links p) \<subseteq> link_key ` set ?edges"
    by (simp add: unrouted_def path_links_def link_key_def)
  have "ex_slack VAlpha \<le> x VAlpha" if "feasible m x" for x
  proof -
    note s = paths_model_sound [OF links pm that]
    have "x (VX 0 0) = 1" using s(1) by (simp add: unrouted_def)
    then have "total_load (map (routed x) (enumerate 0 [?fl])) (1, 2) = 1 / 10"
      by (simp add: total_load_def flow_load_def routed_def unrouted_def path_links_def link_key_def)
    moreover have "map_of (link_set ?edges) (1, 2) = Some 0" by code_simp
    moreover have "(1, 2) \<in> link_key ` set ?edges" by (simp add: link_key_def)
    ultimately have "1 / 10 \<le> x VAlpha" using s(2) by fastforce
    then show ?thesis by (simp add: ex_slack_def)
  qed
  then show ?thesis using m by (intro exI [of _ m] exI [of _ flows] exI [of _ util]) simp
qed

lemma testing_k_paths_always_raises:
  "\<exists>e. testing_k_paths_flow_allocation env optimize graph_nodes graph_edges (Suc fuel) r = Some (Inl e)"
proof -
  let ?admit = "lp_admit (create_test_k_paths_model graph_edges) optimize"
  have "\<exists>e. ?admit ([], None) c = Inl e" for c
  proof -
    have "\<exists>e. create_test_k_paths_model graph_edges [] c = Inl e"
      by (simp add: create_test_k_paths_model_def Let_def rbind_def split: sum.splits)
    then obtain e where "create_test_k_paths_model graph_edges [] c = Inl e" by blast
    then show ?thesis by (simp add: lp_admit_def)
  qed
  then have admit: "\<exists>e. ?admit ([], None) c = Inl e" for c by blast
  have "\<exists>e. admit_while (draw_test_flow env graph_nodes) ?admit (Suc fuel) ([], None) r = Some (Inl e)"
  proof (cases "draw_test_flow env graph_nodes r")
    case (Inr cr)
    obtain c r' where "cr = (c, r')" by (cases cr)
    moreover obtain e where "?admit ([], None) c = Inl e" using admit by blast
    ultimately show ?thesis using Inr by simp
  qed simp
  then show ?thesis by (auto simp: testing_k_paths_flow_allocation_def after_loop_def simp del: admit_while.simps)
qed

text \<open>
  \<open>testing_k_paths_flow_allocation\<close> never returns an allocation: whatever the first candidate
  and the solver are, building its model raises (\<open>TypeError\<close> at the latest).
\<close>

theorem testing_k_paths_raises:
  "\<exists>e. testing_k_paths_flow_allocation env optimize graph_nodes graph_edges (Suc fuel) r = Some (Inl e)"
  by (rule testing_k_paths_always_raises)

end
