(* ===== verification/Mcf_Routes.thy ===== *)
theory Mcf_Routes
  imports Flow_Allocation
begin

section \<open>Routes of a multi-commodity flow\<close>

text \<open>
  Models \<open>traverse_graph_iterative\<close>, \<open>traverse_graph\<close>, \<open>do_f_sanity_checks\<close> and \<open>compute_mcf_flow_routes\<close> of
  \<open>rest_client/path_hopping/flow_allocation.py\<close>, which turn the per-link portions of a solved
  multi-commodity flow into paths with splitting ratios.  \<open>F\<close> maps a flow index and a directed link to
  the portion of the flow on it.  The work-list loop is a terminating function: every path taken
  from the list is replaced by at most as many as there are links, each with one more node.
\<close>

type_synonym mcf_alloc = "(nat \<times> fa_node \<times> fa_node, pyfloat) dict"
type_synonym routed = "fa_node list \<times> pyfloat"

subsection \<open>The work-list traversal\<close>

definition get_paths_for_flow :: "mcf_alloc \<Rightarrow> fa_node \<Rightarrow> nat \<Rightarrow> ((fa_node \<times> fa_node) \<times> pyfloat) list" where
  "get_paths_for_flow F s f =
     map (\<lambda>((i, u, v), x). ((u, v), x)) (filter (\<lambda>((i, u, v), x). i = f \<and> u = s \<and> 1 / 1000 < x) F)"

definition extensions :: "mcf_alloc \<Rightarrow> nat \<Rightarrow> routed \<Rightarrow> routed list" where
  "extensions F f = (\<lambda>(p, sr).
     map (\<lambda>((u, v), x). (p @ [v], if x < sr then x else sr))
       (filter (\<lambda>((u, v), x). v \<notin> set p) (get_paths_for_flow F (last p) f)))"

definition mcf_targets :: "mcf_alloc \<Rightarrow> fa_node set" where
  "mcf_targets F = (\<lambda>((i, u, v), x). v) ` set F"

definition traverse_measure :: "mcf_alloc \<Rightarrow> routed list \<Rightarrow> nat" where
  "traverse_measure F todo = (\<Sum>(p, sr)\<leftarrow>todo. Suc (length F) ^ card (mcf_targets F - set p))"

lemma extensions_length: "length (extensions F f pr) \<le> length F"
proof -
  obtain p sr where "pr = (p, sr)" by (cases pr)
  moreover have "length (get_paths_for_flow F (last p) f) \<le> length F" by (simp add: get_paths_for_flow_def)
  ultimately show ?thesis by (simp add: extensions_def) (meson le_trans length_filter_le)
qed

lemma extensions_in:
  assumes "(q, sr') \<in> set (extensions F f (p, sr))"
  obtains v x where "q = p @ [v]" "sr' = min sr x" "v \<notin> set p" "((f, last p, v), x) \<in> set F" "1 / 1000 < x"
proof -
  have m: "(if x < sr then x else sr) = min sr x" for x by (simp add: min_def)
  from assms obtain v x where "q = p @ [v]" "sr' = (if x < sr then x else sr)" "v \<notin> set p"
    "((f, last p, v), x) \<in> set F" "1 / 1000 < x" by (auto simp: extensions_def get_paths_for_flow_def)
  then show thesis using that m by simp
qed

lemma finite_targets: "finite (mcf_targets F)"
  by (simp add: mcf_targets_def)

lemma extensions_measure:
  "traverse_measure F (extensions F f (p, sr)) < Suc (length F) ^ card (mcf_targets F - set p)"
proof (cases "extensions F f (p, sr) = []")
  case True
  then show ?thesis by (simp add: traverse_measure_def)
next
  case False
  let ?B = "Suc (length F)" and ?c = "card (mcf_targets F - set p)"
  have step: "card (mcf_targets F - set q) = ?c - 1 \<and> 0 < ?c" if q: "(q, sr') \<in> set (extensions F f (p, sr))" for q sr'
    using q
  proof (rule extensions_in)
    fix v x
    assume h: "q = p @ [v]" "v \<notin> set p" "((f, last p, v), x) \<in> set F"
    have v: "v \<in> mcf_targets F - set p" using h(2,3) by (force simp: mcf_targets_def)
    have "mcf_targets F - set q = (mcf_targets F - set p) - {v}" using h(1) by auto
    then show ?thesis using v finite_targets [of F] by (simp add: card_gt_0_iff) blast
  qed
  from False obtain q0 sr0 where "(q0, sr0) \<in> set (extensions F f (p, sr))"
    by (cases "extensions F f (p, sr)") auto
  then have c: "0 < ?c" using step by blast
  have "traverse_measure F (extensions F f (p, sr)) = (\<Sum>_\<leftarrow>extensions F f (p, sr). ?B ^ (?c - 1))"
    unfolding traverse_measure_def using step by (intro arg_cong [where f = sum_list] map_cong) auto
  also have "\<dots> = length (extensions F f (p, sr)) * ?B ^ (?c - 1)" by (simp add: sum_list_triv)
  also have "\<dots> \<le> length F * ?B ^ (?c - 1)" by (intro mult_le_mono1 extensions_length)
  also have "\<dots> < ?B * ?B ^ (?c - 1)" by simp
  also have "\<dots> = ?B ^ ?c" using c by (metis Suc_pred' power_Suc)
  finally show ?thesis .
qed

lemma traverse_measure_append: "traverse_measure F (xs @ ys) = traverse_measure F xs + traverse_measure F ys"
  by (simp add: traverse_measure_def)

lemma traverse_measure_filter: "traverse_measure F (filter P xs) \<le> traverse_measure F xs"
  by (induction xs) (auto simp: traverse_measure_def)

function traverse_loop :: "mcf_alloc \<Rightarrow> nat \<Rightarrow> fa_node \<Rightarrow> routed list \<Rightarrow> routed list \<Rightarrow> routed list" where
  "traverse_loop F f t [] paths_from_s_to_t = paths_from_s_to_t"
| "traverse_loop F f t (current # incomplete_paths) paths_from_s_to_t =
     (let new = extensions F f current
      in traverse_loop F f t (incomplete_paths @ filter (\<lambda>(p, sr). last p \<noteq> t) new)
           (paths_from_s_to_t @ filter (\<lambda>(p, sr). last p = t) new))"
  by pat_completeness auto

termination
proof (relation "measure (\<lambda>(F, f, t, todo, acc). traverse_measure F todo)")
  fix F f t and current :: routed and rest acc new
  assume "new = extensions F f current"
  obtain p sr where c: "current = (p, sr)" by (cases current)
  have "traverse_measure F (filter (\<lambda>(p, sr). last p \<noteq> t) (extensions F f (p, sr))) < Suc (length F) ^ card (mcf_targets F - set p)"
    using le_less_trans [OF traverse_measure_filter extensions_measure] .
  then show "((F, f, t, rest @ filter (\<lambda>(p, sr). last p \<noteq> t) new, acc @ filter (\<lambda>(p, sr). last p = t) new),
      F, f, t, current # rest, acc) \<in> measure (\<lambda>(F, f, t, todo, acc). traverse_measure F todo)"
    using \<open>new = _\<close> c by (simp add: traverse_measure_append) (simp add: traverse_measure_def)
qed simp

definition traverse_graph_iterative :: "mcf_alloc \<Rightarrow> nat \<Rightarrow> fa_node \<Rightarrow> fa_node \<Rightarrow> routed list" where
  "traverse_graph_iterative F f s t = traverse_loop F f t [([s], 1)] []"


subsection \<open>The routes it finds\<close>

text \<open>
  The declarative counterpart: \<open>mcf_walk F f u ms xs\<close> says that the nodes \<open>ms\<close> continue from \<open>u\<close> over links
  that carry portions \<open>xs\<close> of the flow.
\<close>

definition mcf_hop :: "mcf_alloc \<Rightarrow> nat \<Rightarrow> fa_node \<Rightarrow> fa_node \<Rightarrow> pyfloat \<Rightarrow> bool" where
  "mcf_hop F f u v x \<longleftrightarrow> ((f, u, v), x) \<in> set F \<and> 1 / 1000 < x"

fun mcf_walk :: "mcf_alloc \<Rightarrow> nat \<Rightarrow> fa_node \<Rightarrow> fa_node list \<Rightarrow> pyfloat list \<Rightarrow> bool" where
  "mcf_walk F f u [] [] \<longleftrightarrow> True"
| "mcf_walk F f u (v # ms) (x # xs) \<longleftrightarrow> mcf_hop F f u v x \<and> mcf_walk F f v ms xs"
| "mcf_walk F f u _ _ \<longleftrightarrow> False"

definition completes :: "mcf_alloc \<Rightarrow> nat \<Rightarrow> fa_node \<Rightarrow> routed \<Rightarrow> routed \<Rightarrow> bool" where
  "completes F f t = (\<lambda>(p, r) (q, r'). \<exists>ms xs. ms \<noteq> [] \<and> q = p @ ms \<and> last ms = t \<and> distinct q
     \<and> mcf_walk F f (last p) ms xs \<and> r' = fold min xs r)"

lemma extensions_iff:
  "(q, r') \<in> set (extensions F f (p, r)) \<longleftrightarrow>
     (\<exists>v x. q = p @ [v] \<and> r' = min x r \<and> v \<notin> set p \<and> mcf_hop F f (last p) v x)"
proof -
  have "(if x < r then x else r) = min x r" for x by (auto simp: min_def)
  then show ?thesis by (auto simp: extensions_def get_paths_for_flow_def mcf_hop_def image_iff)
qed

lemma completes_step:
  assumes "distinct p"
  shows "completes F f t (p, r) (q, r') \<longleftrightarrow>
    (\<exists>p1 r1. (p1, r1) \<in> set (extensions F f (p, r)) \<and>
       (if last p1 = t then (q, r') = (p1, r1) else completes F f t (p1, r1) (q, r')))"
proof
  assume "completes F f t (p, r) (q, r')"
  then obtain ms xs where c: "ms \<noteq> []" "q = p @ ms" "last ms = t" "distinct q" "mcf_walk F f (last p) ms xs" "r' = fold min xs r"
    by (auto simp: completes_def)
  then obtain v ms' x xs' where ms: "ms = v # ms'" "xs = x # xs'" by (cases ms; cases xs) auto
  then have ext: "(p @ [v], min x r) \<in> set (extensions F f (p, r))" using c by (auto simp: extensions_iff)
  show "\<exists>p1 r1. (p1, r1) \<in> set (extensions F f (p, r)) \<and>
       (if last p1 = t then (q, r') = (p1, r1) else completes F f t (p1, r1) (q, r'))"
  proof (cases "v = t")
    case True
    have "ms' = []"
    proof (rule ccontr)
      assume "ms' \<noteq> []"
      then have "t \<in> set ms'" using c(3) ms(1) by (metis last_ConsR last_in_set)
      then show False using c(2,4) ms(1) True by simp
    qed
    moreover from this have "xs' = []" using c(5) ms by (cases xs') auto
    ultimately show ?thesis using ext c ms True by (intro exI [of _ "p @ [v]"] exI [of _ "min x r"]) simp
  next
    case False
    then have "ms' \<noteq> []" using c(3) ms(1) by auto
    moreover from this have "last ms' = t" using c(3) ms(1) by simp
    ultimately have "completes F f t (p @ [v], min x r) (q, r')" using c ms by (auto simp: completes_def)
    then show ?thesis using ext False by (intro exI [of _ "p @ [v]"] exI [of _ "min x r"]) simp
  qed
next
  assume "\<exists>p1 r1. (p1, r1) \<in> set (extensions F f (p, r)) \<and>
       (if last p1 = t then (q, r') = (p1, r1) else completes F f t (p1, r1) (q, r'))"
  then obtain v x where e: "v \<notin> set p" "mcf_hop F f (last p) v x"
    "if v = t then (q, r') = (p @ [v], min x r) else completes F f t (p @ [v], min x r) (q, r')"
    by (auto simp: extensions_iff)
  show "completes F f t (p, r) (q, r')"
  proof (cases "v = t")
    case True
    then show ?thesis using e assms unfolding completes_def prod.case
      by (intro exI [of _ "[v]"] exI [of _ "[x]"]) simp
  next
    case False
    then obtain ms xs where "ms \<noteq> []" "q = (p @ [v]) @ ms" "last ms = t" "distinct q" "mcf_walk F f v ms xs" "r' = fold min xs (min x r)"
      using e(3) by (auto simp: completes_def)
    then show ?thesis using e unfolding completes_def prod.case
      by (intro exI [of _ "v # ms"] exI [of _ "x # xs"]) simp
  qed
qed

lemma extensions_distinct:
  "distinct p \<Longrightarrow> (q, r') \<in> set (extensions F f (p, r)) \<Longrightarrow> distinct q"
  by (auto simp: extensions_iff)

lemma traverse_loop_set:
  assumes "\<forall>(p, r) \<in> set todo. distinct p"
  shows "set (traverse_loop F f t todo acc) = set acc \<union> {out. \<exists>pr \<in> set todo. completes F f t pr out}"
  using assms
proof (induction F f t todo acc rule: traverse_loop.induct)
  case (2 F f t current rest acc)
  obtain p r where c: "current = (p, r)" by (cases current)
  let ?new = "extensions F f (p, r)"
  have d: "distinct p" using 2(2) c by simp
  have "\<forall>(p, r) \<in> set (rest @ filter (\<lambda>(p, sr). last p \<noteq> t) ?new). distinct p"
    using 2(2) extensions_distinct [OF d] by auto
  from 2(1) [OF refl, unfolded c, OF this]
  have "set (traverse_loop F f t (current # rest) acc) = set (acc @ filter (\<lambda>(p, sr). last p = t) ?new)
    \<union> {out. \<exists>pr \<in> set (rest @ filter (\<lambda>(p, sr). last p \<noteq> t) ?new). completes F f t pr out}"
    by (simp add: c Let_def)
  moreover have "completes F f t (p, r) out \<longleftrightarrow> out \<in> set (filter (\<lambda>(p, sr). last p = t) ?new)
    \<or> (\<exists>pr \<in> set (filter (\<lambda>(p, sr). last p \<noteq> t) ?new). completes F f t pr out)" for out
  proof -
    obtain q r' where "out = (q, r')" by (cases out)
    then show ?thesis using completes_step [OF d, of F f t r q r'] by (auto split: if_splits)
  qed
  ultimately show ?case using c by auto
qed simp

lemma traverse_graph_iterative_iff:
  "(q, r) \<in> set (traverse_graph_iterative F f s t) \<longleftrightarrow>
     (\<exists>ms xs. ms \<noteq> [] \<and> q = s # ms \<and> last ms = t \<and> distinct q \<and> mcf_walk F f s ms xs \<and> r = fold min xs 1)"
  using traverse_loop_set [of "[([s], 1)]" F f t "[]"] by (simp add: traverse_graph_iterative_def completes_def)


subsection \<open>The recursive traversal\<close>

text \<open>
  \<open>traverse_graph\<close> recurses without remembering where it has been; the fuel is the depth of the call
  stack, \<open>None\<close> is exceeding it.
\<close>

fun collect_option :: "('a \<Rightarrow> 'b list option) \<Rightarrow> 'a list \<Rightarrow> 'b list option" where
  "collect_option g [] = Some []"
| "collect_option g (x # xs) = (case g x of None \<Rightarrow> None
     | Some ys \<Rightarrow> map_option (\<lambda>zs. ys @ zs) (collect_option g xs))"

lemma collect_option_cong [fundef_cong]:
  "xs = ys \<Longrightarrow> (\<And>x. x \<in> set ys \<Longrightarrow> g x = h x) \<Longrightarrow> collect_option g xs = collect_option h ys"
  by (induction xs arbitrary: ys) (auto split: option.split)

lemma collect_option_in:
  assumes "collect_option g xs = Some zs" and "z \<in> set zs"
  obtains x ys where "x \<in> set xs" "g x = Some ys" "z \<in> set ys"
proof -
  have "\<exists>x ys. x \<in> set xs \<and> g x = Some ys \<and> z \<in> set ys"
    using assms
  proof (induction xs arbitrary: zs)
    case (Cons a xs)
    then obtain ys us where g: "g a = Some ys" "collect_option g xs = Some us" "zs = ys @ us" by (auto split: option.splits)
    then consider "z \<in> set ys" | "z \<in> set us" using Cons.prems(2) by auto
    then show ?case
    proof cases
      case 1
      then show ?thesis using g(1) by (intro exI [of _ a] exI [of _ ys]) simp
    next
      case 2
      from Cons.IH [OF g(2) 2] show ?thesis by (meson list.set_intros(2))
    qed
  qed simp
  then show thesis using that by blast
qed

fun traverse_graph :: "nat \<Rightarrow> mcf_alloc \<Rightarrow> nat \<Rightarrow> fa_node \<Rightarrow> fa_node \<Rightarrow> pyfloat \<Rightarrow> routed list option" where
  "traverse_graph 0 F f t u sr = None"
| "traverse_graph (Suc depth) F f t u sr =
     (if u = t then Some [([t], sr)]
      else map_option (map (\<lambda>(nodes, sr'). (u # nodes, sr')))
        (collect_option (\<lambda>((current_node, next_hop), split_ratio). traverse_graph depth F f t next_hop split_ratio)
          (get_paths_for_flow F u f)))"

lemma get_paths_for_flow_iff: "((u', v), x) \<in> set (get_paths_for_flow F u f) \<longleftrightarrow> u' = u \<and> mcf_hop F f u v x"
  by (auto simp: get_paths_for_flow_def mcf_hop_def image_iff)

text \<open>What it returns are walks to the destination, each with the portion on its last link.\<close>

lemma traverse_graph_walks:
  assumes "traverse_graph depth F f t u sr = Some routes" and "(q, r) \<in> set routes"
  shows "\<exists>ms xs. q = u # ms \<and> last q = t \<and> mcf_walk F f u ms xs \<and> r = last (sr # xs)"
  using assms
proof (induction depth arbitrary: u sr routes q)
  case (Suc depth)
  show ?case
  proof (cases "u = t")
    case True
    then show ?thesis using Suc.prems by (auto intro!: exI [of _ "[]"])
  next
    case False
    let ?g = "\<lambda>((current_node, next_hop), split_ratio). traverse_graph depth F f t next_hop split_ratio"
    from Suc.prems False obtain zs nodes where z: "collect_option ?g (get_paths_for_flow F u f) = Some zs"
      "(nodes, r) \<in> set zs" "q = u # nodes" by auto
    from z(1,2) obtain e ys where e: "e \<in> set (get_paths_for_flow F u f)" "?g e = Some ys" "(nodes, r) \<in> set ys"
      by (rule collect_option_in)
    obtain u' v x where "e = ((u', v), x)" by (metis prod.exhaust)
    with e have hop: "mcf_hop F f u v x" and rec: "traverse_graph depth F f t v x = Some ys"
      by (simp_all add: get_paths_for_flow_iff)
    from Suc.IH [OF rec e(3)] obtain ms xs where "nodes = v # ms" "last nodes = t" "mcf_walk F f v ms xs" "r = last (x # xs)"
      by blast
    then show ?thesis using z(3) hop by (intro exI [of _ "v # ms"] exI [of _ "x # xs"]) simp
  qed
qed simp


subsection \<open>Routes for all flows\<close>

text \<open>
  \<open>itertools.groupby(sorted(F.keys(), key=flow_selector), flow_selector)\<close>; flows are looked up by their
  index.  \<open>do_f_sanity_checks\<close> prints the sums the model returns.
\<close>

definition keys_by_flow :: "mcf_alloc \<Rightarrow> (nat \<times> (nat \<times> fa_node \<times> fa_node) list) list" where
  "keys_by_flow F = groupby fst (sort_key fst (dict_keys F))"

definition do_f_sanity_checks :: "bare_flow list \<Rightarrow> mcf_alloc \<Rightarrow> (pyfloat \<times> pyfloat) list res" where
  "do_f_sanity_checks flows F =
     map_res (\<lambda>(flow_idx, g).
       rbind (py_nth flows (int flow_idx)) (\<lambda>the_flow.
       rbind (map_res (dict_get F) (filter (\<lambda>k. fst (snd k) = bf_source the_flow) g)) (\<lambda>egress.
       rbind (map_res (dict_get F) (filter (\<lambda>k. snd (snd k) = bf_destination the_flow) g)) (\<lambda>ingress.
       Inr (sum_list egress, sum_list ingress))))) (keys_by_flow F)"

definition with_routes :: "bare_flow \<Rightarrow> routed list \<Rightarrow> alloc_flow" where
  "with_routes the_flow routes = \<lparr>fl_source = bf_source the_flow, fl_destination = bf_destination the_flow,
     fl_tx_rate = bf_tx_rate the_flow, fl_paths = map fst routes, fl_splitting_ratio = map snd routes\<rparr>"

definition compute_mcf_flow_routes :: "bare_flow list \<Rightarrow> mcf_alloc \<Rightarrow> alloc_flow list res" where
  "compute_mcf_flow_routes flows F =
     map_res (\<lambda>(flow_idx, g).
       rbind (py_nth flows (int flow_idx)) (\<lambda>the_flow.
       Inr (with_routes the_flow
         (traverse_graph_iterative F flow_idx (bf_source the_flow) (bf_destination the_flow))))) (keys_by_flow F)"

lemma keys_by_flow_indices:
  assumes "fst ` set (dict_keys F) = {0..<n}"
  shows "map fst (keys_by_flow F) = [0..<n]"
proof (rule sorted_distinct_set_unique)
  have "sorted_wrt (<) (map fst (keys_by_flow F))"
    unfolding keys_by_flow_def by (rule conjunct1 [OF groupby_sorted]) (rule sorted_sort_key)
  then show "sorted (map fst (keys_by_flow F))" "distinct (map fst (keys_by_flow F))"
    by (simp_all add: strict_sorted_iff)
  have "fst ` set (keys_by_flow F) = fst ` set (sort_key fst (dict_keys F))" unfolding keys_by_flow_def by (rule groupby_keys_in)
  then show "set (map fst (keys_by_flow F)) = set [0..<n]" using assms by simp
qed simp_all

lemma compute_mcf_flow_routes_eq:
  assumes "fst ` set (dict_keys F) = {0..<length flows}"
  shows "compute_mcf_flow_routes flows F = Inr (map (\<lambda>i.
     with_routes (flows ! i) (traverse_graph_iterative F i (bf_source (flows ! i)) (bf_destination (flows ! i)))) [0..<length flows])"
proof -
  let ?w = "\<lambda>i. with_routes (flows ! i) (traverse_graph_iterative F i (bf_source (flows ! i)) (bf_destination (flows ! i)))"
  note keys = keys_by_flow_indices [OF assms]
  have "fst p < length flows" if "p \<in> set (keys_by_flow F)" for p
    using arg_cong [OF keys, of set] that by auto
  then have "compute_mcf_flow_routes flows F = Inr (map (?w \<circ> fst) (keys_by_flow F))"
    unfolding compute_mcf_flow_routes_def
    by (intro map_res_Inr_map) (auto split: prod.splits)
  also have "map (?w \<circ> fst) (keys_by_flow F) = map ?w [0..<length flows]" using keys by (metis map_map)
  finally show ?thesis .
qed


lemma with_routes_forget: "map forget_routes (map (\<lambda>i. with_routes (flows ! i) (T i)) [0..<length flows]) = flows"
  by (rule nth_equalityI) (simp_all add: forget_routes_def with_routes_def)

subsection \<open>Properties\<close>

text \<open>
  C12.  The work-list traversal is equivalent to the declarative notion of a route: it ends (the
  function is total, also on cyclic portions) and what it returns are exactly the simple paths from
  the source to the destination over links that carry more than a thousandth of the flow, each with
  the least portion on its links.
\<close>

theorem mcf_routes_exact:
  "set (traverse_graph_iterative F f s t) =
     {(q, r). \<exists>ms xs. ms \<noteq> [] \<and> q = s # ms \<and> last ms = t \<and> distinct q \<and> mcf_walk F f s ms xs \<and> r = fold min xs 1}"
  by (auto simp: traverse_graph_iterative_iff)

text \<open>
  When the allocation has an entry for every flow, the routes are computed without an exception,
  for the flows in their order, keeping end points and rate, and every route of a flow is a simple path between
  the flow's end points with a ratio of at most one.
\<close>

theorem mcf_flow_routes:
  assumes "fst ` set (dict_keys F) = {0..<length flows}"
  shows "\<exists>routed. compute_mcf_flow_routes flows F = Inr routed \<and> map forget_routes routed = flows
    \<and> (\<forall>f \<in> set routed. length (fl_splitting_ratio f) = length (fl_paths f)
        \<and> (\<forall>p \<in> set (fl_paths f). hd p = fl_source f \<and> last p = fl_destination f \<and> distinct p)
        \<and> (\<forall>x \<in> set (fl_splitting_ratio f). x \<le> 1))"
proof -
  let ?T = "\<lambda>i. traverse_graph_iterative F i (bf_source (flows ! i)) (bf_destination (flows ! i))"
  have le: "fold min xs a \<le> a" for xs and a :: rat 
  proof (induction xs arbitrary: a)
    case (Cons x xs)
    then show ?case using order_trans [OF Cons.IH [of "min x a"] min.cobounded2] by simp
  qed simp
  have route: "hd q = s \<and> last q = t \<and> distinct q \<and> r \<le> 1" if "(q, r) \<in> set (traverse_graph_iterative F f s t)" for q r f s t
    using that le by (auto simp: traverse_graph_iterative_iff)
  show ?thesis unfolding compute_mcf_flow_routes_eq [OF assms] using with_routes_forget [of flows ?T]
    by (intro exI [of _ "map (\<lambda>i. with_routes (flows ! i) (?T i)) [0..<length flows]"]) (auto simp: with_routes_def dest: route)
qed

definition ex_merge :: mcf_alloc where
  "ex_merge = map (\<lambda>(u, v, x). ((0, u, v), x)) [(1, 2, 1 / 2), (1, 3, 1 / 2), (2, 4, 1 / 2), (3, 4, 1 / 2),
     (4, 5, 1 / 2), (4, 6, 1 / 2), (5, 7, 1 / 2), (6, 7, 1 / 2)]"

theorem mcf_flow_routes_witness:
  "\<exists>routed. compute_mcf_flow_routes [\<lparr>bf_source = 1, bf_destination = 7, bf_tx_rate = 1\<rparr>] ex_merge = Inr routed
    \<and> map forget_routes routed = [\<lparr>bf_source = 1, bf_destination = 7, bf_tx_rate = 1\<rparr>]
    \<and> (\<forall>f \<in> set routed. length (fl_splitting_ratio f) = length (fl_paths f)
        \<and> (\<forall>p \<in> set (fl_paths f). hd p = fl_source f \<and> last p = fl_destination f \<and> distinct p)
        \<and> (\<forall>x \<in> set (fl_splitting_ratio f). x \<le> 1))"
  by (rule mcf_flow_routes) (simp add: ex_merge_def)

text \<open>
  Taking the least portion along each route does not decompose a flow: two halves that meet in
  node 4 and part again give four routes with ratio one half each, so the ratios sum to two, although
  one unit leaves the source and one arrives.
\<close>

theorem mcf_ratios_exceed_one:
  "do_f_sanity_checks [\<lparr>bf_source = 1, bf_destination = 7, bf_tx_rate = 1\<rparr>] ex_merge = Inr [(1, 1)]
   \<and> (case compute_mcf_flow_routes [\<lparr>bf_source = 1, bf_destination = 7, bf_tx_rate = 1\<rparr>] ex_merge of
        Inr [f] \<Rightarrow> length (fl_paths f) = 4 \<and> sum_list (fl_splitting_ratio f) = 2 | _ \<Rightarrow> False)"
  by code_simp

text \<open>
  The recursive traversal that the work list replaced has two faults: on portions with a cycle it never
  returns at any stack depth, and where it returns, the ratio of a route is the portion on its last link
  instead of the least one.
\<close>

theorem traverse_graph_faults:
  "traverse_graph depth [((0, 1, 2), 1 / 2), ((0, 2, 1), 1 / 2)] 0 3 1 sr = None
   \<and> traverse_graph 5 [((0, 1, 2), 1 / 4), ((0, 2, 3), 1)] 0 3 1 1 = Some [([1, 2, 3], 1)]
   \<and> traverse_graph_iterative [((0, 1, 2), 1 / 4), ((0, 2, 3), 1)] 0 1 3 = [([1, 2, 3], 1 / 4)]"
proof -
  let ?F = "[((0, 1, 2), 1 / 2), ((0, 2, 1), 1 / 2)] :: mcf_alloc"
  have "traverse_graph depth ?F 0 3 1 sr = None \<and> traverse_graph depth ?F 0 3 2 sr = None" for sr
    by (induction depth arbitrary: sr) (simp_all add: get_paths_for_flow_def)
  moreover have "traverse_graph 5 [((0, 1, 2), 1 / 4), ((0, 2, 3), 1)] 0 3 1 1 = Some [([1, 2, 3], 1)]"
    "traverse_graph_iterative [((0, 1, 2), 1 / 4), ((0, 2, 3), 1)] 0 1 3 = [([1, 2, 3], 1 / 4)]"
    by code_simp+
  ultimately show ?thesis by blast
qed

end
