(* ===== verification/Mcf_Allocation.thy ===== *)
theory Mcf_Allocation
  imports Lp_Allocation Mcf_Routes
begin

section \<open>Allocating flows as a multi-commodity flow\<close>

text \<open>
  Models \<open>create_mcf_model\<close> and \<open>compute_mcf_flows\<close> of \<open>rest_client/path_hopping/flow_allocation.py\<close>.  The
  substrate is the directed version of the network: a list of nodes and a list of directed edges, both
  directions of every link.  The loop, the conversion of the solution into bidirectional utilisations
  and the routes (\<open>Mcf_Routes\<close>) are composed as in the source.
\<close>

subsection \<open>The model\<close>

definition di_links :: "fa_link list \<Rightarrow> (fa_link, nat) dict" where
  "di_links edges = dict_of (map (\<lambda>(i, e). (e, i)) (enumerate 0 edges))"

definition neighbors :: "fa_link list \<Rightarrow> fa_node \<Rightarrow> fa_node list" where
  "neighbors edges u = map snd (filter (\<lambda>e. fst e = u) edges)"

definition F_keys :: "(fa_link, nat) dict \<Rightarrow> nat \<Rightarrow> (nat \<times> fa_node \<times> fa_node) list" where
  "F_keys links n = List.product [0..<n] (dict_keys links)"

definition F_var :: "(fa_link, nat) dict \<Rightarrow> nat \<Rightarrow> fa_node \<Rightarrow> fa_node \<Rightarrow> lp_var res" where
  "F_var links f u v = (if dict_has links (u, v) then Inr (VF f u v) else Inl KeyError)"

definition lin_neg :: "lin_expr \<Rightarrow> lin_expr" where
  "lin_neg e = map (\<lambda>(c, v). (- c, v)) e"

definition add_neighbor :: "(fa_link, nat) dict \<Rightarrow> nat \<Rightarrow> fa_node \<Rightarrow> lin_expr \<times> lin_expr \<Rightarrow> fa_node \<Rightarrow> (lin_expr \<times> lin_expr) res" where
  "add_neighbor links f u = (\<lambda>(egress_flow, ingress_flow) v.
     rbind (F_var links f u v) (\<lambda>a. rbind (F_var links f v u) (\<lambda>b.
     Inr (egress_flow @ [(1, a)], ingress_flow @ [(1, b)]))))"

definition node_balance :: "fa_link list \<Rightarrow> (fa_link, nat) dict \<Rightarrow> (nat \<times> bare_flow) \<times> fa_node \<Rightarrow> lp_constr res" where
  "node_balance edges links = (\<lambda>((f, flow), u).
     rbind (fold_res (add_neighbor links f u) ([], []) (neighbors edges u)) (\<lambda>(egress_flow, ingress_flow).
     Inr (if u = bf_source flow then EqConst (egress_flow @ lin_neg ingress_flow) 1
          else if u = bf_destination flow then EqConst (ingress_flow @ lin_neg egress_flow) 1
          else EqConst (ingress_flow @ lin_neg egress_flow) 0)))"

definition add_F :: "(fa_link, nat) dict \<Rightarrow> bare_flow list \<Rightarrow> (nat, lin_expr) dict \<Rightarrow> nat \<times> fa_node \<times> fa_node \<Rightarrow> (nat, lin_expr) dict res" where
  "add_F links flows U = (\<lambda>(f, u, v).
     rbind (dict_get links (u, v)) (\<lambda>link_index.
     rbind (dict_get U link_index) (\<lambda>e.
     rbind (py_nth flows (int f)) (\<lambda>flow.
     Inr (dict_set U link_index (e @ [(bf_tx_rate flow, VF f u v)]))))))"

definition link_capacity_constr :: "(fa_link, nat) dict \<Rightarrow> (nat, lin_expr) dict \<Rightarrow> fa_link \<Rightarrow> lp_constr res" where
  "link_capacity_constr links U = (\<lambda>(u, v).
     rbind (dict_get links (u, v)) (\<lambda>one_direction.
     rbind (dict_get links (v, u)) (\<lambda>other_direction.
     rbind (dict_get U one_direction) (\<lambda>a.
     rbind (dict_get U other_direction) (\<lambda>b.
     Inr (LeExpr (a @ b) [(LINK_CAPACITY, VAlpha)]))))))"

type_synonym mcf_model = "lp_model \<times> (nat, lin_expr) dict \<times> (nat \<times> fa_node \<times> fa_node) list"

definition create_mcf_model :: "fa_node list \<Rightarrow> fa_link list \<Rightarrow> bare_flow list \<Rightarrow> bare_flow \<Rightarrow> mcf_model res" where
  "create_mcf_model nodes edges flows new_flow =
     (let potential_flow_set = flows @ [new_flow];
          links = di_links edges;
          keys = F_keys links (length potential_flow_set)
      in rbind (map_res (node_balance edges links) (List.product (enumerate 0 potential_flow_set) nodes)) (\<lambda>conservation.
         rbind (fold_res (add_F links potential_flow_set) (dict_of (map (\<lambda>i. (i, [])) (dict_values links))) keys) (\<lambda>U.
         rbind (map_res (link_capacity_constr links U) (remdups (map link_key (dict_keys links)))) (\<lambda>capacity.
         Inr (\<lparr>lp_vars = map (\<lambda>(f, u, v). addVar (VF f u v)) keys @ [addVar_unit VAlpha],
               lp_constrs = conservation @ capacity, lp_objective = VAlpha\<rparr>, U, keys)))))"

subsection \<open>The loop and the result\<close>

type_synonym mcf_state = "bare_flow list \<times> (mcf_model \<times> assignment) option"

definition draw_mcf_flow :: "'r fa_env \<Rightarrow> fa_node list \<Rightarrow> 'r \<Rightarrow> (bare_flow \<times> 'r) res" where
  "draw_mcf_flow env nodes r =
     rbind (flow_selection_fn env r nodes) (\<lambda>((source_node, destination_node), r1).
     let (flow_tx_rate, r2) = np_uniform env r1 FLOW_TX_RATE_LOWER_BOUND FLOW_TX_RATE_UPPER_BOUND
     in Inr (\<lparr>bf_source = source_node, bf_destination = destination_node, bf_tx_rate = flow_tx_rate\<rparr>, r2))"

definition mcf_admit :: "fa_node list \<Rightarrow> fa_link list \<Rightarrow> solver \<Rightarrow> mcf_state \<Rightarrow> bare_flow \<Rightarrow> (mcf_state \<times> bool) res" where
  "mcf_admit nodes edges optimize = (\<lambda>(flows, best) new_flow.
     rbind (create_mcf_model nodes edges flows new_flow) (\<lambda>(m, U, F).
       case optimize m of
         None \<Rightarrow> Inr ((flows, best), False)
       | Some x \<Rightarrow> Inr ((flows @ [new_flow], Some ((m, U, F), x)), True)))"

definition bidirectional :: "link_util \<Rightarrow> fa_link \<times> pyfloat \<Rightarrow> link_util" where
  "bidirectional acc = (\<lambda>(link_tuple, unidirectional_utilization).
     dict_set acc (link_key link_tuple) (util_at acc (link_key link_tuple) + unidirectional_utilization))"

definition finish_mcf :: "fa_link list \<Rightarrow> mcf_state \<Rightarrow> (alloc_flow list \<times> link_util) res" where
  "finish_mcf edges = (\<lambda>(flows, best). case best of
     None \<Rightarrow> Inr ([], [])
   | Some ((m, feasible_utilization, F), x) \<Rightarrow>
       rbind (map_res (\<lambda>(link_index, link_util). rbind (dict_get (enumerate 0 edges) link_index) (\<lambda>l. Inr (l, lin_val x link_util)))
         feasible_utilization) (\<lambda>U.
       let bidirectional_utilization = foldl bidirectional [] (dict_of U);
           feasible_allocations = map (\<lambda>(f, u, v). ((f, u, v), x (VF f u v))) F
       in rbind (do_f_sanity_checks flows feasible_allocations) (\<lambda>_.
          rbind (compute_mcf_flow_routes flows feasible_allocations) (\<lambda>flows_with_routes.
          Inr (flows_with_routes, bidirectional_utilization)))))"

definition compute_mcf_flows ::
    "'r fa_env \<Rightarrow> solver \<Rightarrow> fa_node list \<Rightarrow> fa_link list \<Rightarrow> nat \<Rightarrow> 'r \<Rightarrow> (alloc_flow list \<times> link_util) res option" where
  "compute_mcf_flows env optimize nodes edges fuel r =
     after_loop (finish_mcf edges) (admit_while (draw_mcf_flow env nodes) (mcf_admit nodes edges optimize) fuel ([], None) r)"

subsection \<open>What the model says\<close>

definition symmetric :: "fa_link list \<Rightarrow> bool" where
  "symmetric edges \<longleftrightarrow> distinct edges \<and> (\<forall>(u, v) \<in> set edges. (v, u) \<in> set edges)"

lemma di_links_eq: "distinct edges \<Longrightarrow> di_links edges = map (\<lambda>(i, e). (e, i)) (enumerate 0 edges)"
  unfolding di_links_def by (rule dict_of_distinct) (simp add: comp_def case_prod_unfold)

lemma di_links_keys: "distinct edges \<Longrightarrow> dict_keys (di_links edges) = edges"
  by (simp add: di_links_eq comp_def case_prod_unfold)

lemma di_links_values: "distinct edges \<Longrightarrow> dict_values (di_links edges) = [0..<length edges]"
  by (simp add: di_links_eq comp_def case_prod_unfold)

lemma di_links_nth: "distinct edges \<Longrightarrow> map_of (di_links edges) e = Some i \<longleftrightarrow> i < length edges \<and> edges ! i = e"
proof -
  assume d: "distinct edges"
  have "dict_wf (di_links edges)" by (simp add: dict_wf_def di_links_keys [OF d] d)
  then have "map_of (di_links edges) e = Some i \<longleftrightarrow> (e, i) \<in> set (di_links edges)" by (rule dict_wf_map_of_in [symmetric])
  also have "\<dots> \<longleftrightarrow> (i, e) \<in> set (enumerate 0 edges)" unfolding di_links_eq [OF d] by force
  finally show ?thesis by (auto simp: in_set_enumerate_eq)
qed

lemma lin_val_neg: "lin_val x (lin_neg e) = - lin_val x e"
  by (induction e) (auto simp: lin_neg_def)

lemma add_neighbors_ok:
  assumes "symmetric edges" and "set vs \<subseteq> set (neighbors edges u)"
  shows "fold_res (add_neighbor (di_links edges) f u) (a, b) vs = Inr (a @ map (\<lambda>v. (1, VF f u v)) vs, b @ map (\<lambda>v. (1, VF f v u)) vs)"
  using assms(2)
proof (induction vs arbitrary: a b)
  case (Cons v vs)
  then have "(u, v) \<in> set edges" by (auto simp: neighbors_def)
  moreover from this have "(v, u) \<in> set edges" using assms(1) by (auto simp: symmetric_def)
  moreover have "set (dict_keys (di_links edges)) = set edges" using assms(1) by (simp only: symmetric_def di_links_keys)
  ultimately show ?case using Cons by (simp add: add_neighbor_def F_var_def dict_has_def)
qed simp

lemma node_balance_ok:
  assumes "symmetric edges"
  shows "\<exists>c. node_balance edges (di_links edges) ((f, flow), u) = Inr c \<and> (u = bf_source flow \<longrightarrow>
    c = EqConst (map (\<lambda>v. (1, VF f u v)) (neighbors edges u) @ lin_neg (map (\<lambda>v. (1, VF f v u)) (neighbors edges u))) 1)"
  using add_neighbors_ok [OF assms, of "neighbors edges u" u f "[]" "[]"] by (simp add: node_balance_def)

definition edge_load :: "assignment \<Rightarrow> bare_flow list \<Rightarrow> fa_link \<Rightarrow> pyfloat" where
  "edge_load x flows e = (\<Sum>f = 0..<length flows. bf_tx_rate (flows ! f) * x (VF f (fst e) (snd e)))"

lemma filter_product:
  assumes "distinct es" and "e \<in> set es"
  shows "filter (\<lambda>u. snd u = e) (List.product fs es) = map (\<lambda>f. (f, e)) fs"
proof (induction fs)
  case (Cons f fs)
  have "filter (\<lambda>u. snd u = e) (map (Pair f) es) = map (Pair f) (filter (\<lambda>e'. e' = e) es)" by (induction es) auto
  also have "filter (\<lambda>e'. e' = e) es = [e]" using assms by (induction es) (auto simp: filter_empty_conv)
  finally show ?case using Cons by simp
qed simp

lemma mcf_utilisation_ok:
  assumes d: "distinct edges"
  shows "\<exists>U. fold_res (add_F (di_links edges) flows) (dict_of (map (\<lambda>i. (i, [])) (dict_values (di_links edges)))) (F_keys (di_links edges) (length flows)) = Inr U
    \<and> dict_keys U = [0..<length edges]
    \<and> (\<forall>i < length edges. \<exists>e. map_of U i = Some e \<and> lin_val x e = edge_load x flows (edges ! i))"
proof -
  let ?L = "di_links edges"
  let ?D = "dict_of (map (\<lambda>i. (i, [])) (dict_values ?L)) :: (nat, lin_expr) dict"
  let ?us = "F_keys ?L (length flows)"
  let ?key = "\<lambda>u. the (map_of ?L (snd u))"
  let ?trm = "\<lambda>u :: nat \<times> fa_node \<times> fa_node. (bf_tx_rate (flows ! fst u), VF (fst u) (fst (snd u)) (snd (snd u)))"
  have us: "?us = List.product [0..<length flows] edges" by (simp add: F_keys_def di_links_keys [OF d])
  have D: "?D = map (\<lambda>i. (i, [])) [0..<length edges]"
    unfolding di_links_values [OF d] by (rule dict_of_distinct) (simp add: comp_def)
  have idx: "\<exists>i < length edges. map_of ?L (snd u) = Some i" if "u \<in> set ?us" for u
    using that di_links_nth [OF d] by (auto simp: us in_set_conv_nth)
  have step: "add_F ?L flows D u = Inr (dict_set D (?key u) (the (map_of D (?key u)) @ [?trm u]))"
    if u: "u \<in> set ?us" "?key u \<in> set (dict_keys D)" for u and D :: "(nat, lin_expr) dict"
  proof -
    obtain f a b where u': "u = (f, a, b)" by (metis prod.exhaust)
    obtain i where i: "map_of ?L (a, b) = Some i" using idx [OF u(1)] u' by auto
    have "i \<in> set (dict_keys D)" using u(2) by (simp only: u' snd_conv i option.sel)
    then obtain e where "map_of D i = Some e" by (elim keys_lookup [THEN exE])
    moreover have "f < length flows" using u(1) u' by (simp add: us)
    ultimately show ?thesis using i u' by (simp add: add_F_def dict_get_def)
  qed
  have sub: "?key ` set ?us \<subseteq> set (dict_keys ?D)"
  proof
    fix k assume "k \<in> ?key ` set ?us"
    then obtain u where "u \<in> set ?us" "k = ?key u" by blast
    with idx [OF this(1)] have "k < length edges" by auto
    then show "k \<in> set (dict_keys ?D)" unfolding D by simp
  qed
  have "\<exists>U. fold_res (add_F ?L flows) ?D ?us = Inr U \<and> dict_keys U = dict_keys ?D
      \<and> (\<forall>k. map_of U k = map_option (\<lambda>e. e @ map ?trm (filter (\<lambda>u. ?key u = k) ?us)) (map_of ?D k))"
    by (rule accumulate_terms [OF step sub])
  then obtain U where U: "fold_res (add_F ?L flows) ?D ?us = Inr U" "dict_keys U = dict_keys ?D"
    "\<And>k. map_of U k = map_option (\<lambda>e. e @ map ?trm (filter (\<lambda>u. ?key u = k) ?us)) (map_of ?D k)" by blast
  have "\<exists>e. map_of U i = Some e \<and> lin_val x e = edge_load x flows (edges ! i)" if i: "i < length edges" for i
  proof -
    have "map_of ?D i = Some []" unfolding D using i by (intro map_of_is_SomeI) (auto simp: comp_def)
    moreover have "filter (\<lambda>u. ?key u = i) ?us = filter (\<lambda>u. snd u = edges ! i) ?us"
    proof (rule filter_cong [OF refl])
      fix u assume "u \<in> set ?us"
      then obtain j where "j < length edges" "map_of ?L (snd u) = Some j" using idx by blast
      moreover from this have "edges ! j = snd u" using di_links_nth [OF d] by blast
      ultimately show "?key u = i \<longleftrightarrow> snd u = edges ! i" using i d nth_eq_iff_index_eq [OF d, of j i] by auto
    qed
    moreover have "filter (\<lambda>u. snd u = edges ! i) ?us = map (\<lambda>f. (f, edges ! i)) [0..<length flows]"
      unfolding us using d i by (intro filter_product) simp_all
    ultimately have "map_of U i = Some (map (?trm \<circ> (\<lambda>f. (f, edges ! i))) [0..<length flows])"
      using U(3) by simp
    then show ?thesis by (simp add: lin_val_def edge_load_def comp_def sum_list_distinct_conv_sum_set)
  qed
  moreover have "dict_keys U = [0..<length edges]" unfolding U(2) D by (simp add: comp_def)
  ultimately show ?thesis using U(1) by blast
qed

text \<open>
  The abstract content of a solution: non-negative portions, one unit of net flow out of every
  source, and the two directions of every link within the capacity.
\<close>

definition mcf_solution :: "fa_node list \<Rightarrow> fa_link list \<Rightarrow> bare_flow list \<Rightarrow> assignment \<Rightarrow> bool" where
  "mcf_solution nodes edges flows x \<longleftrightarrow>
     (\<forall>f < length flows. \<forall>(u, v) \<in> set edges. 0 \<le> x (VF f u v))
   \<and> (\<forall>f < length flows. bf_source (flows ! f) \<in> set nodes \<longrightarrow>
        (\<Sum>v\<leftarrow>neighbors edges (bf_source (flows ! f)). x (VF f (bf_source (flows ! f)) v))
      - (\<Sum>v\<leftarrow>neighbors edges (bf_source (flows ! f)). x (VF f v (bf_source (flows ! f)))) = 1)
   \<and> (\<forall>(u, v) \<in> set edges. edge_load x flows (u, v) + edge_load x flows (v, u) \<le> 1)"

lemma link_capacity_constr_ok:
  assumes d: "distinct edges" and U: "dict_keys U = [0..<length edges]" and e: "(u, v) \<in> set edges" "(v, u) \<in> set edges"
  obtains a b i j where "link_capacity_constr (di_links edges) U (u, v) = Inr (LeExpr (a @ b) [(LINK_CAPACITY, VAlpha)])"
    "i < length edges" "edges ! i = (u, v)" "map_of U i = Some a" "j < length edges" "edges ! j = (v, u)" "map_of U j = Some b"
proof -
  obtain i j where i: "i < length edges" "edges ! i = (u, v)" and j: "j < length edges" "edges ! j = (v, u)"
    using e by (auto simp: in_set_conv_nth)
  then have L: "map_of (di_links edges) (u, v) = Some i" "map_of (di_links edges) (v, u) = Some j" using di_links_nth [OF d] by auto
  have k: "i \<in> set (dict_keys U)" "j \<in> set (dict_keys U)" unfolding U using i j by simp_all
  obtain a where a: "map_of U i = Some a" using k(1) by (elim keys_lookup [THEN exE])
  obtain b where b: "map_of U j = Some b" using k(2) by (elim keys_lookup [THEN exE])
  show thesis by (rule that [of a b i j]) (use i j L a b in \<open>simp_all add: link_capacity_constr_def dict_get_def\<close>)
qed

lemma create_mcf_model_ok:
  assumes sym: "symmetric edges"
  obtains m U where "create_mcf_model nodes edges flows new_flow = Inr (m, U, List.product [0..<length (flows @ [new_flow])] edges)"
    "dict_keys U = [0..<length edges]"
    "\<And>x. \<forall>i < length edges. \<exists>e. map_of U i = Some e \<and> lin_val x e = edge_load x (flows @ [new_flow]) (edges ! i)"
    "\<And>x. feasible m x \<Longrightarrow> mcf_solution nodes edges (flows @ [new_flow]) x"
proof -
  let ?L = "di_links edges"
  let ?fs = "flows @ [new_flow]"
  have d: "distinct edges" using sym by (simp add: symmetric_def)
  have keys: "F_keys ?L (length ?fs) = List.product [0..<length ?fs] edges" by (simp add: F_keys_def di_links_keys [OF d])
  have "\<forall>q \<in> set (List.product (enumerate 0 ?fs) nodes). \<exists>c. node_balance edges ?L q = Inr c"
  proof
    fix q :: "(nat \<times> bare_flow) \<times> fa_node"
    obtain f flow u where "q = ((f, flow), u)" by (metis prod.exhaust)
    then show "\<exists>c. node_balance edges ?L q = Inr c" using node_balance_ok [OF sym, of f flow u] by blast
  qed
  from map_res_total [OF this] obtain cons where
    cons: "map_res (node_balance edges ?L) (List.product (enumerate 0 ?fs) nodes) = Inr cons"
      "\<forall>q \<in> set (List.product (enumerate 0 ?fs) nodes). \<exists>c \<in> set cons. node_balance edges ?L q = Inr c" by blast
  from mcf_utilisation_ok [OF d, of ?fs undefined] obtain U where
    U: "fold_res (add_F ?L ?fs) (dict_of (map (\<lambda>i. (i, [])) (dict_values ?L))) (F_keys ?L (length ?fs)) = Inr U" "dict_keys U = [0..<length edges]" by blast
  have Uval: "\<forall>i < length edges. \<exists>e. map_of U i = Some e \<and> lin_val x e = edge_load x ?fs (edges ! i)" for x
    using mcf_utilisation_ok [OF d, of ?fs x] U(1) by auto
  have both: "(u, v) \<in> set edges \<and> (v, u) \<in> set edges" if "(u, v) \<in> link_key ` set edges" for u v
    using that sym by (auto simp: symmetric_def link_key_def min_def max_def split: if_splits)
  have "\<forall>k \<in> set (remdups (map link_key (dict_keys ?L))). \<exists>c. link_capacity_constr ?L U k = Inr c"
  proof
    fix k assume "k \<in> set (remdups (map link_key (dict_keys ?L)))"
    then have "k \<in> link_key ` set edges" unfolding di_links_keys [OF d] by simp
    moreover obtain u v where "k = (u, v)" by (cases k)
    ultimately show "\<exists>c. link_capacity_constr ?L U k = Inr c" using both link_capacity_constr_ok [OF d U(2)] by metis
  qed
  from map_res_total [OF this] obtain caps where
    caps: "map_res (link_capacity_constr ?L U) (remdups (map link_key (dict_keys ?L))) = Inr caps"
      "\<forall>k \<in> set (remdups (map link_key (dict_keys ?L))). \<exists>c \<in> set caps. link_capacity_constr ?L U k = Inr c" by blast
  let ?m = "\<lparr>lp_vars = map (\<lambda>(f, u, v). addVar (VF f u v)) (List.product [0..<length ?fs] edges) @ [addVar_unit VAlpha],
               lp_constrs = cons @ caps, lp_objective = VAlpha\<rparr>"
  have run: "create_mcf_model nodes edges flows new_flow = Inr (?m, U, List.product [0..<length ?fs] edges)"
    using cons(1) U(1) caps(1) by (simp add: create_mcf_model_def Let_def keys del: length_append)
  have "mcf_solution nodes edges ?fs x" if feas: "feasible ?m x" for x
  proof -
    have b: "in_bounds d (x (dv_var d))" if "d \<in> set (lp_vars ?m)" for d using feas that unfolding feasible_def by blast
    have c: "constr_holds x k" if "k \<in> set cons \<or> k \<in> set caps" for k using feas that unfolding feasible_def by auto
    have pos: "0 \<le> x (VF f u v)" if "f < length ?fs" "(u, v) \<in> set edges" for f u v
    proof -
      have "(f, u, v) \<in> set (List.product [0..<length ?fs] edges)" using that by auto
      then have "(\<lambda>(f, u, v). addVar (VF f u v)) (f, u, v) \<in> set (lp_vars ?m)" unfolding lp_model.simps set_append set_map by blast
      from b [OF this] show ?thesis by (simp add: in_bounds_def addVar_def)
    qed
    have bal: "(\<Sum>v\<leftarrow>neighbors edges (bf_source (?fs ! f)). x (VF f (bf_source (?fs ! f)) v))
      - (\<Sum>v\<leftarrow>neighbors edges (bf_source (?fs ! f)). x (VF f v (bf_source (?fs ! f)))) = 1"
      if f: "f < length ?fs" "bf_source (?fs ! f) \<in> set nodes" for f
    proof -
      let ?s = "bf_source (?fs ! f)"
      have "((f, ?fs ! f), ?s) \<in> set (List.product (enumerate 0 ?fs) nodes)" using f by (simp add: in_set_enumerate_eq)
      with cons(2) obtain k where k: "k \<in> set cons" "node_balance edges ?L ((f, ?fs ! f), ?s) = Inr k" by blast
      with node_balance_ok [OF sym, of f "?fs ! f" ?s]
      have "k = EqConst (map (\<lambda>v. (1, VF f ?s v)) (neighbors edges ?s) @ lin_neg (map (\<lambda>v. (1, VF f v ?s)) (neighbors edges ?s))) 1" by auto
      then show ?thesis using c [of k] k(1) by (simp add: lin_val_neg lin_val_ones)
    qed
    have cap: "edge_load x ?fs (u, v) + edge_load x ?fs (v, u) \<le> 1" if uv: "(u, v) \<in> set edges" for u v
    proof -
      obtain a b where ab: "link_key (u, v) = (a, b)" "(a, b) = (u, v) \<or> (a, b) = (v, u)" by (auto simp: link_key_def min_def max_def)
      have ine: "(a, b) \<in> link_key ` set edges" using uv ab(1) by (metis imageI)
      then have "(a, b) \<in> set (remdups (map link_key (dict_keys ?L)))" unfolding di_links_keys [OF d] by simp
      with caps(2) obtain k where k: "k \<in> set caps" "link_capacity_constr ?L U (a, b) = Inr k" by blast
      obtain e1 e2 i j where e: "link_capacity_constr ?L U (a, b) = Inr (LeExpr (e1 @ e2) [(LINK_CAPACITY, VAlpha)])"
        "i < length edges" "edges ! i = (a, b)" "map_of U i = Some e1" "j < length edges" "edges ! j = (b, a)" "map_of U j = Some e2"
        using both [OF ine] link_capacity_constr_ok [OF d U(2), of a b] by blast
      have "k = LeExpr (e1 @ e2) [(LINK_CAPACITY, VAlpha)]" using k(2) e(1) by simp
      then have "lin_val x e1 + lin_val x e2 \<le> x VAlpha" using c [of k] k(1) by (simp add: LINK_CAPACITY_def)
      moreover have "lin_val x e1 = edge_load x ?fs (a, b)" "lin_val x e2 = edge_load x ?fs (b, a)"
        using Uval [of x] e by force+
      moreover have "x VAlpha \<le> 1" using b [of "addVar_unit VAlpha"] by (simp add: in_bounds_def addVar_unit_def)
      ultimately show ?thesis using ab(2) by auto
    qed
    show ?thesis unfolding mcf_solution_def using pos bal cap by blast
  qed
  then show thesis using that run U(2) Uval by blast
qed

subsection \<open>Progress of the loop\<close>

lemma mcf_solution_pos:
  "mcf_solution nodes edges flows x \<Longrightarrow> f < length flows \<Longrightarrow> e \<in> set edges \<Longrightarrow> 0 \<le> x (VF f (fst e) (snd e))"
  unfolding mcf_solution_def by (cases e) fastforce

lemma edge_load_nonneg:
  assumes "mcf_solution nodes edges flows x" and "\<forall>fl \<in> set flows. 0 \<le> bf_tx_rate fl" and "(u, v) \<in> set edges"
  shows "0 \<le> edge_load x flows (u, v)"
  unfolding edge_load_def using assms(2) mcf_solution_pos [OF assms(1) _ assms(3)] by (intro sum_nonneg) simp

lemma key_load_bound:
  assumes sol: "mcf_solution nodes edges flows x" and rate: "\<forall>fl \<in> set flows. 0 \<le> bf_tx_rate fl" and sym: "symmetric edges"
    and k: "k \<in> link_key ` set edges"
  shows "(\<Sum>e \<in> {e \<in> set edges. link_key e = k}. edge_load x flows e) \<le> 1"
proof -
  obtain u v where uv: "(u, v) \<in> set edges" "k = link_key (u, v)" using k by auto
  then have vu: "(v, u) \<in> set edges" using sym by (auto simp: symmetric_def)
  have "{e \<in> set edges. link_key e = k} = {(u, v), (v, u)}" using uv vu by (auto simp: link_key_eq_iff)
  then have "(\<Sum>e \<in> {e \<in> set edges. link_key e = k}. edge_load x flows e) \<le> edge_load x flows (u, v) + edge_load x flows (v, u)"
    using edge_load_nonneg [OF sol rate uv(1)] by (cases "u = v") auto
  also have "\<dots> \<le> 1" using sol uv(1) by (auto simp: mcf_solution_def)
  finally show ?thesis .
qed

lemma unit_leaves_source:
  assumes sol: "mcf_solution nodes edges flows x" and "f < length flows" and "bf_source (flows ! f) \<in> set nodes" and sym: "symmetric edges"
  shows "1 \<le> (\<Sum>e \<in> set edges. x (VF f (fst e) (snd e)))"
proof -
  let ?s = "bf_source (flows ! f)"
  let ?out = "filter (\<lambda>e. fst e = ?s) edges"
  have pos: "0 \<le> x (VF f (fst e) (snd e))" if "e \<in> set edges" for e using mcf_solution_pos [OF sol assms(2) that] .
  have "0 \<le> (\<Sum>v\<leftarrow>neighbors edges ?s. x (VF f v ?s))"
  proof (rule sum_list_nonneg)
    fix y assume "y \<in> set (map (\<lambda>v. x (VF f v ?s)) (neighbors edges ?s))"
    then obtain v where "(?s, v) \<in> set edges" "y = x (VF f v ?s)" by (auto simp: neighbors_def)
    then show "0 \<le> y" using sym pos [of "(v, ?s)"] by (auto simp: symmetric_def)
  qed
  then have "1 \<le> (\<Sum>v\<leftarrow>neighbors edges ?s. x (VF f ?s v))" using sol assms(2,3) unfolding mcf_solution_def by fastforce
  also have "\<dots> = (\<Sum>e\<leftarrow>?out. x (VF f (fst e) (snd e)))"
    unfolding neighbors_def map_map by (rule arg_cong [of _ _ sum_list]) (simp add: comp_def)
  also have "\<dots> = (\<Sum>e \<in> set ?out. x (VF f (fst e) (snd e)))"
    using sym by (intro sum_list_distinct_conv_sum_set) (simp add: symmetric_def)
  also have "\<dots> \<le> (\<Sum>e \<in> set edges. x (VF f (fst e) (snd e)))" using pos by (intro sum_mono2) auto
  finally show ?thesis .
qed

lemma mcf_rate_bounded:
  assumes sol: "mcf_solution nodes edges flows x" and sym: "symmetric edges"
    and ok: "\<forall>fl \<in> set flows. 0 \<le> bf_tx_rate fl \<and> bf_source fl \<in> set nodes"
  shows "(\<Sum>f = 0..<length flows. bf_tx_rate (flows ! f)) \<le> of_nat (length edges)"
proof -
  have rate: "\<forall>fl \<in> set flows. 0 \<le> bf_tx_rate fl" using ok by blast
  have "(\<Sum>f = 0..<length flows. bf_tx_rate (flows ! f)) \<le> (\<Sum>f = 0..<length flows. bf_tx_rate (flows ! f) * (\<Sum>e \<in> set edges. x (VF f (fst e) (snd e))))"
  proof (rule sum_mono)
    fix f assume "f \<in> {0..<length flows}"
    then have f: "f < length flows" by simp
    then have "bf_tx_rate (flows ! f) * 1 \<le> bf_tx_rate (flows ! f) * (\<Sum>e \<in> set edges. x (VF f (fst e) (snd e)))"
      using ok by (intro mult_left_mono unit_leaves_source [OF sol f _ sym]) auto
    then show "bf_tx_rate (flows ! f) \<le> bf_tx_rate (flows ! f) * (\<Sum>e \<in> set edges. x (VF f (fst e) (snd e)))" by simp
  qed
  also have "\<dots> = (\<Sum>e \<in> set edges. edge_load x flows e)" unfolding edge_load_def sum_distrib_left by (rule sum.swap)
  also have "\<dots> = (\<Sum>k \<in> link_key ` set edges. \<Sum>e \<in> {e \<in> set edges. link_key e = k}. edge_load x flows e)"
    by (rule sum.image_gen) simp
  also have "\<dots> \<le> (\<Sum>k \<in> link_key ` set edges. 1)" by (rule sum_mono) (rule key_load_bound [OF sol rate sym])
  also have "\<dots> \<le> of_nat (length edges)" using card_image_le [of "set edges" link_key] card_length [of edges] by simp
  finally show ?thesis .
qed

definition mcf_candidate_ok :: "fa_node list \<Rightarrow> bare_flow \<Rightarrow> bool" where
  "mcf_candidate_ok nodes fl \<longleftrightarrow> FLOW_TX_RATE_LOWER_BOUND \<le> bf_tx_rate fl \<and> bf_tx_rate fl \<le> FLOW_TX_RATE_UPPER_BOUND \<and> bf_source fl \<in> set nodes"

definition mcf_inv :: "fa_node list \<Rightarrow> fa_link list \<Rightarrow> mcf_state \<Rightarrow> bool" where
  "mcf_inv nodes edges = (\<lambda>(flows, best). (\<forall>fl \<in> set flows. mcf_candidate_ok nodes fl) \<and> (case best of
       None \<Rightarrow> flows = []
     | Some ((m, U, F), x) \<Rightarrow> flows \<noteq> [] \<and> mcf_solution nodes edges flows x \<and> F = List.product [0..<length flows] edges \<and> dict_keys U = [0..<length edges]
         \<and> (\<forall>i < length edges. \<exists>e. map_of U i = Some e \<and> lin_val x e = edge_load x flows (edges ! i))))"

definition mcf_total_rate :: "mcf_state \<Rightarrow> pyfloat" where
  "mcf_total_rate st = sum_list (map bf_tx_rate (fst st))"

lemma mcf_admission:
  assumes sym: "symmetric edges" and sound: "solver_sound optimize"
  shows "admission (mcf_admit nodes edges optimize) (mcf_inv nodes edges) (mcf_candidate_ok nodes) mcf_total_rate (of_nat (length edges))"
proof unfold_locales
  fix st :: mcf_state and c
  assume I: "mcf_inv nodes edges st" and c: "mcf_candidate_ok nodes c"
  obtain flows best where st: "st = (flows, best)" by (cases st)
  from create_mcf_model_ok [OF sym, of nodes flows c] obtain m U where
    m: "create_mcf_model nodes edges flows c = Inr (m, U, List.product [0..<length (flows @ [c])] edges)" "dict_keys U = [0..<length edges]"
      "\<And>x. \<forall>i < length edges. \<exists>e. map_of U i = Some e \<and> lin_val x e = edge_load x (flows @ [c]) (edges ! i)"
      "\<And>x. feasible m x \<Longrightarrow> mcf_solution nodes edges (flows @ [c]) x" by blast
  show "\<exists>s' go. mcf_admit nodes edges optimize st c = Inr (s', go) \<and> (go \<longrightarrow> mcf_inv nodes edges s' \<and> mcf_total_rate st + 1 / 10 \<le> mcf_total_rate s')"
  proof (cases "optimize m")
    case None
    then show ?thesis using m(1) st by (intro exI [of _ st] exI [of _ False]) (simp add: mcf_admit_def)
  next
    case (Some x)
    let ?st = "(flows @ [c], Some ((m, U, List.product [0..<length (flows @ [c])] edges), x))"
    have "mcf_solution nodes edges (flows @ [c]) x" using m(4) sound Some by (simp add: solver_sound_def)
    then have "mcf_inv nodes edges ?st" using I c st m(2) m(3) [of x] by (simp add: mcf_inv_def)
    moreover have "mcf_admit nodes edges optimize st c = Inr (?st, True)" using m(1) Some st by (simp add: mcf_admit_def)
    moreover have "mcf_total_rate st + 1 / 10 \<le> mcf_total_rate ?st"
      using c st by (simp add: mcf_total_rate_def mcf_candidate_ok_def FLOW_TX_RATE_LOWER_BOUND_def)
    ultimately show ?thesis by blast
  qed
next
  fix st :: mcf_state
  assume I: "mcf_inv nodes edges st"
  obtain flows best where st: "st = (flows, best)" by (cases st)
  show "mcf_total_rate st \<le> of_nat (length edges)"
  proof (cases best)
    case None
    then show ?thesis using I st by (simp add: mcf_inv_def mcf_total_rate_def)
  next
    case (Some b)
    obtain m U F x where "b = ((m, U, F), x)" by (metis prod.exhaust)
    then have sol: "mcf_solution nodes edges flows x" and ok: "\<forall>fl \<in> set flows. mcf_candidate_ok nodes fl"
      using I st Some by (simp_all add: mcf_inv_def)
    have "\<forall>fl \<in> set flows. 0 \<le> bf_tx_rate fl \<and> bf_source fl \<in> set nodes"
      using ok by (auto simp: mcf_candidate_ok_def FLOW_TX_RATE_LOWER_BOUND_def)
    from mcf_rate_bounded [OF sol sym this] show ?thesis by (simp add: mcf_total_rate_def st sum_list_sum_nth)
  qed
qed

text \<open>What is assumed of the callers and of numpy.\<close>

definition mcf_env_ok :: "'r fa_env \<Rightarrow> fa_node list \<Rightarrow> bool" where
  "mcf_env_ok env nodes \<longleftrightarrow>
     (\<forall>r. \<exists>s d r'. flow_selection_fn env r nodes = Inr ((s, d), r') \<and> s \<in> set nodes)
   \<and> (\<forall>r lo hi. lo < hi \<longrightarrow> lo \<le> fst (np_uniform env r lo hi) \<and> fst (np_uniform env r lo hi) < hi)"

lemma draw_mcf_flow_ok:
  assumes "mcf_env_ok env nodes"
  shows "\<exists>c r'. draw_mcf_flow env nodes r = Inr (c, r') \<and> mcf_candidate_ok nodes c"
proof -
  from assms obtain s d r1 where s: "flow_selection_fn env r nodes = Inr ((s, d), r1)" "s \<in> set nodes" unfolding mcf_env_ok_def by blast
  obtain x r2 where u: "np_uniform env r1 FLOW_TX_RATE_LOWER_BOUND FLOW_TX_RATE_UPPER_BOUND = (x, r2)"
    by (cases "np_uniform env r1 FLOW_TX_RATE_LOWER_BOUND FLOW_TX_RATE_UPPER_BOUND")
  have "FLOW_TX_RATE_LOWER_BOUND < FLOW_TX_RATE_UPPER_BOUND" by (simp add: FLOW_TX_RATE_LOWER_BOUND_def FLOW_TX_RATE_UPPER_BOUND_def)
  then have "FLOW_TX_RATE_LOWER_BOUND \<le> x" "x < FLOW_TX_RATE_UPPER_BOUND"
    using assms u unfolding mcf_env_ok_def by (metis fst_conv)+
  then show ?thesis using s u by (simp add: draw_mcf_flow_def mcf_candidate_ok_def)
qed

lemma mcf_loop:
  assumes env: "mcf_env_ok env nodes" and sym: "symmetric edges" and sound: "solver_sound optimize" and fuel: "10 * length edges < fuel"
  shows "\<exists>st r'. admit_while (draw_mcf_flow env nodes) (mcf_admit nodes edges optimize) fuel ([], None) r = Some (Inr (st, r')) \<and> mcf_inv nodes edges st"
proof -
  note adm = mcf_admission [OF sym sound, of nodes]
  have I0: "mcf_inv nodes edges ([], None)" by (simp add: mcf_inv_def)
  have "10 * (of_nat (length edges) - mcf_total_rate ([], None)) < (of_nat fuel :: rat)"
    using fuel by (simp add: mcf_total_rate_def)
  from admission.loop_returns [where draw = "draw_mcf_flow env nodes" and r = r, OF adm I0 draw_mcf_flow_ok [OF env] this] obtain st r' where
    run: "admit_while (draw_mcf_flow env nodes) (mcf_admit nodes edges optimize) fuel ([], None) r = Some (Inr (st, r'))" by blast
  have "mcf_inv nodes edges st"
  proof (rule admit_while_inv [where I = "mcf_inv nodes edges" and C = "mcf_candidate_ok nodes", OF run I0])
    show "\<And>r c r'. draw_mcf_flow env nodes r = Inr (c, r') \<Longrightarrow> mcf_candidate_ok nodes c"
      using draw_mcf_flow_ok [OF env] by (metis Inr_inject Pair_inject)
    show "\<And>s c s'. mcf_inv nodes edges s \<Longrightarrow> mcf_candidate_ok nodes c \<Longrightarrow> mcf_admit nodes edges optimize s c = Inr (s', True) \<Longrightarrow> mcf_inv nodes edges s'"
      using admission.admits [OF adm] by fastforce
    show "\<And>s c s'. mcf_inv nodes edges s \<Longrightarrow> mcf_candidate_ok nodes c \<Longrightarrow> mcf_admit nodes edges optimize s c = Inr (s', False) \<Longrightarrow> mcf_inv nodes edges s'"
      by (auto simp: mcf_admit_def rbind_Inr_iff split: option.splits)
  qed
  with run show ?thesis by blast
qed

lemma bidirectional_sum:
  "util_at (foldl bidirectional acc items) k = util_at acc k + (\<Sum>(e, v)\<leftarrow>filter (\<lambda>p. link_key (fst p) = k) items. v)"
  by (induction items arbitrary: acc) (auto simp: bidirectional_def util_at_set)

lemma sanity_checks_ok:
  assumes "fst ` set (dict_keys F) = {0..<length flows}"
  shows "\<exists>ss. do_f_sanity_checks flows F = Inr ss"
proof -
  have total: "\<exists>ys. map_res (dict_get F) ks = Inr ys" if "set ks \<subseteq> set (dict_keys F)" for ks
  proof -
    have "\<exists>v. dict_get F k = Inr v" if "k \<in> set ks" for k
    proof -
      have "k \<in> set (dict_keys F)" using that \<open>set ks \<subseteq> _\<close> by blast
      then obtain v where "map_of F k = Some v" by (elim keys_lookup [THEN exE])
      then show ?thesis by (simp add: dict_get_Inr_iff)
    qed
    then have "\<forall>k \<in> set ks. \<exists>v. dict_get F k = Inr v" by blast
    then show ?thesis by (rule map_res_total) (rule exI)
  qed
  have "\<forall>p \<in> set (keys_by_flow F). \<exists>y. (\<lambda>(flow_idx, g).
       rbind (py_nth flows (int flow_idx)) (\<lambda>the_flow.
       rbind (map_res (dict_get F) (filter (\<lambda>k. fst (snd k) = bf_source the_flow) g)) (\<lambda>egress.
       rbind (map_res (dict_get F) (filter (\<lambda>k. snd (snd k) = bf_destination the_flow) g)) (\<lambda>ingress.
       Inr (sum_list egress, sum_list ingress))))) p = Inr y"
  proof
    fix p assume p: "p \<in> set (keys_by_flow F)"
    obtain i g where ig: "p = (i, g)" by (cases p)
    have "i \<in> fst ` set (keys_by_flow F)" using p ig by force
    then have i: "i < length flows" using assms unfolding keys_by_flow_def groupby_keys_in by simp
    have "g = filter (\<lambda>k. fst k = i) (sort_key fst (dict_keys F))"
      using conjunct2 [OF groupby_sorted [of fst "sort_key fst (dict_keys F)"]] p ig unfolding keys_by_flow_def by (metis fst_conv snd_conv sorted_sort_key)
    then have g: "set g \<subseteq> set (dict_keys F)" by (simp del: set_map)
    obtain a where a: "map_res (dict_get F) (filter (\<lambda>k. fst (snd k) = bf_source (flows ! i)) g) = Inr a"
      using total [of "filter (\<lambda>k. fst (snd k) = bf_source (flows ! i)) g"] g by (meson filter_is_subset order_trans)
    obtain b where "map_res (dict_get F) (filter (\<lambda>k. snd (snd k) = bf_destination (flows ! i)) g) = Inr b"
      using total [of "filter (\<lambda>k. snd (snd k) = bf_destination (flows ! i)) g"] g by (meson filter_is_subset order_trans)
    with a show "\<exists>y. (\<lambda>(flow_idx, g).
       rbind (py_nth flows (int flow_idx)) (\<lambda>the_flow.
       rbind (map_res (dict_get F) (filter (\<lambda>k. fst (snd k) = bf_source the_flow) g)) (\<lambda>egress.
       rbind (map_res (dict_get F) (filter (\<lambda>k. snd (snd k) = bf_destination the_flow) g)) (\<lambda>ingress.
       Inr (sum_list egress, sum_list ingress))))) p = Inr y" using i ig by simp
  qed
  then show ?thesis unfolding do_f_sanity_checks_def by (rule map_res_total) (rule exI)
qed

lemma simple_routes:
  assumes "fst ` set (dict_keys F) = {0..<length flows}" and "compute_mcf_flow_routes flows F = Inr rts" and "f \<in> set rts"
  shows "length (fl_splitting_ratio f) = length (fl_paths f)
    \<and> (\<forall>p \<in> set (fl_paths f). hd p = fl_source f \<and> last p = fl_destination f \<and> distinct p)"
proof -
  have "rts = map (\<lambda>i. with_routes (flows ! i) (traverse_graph_iterative F i (bf_source (flows ! i)) (bf_destination (flows ! i)))) [0..<length flows]"
    using compute_mcf_flow_routes_eq [OF assms(1)] assms(2) by simp
  then show ?thesis using assms(3) by (auto simp: with_routes_def traverse_graph_iterative_iff)
qed

lemma finish_utilisation:
  assumes d: "distinct edges" and keys: "dict_keys U = [0..<length edges]"
    and val: "\<forall>i < length edges. \<exists>e. map_of U i = Some e \<and> lin_val x e = edge_load x flows (edges ! i)"
  shows "map_res (\<lambda>(link_index, link_util). rbind (dict_get (enumerate 0 edges) link_index) (\<lambda>l. Inr (l, lin_val x link_util))) U
    = Inr (map (\<lambda>e. (e, edge_load x flows e)) edges)"
proof -
  have len: "length U = length edges" using arg_cong [OF keys, of length] by simp
  have nth: "fst (U ! i) = i" if "i < length edges" for i
    using that arg_cong [OF keys, of "\<lambda>xs. xs ! i"] len by simp
  have wf: "dict_wf U" unfolding dict_wf_def keys by simp
  have "(\<lambda>(link_index, link_util). rbind (dict_get (enumerate 0 edges) link_index) (\<lambda>l. Inr (l, lin_val x link_util))) (U ! i)
      = Inr (edges ! i, edge_load x flows (edges ! i))" if i: "i < length edges" for i
  proof -
    obtain e where e: "map_of U i = Some e" "lin_val x e = edge_load x flows (edges ! i)" using val i by blast
    have "(fst (U ! i), snd (U ! i)) \<in> set U" using i len by simp
    then have "map_of U i = Some (snd (U ! i))" using wf nth [OF i] by (metis dict_wf_map_of_in)
    then have "U ! i = (i, e)" using e(1) nth [OF i] by (metis option.inject prod.collapse)
    moreover have "map_of (enumerate 0 edges) i = Some (edges ! i)" using i by (intro map_of_is_SomeI) (simp_all add: in_set_enumerate_eq)
    ultimately show ?thesis using e(2) by (simp add: dict_get_def)
  qed
  then show ?thesis unfolding map_res_Inr_iff using len by (simp add: list_all2_conv_all_nth)
qed

lemma finish_mcf_ok:
  assumes sym: "symmetric edges" and inv: "mcf_inv nodes edges (flows, best)"
  shows "\<exists>rts util. finish_mcf edges (flows, best) = Inr (rts, util)
    \<and> (\<forall>f \<in> set rts. length (fl_splitting_ratio f) = length (fl_paths f)
        \<and> (\<forall>p \<in> set (fl_paths f). hd p = fl_source f \<and> last p = fl_destination f \<and> distinct p))
    \<and> map forget_routes rts = flows \<and> (\<forall>k. util_at util k \<le> LINK_CAPACITY)"
proof (cases best)
  case None
  then show ?thesis using inv by (simp add: mcf_inv_def finish_mcf_def util_at_def dict_get_default_def LINK_CAPACITY_def)
next
  case (Some b)
  obtain m U F x where b: "b = ((m, U, F), x)" by (metis prod.exhaust)
  have d: "distinct edges" using sym by (simp add: symmetric_def)
  have ne: "flows \<noteq> []" and sol: "mcf_solution nodes edges flows x" and F: "F = List.product [0..<length flows] edges"
    and U: "dict_keys U = [0..<length edges]" "\<forall>i < length edges. \<exists>e. map_of U i = Some e \<and> lin_val x e = edge_load x flows (edges ! i)"
    and ok: "\<forall>fl \<in> set flows. mcf_candidate_ok nodes fl"
    using inv unfolding mcf_inv_def Some b prod.case option.case by blast+
  have rate: "\<forall>fl \<in> set flows. 0 \<le> bf_tx_rate fl" using ok by (auto simp: mcf_candidate_ok_def FLOW_TX_RATE_LOWER_BOUND_def)
  let ?A = "map (\<lambda>(f, u, v). ((f, u, v), x (VF f u v))) F"
  let ?U = "map (\<lambda>e. (e, edge_load x flows e)) edges"
  have "bf_source (flows ! 0) \<in> set nodes" using ok ne by (simp add: mcf_candidate_ok_def)
  then have "edges \<noteq> []" using unit_leaves_source [OF sol _ _ sym, of 0] ne by auto
  moreover have "dict_keys ?A = F" by (simp add: comp_def case_prod_unfold)
  ultimately have idx: "fst ` set (dict_keys ?A) = {0..<length flows}" by (simp only: F set_product fst_image_times) simp
  from sanity_checks_ok [OF idx] obtain ss where ss: "do_f_sanity_checks flows ?A = Inr ss" by blast
  obtain rts where rts: "compute_mcf_flow_routes flows ?A = Inr rts" "map forget_routes rts = flows"
    by (rule that [OF compute_mcf_flow_routes_eq [OF idx] with_routes_forget])
  have du: "dict_of ?U = ?U" using d by (intro dict_of_distinct) (simp add: comp_def)
  have "util_at (foldl bidirectional [] ?U) k \<le> LINK_CAPACITY" for k
  proof -
    have "util_at (foldl bidirectional [] ?U) k = (\<Sum>e\<leftarrow>filter (\<lambda>e. link_key e = k) edges. edge_load x flows e)"
      unfolding bidirectional_sum by (simp add: filter_map comp_def util_at_def dict_get_default_def)
    also have "\<dots> = (\<Sum>e \<in> {e \<in> set edges. link_key e = k}. edge_load x flows e)"
      using d sum_list_distinct_conv_sum_set [of "filter (\<lambda>e. link_key e = k) edges"] by simp
    also have "\<dots> \<le> 1"
    proof (cases "k \<in> link_key ` set edges")
      case True
      then show ?thesis by (rule key_load_bound [OF sol rate sym])
    next
      case False
      then have "{e \<in> set edges. link_key e = k} = {}" by auto
      then show ?thesis by (simp only: sum.empty)
    qed
    finally show ?thesis by (simp add: LINK_CAPACITY_def)
  qed
  moreover have "finish_mcf edges (flows, best) = Inr (rts, foldl bidirectional [] ?U)"
    unfolding finish_mcf_def Some b using finish_utilisation [OF d U] ss rts(1) by (simp add: Let_def du)
  ultimately show ?thesis using rts simple_routes [OF idx rts(1)] by (intro exI [of _ rts] exI [of _ "foldl bidirectional [] ?U"]) simp
qed

subsection \<open>Property\<close>

lemma mcf_allocation_holds:
  assumes "mcf_env_ok env nodes" and "symmetric edges" and "solver_sound optimize" and "10 * length edges < fuel"
  shows "\<exists>flows util. compute_mcf_flows env optimize nodes edges fuel r = Some (Inr (flows, util))
    \<and> (\<forall>f \<in> set flows. length (fl_splitting_ratio f) = length (fl_paths f)
        \<and> (\<forall>p \<in> set (fl_paths f). hd p = fl_source f \<and> last p = fl_destination f \<and> distinct p))
    \<and> (\<forall>k. util_at util k \<le> LINK_CAPACITY)"
proof -
  from mcf_loop [OF assms, of r] obtain flows best r' where
    run: "admit_while (draw_mcf_flow env nodes) (mcf_admit nodes edges optimize) fuel ([], None) r = Some (Inr ((flows, best), r'))"
    and inv: "mcf_inv nodes edges (flows, best)" by auto
  have "compute_mcf_flows env optimize nodes edges fuel r = Some (finish_mcf edges (flows, best))"
    by (simp add: compute_mcf_flows_def run after_loop_def)
  then show ?thesis using finish_mcf_ok [OF assms(2) inv] by auto
qed



end
