(* ===== verification/Float_Text.thy ===== *)
theory Float_Text
  imports Strings
begin

section \<open>Numbers and lines in text files\<close>

text \<open>
  \<open>'%f' % x\<close>, \<open>float(s)\<close> and \<open>str.splitlines\<close>, which the trial files are written and read with.
  Numbers are exact rationals: \<open>'%f'\<close> rounds to millionths (half to even), and \<open>float\<close> reads decimal
  notation with an optional exponent exactly.  Infinities and not-a-number have no counterpart
  (their names give \<open>ValueError\<close>).  A number that is a whole number of millionths is read back as written.
\<close>

subsection \<open>Formatting\<close>

definition round_even :: "rat \<Rightarrow> int" where
  "round_even x = (let f = \<lfloor>x\<rfloor>; d = x - of_int f in
     if d < 1 / 2 then f else if 1 / 2 < d then f + 1 else if even f then f else f + 1)"

definition millionths :: "rat \<Rightarrow> int" where
  "millionths x = round_even (x * 1000000)"

definition pad_digits :: "nat \<Rightarrow> string" where
  "pad_digits n = (let s = show_nat n in replicate (7 - length s) (CHR ''0'') @ s)"

definition show_float :: "rat \<Rightarrow> string" where
  "show_float x = (let s = pad_digits (nat \<bar>millionths x\<bar>); k = length s - 6 in
     (if x < 0 then ''-'' else '''') @ take k s @ ''.'' @ drop k s)"

subsection \<open>Reading\<close>

definition digit_run :: "string \<Rightarrow> string option" where
  "digit_run s = (if s = [] then Some [] else
     let groups = split_on (CHR ''_'') s in
     if \<forall>g \<in> set groups. g \<noteq> [] \<and> (\<forall>c \<in> set g. is_digit c) then Some (concat groups) else None)"

definition mantissa :: "string \<Rightarrow> rat res" where
  "mantissa s = (case split_on (CHR ''.'') s of
       [ip] \<Rightarrow> (case digit_run ip of Some ds \<Rightarrow> if ds = [] then Inl ValueError else Inr (of_nat (digits_value ds)) | None \<Rightarrow> Inl ValueError)
     | [ip, fp] \<Rightarrow> (case (digit_run ip, digit_run fp) of
           (Some ds, Some es) \<Rightarrow> if ds = [] \<and> es = [] then Inl ValueError
             else Inr (of_nat (digits_value ds) + of_nat (digits_value es) / 10 ^ length es)
         | _ \<Rightarrow> Inl ValueError)
     | _ \<Rightarrow> Inl ValueError)"

definition scale10 :: "rat \<Rightarrow> int \<Rightarrow> rat" where
  "scale10 x k = (if 0 \<le> k then x * 10 ^ nat k else x / 10 ^ nat (- k))"

definition unsigned_float :: "string \<Rightarrow> rat res" where
  "unsigned_float s = (case split_on (CHR ''e'') (map (\<lambda>c. if c = CHR ''E'' then CHR ''e'' else c) s) of
       [m] \<Rightarrow> mantissa m
     | [m, ex] \<Rightarrow> rbind (mantissa m) (\<lambda>x. rbind (signed_value ex) (\<lambda>k. Inr (scale10 x k)))
     | _ \<Rightarrow> Inl ValueError)"

definition py_float :: "string \<Rightarrow> rat res" where
  "py_float s = (case strip s of
       [] \<Rightarrow> Inl ValueError
     | c # cs \<Rightarrow> if c = CHR ''-'' then rbind (unsigned_float cs) (\<lambda>x. Inr (- x))
                else if c = CHR ''+'' then unsigned_float cs
                else unsigned_float (c # cs))"

lemma digits_value_append: "digits_value (s @ t) = digits_value s * 10 ^ length t + digits_value t"
  by (induction t rule: rev_induct) (simp_all add: digits_value_snoc append_assoc [symmetric] algebra_simps del: append_assoc, simp add: digits_value_def)

lemma digits_value_zeros: "digits_value (replicate n (CHR ''0'') @ s) = digits_value s"
proof (induction n)
  case (Suc n)
  have "digits_value (CHR ''0'' # t) = digits_value t" for t by (simp add: digits_value_def)
  then show ?case using Suc by simp
qed simp

lemma pad_digits_value: "digits_value (pad_digits n) = n"
  by (simp add: pad_digits_def Let_def digits_value_zeros digits_value_show_nat)

lemma pad_digits_digits: "\<forall>c \<in> set (pad_digits n). is_digit c"
proof -
  have "is_digit (CHR ''0'')" by (simp add: is_digit_def)
  then show ?thesis using show_nat_digits by (auto simp: pad_digits_def Let_def)
qed

lemma pad_digits_length: "7 \<le> length (pad_digits n)"
  by (simp add: pad_digits_def Let_def)

lemma digit_run_digits: "\<forall>c \<in> set s. is_digit c \<Longrightarrow> digit_run s = Some s"
proof -
  assume d: "\<forall>c \<in> set s. is_digit c"
  have "\<not> is_digit (CHR ''_'')" by (simp add: is_digit_def)
  then have "CHR ''_'' \<notin> set s" using d by blast
  then have "split_on (CHR ''_'') s = [s]" by (rule split_on_none)
  then show ?thesis using d by (simp add: digit_run_def)
qed

lemma fixed_point_value:
  assumes "\<forall>c \<in> set s. is_digit c" and "k \<le> length s" and "s \<noteq> []"
  shows "unsigned_float (take k s @ CHR ''.'' # drop k s) = Inr (of_nat (digits_value s) / 10 ^ (length s - k))"
proof -
  have nd: "\<not> is_digit (CHR ''.'')" "\<not> is_digit (CHR ''e'')" "\<not> is_digit (CHR ''E'')" by (simp_all add: is_digit_def)
  have dig: "\<forall>c \<in> set (take k s). is_digit c" "\<forall>c \<in> set (drop k s). is_digit c"
    using assms(1) by (auto dest: in_set_takeD in_set_dropD)
  let ?t = "take k s @ CHR ''.'' # drop k s"
  have "map (\<lambda>c. if c = CHR ''E'' then CHR ''e'' else c) ?t = ?t"
    by (rule map_idI) (use dig nd in auto)
  moreover have "CHR ''e'' \<notin> set ?t" using dig nd by auto
  ultimately have 1: "unsigned_float ?t = mantissa ?t" by (simp add: unsigned_float_def split_on_none)
  have "CHR ''.'' \<notin> set (take k s)" "CHR ''.'' \<notin> set (drop k s)" using dig nd by blast+
  then have 2: "split_on (CHR ''.'') ?t = [take k s, drop k s]" by (simp add: split_on_append split_on_none)
  have 3: "\<not> (take k s = [] \<and> drop k s = [])" using assms(3) by (metis append_take_drop_id append_Nil)
  have "digits_value s = digits_value (take k s) * 10 ^ length (drop k s) + digits_value (drop k s)"
    using digits_value_append [of "take k s" "drop k s"] by simp
  then have "(of_nat (digits_value s) :: rat) / 10 ^ (length s - k) = of_nat (digits_value (take k s)) + of_nat (digits_value (drop k s)) / 10 ^ length (drop k s)"
    by (simp add: add_divide_distrib)
  then show ?thesis using 3 unfolding 1 mantissa_def 2 by (auto simp: digit_run_digits [OF dig(1)] digit_run_digits [OF dig(2)])
qed

lemma strip_show_float: "strip (show_float x) = show_float x"
proof (rule strip_digits)
  have "\<not> is_space (CHR ''-'')" "\<not> is_space (CHR ''.'')" by (simp_all add: is_space_def)
  then show "\<forall>c \<in> set (show_float x). \<not> is_space c"
    using pad_digits_digits digit_not_space
    by (auto simp: show_float_def Let_def dest!: in_set_takeD in_set_dropD)
qed

lemma round_even_nonneg: "0 \<le> x \<Longrightarrow> 0 \<le> round_even x"
  by (simp add: round_even_def Let_def)

lemma round_even_nonpos: "x < 0 \<Longrightarrow> round_even x \<le> 0"
  using floor_less_iff [of x 0] by (auto simp: round_even_def Let_def)

lemma py_float_show_float: "py_float (show_float x) = Inr (of_int (millionths x) / 1000000)"
proof -
  let ?n = "nat \<bar>millionths x\<bar>"
  let ?s = "pad_digits ?n"
  let ?k = "length ?s - 6"
  let ?t = "take ?k ?s @ CHR ''.'' # drop ?k ?s"
  have len: "7 \<le> length ?s" by (rule pad_digits_length)
  have ne: "?s \<noteq> []" using len by auto
  have v: "unsigned_float ?t = Inr (of_nat ?n / 1000000)"
    using fixed_point_value [OF pad_digits_digits _ ne, of ?k] len by (simp add: pad_digits_value)
  obtain c cs where t: "?t = c # cs" using len by (cases ?t) auto
  have "take ?k ?s \<noteq> []" using len by auto
  then have "c \<in> set (take ?k ?s)" using t by (cases "take ?k ?s") auto
  then have "c \<in> set ?s" by (rule in_set_takeD)
  then have "is_digit c" using pad_digits_digits [of ?n] by blast
  then have c: "c \<noteq> CHR ''-''" "c \<noteq> CHR ''+''" by (auto simp: is_digit_def)
  show ?thesis
  proof (cases "x < 0")
    case True
    then have "millionths x \<le> 0" unfolding millionths_def by (intro round_even_nonpos) simp
    then have "of_nat ?n = (- of_int (millionths x) :: rat)" by simp
    moreover have "show_float x = CHR ''-'' # ?t" using True by (simp add: show_float_def Let_def)
    ultimately show ?thesis unfolding py_float_def strip_show_float using v by simp
  next
    case False
    then have "0 \<le> millionths x" unfolding millionths_def by (intro round_even_nonneg) simp
    then have "of_nat ?n = (of_int (millionths x) :: rat)" by simp
    moreover have "show_float x = ?t" using False by (simp add: show_float_def Let_def)
    ultimately show ?thesis unfolding py_float_def strip_show_float using v c t by simp
  qed
qed

definition exact6 :: "rat \<Rightarrow> bool" where
  "exact6 x \<longleftrightarrow> of_int (millionths x) = x * 1000000"

lemma py_float_exact: "exact6 x \<Longrightarrow> py_float (show_float x) = Inr x"
  by (simp add: py_float_show_float exact6_def)

subsection \<open>Lines\<close>

definition newline :: char where
  "newline = CHR 0x0A"

definition is_break :: "char \<Rightarrow> bool" where
  "is_break c \<longleftrightarrow> (let n = (of_char c :: nat) in (10 \<le> n \<and> n \<le> 13) \<or> (28 \<le> n \<and> n \<le> 30) \<or> n = 133)"

text \<open>\<open>s.splitlines()\<close>: a carriage return followed by a line feed is one break, and a final break adds no line.\<close>

lemma dropWhile_shorter: "dropWhile P s = c # d # more \<Longrightarrow> Suc (Suc (length more)) \<le> length s"
  using length_dropWhile_le [of P s] by simp

function splitlines :: "string \<Rightarrow> string list" where
  "splitlines s =
     (if s = [] then []
      else takeWhile (\<lambda>c. \<not> is_break c) s #
        (case dropWhile (\<lambda>c. \<not> is_break c) s of
           [] \<Rightarrow> []
         | [c] \<Rightarrow> []
         | c # d # more \<Rightarrow> if c = CHR 0x0D \<and> d = CHR 0x0A then splitlines more else splitlines (d # more)))"
  by auto
termination
  by (relation "measure length") (auto dest!: dropWhile_shorter)

declare splitlines.simps [simp del]

lemma takeWhile_break:
  assumes "\<forall>c \<in> set l. \<not> is_break c" and "is_break b"
  shows "takeWhile (\<lambda>c. \<not> is_break c) (l @ b # s) = l" "dropWhile (\<lambda>c. \<not> is_break c) (l @ b # s) = b # s"
  using assms by (induction l) simp_all

lemma splitlines_Nil [simp]: "splitlines [] = []"
  by (simp add: splitlines.simps)

lemma splitlines_line:
  assumes "\<forall>c \<in> set l. \<not> is_break c"
  shows "splitlines (l @ newline # s) = l # splitlines s"
proof -
  have b: "is_break newline" by (simp add: is_break_def newline_def Let_def)
  note tw = takeWhile_break [OF assms b, of s]
  show ?thesis by (subst splitlines.simps, unfold tw) (cases s; simp add: newline_def)
qed

lemma splitlines_last:
  "l \<noteq> [] \<Longrightarrow> \<forall>c \<in> set l. \<not> is_break c \<Longrightarrow> splitlines l = [l]"
proof -
  assume l: "l \<noteq> []" "\<forall>c \<in> set l. \<not> is_break c"
  then have tw: "takeWhile (\<lambda>c. \<not> is_break c) l = l" "dropWhile (\<lambda>c. \<not> is_break c) l = []" by (simp_all add: takeWhile_eq_all_conv dropWhile_eq_Nil_conv)
  show ?thesis using l(1) by (subst splitlines.simps, unfold tw) simp
qed

definition unlines :: "string list \<Rightarrow> string" where
  "unlines ls = concat (map (\<lambda>l. l @ [newline]) ls)"

lemma splitlines_unlines:
  "\<forall>l \<in> set ls. \<forall>c \<in> set l. \<not> is_break c \<Longrightarrow> splitlines (unlines ls @ s) = ls @ splitlines s"
  by (induction ls) (simp_all add: unlines_def splitlines_line)

subsection \<open>Tokens\<close>

text \<open>Fields separated by single spaces, the format of all trial files.\<close>

definition words :: "string list \<Rightarrow> string" where
  "words ws = join_with '' '' ws"

definition word_ok :: "string \<Rightarrow> bool" where
  "word_ok w \<longleftrightarrow> (\<forall>c \<in> set w. c \<noteq> CHR '' '' \<and> \<not> is_break c)"

lemma split_words: "ws \<noteq> [] \<Longrightarrow> \<forall>w \<in> set ws. word_ok w \<Longrightarrow> split_on (CHR '' '') (words ws) = ws"
  unfolding words_def by (rule split_join) (auto simp: word_ok_def)

lemma words_no_break: "\<forall>w \<in> set ws. word_ok w \<Longrightarrow> \<forall>c \<in> set (words ws). \<not> is_break c"
proof
  fix c assume w: "\<forall>w \<in> set ws. word_ok w" and c: "c \<in> set (words ws)"
  from set_join [of "'' ''" ws] c have "c = CHR '' '' \<or> (\<exists>w \<in> set ws. c \<in> set w)" unfolding words_def by auto
  moreover have "\<not> is_break (CHR '' '')" by (simp add: is_break_def Let_def)
  ultimately show "\<not> is_break c" using w unfolding word_ok_def by blast
qed

lemma digit_no_break: "is_digit c \<Longrightarrow> \<not> is_break c"
  by (auto simp: is_digit_def is_break_def Let_def)

lemma word_ok_int [simp]: "word_ok (show_int i)"
proof -
  have "\<not> is_break (CHR ''-'')" "\<not> is_digit (CHR '' '')" by (simp_all add: is_break_def is_digit_def Let_def)
  then show ?thesis using show_nat_digits digit_no_break by (auto simp: word_ok_def show_int_def)
qed

lemma word_ok_float [simp]: "word_ok (show_float x)"
proof -
  have "\<not> is_break (CHR ''-'')" "\<not> is_break (CHR ''.'')" "\<not> is_digit (CHR '' '')" by (simp_all add: is_break_def is_digit_def Let_def)
  then show ?thesis using pad_digits_digits digit_no_break
    by (auto simp: word_ok_def show_float_def Let_def dest!: in_set_takeD in_set_dropD)
qed

lemma show_int_nonempty [simp]: "show_int i \<noteq> []"
  by (simp add: show_int_def show_nat_nonempty)

lemma show_float_nonempty [simp]: "show_float x \<noteq> []"
  by (simp add: show_float_def Let_def)

subsection \<open>Files of lines\<close>

text \<open>
  A line format: what is written for a value has no line break and is read back as the value.  A file
  of such lines is then read back record by record, whatever the reader does with the records.
\<close>

locale line_codec =
  fixes ok :: "'a \<Rightarrow> bool"
    and line :: "'a \<Rightarrow> string"
    and parse :: "string \<Rightarrow> 'a res"
  assumes line_unbroken: "ok x \<Longrightarrow> \<forall>c \<in> set (line x). \<not> is_break c"
    and parse_line: "ok x \<Longrightarrow> parse (line x) = Inr x"
begin

lemma lines_of_file: "\<forall>x \<in> set xs. ok x \<Longrightarrow> splitlines (unlines (map line xs) @ s) = map line xs @ splitlines s"
  by (rule splitlines_unlines) (use line_unbroken in auto)

lemma fold_lines:
  "\<forall>x \<in> set xs. ok x \<Longrightarrow> fold_res (\<lambda>d l. rbind (parse l) (\<lambda>x. Inr (g d x))) d (map line xs) = Inr (foldl g d xs)"
  by (induction xs arbitrary: d) (simp_all add: parse_line)

lemma read_file:
  assumes "\<forall>x \<in> set xs. ok x"
  shows "fold_res (\<lambda>d l. rbind (parse l) (\<lambda>x. Inr (g d x))) d (splitlines (unlines (map line xs))) = Inr (foldl g d xs)"
  using lines_of_file [OF assms, of "[]"] fold_lines [OF assms] by simp

end

lemma foldl_dict_of: "foldl (\<lambda>d x. dict_set d (key x) x) d xs = fold (\<lambda>(k, v) d. dict_set d k v) (map (\<lambda>x. (key x, x)) xs) d"
  by (induction xs arbitrary: d) simp_all

lemma foldl_values:
  assumes "dict_wf d" and "\<forall>(k, x) \<in> set d. key x = k"
  shows "foldl (\<lambda>d x. dict_set d (key x) x) [] (dict_values d) = d"
proof -
  have "map (\<lambda>x. (key x, x)) (dict_values d) = d" using assms(2) by (induction d) auto
  then show ?thesis using assms(1) dict_of_distinct [of d] unfolding foldl_dict_of dict_of_def dict_wf_def by simp
qed

end
