(* ===== verification/Flow_Mirroring.thy ===== *)
theory Flow_Mirroring
  imports Float_Text
begin

section \<open>Flow mirroring trials\<close>

text \<open>
  Models \<open>rest_client/trials/flow_mirroring_trial.py\<close>: the flow, switch and solution definitions with the
  text files they are written to and read from, and the trial with its choice of solution.  A file
  is a string; the external solver that writes the files in the first place is a parameter.
\<close>

subsection \<open>Lists of numbers\<close>

text \<open>\<open>to_undelimited_list\<close>: an empty list has no last element.\<close>

definition to_undelimited_list :: "int list \<Rightarrow> string res" where
  "to_undelimited_list python_list =
     (if python_list = [] then Inl IndexError
      else Inr (concat (map (\<lambda>e. show_int e @ '' '') (butlast python_list)) @ show_int (last python_list)))"

lemma undelimited_words:
  "xs \<noteq> [] \<Longrightarrow> concat (map (\<lambda>e. show_int e @ '' '') (butlast xs)) @ show_int (last xs) = words (map show_int xs)"
proof (induction xs)
  case (Cons x xs)
  then show ?case by (cases xs) (simp_all add: words_def)
qed simp

lemma to_undelimited_list_ok: "xs \<noteq> [] \<Longrightarrow> to_undelimited_list xs = Inr (words (map show_int xs))"
  by (simp add: to_undelimited_list_def undelimited_words)

lemma words_Cons: "ws \<noteq> [] \<Longrightarrow> words (w # ws) = w @ '' '' @ words ws"
  by (cases ws) (simp_all add: words_def)

lemma map_res_py_int [simp]: "map_res py_int (map show_int xs) = Inr xs"
  by (induction xs) simp_all

subsection \<open>Flows\<close>

record flow_definition =
  fd_flow_id :: int
  fd_traffic_rate :: pyfloat
  fd_path :: "int list"

definition flow_line :: "flow_definition \<Rightarrow> string res" where
  "flow_line flow =
     rbind (to_undelimited_list (fd_path flow)) (\<lambda>p.
       Inr (show_int (fd_flow_id flow) @ '' '' @ show_float (fd_traffic_rate flow) @ '' '' @ p))"

definition flows_serialize :: "(int, flow_definition) dict \<Rightarrow> string res" where
  "flows_serialize flows =
     fold_res (\<lambda>s flow. rbind (flow_line flow) (\<lambda>l. Inr (s @ l @ [newline]))) [] (dict_values flows)"

definition parse_flow_line :: "string \<Rightarrow> flow_definition res" where
  "parse_flow_line line = (case split_on (CHR '' '') line of
     flow_id # traffic_rate # path \<Rightarrow>
       rbind (py_int flow_id) (\<lambda>i. rbind (py_float traffic_rate) (\<lambda>r. rbind (map_res py_int path) (\<lambda>p.
       Inr \<lparr>fd_flow_id = i, fd_traffic_rate = r, fd_path = p\<rparr>)))
   | _ \<Rightarrow> Inl ValueError)"

definition flows_deserialize :: "string \<Rightarrow> (int, flow_definition) dict res" where
  "flows_deserialize txt =
     fold_res (\<lambda>flows line. rbind (parse_flow_line line) (\<lambda>flow. Inr (dict_set flows (fd_flow_id flow) flow))) [] (splitlines txt)"

subsection \<open>Switches\<close>

record switch_definition =
  sd_switch_id :: int
  sd_resident_flows :: "int list"

definition switch_line :: "switch_definition \<Rightarrow> string res" where
  "switch_line switch =
     (if 0 < length (sd_resident_flows switch)
      then rbind (to_undelimited_list (sd_resident_flows switch)) (\<lambda>p. Inr (show_int (sd_switch_id switch) @ '' '' @ p))
      else Inr (show_int (sd_switch_id switch)))"

definition switches_serialize :: "(int, switch_definition) dict \<Rightarrow> string res" where
  "switches_serialize switches =
     fold_res (\<lambda>s switch. rbind (switch_line switch) (\<lambda>l. Inr (s @ l @ [newline]))) [] (dict_values switches)"

definition parse_switch_line :: "string \<Rightarrow> switch_definition res" where
  "parse_switch_line line = (case split_on (CHR '' '') line of
     switch_id # resident_flows \<Rightarrow>
       rbind (py_int switch_id) (\<lambda>i. rbind (map_res py_int resident_flows) (\<lambda>fs.
       Inr \<lparr>sd_switch_id = i, sd_resident_flows = fs\<rparr>))
   | [] \<Rightarrow> Inl ValueError)"

definition switches_deserialize :: "string \<Rightarrow> (int, switch_definition) dict res" where
  "switches_deserialize txt =
     fold_res (\<lambda>switches line. rbind (parse_switch_line line) (\<lambda>sw. Inr (dict_set switches (sd_switch_id sw) sw))) [] (splitlines txt)"

subsection \<open>Solutions\<close>

record solution_definition =
  so_flow_id :: int
  so_mirror_switch_id :: int
  so_objective_value :: pyfloat

text \<open>The objective written is that of the last solution; without solutions \<open>'%f' % None\<close> raises.\<close>

definition solutions_serialize :: "(int, solution_definition) dict \<Rightarrow> string res" where
  "solutions_serialize solutions =
     (let lines = map (\<lambda>sol. show_int (so_flow_id sol) @ '' '' @ show_int (so_mirror_switch_id sol)) (dict_values solutions)
      in if solutions = [] then Inl TypeError
         else Inr (unlines lines @ show_float (so_objective_value (last (dict_values solutions)))))"

definition parse_pair :: "string \<Rightarrow> (int \<times> int) res" where
  "parse_pair line = (case split_on (CHR '' '') line of
     [a, b] \<Rightarrow> rbind (py_int a) (\<lambda>i. rbind (py_int b) (\<lambda>j. Inr (i, j)))
   | _ \<Rightarrow> Inl ValueError)"

definition solutions_deserialize :: "string \<Rightarrow> (int, solution_definition) dict res" where
  "solutions_deserialize txt =
     (let lines = splitlines txt in
      rbind (py_nth lines (- 1)) (\<lambda>obj. rbind (py_float obj) (\<lambda>objective_value.
      fold_res (\<lambda>solutions line. rbind (parse_pair line) (\<lambda>(flow_id, mirror_switch_id).
        Inr (dict_set solutions flow_id \<lparr>so_flow_id = flow_id, so_mirror_switch_id = mirror_switch_id, so_objective_value = objective_value\<rparr>)))
        [] (butlast lines))))"

subsection \<open>The trial\<close>

record flow_mirroring_trial =
  fm_topology :: string
  fm_flows :: "(int, flow_definition) dict"
  fm_switches :: "(int, switch_definition) dict"
  fm_approx_solutions :: "(int, solution_definition) dict"
  fm_optimal_solutions :: "(int, solution_definition) dict"
  fm_duration :: nat
  fm_name :: string
  fm_solutions :: "(int, solution_definition) dict"
  fm_solution_type :: string

definition new_flow_mirroring_trial ::
    "string \<Rightarrow> (int, flow_definition) dict \<Rightarrow> (int, switch_definition) dict \<Rightarrow> (int, solution_definition) dict
      \<Rightarrow> (int, solution_definition) dict \<Rightarrow> nat \<Rightarrow> string \<Rightarrow> flow_mirroring_trial" where
  "new_flow_mirroring_trial topology flows switches approx optimal duration name =
     \<lparr>fm_topology = topology, fm_flows = flows, fm_switches = switches, fm_approx_solutions = approx, fm_optimal_solutions = optimal,
      fm_duration = duration, fm_name = name, fm_solutions = approx, fm_solution_type = ''approx''\<rparr>"

text \<open>In the branch for \<open>approx\<close> the source assigns a local variable, not the attribute.\<close>

definition fm_set_solution_type :: "flow_mirroring_trial \<Rightarrow> string \<Rightarrow> flow_mirroring_trial res" where
  "fm_set_solution_type t type_name =
     (let lower_type_name = lower type_name in
      if lower_type_name = ''optimal'' then Inr (t\<lparr>fm_solutions := fm_optimal_solutions t, fm_solution_type := lower_type_name\<rparr>)
      else if lower_type_name = ''approx'' then Inr (t\<lparr>fm_solution_type := lower_type_name\<rparr>)
      else Inl ValueError)"

definition fm_get_solution_types :: "flow_mirroring_trial \<Rightarrow> string list" where
  "fm_get_solution_types t = [''approx'', ''optimal'']"

text \<open>\<open>create_trial\<close> reads what the external solver left in its directory (\<open>files\<close> gives the text of a file).\<close>

definition fm_create_trial :: "(string \<Rightarrow> string res) \<Rightarrow> string \<Rightarrow> nat \<Rightarrow> string \<Rightarrow> flow_mirroring_trial res" where
  "fm_create_trial files topology duration name =
     rbind (rbind (files ''network/flows'') flows_deserialize) (\<lambda>flows.
     rbind (rbind (files ''network/switches'') switches_deserialize) (\<lambda>switches.
     rbind (rbind (files ''solutions/approx'') solutions_deserialize) (\<lambda>approx_solutions.
     rbind (rbind (files ''solutions/opt'') solutions_deserialize) (\<lambda>optimal_solutions.
     Inr (new_flow_mirroring_trial topology flows switches approx_solutions optimal_solutions duration name)))))"

definition fm_verify_trial :: "flow_mirroring_trial \<Rightarrow> bool" where
  "fm_verify_trial t \<longleftrightarrow> (\<forall>flow_id \<in> set (dict_keys (fm_flows t)).
     dict_has (fm_approx_solutions t) flow_id \<and> dict_has (fm_optimal_solutions t) flow_id)"

definition fm_build_results_files :: "flow_mirroring_trial \<Rightarrow> string \<Rightarrow> (string, string) dict res" where
  "fm_build_results_files t utilization_text =
     rbind (flows_serialize (fm_flows t)) (\<lambda>flow_text.
     rbind (switches_serialize (fm_switches t)) (\<lambda>switch_text.
     rbind (solutions_serialize (fm_solutions t)) (\<lambda>solution_text.
     Inr [(''utilization-results.txt'', utilization_text), (''topo'', fm_topology t), (''flows'', flow_text),
          (''switches'', switch_text), (''solutions'', solution_text)])))"

subsection \<open>Reading back what was written\<close>

definition flow_ok :: "flow_definition \<Rightarrow> bool" where
  "flow_ok f \<longleftrightarrow> fd_path f \<noteq> [] \<and> exact6 (fd_traffic_rate f)"

definition flow_words :: "flow_definition \<Rightarrow> string" where
  "flow_words f = words (show_int (fd_flow_id f) # show_float (fd_traffic_rate f) # map show_int (fd_path f))"

definition switch_words :: "switch_definition \<Rightarrow> string" where
  "switch_words sw = words (show_int (sd_switch_id sw) # map show_int (sd_resident_flows sw))"

definition pair_words :: "int \<times> int \<Rightarrow> string" where
  "pair_words p = words [show_int (fst p), show_int (snd p)]"

interpretation flow_lines: line_codec flow_ok flow_words parse_flow_line
proof unfold_locales
  fix f assume f: "flow_ok f"
  let ?ws = "show_int (fd_flow_id f) # show_float (fd_traffic_rate f) # map show_int (fd_path f)"
  show "\<forall>c \<in> set (flow_words f). \<not> is_break c" unfolding flow_words_def by (rule words_no_break) auto
  have "split_on (CHR '' '') (flow_words f) = ?ws" unfolding flow_words_def by (rule split_words) auto
  then show "parse_flow_line (flow_words f) = Inr f" using f by (simp add: parse_flow_line_def flow_ok_def py_float_exact)
qed

interpretation switch_lines: line_codec "\<lambda>_. True" switch_words parse_switch_line
proof unfold_locales
  fix sw
  show "\<forall>c \<in> set (switch_words sw). \<not> is_break c" unfolding switch_words_def by (rule words_no_break) auto
  have "split_on (CHR '' '') (switch_words sw) = show_int (sd_switch_id sw) # map show_int (sd_resident_flows sw)"
    unfolding switch_words_def by (rule split_words) auto
  then show "parse_switch_line (switch_words sw) = Inr sw" by (simp add: parse_switch_line_def)
qed

interpretation pair_lines: line_codec "\<lambda>_. True" pair_words parse_pair
proof unfold_locales
  fix p
  show "\<forall>c \<in> set (pair_words p). \<not> is_break c" unfolding pair_words_def by (rule words_no_break) auto
  have "split_on (CHR '' '') (pair_words p) = [show_int (fst p), show_int (snd p)]" unfolding pair_words_def by (rule split_words) auto
  then show "parse_pair (pair_words p) = Inr p" by (simp add: parse_pair_def)
qed

lemma flow_line_words: "fd_path f \<noteq> [] \<Longrightarrow> flow_line f = Inr (flow_words f)"
  by (simp add: flow_line_def flow_words_def to_undelimited_list_ok words_Cons)

lemma switch_line_words: "switch_line sw = Inr (switch_words sw)"
proof (cases "sd_resident_flows sw = []")
  case True
  then show ?thesis by (simp add: switch_line_def switch_words_def words_def)
next
  case False
  then show ?thesis by (simp add: switch_line_def switch_words_def to_undelimited_list_ok words_Cons)
qed

text \<open>Writing line by line is writing the file of the lines.\<close>

lemma serialize_lines:
  assumes "\<forall>x \<in> set xs. mk x = Inr (line x)"
  shows "fold_res (\<lambda>s x. rbind (mk x) (\<lambda>l. Inr (s @ l @ [newline]))) s xs = Inr (s @ unlines (map line xs))"
  using assms by (induction xs arbitrary: s) (simp_all add: unlines_def)

text \<open>A dictionary under the identifiers of its values.\<close>

definition keyed :: "('a \<Rightarrow> int) \<Rightarrow> (int, 'a) dict \<Rightarrow> bool" where
  "keyed key d \<longleftrightarrow> dict_wf d \<and> (\<forall>(k, x) \<in> set d. key x = k)"

lemma foldl_keyed: "keyed key d \<Longrightarrow> foldl (\<lambda>d x. dict_set d (key x) x) [] (dict_values d) = d"
  unfolding keyed_def by (intro foldl_values) auto

lemma flows_roundtrip:
  assumes "keyed fd_flow_id flows" and "\<forall>f \<in> set (dict_values flows). flow_ok f"
  shows "flows_serialize flows = Inr (unlines (map flow_words (dict_values flows)))
    \<and> flows_deserialize (unlines (map flow_words (dict_values flows))) = Inr flows"
proof -
  have "\<forall>f \<in> set (dict_values flows). flow_line f = Inr (flow_words f)"
    using assms(2) flow_line_words by (simp add: flow_ok_def)
  then have "flows_serialize flows = Inr (unlines (map flow_words (dict_values flows)))"
    unfolding flows_serialize_def by (subst serialize_lines) simp_all
  moreover have "flows_deserialize (unlines (map flow_words (dict_values flows))) = Inr flows"
    unfolding flows_deserialize_def flow_lines.read_file [OF assms(2)] foldl_keyed [OF assms(1)] ..
  ultimately show ?thesis ..
qed

lemma switches_roundtrip:
  assumes "keyed sd_switch_id switches"
  shows "switches_serialize switches = Inr (unlines (map switch_words (dict_values switches)))
    \<and> switches_deserialize (unlines (map switch_words (dict_values switches))) = Inr switches"
proof -
  have "switches_serialize switches = Inr (unlines (map switch_words (dict_values switches)))"
    unfolding switches_serialize_def by (subst serialize_lines) (simp_all add: switch_line_words)
  moreover have "switches_deserialize (unlines (map switch_words (dict_values switches))) = Inr switches"
    unfolding switches_deserialize_def switch_lines.read_file [OF ballI [OF TrueI]] foldl_keyed [OF assms] ..
  ultimately show ?thesis ..
qed

definition solutions_ok :: "(int, solution_definition) dict \<Rightarrow> bool" where
  "solutions_ok sols \<longleftrightarrow> sols \<noteq> [] \<and> keyed so_flow_id sols
     \<and> (\<exists>v. exact6 v \<and> (\<forall>sol \<in> set (dict_values sols). so_objective_value sol = v))"

lemma pair_line_words: "show_int a @ '' '' @ show_int b = pair_words (a, b)"
  by (simp add: pair_words_def words_def)

lemma float_line: "\<forall>c \<in> set (show_float v). \<not> is_break c"
  using word_ok_float [of v] by (simp add: word_ok_def)

text \<open>A file of pairs with a number on the last line, as its reader splits it.\<close>

lemma pairs_then_float:
  "splitlines (unlines (map pair_words ps) @ show_float v) = map pair_words ps @ [show_float v]"
  using pair_lines.lines_of_file [of ps "show_float v"] splitlines_last [OF show_float_nonempty float_line] by simp

lemma solutions_roundtrip:
  assumes "solutions_ok sols"
  shows "\<exists>txt. solutions_serialize sols = Inr txt \<and> solutions_deserialize txt = Inr sols"
proof -
  from assms obtain v where v: "sols \<noteq> []" "keyed so_flow_id sols" "exact6 v" "\<forall>sol \<in> set (dict_values sols). so_objective_value sol = v"
    unfolding solutions_ok_def by blast
  let ?ps = "map (\<lambda>sol. (so_flow_id sol, so_mirror_switch_id sol)) (dict_values sols)"
  let ?txt = "unlines (map pair_words ?ps) @ show_float v"
  let ?g = "\<lambda>solutions p. dict_set solutions (fst p) \<lparr>so_flow_id = fst p, so_mirror_switch_id = snd p, so_objective_value = v\<rparr>"
  have "so_objective_value (last (dict_values sols)) = v" using v(1,4) by (metis last_in_set map_is_Nil_conv)
  then have 1: "solutions_serialize sols = Inr ?txt"
    using v(1) by (simp add: solutions_serialize_def Let_def pair_line_words [simplified] comp_def)
  have lines: "splitlines ?txt = map pair_words ?ps @ [show_float v]" by (rule pairs_then_float)
  have "solutions_deserialize ?txt = fold_res (\<lambda>d l. rbind (parse_pair l) (\<lambda>p. Inr (?g d p))) [] (map pair_words ?ps)"
    unfolding solutions_deserialize_def lines Let_def using py_float_exact [OF v(3)]
    by (simp add: py_nth_last case_prod_unfold)
  also have "\<dots> = Inr (foldl ?g [] ?ps)" by (rule pair_lines.fold_lines) simp
  also have "foldl ?g [] ?ps = foldl (\<lambda>d sol. dict_set d (so_flow_id sol) sol) [] (dict_values sols)"
  proof -
    have "foldl ?g d (map (\<lambda>sol. (so_flow_id sol, so_mirror_switch_id sol)) xs) = foldl (\<lambda>d sol. dict_set d (so_flow_id sol) sol) d xs"
      if "\<forall>sol \<in> set xs. so_objective_value sol = v" for d and xs :: "solution_definition list"
      using that
    proof (induction xs arbitrary: d)
      case (Cons sol xs)
      have same: "\<lparr>so_flow_id = so_flow_id sol, so_mirror_switch_id = so_mirror_switch_id sol, so_objective_value = v\<rparr> = sol"
        using Cons.prems by (cases sol) simp
      show ?case unfolding list.map foldl.simps fst_conv snd_conv same using Cons by simp
    qed simp
    then show ?thesis using v(4) by blast
  qed
  also have "\<dots> = sols" by (rule foldl_keyed [OF v(2)])
  finally show ?thesis using 1 by blast
qed

subsection \<open>Properties\<close>

definition fm_trial_ok :: "flow_mirroring_trial \<Rightarrow> bool" where
  "fm_trial_ok t \<longleftrightarrow> keyed fd_flow_id (fm_flows t) \<and> (\<forall>f \<in> set (dict_values (fm_flows t)). flow_ok f)
     \<and> keyed sd_switch_id (fm_switches t) \<and> solutions_ok (fm_solutions t)"

definition ex_fm_trial :: flow_mirroring_trial where
  "ex_fm_trial = new_flow_mirroring_trial ''t'' [(1, \<lparr>fd_flow_id = 1, fd_traffic_rate = 1 / 4, fd_path = [3, 4]\<rparr>)]
     [(3, \<lparr>sd_switch_id = 3, sd_resident_flows = [1]\<rparr>), (5, \<lparr>sd_switch_id = 5, sd_resident_flows = []\<rparr>)]
     [(1, \<lparr>so_flow_id = 1, so_mirror_switch_id = 3, so_objective_value = 1 / 2\<rparr>)]
     [(1, \<lparr>so_flow_id = 1, so_mirror_switch_id = 4, so_objective_value = 1 / 4\<rparr>)] 300 ''n''"

text \<open>
  The result files of a flow mirroring trial read back as the trial's flows, switches and
  current solutions, provided every flow has a path, there is a solution, all solutions share one
  objective, and rates and objective are whole millionths (the precision of the files).
\<close>

theorem flow_mirroring_files_roundtrip:
  assumes "fm_trial_ok t"
  shows "\<exists>flow_text switch_text solution_text.
    fm_build_results_files t u = Inr [(''utilization-results.txt'', u), (''topo'', fm_topology t), (''flows'', flow_text),
      (''switches'', switch_text), (''solutions'', solution_text)]
    \<and> flows_deserialize flow_text = Inr (fm_flows t) \<and> switches_deserialize switch_text = Inr (fm_switches t)
    \<and> solutions_deserialize solution_text = Inr (fm_solutions t)"
proof -
  have t: "keyed fd_flow_id (fm_flows t)" "\<forall>f \<in> set (dict_values (fm_flows t)). flow_ok f" "keyed sd_switch_id (fm_switches t)"
    "solutions_ok (fm_solutions t)" using assms unfolding fm_trial_ok_def by blast+
  from solutions_roundtrip [OF t(4)] obtain body where
    "solutions_serialize (fm_solutions t) = Inr body" "solutions_deserialize body = Inr (fm_solutions t)" by blast
  with flows_roundtrip [OF t(1,2)] switches_roundtrip [OF t(3)] show ?thesis by (simp add: fm_build_results_files_def)
qed

theorem flow_mirroring_files_roundtrip_witness:
  "\<exists>flow_text switch_text solution_text.
    fm_build_results_files ex_fm_trial ''u'' = Inr [(''utilization-results.txt'', ''u''), (''topo'', fm_topology ex_fm_trial), (''flows'', flow_text),
      (''switches'', switch_text), (''solutions'', solution_text)]
    \<and> flows_deserialize flow_text = Inr (fm_flows ex_fm_trial) \<and> switches_deserialize switch_text = Inr (fm_switches ex_fm_trial)
    \<and> solutions_deserialize solution_text = Inr (fm_solutions ex_fm_trial)"
proof (rule flow_mirroring_files_roundtrip)
  have e: "exact6 (1 / 4)" "exact6 (1 / 2)" by (code_simp, code_simp)
  show "fm_trial_ok ex_fm_trial"
    using e by (auto simp: fm_trial_ok_def ex_fm_trial_def new_flow_mirroring_trial_def keyed_def dict_wf_def flow_ok_def solutions_ok_def)
qed

text \<open>
  What cannot be written raises: a flow without a path \<open>IndexError\<close>, a trial whose current
  solutions are empty \<open>TypeError\<close>.
\<close>

theorem flow_mirroring_write_errors:
  "flows_serialize [(i, \<lparr>fd_flow_id = i, fd_traffic_rate = r, fd_path = []\<rparr>)] = Inl IndexError
   \<and> solutions_serialize [] = Inl TypeError"
  by (simp add: flows_serialize_def flow_line_def to_undelimited_list_def solutions_serialize_def)

end
