(* ===== verification/Port_Mirroring.thy ===== *)
theory Port_Mirroring
  imports Flow_Mirroring
begin

section \<open>Port mirroring trials\<close>

text \<open>
  Models \<open>rest_client/trials/port_mirroring_trial.py\<close>: flows with the port taken at every hop, switches with
  the flows on each port, solutions (which ports to mirror), their text files, and the trial.  The
  nodes of a flow are numbers in the files and device names once a trial is mapped to the network, so
  the flow record is polymorphic in them.  The solver's files, \<open>eval\<close> and \<open>pformat\<close> on the port map, and
  the topology service are parameters.
\<close>

subsection \<open>Flows\<close>

record 'n pm_flow =
  pf_flow_id :: int
  pf_traffic_rate :: pyfloat
  pf_hops :: "('n \<times> int) list"

definition pf_path :: "'n pm_flow \<Rightarrow> 'n list" where
  "pf_path f = map fst (pf_hops f)"

definition pf_ports :: "'n pm_flow \<Rightarrow> int list" where
  "pf_ports f = map snd (pf_hops f)"

definition path_to_str :: "(int \<times> int) list \<Rightarrow> string" where
  "path_to_str path =
     concat (map (\<lambda>(node_id, port_id). show_int node_id @ '' '' @ show_int port_id @ '' '') (butlast path)) @
     (if 0 < length path then show_int (fst (last path)) @ '' '' @ show_int (snd (last path)) else '''')"

definition pm_flow_line :: "int pm_flow \<Rightarrow> string" where
  "pm_flow_line flow = show_int (pf_flow_id flow) @ '' '' @ show_float (pf_traffic_rate flow) @ '' '' @ path_to_str (zip (pf_path flow) (pf_ports flow))"

definition pm_flows_serialize :: "(int, int pm_flow) dict \<Rightarrow> string" where
  "pm_flows_serialize flows = unlines (map pm_flow_line (dict_values flows))"

fun hop_pairs :: "string list \<Rightarrow> (int \<times> int) list res" where
  "hop_pairs (a # b # rest) = rbind (py_int a) (\<lambda>n. rbind (py_int b) (\<lambda>p. rbind (hop_pairs rest) (\<lambda>hs. Inr ((n, p) # hs))))"
| "hop_pairs _ = Inr []"

text \<open>The last token is read once more as a node without a port.\<close>

definition parse_pm_flow_line :: "string \<Rightarrow> int pm_flow res" where
  "parse_pm_flow_line line = (case split_on (CHR '' '') line of
     flow_id # traffic_rate # path_str \<Rightarrow>
       rbind (hop_pairs path_str) (\<lambda>path.
       rbind (rbind (py_nth path_str (- 1)) py_int) (\<lambda>last_node.
       rbind (py_int flow_id) (\<lambda>i. rbind (py_float traffic_rate) (\<lambda>r.
       Inr \<lparr>pf_flow_id = i, pf_traffic_rate = r, pf_hops = path @ [(last_node, 0)]\<rparr>))))
   | _ \<Rightarrow> Inl ValueError)"

definition pm_flows_deserialize :: "string \<Rightarrow> (int, int pm_flow) dict res" where
  "pm_flows_deserialize txt =
     fold_res (\<lambda>flows line. rbind (parse_pm_flow_line line) (\<lambda>flow. Inr (dict_set flows (pf_flow_id flow) flow))) [] (splitlines txt)"

subsection \<open>Switches and their ports\<close>

record switch_port =
  sp_port_id :: int
  sp_flow_rate :: pyfloat
  sp_flow_list :: "int list"

record pm_switch =
  sw_switch_id :: int
  sw_ports :: "switch_port list"

fun find_port :: "switch_port list \<Rightarrow> int \<Rightarrow> switch_port res" where
  "find_port [] port_id = Inl ValueError"
| "find_port (p # ps) port_id = (if sp_port_id p = port_id then Inr p else find_port ps port_id)"

definition get_port :: "pm_switch \<Rightarrow> int \<Rightarrow> switch_port res" where
  "get_port sw port_id = find_port (sw_ports sw) port_id"

definition rate_for_port :: "pm_switch \<Rightarrow> int \<Rightarrow> pyfloat res" where
  "rate_for_port sw port_id = rbind (find_port (sw_ports sw) port_id) (\<lambda>p. Inr (sp_flow_rate p))"

definition flow_list_to_str :: "int list \<Rightarrow> string" where
  "flow_list_to_str flow_list = concat (map (\<lambda>i. show_int i @ '' '') (butlast flow_list)) @ (if 0 < length flow_list then show_int (last flow_list) else '''')"

definition port_line :: "int \<times> switch_port \<Rightarrow> string" where
  "port_line = (\<lambda>(switch_id, port). show_int switch_id @ '' '' @ show_int (sp_port_id port) @ '' '' @ show_float (sp_flow_rate port)
     @ '' '' @ flow_list_to_str (sp_flow_list port))"

definition pm_switches_serialize :: "(int, pm_switch) dict \<Rightarrow> string" where
  "pm_switches_serialize switches =
     unlines (concat (map (\<lambda>switch. map (\<lambda>port. port_line (sw_switch_id switch, port)) (sw_ports switch)) (dict_values switches)))"

definition parse_port_line :: "string \<Rightarrow> (int \<times> switch_port) res" where
  "parse_port_line line = (case split_on (CHR '' '') line of
     switch_id # port_id # port_rate # flow_list \<Rightarrow>
       rbind (py_int switch_id) (\<lambda>s. rbind (py_int port_id) (\<lambda>p. rbind (py_float port_rate) (\<lambda>r.
       rbind (map_res py_int (filter (\<lambda>w. w \<noteq> []) flow_list)) (\<lambda>fs.
       Inr (s, \<lparr>sp_port_id = p, sp_flow_rate = r, sp_flow_list = fs\<rparr>)))))
   | _ \<Rightarrow> Inl ValueError)"

definition pm_switches_deserialize :: "string \<Rightarrow> (int, pm_switch) dict res" where
  "pm_switches_deserialize txt =
     rbind (fold_res (\<lambda>ports line. rbind (parse_port_line line) (\<lambda>x. Inr (group_append ports x))) [] (splitlines txt)) (\<lambda>ports.
     Inr (dict_of (map (\<lambda>(switch_id, ps). (switch_id, \<lparr>sw_switch_id = switch_id, sw_ports = ps\<rparr>)) ports)))"

subsection \<open>Solutions\<close>

record 'n pm_solution =
  ms_switch_id :: 'n
  ms_switch_port :: int
  ms_objective :: pyfloat
  ms_coverage :: "pyfloat option"

type_synonym 'n pm_solutions = "(int, 'n pm_solution list) dict"

definition pm_solutions_serialize :: "int pm_solutions \<Rightarrow> string res" where
  "pm_solutions_serialize solutions =
     (let sols = concat (dict_values solutions) in
      if sols = [] then Inl TypeError
      else Inr (unlines (map (\<lambda>sol. show_int (ms_switch_id sol) @ '' '' @ show_int (ms_switch_port sol)) sols) @ show_float (ms_objective (last sols))))"

definition pm_solutions_deserialize :: "string \<Rightarrow> int pm_solutions res" where
  "pm_solutions_deserialize txt =
     (let lines = splitlines txt in
      rbind (rbind (py_nth lines (- 1)) py_float) (\<lambda>objective_value.
      fold_res (\<lambda>solutions line. rbind (parse_pair line) (\<lambda>(switch_id, port_id).
        Inr (group_append solutions (switch_id, \<lparr>ms_switch_id = switch_id, ms_switch_port = port_id, ms_objective = objective_value, ms_coverage = None\<rparr>))))
        [] (butlast lines)))"

text \<open>
  \<open>RndPortMirroringSolution.serialize\<close> loops over \<open>solutions_list\<close>, a name that does not exist; without solutions it
  formats \<open>None\<close>.
\<close>

definition rnd_solutions_serialize :: "int pm_solutions \<Rightarrow> string res" where
  "rnd_solutions_serialize rnd_solutions = (if rnd_solutions = [] then Inl TypeError else Inl NameError)"

definition rnd_solutions_deserialize :: "string \<Rightarrow> int pm_solutions res" where
  "rnd_solutions_deserialize txt =
     (let lines = splitlines txt in
      rbind (rbind (py_nth lines (- 2)) py_float) (\<lambda>objective_value.
      rbind (rbind (py_nth lines (- 1)) py_float) (\<lambda>coverage.
      fold_res (\<lambda>solutions line. rbind (parse_pair line) (\<lambda>(switch_id, port_id).
        Inr (group_append solutions (switch_id, \<lparr>ms_switch_id = switch_id, ms_switch_port = port_id, ms_objective = objective_value, ms_coverage = Some coverage\<rparr>))))
        [] (butlast (butlast lines)))))"

subsection \<open>The port map\<close>

type_synonym port_map = "(int, (int, int) dict) dict"

definition get_port_connecting :: "port_map \<Rightarrow> int \<Rightarrow> int \<Rightarrow> int res" where
  "get_port_connecting pm source_switch destination_switch =
     rbind (dict_get pm source_switch) (\<lambda>d. dict_get d destination_switch)"

subsection \<open>The trial\<close>

record 'n pm_trial =
  pt_topology :: string
  pt_flows :: "(int, 'n pm_flow) dict"
  pt_switches :: "(int, pm_switch) dict"
  pt_det :: "'n pm_solutions option"
  pt_df :: "'n pm_solutions option"
  pt_greedy :: "'n pm_solutions option"
  pt_optimal :: "'n pm_solutions option"
  pt_rnd :: "'n pm_solutions option"
  pt_duration :: nat
  pt_name :: string
  pt_solutions :: "'n pm_solutions option"
  pt_solution_type :: string
  pt_mirroring_ports :: port_map
  pt_solution_types :: "string list"

definition new_pm_trial where
  "new_pm_trial topology flows switches det df greedy optimal rnd duration name mirroring_ports =
     \<lparr>pt_topology = topology, pt_flows = flows, pt_switches = switches, pt_det = det, pt_df = df, pt_greedy = greedy,
      pt_optimal = optimal, pt_rnd = rnd, pt_duration = duration, pt_name = name, pt_solutions = optimal,
      pt_solution_type = ''optimal'', pt_mirroring_ports = mirroring_ports,
      pt_solution_types = [''det'', ''df'', ''greedy'', ''optimal'', ''rnd'']\<rparr>"

definition get_solution_of_type :: "'n pm_trial \<Rightarrow> string \<Rightarrow> 'n pm_solutions option" where
  "get_solution_of_type t solution_type =
     (if solution_type = ''df'' then pt_df t
      else if solution_type = ''optimal'' then pt_optimal t
      else if solution_type = ''det'' then pt_det t
      else if solution_type = ''greedy'' then pt_greedy t
      else if solution_type = ''rnd'' then pt_rnd t
      else None)"

definition pm_set_solution_type :: "'n pm_trial \<Rightarrow> string \<Rightarrow> 'n pm_trial res" where
  "pm_set_solution_type t type_name =
     (let lower_type_name = lower type_name in
      rbind (if lower_type_name = ''det'' then Inr (pt_det t)
             else if lower_type_name = ''df'' then Inr (pt_df t)
             else if lower_type_name = ''greedy'' then Inr (pt_greedy t)
             else if lower_type_name = ''optimal'' then Inr (pt_optimal t)
             else if lower_type_name = ''rnd'' then Inr (pt_rnd t)
             else Inl ValueError) (\<lambda>sols.
      Inr (t\<lparr>pt_solutions := sols, pt_solution_type := lower_type_name\<rparr>)))"

text \<open>The flows on the ports a set of solutions mirrors; a missing solution has no \<open>items\<close>.\<close>

definition mirrored_flows :: "'n pm_trial \<Rightarrow> int pm_solutions option \<Rightarrow> int list res" where
  "mirrored_flows t sols = (case sols of
     None \<Rightarrow> Inl AttributeError
   | Some s \<Rightarrow> fold_res (\<lambda>acc sol.
       rbind (dict_get (pt_switches t) (ms_switch_id sol)) (\<lambda>sw.
       rbind (get_port sw (ms_switch_port sol)) (\<lambda>port.
       Inr (foldl set_add acc (sp_flow_list port))))) [] (concat (dict_values s)))"

definition verify_trial_state :: "int pm_trial \<Rightarrow> bool res" where
  "verify_trial_state t =
     rbind (map_res (\<lambda>ty. mirrored_flows t (get_solution_of_type t ty)) (pt_solution_types t)) (\<lambda>per_type.
     if per_type = [] then Inl NameError
     else Inr (length (last per_type) = length (pt_flows t)))"

definition pm_create_trial :: "(string \<Rightarrow> string res) \<Rightarrow> (string \<Rightarrow> port_map res) \<Rightarrow> string \<Rightarrow> nat \<Rightarrow> string \<Rightarrow> int pm_trial res" where
  "pm_create_trial files eval_text topology duration name =
     rbind (rbind (files ''network/flows'') pm_flows_deserialize) (\<lambda>flows.
     rbind (rbind (files ''network/switches'') pm_switches_deserialize) (\<lambda>switches.
     rbind (rbind (files ''network/ports'') eval_text) (\<lambda>mirroring_ports.
     rbind (rbind (files ''solutions/det'') pm_solutions_deserialize) (\<lambda>det.
     rbind (rbind (files ''solutions/df'') pm_solutions_deserialize) (\<lambda>df.
     rbind (rbind (files ''solutions/greedy_port'') pm_solutions_deserialize) (\<lambda>greedy.
     rbind (rbind (files ''solutions/opt'') pm_solutions_deserialize) (\<lambda>optimal.
     rbind (rbind (files ''solutions/rnd'') rnd_solutions_deserialize) (\<lambda>rnd.
     Inr (new_pm_trial topology flows switches (Some det) (Some df) (Some greedy) (Some optimal) (Some rnd) duration name mirroring_ports)))))))))"

definition from_repository_files ::
    "(string \<Rightarrow> port_map res) \<Rightarrow> (string, string) dict \<Rightarrow> string \<Rightarrow> nat \<Rightarrow> string \<Rightarrow> int pm_trial res" where
  "from_repository_files eval_text results solution_type duration name =
     rbind (rbind (dict_get results ''flows'') pm_flows_deserialize) (\<lambda>flows.
     rbind (rbind (dict_get results ''solutions'') pm_solutions_deserialize) (\<lambda>solutions.
     rbind (rbind (dict_get results ''switches'') pm_switches_deserialize) (\<lambda>switches.
     rbind (rbind (dict_get results ''ports'') eval_text) (\<lambda>mirroring_ports.
     rbind (dict_get results ''topo'') (\<lambda>topology.
     let only = (\<lambda>ty. if solution_type = ty then Some solutions else None) in
     if solution_type \<notin> {''det'', ''df'', ''greedy'', ''optimal'', ''rnd''} then Inl ValueError
     else Inr ((new_pm_trial topology flows switches (only ''det'') (only ''df'') (only ''greedy'') (only ''optimal'') (only ''rnd'')
         duration name mirroring_ports)\<lparr>pt_solution_types := [solution_type]\<rparr>))))))"

definition pm_build_results_files :: "(port_map \<Rightarrow> string) \<Rightarrow> int pm_trial \<Rightarrow> string \<Rightarrow> (string, string) dict res" where
  "pm_build_results_files pformat t utilization_text =
     (case pt_solutions t of None \<Rightarrow> Inl AttributeError | Some sols \<Rightarrow>
     rbind (pm_solutions_serialize sols) (\<lambda>solution_text.
     Inr [(''utilization-results.txt'', utilization_text), (''topo'', pt_topology t), (''flows'', pm_flows_serialize (pt_flows t)),
          (''switches'', pm_switches_serialize (pt_switches t)), (''solutions'', solution_text), (''ports'', pformat (pt_mirroring_ports t))]))"

text \<open>
  \<open>map_to_physical_network\<close>: device names for the switches, network ports for the ports, and the host's
  port at the last hop.  The topology service supplies the three maps.
\<close>

definition physical_flow ::
    "(int, string) dict \<Rightarrow> port_map \<Rightarrow> (string \<Rightarrow> int res) \<Rightarrow> int \<times> int pm_flow \<Rightarrow> (int \<times> string pm_flow) res" where
  "physical_flow id_to_dpid port_numbers get_host_port = (\<lambda>(flow_id, flow).
     rbind (map_res (dict_get id_to_dpid) (pf_path flow)) (\<lambda>new_path.
     rbind (map_res (\<lambda>(switch_id, port). get_port_connecting port_numbers switch_id port)
       (zip (butlast (pf_path flow)) (butlast (pf_ports flow)))) (\<lambda>new_ports.
     rbind (rbind (py_nth (pf_path flow) (- 1)) (dict_get id_to_dpid)) (\<lambda>last_hop_switch_dpid.
     rbind (get_host_port last_hop_switch_dpid) (\<lambda>last_hop_egress_port.
     Inr (flow_id, \<lparr>pf_flow_id = flow_id, pf_traffic_rate = pf_traffic_rate flow,
       pf_hops = zip new_path new_ports @ [(last_hop_switch_dpid, last_hop_egress_port)]\<rparr>))))))"

definition physical_solution :: "(int, string) dict \<Rightarrow> port_map \<Rightarrow> int \<times> int pm_solution \<Rightarrow> (int \<times> string pm_solution) res" where
  "physical_solution id_to_dpid port_numbers = (\<lambda>(switch_id, solution).
     rbind (dict_get id_to_dpid (ms_switch_id solution)) (\<lambda>s.
     rbind (get_port_connecting port_numbers (ms_switch_id solution) (ms_switch_port solution)) (\<lambda>p.
     Inr (switch_id, \<lparr>ms_switch_id = s, ms_switch_port = p, ms_objective = ms_objective solution, ms_coverage = None\<rparr>))))"

definition map_to_physical_network ::
    "(int, string) dict \<Rightarrow> port_map \<Rightarrow> (string \<Rightarrow> int res) \<Rightarrow> int pm_trial \<Rightarrow> string pm_trial res" where
  "map_to_physical_network id_to_dpid port_numbers get_host_port t =
     rbind (map_res (physical_flow id_to_dpid port_numbers get_host_port) (pt_flows t)) (\<lambda>new_flows.
     case pt_solutions t of None \<Rightarrow> Inl AttributeError | Some sols \<Rightarrow>
     rbind (map_res (physical_solution id_to_dpid port_numbers)
       (concat (map (\<lambda>(switch_id, solution_list). map (Pair switch_id) solution_list) sols))) (\<lambda>new_solutions.
     let only = (\<lambda>ty. if pt_solution_type t = ty then Some (foldl group_append [] new_solutions) else None)
     in pm_set_solution_type
          (new_pm_trial (pt_topology t) (dict_of new_flows) (pt_switches t) (only ''det'') (only ''df'') (only ''greedy'')
             (only ''optimal'') (only ''rnd'') (pt_duration t) (pt_name t) (pt_mirroring_ports t))
          (pt_solution_type t)))"

subsection \<open>Reading back what was written\<close>

definition hop_words :: "(int \<times> int) list \<Rightarrow> string list" where
  "hop_words hops = concat (map (\<lambda>(n, p). [show_int n, show_int p]) hops)"

lemma hop_words_ok: "\<forall>w \<in> set (hop_words hops). word_ok w"
  by (auto simp: hop_words_def)

lemma hop_words_nonempty: "hops \<noteq> [] \<Longrightarrow> hop_words hops \<noteq> []"
  by (cases hops) (auto simp: hop_words_def)

lemma path_to_str_words: "hops \<noteq> [] \<Longrightarrow> path_to_str hops = words (hop_words hops)"
proof (induction hops)
  case (Cons h hops)
  show ?case
  proof (cases hops)
    case Nil
    then show ?thesis by (cases h) (simp add: path_to_str_def hop_words_def words_def)
  next
    case (Cons h' hops')
    then have "hop_words hops \<noteq> []" by (intro hop_words_nonempty) simp
    then show ?thesis using Cons.IH Cons by (cases h) (simp add: path_to_str_def hop_words_def words_Cons)
  qed
qed simp

lemma hop_pairs_words: "hop_pairs (hop_words hops) = Inr hops"
  by (induction hops) (auto simp: hop_words_def)

lemma hop_pairs_odd: "hop_pairs (hop_words hops @ [w]) = Inr hops"
  by (induction hops) (auto simp: hop_words_def)

lemma last_hop_word: "hops \<noteq> [] \<Longrightarrow> last (hop_words hops) = show_int (snd (last hops))"
  by (cases hops rule: rev_cases) (auto simp: hop_words_def)

definition pm_flow_words :: "int pm_flow \<Rightarrow> string" where
  "pm_flow_words f = words (show_int (pf_flow_id f) # show_float (pf_traffic_rate f) # hop_words (pf_hops f))"

text \<open>What the reader makes of a flow the writer wrote: one more hop, to the last port's number.\<close>

definition extra_hop :: "int pm_flow \<Rightarrow> int pm_flow" where
  "extra_hop f = f\<lparr>pf_hops := pf_hops f @ [(snd (last (pf_hops f)), 0)]\<rparr>"

lemma pm_flow_line_words: "pf_hops f \<noteq> [] \<Longrightarrow> pm_flow_line f = pm_flow_words f"
  by (simp add: pm_flow_line_def pm_flow_words_def pf_path_def pf_ports_def zip_map_fst_snd path_to_str_words words_Cons hop_words_nonempty)

lemma split_pm_flow:
  "split_on (CHR '' '') (words (show_int i # show_float r # ws)) = show_int i # show_float r # ws" if "\<forall>w \<in> set ws. word_ok w"
  by (rule split_words) (use that in auto)

lemma parse_pm_flow_words:
  assumes "pf_hops f \<noteq> []" and "exact6 (pf_traffic_rate f)"
  shows "parse_pm_flow_line (pm_flow_words f) = Inr (extra_hop f)"
  using assms split_pm_flow [OF hop_words_ok]
  by (simp add: parse_pm_flow_line_def pm_flow_words_def hop_pairs_words py_nth_last hop_words_nonempty last_hop_word py_float_exact extra_hop_def)

lemma parse_solver_line:
  assumes "exact6 r"
  shows "parse_pm_flow_line (words (show_int i # show_float r # hop_words hops @ [show_int n]))
    = Inr \<lparr>pf_flow_id = i, pf_traffic_rate = r, pf_hops = hops @ [(n, 0)]\<rparr>"
proof -
  have "split_on (CHR '' '') (words (show_int i # show_float r # hop_words hops @ [show_int n])) = show_int i # show_float r # hop_words hops @ [show_int n]"
    using hop_words_ok by (intro split_pm_flow) auto
  then show ?thesis using assms by (simp add: parse_pm_flow_line_def hop_pairs_odd py_nth_last py_float_exact)
qed

lemma pm_flows_readback:
  assumes "keyed pf_flow_id flows" and "\<forall>f \<in> set (dict_values flows). pf_hops f \<noteq> [] \<and> exact6 (pf_traffic_rate f)"
  shows "pm_flows_deserialize (pm_flows_serialize flows) = Inr (map (\<lambda>(i, f). (i, extra_hop f)) flows)"
proof -
  have lines: "map pm_flow_line (dict_values flows) = map pm_flow_words (dict_values flows)"
    using assms(2) pm_flow_line_words by simp
  have nb: "\<forall>l \<in> set (map pm_flow_words xs). \<forall>c \<in> set l. \<not> is_break c" for xs
  proof -
    have "\<forall>c \<in> set (pm_flow_words f). \<not> is_break c" for f
      unfolding pm_flow_words_def by (rule words_no_break) (use hop_words_ok in auto)
    then show ?thesis by simp
  qed
  have split: "splitlines (unlines (map pm_flow_words xs)) = map pm_flow_words xs" for xs
    using splitlines_unlines [OF nb, of xs "[]"] by simp
  have fold: "fold_res (\<lambda>flows line. rbind (parse_pm_flow_line line) (\<lambda>flow. Inr (dict_set flows (pf_flow_id flow) flow))) d (map pm_flow_words xs)
      = Inr (foldl (\<lambda>d x. dict_set d (pf_flow_id x) x) d (map extra_hop xs))"
    if "\<forall>f \<in> set xs. pf_hops f \<noteq> [] \<and> exact6 (pf_traffic_rate f)" for d xs
    using that by (induction xs arbitrary: d) (simp_all add: parse_pm_flow_words)
  let ?d = "map (\<lambda>(i, f). (i, extra_hop f)) flows"
  have "keyed pf_flow_id ?d" using assms(1) by (auto simp: keyed_def dict_wf_def extra_hop_def comp_def case_prod_unfold)
  from foldl_keyed [OF this] have "foldl (\<lambda>d x. dict_set d (pf_flow_id x) x) [] (map extra_hop (dict_values flows)) = ?d"
    by (simp add: comp_def case_prod_unfold)
  then show ?thesis unfolding pm_flows_serialize_def pm_flows_deserialize_def lines split fold [OF assms(2)] by simp
qed

text \<open>Regrouping the listed entries of a grouped dictionary gives it back.\<close>

lemma group_append_last:
  assumes "k \<notin> set (dict_keys d)"
  shows "foldl group_append (d @ [(k, us)]) (map (Pair k) vs) = d @ [(k, us @ vs)]"
proof (induction vs arbitrary: us)
  case (Cons v vs)
  have "map_of (d @ [(k, us)]) k = Some us" using assms by (simp add: map_of_append map_add_def map_of_eq_None_iff [THEN iffD2] split: option.split)
  moreover have "dict_set (d @ [(k, us)]) k ws = d @ [(k, ws)]" for ws
    using assms unfolding dict_set_def by (induction d) auto
  ultimately have "group_append (d @ [(k, us)]) (k, v) = d @ [(k, us @ [v])]" by (simp add: group_append_def dict_get_default_def)
  then show ?case using Cons [of "us @ [v]"] by simp
qed simp

lemma group_append_all:
  assumes "dict_wf d" and "\<forall>(k, vs) \<in> set d. vs \<noteq> []"
  shows "foldl group_append [] (concat (map (\<lambda>(k, vs). map (Pair k) vs) d)) = d"
  using assms
proof (induction d rule: rev_induct)
  case (snoc p d)
  obtain k v vs where p: "p = (k, v # vs)" using snoc.prems(2) by (cases p) (auto simp: neq_Nil_conv)
  have wf: "dict_wf d" and k: "k \<notin> set (dict_keys d)" using snoc.prems(1) p by (simp_all add: dict_wf_def)
  have IH: "foldl group_append [] (concat (map (\<lambda>(k, vs). map (Pair k) vs) d)) = d" using snoc.IH [OF wf] snoc.prems(2) by simp
  have "map_of d k = None" using k by (simp add: map_of_eq_None_iff)
  then have "group_append d (k, v) = d @ [(k, [v])]" using update_new [OF k] by (simp add: group_append_def dict_get_default_def)
  then show ?case using IH group_append_last [OF k, of "[v]" vs] p by simp
qed simp

definition port_ok :: "int \<times> switch_port \<Rightarrow> bool" where
  "port_ok p \<longleftrightarrow> exact6 (sp_flow_rate (snd p))"

lemma flow_list_to_str_words: "xs \<noteq> [] \<Longrightarrow> flow_list_to_str xs = words (map show_int xs)"
  by (simp add: flow_list_to_str_def undelimited_words)

lemma port_line_words:
  "port_line (s, p) = words (show_int s # show_int (sp_port_id p) # show_float (sp_flow_rate p) #
     (if sp_flow_list p = [] then [[]] else map show_int (sp_flow_list p)))"
proof (cases "sp_flow_list p = []")
  case True
  then show ?thesis by (simp add: port_line_def flow_list_to_str_def words_def)
next
  case False
  then show ?thesis by (simp add: port_line_def flow_list_to_str_words words_Cons)
qed

interpretation port_lines: line_codec port_ok port_line parse_port_line
proof unfold_locales
  fix x :: "int \<times> switch_port"
  assume ok: "port_ok x"
  obtain s p where x: "x = (s, p)" by (cases x)
  let ?ws = "show_int s # show_int (sp_port_id p) # show_float (sp_flow_rate p) # (if sp_flow_list p = [] then [[]] else map show_int (sp_flow_list p))"
  have w: "\<forall>w \<in> set ?ws. word_ok w" by (auto simp: word_ok_def [of "[]"])
  show "\<forall>c \<in> set (port_line x). \<not> is_break c" unfolding x port_line_words by (rule words_no_break [OF w])
  have "split_on (CHR '' '') (port_line x) = ?ws" unfolding x port_line_words by (rule split_words [OF _ w]) simp
  moreover have "filter (\<lambda>w. w \<noteq> []) (map show_int xs) = map show_int xs" for xs by (induction xs) simp_all
  ultimately show "parse_port_line (port_line x) = Inr x" using ok x by (simp add: parse_port_line_def port_ok_def py_float_exact)
qed

definition switches_ok :: "(int, pm_switch) dict \<Rightarrow> bool" where
  "switches_ok switches \<longleftrightarrow> keyed sw_switch_id switches
     \<and> (\<forall>sw \<in> set (dict_values switches). sw_ports sw \<noteq> [] \<and> (\<forall>p \<in> set (sw_ports sw). exact6 (sp_flow_rate p)))"

lemma pm_switches_roundtrip:
  assumes "switches_ok switches"
  shows "pm_switches_deserialize (pm_switches_serialize switches) = Inr switches"
proof -
  have k: "dict_wf switches" "\<forall>(i, sw) \<in> set switches. sw_switch_id sw = i" and
    ok: "\<forall>(i, sw) \<in> set switches. sw_ports sw \<noteq> [] \<and> (\<forall>p \<in> set (sw_ports sw). exact6 (sp_flow_rate p))"
    using assms unfolding switches_ok_def keyed_def by (blast, blast, force)
  let ?d = "map (\<lambda>(i, sw). (i, sw_ports sw)) switches"
  let ?xs = "concat (map (\<lambda>(i, ps). map (Pair i) ps) ?d)"
  have "concat (map (\<lambda>switch. map (\<lambda>port. port_line (sw_switch_id switch, port)) (sw_ports switch)) (dict_values switches)) = map port_line ?xs"
    using k(2) by (induction switches) auto
  then have ser: "pm_switches_serialize switches = unlines (map port_line ?xs)" by (simp only: pm_switches_serialize_def)
  have "\<forall>x \<in> set ?xs. port_ok x" using ok by (fastforce simp: port_ok_def)
  note read = port_lines.read_file [OF this, of group_append "[]"]
  have "dict_wf ?d" using k(1) by (simp add: dict_wf_def comp_def case_prod_unfold)
  moreover have "\<forall>(i, ps) \<in> set ?d. ps \<noteq> []" using ok by auto
  ultimately have group: "foldl group_append [] ?xs = ?d" by (rule group_append_all)
  have "map (\<lambda>(switch_id, ps). (switch_id, \<lparr>sw_switch_id = switch_id, sw_ports = ps\<rparr>)) ?d = switches"
    using k(2) by (induction switches) (auto split: prod.splits)
  then have "dict_of (map (\<lambda>(switch_id, ps). (switch_id, \<lparr>sw_switch_id = switch_id, sw_ports = ps\<rparr>)) ?d) = switches"
    using k(1) by (simp only: dict_of_distinct dict_wf_def)
  then show ?thesis unfolding pm_switches_deserialize_def ser read group by simp
qed

definition pm_solutions_ok :: "int pm_solutions \<Rightarrow> bool" where
  "pm_solutions_ok sols \<longleftrightarrow> sols \<noteq> [] \<and> dict_wf sols
     \<and> (\<exists>v. exact6 v \<and> (\<forall>(i, l) \<in> set sols. l \<noteq> [] \<and> (\<forall>sol \<in> set l. ms_switch_id sol = i \<and> ms_objective sol = v \<and> ms_coverage sol = None)))"

lemma pm_solutions_roundtrip:
  assumes "pm_solutions_ok sols"
  shows "\<exists>body. pm_solutions_serialize sols = Inr body \<and> pm_solutions_deserialize body = Inr sols"
proof -
  from assms obtain v where v: "sols \<noteq> []" "dict_wf sols" "exact6 v" and
    ok: "\<forall>(i, l) \<in> set sols. l \<noteq> [] \<and> (\<forall>sol \<in> set l. ms_switch_id sol = i \<and> ms_objective sol = v \<and> ms_coverage sol = None)"
    unfolding pm_solutions_ok_def by blast
  let ?all = "concat (dict_values sols)"
  let ?ps = "map (\<lambda>sol. (ms_switch_id sol, ms_switch_port sol)) ?all"
  let ?g = "\<lambda>d p. group_append d (fst p, \<lparr>ms_switch_id = fst p, ms_switch_port = snd p, ms_objective = v, ms_coverage = None\<rparr>)"
  have ne: "?all \<noteq> []" using v(1) ok by (cases sols) auto
  then have "last ?all \<in> set ?all" by (rule last_in_set)
  then have "ms_objective (last ?all) = v" using ok by auto
  then have ser: "pm_solutions_serialize sols = Inr (unlines (map pair_words ?ps) @ show_float v)"
    using ne by (simp add: pm_solutions_serialize_def Let_def pair_line_words [simplified] comp_def del: concat_eq_Nil_conv)
  have lines: "splitlines (unlines (map pair_words ?ps) @ show_float v) = map pair_words ?ps @ [show_float v]" by (rule pairs_then_float)
  have "pm_solutions_deserialize (unlines (map pair_words ?ps) @ show_float v)
    = fold_res (\<lambda>d l. rbind (parse_pair l) (\<lambda>p. Inr (?g d p))) [] (map pair_words ?ps)"
    unfolding pm_solutions_deserialize_def lines Let_def using py_float_exact [OF v(3)] by (simp add: py_nth_last case_prod_unfold)
  also have "\<dots> = Inr (foldl ?g [] ?ps)" by (rule pair_lines.fold_lines) simp
  also have "foldl ?g [] ?ps = foldl group_append [] (concat (map (\<lambda>(i, l). map (Pair i) l) sols))"
  proof -
    have eq: "map (\<lambda>sol. (ms_switch_id sol, sol)) ?all = concat (map (\<lambda>(i, l). map (Pair i) l) sols)"
      using ok by (induction sols) auto
    have "foldl ?g d (map (\<lambda>sol. (ms_switch_id sol, ms_switch_port sol)) xs) = foldl group_append d (map (\<lambda>sol. (ms_switch_id sol, sol)) xs)"
      if "\<forall>sol \<in> set xs. ms_objective sol = v \<and> ms_coverage sol = None" for d and xs :: "int pm_solution list"
      using that
    proof (induction xs arbitrary: d)
      case (Cons sol xs)
      have same: "\<lparr>ms_switch_id = ms_switch_id sol, ms_switch_port = ms_switch_port sol, ms_objective = v, ms_coverage = None\<rparr> = sol"
        using Cons.prems by (cases sol) simp
      show ?case unfolding list.map foldl.simps fst_conv snd_conv same using Cons by simp
    qed simp
    moreover have "\<forall>sol \<in> set ?all. ms_objective sol = v \<and> ms_coverage sol = None" using ok by auto
    ultimately show ?thesis unfolding eq [symmetric] by blast
  qed
  also have "\<dots> = sols" using ok by (intro group_append_all [OF v(2)]) auto
  finally show ?thesis using ser by blast
qed

subsection \<open>Properties\<close>

definition pm_trial_ok :: "int pm_trial \<Rightarrow> bool" where
  "pm_trial_ok t \<longleftrightarrow> keyed pf_flow_id (pt_flows t) \<and> (\<forall>f \<in> set (dict_values (pt_flows t)). pf_hops f \<noteq> [] \<and> exact6 (pf_traffic_rate f))
     \<and> switches_ok (pt_switches t) \<and> (\<exists>sols. pt_solutions t = Some sols \<and> pm_solutions_ok sols)
     \<and> pt_solution_type t \<in> {''det'', ''df'', ''greedy'', ''optimal'', ''rnd''}"

definition ex_pm_trial :: "int pm_trial" where
  "ex_pm_trial = new_pm_trial ''t'' [(1, \<lparr>pf_flow_id = 1, pf_traffic_rate = 1 / 4, pf_hops = [(3, 7), (4, 2)]\<rparr>)]
     [(3, \<lparr>sw_switch_id = 3, sw_ports = [\<lparr>sp_port_id = 7, sp_flow_rate = 1 / 4, sp_flow_list = [1]\<rparr>, \<lparr>sp_port_id = 8, sp_flow_rate = 0, sp_flow_list = []\<rparr>]\<rparr>)]
     None None None (Some [(3, [\<lparr>ms_switch_id = 3, ms_switch_port = 7, ms_objective = 1 / 2, ms_coverage = None\<rparr>])]) None 300 ''n'' [(3, [(4, 7)])]"

lemma ex_pm_trial_ok: "pm_trial_ok ex_pm_trial"
proof -
  have e: "exact6 (1 / 4)" "exact6 (1 / 2)" "exact6 0" by (code_simp, code_simp, code_simp)
  show ?thesis using e
    by (auto simp: pm_trial_ok_def ex_pm_trial_def new_pm_trial_def keyed_def dict_wf_def switches_ok_def pm_solutions_ok_def)
qed

lemma pm_set_type_ok:
  assumes "ty \<in> {''det'', ''df'', ''greedy'', ''optimal'', ''rnd''}"
  shows "pm_set_solution_type t ty = Inr (t\<lparr>pt_solutions := get_solution_of_type t ty, pt_solution_type := ty\<rparr>)"
proof -
  have l: "lower ''det'' = ''det''" "lower ''df'' = ''df''" "lower ''greedy'' = ''greedy''" "lower ''optimal'' = ''optimal''" "lower ''rnd'' = ''rnd''"
    by code_simp+
  show ?thesis using assms l by (auto simp: pm_set_solution_type_def get_solution_of_type_def)
qed

text \<open>What was written can be loaded from any dictionary that has the five files the reader asks for.\<close>

definition reload_files :: "string list" where
  "reload_files = [''flows'', ''switches'', ''solutions'', ''ports'', ''topo'']"

lemma reload_from_files:
  assumes "pm_trial_ok t" and "eval_text (pformat (pt_mirroring_ports t)) = Inr (pt_mirroring_ports t)"
  shows "\<exists>files t'. pm_build_results_files pformat t u = Inr files \<and> dict_keys files = ''utilization-results.txt'' # [''topo'', ''flows'', ''switches'', ''solutions'', ''ports'']
    \<and> (\<forall>results. (\<forall>k \<in> set reload_files. map_of results k = map_of files k) \<longrightarrow> from_repository_files eval_text results (pt_solution_type t) d n = Inr t')
    \<and> pt_solution_types t' = [pt_solution_type t] \<and> pt_topology t' = pt_topology t \<and> pt_switches t' = pt_switches t \<and> pt_mirroring_ports t' = pt_mirroring_ports t
    \<and> get_solution_of_type t' (pt_solution_type t) = pt_solutions t
    \<and> pt_flows t' = map (\<lambda>(i, f). (i, f\<lparr>pf_hops := pf_hops f @ [(snd (last (pf_hops f)), 0)]\<rparr>)) (pt_flows t)"
proof -
  from assms(1) obtain sols where t: "keyed pf_flow_id (pt_flows t)" "\<forall>f \<in> set (dict_values (pt_flows t)). pf_hops f \<noteq> [] \<and> exact6 (pf_traffic_rate f)"
    "switches_ok (pt_switches t)" "pt_solutions t = Some sols" "pm_solutions_ok sols"
    "pt_solution_type t \<in> {''det'', ''df'', ''greedy'', ''optimal'', ''rnd''}" unfolding pm_trial_ok_def by blast
  from pm_solutions_roundtrip [OF t(5)] obtain body where
    b: "pm_solutions_serialize sols = Inr body" "pm_solutions_deserialize body = Inr sols" by blast
  have "map (\<lambda>(i, f). (i, extra_hop f)) (pt_flows t) = map (\<lambda>(i, f). (i, f\<lparr>pf_hops := pf_hops f @ [(snd (last (pf_hops f)), 0)]\<rparr>)) (pt_flows t)"
    by (simp add: extra_hop_def)
  with pm_flows_readback [OF t(1,2)] pm_switches_roundtrip [OF t(3)] b t(4,6) show ?thesis
    by (auto simp: pm_build_results_files_def from_repository_files_def dict_get_def assms(2) new_pm_trial_def get_solution_of_type_def reload_files_def)
qed

text \<open>
  A port mirroring trial that is written to a repository and loaded from there again has the same
  topology, switches, ports and current solutions, under the same solution type; but every flow comes
  back with one more hop, to a switch numbered like the last port of its path: the writer gives the
  last hop a port, the reader expects none.
\<close>

theorem port_mirroring_reload:
  assumes "pm_trial_ok t" and "eval_text (pformat (pt_mirroring_ports t)) = Inr (pt_mirroring_ports t)"
  shows "\<exists>files t'. pm_build_results_files pformat t u = Inr files
    \<and> from_repository_files eval_text files (pt_solution_type t) d n = Inr t'
    \<and> pt_topology t' = pt_topology t \<and> pt_switches t' = pt_switches t \<and> pt_mirroring_ports t' = pt_mirroring_ports t
    \<and> get_solution_of_type t' (pt_solution_type t) = pt_solutions t
    \<and> pt_flows t' = map (\<lambda>(i, f). (i, f\<lparr>pf_hops := pf_hops f @ [(snd (last (pf_hops f)), 0)]\<rparr>)) (pt_flows t)"
  using reload_from_files [where eval_text = eval_text and pformat = pformat, OF assms] by blast

theorem port_mirroring_reload_witness:
  "\<exists>files t'. pm_build_results_files (\<lambda>_. ''{3: {4: 7}}'') ex_pm_trial ''u'' = Inr files
    \<and> from_repository_files (\<lambda>_. Inr [(3, [(4, 7)])]) files (pt_solution_type ex_pm_trial) 5 ''n'' = Inr t'
    \<and> pt_topology t' = pt_topology ex_pm_trial \<and> pt_switches t' = pt_switches ex_pm_trial \<and> pt_mirroring_ports t' = pt_mirroring_ports ex_pm_trial
    \<and> get_solution_of_type t' (pt_solution_type ex_pm_trial) = pt_solutions ex_pm_trial
    \<and> pt_flows t' = map (\<lambda>(i, f). (i, f\<lparr>pf_hops := pf_hops f @ [(snd (last (pf_hops f)), 0)]\<rparr>)) (pt_flows ex_pm_trial)"
  by (rule port_mirroring_reload [OF ex_pm_trial_ok]) (simp add: ex_pm_trial_def new_pm_trial_def)

text \<open>
  \<open>verify_trial_state\<close> judges the last solution type only: a trial whose deterministic solution mirrors
  no flow at all verifies when the random one mirrors them all.
\<close>

theorem verify_checks_last_type_only:
  "verify_trial_state ((ex_pm_trial\<lparr>pt_det := Some [], pt_rnd := pt_optimal ex_pm_trial\<rparr>)\<lparr>pt_solution_types := [''det'', ''rnd'']\<rparr>) = Inr True
   \<and> mirrored_flows ex_pm_trial (Some []) = Inr []"
  by code_simp

text \<open>
  Random solutions cannot be written: serialising them raises for every input, \<open>NameError\<close> when there
  are any.
\<close>

theorem rnd_solutions_never_written:
  "rnd_solutions_serialize sols = Inl NameError \<or> (sols = [] \<and> rnd_solutions_serialize sols = Inl TypeError)"
  by (simp add: rnd_solutions_serialize_def)

text \<open>
  Mapping a trial to the physical network keeps flow identifiers and rates and the number of hops of
  every flow; the last hop leaves by the host's port, and the mapped trial is set to the solution type
  of the original.
\<close>

theorem physical_trial:
  assumes "map_to_physical_network ids ports host_port t = Inr t'" and "keyed pf_flow_id (pt_flows t)"
    and "pt_solution_type t \<in> {''det'', ''df'', ''greedy'', ''optimal'', ''rnd''}"
  shows "list_all2 (\<lambda>(i, f) (j, g). j = i \<and> pf_flow_id g = i \<and> pf_traffic_rate g = pf_traffic_rate f
      \<and> length (pf_hops g) = length (pf_hops f) \<and> host_port (fst (last (pf_hops g))) = Inr (snd (last (pf_hops g)))) (pt_flows t) (pt_flows t')
    \<and> pt_solution_type t' = pt_solution_type t \<and> pt_solutions t' = get_solution_of_type t' (pt_solution_type t)"
proof -
  let ?P = "\<lambda>(i, f :: int pm_flow) (j, g). j = i \<and> pf_flow_id g = i \<and> pf_traffic_rate g = pf_traffic_rate f
      \<and> length (pf_hops g) = length (pf_hops f) \<and> host_port (fst (last (pf_hops g))) = Inr (snd (last (pf_hops g)))"
  from assms(1) obtain fl sols ns where r: "map_res (physical_flow ids ports host_port) (pt_flows t) = Inr fl"
    "pm_set_solution_type (new_pm_trial (pt_topology t) (dict_of fl) (pt_switches t)
       (if pt_solution_type t = ''det'' then Some ns else None) (if pt_solution_type t = ''df'' then Some ns else None)
       (if pt_solution_type t = ''greedy'' then Some ns else None) (if pt_solution_type t = ''optimal'' then Some ns else None)
       (if pt_solution_type t = ''rnd'' then Some ns else None) (pt_duration t) (pt_name t) (pt_mirroring_ports t)) (pt_solution_type t) = Inr t'"
    unfolding map_to_physical_network_def rbind_Inr_iff by (auto simp: rbind_Inr_iff Let_def split: option.splits)
  have one: "?P x y" if "physical_flow ids ports host_port x = Inr y" for x y
  proof -
    obtain i f where x: "x = (i, f)" by (cases x)
    from that x obtain np nps l e where h: "map_res (dict_get ids) (pf_path f) = Inr np"
      "map_res (\<lambda>(switch_id, port). get_port_connecting ports switch_id port) (zip (butlast (pf_path f)) (butlast (pf_ports f))) = Inr nps"
      "host_port l = Inr e" "Suc 0 \<le> length (pf_path f)"
      "y = (i, \<lparr>pf_flow_id = i, pf_traffic_rate = pf_traffic_rate f, pf_hops = zip np nps @ [(l, e)]\<rparr>)"
      unfolding physical_flow_def by (auto simp: rbind_Inr_iff py_nth_def split: if_splits)
    have "length np = length (pf_hops f)" "length nps = length (pf_hops f) - 1"
      using map_res_length [OF h(1)] map_res_length [OF h(2)] by (simp_all add: pf_path_def pf_ports_def)
    then show ?thesis using h x by (cases "pf_hops f") (simp_all add: pf_path_def)
  qed
  have all2: "list_all2 ?P (pt_flows t) fl"
    using r(1) one unfolding map_res_Inr_iff by (rule list_all2_mono)
  then have "map fst fl = map fst (pt_flows t)" by (induction rule: list_all2_induct) auto
  then have "dict_of fl = fl" using assms(2) by (intro dict_of_distinct) (simp add: keyed_def dict_wf_def)
  moreover obtain t0 where t0: "Inr (t0\<lparr>pt_solutions := get_solution_of_type t0 (pt_solution_type t), pt_solution_type := pt_solution_type t\<rparr>) = (Inr t' :: string pm_trial res)"
    "pt_flows t0 = dict_of fl" by (rule that [OF r(2) [unfolded pm_set_type_ok [OF assms(3)]]]) (simp add: new_pm_trial_def)
  moreover from t0(1) have "t' = t0\<lparr>pt_solutions := get_solution_of_type t0 (pt_solution_type t), pt_solution_type := pt_solution_type t\<rparr>" by simp
  ultimately show ?thesis using all2 by (simp add: get_solution_of_type_def)
qed

theorem physical_trial_witness:
  "\<exists>ids ports host_port t'. map_to_physical_network ids ports host_port ex_pm_trial = Inr t'
    \<and> list_all2 (\<lambda>(i, f) (j, g). j = i \<and> pf_flow_id g = i \<and> pf_traffic_rate g = pf_traffic_rate f
      \<and> length (pf_hops g) = length (pf_hops f) \<and> host_port (fst (last (pf_hops g))) = Inr (snd (last (pf_hops g)))) (pt_flows ex_pm_trial) (pt_flows t')
    \<and> pt_solution_type t' = pt_solution_type ex_pm_trial \<and> pt_solutions t' = get_solution_of_type t' (pt_solution_type ex_pm_trial)"
proof -
  let ?ids = "[(3, ''of:3''), (4, ''of:4'')] :: (int, string) dict"
  let ?ports = "[(3, [(7, 1)])] :: port_map"
  let ?host = "\<lambda>_ :: string. Inr 9 :: int res"
  have "is_ok (map_to_physical_network ?ids ?ports ?host ex_pm_trial)" by code_simp
  then obtain t' where t': "map_to_physical_network ?ids ?ports ?host ex_pm_trial = Inr t'" unfolding is_ok_iff by blast
  have "keyed pf_flow_id (pt_flows ex_pm_trial)" "pt_solution_type ex_pm_trial \<in> {''det'', ''df'', ''greedy'', ''optimal'', ''rnd''}"
    using ex_pm_trial_ok unfolding pm_trial_ok_def by blast+
  from physical_trial [OF t' this] t' show ?thesis by blast
qed

end
