(* ===== verification/Mirroring_Provider.thy ===== *)
theory Mirroring_Provider
  imports Port_Mirroring
begin

section \<open>Providers of mirroring trials\<close>

text \<open>
  Models \<open>rest_client/port_mirroring/trial_provider.py\<close> and \<open>rest_client/port_mirroring/trials.py\<close>.  Iterating over a
  provider selects each solution type of each trial in turn and yields the trial in that state; the
  trials are mutable, so the model returns the states yielded and the provider as it is left.  What a
  consumer needs of a trial is the locale \<open>solution_chooser\<close>: after selecting a type the trial reports that type
  and its solutions.  It is interpreted on the port mirroring trial; the flow mirroring trial breaks it.
\<close>

record 'a mirror_provider =
  mp_name :: string
  mp_trials :: "'a list"

definition create_provider :: "string \<Rightarrow> 'a mirror_provider" where
  "create_provider provider_name = \<lparr>mp_name = provider_name, mp_trials = []\<rparr>"

definition mp_add_trial :: "'a mirror_provider \<Rightarrow> 'a \<Rightarrow> 'a mirror_provider" where
  "mp_add_trial p trial = p\<lparr>mp_trials := mp_trials p @ [trial]\<rparr>"

definition mp_set_solution_type :: "('a \<Rightarrow> string \<Rightarrow> 'a res) \<Rightarrow> 'a mirror_provider \<Rightarrow> string \<Rightarrow> 'a mirror_provider res" where
  "mp_set_solution_type set_type p soln_type =
     rbind (map_res (\<lambda>t. set_type t soln_type) (mp_trials p)) (\<lambda>ts. Inr (p\<lparr>mp_trials := ts\<rparr>))"

fun yield_types :: "('a \<Rightarrow> string \<Rightarrow> 'a res) \<Rightarrow> 'a \<Rightarrow> string list \<Rightarrow> ('a list \<times> 'a) res" where
  "yield_types set_type t [] = Inr ([], t)"
| "yield_types set_type t (ty # tys) =
     rbind (set_type t ty) (\<lambda>t'. rbind (yield_types set_type t' tys) (\<lambda>(ys, t''). Inr (t' # ys, t'')))"

fun yield_trials :: "('a \<Rightarrow> string \<Rightarrow> 'a res) \<Rightarrow> ('a \<Rightarrow> string list) \<Rightarrow> 'a list \<Rightarrow> ('a list \<times> 'a list) res" where
  "yield_trials set_type types [] = Inr ([], [])"
| "yield_trials set_type types (t # ts) =
     rbind (yield_types set_type t (types t)) (\<lambda>(ys, t').
     rbind (yield_trials set_type types ts) (\<lambda>(zs, ts'). Inr (ys @ zs, t' # ts')))"

definition iterate_provider :: "('a \<Rightarrow> string \<Rightarrow> 'a res) \<Rightarrow> ('a \<Rightarrow> string list) \<Rightarrow> 'a mirror_provider \<Rightarrow> ('a list \<times> 'a mirror_provider) res" where
  "iterate_provider set_type types p =
     rbind (yield_trials set_type types (mp_trials p)) (\<lambda>(ys, ts). Inr (ys, p\<lparr>mp_trials := ts\<rparr>))"

subsection \<open>The contract of a trial\<close>

locale solution_chooser =
  fixes ok :: "'a \<Rightarrow> bool"
    and set_type :: "'a \<Rightarrow> string \<Rightarrow> 'a res"
    and types :: "'a \<Rightarrow> string list"
    and current :: "'a \<Rightarrow> string"
    and solutions :: "'a \<Rightarrow> 's"
    and solution_of :: "'a \<Rightarrow> string \<Rightarrow> 's"
  assumes selects: "ok t \<Longrightarrow> ty \<in> set (types t) \<Longrightarrow> \<exists>t'. set_type t ty = Inr t' \<and> ok t' \<and> types t' = types t \<and> current t' = ty
      \<and> solutions t' = solution_of t' ty \<and> (\<forall>ty'. solution_of t' ty' = solution_of t ty')"
begin

lemma yields_of_trial:
  assumes "ok t" and "set tys \<subseteq> set (types t)"
  shows "\<exists>ys t'. yield_types set_type t tys = Inr (ys, t') \<and> ok t' \<and> types t' = types t \<and> map current ys = tys
    \<and> (\<forall>y \<in> set ys. solutions y = solution_of t (current y))"
  using assms
proof (induction tys arbitrary: t)
  case (Cons ty tys)
  from selects [OF Cons.prems(1), of ty] Cons.prems(2) obtain t1 where
    t1: "set_type t ty = Inr t1" "ok t1" "types t1 = types t" "current t1 = ty" "solutions t1 = solution_of t1 ty"
      "\<forall>ty'. solution_of t1 ty' = solution_of t ty'" by auto
  from Cons.IH [OF t1(2)] Cons.prems(2) t1(3) obtain ys t' where
    "yield_types set_type t1 tys = Inr (ys, t')" "ok t'" "types t' = types t1" "map current ys = tys"
    "\<forall>y \<in> set ys. solutions y = solution_of t1 (current y)" by auto
  then show ?case using t1 by auto
qed simp

lemma yields_all:
  assumes "\<forall>t \<in> set ts. ok t"
  shows "\<exists>ys ts'. yield_trials set_type types ts = Inr (ys, ts') \<and> (\<forall>t \<in> set ts'. ok t) \<and> map types ts' = map types ts
    \<and> map current ys = concat (map types ts) \<and> (\<forall>y \<in> set ys. \<exists>t \<in> set ts. solutions y = solution_of t (current y))"
  using assms
proof (induction ts)
  case (Cons t ts)
  from yields_of_trial [of t "types t"] Cons.prems obtain ys t' where
    1: "yield_types set_type t (types t) = Inr (ys, t')" "ok t'" "types t' = types t" "map current ys = types t"
      "\<forall>y \<in> set ys. solutions y = solution_of t (current y)" by auto
  from Cons obtain zs ts' where
    "yield_trials set_type types ts = Inr (zs, ts')" "\<forall>t \<in> set ts'. ok t" "map types ts' = map types ts"
    "map current zs = concat (map types ts)" "\<forall>y \<in> set zs. \<exists>t \<in> set ts. solutions y = solution_of t (current y)" by auto
  then show ?case using 1 by (intro exI [of _ "ys @ zs"] exI [of _ "t' # ts'"]) auto
qed simp

end

definition pm_types_ok :: "'n pm_trial \<Rightarrow> bool" where
  "pm_types_ok t \<longleftrightarrow> set (pt_solution_types t) \<subseteq> {''det'', ''df'', ''greedy'', ''optimal'', ''rnd''}"

interpretation port_trial: solution_chooser pm_types_ok pm_set_solution_type pt_solution_types pt_solution_type pt_solutions get_solution_of_type
proof unfold_locales
  fix t :: "'n pm_trial" and ty
  assume t: "pm_types_ok t" "ty \<in> set (pt_solution_types t)"
  then have ty: "ty \<in> {''det'', ''df'', ''greedy'', ''optimal'', ''rnd''}" by (auto simp: pm_types_ok_def)
  let ?t = "t\<lparr>pt_solutions := get_solution_of_type t ty, pt_solution_type := ty\<rparr>"
  have "pm_set_solution_type t ty = Inr ?t" by (rule pm_set_type_ok [OF ty])
  moreover have "get_solution_of_type ?t ty' = get_solution_of_type t ty'" for ty' by (simp add: get_solution_of_type_def)
  ultimately show "\<exists>t'. pm_set_solution_type t ty = Inr t' \<and> pm_types_ok t' \<and> pt_solution_types t' = pt_solution_types t \<and> pt_solution_type t' = ty
      \<and> pt_solutions t' = get_solution_of_type t' ty \<and> (\<forall>ty'. get_solution_of_type t' ty' = get_solution_of_type t ty')"
    using t by (intro exI [of _ ?t]) (simp add: pm_types_ok_def)
qed

subsection \<open>The lists of trials\<close>

text \<open>
  \<open>create w lo hi flow_count duration name\<close> stands for \<open>create_trial\<close> with the external solver; \<open>w\<close> is the state of the
  world it runs in.
\<close>

type_synonym ('w, 't) create_fn = "'w \<Rightarrow> pyfloat \<Rightarrow> pyfloat \<Rightarrow> nat \<Rightarrow> nat \<Rightarrow> string \<Rightarrow> ('t \<times> 'w) res"

definition sub_trial_name :: "nat \<Rightarrow> string" where
  "sub_trial_name i = ''sub-trial-'' @ show_nat i"

fun add_trials :: "('w, 't) create_fn \<Rightarrow> nat \<Rightarrow> (nat \<times> nat) list \<Rightarrow> 't mirror_provider \<Rightarrow> 'w \<Rightarrow> ('t mirror_provider \<times> 'w) res" where
  "add_trials create duration [] p w = Inr (p, w)"
| "add_trials create duration ((trial_idx, flow_count) # rest) p w =
     rbind (create w (1 / 10) (1 / 2) flow_count duration (sub_trial_name trial_idx)) (\<lambda>(trial, w').
     add_trials create duration rest (mp_add_trial p trial) w')"

definition tens :: "nat list \<Rightarrow> nat list" where
  "tens idxs = map (\<lambda>idx. idx * 10) idxs"

definition flow_mirroring_trials :: "('w, 't) create_fn \<Rightarrow> 'w \<Rightarrow> ('t mirror_provider \<times> 'w) res" where
  "flow_mirroring_trials create w = add_trials create 300 (enumerate 0 (tens [1..<6])) (create_provider ''run-0'') w"

definition flow_mirroring_test :: "('w, 't) create_fn \<Rightarrow> 'w \<Rightarrow> ('t mirror_provider \<times> 'w) res" where
  "flow_mirroring_test create w = add_trials create 5 (enumerate 0 (tens [0..<1])) (create_provider ''run-0'') w"

definition port_mirroring_trials :: "('w, 't) create_fn \<Rightarrow> 'w \<Rightarrow> ('t mirror_provider \<times> 'w) res" where
  "port_mirroring_trials create w = add_trials create 300 (enumerate 0 (tens [1..<6])) (create_provider ''run-0'') w"

definition test_trial :: "('w, 't) create_fn \<Rightarrow> 'w \<Rightarrow> ('t mirror_provider \<times> 'w) res" where
  "test_trial create w = add_trials create 30 (enumerate 0 (tens [1..<4])) (create_provider ''optimal'') w"

definition port_mirroring_test :: "('w, 't) create_fn \<Rightarrow> 'w \<Rightarrow> ('t mirror_provider \<times> 'w) res" where
  "port_mirroring_test create w = add_trials create 60 (enumerate 0 (tens [1..<2])) (create_provider ''run-0'') w"

definition only_rnd :: "('w, 'n pm_trial) create_fn \<Rightarrow> ('w, 'n pm_trial) create_fn" where
  "only_rnd create w lo hi n d name = rbind (create w lo hi n d name) (\<lambda>(t, w'). Inr (t\<lparr>pt_solution_types := [''rnd'']\<rparr>, w'))"

definition rnd_port_mirroring_trials :: "('w, 'n pm_trial) create_fn \<Rightarrow> 'w \<Rightarrow> ('n pm_trial mirror_provider \<times> 'w) res" where
  "rnd_port_mirroring_trials create w = add_trials (only_rnd create) 300 (enumerate 0 (tens [1..<6])) (create_provider ''run-0'') w"

fun add_providers :: "('w, 't) create_fn \<Rightarrow> nat list \<Rightarrow> 'w \<Rightarrow> ('t mirror_provider list \<times> 'w) res" where
  "add_providers create [] w = Inr ([], w)"
| "add_providers create (run_idx # rest) w =
     rbind (add_trials create 300 (enumerate 0 (tens [1..<6])) (create_provider (''run-'' @ show_nat run_idx)) w) (\<lambda>(p, w').
     rbind (add_providers create rest w') (\<lambda>(ps, w''). Inr (p # ps, w'')))"

definition multi_provider_port_mirroring :: "('w, 't) create_fn \<Rightarrow> 'w \<Rightarrow> ('t mirror_provider list \<times> 'w) res" where
  "multi_provider_port_mirroring create w = add_providers create [0..<3] w"

text \<open>
  The flow mirroring variant asks the solver again until the trial verifies.  The loop has no bound in
  the source; with \<open>fuel\<close> attempts, running out is \<open>StopIteration\<close> here and only here.
\<close>

fun create_verified :: "nat \<Rightarrow> ('w, flow_mirroring_trial) create_fn \<Rightarrow> ('w, flow_mirroring_trial) create_fn" where
  "create_verified 0 create w lo hi n d name = Inl StopIteration"
| "create_verified (Suc fuel) create w lo hi n d name =
     rbind (create w lo hi n d name) (\<lambda>(trial, w').
     if fm_verify_trial trial then Inr (trial, w') else create_verified fuel create w' lo hi n d name)"

definition multi_provider_flow_mirroring :: "nat \<Rightarrow> ('w, flow_mirroring_trial) create_fn \<Rightarrow> 'w \<Rightarrow> (flow_mirroring_trial mirror_provider list \<times> 'w) res" where
  "multi_provider_flow_mirroring fuel create w = add_providers (create_verified fuel create) [0..<3] w"

subsection \<open>Properties\<close>

text \<open>
  Iterating over a provider of port mirroring trials yields, for every trial in order, one state per
  solution type; each yielded trial is labelled with the type and carries that type's solutions, and
  the same iteration can be repeated on the provider that is left.
\<close>

theorem port_mirroring_iteration:
  assumes "\<forall>t \<in> set (mp_trials p). pm_types_ok t"
  shows "\<exists>ys p'. iterate_provider pm_set_solution_type pt_solution_types p = Inr (ys, p')
    \<and> map pt_solution_type ys = concat (map pt_solution_types (mp_trials p))
    \<and> (\<forall>y \<in> set ys. \<exists>t \<in> set (mp_trials p). pt_solutions y = get_solution_of_type t (pt_solution_type y))
    \<and> (\<forall>t \<in> set (mp_trials p'). pm_types_ok t)"
proof -
  from port_trial.yields_all [OF assms] obtain ys ts' where
    "yield_trials pm_set_solution_type pt_solution_types (mp_trials p) = Inr (ys, ts')" "\<forall>t \<in> set ts'. pm_types_ok t"
    "map pt_solution_type ys = concat (map pt_solution_types (mp_trials p))"
    "\<forall>y \<in> set ys. \<exists>t \<in> set (mp_trials p). pt_solutions y = get_solution_of_type t (pt_solution_type y)" by auto
  then show ?thesis by (intro exI [of _ ys] exI [of _ "p\<lparr>mp_trials := ts'\<rparr>"]) (simp add: iterate_provider_def)
qed

theorem port_mirroring_iteration_witness:
  "\<exists>ys p'. iterate_provider pm_set_solution_type pt_solution_types \<lparr>mp_name = ''run-0'', mp_trials = [ex_pm_trial]\<rparr> = Inr (ys, p')
    \<and> map pt_solution_type ys = concat (map pt_solution_types (mp_trials \<lparr>mp_name = ''run-0'', mp_trials = [ex_pm_trial]\<rparr>))
    \<and> (\<forall>y \<in> set ys. \<exists>t \<in> set (mp_trials \<lparr>mp_name = ''run-0'', mp_trials = [ex_pm_trial]\<rparr>). pt_solutions y = get_solution_of_type t (pt_solution_type y))
    \<and> (\<forall>t \<in> set (mp_trials p'). pm_types_ok t)"
  by (rule port_mirroring_iteration) (simp add: pm_types_ok_def ex_pm_trial_def new_pm_trial_def)

text \<open>
  For flow mirroring the first pass over a new trial is right, the second is not: it yields the trial
  labelled \<open>approx\<close> with the optimal solutions, because selecting \<open>approx\<close> does not change the solutions.
\<close>

theorem flow_mirroring_second_pass:
  "\<exists>t1 t2 p1 t3 t4 p2.
    iterate_provider fm_set_solution_type fm_get_solution_types \<lparr>mp_name = n, mp_trials = [new_flow_mirroring_trial topo fl sw approx opt d nm]\<rparr> = Inr ([t1, t2], p1)
    \<and> fm_solution_type t1 = ''approx'' \<and> fm_solutions t1 = approx \<and> fm_solution_type t2 = ''optimal'' \<and> fm_solutions t2 = opt
    \<and> iterate_provider fm_set_solution_type fm_get_solution_types p1 = Inr ([t3, t4], p2)
    \<and> fm_solution_type t3 = ''approx'' \<and> fm_solutions t3 = opt"
proof -
  have l: "lower ''approx'' = ''approx''" "lower ''optimal'' = ''optimal''" by code_simp+
  show ?thesis
    by (simp add: iterate_provider_def fm_get_solution_types_def fm_set_solution_type_def l new_flow_mirroring_trial_def)
qed

fun attempt :: "nat \<Rightarrow> ('w, 't) create_fn \<Rightarrow> ('w, 't) create_fn" where
  "attempt 0 create w lo hi n d name = create w lo hi n d name"
| "attempt (Suc k) create w lo hi n d name = rbind (create w lo hi n d name) (\<lambda>(_, w'). attempt k create w' lo hi n d name)"

lemma create_verified_returns:
  assumes "attempt k create w lo hi n d name = Inr (t, w')" and "fm_verify_trial t" and "k < fuel"
  shows "\<exists>t w'. create_verified fuel create w lo hi n d name = Inr (t, w') \<and> fm_verify_trial t"
  using assms
proof (induction fuel arbitrary: k w)
  case (Suc fuel)
  show ?case
  proof (cases k)
    case 0
    then show ?thesis using Suc.prems by simp
  next
    case (Suc j)
    with Suc.prems obtain t1 w1 where 1: "create w lo hi n d name = Inr (t1, w1)" "attempt j create w1 lo hi n d name = Inr (t, w')"
      by (auto simp: rbind_Inr_iff)
    from Suc.IH [OF 1(2) Suc.prems(2)] Suc.prems(3) Suc obtain t2 w2 where
      "create_verified fuel create w1 lo hi n d name = Inr (t2, w2)" "fm_verify_trial t2" by auto
    then show ?thesis using 1(1) by (cases "fm_verify_trial t1") auto
  qed
qed simp

lemma add_trials_ok:
  assumes "\<And>w n name. \<exists>t w'. create w (1 / 10) (1 / 2) n d name = Inr (t, w') \<and> P t" and "\<forall>t \<in> set (mp_trials p). P t"
  shows "\<exists>p' w'. add_trials create d xs p w = Inr (p', w') \<and> mp_name p' = mp_name p
    \<and> length (mp_trials p') = length (mp_trials p) + length xs \<and> (\<forall>t \<in> set (mp_trials p'). P t)"
  using assms(2)
proof (induction xs arbitrary: p w)
  case (Cons x xs)
  obtain i n where x: "x = (i, n)" by (cases x)
  obtain t w1 where t: "create w (1 / 10) (1 / 2) n d (sub_trial_name i) = Inr (t, w1)" "P t" using assms(1) by blast
  have "\<forall>t' \<in> set (mp_trials (mp_add_trial p t)). P t'" using Cons.prems t(2) by (auto simp: mp_add_trial_def)
  from Cons.IH [OF this, of w1] t show ?case by (auto simp: x mp_add_trial_def)
qed simp

lemma add_providers_ok:
  assumes "\<And>w n name. \<exists>t w'. create w (1 / 10) (1 / 2) n 300 name = Inr (t, w') \<and> P t"
  shows "\<exists>ps w'. add_providers create idxs w = Inr (ps, w') \<and> map mp_name ps = map (\<lambda>i. ''run-'' @ show_nat i) idxs
    \<and> (\<forall>p \<in> set ps. length (mp_trials p) = 5 \<and> (\<forall>t \<in> set (mp_trials p). P t))"
proof (induction idxs arbitrary: w)
  case (Cons i idxs)
  let ?p = "create_provider (''run-'' @ show_nat i) :: 'b mirror_provider"
  have "\<forall>t \<in> set (mp_trials ?p). P t" by (simp add: create_provider_def)
  from add_trials_ok [where create = create and P = P and d = 300 and p = ?p, OF assms this, of "enumerate 0 (tens [1..<6])" w] obtain p w1 where
    1: "add_trials create 300 (enumerate 0 (tens [1..<6])) ?p w = Inr (p, w1)" "mp_name p = ''run-'' @ show_nat i"
      "length (mp_trials p) = 5" "\<forall>t \<in> set (mp_trials p). P t" by (auto simp: create_provider_def tens_def)
  from Cons.IH [of w1] 1 show ?case by auto
qed simp


definition ex_create :: "(nat, flow_mirroring_trial) create_fn" where
  "ex_create w lo hi n d name = Inr (if even w then ex_fm_trial\<lparr>fm_optimal_solutions := []\<rparr> else ex_fm_trial, Suc w)"


end
