(* ===== verification/Mp_Trial.thy ===== *)
theory Mp_Trial
  imports Json
begin

section \<open>Multipath trials\<close>

text \<open>
  Models the trials of the multipath experiments and their JSON forms: \<open>Flow\<close> and \<open>Trial\<close> of
  \<open>rest_client/mp_routing/trial.py\<close>, \<open>VleTrial\<close> of \<open>rest_client/mp_routing/vle_trial.py\<close>, and \<open>Simulation\<close> and
  \<open>SimulationTrial\<close> of \<open>rest_client/simulations/\<close>.  Numbers are read at the type the constructors' callers
  give them.  The external solver is a parameter: what it leaves in its result file.
\<close>

subsection \<open>Flows\<close>

record mp_path =
  pa_nodes :: "int list"
  pa_fraction :: pyfloat

record mp_flow =
  mf_source_node :: int
  mf_destination_node :: int
  mf_paths :: "mp_path list"
  mf_rate :: pyfloat
  mf_variance :: pyfloat
  mf_actual_tx_rates :: "pyfloat list"

definition new_mp_flow :: "int \<Rightarrow> int \<Rightarrow> pyfloat \<Rightarrow> pyfloat \<Rightarrow> pyfloat list \<Rightarrow> mp_flow" where
  "new_mp_flow source_node destination_node rate variance actual_tx_rates =
     \<lparr>mf_source_node = source_node, mf_destination_node = destination_node, mf_paths = [], mf_rate = rate,
      mf_variance = variance, mf_actual_tx_rates = actual_tx_rates\<rparr>"

definition add_path :: "mp_flow \<Rightarrow> int list \<Rightarrow> pyfloat \<Rightarrow> mp_flow res" where
  "add_path flow nodes demand_fraction =
     (if length nodes < 2 \<or> hd nodes \<noteq> mf_source_node flow \<or> last nodes \<noteq> mf_destination_node flow then Inl ValueError
      else Inr (flow\<lparr>mf_paths := mf_paths flow @ [\<lparr>pa_nodes = nodes, pa_fraction = demand_fraction\<rparr>]\<rparr>))"

definition path_to_dict :: "mp_path \<Rightarrow> json" where
  "path_to_dict p = JObj [(''nodes'', list_enc JInt (pa_nodes p)), (''fraction'', JFloat (pa_fraction p))]"

definition flow_to_dict :: "mp_flow \<Rightarrow> json" where
  "flow_to_dict flow = JObj
     [(''source_node'', JInt (mf_source_node flow)), (''destination_node'', JInt (mf_destination_node flow)),
      (''paths'', list_enc path_to_dict (mf_paths flow)), (''rate'', JFloat (mf_rate flow)),
      (''variance'', JFloat (mf_variance flow)), (''actual_tx_rates'', list_enc JFloat (mf_actual_tx_rates flow))]"

definition add_path_of_dict :: "mp_flow \<Rightarrow> json \<Rightarrow> mp_flow res" where
  "add_path_of_dict flow p =
     rbind (json_field p ''nodes'' (list_dec json_int)) (\<lambda>nodes.
     rbind (json_field p ''fraction'' json_float) (\<lambda>fraction.
     add_path flow nodes fraction))"

definition flow_from_dict :: "json \<Rightarrow> mp_flow res" where
  "flow_from_dict flow_dict =
     rbind (json_field flow_dict ''source_node'' json_int) (\<lambda>source_node.
     rbind (json_field flow_dict ''destination_node'' json_int) (\<lambda>destination_node.
     rbind (json_field flow_dict ''rate'' json_float) (\<lambda>rate.
     rbind (json_field flow_dict ''variance'' json_float) (\<lambda>variance.
     rbind (json_field flow_dict ''actual_tx_rates'' (list_dec json_float)) (\<lambda>actual_tx_rates.
     rbind (json_field flow_dict ''paths'' json_list) (\<lambda>paths.
     fold_res add_path_of_dict (new_mp_flow source_node destination_node rate variance actual_tx_rates) paths))))))"

text \<open>\<open>to_json\<close> and \<open>from_json\<close> of the flow are the same functions under other names.  \<open>1**-10\<close> is one.\<close>

definition verify_flow :: "mp_flow \<Rightarrow> bool" where
  "verify_flow flow \<longleftrightarrow> sum_list (map pa_fraction (mf_paths flow)) - 1 < 1 / 1 ^ 10"

subsection \<open>Trials\<close>

record mp_trial =
  mt_flows :: "mp_flow list"
  mt_seed :: int
  mt_solution_time :: pyfloat

definition new_mp_trial :: "int \<Rightarrow> pyfloat \<Rightarrow> mp_trial" where
  "new_mp_trial seed solution_time = \<lparr>mt_flows = [], mt_seed = seed, mt_solution_time = solution_time\<rparr>"

definition mt_add_flow :: "mp_trial \<Rightarrow> mp_flow \<Rightarrow> mp_trial res" where
  "mt_add_flow t flow = (if \<not> verify_flow flow then Inl ValueError else Inr (t\<lparr>mt_flows := mt_flows t @ [flow]\<rparr>))"

definition get_flow_defs :: "mp_trial \<Rightarrow> (int \<times> int \<times> pyfloat list \<times> pyfloat \<times> pyfloat) list" where
  "get_flow_defs t = map (\<lambda>flow. (mf_source_node flow, mf_destination_node flow, map pa_fraction (mf_paths flow), mf_rate flow, mf_variance flow)) (mt_flows t)"

definition trial_to_dict :: "mp_trial \<Rightarrow> json" where
  "trial_to_dict t = JObj [(''flows'', list_enc flow_to_dict (mt_flows t)), (''seed'', JInt (mt_seed t)), (''solution-time'', JFloat (mt_solution_time t))]"

definition trial_from_dict :: "json \<Rightarrow> mp_trial res" where
  "trial_from_dict trial_dict =
     rbind (json_field trial_dict ''seed'' json_int) (\<lambda>seed.
     rbind (json_field trial_dict ''solution-time'' json_float) (\<lambda>solution_time.
     rbind (json_field trial_dict ''flows'' json_list) (\<lambda>flows.
     fold_res (\<lambda>t flow_json. rbind (flow_from_dict flow_json) (mt_add_flow t)) (new_mp_trial seed solution_time) flows)))"

subsection \<open>Virtual link embedding trials\<close>

record vle_trial =
  vt_mean_flow_tx_rates :: "pyfloat list"
  vt_std_dev_flow_tx_rates :: "pyfloat list"
  vt_actual_flow_tx_rates :: "pyfloat list list"
  vt_solver_results :: mp_trial
  vt_seed_number :: int

definition vle_create_trial :: "(int \<Rightarrow> json res) \<Rightarrow> pyfloat list \<Rightarrow> pyfloat list \<Rightarrow> pyfloat list list \<Rightarrow> int \<Rightarrow> vle_trial res" where
  "vle_create_trial run_solver mean std actual seed_number =
     rbind (rbind (run_solver seed_number) trial_from_dict) (\<lambda>solver_results.
     Inr \<lparr>vt_mean_flow_tx_rates = mean, vt_std_dev_flow_tx_rates = std, vt_actual_flow_tx_rates = actual,
          vt_solver_results = solver_results, vt_seed_number = seed_number\<rparr>)"

definition vle_to_dict :: "vle_trial \<Rightarrow> json" where
  "vle_to_dict t = JObj
     [(''mean-flow-tx-rates'', list_enc JFloat (vt_mean_flow_tx_rates t)),
      (''std-dev-flow-tx-rates'', list_enc JFloat (vt_std_dev_flow_tx_rates t)),
      (''actual-flow-tx-rates'', list_enc (list_enc JFloat) (vt_actual_flow_tx_rates t)),
      (''solver-results'', trial_to_dict (vt_solver_results t)), (''seed-number'', JInt (vt_seed_number t))]"

definition vle_from_dict :: "json \<Rightarrow> vle_trial res" where
  "vle_from_dict d =
     rbind (json_field d ''mean-flow-tx-rates'' (list_dec json_float)) (\<lambda>tx_rates.
     rbind (json_field d ''std-dev-flow-tx-rates'' (list_dec json_float)) (\<lambda>std_dev.
     rbind (json_field d ''actual-flow-tx-rates'' (list_dec (list_dec json_float))) (\<lambda>actual_rates.
     rbind (json_field d ''solver-results'' trial_from_dict) (\<lambda>solver_results.
     rbind (json_field d ''seed-number'' json_int) (\<lambda>seed_number.
     Inr \<lparr>vt_mean_flow_tx_rates = tx_rates, vt_std_dev_flow_tx_rates = std_dev, vt_actual_flow_tx_rates = actual_rates,
          vt_solver_results = solver_results, vt_seed_number = seed_number\<rparr>)))))"

subsection \<open>Simulations of the solver\<close>

record vle_simulation =
  vs_number_of_nodes :: int
  vs_number_of_links :: int
  vs_solution_time :: pyfloat
  vs_feasible :: bool

definition simulation_to_dict :: "vle_simulation \<Rightarrow> json" where
  "simulation_to_dict s = JObj [(''number-of-nodes'', JInt (vs_number_of_nodes s)), (''number-of-links'', JInt (vs_number_of_links s)),
     (''solution-time'', JFloat (vs_solution_time s)), (''feasible'', JBool (vs_feasible s))]"

definition simulation_from_dict :: "json \<Rightarrow> vle_simulation res" where
  "simulation_from_dict d =
     rbind (json_field d ''number-of-nodes'' json_int) (\<lambda>nodes. rbind (json_field d ''number-of-links'' json_int) (\<lambda>links.
     rbind (json_field d ''solution-time'' json_float) (\<lambda>tm. rbind (json_field d ''feasible'' json_bool) (\<lambda>f.
     Inr \<lparr>vs_number_of_nodes = nodes, vs_number_of_links = links, vs_solution_time = tm, vs_feasible = f\<rparr>))))"

record simulation_trial =
  st_number_of_nodes :: int
  st_number_of_flows :: int
  st_links_per_node :: int
  st_number_of_links :: int
  st_seed_number :: int
  st_solution_time :: pyfloat
  st_feasible :: bool

definition sim_create_trial :: "(int \<Rightarrow> json res) \<Rightarrow> int \<Rightarrow> int \<Rightarrow> int \<Rightarrow> int \<Rightarrow> simulation_trial res" where
  "sim_create_trial run_solver number_of_nodes number_of_flows links_per_node seed_number =
     rbind (rbind (run_solver seed_number) simulation_from_dict) (\<lambda>solver_results.
     Inr \<lparr>st_number_of_nodes = number_of_nodes, st_number_of_flows = number_of_flows, st_links_per_node = links_per_node,
          st_number_of_links = vs_number_of_links solver_results, st_seed_number = seed_number,
          st_solution_time = vs_solution_time solver_results, st_feasible = vs_feasible solver_results\<rparr>)"

definition sim_trial_to_dict :: "simulation_trial \<Rightarrow> json" where
  "sim_trial_to_dict s = JObj
     [(''number-of-nodes'', JInt (st_number_of_nodes s)), (''number-of-flows'', JInt (st_number_of_flows s)),
      (''links-per-node'', JInt (st_links_per_node s)), (''seed-number'', JInt (st_seed_number s)),
      (''solution-time'', JFloat (st_solution_time s)), (''number-of-links'', JInt (st_number_of_links s)), (''feasible'', JBool (st_feasible s))]"

definition sim_trial_from_dict :: "json \<Rightarrow> simulation_trial res" where
  "sim_trial_from_dict d =
     rbind (json_field d ''number-of-nodes'' json_int) (\<lambda>nodes. rbind (json_field d ''number-of-flows'' json_int) (\<lambda>flows.
     rbind (json_field d ''links-per-node'' json_int) (\<lambda>lpn. rbind (json_field d ''number-of-links'' json_int) (\<lambda>links.
     rbind (json_field d ''seed-number'' json_int) (\<lambda>seed. rbind (json_field d ''solution-time'' json_float) (\<lambda>tm.
     rbind (json_field d ''feasible'' json_bool) (\<lambda>f.
     Inr \<lparr>st_number_of_nodes = nodes, st_number_of_flows = flows, st_links_per_node = lpn, st_number_of_links = links,
          st_seed_number = seed, st_solution_time = tm, st_feasible = f\<rparr>)))))))"

subsection \<open>Well-formed trials\<close>

definition mp_flow_wf :: "mp_flow \<Rightarrow> bool" where
  "mp_flow_wf flow \<longleftrightarrow> (\<forall>p \<in> set (mf_paths flow). 2 \<le> length (pa_nodes p) \<and> hd (pa_nodes p) = mf_source_node flow \<and> last (pa_nodes p) = mf_destination_node flow)"

definition mp_trial_wf :: "mp_trial \<Rightarrow> bool" where
  "mp_trial_wf t \<longleftrightarrow> (\<forall>flow \<in> set (mt_flows t). mp_flow_wf flow \<and> verify_flow flow)"

lemma add_path_wf: "mp_flow_wf flow \<Longrightarrow> add_path flow nodes x = Inr flow' \<Longrightarrow> mp_flow_wf flow'"
  by (auto simp: add_path_def mp_flow_wf_def split: if_splits)

lemma flow_from_dict_wf:
  assumes "flow_from_dict j = Inr flow"
  shows "mp_flow_wf flow"
proof -
  from assms obtain s d r v a ps where f: "fold_res add_path_of_dict (new_mp_flow s d r v a) ps = Inr flow"
    unfolding flow_from_dict_def by (auto simp: rbind_Inr_iff)
  show ?thesis
    by (rule fold_res_inv [OF _ f]) (auto simp: new_mp_flow_def mp_flow_wf_def add_path_of_dict_def add_path_def rbind_Inr_iff split: if_splits)
qed

lemma mt_add_flow_wf: "mp_trial_wf t \<Longrightarrow> mp_flow_wf flow \<Longrightarrow> mt_add_flow t flow = Inr t' \<Longrightarrow> mp_trial_wf t'"
  by (auto simp: mt_add_flow_def mp_trial_wf_def split: if_splits)

lemma add_paths_of_dicts:
  assumes "mp_flow_wf flow" and "mf_paths flow = qs @ ps"
  shows "fold_res add_path_of_dict (flow\<lparr>mf_paths := qs\<rparr>) (map path_to_dict ps) = Inr flow"
  using assms(2)
proof (induction ps arbitrary: qs)
  case (Cons p ps)
  have "p \<in> set (mf_paths flow)" using Cons.prems by simp
  then have p: "2 \<le> length (pa_nodes p)" "hd (pa_nodes p) = mf_source_node flow" "last (pa_nodes p) = mf_destination_node flow"
    using assms(1) by (auto simp: mp_flow_wf_def)
  then have "add_path_of_dict (flow\<lparr>mf_paths := qs\<rparr>) (path_to_dict p) = Inr (flow\<lparr>mf_paths := qs @ [p]\<rparr>)"
    by (simp add: add_path_of_dict_def path_to_dict_def ints_codec.dec_enc add_path_def)
  then show ?case using Cons.IH [of "qs @ [p]"] Cons.prems by simp
qed simp

interpretation flow_codec: wf_codec mp_flow_wf flow_to_dict flow_from_dict
proof unfold_locales
  fix flow assume wf: "mp_flow_wf flow"
  have new: "new_mp_flow (mf_source_node flow) (mf_destination_node flow) (mf_rate flow) (mf_variance flow) (mf_actual_tx_rates flow) = flow\<lparr>mf_paths := []\<rparr>"
    by (simp add: new_mp_flow_def)
  show "flow_from_dict (flow_to_dict flow) = Inr flow"
    using add_paths_of_dicts [OF wf, of "[]" "mf_paths flow"]
    by (simp add: flow_from_dict_def flow_to_dict_def floats_codec.dec_enc list_enc_def [of path_to_dict] new)
qed

interpretation trial_codec: wf_codec mp_trial_wf trial_to_dict trial_from_dict
proof unfold_locales
  fix t assume wf: "mp_trial_wf t"
  have "fold_res (\<lambda>t flow_json. rbind (flow_from_dict flow_json) (mt_add_flow t)) (t\<lparr>mt_flows := gs\<rparr>) (map flow_to_dict fs) = Inr (t\<lparr>mt_flows := gs @ fs\<rparr>)"
    if "\<forall>f \<in> set fs. mp_flow_wf f \<and> verify_flow f" for gs fs
    using that by (induction fs arbitrary: gs) (simp_all add: flow_codec.dec_enc_ok mt_add_flow_def)
  moreover have "new_mp_trial (mt_seed t) (mt_solution_time t) = t\<lparr>mt_flows := []\<rparr>" by (simp add: new_mp_trial_def)
  ultimately show "trial_from_dict (trial_to_dict t) = Inr t"
    using wf by (simp add: trial_from_dict_def trial_to_dict_def list_enc_def mp_trial_wf_def)
qed

interpretation float_lists_codec: codec "list_enc (list_enc JFloat)" "list_dec (list_dec json_float)"
  by (rule codec_list) (rule floats_codec.codec_axioms)

interpretation vle_codec: wf_codec "\<lambda>t. mp_trial_wf (vt_solver_results t)" vle_to_dict vle_from_dict
  by unfold_locales (simp add: vle_from_dict_def vle_to_dict_def floats_codec.dec_enc float_lists_codec.dec_enc trial_codec.dec_enc_ok)

interpretation simulation_codec: codec simulation_to_dict simulation_from_dict
  by unfold_locales (simp add: simulation_from_dict_def simulation_to_dict_def)

interpretation sim_trial_codec: codec sim_trial_to_dict sim_trial_from_dict
  by unfold_locales (simp add: sim_trial_from_dict_def sim_trial_to_dict_def)

subsection \<open>Properties\<close>

definition ex_mp_trial :: mp_trial where
  "ex_mp_trial = \<lparr>mt_flows = [\<lparr>mf_source_node = 1, mf_destination_node = 3, mf_paths = [\<lparr>pa_nodes = [1, 2, 3], pa_fraction = 1 / 2\<rparr>, \<lparr>pa_nodes = [1, 3], pa_fraction = 1 / 2\<rparr>],
     mf_rate = 10, mf_variance = 1, mf_actual_tx_rates = [9, 11]\<rparr>], mt_seed = 7, mt_solution_time = 3 / 2\<rparr>"

lemma ex_mp_trial_wf: "mp_trial_wf ex_mp_trial"
  by code_simp

text \<open>
  C39.  A trial read from JSON is well-formed, whatever the input: every path of every flow has at least
  two nodes and runs from the flow's source to its destination, and every flow passed its check.
  Adding paths and flows keeps this.
\<close>

theorem loaded_trial_wf:
  assumes "trial_from_dict j = Inr t"
  shows "mp_trial_wf t"
proof -
  from assms obtain seed tm fs where
    f: "fold_res (\<lambda>t flow_json. rbind (flow_from_dict flow_json) (mt_add_flow t)) (new_mp_trial seed tm) fs = Inr t"
    unfolding trial_from_dict_def by (auto simp: rbind_Inr_iff)
  show ?thesis
  proof (rule fold_res_inv [where P = mp_trial_wf, OF _ f])
    show "mp_trial_wf (new_mp_trial seed tm)" by (simp add: new_mp_trial_def mp_trial_wf_def)
    fix s x t assume "mp_trial_wf s" "rbind (flow_from_dict x) (mt_add_flow s) = Inr t"
    then show "mp_trial_wf t" by (auto simp: rbind_Inr_iff intro: mt_add_flow_wf flow_from_dict_wf)
  qed
qed

theorem loaded_trial_wf_witness:
  "trial_from_dict (trial_to_dict ex_mp_trial) = Inr ex_mp_trial \<and> mp_trial_wf ex_mp_trial"
proof -
  have e: "trial_from_dict (trial_to_dict ex_mp_trial) = Inr ex_mp_trial" by (rule trial_codec.dec_enc_ok [OF ex_mp_trial_wf])
  from e loaded_trial_wf [OF e] show ?thesis ..
qed

text \<open>
  C40.  The JSON forms are lossless: a well-formed multipath trial, a virtual link embedding trial around
  one, a simulation and a simulation trial are read back as they were written.
\<close>

theorem trial_json_roundtrip:
  assumes "mp_trial_wf t" and "mp_trial_wf (vt_solver_results v)"
  shows "trial_from_dict (trial_to_dict t) = Inr t \<and> vle_from_dict (vle_to_dict v) = Inr v
    \<and> simulation_from_dict (simulation_to_dict s) = Inr s \<and> sim_trial_from_dict (sim_trial_to_dict st) = Inr st"
  using assms by (simp add: trial_codec.dec_enc_ok vle_codec.dec_enc_ok simulation_codec.dec_enc sim_trial_codec.dec_enc)

theorem trial_json_roundtrip_witness:
  "\<exists>v :: vle_trial. vt_solver_results v = ex_mp_trial \<and> trial_from_dict (trial_to_dict ex_mp_trial) = Inr ex_mp_trial
    \<and> vle_from_dict (vle_to_dict v) = Inr v"
proof -
  let ?v = "\<lparr>vt_mean_flow_tx_rates = [10], vt_std_dev_flow_tx_rates = [1], vt_actual_flow_tx_rates = [[9, 11]],
    vt_solver_results = ex_mp_trial, vt_seed_number = 7\<rparr>"
  have "mp_trial_wf (vt_solver_results ?v)" using ex_mp_trial_wf by simp
  from trial_json_roundtrip [OF ex_mp_trial_wf this] show ?thesis by (intro exI [of _ ?v]) simp
qed

text \<open>
  The check of a flow's fractions does not check that they sum to one: \<open>1**-10\<close> is one, so every sum
  below two passes, zero included.
\<close>

theorem verify_flow_bound:
  "verify_flow flow \<longleftrightarrow> sum_list (map pa_fraction (mf_paths flow)) < 2"
  by (auto simp: verify_flow_def)

end
