(* ===== verification/Stat_Monitor.thy ===== *)
theory Stat_Monitor
  imports Json
begin

section \<open>Link utilisation from byte counters\<close>

text \<open>
  Models \<open>rest_client/nw_control/stat_monitor.py\<close>: the conversion of sampled interface counters into link
  utilisations over time and their means, and the \<open>OnMonitor\<close> handle as a state machine whose requests are
  answered by the controller (a parameter).  Counters are integers; rates are exact rationals.
\<close>

subsection \<open>Utilisation\<close>

type_synonym switch_id = string

record iface_stats =
  if_source :: switch_id
  if_destination :: switch_id
  if_bytes_sent :: int

text \<open>Sorting the two switch names of a link needs an order on strings: lexicographic by code point.\<close>

fun str_le :: "string \<Rightarrow> string \<Rightarrow> bool" where
  "str_le [] t = True"
| "str_le (c # s) [] = False"
| "str_le (c # s) (d # t) = ((of_char c :: nat) < of_char d \<or> (c = d \<and> str_le s t))"

definition compute_link_key :: "switch_id \<Rightarrow> switch_id \<Rightarrow> switch_id \<times> switch_id" where
  "compute_link_key source_id destination_id = (if str_le source_id destination_id then (source_id, destination_id) else (destination_id, source_id))"

definition find_matching_iface_stats :: "iface_stats list \<Rightarrow> switch_id \<Rightarrow> switch_id \<Rightarrow> iface_stats res" where
  "find_matching_iface_stats byte_count source_id destination_id =
     (case filter (\<lambda>d. if_source d = source_id \<and> if_destination d = destination_id) byte_count of
        [d] \<Rightarrow> Inr d
      | _ \<Rightarrow> Inl ValueError)"

definition compute_tx_rate :: "int \<Rightarrow> pyfloat" where
  "compute_tx_rate count_in_bytes = of_int (count_in_bytes * 8) / 10 / 2 ^ 20"

type_synonym link_counts = "(switch_id \<times> switch_id, int) dict"

definition add_delta :: "iface_stats list \<Rightarrow> link_counts \<Rightarrow> iface_stats \<Rightarrow> link_counts" where
  "add_delta t_1 acc d =
     (let t_0_count = if_bytes_sent d;
          t_1_count = (case find_matching_iface_stats t_1 (if_source d) (if_destination d) of Inr e \<Rightarrow> if_bytes_sent e | Inl _ \<Rightarrow> t_0_count);
          k = compute_link_key (if_source d) (if_destination d)
      in dict_set acc k (dict_get_default acc k 0 + (t_1_count - t_0_count)))"

definition link_rates :: "iface_stats list \<Rightarrow> iface_stats list \<Rightarrow> (switch_id \<times> switch_id, pyfloat) dict" where
  "link_rates t_0 t_1 = map (\<lambda>(k, n). (k, compute_tx_rate n)) (foldl (add_delta t_1) [] t_0)"

definition compute_link_utilization_over_time :: "iface_stats list list \<Rightarrow> (switch_id \<times> switch_id, pyfloat) dict list" where
  "compute_link_utilization_over_time link_byte_counts = map (\<lambda>(t_0, t_1). link_rates t_0 t_1) (zip link_byte_counts (tl link_byte_counts))"

definition mean :: "pyfloat list \<Rightarrow> pyfloat" where
  "mean xs = sum_list xs / of_nat (length xs)"

definition compute_mean_link_utilization :: "iface_stats list list \<Rightarrow> (switch_id \<times> switch_id, pyfloat) dict" where
  "compute_mean_link_utilization link_byte_counts =
     (let link_util_t = compute_link_utilization_over_time link_byte_counts;
          link_keys = foldl (\<lambda>ks t. foldl set_add ks (dict_keys t)) [] link_util_t
      in map (\<lambda>k. (k, mean (List.map_filter (\<lambda>d. map_of d k) link_util_t))) link_keys)"

subsection \<open>The monitor handle\<close>

record on_monitor =
  om_token :: "string option"
  om_response :: "json option"

text \<open>An answer of the controller: the status code and the body.\<close>

type_synonym http_answer = "int \<times> json"

definition new_on_monitor :: on_monitor where
  "new_on_monitor = \<lparr>om_token = None, om_response = None\<rparr>"

definition start_monitor :: "http_answer \<Rightarrow> on_monitor \<Rightarrow> on_monitor res" where
  "start_monitor answer m =
     (if om_token m \<noteq> None then Inl ValueError
      else if fst answer = 200 then rbind (json_field (snd answer) ''token'' json_str) (\<lambda>tok. Inr (m\<lparr>om_token := Some tok\<rparr>))
      else Inl ValueError)"

definition stop_monitor :: "http_answer \<Rightarrow> on_monitor \<Rightarrow> on_monitor res" where
  "stop_monitor answer m =
     (if om_token m = None then Inl ValueError
      else if fst answer = 200 then Inr (m\<lparr>om_response := Some (snd answer), om_token := None\<rparr>)
      else Inl ValueError)"

definition get_monitor_statistics :: "on_monitor \<Rightarrow> json list res" where
  "get_monitor_statistics m = (case om_response m of
     None \<Rightarrow> Inl ValueError
   | Some r \<Rightarrow> rbind (json_list r) (map_res (\<lambda>d. json_field d ''netUtilStats'' (\<lambda>u. json_get u ''utilizationStats''))))"

datatype monitor_op = Start | Stop

text \<open>A run: requests in order, each with the controller's answer.\<close>

inductive monitor_run :: "monitor_op list \<Rightarrow> on_monitor \<Rightarrow> bool" where
  new: "monitor_run [] new_on_monitor"
| start: "monitor_run ops m \<Longrightarrow> start_monitor answer m = Inr m' \<Longrightarrow> monitor_run (ops @ [Start]) m'"
| stop: "monitor_run ops m \<Longrightarrow> stop_monitor answer m = Inr m' \<Longrightarrow> monitor_run (ops @ [Stop]) m'"

inductive_cases monitor_run_snocE: "monitor_run (ops @ [x]) m"

subsection \<open>What the utilisations are\<close>

definition byte_delta :: "iface_stats list \<Rightarrow> iface_stats \<Rightarrow> int" where
  "byte_delta t_1 d = (case find_matching_iface_stats t_1 (if_source d) (if_destination d) of Inr e \<Rightarrow> if_bytes_sent e - if_bytes_sent d | Inl _ \<Rightarrow> 0)"

abbreviation stats_key :: "iface_stats \<Rightarrow> switch_id \<times> switch_id" where
  "stats_key d \<equiv> compute_link_key (if_source d) (if_destination d)"

lemma add_delta_eq: "add_delta t_1 acc d = dict_set acc (stats_key d) (dict_get_default acc (stats_key d) 0 + byte_delta t_1 d)"
  by (simp add: add_delta_def byte_delta_def Let_def split: sum.splits)

lemma deltas_at:
  "map_of (foldl (add_delta t_1) acc t_0) k =
     (if \<exists>d \<in> set t_0. stats_key d = k then Some (dict_get_default acc k 0 + (\<Sum>d\<leftarrow>filter (\<lambda>d. stats_key d = k) t_0. byte_delta t_1 d))
      else map_of acc k)"
proof (induction t_0 arbitrary: acc)
  case (Cons d t_0)
  have "dict_get_default (add_delta t_1 acc d) k 0 = (if stats_key d = k then dict_get_default acc k 0 + byte_delta t_1 d else dict_get_default acc k 0)"
    by (simp add: add_delta_eq dict_get_default_def)
  moreover have "map_of (add_delta t_1 acc d) k = (if stats_key d = k then Some (dict_get_default acc k 0 + byte_delta t_1 d) else map_of acc k)"
    by (simp add: add_delta_eq)
  ultimately show ?case using Cons [of "add_delta t_1 acc d"] by (auto simp: algebra_simps)
qed simp

lemma map_of_map_values: "map_of (map (\<lambda>(k, v). (k, g v)) d) k = map_option g (map_of d k)"
  by (induction d) auto

lemma str_le_total: "str_le s t \<or> str_le t s"
  by (induction s t rule: str_le.induct) auto

lemma str_le_antisym: "str_le s t \<Longrightarrow> str_le t s \<Longrightarrow> s = t"
proof (induction s t rule: str_le.induct)
  case (1 t)
  then show ?case by (cases t) auto
qed auto

lemma link_key_undirected: "compute_link_key a b = compute_link_key b a"
  using str_le_total [of a b] str_le_antisym [of a b] by (auto simp: compute_link_key_def)

lemma mean_bounds:
  assumes "xs \<noteq> []" and "\<forall>x \<in> set xs. lo \<le> x \<and> x \<le> hi"
  shows "lo \<le> mean xs \<and> mean xs \<le> hi"
proof -
  have "of_nat (length xs) * lo \<le> sum_list xs \<and> sum_list xs \<le> of_nat (length xs) * hi"
    using assms(2) by (induction xs) (auto simp: algebra_simps)
  moreover have "0 < (of_nat (length xs) :: rat)" using assms(1) by simp
  ultimately show ?thesis by (simp add: mean_def field_simps)
qed

lemma set_foldl_set_add: "set (foldl set_add acc xs) = set acc \<union> set xs"
  by (induction xs arbitrary: acc) auto

lemma set_link_keys: "set (foldl (\<lambda>ks t. foldl set_add ks (dict_keys t)) acc ts) = set acc \<union> (\<Union>t \<in> set ts. set (dict_keys t))"
  by (induction ts arbitrary: acc) (auto simp: set_foldl_set_add simp del: set_map)

subsection \<open>Properties\<close>

text \<open>
  The utilisation of a link between two samples is the rate of all bytes sent over it in either
  direction: the sum of the counter differences of the interfaces on the link, an interface without
  exactly one counterpart in the second sample counting as idle.  Links without an interface in the
  first sample do not appear.
\<close>

theorem link_rates_exact:
  "map_of (link_rates t_0 t_1) k =
     (if \<exists>d \<in> set t_0. compute_link_key (if_source d) (if_destination d) = k
      then Some (compute_tx_rate (\<Sum>d\<leftarrow>filter (\<lambda>d. compute_link_key (if_source d) (if_destination d) = k) t_0. byte_delta t_1 d)) else None)
   \<and> compute_link_key a b = compute_link_key b a"
  unfolding link_rates_def map_of_map_values deltas_at by (auto simp: dict_get_default_def link_key_undirected)

definition ex_counts :: "iface_stats list list" where
  "ex_counts = [[\<lparr>if_source = ''a'', if_destination = ''b'', if_bytes_sent = 0\<rparr>],
     [\<lparr>if_source = ''a'', if_destination = ''b'', if_bytes_sent = 1310720\<rparr>]]"

text \<open>
  The mean utilisation is reported for exactly the links seen in some interval, and lies within any
  bounds that hold for all intervals.
\<close>

theorem mean_link_utilization_bounds:
  assumes "\<forall>t \<in> set (compute_link_utilization_over_time counts). \<forall>(k, x) \<in> set t. lo \<le> x \<and> x \<le> hi"
  shows "set (dict_keys (compute_mean_link_utilization counts)) = (\<Union>t \<in> set (compute_link_utilization_over_time counts). set (dict_keys t))
    \<and> (\<forall>(k, x) \<in> set (compute_mean_link_utilization counts). lo \<le> x \<and> x \<le> hi)"
proof -
  let ?ts = "compute_link_utilization_over_time counts"
  let ?ks = "foldl (\<lambda>ks t. foldl set_add ks (dict_keys t)) [] ?ts"
  have keys: "set ?ks = (\<Union>t \<in> set ?ts. set (dict_keys t))" by (simp only: set_link_keys list.set Un_empty_left)
  have "lo \<le> mean (List.map_filter (\<lambda>d. map_of d k) ?ts) \<and> mean (List.map_filter (\<lambda>d. map_of d k) ?ts) \<le> hi" if "k \<in> set ?ks" for k
  proof (rule mean_bounds)
    from that obtain t where t: "t \<in> set ?ts" "k \<in> set (dict_keys t)" unfolding keys by blast
    then obtain v where "map_of t k = Some v" by (elim keys_lookup [THEN exE])
    then have "v \<in> set (List.map_filter (\<lambda>d. map_of d k) ?ts)" using t(1) by (force simp: List.map_filter_def)
    then show "List.map_filter (\<lambda>d. map_of d k) ?ts \<noteq> []" by force
    show "\<forall>x \<in> set (List.map_filter (\<lambda>d. map_of d k) ?ts). lo \<le> x \<and> x \<le> hi"
      using assms by (fastforce simp: List.map_filter_def dest: map_of_SomeD)
  qed
  then show ?thesis using keys unfolding compute_mean_link_utilization_def Let_def by (simp add: comp_def)
qed

theorem mean_link_utilization_bounds_witness:
  "set (dict_keys (compute_mean_link_utilization ex_counts)) = (\<Union>t \<in> set (compute_link_utilization_over_time ex_counts). set (dict_keys t))
   \<and> list_all (\<lambda>(k, x). 1 \<le> x \<and> x \<le> 1) (compute_mean_link_utilization ex_counts)"
  unfolding list_all_iff by (rule mean_link_utilization_bounds) code_simp

text \<open>
  The monitor handle is a two-state machine: the requests that succeed alternate, starting with a
  start; the monitor holds a token exactly after an odd number of them, and has statistics to offer
  exactly when it was stopped at least once.
\<close>

theorem monitor_alternates:
  assumes "monitor_run ops m"
  shows "(\<forall>i < length ops. ops ! i = (if even i then Start else Stop)) \<and> (om_token m \<noteq> None \<longleftrightarrow> odd (length ops))
    \<and> (om_response m \<noteq> None \<longleftrightarrow> 2 \<le> length ops) \<and> (om_response m = None \<longrightarrow> get_monitor_statistics m = Inl ValueError)"
  using assms
proof (induction rule: monitor_run.induct)
  case new
  then show ?case by (simp add: new_on_monitor_def get_monitor_statistics_def)
next
  case (start ops m answer m')
  then have "om_token m = None" "om_token m' \<noteq> None" "om_response m' = om_response m"
    by (auto simp: start_monitor_def rbind_Inr_iff split: if_splits)
  moreover from this have "even (length ops)" using start.IH by simp
  moreover from this have "2 \<le> Suc (length ops) \<longleftrightarrow> 2 \<le> length ops" by (cases "length ops") (auto, presburger)
  ultimately show ?case using start.IH by (auto simp: nth_append less_Suc_eq get_monitor_statistics_def)
next
  case (stop ops m answer m')
  then have "om_token m \<noteq> None" "om_token m' = None" "om_response m' \<noteq> None"
    by (auto simp: stop_monitor_def split: if_splits)
  moreover from this have odd: "odd (length ops)" using stop.IH by simp
  moreover from odd have "2 \<le> Suc (length ops)" by (cases "length ops") auto
  ultimately show ?case using stop.IH by (auto simp: nth_append less_Suc_eq)
qed

theorem monitor_alternates_witness:
  "\<exists>m. monitor_run [Start, Stop] m \<and> om_token m = None \<and> om_response m \<noteq> None"
proof -
  let ?m1 = "\<lparr>om_token = Some ''t'', om_response = None\<rparr>"
  let ?m2 = "\<lparr>om_token = None, om_response = Some (JList [])\<rparr>"
  have "start_monitor (200, JObj [(''token'', JStr ''t'')]) new_on_monitor = Inr ?m1" by (simp add: start_monitor_def new_on_monitor_def)
  from monitor_run.start [OF monitor_run.new this] have "monitor_run [Start] ?m1" by simp
  moreover have "stop_monitor (200, JList []) ?m1 = Inr ?m2" by (simp add: stop_monitor_def)
  ultimately have "monitor_run ([Start] @ [Stop]) ?m2" by (rule monitor_run.stop)
  then have run: "monitor_run [Start, Stop] ?m2" by simp
  from run monitor_alternates [OF run] show ?thesis by (intro exI [of _ ?m2]) simp
qed

end
