(* ===== verification/Traffic_Reports.thy ===== *)
theory Traffic_Reports
  imports Prelude
begin

section \<open>Reports of traffic\<close>

text \<open>
  What the traffic generator and the traffic server write down when they are interrupted, and what a driver
  keeps of it for a host: the report of the server, and that of the generators unless it could not be fetched.
\<close>

record flow_info =
  fi_pkt_count :: int
  fi_src_port :: int
  fi_src_host :: int
  fi_dst_ip :: string
  fi_flow_id :: int

type_synonym net_source = "string \<times> int"

record end_host_results =
  eh_receiver :: "(net_source, int) dict"
  eh_sender :: "(nat, flow_info) dict option"

end
