(* ===== verification/Trial_Provider.thy ===== *)
theory Trial_Provider
  imports Flow_Allocation Strings Traffic_Reports
begin

section \<open>Trials and trial providers\<close>

text \<open>
  Models \<open>rest_client/nw_control/trial_provider.py\<close>: a \<open>Trial\<close> is a name with a dictionary of parameters
  that can be added once and updated later; a \<open>TrialProvider\<close> is a named list of trials with metadata.
  The standard library's \<open>random.randint\<close>, which gives every new trial its id, is a parameter \<open>randint\<close>
  whose state the operations thread.  Printing (\<open>__str__\<close>) is left out.
\<close>

subsection \<open>Trials\<close>

text \<open>The flows of this module are those of \<open>flow_allocation.py\<close>, but may have a list of rates.\<close>

record rate_flow =
  rf_source :: fa_node
  rf_destination :: fa_node
  rf_tx_rates :: "pyfloat list"
  rf_paths :: "fa_node list list"
  rf_splitting_ratio :: "pyfloat list"

datatype param_value =
    PInt int
  | PStr string
  | PPath string
  | PFlowSet flow_set
  | PLinkUtil link_util
  | PMessages "nat list"
  | PFloats "pyfloat list"
  | PGraph "fa_node list" "fa_link list"
  | PFloat pyfloat
  | PInts "int list"
  | PJson json
  | PLinkRates "(string \<times> string, pyfloat) dict"
  | PLinkRatesOverTime "(string \<times> string, pyfloat) dict list"
  | PRateFlows "rate_flow list"
  | PFloatLists "pyfloat list list"
  | PFloatMap "(nat, pyfloat) dict"
  | PEndHosts "(int, end_host_results) dict"

type_synonym params = "(string, param_value) dict"
type_synonym 'q randint = "'q \<Rightarrow> int \<Rightarrow> int \<Rightarrow> int \<times> 'q"

record trial =
  tr_name :: string
  tr_parameters :: params

definition new_trial :: "'q randint \<Rightarrow> string \<Rightarrow> 'q \<Rightarrow> trial \<times> 'q" where
  "new_trial randint name q =
     (let (n, q') = randint q 0 (2 ^ 64)
      in (\<lparr>tr_name = name, tr_parameters = [(''trial-name'', PStr name), (''id'', PStr (show_int n))]\<rparr>, q'))"

definition has_parameter :: "trial \<Rightarrow> string \<Rightarrow> bool" where
  "has_parameter t k \<longleftrightarrow> dict_has (tr_parameters t) k"

definition add_parameter :: "trial \<Rightarrow> string \<Rightarrow> param_value \<Rightarrow> trial res" where
  "add_parameter t parameter_name parameter_value =
     (if dict_has (tr_parameters t) parameter_name then Inl ValueError
      else Inr (t\<lparr>tr_parameters := dict_set (tr_parameters t) parameter_name parameter_value\<rparr>))"

definition update_parameter :: "trial \<Rightarrow> string \<Rightarrow> param_value \<Rightarrow> trial res" where
  "update_parameter t parameter_name parameter_value =
     (if \<not> dict_has (tr_parameters t) parameter_name then Inl ValueError
      else Inr (t\<lparr>tr_parameters := dict_set (tr_parameters t) parameter_name parameter_value\<rparr>))"

definition get_parameter :: "trial \<Rightarrow> string \<Rightarrow> param_value res" where
  "get_parameter t property_name =
     (case map_of (tr_parameters t) property_name of None \<Rightarrow> Inl ValueError | Some v \<Rightarrow> Inr v)"

definition trial_items :: "trial \<Rightarrow> (string \<times> param_value) list" where
  "trial_items t = tr_parameters t"

text \<open>\<open>Trial.__lt__\<close> compares the names as Python compares strings, by code points.\<close>

fun str_less :: "string \<Rightarrow> string \<Rightarrow> bool" where
  "str_less s [] = False"
| "str_less [] (c # cs) = True"
| "str_less (x # xs) (c # cs) = ((of_char x :: nat) < of_char c \<or> x = c \<and> str_less xs cs)"

definition trial_lt :: "trial \<Rightarrow> trial \<Rightarrow> bool" where
  "trial_lt t other = str_less (tr_name t) (tr_name other)"

text \<open>The sequence of \<open>add_parameter\<close> calls with which the trial modules fill a new trial.\<close>

definition add_parameters :: "trial \<Rightarrow> (string \<times> param_value) list \<Rightarrow> trial res" where
  "add_parameters t ps = fold_res (\<lambda>t (k, v). add_parameter t k v) t ps"

subsection \<open>Providers\<close>

record trial_provider =
  provider_name :: string
  tp_trials :: "trial list"
  tp_metadata :: params

definition new_trial_provider :: "string \<Rightarrow> trial_provider" where
  "new_trial_provider name = \<lparr>provider_name = name, tp_trials = [], tp_metadata = []\<rparr>"

definition add_trial :: "trial_provider \<Rightarrow> trial \<Rightarrow> trial_provider" where
  "add_trial tp the_trial = tp\<lparr>tp_trials := tp_trials tp @ [the_trial]\<rparr>"

text \<open>
  \<open>list.remove\<close> drops the first equal element and raises \<open>ValueError\<close> when there is none.  Trials are
  equal when they are the same object; here they are compared by value, ids included.
\<close>

definition remove_trial :: "trial_provider \<Rightarrow> trial \<Rightarrow> trial_provider res" where
  "remove_trial tp t = (if t \<in> set (tp_trials tp) then Inr (tp\<lparr>tp_trials := remove1 t (tp_trials tp)\<rparr>) else Inl ValueError)"

text \<open>A match function reads parameters and so may raise.\<close>

definition get_all_trials_that_match :: "trial_provider \<Rightarrow> (trial \<Rightarrow> bool res) \<Rightarrow> trial list res" where
  "get_all_trials_that_match tp match_fn = filter_res match_fn (tp_trials tp)"

definition get_first_trial_that_matches :: "trial_provider \<Rightarrow> (trial \<Rightarrow> bool res) \<Rightarrow> trial res" where
  "get_first_trial_that_matches tp match_fn =
     rbind (get_all_trials_that_match tp match_fn) (\<lambda>matching_trials.
       if length matching_trials = 0 then Inl ValueError else py_nth matching_trials 0)"

definition remove_all_trials_that_match :: "trial_provider \<Rightarrow> (trial \<Rightarrow> bool res) \<Rightarrow> trial_provider res" where
  "remove_all_trials_that_match tp match_fn =
     rbind (get_all_trials_that_match tp match_fn) (fold_res remove_trial tp)"

definition add_metadata :: "trial_provider \<Rightarrow> string \<Rightarrow> param_value \<Rightarrow> trial_provider res" where
  "add_metadata tp metadata_key metadata_value =
     (if dict_has (tp_metadata tp) metadata_key then Inl ValueError
      else Inr (tp\<lparr>tp_metadata := dict_set (tp_metadata tp) metadata_key metadata_value\<rparr>))"

definition get_metadata :: "trial_provider \<Rightarrow> string \<Rightarrow> param_value res" where
  "get_metadata tp metadata_key =
     (case map_of (tp_metadata tp) metadata_key of None \<Rightarrow> Inl ValueError | Some v \<Rightarrow> Inr v)"

definition provider_eq :: "trial_provider \<Rightarrow> trial_provider \<Rightarrow> bool" where
  "provider_eq tp other \<longleftrightarrow> provider_name tp = provider_name other"

definition provider_len :: "trial_provider \<Rightarrow> nat" where
  "provider_len tp = length (tp_trials tp)"

subsection \<open>Parameters\<close>

definition trial_wf :: "trial \<Rightarrow> bool" where
  "trial_wf t \<longleftrightarrow> dict_wf (tr_parameters t) \<and> map_of (tr_parameters t) ''trial-name'' = Some (PStr (tr_name t))
     \<and> (\<exists>i. map_of (tr_parameters t) ''id'' = Some (PStr i))"

lemma new_trial_name [simp]: "tr_name (fst (new_trial randint name q)) = name"
  by (simp add: new_trial_def case_prod_unfold Let_def)

lemma new_trial_keys: "dict_keys (tr_parameters (fst (new_trial randint name q))) = [''trial-name'', ''id'']"
  by (simp add: new_trial_def case_prod_unfold Let_def)

lemma new_trial_wf: "trial_wf (fst (new_trial randint name q))"
  by (simp add: new_trial_def trial_wf_def dict_wf_def case_prod_unfold Let_def)

lemma dict_set_new: "k \<notin> set (dict_keys d) \<Longrightarrow> dict_set d k v = d @ [(k, v)]"
  by (induction d) (auto simp: dict_set_def)

lemma add_parameters_new:
  assumes "distinct (map fst ps)" and "set (map fst ps) \<inter> set (dict_keys (tr_parameters t)) = {}"
  shows "add_parameters t ps = Inr (t\<lparr>tr_parameters := tr_parameters t @ ps\<rparr>)"
  using assms
proof (induction ps arbitrary: t)
  case (Cons p ps)
  obtain k v where p: "p = (k, v)" by (cases p)
  let ?t = "t\<lparr>tr_parameters := tr_parameters t @ [(k, v)]\<rparr>"
  have new: "k \<notin> set (dict_keys (tr_parameters t))" using Cons.prems(2) p by auto
  then have step: "add_parameter t k v = Inr ?t" by (simp add: add_parameter_def dict_has_def dict_set_new)
  have "add_parameters ?t ps = Inr (?t\<lparr>tr_parameters := tr_parameters ?t @ ps\<rparr>)"
    using Cons.prems p by (intro Cons.IH) auto
  with step show ?case by (simp add: add_parameters_def p)
qed (simp add: add_parameters_def)

lemma add_parameters_clash:
  assumes "k \<in> set (dict_keys (tr_parameters t))"
  shows "add_parameters t ((k, v) # ps) = Inl ValueError"
  using assms by (simp add: add_parameters_def add_parameter_def dict_has_def)

lemma get_parameter_iff: "get_parameter t k = Inr v \<longleftrightarrow> map_of (tr_parameters t) k = Some v"
  by (simp add: get_parameter_def split: option.splits)

text \<open>Removing every matching trial, one \<open>list.remove\<close> at a time, leaves exactly the trials that do not match.\<close>

lemma remove_each: "fold_res remove_trial (tp\<lparr>tp_trials := us @ xs\<rparr>) (filter P xs) = Inr (tp\<lparr>tp_trials := us @ filter (\<lambda>x. \<not> P x) xs\<rparr>)"
  if "\<forall>u \<in> set us. \<not> P u"
  using that
proof (induction xs arbitrary: us)
  case (Cons x xs)
  show ?case
  proof (cases "P x")
    case True
    then have "x \<notin> set us" using Cons.prems by blast
    then show ?thesis using True Cons.IH [OF Cons.prems] by (simp add: remove_trial_def remove1_append)
  next
    case False
    then show ?thesis using Cons.IH [of "us @ [x]"] Cons.prems by simp
  qed
qed simp

lemma remove_all_filter:
  assumes "\<forall>t \<in> set (tp_trials tp). match_fn t = Inr (P t)"
  shows "remove_all_trials_that_match tp match_fn = Inr (tp\<lparr>tp_trials := filter (\<lambda>t. \<not> P t) (tp_trials tp)\<rparr>)"
proof -
  have "filter_res match_fn (tp_trials tp) = Inr (filter P (tp_trials tp))"
    using assms by (intro filter_res_pure) auto
  then show ?thesis
    using remove_each [where us = "[]" and P = P and tp = tp and xs = "tp_trials tp"] by (simp add: remove_all_trials_that_match_def get_all_trials_that_match_def)
qed

end
