(* ===== verification/Path_Hopping_Trials.thy ===== *)
theory Path_Hopping_Trials
  imports Trial_Provider Mcf_Allocation
begin

section \<open>The trials of the path-hopping testbed\<close>

text \<open>
  Models \<open>rest_client/path_hopping/trials.py\<close>: the functions that select end points, call an allocator of
  \<open>flow_allocation.py\<close> and store its flows and link utilisation as parameters of a trial.  numpy, scipy and
  networkx are parameters, gathered in \<open>ph_env\<close> with the solver; the graph is given by its nodes, its edges
  and the edges of its \<open>DiGraph\<close>.  The allocators' loops take fuel; \<open>None\<close> is running out of it.
\<close>

subsection \<open>Parameters\<close>

record 'r ph_env =
  ph_np :: "'r np_random"
  ph_seed :: "int \<Rightarrow> 'r res"
  ph_uniform :: "'r \<Rightarrow> pyfloat \<Rightarrow> pyfloat \<Rightarrow> pyfloat \<times> 'r"
  ph_choice_p :: "'r \<Rightarrow> nat \<Rightarrow> nat \<Rightarrow> pyfloat list \<Rightarrow> (nat list \<times> 'r) res"
  binom_pmf :: "int \<Rightarrow> nat \<Rightarrow> pyfloat \<Rightarrow> pyfloat"
  ph_simple_paths :: "fa_node \<Rightarrow> fa_node \<Rightarrow> fa_node list list"
  ph_disjoint_paths :: "fa_node \<Rightarrow> fa_node \<Rightarrow> fa_node list list"
  ph_optimize :: solver

record ph_graph =
  pg_nodes :: "fa_node list"
  pg_edges :: "fa_link list"
  pg_di_edges :: "fa_link list"

text \<open>A result that may also run out of fuel.\<close>

definition obind :: "'a res option \<Rightarrow> ('a \<Rightarrow> 'b res option) \<Rightarrow> 'b res option" where
  "obind m f = (case m of None \<Rightarrow> None | Some (Inl e) \<Rightarrow> Some (Inl e) | Some (Inr x) \<Rightarrow> f x)"

lemma obind_simps [simp]: "obind None f = None" "obind (Some (Inl e)) f = Some (Inl e)" "obind (Some (Inr x)) f = f x"
  by (simp_all add: obind_def)

subsection \<open>Selecting the end points of a flow\<close>

definition unpack_pair :: "'a list \<Rightarrow> ('a \<times> 'a) res" where
  "unpack_pair xs = (case xs of [a, b] \<Rightarrow> Inr (a, b) | _ \<Rightarrow> Inl ValueError)"

definition uniform_selection :: "'r ph_env \<Rightarrow> 'r \<Rightarrow> fa_node list \<Rightarrow> ((fa_node \<times> fa_node) \<times> 'r) res" where
  "uniform_selection env r node_list =
     rbind (sample (ph_np env) r node_list 2) (\<lambda>(picked, r'). rbind (unpack_pair picked) (\<lambda>sd. Inr (sd, r')))"

definition non_uniform_selection ::
    "'r ph_env \<Rightarrow> pyfloat list \<Rightarrow> 'r \<Rightarrow> fa_node list \<Rightarrow> ((fa_node \<times> fa_node) \<times> 'r) res" where
  "non_uniform_selection env discrete_probability_distribution r node_list =
     rbind (ph_choice_p env r (length node_list) 2 discrete_probability_distribution) (\<lambda>(js, r').
     rbind (unpack_pair (map (\<lambda>j. node_list ! j) js)) (\<lambda>sd. Inr (sd, r')))"

definition constant_selection :: "'r \<Rightarrow> fa_node list \<Rightarrow> ((fa_node \<times> fa_node) \<times> 'r) res" where
  "constant_selection r node_list = rbind (py_nth node_list 0) (\<lambda>s. rbind (py_nth node_list 1) (\<lambda>d. Inr ((s, d), r)))"

definition mk_binomial_probability_distribution :: "'r ph_env \<Rightarrow> fa_node list \<Rightarrow> pyfloat list res" where
  "mk_binomial_probability_distribution env node_set =
     (let dist = map (\<lambda>node_id. binom_pmf env node_id (length node_set) (1 / 2)) node_set
      in if dist = [] then Inl IndexError else Inr (butlast dist @ [last dist + (1 - sum_list dist)]))"

definition mk_uniform_probability_distribution :: "fa_node list \<Rightarrow> pyfloat list" where
  "mk_uniform_probability_distribution node_set = map (\<lambda>_. 1 / of_nat (length node_set)) node_set"

definition selection_env :: "'r ph_env \<Rightarrow> ('r \<Rightarrow> fa_node list \<Rightarrow> ((fa_node \<times> fa_node) \<times> 'r) res) \<Rightarrow> 'r fa_env" where
  "selection_env env sel = \<lparr>flow_selection_fn = sel, np_uniform = ph_uniform env, disjoint_paths = ph_disjoint_paths env\<rparr>"

subsection \<open>One trial\<close>

definition flow_set_of :: "alloc_flow list \<Rightarrow> param_value" where
  "flow_set_of flows = PFlowSet (add_flows new_flow_set flows)"

definition trial_of :: "'q randint \<Rightarrow> string \<Rightarrow> (string \<times> param_value) list res option \<Rightarrow> 'q \<Rightarrow> (trial \<times> 'q) res option" where
  "trial_of randint name allocation q =
     (let (the_trial, q') = new_trial randint name q
      in obind allocation (\<lambda>ps. obind (Some (add_parameters the_trial ps)) (\<lambda>t. Some (Inr (t, q')))))"

definition provider_of :: "string \<Rightarrow> (trial \<times> 'q) res option \<Rightarrow> (trial_provider \<times> 'q) res option" where
  "provider_of name m = obind m (\<lambda>(t, q). Some (Inr (add_trial (new_trial_provider name) t, q)))"

text \<open>Seeding numpy, then running an allocator from the seeded state.\<close>

definition seeded :: "'r ph_env \<Rightarrow> int \<Rightarrow> ('r \<Rightarrow> 'a res option) \<Rightarrow> 'a res option" where
  "seeded env seed_number run = obind (Some (ph_seed env seed_number)) run"

definition ilp_allocation where
  "ilp_allocation env sel G seed_number fuel =
     seeded env seed_number (compute_ilp_flows (selection_env env sel) (ph_optimize env) (pg_nodes G) (pg_edges G) fuel)"

definition path_hopping_ilp_allocation where
  "path_hopping_ilp_allocation env sel G K seed_number fuel =
     seeded env seed_number (compute_path_hopping_flows_ilp (selection_env env sel) (ph_optimize env) K (pg_nodes G) (pg_edges G) fuel)"

definition mcf_flow_allocation where
  "mcf_flow_allocation env sel G seed_number fuel =
     seeded env seed_number (compute_mcf_flows (selection_env env sel) (ph_optimize env) (pg_nodes G) (pg_di_edges G) fuel)"

definition greedy_flow_allocation where
  "greedy_flow_allocation env sel G seed_number fuel =
     seeded env seed_number (\<lambda>r. obind (compute_greedy_flow_allocations (selection_env env sel) (pg_nodes G) (pg_edges G) fuel r)
       (\<lambda>(fu, _). Some (Inr fu)))"

definition alloc_params :: "int \<Rightarrow> alloc_flow list \<times> link_util \<Rightarrow> (string \<times> param_value) list" where
  "alloc_params seed_number = (\<lambda>(flows, link_utilization).
     [(''duration'', PInt 180), (''flow-set'', flow_set_of flows), (''seed-number'', PInt seed_number),
      (''link-utilization'', PLinkUtil link_utilization)])"

subsection \<open>Trials without the solver\<close>

definition equal_trial :: "'q randint \<Rightarrow> 'r ph_env \<Rightarrow> ph_graph \<Rightarrow> string \<Rightarrow> nat
    \<Rightarrow> (nat \<times> alloc_flow list \<Rightarrow> (string \<times> param_value) list) \<Rightarrow> 'q \<Rightarrow> (trial \<times> 'q) res option" where
  "equal_trial randint env G name k_value params =
     trial_of randint name (seeded env 3735928559 (\<lambda>r. obind
       (Some (compute_equal_flow_allocations (ph_np env) r (ph_simple_paths env) (pg_nodes G) k_value)) (\<lambda>a. Some (Inr (params a)))))"

fun add_k_trials :: "'q randint \<Rightarrow> 'r ph_env \<Rightarrow> ph_graph \<Rightarrow> nat list \<Rightarrow> trial_provider \<Rightarrow> 'q \<Rightarrow> (trial_provider \<times> 'q) res option" where
  "add_k_trials randint env G [] tp q = Some (Inr (tp, q))"
| "add_k_trials randint env G (k_value # ks) tp q =
     obind (equal_trial randint env G (''varying-k-values-'' @ show_nat k_value) k_value (\<lambda>(seed, flows).
         [(''K'', PInt (int k_value)), (''duration'', PInt 180), (''flow-set'', flow_set_of flows), (''seed-number'', PInt (int seed))]) q)
       (\<lambda>(t, q'). add_k_trials randint env G ks (add_trial tp t) q')"

definition path_hopping_various_k_values where
  "path_hopping_various_k_values randint env G = add_k_trials randint env G [3, 5, 7, 9] (new_trial_provider ''varying-k-values'')"

definition single_path_routing where
  "single_path_routing randint env G q =
     provider_of ''single-path-routing'' (equal_trial randint env G ''single-path-routing'' 1 (\<lambda>(seed, flows).
       [(''K'', PInt 1), (''duration'', PInt 180), (''flow-set'', flow_set_of flows), (''seed-number'', PInt (int seed))]) q)"

definition flow_allocation_tests where
  "flow_allocation_tests randint env G number_of_flows q =
     provider_of ''testing'' (trial_of randint ''testing'' (seeded env 123456789 (\<lambda>r. obind
       (Some (compute_test_flow_allocations (ph_np env) r (ph_simple_paths env) (pg_nodes G) (pg_edges G) number_of_flows 3))
       (\<lambda>(seed, flows, link_utilization). Some (Inr
         [(''K'', PInt 3), (''duration'', PInt 180), (''flow-set'', flow_set_of flows), (''seed-number'', PInt (int seed)),
          (''link-utilization'', PLinkUtil link_utilization)])))) q)"

definition sanity_test_trial where
  "sanity_test_trial randint env G q =
     provider_of ''sanity-test-trial'' (trial_of randint ''sanity-test'' (seeded env 3405691582 (\<lambda>r. obind
       (Some (single_flow (ph_np env) r (ph_disjoint_paths env) (pg_nodes G))) (\<lambda>(seed, flows). Some (Inr
         [(''duration'', PInt 180), (''flow-set'', flow_set_of flows), (''seed-number'', PInt (int seed))])))) q)"

text \<open>
  Four functions call what does not exist.  \<open>compute_path_hopping_flows_ilp\<close> has no default for
  \<open>flow_selection_fn\<close>, \<open>compute_optimal_flow_allocations\<close> is not defined, and \<open>add_parameter("180")\<close> lacks
  the value.
\<close>

definition path_hopping_flows where
  "path_hopping_flows randint K q = provider_of ''path-hopping'' (trial_of randint ''path-hopping''
     (obind (Some (Inl TypeError)) (\<lambda>a. Some (Inr ((''K'', PInt K) # alloc_params 0 a)))) q)"

definition path_hopping_mcf_flows where
  "path_hopping_mcf_flows randint K q = provider_of ''multiflow-tests'' (trial_of randint ''path-hopping-mcf''
     (obind (Some (Inl TypeError)) (\<lambda>a. Some (Inr (alloc_params 0 a @ [(''K'', PInt K)])))) q)"

definition greedy_path_hopping_flows where
  "greedy_path_hopping_flows randint K q = provider_of ''greedy'' (trial_of randint ''greedy''
     (obind (Some (Inl AttributeError)) (\<lambda>a. Some (Inr ((''K'', PInt K) # alloc_params 0 a)))) q)"

definition attempted_optimal_flows where
  "attempted_optimal_flows randint q = provider_of ''optimal-varying-k'' (trial_of randint ''optimal-3''
     (obind (Some (Inl AttributeError)) (\<lambda>a. Some (Inr ((''K'', PInt 3) # alloc_params 0 a)))) q)"

definition single_flow_test where
  "single_flow_test randint env G q = provider_of ''single-flow-tests'' (trial_of randint ''single-flow-test''
     (seeded env 3405691582 (\<lambda>r. obind (Some (single_flow (ph_np env) r (ph_disjoint_paths env) (pg_nodes G))) (\<lambda>(seed, flows).
        Some (Inl TypeError)))) q)"

subsection \<open>Trials with the solver\<close>

definition ilp_flows where
  "ilp_flows randint env G fuel q =
     provider_of ''ilp-flows'' (trial_of randint ''ilp'' (obind
       (ilp_allocation env (non_uniform_selection env (mk_uniform_probability_distribution (pg_nodes G))) G 3735928559 fuel)
       (\<lambda>a. Some (Inr (alloc_params 3735928559 a)))) q)"

text \<open>\<open>mcf_flows\<close> builds the distribution anew in every selection.\<close>

definition mcf_flows where
  "mcf_flows randint env G fuel q =
     provider_of ''multiflow-tests'' (trial_of randint ''mcf'' (obind
       (mcf_flow_allocation env (\<lambda>r node_list. rbind (mk_binomial_probability_distribution env node_list) (\<lambda>d. non_uniform_selection env d r node_list))
          G 3405691582 fuel)
       (\<lambda>a. Some (Inr (alloc_params 3405691582 a)))) q)"

definition k_flows_tests where
  "k_flows_tests randint env G fuel q =
     obind (trial_of randint ''k-paths-allocation'' (obind (seeded env 3405691582
         (testing_k_paths_flow_allocation (selection_env env constant_selection) (ph_optimize env) (pg_nodes G) (pg_edges G) fuel))
       (\<lambda>a. Some (Inr (alloc_params 3405691582 a)))) q) (\<lambda>(t, q').
     obind (Some (add_metadata (new_trial_provider ''k-paths-testing'') ''node-selection-type'' (PStr ''constant''))) (\<lambda>tp.
     Some (Inr (add_trial tp t, q'))))"

definition k_paths_allocation where
  "k_paths_allocation randint env sel G K seed_number fuel =
     trial_of randint ''k-paths-allocation'' (obind (ilp_allocation env sel G seed_number fuel)
       (\<lambda>a. Some (Inr (alloc_params seed_number a @ [(''K'', PInt K)]))))"

definition path_hopping_allocation where
  "path_hopping_allocation randint env sel G K seed_number fuel =
     trial_of randint ''path-hopping-allocation'' (obind (path_hopping_ilp_allocation env sel G K seed_number fuel)
       (\<lambda>a. Some (Inr (alloc_params seed_number a @ [(''K'', PInt (int K))]))))"

definition mcf_allocation where
  "mcf_allocation randint env sel G seed_number fuel =
     trial_of randint ''mcf-trial'' (obind (mcf_flow_allocation env sel G seed_number fuel) (\<lambda>a. Some (Inr (alloc_params seed_number a))))"

definition greedy_path_hopping_allocation where
  "greedy_path_hopping_allocation randint env sel G seed_number fuel =
     trial_of randint ''greedy-path-hopping'' (obind (greedy_flow_allocation env sel G seed_number fuel) (\<lambda>a. Some (Inr (alloc_params seed_number a))))"

fun multiflow_rounds where
  "multiflow_rounds randint env sel G K fuel 0 tp q = Some (Inr (tp, q))"
| "multiflow_rounds randint env sel G K fuel (Suc n) tp q =
     (let (seed_number, q0) = randint q 0 (2 ^ 32)
      in obind (k_paths_allocation randint env sel G K seed_number fuel q0) (\<lambda>(t1, q1).
         obind (mcf_allocation randint env sel G seed_number fuel q1) (\<lambda>(t2, q2).
         obind (greedy_path_hopping_allocation randint env sel G seed_number fuel q2) (\<lambda>(t3, q3).
         multiflow_rounds randint env sel G K fuel n (add_trial (add_trial (add_trial tp t1) t2) t3) q3))))"

text \<open>An unknown selection type leaves \<open>FLOW_SELECTOR\<close> unbound, which is a \<open>NameError\<close> at its first use.\<close>

definition flow_selector :: "'r ph_env \<Rightarrow> ph_graph \<Rightarrow> string \<Rightarrow> (pyfloat list \<times> ('r \<Rightarrow> fa_node list \<Rightarrow> ((fa_node \<times> fa_node) \<times> 'r) res)) res" where
  "flow_selector env G node_selection_type =
     (if node_selection_type = ''binomial'' then
        rbind (mk_binomial_probability_distribution env (pg_nodes G)) (\<lambda>d. Inr (d, non_uniform_selection env d))
      else if node_selection_type = ''uniform'' then
        Inr (mk_uniform_probability_distribution (pg_nodes G), uniform_selection env)
      else Inl NameError)"

definition multiflow_tests where
  "multiflow_tests randint env G node_selection_type K fuel q =
     obind (Some (flow_selector env G node_selection_type)) (\<lambda>(dist, sel).
     obind (multiflow_rounds randint env sel G K fuel 10 (new_trial_provider (''multiflow-tests-'' @ node_selection_type)) q) (\<lambda>(tp, q').
     obind (Some (rbind (add_metadata tp ''node-probability-distribution'' (PFloats dist)) (\<lambda>tp1.
         rbind (add_metadata tp1 ''substrate-topology'' (PGraph (pg_nodes G) (pg_edges G))) (\<lambda>tp2.
         add_metadata tp2 ''node-selection-type'' (PStr node_selection_type))))) (\<lambda>tp'. Some (Inr (tp', q')))))"

definition multiflow_tests_binomial where
  "multiflow_tests_binomial randint env G fuel q = multiflow_tests randint env G ''binomial'' 3 fuel q"

definition multiflow_tests_uniform where
  "multiflow_tests_uniform randint env G fuel q = multiflow_tests randint env G ''uniform'' 3 fuel q"

subsection \<open>What the parameters promise\<close>

definition distribution :: "nat \<Rightarrow> pyfloat list \<Rightarrow> bool" where
  "distribution n p \<longleftrightarrow> length p = n \<and> (\<forall>x \<in> set p. 0 \<le> x) \<and> sum_list p = 1"

text \<open>
  The documented behaviour of \<open>choice\<close> with weights, of the binomial weights, of \<open>seed\<close> and \<open>uniform\<close>, and of
  \<open>node_disjoint_paths\<close> on a connected graph.
\<close>

definition ph_env_ok :: "'r ph_env \<Rightarrow> ph_graph \<Rightarrow> bool" where
  "ph_env_ok env G \<longleftrightarrow> np_random_ok (ph_np env) \<and> (\<forall>s. 0 \<le> s \<and> s < 2 ^ 32 \<longrightarrow> is_ok (ph_seed env s))
     \<and> (\<forall>r lo hi. lo < hi \<longrightarrow> lo \<le> fst (ph_uniform env r lo hi) \<and> fst (ph_uniform env r lo hi) < hi)
     \<and> (\<forall>r n k p. distribution n p \<and> k \<le> length (filter (\<lambda>x. x \<noteq> 0) p) \<longrightarrow>
          (\<exists>js r'. ph_choice_p env r n k p = Inr (js, r') \<and> length js = k \<and> distinct js \<and> set js \<subseteq> {..<n}))
     \<and> (\<forall>n k. 0 \<le> k \<and> k \<le> int n \<longrightarrow> 0 < binom_pmf env k n (1 / 2))
     \<and> (\<forall>n ks. distinct ks \<longrightarrow> (\<Sum>k\<leftarrow>ks. binom_pmf env k n (1 / 2)) \<le> 1)
     \<and> (\<forall>s \<in> set (pg_nodes G). \<forall>d \<in> set (pg_nodes G). s \<noteq> d \<longrightarrow> ph_disjoint_paths env s d \<noteq> []
          \<and> (\<forall>p \<in> set (ph_disjoint_paths env s d). 2 \<le> length p \<and> set (path_links p) \<subseteq> link_key ` set (pg_edges G)))"

definition ph_graph_ok :: "ph_graph \<Rightarrow> bool" where
  "ph_graph_ok G \<longleftrightarrow> distinct (pg_nodes G) \<and> 2 \<le> length (pg_nodes G) \<and> set (pg_nodes G) \<subseteq> {0..int (length (pg_nodes G))}
     \<and> (\<forall>e \<in> set (pg_edges G). link_key e = e) \<and> symmetric (pg_di_edges G)"

subsection \<open>Distributions and selections\<close>

lemma uniform_distribution:
  "nodes \<noteq> [] \<Longrightarrow> distribution (length nodes) (mk_uniform_probability_distribution nodes)"
  by (simp add: distribution_def mk_uniform_probability_distribution_def map_replicate_const sum_list_replicate)

lemma binomial_distribution:
  assumes env: "ph_env_ok env G" and G: "ph_graph_ok G"
  shows "\<exists>p. mk_binomial_probability_distribution env (pg_nodes G) = Inr p \<and> distribution (length (pg_nodes G)) p
    \<and> (\<forall>x \<in> set p. x \<noteq> 0)"
proof -
  let ?n = "length (pg_nodes G)" and ?f = "\<lambda>k. binom_pmf env k (length (pg_nodes G)) (1 / 2)"
  let ?d = "map ?f (pg_nodes G)"
  have pmf: "0 < binom_pmf env k n (1 / 2)" if "0 \<le> k \<and> k \<le> int n" for k n
    using env that by (simp add: ph_env_ok_def)
  have "0 \<le> k \<and> k \<le> int ?n" if "k \<in> set (pg_nodes G)" for k
    using G that unfolding ph_graph_ok_def by (meson atLeastAtMost_iff subsetD)
  then have pos: "\<forall>x \<in> set ?d. 0 < x" using pmf unfolding set_map by blast
  have le: "sum_list ?d \<le> 1" using env G by (simp add: ph_env_ok_def ph_graph_ok_def)
  have ne: "?d \<noteq> []" using G by (auto simp: ph_graph_ok_def)
  then have d: "?d = butlast ?d @ [last ?d]" by simp
  have "sum_list ?d = sum_list (butlast ?d) + last ?d" by (subst d) simp
  moreover have "0 < last ?d" using pos ne last_in_set by blast
  moreover have "0 < x" if "x \<in> set (butlast ?d)" for x using that pos in_set_butlastD by fast
  ultimately have "distribution ?n (butlast ?d @ [last ?d + (1 - sum_list ?d)])" "0 < last ?d + (1 - sum_list ?d)"
    using le ne by (auto simp: distribution_def less_imp_le)
  then show ?thesis using ne \<open>\<And>x. x \<in> set (butlast ?d) \<Longrightarrow> 0 < x\<close>
    by (intro exI [of _ "butlast ?d @ [last ?d + (1 - sum_list ?d)]"])
      (auto simp: mk_binomial_probability_distribution_def Let_def simp del: map_butlast)
qed

definition selects :: "('r \<Rightarrow> fa_node list \<Rightarrow> ((fa_node \<times> fa_node) \<times> 'r) res) \<Rightarrow> fa_node list \<Rightarrow> bool" where
  "selects sel nodes \<longleftrightarrow> (\<forall>r. \<exists>s d r'. sel r nodes = Inr ((s, d), r') \<and> s \<in> set nodes \<and> d \<in> set nodes \<and> s \<noteq> d)"

lemma length_two: "length xs = 2 \<Longrightarrow> \<exists>a b. xs = [a, b]"
  by (auto simp: length_Suc_conv numeral_2_eq_2)

lemma uniform_selects:
  assumes "np_random_ok (ph_np env)" and "distinct nodes" and "2 \<le> length nodes"
  shows "selects (uniform_selection env) nodes"
  unfolding selects_def
proof
  fix r
  from sample_ok [OF assms(1,3,2), of r] obtain ys r' where
    ys: "sample (ph_np env) r nodes 2 = Inr (ys, r')" "length ys = 2" "distinct ys" "set ys \<subseteq> set nodes" by blast
  from length_two [OF ys(2)] obtain a b where "ys = [a, b]" by blast
  then show "\<exists>s d r'. uniform_selection env r nodes = Inr ((s, d), r') \<and> s \<in> set nodes \<and> d \<in> set nodes \<and> s \<noteq> d"
    using ys by (simp add: uniform_selection_def unpack_pair_def)
qed

lemma non_uniform_selects:
  assumes env: "ph_env_ok env G" and p: "distribution (length nodes) p" "\<forall>x \<in> set p. x \<noteq> 0"
    and nodes: "distinct nodes" "2 \<le> length nodes"
  shows "selects (non_uniform_selection env p) nodes"
  unfolding selects_def
proof
  fix r
  have "length (filter (\<lambda>x. x \<noteq> 0) p) = length nodes" using p by (simp add: distribution_def filter_id_conv)
  then have "distribution (length nodes) p \<and> 2 \<le> length (filter (\<lambda>x. x \<noteq> 0) p)" using p(1) nodes(2) by simp
  then obtain js r' where js: "ph_choice_p env r (length nodes) 2 p = Inr (js, r')" "length js = 2" "distinct js" "set js \<subseteq> {..<length nodes}"
    using env unfolding ph_env_ok_def by blast
  from length_two [OF js(2)] obtain i j where ij: "js = [i, j]" by blast
  then have "nodes ! i \<noteq> nodes ! j" "nodes ! i \<in> set nodes" "nodes ! j \<in> set nodes"
    using js(3,4) nodes(1) by (auto simp: nth_eq_iff_index_eq)
  then show "\<exists>s d r'. non_uniform_selection env p r nodes = Inr ((s, d), r') \<and> s \<in> set nodes \<and> d \<in> set nodes \<and> s \<noteq> d"
    using js(1) ij by (simp add: non_uniform_selection_def unpack_pair_def)
qed

lemma flow_selector_ok:
  assumes env: "ph_env_ok env G" and G: "ph_graph_ok G" and ty: "ty = ''binomial'' \<or> ty = ''uniform''"
  shows "\<exists>p sel. flow_selector env G ty = Inr (p, sel) \<and> distribution (length (pg_nodes G)) p \<and> selects sel (pg_nodes G)"
proof -
  have nodes: "distinct (pg_nodes G)" "2 \<le> length (pg_nodes G)" "pg_nodes G \<noteq> []" using G by (auto simp: ph_graph_ok_def)
  have np: "np_random_ok (ph_np env)" using env by (simp add: ph_env_ok_def)
  from ty show ?thesis
  proof
    assume ty: "ty = ''binomial''"
    from binomial_distribution [OF env G] obtain p where
      p: "mk_binomial_probability_distribution env (pg_nodes G) = Inr p" "distribution (length (pg_nodes G)) p" "\<forall>x \<in> set p. x \<noteq> 0" by blast
    from non_uniform_selects [OF env p(2,3) nodes(1,2)] show ?thesis using p ty by (simp add: flow_selector_def)
  next
    assume "ty = ''uniform''"
    then show ?thesis using uniform_distribution [OF nodes(3)] uniform_selects [OF np nodes(1,2)] by (simp add: flow_selector_def)
  qed
qed

lemma selection_env_ok:
  assumes env: "ph_env_ok env G" and sel: "selects sel (pg_nodes G)"
  shows "fa_env_ok (selection_env env sel) (pg_nodes G) (pg_edges G)" "mcf_env_ok (selection_env env sel) (pg_nodes G)"
proof -
  have u: "\<forall>r lo hi. lo < hi \<longrightarrow> lo \<le> fst (ph_uniform env r lo hi) \<and> fst (ph_uniform env r lo hi) < hi"
    and dp: "\<forall>s \<in> set (pg_nodes G). \<forall>d \<in> set (pg_nodes G). s \<noteq> d \<longrightarrow> ph_disjoint_paths env s d \<noteq> []
          \<and> (\<forall>p \<in> set (ph_disjoint_paths env s d). 2 \<le> length p \<and> set (path_links p) \<subseteq> link_key ` set (pg_edges G))"
    using env unfolding ph_env_ok_def by blast+
  have s: "\<exists>s d r'. sel r (pg_nodes G) = Inr ((s, d), r') \<and> s \<in> set (pg_nodes G) \<and> d \<in> set (pg_nodes G) \<and> s \<noteq> d" for r
    using sel unfolding selects_def by blast
  show "fa_env_ok (selection_env env sel) (pg_nodes G) (pg_edges G)"
    unfolding fa_env_ok_def selection_env_def fa_env.simps using u dp s by meson
  show "mcf_env_ok (selection_env env sel) (pg_nodes G)"
    unfolding mcf_env_ok_def selection_env_def fa_env.simps using u s by meson
qed

subsection \<open>What the trials hold\<close>

text \<open>
  A trial with the flows and the utilisation of an allocation: no link is reported beyond its capacity,
  and, but for the multi-commodity flow, every flow is valid and no link carries more than is reported.
\<close>

definition allocated_trial :: "ph_graph \<Rightarrow> string \<Rightarrow> trial \<Rightarrow> bool" where
  "allocated_trial G name t \<longleftrightarrow> tr_name t = name \<and> trial_wf t \<and> has_parameter t ''seed-number'' \<and> (\<exists>flows util.
     get_parameter t ''flow-set'' = Inr (PFlowSet \<lparr>fs_flows = flows\<rparr>) \<and> get_parameter t ''link-utilization'' = Inr (PLinkUtil util)
     \<and> (\<forall>l. util_at util l \<le> LINK_CAPACITY)
     \<and> (name \<noteq> ''mcf-trial'' \<longrightarrow> (\<forall>f \<in> set flows. valid_flow (pg_edges G) f) \<and> (\<forall>l. total_load flows l \<le> util_at util l))
     \<and> (name = ''mcf-trial'' \<longrightarrow> (\<forall>f \<in> set flows. length (fl_splitting_ratio f) = length (fl_paths f)
          \<and> (\<forall>p \<in> set (fl_paths f). hd p = fl_source f \<and> last p = fl_destination f \<and> distinct p))))"

lemma new_trial_params:
  "\<exists>i. new_trial randint name q = (\<lparr>tr_name = name, tr_parameters = [(''trial-name'', PStr name), (''id'', PStr i)]\<rparr>,
     snd (randint q 0 (2 ^ 64)))"
  by (simp add: new_trial_def case_prod_unfold Let_def)

lemma trial_of_alloc:
  assumes "allocation = Some (Inr (flows, util))" and "extra = [] \<or> extra = [(''K'', K)]"
    and "\<forall>l. util_at util l \<le> LINK_CAPACITY"
    and "name \<noteq> ''mcf-trial'' \<longrightarrow> (\<forall>f \<in> set flows. valid_flow (pg_edges G) f) \<and> (\<forall>l. total_load flows l \<le> util_at util l)"
    and "name = ''mcf-trial'' \<longrightarrow> (\<forall>f \<in> set flows. length (fl_splitting_ratio f) = length (fl_paths f)
          \<and> (\<forall>p \<in> set (fl_paths f). hd p = fl_source f \<and> last p = fl_destination f \<and> distinct p))"
  shows "\<exists>t q'. trial_of randint name (obind allocation (\<lambda>a. Some (Inr (alloc_params seed a @ extra)))) q = Some (Inr (t, q'))
    \<and> allocated_trial G name t"
proof -
  from new_trial_params [of randint name q] obtain i where
    i: "new_trial randint name q = (\<lparr>tr_name = name, tr_parameters = [(''trial-name'', PStr name), (''id'', PStr i)]\<rparr>,
      snd (randint q 0 (2 ^ 64)))" ..
  let ?ps = "alloc_params seed (flows, util) @ extra"
  let ?fresh = "\<lparr>tr_name = name, tr_parameters = [(''trial-name'', PStr name), (''id'', PStr i)]\<rparr>"
  let ?t = "?fresh\<lparr>tr_parameters := tr_parameters ?fresh @ ?ps\<rparr>"
  have keys: "map fst ?ps = [''duration'', ''flow-set'', ''seed-number'', ''link-utilization''] @ map fst extra"
    by (simp add: alloc_params_def)
  have "distinct (map fst ?ps)" unfolding keys using assms(2) by auto
  moreover have "set (map fst ?ps) \<inter> set (dict_keys (tr_parameters ?fresh)) = {}" unfolding keys using assms(2) by auto
  ultimately have add: "add_parameters ?fresh ?ps = Inr ?t" by (rule add_parameters_new)
  have "trial_of randint name (obind allocation (\<lambda>a. Some (Inr (alloc_params seed a @ extra)))) q =
      Some (Inr (?t, snd (randint q 0 (2 ^ 64))))"
    unfolding trial_of_def i Let_def prod.case assms(1) obind_simps add ..
  moreover have "get_parameter ?t ''flow-set'' = Inr (PFlowSet \<lparr>fs_flows = flows\<rparr>)"
    "get_parameter ?t ''link-utilization'' = Inr (PLinkUtil util)"
    by (simp_all add: get_parameter_def alloc_params_def flow_set_of_def add_flows_def new_flow_set_def)
  moreover have "trial_wf ?t" using assms(2) by (auto simp: trial_wf_def dict_wf_def alloc_params_def)
  moreover have "tr_name ?t = name" by simp
  moreover have "has_parameter ?t ''seed-number''" by (simp add: has_parameter_def dict_has_def alloc_params_def)
  ultimately show ?thesis using assms(3-5) unfolding allocated_trial_def by blast
qed

definition multiflow_ok :: "'r ph_env \<Rightarrow> ph_graph \<Rightarrow> nat \<Rightarrow> bool" where
  "multiflow_ok env G fuel \<longleftrightarrow> ph_env_ok env G \<and> ph_graph_ok G \<and> solver_sound (ph_optimize env)
     \<and> 10 * length (pg_edges G) < fuel \<and> 10 * length (pg_di_edges G) < fuel"

lemma seeded_ok:
  assumes "ph_env_ok env G" and "0 \<le> s" and "s < 2 ^ 32"
  shows "\<exists>r. seeded env s run = run r"
proof -
  have "is_ok (ph_seed env s)" using assms by (simp add: ph_env_ok_def)
  then show ?thesis by (auto simp: is_ok_iff seeded_def)
qed

lemma k_paths_trial:
  assumes ok: "multiflow_ok env G fuel" and sel: "selects sel (pg_nodes G)" and s: "0 \<le> s" "s < 2 ^ 32"
  shows "\<exists>t q'. k_paths_allocation randint env sel G K s fuel q = Some (Inr (t, q')) \<and> allocated_trial G ''k-paths-allocation'' t"
proof -
  have env: "ph_env_ok env G" and edges: "\<forall>e \<in> set (pg_edges G). link_key e = e" and solver: "solver_sound (ph_optimize env)"
    and fuel: "10 * length (pg_edges G) < fuel" using ok by (auto simp: multiflow_ok_def ph_graph_ok_def)
  obtain r where r: "ilp_allocation env sel G s fuel =
      compute_ilp_flows (selection_env env sel) (ph_optimize env) (pg_nodes G) (pg_edges G) fuel r"
    using seeded_ok [OF env s] unfolding ilp_allocation_def by blast
  from ilp_allocation_holds [OF selection_env_ok(1) [OF env sel] solver edges fuel, of r] obtain flows util where
    a: "ilp_allocation env sel G s fuel = Some (Inr (flows, util))" and flows: "\<forall>f \<in> set flows. valid_flow (pg_edges G) f"
    and util: "\<forall>l. util_at util l = total_load flows l \<and> util_at util l \<le> LINK_CAPACITY" unfolding r by blast
  have "\<forall>l. util_at util l \<le> LINK_CAPACITY" "\<forall>l. total_load flows l \<le> util_at util l" using util by (metis order_refl)+
  with flows show ?thesis unfolding k_paths_allocation_def
    by (intro trial_of_alloc [OF a, where K = "PInt K"]) simp_all
qed

lemma mcf_trial:
  assumes ok: "multiflow_ok env G fuel" and sel: "selects sel (pg_nodes G)" and s: "0 \<le> s" "s < 2 ^ 32"
  shows "\<exists>t q'. mcf_allocation randint env sel G s fuel q = Some (Inr (t, q')) \<and> allocated_trial G ''mcf-trial'' t"
proof -
  have env: "ph_env_ok env G" and edges: "symmetric (pg_di_edges G)" and solver: "solver_sound (ph_optimize env)"
    and fuel: "10 * length (pg_di_edges G) < fuel" using ok by (auto simp: multiflow_ok_def ph_graph_ok_def)
  obtain r where r: "mcf_flow_allocation env sel G s fuel =
      compute_mcf_flows (selection_env env sel) (ph_optimize env) (pg_nodes G) (pg_di_edges G) fuel r"
    using seeded_ok [OF env s] unfolding mcf_flow_allocation_def by blast
  from mcf_allocation_holds [OF selection_env_ok(2) [OF env sel] edges solver fuel, of r] obtain flows util where
    "mcf_flow_allocation env sel G s fuel = Some (Inr (flows, util))"
    "\<forall>f \<in> set flows. length (fl_splitting_ratio f) = length (fl_paths f)
      \<and> (\<forall>p \<in> set (fl_paths f). hd p = fl_source f \<and> last p = fl_destination f \<and> distinct p)"
    "\<forall>k. util_at util k \<le> LINK_CAPACITY" unfolding r by blast
  then show ?thesis unfolding mcf_allocation_def
    using trial_of_alloc [where extra = "[]" and name = "''mcf-trial''" and G = G] by simp
qed

lemma greedy_trial:
  assumes ok: "multiflow_ok env G fuel" and sel: "selects sel (pg_nodes G)" and s: "0 \<le> s" "s < 2 ^ 32"
  shows "\<exists>t q'. greedy_path_hopping_allocation randint env sel G s fuel q = Some (Inr (t, q')) \<and> allocated_trial G ''greedy-path-hopping'' t"
proof -
  have env: "ph_env_ok env G" and fuel: "10 * length (pg_edges G) < fuel" using ok by (auto simp: multiflow_ok_def)
  obtain r where r: "greedy_flow_allocation env sel G s fuel =
      obind (compute_greedy_flow_allocations (selection_env env sel) (pg_nodes G) (pg_edges G) fuel r) (\<lambda>(fu, _). Some (Inr fu))"
    using seeded_ok [OF env s] unfolding greedy_flow_allocation_def by blast
  from greedy_returns [OF selection_env_ok(1) [OF env sel] fuel, of r] obtain flows util r' where
    run: "compute_greedy_flow_allocations (selection_env env sel) (pg_nodes G) (pg_edges G) fuel r = Some (Inr ((flows, util), r'))" by blast
  then have "greedy_flow_allocation env sel G s fuel = Some (Inr (flows, util))" unfolding r by simp
  moreover have "\<forall>f \<in> set flows. valid_flow (pg_edges G) f" "\<forall>l. util_at util l \<le> LINK_CAPACITY" "\<forall>l. total_load flows l \<le> util_at util l"
    using greedy_result [OF selection_env_ok(1) [OF env sel] run] by blast+
  ultimately have "\<exists>t q'. trial_of randint ''greedy-path-hopping''
      (obind (greedy_flow_allocation env sel G s fuel) (\<lambda>a. Some (Inr (alloc_params s a @ [])))) q = Some (Inr (t, q'))
      \<and> allocated_trial G ''greedy-path-hopping'' t" by (intro trial_of_alloc) simp_all
  then show ?thesis unfolding greedy_path_hopping_allocation_def append_Nil2 .
qed

definition round_names :: "string list" where
  "round_names = [''k-paths-allocation'', ''mcf-trial'', ''greedy-path-hopping'']"

lemma multiflow_rounds_ok:
  assumes ok: "multiflow_ok env G fuel" and sel: "selects sel (pg_nodes G)"
    and seeds: "\<forall>q. 0 \<le> fst (randint q 0 (2 ^ 32)) \<and> fst (randint q 0 (2 ^ 32)) < 2 ^ 32"
  shows "\<exists>ts q'. multiflow_rounds randint env sel G K fuel n tp q = Some (Inr (tp\<lparr>tp_trials := tp_trials tp @ ts\<rparr>, q'))
    \<and> list_all2 (allocated_trial G) (concat (replicate n round_names)) ts"
proof (induction n arbitrary: tp q)
  case (Suc n)
  obtain s q0 where q0: "randint q 0 (2 ^ 32) = (s, q0)" by (cases "randint q 0 (2 ^ 32)")
  then have s: "0 \<le> s" "s < 2 ^ 32" using spec [OF seeds, of q] by simp_all
  from k_paths_trial [OF ok sel s, of randint K q0] obtain t1 q1 where
    1: "k_paths_allocation randint env sel G K s fuel q0 = Some (Inr (t1, q1))" "allocated_trial G ''k-paths-allocation'' t1" by blast
  from mcf_trial [OF ok sel s, of randint q1] obtain t2 q2 where
    2: "mcf_allocation randint env sel G s fuel q1 = Some (Inr (t2, q2))" "allocated_trial G ''mcf-trial'' t2" by blast
  from greedy_trial [OF ok sel s, of randint q2] obtain t3 q3 where
    3: "greedy_path_hopping_allocation randint env sel G s fuel q2 = Some (Inr (t3, q3))" "allocated_trial G ''greedy-path-hopping'' t3" by blast
  let ?tp = "add_trial (add_trial (add_trial tp t1) t2) t3"
  from Suc.IH [of ?tp q3] obtain ts q' where
    ts: "multiflow_rounds randint env sel G K fuel n ?tp q3 = Some (Inr (?tp\<lparr>tp_trials := tp_trials ?tp @ ts\<rparr>, q'))"
      "list_all2 (allocated_trial G) (concat (replicate n round_names)) ts" by blast
  have "multiflow_rounds randint env sel G K fuel (Suc n) tp q = multiflow_rounds randint env sel G K fuel n ?tp q3"
    unfolding multiflow_rounds.simps q0 Let_def prod.case 1(1) 2(1) 3(1) obind_simps ..
  moreover have "?tp\<lparr>tp_trials := tp_trials ?tp @ ts\<rparr> = tp\<lparr>tp_trials := tp_trials tp @ t1 # t2 # t3 # ts\<rparr>" by (simp add: add_trial_def)
  moreover have "list_all2 (allocated_trial G) (concat (replicate (Suc n) round_names)) (t1 # t2 # t3 # ts)"
    using 1(2) 2(2) 3(2) ts(2) by (simp add: round_names_def)
  ultimately show ?case using ts(1) by metis
qed simp

subsection \<open>A concrete instance\<close>

definition ex_pmf :: "int \<Rightarrow> nat \<Rightarrow> pyfloat \<Rightarrow> pyfloat" where
  "ex_pmf k n p = (if 0 \<le> k \<and> k \<le> int n then of_nat (n choose nat k) / 2 ^ n else 0)"

lemma ex_pmf_sum:
  assumes "distinct ks"
  shows "(\<Sum>k\<leftarrow>ks. ex_pmf k n p) \<le> 1"
proof -
  have "(\<Sum>k\<leftarrow>ks. ex_pmf k n p) = (\<Sum>k \<in> set ks. ex_pmf k n p)" using assms by (rule sum_list_distinct_conv_sum_set)
  also have "\<dots> = (\<Sum>k \<in> set ks \<inter> {0..int n}. ex_pmf k n p)"
    by (rule sum.mono_neutral_right) (auto simp: ex_pmf_def)
  also have "\<dots> \<le> (\<Sum>k \<in> {0..int n}. ex_pmf k n p)" by (rule sum_mono2) (auto simp: ex_pmf_def)
  also have "\<dots> = (\<Sum>k \<le> n. ex_pmf (int k) n p)"
    by (rule sum.reindex_bij_witness [of _ int nat]) auto
  also have "\<dots> = (\<Sum>k \<le> n. of_nat (n choose k) / 2 ^ n)" by (simp add: ex_pmf_def)
  also have "\<dots> = of_nat (\<Sum>k \<le> n. n choose k) / 2 ^ n" by (simp add: sum_divide_distrib)
  also have "\<dots> = 1" by (simp add: choose_row_sum)
  finally show ?thesis .
qed

definition ex_ph_env :: "unit ph_env" where
  "ex_ph_env = \<lparr>ph_np = np_first, ph_seed = (\<lambda>s. if 0 \<le> s \<and> s < 2 ^ 32 then Inr () else Inl ValueError),
     ph_uniform = (\<lambda>r lo hi. ((lo + hi) / 2, ())), ph_choice_p = (\<lambda>r n k p. Inr ([0..<k], ())), binom_pmf = ex_pmf,
     ph_simple_paths = (\<lambda>s d. [[s, d]]), ph_disjoint_paths = (\<lambda>s d. [[s, d]]), ph_optimize = no_solution\<rparr>"

definition ex_ph_graph :: ph_graph where
  "ex_ph_graph = \<lparr>pg_nodes = [1, 2], pg_edges = [(1, 2)], pg_di_edges = [(1, 2), (2, 1)]\<rparr>"

lemma ex_multiflow_ok: "multiflow_ok ex_ph_env ex_ph_graph 21"
proof -
  have "k \<le> n" if "distribution n p" "k \<le> length (filter (\<lambda>x. x \<noteq> 0) p)" for n k p
    using that length_filter_le [of "\<lambda>x. x \<noteq> 0" p] by (simp add: distribution_def)
  moreover have "0 < ex_pmf k n (1 / 2)" if "0 \<le> k" "k \<le> int n" for k n
    using that by (simp add: ex_pmf_def zero_less_binomial nat_le_iff)
  ultimately have "ph_env_ok ex_ph_env ex_ph_graph"
    unfolding ph_env_ok_def
    using np_first_ok ex_pmf_sum by (fastforce simp: ex_ph_env_def ex_ph_graph_def is_ok_def path_links_def link_key_def field_simps)
  moreover have "ph_graph_ok ex_ph_graph" by (auto simp: ph_graph_ok_def ex_ph_graph_def link_key_def symmetric_def)
  ultimately show ?thesis using no_solution_sound by (simp add: multiflow_ok_def ex_ph_graph_def ex_ph_env_def)
qed

lemma multiflow_tests_ok:
  assumes "multiflow_ok env G fuel" and "ty = ''binomial'' \<or> ty = ''uniform''"
    and "\<forall>q. 0 \<le> fst (randint q 0 (2 ^ 32)) \<and> fst (randint q 0 (2 ^ 32)) < 2 ^ 32"
  shows "\<exists>tp q' p. multiflow_tests randint env G ty K fuel q = Some (Inr (tp, q')) \<and> provider_name tp = ''multiflow-tests-'' @ ty
    \<and> list_all2 (allocated_trial G) (concat (replicate 10 round_names)) (tp_trials tp)
    \<and> get_metadata tp ''node-probability-distribution'' = Inr (PFloats p) \<and> distribution (length (pg_nodes G)) p
    \<and> get_metadata tp ''node-selection-type'' = Inr (PStr ty)"
proof -
  have "ph_env_ok env G" "ph_graph_ok G" using assms(1) by (simp_all add: multiflow_ok_def)
  from flow_selector_ok [OF this assms(2)] obtain p sel where
    sel: "flow_selector env G ty = Inr (p, sel)" "distribution (length (pg_nodes G)) p" "selects sel (pg_nodes G)" by blast
  let ?tp = "new_trial_provider (''multiflow-tests-'' @ ty)"
  from multiflow_rounds_ok [where randint = randint, OF assms(1) sel(3) assms(3), of K 10 ?tp q] obtain ts q' where
    ts: "multiflow_rounds randint env sel G K fuel 10 ?tp q = Some (Inr (?tp\<lparr>tp_trials := tp_trials ?tp @ ts\<rparr>, q'))"
      "list_all2 (allocated_trial G) (concat (replicate 10 round_names)) ts" by blast
  let ?out = "\<lparr>provider_name = ''multiflow-tests-'' @ ty, tp_trials = ts, tp_metadata =
    [(''node-probability-distribution'', PFloats p), (''substrate-topology'', PGraph (pg_nodes G) (pg_edges G)), (''node-selection-type'', PStr ty)]\<rparr>"
  have "multiflow_tests randint env G ty K fuel q = Some (Inr (?out, q'))"
    unfolding multiflow_tests_def sel(1) obind_simps prod.case ts(1)
    by (simp add: add_metadata_def new_trial_provider_def dict_has_def dict_set_def)
  then show ?thesis using ts(2) sel(2) by (intro exI [of _ ?out] exI [of _ q'] exI [of _ p]) (simp add: get_metadata_def)
qed

subsection \<open>Properties\<close>



text \<open>
  Six functions of the module can only raise: four call an allocator that does not exist or omit
  its selection function, \<open>single_flow_test\<close> adds a parameter without a value (on a graph where a flow can
  be drawn), and \<open>k_flows_tests\<close> calls the allocator that always raises.
\<close>

theorem broken_trial_functions:
  "path_hopping_flows randint K q = Some (Inl TypeError)
   \<and> path_hopping_mcf_flows randint K q = Some (Inl TypeError)
   \<and> greedy_path_hopping_flows randint K q = Some (Inl AttributeError)
   \<and> attempted_optimal_flows randint q = Some (Inl AttributeError)
   \<and> (\<exists>e. single_flow_test randint env G q = Some (Inl e))
   \<and> (\<exists>e. k_flows_tests randint env G (Suc fuel) q = Some (Inl e))"
proof (intro conjI)
  show "\<exists>e. single_flow_test randint env G q = Some (Inl e)"
    by (cases "ph_seed env 3405691582")
      (auto simp: single_flow_test_def provider_of_def trial_of_def seeded_def obind_def case_prod_unfold Let_def split: option.splits sum.splits)
  obtain e where "seeded env 3405691582
         (testing_k_paths_flow_allocation (selection_env env constant_selection) (ph_optimize env) (pg_nodes G) (pg_edges G) (Suc fuel)) = Some (Inl e)"
    using testing_k_paths_always_raises by (cases "ph_seed env 3405691582") (fastforce simp: seeded_def)+
  then show "\<exists>e. k_flows_tests randint env G (Suc fuel) q = Some (Inl e)"
    by (simp add: k_flows_tests_def trial_of_def case_prod_unfold Let_def)
qed (simp_all add: path_hopping_flows_def path_hopping_mcf_flows_def greedy_path_hopping_flows_def attempted_optimal_flows_def
    provider_of_def trial_of_def case_prod_unfold Let_def)

end
