(* ===== verification/Sim_Trials.thy ===== *)
theory Sim_Trials
  imports Trial_Provider Conduct
begin

section \<open>The trials of the path-hopping simulations\<close>

text \<open>
  Models \<open>rest_client/path_hopping_simulator/trials.py\<close> (the parameter sweeps), \<open>rest_client/attacker_tests/trials.py\<close>
  (the trials of the attacker tests) and how \<open>conduct_path_hopping_simulation\<close> of
  \<open>rest_client/path_hopping_simulator.py\<close> reads its parameters from a trial and stores its results there.
\<close>

subsection \<open>Titles\<close>

text \<open>
  \<open>str.format\<close> for titles with \<open>{name}\<close> fields: an unknown name raises \<open>KeyError\<close>.  The second argument is
  the name of the field that is being read.  The titles use neither escaped braces nor conversions.
\<close>

fun format_from :: "(string, string) dict \<Rightarrow> string option \<Rightarrow> string \<Rightarrow> string res" where
  "format_from d None [] = Inr []"
| "format_from d (Some f) [] = Inl ValueError"
| "format_from d None (c # cs) =
     (if c = CHR ''{'' then format_from d (Some []) cs
      else rbind (format_from d None cs) (\<lambda>s. Inr (c # s)))"
| "format_from d (Some f) (c # cs) =
     (if c = CHR ''}'' then rbind (dict_get d f) (\<lambda>v. rbind (format_from d None cs) (\<lambda>s. Inr (v @ s)))
      else format_from d (Some (f @ [c])) cs)"

definition str_format :: "string \<Rightarrow> (string, int) dict \<Rightarrow> string res" where
  "str_format title d = format_from (map (\<lambda>(k, v). (k, show_int v)) d) None title"

subsection \<open>Parameter sweeps\<close>

type_synonym int_params = "(string, int) dict"

definition all_parameters :: "int_params \<Rightarrow> nat \<times> (string \<times> int) list \<Rightarrow> int_params" where
  "all_parameters per_trial_params = (\<lambda>(run_idx, parameter_pack).
     dict_set (dict_of (parameter_pack @ per_trial_params)) ''run_idx'' (int run_idx))"

definition int_items :: "int_params \<Rightarrow> (string \<times> param_value) list" where
  "int_items d = map (\<lambda>(k, v). (k, PInt v)) d"

definition mk_trial :: "'q randint \<Rightarrow> string \<Rightarrow> int_params \<Rightarrow> 'q \<Rightarrow> (trial \<times> 'q) res" where
  "mk_trial randint title_fmt_string params q =
     rbind (str_format title_fmt_string params) (\<lambda>title.
       let (the_trial, q') = new_trial randint title q
       in rbind (add_parameters the_trial (int_items params)) (\<lambda>t. Inr (t, q')))"

fun add_mk_trials :: "'q randint \<Rightarrow> string \<Rightarrow> int_params list \<Rightarrow> trial_provider \<Rightarrow> 'q \<Rightarrow> (trial_provider \<times> 'q) res" where
  "add_mk_trials randint title [] tp q = Inr (tp, q)"
| "add_mk_trials randint title (ps # pss) tp q =
     rbind (mk_trial randint title ps q) (\<lambda>(t, q'). add_mk_trials randint title pss (add_trial tp t) q')"

definition mk_trial_provider_with_params ::
    "'q randint \<Rightarrow> (string \<times> int) list list \<Rightarrow> int_params \<Rightarrow> string \<Rightarrow> string \<Rightarrow> 'q \<Rightarrow> (trial_provider \<times> 'q) res" where
  "mk_trial_provider_with_params randint basis_params per_trial_params title_fmt_string name q =
     add_mk_trials randint title_fmt_string
       (map (all_parameters per_trial_params) (enumerate 0 (product_lists basis_params))) (new_trial_provider name) q"

text \<open>\<open>[rand.randint(0, 2**32) for _ in range(n)]\<close>: both ends are included.\<close>

fun draw_seeds :: "'q randint \<Rightarrow> nat \<Rightarrow> 'q \<Rightarrow> int list \<times> 'q" where
  "draw_seeds randint 0 q = ([], q)"
| "draw_seeds randint (Suc n) q =
     (let (s, q1) = randint q 0 (2 ^ 32); (ss, q2) = draw_seeds randint n q1 in (s # ss, q2))"

definition one_to_ten :: "int list" where "one_to_ten = [1..10]"

definition sweep ::
    "'q randint \<Rightarrow> string \<Rightarrow> int_params \<Rightarrow> string \<Rightarrow> string \<Rightarrow> 'q \<Rightarrow> (trial_provider \<times> 'q) res" where
  "sweep randint swept per_trial_params title name q =
     (let (seeds, q') = draw_seeds randint 10 q
      in mk_trial_provider_with_params randint
           [map (\<lambda>x. (swept, x)) one_to_ten, map (\<lambda>s. (''seed_number'', s)) seeds] per_trial_params title name q')"

definition varying_path_length_fast_hops :: "'q randint \<Rightarrow> 'q \<Rightarrow> (trial_provider \<times> 'q) res" where
  "varying_path_length_fast_hops randint =
     sweep randint ''path_length'' [(''K'', 5), (''N'', 10), (''attacker_hop_period'', 1), (''sim_duration'', 10 ^ 4)]
       ''path-length-{path_length}-run-{run_idx}'' ''sim-path-length-fast-hops''"

definition varying_path_length_slow_hops :: "'q randint \<Rightarrow> 'q \<Rightarrow> (trial_provider \<times> 'q) res" where
  "varying_path_length_slow_hops randint =
     sweep randint ''path_length'' [(''K'', 5), (''N'', 10), (''attacker_hop_period'', 10), (''sim_duration'', 10 ^ 4)]
       ''path-length-{path_length}-run-{run_idx}'' ''sim-path-length-slow-hops''"

definition varying_hop_period_long_paths :: "'q randint \<Rightarrow> 'q \<Rightarrow> (trial_provider \<times> 'q) res" where
  "varying_hop_period_long_paths randint =
     sweep randint ''attacker_hop_period'' [(''K'', 5), (''N'', 10), (''path_length'', 10), (''sim_duration'', 10 ^ 4)]
       ''hop-period-{attacker_hop_period}-run-{run_idx}'' ''sim-hop-period-long-paths''"

definition varying_hop_period_short_paths :: "'q randint \<Rightarrow> 'q \<Rightarrow> (trial_provider \<times> 'q) res" where
  "varying_hop_period_short_paths randint =
     sweep randint ''attacker_hop_period'' [(''K'', 5), (''N'', 10), (''path_length'', 1), (''sim_duration'', 10 ^ 4)]
       ''hop-period-{hop_period}-run-{run_idx}'' ''sim-hop-period-short-paths''"

definition delay_to_hop_period_ratio_testing :: "'q randint \<Rightarrow> 'q \<Rightarrow> (trial_provider \<times> 'q) res" where
  "delay_to_hop_period_ratio_testing randint =
     sweep randint ''path_length'' [(''K'', 5), (''N'', 10), (''attacker_hop_period'', 5), (''sim_duration'', 10 ^ 4)]
       ''path-length-{path_length}-run-{run_idx}'' ''sim-delay-to-hop-period-ratio-testing''"

definition paths_trial :: "'q randint \<Rightarrow> int \<Rightarrow> int \<Rightarrow> nat \<times> int \<Rightarrow> 'q \<Rightarrow> (trial \<times> 'q) res" where
  "paths_trial randint period number_of_paths = (\<lambda>(run_idx, seed_number) q.
     let (the_trial, q') = new_trial randint
           (''number-of-paths-'' @ show_int number_of_paths @ ''-run-'' @ show_int (int run_idx)) q
     in rbind (add_parameters the_trial
          [(''path_length'', PInt 5), (''K'', PInt (number_of_paths div 2)), (''N'', PInt number_of_paths),
           (''attacker_hop_period'', PInt period), (''seed_number'', PInt seed_number), (''sim_duration'', PInt (10 ^ 4))])
        (\<lambda>t. Inr (t, q')))"

fun add_paths_trials :: "'q randint \<Rightarrow> int \<Rightarrow> int \<Rightarrow> (nat \<times> int) list \<Rightarrow> trial_provider \<Rightarrow> 'q \<Rightarrow> (trial_provider \<times> 'q) res" where
  "add_paths_trials randint period n [] tp q = Inr (tp, q)"
| "add_paths_trials randint period n (x # xs) tp q =
     rbind (paths_trial randint period n x q) (\<lambda>(t, q'). add_paths_trials randint period n xs (add_trial tp t) q')"

fun add_path_counts :: "'q randint \<Rightarrow> int \<Rightarrow> int list \<Rightarrow> trial_provider \<Rightarrow> 'q \<Rightarrow> (trial_provider \<times> 'q) res" where
  "add_path_counts randint period [] tp q = Inr (tp, q)"
| "add_path_counts randint period (n # ns) tp q =
     (let (seeds, q1) = draw_seeds randint 10 q
      in rbind (add_paths_trials randint period n (enumerate 0 seeds) tp q1) (\<lambda>(tp', q2).
         add_path_counts randint period ns tp' q2))"

definition varying_number_of_paths_slow_hopping :: "'q randint \<Rightarrow> 'q \<Rightarrow> (trial_provider \<times> 'q) res" where
  "varying_number_of_paths_slow_hopping randint =
     add_path_counts randint 10 (map (\<lambda>i. i * 10) one_to_ten) (new_trial_provider ''sim-number-of-paths-slow-hops'')"

definition varying_number_of_paths_fast_hopping :: "'q randint \<Rightarrow> 'q \<Rightarrow> (trial_provider \<times> 'q) res" where
  "varying_number_of_paths_fast_hopping randint =
     add_path_counts randint 1 (map (\<lambda>i. i * 10) one_to_ten) (new_trial_provider ''sim-number-of-paths-fast-hops'')"

subsection \<open>The trials of the attacker tests\<close>

definition attacker_test_params :: "int \<Rightarrow> int \<Rightarrow> (string \<times> param_value) list" where
  "attacker_test_params k_value timestep =
     [(''K'', PInt k_value), (''port'', PInt 11111), (''N'', PInt 9),
      (''input-file'', PPath ''/home/cpsc-net-user/repos/mtd-crypto-impl/data/random_byte_20MB.dat''),
      (''output-file'', PPath ''./out.dat''), (''timestep'', PInt timestep), (''lambda'', PInt 0),
      (''reliable'', PStr ''False''), (''hop'', PStr ''host''), (''message-size'', PInt 256)]"

fun add_named_trials ::
    "'q randint \<Rightarrow> (string \<times> (string \<times> param_value) list) list \<Rightarrow> trial_provider \<Rightarrow> 'q \<Rightarrow> (trial_provider \<times> 'q) res" where
  "add_named_trials randint [] tp q = Inr (tp, q)"
| "add_named_trials randint ((name, ps) # xs) tp q =
     (let (the_trial, q') = new_trial randint name q
      in rbind (add_parameters the_trial ps) (\<lambda>t. add_named_trials randint xs (add_trial tp t) q'))"

definition test_with_single_trial :: "'q randint \<Rightarrow> 'q \<Rightarrow> (trial_provider \<times> 'q) res" where
  "test_with_single_trial randint =
     add_named_trials randint
       [(''attacker-testing'',
         [(''K'', PInt 5), (''N'', PInt 9), (''port'', PInt 11111),
          (''input-file'', PPath ''/home/cpsc-net-user/repos/mtd-crypto-impl/data/random_byte_20MB.dat''),
          (''output-file'', PPath ''./out.dat''), (''message-size'', PInt 256), (''timestep'', PInt 100), (''lambda'', PInt 0),
          (''reliable'', PStr ''False''), (''hop'', PStr ''host'')])]
       (new_trial_provider ''attacker-testing-latency'')"

definition test_with_varying_k_values :: "'q randint \<Rightarrow> 'q \<Rightarrow> (trial_provider \<times> 'q) res" where
  "test_with_varying_k_values randint =
     add_named_trials randint (map (\<lambda>k. (''k-'' @ show_int k, attacker_test_params k 100)) [1..9])
       (new_trial_provider ''k-values-discrete-delay'')"

definition test_with_varying_delta_values :: "'q randint \<Rightarrow> 'q \<Rightarrow> (trial_provider \<times> 'q) res" where
  "test_with_varying_delta_values randint =
     add_named_trials randint (map (\<lambda>d. (''delta-'' @ show_int d, attacker_test_params 5 d)) [10, 100, 1000])
       (new_trial_provider ''delta-values-discrete-delay'')"

subsection \<open>Conducting a trial\<close>

definition get_int :: "trial \<Rightarrow> string \<Rightarrow> int res" where
  "get_int t k = rbind (get_parameter t k) (\<lambda>v. case v of PInt i \<Rightarrow> Inr i | _ \<Rightarrow> Inl TypeError)"

text \<open>
  The parameters are read from the trial, the simulation is conducted and the messages each attacker
  recovered become parameters of the trial.  The parameters of the trial modules are positive.
\<close>

definition conduct_trial ::
    "'r np_random \<Rightarrow> (int \<Rightarrow> 'r res) \<Rightarrow> (nx_graph \<Rightarrow> node \<Rightarrow> node \<Rightarrow> node list list) \<Rightarrow> trial \<Rightarrow> trial res" where
  "conduct_trial np np_seed node_disjoint_paths the_trial =
     rbind (get_int the_trial ''N'') (\<lambda>N. rbind (get_int the_trial ''K'') (\<lambda>K.
     rbind (get_int the_trial ''seed_number'') (\<lambda>seed_number.
     rbind (get_int the_trial ''path_length'') (\<lambda>path_length.
     rbind (get_int the_trial ''attacker_hop_period'') (\<lambda>attacker_hop_period.
     rbind (get_int the_trial ''sim_duration'') (\<lambda>sim_duration.
     rbind (conduct_path_hopping_simulation np np_seed node_disjoint_paths (nat N) (nat K) seed_number (nat path_length)
         (nat attacker_hop_period) (nat sim_duration)) (\<lambda>(recovered, _, _).
     add_parameters the_trial (map (\<lambda>(k, ms). (k, PMessages ms)) recovered))))))))"

subsection \<open>What a sweep contains\<close>

text \<open>A trial with the given name whose parameters beside name and id are the given integers, in order.\<close>

definition int_trial :: "string \<Rightarrow> int_params \<Rightarrow> trial \<Rightarrow> bool" where
  "int_trial name ps t \<longleftrightarrow> (\<exists>i. t = \<lparr>tr_name = name,
     tr_parameters = (''trial-name'', PStr name) # (''id'', PStr i) # int_items ps\<rparr>)"

definition fresh_names :: "int_params \<Rightarrow> bool" where
  "fresh_names ps \<longleftrightarrow> distinct (dict_keys ps) \<and> ''trial-name'' \<notin> set (dict_keys ps) \<and> ''id'' \<notin> set (dict_keys ps)"

lemma int_items_keys [simp]: "map fst (int_items ps) = dict_keys ps"
  by (simp add: int_items_def comp_def case_prod_unfold)

lemma map_of_int_items: "map_of (int_items ps) k = map_option PInt (map_of ps k)"
  by (induction ps) (auto simp: int_items_def)

lemma new_trial_int:
  assumes "fresh_names ps"
  shows "\<exists>t q'. new_trial randint name q = (fst (new_trial randint name q), q')
    \<and> add_parameters (fst (new_trial randint name q)) (int_items ps) = Inr t \<and> int_trial name ps t"
proof -
  let ?t = "fst (new_trial randint name q)"
  have "add_parameters ?t (int_items ps) = Inr (?t\<lparr>tr_parameters := tr_parameters ?t @ int_items ps\<rparr>)"
    using assms by (intro add_parameters_new) (auto simp: fresh_names_def new_trial_keys simp del: set_map)
  moreover have "int_trial name ps (?t\<lparr>tr_parameters := tr_parameters ?t @ int_items ps\<rparr>)"
    by (auto simp: int_trial_def new_trial_def case_prod_unfold Let_def)
  ultimately show ?thesis by (metis prod.collapse)
qed

lemma mk_trial_ok:
  assumes "str_format title ps = Inr name" and "fresh_names ps"
  shows "\<exists>t q'. mk_trial randint title ps q = Inr (t, q') \<and> int_trial name ps t"
proof -
  from new_trial_int [OF assms(2), of randint name q] obtain t q' where
    "new_trial randint name q = (fst (new_trial randint name q), q')"
    "add_parameters (fst (new_trial randint name q)) (int_items ps) = Inr t" "int_trial name ps t" by blast
  then show ?thesis using assms(1) by (auto simp: mk_trial_def case_prod_unfold Let_def)
qed

lemma add_mk_trials_ok:
  assumes "\<forall>ps \<in> set pss. str_format title ps = Inr (name ps) \<and> fresh_names ps"
  shows "\<exists>ts q'. add_mk_trials randint title pss tp q = Inr (tp\<lparr>tp_trials := tp_trials tp @ ts\<rparr>, q')
    \<and> list_all2 (\<lambda>ps. int_trial (name ps) ps) pss ts"
  using assms
proof (induction pss arbitrary: tp q)
  case (Cons ps pss)
  from Cons.prems mk_trial_ok [of title ps "name ps" randint q] obtain t q1 where
    t: "mk_trial randint title ps q = Inr (t, q1)" "int_trial (name ps) ps t" by auto
  from Cons.IH [of "add_trial tp t" q1] Cons.prems obtain ts q' where
    "add_mk_trials randint title pss (add_trial tp t) q1 = Inr ((add_trial tp t)\<lparr>tp_trials := tp_trials (add_trial tp t) @ ts\<rparr>, q')"
    "list_all2 (\<lambda>ps. int_trial (name ps) ps) pss ts" by auto
  then show ?case using t by (intro exI [of _ "t # ts"] exI [of _ q']) (simp add: add_trial_def)
qed simp

lemma paths_trial_ok:
  "\<exists>t q'. paths_trial randint period n (i, seed) q = Inr (t, q')
    \<and> int_trial (''number-of-paths-'' @ show_int n @ ''-run-'' @ show_int (int i))
        [(''path_length'', 5), (''K'', n div 2), (''N'', n), (''attacker_hop_period'', period), (''seed_number'', seed),
         (''sim_duration'', 10 ^ 4)] t"
proof -
  let ?ps = "[(''path_length'', 5), (''K'', n div 2), (''N'', n), (''attacker_hop_period'', period), (''seed_number'', seed),
     (''sim_duration'', 10 ^ 4)] :: int_params"
  let ?name = "''number-of-paths-'' @ show_int n @ ''-run-'' @ show_int (int i)"
  have "fresh_names ?ps" by (simp add: fresh_names_def)
  from new_trial_int [OF this, of randint ?name q] obtain t q' where
    "new_trial randint ?name q = (fst (new_trial randint ?name q), q')"
    "add_parameters (fst (new_trial randint ?name q)) (int_items ?ps) = Inr t" "int_trial ?name ?ps t" by blast
  then show ?thesis by (auto simp: paths_trial_def int_items_def case_prod_unfold Let_def)
qed

subsection \<open>Conducting the trials of a sweep\<close>

definition sim_env_ok ::
    "'r np_random \<Rightarrow> (int \<Rightarrow> 'r res) \<Rightarrow> (nx_graph \<Rightarrow> node \<Rightarrow> node \<Rightarrow> node list list) \<Rightarrow> bool" where
  "sim_env_ok np np_seed nx \<longleftrightarrow> np_random_ok np \<and> (\<forall>s. 0 \<le> s \<and> s < 2 ^ 32 \<longrightarrow> is_ok (np_seed s))
     \<and> (\<forall>N L G s t. 0 < N \<and> 0 < L \<and> build_n_parallel_graph N L = Inr (G, s, t) \<longrightarrow> disjoint_paths_ok nx G s t)"

text \<open>Parameters with which a simulation can be conducted.\<close>

definition sim_params :: "int_params \<Rightarrow> bool" where
  "sim_params ps \<longleftrightarrow> (\<exists>N K seed L period duration. map_of ps ''N'' = Some N \<and> map_of ps ''K'' = Some K
     \<and> map_of ps ''seed_number'' = Some seed \<and> map_of ps ''path_length'' = Some L
     \<and> map_of ps ''attacker_hop_period'' = Some period \<and> map_of ps ''sim_duration'' = Some duration
     \<and> 0 < K \<and> K \<le> N \<and> 0 < L \<and> 0 < period \<and> 0 \<le> seed \<and> seed < 2 ^ 32)"

definition result_names :: "string list" where
  "result_names = [''random-path-hopping-attacker-recovered-messages'', ''random-node-hopping-attacker-recovered-messages'',
     ''ideal-random-path-hopping-attacker-recovered-messages'', ''one-node-per-path-attacker-recovered-messages'',
     ''fixed-attacker-recovered-messages'', ''planned-attacker-recovered-messages'']"

lemma get_int_int_trial:
  assumes "int_trial name ps t" and "k \<noteq> ''trial-name''" and "k \<noteq> ''id''"
  shows "get_int t k = (case map_of ps k of None \<Rightarrow> Inl ValueError | Some v \<Rightarrow> Inr v)"
  using assms by (auto simp: int_trial_def get_int_def get_parameter_def map_of_int_items split: option.splits)

lemma recovered_names: "length (sim_attackers sim) = 7 \<Longrightarrow> map fst (recovered_messages sim) = result_names"
  by (simp add: recovered_messages_def result_names_def map_fst_zip_take)

lemma conduct_trial_ok:
  assumes env: "sim_env_ok np np_seed nx" and t: "int_trial name ps t" and ps: "sim_params ps"
    and new: "fresh_names ps" "set result_names \<inter> set (dict_keys ps) = {}"
  shows "\<exists>t'. conduct_trial np np_seed nx t = Inr t' \<and> tr_name t' = name \<and> trial_wf t'
    \<and> dict_keys (tr_parameters t') = dict_keys (tr_parameters t) @ result_names"
proof -
  from ps obtain N K seed L period duration where
    p: "map_of ps ''N'' = Some N" "map_of ps ''K'' = Some K" "map_of ps ''seed_number'' = Some seed"
      "map_of ps ''path_length'' = Some L" "map_of ps ''attacker_hop_period'' = Some period"
      "map_of ps ''sim_duration'' = Some duration" and
    pos: "0 < K" "K \<le> N" "0 < L" "0 < period" "0 \<le> seed" "seed < 2 ^ 32" unfolding sim_params_def by blast
  let ?run = "conduct_path_hopping_simulation np np_seed nx (nat N) (nat K) seed (nat L) (nat period) (nat duration)"
  have "0 < nat N" "0 < nat L" using pos by simp_all
  then have "disjoint_paths_ok nx G s u" if "build_n_parallel_graph (nat N) (nat L) = Inr (G, s, u)" for G s u
    using env that unfolding sim_env_ok_def by blast
  then have "conduct_ok np np_seed nx (nat N) (nat K) seed (nat L) (nat period)"
    unfolding conduct_ok_def using env pos by (simp add: sim_env_ok_def)
  from conduct_cases [OF this, where duration = "nat duration"] obtain sim0 sim r r2 where
    run: "?run = Inr (recovered_messages sim, sim, r)" and att: "map fst (sim_attackers sim0) = attacker_order"
    and steps: "run_sim np (nat duration) sim0 r2 = Inr (sim, r)" by metis
  have "length (sim_attackers sim) = 7"
    using list_all2_lengthD [OF run_sim_attackers [OF steps]] arg_cong [OF att, of length] by (simp add: attacker_order_def)
  then have names: "map fst (recovered_messages sim) = result_names" by (rule recovered_names)
  let ?out = "map (\<lambda>(k, ms). (k, PMessages ms)) (recovered_messages sim)"
  let ?t = "t\<lparr>tr_parameters := tr_parameters t @ ?out\<rparr>"
  have out: "map fst ?out = result_names" using names by (simp add: comp_def case_prod_unfold)
  have keys: "dict_keys (tr_parameters t) = ''trial-name'' # ''id'' # dict_keys ps" using t by (auto simp: int_trial_def)
  have dist: "distinct result_names" "''trial-name'' \<notin> set result_names" "''id'' \<notin> set result_names" by (simp_all add: result_names_def)
  have "set result_names \<inter> set (dict_keys (tr_parameters t)) = {}" unfolding keys using new(2) dist(2,3) by auto
  then have add: "add_parameters t ?out = Inr ?t" using dist(1) by (intro add_parameters_new) (simp_all only: out)
  have ints: "get_int t ''N'' = Inr N" "get_int t ''K'' = Inr K" "get_int t ''seed_number'' = Inr seed"
    "get_int t ''path_length'' = Inr L" "get_int t ''attacker_hop_period'' = Inr period" "get_int t ''sim_duration'' = Inr duration"
    using get_int_int_trial [OF t] p by simp_all
  have "conduct_trial np np_seed nx t = Inr ?t"
    unfolding conduct_trial_def ints run rbind_simps prod.case by (rule add)
  moreover have all_keys: "dict_keys (tr_parameters ?t) = dict_keys (tr_parameters t) @ result_names"
  proof -
    have "tr_parameters ?t = tr_parameters t @ ?out" by simp
    then show ?thesis by (simp only: map_append out)
  qed
  moreover have "distinct (dict_keys (tr_parameters ?t))"
    unfolding all_keys keys using new dist unfolding fresh_names_def by (auto simp del: set_map)
  moreover have "\<exists>i. map_of (tr_parameters ?t) ''trial-name'' = Some (PStr (tr_name ?t)) \<and> map_of (tr_parameters ?t) ''id'' = Some (PStr i)"
    using t by (auto simp: int_trial_def)
  moreover have "tr_name ?t = name" using t by (auto simp: int_trial_def)
  ultimately show ?thesis unfolding trial_wf_def dict_wf_def by blast
qed

subsection \<open>Names\<close>

definition run_name :: "string \<Rightarrow> int \<Rightarrow> int \<Rightarrow> string" where
  "run_name pre x i = pre @ show_int x @ ''-run-'' @ show_int i"

lemma show_int_inj: "show_int x = show_int y \<Longrightarrow> x = y"
  by (metis Inr_inject py_int_show_int)

lemma run_name_inj:
  assumes "run_name pre x i = run_name pre y j" and "0 \<le> x" and "0 \<le> y"
  shows "x = y \<and> i = j"
proof -
  have nat: "CHR ''-'' \<notin> set (show_int z)" if "0 \<le> z" for z
    using that not_in_show_nat [of "CHR ''-''" "nat z"] by (simp add: show_int_def is_digit_def)
  have "show_int x @ CHR ''-'' # (''run-'' @ show_int i) = show_int y @ CHR ''-'' # (''run-'' @ show_int j)"
    using assms(1) by (simp add: run_name_def)
  from arg_cong [OF this, of "split_on CHR ''-''"] have "show_int x = show_int y"
    unfolding split_on_append [OF nat [OF assms(2)]] split_on_append [OF nat [OF assms(3)]] by simp
  then show ?thesis using assms(1) by (auto simp: run_name_def dest: show_int_inj)
qed

lemma dict_get_shown: "map_of d k = Some v \<Longrightarrow> dict_get (map (\<lambda>(k, v). (k, show_int v)) d) k = Inr (show_int v)"
  by (simp add: dict_get_def map_of_map)

lemma path_length_title:
  assumes "map_of d ''path_length'' = Some x" and "map_of d ''run_idx'' = Some i"
  shows "str_format ''path-length-{path_length}-run-{run_idx}'' d = Inr (run_name ''path-length-'' x i)"
  by (simp add: str_format_def run_name_def dict_get_shown [OF assms(1)] dict_get_shown [OF assms(2)])

lemma hop_period_title:
  assumes "map_of d ''attacker_hop_period'' = Some x" and "map_of d ''run_idx'' = Some i"
  shows "str_format ''hop-period-{attacker_hop_period}-run-{run_idx}'' d = Inr (run_name ''hop-period-'' x i)"
  by (simp add: str_format_def run_name_def dict_get_shown [OF assms(1)] dict_get_shown [OF assms(2)])

subsection \<open>Providers whose trials can all be conducted\<close>

definition all_conducted ::
    "'r np_random \<Rightarrow> (int \<Rightarrow> 'r res) \<Rightarrow> (nx_graph \<Rightarrow> node \<Rightarrow> node \<Rightarrow> node list list) \<Rightarrow> trial_provider \<Rightarrow> bool" where
  "all_conducted np np_seed nx tp \<longleftrightarrow> distinct (map tr_name (tp_trials tp))
     \<and> (\<forall>t \<in> set (tp_trials tp). \<exists>t'. conduct_trial np np_seed nx t = Inr t' \<and> tr_name t' = tr_name t \<and> trial_wf t'
          \<and> (\<forall>k \<in> set result_names. has_parameter t' k))"

lemma trials_conducted:
  assumes env: "sim_env_ok np np_seed nx"
    and ts: "list_all2 (\<lambda>((x, i), ps). int_trial (run_name pre x i) ps) items ts"
    and keys: "distinct (map fst items)"
    and ok: "\<forall>((x, i), ps) \<in> set items. 0 \<le> x \<and> sim_params ps \<and> fresh_names ps \<and> set result_names \<inter> set (dict_keys ps) = {}"
    and tp: "tp_trials tp = ts"
  shows "all_conducted np np_seed nx tp \<and> provider_len tp = length items"
proof -
  let ?name = "\<lambda>(x, i). run_name pre x i"
  have names: "map tr_name ts = map ?name (map fst items)"
    using ts by (induction rule: list_all2_induct) (auto simp: int_trial_def)
  have "inj_on ?name (set (map fst items))"
  proof (rule inj_onI)
    fix a b assume "a \<in> set (map fst items)" "b \<in> set (map fst items)" "?name a = ?name b"
    moreover obtain x i y j where "a = (x, i)" "b = (y, j)" by (cases a, cases b)
    ultimately show "a = b" using ok run_name_inj [of pre x i y j] by fastforce
  qed
  then have "distinct (map tr_name ts)" using keys unfolding names by (simp only: distinct_map)
  moreover have "\<exists>t'. conduct_trial np np_seed nx t = Inr t' \<and> tr_name t' = tr_name t \<and> trial_wf t'
      \<and> (\<forall>k \<in> set result_names. has_parameter t' k)" if "t \<in> set ts" for t
  proof -
    from that obtain k where k: "k < length ts" "t = ts ! k" by (auto simp: in_set_conv_nth)
    moreover obtain x i ps where "items ! k = ((x, i), ps)" by (cases "items ! k") auto
    ultimately have p: "((x, i), ps) \<in> set items" "int_trial (run_name pre x i) ps t"
      using list_all2_nthD2 [OF ts k(1)] list_all2_lengthD [OF ts] nth_mem [of k items] by auto
    from bspec [OF ok p(1)] have "sim_params ps" "fresh_names ps" "set result_names \<inter> set (dict_keys ps) = {}"
      by (simp_all only: prod.case)
    from conduct_trial_ok [OF env p(2) this] obtain t' where
      t': "conduct_trial np np_seed nx t = Inr t'" "tr_name t' = run_name pre x i" "trial_wf t'"
        "dict_keys (tr_parameters t') = dict_keys (tr_parameters t) @ result_names" by blast
    have "has_parameter t' k" if "k \<in> set result_names" for k
      using that unfolding has_parameter_def dict_has_def t'(4) by simp
    moreover have "tr_name t = run_name pre x i" using p(2) by (auto simp: int_trial_def)
    ultimately show ?thesis using t' by auto
  qed
  ultimately show ?thesis using tp list_all2_lengthD [OF ts] by (simp add: all_conducted_def provider_len_def)
qed

definition sweep_params :: "string \<Rightarrow> int_params \<Rightarrow> int \<Rightarrow> int \<Rightarrow> nat \<Rightarrow> int_params" where
  "sweep_params swept per x s i = (swept, x) # (''seed_number'', s) # per @ [(''run_idx'', int i)]"

lemma length_draw_seeds: "length (fst (draw_seeds randint n q)) = n"
  by (induction n arbitrary: q) (simp_all add: case_prod_unfold Let_def)

lemma draw_seeds_ok:
  assumes "\<And>q. 0 \<le> fst (randint q 0 (2 ^ 32)) \<and> fst (randint q 0 (2 ^ 32)) < 2 ^ 32"
  shows "length (fst (draw_seeds randint n q)) = n \<and> (\<forall>s \<in> set (fst (draw_seeds randint n q)). 0 \<le> s \<and> s < 2 ^ 32)"
proof (induction n arbitrary: q)
  case (Suc n)
  then show ?case using assms [of q] Suc.IH [of "snd (randint q 0 (2 ^ 32))"] by (simp add: case_prod_unfold Let_def)
qed simp

lemma in_enumerate: "z \<in> set (enumerate n xs) \<Longrightarrow> snd z \<in> set xs"
  by (cases z) (auto simp: enumerate_eq_zip dest: set_zip_rightD)

lemma product_lists_two: "product_lists [as, bs] = map (\<lambda>(a, b). [a, b]) (List.product as bs)"
  by (induction as) (simp_all add: comp_def map_concat)

lemma sweep_packs:
  assumes "fresh_names (sweep_params swept per 0 0 0)"
  shows "map (all_parameters per) (enumerate 0 (product_lists [map (\<lambda>x. (swept, x)) xs, map (\<lambda>s. (''seed_number'', s)) ss])) =
    map (\<lambda>(i, x, s). sweep_params swept per x s i) (enumerate 0 (List.product xs ss))"
proof -
  have "all_parameters per (i, [(swept, x), (''seed_number'', s)]) = sweep_params swept per x s i" for i x s
  proof -
    have d: "distinct (map fst ([(swept, x), (''seed_number'', s)] @ per))" "''run_idx'' \<notin> set (map fst ([(swept, x), (''seed_number'', s)] @ per))"
      using assms by (auto simp: fresh_names_def sweep_params_def)
    show ?thesis unfolding all_parameters_def prod.case dict_of_distinct [OF d(1)] dict_set_new [OF d(2)] sweep_params_def by simp
  qed
  moreover have "product_lists [map (\<lambda>x. (swept, x)) xs, map (\<lambda>s. (''seed_number'', s)) ss] =
      map (\<lambda>(x, s). [(swept, x), (''seed_number'', s)]) (List.product xs ss)"
    unfolding product_lists_two by (simp add: product_concat_map map_concat comp_def)
  ultimately show ?thesis by (simp add: enumerate_eq_zip zip_map2 case_prod_unfold comp_def)
qed

lemma sweep_conducted:
  assumes env: "sim_env_ok np np_seed nx"
    and seeds: "\<And>q. 0 \<le> fst (randint q 0 (2 ^ 32)) \<and> fst (randint q 0 (2 ^ 32)) < 2 ^ 32"
    and fresh: "fresh_names (sweep_params swept per 0 0 0)" "set result_names \<inter> set (dict_keys (sweep_params swept per 0 0 0)) = {}"
    and title: "\<And>x s i. str_format title (sweep_params swept per x s i) = Inr (run_name pre x (int i))"
    and params: "\<And>x s i. 0 < x \<Longrightarrow> 0 \<le> s \<Longrightarrow> s < 2 ^ 32 \<Longrightarrow> sim_params (sweep_params swept per x s i)"
  shows "\<exists>tp q'. sweep randint swept per title name q = Inr (tp, q') \<and> provider_name tp = name
    \<and> all_conducted np np_seed nx tp \<and> provider_len tp = 100"
proof -
  obtain ss q1 where ss: "draw_seeds randint 10 q = (ss, q1)" by (cases "draw_seeds randint 10 q")
  have len: "length ss = 10" and range: "\<forall>s \<in> set ss. 0 \<le> s \<and> s < 2 ^ 32"
    using draw_seeds_ok [where randint = randint, OF seeds, of 10 q] by (simp_all add: ss)
  let ?items = "map (\<lambda>(i, x, s). ((x, int i), sweep_params swept per x s i)) (enumerate 0 (List.product one_to_ten ss))"
  let ?name = "\<lambda>ps. run_name pre (snd (hd ps)) (snd (last ps))"
  have names: "?name (sweep_params swept per x s i) = run_name pre x (int i)" for x s i by (simp add: sweep_params_def)
  have keys: "dict_keys (sweep_params swept per x s i) = dict_keys (sweep_params swept per 0 0 0)" for x s i
    by (simp add: sweep_params_def)
  have fr: "fresh_names (sweep_params swept per x s i)" for x s i
    using fresh(1) unfolding fresh_names_def keys [of x s i] .
  have "\<forall>ps \<in> set (map snd ?items). str_format title ps = Inr (?name ps) \<and> fresh_names ps"
    using title names fr by auto
  from add_mk_trials_ok [OF this, of randint "new_trial_provider name" q1] obtain ts q' where
    run: "add_mk_trials randint title (map snd ?items) (new_trial_provider name) q1 =
        Inr ((new_trial_provider name)\<lparr>tp_trials := tp_trials (new_trial_provider name) @ ts\<rparr>, q')"
      "list_all2 (\<lambda>ps. int_trial (?name ps) ps) (map snd ?items) ts" by blast
  let ?tp = "(new_trial_provider name)\<lparr>tp_trials := ts\<rparr>"
  have snd: "map snd ?items = map (\<lambda>(i, x, s). sweep_params swept per x s i) (enumerate 0 (List.product one_to_ten ss))"
    by (simp add: comp_def case_prod_unfold)
  have out: "sweep randint swept per title name q = Inr (?tp, q')"
    using run(1) by (simp only: sweep_def ss Let_def prod.case mk_trial_provider_with_params_def sweep_packs [OF fresh(1)] snd)
      (simp add: new_trial_provider_def)
  have ts: "list_all2 (\<lambda>((x, i), ps). int_trial (run_name pre x i) ps) ?items ts"
    using run(2) by (simp add: list_all2_map1 case_prod_unfold names)
  have idx: "map (nat \<circ> snd) (map fst ?items) = map fst (enumerate 0 (List.product one_to_ten ss))" by (simp add: comp_def case_prod_unfold)
  have "distinct (map (nat \<circ> snd) (map fst ?items))" unfolding idx by simp
  then have dist: "distinct (map fst ?items)" by (rule distinct_map [THEN iffD1, THEN conjunct1])
  have pos: "0 < x" if "x \<in> set one_to_ten" for x using that by (simp add: one_to_ten_def)
  have "\<forall>((x, i), ps) \<in> set ?items. 0 \<le> x \<and> sim_params ps \<and> fresh_names ps \<and> set result_names \<inter> set (dict_keys ps) = {}"
  proof (clarify, intro conjI)
    fix x k ps
    assume "((x, k), ps) \<in> set ?items"
    then obtain i s where item: "(i, x, s) \<in> set (enumerate 0 (List.product one_to_ten ss))" "ps = sweep_params swept per x s i" by auto
    from in_enumerate [OF item(1)] have x: "x \<in> set one_to_ten" "s \<in> set ss" by simp_all
    show "0 \<le> x" using pos [OF x(1)] by simp
    show "sim_params ps" unfolding item(2) using params [OF pos [OF x(1)]] range x(2) by blast
    show "fresh_names ps" unfolding item(2) by (rule fr)
    show "set result_names \<inter> set (dict_keys ps) = {}" unfolding item(2) keys [of x s i] by (rule fresh(2))
  qed
  from trials_conducted [OF env ts dist this, of ?tp] have "all_conducted np np_seed nx ?tp" "provider_len ?tp = length ?items" by simp_all
  moreover have "length ?items = 100" unfolding length_map length_enumerate length_product len by (simp add: one_to_ten_def)
  moreover have "provider_name ?tp = name" by (simp add: new_trial_provider_def)
  ultimately show ?thesis using out by (intro exI [of _ ?tp] exI [of _ q'] conjI) simp_all
qed

definition paths_params :: "int \<Rightarrow> int \<Rightarrow> int \<Rightarrow> int_params" where
  "paths_params period n s = [(''path_length'', 5), (''K'', n div 2), (''N'', n), (''attacker_hop_period'', period),
     (''seed_number'', s), (''sim_duration'', 10 ^ 4)]"

lemma add_paths_trials_ok:
  "\<exists>ts q'. add_paths_trials randint period n xs tp q = Inr (tp\<lparr>tp_trials := tp_trials tp @ ts\<rparr>, q')
    \<and> list_all2 (\<lambda>(i, s). int_trial (run_name ''number-of-paths-'' n (int i)) (paths_params period n s)) xs ts"
proof (induction xs arbitrary: tp q)
  case (Cons x xs)
  obtain i s where x: "x = (i, s)" by (cases x)
  from paths_trial_ok [of randint period n i s q] obtain t q1 where
    t: "paths_trial randint period n x q = Inr (t, q1)" "int_trial (run_name ''number-of-paths-'' n (int i)) (paths_params period n s) t"
    unfolding x run_name_def paths_params_def by blast
  from Cons.IH [of "add_trial tp t" q1] obtain ts q' where
    "add_paths_trials randint period n xs (add_trial tp t) q1 = Inr ((add_trial tp t)\<lparr>tp_trials := tp_trials (add_trial tp t) @ ts\<rparr>, q')"
    "list_all2 (\<lambda>(i, s). int_trial (run_name ''number-of-paths-'' n (int i)) (paths_params period n s)) xs ts" by blast
  then show ?case using t x by (intro exI [of _ "t # ts"] exI [of _ q']) (simp add: add_trial_def)
qed simp

lemma add_path_counts_ok:
  assumes seeds: "\<And>q. 0 \<le> fst (randint q 0 (2 ^ 32)) \<and> fst (randint q 0 (2 ^ 32)) < 2 ^ 32"
  shows "\<exists>items ts q'. add_path_counts randint period ns tp q = Inr (tp\<lparr>tp_trials := tp_trials tp @ ts\<rparr>, q')
    \<and> map fst items = map (\<lambda>(n, i). (n, int i)) (List.product ns [0..<10])
    \<and> (\<forall>((n, i), ps) \<in> set items. \<exists>s. 0 \<le> s \<and> s < 2 ^ 32 \<and> ps = paths_params period n s)
    \<and> list_all2 (\<lambda>((n, i), ps). int_trial (run_name ''number-of-paths-'' n i) ps) items ts"
proof (induction ns arbitrary: tp q)
  case (Cons n ns)
  obtain ss q1 where ss: "draw_seeds randint 10 q = (ss, q1)" by (cases "draw_seeds randint 10 q")
  have len: "length ss = 10" and range: "\<forall>s \<in> set ss. 0 \<le> s \<and> s < 2 ^ 32"
    using draw_seeds_ok [where randint = randint, OF seeds, of 10 q] by (simp_all add: ss)
  from add_paths_trials_ok [of randint period n "enumerate 0 ss" tp q1] obtain us q2 where
    us: "add_paths_trials randint period n (enumerate 0 ss) tp q1 = Inr (tp\<lparr>tp_trials := tp_trials tp @ us\<rparr>, q2)"
      "list_all2 (\<lambda>(i, s). int_trial (run_name ''number-of-paths-'' n (int i)) (paths_params period n s)) (enumerate 0 ss) us" by blast
  let ?items = "map (\<lambda>(i, s). ((n, int i), paths_params period n s)) (enumerate 0 ss)"
  let ?tp = "tp\<lparr>tp_trials := tp_trials tp @ us\<rparr>"
  from Cons.IH [of ?tp q2] obtain items ts q' where
    ts: "add_path_counts randint period ns ?tp q2 = Inr (?tp\<lparr>tp_trials := tp_trials ?tp @ ts\<rparr>, q')"
      "map fst items = map (\<lambda>(n, i). (n, int i)) (List.product ns [0..<10])"
      "\<forall>((n, i), ps) \<in> set items. \<exists>s. 0 \<le> s \<and> s < 2 ^ 32 \<and> ps = paths_params period n s"
      "list_all2 (\<lambda>((n, i), ps). int_trial (run_name ''number-of-paths-'' n i) ps) items ts" by blast
  have "list_all2 (\<lambda>((n, i), ps). int_trial (run_name ''number-of-paths-'' n i) ps) (?items @ items) (us @ ts)"
    by (rule list_all2_appendI) (use us(2) ts(4) in \<open>simp_all add: list_all2_map1 case_prod_unfold\<close>)
  moreover have "\<forall>((m, i), ps) \<in> set (?items @ items). \<exists>s. 0 \<le> s \<and> s < 2 ^ 32 \<and> ps = paths_params period m s"
  proof (clarify)
    fix m i qs
    assume "((m, i), qs) \<in> set (?items @ items)"
    then consider z where "z \<in> set (enumerate 0 ss)" "m = n" "qs = paths_params period n (snd z)" | "((m, i), qs) \<in> set items"
      by (auto simp: case_prod_unfold)
    then show "\<exists>s. 0 \<le> s \<and> s < 2 ^ 32 \<and> qs = paths_params period m s"
    proof cases
      case 1
      then show ?thesis using range in_enumerate [OF 1(1)] by blast
    next
      case 2
      from bspec [OF ts(3) 2] show ?thesis by (simp only: prod.case)
    qed
  qed
  moreover have "map fst (enumerate 0 ss) = [0..<10]" using len by simp
  then have "map (\<lambda>i. (n, int i)) (map fst (enumerate 0 ss)) = map (\<lambda>i. (n, int i)) [0..<10]" by (rule arg_cong)
  then have "map (\<lambda>z. (n, int (fst z))) (enumerate 0 ss) = map (\<lambda>i. (n, int i)) [0..<10]" unfolding map_map comp_def .
  then have "map fst (?items @ items) = map (\<lambda>(n, i). (n, int i)) (List.product (n # ns) [0..<10])"
    using ts(2) by (simp add: comp_def case_prod_unfold)
  moreover have "add_path_counts randint period (n # ns) tp q = Inr (tp\<lparr>tp_trials := tp_trials tp @ us @ ts\<rparr>, q')"
    using ts(1) us(1) by (simp add: ss)
  ultimately show ?case by blast
qed simp

lemma path_counts_conducted:
  assumes env: "sim_env_ok np np_seed nx"
    and seeds: "\<And>q. 0 \<le> fst (randint q 0 (2 ^ 32)) \<and> fst (randint q 0 (2 ^ 32)) < 2 ^ 32" and period: "0 < period"
  shows "\<exists>tp q'. add_path_counts randint period (map (\<lambda>i. i * 10) one_to_ten) (new_trial_provider name) q = Inr (tp, q')
    \<and> provider_name tp = name \<and> all_conducted np np_seed nx tp \<and> provider_len tp = 100"
proof -
  let ?ns = "map (\<lambda>i. i * 10) one_to_ten"
  from add_path_counts_ok [where randint = randint and period = period, OF seeds, of ?ns "new_trial_provider name" q]
  obtain items ts q' where
    run: "add_path_counts randint period ?ns (new_trial_provider name) q =
      Inr ((new_trial_provider name)\<lparr>tp_trials := tp_trials (new_trial_provider name) @ ts\<rparr>, q')" and
    fsts: "map fst items = map (\<lambda>(n, i). (n, int i)) (List.product ?ns [0..<10])" and
    ps: "\<forall>((n, i), ps) \<in> set items. \<exists>s. 0 \<le> s \<and> s < 2 ^ 32 \<and> ps = paths_params period n s" and
    ts: "list_all2 (\<lambda>((n, i), ps). int_trial (run_name ''number-of-paths-'' n i) ps) items ts" by blast
  have "distinct ?ns" by (simp add: one_to_ten_def distinct_map inj_on_def)
  then have dist: "distinct (map fst items)" unfolding fsts
    by (auto simp: distinct_map inj_on_def intro: distinct_product)
  have len: "length items = 100" using arg_cong [OF fsts, of length] by (simp add: one_to_ten_def)
  have "\<forall>n \<in> set ?ns. 10 \<le> n" by (simp add: one_to_ten_def)
  then have n: "10 \<le> n" if "((n, i), qs) \<in> set items" for n i qs
  proof -
    have "(n, i) \<in> set (map fst items)" using that by force
    then show ?thesis unfolding fsts using \<open>\<forall>n \<in> set ?ns. 10 \<le> n\<close> by auto
  qed
  have ok: "sim_params (paths_params period n s) \<and> fresh_names (paths_params period n s)
      \<and> set result_names \<inter> set (dict_keys (paths_params period n s)) = {}" if "10 \<le> n" "0 \<le> s" "s < 2 ^ 32" for n s
  proof -
    have "0 < n div 2" "n div 2 \<le> n" using that(1) by auto
    then show ?thesis using that period by (simp add: sim_params_def paths_params_def fresh_names_def result_names_def)
  qed
  have "\<forall>((n, i), ps) \<in> set items. 0 \<le> n \<and> sim_params ps \<and> fresh_names ps \<and> set result_names \<inter> set (dict_keys ps) = {}"
  proof (clarify, intro conjI)
    fix n i qs
    assume a: "((n, i), qs) \<in> set items"
    from bspec [OF ps a] obtain s where s: "0 \<le> s" "s < 2 ^ 32" "qs = paths_params period n s" by auto
    show "0 \<le> n" using n [OF a] by simp
    show "sim_params qs" "fresh_names qs" "set result_names \<inter> set (dict_keys qs) = {}" using ok [OF n [OF a] s(1,2)] s(3) by simp_all
  qed
  from trials_conducted [OF env ts dist this, of "(new_trial_provider name)\<lparr>tp_trials := ts\<rparr>"] run len show ?thesis
    by (simp add: new_trial_provider_def)
qed

text \<open>
  The disjoint paths of a graph built by \<open>build_n_parallel_graph\<close>, read off the edges at its source.
\<close>

definition parallel_paths :: "nx_graph \<Rightarrow> node \<Rightarrow> node \<Rightarrow> node list list" where
  "parallel_paths G s t =
     (let N = length (remdups (filter (\<lambda>e. snd e = s) (g_edges G))) in map (full_path N (nat s div N)) [0..<N])"

lemma parallel_paths_ok:
  assumes "0 < N" and "0 < L" and "build_n_parallel_graph N L = Inr (G, s, t)"
  shows "disjoint_paths_ok parallel_paths G s t"
proof -
  from build_ok [OF assms(1,2)] assms(3) have st: "s = int (N * L)" "t = int (N * L) + 1"
    and G: "set (g_edges G) = (\<Union>n<N. chain_edges (int (N * L)) (int (N * L) + 1) (chain L n))" by auto
  have "e \<in> set (g_edges G) \<and> snd e = s \<longleftrightarrow> e \<in> (\<lambda>n. (int (n * L), s)) ` {..<N}" for e
  proof
    assume "e \<in> set (g_edges G) \<and> snd e = s"
    then obtain n where n: "n < N" "e \<in> chain_edges s t (chain L n)" "snd e = s" unfolding G st by auto
    have small: "x < s" if "x \<in> set (chain L n)" for x
      using that chain_in [OF n(1)] unfolding set_chain st by (metis of_nat_less_iff)
    have "snd (link_key p) < s" if "p \<in> set (pairwise (chain L n))" for p
      using set_pairwise_subset [of "chain L n"] that small by (cases p) (auto simp: link_key_def)
    moreover have "snd (link_key (t, last (chain L n))) = t"
      using small [of "last (chain L n)"] chain_props(1) [OF assms(2), of n] by (simp add: link_key_def st)
    moreover have "t \<noteq> s" unfolding st by simp
    ultimately have "e = link_key (s, hd (chain L n))" using n(2,3) unfolding chain_edges_def by auto
    moreover have "hd (chain L n) < s" using small chain_props(1) [OF assms(2), of n] by simp
    ultimately show "e \<in> (\<lambda>n. (int (n * L), s)) ` {..<N}"
      using n(1) chain_props(4) [OF assms(2), of n] by (auto simp: link_key_def)
  next
    assume "e \<in> (\<lambda>n. (int (n * L), s)) ` {..<N}"
    then obtain n where n: "n < N" "e = (int (n * L), s)" by auto
    have "n * L < N * L" using n(1) assms(2) by simp
    then have "int (n * L) < s" unfolding st by (simp only: of_nat_less_iff)
    then have "e = link_key (s, hd (chain L n))" unfolding chain_props(4) [OF assms(2)] n(2) by (simp add: link_key_def)
    then have "e \<in> chain_edges s t (chain L n)" unfolding chain_edges_def by simp
    then show "e \<in> set (g_edges G) \<and> snd e = s" using n unfolding G st by auto
  qed
  then have "set (filter (\<lambda>e. snd e = s) (g_edges G)) = (\<lambda>n. (int (n * L), s)) ` {..<N}" by auto
  moreover have "inj_on (\<lambda>n. (int (n * L), s)) {..<N}" using assms(2) by (auto simp: inj_on_def)
  ultimately have "length (remdups (filter (\<lambda>e. snd e = s) (g_edges G))) = N"
    unfolding length_remdups_card_conv by (simp add: card_image)
  then have "parallel_paths G s t = map (full_path N L) [0..<N]"
    unfolding parallel_paths_def st using assms(1) by (simp add: Let_def del: of_nat_mult)
  then show ?thesis using all_chains_ok [OF assms] unfolding disjoint_paths_ok_def by simp
qed

lemma ex_sim_env: "sim_env_ok np_first ex_seed parallel_paths"
  unfolding sim_env_ok_def using np_first_ok parallel_paths_ok by (auto simp: ex_seed_def is_ok_def)

subsection \<open>Properties\<close>



lemma seed_upper_end_refused:
  assumes "int_trial name (paths_params period n (2 ^ 32)) t" and "np_seed (2 ^ 32) = Inl ValueError"
  shows "conduct_trial np np_seed nx t = Inl ValueError"
  using assms(2)
  by (simp add: conduct_trial_def get_int_int_trial [OF assms(1)] paths_params_def conduct_path_hopping_simulation_def)

text \<open>
  The title of \<open>varying_hop_period_short_paths\<close> names a field \<open>hop_period\<close> that no trial has (the
  parameter is \<open>attacker_hop_period\<close>): whatever seeds are drawn, the function raises \<open>KeyError\<close>.
\<close>

theorem short_paths_sweep_raises: "varying_hop_period_short_paths randint q = Inl KeyError"
proof -
  let ?per = "[(''K'', 5), (''N'', 10), (''path_length'', 1), (''sim_duration'', 10 ^ 4)] :: int_params"
  let ?swept = "''attacker_hop_period''" and ?title = "''hop-period-{hop_period}-run-{run_idx}''"
  obtain seeds q1 where "draw_seeds randint 10 q = (seeds, q1)" by (cases "draw_seeds randint 10 q")
  moreover from this have "length seeds = Suc 9" using length_draw_seeds [of randint 10 q] by simp
  ultimately obtain s ss where ss: "draw_seeds randint 10 q = (s # ss, q1)" by (cases seeds) simp_all
  have "fresh_names (sweep_params ?swept ?per 0 0 0)" by (simp add: fresh_names_def sweep_params_def)
  note packs = sweep_packs [OF this, of one_to_ten "s # ss"]
  have ten: "one_to_ten = 1 # [2..10]" unfolding one_to_ten_def by (subst upto_rec1) simp_all
  have "\<exists>xss. List.product one_to_ten (s # ss) = (1, s) # xss"
    unfolding ten List.product.simps list.map append_Cons by (rule exI) (rule refl)
  then obtain xss where "List.product one_to_ten (s # ss) = (1, s) # xss" ..
  then have "map (\<lambda>(i, x, s). sweep_params ?swept ?per x s i) (enumerate 0 (List.product one_to_ten (s # ss))) =
      sweep_params ?swept ?per 1 s 0 # map (\<lambda>(i, x, s). sweep_params ?swept ?per x s i) (enumerate 1 xss)" by simp
  note packs [unfolded this]
  moreover have "str_format ?title (sweep_params ?swept ?per 1 s 0) = Inl KeyError"
    by (simp add: str_format_def sweep_params_def dict_get_def)
  then have "mk_trial randint ?title (sweep_params ?swept ?per 1 s 0) q1 = Inl KeyError" by (simp add: mk_trial_def)
  ultimately show ?thesis
    by (simp only: varying_hop_period_short_paths_def sweep_def ss Let_def prod.case mk_trial_provider_with_params_def
        add_mk_trials.simps rbind_simps)
qed

end
