(* ===== verification/Results_Repository.thy ===== *)
theory Results_Repository
  imports Trial_Provider
begin

section \<open>The results repository\<close>

text \<open>
  Models \<open>rest_client/nw_control/results_repository.py\<close> over a model of the file system: absolute paths are
  lists of names, a path holds a directory or a file, and a file holds text, a JSON value or a pickled
  trial provider.  \<open>Path\<close>, \<open>mkdir\<close>, \<open>open\<close>, \<open>json\<close> and \<open>pickle\<close> of the standard library are modelled as far as the
  repository uses them; reading a file in another format than it was written in raises.
\<close>

subsection \<open>Paths and files\<close>

type_synonym fpath = "string list"

datatype content = Text string | JsonText json | Pickled trial_provider
datatype fs_node = Dir | File content

type_synonym fs = "(fpath, fs_node) dict"

definition path_parts :: "string \<Rightarrow> string list" where
  "path_parts s = filter (\<lambda>w. w \<noteq> [] \<and> w \<noteq> ''.'') (split_on CHR ''/'' s)"

text \<open>\<open>base / Path(s)\<close>: an absolute \<open>s\<close> replaces the base.\<close>

definition path_join :: "fpath \<Rightarrow> string \<Rightarrow> fpath" where
  "path_join base s = (if startswith s ''/'' then path_parts s else base @ path_parts s)"

definition fs_exists :: "fs \<Rightarrow> fpath \<Rightarrow> bool" where
  "fs_exists fs p \<longleftrightarrow> p = [] \<or> map_of fs p \<noteq> None"

definition is_dir :: "fs \<Rightarrow> fpath \<Rightarrow> bool" where
  "is_dir fs p \<longleftrightarrow> p = [] \<or> map_of fs p = Some Dir"

definition make_dir :: "fs \<Rightarrow> fpath \<Rightarrow> fs res" where
  "make_dir fs p = (if is_dir fs p then Inr fs else if fs_exists fs p then Inl IOError else Inr (dict_set fs p Dir))"

definition ancestors :: "fpath \<Rightarrow> fpath list" where
  "ancestors p = map (\<lambda>n. take n p) [1..<Suc (length p)]"

text \<open>\<open>p.mkdir(parents=True, exist_ok=exist_ok)\<close>\<close>

definition mkdir :: "fs \<Rightarrow> fpath \<Rightarrow> bool \<Rightarrow> fs res" where
  "mkdir fs p exist_ok =
     (if fs_exists fs p then (if exist_ok \<and> is_dir fs p then Inr fs else Inl FileExistsError)
      else fold_res make_dir fs (ancestors p))"

definition write_file :: "fs \<Rightarrow> fpath \<Rightarrow> content \<Rightarrow> fs res" where
  "write_file fs p c =
     (if is_dir fs p then Inl IOError
      else if \<not> fs_exists fs (butlast p) then Inl FileNotFoundError
      else if \<not> is_dir fs (butlast p) then Inl IOError
      else Inr (dict_set fs p (File c)))"

definition read_file :: "fs \<Rightarrow> fpath \<Rightarrow> content res" where
  "read_file fs p =
     (if p = [] then Inl IOError
      else case map_of fs p of None \<Rightarrow> Inl FileNotFoundError | Some Dir \<Rightarrow> Inl IOError | Some (File c) \<Rightarrow> Inr c)"

fun as_text :: "content \<Rightarrow> string res" where
  "as_text (Text s) = Inr s"
| "as_text _ = Inl ValueError"

fun as_json :: "content \<Rightarrow> json res" where
  "as_json (JsonText j) = Inr j"
| "as_json _ = Inl ValueError"

fun as_provider :: "content \<Rightarrow> trial_provider res" where
  "as_provider (Pickled tp) = Inr tp"
| "as_provider _ = Inl ValueError"

subsection \<open>The repository\<close>

record repository =
  base_path :: fpath
  repo_schema :: string
  repository_name :: string

definition REPO_METADATA_FILE :: string where
  "REPO_METADATA_FILE = ''.results_repo''"

definition repository_exists :: "fs \<Rightarrow> fpath \<Rightarrow> bool" where
  "repository_exists fs base \<longleftrightarrow> fs_exists fs base \<and> is_dir fs base \<and> fs_exists fs (base @ [REPO_METADATA_FILE])"

definition read_repository_metadata :: "fs \<Rightarrow> fpath \<Rightarrow> json res" where
  "read_repository_metadata fs base = rbind (read_file fs (base @ [REPO_METADATA_FILE])) as_json"

definition create_repository :: "fs \<Rightarrow> fpath \<Rightarrow> string \<Rightarrow> string \<Rightarrow> (fs \<times> repository) res" where
  "create_repository fs base schema name =
     rbind (if repository_exists fs base then
              rbind (read_repository_metadata fs base) (\<lambda>repository_metadata.
              rbind (json_get repository_metadata ''repository_name'') (\<lambda>n.
              rbind (json_get repository_metadata ''schema'') (\<lambda>s.
                if n \<noteq> JStr name \<or> s \<noteq> JStr schema then Inl ValueError else Inr fs)))
            else rbind (mkdir fs base False) (\<lambda>fs1.
              write_file fs1 (base @ [REPO_METADATA_FILE])
                (JsonText (JObj [(''repository_name'', JStr name), (''schema'', JStr schema)]))))
       (\<lambda>fs'. Inr (fs', \<lparr>base_path = base, repo_schema = schema, repository_name = name\<rparr>))"

definition build_output_path :: "repository \<Rightarrow> (string, string) dict \<Rightarrow> fpath res" where
  "build_output_path repo schema_variables =
     rbind (map_res (dict_get schema_variables) (filter (\<lambda>l. l \<noteq> []) (split_on CHR ''/'' (repo_schema repo)))) (\<lambda>segments.
     Inr (foldl path_join (base_path repo) segments))"

definition write_trial_results :: "repository \<Rightarrow> fs \<Rightarrow> (string, string) dict \<Rightarrow> (string, string) dict \<Rightarrow> bool \<Rightarrow> fs res" where
  "write_trial_results repo fs schema_variables results overwrite =
     rbind (build_output_path repo schema_variables) (\<lambda>output_path.
     rbind (mkdir fs output_path overwrite) (\<lambda>fs1.
     fold_res (\<lambda>fs (file_name, results_data). write_file fs (path_join output_path file_name) (Text results_data)) fs1 results))"

definition read_trial_results :: "repository \<Rightarrow> fs \<Rightarrow> (string, string) dict \<Rightarrow> string list \<Rightarrow> (string, string) dict res" where
  "read_trial_results repo fs schema_variables file_names =
     rbind (build_output_path repo schema_variables) (\<lambda>output_path.
     rbind (map_res (\<lambda>file_name. rbind (rbind (read_file fs (path_join output_path file_name)) as_text) (\<lambda>s. Inr (file_name, s))) file_names)
       (\<lambda>items. Inr (dict_of items)))"

definition trial_param :: "string \<Rightarrow> trial \<Rightarrow> param_value res" where
  "trial_param k t = get_parameter t k"

definition drop_names :: "trial_provider \<Rightarrow> param_value list \<Rightarrow> trial_provider res" where
  "drop_names existing names =
     fold_res (\<lambda>tp n. remove_all_trials_that_match tp (\<lambda>t. rbind (trial_param ''trial-name'' t) (\<lambda>v. Inr (v = n)))) existing names"

text \<open>What becomes of the provider when the file already holds one.\<close>

definition merge_provider :: "trial_provider \<Rightarrow> trial_provider \<Rightarrow> bool \<Rightarrow> bool \<Rightarrow> trial_provider res" where
  "merge_provider existing tp overwrite merge_existing =
     rbind (map_res (trial_param ''id'') (tp_trials existing)) (\<lambda>old_ids.
     rbind (map_res (trial_param ''id'') (tp_trials tp)) (\<lambda>new_ids.
     if filter (\<lambda>i. i \<in> set new_ids) old_ids \<noteq> [] then Inl ValueError
     else rbind (map_res (trial_param ''trial-name'') (tp_trials existing)) (\<lambda>old_names.
       rbind (map_res (trial_param ''trial-name'') (tp_trials tp)) (\<lambda>new_names.
       let name_intersection = remdups (filter (\<lambda>n. n \<in> set new_names) old_names)
       in if name_intersection \<noteq> [] \<and> \<not> overwrite then Inl ValueError
          else rbind (drop_names existing name_intersection) (\<lambda>existing'.
            Inr (if merge_existing then foldl add_trial tp (tp_trials existing') else tp))))))"

definition write_trial_provider ::
    "repository \<Rightarrow> fs \<Rightarrow> (string, string) dict \<Rightarrow> trial_provider \<Rightarrow> bool \<Rightarrow> bool \<Rightarrow> (fs \<times> trial_provider) res" where
  "write_trial_provider repo fs schema_variables tp overwrite merge_existing =
     rbind (build_output_path repo schema_variables) (\<lambda>output_path.
     rbind (mkdir fs output_path True) (\<lambda>fs1.
     let provider_output_file = output_path @ [''trial-provider.p'']
     in rbind (if fs_exists fs1 provider_output_file then
          rbind (rbind (read_file fs1 provider_output_file) as_provider) (\<lambda>existing. merge_provider existing tp overwrite merge_existing)
          else Inr tp) (\<lambda>tp'.
        rbind (write_file fs1 provider_output_file (Pickled tp')) (\<lambda>fs2. Inr (fs2, tp')))))"

definition read_trial_provider :: "repository \<Rightarrow> fs \<Rightarrow> string \<Rightarrow> trial_provider res" where
  "read_trial_provider repo fs name =
     rbind (read_file fs (path_join (base_path repo) name @ [''trial-provider.p''])) as_provider"

subsection \<open>A store of files\<close>

text \<open>What a client of the file system relies on: a file that was written is read back, and others keep their content.\<close>

locale file_store =
  fixes put :: "'s \<Rightarrow> 'p \<Rightarrow> 'c \<Rightarrow> 's res"
    and get :: "'s \<Rightarrow> 'p \<Rightarrow> 'c res"
  assumes get_put: "put s p c = Inr s' \<Longrightarrow> get s' p = Inr c"
    and get_put_other: "put s p c = Inr s' \<Longrightarrow> q \<noteq> p \<Longrightarrow> get s' q = get s q"
begin

lemma get_put_all_other:
  "fold_res (\<lambda>s (k, c). put s (f k) c) s items = Inr s' \<Longrightarrow> q \<notin> f ` set (map fst items) \<Longrightarrow> get s' q = get s q"
proof (induction items arbitrary: s)
  case (Cons x items)
  obtain k c where x: "x = (k, c)" by (cases x)
  from Cons.prems obtain s1 where "put s (f k) c = Inr s1" "fold_res (\<lambda>s (k, c). put s (f k) c) s1 items = Inr s'"
    by (auto simp: x rbind_Inr_iff)
  then show ?case using Cons.IH [of s1] Cons.prems(2) get_put_other [of s "f k" c s1 q] by (auto simp: x)
qed simp

lemma get_put_all:
  "fold_res (\<lambda>s (k, c). put s (f k) c) s items = Inr s' \<Longrightarrow> distinct (map fst items) \<Longrightarrow> inj_on f (set (map fst items))
    \<Longrightarrow> (k, c) \<in> set items \<Longrightarrow> get s' (f k) = Inr c"
proof (induction items arbitrary: s)
  case (Cons x items)
  obtain k1 c1 where x: "x = (k1, c1)" by (cases x)
  from Cons.prems(1) obtain s1 where s1: "put s (f k1) c1 = Inr s1" "fold_res (\<lambda>s (k, c). put s (f k) c) s1 items = Inr s'"
    by (auto simp: x rbind_Inr_iff)
  show ?case
  proof (cases "(k, c) \<in> set items")
    case True
    show ?thesis by (rule Cons.IH [OF s1(2)]) (use Cons.prems(2,3) True x in auto)
  next
    case False
    then have kc: "k = k1" "c = c1" using Cons.prems(4) x by auto
    have "f k \<notin> f ` set (map fst items)"
    proof
      assume "f k \<in> f ` set (map fst items)"
      then obtain j where j: "j \<in> set (map fst items)" "f k = f j" by blast
      have "k = j" by (rule inj_onD [OF Cons.prems(3) j(2)]) (use j(1) kc x in auto)
      then show False using j(1) Cons.prems(2) kc x by simp
    qed
    then show ?thesis using get_put_all_other [OF s1(2)] get_put [OF s1(1)] kc by metis
  qed
qed simp

end

interpretation files: file_store write_file read_file
proof
  fix fs p c fs' q
  assume w: "write_file fs p c = Inr fs'"
  then have p: "p \<noteq> []" "fs' = dict_set fs p (File c)" by (auto simp: write_file_def is_dir_def split: if_splits)
  then show "read_file fs' p = Inr c" by (simp add: read_file_def)
  assume "q \<noteq> p"
  then show "read_file fs' q = read_file fs q" using p by (simp add: read_file_def)
qed

subsection \<open>Directories\<close>

definition clear_way :: "fs \<Rightarrow> fpath \<Rightarrow> bool" where
  "clear_way fs p \<longleftrightarrow> (\<forall>q \<in> set (ancestors p). map_of fs q = None \<or> map_of fs q = Some Dir)"

lemma ancestors_props: "[] \<notin> set (ancestors p)" "p \<noteq> [] \<Longrightarrow> p \<in> set (ancestors p)"
  "q \<in> set (ancestors p) \<Longrightarrow> \<exists>r. p = q @ r"
proof -
  show "[] \<notin> set (ancestors p)" by (auto simp: ancestors_def take_eq_Nil)
  show "p \<in> set (ancestors p)" if "p \<noteq> []"
    using that by (auto simp: ancestors_def Suc_le_eq intro!: image_eqI [of _ _ "length p"])
  show "\<exists>r. p = q @ r" if "q \<in> set (ancestors p)" using that by (auto simp: ancestors_def) (metis append_take_drop_id)
qed

lemma make_dirs_ok:
  assumes "\<forall>q \<in> set ps. q \<noteq> [] \<and> (map_of fs q = None \<or> map_of fs q = Some Dir)"
  shows "\<exists>fs'. fold_res make_dir fs ps = Inr fs' \<and> (\<forall>q. map_of fs' q = (if q \<in> set ps then Some Dir else map_of fs q))"
  using assms
proof (induction ps arbitrary: fs)
  case (Cons p ps)
  have p: "p \<noteq> []" "map_of fs p = None \<or> map_of fs p = Some Dir" using Cons.prems by simp_all
  obtain fs1 where mk: "make_dir fs p = Inr fs1" and at: "\<forall>q. map_of fs1 q = (if q = p then Some Dir else map_of fs q)"
    using p by (cases "map_of fs p") (auto simp: make_dir_def is_dir_def fs_exists_def)
  from at have "\<forall>q \<in> set ps. q \<noteq> [] \<and> (map_of fs1 q = None \<or> map_of fs1 q = Some Dir)" using Cons.prems by simp
  from Cons.IH [OF this] obtain fs' where
    "fold_res make_dir fs1 ps = Inr fs'" "\<forall>q. map_of fs' q = (if q \<in> set ps then Some Dir else map_of fs1 q)" by blast
  then show ?case using mk at by simp
qed simp

lemma mkdir_new:
  assumes "clear_way fs p" and "\<not> fs_exists fs p"
  shows "\<exists>fs'. mkdir fs p exist_ok = Inr fs' \<and> (\<forall>q. map_of fs' q = (if q \<in> set (ancestors p) then Some Dir else map_of fs q))
    \<and> is_dir fs' p"
proof -
  have "\<forall>q \<in> set (ancestors p). q \<noteq> [] \<and> (map_of fs q = None \<or> map_of fs q = Some Dir)"
    using assms(1) ancestors_props(1) unfolding clear_way_def by metis
  from make_dirs_ok [OF this] obtain fs' where
    "fold_res make_dir fs (ancestors p) = Inr fs'" "\<forall>q. map_of fs' q = (if q \<in> set (ancestors p) then Some Dir else map_of fs q)" by blast
  moreover have "p \<in> set (ancestors p)" using assms(2) by (intro ancestors_props(2)) (auto simp: fs_exists_def)
  ultimately show ?thesis using assms(2) by (simp add: mkdir_def is_dir_def)
qed

lemma mkdir_dir: "is_dir fs p \<Longrightarrow> mkdir fs p exist_ok = (if exist_ok then Inr fs else Inl FileExistsError)"
  by (auto simp: mkdir_def is_dir_def fs_exists_def)

lemma mkdir_ok:
  assumes "clear_way fs p" and "exist_ok \<or> \<not> fs_exists fs p"
  shows "\<exists>fs'. mkdir fs p exist_ok = Inr fs' \<and> is_dir fs' p \<and> (\<forall>q. q \<notin> set (ancestors p) \<longrightarrow> map_of fs' q = map_of fs q)"
proof (cases "fs_exists fs p")
  case True
  have "is_dir fs p"
  proof (cases "p = []")
    case False
    then have "map_of fs p = None \<or> map_of fs p = Some Dir" using assms(1) ancestors_props(2) unfolding clear_way_def by blast
    then show ?thesis using True False by (auto simp: fs_exists_def is_dir_def)
  qed (simp add: is_dir_def)
  then show ?thesis using True assms(2) by (simp add: mkdir_dir)
next
  case False
  from mkdir_new [OF assms(1) False, of exist_ok] show ?thesis by metis
qed

lemma write_file_new:
  assumes "is_dir fs d" and "\<not> is_dir fs (d @ [n])"
  shows "write_file fs (d @ [n]) c = Inr (dict_set fs (d @ [n]) (File c))"
  using assms by (simp add: write_file_def) (auto simp: is_dir_def fs_exists_def)

lemma not_ancestor: "d @ [n] \<notin> set (ancestors d)"
  using ancestors_props(3) by fastforce

text \<open>A well-formed file system: what exists lies in a directory.\<close>

definition fs_wf :: "fs \<Rightarrow> bool" where
  "fs_wf fs \<longleftrightarrow> (\<forall>p. map_of fs p \<noteq> None \<longrightarrow> p \<noteq> [] \<and> is_dir fs (butlast p))"

lemma butlast_ancestor: "q \<in> set (ancestors p) \<Longrightarrow> butlast q = [] \<or> butlast q \<in> set (ancestors p)"
proof -
  assume "q \<in> set (ancestors p)"
  then obtain n where n: "1 \<le> n" "n \<le> length p" "q = take n p" by (auto simp: ancestors_def)
  then have "butlast q = take (n - 1) p" by (simp add: butlast_take)
  then show ?thesis using n by (cases "n = 1") (auto simp: ancestors_def)
qed

lemma fs_wf_mkdir:
  assumes wf: "fs_wf fs" and "clear_way fs p" and mk: "mkdir fs p exist_ok = Inr fs'"
  shows "fs_wf fs'"
proof (cases "fs_exists fs p")
  case True
  then show ?thesis using mk wf by (auto simp: mkdir_def split: if_splits)
next
  case False
  from mkdir_new [OF assms(2) this, of exist_ok] mk
  have at: "map_of fs' q = (if q \<in> set (ancestors p) then Some Dir else map_of fs q)" for q by auto
  show ?thesis unfolding fs_wf_def
  proof (intro allI impI conjI)
    fix q
    assume q: "map_of fs' q \<noteq> None"
    show "q \<noteq> []" using q wf ancestors_props(1) [of p] unfolding at fs_wf_def by (auto split: if_splits)
    show "is_dir fs' (butlast q)"
      using q wf butlast_ancestor [of q p] unfolding is_dir_def at fs_wf_def by (auto simp: is_dir_def split: if_splits)
  qed
qed

lemma fs_wf_write_file:
  assumes wf: "fs_wf fs" and w: "write_file fs p c = Inr fs'"
  shows "fs_wf fs'"
proof -
  have p: "\<not> is_dir fs p" "is_dir fs (butlast p)" "fs' = dict_set fs p (File c)"
    using w by (auto simp: write_file_def split: if_splits)
  have "is_dir fs' (butlast q)" if "map_of fs' q \<noteq> None" for q
  proof -
    have "is_dir fs (butlast q)" using that p wf by (auto simp: fs_wf_def split: if_splits)
    then show ?thesis using p(1,3) by (auto simp: is_dir_def)
  qed
  moreover have "q \<noteq> []" if "map_of fs' q \<noteq> None" for q
    using that p(1,3) wf by (auto simp: fs_wf_def is_dir_def split: if_splits)
  ultimately show ?thesis unfolding fs_wf_def by blast
qed

lemma fs_wf_nothing_below: "fs_wf fs \<Longrightarrow> \<not> fs_exists fs d \<Longrightarrow> map_of fs (d @ [n]) = None"
  unfolding fs_wf_def fs_exists_def is_dir_def by (metis butlast_snoc option.distinct(1))

subsection \<open>Names in the repository\<close>

definition plain :: "string \<Rightarrow> bool" where
  "plain n \<longleftrightarrow> n \<noteq> [] \<and> n \<noteq> ''.'' \<and> n \<noteq> ''..'' \<and> CHR ''/'' \<notin> set n"

lemma path_join_plain: "plain n \<Longrightarrow> path_join d n = d @ [n]"
  by (cases n) (auto simp: plain_def path_join_def path_parts_def split_on_none)

lemma write_all_ok:
  assumes "is_dir fs d" and "\<forall>n \<in> set (map fst items). plain n \<and> \<not> is_dir fs (d @ [n])"
  shows "\<exists>fs'. fold_res (\<lambda>fs (n, c). write_file fs (path_join d n) c) fs items = Inr fs' \<and> is_dir fs' d"
  using assms
proof (induction items arbitrary: fs)
  case (Cons x items)
  obtain n c where x: "x = (n, c)" by (cases x)
  let ?fs = "dict_set fs (d @ [n]) (File c)"
  have w: "write_file fs (path_join d n) c = Inr ?fs"
    using write_file_new [OF Cons.prems(1)] Cons.prems(2) x by (simp add: path_join_plain)
  have "is_dir ?fs d" using Cons.prems(1) by (auto simp: is_dir_def)
  moreover have "\<forall>n \<in> set (map fst items). plain n \<and> \<not> is_dir ?fs (d @ [n])" using Cons.prems(2) by (auto simp: is_dir_def)
  ultimately show ?case using Cons.IH [of ?fs] w x by simp
qed simp

lemma fold_texts:
  "fold_res (\<lambda>fs (n, s). write_file fs (path_join d n) (Text s)) fs items =
   fold_res (\<lambda>fs (n, c). write_file fs (path_join d n) c) fs (map (\<lambda>(n, s). (n, Text s)) items)"
  by (induction items arbitrary: fs) (auto simp: rbind_def split: sum.splits)

lemma read_texts:
  "\<forall>(n, s) \<in> set items. read_file fs (path_join d n) = Inr (Text s) \<Longrightarrow>
   map_res (\<lambda>n. rbind (rbind (read_file fs (path_join d n)) as_text) (\<lambda>s. Inr (n, s))) (map fst items) = Inr items"
  by (induction items) auto

subsection \<open>Creating and writing\<close>

abbreviation repo_metadata :: "string \<Rightarrow> string \<Rightarrow> content" where
  "repo_metadata s n \<equiv> JsonText (JObj [(''repository_name'', JStr n), (''schema'', JStr s)])"

lemma create_existing:
  assumes "fs_wf fs" and meta: "read_file fs (base @ [REPO_METADATA_FILE]) = Inr (repo_metadata s n)"
  shows "create_repository fs base s' n' =
    (if s' = s \<and> n' = n then Inr (fs, \<lparr>base_path = base, repo_schema = s, repository_name = n\<rparr>) else Inl ValueError)"
proof -
  have ex: "map_of fs (base @ [REPO_METADATA_FILE]) \<noteq> None" using meta by (auto simp: read_file_def split: option.splits)
  then have "is_dir fs base" using assms(1) by (metis butlast_snoc fs_wf_def)
  then have "repository_exists fs base" using ex by (auto simp: repository_exists_def fs_exists_def is_dir_def)
  then show ?thesis using meta by (auto simp: create_repository_def read_repository_metadata_def dict_get_def)
qed

lemma create_new:
  assumes "fs_wf fs" and "clear_way fs base" and "\<not> fs_exists fs base"
  shows "\<exists>fs'. create_repository fs base s n = Inr (fs', \<lparr>base_path = base, repo_schema = s, repository_name = n\<rparr>) \<and> fs_wf fs'
    \<and> read_file fs' (base @ [REPO_METADATA_FILE]) = Inr (repo_metadata s n)
    \<and> (\<forall>m. m \<noteq> REPO_METADATA_FILE \<longrightarrow> map_of fs' (base @ [m]) = None)"
proof -
  let ?meta = "base @ [REPO_METADATA_FILE]"
  have none: "map_of fs (base @ [m]) = None" for m by (rule fs_wf_nothing_below [OF assms(1,3)])
  from mkdir_new [OF assms(2,3), of False] obtain fs1 where
    1: "mkdir fs base False = Inr fs1" "\<forall>q. map_of fs1 q = (if q \<in> set (ancestors base) then Some Dir else map_of fs q)" "is_dir fs1 base" by blast
  have none1: "map_of fs1 (base @ [m]) = None" for m using 1(2) none not_ancestor by simp
  then have "\<not> is_dir fs1 ?meta" by (simp add: is_dir_def)
  from write_file_new [OF 1(3) this] have
    w: "write_file fs1 ?meta (repo_metadata s n) = Inr (dict_set fs1 ?meta (File (repo_metadata s n)))" .
  have "create_repository fs base s n =
      Inr (dict_set fs1 ?meta (File (repo_metadata s n)), \<lparr>base_path = base, repo_schema = s, repository_name = n\<rparr>)"
    using assms(3) 1(1) w by (simp add: create_repository_def repository_exists_def)
  then show ?thesis
    using fs_wf_write_file [OF fs_wf_mkdir [OF assms(1,2) 1(1)] w] files.get_put [OF w] none1 by simp
qed

subsection \<open>Properties\<close>

text \<open>
  Creating a repository where there is none writes its metadata; from then on creating it again
  with the same schema and name is a no-op that returns the same handle, and any other schema or name
  raises \<open>ValueError\<close>.  A directory that exists without metadata is refused with \<open>FileExistsError\<close>.
\<close>

theorem repository_reopened:
  assumes "fs_wf fs" and "clear_way fs base" and "\<not> fs_exists fs base"
  shows "(\<exists>fs' repo. create_repository fs base s n = Inr (fs', repo) \<and> fs_wf fs'
      \<and> (\<forall>s' n'. create_repository fs' base s' n' = (if s' = s \<and> n' = n then Inr (fs', repo) else Inl ValueError)))
    \<and> (\<forall>d. is_dir fs d \<and> \<not> fs_exists fs (d @ [REPO_METADATA_FILE]) \<longrightarrow> create_repository fs d s n = Inl FileExistsError)"
proof (intro conjI allI impI)
  from create_new [OF assms, of s n] create_existing
  show "\<exists>fs' repo. create_repository fs base s n = Inr (fs', repo) \<and> fs_wf fs'
      \<and> (\<forall>s' n'. create_repository fs' base s' n' = (if s' = s \<and> n' = n then Inr (fs', repo) else Inl ValueError))" by metis
next
  fix d
  assume "is_dir fs d \<and> \<not> fs_exists fs (d @ [REPO_METADATA_FILE])"
  then show "create_repository fs d s n = Inl FileExistsError" by (simp add: create_repository_def repository_exists_def mkdir_dir)
qed

theorem repository_reopened_witness:
  "(\<exists>fs' repo. create_repository [([''home''], Dir)] [''home'', ''results''] ''/provider-name'' ''path-hopping'' = Inr (fs', repo) \<and> fs_wf fs'
      \<and> (\<forall>s' n'. create_repository fs' [''home'', ''results''] s' n' =
           (if s' = ''/provider-name'' \<and> n' = ''path-hopping'' then Inr (fs', repo) else Inl ValueError)))
    \<and> create_repository [([''home''], Dir)] [''home''] ''/provider-name'' ''path-hopping'' = Inl FileExistsError"
proof -
  have "fs_wf [([''home''], Dir)]" "clear_way [([''home''], Dir)] [''home'', ''results'']" "\<not> fs_exists [([''home''], Dir)] [''home'', ''results'']"
    by (auto simp: fs_wf_def clear_way_def ancestors_def fs_exists_def is_dir_def)
  note r = repository_reopened [OF this, of "''/provider-name''" "''path-hopping''"]
  have "is_dir [([''home''], Dir)] [''home''] \<and> \<not> fs_exists [([''home''], Dir)] ([''home''] @ [REPO_METADATA_FILE])"
    by (simp add: is_dir_def fs_exists_def)
  with r show ?thesis by blast
qed

lemma results_written:
  assumes "build_output_path repo vars = Inr out" and "clear_way fs out" and "overwrite \<or> \<not> fs_exists fs out"
    and "dict_wf results" and "\<forall>n \<in> set (dict_keys results). plain n \<and> \<not> is_dir fs (out @ [n])"
  shows "\<exists>fs'. write_trial_results repo fs vars results overwrite = Inr fs' \<and> is_dir fs' out
    \<and> (\<forall>(n, s) \<in> set results. read_file fs' (path_join out n) = Inr (Text s))
    \<and> (\<forall>p. p \<notin> set (ancestors out) \<and> p \<notin> (\<lambda>n. out @ [n]) ` set (dict_keys results) \<longrightarrow> read_file fs' p = read_file fs p)"
proof -
  from mkdir_ok [OF assms(2,3)] obtain fs1 where
    1: "mkdir fs out overwrite = Inr fs1" "is_dir fs1 out" "\<forall>q. q \<notin> set (ancestors out) \<longrightarrow> map_of fs1 q = map_of fs q" by blast
  let ?items = "map (\<lambda>(n, s). (n, Text s)) results"
  have keys: "map fst ?items = dict_keys results" by (simp add: comp_def case_prod_unfold)
  have nd: "\<forall>n \<in> set (map fst ?items). plain n \<and> \<not> is_dir fs1 (out @ [n])"
    unfolding keys using assms(5) 1(3) not_ancestor [of out] by (simp add: is_dir_def)
  from write_all_ok [OF 1(2) this] obtain fs' where
    w: "fold_res (\<lambda>fs (n, c). write_file fs (path_join out n) c) fs1 ?items = Inr fs'" "is_dir fs' out" by blast
  have join: "path_join out n = out @ [n]" if "n \<in> set (dict_keys results)" for n
    by (rule path_join_plain) (use that assms(5) in blast)
  have inj: "inj_on (path_join out) (set (map fst ?items))" unfolding keys by (rule inj_onI) (simp add: join)
  have "distinct (map fst ?items)" unfolding keys using assms(4) by (simp only: dict_wf_def)
  from files.get_put_all [OF w(1) this inj] have "\<forall>(n, s) \<in> set results. read_file fs' (path_join out n) = Inr (Text s)" by force
  moreover have "read_file fs' p = read_file fs p" if "p \<notin> set (ancestors out)" "p \<notin> (\<lambda>n. out @ [n]) ` set (dict_keys results)" for p
  proof -
    have "p \<notin> path_join out ` set (map fst ?items)" unfolding keys using that(2) join by force
    from files.get_put_all_other [OF w(1) this] show ?thesis using 1(3) that(1) by (simp add: read_file_def)
  qed
  moreover have "write_trial_results repo fs vars results overwrite = Inr fs'"
    using assms(1) 1(1) w(1) by (simp add: write_trial_results_def fold_texts)
  ultimately show ?thesis using w(2) by blast
qed

text \<open>Any of the files can be read, in any order.\<close>

lemma read_some_results:
  assumes "build_output_path repo vars = Inr out" and "\<forall>(n, s) \<in> set results. read_file fs (path_join out n) = Inr (Text s)"
    and "distinct names" and "\<forall>n \<in> set names. map_of results n \<noteq> None"
  shows "read_trial_results repo fs vars names = Inr (map (\<lambda>n. (n, the (map_of results n))) names)"
proof -
  let ?items = "map (\<lambda>n. (n, the (map_of results n))) names"
  have "\<forall>(n, s) \<in> set ?items. read_file fs (path_join out n) = Inr (Text s)"
    using assms(2,4) by (fastforce dest: map_of_SomeD)
  from read_texts [OF this] show ?thesis
    using assms(1,3) by (simp add: read_trial_results_def comp_def dict_of_distinct)
qed

text \<open>
  The results of a trial that are written are read back unchanged; no file outside the written
  ones changes, and writing to the same place again without \<open>overwrite\<close> raises \<open>FileExistsError\<close>.
\<close>

theorem results_roundtrip:
  assumes "build_output_path repo vars = Inr out" and "clear_way fs out" and "overwrite \<or> \<not> fs_exists fs out"
    and "dict_wf results" and "\<forall>n \<in> set (dict_keys results). plain n \<and> \<not> is_dir fs (out @ [n])"
  shows "\<exists>fs'. write_trial_results repo fs vars results overwrite = Inr fs'
    \<and> read_trial_results repo fs' vars (dict_keys results) = Inr results
    \<and> (\<forall>p. p \<notin> set (ancestors out) \<and> p \<notin> (\<lambda>n. out @ [n]) ` set (dict_keys results) \<longrightarrow> read_file fs' p = read_file fs p)
    \<and> write_trial_results repo fs' vars results' False = Inl FileExistsError"
proof -
  from results_written [OF assms] obtain fs' where w: "write_trial_results repo fs vars results overwrite = Inr fs'" "is_dir fs' out"
      "\<forall>(n, s) \<in> set results. read_file fs' (path_join out n) = Inr (Text s)"
      "\<forall>p. p \<notin> set (ancestors out) \<and> p \<notin> (\<lambda>n. out @ [n]) ` set (dict_keys results) \<longrightarrow> read_file fs' p = read_file fs p" by blast
  then have "read_trial_results repo fs' vars (dict_keys results) = Inr results"
    using assms(1,4) by (simp add: read_trial_results_def read_texts dict_of_distinct dict_wf_def)
  moreover have "write_trial_results repo fs' vars results' False = Inl FileExistsError"
    using assms(1) mkdir_dir [OF w(2)] by (simp add: write_trial_results_def)
  ultimately show ?thesis using w by blast
qed

theorem results_roundtrip_witness:
  "\<exists>fs'. write_trial_results \<lparr>base_path = [''r''], repo_schema = ''/seed/'', repository_name = ''x''\<rparr> [([''r''], Dir)]
       [(''seed'', ''7'')] [(''a.txt'', ''one''), (''b.txt'', ''two'')] False = Inr fs'
    \<and> read_trial_results \<lparr>base_path = [''r''], repo_schema = ''/seed/'', repository_name = ''x''\<rparr> fs' [(''seed'', ''7'')]
        (dict_keys [(''a.txt'', ''one''), (''b.txt'', ''two'')]) = Inr [(''a.txt'', ''one''), (''b.txt'', ''two'')]
    \<and> (\<forall>p. p \<notin> set (ancestors [''r'', ''7'']) \<and> p \<notin> (\<lambda>n. [''r'', ''7''] @ [n]) ` set (dict_keys [(''a.txt'', ''one''), (''b.txt'', ''two'')]) \<longrightarrow>
         read_file fs' p = read_file [([''r''], Dir)] p)
    \<and> write_trial_results \<lparr>base_path = [''r''], repo_schema = ''/seed/'', repository_name = ''x''\<rparr> fs' [(''seed'', ''7'')] [] False = Inl FileExistsError"
proof (rule results_roundtrip)
  show "build_output_path \<lparr>base_path = [''r''], repo_schema = ''/seed/'', repository_name = ''x''\<rparr> [(''seed'', ''7'')] = Inr [''r'', ''7'']"
    by code_simp
  show "clear_way [([''r''], Dir)] [''r'', ''7'']" by code_simp
  show "False \<or> \<not> fs_exists [([''r''], Dir)] [''r'', ''7'']" by code_simp
  show "dict_wf [(''a.txt'', ''one''), (''b.txt'', ''two'')]" by (simp add: dict_wf_def)
  show "\<forall>n \<in> set (dict_keys [(''a.txt'', ''one''), (''b.txt'', ''two'')]). plain n \<and> \<not> is_dir [([''r''], Dir)] ([''r'', ''7''] @ [n])"
    by (simp add: plain_def is_dir_def)
qed

subsection \<open>Merging providers\<close>

definition trial_id :: "trial \<Rightarrow> param_value" where
  "trial_id t = the (map_of (tr_parameters t) ''id'')"

lemma trial_param_wf:
  assumes "trial_wf t"
  shows "trial_param ''id'' t = Inr (trial_id t)" "trial_param ''trial-name'' t = Inr (PStr (tr_name t))"
  using assms by (auto simp: trial_param_def trial_wf_def trial_id_def get_parameter_def)

lemma map_res_pure: "\<forall>x \<in> set xs. f x = Inr (g x) \<Longrightarrow> map_res f xs = Inr (map g xs)"
  by (induction xs) simp_all

lemma drop_names_ok:
  assumes "\<forall>t \<in> set (tp_trials tp). trial_wf t"
  shows "drop_names tp (map PStr ns) = Inr (tp\<lparr>tp_trials := filter (\<lambda>t. tr_name t \<notin> set ns) (tp_trials tp)\<rparr>)"
  using assms
proof (induction ns arbitrary: tp)
  case (Cons n ns)
  let ?tp = "tp\<lparr>tp_trials := filter (\<lambda>t. \<not> tr_name t = n) (tp_trials tp)\<rparr>"
  have "\<forall>t \<in> set (tp_trials tp). rbind (trial_param ''trial-name'' t) (\<lambda>v. Inr (v = PStr n)) = Inr (tr_name t = n)"
    using Cons.prems by (simp add: trial_param_wf)
  note rem = remove_all_filter [OF this]
  have "drop_names ?tp (map PStr ns) = Inr (?tp\<lparr>tp_trials := filter (\<lambda>t. tr_name t \<notin> set ns) (tp_trials ?tp)\<rparr>)"
    by (rule Cons.IH) (use Cons.prems in simp)
  then show ?case using rem by (simp add: drop_names_def conj_commute)
qed (simp add: drop_names_def)

lemma foldl_add_trial: "foldl add_trial tp ts = tp\<lparr>tp_trials := tp_trials tp @ ts\<rparr>"
  by (induction ts arbitrary: tp) (simp_all add: add_trial_def)

lemma inter_PStr: "remdups (filter (\<lambda>n. n \<in> set (map PStr ms)) (map PStr ns)) = map PStr (remdups (filter (\<lambda>n. n \<in> set ms) ns))"
proof -
  have "filter (\<lambda>n. n \<in> set (map PStr ms)) (map PStr ns) = map PStr (filter (\<lambda>n. n \<in> set ms) ns)"
    by (simp add: filter_map comp_def image_iff)
  moreover have "remdups (map PStr xs) = map PStr (remdups xs)" for xs by (induction xs) (auto simp: image_iff)
  ultimately show ?thesis by simp
qed

text \<open>
  C37.  What \<open>write_trial_provider\<close> does with a provider that is already stored.  Trials with equal ids are
  always refused and trials with equal names are refused without \<open>overwrite\<close>.  Otherwise, with
  \<open>merge_existing\<close> the stored trials whose names are not taken are kept behind the new ones, so that ids
  stay different; without it every stored trial is dropped, whatever its name.
\<close>

theorem merge_provider_exact:
  assumes "\<forall>t \<in> set (tp_trials existing) \<union> set (tp_trials tp). trial_wf t"
  shows "merge_provider existing tp overwrite merge_existing =
      (if trial_id ` set (tp_trials existing) \<inter> trial_id ` set (tp_trials tp) \<noteq> {} then Inl ValueError
       else if tr_name ` set (tp_trials existing) \<inter> tr_name ` set (tp_trials tp) \<noteq> {} \<and> \<not> overwrite then Inl ValueError
       else Inr (if merge_existing
          then tp\<lparr>tp_trials := tp_trials tp @ filter (\<lambda>t. tr_name t \<notin> tr_name ` set (tp_trials tp)) (tp_trials existing)\<rparr> else tp))
    \<and> (\<forall>tp'. merge_provider existing tp overwrite merge_existing = Inr tp' \<and> distinct (map trial_id (tp_trials existing))
         \<and> distinct (map trial_id (tp_trials tp)) \<longrightarrow> distinct (map trial_id (tp_trials tp')))"
proof -
  let ?old = "tp_trials existing" and ?new = "tp_trials tp"
  have ids: "map_res (trial_param ''id'') ?old = Inr (map trial_id ?old)" "map_res (trial_param ''id'') ?new = Inr (map trial_id ?new)"
    using assms by (auto intro!: map_res_pure simp: trial_param_wf)
  have names: "map_res (trial_param ''trial-name'') ?old = Inr (map PStr (map tr_name ?old))"
    "map_res (trial_param ''trial-name'') ?new = Inr (map PStr (map tr_name ?new))"
    using assms map_res_pure [of _ "trial_param ''trial-name''" "PStr \<circ> tr_name"] by (auto simp: trial_param_wf)
  have clash: "filter (\<lambda>i. i \<in> set (map trial_id ?new)) (map trial_id ?old) = [] \<longleftrightarrow> trial_id ` set ?old \<inter> trial_id ` set ?new = {}"
    by (auto simp: filter_empty_conv)
  let ?dup = "remdups (filter (\<lambda>n. n \<in> set (map tr_name ?new)) (map tr_name ?old))"
  have dup: "?dup = [] \<longleftrightarrow> tr_name ` set ?old \<inter> tr_name ` set ?new = {}" by (auto simp: filter_empty_conv)
  have kept: "filter (\<lambda>t. tr_name t \<notin> set ?dup) ?old = filter (\<lambda>t. tr_name t \<notin> tr_name ` set ?new) ?old"
    by (rule filter_cong) auto
  have drop: "drop_names existing (map PStr ?dup) = Inr (existing\<lparr>tp_trials := filter (\<lambda>t. tr_name t \<notin> tr_name ` set ?new) ?old\<rparr>)"
    using drop_names_ok [of existing ?dup] assms unfolding kept by blast
  have eq: "merge_provider existing tp overwrite merge_existing =
      (if trial_id ` set ?old \<inter> trial_id ` set ?new \<noteq> {} then Inl ValueError
       else if tr_name ` set ?old \<inter> tr_name ` set ?new \<noteq> {} \<and> \<not> overwrite then Inl ValueError
       else Inr (if merge_existing then tp\<lparr>tp_trials := ?new @ filter (\<lambda>t. tr_name t \<notin> tr_name ` set ?new) ?old\<rparr> else tp))"
    unfolding merge_provider_def ids names rbind_simps clash inter_PStr Let_def drop foldl_add_trial map_is_Nil_conv dup by simp
  moreover have "distinct (map trial_id (tp_trials tp'))"
    if "merge_provider existing tp overwrite merge_existing = Inr tp'" "distinct (map trial_id ?old)" "distinct (map trial_id ?new)" for tp'
  proof -
    have disj: "trial_id ` set ?old \<inter> trial_id ` set ?new = {}" using that(1) unfolding eq by (auto split: if_splits)
    have "distinct (map trial_id (?new @ filter P ?old))" for P
      unfolding map_append distinct_append using that(2,3) disj by (auto simp: distinct_map_filter)
    then show ?thesis using that(1,3) unfolding eq by (auto split: if_splits)
  qed
  ultimately show ?thesis by blast
qed

definition ex_trial :: "string \<Rightarrow> string \<Rightarrow> trial" where
  "ex_trial n i = \<lparr>tr_name = n, tr_parameters = [(''trial-name'', PStr n), (''id'', PStr i)]\<rparr>"

definition ex_provider :: "trial list \<Rightarrow> trial_provider" where
  "ex_provider ts = \<lparr>provider_name = ''p'', tp_trials = ts, tp_metadata = []\<rparr>"

lemma ex_trial_wf [simp]: "trial_wf (ex_trial n i)"
  by (simp add: ex_trial_def trial_wf_def dict_wf_def)

theorem merge_provider_exact_witness:
  "merge_provider (ex_provider [ex_trial ''a'' ''1'', ex_trial ''b'' ''2'']) (ex_provider [ex_trial ''b'' ''3'']) True True =
     Inr (ex_provider [ex_trial ''b'' ''3'', ex_trial ''a'' ''1''])
   \<and> merge_provider (ex_provider [ex_trial ''a'' ''1'', ex_trial ''b'' ''2'']) (ex_provider [ex_trial ''b'' ''3'']) True False =
     Inr (ex_provider [ex_trial ''b'' ''3''])"
proof -
  have "\<forall>t \<in> set (tp_trials (ex_provider [ex_trial ''a'' ''1'', ex_trial ''b'' ''2''])) \<union> set (tp_trials (ex_provider [ex_trial ''b'' ''3''])). trial_wf t"
    by (simp add: ex_provider_def)
  note m = merge_provider_exact [OF this, THEN conjunct1]
  show ?thesis unfolding m by (simp add: ex_provider_def ex_trial_def trial_id_def)
qed

lemma provider_stored:
  assumes "repo_schema repo = ''/provider-name''" and "plain n" and "fs_wf fs" and "clear_way fs (base_path repo @ [n])"
    and "\<not> is_dir fs (base_path repo @ [n, ''trial-provider.p''])"
  shows "(read_trial_provider repo fs n = Inl FileNotFoundError \<longrightarrow>
       (\<exists>fs'. write_trial_provider repo fs [(''provider-name'', n)] tp overwrite merge_existing = Inr (fs', tp)
          \<and> fs_wf fs'
          \<and> (\<forall>q. q \<notin> set (ancestors (base_path repo @ [n])) \<and> q \<noteq> base_path repo @ [n, ''trial-provider.p''] \<longrightarrow> read_file fs' q = read_file fs q) \<and> read_trial_provider repo fs' n = Inr tp))
    \<and> (\<forall>existing tp'. read_trial_provider repo fs n = Inr existing \<and> merge_provider existing tp overwrite merge_existing = Inr tp' \<longrightarrow>
       (\<exists>fs'. write_trial_provider repo fs [(''provider-name'', n)] tp overwrite merge_existing = Inr (fs', tp')
          \<and> fs_wf fs'
          \<and> (\<forall>q. q \<notin> set (ancestors (base_path repo @ [n])) \<and> q \<noteq> base_path repo @ [n, ''trial-provider.p''] \<longrightarrow> read_file fs' q = read_file fs q) \<and> read_trial_provider repo fs' n = Inr tp'))"
proof -
  let ?d = "base_path repo @ [n]" and ?f = "base_path repo @ [n, ''trial-provider.p'']"
  have "split_on CHR ''/'' ''/provider-name'' = [[], ''provider-name'']" by code_simp
  then have out: "build_output_path repo [(''provider-name'', n)] = Inr ?d"
    using assms(1,2) by (simp add: build_output_path_def dict_get_def path_join_plain)
  from mkdir_ok [OF assms(4), of True] obtain fs1 where
    1: "mkdir fs ?d True = Inr fs1" "is_dir fs1 ?d" "\<forall>q. q \<notin> set (ancestors ?d) \<longrightarrow> map_of fs1 q = map_of fs q" by blast
  have wf1: "fs_wf fs1" by (rule fs_wf_mkdir [OF assms(3,4) 1(1)])
  have same: "map_of fs1 ?f = map_of fs ?f" using 1(3) not_ancestor [of ?d "''trial-provider.p''"] by simp
  have "\<not> is_dir fs1 (?d @ [''trial-provider.p''])" using assms(5) same by (simp add: is_dir_def)
  from write_file_new [OF 1(2) this] have w: "write_file fs1 ?f c = Inr (dict_set fs1 ?f (File c))" for c by simp
  have rd: "read_trial_provider repo fs n = rbind (read_file fs1 ?f) as_provider"
    using assms(2) same by (simp add: read_trial_provider_def path_join_plain read_file_def)
  have stored: "read_trial_provider repo (dict_set fs1 ?f (File (Pickled x))) n = Inr x" for x
    using assms(2) files.get_put [OF w] by (simp add: read_trial_provider_def path_join_plain)
  have frame: "read_file (dict_set fs1 ?f (File c)) q = read_file fs q" if "q \<notin> set (ancestors ?d)" "q \<noteq> ?f" for q c
    using files.get_put_other [OF w that(2), of c] 1(3) that(1) by (simp add: read_file_def)
  have wf2: "fs_wf (dict_set fs1 ?f (File c))" for c by (rule fs_wf_write_file [OF wf1 w])
  have step: "write_trial_provider repo fs [(''provider-name'', n)] tp overwrite merge_existing =
      rbind (if fs_exists fs1 ?f then rbind (rbind (read_file fs1 ?f) as_provider) (\<lambda>existing. merge_provider existing tp overwrite merge_existing)
             else Inr tp) (\<lambda>x. Inr (dict_set fs1 ?f (File (Pickled x)), x))"
    using out 1(1) w by (simp add: write_trial_provider_def Let_def)
  show ?thesis
  proof (intro conjI allI impI, goal_cases)
    case 1
    then have "\<not> fs_exists fs1 ?f" unfolding rd
      by (auto simp: fs_exists_def read_file_def rbind_def elim!: as_provider.elims split: option.splits fs_node.splits sum.splits)
    then show ?case using step stored wf2 frame by simp
  next
    case (2 existing tp')
    then have "fs_exists fs1 ?f" unfolding rd by (auto simp: fs_exists_def read_file_def split: option.splits)
    then show ?case using 2 step stored wf2 frame unfolding rd by simp
  qed
qed


text \<open>
  A provider that is written under its name is what is read back under that name: as it is when
  nothing was stored, and merged with the stored one otherwise.
\<close>

theorem provider_roundtrip:
  assumes "repo_schema repo = ''/provider-name''" and "plain n" and "fs_wf fs" and "clear_way fs (base_path repo @ [n])"
    and "\<not> is_dir fs (base_path repo @ [n, ''trial-provider.p''])"
  shows "(read_trial_provider repo fs n = Inl FileNotFoundError \<longrightarrow>
       (\<exists>fs'. write_trial_provider repo fs [(''provider-name'', n)] tp overwrite merge_existing = Inr (fs', tp)
          \<and> fs_wf fs' \<and> read_trial_provider repo fs' n = Inr tp))
    \<and> (\<forall>existing tp'. read_trial_provider repo fs n = Inr existing \<and> merge_provider existing tp overwrite merge_existing = Inr tp' \<longrightarrow>
       (\<exists>fs'. write_trial_provider repo fs [(''provider-name'', n)] tp overwrite merge_existing = Inr (fs', tp')
          \<and> fs_wf fs' \<and> read_trial_provider repo fs' n = Inr tp'))"
  using provider_stored [OF assms, of tp overwrite merge_existing] by blast
theorem provider_roundtrip_witness:
  "\<exists>fs'. write_trial_provider \<lparr>base_path = [''r''], repo_schema = ''/provider-name'', repository_name = ''x''\<rparr> [([''r''], Dir)]
       [(''provider-name'', ''p'')] (ex_provider [ex_trial ''a'' ''1'']) True False = Inr (fs', ex_provider [ex_trial ''a'' ''1''])
     \<and> fs_wf fs' \<and> read_trial_provider \<lparr>base_path = [''r''], repo_schema = ''/provider-name'', repository_name = ''x''\<rparr> fs' ''p'' =
         Inr (ex_provider [ex_trial ''a'' ''1''])"
proof -
  let ?r = "\<lparr>base_path = [''r''], repo_schema = ''/provider-name'', repository_name = ''x''\<rparr>"
  have "read_trial_provider ?r [([''r''], Dir)] ''p'' = Inl FileNotFoundError" by code_simp
  moreover have "clear_way [([''r''], Dir)] (base_path ?r @ [''p''])" by code_simp
  moreover have "fs_wf [([''r''], Dir)]" by (simp add: fs_wf_def is_dir_def)
  ultimately show ?thesis
    using provider_roundtrip [of ?r "''p''" "[([''r''], Dir)]" "ex_provider [ex_trial ''a'' ''1'']" True False]
    by (simp add: plain_def is_dir_def)
qed

lemma ancestors_snoc: "ancestors (p @ [n]) = ancestors p @ [p @ [n]]"
  by (auto simp: ancestors_def)

lemma dir_ancestors: "fs_wf fs \<Longrightarrow> is_dir fs p \<Longrightarrow> \<forall>q \<in> set (ancestors p). map_of fs q = Some Dir"
proof (induction p rule: rev_induct)
  case (snoc n p)
  have here: "map_of fs (p @ [n]) = Some Dir" using snoc.prems(2) by (simp add: is_dir_def)
  then have "is_dir fs p" using snoc.prems(1) by (metis butlast_snoc fs_wf_def option.distinct(1))
  from snoc.IH [OF snoc.prems(1) this] here show ?case by (auto simp: ancestors_snoc)
qed (simp add: ancestors_def)

lemma clear_way_below:
  assumes "fs_wf fs" and "is_dir fs p" and "map_of fs (p @ [n]) = None"
  shows "clear_way fs (p @ [n])"
  using dir_ancestors [OF assms(1,2)] assms(3) by (auto simp: clear_way_def ancestors_snoc)

subsection \<open>Storing in a new repository\<close>

text \<open>What the programs rely on: after the provider is written, the repository can be opened again and holds it.\<close>

definition stores :: "fs \<Rightarrow> repository \<Rightarrow> fpath \<Rightarrow> string \<Rightarrow> trial_provider \<Rightarrow> bool" where
  "stores fs1 repo base name tp \<longleftrightarrow> (\<exists>fs'. write_trial_provider repo fs1 [(''provider-name'', provider_name tp)] tp True False = Inr (fs', tp)
     \<and> create_repository fs' base ''/provider-name'' name = Inr (fs', repo) \<and> read_trial_provider repo fs' (provider_name tp) = Inr tp)"

lemma fresh_repository_stores:
  assumes "fs_wf fs" and "clear_way fs base" and "\<not> fs_exists fs base" and "plain n" and "n \<noteq> REPO_METADATA_FILE"
  shows "\<exists>fs1 repo. create_repository fs base ''/provider-name'' name = Inr (fs1, repo) \<and> (\<forall>tp. provider_name tp = n \<longrightarrow> stores fs1 repo base name tp)"
proof -
  let ?schema = "''/provider-name''"
  let ?repo = "\<lparr>base_path = base, repo_schema = ?schema, repository_name = name\<rparr>" and ?d = "base @ [n]"
  from create_new [OF assms(1-3), of ?schema name] obtain fs1 where
    1: "create_repository fs base ?schema name = Inr (fs1, ?repo)" "fs_wf fs1"
      "read_file fs1 (base @ [REPO_METADATA_FILE]) = Inr (repo_metadata ?schema name)"
      "\<forall>m. m \<noteq> REPO_METADATA_FILE \<longrightarrow> map_of fs1 (base @ [m]) = None" by blast
  have none: "map_of fs1 ?d = None" using 1(4) assms(5) by simp
  have dir: "is_dir fs1 base" using 1(2,3) unfolding fs_wf_def by (metis butlast_snoc read_file_def option.simps(4) sum.simps(4) append_is_Nil_conv list.distinct(1))
  have absent: "map_of fs1 (base @ [n, ''trial-provider.p'']) = None"
    using fs_wf_nothing_below [OF 1(2), of ?d "''trial-provider.p''"] none by (simp add: fs_exists_def)
  have way: "clear_way fs1 (base_path ?repo @ [n])" using clear_way_below [OF 1(2) dir] none by simp
  have rd: "read_trial_provider ?repo fs1 n = Inl FileNotFoundError"
    using absent assms(4) by (simp add: read_trial_provider_def path_join_plain plain_def read_file_def)
  have "stores fs1 ?repo base name tp" if tp: "provider_name tp = n" for tp
  proof -
    have "repo_schema ?repo = ''/provider-name''" "\<not> is_dir fs1 (base_path ?repo @ [n, ''trial-provider.p''])"
      using absent by (simp_all add: is_dir_def)
    from provider_stored [OF this(1) assms(4) 1(2) way this(2), of tp True False] rd tp obtain fs' where
      2: "write_trial_provider ?repo fs1 [(''provider-name'', n)] tp True False = Inr (fs', tp)" "fs_wf fs'"
        "\<forall>q. q \<notin> set (ancestors (base_path ?repo @ [n])) \<and> q \<noteq> base_path ?repo @ [n, ''trial-provider.p''] \<longrightarrow> read_file fs' q = read_file fs1 q"
        "read_trial_provider ?repo fs' n = Inr tp" by blast
    have "base @ [REPO_METADATA_FILE] \<notin> set (ancestors ?d)"
      using not_ancestor [of base] assms(5) by (simp add: ancestors_snoc)
    then have "read_file fs' (base @ [REPO_METADATA_FILE]) = Inr (repo_metadata ?schema name)" using 2(3) 1(3) by simp
    from create_existing [OF 2(2) this] 2(1,4) tp show ?thesis by (auto simp: stores_def)
  qed
  then show ?thesis using 1(1) by blast
qed

end
