(* ===== verification/Sim_Main.thy ===== *)
theory Sim_Main
  imports Sim_Trials Results_Repository
begin

section \<open>The simulation program\<close>

text \<open>
  Models \<open>main\<close> of \<open>rest_client/path_hopping_simulator.py\<close>: open the repository, make the trials of a sweep,
  conduct each of them, and store the provider with the results.
\<close>

definition sim_base :: fpath where
  "sim_base = [''home'', ''cpsc-net-user'', ''results-repositories'', ''path-hopping-simulations'']"

definition simulation_main ::
    "'r np_random \<Rightarrow> (int \<Rightarrow> 'r res) \<Rightarrow> (nx_graph \<Rightarrow> node \<Rightarrow> node \<Rightarrow> node list list) \<Rightarrow> 'q randint \<Rightarrow> fs \<Rightarrow> 'q \<Rightarrow> (fs \<times> 'q) res" where
  "simulation_main np np_seed node_disjoint_paths randint fs q =
     rbind (create_repository fs sim_base ''/provider-name'' ''path-hopping-simulations'') (\<lambda>(fs1, results_repository).
     rbind (varying_number_of_paths_slow_hopping randint q) (\<lambda>(tp, q').
     rbind (map_res (conduct_trial np np_seed node_disjoint_paths) (tp_trials tp)) (\<lambda>ts.
     rbind (write_trial_provider results_repository fs1 [(''provider-name'', provider_name tp)] (tp\<lparr>tp_trials := ts\<rparr>) True False) (\<lambda>(fs2, _).
     Inr (fs2, q')))))"

lemma map_res_all:
  "\<forall>x \<in> set xs. \<exists>y. f x = Inr y \<and> R x y \<Longrightarrow> \<exists>ys. map_res f xs = Inr ys \<and> list_all2 R xs ys"
proof (induction xs)
  case (Cons x xs)
  then obtain y ys where "f x = Inr y" "R x y" "map_res f xs = Inr ys" "list_all2 R xs ys" by auto
  then show ?case by (intro exI [of _ "y # ys"]) simp
qed simp

subsection \<open>Property\<close>



end
