(* ===== verification/Http.thy ===== *)
theory Http
  imports Json Strings
begin

section \<open>Requests to a controller\<close>

text \<open>
  The sources talk to their controller with the \<open>requests\<close> package.  The controller is not part of
  the program: it is a parameter that answers a request, depending on the requests it was sent
  before.  A method that sends requests is a function on a state that ends in a result and a new state, so
  that what was sent (or changed) before an exception stays sent; the state of a method without state
  of its own is the list of the requests sent so far.
\<close>

named_theorems io_simps \<open>equations that run a computation with requests\<close>

datatype http_method = GET | POST | DELETE

record http_request =
  rq_method :: http_method
  rq_url :: string
  rq_body :: "json option"

text \<open>An answer has a status and a body, which need not be JSON text.  \<open>requests\<close> raises
  \<open>ConnectionError\<close>, an \<open>IOError\<close>, when there is no answer.\<close>

datatype http_reply = NoConnection | Reply (status_code: int) (reply_body: "json option")

type_synonym server = "http_request list \<Rightarrow> http_request \<Rightarrow> http_reply"

subsection \<open>Computations with a state\<close>

text \<open>A computation ends with a result or with what stopped it, which is an exception of the program in all
  components but the traffic generator.\<close>

type_synonym ('s, 'e, 'a) stop_prog = "'s \<Rightarrow> ('e + 'a) \<times> 's"
type_synonym ('s, 'a) prog = "('s, py_error, 'a) stop_prog"
type_synonym 'a io = "(http_request list, 'a) prog"

definition ret :: "'a \<Rightarrow> ('s, 'e, 'a) stop_prog" where
  "ret x = (\<lambda>s. (Inr x, s))"

definition of_res :: "'e + 'a \<Rightarrow> ('s, 'e, 'a) stop_prog" where
  "of_res r = (\<lambda>s. (r, s))"

definition andthen :: "('s, 'e, 'a) stop_prog \<Rightarrow> ('a \<Rightarrow> ('s, 'e, 'b) stop_prog) \<Rightarrow> ('s, 'e, 'b) stop_prog" where
  "andthen m f = (\<lambda>s. case m s of (Inl e, s') \<Rightarrow> (Inl e, s') | (Inr x, s') \<Rightarrow> f x s')"

fun each :: "('a \<Rightarrow> ('s, 'e, unit) stop_prog) \<Rightarrow> 'a list \<Rightarrow> ('s, 'e, unit) stop_prog" where
  "each f [] = ret ()"
| "each f (x # xs) = andthen (f x) (\<lambda>_. each f xs)"

fun gather :: "('a \<Rightarrow> ('s, 'e, 'b) stop_prog) \<Rightarrow> 'a list \<Rightarrow> ('s, 'e, 'b list) stop_prog" where
  "gather f [] = ret []"
| "gather f (x # xs) = andthen (f x) (\<lambda>y. andthen (gather f xs) (\<lambda>ys. ret (y # ys)))"

fun fold_prog :: "('acc \<Rightarrow> 'a \<Rightarrow> ('s, 'e, 'acc) stop_prog) \<Rightarrow> 'acc \<Rightarrow> 'a list \<Rightarrow> ('s, 'e, 'acc) stop_prog" where
  "fold_prog f acc [] = ret acc"
| "fold_prog f acc (x # xs) = andthen (f acc x) (\<lambda>acc'. fold_prog f acc' xs)"

text \<open>A computation of one part of a state, in the whole.\<close>

definition on_snd :: "('t, 'a) prog \<Rightarrow> ('s \<times> 't, 'a) prog" where
  "on_snd m = (\<lambda>(s, t). case m t of (r, t') \<Rightarrow> (r, (s, t')))"

definition modify_fst :: "('s \<Rightarrow> 's) \<Rightarrow> ('s \<times> 't, unit) prog" where
  "modify_fst f = (\<lambda>(s, t). (Inr (), (f s, t)))"

lemma ret_run [simp, io_simps]:
  "ret x s = (r, t) \<longleftrightarrow> Inr x = r \<and> s = t" "fst (ret x s) = Inr x" "snd (ret x s) = s"
  "(case ret x s of (r, t) \<Rightarrow> f r t) = f (Inr x) s"
  by (simp_all add: ret_def)

lemma of_res_run [simp, io_simps]:
  "of_res q s = (r, t) \<longleftrightarrow> q = r \<and> s = t" "fst (of_res q s) = q" "snd (of_res q s) = s"
  "(case of_res q s of (r, t) \<Rightarrow> f r t) = f q s"
  by (simp_all add: of_res_def)

lemma of_res_Inr [simp, io_simps]: "of_res (Inr x) = ret x"
  by (simp add: of_res_def ret_def)

lemma andthen_pure [simp, io_simps]:
  "andthen (ret x) f = f x"
  "andthen (of_res (Inl e)) f = of_res (Inl e)"
  by (rule ext, simp add: andthen_def of_res_def)+

lemma modify_fst_run [simp, io_simps]: "modify_fst f (s, t) = (Inr (), (f s, t))"
  by (simp add: modify_fst_def)

lemma on_snd_run [io_simps]: "on_snd m (s, t) = (fst (m t), (s, snd (m t)))"
  by (simp add: on_snd_def split: prod.splits)

lemma andthen_run [io_simps]:
  "m s = (Inr x, s') \<Longrightarrow> andthen m f s = f x s'"
  "m s = (Inl e, s') \<Longrightarrow> andthen m f s = (Inl e, s')"
  by (simp_all add: andthen_def)

lemma andthen_assoc: "andthen (andthen m f) g = andthen m (\<lambda>x. andthen (f x) g)"
  by (rule ext) (simp add: andthen_def split: prod.splits sum.splits)

lemma andthen_InrE:
  assumes "andthen m f s = (Inr y, s'')"
  obtains x s' where "m s = (Inr x, s')" and "f x s' = (Inr y, s'')"
  using assms by (auto simp: andthen_def split: prod.splits sum.splits)

lemma andthen_cases:
  obtains (raised) e s' where "m s = (Inl e, s')" "andthen m f s = (Inl e, s')"
    | (went) x s' where "m s = (Inr x, s')" "andthen m f s = f x s'"
  by (cases "m s", cases "fst (m s)") (auto simp: andthen_def)

lemma each_append: "each f (xs @ ys) = andthen (each f xs) (\<lambda>_. each f ys)"
  by (induction xs) (simp_all add: andthen_assoc)

lemma gather_length: "gather f xs s = (Inr ys, s') \<Longrightarrow> length ys = length xs"
  by (induction xs arbitrary: ys s) (auto elim!: andthen_InrE)

text \<open>What every step of a loop does, the loop does to the end.\<close>

lemma each_run:
  assumes "\<And>x s. x \<in> set xs \<Longrightarrow> f x s = (Inr (), g x s)"
  shows "each f xs s = (Inr (), fold g xs s)"
  using assms by (induction xs arbitrary: s) (simp_all add: andthen_run(1))

text \<open>\<open>try\<close> with a handler for every exception, and \<open>try\<close> with a \<open>finally\<close> that runs whatever happened: an
  exception of its own replaces the one that was raised.\<close>

definition raise :: "py_error \<Rightarrow> ('s, 'a) prog" where
  "raise e = of_res (Inl e)"

definition try_except :: "('s, 'a) prog \<Rightarrow> (py_error \<Rightarrow> ('s, 'a) prog) \<Rightarrow> ('s, 'a) prog" where
  "try_except m h = (\<lambda>s. case m s of (Inl e, s') \<Rightarrow> h e s' | (Inr x, s') \<Rightarrow> (Inr x, s'))"

definition try_finally :: "('s, 'a) prog \<Rightarrow> ('s, unit) prog \<Rightarrow> ('s, 'a) prog" where
  "try_finally m f = (\<lambda>s. case m s of (r, s') \<Rightarrow> andthen f (\<lambda>_. of_res r) s')"

lemma try_except_run [io_simps]:
  "m s = (Inr x, s') \<Longrightarrow> try_except m h s = (Inr x, s')"
  "m s = (Inl e, s') \<Longrightarrow> try_except m h s = h e s'"
  by (simp_all add: try_except_def)

lemma try_finally_run [io_simps]: "m s = (r, s') \<Longrightarrow> try_finally m f s = andthen f (\<lambda>_. of_res r) s'"
  by (simp add: try_finally_def)

text \<open>
  What holds after a run, however it ends: started where \<open>P\<close> holds, the run ends normally in a state and
  with a result that satisfy \<open>Q\<close>, or is stopped by something and in a state that satisfy \<open>E\<close>.
\<close>

definition triple_stop :: "('s \<Rightarrow> bool) \<Rightarrow> ('s, 'e, 'a) stop_prog \<Rightarrow> ('a \<Rightarrow> 's \<Rightarrow> bool) \<Rightarrow> ('e \<Rightarrow> 's \<Rightarrow> bool) \<Rightarrow> bool" where
  "triple_stop P m Q E \<longleftrightarrow> (\<forall>s. P s \<longrightarrow> (case m s of (Inr x, s') \<Rightarrow> Q x s' | (Inl e, s') \<Rightarrow> E e s'))"

lemma triple_stopI:
  assumes "\<And>s x s'. P s \<Longrightarrow> m s = (Inr x, s') \<Longrightarrow> Q x s'" and "\<And>s e s'. P s \<Longrightarrow> m s = (Inl e, s') \<Longrightarrow> E e s'"
  shows "triple_stop P m Q E"
  using assms by (auto simp: triple_stop_def split: prod.splits sum.splits)

lemma triple_stopD:
  assumes "triple_stop P m Q E" and "P s"
  shows "m s = (Inr x, s') \<Longrightarrow> Q x s'" and "m s = (Inl e, s') \<Longrightarrow> E e s'"
  using assms by (force simp: triple_stop_def)+

lemma triple_stop_cons:
  assumes "triple_stop P' m Q' E'" and "\<And>s. P s \<Longrightarrow> P' s" and "\<And>x s. Q' x s \<Longrightarrow> Q x s" and "\<And>e s. E' e s \<Longrightarrow> E e s"
  shows "triple_stop P m Q E"
  using assms by (intro triple_stopI) (blast dest: triple_stopD)+

lemma triple_stop_ret: "(\<And>s. P s \<Longrightarrow> Q x s) \<Longrightarrow> triple_stop P (ret x) Q E"
  by (simp add: triple_stop_def)

lemma triple_stop_andthen:
  assumes "triple_stop P m R E" and "\<And>x. triple_stop (R x) (f x) Q E"
  shows "triple_stop P (andthen m f) Q E"
proof (rule triple_stopI)
  fix s y s' assume P: "P s" and run: "andthen m f s = (Inr y, s')"
  from run show "Q y s'" by (elim andthen_InrE) (metis triple_stopD(1) [OF assms(1) P] triple_stopD(1) [OF assms(2)])
next
  fix s e s' assume P: "P s" and run: "andthen m f s = (Inl e, s')"
  show "E e s'"
  proof (cases rule: andthen_cases [of m s f])
    case (raised e' t)
    then show ?thesis using run triple_stopD(2) [OF assms(1) P] by simp
  next
    case (went x t)
    then show ?thesis using run triple_stopD(1) [OF assms(1) P] triple_stopD(2) [OF assms(2)] by metis
  qed
qed

lemma triple_stop_each:
  assumes "\<And>x xs. triple_stop (J (x # xs)) (f x) (\<lambda>_. J xs) E"
  shows "triple_stop (J xs) (each f xs) (\<lambda>_. J []) E"
proof (induction xs)
  case (Cons x xs)
  show ?case by (simp, rule triple_stop_andthen [OF assms Cons])
qed (simp add: triple_stop_ret)

lemma triple_stop_fold_prog:
  assumes "\<And>x xs acc. triple_stop (J (x # xs) acc) (f acc x) (J xs) E"
  shows "triple_stop (J xs acc) (fold_prog f acc xs) (J []) E"
proof (induction xs arbitrary: acc)
  case (Cons x xs)
  show ?case by (simp, rule triple_stop_andthen [OF assms Cons])
qed (simp add: triple_stop_ret)

text \<open>The same where it does not matter what stopped the run.\<close>

definition triple :: "('s \<Rightarrow> bool) \<Rightarrow> ('s, 'e, 'a) stop_prog \<Rightarrow> ('a \<Rightarrow> 's \<Rightarrow> bool) \<Rightarrow> ('s \<Rightarrow> bool) \<Rightarrow> bool" where
  "triple P m Q E \<longleftrightarrow> (\<forall>s. P s \<longrightarrow> (case m s of (Inr x, s') \<Rightarrow> Q x s' | (Inl _, s') \<Rightarrow> E s'))"

lemma triple_iff: "triple P m Q E \<longleftrightarrow> triple_stop P m Q (\<lambda>_. E)"
  by (simp add: triple_def triple_stop_def)

lemmas tripleI = triple_stopI [where E = "\<lambda>_. E" for E, folded triple_iff]
lemmas tripleD = triple_stopD [where E = "\<lambda>_. E" for E, folded triple_iff]
lemmas triple_cons = triple_stop_cons [where E = "\<lambda>_. E" and E' = "\<lambda>_. E'" for E E', folded triple_iff]
lemmas triple_ret = triple_stop_ret [where E = "\<lambda>_. E" for E, folded triple_iff]
lemmas triple_andthen = triple_stop_andthen [where E = "\<lambda>_. E" for E, folded triple_iff]
lemmas triple_each = triple_stop_each [where E = "\<lambda>_. E" for E, folded triple_iff]
lemmas triple_fold_prog = triple_stop_fold_prog [where E = "\<lambda>_. E" for E, folded triple_iff]

lemma triple_of_res: "(\<And>s x. P s \<Longrightarrow> r = Inr x \<Longrightarrow> Q x s) \<Longrightarrow> (\<And>s. P s \<Longrightarrow> E s) \<Longrightarrow> triple P (of_res r) Q E"
  by (simp add: triple_def split: sum.splits)

lemma triple_raise: "(\<And>s. P s \<Longrightarrow> E s) \<Longrightarrow> triple P (raise e) Q E"
  by (simp add: triple_def raise_def)

lemma triple_try_except:
  assumes "triple P m Q E'" and "\<And>e. triple E' (h e) Q E"
  shows "triple P (try_except m h) Q E"
  unfolding triple_def
proof (intro allI impI)
  fix s assume "P s"
  show "case try_except m h s of (Inr x, s') \<Rightarrow> Q x s' | (Inl _, s') \<Rightarrow> E s'"
  proof (cases "m s")
    case (Pair r s')
    show ?thesis
    proof (cases r)
      case (Inl e)
      then have "E' s'" using Pair \<open>P s\<close> assms(1) by (auto dest: tripleD)
      then show ?thesis using assms(2) [of e] Pair Inl by (simp add: try_except_run(2) triple_def)
    next
      case (Inr x)
      then show ?thesis using Pair \<open>P s\<close> assms(1) by (auto simp: try_except_run(1) dest: tripleD)
    qed
  qed
qed

lemma triple_try_finally:
  assumes "triple P m (\<lambda>_. R) R" and "triple R f (\<lambda>_. Q) Q"
  shows "triple P (try_finally m f) (\<lambda>_. Q) Q"
  unfolding triple_def
proof (intro allI impI)
  fix s assume "P s"
  obtain r s' where run: "m s = (r, s')" by (cases "m s")
  then have "R s'" using assms(1) \<open>P s\<close> by (cases r) (auto dest: tripleD)
  have fin: "triple R (andthen f (\<lambda>_. of_res r)) (\<lambda>_. Q) Q"
    by (rule triple_andthen [OF assms(2)]) (auto intro: triple_of_res)
  from run have "try_finally m f s = andthen f (\<lambda>_. of_res r) s'" by (simp add: try_finally_run)
  then show "case try_finally m f s of (Inr x, s') \<Rightarrow> Q s' | (Inl _, s') \<Rightarrow> Q s'"
    using fin \<open>R s'\<close> by (simp add: triple_def)
qed

lemma on_snd_outcome: "on_snd m s = (r, s') \<Longrightarrow> m (snd s) = (r, snd s') \<and> fst s' = fst s"
  by (cases s) (auto simp: on_snd_def split: prod.splits)

lemma triple_on_snd:
  assumes "\<And>a. triple (\<lambda>t. P (a, t)) m (\<lambda>x t. Q x (a, t)) (\<lambda>t. E (a, t))"
  shows "triple P (on_snd m) Q E"
proof (rule tripleI)
  fix s x s' assume "P s" "on_snd m s = (Inr x, s')"
  then show "Q x s'" using tripleD(1) [OF assms [of "fst s"], of "snd s" x "snd s'"] on_snd_outcome [of m s "Inr x" s'] by (metis prod.collapse)
next
  fix s e s' assume "P s" "on_snd m s = (Inl e, s')"
  then show "E s'" using tripleD(2) [OF assms [of "fst s"], of "snd s" e "snd s'"] on_snd_outcome [of m s "Inl e" s'] by (metis prod.collapse)
qed

subsection \<open>Sending\<close>

definition send :: "server \<Rightarrow> http_request \<Rightarrow> (int \<times> json option) io" where
  "send srv rq = (\<lambda>sent. case srv sent rq of
       NoConnection \<Rightarrow> (Inl IOError, sent @ [rq])
     | Reply st body \<Rightarrow> (Inr (st, body), sent @ [rq]))"

text \<open>\<open>response.json()\<close> and \<open>json.loads(response.text)\<close>: a body that is no JSON text raises
  \<open>JSONDecodeError\<close>, a \<open>ValueError\<close>.\<close>

definition loads :: "json option \<Rightarrow> json res" where
  "loads body = (case body of None \<Rightarrow> Inl ValueError | Some j \<Rightarrow> Inr j)"

text \<open>A GET or POST whose answer must have status 200: otherwise a \<open>ValueError\<close> is raised.\<close>

definition send_checked :: "server \<Rightarrow> http_request \<Rightarrow> json option io" where
  "send_checked srv rq = andthen (send srv rq) (\<lambda>(st, body).
     if st \<noteq> 200 then of_res (Inl ValueError) else ret body)"

lemma send_run:
  "srv sent rq = Reply st body \<Longrightarrow> send srv rq sent = (Inr (st, body), sent @ [rq])"
  "srv sent rq = NoConnection \<Longrightarrow> send srv rq sent = (Inl IOError, sent @ [rq])"
  by (simp_all add: send_def)

lemma send_checked_run:
  "srv sent rq = Reply 200 body \<Longrightarrow> send_checked srv rq sent = (Inr body, sent @ [rq])"
  "srv sent rq = Reply st body \<Longrightarrow> st \<noteq> 200 \<Longrightarrow> send_checked srv rq sent = (Inl ValueError, sent @ [rq])"
  by (simp_all add: send_checked_def andthen_run send_run)

text \<open>
  A computation that only sends: the requests before it stay as they are, and those it sends come
  after them.  The operations that the clients below are made of have the property, and sequencing and
  loops keep it.
\<close>

definition sends_only :: "'a io \<Rightarrow> bool" where
  "sends_only m \<longleftrightarrow> (\<forall>sent. \<exists>new. snd (m sent) = sent @ new)"

lemma sends_only_ret [simp, intro]: "sends_only (ret x)" "sends_only (of_res r)"
  by (simp_all add: sends_only_def)

lemma sends_only_send [simp, intro]: "sends_only (send srv rq)"
  by (simp add: sends_only_def send_def split: http_reply.splits)

lemma sends_only_andthen [intro]:
  assumes "sends_only m" and "\<And>x. sends_only (f x)"
  shows "sends_only (andthen m f)"
  unfolding sends_only_def
proof
  fix sent
  obtain new where new: "snd (m sent) = sent @ new" using assms(1) by (auto simp: sends_only_def)
  show "\<exists>new. snd (andthen m f sent) = sent @ new"
  proof (cases rule: andthen_cases [of m sent f])
    case (raised e s')
    then show ?thesis using new by auto
  next
    case (went x s')
    then have "s' = sent @ new" using new by simp
    moreover obtain more where "snd (f x s') = s' @ more" using assms(2) by (auto simp: sends_only_def)
    ultimately show ?thesis using went by auto
  qed
qed

lemma sends_only_gather [intro]: "(\<And>x. sends_only (f x)) \<Longrightarrow> sends_only (gather f xs)"
  by (induction xs) auto

lemma sends_only_each [intro]: "(\<And>x. sends_only (f x)) \<Longrightarrow> sends_only (each f xs)"
  by (induction xs) auto

text \<open>
  A controller whose answers do not depend on what was sent before; a computation whose result does
  not either.
\<close>

definition steady_server :: "server \<Rightarrow> bool" where
  "steady_server srv \<longleftrightarrow> (\<forall>sent sent' rq. srv sent rq = srv sent' rq)"

definition steady :: "'a io \<Rightarrow> bool" where
  "steady m \<longleftrightarrow> (\<forall>sent sent'. fst (m sent) = fst (m sent'))"

lemma steadyD: "steady m \<Longrightarrow> m s = (r, t) \<Longrightarrow> \<exists>t'. m s' = (r, t')"
  by (metis steady_def fst_conv surj_pair)

lemma steady_ret [simp, intro]: "steady (ret x)" "steady (of_res r)"
  by (simp_all add: steady_def)

lemma steady_send [intro]: "steady_server srv \<Longrightarrow> steady (send srv rq)"
  unfolding steady_def
proof (intro allI)
  fix s s'
  assume "steady_server srv"
  then have "srv s rq = srv s' rq" by (simp add: steady_server_def)
  then show "fst (send srv rq s) = fst (send srv rq s')" by (simp add: send_def split: http_reply.splits)
qed

lemma steady_andthen [intro]:
  assumes "steady m" and "\<And>x. steady (f x)"
  shows "steady (andthen m f)"
  unfolding steady_def
proof (intro allI)
  fix s s'
  show "fst (andthen m f s) = fst (andthen m f s')"
  proof (cases rule: andthen_cases [of m s f])
    case (raised e t)
    then obtain t' where "m s' = (Inl e, t')" using steadyD [OF assms(1)] by blast
    then show ?thesis using raised by (simp add: andthen_run(2))
  next
    case (went x t)
    then obtain t' where "m s' = (Inr x, t')" using steadyD [OF assms(1)] by blast
    then show ?thesis using went assms(2) by (simp add: andthen_run(1) steady_def)
  qed
qed

lemma steady_send_checked [intro]: "steady_server srv \<Longrightarrow> steady (send_checked srv rq)"
  unfolding send_checked_def by (intro steady_andthen) (auto split: prod.splits)

lemma steady_gather [intro]: "(\<And>x. steady (f x)) \<Longrightarrow> steady (gather f xs)"
  by (induction xs) (auto simp: steady_andthen)

lemma steady_fold_prog [intro]: "(\<And>acc x. steady (f acc x)) \<Longrightarrow> steady (fold_prog f acc xs)"
  by (induction xs arbitrary: acc) (auto simp: steady_andthen)

subsection \<open>Reading answers\<close>

definition json_items :: "json \<Rightarrow> (string \<times> json) list res" where
  "json_items j = (case j of JObj d \<Rightarrow> Inr d | _ \<Rightarrow> Inl AttributeError)"

definition json_at :: "json \<Rightarrow> int \<Rightarrow> json res" where
  "json_at j i = (case j of JList xs \<Rightarrow> py_nth xs i | _ \<Rightarrow> Inl TypeError)"

text \<open>\<open>int(v)\<close> and \<open>s in v\<close> for a decoded value.\<close>

definition json_to_int :: "json \<Rightarrow> int res" where
  "json_to_int v = (case v of JInt i \<Rightarrow> Inr i | JStr s \<Rightarrow> py_int s | JBool b \<Rightarrow> Inr (of_bool b)
     | JFloat x \<Rightarrow> Inr (if 0 \<le> x then \<lfloor>x\<rfloor> else \<lceil>x\<rceil>) | _ \<Rightarrow> Inl TypeError)"

definition json_in :: "string \<Rightarrow> json \<Rightarrow> bool res" where
  "json_in s v = (case v of JList xs \<Rightarrow> Inr (JStr s \<in> set xs) | JObj d \<Rightarrow> Inr (dict_has d s)
     | JStr t \<Rightarrow> Inr (contains_str t s) | _ \<Rightarrow> Inl TypeError)"

text \<open>\<open>next\<close> with a condition that may raise.\<close>

fun find_res :: "('a \<Rightarrow> bool res) \<Rightarrow> 'a list \<Rightarrow> 'a res" where
  "find_res c [] = Inl StopIteration"
| "find_res c (x # xs) = rbind (c x) (\<lambda>b. if b then Inr x else find_res c xs)"

lemma find_res_pure:
  "(\<And>x. x \<in> set xs \<Longrightarrow> c x = Inr (P x)) \<Longrightarrow>
   find_res c xs = (case find P xs of None \<Rightarrow> Inl StopIteration | Some x \<Rightarrow> Inr x)"
  by (induction xs) auto

end
