(* ===== verification/Topo_Mapper.thy ===== *)
theory Topo_Mapper
  imports Http Float_Text
begin

section \<open>Mapping a topology to the network\<close>

text \<open>
  \<open>nw_control/topo_mapper.py\<close>: the target topology read from a file, the topology the ONOS
  controller reports, and the isomorphism between the two that gives every switch number its device.
  The controller is the parameter \<open>srv\<close>, networkx' \<open>GraphMatcher\<close> the parameter \<open>gm\<close> (\<open>None\<close> when the graphs
  are not isomorphic).  Device names are strings, as the controller reports them.  What is only
  printed is left out.
\<close>

subsection \<open>Graphs\<close>

record 'n topo_graph =
  tg_nodes :: "'n list"
  tg_edges :: "('n \<times> 'n) list"

definition topo_empty :: "'n topo_graph" where
  "topo_empty = \<lparr>tg_nodes = [], tg_edges = []\<rparr>"

definition topo_add_node :: "'n topo_graph \<Rightarrow> 'n \<Rightarrow> 'n topo_graph" where
  "topo_add_node g n = g\<lparr>tg_nodes := set_add (tg_nodes g) n\<rparr>"

definition has_edge :: "'n topo_graph \<Rightarrow> 'n \<Rightarrow> 'n \<Rightarrow> bool" where
  "has_edge g u v \<longleftrightarrow> (u, v) \<in> set (tg_edges g) \<or> (v, u) \<in> set (tg_edges g)"

definition topo_add_edge :: "'n topo_graph \<Rightarrow> 'n \<Rightarrow> 'n \<Rightarrow> 'n topo_graph" where
  "topo_add_edge g u v = (let g1 = topo_add_node (topo_add_node g u) v in
     if has_edge g1 u v then g1 else g1\<lparr>tg_edges := tg_edges g1 @ [(u, v)]\<rparr>)"

definition graph_wf :: "'n topo_graph \<Rightarrow> bool" where
  "graph_wf g \<longleftrightarrow> distinct (tg_nodes g) \<and> (\<forall>(u, v) \<in> set (tg_edges g). u \<in> set (tg_nodes g) \<and> v \<in> set (tg_nodes g))"

lemma graph_wf_empty [simp]: "graph_wf topo_empty"
  by (simp add: graph_wf_def topo_empty_def)

lemma graph_wf_add_node [simp, intro]: "graph_wf g \<Longrightarrow> graph_wf (topo_add_node g n)"
  by (auto simp: graph_wf_def topo_add_node_def)

lemma graph_wf_add_edge [simp, intro]: "graph_wf g \<Longrightarrow> graph_wf (topo_add_edge g u v)"
  by (auto simp: graph_wf_def topo_add_node_def topo_add_edge_def Let_def)

lemma nodes_add_edge [simp]: "set (tg_nodes (topo_add_edge g u v)) = {u, v} \<union> set (tg_nodes g)"
  by (auto simp: topo_add_edge_def topo_add_node_def Let_def)

lemma nodes_add_node [simp]: "set (tg_nodes (topo_add_node g u)) = insert u (set (tg_nodes g))"
  by (simp add: topo_add_node_def)

lemma has_edge_add_edge [simp]:
  "has_edge (topo_add_edge g u v) a b \<longleftrightarrow> has_edge g a b \<or> (a = u \<and> b = v) \<or> (a = v \<and> b = u)"
  by (auto simp: topo_add_edge_def topo_add_node_def has_edge_def Let_def)

lemma has_edge_add_node [simp]: "has_edge (topo_add_node g u) a b \<longleftrightarrow> has_edge g a b"
  by (simp add: topo_add_node_def has_edge_def)

lemma has_edge_empty [simp]: "\<not> has_edge topo_empty a b"
  by (simp add: topo_empty_def has_edge_def)

lemma has_edge_nodes: "graph_wf g \<Longrightarrow> has_edge g u v \<Longrightarrow> u \<in> set (tg_nodes g) \<and> v \<in> set (tg_nodes g)"
  by (auto simp: graph_wf_def has_edge_def)

subsection \<open>The target topology\<close>

definition parse_edge :: "string \<Rightarrow> (int \<times> int) res" where
  "parse_edge edge_entry = (case split_on (CHR '' '') edge_entry of
     [source_node, destination_node] \<Rightarrow>
       rbind (py_int source_node) (\<lambda>u. rbind (py_int destination_node) (\<lambda>v. Inr (u, v)))
   | _ \<Rightarrow> Inl ValueError)"

definition build_graph_from_topo_string :: "string \<Rightarrow> int topo_graph res" where
  "build_graph_from_topo_string topo_str =
     (let lines = splitlines topo_str in
      rbind (rbind (py_nth lines 0) py_int) (\<lambda>num_nodes.
      let graph = fold (\<lambda>node_idx g. topo_add_node g node_idx) [1..num_nodes] topo_empty in
      fold_res (\<lambda>g edge_entry. rbind (parse_edge edge_entry) (\<lambda>(u, v). Inr (topo_add_edge g u v))) graph (drop 2 lines)))"

subsection \<open>What the controller reports\<close>

definition onos_url :: string where
  "onos_url = ''http://127.0.0.1:8181/onos/''"

definition collector_host_ip :: string where
  "collector_host_ip = ''10.10.0.18''"

definition collector_ip_addr :: string where
  "collector_ip_addr = ''10.10.0.18''"

definition dns_server_ip :: string where
  "dns_server_ip = ''10.0.0.1''"

definition onos_get :: "string \<Rightarrow> http_request" where
  "onos_get path = \<lparr>rq_method = GET, rq_url = onos_url @ path, rq_body = None\<rparr>"

definition get_nw_links :: "server \<Rightarrow> json list io" where
  "get_nw_links srv = andthen (send_checked srv (onos_get ''v1/links'')) (\<lambda>body.
     of_res (rbind (loads body) (\<lambda>links. rbind (json_get links ''links'') (\<lambda>ls. rbind (json_list ls)
       (filter_res (\<lambda>link. rbind (json_get link ''type'') (\<lambda>t. Inr (t \<noteq> JStr ''EDGE''))))))))"

definition get_nw_hosts :: "server \<Rightarrow> json io" where
  "get_nw_hosts srv = andthen (send_checked srv (onos_get ''v1/hosts'')) (\<lambda>body.
     of_res (rbind (loads body) (\<lambda>hosts. json_get hosts ''hosts'')))"

definition first_location :: "json \<Rightarrow> string res" where
  "first_location host = rbind (json_get host ''locations'') (\<lambda>ls. rbind (json_at ls 0) (\<lambda>l.
     rbind (json_get l ''elementId'') json_str))"

definition get_collector_switch_dpid :: "server \<Rightarrow> string io" where
  "get_collector_switch_dpid srv = andthen (get_nw_hosts srv) (\<lambda>hosts.
     of_res (rbind (json_list hosts) (\<lambda>hs.
       rbind (find_res (\<lambda>host. rbind (json_get host ''ipAddresses'') (json_in collector_host_ip)) hs)
         first_location)))"

text \<open>\<open>try: ... except StopIteration: collector_switch_dpid = ""\<close>\<close>

definition catch_stop :: "('s, 'a) prog \<Rightarrow> 'a \<Rightarrow> ('s, 'a) prog" where
  "catch_stop m d = (\<lambda>s. case m s of (Inl StopIteration, s') \<Rightarrow> (Inr d, s') | r \<Rightarrow> r)"

definition link_device :: "json \<Rightarrow> string \<Rightarrow> string res" where
  "link_device link side = rbind (json_get link side) (\<lambda>e. rbind (json_get e ''device'') json_str)"

definition link_port :: "json \<Rightarrow> string \<Rightarrow> int res" where
  "link_port link side = rbind (json_get link side) (\<lambda>e. rbind (json_get e ''port'') json_to_int)"

text \<open>\<open>and\<close> is lazy: the destination is looked at only when the source is another device.\<close>

definition core_link :: "string \<Rightarrow> json \<Rightarrow> bool res" where
  "core_link collector link = rbind (link_device link ''src'') (\<lambda>s.
     if s = collector then Inr False else rbind (link_device link ''dst'') (\<lambda>d. Inr (d \<noteq> collector)))"

definition add_core_link :: "string list \<times> string topo_graph \<Rightarrow> json \<Rightarrow> (string list \<times> string topo_graph) res" where
  "add_core_link = (\<lambda>(node_set, graph) link.
     rbind (link_device link ''src'') (\<lambda>source_dpid. rbind (link_device link ''dst'') (\<lambda>destination_dpid.
     let (node_set, graph) = (if source_dpid \<notin> set node_set \<and> source_dpid \<noteq> ''''
           then (set_add node_set source_dpid, topo_add_node graph source_dpid) else (node_set, graph));
         (node_set, graph) = (if destination_dpid \<notin> set node_set
           then (set_add node_set destination_dpid, topo_add_node graph destination_dpid) else (node_set, graph))
     in Inr (node_set, topo_add_edge graph source_dpid destination_dpid))))"

definition core_graph :: "json list \<Rightarrow> string \<Rightarrow> string topo_graph res" where
  "core_graph links collector = rbind (filter_res (core_link collector) links) (\<lambda>core_topo_links.
     rbind (fold_res add_core_link ([], topo_empty) core_topo_links) (\<lambda>(_, graph). Inr graph))"

definition build_onos_topo_graph :: "server \<Rightarrow> string topo_graph io" where
  "build_onos_topo_graph srv = andthen (get_nw_links srv) (\<lambda>links.
     andthen (catch_stop (get_collector_switch_dpid srv) '''') (\<lambda>collector_switch_dpid.
     of_res (core_graph links collector_switch_dpid)))"

fun first_connecting :: "json list \<Rightarrow> string \<Rightarrow> string \<Rightarrow> (int \<times> int) res" where
  "first_connecting [] s d = Inl ValueError"
| "first_connecting (link # links) s d = rbind (link_device link ''src'') (\<lambda>a.
     if a = s then rbind (link_device link ''dst'') (\<lambda>b.
       if b = d then rbind (link_port link ''src'') (\<lambda>p. rbind (link_port link ''dst'') (\<lambda>q. Inr (p, q)))
       else first_connecting links s d)
     else first_connecting links s d)"

definition get_ports_that_connect :: "server \<Rightarrow> string \<Rightarrow> string \<Rightarrow> (int \<times> int) io" where
  "get_ports_that_connect srv source_dpid destination_dpid = andthen (get_nw_links srv) (\<lambda>links.
     of_res (first_connecting links source_dpid destination_dpid))"

text \<open>The first location at the switch of a host that is neither the collector nor the name server.\<close>

definition usable_location :: "json \<Rightarrow> string \<Rightarrow> json \<Rightarrow> bool res" where
  "usable_location host switch_dpid location = rbind (json_get location ''elementId'') (\<lambda>e.
     if e \<noteq> JStr switch_dpid then Inr False
     else rbind (rbind (json_get host ''ipAddresses'') (json_in collector_ip_addr)) (\<lambda>c.
       if c then Inr False
       else rbind (rbind (json_get host ''ipAddresses'') (json_in dns_server_ip)) (\<lambda>d. Inr (\<not> d))))"

fun location_port :: "json \<Rightarrow> string \<Rightarrow> json list \<Rightarrow> int option res" where
  "location_port host switch_dpid [] = Inr None"
| "location_port host switch_dpid (l # ls) = rbind (usable_location host switch_dpid l) (\<lambda>b.
     if b then rbind (rbind (json_get l ''port'') json_to_int) (\<lambda>p. Inr (Some p))
     else location_port host switch_dpid ls)"

fun hosts_port :: "json list \<Rightarrow> string \<Rightarrow> int res" where
  "hosts_port [] switch_dpid = Inl ValueError"
| "hosts_port (host # hosts) switch_dpid = rbind (rbind (json_get host ''locations'') json_list) (\<lambda>ls.
     rbind (location_port host switch_dpid ls) (\<lambda>p. case p of
       Some n \<Rightarrow> Inr n | None \<Rightarrow> hosts_port hosts switch_dpid))"

definition get_host_port :: "server \<Rightarrow> string \<Rightarrow> int io" where
  "get_host_port srv switch_dpid = andthen (get_nw_hosts srv) (\<lambda>hosts.
     of_res (rbind (json_list hosts) (\<lambda>hs. hosts_port hs switch_dpid)))"

definition get_switch_mirroring_ports :: "server \<Rightarrow> (string \<Rightarrow> json res) \<Rightarrow> json io" where
  "get_switch_mirroring_ports srv json_loads = andthen (send_checked srv (onos_get ''port-mirroring/v1/mirroring-ports'')) (\<lambda>body.
     of_res (rbind (loads body) (\<lambda>mirroring_ports. rbind (json_get mirroring_ports ''result'') (\<lambda>r.
       rbind (json_str r) json_loads))))"

subsection \<open>The isomorphism\<close>

type_synonym matcher = "string topo_graph \<Rightarrow> int topo_graph \<Rightarrow> (string, int) dict option"

definition generate_graph_isomorphism :: "matcher \<Rightarrow> string topo_graph \<Rightarrow> int topo_graph \<Rightarrow> (string, int) dict res" where
  "generate_graph_isomorphism gm g1 g2 = (case gm g1 g2 of None \<Rightarrow> Inl ValueError | Some m \<Rightarrow> Inr m)"

definition invert :: "('a, 'b) dict \<Rightarrow> ('b, 'a) dict" where
  "invert d = dict_of (map (\<lambda>(k, v). (v, k)) d)"

definition get_and_validate_onos_topo_x :: "server \<Rightarrow> matcher \<Rightarrow> int topo_graph \<Rightarrow> (int, string) dict io" where
  "get_and_validate_onos_topo_x srv gm target_topo = andthen (build_onos_topo_graph srv) (\<lambda>current_topo.
     of_res (rbind (generate_graph_isomorphism gm current_topo target_topo) (\<lambda>dpid_to_id. Inr (invert dpid_to_id))))"

definition get_and_validate_onos_topo :: "server \<Rightarrow> matcher \<Rightarrow> string \<Rightarrow> (int, string) dict io" where
  "get_and_validate_onos_topo srv gm target_topo_string = andthen (build_onos_topo_graph srv) (\<lambda>current_topo.
     of_res (rbind (build_graph_from_topo_string target_topo_string) (\<lambda>target_topo.
       rbind (generate_graph_isomorphism gm current_topo target_topo) (\<lambda>dpid_to_id. Inr (invert dpid_to_id)))))"

subsection \<open>Checking flows\<close>

text \<open>Of the flows only the ids and paths are used.\<close>

definition check_links :: "(int \<Rightarrow> int \<Rightarrow> bool res) \<Rightarrow> (int, int list) dict \<Rightarrow> (int \<times> int) list res" where
  "check_links present flows = fold_res (\<lambda>invalid_edges flow_path.
     fold_res (\<lambda>invalid_edges (u, v). rbind (present u v) (\<lambda>b. Inr (if b then invalid_edges else set_add invalid_edges (u, v))))
       invalid_edges (pairwise flow_path)) [] (dict_values flows)"

definition verify_flows_against_nw_topo :: "server \<Rightarrow> matcher \<Rightarrow> string \<Rightarrow> (int, int list) dict \<Rightarrow> (int \<times> int) list io" where
  "verify_flows_against_nw_topo srv gm target_topo flows = andthen (build_onos_topo_graph srv) (\<lambda>nw_graph.
     andthen (get_and_validate_onos_topo srv gm target_topo) (\<lambda>id_to_dpid.
     of_res (check_links (\<lambda>u v. rbind (dict_get id_to_dpid u) (\<lambda>a. rbind (dict_get id_to_dpid v) (\<lambda>b.
       Inr (has_edge nw_graph a b)))) flows)))"

text \<open>For a link that is missing the message looks up both ends.\<close>

definition verify_flows_against_target_topo :: "server \<Rightarrow> matcher \<Rightarrow> string \<Rightarrow> (int, int list) dict \<Rightarrow> (int \<times> int) list io" where
  "verify_flows_against_target_topo srv gm target_topo flows = andthen (of_res (build_graph_from_topo_string target_topo)) (\<lambda>target_graph.
     andthen (get_and_validate_onos_topo srv gm target_topo) (\<lambda>id_to_dpid.
     of_res (check_links (\<lambda>u v. if has_edge target_graph u v then Inr True
       else rbind (dict_get id_to_dpid u) (\<lambda>a. rbind (dict_get id_to_dpid v) (\<lambda>b. Inr False))) flows)))"

subsection \<open>Properties\<close>

text \<open>
  What networkx documents of the matcher: a mapping it finds is a bijection between the nodes that
  keeps the edges.
\<close>

definition iso_sound :: "matcher \<Rightarrow> bool" where
  "iso_sound gm \<longleftrightarrow> (\<forall>g h m. gm g h = Some m \<longrightarrow>
     distinct (dict_keys m) \<and> set (dict_keys m) = set (tg_nodes g) \<and>
     distinct (dict_values m) \<and> set (dict_values m) = set (tg_nodes h) \<and>
     (\<forall>(a, u) \<in> set m. \<forall>(b, v) \<in> set m. has_edge g a b \<longleftrightarrow> has_edge h u v))"

lemma graph_wf_add_core_link:
  "add_core_link (ns, g) link = Inr (ns', g') \<Longrightarrow> graph_wf g \<Longrightarrow> graph_wf g'"
  by (auto simp: add_core_link_def rbind_Inr_iff Let_def split: if_splits)

lemma core_graph_wf: "core_graph links c = Inr g \<Longrightarrow> graph_wf g"
  unfolding core_graph_def
proof (clarsimp simp: rbind_Inr_iff)
  fix ls ns
  assume "fold_res add_core_link ([], topo_empty) ls = Inr (ns, g)"
  from fold_res_inv [where P = "\<lambda>s. graph_wf (snd s)", OF _ this]
  show "graph_wf g" using graph_wf_add_core_link by (auto split: prod.splits)
qed

lemma build_onos_wf:
  assumes "build_onos_topo_graph srv s = (Inr g, s')"
  shows "graph_wf g"
  using assms unfolding build_onos_topo_graph_def by (auto elim!: andthen_InrE intro: core_graph_wf)

lemma graph_wf_nodes: "graph_wf g \<Longrightarrow> graph_wf (fold (\<lambda>i g. topo_add_node g i) xs g)"
  by (induction xs arbitrary: g) auto

lemma target_graph_wf:
  assumes "build_graph_from_topo_string txt = Inr g"
  shows "graph_wf g"
proof -
  from assms obtain n where "fold_res (\<lambda>g e. rbind (parse_edge e) (\<lambda>(u, v). Inr (topo_add_edge g u v)))
      (fold (\<lambda>i g. topo_add_node g i) [1..n] topo_empty) (drop 2 (splitlines txt)) = Inr g"
    by (auto simp: build_graph_from_topo_string_def rbind_Inr_iff Let_def)
  from fold_res_inv [OF _ this, of graph_wf] show ?thesis
    by (auto simp: rbind_Inr_iff graph_wf_nodes split: prod.splits)
qed

lemma invert_distinct:
  assumes "distinct (dict_values m)"
  shows "invert m = map (\<lambda>(k, v). (v, k)) m"
  unfolding invert_def using assms by (intro dict_of_distinct) (simp add: comp_def case_prod_unfold)

lemma map_of_invert:
  assumes "distinct (dict_values m)"
  shows "map_of (invert m) u = Some a \<longleftrightarrow> (a, u) \<in> set m"
  using assms by (simp add: invert_distinct map_of_eq_Some_iff comp_def case_prod_unfold) force

text \<open>A validated assignment of devices to switch numbers.\<close>

definition assignment_ok :: "(int, string) dict \<Rightarrow> int topo_graph \<Rightarrow> string topo_graph \<Rightarrow> bool" where
  "assignment_ok ids h g \<longleftrightarrow> dict_wf ids \<and> set (dict_keys ids) = set (tg_nodes h) \<and>
     distinct (dict_values ids) \<and> set (dict_values ids) = set (tg_nodes g) \<and>
     (\<forall>u v a b. map_of ids u = Some a \<and> map_of ids v = Some b \<longrightarrow> (has_edge h u v \<longleftrightarrow> has_edge g a b))"

lemma invert_ok:
  assumes "iso_sound gm" and "gm g h = Some m"
  shows "assignment_ok (invert m) h g"
proof -
  have m: "distinct (dict_keys m)" "set (dict_keys m) = set (tg_nodes g)" "distinct (dict_values m)"
    "set (dict_values m) = set (tg_nodes h)" "\<forall>(a, u) \<in> set m. \<forall>(b, v) \<in> set m. has_edge g a b \<longleftrightarrow> has_edge h u v"
    using assms unfolding iso_sound_def by blast+
  have ks: "dict_keys (invert m) = dict_values m" "dict_values (invert m) = dict_keys m"
    unfolding invert_distinct [OF m(3)] by (simp_all add: comp_def case_prod_unfold)
  have "has_edge h u v \<longleftrightarrow> has_edge g a b"
    if "map_of (invert m) u = Some a" "map_of (invert m) v = Some b" for u v a b
    using that m(5) unfolding map_of_invert [OF m(3)] by blast
  then show ?thesis unfolding assignment_ok_def dict_wf_def ks using m(1-4) by blast
qed

lemma validate_run:
  assumes "iso_sound gm" and "get_and_validate_onos_topo srv gm txt sent = (Inr ids, sent')"
  obtains g h where "build_onos_topo_graph srv sent = (Inr g, sent')" "build_graph_from_topo_string txt = Inr h"
    "assignment_ok ids h g" "graph_wf g" "graph_wf h"
proof -
  from assms(2) obtain g where g: "build_onos_topo_graph srv sent = (Inr g, sent')"
    and r: "rbind (build_graph_from_topo_string txt) (\<lambda>h. rbind (generate_graph_isomorphism gm g h) (\<lambda>m. Inr (invert m))) = Inr ids"
    unfolding get_and_validate_onos_topo_def by (auto elim!: andthen_InrE)
  from r obtain h m where h: "build_graph_from_topo_string txt = Inr h" "gm g h = Some m" "ids = invert m"
    by (auto simp: rbind_Inr_iff generate_graph_isomorphism_def split: option.splits)
  then show thesis using that g invert_ok [OF assms(1)] build_onos_wf target_graph_wf by blast
qed


lemma steady_catch_stop: "steady m \<Longrightarrow> steady (catch_stop m d)"
  unfolding steady_def catch_stop_def
proof (intro allI)
  fix s s'
  assume st: "\<forall>s s'. fst (m s) = fst (m s')"
  obtain r t t' where "m s = (r, t)" "m s' = (r, t')" using st by (metis prod.collapse)
  then show "fst (case m s of (Inl StopIteration, s') \<Rightarrow> (Inr d, s') | r \<Rightarrow> r) =
      fst (case m s' of (Inl StopIteration, s') \<Rightarrow> (Inr d, s') | r \<Rightarrow> r)"
    by (cases r) (simp_all split: py_error.splits)
qed

lemma steady_onos:
  assumes "steady_server srv"
  shows "steady (build_onos_topo_graph srv)" and "steady (get_and_validate_onos_topo srv gm txt)"
proof -
  have hosts: "steady (get_nw_hosts srv)" and links: "steady (get_nw_links srv)"
    using assms by (auto simp: get_nw_hosts_def get_nw_links_def)
  have "steady (get_collector_switch_dpid srv)"
    unfolding get_collector_switch_dpid_def using hosts by auto
  then show g: "steady (build_onos_topo_graph srv)"
    using links unfolding build_onos_topo_graph_def by (intro steady_andthen steady_catch_stop steady_ret)
  then show "steady (get_and_validate_onos_topo srv gm txt)" by (auto simp: get_and_validate_onos_topo_def)
qed

text \<open>Both checks look at a link the same way, down to the exception for a switch that does not exist.\<close>

lemma present_equal:
  assumes "assignment_ok ids h g" and "graph_wf h"
  shows "rbind (dict_get ids u) (\<lambda>a. rbind (dict_get ids v) (\<lambda>b. Inr (has_edge g a b))) =
    (if has_edge h u v then Inr True else rbind (dict_get ids u) (\<lambda>a. rbind (dict_get ids v) (\<lambda>b. Inr False)))"
proof (cases "map_of ids u = None \<or> map_of ids v = None")
  case True
  then have "\<not> has_edge h u v"
    using assms has_edge_nodes [OF assms(2), of u v] unfolding assignment_ok_def
    by (metis map_of_eq_None_iff list.set_map)
  then show ?thesis using True by (auto simp: dict_get_def split: option.splits)
next
  case False
  then obtain a b where "map_of ids u = Some a" "map_of ids v = Some b" by auto
  moreover from this have "has_edge h u v = has_edge g a b" using assms(1) unfolding assignment_ok_def by blast
  ultimately show ?thesis by (simp add: dict_get_def)
qed

text \<open>
  C33.  While the controller's answers stay the same and the topology validates, checking flows against the network and checking
  them against the target topology give the same result: the same links are reported as invalid, and
  both raise \<open>KeyError\<close> at the first link with a switch the topology does not have.
\<close>

theorem verifications_agree:
  assumes "iso_sound gm" and "steady_server srv" and "get_and_validate_onos_topo srv gm txt sent = (Inr ids, sent')"
  shows "fst (verify_flows_against_nw_topo srv gm txt flows sent) = fst (verify_flows_against_target_topo srv gm txt flows sent)"
proof -
  obtain g h where g: "build_onos_topo_graph srv sent = (Inr g, sent')" and h: "build_graph_from_topo_string txt = Inr h"
    and ok: "assignment_ok ids h g" "graph_wf h" using validate_run [OF assms(1,3)] by blast
  obtain t where t: "get_and_validate_onos_topo srv gm txt sent' = (Inr ids, t)"
    using steadyD [OF steady_onos(2) [OF assms(2)] assms(3)] by blast
  show ?thesis
    by (simp add: verify_flows_against_nw_topo_def verify_flows_against_target_topo_def andthen_run(1) [where m = "build_onos_topo_graph srv", OF g]
        andthen_run(1) [where m = "get_and_validate_onos_topo srv gm txt", OF t] h
        andthen_run(1) [where m = "get_and_validate_onos_topo srv gm txt", OF assms(3)] present_equal [OF ok])
qed

text \<open>
  A matcher that tries the nodes in order, and a controller that reports two devices with a link in both
  directions, and their hosts.
\<close>

definition ordered_matcher :: matcher where
  "ordered_matcher g h = (let m = zip (tg_nodes g) (tg_nodes h) in
     if distinct (tg_nodes g) \<and> distinct (tg_nodes h) \<and> length (tg_nodes g) = length (tg_nodes h) \<and>
       list_all (\<lambda>(a, u). list_all (\<lambda>(b, v). has_edge g a b = has_edge h u v) m) m
     then Some m else None)"

lemma ordered_matcher_sound: "iso_sound ordered_matcher"
  unfolding iso_sound_def
proof (intro allI impI)
  fix g h m
  assume "ordered_matcher g h = Some m"
  then have m: "m = zip (tg_nodes g) (tg_nodes h)" "distinct (tg_nodes g)" "distinct (tg_nodes h)"
    "length (tg_nodes g) = length (tg_nodes h)" "\<forall>(a, u) \<in> set m. \<forall>(b, v) \<in> set m. has_edge g a b = has_edge h u v"
    by (auto simp: ordered_matcher_def Let_def list_all_iff case_prod_unfold split: if_splits)
  then have "dict_keys m = tg_nodes g" "dict_values m = tg_nodes h" by simp_all
  then show "distinct (dict_keys m) \<and> set (dict_keys m) = set (tg_nodes g) \<and>
     distinct (dict_values m) \<and> set (dict_values m) = set (tg_nodes h) \<and>
     (\<forall>(a, u) \<in> set m. \<forall>(b, v) \<in> set m. has_edge g a b \<longleftrightarrow> has_edge h u v)"
    using m(2,3,5) by simp
qed

definition onos_link :: "string \<Rightarrow> int \<Rightarrow> string \<Rightarrow> int \<Rightarrow> json" where
  "onos_link a p b q = JObj [(''type'', JStr ''DIRECT''),
     (''src'', JObj [(''device'', JStr a), (''port'', JStr (show_int p))]),
     (''dst'', JObj [(''device'', JStr b), (''port'', JStr (show_int q))])]"

definition onos_host :: "string \<Rightarrow> string \<Rightarrow> int \<Rightarrow> json" where
  "onos_host ip sw p = JObj [(''ipAddresses'', JList [JStr ip]),
     (''locations'', JList [JObj [(''elementId'', JStr sw), (''port'', JStr (show_int p))]])]"

definition ex_controller :: server where
  "ex_controller sent rq =
     (if rq_method rq = POST then Reply 200 (Some (JObj [(''routeId'', JInt 7)]))
      else if rq_url rq = onos_url @ ''v1/links'' then
        Reply 200 (Some (JObj [(''links'', JList [onos_link ''of:a'' 1 ''of:b'' 2, onos_link ''of:b'' 2 ''of:a'' 1])]))
      else if rq_url rq = onos_url @ ''v1/hosts'' then
        Reply 200 (Some (JObj [(''hosts'', JList [onos_host ''10.0.0.11'' ''of:a'' 3, onos_host ''10.0.0.12'' ''of:b'' 4])]))
      else Reply 404 None)"

definition ex_topology :: string where
  "ex_topology = ''2'' @ newline # ''1'' @ newline # ''1 2''"

lemma ex_validate:
  "get_and_validate_onos_topo ex_controller ordered_matcher ex_topology [] =
     (Inr [(1, ''of:a''), (2, ''of:b'')], [onos_get ''v1/links'', onos_get ''v1/hosts''])"
  by code_simp


theorem verifications_agree_witness:
  "fst (verify_flows_against_nw_topo ex_controller ordered_matcher ex_topology [(0, [1, 2]), (1, [1, 1])] []) = Inr [(1, 1)] \<and>
   fst (verify_flows_against_target_topo ex_controller ordered_matcher ex_topology [(0, [1, 2]), (1, [1, 1])] []) = Inr [(1, 1)]"
proof -
  have "steady_server ex_controller"
    by (simp add: steady_server_def ex_controller_def)
  moreover have "fst (verify_flows_against_target_topo ex_controller ordered_matcher ex_topology [(0, [1, 2]), (1, [1, 1])] []) = Inr [(1, 1)]"
    by code_simp
  ultimately show ?thesis using verifications_agree [OF ordered_matcher_sound _ ex_validate] by simp
qed

end
