(* ===== verification/Onos_Helpers.thy ===== *)
theory Onos_Helpers
  imports Topo_Mapper Port_Mirroring
begin

section \<open>Installing mirrored flows\<close>

text \<open>
  \<open>port_mirroring/onos_rest_helpers.py\<close>: the JSON requests that install the flows of a mirroring trial
  through the ONOS controller, the mapping of port ids to port numbers, and the removal of flows; and the
  trials' \<open>add_flows\<close>, which call them.  A route id that the controller gives is a string
  or a number.  \<open>dpid_port_map\<close> is a \<open>defaultdict(dict)\<close>: a switch it does not have is read as
  an empty dictionary.
\<close>

definition onos_post :: "string \<Rightarrow> json option \<Rightarrow> http_request" where
  "onos_post path body = \<lparr>rq_method = POST, rq_url = onos_url @ path, rq_body = body\<rparr>"

definition port_number :: "port_map \<Rightarrow> int \<Rightarrow> int \<Rightarrow> int res" where
  "port_number port_ids_to_port_numbers switch_id port_id =
     dict_get (dict_get_default port_ids_to_port_numbers switch_id []) port_id"

subsection \<open>Checks\<close>

text \<open>
  \<open>port_ids_to_port_numbers[port_id]\<close>, the entry of the switch whose id is the port's, is what is compared.
  The result is what the function prints: whether all flows have been mirrored.
\<close>

definition same_ports :: "port_map \<Rightarrow> int \<Rightarrow> int \<Rightarrow> bool" where
  "same_ports port_ids_to_port_numbers p q \<longleftrightarrow>
     set (dict_get_default port_ids_to_port_numbers p []) = set (dict_get_default port_ids_to_port_numbers q [])"

definition verify_that_all_flows_are_mirrored ::
    "(int, int pm_flow) dict \<Rightarrow> int pm_solutions \<Rightarrow> port_map \<Rightarrow> (int, string) dict \<Rightarrow> bool res" where
  "verify_that_all_flows_are_mirrored flows solutions port_ids_to_port_numbers id_to_dpid =
     rbind (fold_res (\<lambda>mirrored_flow_ids solution.
       rbind (dict_get id_to_dpid (ms_switch_id solution)) (\<lambda>mirrored_dpid.
       fold_res (\<lambda>mirrored_flow_ids (flow_id, flow).
         fold_res (\<lambda>mirrored_flow_ids (flow_switch_id, flow_port_id).
           rbind (dict_get id_to_dpid flow_switch_id) (\<lambda>flow_dpid.
           Inr (if same_ports port_ids_to_port_numbers flow_port_id (ms_switch_port solution) \<and> flow_dpid = mirrored_dpid
             then set_add mirrored_flow_ids flow_id else mirrored_flow_ids)))
           mirrored_flow_ids (zip (pf_path flow) (pf_ports flow))) mirrored_flow_ids flows)) [] (concat (dict_values solutions)))
     (\<lambda>mirrored_flow_ids. Inr (length mirrored_flow_ids = length flows))"

text \<open>The result: the hops that are reported.\<close>

definition verify_path_ports :: "server \<Rightarrow> (int, string pm_flow) dict \<Rightarrow> (string \<times> string) list io" where
  "verify_path_ports srv flows_mapped_to_nw = fold_prog (\<lambda>weird flow_mapped_to_nw.
     let dpid_to_port = dict_of (zip (pf_path flow_mapped_to_nw) (pf_ports flow_mapped_to_nw)) in
     fold_prog (\<lambda>weird (switch_id, next_hop_id).
       andthen (get_ports_that_connect srv switch_id next_hop_id) (\<lambda>(source_port, dest_port).
       andthen (of_res (dict_get dpid_to_port switch_id)) (\<lambda>p.
       ret (if source_port \<noteq> p then weird @ [(switch_id, next_hop_id)] else weird))))
       weird (pairwise (pf_path flow_mapped_to_nw))) [] (dict_values flows_mapped_to_nw)"

subsection \<open>Requests\<close>

definition create_path_json :: "(int, string) dict \<Rightarrow> int list \<Rightarrow> json res" where
  "create_path_json id_to_dpid path = rbind (map_res (dict_get id_to_dpid) path) (\<lambda>nodes.
     Inr (JObj [(''nodes'', JList (map JStr nodes))]))"

definition create_add_flow_mirroring_rules_request_json ::
    "flow_definition \<Rightarrow> solution_definition \<Rightarrow> (int, string) dict \<Rightarrow> int \<Rightarrow> json res" where
  "create_add_flow_mirroring_rules_request_json flow_def solution_def id_to_dpid tag_value =
     rbind (dict_get id_to_dpid (so_mirror_switch_id solution_def)) (\<lambda>mirror_switch.
     rbind (create_path_json id_to_dpid (fd_path flow_def)) (\<lambda>flow_route.
     Inr (JObj [(''mirrorSwitch'', JStr mirror_switch), (''tagValue'', JInt tag_value), (''flowRoute'', flow_route)])))"

definition create_mirrored_ports_json :: "int pm_solutions \<Rightarrow> (int, string) dict \<Rightarrow> port_map \<Rightarrow> json res" where
  "create_mirrored_ports_json solutions id_to_dpid port_ids_to_port_numbers =
     rbind (fold_res (\<lambda>mirrored solution.
       rbind (port_number port_ids_to_port_numbers (ms_switch_id solution) (ms_switch_port solution)) (\<lambda>actual_port_number.
       rbind (dict_get id_to_dpid (ms_switch_id solution)) (\<lambda>mirror_switch_dpid.
       Inr (group_append mirrored (mirror_switch_dpid, JInt actual_port_number))))) [] (concat (dict_values solutions)))
     (\<lambda>mirrored. Inr (JObj (map (\<lambda>(dpid, ports). (dpid, JList ports)) mirrored)))"

definition create_port_numbers_json ::
    "server \<Rightarrow> int pm_flow \<Rightarrow> port_map \<Rightarrow> (int, string) dict \<Rightarrow> json io" where
  "create_port_numbers_json srv flow_def port_ids_to_port_numbers id_to_dpid =
     andthen (of_res (map_res (\<lambda>(switch_id, port_id). port_number port_ids_to_port_numbers switch_id port_id)
       (zip (butlast (pf_path flow_def)) (butlast (pf_ports flow_def))))) (\<lambda>port_numbers.
     andthen (of_res (rbind (py_nth (pf_path flow_def) (- 1)) (dict_get id_to_dpid))) (\<lambda>last_hop_switch_dpid.
     andthen (get_host_port srv last_hop_switch_dpid) (\<lambda>last_hop_egress_port.
     ret (JList (map JInt (port_numbers @ [last_hop_egress_port]))))))"

definition create_add_port_mirroring_rules_request_json ::
    "server \<Rightarrow> int pm_flow \<Rightarrow> int pm_solutions \<Rightarrow> (int, string) dict \<Rightarrow> int \<Rightarrow> port_map \<Rightarrow> json io" where
  "create_add_port_mirroring_rules_request_json srv flow_def solutions id_to_dpid tag_value port_ids_to_port_numbers =
     andthen (of_res (create_mirrored_ports_json solutions id_to_dpid port_ids_to_port_numbers)) (\<lambda>mirrored_ports_json.
     andthen (of_res (create_path_json id_to_dpid (pf_path flow_def))) (\<lambda>flow_path_json.
     andthen (create_port_numbers_json srv flow_def port_ids_to_port_numbers id_to_dpid) (\<lambda>port_number_json.
     ret (JObj [(''flowRoute'', flow_path_json), (''portNumbers'', port_number_json),
       (''tagValue'', JInt tag_value), (''mirroredPorts'', mirrored_ports_json)]))))"

definition post_route :: "server \<Rightarrow> string \<Rightarrow> json \<Rightarrow> json io" where
  "post_route srv path body = andthen (send_checked srv (onos_post path (Some body))) (\<lambda>answer.
     of_res (rbind (loads answer) (\<lambda>response. json_get response ''routeId'')))"

definition request_flow_mirroring ::
    "server \<Rightarrow> flow_definition \<Rightarrow> solution_definition \<Rightarrow> (int, string) dict \<Rightarrow> int \<Rightarrow> json io" where
  "request_flow_mirroring srv flow_def solution_def id_to_dpid tag_value =
     andthen (of_res (create_add_flow_mirroring_rules_request_json flow_def solution_def id_to_dpid tag_value)) (\<lambda>json_body.
     post_route srv ''port-mirroring/v1/add-mirrored-flow'' json_body)"

definition request_port_mirroring ::
    "server \<Rightarrow> int pm_flow \<Rightarrow> int pm_solutions \<Rightarrow> (int, string) dict \<Rightarrow> int \<Rightarrow> port_map \<Rightarrow> json io" where
  "request_port_mirroring srv flow_def solutions id_to_dpid tag_value port_ids_to_port_numbers =
     andthen (create_add_port_mirroring_rules_request_json srv flow_def solutions id_to_dpid tag_value port_ids_to_port_numbers) (\<lambda>json_body.
     post_route srv ''port-mirroring/v1/add-mirrored-ports'' json_body)"

fun token_text :: "json \<Rightarrow> string res" where
  "token_text (JStr s) = Inr s"
| "token_text (JInt i) = Inr (show_int i)"
| "token_text _ = Inl TypeError"

definition remove_port_mirroring_rules :: "server \<Rightarrow> json \<Rightarrow> unit io" where
  "remove_port_mirroring_rules srv flow_token = andthen (of_res (token_text flow_token)) (\<lambda>t.
     andthen (send_checked srv (onos_post (''port-mirroring/v1/remove-mirrored-flow?route-id='' @ t) None)) (\<lambda>_. ret ()))"

definition remove_port_mirroring_flows :: "server \<Rightarrow> (int, json) dict \<Rightarrow> unit io" where
  "remove_port_mirroring_flows srv flow_tokens = each (remove_port_mirroring_rules srv) (dict_values flow_tokens)"

definition map_port :: "server \<Rightarrow> (int, string) dict \<Rightarrow> int \<Rightarrow> port_map \<Rightarrow> int \<times> int \<Rightarrow> port_map io" where
  "map_port srv id_to_dpid source_id = (\<lambda>dpid_port_map (destination_id, port_number).
     andthen (of_res (dict_get id_to_dpid source_id)) (\<lambda>source_dpid.
     andthen (of_res (dict_get id_to_dpid destination_id)) (\<lambda>destination_dpid.
     andthen (get_ports_that_connect srv source_dpid destination_dpid) (\<lambda>(source_port, destination_port).
     ret (dict_set dpid_port_map source_id
       (dict_set (dict_get_default dpid_port_map source_id []) port_number source_port))))))"

definition map_port_ids_to_nw_ports :: "server \<Rightarrow> port_map \<Rightarrow> (int, string) dict \<Rightarrow> port_map io" where
  "map_port_ids_to_nw_ports srv mirroring_ports id_to_dpid =
     fold_prog (\<lambda>dpid_port_map (source_id, destination_id_to_port_number).
       fold_prog (map_port srv id_to_dpid source_id) dpid_port_map destination_id_to_port_number) [] mirroring_ports"

definition add_flow_mirroring_flows ::
    "server \<Rightarrow> matcher \<Rightarrow> string \<Rightarrow> (int, flow_definition) dict \<Rightarrow> (int, solution_definition) dict \<Rightarrow> (int, json) dict io" where
  "add_flow_mirroring_flows srv gm topology flows solutions =
     andthen (get_and_validate_onos_topo srv gm topology) (\<lambda>id_to_dpid.
     fold_prog (\<lambda>flow_tokens (flow_id, flow).
       andthen (of_res (dict_get solutions flow_id)) (\<lambda>solution.
       andthen (request_flow_mirroring srv flow solution id_to_dpid flow_id) (\<lambda>token.
       ret (dict_set flow_tokens flow_id token)))) [] flows)"

definition add_port_mirroring_flows ::
    "server \<Rightarrow> matcher \<Rightarrow> string \<Rightarrow> (int, int pm_flow) dict \<Rightarrow> int pm_solutions \<Rightarrow> port_map \<Rightarrow> (int, json) dict io" where
  "add_port_mirroring_flows srv gm topology flows solutions mirroring_ports =
     andthen (get_and_validate_onos_topo srv gm topology) (\<lambda>id_to_dpid.
     andthen (map_port_ids_to_nw_ports srv mirroring_ports id_to_dpid) (\<lambda>port_ids_to_port_numbers.
     andthen (of_res (verify_that_all_flows_are_mirrored flows solutions port_ids_to_port_numbers id_to_dpid)) (\<lambda>_.
     fold_prog (\<lambda>flow_tokens (flow_id, flow).
       andthen (request_port_mirroring srv flow solutions id_to_dpid flow_id port_ids_to_port_numbers) (\<lambda>token.
       ret (dict_set flow_tokens flow_id token))) [] flows)))"

subsection \<open>The trials' operations\<close>

definition fm_add_flows :: "server \<Rightarrow> matcher \<Rightarrow> flow_mirroring_trial \<Rightarrow> (int, json) dict io" where
  "fm_add_flows srv gm t = add_flow_mirroring_flows srv gm (fm_topology t) (fm_flows t) (fm_solutions t)"

text \<open>A trial without a current solution passes \<open>None\<close>, which has no \<open>items\<close>.\<close>

definition pm_add_flows :: "server \<Rightarrow> matcher \<Rightarrow> int pm_trial \<Rightarrow> (int, json) dict io" where
  "pm_add_flows srv gm t = (case pt_solutions t of
       Some sols \<Rightarrow> add_port_mirroring_flows srv gm (pt_topology t) (pt_flows t) sols (pt_mirroring_ports t)
     | None \<Rightarrow> andthen (get_and_validate_onos_topo srv gm (pt_topology t)) (\<lambda>id_to_dpid.
         andthen (map_port_ids_to_nw_ports srv (pt_mirroring_ports t) id_to_dpid) (\<lambda>_. of_res (Inl AttributeError))))"

subsection \<open>Properties\<close>

text \<open>A controller that accepts every route and gives it an id.\<close>

definition accepts :: "server \<Rightarrow> (http_request list \<Rightarrow> http_request \<Rightarrow> json) \<Rightarrow> bool" where
  "accepts srv token \<longleftrightarrow> (\<forall>sent path body.
     srv sent (onos_post path body) = Reply 200 (Some (JObj [(''routeId'', token sent (onos_post path body))])))"

lemma post_route_accepted:
  assumes "accepts srv token"
  shows "post_route srv path body sent =
    (Inr (token sent (onos_post path (Some body))), sent @ [onos_post path (Some body)])"
  using assms unfolding accepts_def post_route_def
  by (simp add: andthen_def send_checked_def send_def loads_def dict_get_def)

definition device :: "(int, string) dict \<Rightarrow> int \<Rightarrow> string" where
  "device id_to_dpid u = the (map_of id_to_dpid u)"

lemma dict_get_device: "u \<in> set (dict_keys d) \<Longrightarrow> dict_get d u = Inr (device d u)"
  using keys_lookup [of u d] by (auto simp: dict_get_def device_def)

lemma create_path_json_run:
  "set path \<subseteq> set (dict_keys ids) \<Longrightarrow>
   create_path_json ids path = Inr (JObj [(''nodes'', JList (map (\<lambda>u. JStr (device ids u)) path))])"
  unfolding create_path_json_def
  by (subst map_res_Inr_map [of path "dict_get ids" "device ids"]) (auto intro!: dict_get_device)

definition mirrored_flow_request :: "(int, string) dict \<Rightarrow> (int, solution_definition) dict \<Rightarrow> int \<times> flow_definition \<Rightarrow> http_request" where
  "mirrored_flow_request ids solutions = (\<lambda>(flow_id, flow).
     onos_post ''port-mirroring/v1/add-mirrored-flow'' (Some (JObj
       [(''mirrorSwitch'', JStr (device ids (so_mirror_switch_id (the (map_of solutions flow_id))))),
        (''tagValue'', JInt flow_id),
        (''flowRoute'', JObj [(''nodes'', JList (map (\<lambda>u. JStr (device ids u)) (fd_path flow)))])])))"

definition flow_installable :: "(int, string) dict \<Rightarrow> (int, solution_definition) dict \<Rightarrow> int \<times> flow_definition \<Rightarrow> bool" where
  "flow_installable ids solutions = (\<lambda>(flow_id, flow). set (fd_path flow) \<subseteq> set (dict_keys ids) \<and>
     (case map_of solutions flow_id of None \<Rightarrow> False | Some sol \<Rightarrow> so_mirror_switch_id sol \<in> set (dict_keys ids)))"

lemma request_flow_mirroring_run:
  assumes "accepts srv token" and "flow_installable ids solutions (i, f)" and "map_of solutions i = Some sol"
  shows "request_flow_mirroring srv f sol ids i sent =
    (Inr (token sent (mirrored_flow_request ids solutions (i, f))), sent @ [mirrored_flow_request ids solutions (i, f)])"
  using assms(2,3) by (simp add: request_flow_mirroring_def create_add_flow_mirroring_rules_request_json_def
      flow_installable_def dict_get_device create_path_json_run post_route_accepted [OF assms(1)] mirrored_flow_request_def
      del: list.set_map)

lemma install_loop:
  assumes "accepts srv token" and "\<forall>p \<in> set flows. flow_installable ids solutions p"
  shows "\<exists>tokens. fold_prog (\<lambda>flow_tokens (flow_id, flow).
       andthen (of_res (dict_get solutions flow_id)) (\<lambda>solution.
       andthen (request_flow_mirroring srv flow solution ids flow_id) (\<lambda>token.
       ret (dict_set flow_tokens flow_id token)))) tokens0 flows sent =
     (Inr (fold (\<lambda>(k, v) d. dict_set d k v) tokens tokens0), sent @ map (mirrored_flow_request ids solutions) flows)
     \<and> map fst tokens = map fst flows"
  using assms(2)
proof (induction flows arbitrary: tokens0 sent)
  case (Cons p flows)
  obtain i f where p: "p = (i, f)" by (cases p)
  from Cons.prems obtain sol where sol: "map_of solutions i = Some sol"
    by (auto simp: p flow_installable_def split: option.splits)
  let ?rq = "mirrored_flow_request ids solutions (i, f)"
  have run: "request_flow_mirroring srv f sol ids i sent = (Inr (token sent ?rq), sent @ [?rq])"
    using request_flow_mirroring_run [OF assms(1) _ sol] Cons.prems p by simp
  obtain tokens where ih: "fold_prog (\<lambda>flow_tokens (flow_id, flow).
       andthen (of_res (dict_get solutions flow_id)) (\<lambda>solution.
       andthen (request_flow_mirroring srv flow solution ids flow_id) (\<lambda>token.
       ret (dict_set flow_tokens flow_id token)))) (dict_set tokens0 i (token sent ?rq)) flows (sent @ [?rq]) =
     (Inr (fold (\<lambda>(k, v) d. dict_set d k v) tokens (dict_set tokens0 i (token sent ?rq))),
      (sent @ [?rq]) @ map (mirrored_flow_request ids solutions) flows)" "map fst tokens = map fst flows"
    using Cons.IH [of "dict_set tokens0 i (token sent ?rq)" "sent @ [?rq]"] Cons.prems by auto
  show ?case
    by (rule exI [of _ "(i, token sent ?rq) # tokens"])
      (simp add: p dict_get_Inr_iff [THEN iffD2, OF sol] ih andthen_assoc
        andthen_run(1) [where m = "request_flow_mirroring srv f sol ids i", OF run])
qed simp

text \<open>
  C34.  Installing the flows of a flow mirroring trial: on a validated topology, when every flow runs over
  switches of the topology and has a solution with a mirror switch of the topology, and the controller accepts,
  all flows are installed.  After the requests of the validation exactly one request per flow is sent, in the
  order of the flows, with the devices along the flow's path, the device of its mirror switch and its id
  as tag; every flow has a token in the end.
\<close>

theorem mirrored_flows_installed:
  assumes "get_and_validate_onos_topo srv gm (fm_topology t) sent = (Inr ids, sent')"
    and "accepts srv token" and "dict_wf (fm_flows t)"
    and "\<forall>p \<in> set (fm_flows t). flow_installable ids (fm_solutions t) p"
  shows "\<exists>tokens. fm_add_flows srv gm t sent =
     (Inr tokens, sent' @ map (mirrored_flow_request ids (fm_solutions t)) (fm_flows t))
     \<and> dict_keys tokens = dict_keys (fm_flows t)"
proof -
  obtain tokens where run: "fold_prog (\<lambda>flow_tokens (flow_id, flow).
       andthen (of_res (dict_get (fm_solutions t) flow_id)) (\<lambda>solution.
       andthen (request_flow_mirroring srv flow solution ids flow_id) (\<lambda>token.
       ret (dict_set flow_tokens flow_id token)))) [] (fm_flows t) sent' =
     (Inr (fold (\<lambda>(k, v) d. dict_set d k v) tokens []), sent' @ map (mirrored_flow_request ids (fm_solutions t)) (fm_flows t))"
    and keys: "map fst tokens = dict_keys (fm_flows t)"
    using install_loop [OF assms(2,4), of "[]" sent'] by blast
  have "dict_of tokens = tokens" using assms(3) keys by (intro dict_of_distinct) (simp add: dict_wf_def)
  then show ?thesis
    using run keys by (simp add: fm_add_flows_def add_flow_mirroring_flows_def dict_of_def
        andthen_run(1) [where m = "get_and_validate_onos_topo srv gm (fm_topology t)", OF assms(1)])
qed

definition ex_mirror_trial :: flow_mirroring_trial where
  "ex_mirror_trial = new_flow_mirroring_trial ex_topology
     [(5, \<lparr>fd_flow_id = 5, fd_traffic_rate = 1, fd_path = [1, 2]\<rparr>), (6, \<lparr>fd_flow_id = 6, fd_traffic_rate = 1, fd_path = [2]\<rparr>)]
     [] [(5, \<lparr>so_flow_id = 5, so_mirror_switch_id = 2, so_objective_value = 1\<rparr>),
            (6, \<lparr>so_flow_id = 6, so_mirror_switch_id = 2, so_objective_value = 1\<rparr>)] [] 60 ''t''"

theorem mirrored_flows_installed_witness:
  "\<exists>tokens. fm_add_flows ex_controller ordered_matcher ex_mirror_trial [] =
     (Inr tokens, [onos_get ''v1/links'', onos_get ''v1/hosts''] @
        map (mirrored_flow_request [(1, ''of:a''), (2, ''of:b'')] (fm_solutions ex_mirror_trial)) (fm_flows ex_mirror_trial))
     \<and> dict_keys tokens = [5, 6]"
proof -
  let ?ids = "[(1 :: int, ''of:a''), (2, ''of:b'')]"
  have val: "get_and_validate_onos_topo ex_controller ordered_matcher (fm_topology ex_mirror_trial) [] =
     (Inr ?ids, [onos_get ''v1/links'', onos_get ''v1/hosts''])"
    using ex_validate by (simp add: ex_mirror_trial_def new_flow_mirroring_trial_def)
  have acc: "accepts ex_controller (\<lambda>_ _. JInt 7)"
    by (simp add: accepts_def ex_controller_def onos_post_def)
  have keys: "dict_keys (fm_flows ex_mirror_trial) = [5, 6]" and wf: "dict_wf (fm_flows ex_mirror_trial)" by code_simp+
  have inst: "\<forall>p \<in> set (fm_flows ex_mirror_trial). flow_installable ?ids (fm_solutions ex_mirror_trial) p" by code_simp
  show ?thesis
    using mirrored_flows_installed [OF val acc wf inst] by (simp only: keys)
qed

text \<open>
  The network port of a port of a trial: that of the link to the neighbour the port leads to.
\<close>

lemma port_number_set:
  "port_number (dict_set pm s (dict_set (dict_get_default pm s []) p n)) s' p' =
     (if s' = s \<and> p' = p then Inr n else port_number pm s' p')"
  by (simp add: port_number_def dict_get_default_def)

definition nw_port :: "server \<Rightarrow> (int, string) dict \<Rightarrow> int \<Rightarrow> int \<Rightarrow> int \<Rightarrow> bool" where
  "nw_port srv ids s d n \<longleftrightarrow> (\<exists>a b q. map_of ids s = Some a \<and> map_of ids d = Some b
     \<and> fst (get_ports_that_connect srv a b []) = Inr (n, q))"

lemma steady_ports_that_connect: "steady_server srv \<Longrightarrow> steady (get_ports_that_connect srv a b)"
  unfolding get_ports_that_connect_def get_nw_links_def
  by (intro steady_andthen steady_send_checked steady_ret)

lemma map_port_run:
  assumes "steady_server srv" and "map_port srv ids s pm (d, p) sent = (Inr pm', sent')"
  shows "\<exists>n. nw_port srv ids s d n \<and> pm' = dict_set pm s (dict_set (dict_get_default pm s []) p n)"
proof -
  from assms(2) obtain a b n q t where run: "map_of ids s = Some a" "map_of ids d = Some b"
    "get_ports_that_connect srv a b sent = (Inr (n, q), t)"
    "pm' = dict_set pm s (dict_set (dict_get_default pm s []) p n)"
    by (auto simp: map_port_def dict_get_Inr_iff elim!: andthen_InrE)
  moreover have "fst (get_ports_that_connect srv a b []) = Inr (n, q)"
    using steadyD [OF steady_ports_that_connect [OF assms(1)] run(3), of "[]"] by auto
  ultimately show ?thesis unfolding nw_port_def by blast
qed

lemma map_switch_ports:
  assumes "steady_server srv" and "fold_prog (map_port srv ids s) pm inner sent = (Inr pm', sent')"
    and "distinct (dict_values inner)"
  shows "(\<forall>(d, p) \<in> set inner. \<exists>n. port_number pm' s p = Inr n \<and> nw_port srv ids s d n) \<and>
    (\<forall>s' p'. s' \<noteq> s \<or> p' \<notin> set (dict_values inner) \<longrightarrow> port_number pm' s' p' = port_number pm s' p')"
  using assms(2,3)
proof (induction inner arbitrary: pm sent)
  case (Cons x inner)
  obtain d p where x: "x = (d, p)" by (cases x)
  from Cons.prems(1) obtain pm1 t where step: "map_port srv ids s pm (d, p) sent = (Inr pm1, t)"
    and rest: "fold_prog (map_port srv ids s) pm1 inner t = (Inr pm', sent')"
    by (auto simp: x elim!: andthen_InrE)
  obtain n where n: "nw_port srv ids s d n" "pm1 = dict_set pm s (dict_set (dict_get_default pm s []) p n)"
    using map_port_run [OF assms(1) step] by blast
  have ih: "\<forall>(d, p) \<in> set inner. \<exists>n. port_number pm' s p = Inr n \<and> nw_port srv ids s d n"
    "\<forall>s' p'. s' \<noteq> s \<or> p' \<notin> set (dict_values inner) \<longrightarrow> port_number pm' s' p' = port_number pm1 s' p'"
    using Cons.IH [OF rest] Cons.prems(2) by auto
  have "port_number pm' s p = Inr n"
    using ih(2) Cons.prems(2) by (simp add: x n(2) port_number_set)
  then show ?case using ih n(1) by (auto simp: x n(2) port_number_set)
qed simp

text \<open>
  The port numbers of a trial on the network: while the controller's answers stay the same, the
  network port of a switch's port is the port of the link from the switch's device to that of the
  neighbour the port leads to.
\<close>

theorem port_ids_mapped:
  assumes "steady_server srv" and "map_port_ids_to_nw_ports srv mirroring_ports ids sent = (Inr pm, sent')"
    and "dict_wf mirroring_ports" and "\<forall>(s, inner) \<in> set mirroring_ports. distinct (dict_values inner)"
  shows "\<forall>(s, inner) \<in> set mirroring_ports. \<forall>(d, p) \<in> set inner. \<exists>a b n q.
     port_number pm s p = Inr n \<and> map_of ids s = Some a \<and> map_of ids d = Some b \<and>
     fst (get_ports_that_connect srv a b []) = Inr (n, q)"
proof -
  have "(\<forall>(s, inner) \<in> set mp. \<forall>(d, p) \<in> set inner. \<exists>n. port_number pm s p = Inr n \<and> nw_port srv ids s d n) \<and>
      (\<forall>s p. s \<notin> set (dict_keys mp) \<longrightarrow> port_number pm s p = port_number pm0 s p)"
    if "fold_prog (\<lambda>pm (s, inner). fold_prog (map_port srv ids s) pm inner) pm0 mp sent = (Inr pm, sent')"
      "dict_wf mp" "\<forall>(s, inner) \<in> set mp. distinct (dict_values inner)" for mp pm0 sent
    using that
  proof (induction mp arbitrary: pm0 sent)
    case (Cons x mp)
    obtain s inner where x: "x = (s, inner)" by (cases x)
    from Cons.prems(1) obtain pm1 t where step: "fold_prog (map_port srv ids s) pm0 inner sent = (Inr pm1, t)"
      and rest: "fold_prog (\<lambda>pm (s, inner). fold_prog (map_port srv ids s) pm inner) pm1 mp t = (Inr pm, sent')"
      by (auto simp: x elim!: andthen_InrE)
    have wf: "dict_wf mp" "s \<notin> set (dict_keys mp)" using Cons.prems(2) by (auto simp: x dict_wf_def)
    have ih: "\<forall>(s, inner) \<in> set mp. \<forall>(d, p) \<in> set inner. \<exists>n. port_number pm s p = Inr n \<and> nw_port srv ids s d n"
      "\<forall>s p. s \<notin> set (dict_keys mp) \<longrightarrow> port_number pm s p = port_number pm1 s p"
      using Cons.IH [OF rest wf(1)] Cons.prems(3) by auto
    have "distinct (dict_values inner)" using Cons.prems(3) by (auto simp: x)
    from map_switch_ports [OF assms(1) step this] show ?case using ih wf(2) by (auto simp: x)
  qed simp
  from this [OF assms(2) [unfolded map_port_ids_to_nw_ports_def] assms(3,4)] show ?thesis
    unfolding nw_port_def by fastforce
qed

theorem port_ids_mapped_witness:
  "\<exists>pm a b n q. map_port_ids_to_nw_ports ex_controller [(1, [(2, 8)]), (2, [(1, 9)])] [(1, ''of:a''), (2, ''of:b'')] [] =
      (Inr pm, [onos_get ''v1/links'', onos_get ''v1/links'']) \<and>
     port_number pm 2 9 = Inr n \<and> map_of [(1 :: int, ''of:a''), (2, ''of:b'')] 2 = Some a \<and> map_of [(1 :: int, ''of:a''), (2, ''of:b'')] 1 = Some b \<and>
     fst (get_ports_that_connect ex_controller a b []) = Inr (n, q) \<and> n = 2"
proof -
  let ?pm = "[(1, [(8, 1)]), (2, [(9, 2)])] :: port_map"
  have run: "map_port_ids_to_nw_ports ex_controller [(1, [(2, 8)]), (2, [(1, 9)])] [(1, ''of:a''), (2, ''of:b'')] [] =
      (Inr ?pm, [onos_get ''v1/links'', onos_get ''v1/links''])" by code_simp
  have "steady_server ex_controller" by (simp add: steady_server_def ex_controller_def)
  from port_ids_mapped [OF this run] have "\<exists>a b n q. port_number ?pm 2 9 = Inr n \<and> map_of [(1 :: int, ''of:a''), (2, ''of:b'')] 2 = Some a \<and>
      map_of [(1 :: int, ''of:a''), (2, ''of:b'')] 1 = Some b \<and> fst (get_ports_that_connect ex_controller a b []) = Inr (n, q)"
    by (simp add: dict_wf_def)
  moreover have "port_number ?pm 2 9 = Inr 2" by code_simp
  ultimately show ?thesis using run by auto
qed

text \<open>
  The check that all flows are mirrored does not look at port numbers: it looks up port ids as
  if they were switches, so a flow on another port of the mirrored switch is taken for mirrored.
\<close>

lemma mirroring_check_unreliable:
  "verify_that_all_flows_are_mirrored [(0, \<lparr>pf_flow_id = 0, pf_traffic_rate = 1, pf_hops = [(1, 8), (2, 0)]\<rparr>)]
     [(1, [\<lparr>ms_switch_id = 1, ms_switch_port = 7, ms_objective = 1, ms_coverage = None\<rparr>])]
     [(1, [(7, 71), (8, 81)]), (2, [(9, 91)])] [(1, ''of:a''), (2, ''of:b'')] = Inr True"
  by code_simp

end
