(* ===== verification/Openflow.thy ===== *)
theory Openflow
  imports Http
begin

section \<open>The OpenFlow REST client\<close>

text \<open>
  \<open>nw_control/flowmod.py\<close> (flow modification messages), \<open>nw_control/of_rest_client.py\<close> (requests to
  the Ryu controller and the classes that read its answers), \<open>nw_control/of_processor.py\<close> (one method
  per request) and the functions of \<open>nw_control/util.py\<close> they use.  The controller is the parameter
  \<open>srv\<close>.  A field that is \<open>None\<close> is \<open>JNull\<close>.  The classes' \<open>__str__\<close> methods, used for messages only, are
  modelled where another method relies on them.
\<close>

subsection \<open>Hexadecimal numbers\<close>

definition hex_char :: "nat \<Rightarrow> char" where
  "hex_char d = (if d < 10 then char_of (48 + d) else char_of (87 + d))"

definition hex_digit :: "char \<Rightarrow> nat option" where
  "hex_digit c = (let n = (of_char c :: nat) in
     if 48 \<le> n \<and> n \<le> 57 then Some (n - 48)
     else if 97 \<le> n \<and> n \<le> 102 then Some (n - 87)
     else if 65 \<le> n \<and> n \<le> 70 then Some (n - 55)
     else None)"

fun show_hex :: "nat \<Rightarrow> string" where
  "show_hex n = (if n < 16 then [hex_char n] else show_hex (n div 16) @ [hex_char (n mod 16)])"

declare show_hex.simps [simp del]

definition hex_value :: "string \<Rightarrow> nat" where
  "hex_value s = foldl (\<lambda>acc c. 16 * acc + the (hex_digit c)) 0 s"

text \<open>\<open>int(s, 16)\<close>: white space around, a sign, a prefix \<open>0x\<close> and single underscores between digits.\<close>

definition drop_hex_prefix :: "string \<Rightarrow> string" where
  "drop_hex_prefix s = (case s of
       c # d # r \<Rightarrow> if c = CHR ''0'' \<and> (d = CHR ''x'' \<or> d = CHR ''X'')
                    then (case r of e # r' \<Rightarrow> if e = CHR ''_'' then r' else r | [] \<Rightarrow> r) else s
     | _ \<Rightarrow> s)"

definition unsigned_hex :: "string \<Rightarrow> int res" where
  "unsigned_hex s = (let groups = split_on (CHR ''_'') (drop_hex_prefix s) in
     if \<forall>g \<in> set groups. g \<noteq> [] \<and> (\<forall>c \<in> set g. hex_digit c \<noteq> None) then Inr (int (hex_value (concat groups)))
     else Inl ValueError)"

definition py_int16 :: "string \<Rightarrow> int res" where
  "py_int16 s = (case strip s of
       [] \<Rightarrow> Inl ValueError
     | c # cs \<Rightarrow> if c = CHR ''-'' then rbind (unsigned_hex cs) (\<lambda>i. Inr (- i))
                else if c = CHR ''+'' then unsigned_hex cs
                else unsigned_hex (c # cs))"

definition dpid_fmt :: "int \<Rightarrow> string" where
  "dpid_fmt dpid = (let h = show_hex (nat (abs dpid)) in
     if dpid < 0 then CHR ''-'' # replicate (15 - length h) (CHR ''0'') @ h
     else replicate (16 - length h) (CHR ''0'') @ h)"

lemma hex_digit_char [simp]: "d < 16 \<Longrightarrow> hex_digit (hex_char d) = Some d"
  by (auto simp: hex_char_def hex_digit_def)

lemma hex_value_append: "hex_value (s @ [c]) = 16 * hex_value s + the (hex_digit c)"
  by (simp add: hex_value_def)

lemma hex_value_show: "hex_value (show_hex n) = n"
proof (induction n rule: show_hex.induct)
  case (1 n)
  show ?case
  proof (cases "n < 16")
    case True
    then show ?thesis by (subst show_hex.simps) (simp add: hex_value_def)
  next
    case False
    then show ?thesis using 1 by (subst show_hex.simps) (simp add: hex_value_append)
  qed
qed

lemma show_hex_digits: "c \<in> set (show_hex n) \<Longrightarrow> hex_digit c \<noteq> None"
proof (induction n rule: show_hex.induct)
  case (1 n)
  then show ?case by (subst (asm) (2) show_hex.simps) (auto split: if_splits)
qed

lemma show_hex_nonempty: "show_hex n \<noteq> []"
  by (subst show_hex.simps) simp

lemma hex_digit_zero: "hex_digit (CHR ''0'') = Some 0"
  by (simp add: hex_digit_def)

lemma hex_value_zeros: "hex_value (replicate k (CHR ''0'') @ s) = hex_value s"
  by (induction k) (simp_all add: hex_value_def hex_digit_zero)

lemma no_hex_digits:
  "hex_digit (CHR ''_'') = None" "hex_digit (CHR ''x'') = None" "hex_digit (CHR ''X'') = None"
  "hex_digit (CHR ''-'') = None" "hex_digit (CHR ''+'') = None"
  by (simp_all add: hex_digit_def)

lemma hex_not_space: "hex_digit c \<noteq> None \<Longrightarrow> \<not> is_space c"
  by (auto simp: hex_digit_def is_space_def Let_def split: if_splits)

lemma drop_hex_prefix_digits: "\<forall>c \<in> set s. hex_digit c \<noteq> None \<Longrightarrow> drop_hex_prefix s = s"
  using no_hex_digits by (auto simp: drop_hex_prefix_def split: list.splits)

lemma unsigned_hex_digits:
  assumes "s \<noteq> []" and "\<forall>c \<in> set s. hex_digit c \<noteq> None"
  shows "unsigned_hex s = Inr (int (hex_value s))"
proof -
  have "CHR ''_'' \<notin> set s" using assms(2) no_hex_digits(1) by metis
  then have "split_on (CHR ''_'') s = [s]" by (rule split_on_none)
  then show ?thesis using assms by (simp add: unsigned_hex_def drop_hex_prefix_digits)
qed

lemma py_int16_digits:
  assumes "s \<noteq> []" and "\<forall>c \<in> set s. hex_digit c \<noteq> None"
  shows "py_int16 s = Inr (int (hex_value s))"
proof -
  have st: "strip s = s" using assms(2) hex_not_space by (intro strip_digits) blast
  obtain c cs where s: "s = c # cs" using assms(1) by (cases s) auto
  have "c \<noteq> CHR ''-'' \<and> c \<noteq> CHR ''+''" using assms(2) no_hex_digits(4,5) unfolding s by (metis list.set_intros(1))
  then show ?thesis using unsigned_hex_digits [OF assms] unfolding py_int16_def st by (simp add: s)
qed

definition hex_padded :: "nat \<Rightarrow> nat \<Rightarrow> string" where
  "hex_padded w n = replicate (w - length (show_hex n)) (CHR ''0'') @ show_hex n"

lemma py_int16_hex_padded [simp]: "py_int16 (hex_padded w n) = Inr (int n)"
proof -
  let ?s = "hex_padded w n"
  have "?s \<noteq> []" by (simp add: hex_padded_def show_hex_nonempty)
  moreover have "\<forall>c \<in> set ?s. hex_digit c \<noteq> None"
    using show_hex_digits by (auto simp: hex_padded_def hex_digit_zero)
  ultimately have "py_int16 ?s = Inr (int (hex_value ?s))" by (rule py_int16_digits)
  then show ?thesis by (simp add: hex_padded_def hex_value_zeros hex_value_show)
qed

lemma dpid_fmt_padded: "dpid_fmt (int n) = hex_padded 16 n"
  by (simp add: dpid_fmt_def hex_padded_def Let_def)

subsection \<open>Flow modification messages\<close>

datatype IPProto = ICMP | TCP | UDP

fun ip_proto_value :: "IPProto \<Rightarrow> int" where
  "ip_proto_value ICMP = 2"
| "ip_proto_value TCP = 6"
| "ip_proto_value UDP = 17"

datatype MatchTypes =
    in_port | eth_dst | eth_src | eth_type | vlan_vid | vlan_pcp | ip_dscp | ip_ecn | ip_proto
  | ipv4_src | ipv4_dst | tcp_src | tcp_dst | udp_src | udp_dst | icmpv4_code | icmpv4_type
  | arp_op | arp_spa | arp_tpa | arp_sha | arp_tha

fun match_type_string :: "MatchTypes \<Rightarrow> string" where
  "match_type_string in_port = ''in_port''"
| "match_type_string eth_dst = ''eth_dst''"
| "match_type_string eth_src = ''eth_src''"
| "match_type_string eth_type = ''eth_type''"
| "match_type_string vlan_vid = ''vlan_vid''"
| "match_type_string vlan_pcp = ''vlan_pcp''"
| "match_type_string ip_dscp = ''ip_dscp''"
| "match_type_string ip_ecn = ''ip_ecn''"
| "match_type_string ip_proto = ''ip_proto''"
| "match_type_string ipv4_src = ''ipv4_src''"
| "match_type_string ipv4_dst = ''ipv4_dst''"
| "match_type_string tcp_src = ''tcp_src''"
| "match_type_string tcp_dst = ''tcp_dst''"
| "match_type_string udp_src = ''udp_src''"
| "match_type_string udp_dst = ''udp_dst''"
| "match_type_string icmpv4_code = ''icmpv4_code''"
| "match_type_string icmpv4_type = ''icmpv4_type''"
| "match_type_string arp_op = ''arp_op''"
| "match_type_string arp_spa = ''arp_spa''"
| "match_type_string arp_tpa = ''arp_tpa''"
| "match_type_string arp_sha = ''arp_sha''"
| "match_type_string arp_tha = ''arp_tha''"

datatype ActionTypes = Output | SetField | GotoTable

fun action_type_string :: "ActionTypes \<Rightarrow> string" where
  "action_type_string Output = ''OUTPUT''"
| "action_type_string SetField = ''SET_FIELD''"
| "action_type_string GotoTable = ''GOTO_TABLE''"

type_synonym of_match = "(string, json) dict"

definition new_match :: "MatchTypes \<Rightarrow> json \<Rightarrow> of_match" where
  "new_match match_type match_value = dict_set [] (match_type_string match_type) match_value"

definition add_criteria :: "of_match \<Rightarrow> MatchTypes \<Rightarrow> json \<Rightarrow> of_match" where
  "add_criteria m match_type match_value = dict_set m (match_type_string match_type) match_value"

record of_action =
  action_type :: ActionTypes
  action_values :: "(string, json) dict"

definition action_get_dict :: "of_action \<Rightarrow> (string, json) dict" where
  "action_get_dict a = fold (\<lambda>(k, v) d. dict_set d k v) (action_values a)
     (dict_set [] ''type'' (JStr (action_type_string (action_type a))))"

record flowmod =
  fm_dpid :: json
  fm_cookie :: json
  fm_cookie_mask :: json
  fm_table_id :: json
  fm_idle_timeout :: json
  fm_hard_timeout :: json
  fm_priority :: json
  fm_flags :: json
  fm_match :: "(string, json) dict"
  fm_actions :: "json list"

definition new_flowmod :: "json \<Rightarrow> flowmod" where
  "new_flowmod dpid = \<lparr>fm_dpid = dpid, fm_cookie = JNull, fm_cookie_mask = JNull, fm_table_id = JNull,
     fm_idle_timeout = JNull, fm_hard_timeout = JNull, fm_priority = JNull, fm_flags = JNull,
     fm_match = [], fm_actions = []\<rparr>"

definition add_match :: "flowmod \<Rightarrow> of_match \<Rightarrow> flowmod" where
  "add_match fm m = fm\<lparr>fm_match := fold (\<lambda>(k, v) d. dict_set d k v) m (fm_match fm)\<rparr>"

definition add_action :: "flowmod \<Rightarrow> of_action \<Rightarrow> flowmod" where
  "add_action fm a = fm\<lparr>fm_actions := fm_actions fm @ [JObj (action_get_dict a)]\<rparr>"

definition set_field :: "(string, json) dict \<Rightarrow> string \<Rightarrow> json \<Rightarrow> (string, json) dict" where
  "set_field d k v = (if v \<noteq> JNull then dict_set d k v else d)"

text \<open>
  \<open>get_json\<close> calls \<open>set_field\<close>, a function of \<open>util\<close>; the module binds the name \<open>util\<close>, and no
  \<open>set_field\<close>.  \<open>flowmod_globals\<close> are the names the module binds.
\<close>

definition flowmod_globals :: "string list" where
  "flowmod_globals = [''Enum'', ''reduce'', ''util'', ''IPProto'', ''Flowmod'', ''MatchTypes'',
     ''ActionTypes'', ''Match'', ''Action'']"

definition global_name :: "string list \<Rightarrow> string \<Rightarrow> 'a \<Rightarrow> 'a res" where
  "global_name names x v = (if x \<in> set names then Inr v else Inl NameError)"

definition flowmod_fields ::
  "((string, json) dict \<Rightarrow> string \<Rightarrow> json \<Rightarrow> (string, json) dict) \<Rightarrow> flowmod \<Rightarrow> (string, json) dict" where
  "flowmod_fields sf fm =
     (let d = dict_set [] ''dpid'' (fm_dpid fm);
          d = sf d ''dpid'' (fm_dpid fm);
          d = sf d ''cookie'' (fm_cookie fm);
          d = sf d ''cookie_mask'' (fm_cookie_mask fm);
          d = sf d ''table_id'' (fm_table_id fm);
          d = sf d ''idle_timeout'' (fm_idle_timeout fm);
          d = sf d ''hard_timeout'' (fm_hard_timeout fm);
          d = sf d ''priority'' (fm_priority fm);
          d = sf d ''flags'' (fm_flags fm);
          d = dict_set d ''match'' (JObj (fm_match fm))
      in dict_set d ''actions'' (JList (fm_actions fm)))"

definition get_json :: "flowmod \<Rightarrow> json res" where
  "get_json fm = rbind (global_name flowmod_globals ''set_field'' set_field) (\<lambda>sf. Inr (JObj (flowmod_fields sf fm)))"

lemma match_type_string_inject: "match_type_string a = match_type_string b \<longleftrightarrow> a = b"
  by (cases a; cases b) simp_all

lemma get_json_raises: "get_json fm = Inl NameError"
  by (simp add: get_json_def global_name_def flowmod_globals_def)

subsection \<open>Answers of the controller\<close>

datatype OFRequestType =
    ReqSwitchList | ReqSwitchFlows | ReqPushFlowmod | ReqTopologyLinks | ReqSwitchDesc
  | ReqRemoveAllFlows | ReqRemoveFlow | ReqGetPortStats

datatype OFResponse =
    OFStatusResponse (response_code: int)
  | OFResponseSwitchList (response_code: int) (of_resp: json)
  | OFResponseSwitchFlows (response_code: int) (of_resp: json)
  | OFResponseTopologyLinks (response_code: int) (of_resp: json)
  | OFResponseSwitchDesc (response_code: int) (of_resp: json)
  | OFPortStatsResponse (response_code: int) (of_resp: json)

text \<open>\<open>parse_json\<close> of the six classes: all but the first decode the body.\<close>

definition parse_body :: "(int \<Rightarrow> json \<Rightarrow> OFResponse) \<Rightarrow> int \<times> json option \<Rightarrow> OFResponse res" where
  "parse_body cons reply = rbind (loads (snd reply)) (\<lambda>j. Inr (cons (fst reply) j))"

definition parse_status :: "int \<times> json option \<Rightarrow> OFResponse res" where
  "parse_status reply = Inr (OFStatusResponse (fst reply))"

fun get_type_parser :: "OFRequestType \<Rightarrow> int \<times> json option \<Rightarrow> OFResponse res" where
  "get_type_parser ReqSwitchList = parse_body OFResponseSwitchList"
| "get_type_parser ReqSwitchFlows = parse_body OFResponseSwitchFlows"
| "get_type_parser ReqPushFlowmod = parse_status"
| "get_type_parser ReqTopologyLinks = parse_body OFResponseTopologyLinks"
| "get_type_parser ReqSwitchDesc = parse_body OFResponseSwitchDesc"
| "get_type_parser ReqRemoveAllFlows = parse_status"
| "get_type_parser ReqRemoveFlow = parse_status"
| "get_type_parser ReqGetPortStats = parse_body OFPortStatsResponse"

fun get_http_req_type :: "OFRequestType \<Rightarrow> http_method" where
  "get_http_req_type ReqSwitchList = GET"
| "get_http_req_type ReqSwitchFlows = GET"
| "get_http_req_type ReqPushFlowmod = POST"
| "get_http_req_type ReqTopologyLinks = GET"
| "get_http_req_type ReqSwitchDesc = GET"
| "get_http_req_type ReqRemoveAllFlows = DELETE"
| "get_http_req_type ReqRemoveFlow = POST"
| "get_http_req_type ReqGetPortStats = GET"

definition from_json :: "int \<times> json option \<Rightarrow> OFRequestType \<Rightarrow> OFResponse res" where
  "from_json reply req_type = (if fst reply \<noteq> 200 then Inl IOError else get_type_parser req_type reply)"

definition get_flows :: "json \<Rightarrow> json list res" where
  "get_flows resp = rbind (json_items resp) (fold_res (\<lambda>flow_list item.
     rbind (json_list (snd item)) (\<lambda>flows. Inr (flow_list @ flows))) [])"

definition get_flow_count :: "json \<Rightarrow> nat res" where
  "get_flow_count resp = rbind (get_flows resp) (\<lambda>fs. Inr (length fs))"

text \<open>\<open>entry[end]['dpid']\<close> and \<open>entry[end]['port_no']\<close>, read as hexadecimal numbers.\<close>

definition hex_at :: "json \<Rightarrow> string \<Rightarrow> string \<Rightarrow> int res" where
  "hex_at entry side field = rbind (json_get entry side) (\<lambda>e. rbind (json_get e field) (\<lambda>v.
     rbind (json_str v) py_int16))"

type_synonym adj_mat = "(int, (int, int) dict) dict"

definition add_adj :: "adj_mat \<Rightarrow> json \<Rightarrow> adj_mat res" where
  "add_adj adj entry = rbind (hex_at entry ''dst'' ''dpid'') (\<lambda>dst_id.
     rbind (hex_at entry ''src'' ''dpid'') (\<lambda>src_id.
     rbind (hex_at entry ''dst'' ''port_no'') (\<lambda>port.
     Inr (dict_set adj dst_id (dict_set (dict_get_default adj dst_id []) src_id port)))))"

definition get_adj_mat :: "json \<Rightarrow> adj_mat res" where
  "get_adj_mat resp = rbind (json_list resp) (fold_res add_adj [])"

definition get_sw_dpid :: "json \<Rightarrow> string option res" where
  "get_sw_dpid resp = rbind (json_items resp) (\<lambda>d. Inr (if d = [] then None else Some (fst (last d))))"

definition get_sw_name :: "json \<Rightarrow> json res" where
  "get_sw_name resp = rbind (get_sw_dpid resp) (\<lambda>dpid. case dpid of
       None \<Rightarrow> Inl KeyError
     | Some k \<Rightarrow> rbind (json_get resp k) (\<lambda>v. json_get v ''dp_desc''))"

definition build_port_dict :: "(json \<Rightarrow> json res) \<Rightarrow> json \<Rightarrow> (int, json) dict res" where
  "build_port_dict field_accessor resp = rbind (json_items resp) (fold_res (\<lambda>ret_dict item.
     rbind (json_list (snd item)) (fold_res (\<lambda>ret_dict port_desc.
       rbind (json_get port_desc ''port_no'') (\<lambda>p. rbind (json_to_int p) (\<lambda>port_no.
       rbind (field_accessor port_desc) (\<lambda>field_val. Inr (dict_set ret_dict port_no field_val))))) ret_dict)) [])"

definition get_tx_packets :: "json \<Rightarrow> (int, json) dict res" where
  "get_tx_packets = build_port_dict (\<lambda>d. json_get d ''tx_packets'')"

definition get_rx_packets :: "json \<Rightarrow> (int, json) dict res" where
  "get_rx_packets = build_port_dict (\<lambda>d. json_get d ''rx_packets'')"

subsection \<open>Requests\<close>

text \<open>A dpid is passed as a number or as a string.\<close>

datatype dpid = DInt int | DStr string

fun dpid_json :: "dpid \<Rightarrow> json" where
  "dpid_json (DInt i) = JInt i"
| "dpid_json (DStr s) = JStr s"

fun formatted :: "dpid \<Rightarrow> string" where
  "formatted (DStr s) = s"
| "formatted (DInt i) = show_int i"

datatype OFRequest =
    SwitchList
  | SwitchFlows dpid
  | PushFlowmod flowmod
  | TopologyLinks
  | SwitchDesc dpid
  | RemoveAllFlows dpid
  | RemoveFlow dpid flowmod
  | GetPortStats dpid

fun req_type :: "OFRequest \<Rightarrow> OFRequestType" where
  "req_type SwitchList = ReqSwitchList"
| "req_type (SwitchFlows _) = ReqSwitchFlows"
| "req_type (PushFlowmod _) = ReqPushFlowmod"
| "req_type TopologyLinks = ReqTopologyLinks"
| "req_type (SwitchDesc _) = ReqSwitchDesc"
| "req_type (RemoveAllFlows _) = ReqRemoveAllFlows"
| "req_type (RemoveFlow _ _) = ReqRemoveFlow"
| "req_type (GetPortStats _) = ReqGetPortStats"

text \<open>\<open>'/stats/flow/%d'\<close> needs a number; the other urls take the dpid as it is.\<close>

fun request_path :: "OFRequest \<Rightarrow> string res" where
  "request_path SwitchList = Inr ''/stats/switches''"
| "request_path (SwitchFlows (DInt i)) = Inr (''/stats/flow/'' @ show_int i)"
| "request_path (SwitchFlows (DStr s)) = Inl TypeError"
| "request_path (PushFlowmod _) = Inr ''/stats/flowentry/add''"
| "request_path TopologyLinks = Inr ''/v1.0/topology/links''"
| "request_path (SwitchDesc d) = Inr (''/stats/desc/'' @ formatted d)"
| "request_path (RemoveAllFlows d) = Inr (''/stats/flowentry/clear/'' @ formatted d)"
| "request_path (RemoveFlow _ _) = Inr ''/stats/flowentry/delete''"
| "request_path (GetPortStats d) = Inr (''/stats/port/'' @ formatted d)"

definition get_host_url :: "string \<Rightarrow> int \<Rightarrow> string \<Rightarrow> string" where
  "get_host_url host port_no req_str = ''http://'' @ host @ '':'' @ show_int port_no @ req_str"

definition get_request_url :: "string \<Rightarrow> int \<Rightarrow> OFRequest \<Rightarrow> string res" where
  "get_request_url host port_no r = rbind (request_path r) (\<lambda>p. Inr (get_host_url host port_no p))"

fun get_request_params :: "OFRequest \<Rightarrow> json res" where
  "get_request_params (PushFlowmod fm) = get_json fm"
| "get_request_params (RemoveFlow _ fm) = get_json fm"
| "get_request_params _ = Inr (JObj [])"

definition get_response :: "server \<Rightarrow> string \<Rightarrow> int \<Rightarrow> OFRequest \<Rightarrow> OFResponse io" where
  "get_response srv host port_no r =
     andthen (of_res (get_request_url host port_no r)) (\<lambda>of_request.
     andthen (of_res (get_request_params r)) (\<lambda>of_params.
     andthen (send srv \<lparr>rq_method = get_http_req_type (req_type r), rq_url = of_request, rq_body = Some of_params\<rparr>) (\<lambda>resp.
     of_res (from_json resp (req_type r)))))"

subsection \<open>The processor\<close>

record of_processor =
  of_controller_ip :: string
  of_controller_port :: int

definition proc_response :: "server \<Rightarrow> of_processor \<Rightarrow> OFRequest \<Rightarrow> OFResponse io" where
  "proc_response srv p r = get_response srv (of_controller_ip p) (of_controller_port p) r"

definition get_switch_list :: "server \<Rightarrow> of_processor \<Rightarrow> json io" where
  "get_switch_list srv p = andthen (proc_response srv p SwitchList) (\<lambda>resp. ret (of_resp resp))"

definition get_switch_flows :: "server \<Rightarrow> of_processor \<Rightarrow> dpid \<Rightarrow> OFResponse io" where
  "get_switch_flows srv p dpid = proc_response srv p (SwitchFlows dpid)"

definition push_flow_mod :: "server \<Rightarrow> of_processor \<Rightarrow> dpid \<Rightarrow> flowmod \<Rightarrow> OFResponse io" where
  "push_flow_mod srv p dpid flow_mod = proc_response srv p (PushFlowmod flow_mod)"

definition get_topo_links :: "server \<Rightarrow> of_processor \<Rightarrow> OFResponse io" where
  "get_topo_links srv p = proc_response srv p TopologyLinks"

definition get_switch_desc :: "server \<Rightarrow> of_processor \<Rightarrow> dpid \<Rightarrow> OFResponse io" where
  "get_switch_desc srv p dpid = proc_response srv p (SwitchDesc dpid)"

definition remove_all_flows :: "server \<Rightarrow> of_processor \<Rightarrow> dpid \<Rightarrow> OFResponse io" where
  "remove_all_flows srv p dpid = proc_response srv p (RemoveAllFlows dpid)"

definition remove_flow :: "server \<Rightarrow> of_processor \<Rightarrow> dpid \<Rightarrow> flowmod \<Rightarrow> OFResponse io" where
  "remove_flow srv p dpid flow_mod = proc_response srv p (RemoveFlow dpid flow_mod)"

definition get_port_stats :: "server \<Rightarrow> of_processor \<Rightarrow> dpid \<Rightarrow> OFResponse io" where
  "get_port_stats srv p dpid = proc_response srv p (GetPortStats dpid)"

definition remove_table_flows :: "server \<Rightarrow> of_processor \<Rightarrow> dpid \<Rightarrow> json \<Rightarrow> OFResponse io" where
  "remove_table_flows srv p dpid table_id =
     remove_flow srv p dpid ((new_flowmod (dpid_json dpid))\<lparr>fm_table_id := table_id\<rparr>)"

definition default_route :: "dpid \<Rightarrow> flowmod" where
  "default_route dpid = add_action ((new_flowmod (dpid_json dpid))\<lparr>fm_priority := JInt 1, fm_table_id := JInt 100\<rparr>)
     \<lparr>action_type = Output, action_values = [(''port'', JInt 4294967293)]\<rparr>"

definition add_default_route :: "server \<Rightarrow> of_processor \<Rightarrow> dpid \<Rightarrow> json \<Rightarrow> unit io" where
  "add_default_route srv p dpid table_id = andthen (push_flow_mod srv p dpid (default_route dpid)) (\<lambda>_. ret ())"

subsection \<open>Properties\<close>

lemma fold_dict_set_lookup: "map_of (fold (\<lambda>(k, v) d. dict_set d k v) items d) = map_of d ++ map_of (rev items)"
proof (induction items arbitrary: d)
  case (Cons kv items)
  obtain k v where "kv = (k, v)" by (cases kv)
  then show ?case using Cons by (auto simp: fun_eq_iff map_add_def split: option.splits)
qed simp

lemma add_match_lookup: "map_of (fm_match (add_match fm m)) = map_of (fm_match fm) ++ map_of (rev m)"
  by (simp add: add_match_def fold_dict_set_lookup)

text \<open>
  A request without a flow modification is sent once, to the controller's address, and its answer is
  read; \<open>answer_of\<close> is what becomes of an answer.
\<close>

definition answer_of :: "OFRequestType \<Rightarrow> http_reply \<Rightarrow> OFResponse res" where
  "answer_of t reply = (case reply of NoConnection \<Rightarrow> Inl IOError | Reply st body \<Rightarrow> from_json (st, body) t)"

fun carries_flowmod :: "OFRequest \<Rightarrow> bool" where
  "carries_flowmod (PushFlowmod _) = True"
| "carries_flowmod (RemoveFlow _ _) = True"
| "carries_flowmod _ = False"

definition of_http :: "string \<Rightarrow> int \<Rightarrow> OFRequest \<Rightarrow> string \<Rightarrow> http_request" where
  "of_http host port_no r p = \<lparr>rq_method = get_http_req_type (req_type r),
     rq_url = get_host_url host port_no p, rq_body = Some (JObj [])\<rparr>"

lemma get_response_sent:
  assumes "\<not> carries_flowmod r" and "request_path r = Inr p"
  shows "get_response srv host port_no r sent =
    (answer_of (req_type r) (srv sent (of_http host port_no r p)), sent @ [of_http host port_no r p])"
proof -
  have par: "get_request_params r = Inr (JObj [])" using assms(1) by (cases r) simp_all
  let ?rq = "of_http host port_no r p"
  show ?thesis
    by (cases "srv sent ?rq")
      (simp_all add: get_response_def get_request_url_def assms(2) par answer_of_def andthen_def
        send_def of_http_def)
qed

lemma get_response_flowmod:
  assumes "carries_flowmod r"
  shows "get_response srv host port_no r sent = (Inl NameError, sent)"
proof -
  have "get_request_params r = Inl NameError" using assms by (cases r) (simp_all add: get_json_raises)
  moreover have "\<exists>p. request_path r = Inr p" using assms by (cases r) simp_all
  ultimately show ?thesis by (auto simp: get_response_def get_request_url_def)
qed

text \<open>
  What a controller answers to \<open>/v1.0/topology/links\<close>: one object per directed link, with the dpids
  and port numbers of both ends in hexadecimal.
\<close>

record sw_link =
  l_src :: nat
  l_src_port :: nat
  l_dst :: nat
  l_dst_port :: nat

definition end_json :: "nat \<Rightarrow> nat \<Rightarrow> json" where
  "end_json dpid port = JObj [(''dpid'', JStr (dpid_fmt (int dpid))), (''port_no'', JStr (hex_padded 8 port))]"

definition link_json :: "sw_link \<Rightarrow> json" where
  "link_json l = JObj [(''src'', end_json (l_src l) (l_src_port l)), (''dst'', end_json (l_dst l) (l_dst_port l))]"

definition adj_port :: "adj_mat \<Rightarrow> int \<Rightarrow> int \<Rightarrow> int res" where
  "adj_port adj u v = rbind (Inr (dict_get_default adj u [])) (\<lambda>d. dict_get d v)"

lemma hex_at_link [simp]:
  "hex_at (link_json l) ''dst'' ''dpid'' = Inr (int (l_dst l))"
  "hex_at (link_json l) ''src'' ''dpid'' = Inr (int (l_src l))"
  "hex_at (link_json l) ''dst'' ''port_no'' = Inr (int (l_dst_port l))"
  by (simp_all add: hex_at_def link_json_def end_json_def dict_get_def dpid_fmt_padded)

lemma add_adj_links:
  "\<exists>adj'. fold_res add_adj adj (map link_json ls) = Inr adj' \<and>
     (\<forall>u v. adj_port adj' u v = (case map_of (rev (map (\<lambda>l. ((int (l_dst l), int (l_src l)), int (l_dst_port l))) ls)) (u, v) of
        None \<Rightarrow> adj_port adj u v | Some p \<Rightarrow> Inr p))"
proof (induction ls arbitrary: adj)
  case (Cons l ls)
  let ?adj = "dict_set adj (int (l_dst l)) (dict_set (dict_get_default adj (int (l_dst l)) []) (int (l_src l)) (int (l_dst_port l)))"
  have step: "add_adj adj (link_json l) = Inr ?adj" by (simp add: add_adj_def)
  have port: "adj_port ?adj u v = (if u = int (l_dst l) \<and> v = int (l_src l) then Inr (int (l_dst_port l)) else adj_port adj u v)" for u v
    by (simp add: adj_port_def dict_get_default_def)
  from Cons.IH [of ?adj] obtain adj' where "fold_res add_adj ?adj (map link_json ls) = Inr adj'"
    "\<And>u v. adj_port adj' u v = (case map_of (rev (map (\<lambda>l. ((int (l_dst l), int (l_src l)), int (l_dst_port l))) ls)) (u, v) of
        None \<Rightarrow> adj_port ?adj u v | Some p \<Rightarrow> Inr p)" by blast
  then show ?case by (auto simp: step port map_add_def split: option.splits)
qed simp

text \<open>
  With a controller that answers the request for the links, the adjacency matrix is obtained with
  exactly one GET request, and its entry for \<open>u\<close> and \<open>v\<close> is the port of \<open>u\<close> at the last reported link from
  \<open>v\<close> to \<open>u\<close>; where no such link is reported, looking it up raises \<open>KeyError\<close>.
\<close>

theorem topology_adjacency:
  assumes "srv sent rq = Reply 200 (Some (JList (map link_json ls)))"
    and "rq = \<lparr>rq_method = GET, rq_url = ''http://'' @ of_controller_ip p @ '':'' @ show_int (of_controller_port p) @ ''/v1.0/topology/links'',
      rq_body = Some (JObj [])\<rparr>"
  shows "\<exists>resp adj. get_topo_links srv p sent = (Inr resp, sent @ [rq]) \<and> get_adj_mat (of_resp resp) = Inr adj \<and>
     (\<forall>u v. adj_port adj u v =
        (case find (\<lambda>l. int (l_dst l) = u \<and> int (l_src l) = v) (rev ls) of
           None \<Rightarrow> Inl KeyError | Some l \<Rightarrow> Inr (int (l_dst_port l))))"
proof -
  have rq: "rq = of_http (of_controller_ip p) (of_controller_port p) TopologyLinks ''/v1.0/topology/links''"
    by (simp add: assms(2) of_http_def get_host_url_def)
  let ?resp = "OFResponseTopologyLinks 200 (JList (map link_json ls))"
  have "get_topo_links srv p sent = (Inr ?resp, sent @ [rq])"
    using assms(1) get_response_sent [of TopologyLinks _ srv "of_controller_ip p"]
    by (simp add: get_topo_links_def proc_response_def rq answer_of_def from_json_def parse_body_def loads_def)
  moreover have key: "map_of (rev (map (\<lambda>l. ((int (l_dst l), int (l_src l)), int (l_dst_port l))) ls)) (u, v) =
      map_option (\<lambda>l. int (l_dst_port l)) (find (\<lambda>l. int (l_dst l) = u \<and> int (l_src l) = v) (rev ls))" for u v
    by (induction ls rule: rev_induct) auto
  moreover obtain adj where "fold_res add_adj [] (map link_json ls) = Inr adj"
    "\<And>u v. adj_port adj u v = (case map_of (rev (map (\<lambda>l. ((int (l_dst l), int (l_src l)), int (l_dst_port l))) ls)) (u, v) of
        None \<Rightarrow> adj_port [] u v | Some p \<Rightarrow> Inr p)" using add_adj_links [of "[]" ls] by blast
  ultimately show ?thesis
    by (auto simp: get_adj_mat_def adj_port_def dict_get_default_def dict_get_def split: option.splits)
qed

definition ex_links :: "sw_link list" where
  "ex_links = [\<lparr>l_src = 1, l_src_port = 2, l_dst = 10, l_dst_port = 17\<rparr>,
     \<lparr>l_src = 10, l_src_port = 17, l_dst = 1, l_dst_port = 2\<rparr>]"

theorem topology_adjacency_witness:
  "\<exists>resp adj. get_topo_links (\<lambda>_ _. Reply 200 (Some (JList (map link_json ex_links))))
      \<lparr>of_controller_ip = ''127.0.0.1'', of_controller_port = 8181\<rparr> [] =
      (Inr resp, [\<lparr>rq_method = GET, rq_url = ''http://127.0.0.1:8181/v1.0/topology/links'', rq_body = Some (JObj [])\<rparr>]) \<and>
     get_adj_mat (of_resp resp) = Inr adj \<and>
     adj_port adj 10 1 = Inr 17 \<and> adj_port adj 1 10 = Inr 2 \<and> adj_port adj 1 1 = Inl KeyError"
proof -
  have port: "show_int 8181 = ''8181''" by (simp add: print_simps)
  show ?thesis
    using topology_adjacency [of "\<lambda>_ _. Reply 200 (Some (JList (map link_json ex_links)))" "[]" _ ex_links
        "\<lparr>of_controller_ip = ''127.0.0.1'', of_controller_port = 8181\<rparr>", OF refl refl]
    by (auto simp: port ex_links_def)
qed

text \<open>
  No flow modification ever reaches a switch: \<open>Flowmod.get_json\<close> looks up a name its module
  does not bind, so pushing and removing flows, clearing a table and adding a default route
  raise \<open>NameError\<close> before anything is sent.
\<close>

theorem flow_mods_never_sent:
  "push_flow_mod srv p dpid fm sent = (Inl NameError, sent) \<and>
   remove_flow srv p dpid fm sent = (Inl NameError, sent) \<and>
   remove_table_flows srv p dpid table sent = (Inl NameError, sent) \<and>
   add_default_route srv p dpid table sent = (Inl NameError, sent)"
  by (simp add: push_flow_mod_def remove_flow_def remove_table_flows_def add_default_route_def proc_response_def
      get_response_flowmod andthen_run(2))

end
