(* ===== verification/Host_Mapper.thy ===== *)
theory Host_Mapper
  imports Openflow Topo_Mapper
begin

section \<open>Names and addresses of switches and hosts\<close>

text \<open>
  \<open>nw_control/host_mapper.py\<close>: switch numbers, dpids, host names and addresses, found by asking the
  controller (\<open>srv\<close>) and the name servers.  \<open>dns\<close> stands for \<open>dnspython\<close>: for the servers, a name and
  a record type the answers, or \<open>None\<close> when the query raises; \<open>reverse_name\<close> for its \<open>from_address\<close>.  A switch
  description has the form \<open>of_<number>\<close>.
\<close>

subsection \<open>HostMapper\<close>

record host_mapper =
  hm_nameservers :: "string list"
  hm_host :: string
  hm_port_no :: int
  hm_domain :: string

type_synonym dns = "string list \<Rightarrow> string \<Rightarrow> string \<Rightarrow> string list option"

fun dpid_int :: "dpid \<Rightarrow> int res" where
  "dpid_int (DInt i) = Inr i"
| "dpid_int (DStr s) = py_int s"

definition json_dpid :: "json \<Rightarrow> dpid res" where
  "json_dpid j = (case j of JInt i \<Rightarrow> Inr (DInt i) | JStr s \<Rightarrow> Inr (DStr s) | _ \<Rightarrow> Inl TypeError)"

definition map_sw_to_host :: "dpid \<Rightarrow> string res" where
  "map_sw_to_host sw_no = rbind (dpid_int sw_no) (\<lambda>i. Inr (''host'' @ show_int i))"

definition qualify_host_domain :: "host_mapper \<Rightarrow> string \<Rightarrow> string res" where
  "qualify_host_domain m hostname = rbind (py_nth hostname (- 1)) (\<lambda>c.
     Inr (if c = CHR ''.'' then hostname else hostname @ ''.'' @ hm_domain m))"

definition resolve_hostname :: "dns \<Rightarrow> host_mapper \<Rightarrow> string \<Rightarrow> string option res" where
  "resolve_hostname dns m hostname = rbind (qualify_host_domain m hostname) (\<lambda>query_str.
     case dns (hm_nameservers m) query_str ''A'' of
       None \<Rightarrow> Inl IOError
     | Some answers \<Rightarrow> Inr (case answers of [] \<Rightarrow> None | a # _ \<Rightarrow> Some a))"

definition get_ip_address_for_host_number :: "dns \<Rightarrow> host_mapper \<Rightarrow> dpid \<Rightarrow> string option res" where
  "get_ip_address_for_host_number dns m host_number = rbind (map_sw_to_host host_number) (resolve_hostname dns m)"

definition reverse_lookup :: "dns \<Rightarrow> (string \<Rightarrow> string res) \<Rightarrow> host_mapper \<Rightarrow> string \<Rightarrow> string option res" where
  "reverse_lookup dns reverse_name m ip_addr = rbind (reverse_name ip_addr) (\<lambda>name.
     case dns (hm_nameservers m) name ''PTR'' of
       None \<Rightarrow> Inl IOError
     | Some answers \<Rightarrow> Inr (case answers of [] \<Rightarrow> None | a # _ \<Rightarrow> Some a))"

definition mapper_response :: "server \<Rightarrow> host_mapper \<Rightarrow> OFRequest \<Rightarrow> OFResponse io" where
  "mapper_response srv m r = get_response srv (hm_host m) (hm_port_no m) r"

definition map_dpid_to_sw :: "server \<Rightarrow> host_mapper \<Rightarrow> dpid \<Rightarrow> json io" where
  "map_dpid_to_sw srv m dpid = andthen (mapper_response srv m (SwitchDesc dpid)) (\<lambda>resp. of_res (get_sw_name (of_resp resp)))"

definition sw_name_parts :: "json \<Rightarrow> string list res" where
  "sw_name_parts sw_name = (case sw_name of JStr s \<Rightarrow> Inr (split_on (CHR ''_'') s) | _ \<Rightarrow> Inl AttributeError)"

definition sw_name_to_no :: "json \<Rightarrow> string res" where
  "sw_name_to_no sw_name = rbind (sw_name_parts sw_name) (\<lambda>ps. py_nth ps 1)"

definition map_dpid_to_sw_num :: "server \<Rightarrow> host_mapper \<Rightarrow> dpid \<Rightarrow> int io" where
  "map_dpid_to_sw_num srv m dpid = andthen (map_dpid_to_sw srv m dpid) (\<lambda>sw_name.
     of_res (rbind (sw_name_to_no sw_name) py_int))"

fun find_sw :: "server \<Rightarrow> host_mapper \<Rightarrow> string \<Rightarrow> json list \<Rightarrow> string option io" where
  "find_sw srv m sw_no [] = ret None"
| "find_sw srv m sw_no (sw # sws) =
     andthen (of_res (json_dpid sw)) (\<lambda>d.
     andthen (mapper_response srv m (SwitchDesc (DStr (formatted d)))) (\<lambda>resp.
     andthen (of_res (rbind (get_sw_name (of_resp resp)) sw_name_to_no)) (\<lambda>curr_no.
     if curr_no = sw_no then of_res (get_sw_dpid (of_resp resp)) else find_sw srv m sw_no sws)))"

definition map_sw_to_dpid :: "server \<Rightarrow> host_mapper \<Rightarrow> dpid \<Rightarrow> string option io" where
  "map_sw_to_dpid srv m sw_no = andthen (mapper_response srv m SwitchList) (\<lambda>resp.
     andthen (of_res (json_list (of_resp resp))) (\<lambda>switch_list.
     find_sw srv m (formatted sw_no) switch_list))"

definition switch_host :: "server \<Rightarrow> dns \<Rightarrow> host_mapper \<Rightarrow> dpid \<Rightarrow> string option io" where
  "switch_host srv dns m sw_dpid =
     andthen (map_dpid_to_sw srv m (DStr (formatted sw_dpid))) (\<lambda>sw_name.
     andthen (of_res (rbind (sw_name_parts sw_name) (\<lambda>ps. py_nth ps (- 1)))) (\<lambda>sw_num.
     andthen (of_res (map_sw_to_host (DStr sw_num))) (\<lambda>host_name.
     andthen (of_res (qualify_host_domain m host_name)) (\<lambda>fqdn.
     of_res (resolve_hostname dns m fqdn)))))"

definition get_switch_to_host_map :: "server \<Rightarrow> dns \<Rightarrow> host_mapper \<Rightarrow> (dpid, string option) dict io" where
  "get_switch_to_host_map srv dns m = andthen (mapper_response srv m SwitchList) (\<lambda>resp.
     andthen (of_res (json_list (of_resp resp))) (\<lambda>sw_list.
     fold_prog (\<lambda>res_map sw. andthen (of_res (json_dpid sw)) (\<lambda>sw_dpid.
       andthen (switch_host srv dns m sw_dpid) (\<lambda>host_ip. ret (dict_set res_map sw_dpid host_ip)))) [] sw_list))"

text \<open>\<open>util.mk_pretty_sw_dict\<close>: the same dictionary under friendly names.\<close>

definition mk_pretty_sw_dict ::
    "(dpid \<Rightarrow> json io) \<Rightarrow> ('k \<Rightarrow> dpid) \<Rightarrow> (json \<Rightarrow> 'k \<Rightarrow> 'l) \<Rightarrow> ('k, 'v) dict \<Rightarrow> ('l, 'v) dict io" where
  "mk_pretty_sw_dict to_sw reader writer sw_dict = fold_prog (\<lambda>res_map (k, v).
     andthen (to_sw (reader k)) (\<lambda>friendly_name. ret (dict_set res_map (writer friendly_name k) v))) [] sw_dict"

subsection \<open>OnosMapper and MininetHostMapper\<close>

text \<open>An \<open>OnosMapper\<close> validates the topology when it is made, and then looks numbers up.\<close>

record onos_mapper = host_mapper +
  switch_to_dpid_map :: "(int, string) dict"

definition new_onos_mapper :: "server \<Rightarrow> matcher \<Rightarrow> string \<Rightarrow> string \<Rightarrow> int \<Rightarrow> string \<Rightarrow> onos_mapper io" where
  "new_onos_mapper srv gm dns_ip controller_ip controller_port target_topo_file =
     andthen (get_and_validate_onos_topo srv gm target_topo_file) (\<lambda>ids.
     ret \<lparr>hm_nameservers = [dns_ip], hm_host = controller_ip, hm_port_no = controller_port, hm_domain = ''data.sdn.'',
       switch_to_dpid_map = ids\<rparr>)"

definition onos_map_sw_to_dpid :: "onos_mapper \<Rightarrow> int \<Rightarrow> string res" where
  "onos_map_sw_to_dpid m sw_num = dict_get (switch_to_dpid_map m) sw_num"

definition attached :: "string \<Rightarrow> json \<Rightarrow> bool res" where
  "attached switch_dpid host = rbind (rbind (json_get host ''locations'') (\<lambda>ls. rbind (json_at ls 0) (\<lambda>l. json_get l ''elementId''))) (\<lambda>e.
     if e \<noteq> JStr switch_dpid then Inr False
     else rbind (rbind (json_get host ''ipAddresses'') json_list) (\<lambda>ips.
       Inr (0 < length ips \<and> JStr ''10.123.123.1'' \<notin> set ips)))"

definition find_host :: "json list \<Rightarrow> string \<Rightarrow> json res" where
  "find_host connected_hosts switch_dpid = (case find_res (attached switch_dpid) connected_hosts of
       Inl StopIteration \<Rightarrow> Inl ValueError | r \<Rightarrow> r)"

definition get_ip_of_connected_host :: "json list \<Rightarrow> string \<Rightarrow> json res" where
  "get_ip_of_connected_host connected_hosts switch_dpid = rbind (find_host connected_hosts switch_dpid) (\<lambda>attached_host.
     rbind (json_get attached_host ''ipAddresses'') (\<lambda>ips. json_at ips 0))"

definition mininet_resolve_hostname :: "string \<Rightarrow> string res" where
  "mininet_resolve_hostname hostname = rbind (py_int (drop 1 hostname)) (\<lambda>i. Inr (''10.0.0.'' @ show_int (i + 1)))"

subsection \<open>Properties\<close>

text \<open>
  A controller with the switches \<open>net\<close>, pairs of a dpid and the number in the switch's description
  \<open>of_<number>\<close>.
\<close>

definition desc_json :: "int \<times> int \<Rightarrow> json" where
  "desc_json = (\<lambda>(d, k). JObj [(show_int d, JObj [(''dp_desc'', JStr (''of_'' @ show_int k))])])"

definition serves_switches :: "server \<Rightarrow> host_mapper \<Rightarrow> (int \<times> int) list \<Rightarrow> bool" where
  "serves_switches srv m net \<longleftrightarrow>
     (\<forall>sent. srv sent (of_http (hm_host m) (hm_port_no m) SwitchList ''/stats/switches'') =
        Reply 200 (Some (JList (map (\<lambda>(d, k). JInt d) net)))) \<and>
     (\<forall>sent. \<forall>(d, k) \<in> set net.
        srv sent (of_http (hm_host m) (hm_port_no m) (SwitchDesc (DStr (show_int d))) (''/stats/desc/'' @ show_int d)) =
        Reply 200 (Some (desc_json (d, k))))"

lemma show_int_chars: "c \<in> set (show_int i) \<Longrightarrow> is_digit c \<or> c = CHR ''-''"
  using show_nat_digits by (auto simp: show_int_def split: if_splits)

lemma show_int_inject: "show_int i = show_int j \<longleftrightarrow> i = j"
  using py_int_show_int [of i] py_int_show_int [of j] by (metis Inr_inject)

lemma sw_name_to_no_desc: "sw_name_to_no (JStr (''of_'' @ show_int k)) = Inr (show_int k)"
proof -
  have "CHR ''_'' \<notin> set (show_int k)" using show_int_chars [of "CHR ''_''" k] by (auto simp: is_digit_def)
  then have "split_on (CHR ''_'') (show_int k) = [show_int k]" by (rule split_on_none)
  then show ?thesis by (simp add: sw_name_to_no_def sw_name_parts_def py_nth_def)
qed

lemma desc_response:
  assumes "serves_switches srv m net" and "(d, k) \<in> set net"
  shows "\<exists>sent'. mapper_response srv m (SwitchDesc (DStr (show_int d))) sent = (Inr (OFResponseSwitchDesc 200 (desc_json (d, k))), sent')"
proof -
  have "srv sent (of_http (hm_host m) (hm_port_no m) (SwitchDesc (DStr (show_int d))) (''/stats/desc/'' @ show_int d)) =
      Reply 200 (Some (desc_json (d, k)))"
    using assms unfolding serves_switches_def by blast
  then show ?thesis
    using get_response_sent [of "SwitchDesc (DStr (show_int d))" "''/stats/desc/'' @ show_int d" srv "hm_host m" "hm_port_no m" sent]
    by (simp add: mapper_response_def answer_of_def from_json_def parse_body_def loads_def)
qed

lemma desc_names:
  "get_sw_name (desc_json (d, k)) = Inr (JStr (''of_'' @ show_int k))"
  "get_sw_dpid (desc_json (d, k)) = Inr (Some (show_int d))"
  by (simp_all add: get_sw_name_def get_sw_dpid_def desc_json_def json_items_def dict_get_def)

lemma find_sw_run:
  assumes "serves_switches srv m net" and "set sub \<subseteq> set net"
  shows "\<exists>sent'. find_sw srv m (show_int k) (map (\<lambda>(d, k). JInt d) sub) sent =
    (Inr (map_option (\<lambda>(d, _). show_int d) (find (\<lambda>(d, k'). k' = k) sub)), sent')"
  using assms(2)
proof (induction sub arbitrary: sent)
  case (Cons x sub)
  obtain d k' where x: "x = (d, k')" by (cases x)
  obtain t where t: "mapper_response srv m (SwitchDesc (DStr (show_int d))) sent = (Inr (OFResponseSwitchDesc 200 (desc_json (d, k'))), t)"
    using desc_response [OF assms(1), of d k' sent] Cons.prems by (auto simp: x)
  obtain t' where "find_sw srv m (show_int k) (map (\<lambda>(d, k). JInt d) sub) t =
    (Inr (map_option (\<lambda>(d, _). show_int d) (find (\<lambda>(d, k'). k' = k) sub)), t')"
    using Cons.IH Cons.prems by auto
  then show ?case
    by (auto simp: x json_dpid_def andthen_run(1) [where m = "mapper_response srv m (SwitchDesc (DStr (show_int d)))", OF t]
        desc_names sw_name_to_no_desc [simplified] show_int_inject)
qed simp

text \<open>
  Switch numbers and dpids: with a controller that lists switches described as \<open>of_<number>\<close>, the
  dpid found for a number is that of the switch with the number, looking that dpid up gives the number
  back, and for a number no switch has \<open>None\<close> is returned.
\<close>

theorem switch_number_roundtrip:
  assumes "serves_switches srv m net" and "distinct (map snd net)" and "(d, k) \<in> set net"
  shows "(\<exists>sent'. map_sw_to_dpid srv m (DInt k) sent = (Inr (Some (show_int d)), sent') \<and>
      (\<exists>sent''. map_dpid_to_sw_num srv m (DStr (show_int d)) sent' = (Inr k, sent''))) \<and>
    (\<forall>j. j \<notin> set (map snd net) \<longrightarrow> fst (map_sw_to_dpid srv m (DInt j) sent) = Inr None)"
proof -
  let ?rq = "of_http (hm_host m) (hm_port_no m) SwitchList ''/stats/switches''"
  have list: "mapper_response srv m SwitchList sent = (Inr (OFResponseSwitchList 200 (JList (map (\<lambda>(d, k). JInt d) net))), sent @ [?rq])"
    using assms(1) get_response_sent [of SwitchList "''/stats/switches''" srv "hm_host m" "hm_port_no m" sent]
    by (simp add: mapper_response_def serves_switches_def answer_of_def from_json_def parse_body_def loads_def)
  have run: "\<exists>sent'. map_sw_to_dpid srv m (DInt j) sent =
      (Inr (map_option (\<lambda>(d, _). show_int d) (find (\<lambda>(d, k'). k' = j) net)), sent')" for j
    using find_sw_run [OF assms(1), of net j "sent @ [?rq]"]
    by (simp add: map_sw_to_dpid_def andthen_run(1) [where m = "mapper_response srv m SwitchList", OF list])
  have "find (\<lambda>(d, k'). k' = k) net = Some (d, k)"
    using assms(2,3) by (induction net) (auto split: prod.splits simp: image_iff)
  with run [of k] obtain t where t: "map_sw_to_dpid srv m (DInt k) sent = (Inr (Some (show_int d)), t)" by auto
  obtain t' where t': "mapper_response srv m (SwitchDesc (DStr (show_int d))) t = (Inr (OFResponseSwitchDesc 200 (desc_json (d, k))), t')"
    using desc_response [OF assms(1,3), of t] by blast
  have "map_dpid_to_sw_num srv m (DStr (show_int d)) t = (Inr k, t')"
    by (simp add: map_dpid_to_sw_num_def map_dpid_to_sw_def andthen_assoc
        andthen_run(1) [where m = "mapper_response srv m (SwitchDesc (DStr (show_int d)))", OF t'] desc_names sw_name_to_no_desc [simplified])
  moreover have "find (\<lambda>(d, k'). k' = j) net = None" if "j \<notin> set (map snd net)" for j
    using that by (force simp: find_None_iff)
  then have "fst (map_sw_to_dpid srv m (DInt j) sent) = Inr None" if "j \<notin> set (map snd net)" for j
    using run [of j] that by auto
  ultimately show ?thesis using t by blast
qed

definition ex_switches :: "(int \<times> int) list" where
  "ex_switches = [(17, 1), (18, 2)]"

definition ex_mapper :: host_mapper where
  "ex_mapper = \<lparr>hm_nameservers = [''10.0.0.1''], hm_host = ''h'', hm_port_no = 8, hm_domain = ''data.sdn.''\<rparr>"

definition ex_switch_server :: server where
  "ex_switch_server sent rq =
     (if rq_url rq = ''http://h:8/stats/switches'' then Reply 200 (Some (JList (map (\<lambda>(d, k). JInt d) ex_switches)))
      else if rq_url rq = ''http://h:8/stats/desc/17'' then Reply 200 (Some (desc_json (17, 1)))
      else if rq_url rq = ''http://h:8/stats/desc/18'' then Reply 200 (Some (desc_json (18, 2)))
      else Reply 404 None)"

theorem switch_number_roundtrip_witness:
  "(\<exists>sent'. map_sw_to_dpid ex_switch_server ex_mapper (DInt 2) [] = (Inr (Some ''18''), sent') \<and>
      (\<exists>sent''. map_dpid_to_sw_num ex_switch_server ex_mapper (DStr ''18'') sent' = (Inr 2, sent''))) \<and>
   fst (map_sw_to_dpid ex_switch_server ex_mapper (DInt 3) []) = Inr None"
proof -
  have "serves_switches ex_switch_server ex_mapper ex_switches"
    by (simp add: serves_switches_def ex_switch_server_def ex_mapper_def ex_switches_def of_http_def get_host_url_def print_simps)
  from switch_number_roundtrip [OF this, of 18 2 "[]"] show ?thesis by (simp add: ex_switches_def print_simps)
qed

text \<open>Mininet addresses: the host \<open>h<n>\<close> has the address that ends in \<open>n + 1\<close>, and no two hosts share one.\<close>

lemma mininet_addresses:
  "mininet_resolve_hostname (c # show_int n) = Inr (''10.0.0.'' @ show_int (n + 1))"
  "mininet_resolve_hostname (c # show_int n) = mininet_resolve_hostname (c' # show_int n') \<longleftrightarrow> n = n'"
  by (simp_all add: mininet_resolve_hostname_def show_int_inject)

text \<open>The host found for a switch, when every host has a location and a list of addresses.\<close>

definition host_json :: "string \<Rightarrow> string list \<Rightarrow> json" where
  "host_json sw ips = JObj [(''locations'', JList [JObj [(''elementId'', JStr sw)]]), (''ipAddresses'', JList (map JStr ips))]"

lemma find_host_exact:
  "find_host (map (\<lambda>(sw, ips). host_json sw ips) hosts) switch_dpid =
     (case find (\<lambda>(sw, ips). sw = switch_dpid \<and> ips \<noteq> [] \<and> ''10.123.123.1'' \<notin> set ips) hosts of
        None \<Rightarrow> Inl ValueError | Some (sw, ips) \<Rightarrow> Inr (host_json sw ips))"
proof (induction hosts)
  case (Cons x hosts)
  obtain sw ips where x: "x = (sw, ips)" by (cases x)
  have "attached switch_dpid (host_json sw ips) = Inr (sw = switch_dpid \<and> ips \<noteq> [] \<and> ''10.123.123.1'' \<notin> set ips)"
    by (auto simp: attached_def host_json_def dict_get_def json_at_def py_nth_def)
  then show ?case using Cons by (simp add: x find_host_def)
qed (simp add: find_host_def)

end
