(* ===== verification/Route_Adder.thy ===== *)
theory Route_Adder
  imports Host_Mapper Mp_Trial
begin

section \<open>Installing multipath routes\<close>

text \<open>
  \<open>MPRouteAdder\<close> of \<open>mp_routing/multipath_orchestrator.py\<close>, which pushes one flow modification per link of a
  route, and \<open>OnosRouteAdder\<close>, \<open>install_flow\<close> and \<open>uninstall_flow\<close> of \<open>mp_routing/onos_route_adder.py\<close>,
  which post whole routes to the ONOS controller.  The objects that a route adder is given
  (route provider, processor and mapper) are the record \<open>route_env\<close>; \<open>ryu_env\<close> is the one the drivers make,
  of an \<open>OFProcessor\<close> and a \<open>HostMapper\<close>.
\<close>

subsection \<open>MPRouteAdder\<close>

record 't route_env =
  re_routes :: "(int \<times> int list) list res"
  re_topo_links :: "('t, adj_mat) prog"
  re_push_flow_mod :: "dpid \<Rightarrow> flowmod \<Rightarrow> ('t, unit) prog"
  re_remove_flow :: "string option \<Rightarrow> flowmod \<Rightarrow> ('t, unit) prog"
  re_map_sw_to_host :: "int \<Rightarrow> string res"
  re_resolve_hostname :: "string \<Rightarrow> ('t, string option) prog"
  re_map_sw_to_dpid :: "int \<Rightarrow> ('t, string option) prog"

text \<open>The flow modifications installed, per switch.\<close>

type_synonym installed = "(string option, flowmod list) dict"

definition calculate_dscp_value :: "int \<Rightarrow> int" where
  "calculate_dscp_value flow_num = flow_num + 1"

definition opt_json :: "string option \<Rightarrow> json" where
  "opt_json s = (case s of None \<Rightarrow> JNull | Some x \<Rightarrow> JStr x)"

definition opt_int :: "string option \<Rightarrow> int res" where
  "opt_int s = (case s of None \<Rightarrow> Inl TypeError | Some x \<Rightarrow> py_int x)"

definition route_match :: "string option \<Rightarrow> string option \<Rightarrow> int \<Rightarrow> of_match" where
  "route_match src_ip dst_ip dscp_val =
     (let m = new_match eth_type (JInt 2048);
          m = add_criteria m ipv4_src (opt_json src_ip);
          m = add_criteria m ipv4_dst (opt_json dst_ip);
          m = add_criteria m ip_dscp (JInt dscp_val)
      in add_criteria m ip_proto (JInt (ip_proto_value UDP)))"

definition route_flowmod :: "int \<Rightarrow> string option \<Rightarrow> string option \<Rightarrow> int \<Rightarrow> int \<Rightarrow> flowmod" where
  "route_flowmod src_dpid src_ip dst_ip dscp_val out_port =
     (let fm = (new_flowmod (JInt src_dpid))\<lparr>fm_idle_timeout := JInt 240, fm_table_id := JInt 100, fm_priority := JInt 20\<rparr>;
          fm = add_match fm (route_match src_ip dst_ip dscp_val)
      in add_action fm \<lparr>action_type = Output, action_values = [(''port'', JInt out_port)]\<rparr>)"

text \<open>A link that the matrix does not have is skipped.\<close>

definition install_link ::
    "'t route_env \<Rightarrow> string option \<Rightarrow> string option \<Rightarrow> adj_mat \<Rightarrow> int \<Rightarrow> int \<times> int \<Rightarrow> (installed \<times> 't, unit) prog" where
  "install_link env src_ip dst_ip adj dscp_val = (\<lambda>(src, dst).
     andthen (on_snd (re_map_sw_to_dpid env src)) (\<lambda>s. andthen (of_res (opt_int s)) (\<lambda>src_dpid.
     andthen (on_snd (re_map_sw_to_dpid env dst)) (\<lambda>d. andthen (of_res (opt_int d)) (\<lambda>dst_dpid.
     case adj_port adj src_dpid dst_dpid of
       Inl _ \<Rightarrow> ret ()
     | Inr out_port \<Rightarrow>
         andthen (on_snd (re_map_sw_to_dpid env src)) (\<lambda>sw_dpid.
         let flow_mod = route_flowmod src_dpid src_ip dst_ip dscp_val out_port in
         andthen (on_snd (re_push_flow_mod env (DInt src_dpid) flow_mod)) (\<lambda>_.
         modify_fst (\<lambda>inst. group_append inst (sw_dpid, flow_mod)))))))))"

definition host_ip :: "'t route_env \<Rightarrow> int \<Rightarrow> (installed \<times> 't, string option) prog" where
  "host_ip env sw = andthen (of_res (re_map_sw_to_host env sw)) (\<lambda>h. on_snd (re_resolve_hostname env h))"

definition mp_install_route :: "'t route_env \<Rightarrow> int list \<Rightarrow> adj_mat \<Rightarrow> int \<Rightarrow> (installed \<times> 't, unit) prog" where
  "mp_install_route env route adj dscp_val =
     andthen (of_res (py_nth route 0)) (\<lambda>src_sw. andthen (of_res (py_nth route (- 1))) (\<lambda>dst_sw.
     andthen (host_ip env src_sw) (\<lambda>src_ip. andthen (host_ip env dst_sw) (\<lambda>dst_ip.
     each (install_link env src_ip dst_ip adj dscp_val) (pairwise route)))))"

definition mp_install_routes :: "'t route_env \<Rightarrow> (installed \<times> 't, unit) prog" where
  "mp_install_routes env = andthen (of_res (re_routes env)) (\<lambda>routes.
     andthen (on_snd (re_topo_links env)) (\<lambda>adj.
     each (\<lambda>(path_id, route). mp_install_route env route adj (calculate_dscp_value path_id)) routes))"

definition mp_remove_routes :: "'t route_env \<Rightarrow> (installed \<times> 't, unit) prog" where
  "mp_remove_routes env = (\<lambda>(inst, t).
     each (\<lambda>(sw_dpid, route_list). each (\<lambda>route. on_snd (re_remove_flow env sw_dpid route)) route_list) inst (inst, t))"

definition mp_src_dst_pairs :: "'t route_env \<Rightarrow> (int \<times> int) list res" where
  "mp_src_dst_pairs env = rbind (re_routes env) (fold_res (\<lambda>pairs (_, path).
     rbind (py_nth path 0) (\<lambda>a. rbind (py_nth path (- 1)) (\<lambda>b. Inr (set_add pairs (a, b))))) [])"

text \<open>The objects of the drivers.\<close>

definition ryu_env :: "server \<Rightarrow> of_processor \<Rightarrow> dns \<Rightarrow> host_mapper \<Rightarrow> (int \<times> int list) list res \<Rightarrow> http_request list route_env" where
  "ryu_env srv p dns m routes =
     \<lparr>re_routes = routes,
      re_topo_links = andthen (get_topo_links srv p) (\<lambda>resp. of_res (get_adj_mat (of_resp resp))),
      re_push_flow_mod = (\<lambda>dpid fm. andthen (push_flow_mod srv p dpid fm) (\<lambda>_. ret ())),
      re_remove_flow = (\<lambda>sw_dpid fm. andthen (remove_flow srv p (DStr (case sw_dpid of Some s \<Rightarrow> s | None \<Rightarrow> ''None'')) fm) (\<lambda>_. ret ())),
      re_map_sw_to_host = (\<lambda>sw. map_sw_to_host (DInt sw)),
      re_resolve_hostname = (\<lambda>h. of_res (resolve_hostname dns m h)),
      re_map_sw_to_dpid = (\<lambda>sw. map_sw_to_dpid srv m (DInt sw))\<rparr>"

subsection \<open>OnosRouteAdder\<close>

type_synonym tag_counters = "(int \<times> int, int) dict"

text \<open>A path of the request and the counter after it.\<close>

definition tag_path ::
    "(int \<Rightarrow> string res) \<Rightarrow> mp_flow \<Rightarrow> json list \<times> int list \<times> tag_counters \<Rightarrow> mp_path \<Rightarrow> (json list \<times> int list \<times> tag_counters) res" where
  "tag_path map_sw flow = (\<lambda>(paths_dicts, tags, tag_counters) path.
     rbind (map_res map_sw (pa_nodes path)) (\<lambda>nodes.
     let key = (mf_source_node flow, mf_destination_node flow);
         tag = dict_get_default tag_counters key 1
     in Inr (paths_dicts @ [JObj [(''nodes'', JList (map JStr nodes)), (''tagValue'', JInt tag)]],
             tags @ [tag], dict_set tag_counters key (tag + 1))))"

definition add_route_request :: "json \<Rightarrow> http_request" where
  "add_route_request body = \<lparr>rq_method = POST, rq_url = ''http://127.0.0.1:8181/onos/multipath-routing/v1/add-route'', rq_body = Some body\<rparr>"

text \<open>
  For another status the message has three places and two values, so \<open>TypeError\<close> is raised instead of
  \<open>ValueError\<close>.
\<close>

definition install_route ::
    "server \<Rightarrow> (int \<Rightarrow> string res) \<Rightarrow> (nat, int list) dict \<Rightarrow> tag_counters \<Rightarrow> nat \<times> mp_flow
     \<Rightarrow> (json list \<times> http_request list, (nat, int list) dict \<times> tag_counters) prog" where
  "install_route srv map_sw tag_values tag_counters = (\<lambda>(route_id, flow).
     andthen (of_res (fold_res (tag_path map_sw flow) ([], [], tag_counters) (mf_paths flow))) (\<lambda>(paths_dicts, tags, tag_counters').
     andthen (on_snd (send srv (add_route_request (JObj [(''paths'', JList paths_dicts)])))) (\<lambda>(st, body).
     if st = 200 then
       andthen (of_res (rbind (loads body) (\<lambda>add_response. json_get add_response ''routeId''))) (\<lambda>route_token.
       andthen (modify_fst (\<lambda>tokens. set_add tokens route_token)) (\<lambda>_.
       ret (dict_set tag_values route_id tags, tag_counters')))
     else of_res (Inl TypeError))))"

definition install_routes ::
    "server \<Rightarrow> (int \<Rightarrow> string res) \<Rightarrow> mp_flow list \<Rightarrow> (json list \<times> http_request list, (nat, int list) dict) prog" where
  "install_routes srv map_sw flows =
     andthen (fold_prog (\<lambda>(tag_values, tag_counters). install_route srv map_sw tag_values tag_counters)
       ([], []) (enumerate 0 flows)) (\<lambda>(tag_values, _). ret tag_values)"

text \<open>A token is formatted with \<open>%s\<close>; the answer of a removal is not looked at.\<close>

definition remove_route :: "server \<Rightarrow> json \<Rightarrow> (json list \<times> http_request list, unit) prog" where
  "remove_route srv route_token = (case route_token of
       JStr t \<Rightarrow> andthen (on_snd (send srv \<lparr>rq_method = POST,
         rq_url = ''http://127.0.0.1:8181/onos/multipath-routing/v1/remove-route?route-id='' @ t, rq_body = None\<rparr>)) (\<lambda>_. ret ())
     | JInt i \<Rightarrow> andthen (on_snd (send srv \<lparr>rq_method = POST,
         rq_url = ''http://127.0.0.1:8181/onos/multipath-routing/v1/remove-route?route-id='' @ show_int i, rq_body = None\<rparr>)) (\<lambda>_. ret ())
     | _ \<Rightarrow> of_res (Inl TypeError))"

definition remove_routes :: "server \<Rightarrow> (json list \<times> http_request list, unit) prog" where
  "remove_routes srv = (\<lambda>(tokens, sent). each (remove_route srv) tokens (tokens, sent))"

definition get_src_dst_pairs :: "mp_flow list \<Rightarrow> (int \<times> int) list" where
  "get_src_dst_pairs flows = fold (\<lambda>flow pairs. set_add pairs (mf_source_node flow, mf_destination_node flow)) flows []"

text \<open>\<open>install_flow\<close> and \<open>uninstall_flow\<close> accept every status that is no error (400 to 599; \<open>if not request\<close>).\<close>

definition install_flow :: "server \<Rightarrow> json \<Rightarrow> json io" where
  "install_flow srv flow_json = andthen (send srv \<lparr>rq_method = POST, rq_url = onos_url @ ''multipath-routing/v1/add-route'', rq_body = Some flow_json\<rparr>)
     (\<lambda>(st, body). if 400 \<le> st \<and> st < 600 then of_res (Inl ValueError)
        else of_res (rbind (loads body) (\<lambda>json_response. json_get json_response ''routeId'')))"

definition uninstall_flow :: "server \<Rightarrow> string \<Rightarrow> unit io" where
  "uninstall_flow srv flow_token = andthen (send srv \<lparr>rq_method = POST, rq_url = onos_url @ ''multipath-routing/v1/remove-route?route-id='' @ flow_token, rq_body = None\<rparr>)
     (\<lambda>(st, _). if 400 \<le> st \<and> st < 600 then of_res (Inl ValueError) else ret ())"

subsection \<open>Tags\<close>

definition end_points :: "mp_flow \<Rightarrow> int \<times> int" where
  "end_points flow = (mf_source_node flow, mf_destination_node flow)"

definition next_tag :: "tag_counters \<Rightarrow> int \<times> int \<Rightarrow> int" where
  "next_tag tc e = dict_get_default tc e 1"

lemma tag_paths:
  assumes "fold_res (tag_path map_sw flow) (pd, tags, tc) ps = Inr (pd', tags', tc')"
  shows "tags' = tags @ map (\<lambda>i. next_tag tc (end_points flow) + int i) [0..<length ps] \<and>
    (\<forall>e. next_tag tc' e = next_tag tc e + (if e = end_points flow then int (length ps) else 0))"
  using assms
proof (induction ps arbitrary: pd tags tc)
  case (Cons p ps)
  let ?e = "end_points flow"
  let ?c = "next_tag tc ?e"
  from Cons.prems obtain pd1 where
    rest: "fold_res (tag_path map_sw flow) (pd1, tags @ [?c], dict_set tc ?e (?c + 1)) ps = Inr (pd', tags', tc')"
    by (auto simp: tag_path_def rbind_Inr_iff Let_def end_points_def next_tag_def)
  have upd: "next_tag (dict_set tc ?e (?c + 1)) e = (if e = ?e then ?c + 1 else next_tag tc e)" for e
    by (simp add: next_tag_def dict_get_default_def)
  have "map (\<lambda>i. ?c + int i) [0..<length (p # ps)] = ?c # map (\<lambda>i. ?c + 1 + int i) [0..<length ps]"
    by (simp add: upt_conv_Cons map_Suc_upt [symmetric] del: upt_Suc)
  then show ?case using Cons.IH [OF rest] by (simp add: upd)
qed simp

text \<open>Tags given to flows in order, from the counters \<open>tc\<close>.\<close>

definition tags_fit :: "tag_counters \<Rightarrow> mp_flow list \<Rightarrow> int list list \<Rightarrow> bool" where
  "tags_fit tc flows tagss \<longleftrightarrow> list_all2 (\<lambda>f ts. length ts = length (mf_paths f)) flows tagss \<and>
     (\<forall>e. concat (map snd (filter (\<lambda>(f, _). end_points f = e) (zip flows tagss))) =
        map (\<lambda>i. next_tag tc e + int i) [0..<sum_list (map (\<lambda>f. length (mf_paths f)) (filter (\<lambda>f. end_points f = e) flows))])"

lemma upt_shift: "map (\<lambda>i. c + int i) [0..<m] @ map (\<lambda>i. (c + int m) + int i) [0..<n] = map (\<lambda>i. c + int i) [0..<m + n]"
  by (induction n) (simp_all add: add.assoc)

lemma install_route_tags:
  assumes "install_route srv map_sw tv tc (i, flow) st = (Inr (tv', tc'), st')"
  shows "\<exists>ts. tv' = dict_set tv i ts \<and> ts = map (\<lambda>i. next_tag tc (end_points flow) + int i) [0..<length (mf_paths flow)] \<and>
    (\<forall>e. next_tag tc' e = next_tag tc e + (if e = end_points flow then int (length (mf_paths flow)) else 0))"
proof -
  from assms obtain pd ts where "fold_res (tag_path map_sw flow) ([], [], tc) (mf_paths flow) = Inr (pd, ts, tc')"
    "tv' = dict_set tv i ts"
    by (auto simp: install_route_def split: if_splits elim!: andthen_InrE)
  then show ?thesis using tag_paths by fastforce
qed

lemma install_loop_tags:
  assumes "fold_prog (\<lambda>(tag_values, tag_counters). install_route srv map_sw tag_values tag_counters)
       (tv, tc) (enumerate n flows) st = (Inr (tv', tc'), st')" and "\<forall>i \<in> set (dict_keys tv). i < n"
  shows "\<exists>tagss. tv' = tv @ enumerate n tagss \<and> tags_fit tc flows tagss"
  using assms
proof (induction flows arbitrary: tv tc n st)
  case (Cons f flows)
  from Cons.prems(1) obtain tv1 tc1 st1 where step: "install_route srv map_sw tv tc (n, f) st = (Inr (tv1, tc1), st1)"
    and rest: "fold_prog (\<lambda>(tag_values, tag_counters). install_route srv map_sw tag_values tag_counters)
       (tv1, tc1) (enumerate (Suc n) flows) st1 = (Inr (tv', tc'), st')"
    by (auto elim!: andthen_InrE)
  obtain ts where ts: "tv1 = dict_set tv n ts" "ts = map (\<lambda>i. next_tag tc (end_points f) + int i) [0..<length (mf_paths f)]"
    "\<And>e. next_tag tc1 e = next_tag tc e + (if e = end_points f then int (length (mf_paths f)) else 0)"
    using install_route_tags [OF step] by blast
  have "n \<notin> set (dict_keys tv)" using Cons.prems(2) by blast
  then have tv1: "tv1 = tv @ [(n, ts)]" unfolding ts(1) by (rule update_new)
  then have "\<forall>i \<in> set (dict_keys tv1). i < Suc n" using Cons.prems(2) by auto
  from Cons.IH [OF rest this] obtain tagss where tagss: "tv' = tv1 @ enumerate (Suc n) tagss" "tags_fit tc1 flows tagss" by blast
  have "tags_fit tc (f # flows) (ts # tagss)"
    using tagss(2) unfolding tags_fit_def by (simp add: ts(2,3) upt_shift)
  then show ?case using tagss(1) by (intro exI [of _ "ts # tagss"]) (simp add: tv1)
qed (simp add: tags_fit_def)

text \<open>
  Tags of the paths: when all routes are installed, every flow has one tag per path, and the paths
  between the same end points, taken over all flows in order, are tagged \<open>1, 2, 3, ...\<close>, so that no
  two of them share a tag.
\<close>

theorem route_tags:
  assumes "install_routes srv map_sw flows (tokens, sent) = (Inr tag_values, st')"
  shows "\<exists>tagss. tag_values = enumerate 0 tagss \<and> list_all2 (\<lambda>f ts. length ts = length (mf_paths f)) flows tagss \<and>
     (\<forall>e. concat (map snd (filter (\<lambda>(f, _). (mf_source_node f, mf_destination_node f) = e) (zip flows tagss))) =
        map (\<lambda>i. 1 + int i) [0..<sum_list (map (\<lambda>f. length (mf_paths f))
          (filter (\<lambda>f. (mf_source_node f, mf_destination_node f) = e) flows))])"
proof -
  from assms obtain tc' where "fold_prog (\<lambda>(tag_values, tag_counters). install_route srv map_sw tag_values tag_counters)
       ([], []) (enumerate 0 flows) (tokens, sent) = (Inr (tag_values, tc'), st')"
    by (auto simp: install_routes_def elim!: andthen_InrE)
  from install_loop_tags [OF this] show ?thesis
    by (simp add: tags_fit_def next_tag_def dict_get_default_def end_points_def)
qed

definition ex_mp_flows :: "mp_flow list" where
  "ex_mp_flows = [(new_mp_flow 1 2 1 0 [])\<lparr>mf_paths := [\<lparr>pa_nodes = [1, 2], pa_fraction = 1 / 2\<rparr>, \<lparr>pa_nodes = [1, 3, 2], pa_fraction = 1 / 2\<rparr>]\<rparr>,
     (new_mp_flow 2 1 1 0 [])\<lparr>mf_paths := [\<lparr>pa_nodes = [2, 1], pa_fraction = 1\<rparr>]\<rparr>,
     (new_mp_flow 1 2 1 0 [])\<lparr>mf_paths := [\<lparr>pa_nodes = [1, 2], pa_fraction = 1\<rparr>]\<rparr>]"

lemma ex_install:
  "\<exists>st'. install_routes ex_controller (\<lambda>n. Inr (show_int n)) ex_mp_flows ([], []) = (Inr [(0, [1, 2]), (1, [1]), (2, [3])], st')"
proof -
  have "fst (install_routes ex_controller (\<lambda>n. Inr (show_int n)) ex_mp_flows ([], [])) = Inr [(0, [1, 2]), (1, [1]), (2, [3])]"
    by code_simp
  then show ?thesis by (metis prod.collapse)
qed

theorem route_tags_witness:
  "\<exists>tagss. [(0, [1, 2]), (1, [1]), (2, [3 :: int])] = enumerate 0 tagss \<and> list_all2 (\<lambda>f ts. length ts = length (mf_paths f)) ex_mp_flows tagss \<and>
     concat (map snd (filter (\<lambda>(f, _). (mf_source_node f, mf_destination_node f) = (1, 2)) (zip ex_mp_flows tagss))) = [1, 2, 3]"
proof -
  obtain st' where "install_routes ex_controller (\<lambda>n. Inr (show_int n)) ex_mp_flows ([], []) = (Inr [(0, [1, 2]), (1, [1]), (2, [3])], st')"
    using ex_install by blast
  from route_tags [OF this] obtain tagss where t: "[(0, [1, 2]), (1, [1]), (2, [3])] = enumerate 0 tagss"
    "list_all2 (\<lambda>f ts. length ts = length (mf_paths f)) ex_mp_flows tagss"
    "concat (map snd (filter (\<lambda>(f, _). (mf_source_node f, mf_destination_node f) = (1, 2)) (zip ex_mp_flows tagss))) =
        map (\<lambda>i. 1 + int i) [0..<sum_list (map (\<lambda>f. length (mf_paths f))
          (filter (\<lambda>f. (mf_source_node f, mf_destination_node f) = (1, 2)) ex_mp_flows))]" by blast
  have "map (\<lambda>i. 1 + int i) [0..<sum_list (map (\<lambda>f. length (mf_paths f))
          (filter (\<lambda>f. (mf_source_node f, mf_destination_node f) = (1, 2)) ex_mp_flows))] = [1, 2, 3]" by code_simp
  from t(3) [unfolded this] show ?thesis using t(1,2) by blast
qed

subsection \<open>Installed routes\<close>

text \<open>
  Objects that work: the mapper knows the dpid of every switch and resolves every host name, and
  pushing a flow modification succeeds.
\<close>

definition env_works :: "'t route_env \<Rightarrow> (int \<Rightarrow> int) \<Rightarrow> (int \<Rightarrow> string option) \<Rightarrow> bool" where
  "env_works env dp ip \<longleftrightarrow>
     (\<forall>sw t. \<exists>t'. re_map_sw_to_dpid env sw t = (Inr (Some (show_int (dp sw))), t')) \<and>
     (\<forall>sw. \<exists>h. re_map_sw_to_host env sw = Inr h \<and> (\<forall>t. \<exists>t'. re_resolve_hostname env h t = (Inr (ip sw), t'))) \<and>
     (\<forall>d fm t. \<exists>t'. re_push_flow_mod env d fm t = (Inr (), t'))"

text \<open>The flow modifications of a route: one for each of its links that the matrix has.\<close>

definition link_flows :: "(int \<Rightarrow> int) \<Rightarrow> string option \<Rightarrow> string option \<Rightarrow> adj_mat \<Rightarrow> int \<Rightarrow> int \<times> int \<Rightarrow> (string option \<times> flowmod) list" where
  "link_flows dp src_ip dst_ip adj dscp = (\<lambda>(u, v). case adj_port adj (dp u) (dp v) of
       Inl _ \<Rightarrow> [] | Inr port \<Rightarrow> [(Some (show_int (dp u)), route_flowmod (dp u) src_ip dst_ip dscp port)])"

definition route_flows :: "(int \<Rightarrow> int) \<Rightarrow> (int \<Rightarrow> string option) \<Rightarrow> adj_mat \<Rightarrow> int \<times> int list \<Rightarrow> (string option \<times> flowmod) list" where
  "route_flows dp ip adj = (\<lambda>(path_id, route).
     concat (map (link_flows dp (ip (hd route)) (ip (last route)) adj (path_id + 1)) (pairwise route)))"

lemma install_link_run:
  assumes "env_works env dp ip"
  shows "\<exists>t'. install_link env src_ip dst_ip adj dscp e (inst, t) = (Inr (), (foldl group_append inst (link_flows dp src_ip dst_ip adj dscp e), t'))"
proof -
  obtain u v where e: "e = (u, v)" by (cases e)
  have dpid: "\<exists>t'. re_map_sw_to_dpid env sw t = (Inr (Some (show_int (dp sw))), t')" for sw t
    using assms by (simp add: env_works_def)
  have push: "\<exists>t'. re_push_flow_mod env d fm t = (Inr (), t')" for d fm t
    using assms by (simp add: env_works_def)
  obtain t1 where t1: "re_map_sw_to_dpid env u t = (Inr (Some (show_int (dp u))), t1)" using dpid by blast
  obtain t2 where t2: "re_map_sw_to_dpid env v t1 = (Inr (Some (show_int (dp v))), t2)" using dpid by blast
  obtain t3 where t3: "re_map_sw_to_dpid env u t2 = (Inr (Some (show_int (dp u))), t3)" using dpid by blast
  show ?thesis
  proof (cases "adj_port adj (dp u) (dp v)")
    case (Inl x)
    then show ?thesis by (simp add: e install_link_def andthen_def on_snd_run t1 t2 opt_int_def link_flows_def)
  next
    case (Inr port)
    let ?fm = "route_flowmod (dp u) src_ip dst_ip dscp port"
    obtain t4 where "re_push_flow_mod env (DInt (dp u)) ?fm t3 = (Inr (), t4)" using push by blast
    then show ?thesis
      by (simp add: e install_link_def andthen_def on_snd_run t1 t2 t3 opt_int_def link_flows_def Inr Let_def)
  qed
qed

lemma install_links_run:
  assumes "env_works env dp ip"
  shows "\<exists>t'. each (install_link env src_ip dst_ip adj dscp) es (inst, t) =
    (Inr (), (foldl group_append inst (concat (map (link_flows dp src_ip dst_ip adj dscp) es)), t'))"
proof (induction es arbitrary: inst t)
  case (Cons e es)
  obtain t1 where t1: "install_link env src_ip dst_ip adj dscp e (inst, t) =
      (Inr (), (foldl group_append inst (link_flows dp src_ip dst_ip adj dscp e), t1))"
    using install_link_run [OF assms] by blast
  then show ?case using Cons by (simp add: andthen_def)
qed simp

lemma install_route_run:
  assumes "env_works env dp ip" and "route \<noteq> []"
  shows "\<exists>t'. mp_install_route env route adj (calculate_dscp_value i) (inst, t) =
    (Inr (), (foldl group_append inst (route_flows dp ip adj (i, route)), t'))"
proof -
  have host: "\<exists>t'. host_ip env sw (inst, t) = (Inr (ip sw), (inst, t'))" for sw t
    using assms(1) unfolding env_works_def host_ip_def by (metis andthen_pure(1) fst_conv of_res_Inr on_snd_run snd_conv)
  obtain t1 where t1: "host_ip env (hd route) (inst, t) = (Inr (ip (hd route)), (inst, t1))" using host by blast
  obtain t2 where t2: "host_ip env (last route) (inst, t1) = (Inr (ip (last route)), (inst, t2))" using host by blast
  have "py_nth route 0 = Inr (hd route)" using assms(2) by (cases route) (simp_all add: py_nth_first)
  then show ?thesis
    using install_links_run [OF assms(1), of "ip (hd route)" "ip (last route)" adj "i + 1" "pairwise route" inst t2]
    by (simp add: mp_install_route_def py_nth_last [OF assms(2)] andthen_def t1 t2 calculate_dscp_value_def route_flows_def)
qed

lemma install_routes_run:
  assumes "env_works env dp ip" and "\<forall>(_, route) \<in> set routes. route \<noteq> []"
  shows "\<exists>t'. each (\<lambda>(path_id, route). mp_install_route env route adj (calculate_dscp_value path_id)) routes (inst, t) =
    (Inr (), (foldl group_append inst (concat (map (route_flows dp ip adj) routes)), t'))"
  using assms(2)
proof (induction routes arbitrary: inst t)
  case (Cons r routes)
  obtain i route where r: "r = (i, route)" by (cases r)
  obtain t1 where t1: "mp_install_route env route adj (calculate_dscp_value i) (inst, t) =
      (Inr (), (foldl group_append inst (route_flows dp ip adj (i, route)), t1))"
    using install_route_run [OF assms(1), of route adj i inst t] Cons.prems by (auto simp: r)
  then show ?case using Cons by (simp add: andthen_def r)
qed simp


definition ex_route_env :: "nat route_env" where
  "ex_route_env = \<lparr>re_routes = Inr [(0, [1, 2, 3])], re_topo_links = ret [(11, [(12, 5)])],
     re_push_flow_mod = (\<lambda>_ _ n. (Inr (), n + 1)), re_remove_flow = (\<lambda>_ _. ret ()),
     re_map_sw_to_host = (\<lambda>sw. map_sw_to_host (DInt sw)), re_resolve_hostname = (\<lambda>h. ret (Some h)),
     re_map_sw_to_dpid = (\<lambda>sw. ret (Some (show_int (sw + 10))))\<rparr>"


text \<open>With an \<open>OFProcessor\<close> nothing is installed.\<close>

lemma on_snd_fst: "fst (snd (on_snd m st)) = fst st"
  by (cases st) (simp add: on_snd_run)

lemma andthen_keeps_fst:
  assumes "\<And>st. fst (snd (m st)) = fst st" and "\<And>x st. fst (snd (f x st)) = fst st"
  shows "fst (snd (andthen m f st)) = fst st"
  by (cases rule: andthen_cases [of m st f]) (metis assms fst_conv snd_conv)+

lemma pure_keeps_fst [simp]: "fst (snd (ret x st)) = fst st" "fst (snd (of_res r st)) = fst st"
  by simp_all

lemma ryu_link_keeps: "fst (snd (install_link (ryu_env srv p dns m routes) src_ip dst_ip adj dscp e st)) = fst st"
proof -
  let ?env = "ryu_env srv p dns m routes"
  have push: "fst (snd (andthen (on_snd (re_push_flow_mod ?env d fm)) f st)) = fst st" for d fm f and st :: "installed \<times> http_request list"
  proof -
    have "re_push_flow_mod ?env d fm t = (Inl NameError, t)" for t
      by (simp add: ryu_env_def andthen_def push_flow_mod_def proc_response_def get_response_flowmod)
    then show ?thesis by (cases st) (simp add: andthen_def on_snd_run)
  qed
  have known: "fst (snd ((case port of Inl _ \<Rightarrow> ret () | Inr q \<Rightarrow> andthen (on_snd (k q)) (\<lambda>x.
      andthen (on_snd (re_push_flow_mod ?env (d q) (fm q))) (f q x))) st)) = fst st"
    for port :: "int res" and k d fm f and st :: "installed \<times> http_request list"
    by (cases port) (simp_all only: sum.case pure_keeps_fst andthen_keeps_fst on_snd_fst push)
  show ?thesis
    unfolding install_link_def Let_def
    by (cases e) (simp only: prod.case andthen_keeps_fst on_snd_fst pure_keeps_fst known)
qed

lemma each_keeps_fst: "(\<And>x st. fst (snd (f x st)) = fst st) \<Longrightarrow> fst (snd (each f xs st)) = fst st"
  by (induction xs arbitrary: st) (auto intro: andthen_keeps_fst)

text \<open>
  With the processor the drivers use, no route is ever installed: whatever the controller and the
  name servers answer and however the routes look, nothing is recorded as installed, for every attempt
  to push a flow modification raises.
\<close>

theorem ryu_routes_never_installed:
  "fst (snd (mp_install_routes (ryu_env srv p dns m routes) (inst, sent))) = inst"
proof -
  have route: "fst (snd (mp_install_route (ryu_env srv p dns m routes) route adj dscp st)) = fst st" for route adj dscp st
    unfolding mp_install_route_def host_ip_def
    by (intro andthen_keeps_fst each_keeps_fst on_snd_fst pure_keeps_fst ryu_link_keeps)
  have "fst (snd (mp_install_routes (ryu_env srv p dns m routes) st)) = fst st" for st
    unfolding mp_install_routes_def
    by (intro andthen_keeps_fst each_keeps_fst on_snd_fst pure_keeps_fst) (simp add: route split: prod.split)
  then show ?thesis by simp
qed

end
