(* ===== verification/Mp_Monitor.thy ===== *)
theory Mp_Monitor
  imports Openflow
begin

section \<open>The port statistics monitor\<close>

text \<open>
  \<open>MPStatMonitor\<close> of \<open>mp_routing/multipath_orchestrator.py\<close>: packet counters of the monitored switches,
  sampled by a timer that starts itself again until it finds a stop event.  The monitor's threads
  interleave at the level of its methods: a call of \<open>start_monitor\<close>, the first part of \<open>stop_monitor\<close>
  (which then waits for the event to be cleared), or a timer that fires and runs \<open>_retrieve_stats\<close>.
  \<open>timers\<close> counts the timers that are pending.  An exception in a timer's thread ends that thread.
\<close>

type_synonym port_samples = "(dpid \<times> int, json list) dict"

record mp_monitor =
  rx_stats_list :: port_samples
  tx_stats_list :: port_samples
  stop_event :: bool
  timers :: nat

record mon_cfg =
  mc_controller_ip :: string
  mc_controller_port :: int
  mc_dpids :: "dpid list"

subsection \<open>Sampling\<close>

definition request_port_stats :: "server \<Rightarrow> mon_cfg \<Rightarrow> dpid \<Rightarrow> ((int, json) dict \<times> (int, json) dict) io" where
  "request_port_stats srv cfg dpid = andthen (get_response srv (mc_controller_ip cfg) (mc_controller_port cfg) (GetPortStats dpid)) (\<lambda>resp.
     andthen (of_res (get_tx_packets (of_resp resp))) (\<lambda>tx_pkts.
     andthen (of_res (get_rx_packets (of_resp resp))) (\<lambda>rx_pkts. ret (rx_pkts, tx_pkts))))"

definition append_counts :: "dpid \<Rightarrow> port_samples \<Rightarrow> (int, json) dict \<Rightarrow> port_samples" where
  "append_counts dpid samples pkts = foldl group_append samples (map (\<lambda>(port_no, count). ((dpid, port_no), count)) pkts)"

definition sample_dpid :: "server \<Rightarrow> mon_cfg \<Rightarrow> dpid \<Rightarrow> (mp_monitor \<times> http_request list, unit) prog" where
  "sample_dpid srv cfg dpid =
     andthen (on_snd (request_port_stats srv cfg dpid)) (\<lambda>(rx_pkts, tx_pkts).
     modify_fst (\<lambda>m. m\<lparr>tx_stats_list := append_counts dpid (tx_stats_list m) tx_pkts,
       rx_stats_list := append_counts dpid (rx_stats_list m) rx_pkts\<rparr>))"

definition update_stat_lists :: "server \<Rightarrow> mon_cfg \<Rightarrow> (mp_monitor \<times> http_request list, unit) prog" where
  "update_stat_lists srv cfg = each (sample_dpid srv cfg) (mc_dpids cfg)"

definition new_mp_monitor :: "server \<Rightarrow> mon_cfg \<Rightarrow> http_request list \<Rightarrow> unit res \<times> (mp_monitor \<times> http_request list)" where
  "new_mp_monitor srv cfg sent =
     update_stat_lists srv cfg (\<lparr>rx_stats_list = [], tx_stats_list = [], stop_event = False, timers = 0\<rparr>, sent)"

subsection \<open>Starting and stopping\<close>

datatype mon_event = StartMonitor | StopMonitor | TimerFires

definition mp_start_monitor :: "mp_monitor \<Rightarrow> mp_monitor" where
  "mp_start_monitor m = m\<lparr>timers := Suc (timers m)\<rparr>"

definition retrieve_stats :: "server \<Rightarrow> mon_cfg \<Rightarrow> (mp_monitor \<times> http_request list, unit) prog" where
  "retrieve_stats srv cfg = andthen (update_stat_lists srv cfg) (\<lambda>_.
     modify_fst (\<lambda>m. if \<not> stop_event m then mp_start_monitor m else m\<lparr>stop_event := False\<rparr>))"

inductive mon_step :: "server \<Rightarrow> mon_cfg \<Rightarrow> mon_event \<Rightarrow> mp_monitor \<times> http_request list \<Rightarrow> mp_monitor \<times> http_request list \<Rightarrow> bool"
  for srv cfg where
  started: "mon_step srv cfg StartMonitor (m, sent) (mp_start_monitor m, sent)"
| stopping: "mon_step srv cfg StopMonitor (m, sent) (m\<lparr>stop_event := True\<rparr>, sent)"
| fired: "0 < timers m \<Longrightarrow> retrieve_stats srv cfg (m\<lparr>timers := timers m - 1\<rparr>, sent) = (r, st')
    \<Longrightarrow> mon_step srv cfg TimerFires (m, sent) st'"

inductive_cases mon_step_cases: "mon_step srv cfg ev st st'"
inductive_simps fires_iff: "mon_step srv cfg TimerFires (m, sent) st'"

inductive mon_run :: "server \<Rightarrow> mon_cfg \<Rightarrow> mon_event list \<Rightarrow> mp_monitor \<times> http_request list \<Rightarrow> mp_monitor \<times> http_request list \<Rightarrow> bool"
  for srv cfg where
  run_empty: "mon_run srv cfg [] st st"
| run_step: "mon_step srv cfg ev st st1 \<Longrightarrow> mon_run srv cfg evs st1 st2 \<Longrightarrow> mon_run srv cfg (ev # evs) st st2"

inductive_cases mon_run_Cons: "mon_run srv cfg (ev # evs) st st'"

subsection \<open>Properties\<close>

lemma keeps_modify:
  assumes "\<And>m. f (g m) = f m"
  shows "f (fst (snd (modify_fst g st))) = f (fst st)"
  using assms by (cases st) simp

lemma update_keeps:
  assumes "\<And>m tx rx. f (m\<lparr>tx_stats_list := tx, rx_stats_list := rx\<rparr>) = f m"
  shows "f (fst (snd (update_stat_lists srv cfg st))) = f (fst st)"
proof -
  have "f (fst (snd (each (sample_dpid srv cfg) ds st))) = f (fst st)" for ds
  proof (induction ds arbitrary: st)
    case (Cons d ds)
    obtain m sent where st: "st = (m, sent)" by (cases st)
    show ?case
    proof (cases "request_port_stats srv cfg d sent")
      case (Pair r sent')
      then show ?thesis using Cons assms by (cases r) (auto simp: st sample_dpid_def andthen_def on_snd_run split: prod.splits)
    qed
  qed simp
  then show ?thesis unfolding update_stat_lists_def .
qed

lemmas update_keeps_flags = update_keeps [of stop_event, simplified] update_keeps [of timers, simplified]

text \<open>The three outcomes of a timer.\<close>

lemma retrieve_outcome:
  assumes "retrieve_stats srv cfg (m, sent) = (r, (m', sent'))"
  shows "(\<exists>e. r = Inl e) \<and> stop_event m' = stop_event m \<and> timers m' = timers m \<or>
    r = Inr () \<and> \<not> stop_event m \<and> \<not> stop_event m' \<and> timers m' = Suc (timers m) \<or>
    r = Inr () \<and> stop_event m \<and> \<not> stop_event m' \<and> timers m' = timers m"
proof -
  obtain r1 m1 s1 where u: "update_stat_lists srv cfg (m, sent) = (r1, (m1, s1))" by (metis prod.collapse)
  then have "stop_event m1 = stop_event m" "timers m1 = timers m"
    using update_keeps_flags [of srv cfg "(m, sent)"] by simp_all
  then show ?thesis using assms u
    by (cases r1) (auto simp: retrieve_stats_def andthen_def mp_start_monitor_def split: if_splits)
qed

lemma fired_outcome:
  assumes "mon_step srv cfg TimerFires (m, sent) (m', sent')"
  shows "0 < timers m \<and> (stop_event m' = stop_event m \<and> timers m' = timers m - 1 \<or>
    \<not> stop_event m \<and> \<not> stop_event m' \<and> timers m' = timers m \<or>
    stop_event m \<and> \<not> stop_event m' \<and> timers m' = timers m - 1)"
  using assms retrieve_outcome unfolding fires_iff by fastforce

text \<open>
  C36.  A monitor that is started once never has more than one timer pending, whatever the controller
  answers and however stopping and timers interleave; and when a stop is requested while a timer is
  pending, the firing of that timer ends the wait of \<open>stop_monitor\<close> unless it raises.
\<close>

theorem monitor_single_timer:
  assumes "mon_run srv cfg evs (mp_start_monitor m, sent) (m', sent')" and "timers m = 0" and "StartMonitor \<notin> set evs"
  shows "timers m' \<le> 1 \<and> (stop_event m' \<and> timers m' = 1 \<longrightarrow>
    (\<forall>m2 s2. retrieve_stats srv cfg (m'\<lparr>timers := 0\<rparr>, sent') = (Inr (), (m2, s2)) \<longrightarrow> \<not> stop_event m2 \<and> timers m2 = 0))"
proof -
  have "timers m' \<le> 1" if "mon_run srv cfg evs (n, sent) (m', sent')" "timers n \<le> 1" "StartMonitor \<notin> set evs" for n sent
    using that
  proof (induction evs arbitrary: n sent)
    case Nil
    then show ?case by (auto elim: mon_run.cases)
  next
    case (Cons ev evs)
    from Cons.prems(1) obtain n1 s1 where step: "mon_step srv cfg ev (n, sent) (n1, s1)"
      and rest: "mon_run srv cfg evs (n1, s1) (m', sent')" by (metis mon_run_Cons surj_pair)
    have "timers n1 \<le> 1"
    proof (cases ev)
      case StartMonitor
      then show ?thesis using Cons.prems(3) by simp
    next
      case StopMonitor
      then show ?thesis using step Cons.prems(2) by (auto elim: mon_step_cases)
    next
      case TimerFires
      then show ?thesis using fired_outcome step Cons.prems(2) by fastforce
    qed
    then show ?case using Cons.IH [OF rest] Cons.prems(3) by simp
  qed
  from this [OF assms(1) _ assms(3)] have "timers m' \<le> 1" using assms(2) by (simp add: mp_start_monitor_def)
  moreover have "\<not> stop_event m2 \<and> timers m2 = 0"
    if "stop_event m'" "retrieve_stats srv cfg (m'\<lparr>timers := 0\<rparr>, sent') = (Inr (), (m2, s2))" for m2 s2
    using retrieve_outcome [OF that(2)] that(1) by auto
  ultimately show ?thesis by blast
qed

text \<open>
  A stop without a pending timer waits forever: when no timer is pending, because the monitor was never
  started or because sampling raised in the timer's thread, the stop event is never cleared again unless
  the monitor is started once more.
\<close>

theorem monitor_stop_hangs:
  assumes "timers m = 0" and "StartMonitor \<notin> set evs"
    and "mon_run srv cfg evs (m\<lparr>stop_event := True\<rparr>, sent) (m', sent')"
  shows "stop_event m' \<and> timers m' = 0"
proof -
  have "stop_event m' \<and> timers m' = 0"
    if "mon_run srv cfg evs (n, sent) (m', sent')" "timers n = 0" "stop_event n" "StartMonitor \<notin> set evs" for n sent
    using that
  proof (induction evs arbitrary: n sent)
    case Nil
    then show ?case by (auto elim: mon_run.cases)
  next
    case (Cons ev evs)
    from Cons.prems(1) obtain n1 s1 where step: "mon_step srv cfg ev (n, sent) (n1, s1)"
      and rest: "mon_run srv cfg evs (n1, s1) (m', sent')" by (metis mon_run_Cons surj_pair)
    have "timers n1 = 0 \<and> stop_event n1"
      using step Cons.prems(2-4) by (cases ev) (auto elim: mon_step_cases)
    then show ?case using Cons.IH [OF rest] Cons.prems(4) by simp
  qed
  then show ?thesis using assms by auto
qed

subsection \<open>Samples\<close>

lemma samples_of_dict:
  assumes "dict_wf d"
  shows "map snd (filter (\<lambda>x. fst x = k) d) = (case map_of d k of None \<Rightarrow> [] | Some v \<Rightarrow> [v])"
  using assms
proof (induction d)
  case (Cons x d)
  obtain k' v where x: "x = (k', v)" by (cases x)
  have "map_of d k' = None" using Cons.prems by (simp add: x dict_wf_def map_of_eq_None_iff)
  then show ?case using Cons by (auto simp: x dict_wf_def split: option.splits)
qed simp

lemma append_counts_lookup:
  assumes "dict_wf pkts"
  shows "dict_get_default (append_counts dpid samples pkts) (d, port) [] = dict_get_default samples (d, port) [] @
    (if d = dpid then (case map_of pkts port of None \<Rightarrow> [] | Some c \<Rightarrow> [c]) else [])"
proof -
  have "map snd (filter (\<lambda>x. fst x = (d, port)) (map (\<lambda>(p, c). ((dpid, p), c)) pkts)) =
      (if d = dpid then map snd (filter (\<lambda>x. fst x = port) pkts) else [])"
    by (induction pkts) auto
  then show ?thesis unfolding append_counts_def group_append_lookup by (simp add: samples_of_dict [OF assms])
qed

lemma update_loop:
  assumes "\<And>d sent. d \<in> set ds \<Longrightarrow> \<exists>sent'. request_port_stats srv cfg d sent = (Inr (rx d, tx d), sent')"
    and "distinct ds" and "\<And>d. d \<in> set ds \<Longrightarrow> dict_wf (tx d) \<and> dict_wf (rx d)"
  shows "\<exists>m' sent'. each (sample_dpid srv cfg) ds (m, sent) = (Inr (), (m', sent')) \<and>
    (\<forall>d port. dict_get_default (tx_stats_list m') (d, port) [] = dict_get_default (tx_stats_list m) (d, port) [] @
       (if d \<in> set ds then (case map_of (tx d) port of None \<Rightarrow> [] | Some c \<Rightarrow> [c]) else []) \<and>
     dict_get_default (rx_stats_list m') (d, port) [] = dict_get_default (rx_stats_list m) (d, port) [] @
       (if d \<in> set ds then (case map_of (rx d) port of None \<Rightarrow> [] | Some c \<Rightarrow> [c]) else []))"
  using assms
proof (induction ds arbitrary: m sent)
  case (Cons dp ds)
  obtain s1 where s1: "request_port_stats srv cfg dp sent = (Inr (rx dp, tx dp), s1)" using Cons.prems(1) by (meson list.set_intros(1))
  have wf: "dict_wf (tx dp)" "dict_wf (rx dp)" using Cons.prems(3) by simp_all
  let ?m = "m\<lparr>tx_stats_list := append_counts dp (tx_stats_list m) (tx dp), rx_stats_list := append_counts dp (rx_stats_list m) (rx dp)\<rparr>"
  have step: "sample_dpid srv cfg dp (m, sent) = (Inr (), (?m, s1))" by (simp add: sample_dpid_def andthen_def on_snd_run s1)
  have new: "dp \<notin> set ds" using Cons.prems(2) by simp
  obtain m' s' where ih: "each (sample_dpid srv cfg) ds (?m, s1) = (Inr (), (m', s'))"
    "\<forall>d port. dict_get_default (tx_stats_list m') (d, port) [] = dict_get_default (tx_stats_list ?m) (d, port) [] @
       (if d \<in> set ds then (case map_of (tx d) port of None \<Rightarrow> [] | Some c \<Rightarrow> [c]) else []) \<and>
     dict_get_default (rx_stats_list m') (d, port) [] = dict_get_default (rx_stats_list ?m) (d, port) [] @
       (if d \<in> set ds then (case map_of (rx d) port of None \<Rightarrow> [] | Some c \<Rightarrow> [c]) else [])"
    using Cons.IH [of ?m s1] Cons.prems by auto
  have "each (sample_dpid srv cfg) (dp # ds) (m, sent) = (Inr (), (m', s'))"
    using ih(1) by (simp add: andthen_run(1) [where m = "sample_dpid srv cfg dp", OF step])
  moreover have "dict_get_default (tx_stats_list m') (d, port) [] = dict_get_default (tx_stats_list m) (d, port) [] @
       (if d \<in> set (dp # ds) then (case map_of (tx d) port of None \<Rightarrow> [] | Some c \<Rightarrow> [c]) else []) \<and>
     dict_get_default (rx_stats_list m') (d, port) [] = dict_get_default (rx_stats_list m) (d, port) [] @
       (if d \<in> set (dp # ds) then (case map_of (rx d) port of None \<Rightarrow> [] | Some c \<Rightarrow> [c]) else [])" for d port
    using ih(2) new by (simp add: append_counts_lookup [OF wf(1)] append_counts_lookup [OF wf(2)])
  ultimately show ?case by blast
qed simp

text \<open>
  One round of sampling: when the controller reports counters for all monitored switches, every
  reported port of a monitored switch gets exactly one more sample, the reported one, in the lists of sent and of received
  packets, and no other list changes.
\<close>

theorem samples_appended:
  assumes "\<And>d sent. d \<in> set (mc_dpids cfg) \<Longrightarrow> \<exists>sent'. request_port_stats srv cfg d sent = (Inr (rx d, tx d), sent')"
    and "distinct (mc_dpids cfg)" and "\<And>d. d \<in> set (mc_dpids cfg) \<Longrightarrow> dict_wf (tx d) \<and> dict_wf (rx d)"
  shows "\<exists>m' sent'. update_stat_lists srv cfg (m, sent) = (Inr (), (m', sent')) \<and>
    (\<forall>d port. dict_get_default (tx_stats_list m') (d, port) [] = dict_get_default (tx_stats_list m) (d, port) [] @
       (if d \<in> set (mc_dpids cfg) then (case map_of (tx d) port of None \<Rightarrow> [] | Some c \<Rightarrow> [c]) else []) \<and>
     dict_get_default (rx_stats_list m') (d, port) [] = dict_get_default (rx_stats_list m) (d, port) [] @
       (if d \<in> set (mc_dpids cfg) then (case map_of (rx d) port of None \<Rightarrow> [] | Some c \<Rightarrow> [c]) else []))"
  unfolding update_stat_lists_def by (rule update_loop [OF assms])

definition ex_port_server :: server where
  "ex_port_server sent rq = Reply 200 (Some (JObj [(''1'', JList [JObj [(''port_no'', JInt 4),
     (''rx_packets'', JInt 5), (''tx_packets'', JInt 7)]])]))"

definition ex_mon_cfg :: mon_cfg where
  "ex_mon_cfg = \<lparr>mc_controller_ip = ''c'', mc_controller_port = 8, mc_dpids = [DInt 1]\<rparr>"

definition ex_monitor :: mp_monitor where
  "ex_monitor = \<lparr>rx_stats_list = [], tx_stats_list = [], stop_event = False, timers = 0\<rparr>"

lemma ex_request:
  "\<exists>sent'. request_port_stats ex_port_server ex_mon_cfg d sent = (Inr ([(4, JInt 5)], [(4, JInt 7)]), sent')"
  using get_response_sent [of "GetPortStats d" _ ex_port_server "mc_controller_ip ex_mon_cfg" "mc_controller_port ex_mon_cfg" sent]
  by (simp add: request_port_stats_def andthen_def ex_port_server_def answer_of_def from_json_def parse_body_def loads_def
      get_tx_packets_def get_rx_packets_def build_port_dict_def json_items_def dict_get_def json_to_int_def dict_set_def)

theorem samples_appended_witness:
  "\<exists>m' sent'. update_stat_lists ex_port_server ex_mon_cfg (ex_monitor, []) = (Inr (), (m', sent')) \<and>
     dict_get_default (tx_stats_list m') (DInt 1, 4) [] = [JInt 7] \<and> dict_get_default (rx_stats_list m') (DInt 1, 4) [] = [JInt 5] \<and>
     dict_get_default (tx_stats_list m') (DInt 2, 4) [] = []"
proof -
  have ds: "mc_dpids ex_mon_cfg = [DInt 1]" by (simp add: ex_mon_cfg_def)
  obtain m' sent' where "update_stat_lists ex_port_server ex_mon_cfg (ex_monitor, []) = (Inr (), (m', sent'))"
    "\<forall>d port. dict_get_default (tx_stats_list m') (d, port) [] = dict_get_default (tx_stats_list ex_monitor) (d, port) [] @
       (if d \<in> set (mc_dpids ex_mon_cfg) then (case map_of [(4 :: int, JInt 7)] port of None \<Rightarrow> [] | Some c \<Rightarrow> [c]) else []) \<and>
     dict_get_default (rx_stats_list m') (d, port) [] = dict_get_default (rx_stats_list ex_monitor) (d, port) [] @
       (if d \<in> set (mc_dpids ex_mon_cfg) then (case map_of [(4 :: int, JInt 5)] port of None \<Rightarrow> [] | Some c \<Rightarrow> [c]) else [])"
    using samples_appended [of ex_mon_cfg ex_port_server "\<lambda>_. [(4, JInt 5)]" "\<lambda>_. [(4, JInt 7)]" ex_monitor "[]", OF ex_request]
    by (auto simp: ds dict_wf_def)
  then show ?thesis by (auto simp: ds ex_monitor_def dict_get_default_def)
qed

theorem monitor_single_timer_witness:
  "\<exists>m' sent'. mon_run ex_port_server ex_mon_cfg [TimerFires, StopMonitor] (mp_start_monitor ex_monitor, []) (m', sent') \<and>
     stop_event m' \<and> timers m' = 1 \<and> (\<exists>m2 s2. retrieve_stats ex_port_server ex_mon_cfg (m'\<lparr>timers := 0\<rparr>, sent') = (Inr (), (m2, s2)) \<and> \<not> stop_event m2)"
proof -
  let ?srv = ex_port_server
  have upd: "\<exists>n s'. update_stat_lists ?srv ex_mon_cfg (n0, s) = (Inr (), (n, s'))" for n0 s
    using samples_appended [of ex_mon_cfg ?srv "\<lambda>_. [(4, JInt 5)]" "\<lambda>_. [(4, JInt 7)]" n0 s, OF ex_request]
    by (auto simp: ex_mon_cfg_def dict_wf_def)
  have ret: "\<exists>n s'. retrieve_stats ?srv ex_mon_cfg (n0, s) = (Inr (), (n, s'))" for n0 s
    using upd [of n0 s] by (auto simp: retrieve_stats_def andthen_def)
  let ?start = "mp_start_monitor ex_monitor"
  obtain m1 s1 where r1: "retrieve_stats ?srv ex_mon_cfg (?start\<lparr>timers := timers ?start - 1\<rparr>, []) = (Inr (), (m1, s1))" using ret by blast
  let ?m = "m1\<lparr>stop_event := True\<rparr>"
  have run: "mon_run ?srv ex_mon_cfg [TimerFires, StopMonitor] (?start, []) (?m, s1)"
  proof (rule run_step [OF fired [OF _ r1]])
    show "0 < timers ?start" by (simp add: mp_start_monitor_def)
    show "mon_run ?srv ex_mon_cfg [StopMonitor] (m1, s1) (?m, s1)" by (rule run_step [OF stopping]) (rule run_empty)
  qed
  have "timers m1 = 1" using retrieve_outcome [OF r1] by (auto simp: mp_start_monitor_def ex_monitor_def)
  moreover obtain m2 s2 where "retrieve_stats ?srv ex_mon_cfg (?m\<lparr>timers := 0\<rparr>, s1) = (Inr (), (m2, s2))" using ret by blast
  moreover from this have "\<not> stop_event m2"
    using monitor_single_timer [OF run] \<open>timers m1 = 1\<close> by (auto simp: ex_monitor_def)
  ultimately show ?thesis using run by fastforce
qed

theorem monitor_stop_hangs_witness:
  "\<exists>m' sent'. mon_run ex_port_server ex_mon_cfg [StopMonitor] (ex_monitor\<lparr>stop_event := True\<rparr>, []) (m', sent') \<and> stop_event m' \<and> timers m' = 0"
proof -
  have "mon_run ex_port_server ex_mon_cfg [StopMonitor] (ex_monitor\<lparr>stop_event := True\<rparr>, []) (ex_monitor\<lparr>stop_event := True\<rparr>\<lparr>stop_event := True\<rparr>, [])"
    by (rule run_step [OF stopping]) (rule run_empty)
  moreover from monitor_stop_hangs [OF _ _ this] have "stop_event (ex_monitor\<lparr>stop_event := True\<rparr>\<lparr>stop_event := True\<rparr>) \<and>
      timers (ex_monitor\<lparr>stop_event := True\<rparr>\<lparr>stop_event := True\<rparr>) = 0" by (simp add: ex_monitor_def)
  ultimately show ?thesis by blast
qed

end
