(* ===== verification/Stats_Processor.thy ===== *)
theory Stats_Processor
  imports Host_Mapper
begin

section \<open>Processing the statistics of multipath trials\<close>

text \<open>
  \<open>StatsProcessor\<close> of \<open>mp_routing/stats_processor.py\<close>: link utilisation from packet counters, and loss and
  receive rates from the packet counts of senders and receivers.  The processor and the mapper it is
  given are parameters (\<open>topo\<close>: the adjacency matrix, \<open>to_sw\<close>: the name of a dpid, \<open>reverse\<close>,
  \<open>qualify\<close> and \<open>to_host\<close>: the names of hosts); the pickled count files are given by what they hold.  What is
  only printed, and \<open>Grapher\<close>, is left out.
\<close>

subsection \<open>Nested dictionaries\<close>

definition nested_set :: "('a, ('b, 'c) dict) dict \<Rightarrow> 'a \<Rightarrow> 'b \<Rightarrow> 'c \<Rightarrow> ('a, ('b, 'c) dict) dict" where
  "nested_set d a b v = dict_set d a (dict_set (dict_get_default d a []) b v)"

definition nested_get :: "('a, ('b, 'c) dict) dict \<Rightarrow> 'a \<Rightarrow> 'b \<Rightarrow> 'c res" where
  "nested_get d a b = dict_get (dict_get_default d a []) b"

lemma nested_get_set [simp]:
  "nested_get (nested_set d a b v) a' b' = (if a' = a \<and> b' = b then Inr v else nested_get d a' b')"
  by (simp add: nested_get_def nested_set_def dict_get_default_def)

subsection \<open>Links and ports\<close>

definition get_link :: "('t, adj_mat) prog \<Rightarrow> int \<Rightarrow> int \<Rightarrow> ('t, int \<times> int) prog" where
  "get_link topo src_dpid port_no = andthen topo (\<lambda>adj.
     case filter (\<lambda>t. snd t = port_no) (dict_get_default adj src_dpid []) of
       [] \<Rightarrow> of_res (Inl ValueError)
     | next_hop # _ \<Rightarrow> ret (src_dpid, fst next_hop))"

definition get_friendly_link :: "('t, adj_mat) prog \<Rightarrow> (int \<Rightarrow> ('t, 'n) prog) \<Rightarrow> int \<Rightarrow> int \<Rightarrow> ('t, 'n \<times> 'n) prog" where
  "get_friendly_link topo to_sw src_dpid port_no = andthen (get_link topo src_dpid port_no) (\<lambda>(a, b).
     andthen (to_sw a) (\<lambda>src_nm. andthen (to_sw b) (\<lambda>dst_nm. ret (src_nm, dst_nm))))"

text \<open>\<open>try: ... except ValueError\<close>\<close>

definition catch_value :: "('s, 'a) prog \<Rightarrow> ('s, 'a option) prog" where
  "catch_value m = (\<lambda>s. case m s of
       (Inr x, s') \<Rightarrow> (Inr (Some x), s')
     | (Inl e, s') \<Rightarrow> if e = ValueError then (Inr None, s') else (Inl e, s'))"

definition is_core_port :: "('t, adj_mat) prog \<Rightarrow> int \<Rightarrow> int \<Rightarrow> ('t, bool) prog" where
  "is_core_port topo dpid port_no = andthen (catch_value (get_link topo dpid port_no)) (\<lambda>r. ret (r \<noteq> None))"

definition is_host_port :: "('t, adj_mat) prog \<Rightarrow> int \<Rightarrow> int \<Rightarrow> ('t, bool) prog" where
  "is_host_port topo dpid port_no = andthen (is_core_port topo dpid port_no) (\<lambda>b. ret (\<not> b))"

subsection \<open>Utilisation\<close>

type_synonym port_counts = "(int \<times> int, int list) dict"

definition compute_timeframes :: "port_counts \<Rightarrow> port_counts" where
  "compute_timeframes results_store = map (\<lambda>(k, v). (k, map (\<lambda>(a, b). b - a) (pairwise v))) results_store"

text \<open>\<open>statistics.mean\<close> raises \<open>StatisticsError\<close>, a \<open>ValueError\<close>, on an empty list.\<close>

definition stat_mean :: "int list \<Rightarrow> pyfloat res" where
  "stat_mean xs = (if xs = [] then Inl ValueError else Inr (of_int (sum_list xs) / of_nat (length xs)))"

definition calc_link_util_pps ::
    "('t, adj_mat) prog \<Rightarrow> (int \<Rightarrow> ('t, 'n) prog) \<Rightarrow> port_counts \<Rightarrow> ('t, ('n, ('n, pyfloat) dict) dict) prog" where
  "calc_link_util_pps topo to_sw stats_dict = fold_prog (\<lambda>link_utils ((sw_dpid, egress_port), count_list).
     andthen (catch_value (get_friendly_link topo to_sw sw_dpid egress_port)) (\<lambda>nm. case nm of
       None \<Rightarrow> ret link_utils
     | Some (src_nm, dst_nm) \<Rightarrow> andthen (of_res (stat_mean count_list)) (\<lambda>avg_util.
         ret (nested_set link_utils src_nm dst_nm avg_util)))) [] (compute_timeframes stats_dict)"

definition calc_link_util_pps_t ::
    "('t, adj_mat) prog \<Rightarrow> (int \<Rightarrow> ('t, 'n) prog) \<Rightarrow> port_counts \<Rightarrow> ('t, ('n, ('n, int list) dict) dict) prog" where
  "calc_link_util_pps_t topo to_sw stats_dict = fold_prog (\<lambda>link_utils ((sw_dpid, egress_port), count_list).
     andthen (catch_value (get_friendly_link topo to_sw sw_dpid egress_port)) (\<lambda>nm. case nm of
       None \<Rightarrow> ret link_utils
     | Some (src_nm, dst_nm) \<Rightarrow> ret (nested_set link_utils src_nm dst_nm count_list))) [] (compute_timeframes stats_dict)"

definition calc_uplink_port_util_pps ::
    "('t, adj_mat) prog \<Rightarrow> (int \<Rightarrow> ('t, 'n) prog) \<Rightarrow> (int list \<Rightarrow> 'v res) \<Rightarrow> port_counts \<Rightarrow> ('t, ('n, (int, 'v) dict) dict) prog" where
  "calc_uplink_port_util_pps topo to_sw transf_fn stats_dict = fold_prog (\<lambda>link_utils ((sw_dpid, egress_port), count_list).
     andthen (is_host_port topo sw_dpid egress_port) (\<lambda>h.
       if h then andthen (to_sw sw_dpid) (\<lambda>sw_name. andthen (of_res (transf_fn count_list)) (\<lambda>v.
         ret (nested_set link_utils sw_name egress_port v)))
       else ret link_utils)) [] (compute_timeframes stats_dict)"

datatype Units = PacketsPerSecond | MegaBitsPerSecond | BitsPerSecond | BytesPerSecond | MegaBytesPerSecond

definition py_div :: "pyfloat \<Rightarrow> pyfloat \<Rightarrow> pyfloat res" where
  "py_div a b = (if b = 0 then Inl ZeroDivisionError else Inr (a / b))"

fun build_conv_fn :: "pyfloat \<Rightarrow> pyfloat \<Rightarrow> Units \<Rightarrow> pyfloat \<Rightarrow> pyfloat res" where
  "build_conv_fn pkt_size time_frame PacketsPerSecond pkts = py_div pkts time_frame"
| "build_conv_fn pkt_size time_frame BitsPerSecond pkts = py_div (pkts * pkt_size * 8) time_frame"
| "build_conv_fn pkt_size time_frame MegaBitsPerSecond pkts = py_div ((pkts * pkt_size * 8) / 10 ^ 6) time_frame"
| "build_conv_fn pkt_size time_frame BytesPerSecond pkts = py_div (pkts * 1066) time_frame"
| "build_conv_fn pkt_size time_frame MegaBytesPerSecond pkts = py_div ((pkts * 1066) / 10 ^ 6) time_frame"

definition convert_stats :: "('a, ('b, 'v) dict) dict \<Rightarrow> ('v \<Rightarrow> 'w res) \<Rightarrow> ('a, ('b, 'w) dict) dict res" where
  "convert_stats stats_dict conv_fn = fold_res (\<lambda>acc (src_sw, v).
     fold_res (\<lambda>acc (dst_sw, count). rbind (conv_fn count) (\<lambda>x. Inr (nested_set acc src_sw dst_sw x))) acc v) [] stats_dict"

definition convert_stats_list :: "('a, ('b, int list) dict) dict \<Rightarrow> (pyfloat \<Rightarrow> pyfloat res) \<Rightarrow> ('a, ('b, pyfloat list) dict) dict res" where
  "convert_stats_list stats_dict conv_fn = convert_stats stats_dict (\<lambda>count_list. map_res (\<lambda>c. conv_fn (of_int c)) count_list)"

definition calc_link_util ::
    "('t, adj_mat) prog \<Rightarrow> (int \<Rightarrow> ('t, 'n) prog) \<Rightarrow> port_counts \<Rightarrow> pyfloat \<Rightarrow> pyfloat \<Rightarrow> Units \<Rightarrow> ('t, ('n, ('n, pyfloat) dict) dict) prog" where
  "calc_link_util topo to_sw stats_dict pkt_size time_frame units = andthen (calc_link_util_pps topo to_sw stats_dict) (\<lambda>pps_stats.
     of_res (convert_stats pps_stats (build_conv_fn pkt_size time_frame units)))"

definition calc_link_util_per_t ::
    "('t, adj_mat) prog \<Rightarrow> (int \<Rightarrow> ('t, 'n) prog) \<Rightarrow> port_counts \<Rightarrow> pyfloat \<Rightarrow> pyfloat \<Rightarrow> Units \<Rightarrow> ('t, ('n, ('n, pyfloat list) dict) dict) prog" where
  "calc_link_util_per_t topo to_sw stats_dict pkt_size time_frame units = andthen (calc_link_util_pps_t topo to_sw stats_dict) (\<lambda>pps_stats.
     of_res (convert_stats_list pps_stats (build_conv_fn pkt_size time_frame units)))"

definition calc_ingress_util ::
    "('t, adj_mat) prog \<Rightarrow> (int \<Rightarrow> ('t, 'n) prog) \<Rightarrow> port_counts \<Rightarrow> pyfloat \<Rightarrow> pyfloat \<Rightarrow> Units \<Rightarrow> ('t, ('n, (int, pyfloat) dict) dict) prog" where
  "calc_ingress_util topo to_sw stats_dict pkt_size time_frame units = andthen (calc_uplink_port_util_pps topo to_sw stat_mean stats_dict) (\<lambda>pps_stats.
     of_res (convert_stats pps_stats (build_conv_fn pkt_size time_frame units)))"

definition calc_ingress_util_per_t ::
    "('t, adj_mat) prog \<Rightarrow> (int \<Rightarrow> ('t, 'n) prog) \<Rightarrow> port_counts \<Rightarrow> pyfloat \<Rightarrow> pyfloat \<Rightarrow> Units \<Rightarrow> ('t, ('n, (int, pyfloat list) dict) dict) prog" where
  "calc_ingress_util_per_t topo to_sw stats_dict pkt_size time_frame units = andthen (calc_uplink_port_util_pps topo to_sw Inr stats_dict) (\<lambda>pps_stats.
     of_res (convert_stats_list pps_stats (build_conv_fn pkt_size time_frame units)))"

subsection \<open>Loss and receive rates\<close>

record flow_info =
  fi_src_host :: dpid
  fi_dst_ip :: string
  fi_src_port :: int
  fi_pkt_count :: int

record host_names =
  hn_reverse_lookup :: "string \<Rightarrow> string option res"
  hn_qualify_host_domain :: "string \<Rightarrow> string res"
  hn_map_sw_to_host :: "dpid \<Rightarrow> string res"

type_synonym 'v flow_counts = "(string, (string, (int, 'v) dict) dict) dict"

definition counts_set :: "'v flow_counts \<Rightarrow> string \<Rightarrow> string \<Rightarrow> int \<Rightarrow> 'v \<Rightarrow> 'v flow_counts" where
  "counts_set d a b p v = dict_set d a (nested_set (dict_get_default d a []) b p v)"

definition counts_get :: "'v flow_counts \<Rightarrow> string \<Rightarrow> string \<Rightarrow> int \<Rightarrow> 'v res" where
  "counts_get d a b p = nested_get (dict_get_default d a []) b p"

text \<open>The name of an address; names of the data network are moved to another domain.\<close>

definition peer_name :: "host_names \<Rightarrow> string \<Rightarrow> string res" where
  "peer_name hn ip = rbind (hn_reverse_lookup hn ip) (\<lambda>r. case r of
       None \<Rightarrow> Inl AttributeError
     | Some name \<Rightarrow> let tok_list = split_on (CHR ''.'') name in
         rbind (py_nth tok_list 2) (\<lambda>t2. rbind (py_nth tok_list 0) (\<lambda>t0.
         Inr (if t2 = ''168'' then t0 @ ''.of.cpsc.'' else name))))"

definition unreversed_ip :: "string \<Rightarrow> string res" where
  "unreversed_ip dst_ip = (let octets = split_on (CHR ''.'') dst_ip in
     rbind (py_nth octets 1) (\<lambda>o1. if o1 \<noteq> ''0'' then Inr dst_ip else
     rbind (py_nth octets 2) (\<lambda>o2. if o2 \<noteq> ''168'' then Inr dst_ip else
     rbind (py_nth octets 3) (\<lambda>o3. if o3 \<noteq> ''192'' then Inr dst_ip else
     rbind (py_nth octets 0) (\<lambda>o0. Inr (o3 @ ''.'' @ o2 @ ''.'' @ o1 @ ''.'' @ o0))))))"

definition mk_tx_dict :: "host_names \<Rightarrow> (int, flow_info) dict list \<Rightarrow> int flow_counts res" where
  "mk_tx_dict hn tx_files = fold_res (\<lambda>tx_dict flow_dict. fold_res (\<lambda>tx_dict (_, info).
     rbind (unreversed_ip (fi_dst_ip info)) (\<lambda>dst_ip.
     rbind (peer_name hn dst_ip) (\<lambda>dst_hname.
     rbind (rbind (hn_map_sw_to_host hn (fi_src_host info)) (hn_qualify_host_domain hn)) (\<lambda>src_hname.
     Inr (counts_set tx_dict src_hname dst_hname (fi_src_port info) (fi_pkt_count info)))))) tx_dict flow_dict) [] tx_files"

text \<open>\<open>os.path.splitext(os.path.basename(f))[0]\<close>\<close>

definition base_name :: "string \<Rightarrow> string" where
  "base_name f = last (split_on (CHR ''/'') f)"

definition split_root :: "string \<Rightarrow> string" where
  "split_root base = (let ps = split_on (CHR ''.'') base in
     if list_all (\<lambda>w. w = []) (butlast ps) then base else join_with ''.'' (butlast ps))"

definition mk_rx_dict :: "host_names \<Rightarrow> (string \<times> ((string \<times> int), int) dict) list \<Rightarrow> int flow_counts res" where
  "mk_rx_dict hn rx_files = fold_res (\<lambda>rx_dict (f, infos). fold_res (\<lambda>rx_dict ((src_ip, src_port), pkt_count).
     rbind (py_nth (split_on (CHR ''_'') (split_root (base_name f))) 1) (\<lambda>rx_er.
     rbind (rbind (hn_map_sw_to_host hn (DStr rx_er)) (hn_qualify_host_domain hn)) (\<lambda>rx_host.
     rbind (peer_name hn src_ip) (\<lambda>hostname.
     Inr (counts_set rx_dict rx_host hostname src_port pkt_count))))) rx_dict infos) [] rx_files"

definition get_src_dst_pair :: "string \<Rightarrow> (int \<times> int) res" where
  "get_src_dst_pair file_name = (let toks = split_on (CHR ''-'') (split_root (base_name file_name)) in
     rbind (rbind (rbind (py_nth toks 0) (\<lambda>t. py_nth (split_on (CHR ''_'') t) 1)) py_int) (\<lambda>src_host.
     rbind (rbind (py_nth toks 1) py_int) (\<lambda>dst_host. Inr (src_host, dst_host))))"

definition calc_pkt_loss :: "int \<Rightarrow> int \<Rightarrow> pyfloat res" where
  "calc_pkt_loss tx_pkts rx_pkts = py_div (of_int (tx_pkts - rx_pkts)) (of_int tx_pkts)"

definition mk_loss_dict :: "int flow_counts \<Rightarrow> int flow_counts \<Rightarrow> pyfloat flow_counts res" where
  "mk_loss_dict tx_dict rx_dict = fold_res (\<lambda>loss (src_host, vs). fold_res (\<lambda>loss (dst_host, flows).
     fold_res (\<lambda>loss (src_port, tx_pkts). case counts_get rx_dict dst_host src_host src_port of
         Inl _ \<Rightarrow> Inr loss
       | Inr rx_pkts \<Rightarrow> rbind (calc_pkt_loss tx_pkts rx_pkts) (\<lambda>l. Inr (counts_set loss src_host dst_host src_port l)))
     loss flows) loss vs) [] tx_dict"

definition calc_loss_rates ::
    "host_names \<Rightarrow> (int, flow_info) dict list \<Rightarrow> (string \<times> ((string \<times> int), int) dict) list \<Rightarrow> pyfloat flow_counts res" where
  "calc_loss_rates hn tx_files rx_files = rbind (mk_tx_dict hn tx_files) (\<lambda>tx_dict. rbind (mk_rx_dict hn rx_files) (\<lambda>rx_dict.
     mk_loss_dict tx_dict rx_dict))"

definition calc_flow_rate ::
    "host_names \<Rightarrow> (int, flow_info) dict list \<Rightarrow> (string \<times> ((string \<times> int), int) dict) list \<Rightarrow> pyfloat \<Rightarrow> pyfloat \<Rightarrow> pyfloat flow_counts res" where
  "calc_flow_rate hn tx_files rx_files pkt_size trial_len = rbind (mk_rx_dict hn rx_files) (\<lambda>rx_dict. rbind (mk_tx_dict hn tx_files) (\<lambda>_.
     fold_res (\<lambda>rx_stats (rx_host, v). fold_res (\<lambda>rx_stats (tx_host, flows). fold_res (\<lambda>rx_stats (src_port, rx_count).
       rbind (py_div (of_int rx_count) trial_len) (\<lambda>r. Inr (counts_set rx_stats tx_host rx_host src_port (r * pkt_size * 8 / 10 ^ 6))))
       rx_stats flows) rx_stats v) [] rx_dict))"

subsection \<open>Converted statistics\<close>

definition nested_wf :: "('a, ('b, 'c) dict) dict \<Rightarrow> bool" where
  "nested_wf d \<longleftrightarrow> dict_wf d \<and> (\<forall>(a, v) \<in> set d. dict_wf v)"

lemma nested_wf_set [intro]:
  assumes "nested_wf d"
  shows "nested_wf (nested_set d a b v)"
proof -
  have "dict_wf (dict_get_default d a [])"
    using assms map_of_SomeD [of d a] by (auto simp: nested_wf_def dict_get_default_def split: option.splits)
  then show ?thesis using assms set_dict_set_subset [of d a "dict_set (dict_get_default d a []) b v"]
    unfolding nested_wf_def nested_set_def by (auto dest!: subsetD)
qed

lemma convert_inner:
  assumes "\<And>x. conv x = Inr (g x)" and "dict_wf v"
  shows "\<exists>acc'. fold_res (\<lambda>acc (b, x). rbind (conv x) (\<lambda>y. Inr (nested_set acc a b y))) acc v = Inr acc' \<and>
    (\<forall>a' b'. nested_get acc' a' b' = (case map_of v b' of
       Some x \<Rightarrow> if a' = a then Inr (g x) else nested_get acc a' b' | None \<Rightarrow> nested_get acc a' b'))"
  using assms(2)
proof (induction v arbitrary: acc)
  case (Cons p v)
  obtain b x where p: "p = (b, x)" by (cases p)
  have new: "map_of v b = None" and wf: "dict_wf v" using Cons.prems by (auto simp: p dict_wf_def map_of_eq_None_iff)
  obtain acc' where "fold_res (\<lambda>acc (b, x). rbind (conv x) (\<lambda>y. Inr (nested_set acc a b y))) (nested_set acc a b (g x)) v = Inr acc'"
    "\<forall>a' b'. nested_get acc' a' b' = (case map_of v b' of
       Some y \<Rightarrow> if a' = a then Inr (g y) else nested_get (nested_set acc a b (g x)) a' b'
     | None \<Rightarrow> nested_get (nested_set acc a b (g x)) a' b')"
    using Cons.IH [OF wf] by blast
  then show ?case using new by (auto simp: p assms(1) split: option.splits)
qed simp

lemma convert_outer:
  assumes "\<And>x. conv x = Inr (g x)" and "nested_wf d"
  shows "\<exists>acc'. fold_res (\<lambda>acc (a, v). fold_res (\<lambda>acc (b, x). rbind (conv x) (\<lambda>y. Inr (nested_set acc a b y))) acc v) acc d = Inr acc' \<and>
    (\<forall>a b. nested_get acc' a b = (case nested_get d a b of Inr x \<Rightarrow> Inr (g x) | Inl _ \<Rightarrow> nested_get acc a b))"
  using assms(2)
proof (induction d arbitrary: acc)
  case Nil
  then show ?case by (simp add: nested_get_def dict_get_default_def dict_get_def)
next
  case (Cons p d)
  obtain a0 v where p: "p = (a0, v)" by (cases p)
  have new: "map_of d a0 = None" and wf: "nested_wf d" "dict_wf v"
    using Cons.prems by (auto simp: p nested_wf_def dict_wf_def map_of_eq_None_iff)
  obtain acc1 where 1: "fold_res (\<lambda>acc (b, x). rbind (conv x) (\<lambda>y. Inr (nested_set acc a0 b y))) acc v = Inr acc1"
    "\<forall>a b. nested_get acc1 a b = (case map_of v b of
       Some x \<Rightarrow> if a = a0 then Inr (g x) else nested_get acc a b | None \<Rightarrow> nested_get acc a b)"
    using convert_inner [where conv = conv and a = a0 and acc = acc, OF assms(1) wf(2)] by blast
  obtain acc2 where 2: "fold_res (\<lambda>acc (a, v). fold_res (\<lambda>acc (b, x). rbind (conv x) (\<lambda>y. Inr (nested_set acc a b y))) acc v) acc1 d = Inr acc2"
    "\<forall>a b. nested_get acc2 a b = (case nested_get d a b of Inr x \<Rightarrow> Inr (g x) | Inl _ \<Rightarrow> nested_get acc1 a b)"
    using Cons.IH [OF wf(1)] by blast
  have "nested_get acc2 a b = (case nested_get ((a0, v) # d) a b of Inr x \<Rightarrow> Inr (g x) | Inl _ \<Rightarrow> nested_get acc a b)" for a b
  proof (cases "a = a0")
    case True
    then have "nested_get d a b = Inl KeyError" using new by (simp add: nested_get_def dict_get_default_def dict_get_def)
    then show ?thesis using 2(2) 1(2) True by (simp add: nested_get_def dict_get_default_def dict_get_def split: option.splits)
  next
    case False
    have "nested_get ((a0, v) # d) a b = nested_get d a b" using False by (simp add: nested_get_def dict_get_default_def)
    moreover have "nested_get acc1 a b = nested_get acc a b" using 1(2) False by (cases "map_of v b") simp_all
    ultimately show ?thesis using 2(2) by (simp split: sum.splits)
  qed
  then show ?case using 1(1) 2(1) by (simp add: p)
qed

lemma convert_stats_lookup:
  assumes "\<And>x. conv x = Inr (g x)" and "nested_wf d"
  shows "\<exists>d'. convert_stats d conv = Inr d' \<and> (\<forall>a b x. nested_get d a b = Inr x \<longrightarrow> nested_get d' a b = Inr (g x))"
  using convert_outer [where conv = conv, OF assms, of "[]"] unfolding convert_stats_def by fastforce

subsection \<open>Link utilisation\<close>

text \<open>A processor and a mapper that answer: the matrix \<open>adj\<close> and the names \<open>nm\<close>.\<close>

definition stats_env_works :: "('t, adj_mat) prog \<Rightarrow> (int \<Rightarrow> ('t, 'n) prog) \<Rightarrow> adj_mat \<Rightarrow> (int \<Rightarrow> 'n) \<Rightarrow> bool" where
  "stats_env_works topo to_sw adj nm \<longleftrightarrow> (\<forall>t. \<exists>t'. topo t = (Inr adj, t')) \<and> (\<forall>d t. \<exists>t'. to_sw d t = (Inr (nm d), t'))"

text \<open>The neighbour a port of a switch leads to.\<close>

definition neighbour :: "adj_mat \<Rightarrow> int \<times> int \<Rightarrow> int option" where
  "neighbour adj k = (case filter (\<lambda>t. snd t = snd k) (dict_get_default adj (fst k) []) of [] \<Rightarrow> None | h # _ \<Rightarrow> Some (fst h))"

lemma friendly_run:
  assumes "stats_env_works topo to_sw adj nm"
  shows "\<exists>t'. catch_value (get_friendly_link topo to_sw sw port) t =
    (Inr (map_option (\<lambda>b. (nm sw, nm b)) (neighbour adj (sw, port))), t')"
proof -
  obtain t1 where t1: "topo t = (Inr adj, t1)" using assms unfolding stats_env_works_def by blast
  obtain t2 where t2: "to_sw sw t1 = (Inr (nm sw), t2)" using assms unfolding stats_env_works_def by blast
  show ?thesis
  proof (cases "filter (\<lambda>t. snd t = port) (dict_get_default adj sw [])")
    case Nil
    then show ?thesis by (simp add: catch_value_def get_friendly_link_def get_link_def andthen_def t1 neighbour_def)
  next
    case (Cons h hs)
    obtain t3 where "to_sw (fst h) t2 = (Inr (nm (fst h)), t3)" using assms unfolding stats_env_works_def by blast
    then show ?thesis using Cons by (simp add: catch_value_def get_friendly_link_def get_link_def andthen_def t1 t2 neighbour_def)
  qed
qed

lemma sum_differences: "v \<noteq> [] \<Longrightarrow> sum_list (map (\<lambda>(a, b). b - a) (pairwise v)) = last v - (hd v :: int)"
proof (induction v rule: induct_list012)
  case (3 x y zs)
  then show ?case by simp
qed simp_all

lemma mean_of_frames:
  assumes "2 \<le> length v"
  shows "stat_mean (map (\<lambda>(a, b). b - a) (pairwise v)) = Inr (of_int (last v - hd v) / of_nat (length v - 1))"
proof -
  obtain x y zs where v: "v = x # y # zs" using assms by (metis (no_types) Suc_le_length_iff numeral_2_eq_2)
  then show ?thesis using sum_differences [of v] by (simp add: stat_mean_def)
qed

text \<open>Distinct ports of the statistics lead over distinct links.\<close>

definition no_parallel_links :: "adj_mat \<Rightarrow> port_counts \<Rightarrow> bool" where
  "no_parallel_links adj stats \<longleftrightarrow> (\<forall>k \<in> set (dict_keys stats). \<forall>k' \<in> set (dict_keys stats).
     fst k = fst k' \<and> neighbour adj k = neighbour adj k' \<and> neighbour adj k \<noteq> None \<longrightarrow> k = k')"

lemma pps_loop:
  assumes env: "stats_env_works topo to_sw adj nm" "inj nm"
    and "\<forall>(k, v) \<in> set stats. 2 \<le> length v" and "dict_wf stats" and "no_parallel_links adj stats" and "nested_wf acc"
  shows "\<exists>util t'. fold_prog (\<lambda>link_utils ((sw_dpid, egress_port), count_list).
     andthen (catch_value (get_friendly_link topo to_sw sw_dpid egress_port)) (\<lambda>nm. case nm of
       None \<Rightarrow> ret link_utils
     | Some (src_nm, dst_nm) \<Rightarrow> andthen (of_res (stat_mean count_list)) (\<lambda>avg_util.
         ret (nested_set link_utils src_nm dst_nm avg_util)))) acc (compute_timeframes stats) t = (Inr util, t') \<and>
     nested_wf util \<and>
     (\<forall>(k, v) \<in> set stats. \<forall>b. neighbour adj k = Some b \<longrightarrow>
        nested_get util (nm (fst k)) (nm b) = Inr (of_int (last v - hd v) / of_nat (length v - 1))) \<and>
     (\<forall>a b. (\<forall>k \<in> set (dict_keys stats). fst k = a \<longrightarrow> neighbour adj k \<noteq> Some b) \<longrightarrow>
        nested_get util (nm a) (nm b) = nested_get acc (nm a) (nm b))"
  using assms(3-)
proof (induction stats arbitrary: acc t)
  case Nil
  then show ?case by (simp add: compute_timeframes_def)
next
  case (Cons x stats)
  let ?loop = "fold_prog (\<lambda>link_utils ((sw_dpid, egress_port), count_list).
     andthen (catch_value (get_friendly_link topo to_sw sw_dpid egress_port)) (\<lambda>nm. case nm of
       None \<Rightarrow> ret link_utils
     | Some (src_nm, dst_nm) \<Rightarrow> andthen (of_res (stat_mean count_list)) (\<lambda>avg_util.
         ret (nested_set link_utils src_nm dst_nm avg_util))))"
  obtain sw port v where x: "x = ((sw, port), v)" by (metis surj_pair)
  let ?m = "of_int (last v - hd v) / of_nat (length v - 1) :: pyfloat"
  let ?acc = "case neighbour adj (sw, port) of None \<Rightarrow> acc | Some b \<Rightarrow> nested_set acc (nm sw) (nm b) ?m"
  obtain t1 where t1: "catch_value (get_friendly_link topo to_sw sw port) t =
      (Inr (map_option (\<lambda>b. (nm sw, nm b)) (neighbour adj (sw, port))), t1)" using friendly_run [OF env(1)] by blast
  have mean: "stat_mean (map (\<lambda>(a, b). b - a) (pairwise v)) = Inr ?m" using Cons.prems(1) by (intro mean_of_frames) (simp add: x)
  have step: "?loop acc (compute_timeframes (x # stats)) t = ?loop ?acc (compute_timeframes stats) t1"
    by (cases "neighbour adj (sw, port)")
      (simp_all add: x compute_timeframes_def mean andthen_assoc andthen_run(1) [where m = "catch_value (get_friendly_link topo to_sw sw port)", OF t1])
  have wf: "nested_wf ?acc" using Cons.prems(4) by (auto split: option.splits)
  have "set (dict_keys stats) \<subseteq> set (dict_keys (x # stats))" by auto
  then have "no_parallel_links adj stats" using Cons.prems(3) unfolding no_parallel_links_def by blast
  moreover have "\<forall>(k, v) \<in> set stats. 2 \<le> length v" "dict_wf stats"
    using Cons.prems(1,2) by (auto simp: dict_wf_def)
  ultimately have prems: "\<forall>(k, v) \<in> set stats. 2 \<le> length v" "dict_wf stats" "no_parallel_links adj stats" by blast+
  obtain util t' where ih: "?loop ?acc (compute_timeframes stats) t1 = (Inr util, t')" "nested_wf util"
    "\<forall>(k, v) \<in> set stats. \<forall>b. neighbour adj k = Some b \<longrightarrow>
        nested_get util (nm (fst k)) (nm b) = Inr (of_int (last v - hd v) / of_nat (length v - 1))"
    "\<forall>a b. (\<forall>k \<in> set (dict_keys stats). fst k = a \<longrightarrow> neighbour adj k \<noteq> Some b) \<longrightarrow>
        nested_get util (nm a) (nm b) = nested_get ?acc (nm a) (nm b)"
    using Cons.IH [OF prems wf] by blast
  have here: "nested_get util (nm sw) (nm b) = Inr ?m" if "neighbour adj (sw, port) = Some b" for b
  proof -
    have "neighbour adj k \<noteq> Some b" if "k \<in> set (dict_keys stats)" "fst k = sw" for k
      using that Cons.prems(2,3) \<open>neighbour adj (sw, port) = Some b\<close>
      by (force simp: x dict_wf_def no_parallel_links_def)
    then show ?thesis using ih(4) that by simp
  qed
  have other: "nested_get util (nm a) (nm b) = nested_get acc (nm a) (nm b)"
    if "\<forall>k \<in> set (dict_keys (x # stats)). fst k = a \<longrightarrow> neighbour adj k \<noteq> Some b" for a b
    using ih(4) that env(2) by (auto simp: x inj_eq split: option.splits)
  have all: "\<forall>(k, v) \<in> set (x # stats). \<forall>b. neighbour adj k = Some b \<longrightarrow>
        nested_get util (nm (fst k)) (nm b) = Inr (of_int (last v - hd v) / of_nat (length v - 1))"
    using ih(3) here by (simp add: x)
  have run: "?loop acc (compute_timeframes (x # stats)) t = (Inr util, t')" using step ih(1) by (rule trans)
  show ?case
    by (intro exI conjI, rule run, rule ih(2), rule all) (intro allI impI, rule other)
qed

text \<open>
  Link utilisation: with counters of at least two samples per port, and ports that lead over distinct links, the utilisation reported for a
  link in Mbit/s is the number of packets sent between the first and the last sample, divided by the number of intervals,
  times the size of a packet in bits, over the length of an interval; ports to hosts are left out.
\<close>

theorem link_utilisation_exact:
  assumes "stats_env_works topo to_sw adj nm" and "inj nm"
    and "\<forall>(k, v) \<in> set stats. 2 \<le> length v" and "dict_wf stats" and "no_parallel_links adj stats" and "time_frame \<noteq> 0"
  shows "\<exists>util t'. calc_link_util topo to_sw stats pkt_size time_frame MegaBitsPerSecond t = (Inr util, t') \<and>
    (\<forall>(k, v) \<in> set stats. \<forall>b. neighbour adj k = Some b \<longrightarrow> nested_get util (nm (fst k)) (nm b) =
       Inr (of_int (last v - hd v) / of_nat (length v - 1) * pkt_size * 8 / 10 ^ 6 / time_frame))"
proof -
  obtain pps t' where pps: "calc_link_util_pps topo to_sw stats t = (Inr pps, t')" "nested_wf pps"
    "\<forall>(k, v) \<in> set stats. \<forall>b. neighbour adj k = Some b \<longrightarrow>
        nested_get pps (nm (fst k)) (nm b) = Inr (of_int (last v - hd v) / of_nat (length v - 1))"
    using pps_loop [OF assms(1-5), of "[]" t] unfolding calc_link_util_pps_def by (auto simp: nested_wf_def)
  let ?g = "\<lambda>p. p * pkt_size * 8 / 10 ^ 6 / time_frame"
  have "build_conv_fn pkt_size time_frame MegaBitsPerSecond p = Inr (?g p)" for p using assms(6) by (simp add: py_div_def)
  from convert_stats_lookup [where conv = "build_conv_fn pkt_size time_frame MegaBitsPerSecond", OF this pps(2)]
  obtain util where util: "convert_stats pps (build_conv_fn pkt_size time_frame MegaBitsPerSecond) = Inr util"
    "\<forall>a b x. nested_get pps a b = Inr x \<longrightarrow> nested_get util a b = Inr (?g x)" by blast
  have "calc_link_util topo to_sw stats pkt_size time_frame MegaBitsPerSecond t = (Inr util, t')"
    by (simp add: calc_link_util_def andthen_run(1) [where m = "calc_link_util_pps topo to_sw stats", OF pps(1)] util(1))
  moreover have "nested_get util (nm (fst k)) (nm b) = Inr (?g (of_int (last v - hd v) / of_nat (length v - 1)))"
    if "(k, v) \<in> set stats" "neighbour adj k = Some b" for k v b
    using pps(3) that util(2) by blast
  ultimately show ?thesis by blast
qed

definition ex_counts_of_ports :: port_counts where
  "ex_counts_of_ports = [((1, 4), [0, 100, 300]), ((1, 5), [0, 7]), ((2, 4), [10, 20])]"

definition ex_adj :: adj_mat where
  "ex_adj = [(1, [(2, 4)]), (2, [(1, 4)])]"

theorem link_utilisation_exact_witness:
  "\<exists>util t'. calc_link_util (ret ex_adj) (\<lambda>d. ret d) ex_counts_of_ports 1000 10 MegaBitsPerSecond () = (Inr util, t') \<and>
     nested_get util 1 2 = Inr (3 / 25) \<and> nested_get util 2 1 = Inr (1 / 125)"
proof -
  have works: "stats_env_works (ret ex_adj :: (unit, adj_mat) prog) (\<lambda>d. ret d) ex_adj (\<lambda>d. d)"
    by (simp add: stats_env_works_def)
  have len: "\<forall>(k, v) \<in> set ex_counts_of_ports. 2 \<le> length v" and wf: "dict_wf ex_counts_of_ports"
    by (simp_all add: ex_counts_of_ports_def dict_wf_def)
  have nb: "neighbour ex_adj (1, 4) = Some 2" "neighbour ex_adj (1, 5) = None" "neighbour ex_adj (2, 4) = Some 1"
    by (simp_all add: neighbour_def ex_adj_def dict_get_default_def)
  have np: "no_parallel_links ex_adj ex_counts_of_ports"
    by (simp add: no_parallel_links_def ex_counts_of_ports_def nb)
  obtain util t' where u: "calc_link_util (ret ex_adj) (\<lambda>d. ret d) ex_counts_of_ports 1000 10 MegaBitsPerSecond () = (Inr util, t')"
    "\<forall>(k, v) \<in> set ex_counts_of_ports. \<forall>b. neighbour ex_adj k = Some b \<longrightarrow> nested_get util (fst k) b =
       Inr (of_int (last v - hd v) / of_nat (length v - 1) * 1000 * 8 / 10 ^ 6 / 10)"
    using link_utilisation_exact [OF works _ len wf np, of 10 1000 "()"] by auto
  show ?thesis using u by (auto simp: ex_counts_of_ports_def nb)
qed

subsection \<open>Packet loss\<close>

lemma counts_get_set [simp]:
  "counts_get (counts_set d a b p v) a' b' p' = (if a' = a \<and> b' = b \<and> p' = p then Inr v else counts_get d a' b' p')"
  by (simp add: counts_get_def counts_set_def dict_get_default_def)

text \<open>
  Every entry of the loss dictionary is the loss of a flow that was sent and received.
\<close>

definition loss_ok :: "int flow_counts \<Rightarrow> int flow_counts \<Rightarrow> pyfloat flow_counts \<Rightarrow> bool" where
  "loss_ok tx_dict rx_dict loss \<longleftrightarrow> (\<forall>a b p l. counts_get loss a b p = Inr l \<longrightarrow>
     (\<exists>vs flows tx rx. (a, vs) \<in> set tx_dict \<and> (b, flows) \<in> set vs \<and> (p, tx) \<in> set flows \<and>
        counts_get rx_dict b a p = Inr rx \<and> tx \<noteq> 0 \<and> l = of_int (tx - rx) / of_int tx))"

lemma loss_ok_set:
  assumes "loss_ok tx_dict rx_dict loss" and "(a, vs) \<in> set tx_dict" "(b, flows) \<in> set vs" "(p, tx) \<in> set flows"
    and "counts_get rx_dict b a p = Inr rx" and "calc_pkt_loss tx rx = Inr l"
  shows "loss_ok tx_dict rx_dict (counts_set loss a b p l)"
  using assms unfolding loss_ok_def by (auto simp: calc_pkt_loss_def py_div_def split: if_splits)

text \<open>
  Loss rates: every reported loss is that of a flow which was sent and whose packets were counted at its destination; where no more
  packets were received than sent, it lies between zero and one.
\<close>

theorem loss_rates_bounded:
  assumes "mk_loss_dict tx_dict rx_dict = Inr loss" and "counts_get loss a b p = Inr l"
    and "\<forall>(a, vs) \<in> set tx_dict. \<forall>(b, flows) \<in> set vs. \<forall>(p, tx) \<in> set flows. \<forall>rx.
      counts_get rx_dict b a p = Inr rx \<longrightarrow> 0 \<le> rx \<and> rx \<le> tx"
  shows "(\<exists>rx. counts_get rx_dict b a p = Inr rx) \<and> 0 \<le> l \<and> l \<le> 1"
proof -
  have init: "loss_ok tx_dict rx_dict []" by (simp add: loss_ok_def counts_get_def nested_get_def dict_get_default_def dict_get_def)
  have ports: "loss_ok tx_dict rx_dict loss'" if "(a, vs) \<in> set tx_dict" "(b, flows) \<in> set vs" "loss_ok tx_dict rx_dict loss"
    "fold_res (\<lambda>loss (src_port, tx_pkts). case counts_get rx_dict b a src_port of
         Inl _ \<Rightarrow> Inr loss
       | Inr rx_pkts \<Rightarrow> rbind (calc_pkt_loss tx_pkts rx_pkts) (\<lambda>l. Inr (counts_set loss a b src_port l))) loss flows = Inr loss'"
    for a vs b flows loss loss'
    using that(4)
    by (rule fold_res_inv [where P = "loss_ok tx_dict rx_dict", OF that(3)])
      (auto simp: rbind_Inr_iff split: sum.splits intro: loss_ok_set [OF _ that(1,2)])
  have dests: "loss_ok tx_dict rx_dict loss'" if "(a, vs) \<in> set tx_dict" "loss_ok tx_dict rx_dict loss"
    "fold_res (\<lambda>loss (dst_host, flows). fold_res (\<lambda>loss (src_port, tx_pkts). case counts_get rx_dict dst_host a src_port of
         Inl _ \<Rightarrow> Inr loss
       | Inr rx_pkts \<Rightarrow> rbind (calc_pkt_loss tx_pkts rx_pkts) (\<lambda>l. Inr (counts_set loss a dst_host src_port l))) loss flows) loss vs = Inr loss'"
    for a vs loss loss'
    using that(3)
    by (rule fold_res_inv [where P = "loss_ok tx_dict rx_dict", OF that(2)]) (auto intro: ports [OF that(1)])
  have "loss_ok tx_dict rx_dict loss"
    using assms(1) unfolding mk_loss_dict_def
    by (rule fold_res_inv [where P = "loss_ok tx_dict rx_dict", OF init]) (auto intro: dests)
  then obtain vs flows tx rx where "(a, vs) \<in> set tx_dict" "(b, flows) \<in> set vs" "(p, tx) \<in> set flows"
    "counts_get rx_dict b a p = Inr rx" "tx \<noteq> 0" "l = of_int (tx - rx) / of_int tx"
    using assms(2) unfolding loss_ok_def by blast
  moreover from this have "0 \<le> rx \<and> rx \<le> tx" using assms(3) by blast
  ultimately show ?thesis by (simp add: divide_le_eq_1 zero_le_divide_iff)
qed

theorem loss_rates_bounded_witness:
  "\<exists>loss. mk_loss_dict [(''a'', [(''b'', [(7, 10)])])] [(''b'', [(''a'', [(7, 8)])])] = Inr loss \<and>
     counts_get loss ''a'' ''b'' 7 = Inr (1 / 5) \<and> (0 :: pyfloat) \<le> 1 / 5 \<and> (1 / 5 :: pyfloat) \<le> 1"
proof -
  let ?tx = "[(''a'', [(''b'', [(7, 10)])])] :: int flow_counts" and ?rx = "[(''b'', [(''a'', [(7, 8)])])] :: int flow_counts"
  have m: "mk_loss_dict ?tx ?rx = Inr [(''a'', [(''b'', [(7, 1 / 5)])])]"
    and g: "counts_get [(''a'', [(''b'', [(7, 1 / 5)])])] ''a'' ''b'' 7 = Inr (1 / 5 :: pyfloat)"
    by (simp_all add: mk_loss_dict_def counts_get_def nested_get_def nested_set_def counts_set_def dict_get_default_def dict_get_def dict_set_def
        calc_pkt_loss_def py_div_def)
  have "(\<exists>rx. counts_get ?rx ''b'' ''a'' 7 = Inr rx) \<and> (0 :: pyfloat) \<le> 1 / 5 \<and> (1 / 5 :: pyfloat) \<le> 1"
    by (rule loss_rates_bounded [OF m g]) (simp add: counts_get_def nested_get_def dict_get_default_def dict_get_def)
  then show ?thesis using m g by blast
qed

text \<open>The conversions to bytes do not use the size of a packet.\<close>

lemma byte_units_ignore_packet_size:
  "build_conv_fn s time_frame BytesPerSecond = build_conv_fn s' time_frame BytesPerSecond"
  "build_conv_fn s time_frame MegaBytesPerSecond = build_conv_fn s' time_frame MegaBytesPerSecond"
  by (simp_all add: fun_eq_iff)

end
