(* ===== verification/File_Parsing.thy ===== *)
theory File_Parsing
  imports Float_Text
begin

section \<open>Route files of multipath trials\<close>

text \<open>
  \<open>mp_routing/file_parsing.py\<close>: routes, flow partitions and rates read from the files a solver wrote.  The
  contents of the files are given, after the newline translation of text mode; \<open>ast.literal_eval\<close> and \<open>eval\<close>
  on the literals in the files are parameters.  A route is a pair of a path id and the switch numbers, one
  more than the solver's.
\<close>

subsection \<open>Text\<close>

fun remove_crlf :: "string \<Rightarrow> string" where
  "remove_crlf (a # b # s) = (if a = CHR 0x0D \<and> b = CHR 0x0A then remove_crlf s else a # remove_crlf (b # s))"
| "remove_crlf s = s"

definition rstrip :: "string \<Rightarrow> string" where
  "rstrip s = rev (dropWhile is_space (rev s))"

text \<open>The lines of a file, with their line ends.\<close>

fun readlines :: "string \<Rightarrow> string list" where
  "readlines [] = []"
| "readlines (c # s) = (if c = newline then [newline] # readlines s
     else (case readlines s of [] \<Rightarrow> [[c]] | l # ls \<Rightarrow> (c # l) # ls))"

definition read_node_file :: "string \<Rightarrow> int list res" where
  "read_node_file content = (let node_str = filter (\<lambda>c. c \<noteq> CHR ''['' \<and> c \<noteq> CHR '']'') (remove_crlf content)
     in map_res py_int (butlast (split_on (CHR ''.'') (rstrip node_str))))"

subsection \<open>MPTestFileParser\<close>

type_synonym route = "int \<times> int list"
type_synonym flow_def = "int \<times> int \<times> pyfloat list \<times> (pyfloat \<times> pyfloat)"

definition flow_routes :: "int list list \<Rightarrow> route list" where
  "flow_routes flow = map (\<lambda>(path_id, path). (int path_id, map (\<lambda>n. n + 1) path)) (enumerate 0 flow)"

definition mp_get_routes :: "(string \<Rightarrow> int list list list res) \<Rightarrow> string \<Rightarrow> route list res" where
  "mp_get_routes literal_eval content = rbind (literal_eval content) (\<lambda>routes. Inr (concat (map flow_routes routes)))"

text \<open>\<open>index_str[2:-1].split(',')[0]\<close>\<close>

definition mp_read_partitions_line :: "string \<Rightarrow> (int \<times> pyfloat) res" where
  "mp_read_partitions_line line = (let s1 = split_on (CHR '':'') line in
     rbind (py_nth s1 0) (\<lambda>index_str. rbind (py_nth s1 1) (\<lambda>val_str.
     rbind (rbind (py_nth (split_on (CHR '','') (butlast (drop 2 index_str))) 0) py_int) (\<lambda>flow_num.
     rbind (py_float val_str) (\<lambda>v. Inr (flow_num, v))))))"

definition mp_read_partitions_file :: "string \<Rightarrow> (int, pyfloat list) dict res" where
  "mp_read_partitions_file content = fold_res (\<lambda>flow_dict line. rbind (mp_read_partitions_line line) (\<lambda>x.
     Inr (group_append flow_dict x))) [] (readlines content)"

definition mp_get_flow_defs :: "pyfloat \<Rightarrow> pyfloat \<Rightarrow> string \<Rightarrow> string \<Rightarrow> string \<Rightarrow> flow_def list res" where
  "mp_get_flow_defs mu sigma dests_content origins_content parts_content =
     rbind (mp_read_partitions_file parts_content) (\<lambda>parts.
     rbind (read_node_file origins_content) (\<lambda>origins. rbind (read_node_file dests_content) (\<lambda>dests.
     let od_pairs = zip (map (\<lambda>o_n. o_n + 1) origins) (map (\<lambda>d_n. d_n + 1) dests) in
     map_res (\<lambda>(ind, (src, dst)). rbind (dict_get parts (int ind)) (\<lambda>p. Inr (src, dst, p, (mu, sigma)))) (enumerate 0 od_pairs))))"

subsection \<open>NETestFileParser and VariableRateFileParser\<close>

definition ne_get_routes :: "(string \<Rightarrow> int list list list list res) \<Rightarrow> string \<Rightarrow> route list res" where
  "ne_get_routes eval content = rbind (eval content) (\<lambda>nets. Inr (concat (map (\<lambda>vn. concat (map flow_routes vn)) nets)))"

type_synonym partitions = "(int, (int, (int, pyfloat) dict) dict) dict"

definition ne_partition_line :: "(string \<Rightarrow> (int \<times> int \<times> int) res) \<Rightarrow> partitions \<Rightarrow> string \<Rightarrow> partitions res" where
  "ne_partition_line eval flow_vs line =
     rbind (rbind (py_nth (split_on (CHR '':'') (drop 1 line)) 0) eval) (\<lambda>(t0', t1', t2').
     rbind (rbind (py_nth (split_on (CHR '':'') line) 1) py_float) (\<lambda>flow_val.
     let net = dict_get_default flow_vs t0' []; flow = dict_get_default net t1' []
     in Inr (dict_set flow_vs t0' (dict_set net t1' (dict_set flow t2' flow_val)))))"

definition ne_read_partitions_file :: "(string \<Rightarrow> (int \<times> int \<times> int) res) \<Rightarrow> string \<Rightarrow> partitions res" where
  "ne_read_partitions_file eval content = fold_res (ne_partition_line eval) [] (readlines content)"

text \<open>
  \<open>NETestFileParser.get_flow_defs\<close> joins the directory and a file name with \<open>+\<close>, while reading the
  routes and the partitions needs a \<open>Path\<close>: a directory of either type raises.
\<close>

datatype dir_arg = DirPath string | DirStr string

fun ne_get_flow_defs :: "dir_arg \<Rightarrow> flow_def list res" where
  "ne_get_flow_defs (DirPath _) = Inl TypeError"
| "ne_get_flow_defs (DirStr _) = Inl AttributeError"

definition get_nw_id :: "string \<Rightarrow> int res" where
  "get_nw_id file_name = rbind (py_nth (split_on (CHR ''_'') file_name) 2) py_int"

text \<open>\<open>int(float(s))\<close> truncates.\<close>

definition get_flow_params :: "string \<Rightarrow> (pyfloat \<times> pyfloat) res" where
  "get_flow_params line = (let parm_list = split_on (CHR '','') (last (split_on (CHR '':'') line)) in
     rbind (rbind (py_nth parm_list 0) py_float) (\<lambda>m.
     rbind (rbind (py_nth parm_list 1) py_float) (\<lambda>sigma.
     Inr (of_int (if 0 \<le> m then \<lfloor>m\<rfloor> else \<lceil>m\<rceil>), sigma))))"

type_synonym rate_table = "(int, (int, pyfloat \<times> pyfloat) dict) dict"

definition construct_rate_table :: "pyfloat \<Rightarrow> pyfloat \<Rightarrow> (string \<times> string) list \<Rightarrow> rate_table res" where
  "construct_rate_table mu0 sigma0 all_files = fold_res (\<lambda>rates (name, content).
     rbind (get_nw_id name) (\<lambda>net_id.
     fold_res (\<lambda>rates (flow_id, line). rbind (get_flow_params line) (\<lambda>(mu, sigma).
       Inr (dict_set rates net_id (dict_set (dict_get_default rates net_id []) (int flow_id) (mu * mu0, sigma * sigma0)))))
       rates (enumerate 0 (readlines content)))) [] all_files"

text \<open>One flow: its end points are those of the first route left, and three routes are used up.\<close>

definition next_flow_def ::
    "rate_table \<Rightarrow> flow_def list \<times> route list \<Rightarrow> int \<times> int \<times> (int, pyfloat) dict \<Rightarrow> (flow_def list \<times> route list) res" where
  "next_flow_def tx_rates = (\<lambda>(path_splits, routes) (net_id, flow_id, paths).
     rbind (py_nth routes 0) (\<lambda>r.
     rbind (py_nth (snd r) 0) (\<lambda>src_host. rbind (py_nth (snd r) (- 1)) (\<lambda>dst_host.
     rbind (dict_get (dict_get_default tx_rates net_id []) flow_id) (\<lambda>rate.
     Inr (path_splits @ [(src_host, dst_host, dict_values paths, rate)], drop 3 routes))))))"

definition all_flows_of :: "partitions \<Rightarrow> (int \<times> int \<times> (int, pyfloat) dict) list" where
  "all_flows_of parts = concat (map (\<lambda>(net_id, net_flows). map (\<lambda>(flow_id, paths). (net_id, flow_id, paths)) net_flows) parts)"

definition assign_flow_defs :: "partitions \<Rightarrow> route list \<Rightarrow> rate_table \<Rightarrow> flow_def list res" where
  "assign_flow_defs parts routes tx_rates =
     rbind (fold_res (next_flow_def tx_rates) ([], routes) (all_flows_of parts)) (\<lambda>(path_splits, _). Inr path_splits)"

definition vr_get_flow_defs ::
    "(string \<Rightarrow> (int \<times> int \<times> int) res) \<Rightarrow> (string \<Rightarrow> int list list list list res) \<Rightarrow> pyfloat \<Rightarrow> pyfloat
     \<Rightarrow> string \<Rightarrow> string \<Rightarrow> (string \<times> string) list \<Rightarrow> flow_def list res" where
  "vr_get_flow_defs eval_tuple eval_nets mu sigma part_content route_content rate_files =
     rbind (ne_read_partitions_file eval_tuple part_content) (\<lambda>parts.
     rbind (ne_get_routes eval_nets route_content) (\<lambda>routes.
     rbind (construct_rate_table mu sigma rate_files) (\<lambda>tx_rates.
     assign_flow_defs parts routes tx_rates)))"

subsection \<open>Properties\<close>

text \<open>The nodes as the solver prints them: \<open>[1. 2. 3. ]\<close>.\<close>

definition node_text :: "int list \<Rightarrow> string" where
  "node_text ns = ''['' @ concat (map (\<lambda>n. show_int n @ ''. '') ns) @ '']''"

lemma show_int_char: "c \<in> set (show_int i) \<Longrightarrow> is_digit c \<or> c = CHR ''-''"
  using show_nat_digits by (auto simp: show_int_def split: if_splits)

lemma node_chars:
  "c \<in> set (concat (map (\<lambda>n. show_int n @ ''. '') ns)) \<Longrightarrow> is_digit c \<or> c = CHR ''-'' \<or> c = CHR ''.'' \<or> c = CHR '' ''"
  by (induction ns) (auto dest: show_int_char)

lemma remove_crlf_none: "CHR 0x0D \<notin> set s \<Longrightarrow> remove_crlf s = s"
proof (induction s rule: remove_crlf.induct)
  case (1 a b s)
  then show ?case by (cases "b = CHR 0x0A") auto
qed simp_all

lemma py_int_spaces: "set w \<subseteq> {CHR '' ''} \<Longrightarrow> py_int (w @ show_int n) = Inr n"
  by (induction w) (auto simp: py_int_space is_space_def)

lemma split_node_words:
  assumes "set w \<subseteq> {CHR '' ''}"
  shows "\<exists>ws w'. split_on (CHR ''.'') (w @ concat (map (\<lambda>n. show_int n @ ''. '') ns) @ v) = ws @ split_on (CHR ''.'') (w' @ v) \<and>
    set w' \<subseteq> {CHR '' ''} \<and> map_res py_int ws = Inr ns"
  using assms
proof (induction ns arbitrary: w)
  case (Cons n ns)
  have dot: "CHR ''.'' \<notin> set (w @ show_int n)"
    using Cons.prems show_int_char [of "CHR ''.''" n] by (auto simp: is_digit_def)
  obtain ws w' where ih: "split_on (CHR ''.'') ('' '' @ concat (map (\<lambda>n. show_int n @ ''. '') ns) @ v) = ws @ split_on (CHR ''.'') (w' @ v)"
    "set w' \<subseteq> {CHR '' ''}" "map_res py_int ws = Inr ns" using Cons.IH [of "'' ''"] by auto
  have "split_on (CHR ''.'') (w @ concat (map (\<lambda>n. show_int n @ ''. '') (n # ns)) @ v) = (w @ show_int n) # ws @ split_on (CHR ''.'') (w' @ v)"
    using split_on_append [OF dot] ih(1) by simp
  then show ?case using ih(2,3) py_int_spaces [OF Cons.prems, of n]
    by (intro exI [of _ "(w @ show_int n) # ws"] exI [of _ w']) simp
next
  case Nil
  then show ?case by (intro exI [of _ "[]"] exI [of _ w]) simp
qed

text \<open>
  The numbers of a node file, printed in brackets with a point after each, are read back.
\<close>

theorem node_file_roundtrip: "read_node_file (node_text ns) = Inr ns"
proof -
  let ?body = "concat (map (\<lambda>n. show_int n @ ''. '') ns)"
  have chars: "c \<in> set ?body \<Longrightarrow> c \<noteq> CHR ''['' \<and> c \<noteq> CHR '']'' \<and> c \<noteq> CHR 0x0D" for c
    using node_chars [of c ns] by (auto simp: is_digit_def)
  have "CHR 0x0D \<notin> set ?body" using chars by blast
  then have "CHR 0x0D \<notin> set (node_text ns)" unfolding node_text_def set_append by simp
  then have crlf: "remove_crlf (node_text ns) = node_text ns" by (rule remove_crlf_none)
  have filt: "filter (\<lambda>c. c \<noteq> CHR ''['' \<and> c \<noteq> CHR '']'') (node_text ns) = ?body"
    unfolding node_text_def by (simp add: filter_id_conv chars)
  have "map_res py_int (butlast (split_on (CHR ''.'') (rstrip ?body))) = Inr ns"
  proof (cases ns rule: rev_cases)
    case Nil
    then show ?thesis by (simp add: rstrip_def)
  next
    case (snoc ms m)
    have "rstrip ?body = concat (map (\<lambda>n. show_int n @ ''. '') ms) @ show_int m @ ''.''"
      by (simp add: snoc rstrip_def is_space_def)
    moreover obtain ws w where "split_on (CHR ''.'') ([] @ concat (map (\<lambda>n. show_int n @ ''. '') ms) @ show_int m @ ''.'') =
        ws @ split_on (CHR ''.'') (w @ show_int m @ ''.'')" "set w \<subseteq> {CHR '' ''}" "map_res py_int ws = Inr ms"
      using split_node_words [of "[]" ms "show_int m @ ''.''"] by auto
    moreover have "split_on (CHR ''.'') (w @ show_int m @ ''.'') = [w @ show_int m, []]"
    proof -
      have "CHR ''.'' \<notin> set (w @ show_int m)"
        using \<open>set w \<subseteq> {CHR '' ''}\<close> show_int_char [of "CHR ''.''" m] by (auto simp: is_digit_def)
      from split_on_append [OF this, of "[]"] show ?thesis by simp
    qed
    ultimately show ?thesis using py_int_spaces [of w m] by (simp add: snoc butlast_append map_res_append)
  qed
  then show ?thesis by (simp add: read_node_file_def crlf filt)
qed

text \<open>What a solver with three paths per flow wrote.\<close>

lemma flow_routes_Cons:
  "flow_routes (p # ps) = (0, map (\<lambda>n. n + 1) p) # map (\<lambda>(i, q). (int i, map (\<lambda>n. n + 1) q)) (enumerate 1 ps)"
  by (simp add: flow_routes_def)

definition flow_fits :: "rate_table \<Rightarrow> int \<times> int \<times> (int, pyfloat) dict \<Rightarrow> int list list \<Rightarrow> bool" where
  "flow_fits tx_rates = (\<lambda>(net_id, flow_id, _) flow. length flow = 3 \<and> hd flow \<noteq> [] \<and>
     dict_get (dict_get_default tx_rates net_id []) flow_id \<noteq> Inl KeyError)"

definition expected_def :: "rate_table \<Rightarrow> int \<times> int \<times> (int, pyfloat) dict \<Rightarrow> int list list \<Rightarrow> flow_def" where
  "expected_def tx_rates = (\<lambda>(net_id, flow_id, paths) flow.
     (hd (hd flow) + 1, last (hd flow) + 1, dict_values paths, the (map_of (dict_get_default tx_rates net_id []) flow_id)))"

lemma next_flow_def_fits:
  assumes "flow_fits tx_rates x flow"
  shows "next_flow_def tx_rates (acc, flow_routes flow @ rest) x = Inr (acc @ [expected_def tx_rates x flow], rest)"
proof -
  obtain net_id flow_id paths where x: "x = (net_id, flow_id, paths)" by (cases x)
  obtain p ps where flow: "flow = p # ps" using assms by (cases flow) (auto simp: flow_fits_def x)
  obtain n ns where p: "p = n # ns" using assms by (cases p) (auto simp: flow_fits_def x flow)
  obtain r where r: "map_of (dict_get_default tx_rates net_id []) flow_id = Some r"
    using assms by (auto simp: flow_fits_def x dict_get_def split: option.splits)
  have "length (flow_routes flow) = 3" using assms by (simp add: flow_fits_def x flow_routes_def)
  then have "drop 3 (flow_routes flow @ rest) = rest" by simp
  then show ?thesis
    using r by (simp add: next_flow_def_def x flow flow_routes_Cons p py_nth_first py_nth_last dict_get_def expected_def_def last_map)
qed

text \<open>
  The flow definitions of a variable rate trial: when every flow of the file of routes has
  three paths, and the partitions and rates cover the flows in the same order, each flow gets the end points of its own
  paths, its own splitting ratios and its own rate.
\<close>

theorem variable_rate_flow_defs:
  assumes "ne_read_partitions_file eval_tuple part_content = Inr parts" and "eval_nets route_content = Inr nets"
    and "construct_rate_table mu sigma rate_files = Inr tx_rates"
    and "list_all2 (flow_fits tx_rates) (all_flows_of parts) (concat nets)"
  shows "vr_get_flow_defs eval_tuple eval_nets mu sigma part_content route_content rate_files =
    Inr (map (\<lambda>(x, flow). expected_def tx_rates x flow) (zip (all_flows_of parts) (concat nets)))"
proof -
  have loop: "fold_res (next_flow_def tx_rates) (acc, concat (map flow_routes flows)) xs =
      Inr (acc @ map (\<lambda>(x, flow). expected_def tx_rates x flow) (zip xs flows), [])"
    if "list_all2 (flow_fits tx_rates) xs flows" for acc xs flows
    using that
  proof (induction arbitrary: acc rule: list_all2_induct)
    case (Cons x xs flow flows)
    then show ?case using next_flow_def_fits [OF Cons.hyps(1)] by simp
  qed simp
  have "concat (map (\<lambda>vn. concat (map flow_routes vn)) nets) = concat (map flow_routes (concat nets))"
    by (induction nets) simp_all
  then show ?thesis using loop [OF assms(4), of "[]"]
    by (simp add: vr_get_flow_defs_def assms(1-3) ne_get_routes_def assign_flow_defs_def)
qed

definition ex_eval_tuple :: "string \<Rightarrow> (int \<times> int \<times> int) res" where
  "ex_eval_tuple s = (if s = ''(0,0,0)'' then Inr (0, 0, 0) else if s = ''(0,0,1)'' then Inr (0, 0, 1) else Inl ValueError)"

definition ex_part_content :: string where
  "ex_part_content = ''X(0,0,0):0.5'' @ newline # ''X(0,0,1):0.5'' @ [newline]"

theorem variable_rate_flow_defs_witness:
  "vr_get_flow_defs ex_eval_tuple (\<lambda>_. Inr [[[[0, 1], [0, 2, 1], [0, 3, 1]]]]) 2 1 ex_part_content [] [(''rates_vn_0'', ''f:3.0,4.0'')] =
     Inr [(1, 2, [1 / 2, 1 / 2], (6, 4))]"
proof -
  have parts: "ne_read_partitions_file ex_eval_tuple ex_part_content = Inr [(0, [(0, [(0, 1 / 2), (1, 1 / 2)])])]" by code_simp
  have rates: "construct_rate_table 2 1 [(''rates_vn_0'', ''f:3.0,4.0'')] = Inr [(0, [(0, (6, 4))])]" by code_simp
  have fits: "list_all2 (flow_fits [(0, [(0, (6, 4))])]) (all_flows_of [(0, [(0, [(0, 1 / 2), (1, 1 / 2)])])])
      (concat [[[[0, 1], [0, 2, 1], [0, 3, 1]]]])"
    by (simp add: all_flows_of_def flow_fits_def dict_get_def dict_get_default_def)
  show ?thesis
    unfolding variable_rate_flow_defs [where eval_nets = "\<lambda>_. Inr [[[[0, 1], [0, 2, 1], [0, 3, 1]]]]", OF parts refl rates fits]
    by (simp add: all_flows_of_def expected_def_def dict_get_default_def)
qed

end
