(* ===== verification/Virtual_Host.thy ===== *)
theory Virtual_Host
  imports Http
begin

section \<open>Virtual hosts\<close>

text \<open>
  Models \<open>rest_client/virtual_hosts/virtual_host.py\<close>: hosts that exist as an address of the local network
  interface and an entry of the controller, and run traffic generators, senders or receivers as processes.
  The operating system is a parameter: what a command, a look at the interface or a new process
  results in may depend on everything that was done before.  The state is the list of what was done
  and the list of the requests sent.
\<close>

subsection \<open>The operating system\<close>

text \<open>Arguments of a process are texts; \<open>json.dumps\<close> of a value stands for its text.\<close>

datatype os_arg = ArgStr string | ArgJson json

datatype os_event =
    Ran "string list" int
  | Started nat "os_arg list"
  | Interrupted nat
  | Terminated nat
  | Reaped nat
  | Unlinked string

text \<open>
  \<open>run_code\<close> is the return code of \<open>subprocess.run\<close>, \<open>iface_mac\<close> what \<open>netifaces\<close> says of the link layer address
  of an interface, \<open>popen\<close> the process that \<open>subprocess.Popen\<close> starts, \<open>returncode\<close> the attribute of a process
  (none while it is not known to have ended) and \<open>wait_code\<close> the result of \<open>wait\<close>.
\<close>

record os_env =
  run_code :: "os_event list \<Rightarrow> string list \<Rightarrow> int res"
  iface_mac :: "os_event list \<Rightarrow> string \<Rightarrow> string res"
  popen :: "os_event list \<Rightarrow> os_arg list \<Rightarrow> nat res"
  returncode :: "os_event list \<Rightarrow> nat \<Rightarrow> int option"
  wait_code :: "os_event list \<Rightarrow> nat \<Rightarrow> int"

type_synonym world = "os_event list \<times> http_request list"
type_synonym 'a act = "(world, 'a) prog"

definition os_run :: "os_env \<Rightarrow> string list \<Rightarrow> int act" where
  "os_run os cmd = (\<lambda>(done_so_far, sent). case run_code os done_so_far cmd of
       Inl e \<Rightarrow> (Inl e, (done_so_far, sent))
     | Inr c \<Rightarrow> (Inr c, (done_so_far @ [Ran cmd c], sent)))"

definition os_start :: "os_env \<Rightarrow> os_arg list \<Rightarrow> nat act" where
  "os_start os args = (\<lambda>(done_so_far, sent). case popen os done_so_far args of
       Inl e \<Rightarrow> (Inl e, (done_so_far, sent))
     | Inr p \<Rightarrow> (Inr p, (done_so_far @ [Started p args], sent)))"

definition os_note :: "os_event \<Rightarrow> unit act" where
  "os_note ev = modify_fst (\<lambda>done_so_far. done_so_far @ [ev])"

text \<open>\<open>Reaped\<close> is a process that was waited for, by \<open>communicate\<close> or \<open>wait\<close>, and so has ended.\<close>

definition os_ask :: "(os_event list \<Rightarrow> 'a res) \<Rightarrow> 'a act" where
  "os_ask q = (\<lambda>(done_so_far, sent). (q done_so_far, (done_so_far, sent)))"

lemma os_note_run [simp, io_simps]: "os_note ev (evs, sent) = (Inr (), (evs @ [ev], sent))"
  by (simp add: os_note_def)

lemma os_ask_run [simp, io_simps]: "os_ask q (evs, sent) = (q evs, (evs, sent))"
  by (simp add: os_ask_def)

subsection \<open>Addresses and entries\<close>

definition iface_name :: string where
  "iface_name = ''ens192''"

definition vhost_onos_url :: string where
  "vhost_onos_url = ''http://10.0.0.8:8181/onos/''"

definition ip_addr_cmd :: "string \<Rightarrow> string \<Rightarrow> string \<Rightarrow> string list" where
  "ip_addr_cmd verb actual_host_ip_address iface =
     split_on (CHR '' '') (''ip addr '' @ verb @ '' '' @ actual_host_ip_address @ ''/'' @ show_int 24 @ '' dev '' @ iface)"

definition initialize_local_network_interface :: "os_env \<Rightarrow> string \<Rightarrow> string \<Rightarrow> string act" where
  "initialize_local_network_interface os iface actual_host_ip_address =
     andthen (os_run os (ip_addr_cmd ''add'' actual_host_ip_address iface)) (\<lambda>returncode.
     if returncode \<noteq> 0 then raise ValueError else os_ask (\<lambda>evs. iface_mac os evs iface))"

definition remove_local_network_interface :: "os_env \<Rightarrow> string \<Rightarrow> string \<Rightarrow> unit act" where
  "remove_local_network_interface os iface actual_host_ip_address =
     andthen (os_run os (ip_addr_cmd ''del'' actual_host_ip_address iface)) (\<lambda>returncode.
     if returncode \<noteq> 0 then raise ValueError else ret ())"

definition create_virtual_host_request :: "string \<Rightarrow> string \<Rightarrow> string \<Rightarrow> string \<Rightarrow> string \<Rightarrow> http_request" where
  "create_virtual_host_request actual_host_mac actual_host_ip virtual_host_mac virtual_host_ip ingress_node_device_id =
     \<lparr>rq_method = POST, rq_url = vhost_onos_url @ ''virtual-hosts/v1/create-virtual-host'',
      rq_body = Some (JObj [(''ingressNode'', JStr ingress_node_device_id), (''virtualHostMacAddress'', JStr virtual_host_mac),
        (''actualHostMacAddress'', JStr actual_host_mac), (''virtualHostIpAddress'', JStr virtual_host_ip),
        (''actualHostIpAddress'', JStr actual_host_ip)])\<rparr>"

text \<open>A response is false when its status is one of an error (400 to 599).\<close>

definition install_virtual_host :: "server \<Rightarrow> string \<Rightarrow> string \<Rightarrow> string \<Rightarrow> string \<Rightarrow> string \<Rightarrow> json act" where
  "install_virtual_host srv actual_host_mac actual_host_ip virtual_host_mac virtual_host_ip ingress_node_device_id =
     andthen (on_snd (send srv (create_virtual_host_request actual_host_mac actual_host_ip virtual_host_mac virtual_host_ip ingress_node_device_id)))
       (\<lambda>(st, body). if 400 \<le> st \<and> st < 600 then raise ValueError
          else of_res (rbind (loads body) (\<lambda>response_json. json_get response_json ''virtual-host-id'')))"

text \<open>
  The token is formatted with \<open>%s\<close>.  Tokens that are floats, lists or objects have texts that are not
  modelled; controllers give texts or numbers.
\<close>

fun token_text :: "json \<Rightarrow> string res" where
  "token_text (JStr s) = Inr s"
| "token_text (JInt i) = Inr (show_int i)"
| "token_text JNull = Inr ''None''"
| "token_text (JBool b) = Inr (if b then ''True'' else ''False'')"
| "token_text _ = Inl NotImplementedError"

definition destroy_virtual_host_request :: "string \<Rightarrow> http_request" where
  "destroy_virtual_host_request tok = \<lparr>rq_method = POST,
     rq_url = vhost_onos_url @ ''virtual-hosts/v1/destroy-virtual-host?virtual-host-id='' @ tok, rq_body = None\<rparr>"

definition uninstall_virtual_host :: "server \<Rightarrow> json \<Rightarrow> unit act" where
  "uninstall_virtual_host srv virtual_host_token =
     andthen (of_res (token_text virtual_host_token)) (\<lambda>tok.
     andthen (on_snd (send srv (destroy_virtual_host_request tok)))
       (\<lambda>(st, _). if 400 \<le> st \<and> st < 600 then raise ValueError else ret ()))"

text \<open>
  In the handler \<open>actual_host_mac\<close> is set exactly when the interface was initialised, and
  \<open>virtual_host_token\<close> is never set: nothing after its assignment raises.
\<close>

definition initialize_virtual_host_persistent_state ::
    "os_env \<Rightarrow> server \<Rightarrow> string \<Rightarrow> string \<Rightarrow> string \<Rightarrow> string \<Rightarrow> (string \<times> json) act" where
  "initialize_virtual_host_persistent_state os srv virtual_host_mac virtual_host_ip actual_host_ip ingress_node_device_id =
     andthen (initialize_local_network_interface os iface_name actual_host_ip) (\<lambda>actual_host_mac.
     try_except
       (andthen (install_virtual_host srv actual_host_mac actual_host_ip virtual_host_mac virtual_host_ip ingress_node_device_id)
         (\<lambda>virtual_host_token. ret (actual_host_mac, virtual_host_token)))
       (\<lambda>ex. andthen (remove_local_network_interface os iface_name actual_host_ip) (\<lambda>_. raise ex)))"

text \<open>The host id is an attribute of the three subclasses, which all have it.\<close>

record virtual_host =
  vh_actual_host_mac :: string
  vh_actual_host_ip :: string
  vh_virtual_host_mac :: string
  vh_virtual_host_ip :: string
  vh_ingress_node_device_id :: string
  vh_token :: json
  vh_host_id :: int

text \<open>\<open>VirtualHost.destroy_virtual_host\<close>\<close>

definition destroy_base :: "os_env \<Rightarrow> server \<Rightarrow> 'z virtual_host_scheme \<Rightarrow> unit act" where
  "destroy_base os srv h = andthen (uninstall_virtual_host srv (vh_token h)) (\<lambda>_.
     remove_local_network_interface os iface_name (vh_actual_host_ip h))"

subsection \<open>Traffic generating hosts\<close>

record traffic_host = virtual_host +
  server_process :: "nat option"
  client_process :: "nat option"
  configured_flows :: "json list"

definition create_traffic_host :: "os_env \<Rightarrow> server \<Rightarrow> int \<Rightarrow> string \<Rightarrow> string \<Rightarrow> string \<Rightarrow> string \<Rightarrow> traffic_host act" where
  "create_traffic_host os srv host_id virtual_host_mac virtual_host_ip actual_host_ip ingress_node_device_id =
     andthen (initialize_virtual_host_persistent_state os srv virtual_host_mac virtual_host_ip actual_host_ip ingress_node_device_id)
       (\<lambda>(actual_host_mac, virtual_host_token). ret
          \<lparr>vh_actual_host_mac = actual_host_mac, vh_actual_host_ip = actual_host_ip, vh_virtual_host_mac = virtual_host_mac,
           vh_virtual_host_ip = virtual_host_ip, vh_ingress_node_device_id = ingress_node_device_id, vh_token = virtual_host_token,
           vh_host_id = host_id, server_process = None, client_process = None, configured_flows = []\<rparr>)"

definition traffic_bin_dir :: string where
  "traffic_bin_dir = ''/home/cpsc-net-user/repos/cpsc_of_testbed/traffic_generation''"

definition start_traffic_generation_server :: "os_env \<Rightarrow> traffic_host \<Rightarrow> traffic_host act" where
  "start_traffic_generation_server os h =
     andthen (os_start os (map ArgStr [traffic_bin_dir @ ''/traffic_server.py'', ''-host'', show_int (vh_host_id h),
       ''-source_addr'', vh_actual_host_ip h])) (\<lambda>traffic_gen_server_process.
     ret (h\<lparr>server_process := Some traffic_gen_server_process\<rparr>))"

definition stop_traffic_generation_server :: "traffic_host \<Rightarrow> unit act" where
  "stop_traffic_generation_server h = (case server_process h of
       None \<Rightarrow> raise ValueError
     | Some p \<Rightarrow> os_note (Interrupted p))"

definition client_args ::
    "traffic_host \<Rightarrow> pyfloat \<Rightarrow> pyfloat \<Rightarrow> string \<Rightarrow> string \<Rightarrow> int \<Rightarrow> pyfloat list \<Rightarrow> int \<Rightarrow> int list \<Rightarrow> int \<Rightarrow> json" where
  "client_args h tx_rate tx_rate_std_dev traffic_model dest_ip port_num k_mat time_slice tag_values pkt_len =
     JObj [(''dest_port'', JInt port_num), (''dest_addr'', JStr dest_ip), (''prob_mat'', list_enc JFloat k_mat),
       (''tx_rate'', JFloat tx_rate), (''variance'', JFloat (tx_rate_std_dev ^ 2)), (''traffic_model'', JStr traffic_model),
       (''packet_len'', JInt pkt_len), (''src_host'', JInt (vh_host_id h)), (''time_slice'', JInt time_slice),
       (''tag_value'', list_enc JInt tag_values), (''source_addr'', JStr (vh_actual_host_ip h))]"

definition configure_flow ::
    "traffic_host \<Rightarrow> pyfloat \<Rightarrow> pyfloat \<Rightarrow> string \<Rightarrow> string \<Rightarrow> int \<Rightarrow> pyfloat list \<Rightarrow> int \<Rightarrow> int list \<Rightarrow> int \<Rightarrow> traffic_host" where
  "configure_flow h tx_rate tx_rate_std_dev traffic_model dest_ip port_num k_mat time_slice tag_values pkt_len =
     h\<lparr>configured_flows := configured_flows h @
         [client_args h tx_rate tx_rate_std_dev traffic_model dest_ip port_num k_mat time_slice tag_values pkt_len]\<rparr>"

definition start_traffic_generation_client :: "os_env \<Rightarrow> traffic_host \<Rightarrow> traffic_host act" where
  "start_traffic_generation_client os h =
     (if length (configured_flows h) > 0 then
        andthen (os_start os [ArgStr (traffic_bin_dir @ ''/traffic_gen.py''), ArgJson (JList (configured_flows h))])
          (\<lambda>traffic_gen_client_process. ret (h\<lparr>client_process := Some traffic_gen_client_process\<rparr>))
      else ret h)"

text \<open>\<open>returncode\<close> is read right after the signal: a process that has not been waited for has none, which is not
  zero either.\<close>

definition stop_traffic_generation_client :: "os_env \<Rightarrow> traffic_host \<Rightarrow> unit act" where
  "stop_traffic_generation_client os h =
     (if length (configured_flows h) = 0 then ret ()
      else case client_process h of
        None \<Rightarrow> raise ValueError
      | Some p \<Rightarrow> andthen (os_note (Interrupted p)) (\<lambda>_.
          andthen (os_ask (\<lambda>evs. Inr (returncode os evs p))) (\<lambda>code.
          if code \<noteq> Some 0 then os_note (Reaped p) else ret ())))"

definition destroy_traffic_host :: "os_env \<Rightarrow> server \<Rightarrow> traffic_host \<Rightarrow> unit act" where
  "destroy_traffic_host os srv h = andthen (destroy_base os srv h) (\<lambda>_.
     andthen (if client_process h \<noteq> None then stop_traffic_generation_client os h else ret ()) (\<lambda>_.
     if server_process h \<noteq> None then stop_traffic_generation_server h else ret ()))"

subsection \<open>Path hopping senders and receivers\<close>

record ph_host = virtual_host +
  ph_process :: "nat option"

text \<open>\<open>create_virtual_host\<close> of \<open>PathHoppingSender\<close> and of \<open>PathHoppingReceiver\<close>, which differ in the class of the result.\<close>

definition create_ph_host :: "os_env \<Rightarrow> server \<Rightarrow> int \<Rightarrow> string \<Rightarrow> string \<Rightarrow> string \<Rightarrow> string \<Rightarrow> ph_host act" where
  "create_ph_host os srv host_id virtual_host_mac virtual_host_ip actual_host_ip ingress_node_device_id =
     andthen (initialize_virtual_host_persistent_state os srv virtual_host_mac virtual_host_ip actual_host_ip ingress_node_device_id)
       (\<lambda>(actual_host_mac, virtual_host_token). ret
          \<lparr>vh_actual_host_mac = actual_host_mac, vh_actual_host_ip = actual_host_ip, vh_virtual_host_mac = virtual_host_mac,
           vh_virtual_host_ip = virtual_host_ip, vh_ingress_node_device_id = ingress_node_device_id, vh_token = virtual_host_token,
           vh_host_id = host_id, ph_process = None\<rparr>)"

text \<open>The keyword arguments are texts or \<open>None\<close>, which \<open>Popen\<close> refuses.\<close>

record sender_kwargs =
  sk_port :: "string option"
  sk_K :: "string option"
  sk_N :: "string option"
  sk_data_file :: "string option"
  sk_message_size :: "string option"
  sk_timestep :: "string option"
  sk_hop_probability :: "string option"
  sk_reliable :: "string option"
  sk_hop_method :: "string option"

record receiver_kwargs =
  rk_sender_ip :: "string option"
  rk_port :: "string option"
  rk_data_file :: "string option"
  rk_timestep :: "string option"
  rk_hopping_probability :: "string option"

definition text_args :: "string option list \<Rightarrow> os_arg list res" where
  "text_args args = map_res (\<lambda>a. case a of None \<Rightarrow> Inl TypeError | Some s \<Rightarrow> Inr (ArgStr s)) args"

definition sender_args :: "ph_host \<Rightarrow> sender_kwargs \<Rightarrow> string option list" where
  "sender_args h kw = [Some ''/home/cpsc-net-user/repos/mtd-crypto-impl/endpoint/sender'',
     Some ''-h'', Some (vh_actual_host_ip h), Some ''-p'', sk_port kw, Some ''-k'', sk_K kw, Some ''-n'', sk_N kw,
     Some ''-file'', sk_data_file kw, Some ''-m'', sk_message_size kw, Some ''-timestep'', sk_timestep kw,
     Some ''-lambda'', sk_hop_probability kw, Some ''-reliable'', sk_reliable kw, Some ''-hop'', sk_hop_method kw]"

definition receiver_args :: "ph_host \<Rightarrow> receiver_kwargs \<Rightarrow> string option list" where
  "receiver_args h kw = [Some ''/home/cpsc-net-user/repos/mtd-crypto-impl/endpoint/receiver'',
     Some ''-h'', rk_sender_ip kw, Some ''-p'', rk_port kw, Some ''-file'', rk_data_file kw, Some ''-timestep'', rk_timestep kw,
     Some ''-lambda'', rk_hopping_probability kw, Some ''-local_addr'', Some (vh_actual_host_ip h)]"

definition start_ph_process :: "os_env \<Rightarrow> string option list \<Rightarrow> ph_host \<Rightarrow> ph_host act" where
  "start_ph_process os args h =
     (if ph_process h \<noteq> None then raise ValueError
      else andthen (of_res (text_args args)) (\<lambda>args'. andthen (os_start os args') (\<lambda>p. ret (h\<lparr>ph_process := Some p\<rparr>))))"

definition start_path_hopping_sender :: "os_env \<Rightarrow> sender_kwargs \<Rightarrow> ph_host \<Rightarrow> ph_host act" where
  "start_path_hopping_sender os kw h = start_ph_process os (sender_args h kw) h"

definition start_path_hopping_receiver :: "os_env \<Rightarrow> receiver_kwargs \<Rightarrow> ph_host \<Rightarrow> ph_host act" where
  "start_path_hopping_receiver os kw h = start_ph_process os (receiver_args h kw) h"

text \<open>\<open>stop_path_hopping_sender\<close> and \<open>stop_path_hopping_receiver\<close>: the return code only decides what is printed.\<close>

definition stop_ph_process :: "ph_host \<Rightarrow> unit act" where
  "stop_ph_process h = (case ph_process h of
       None \<Rightarrow> raise ValueError
     | Some p \<Rightarrow> andthen (os_note (Terminated p)) (\<lambda>_. os_note (Reaped p)))"

definition destroy_ph_host :: "os_env \<Rightarrow> server \<Rightarrow> ph_host \<Rightarrow> unit act" where
  "destroy_ph_host os srv h = andthen (destroy_base os srv h) (\<lambda>_.
     if ph_process h \<noteq> None then stop_ph_process h else ret ())"

definition wait_until_done :: "os_env \<Rightarrow> ph_host \<Rightarrow> int act" where
  "wait_until_done os h = (case ph_process h of
       None \<Rightarrow> raise ValueError
     | Some p \<Rightarrow> andthen (os_ask (\<lambda>evs. Inr (wait_code os evs p))) (\<lambda>code. andthen (os_note (Reaped p)) (\<lambda>_. ret code)))"

end
