(* ===== verification/Testbed_Resources.thy ===== *)
theory Testbed_Resources
  imports Virtual_Host Route_Adder
begin

section \<open>What a testbed run holds\<close>

text \<open>
  An abstract view of the world of \<open>Virtual_Host\<close>: which addresses of the local interface, entries of virtual
  hosts, installed routes and processes exist, read off what was done and what the controller
  answered.  An operation is described by what it may add to them.  The drivers promise that a run
  leaves nothing behind; the operations' shares of this promise are proved here.
\<close>

subsection \<open>Resources\<close>

datatype resource = Address string | VHost json | Process nat | Route json

text \<open>Something is held when the last event that acquires or releases it acquires it.\<close>

definition held :: "('e \<Rightarrow> bool) \<Rightarrow> ('e \<Rightarrow> bool) \<Rightarrow> 'e list \<Rightarrow> bool" where
  "held acq rel es = foldl (\<lambda>b e. if acq e then True else if rel e then False else b) False es"

lemma held_simps [simp]:
  "\<not> held acq rel []"
  "held acq rel (es @ [e]) \<longleftrightarrow> acq e \<or> (\<not> rel e \<and> held acq rel es)"
  by (auto simp: held_def)

definition exchanges :: "server \<Rightarrow> http_request list \<Rightarrow> (http_request \<times> http_reply) list" where
  "exchanges srv sent = map (\<lambda>i. (sent ! i, srv (take i sent) (sent ! i))) [0..<length sent]"

lemma exchanges_simps [simp]:
  "exchanges srv [] = []"
  "exchanges srv (sent @ [rq]) = exchanges srv sent @ [(rq, srv sent rq)]"
  by (simp_all add: exchanges_def nth_append)

definition accepted :: "http_reply \<Rightarrow> bool" where
  "accepted reply = (case reply of NoConnection \<Rightarrow> False | Reply st _ \<Rightarrow> \<not> (400 \<le> st \<and> st < 600))"

definition reply_field :: "string \<Rightarrow> http_reply \<Rightarrow> json option" where
  "reply_field k reply = (case reply of NoConnection \<Rightarrow> None | Reply st body \<Rightarrow>
     if 400 \<le> st \<and> st < 600 then None
     else case rbind (loads body) (\<lambda>j. json_get j k) of Inl _ \<Rightarrow> None | Inr v \<Rightarrow> Some v)"

definition uninstall_flow_request :: "string \<Rightarrow> http_request" where
  "uninstall_flow_request tok = \<lparr>rq_method = POST, rq_url = onos_url @ ''multipath-routing/v1/remove-route?route-id='' @ tok, rq_body = None\<rparr>"

definition names_token :: "(string \<Rightarrow> http_request) \<Rightarrow> json \<Rightarrow> http_request \<Rightarrow> bool" where
  "names_token mk tok rq = (case token_text tok of Inl _ \<Rightarrow> False | Inr t \<Rightarrow> rq = mk t)"

fun os_acquires :: "resource \<Rightarrow> os_event \<Rightarrow> bool" where
  "os_acquires (Address ip) ev \<longleftrightarrow> ev = Ran (ip_addr_cmd ''add'' ip iface_name) 0"
| "os_acquires (Process p) ev \<longleftrightarrow> (case ev of Started q _ \<Rightarrow> q = p | _ \<Rightarrow> False)"
| "os_acquires _ ev \<longleftrightarrow> False"

fun os_releases :: "resource \<Rightarrow> os_event \<Rightarrow> bool" where
  "os_releases (Address ip) ev \<longleftrightarrow> ev = Ran (ip_addr_cmd ''del'' ip iface_name) 0"
| "os_releases (Process p) ev \<longleftrightarrow> ev = Interrupted p \<or> ev = Terminated p \<or> ev = Reaped p"
| "os_releases _ ev \<longleftrightarrow> False"

fun rq_acquires :: "resource \<Rightarrow> http_request \<times> http_reply \<Rightarrow> bool" where
  "rq_acquires (VHost tok) (rq, reply) \<longleftrightarrow> rq_method rq = POST \<and> rq_url rq = vhost_onos_url @ ''virtual-hosts/v1/create-virtual-host''
     \<and> reply_field ''virtual-host-id'' reply = Some tok"
| "rq_acquires (Route tok) (rq, reply) \<longleftrightarrow> rq_method rq = POST \<and> rq_url rq = onos_url @ ''multipath-routing/v1/add-route''
     \<and> reply_field ''routeId'' reply = Some tok"
| "rq_acquires _ _ \<longleftrightarrow> False"

fun rq_releases :: "resource \<Rightarrow> http_request \<times> http_reply \<Rightarrow> bool" where
  "rq_releases (VHost tok) (rq, reply) \<longleftrightarrow> names_token destroy_virtual_host_request tok rq \<and> accepted reply"
| "rq_releases (Route tok) (rq, reply) \<longleftrightarrow> names_token uninstall_flow_request tok rq \<and> accepted reply"
| "rq_releases _ _ \<longleftrightarrow> False"

definition holds :: "server \<Rightarrow> resource \<Rightarrow> world \<Rightarrow> bool" where
  "holds srv r = (\<lambda>(evs, sent). held (os_acquires r) (os_releases r) evs \<or> held (rq_acquires r) (rq_releases r) (exchanges srv sent))"

lemma holds_nothing [simp]: "\<not> holds srv r ([], [])"
  by (simp add: holds_def)

text \<open>Between two worlds nothing but \<open>R\<close> was added to what is held.\<close>

definition gained :: "server \<Rightarrow> resource set \<Rightarrow> world \<Rightarrow> world \<Rightarrow> bool" where
  "gained srv R w w' \<longleftrightarrow> (\<forall>r. holds srv r w' \<longrightarrow> holds srv r w \<or> r \<in> R)"

lemma gained_refl [simp]: "gained srv R w w"
  by (simp add: gained_def)

lemma gained_trans: "gained srv R w w' \<Longrightarrow> gained srv R' w' w'' \<Longrightarrow> gained srv (R \<union> R') w w''"
  by (auto simp: gained_def)

lemma gained_mono: "gained srv R w w' \<Longrightarrow> R \<subseteq> R' \<Longrightarrow> gained srv R' w w'"
  by (auto simp: gained_def)

lemma gained_nothing_trans: "gained srv R w w' \<Longrightarrow> gained srv {} w' w'' \<Longrightarrow> gained srv R w w''"
  by (auto simp: gained_def)

lemma gained_dropped: "gained srv (insert r R) w w' \<Longrightarrow> \<not> holds srv r w' \<Longrightarrow> gained srv R w w'"
  by (auto simp: gained_def)

subsection \<open>Commands, requests and signals\<close>

lemma ip_addr_cmd_eq: "ip_addr_cmd v ip i = ip_addr_cmd v' ip' i' \<longleftrightarrow> v @ '' '' @ ip @ ''/24 dev '' @ i = v' @ '' '' @ ip' @ ''/24 dev '' @ i'"
proof
  assume "ip_addr_cmd v ip i = ip_addr_cmd v' ip' i'"
  then have "join_with [CHR '' ''] (ip_addr_cmd v ip i) = join_with [CHR '' ''] (ip_addr_cmd v' ip' i')" by simp
  then show "v @ '' '' @ ip @ ''/24 dev '' @ i = v' @ '' '' @ ip' @ ''/24 dev '' @ i'"
    unfolding ip_addr_cmd_def join_split by (simp add: print_simps)
qed (simp add: ip_addr_cmd_def print_simps)

lemma ip_addr_cmd_inj [simp]: "ip_addr_cmd v ip i = ip_addr_cmd v ip' i \<longleftrightarrow> ip = ip'"
  by (simp add: ip_addr_cmd_eq)

lemma add_not_del [simp]:
  "ip_addr_cmd ''add'' ip i \<noteq> ip_addr_cmd ''del'' ip' i'" "ip_addr_cmd ''del'' ip' i' \<noteq> ip_addr_cmd ''add'' ip i"
  by (auto simp: ip_addr_cmd_eq)

lemma gained_event:
  "(\<And>r. os_acquires r ev \<Longrightarrow> r \<in> R) \<Longrightarrow> gained srv R (evs, sent) (evs @ [ev], sent)"
  by (auto simp: gained_def holds_def)

lemma gained_request:
  "(\<And>r. rq_acquires r (rq, srv sent rq) \<Longrightarrow> r \<in> R) \<Longrightarrow> gained srv R (evs, sent) (evs, sent @ [rq])"
  by (auto simp: gained_def holds_def)

lemma holds_kinds [simp]:
  "holds srv (Address ip) (evs, sent) \<longleftrightarrow> held (os_acquires (Address ip)) (os_releases (Address ip)) evs"
  "holds srv (Process p) (evs, sent) \<longleftrightarrow> held (os_acquires (Process p)) (os_releases (Process p)) evs"
  "holds srv (VHost t) (evs, sent) \<longleftrightarrow> held (rq_acquires (VHost t)) (rq_releases (VHost t)) (exchanges srv sent)"
  "holds srv (Route t) (evs, sent) \<longleftrightarrow> held (rq_acquires (Route t)) (rq_releases (Route t)) (exchanges srv sent)"
proof -
  have none: "\<not> held (\<lambda>_. False) rel es" for rel :: "'e \<Rightarrow> bool" and es by (induction es rule: rev_induct) simp_all
  have "os_acquires (VHost t) = (\<lambda>_. False)" "os_acquires (Route t) = (\<lambda>_. False)"
    "rq_acquires (Address ip) = (\<lambda>_. False)" "rq_acquires (Process p) = (\<lambda>_. False)" by auto
  then show "holds srv (Address ip) (evs, sent) \<longleftrightarrow> held (os_acquires (Address ip)) (os_releases (Address ip)) evs"
    "holds srv (Process p) (evs, sent) \<longleftrightarrow> held (os_acquires (Process p)) (os_releases (Process p)) evs"
    "holds srv (VHost t) (evs, sent) \<longleftrightarrow> held (rq_acquires (VHost t)) (rq_releases (VHost t)) (exchanges srv sent)"
    "holds srv (Route t) (evs, sent) \<longleftrightarrow> held (rq_acquires (Route t)) (rq_releases (Route t)) (exchanges srv sent)"
    by (simp_all add: holds_def none)
qed

subsection \<open>What is relied on\<close>

text \<open>
  Releasing works: an address can be deleted, and the controller accepts the removal of entries and
  routes.  Everything else may fail.
\<close>

definition cleanup_works :: "os_env \<Rightarrow> server \<Rightarrow> bool" where
  "cleanup_works os srv \<longleftrightarrow> (\<forall>evs ip. run_code os evs (ip_addr_cmd ''del'' ip iface_name) = Inr 0)
     \<and> (\<forall>sent t. accepted (srv sent (destroy_virtual_host_request t)) \<and> accepted (srv sent (uninstall_flow_request t)))"

text \<open>
  The address of the interface can be read, and an accepted entry or route comes with an id that
  has a text.
\<close>

definition gives_id :: "string \<Rightarrow> http_reply \<Rightarrow> bool" where
  "gives_id k reply \<longleftrightarrow> (case reply_field k reply of None \<Rightarrow> False | Some tok \<Rightarrow> is_ok (token_text tok))"

definition reads_back :: "os_env \<Rightarrow> server \<Rightarrow> bool" where
  "reads_back os srv \<longleftrightarrow> (\<forall>evs. is_ok (iface_mac os evs iface_name))
     \<and> (\<forall>sent rq. accepted (srv sent rq) \<longrightarrow>
          (rq_url rq = vhost_onos_url @ ''virtual-hosts/v1/create-virtual-host'' \<longrightarrow> gives_id ''virtual-host-id'' (srv sent rq))
        \<and> (rq_url rq = onos_url @ ''multipath-routing/v1/add-route'' \<longrightarrow> gives_id ''routeId'' (srv sent rq)))"

text \<open>The part of this that concerns routes.\<close>

definition routes_removable :: "server \<Rightarrow> bool" where
  "routes_removable srv \<longleftrightarrow> (\<forall>sent t. accepted (srv sent (uninstall_flow_request t)))"

definition routes_named :: "server \<Rightarrow> bool" where
  "routes_named srv \<longleftrightarrow> (\<forall>sent rq. accepted (srv sent rq) \<longrightarrow> rq_url rq = onos_url @ ''multipath-routing/v1/add-route'' \<longrightarrow> gives_id ''routeId'' (srv sent rq))"

lemma routes_of_resources:
  "cleanup_works os srv \<Longrightarrow> routes_removable srv" "reads_back os srv \<Longrightarrow> routes_named srv"
  by (simp_all add: cleanup_works_def routes_removable_def reads_back_def routes_named_def)

definition released :: "server \<Rightarrow> resource set \<Rightarrow> world \<Rightarrow> world \<Rightarrow> bool" where
  "released srv R w w' \<longleftrightarrow> gained srv {} w w' \<and> (\<forall>r \<in> R. \<not> holds srv r w')"

lemma released_trans: "released srv R w w' \<Longrightarrow> released srv R' w' w'' \<Longrightarrow> released srv (R \<union> R') w w''"
  by (auto simp: released_def gained_def)

lemma released_refl [simp]: "released srv {} w w"
  by (simp add: released_def)

lemma gained_released: "gained srv (R \<union> R') w w' \<Longrightarrow> released srv R' w' w'' \<Longrightarrow> gained srv R w w''"
  by (auto simp: released_def gained_def)

subsection \<open>The operations\<close>

lemma initialize_interface:
  assumes "reads_back os srv" and "initialize_local_network_interface os iface_name ip w = (r, w')"
  shows "r = Inr mac \<Longrightarrow> gained srv {Address ip} w w'" and "r = Inl e \<Longrightarrow> gained srv {} w w'"
proof -
  obtain evs sent where w: "w = (evs, sent)" by (cases w)
  have "\<exists>mac. iface_mac os evs' iface_name = Inr mac" for evs' using assms(1) by (simp add: reads_back_def is_ok_iff)
  moreover have "gained srv {Address ip} (evs, sent) (evs @ [Ran (ip_addr_cmd ''add'' ip iface_name) 0], sent)"
    by (rule gained_event, case_tac r) (auto split: os_event.splits)
  moreover have "gained srv {} (evs, sent) (evs @ [Ran cmd c], sent)" if "c \<noteq> 0" for cmd c
    using that by (intro gained_event, case_tac r) auto
  ultimately show "r = Inr mac \<Longrightarrow> gained srv {Address ip} w w'" "r = Inl e \<Longrightarrow> gained srv {} w w'"
    using assms(2) unfolding w initialize_local_network_interface_def os_run_def andthen_def raise_def
    by (auto split: sum.splits prod.splits if_splits) (metis sum.distinct(1))+
qed

lemma remove_interface:
  assumes "cleanup_works os srv" and "remove_local_network_interface os iface_name ip w = (r, w')"
  shows "r = Inr ()" and "released srv {Address ip} w w'"
proof -
  obtain evs sent where w: "w = (evs, sent)" by (cases w)
  let ?ev = "Ran (ip_addr_cmd ''del'' ip iface_name) 0"
  have "remove_local_network_interface os iface_name ip w = (Inr (), (evs @ [?ev], sent))"
    using assms(1) unfolding w by (simp add: remove_local_network_interface_def os_run_def andthen_def cleanup_works_def)
  moreover have "gained srv {} (evs, sent) (evs @ [?ev], sent)" by (rule gained_event, case_tac r) auto
  ultimately show "r = Inr ()" "released srv {Address ip} w w'" using assms(2) by (auto simp: released_def w)
qed

text \<open>A request for a resource: the answer tells the token, or nothing was gained.\<close>

lemma acquiring_request:
  assumes "andthen (on_snd (send srv rq)) (\<lambda>(st, body). if 400 \<le> st \<and> st < 600 then raise ValueError
      else of_res (rbind (loads body) (\<lambda>j. json_get j k))) (evs, sent) = (r, w')"
  shows "w' = (evs, sent @ [rq])" and "r = Inr t \<longleftrightarrow> reply_field k (srv sent rq) = Some t"
  using assms
  by (cases "srv sent rq", auto simp: andthen_def on_snd_def send_def reply_field_def raise_def of_res_def split: sum.splits if_splits)+

lemma acquiring_request_gains:
  assumes "andthen (on_snd (send srv rq)) (\<lambda>(st, body). if 400 \<le> st \<and> st < 600 then raise ValueError
      else of_res (rbind (loads body) (\<lambda>j. json_get j k))) w = (r, w')"
    and "\<And>sent x. rq_acquires x (rq, srv sent rq) \<Longrightarrow> \<exists>t. reply_field k (srv sent rq) = Some t \<and> x = R t"
    and "\<And>sent. accepted (srv sent rq) \<Longrightarrow> gives_id k (srv sent rq)"
  shows "r = Inr tok \<Longrightarrow> gained srv {R tok} w w' \<and> is_ok (token_text tok)" and "r = Inl e \<Longrightarrow> gained srv {} w w'"
proof -
  obtain evs sent where w: "w = (evs, sent)" by (cases w)
  note run = acquiring_request [OF assms(1) [unfolded w]]
  have acc: "accepted (srv sent rq)" if "reply_field k (srv sent rq) = Some t" for t
    using that by (auto simp: reply_field_def accepted_def split: http_reply.splits if_splits)
  show "gained srv {R tok} w w' \<and> is_ok (token_text tok)" if "r = Inr tok"
  proof -
    have tok: "reply_field k (srv sent rq) = Some tok" using run(2) [of tok] that by simp
    then have "is_ok (token_text tok)" using assms(3) [OF acc] by (simp add: gives_id_def)
    then show ?thesis using assms(2) [of _ sent] tok unfolding w run(1) by (auto intro!: gained_request)
  qed
  show "gained srv {} w w'" if "r = Inl e"
    using run(2) that assms(2) [of _ sent] unfolding w run(1) by (intro gained_request) fastforce
qed

lemma install_host:
  assumes "reads_back os srv" and "install_virtual_host srv amac aip vmac vip dev w = (r, w')"
  shows "r = Inr tok \<Longrightarrow> gained srv {VHost tok} w w' \<and> is_ok (token_text tok)" and "r = Inl e \<Longrightarrow> gained srv {} w w'"
proof -
  let ?rq = "create_virtual_host_request amac aip vmac vip dev"
  have "\<exists>t. reply_field ''virtual-host-id'' (srv sent ?rq) = Some t \<and> x = VHost t" if "rq_acquires x (?rq, srv sent ?rq)" for x sent
    using that by (cases x) (auto simp: create_virtual_host_request_def vhost_onos_url_def onos_url_def)
  moreover have "accepted (srv sent ?rq) \<Longrightarrow> gives_id ''virtual-host-id'' (srv sent ?rq)" for sent
    using assms(1) by (simp add: reads_back_def create_virtual_host_request_def)
  ultimately show "r = Inr tok \<Longrightarrow> gained srv {VHost tok} w w' \<and> is_ok (token_text tok)" "r = Inl e \<Longrightarrow> gained srv {} w w'"
    using acquiring_request_gains(1) [OF assms(2) [unfolded install_virtual_host_def], of VHost tok]
      acquiring_request_gains(2) [OF assms(2) [unfolded install_virtual_host_def], of VHost e] by blast+
qed

lemma install_route:
  assumes "routes_named srv" and "on_snd (install_flow srv flow_json) w = (r, w')"
  shows "r = Inr tok \<Longrightarrow> gained srv {Route tok} w w' \<and> is_ok (token_text tok)" and "r = Inl e \<Longrightarrow> gained srv {} w w'"
proof -
  let ?rq = "\<lparr>rq_method = POST, rq_url = onos_url @ ''multipath-routing/v1/add-route'', rq_body = Some flow_json\<rparr>"
  have "on_snd (install_flow srv flow_json) = andthen (on_snd (send srv ?rq)) (\<lambda>(st, body). if 400 \<le> st \<and> st < 600 then raise ValueError
      else of_res (rbind (loads body) (\<lambda>j. json_get j ''routeId'')))"
    by (rule ext) (auto simp: install_flow_def on_snd_def andthen_def of_res_def raise_def split: prod.splits sum.splits)
  note run = assms(2) [unfolded this]
  have "\<exists>t. reply_field ''routeId'' (srv sent ?rq) = Some t \<and> x = Route t" if "rq_acquires x (?rq, srv sent ?rq)" for x sent
    using that by (cases x) (auto simp: vhost_onos_url_def onos_url_def)
  moreover have "accepted (srv sent ?rq) \<Longrightarrow> gives_id ''routeId'' (srv sent ?rq)" for sent
    using assms(1) by (simp add: routes_named_def)
  ultimately show "r = Inr tok \<Longrightarrow> gained srv {Route tok} w w' \<and> is_ok (token_text tok)" "r = Inl e \<Longrightarrow> gained srv {} w w'"
    using acquiring_request_gains(1) [OF run, of Route tok] acquiring_request_gains(2) [OF run, of Route e] by blast+
qed

text \<open>A removal that is accepted.\<close>

lemma releasing_request:
  assumes "andthen (of_res (token_text tok)) (\<lambda>t. andthen (on_snd (send srv (mk t)))
      (\<lambda>(st, _). if 400 \<le> st \<and> st < 600 then raise ValueError else ret ())) w = (r, w')"
    and "is_ok (token_text tok)" and "\<And>sent t. accepted (srv sent (mk t))"
    and "\<And>x t reply. \<not> rq_acquires x (mk t, reply)"
    and "\<And>rq reply. rq_releases (R tok) (rq, reply) \<longleftrightarrow> names_token mk tok rq \<and> accepted reply"
    and "\<And>evs sent. holds srv (R tok) (evs, sent) \<longleftrightarrow> held (rq_acquires (R tok)) (rq_releases (R tok)) (exchanges srv sent)"
  shows "r = Inr ()" and "released srv {R tok} w w'"
proof -
  obtain evs sent where w: "w = (evs, sent)" by (cases w)
  obtain t where t: "token_text tok = Inr t" using assms(2) by (auto simp: is_ok_iff)
  obtain st body where reply: "srv sent (mk t) = Reply st body" "\<not> (400 \<le> st \<and> st < 600)"
    using assms(3) [of sent t] by (auto simp: accepted_def split: http_reply.splits)
  have run: "r = Inr ()" "w' = (evs, sent @ [mk t])"
    using assms(1) reply unfolding w t by (auto simp: andthen_def on_snd_def send_def split: if_splits)
  have "gained srv {} (evs, sent) (evs, sent @ [mk t])" by (rule gained_request) (use assms(4) in blast)
  moreover have "\<not> holds srv (R tok) (evs, sent @ [mk t])"
    using assms(3) [of sent t] by (simp add: assms(4,5,6) names_token_def t)
  ultimately show "r = Inr ()" "released srv {R tok} w w'" using run by (auto simp: released_def w)
qed

lemma removals_acquire_nothing:
  "\<not> rq_acquires x (destroy_virtual_host_request t, reply)" "\<not> rq_acquires x (uninstall_flow_request t, reply)"
  by (cases x; simp add: destroy_virtual_host_request_def uninstall_flow_request_def vhost_onos_url_def onos_url_def)+

lemma uninstall_host:
  assumes "cleanup_works os srv" and "is_ok (token_text tok)" and "uninstall_virtual_host srv tok w = (r, w')"
  shows "r = Inr ()" and "released srv {VHost tok} w w'"
  using releasing_request [OF assms(3) [unfolded uninstall_virtual_host_def] assms(2), of VHost] assms(1)
  by (simp_all add: removals_acquire_nothing cleanup_works_def)

text \<open>The call of \<open>uninstall_flow\<close> with a token.\<close>

definition uninstall_token :: "server \<Rightarrow> json \<Rightarrow> unit act" where
  "uninstall_token srv tok = andthen (of_res (token_text tok)) (\<lambda>t. on_snd (uninstall_flow srv t))"

lemma uninstall_route:
  assumes "routes_removable srv" and "is_ok (token_text tok)" and "uninstall_token srv tok w = (r, w')"
  shows "r = Inr ()" and "released srv {Route tok} w w'"
proof -
  have eq: "on_snd (uninstall_flow srv t) = andthen (on_snd (send srv (uninstall_flow_request t)))
      (\<lambda>(st, _). if 400 \<le> st \<and> st < 600 then raise ValueError else ret ())" for t
    by (rule ext) (auto simp: uninstall_flow_def uninstall_flow_request_def on_snd_def andthen_def of_res_def raise_def ret_def
        split: prod.splits sum.splits)
  have "andthen (of_res (token_text tok)) (\<lambda>t. andthen (on_snd (send srv (uninstall_flow_request t)))
      (\<lambda>(st, _). if 400 \<le> st \<and> st < 600 then raise ValueError else ret ())) w = (r, w')"
    using assms(3) unfolding uninstall_token_def eq .
  from releasing_request [OF this assms(2), of Route] assms(1)
  show "r = Inr ()" "released srv {Route tok} w w'" by (simp_all add: removals_acquire_nothing routes_removable_def)
qed

text \<open>A virtual host is created as a whole or not at all.\<close>

lemma persistent_state:
  assumes "reads_back os srv" and "cleanup_works os srv"
    and "initialize_virtual_host_persistent_state os srv vmac vip ip dev w = (r, w')"
  shows "r = Inr (mac, tok) \<Longrightarrow> gained srv {Address ip, VHost tok} w w' \<and> is_ok (token_text tok)" and "r = Inl e \<Longrightarrow> gained srv {} w w'"
proof -
  obtain r1 w1 where first: "initialize_local_network_interface os iface_name ip w = (r1, w1)" by (metis surj_pair)
  have run: "(case r1 of Inl e \<Rightarrow> (Inl e, w1) | Inr m \<Rightarrow> (case install_virtual_host srv m ip vmac vip dev w1 of
      (Inr t, w2) \<Rightarrow> (Inr (m, t), w2)
    | (Inl e, w2) \<Rightarrow> andthen (remove_local_network_interface os iface_name ip) (\<lambda>_. raise e) w2)) = (r, w')"
    using assms(3) unfolding initialize_virtual_host_persistent_state_def
    by (auto simp: andthen_def first try_except_def split: sum.splits prod.splits)
  show "gained srv {Address ip, VHost tok} w w' \<and> is_ok (token_text tok)" if "r = Inr (mac, tok)"
  proof -
    have one: "r1 = Inr mac" "install_virtual_host srv mac ip vmac vip dev w1 = (Inr tok, w')"
      using run that by (auto simp: andthen_def raise_def of_res_def split: sum.splits prod.splits)
    note two = install_host(1) [OF assms(1) one(2) refl]
    show ?thesis using gained_trans [OF initialize_interface(1) [OF assms(1) first one(1)] conjunct1 [OF two]] two by (simp add: insert_commute)
  qed
  show "gained srv {} w w'" if "r = Inl e"
  proof (cases r1)
    case (Inl e1)
    then show ?thesis using run initialize_interface(2) [OF assms(1) first] by auto
  next
    case (Inr m)
    then obtain e2 w2 w3 u where steps: "install_virtual_host srv m ip vmac vip dev w1 = (Inl e2, w2)"
        "remove_local_network_interface os iface_name ip w2 = (u, w3)" "w' = w3"
      using run \<open>r = Inl e\<close> by (auto simp: andthen_def raise_def of_res_def split: sum.splits prod.splits)
    have "gained srv {Address ip} w w2"
      using gained_trans [OF initialize_interface(1) [OF assms(1) first Inr] install_host(2) [OF assms(1) steps(1)]] by simp
    from gained_released [of srv "{}" "{Address ip}", simplified, OF this remove_interface(2) [OF assms(2) steps(2)]]
    show ?thesis using steps(3) by simp
  qed
qed

subsection \<open>Processes and hosts\<close>

lemma start_process:
  assumes "os_start os args w = (r, w')"
  shows "r = Inr p \<Longrightarrow> gained srv {Process p} w w'" and "r = Inl e \<Longrightarrow> w' = w"
proof -
  obtain evs sent where w: "w = (evs, sent)" by (cases w)
  have "gained srv {Process p} (evs, sent) (evs @ [Started p args], sent)" for p
    by (rule gained_event, case_tac r) auto
  then show "r = Inr p \<Longrightarrow> gained srv {Process p} w w'" "r = Inl e \<Longrightarrow> w' = w"
    using assms by (auto simp: w os_start_def split: sum.splits)
qed

lemma note_event: "\<forall>r. \<not> os_acquires r ev \<Longrightarrow> gained srv {} (evs, sent) (evs @ [ev], sent)"
  by (rule gained_event) blast

lemma signal_process:
  "released srv {Process p} (evs, sent) (evs @ [Interrupted p], sent)" "released srv {Process p} (evs, sent) (evs @ [Terminated p], sent)"
  "released srv {Process p} (evs, sent) (evs @ [Reaped p], sent)"
  unfolding released_def by (simp_all add: note_event) (rule note_event, rule allI, case_tac r, auto)+

definition traffic_resources :: "traffic_host \<Rightarrow> resource set" where
  "traffic_resources h = {Address (vh_actual_host_ip h), VHost (vh_token h)}
     \<union> Process ` set_option (server_process h) \<union> Process ` set_option (client_process h)"

definition traffic_host_ok :: "traffic_host \<Rightarrow> bool" where
  "traffic_host_ok h \<longleftrightarrow> is_ok (token_text (vh_token h)) \<and> (client_process h \<noteq> None \<longrightarrow> configured_flows h \<noteq> [])"

lemma destroy_base_releases:
  assumes "cleanup_works os srv" and "is_ok (token_text (vh_token h))" and "destroy_base os srv h w = (r, w')"
  shows "r = Inr ()" and "released srv {Address (vh_actual_host_ip h), VHost (vh_token h)} w w'"
proof -
  obtain r1 w1 where one: "uninstall_virtual_host srv (vh_token h) w = (r1, w1)" by (metis surj_pair)
  note u = uninstall_host [OF assms(1,2) one]
  have two: "remove_local_network_interface os iface_name (vh_actual_host_ip h) w1 = (r, w')"
    using assms(3) u(1) one by (simp add: destroy_base_def andthen_def)
  show "r = Inr ()" using remove_interface(1) [OF assms(1) two] .
  show "released srv {Address (vh_actual_host_ip h), VHost (vh_token h)} w w'"
    using released_trans [OF u(2) remove_interface(2) [OF assms(1) two]] by (simp add: insert_commute)
qed

lemma stop_client_releases:
  assumes "client_process h = Some p" and "configured_flows h \<noteq> []" and "stop_traffic_generation_client os h w = (r, w')"
  shows "r = Inr ()" and "released srv {Process p} w w'"
proof -
  obtain evs sent where w: "w = (evs, sent)" by (cases w)
  have "released srv ({Process p} \<union> {Process p}) (evs, sent) ((evs @ [Interrupted p]) @ [Reaped p], sent)"
    by (rule released_trans) (rule signal_process)+
  note steps = signal_process(1) [of srv p evs sent] this
  show "r = Inr ()" "released srv {Process p} w w'"
    using assms steps unfolding w stop_traffic_generation_client_def by (auto simp: andthen_def split: if_splits)
qed

lemma destroy_traffic_host_releases:
  assumes "cleanup_works os srv" and "traffic_host_ok h" and "destroy_traffic_host os srv h w = (r, w')"
  shows "r = Inr ()" and "released srv (traffic_resources h) w w'"
proof -
  obtain r1 w1 where one: "destroy_base os srv h w = (r1, w1)" by (metis surj_pair)
  note base = destroy_base_releases [OF assms(1) _ one]
  have ok: "is_ok (token_text (vh_token h))" using assms(2) by (simp add: traffic_host_ok_def)
  obtain r2 w2 where two: "(if client_process h \<noteq> None then stop_traffic_generation_client os h else ret ()) w1 = (r2, w2)" by (metis surj_pair)
  have client: "r2 = Inr () \<and> released srv (Process ` set_option (client_process h)) w1 w2"
  proof (cases "client_process h")
    case (Some p)
    moreover have "configured_flows h \<noteq> []" using assms(2) Some by (simp add: traffic_host_ok_def)
    ultimately show ?thesis using two stop_client_releases [of h p os w1 r2 w2] by auto
  qed (use two in auto)
  have three: "(if server_process h \<noteq> None then stop_traffic_generation_server h else ret ()) w2 = (r, w')"
    using assms(3) one two base(1) [OF ok] client unfolding destroy_traffic_host_def by (simp add: andthen_def)
  have server: "r = Inr () \<and> released srv (Process ` set_option (server_process h)) w2 w'"
    using three signal_process(1) [of srv _ "fst w2" "snd w2"]
    by (cases w2; cases "server_process h") (auto simp: stop_traffic_generation_server_def)
  show "r = Inr ()" using server by simp
  have "released srv ({Address (vh_actual_host_ip h), VHost (vh_token h)} \<union> (Process ` set_option (client_process h))
      \<union> (Process ` set_option (server_process h))) w w'"
    using released_trans [OF released_trans [OF base(2) [OF ok]]] client server by blast
  then show "released srv (traffic_resources h) w w'" by (simp add: traffic_resources_def Un_ac)
qed

definition ph_resources :: "ph_host \<Rightarrow> resource set" where
  "ph_resources h = {Address (vh_actual_host_ip h), VHost (vh_token h)} \<union> Process ` set_option (ph_process h)"

lemma destroy_ph_host_releases:
  assumes "cleanup_works os srv" and "is_ok (token_text (vh_token h))" and "destroy_ph_host os srv h w = (r, w')"
  shows "r = Inr ()" and "released srv (ph_resources h) w w'"
proof -
  obtain r1 w1 where one: "destroy_base os srv h w = (r1, w1)" by (metis surj_pair)
  note base = destroy_base_releases [OF assms(1,2) one]
  obtain evs sent where w1: "w1 = (evs, sent)" by (cases w1)
  have two: "(if ph_process h \<noteq> None then stop_ph_process h else ret ()) w1 = (r, w')"
    using assms(3) one base(1) by (simp add: destroy_ph_host_def andthen_def)
  have "released srv ({Process p} \<union> {Process p}) (evs, sent) ((evs @ [Terminated p]) @ [Reaped p], sent)" for p
    by (rule released_trans) (rule signal_process)+
  then have "r = Inr () \<and> released srv (Process ` set_option (ph_process h)) w1 w'"
    using two unfolding w1 by (cases "ph_process h") (auto simp: stop_ph_process_def andthen_def)
  then show "r = Inr ()" "released srv (ph_resources h) w w'"
    using released_trans [OF base(2)] by (auto simp: ph_resources_def)
qed

subsection \<open>Requests that hold nothing\<close>

text \<open>Computations that only read from the controller.\<close>

definition only_gets :: "'a io \<Rightarrow> bool" where
  "only_gets m \<longleftrightarrow> (\<forall>sent. \<exists>new. snd (m sent) = sent @ new \<and> (\<forall>rq \<in> set new. rq_method rq = GET))"

lemma only_gets_ret [simp, intro]: "only_gets (ret x)" "only_gets (of_res r)"
  by (simp_all add: only_gets_def)

lemma only_gets_send [intro]: "rq_method rq = GET \<Longrightarrow> only_gets (send srv rq)"
  by (simp add: only_gets_def send_def split: http_reply.splits)

lemma only_gets_andthen [intro]:
  assumes "only_gets m" and "\<And>x. only_gets (f x)"
  shows "only_gets (andthen m f)"
  unfolding only_gets_def
proof
  fix sent
  obtain new where new: "snd (m sent) = sent @ new" "\<forall>rq \<in> set new. rq_method rq = GET" using assms(1) by (auto simp: only_gets_def)
  show "\<exists>new. snd (andthen m f sent) = sent @ new \<and> (\<forall>rq \<in> set new. rq_method rq = GET)"
  proof (cases rule: andthen_cases [of m sent f])
    case (went x s')
    moreover obtain more where "snd (f x s') = s' @ more" "\<forall>rq \<in> set more. rq_method rq = GET" using assms(2) unfolding only_gets_def by blast
    ultimately show ?thesis using new by (intro exI [of _ "new @ more"]) auto
  qed (use new in auto)
qed

lemma only_gets_catch_stop [intro]:
  assumes "only_gets m"
  shows "only_gets (catch_stop m d)"
proof -
  have "snd (catch_stop m d sent) = snd (m sent)" for sent
    by (simp add: catch_stop_def split: prod.splits sum.splits py_error.splits)
  then show ?thesis using assms by (simp add: only_gets_def)
qed

lemma only_gets_send_checked [intro]: "rq_method rq = GET \<Longrightarrow> only_gets (send_checked srv rq)"
  unfolding send_checked_def by (rule only_gets_andthen) (auto split: prod.splits)

lemma only_gets_topology [intro]: "only_gets (get_and_validate_onos_topo_x srv gm g)"
  unfolding get_and_validate_onos_topo_x_def build_onos_topo_graph_def get_nw_links_def get_collector_switch_dpid_def get_nw_hosts_def
  by (intro only_gets_andthen only_gets_ret only_gets_catch_stop only_gets_send_checked) (simp_all add: onos_get_def)

lemma gets_gain_nothing:
  assumes "only_gets m" and "on_snd m w = (r, w')"
  shows "gained srv {} w w'"
proof -
  obtain evs sent where w: "w = (evs, sent)" by (cases w)
  have "gained srv {} (evs, sent) (evs, sent @ new)" if "\<forall>rq \<in> set new. rq_method rq = GET" for new
    using that
  proof (induction new rule: rev_induct)
    case (snoc rq new)
    have "gained srv {} (evs, sent @ new) (evs, (sent @ new) @ [rq])"
      by (rule gained_request, case_tac r) (use snoc.prems in auto)
    then show ?case using gained_nothing_trans snoc by auto
  qed simp
  then show ?thesis using assms unfolding w only_gets_def on_snd_run by (metis snd_conv)
qed

end
