(* ===== verification/Testbed_Trial.thy ===== *)
theory Testbed_Trial
  imports Testbed_Resources Trial_Provider Stat_Monitor
begin

section \<open>Path-hopping trials on the testbed\<close>

text \<open>
  Models \<open>rest_client/path_hopping.py\<close>, the driver that conducts the trials of \<open>path_hopping/trials.py\<close> on the
  testbed: it maps the topology, creates ten virtual hosts, installs a route per flow, starts traffic
  generators, samples the byte counters and stores utilisations in the trial.  The functions on byte
  counters are its own; those of \<open>path_hopping_attacker_testing.py\<close> differ in the line that prints the length of
  the first sample.  Sleeping, printing and waiting for a key are left out.
\<close>

subsection \<open>Utilisation from byte counters\<close>

definition matches_ids :: "json \<Rightarrow> json \<Rightarrow> json \<Rightarrow> bool res" where
  "matches_ids source_id destination_id d = rbind (json_get d ''sourceSwitchId'') (\<lambda>s.
     if s \<noteq> source_id then Inr False else rbind (json_get d ''destinationSwitchId'') (\<lambda>t. Inr (t = destination_id)))"

definition matching_stats :: "json \<Rightarrow> json \<Rightarrow> json \<Rightarrow> json res" where
  "matching_stats byte_count source_id destination_id =
     rbind (json_list byte_count) (\<lambda>ds. rbind (filter_res (matches_ids source_id destination_id) ds) (\<lambda>matching.
       case matching of [d] \<Rightarrow> Inr d | _ \<Rightarrow> Inl ValueError))"

definition byte_total :: "json \<Rightarrow> int res" where
  "byte_total d = rbind (json_field d ''bytesSent'' json_int) (\<lambda>s. rbind (json_field d ''bytesReceived'' json_int) (\<lambda>r. Inr (s + r)))"

text \<open>Switch ids are texts, which \<open>sorted\<close> orders.\<close>

definition count_delta :: "(json \<Rightarrow> int res) \<Rightarrow> json \<Rightarrow> link_counts \<Rightarrow> json \<Rightarrow> link_counts res" where
  "count_delta count_of t_1 deltas iface_stats =
     rbind (json_get iface_stats ''sourceSwitchId'') (\<lambda>source_id.
     rbind (json_get iface_stats ''destinationSwitchId'') (\<lambda>destination_id.
     rbind (count_of iface_stats) (\<lambda>t_0_count.
     rbind (case rbind (matching_stats t_1 source_id destination_id) count_of of
              Inl ValueError \<Rightarrow> Inr t_0_count | r \<Rightarrow> r) (\<lambda>t_1_count.
     rbind (json_str source_id) (\<lambda>s. rbind (json_str destination_id) (\<lambda>t.
     let link_key = compute_link_key s t
     in Inr (dict_set deltas link_key (dict_get_default deltas link_key 0 + (t_1_count - t_0_count)))))))))"

definition add_count_delta :: "json \<Rightarrow> link_counts \<Rightarrow> json \<Rightarrow> link_counts res" where
  "add_count_delta = count_delta byte_total"

definition count_rate :: "int \<Rightarrow> pyfloat" where
  "count_rate count_in_bytes = of_int (count_in_bytes * 8) / 10 ^ 7"

definition interval_rates :: "json \<Rightarrow> json \<Rightarrow> (string \<times> string, pyfloat) dict res" where
  "interval_rates t_0 t_1 = rbind (json_list t_0) (\<lambda>ifaces.
     rbind (fold_res (add_count_delta t_1) [] ifaces) (\<lambda>deltas. Inr (map (\<lambda>(k, n). (k, count_rate n)) deltas)))"

text \<open>\<open>compute_link_utilization_over_time\<close> of the attacker tests, and that of the path hopping trials, which
  prints \<open>len(link_byte_counts[0])\<close> first.\<close>

definition rates_over_time :: "json list \<Rightarrow> (string \<times> string, pyfloat) dict list res" where
  "rates_over_time link_byte_counts = map_res (\<lambda>(t_0, t_1). interval_rates t_0 t_1) (zip link_byte_counts (tl link_byte_counts))"

definition has_len :: "json \<Rightarrow> bool" where
  "has_len j = (case j of JList _ \<Rightarrow> True | JObj _ \<Rightarrow> True | JStr _ \<Rightarrow> True | _ \<Rightarrow> False)"

definition ph_rates_over_time :: "json list \<Rightarrow> (string \<times> string, pyfloat) dict list res" where
  "ph_rates_over_time link_byte_counts = rbind (py_nth link_byte_counts 0) (\<lambda>first.
     if has_len first then rates_over_time link_byte_counts else Inl TypeError)"

definition collect_all_link_keys :: "(string \<times> string, pyfloat) dict list \<Rightarrow> (string \<times> string) list" where
  "collect_all_link_keys link_util_t = foldl (\<lambda>ks t. foldl set_add ks (dict_keys t)) [] link_util_t"

definition ph_mean_rates :: "json list \<Rightarrow> (string \<times> string, pyfloat) dict res" where
  "ph_mean_rates link_byte_counts = rbind (ph_rates_over_time link_byte_counts) (\<lambda>link_util_t.
     Inr (map (\<lambda>k. (k, mean (List.map_filter (\<lambda>d. map_of d k) link_util_t))) (collect_all_link_keys link_util_t)))"

subsection \<open>The monitor\<close>

definition on_mon_url :: "string \<Rightarrow> string" where
  "on_mon_url path = ''http://127.0.0.1:8181/onos/on-mon/v1/'' @ path"

definition monitor_start :: "server \<Rightarrow> on_monitor \<Rightarrow> on_monitor io" where
  "monitor_start srv m = (if om_token m \<noteq> None then raise ValueError
     else andthen (send srv \<lparr>rq_method = POST, rq_url = on_mon_url ''start-monitor'', rq_body = None\<rparr>) (\<lambda>(st, body).
       of_res (case body of None \<Rightarrow> Inl ValueError | Some j \<Rightarrow> start_monitor (st, j) m)))"

definition monitor_stop :: "server \<Rightarrow> on_monitor \<Rightarrow> on_monitor io" where
  "monitor_stop srv m = (case om_token m of None \<Rightarrow> raise ValueError
     | Some tok \<Rightarrow> andthen (send srv \<lparr>rq_method = POST, rq_url = on_mon_url ''stop-monitor?monitor-token='' @ tok, rq_body = None\<rparr>) (\<lambda>(st, body).
         of_res (case body of None \<Rightarrow> Inl ValueError | Some j \<Rightarrow> stop_monitor (st, j) m)))"

subsection \<open>Hosts\<close>

type_synonym traffic_hosts = "(int, traffic_host) dict"

definition two_digits :: "int \<Rightarrow> string" where
  "two_digits n = (if n < 10 then ''0'' else '''') @ show_int n"

definition create_one_host :: "os_env \<Rightarrow> server \<Rightarrow> (int, string) dict \<Rightarrow> int \<Rightarrow> (traffic_hosts \<times> world, unit) prog" where
  "create_one_host os srv id_to_dpid host_id =
     andthen (of_res (dict_get id_to_dpid (host_id - 1))) (\<lambda>ingress_node_device_id.
     andthen (on_snd (create_traffic_host os srv host_id (''00:02:00:00:00:'' @ two_digits host_id)
       (''10.10.0.'' @ show_int host_id) (''192.168.1.'' @ show_int host_id) ingress_node_device_id)) (\<lambda>the_virtual_host.
     modify_fst (\<lambda>hosts. dict_set hosts host_id the_virtual_host)))"

definition destroy_all_hosts :: "os_env \<Rightarrow> server \<Rightarrow> traffic_hosts \<Rightarrow> unit act" where
  "destroy_all_hosts os srv hosts = each (\<lambda>host. try_except (destroy_traffic_host os srv host) (\<lambda>_. ret ())) (dict_values hosts)"

definition create_virtual_hosts :: "os_env \<Rightarrow> server \<Rightarrow> (int, string) dict \<Rightarrow> traffic_hosts act" where
  "create_virtual_hosts os srv id_to_dpid = (\<lambda>w. case each (create_one_host os srv id_to_dpid) [1..10] ([], w) of
       (Inr _, (hosts, w')) \<Rightarrow> (Inr hosts, w')
     | (Inl ex, (hosts, w')) \<Rightarrow> andthen (destroy_all_hosts os srv hosts) (\<lambda>_. raise ex) w')"

definition remove_all_flows :: "server \<Rightarrow> json list \<Rightarrow> unit act" where
  "remove_all_flows srv flow_tokens = each (\<lambda>tok. try_except (uninstall_token srv tok) (\<lambda>_. ret ())) flow_tokens"

definition scale_flow_tx_rate :: "pyfloat \<Rightarrow> pyfloat" where
  "scale_flow_tx_rate normalized_flow_tx_rate = normalized_flow_tx_rate * 10 ^ 7 / 8"

text \<open>\<open>tag_values\<close> is a \<open>defaultdict(int)\<close>.\<close>

definition path_to_json ::
    "(int, string) dict \<Rightarrow> json list \<times> int list \<times> (int \<times> int, int) dict \<Rightarrow> int list \<Rightarrow> (json list \<times> int list \<times> (int \<times> int, int) dict) res" where
  "path_to_json id_to_dpid = (\<lambda>(path_dicts, tag_values_for_flow, tag_values) path.
     rbind (py_nth path 0) (\<lambda>source_node. rbind (py_nth path (- 1)) (\<lambda>destination_node.
     rbind (map_res (dict_get id_to_dpid) path) (\<lambda>nodes.
     let tag = dict_get_default tag_values (source_node, destination_node) 0
     in Inr (path_dicts @ [JObj [(''nodes'', list_enc JStr nodes), (''tagValue'', JInt tag)]],
             tag_values_for_flow @ [tag], dict_set tag_values (source_node, destination_node) (tag + 1))))))"

definition simple_paths_to_flow_json ::
    "int list list \<Rightarrow> (int \<times> int, int) dict \<Rightarrow> (int, string) dict \<Rightarrow> (json \<times> int list \<times> (int \<times> int, int) dict) res" where
  "simple_paths_to_flow_json simple_paths tag_values id_to_dpid =
     rbind (fold_res (path_to_json id_to_dpid) ([], [], tag_values) simple_paths) (\<lambda>(path_dicts, tag_values_for_flow, tag_values').
       Inr (JObj [(''paths'', JList path_dicts)], tag_values_for_flow, tag_values'))"

subsection \<open>A trial\<close>

text \<open>
  What \<open>conduct_path_hopping_trial\<close> has in its variables when an exception is raised matters, because the
  \<open>finally\<close> block uses it: the hosts and the flow tokens are part of the state, beside the trial that is
  changed.
\<close>

record testbed =
  td_hosts :: traffic_hosts
  td_tokens :: "json list"
  td_trial :: trial

type_synonym 'a testbed_act = "(testbed \<times> world, 'a) prog"

definition upd_host :: "(traffic_host \<Rightarrow> traffic_host act) \<Rightarrow> int \<Rightarrow> unit testbed_act" where
  "upd_host f k = (\<lambda>(d, w). case dict_get (td_hosts d) k of
       Inl e \<Rightarrow> (Inl e, (d, w))
     | Inr h \<Rightarrow> (case f h w of
         (Inl e, w') \<Rightarrow> (Inl e, (d, w'))
       | (Inr h', w') \<Rightarrow> (Inr (), (d\<lparr>td_hosts := dict_set (td_hosts d) k h'\<rparr>, w'))))"

definition for_hosts :: "(traffic_host \<Rightarrow> traffic_host act) \<Rightarrow> unit testbed_act" where
  "for_hosts f = (\<lambda>(d, w). each (upd_host f) (dict_keys (td_hosts d)) (d, w))"

definition get_host :: "int \<Rightarrow> traffic_host testbed_act" where
  "get_host k = (\<lambda>(d, w). (dict_get (td_hosts d) k, (d, w)))"

definition add_trial_parameter :: "string \<Rightarrow> param_value \<Rightarrow> unit testbed_act" where
  "add_trial_parameter k v = (\<lambda>(d, w). case add_parameter (td_trial d) k v of
       Inl e \<Rightarrow> (Inl e, (d, w)) | Inr t \<Rightarrow> (Inr (), (d\<lparr>td_trial := t\<rparr>, w)))"

text \<open>Lists and dictionaries cannot be elements of a set.\<close>

definition hashable :: "json \<Rightarrow> bool" where
  "hashable j = (case j of JList _ \<Rightarrow> False | JObj _ \<Rightarrow> False | _ \<Rightarrow> True)"

definition add_flow_token :: "json \<Rightarrow> unit testbed_act" where
  "add_flow_token tok = (if hashable tok then modify_fst (\<lambda>d. d\<lparr>td_tokens := set_add (td_tokens d) tok\<rparr>) else raise TypeError)"

definition add_trial_flow ::
    "server \<Rightarrow> (int, string) dict \<Rightarrow> (int \<times> int, int) dict \<Rightarrow> alloc_flow \<Rightarrow> (int \<times> int, int) dict testbed_act" where
  "add_trial_flow srv id_to_dpid tag_values flow =
     andthen (of_res (simple_paths_to_flow_json (fl_paths flow) tag_values id_to_dpid)) (\<lambda>(flow_json, tag_values_for_flow, tag_values').
     andthen (on_snd (on_snd (install_flow srv flow_json))) (\<lambda>flow_token.
     andthen (add_flow_token flow_token) (\<lambda>_.
     andthen (get_host (fl_source flow + 1)) (\<lambda>_.
     andthen (get_host (fl_destination flow + 1)) (\<lambda>destination_host.
     andthen (upd_host (\<lambda>h. ret (configure_flow h (scale_flow_tx_rate (fl_tx_rate flow)) 0 ''uniform''
       (vh_virtual_host_ip destination_host) 50000 (fl_splitting_ratio flow) 10 tag_values_for_flow 1066)) (fl_source flow + 1)) (\<lambda>_.
     ret tag_values'))))))"

definition flows_of :: "param_value \<Rightarrow> alloc_flow list res" where
  "flows_of v = (case v of PFlowSet fset \<Rightarrow> Inr (fs_flows fset) | _ \<Rightarrow> Inl TypeError)"

definition sleep_arg :: "param_value \<Rightarrow> unit res" where
  "sleep_arg v = (case v of PInt n \<Rightarrow> (if n < 0 then Inl ValueError else Inr ()) | _ \<Rightarrow> Inl TypeError)"

definition complete_graph :: "nat \<Rightarrow> int topo_graph" where
  "complete_graph n = \<lparr>tg_nodes = [0..int n - 1], tg_edges = concat (map (\<lambda>i. map (Pair i) [i + 1..int n - 1]) [0..int n - 1])\<rparr>"

definition record_utilization :: "json list \<Rightarrow> unit testbed_act" where
  "record_utilization utilization_results =
     andthen (add_trial_parameter ''byte-counts-over-time'' (PJson (JList utilization_results))) (\<lambda>_.
     andthen (of_res (ph_rates_over_time utilization_results)) (\<lambda>rates.
     andthen (add_trial_parameter ''link-utilization-over-time'' (PLinkRatesOverTime rates)) (\<lambda>_.
     andthen (of_res (ph_mean_rates utilization_results)) (\<lambda>means.
     add_trial_parameter ''measured-link-utilization'' (PLinkRates means)))))"

definition trial_body :: "os_env \<Rightarrow> server \<Rightarrow> matcher \<Rightarrow> param_value \<Rightarrow> unit testbed_act" where
  "trial_body os srv gm flows =
     andthen (on_snd (on_snd (get_and_validate_onos_topo_x srv gm (complete_graph 10)))) (\<lambda>id_to_dpid.
     andthen (on_snd (create_virtual_hosts os srv id_to_dpid)) (\<lambda>hosts.
     andthen (modify_fst (\<lambda>d. d\<lparr>td_hosts := hosts\<rparr>)) (\<lambda>_.
     andthen (for_hosts (start_traffic_generation_server os)) (\<lambda>_.
     andthen (of_res (flows_of flows)) (\<lambda>fs.
     andthen (fold_prog (add_trial_flow srv id_to_dpid) [] fs) (\<lambda>_.
     andthen (on_snd (on_snd (monitor_start srv new_on_monitor))) (\<lambda>traffic_monitor.
     andthen (for_hosts (start_traffic_generation_client os)) (\<lambda>_.
     andthen (\<lambda>(d, w). (rbind (get_parameter (td_trial d) ''duration'') sleep_arg, (d, w))) (\<lambda>_.
     andthen (on_snd (on_snd (monitor_stop srv traffic_monitor))) (\<lambda>traffic_monitor'.
     andthen (of_res (get_monitor_statistics traffic_monitor')) record_utilization))))))))))"

definition trial_cleanup :: "os_env \<Rightarrow> server \<Rightarrow> unit testbed_act" where
  "trial_cleanup os srv = (\<lambda>(d, w). on_snd (andthen (destroy_all_hosts os srv (td_hosts d)) (\<lambda>_. remove_all_flows srv (td_tokens d))) (d, w))"

definition conduct_path_hopping_trial :: "os_env \<Rightarrow> server \<Rightarrow> matcher \<Rightarrow> (trial \<times> world, unit) prog" where
  "conduct_path_hopping_trial os srv gm = (\<lambda>(t, w).
     case rbind (get_parameter t ''seed-number'') (\<lambda>_. get_parameter t ''flow-set'') of
       Inl e \<Rightarrow> (Inl e, (t, w))
     | Inr flows \<Rightarrow>
         (case try_finally (try_except (trial_body os srv gm flows) (\<lambda>_. ret ())) (trial_cleanup os srv)
             (\<lparr>td_hosts = [], td_tokens = [], td_trial = t\<rparr>, w) of
            (r, (d, w')) \<Rightarrow> (r, (td_trial d, w'))))"

subsection \<open>What a run holds\<close>

definition hosts_resources :: "traffic_hosts \<Rightarrow> resource set" where
  "hosts_resources hosts = (\<Union>h \<in> set (dict_values hosts). traffic_resources h)"

definition hosts_ok :: "traffic_hosts \<Rightarrow> bool" where
  "hosts_ok hosts \<longleftrightarrow> dict_wf hosts \<and> (\<forall>h \<in> set (dict_values hosts). traffic_host_ok h)"

definition all_hosts :: "(traffic_host \<Rightarrow> bool) \<Rightarrow> traffic_hosts \<Rightarrow> bool" where
  "all_hosts P hosts \<longleftrightarrow> (\<forall>h \<in> set (dict_values hosts). P h)"

lemma dict_values_iff: "dict_wf d \<Longrightarrow> v \<in> set (dict_values d) \<longleftrightarrow> (\<exists>k. map_of d k = Some v)"
  using dict_wf_map_of_in [of d] by (force simp: image_iff)

lemma values_dict_set: "set (dict_values (dict_set d k v)) \<subseteq> insert v (set (dict_values d))"
  using set_dict_set_subset [of d k v] by (auto simp: image_iff)

lemma hosts_resources_iff: "dict_wf hosts \<Longrightarrow> x \<in> hosts_resources hosts \<longleftrightarrow> (\<exists>k h. map_of hosts k = Some h \<and> x \<in> traffic_resources h)"
  unfolding hosts_resources_def UN_iff Bex_def by (subst dict_values_iff) auto

lemma hosts_resources_upd:
  assumes "dict_wf hosts" and "map_of hosts k = None \<or> (\<exists>h. map_of hosts k = Some h \<and> traffic_resources h \<subseteq> traffic_resources h')"
  shows "hosts_resources hosts \<union> traffic_resources h' \<subseteq> hosts_resources (dict_set hosts k h')"
proof
  fix x assume "x \<in> hosts_resources hosts \<union> traffic_resources h'"
  then consider (old) k2 h where "map_of hosts k2 = Some h" "x \<in> traffic_resources h" | (new) "x \<in> traffic_resources h'"
    using hosts_resources_iff [OF assms(1)] by blast
  then have "\<exists>k2 h. map_of (dict_set hosts k h') k2 = Some h \<and> x \<in> traffic_resources h"
  proof cases
    case (old k2 h)
    show ?thesis
    proof (cases "k2 = k")
      case True
      then show ?thesis using old assms(2) by (intro exI [of _ k] exI [of _ h']) auto
    qed (use old in auto)
  qed auto
  then show "x \<in> hosts_resources (dict_set hosts k h')" using assms(1) by (simp add: hosts_resources_iff)
qed

lemma destroy_all_releases:
  assumes "cleanup_works os srv" and "hosts_ok hosts" and "destroy_all_hosts os srv hosts w = (r, w')"
  shows "r = Inr ()" and "released srv (hosts_resources hosts) w w'"
proof -
  have "r = Inr () \<and> released srv (\<Union>h \<in> set hs. traffic_resources h) w w'"
    if "\<forall>h \<in> set hs. traffic_host_ok h" "each (\<lambda>host. try_except (destroy_traffic_host os srv host) (\<lambda>_. ret ())) hs w = (r, w')" for hs
    using that
  proof (induction hs arbitrary: w)
    case (Cons h hs)
    obtain r1 w1 where one: "destroy_traffic_host os srv h w = (r1, w1)" by (metis surj_pair)
    have ok: "traffic_host_ok h" using Cons.prems by simp
    note d = destroy_traffic_host_releases [OF assms(1) ok one]
    have "each (\<lambda>host. try_except (destroy_traffic_host os srv host) (\<lambda>_. ret ())) hs w1 = (r, w')"
      using Cons.prems(2) one d(1) by (simp add: andthen_def try_except_def)
    with Cons show ?case using released_trans [OF d(2)] by simp
  qed simp
  then show "r = Inr ()" "released srv (hosts_resources hosts) w w'"
    using assms(2,3) unfolding destroy_all_hosts_def hosts_ok_def hosts_resources_def by blast+
qed

lemma remove_flows_releases:
  assumes "routes_removable srv" and "\<forall>t \<in> set toks. is_ok (token_text t)" and "remove_all_flows srv toks w = (r, w')"
  shows "r = Inr ()" and "released srv (Route ` set toks) w w'"
proof -
  have "r = Inr () \<and> released srv (Route ` set toks) w w'" using assms(2,3) unfolding remove_all_flows_def
  proof (induction toks arbitrary: w)
    case (Cons t toks)
    obtain r1 w1 where one: "uninstall_token srv t w = (r1, w1)" by (metis surj_pair)
    have ok: "is_ok (token_text t)" using Cons.prems by simp
    note d = uninstall_route [OF assms(1) ok one]
    have "each (\<lambda>tok. try_except (uninstall_token srv tok) (\<lambda>_. ret ())) toks w1 = (r, w')"
      using Cons.prems(2) one d(1) by (simp add: andthen_def try_except_def)
    with Cons show ?case using released_trans [OF d(2)] by simp
  qed simp
  then show "r = Inr ()" "released srv (Route ` set toks) w w'" by blast+
qed

text \<open>Whatever is held more than at the start belongs to a host or is the route of a token.\<close>

definition accounted :: "server \<Rightarrow> world \<Rightarrow> testbed \<times> world \<Rightarrow> bool" where
  "accounted srv w0 = (\<lambda>(d, w). gained srv (hosts_resources (td_hosts d) \<union> Route ` set (td_tokens d)) w0 w
     \<and> hosts_ok (td_hosts d) \<and> (\<forall>t \<in> set (td_tokens d). is_ok (token_text t)))"

lemma accounted_quiet: "accounted srv w0 (d, w) \<Longrightarrow> gained srv {} w w' \<Longrightarrow> accounted srv w0 (d, w')"
  unfolding accounted_def by (simp add: gained_nothing_trans [of srv _ w0 w w'])

lemma create_one_accounted:
  assumes "reads_back os srv" and "cleanup_works os srv"
    and "hosts_ok hosts" and "k \<notin> set (dict_keys hosts)" and "gained srv (hosts_resources hosts) w0 w"
    and "create_one_host os srv ids k (hosts, w) = (r, (hosts', w'))"
  shows "gained srv (hosts_resources hosts') w0 w'" and "hosts_ok hosts'"
    and "set (dict_keys hosts') \<subseteq> insert k (set (dict_keys hosts))"
    and "all_hosts P hosts \<Longrightarrow> (\<And>h. server_process h = None \<Longrightarrow> client_process h = None \<Longrightarrow> P h) \<Longrightarrow> all_hosts P hosts'"
proof -
  let ?init = "\<lambda>dev. initialize_virtual_host_persistent_state os srv (''00:02:00:00:00:'' @ two_digits k)
      (''10.10.0.'' @ show_int k) (''192.168.1.'' @ show_int k) dev w"
  have cases: "(hosts' = hosts \<and> (w' = w \<or> (\<exists>dev e. ?init dev = (Inl e, w')))) \<or>
    (\<exists>dev mac tok h. ?init dev = (Inr (mac, tok), w') \<and> hosts' = dict_set hosts k h
       \<and> vh_actual_host_ip h = ''192.168.1.'' @ show_int k \<and> vh_token h = tok \<and> server_process h = None \<and> client_process h = None)"
    using assms(6) unfolding create_one_host_def create_traffic_host_def
    by (auto simp: andthen_def on_snd_def of_res_def ret_def split: sum.splits prod.splits) (force split: prod.splits)+
  have none: "map_of hosts k = None" using assms(4) by (simp add: map_of_eq_None_iff)
  have wf: "dict_wf hosts" using assms(3) by (simp add: hosts_ok_def)
  have *: "gained srv (hosts_resources hosts') w0 w' \<and> hosts_ok hosts' \<and> set (dict_keys hosts') \<subseteq> insert k (set (dict_keys hosts))
    \<and> (all_hosts P hosts \<longrightarrow> (\<forall>h. server_process h = None \<longrightarrow> client_process h = None \<longrightarrow> P h) \<longrightarrow> all_hosts P hosts')"
    using cases
  proof (elim disjE conjE exE)
    fix dev e assume "hosts' = hosts" "?init dev = (Inl e, w')"
    moreover from persistent_state(2) [OF assms(1,2) this(2) refl] have "gained srv {} w w'" .
    ultimately show ?thesis using assms(3,5) gained_nothing_trans by auto
  next
    fix dev mac tok h
    assume h: "?init dev = (Inr (mac, tok), w')" "hosts' = dict_set hosts k h" "vh_actual_host_ip h = ''192.168.1.'' @ show_int k"
      "vh_token h = tok" "server_process h = None" "client_process h = None"
    note new = persistent_state(1) [OF assms(1,2) h(1) refl]
    have res: "traffic_resources h = {Address (''192.168.1.'' @ show_int k), VHost tok}" using h(3-) by (simp add: traffic_resources_def)
    have "gained srv (hosts_resources hosts \<union> traffic_resources h) w0 w'"
      using gained_trans [OF assms(5) conjunct1 [OF new]] unfolding res .
    moreover have "hosts_ok hosts'" using assms(3) new h values_dict_set [of hosts k h]
      by (auto simp: hosts_ok_def traffic_host_ok_def simp del: set_map)
    ultimately show ?thesis using h hosts_resources_upd [OF wf, of k h] none gained_mono values_dict_set [of hosts k h]
      by (auto simp: all_hosts_def simp del: set_map)
  qed (use assms in auto)
  then show "gained srv (hosts_resources hosts') w0 w'" "hosts_ok hosts'" "set (dict_keys hosts') \<subseteq> insert k (set (dict_keys hosts))" by auto
  show "all_hosts P hosts'" if "all_hosts P hosts" "\<And>h. server_process h = None \<Longrightarrow> client_process h = None \<Longrightarrow> P h"
    using * that by blast
qed

definition idle :: "traffic_host \<Rightarrow> bool" where
  "idle h \<longleftrightarrow> server_process h = None \<and> client_process h = None"

lemma create_loop:
  assumes "reads_back os srv" and "cleanup_works os srv"
  shows "triple (\<lambda>(hosts, w). gained srv (hosts_resources hosts) w0 w \<and> hosts_ok hosts \<and> all_hosts idle hosts
       \<and> distinct ks \<and> set ks \<inter> set (dict_keys hosts) = {})
     (each (create_one_host os srv ids) ks)
     (\<lambda>_ (hosts, w). gained srv (hosts_resources hosts) w0 w \<and> hosts_ok hosts \<and> all_hosts idle hosts)
     (\<lambda>(hosts, w). gained srv (hosts_resources hosts) w0 w \<and> hosts_ok hosts)"
proof -
  define J where "J ks = (\<lambda>(hosts, w). gained srv (hosts_resources hosts) w0 w \<and> hosts_ok hosts \<and> all_hosts idle hosts
       \<and> distinct ks \<and> set ks \<inter> set (dict_keys hosts) = {})" for ks :: "int list"
  let ?E = "\<lambda>(hosts, w). gained srv (hosts_resources hosts) w0 w \<and> hosts_ok hosts"
  have step: "triple (J (k # ks)) (create_one_host os srv ids k) (\<lambda>_. J ks) ?E" for k ks
  proof (rule tripleI)
    fix s u s' assume J: "J (k # ks) s" and run: "create_one_host os srv ids k s = (Inr u, s')"
    obtain hosts w hosts' w' where s: "s = (hosts, w)" "s' = (hosts', w')" by (cases s, cases s')
    note c = create_one_accounted(1-3) [OF assms, of hosts k w0 w ids "Inr u" hosts' w']
      create_one_accounted(4) [OF assms, of hosts k w0 w ids "Inr u" hosts' w' idle]
    show "J ks s'" using J run c unfolding s J_def by (auto simp: idle_def)
  next
    fix s e s' assume J: "J (k # ks) s" and run: "create_one_host os srv ids k s = (Inl e, s')"
    obtain hosts w hosts' w' where s: "s = (hosts, w)" "s' = (hosts', w')" by (cases s, cases s')
    show "?E s'" using J run create_one_accounted(1,2) [OF assms, of hosts k w0 w ids "Inl e" hosts' w'] unfolding s J_def by auto
  qed
  show ?thesis using triple_each [where J = J and E = ?E, OF step] by (rule triple_cons) (auto simp: J_def)
qed

lemma create_hosts:
  assumes "reads_back os srv" and "cleanup_works os srv" and "create_virtual_hosts os srv ids w = (r, w')"
  shows "r = Inr hosts \<Longrightarrow> gained srv (hosts_resources hosts) w w' \<and> hosts_ok hosts \<and> all_hosts idle hosts"
    and "r = Inl e \<Longrightarrow> gained srv {} w w'"
proof -
  let ?run = "each (create_one_host os srv ids) [1..10] ([], w)"
  have start: "gained srv (hosts_resources []) w w \<and> hosts_ok [] \<and> all_hosts idle []"
    by (simp add: hosts_ok_def all_hosts_def)
  note loop = tripleD [OF create_loop [OF assms(1,2), of w "[1..10]" ids], of "([], w)"]
  show "gained srv (hosts_resources hosts) w w' \<and> hosts_ok hosts \<and> all_hosts idle hosts" if "r = Inr hosts"
  proof -
    have "\<exists>u. ?run = (Inr u, (hosts, w'))" using assms(3) that unfolding create_virtual_hosts_def
      by (auto simp: andthen_def raise_def of_res_def split: prod.splits sum.splits)
    then show ?thesis using loop(1) start by auto
  qed
  show "gained srv {} w w'" if err: "r = Inl e"
  proof -
    obtain ex hs w1 r2 where run: "?run = (Inl ex, (hs, w1))" and d: "destroy_all_hosts os srv hs w1 = (r2, w')"
      using assms(3) err unfolding create_virtual_hosts_def
      by (auto simp: andthen_def raise_def of_res_def split: prod.splits sum.splits)
    have "gained srv ({} \<union> hosts_resources hs) w w1" "hosts_ok hs" using loop(2) [OF _ run] start by auto
    then show ?thesis using gained_released destroy_all_releases(2) [OF assms(2) _ d] by blast
  qed
qed

text \<open>An operation on a host gains only what the changed host then owns, and the host gives up nothing.\<close>

definition careful :: "server \<Rightarrow> (traffic_host \<Rightarrow> traffic_host act) \<Rightarrow> traffic_host \<Rightarrow> bool" where
  "careful srv f h \<longleftrightarrow> (\<forall>w r w'. f h w = (r, w') \<longrightarrow> (\<forall>e. r = Inl e \<longrightarrow> gained srv {} w w') \<and>
     (\<forall>h'. r = Inr h' \<longrightarrow> gained srv (traffic_resources h') w w' \<and> traffic_resources h \<subseteq> traffic_resources h' \<and> traffic_host_ok h'))"

lemma careful_start:
  assumes "f h = andthen (os_start os args) (\<lambda>p. ret (upd p))"
    and "\<And>p. traffic_host_ok (upd p) \<and> insert (Process p) (traffic_resources h) \<subseteq> traffic_resources (upd p)"
  shows "careful srv f h"
  unfolding careful_def
proof (intro allI impI conjI)
  fix w r w' assume run: "f h w = (r, w')"
  obtain r1 w1 where one: "os_start os args w = (r1, w1)" by (metis surj_pair)
  show "gained srv {} w w'" if "r = Inl e" for e
    using run that one start_process(2) [OF one] by (auto simp: assms(1) andthen_def split: sum.splits)
  fix h' assume h': "r = Inr h'"
  obtain p where p: "r1 = Inr p" "h' = upd p" "w' = w1" using run h' one by (auto simp: assms(1) andthen_def split: sum.splits)
  show "gained srv (traffic_resources h') w w'" using start_process(1) [OF one p(1), of srv] gained_mono assms(2) [of p] unfolding p by blast
  show "traffic_resources h \<subseteq> traffic_resources h'" "traffic_host_ok h'" using assms(2) [of p] unfolding p by auto
qed

lemma careful_server: "traffic_host_ok h \<Longrightarrow> server_process h = None \<Longrightarrow> careful srv (start_traffic_generation_server os) h"
  by (rule careful_start [OF start_traffic_generation_server_def]) (auto simp: traffic_resources_def traffic_host_ok_def)

lemma careful_idle: "f h = ret h' \<Longrightarrow> traffic_resources h' = traffic_resources h \<Longrightarrow> traffic_host_ok h' \<Longrightarrow> careful srv f h"
  by (simp add: careful_def)

lemma careful_client:
  assumes "traffic_host_ok h" and "client_process h = None"
  shows "careful srv (start_traffic_generation_client os) h"
proof (cases "configured_flows h = []")
  case True
  then show ?thesis using assms(1) by (intro careful_idle) (auto simp: start_traffic_generation_client_def)
next
  case False
  then have "start_traffic_generation_client os h =
      andthen (os_start os [ArgStr (traffic_bin_dir @ ''/traffic_gen.py''), ArgJson (JList (configured_flows h))])
        (\<lambda>p. ret (h\<lparr>client_process := Some p\<rparr>))"
    by (simp add: start_traffic_generation_client_def)
  then show ?thesis by (rule careful_start) (use False assms in \<open>auto simp: traffic_resources_def traffic_host_ok_def\<close>)
qed

lemma careful_configure: "traffic_host_ok h \<Longrightarrow> careful srv (\<lambda>h. ret (configure_flow h a b c ip p k ts tags n)) h"
  by (rule careful_idle, rule refl) (simp_all add: configure_flow_def traffic_resources_def traffic_host_ok_def)

lemma upd_host_run:
  assumes "upd_host f k (d, w) = (r, (d', w'))"
  shows "(d' = d \<and> w' = w \<and> (\<exists>e. r = Inl e)) \<or>
    (\<exists>h e. map_of (td_hosts d) k = Some h \<and> f h w = (Inl e, w') \<and> d' = d \<and> r = Inl e) \<or>
    (\<exists>h h'. map_of (td_hosts d) k = Some h \<and> f h w = (Inr h', w') \<and> d' = d\<lparr>td_hosts := dict_set (td_hosts d) k h'\<rparr> \<and> r = Inr ())"
  using assms by (auto simp: upd_host_def dict_get_Inr_iff split: sum.splits prod.splits)

lemma upd_host_accounted:
  assumes "accounted srv w0 (d, w)" and "\<And>h. map_of (td_hosts d) k = Some h \<Longrightarrow> careful srv f h"
    and "upd_host f k (d, w) = (r, (d', w'))"
  shows "accounted srv w0 (d', w')"
  using upd_host_run [OF assms(3)]
proof (elim disjE conjE exE)
  fix h e assume h: "map_of (td_hosts d) k = Some h" "f h w = (Inl e, w')" "d' = d"
  have "gained srv {} w w'" using assms(2) [OF h(1), unfolded careful_def, rule_format, OF h(2)] by simp
  from gained_nothing_trans [OF _ this] show ?thesis using h(3) assms(1) by (simp add: accounted_def)
next
  fix h h' assume h: "map_of (td_hosts d) k = Some h" "f h w = (Inr h', w')" "d' = d\<lparr>td_hosts := dict_set (td_hosts d) k h'\<rparr>"
  let ?hosts = "dict_set (td_hosts d) k h'"
  have wf: "dict_wf (td_hosts d)" using assms(1) by (simp add: accounted_def hosts_ok_def)
  have c: "gained srv (traffic_resources h') w w'" "traffic_resources h \<subseteq> traffic_resources h'" "traffic_host_ok h'"
    using assms(2) [OF h(1), unfolded careful_def, rule_format, OF h(2)] by auto
  have "gained srv (hosts_resources (td_hosts d) \<union> Route ` set (td_tokens d) \<union> traffic_resources h') w0 w'"
    using assms(1) gained_trans [OF _ c(1)] by (simp add: accounted_def)
  then have "gained srv (hosts_resources ?hosts \<union> Route ` set (td_tokens d)) w0 w'"
    using hosts_resources_upd [OF wf, of k h'] h(1) c(2) by (elim gained_mono) auto
  moreover have "hosts_ok ?hosts" using assms(1) c(3) values_dict_set [of "td_hosts d" k h']
    by (auto simp: accounted_def hosts_ok_def simp del: set_map)
  ultimately show ?thesis using h(3) assms(1) by (simp add: accounted_def)
qed (use assms(1) in simp)

subsection \<open>The body of a trial keeps its account\<close>

lemma all_hosts_iff: "dict_wf hosts \<Longrightarrow> all_hosts P hosts \<longleftrightarrow> (\<forall>k h. map_of hosts k = Some h \<longrightarrow> P h)"
  unfolding all_hosts_def Ball_def by (subst dict_values_iff) auto

lemma accounted_wf: "accounted srv w0 (d, w) \<Longrightarrow> dict_wf (td_hosts d) \<and> all_hosts traffic_host_ok (td_hosts d)"
  by (simp add: accounted_def hosts_ok_def all_hosts_def)

abbreviation running :: "server \<Rightarrow> world \<Rightarrow> (traffic_host \<Rightarrow> bool) \<Rightarrow> testbed \<times> world \<Rightarrow> bool" where
  "running srv w0 Q \<equiv> \<lambda>s. accounted srv w0 s \<and> all_hosts Q (td_hosts (fst s))"

lemma running_upd:
  assumes "running srv w0 Q s" and "\<And>h. map_of (td_hosts (fst s)) k = Some h \<Longrightarrow> careful srv f h"
    and "\<And>h w h' w'. f h w = (Inr h', w') \<Longrightarrow> Q h \<Longrightarrow> Q h'" and "upd_host f k s = (r, s')"
  shows "accounted srv w0 s'" and "r = Inr u \<Longrightarrow> running srv w0 Q s'"
    and "k' \<noteq> k \<Longrightarrow> map_of (td_hosts (fst s')) k' = map_of (td_hosts (fst s)) k'"
proof -
  obtain d w d' w' where s: "s = (d, w)" "s' = (d', w')" by (cases s, cases s')
  show acc: "accounted srv w0 s'" using upd_host_accounted [of srv w0 d w k f r d' w'] assms unfolding s by auto
  note run = upd_host_run [OF assms(4) [unfolded s]]
  show "map_of (td_hosts (fst s')) k' = map_of (td_hosts (fst s)) k'" if "k' \<noteq> k"
    using run that by (auto simp: s)
  have wf: "dict_wf (td_hosts d)" "dict_wf (td_hosts d')" using accounted_wf assms(1) acc unfolding s by blast+
  show "running srv w0 Q s'" if ok: "r = Inr u"
  proof -
    obtain h h' where h: "map_of (td_hosts d) k = Some h" "f h w = (Inr h', w')" "td_hosts d' = dict_set (td_hosts d) k h'"
      using run ok by auto
    have all: "\<forall>k h. map_of (td_hosts d) k = Some h \<longrightarrow> Q h" using assms(1) all_hosts_iff [OF wf(1)] by (simp add: s)
    then have "Q h'" using h assms(3) by blast
    then have "\<forall>k h. map_of (td_hosts d') k = Some h \<longrightarrow> Q h" using all h(3) by simp
    then show ?thesis using acc all_hosts_iff [OF wf(2)] by (simp add: s)
  qed
qed

lemma for_hosts_accounted:
  assumes "\<And>h. traffic_host_ok h \<Longrightarrow> P h \<Longrightarrow> careful srv f h" and "\<And>h w h' w'. f h w = (Inr h', w') \<Longrightarrow> Q h \<Longrightarrow> Q h'"
  shows "triple (\<lambda>s. running srv w0 Q s \<and> all_hosts P (td_hosts (fst s))) (for_hosts f) (\<lambda>_. running srv w0 Q) (accounted srv w0)"
proof -
  define J where "J ks = (\<lambda>s. running srv w0 Q s \<and> distinct ks \<and> (\<forall>k \<in> set ks. \<forall>h. map_of (td_hosts (fst s)) k = Some h \<longrightarrow> P h))" for ks
  have careful: "careful srv f h" if J: "J (k # ks) s" and h: "map_of (td_hosts (fst s)) k = Some h" for k ks s h
  proof (rule assms(1))
    obtain d w where s: "s = (d, w)" by (cases s)
    have "accounted srv w0 (d, w)" using J by (simp add: J_def s)
    from accounted_wf [OF this] have "\<forall>k h. map_of (td_hosts d) k = Some h \<longrightarrow> traffic_host_ok h" using all_hosts_iff by blast
    then show "traffic_host_ok h" using h by (simp add: s)
    show "P h" using J h by (simp add: J_def)
  qed
  have step: "triple (J (k # ks)) (upd_host f k) (\<lambda>_. J ks) (accounted srv w0)" for k ks
  proof (rule tripleI)
    fix s u s' assume J: "J (k # ks) s" and run: "upd_host f k s = (Inr u, s')"
    have r: "running srv w0 Q s" using J by (simp add: J_def)
    have "running srv w0 Q s'" by (rule running_upd(2) [OF r _ _ run refl]) (use careful [OF J] assms(2) in blast)+
    moreover have "map_of (td_hosts (fst s')) k' = map_of (td_hosts (fst s)) k'" if "k' \<noteq> k" for k'
      by (rule running_upd(3) [OF r _ _ run that]) (use careful [OF J] assms(2) in blast)+
    ultimately show "J ks s'" using J unfolding J_def by (metis distinct.simps(2) list.set_intros(2))
  next
    fix s e s' assume J: "J (k # ks) s" and run: "upd_host f k s = (Inl e, s')"
    have r: "running srv w0 Q s" using J by (simp add: J_def)
    show "accounted srv w0 s'" by (rule running_upd(1) [OF r _ _ run]) (use careful [OF J] assms(2) in blast)+
  qed
  have loop: "triple (J ks) (each (upd_host f) ks) (\<lambda>_. J []) (accounted srv w0)" for ks
    by (rule triple_each) (rule step)
  show ?thesis
  proof (rule tripleI)
    fix s u s' assume pre: "running srv w0 Q s \<and> all_hosts P (td_hosts (fst s))" and run: "for_hosts f s = (Inr u, s')"
    obtain d w where s: "s = (d, w)" by (cases s)
    have "J (dict_keys (td_hosts d)) (d, w)" using pre accounted_wf [of srv w0 d w] all_hosts_iff [of "td_hosts d" P]
      unfolding s J_def by (simp add: dict_wf_def)
    from tripleD(1) [OF loop this, of u s'] show "running srv w0 Q s'" using run unfolding s for_hosts_def by (simp add: J_def)
  next
    fix s e s' assume pre: "running srv w0 Q s \<and> all_hosts P (td_hosts (fst s))" and run: "for_hosts f s = (Inl e, s')"
    obtain d w where s: "s = (d, w)" by (cases s)
    have "J (dict_keys (td_hosts d)) (d, w)" using pre accounted_wf [of srv w0 d w] all_hosts_iff [of "td_hosts d" P]
      unfolding s J_def by (simp add: dict_wf_def)
    from tripleD(2) [OF loop this, of e s'] show "accounted srv w0 s'" using run unfolding s for_hosts_def by simp
  qed
qed

text \<open>Steps that change neither the hosts nor the tokens and gain nothing.\<close>

lemma quiet_step:
  assumes "\<And>w r w'. m w = (r, w') \<Longrightarrow> gained srv {} w w'"
  shows "triple (running srv w0 Q) (on_snd m) (\<lambda>_. running srv w0 Q) (accounted srv w0)"
proof -
  have step: "running srv w0 Q s'" if "running srv w0 Q s" "on_snd m s = (r, s')" for s r s'
  proof -
    have "m (snd s) = (r, snd s')" and same: "fst s' = fst s" using on_snd_outcome [OF that(2)] by blast+
    from assms [OF this(1)] have "accounted srv w0 (fst s, snd s')" using accounted_quiet [of srv w0 "fst s" "snd s"] that(1) by simp
    then show ?thesis using that(1) same by (metis prod.collapse)
  qed
  show ?thesis by (rule tripleI) (use step in blast)+
qed

lemma one_request:
  assumes "on_snd m (evs, sent) = (r, w')" and "\<And>sent. snd (m sent) = sent \<or> snd (m sent) = sent @ [rq]" and "\<And>x reply. \<not> rq_acquires x (rq, reply)"
  shows "gained srv {} (evs, sent) w'"
  using assms(1) assms(2) [of sent] gained_request [of rq srv sent "{}" evs] assms(3) by (auto simp: on_snd_run)

lemma monitor_quiet:
  "on_snd (monitor_start srv m) w = (r, w') \<Longrightarrow> gained srv {} w w'" "on_snd (monitor_stop srv m) w = (r, w') \<Longrightarrow> gained srv {} w w'"
proof -
  obtain evs sent where w: "w = (evs, sent)" by (cases w)
  have start: "snd (monitor_start srv m t) = t \<or> snd (monitor_start srv m t) = t @ [\<lparr>rq_method = POST, rq_url = on_mon_url ''start-monitor'', rq_body = None\<rparr>]" for t
    by (auto simp: monitor_start_def raise_def andthen_def send_def split: http_reply.splits)
  have stop: "snd (monitor_stop srv m t) = t \<or> snd (monitor_stop srv m t) =
      t @ [\<lparr>rq_method = POST, rq_url = on_mon_url ''stop-monitor?monitor-token='' @ the (om_token m), rq_body = None\<rparr>]" for t
    by (auto simp: monitor_stop_def raise_def andthen_def send_def split: http_reply.splits option.splits)
  have other: "\<not> rq_acquires x (\<lparr>rq_method = POST, rq_url = on_mon_url p, rq_body = None\<rparr>, reply)" for x p reply
    by (cases x) (auto simp: on_mon_url_def vhost_onos_url_def onos_url_def)
  have other2: "\<not> rq_acquires x (\<lparr>rq_method = POST, rq_url = on_mon_url ''stop-monitor?monitor-token='' @ q, rq_body = None\<rparr>, reply)" for x q reply
    by (cases x) (auto simp: on_mon_url_def vhost_onos_url_def onos_url_def)
  show "gained srv {} w w'" if "on_snd (monitor_start srv m) w = (r, w')"
    using one_request [OF that [unfolded w] start other] by (simp add: w)
  show "gained srv {} w w'" if "on_snd (monitor_stop srv m) w = (r, w')"
    using one_request [OF that [unfolded w] stop other2] by (simp add: w)
qed

lemma token_hashable: "is_ok (token_text tok) \<Longrightarrow> hashable tok"
  by (cases tok) (simp_all add: is_ok_def hashable_def)

lemma install_and_record:
  assumes "reads_back os srv"
  shows "triple (running srv w0 Q) (andthen (on_snd (on_snd (install_flow srv j))) add_flow_token) (\<lambda>_. running srv w0 Q) (accounted srv w0)"
proof -
  have steps: "(case r of Inl e \<Rightarrow> accounted srv w0 s' | Inr u \<Rightarrow> running srv w0 Q s')"
    if start: "running srv w0 Q s" and run: "andthen (on_snd (on_snd (install_flow srv j))) add_flow_token s = (r, s')" for s r s'
  proof -
    obtain d w where s: "s = (d, w)" by (cases s)
    obtain r1 w1 where one: "on_snd (install_flow srv j) w = (r1, w1)" by (metis surj_pair)
    show ?thesis
    proof (cases r1)
      case (Inl e)
      then have "s' = (d, w1) \<and> r = Inl e" using run one by (simp add: s andthen_def on_snd_run)
      moreover have "gained srv {} w w1" using install_route(2) [OF routes_of_resources(2) [OF assms] one Inl] .
      ultimately show ?thesis using start accounted_quiet [of srv w0 d w w1] by (simp add: s)
    next
      case (Inr tok)
      note new = install_route(1) [OF routes_of_resources(2) [OF assms] one Inr]
      have "s' = (d\<lparr>td_tokens := set_add (td_tokens d) tok\<rparr>, w1) \<and> r = Inr ()"
        using run one Inr token_hashable new by (simp add: s andthen_def on_snd_run add_flow_token_def)
      then show ?thesis using start gained_trans [OF _ conjunct1 [OF new]] new by (auto simp: s accounted_def)
    qed
  qed
  show ?thesis by (rule tripleI) (use steps in force)+
qed

abbreviation clientless :: "traffic_host \<Rightarrow> bool" where
  "clientless h \<equiv> client_process h = None"

lemma get_host_step: "triple (running srv w0 Q) (get_host k) (\<lambda>_. running srv w0 Q) (accounted srv w0)"
  by (rule tripleI) (auto simp: get_host_def)

lemma configure_step:
  "triple (running srv w0 clientless) (upd_host (\<lambda>h. ret (configure_flow h a b c ip p ks ts tags n)) k) (\<lambda>_. running srv w0 clientless) (accounted srv w0)"
proof -
  let ?f = "\<lambda>h. ret (configure_flow h a b c ip p ks ts tags n)"
  have careful: "careful srv ?f h" if "running srv w0 clientless s" "map_of (td_hosts (fst s)) k = Some h" for s h
  proof -
    have "accounted srv w0 (fst s, snd s)" using that(1) by simp
    from accounted_wf [OF this] have "traffic_host_ok h" using that(2) all_hosts_iff by blast
    then show ?thesis by (rule careful_configure)
  qed
  have keeps: "?f h w = (Inr h', w') \<Longrightarrow> clientless h \<Longrightarrow> clientless h'" for h w h' w' by (auto simp: configure_flow_def)
  show ?thesis
  proof (rule tripleI)
    fix s u s' assume r: "running srv w0 clientless s" and run: "upd_host ?f k s = (Inr u, s')"
    show "running srv w0 clientless s'" by (rule running_upd(2) [OF r _ _ run refl]) (use careful [OF r] in blast, erule (1) keeps)
  next
    fix s e s' assume r: "running srv w0 clientless s" and run: "upd_host ?f k s = (Inl e, s')"
    show "accounted srv w0 s'" by (rule running_upd(1) [OF r _ _ run]) (use careful [OF r] in blast, erule (1) keeps)
  qed
qed

lemma add_trial_flow_step:
  assumes "reads_back os srv"
  shows "triple (running srv w0 clientless) (add_trial_flow srv ids tags flow) (\<lambda>_. running srv w0 clientless) (accounted srv w0)"
  unfolding add_trial_flow_def
proof (rule triple_andthen [where R = "\<lambda>_. running srv w0 clientless"])
  fix x :: "json \<times> int list \<times> (int \<times> int, int) dict"
  obtain j ts tv where x: "x = (j, ts, tv)" by (cases x)
  show "triple (running srv w0 clientless) (case x of (flow_json, tag_values_for_flow, tag_values') \<Rightarrow>
     andthen (on_snd (on_snd (install_flow srv flow_json))) (\<lambda>flow_token.
     andthen (add_flow_token flow_token) (\<lambda>_.
     andthen (get_host (fl_source flow + 1)) (\<lambda>_.
     andthen (get_host (fl_destination flow + 1)) (\<lambda>destination_host.
     andthen (upd_host (\<lambda>h. ret (configure_flow h (scale_flow_tx_rate (fl_tx_rate flow)) 0 ''uniform''
       (vh_virtual_host_ip destination_host) 50000 (fl_splitting_ratio flow) 10 tag_values_for_flow 1066)) (fl_source flow + 1)) (\<lambda>_.
     ret tag_values')))))) (\<lambda>_. running srv w0 clientless) (accounted srv w0)"
    unfolding x prod.case andthen_assoc [of "on_snd (on_snd (install_flow srv j))" add_flow_token, symmetric]
    by (rule triple_andthen [OF install_and_record [OF assms]])
      (intro triple_andthen [where R = "\<lambda>_. running srv w0 clientless"] get_host_step configure_step triple_ret; assumption)
qed (rule triple_of_res, auto)

lemma create_step:
  assumes "reads_back os srv" and "cleanup_works os srv"
  shows "triple (running srv w0 (\<lambda>_. False)) (andthen (on_snd (create_virtual_hosts os srv ids)) (\<lambda>hosts. modify_fst (\<lambda>d. d\<lparr>td_hosts := hosts\<rparr>)))
    (\<lambda>_. running srv w0 idle) (accounted srv w0)"
proof -
  have steps: "(case r of Inl e \<Rightarrow> accounted srv w0 s' | Inr u \<Rightarrow> running srv w0 idle s')"
    if start: "running srv w0 (\<lambda>_. False) s"
      and run: "andthen (on_snd (create_virtual_hosts os srv ids)) (\<lambda>hosts. modify_fst (\<lambda>d. d\<lparr>td_hosts := hosts\<rparr>)) s = (r, s')" for s r s'
  proof -
    obtain d w where s: "s = (d, w)" by (cases s)
    have none: "td_hosts d = []" using start unfolding s all_hosts_def by (cases "td_hosts d") auto
    obtain r1 w1 where one: "create_virtual_hosts os srv ids w = (r1, w1)" by (metis surj_pair)
    show ?thesis
    proof (cases r1)
      case (Inl e)
      then have "s' = (d, w1) \<and> r = Inl e" using run one by (simp add: s andthen_def on_snd_run)
      moreover have "gained srv {} w w1" using create_hosts(2) [OF assms one Inl] .
      ultimately show ?thesis using start accounted_quiet [of srv w0 d w w1] by (simp add: s)
    next
      case (Inr hosts)
      note new = create_hosts(1) [OF assms one Inr]
      have s': "s' = (d\<lparr>td_hosts := hosts\<rparr>, w1) \<and> r = Inr ()" using run one Inr by (simp add: s andthen_def on_snd_run)
      have "gained srv (hosts_resources [] \<union> Route ` set (td_tokens d) \<union> hosts_resources hosts) w0 w1"
        using start gained_trans [OF _ conjunct1 [OF new]] by (simp add: s accounted_def none)
      then show ?thesis using start new s' by (auto simp: s accounted_def hosts_resources_def Un_commute)
    qed
  qed
  show ?thesis by (rule tripleI) (use steps in force)+
qed

lemma record_step: "triple (running srv w0 Q) (record_utilization util) (\<lambda>_. accounted srv w0) (accounted srv w0)"
proof -
  have add: "triple (accounted srv w0) (add_trial_parameter k v) (\<lambda>_. accounted srv w0) (accounted srv w0)" for k v
    by (rule tripleI) (auto simp: add_trial_parameter_def accounted_def split: sum.splits)
  show ?thesis unfolding record_utilization_def
    by (rule triple_cons [where P' = "accounted srv w0"])
      (auto intro!: triple_andthen [where R = "\<lambda>_. accounted srv w0"] add triple_of_res)
qed

lemma body_step:
  assumes "reads_back os srv" and "cleanup_works os srv"
  shows "triple (running srv w0 (\<lambda>_. False)) (trial_body os srv gm flows) (\<lambda>_. accounted srv w0) (accounted srv w0)"
proof -
  note quiet = quiet_step [where srv = srv and ?w0.0 = w0]
  have topology: "triple (running srv w0 (\<lambda>_. False)) (on_snd (on_snd (get_and_validate_onos_topo_x srv gm g)))
      (\<lambda>_. running srv w0 (\<lambda>_. False)) (accounted srv w0)" for g
    by (rule quiet) (rule gets_gain_nothing [OF only_gets_topology])
  have servers: "triple (running srv w0 idle) (for_hosts (start_traffic_generation_server os)) (\<lambda>_. running srv w0 clientless) (accounted srv w0)"
    by (rule triple_cons [OF for_hosts_accounted [where P = "\<lambda>h. server_process h = None" and Q = clientless]])
      (auto simp: careful_server all_hosts_def idle_def start_traffic_generation_server_def elim!: andthen_InrE simp del: set_map)
  have flow_loop: "triple (running srv w0 clientless) (fold_prog (add_trial_flow srv ids) [] fs) (\<lambda>_. running srv w0 clientless) (accounted srv w0)" for ids fs
    using triple_fold_prog [where J = "\<lambda>_ _. running srv w0 clientless", OF add_trial_flow_step [OF assms(1)]] .
  have start: "triple (running srv w0 Q) (on_snd (on_snd (monitor_start srv m))) (\<lambda>_. running srv w0 Q) (accounted srv w0)" for m Q
    by (rule quiet) (rule monitor_quiet(1))
  have stop: "triple (running srv w0 Q) (on_snd (on_snd (monitor_stop srv m))) (\<lambda>_. running srv w0 Q) (accounted srv w0)" for m Q
    by (rule quiet) (rule monitor_quiet(2))
  have clients: "triple (running srv w0 clientless) (for_hosts (start_traffic_generation_client os)) (\<lambda>_. running srv w0 (\<lambda>_. True)) (accounted srv w0)"
    by (rule triple_cons [OF for_hosts_accounted [where P = clientless and Q = "\<lambda>_. True"]]) (auto simp: careful_client all_hosts_def)
  have sleep: "triple (running srv w0 Q) (\<lambda>(d, w). (rbind (get_parameter (td_trial d) k) sleep_arg, (d, w))) (\<lambda>_. running srv w0 Q) (accounted srv w0)" for Q k
    by (rule tripleI) auto
  have pure: "triple (running srv w0 Q) (of_res r) (\<lambda>_. running srv w0 Q) (accounted srv w0)" for Q r by (rule triple_of_res) auto
  show ?thesis unfolding trial_body_def andthen_assoc [of "on_snd (create_virtual_hosts os srv _)" "\<lambda>hosts. modify_fst (\<lambda>d. d\<lparr>td_hosts := hosts\<rparr>)", symmetric]
    by (rule triple_andthen [OF topology triple_andthen [OF create_step [OF assms] triple_andthen [OF servers triple_andthen [OF pure
      triple_andthen [OF flow_loop triple_andthen [OF start triple_andthen [OF clients triple_andthen [OF sleep triple_andthen [OF stop
      triple_andthen [OF pure record_step]]]]]]]]]])
qed

lemma cleanup_run:
  assumes "cleanup_works os srv" and "accounted srv w0 (d, w)" and "trial_cleanup os srv (d, w) = (r, (d', w'))"
  shows "r = Inr ()" and "d' = d" and "gained srv {} w0 w'"
proof -
  obtain r1 w1 where one: "destroy_all_hosts os srv (td_hosts d) w = (r1, w1)" by (metis surj_pair)
  have ok: "hosts_ok (td_hosts d)" "\<forall>t \<in> set (td_tokens d). is_ok (token_text t)"
    "gained srv (hosts_resources (td_hosts d) \<union> Route ` set (td_tokens d)) w0 w" using assms(2) by (simp_all add: accounted_def)
  note hosts = destroy_all_releases [OF assms(1) ok(1) one]
  have two: "remove_all_flows srv (td_tokens d) w1 = (r, w')" and "d' = d"
    using assms(3) one hosts(1) by (auto simp: trial_cleanup_def on_snd_def andthen_def split: prod.splits)
  note flows = remove_flows_releases [OF routes_of_resources(1) [OF assms(1)] ok(2) two]
  show "r = Inr ()" "d' = d" using flows(1) \<open>d' = d\<close> by simp_all
  have "released srv (hosts_resources (td_hosts d) \<union> Route ` set (td_tokens d)) w w'" by (rule released_trans [OF hosts(2) flows(2)])
  with ok(3) show "gained srv {} w0 w'" using gained_released [of srv "{}" "hosts_resources (td_hosts d) \<union> Route ` set (td_tokens d)"] by simp
qed

lemma conduct_outcome:
  assumes "reads_back os srv" and "cleanup_works os srv" and "conduct_path_hopping_trial os srv gm (t, w) = (r, (t', w'))"
  shows "gained srv {} w w'" and "r = (if has_parameter t ''seed-number'' \<and> has_parameter t ''flow-set'' then Inr () else Inl ValueError)"
proof -
  let ?params = "rbind (get_parameter t ''seed-number'') (\<lambda>_. get_parameter t ''flow-set'')"
  have params: "?params = (if has_parameter t ''seed-number'' \<and> has_parameter t ''flow-set'' then Inr (the (map_of (tr_parameters t) ''flow-set'')) else Inl ValueError)"
    by (auto simp: get_parameter_def has_parameter_def dict_has_iff split: option.splits)
  have "gained srv {} w w' \<and> r = (if has_parameter t ''seed-number'' \<and> has_parameter t ''flow-set'' then Inr () else Inl ValueError)"
  proof (cases "has_parameter t ''seed-number'' \<and> has_parameter t ''flow-set''")
    case True
    let ?d = "\<lparr>td_hosts = [], td_tokens = [], td_trial = t\<rparr>" and ?flows = "the (map_of (tr_parameters t) ''flow-set'')"
    have start: "running srv w (\<lambda>_. False) (?d, w)" by (simp add: accounted_def hosts_ok_def all_hosts_def)
    obtain r1 d1 w1 where body: "try_except (trial_body os srv gm ?flows) (\<lambda>_. ret ()) (?d, w) = (r1, (d1, w1))" by (metis surj_pair)
    have "triple (running srv w (\<lambda>_. False)) (try_except (trial_body os srv gm ?flows) (\<lambda>_. ret ())) (\<lambda>_. accounted srv w) (\<lambda>_. False)"
      by (rule triple_try_except [OF body_step [OF assms(1,2)]]) (rule triple_ret)
    then have acc: "accounted srv w (d1, w1)" and r1: "r1 = Inr ()" using start body by (cases r1; auto dest: tripleD)+
    obtain r2 d2 w2 where fin: "trial_cleanup os srv (d1, w1) = (r2, (d2, w2))" by (metis surj_pair)
    note clean = cleanup_run [OF assms(2) acc fin]
    have "try_finally (try_except (trial_body os srv gm ?flows) (\<lambda>_. ret ())) (trial_cleanup os srv) (?d, w) = (Inr (), (d1, w2))"
      using fin clean(1,2) r1 by (simp add: try_finally_def body andthen_def)
    then have "w' = w2 \<and> r = Inr ()" using assms(3) True params by (auto simp: conduct_path_hopping_trial_def)
    then show ?thesis using clean(3) True by simp
  qed (use assms(3) params in \<open>auto simp: conduct_path_hopping_trial_def\<close>)
  then show "gained srv {} w w'" "r = (if has_parameter t ''seed-number'' \<and> has_parameter t ''flow-set'' then Inr () else Inl ValueError)" by blast+
qed

subsection \<open>Properties\<close>


definition ex_os :: os_env where
  "ex_os = \<lparr>run_code = (\<lambda>evs cmd. Inr 0), iface_mac = (\<lambda>evs iface. Inr ''00:0c:29:3e:5a:01''), popen = (\<lambda>evs args. Inr (length evs)),
     returncode = (\<lambda>evs p. None), wait_code = (\<lambda>evs p. 0)\<rparr>"

definition ex_links :: json where
  "ex_links = JList (map (\<lambda>(i, j). JObj [(''type'', JStr ''DIRECT''), (''src'', JObj [(''device'', JStr (show_int i))]),
     (''dst'', JObj [(''device'', JStr (show_int j))])]) (tg_edges (complete_graph 10)))"

definition ex_testbed_server :: server where
  "ex_testbed_server sent rq = Reply 200 (Some (JObj [(''links'', ex_links), (''hosts'', JList []),
     (''virtual-host-id'', JInt (int (length sent))), (''routeId'', JInt (int (length sent))), (''token'', JStr ''m'')]))"

definition ex_testbed_trial :: trial where
  "ex_testbed_trial = \<lparr>tr_name = ''t'', tr_parameters = [(''seed-number'', PInt 7), (''duration'', PInt 60), (''flow-set'', PFlowSet \<lparr>fs_flows =
     [\<lparr>fl_source = 0, fl_destination = 2, fl_tx_rate = 1 / 2, fl_paths = [[0, 2], [0, 1, 2]], fl_splitting_ratio = [1 / 2, 1 / 2]\<rparr>]\<rparr>)]\<rparr>"

definition ex_matcher :: matcher where
  "ex_matcher g h = Some (map (\<lambda>i. (show_int i, i)) (tg_nodes h))"

lemma ex_testbed_works: "reads_back ex_os ex_testbed_server" "cleanup_works ex_os ex_testbed_server"
  by (simp_all add: reads_back_def ex_os_def ex_testbed_server_def gives_id_def reply_field_def loads_def dict_get_def is_ok_def
      cleanup_works_def accepted_def)


end
