(* ===== verification/Attacker_Testbed.thy ===== *)
theory Attacker_Testbed
  imports Testbed_Trial
begin

section \<open>Attacker tests on the testbed\<close>

text \<open>
  Models \<open>rest_client/path_hopping_attacker_testing.py\<close> and \<open>rest_client/nw_control/packet_capture.py\<close>: a sender and
  a receiver on virtual hosts exchange a file while the packets of the interface are captured; delays
  are put on the interface with \<open>tc\<close>.  Clock, random file name and the files that external programs write
  are parameters.  \<open>test_virtual_host_installation\<close>, a manual test that waits for a key, is left out.
\<close>

text \<open>
  \<open>ae_packets\<close> are the tuples of the literal that the capture analysis wrote, \<open>ae_hops\<close> the text of the
  sender's record, \<open>ae_output\<close> the output of the command just run, \<open>ae_capture_number\<close> what \<open>randint\<close> gives.
\<close>

record attack_env =
  ae_packets :: "os_event list \<Rightarrow> json list list res"
  ae_hops :: "os_event list \<Rightarrow> string res"
  ae_output :: "os_event list \<Rightarrow> string res"
  ae_clock :: "os_event list \<Rightarrow> pyfloat"
  ae_capture_number :: int

subsection \<open>Captures\<close>

record capture =
  cap_iface_name :: string
  cap_process :: "nat option"
  cap_file_name :: string

definition new_capture :: "attack_env \<Rightarrow> string \<Rightarrow> capture" where
  "new_capture ae iface = \<lparr>cap_iface_name = iface, cap_process = None,
     cap_file_name = ''/home/cpsc-net-user/capture-files/cap-file-'' @ show_int (ae_capture_number ae) @ ''.pcap''\<rparr>"

definition start_capture :: "os_env \<Rightarrow> capture \<Rightarrow> capture act" where
  "start_capture os c =
     (if cap_process c \<noteq> None then raise ValueError
      else andthen (os_start os (map ArgStr (split_on (CHR '' '') (''tcpdump -i '' @ cap_iface_name c @ '' -w '' @ cap_file_name c)))) (\<lambda>p.
        ret (c\<lparr>cap_process := Some p\<rparr>)))"

definition stop_capture :: "capture \<Rightarrow> capture act" where
  "stop_capture c = (case cap_process c of
       None \<Rightarrow> raise ValueError
     | Some p \<Rightarrow> andthen (os_note (Terminated p)) (\<lambda>_. ret (c\<lparr>cap_process := None\<rparr>)))"

definition is_capture_running :: "capture \<Rightarrow> bool" where
  "is_capture_running c \<longleftrightarrow> cap_process c \<noteq> None"

text \<open>\<open>PacketInfo(*t_i)\<close> takes exactly seven values.\<close>

definition packet_info :: "json list \<Rightarrow> json list res" where
  "packet_info t = (if length t = 7 then Inr t else Inl TypeError)"

definition process_capture_data :: "os_env \<Rightarrow> attack_env \<Rightarrow> capture \<Rightarrow> json list list act" where
  "process_capture_data os ae c =
     andthen (os_start os (map ArgStr (split_on (CHR '' '')
       (''/home/cpsc-net-user/repos/physical-testbed-testing/pcap-analysis/src/cap_analysis '' @ cap_file_name c)))) (\<lambda>p.
     andthen (os_note (Reaped p)) (\<lambda>_.
     os_ask (\<lambda>evs. rbind (ae_packets ae evs) (map_res packet_info))))"

subsection \<open>Senders and receivers\<close>

definition destroy_sender_receiver_pair :: "os_env \<Rightarrow> server \<Rightarrow> ph_host option \<Rightarrow> ph_host option \<Rightarrow> unit act" where
  "destroy_sender_receiver_pair os srv sender receiver =
     andthen (case sender of Some s \<Rightarrow> destroy_ph_host os srv s | None \<Rightarrow> ret ()) (\<lambda>_.
     case receiver of Some r \<Rightarrow> destroy_ph_host os srv r | None \<Rightarrow> ret ())"

definition create_pair_host :: "os_env \<Rightarrow> server \<Rightarrow> (int, string) dict \<Rightarrow> int \<Rightarrow> ph_host act" where
  "create_pair_host os srv id_to_dpid host_id =
     andthen (of_res (dict_get id_to_dpid (host_id - 1))) (\<lambda>ingress_node_device_id.
     create_ph_host os srv host_id (''00:02:00:00:00:'' @ two_digits host_id) (''10.10.0.'' @ show_int host_id)
       (''192.168.1.'' @ show_int host_id) ingress_node_device_id)"

text \<open>\<open>CREATE_VHOST_RETRY_COUNT\<close> is one, so that an exception ends the loop and is raised again.\<close>

definition create_sender_receiver_pair :: "os_env \<Rightarrow> server \<Rightarrow> (int, string) dict \<Rightarrow> (ph_host \<times> ph_host) act" where
  "create_sender_receiver_pair os srv id_to_dpid =
     andthen (create_pair_host os srv id_to_dpid 1) (\<lambda>sender_host.
     try_except
       (andthen (create_pair_host os srv id_to_dpid 2) (\<lambda>receiver_host. ret (sender_host, receiver_host)))
       (\<lambda>ex. andthen (destroy_sender_receiver_pair os srv (Some sender_host) None) (\<lambda>_. raise ex)))"

text \<open>\<open>str\<close> of a \<open>Path\<close> drops empty and \<open>.\<close> components.\<close>

definition path_text :: "string \<Rightarrow> string" where
  "path_text p = (let cs = filter (\<lambda>c. c \<noteq> '''' \<and> c \<noteq> ''.'') (split_on (CHR ''/'') p);
     q = (if startswith p ''/'' then ''/'' else '''') @ join_with ''/'' cs in if q = '''' then ''.'' else q)"

text \<open>The parameters of the trials are texts, integers and paths; the texts of other values are not modelled.\<close>

definition stringify :: "param_value \<Rightarrow> string res" where
  "stringify v = (case v of PStr s \<Rightarrow> Inr s | PInt i \<Rightarrow> Inr (show_int i) | PPath p \<Rightarrow> Inr (path_text p) | _ \<Rightarrow> Inl NotImplementedError)"

definition text_parameter :: "trial \<Rightarrow> string \<Rightarrow> string option res" where
  "text_parameter t k = rbind (get_parameter t k) (\<lambda>v. rbind (stringify v) (\<lambda>s. Inr (Some s)))"

definition get_sender_kwargs :: "trial \<Rightarrow> sender_kwargs res" where
  "get_sender_kwargs t =
     rbind (text_parameter t ''port'') (\<lambda>port. rbind (text_parameter t ''K'') (\<lambda>K. rbind (text_parameter t ''N'') (\<lambda>N.
     rbind (text_parameter t ''input-file'') (\<lambda>data_file. rbind (text_parameter t ''message-size'') (\<lambda>message_size.
     rbind (text_parameter t ''timestep'') (\<lambda>timestep. rbind (text_parameter t ''lambda'') (\<lambda>hop_probability.
     rbind (text_parameter t ''reliable'') (\<lambda>reliable. rbind (text_parameter t ''hop'') (\<lambda>hop_method.
     Inr \<lparr>sk_port = port, sk_K = K, sk_N = N, sk_data_file = data_file, sk_message_size = message_size, sk_timestep = timestep,
          sk_hop_probability = hop_probability, sk_reliable = reliable, sk_hop_method = hop_method\<rparr>)))))))))"

definition get_receiver_kwargs :: "trial \<Rightarrow> string \<Rightarrow> receiver_kwargs res" where
  "get_receiver_kwargs t sender_ip =
     rbind (text_parameter t ''port'') (\<lambda>port. rbind (text_parameter t ''output-file'') (\<lambda>data_file.
     rbind (text_parameter t ''timestep'') (\<lambda>timestep. rbind (text_parameter t ''lambda'') (\<lambda>hopping_probability.
     Inr \<lparr>rk_sender_ip = Some sender_ip, rk_port = port, rk_data_file = data_file, rk_timestep = timestep,
          rk_hopping_probability = hopping_probability\<rparr>))))"

text \<open>\<open>splitlines\<close> of a text with newlines; the last line may lack its end.\<close>

definition splitlines :: "string \<Rightarrow> string list" where
  "splitlines s = (let ls = split_on CHR 0x0A s in if last ls = '''' then butlast ls else ls)"

definition collect_mpc_sender_hopping_times :: "attack_env \<Rightarrow> int list act" where
  "collect_mpc_sender_hopping_times ae =
     andthen (os_ask (\<lambda>evs. rbind (ae_hops ae evs) (\<lambda>t. map_res py_int (splitlines t)))) (\<lambda>hopping_times.
     andthen (os_note (Unlinked ''hopping-time-record.txt'')) (\<lambda>_. ret hopping_times))"

subsection \<open>A trial\<close>

record attack_bed =
  ab_sender :: "ph_host option"
  ab_receiver :: "ph_host option"
  ab_capture :: "capture option"
  ab_trial :: trial

type_synonym 'a attack_act = "(attack_bed \<times> world, 'a) prog"

text \<open>A method called on a variable of the trial; on \<open>None\<close> there is no such method.\<close>

definition on_part :: "(attack_bed \<Rightarrow> 'p option) \<Rightarrow> ('p \<Rightarrow> attack_bed \<Rightarrow> attack_bed) \<Rightarrow> (attack_bed \<Rightarrow> 'p \<Rightarrow> 'p act) \<Rightarrow> unit attack_act" where
  "on_part part put f = (\<lambda>(d, w). case part d of
       None \<Rightarrow> (Inl AttributeError, (d, w))
     | Some p \<Rightarrow> (case f d p w of (Inl e, w') \<Rightarrow> (Inl e, (d, w')) | (Inr p', w') \<Rightarrow> (Inr (), (put p' d, w'))))"

definition with_part :: "(attack_bed \<Rightarrow> 'p option) \<Rightarrow> ('p \<Rightarrow> 'a act) \<Rightarrow> 'a attack_act" where
  "with_part part f = (\<lambda>(d, w). case part d of None \<Rightarrow> (Inl AttributeError, (d, w)) | Some p \<Rightarrow> on_snd (f p) (d, w))"

definition on_sender :: "(attack_bed \<Rightarrow> ph_host \<Rightarrow> ph_host act) \<Rightarrow> unit attack_act" where
  "on_sender = on_part ab_sender (\<lambda>h d. d\<lparr>ab_sender := Some h\<rparr>)"

definition on_receiver :: "(attack_bed \<Rightarrow> ph_host \<Rightarrow> ph_host act) \<Rightarrow> unit attack_act" where
  "on_receiver = on_part ab_receiver (\<lambda>h d. d\<lparr>ab_receiver := Some h\<rparr>)"

definition on_capture :: "(attack_bed \<Rightarrow> capture \<Rightarrow> capture act) \<Rightarrow> unit attack_act" where
  "on_capture = on_part ab_capture (\<lambda>c d. d\<lparr>ab_capture := Some c\<rparr>)"

definition add_attack_parameter :: "string \<Rightarrow> param_value \<Rightarrow> unit attack_act" where
  "add_attack_parameter k v = (\<lambda>(d, w). case add_parameter (ab_trial d) k v of
       Inl e \<Rightarrow> (Inl e, (d, w)) | Inr t \<Rightarrow> (Inr (), (d\<lparr>ab_trial := t\<rparr>, w)))"

definition ask_clock :: "attack_env \<Rightarrow> pyfloat attack_act" where
  "ask_clock ae = on_snd (os_ask (\<lambda>evs. Inr (ae_clock ae evs)))"

definition attack_body :: "os_env \<Rightarrow> attack_env \<Rightarrow> server \<Rightarrow> matcher \<Rightarrow> unit attack_act" where
  "attack_body os ae srv gm =
     andthen (on_snd (on_snd (get_and_validate_onos_topo_x srv gm (complete_graph 10)))) (\<lambda>id_to_dpid.
     andthen (andthen (on_snd (create_sender_receiver_pair os srv id_to_dpid)) (\<lambda>(sender, receiver).
       modify_fst (\<lambda>d. d\<lparr>ab_sender := Some sender, ab_receiver := Some receiver\<rparr>))) (\<lambda>_.
     andthen (modify_fst (\<lambda>d. d\<lparr>ab_capture := Some (new_capture ae ''ens192'')\<rparr>)) (\<lambda>_.
     andthen (on_capture (\<lambda>_. start_capture os)) (\<lambda>_.
     andthen (on_snd (on_snd (monitor_start srv new_on_monitor))) (\<lambda>traffic_monitor.
     andthen (on_sender (\<lambda>d sender. andthen (of_res (get_sender_kwargs (ab_trial d))) (\<lambda>kw. start_path_hopping_sender os kw sender))) (\<lambda>_.
     andthen (ask_clock ae) (\<lambda>start_time.
     andthen (on_receiver (\<lambda>d receiver. andthen (of_res (case ab_sender d of None \<Rightarrow> Inl AttributeError
         | Some sender \<Rightarrow> get_receiver_kwargs (ab_trial d) (vh_virtual_host_ip sender))) (\<lambda>kw. start_path_hopping_receiver os kw receiver))) (\<lambda>_.
     andthen (with_part ab_receiver (wait_until_done os)) (\<lambda>_.
     andthen (ask_clock ae) (\<lambda>end_time.
     andthen (on_snd (on_snd (monitor_stop srv traffic_monitor))) (\<lambda>traffic_monitor'.
     andthen (of_res (get_monitor_statistics traffic_monitor')) (\<lambda>utilization_results.
     andthen (on_capture (\<lambda>_. stop_capture)) (\<lambda>_.
     andthen (with_part ab_capture (process_capture_data os ae)) (\<lambda>packets.
     andthen (on_snd (collect_mpc_sender_hopping_times ae)) (\<lambda>hopping_times.
     andthen (add_attack_parameter ''packet-dump'' (PJson (JList (map JList packets)))) (\<lambda>_.
     andthen (add_attack_parameter ''measured-link-utilization'' (PJson (JList utilization_results))) (\<lambda>_.
     andthen (of_res (rates_over_time utilization_results)) (\<lambda>rates.
     andthen (add_attack_parameter ''link-utilization-over-time'' (PLinkRatesOverTime rates)) (\<lambda>_.
     andthen (add_attack_parameter ''elapsed-tx-time'' (PFloat (end_time - start_time))) (\<lambda>_.
     add_attack_parameter ''hopping-times'' (PInts hopping_times)))))))))))))))))))))"

definition attack_cleanup :: "os_env \<Rightarrow> server \<Rightarrow> unit attack_act" where
  "attack_cleanup os srv = (\<lambda>(d, w).
     andthen (on_snd (destroy_sender_receiver_pair os srv (ab_sender d) (ab_receiver d))) (\<lambda>_.
       if (case ab_capture d of None \<Rightarrow> False | Some c \<Rightarrow> is_capture_running c) then on_capture (\<lambda>_. stop_capture) else ret ()) (d, w))"

definition conduct_attacker_trial :: "os_env \<Rightarrow> attack_env \<Rightarrow> server \<Rightarrow> matcher \<Rightarrow> (trial \<times> world, unit) prog" where
  "conduct_attacker_trial os ae srv gm = (\<lambda>(t, w).
     case try_finally (try_except (attack_body os ae srv gm) (\<lambda>_. ret ())) (attack_cleanup os srv)
         (\<lparr>ab_sender = None, ab_receiver = None, ab_capture = None, ab_trial = t\<rparr>, w) of
       (r, (d, w')) \<Rightarrow> (r, (ab_trial d, w')))"

subsection \<open>What a run holds\<close>

definition capture_resources :: "capture \<Rightarrow> resource set" where
  "capture_resources c = Process ` set_option (cap_process c)"

definition opt_resources :: "('p \<Rightarrow> resource set) \<Rightarrow> 'p option \<Rightarrow> resource set" where
  "opt_resources R p = (case p of None \<Rightarrow> {} | Some x \<Rightarrow> R x)"

definition attack_resources :: "attack_bed \<Rightarrow> resource set" where
  "attack_resources d = opt_resources ph_resources (ab_sender d) \<union> opt_resources ph_resources (ab_receiver d)
     \<union> opt_resources capture_resources (ab_capture d)"

definition token_ok :: "ph_host \<Rightarrow> bool" where
  "token_ok h \<longleftrightarrow> is_ok (token_text (vh_token h))"

definition covered :: "server \<Rightarrow> world \<Rightarrow> attack_bed \<times> world \<Rightarrow> bool" where
  "covered srv w0 = (\<lambda>(d, w). gained srv (attack_resources d) w0 w
     \<and> pred_option token_ok (ab_sender d) \<and> pred_option token_ok (ab_receiver d))"

abbreviation keeps_cover :: "server \<Rightarrow> world \<Rightarrow> 'a attack_act \<Rightarrow> bool" where
  "keeps_cover srv w0 m \<equiv> triple (covered srv w0) m (\<lambda>_. covered srv w0) (covered srv w0)"

lemma covered_quiet: "covered srv w0 (d, w) \<Longrightarrow> gained srv {} w w' \<Longrightarrow> covered srv w0 (d, w')"
  unfolding covered_def by (simp add: gained_nothing_trans [of srv _ w0 w w'])

lemma quiet_keeps_cover:
  assumes "\<And>w r w'. m w = (r, w') \<Longrightarrow> gained srv {} w w'"
  shows "triple (\<lambda>s. covered srv w0 s \<and> B (fst s)) (on_snd m) (\<lambda>_ s. covered srv w0 s \<and> B (fst s)) (covered srv w0)"
proof -
  have step: "covered srv w0 s' \<and> fst s' = fst s" if "covered srv w0 s" "on_snd m s = (r, s')" for s r s'
  proof -
    have "m (snd s) = (r, snd s')" and same: "fst s' = fst s" using on_snd_outcome [OF that(2)] by blast+
    from assms [OF this(1)] have "covered srv w0 (fst s, snd s')" using covered_quiet [of srv w0 "fst s" "snd s"] that(1) by simp
    then show ?thesis using that(1) same by (metis prod.collapse)
  qed
  show ?thesis by (rule tripleI) (metis step)+
qed

lemmas quiet_keeps = quiet_keeps_cover [where B = "\<lambda>_. True", simplified]

text \<open>An operation on a part that gains what the part then owns, and gives up nothing.\<close>

lemma on_part_keeps:
  assumes "\<And>d p w e w'. part d = Some p \<Longrightarrow> f d p w = (Inl e, w') \<Longrightarrow> gained srv {} w w'"
    and "\<And>d p w p' w'. part d = Some p \<Longrightarrow> f d p w = (Inr p', w') \<Longrightarrow> gained srv (R p') w w' \<and> R p \<subseteq> R p'"
    and "\<And>d p p'. part d = Some p \<Longrightarrow> R p \<subseteq> R p' \<Longrightarrow> attack_resources d \<union> R p' \<subseteq> attack_resources (put p' d)"
    and "\<And>d p w p' w'. part d = Some p \<Longrightarrow> f d p w = (Inr p', w') \<Longrightarrow> pred_option token_ok (ab_sender d) \<and> pred_option token_ok (ab_receiver d)
         \<Longrightarrow> pred_option token_ok (ab_sender (put p' d)) \<and> pred_option token_ok (ab_receiver (put p' d))"
  shows "keeps_cover srv w0 (on_part part put f)"
proof -
  have step: "covered srv w0 s'" if c: "covered srv w0 s" and run: "on_part part put f s = (r, s')" for s r s'
  proof -
    obtain d w where s: "s = (d, w)" by (cases s)
    show ?thesis
    proof (cases "part d")
      case None
      then show ?thesis using c run by (simp add: s on_part_def)
    next
      case (Some p)
      obtain r1 w1 where f: "f d p w = (r1, w1)" by (metis surj_pair)
      show ?thesis
      proof (cases r1)
        case (Inl e)
        have "gained srv {} w w1" using assms(1) Some f Inl by blast
        moreover have "s' = (d, w1)" using run Some f Inl by (simp add: s on_part_def)
        ultimately show ?thesis using c covered_quiet [of srv w0 d w w1] by (simp add: s)
      next
        case (Inr p')
        have g: "gained srv (R p') w w1" "R p \<subseteq> R p'" using assms(2) [OF Some] f Inr by blast+
        have "gained srv (attack_resources d \<union> R p') w0 w1" using c gained_trans [OF _ g(1)] by (simp add: s covered_def)
        then have "gained srv (attack_resources (put p' d)) w0 w1" using gained_mono assms(3) [OF Some g(2)] by blast
        moreover have "s' = (put p' d, w1)" using run Some f Inr by (simp add: s on_part_def)
        ultimately show ?thesis using c assms(4) [OF Some] f Inr by (simp add: s covered_def)
      qed
    qed
  qed
  show ?thesis by (rule tripleI) (use step in blast)+
qed

lemma start_ph_process_gains:
  assumes "start_ph_process os args h w = (r, w')"
  shows "r = Inl e \<Longrightarrow> gained srv {} w w'"
    and "r = Inr h' \<Longrightarrow> gained srv (ph_resources h') w w' \<and> ph_resources h \<subseteq> ph_resources h' \<and> vh_token h' = vh_token h"
proof -
  have *: "(r = Inl e \<longrightarrow> gained srv {} w w') \<and> (r = Inr h' \<longrightarrow> gained srv (ph_resources h') w w' \<and> ph_resources h \<subseteq> ph_resources h' \<and> vh_token h' = vh_token h)"
  proof (cases "ph_process h = None \<and> is_ok (text_args args)")
    case True
    then obtain args' where args: "text_args args = Inr args'" by (auto simp: is_ok_iff)
    obtain r1 w1 where one: "os_start os args' w = (r1, w1)" by (metis surj_pair)
    show ?thesis
    proof (cases r1)
      case (Inl e1)
      then show ?thesis using assms True args one start_process(2) [OF one Inl] by (auto simp: start_ph_process_def andthen_def)
    next
      case (Inr p)
      then have "r = Inr (h\<lparr>ph_process := Some p\<rparr>) \<and> w' = w1" using assms True args one by (simp add: start_ph_process_def andthen_def)
      then show ?thesis using start_process(1) [OF one Inr, of srv] True gained_mono [of srv "{Process p}" w w1] by (auto simp: ph_resources_def)
    qed
  next
    case False
    then show ?thesis using assms by (cases "text_args args") (auto simp: start_ph_process_def andthen_def raise_def is_ok_def split: if_splits)
  qed
  then show "r = Inl e \<Longrightarrow> gained srv {} w w'"
    "r = Inr h' \<Longrightarrow> gained srv (ph_resources h') w w' \<and> ph_resources h \<subseteq> ph_resources h' \<and> vh_token h' = vh_token h" by blast+
qed

lemma sender_step: "keeps_cover srv w0 (on_sender (\<lambda>d h. andthen (of_res (q d)) (\<lambda>kw. start_path_hopping_sender os kw h)))"
  unfolding on_sender_def
proof (rule on_part_keeps [where R = ph_resources])
  let ?f = "\<lambda>d h. andthen (of_res (q d)) (\<lambda>kw. start_path_hopping_sender os kw h)"
  have run: "(\<exists>e. r = Inl e \<and> w' = w) \<or> (\<exists>args. start_ph_process os args h w = (r, w'))" if "?f d h w = (r, w')" for d h w r w'
    using that by (cases "q d") (auto simp: start_path_hopping_sender_def)
  show "gained srv {} w w'" if "?f d h w = (Inl e, w')" for d h w e w'
    using run [OF that] start_ph_process_gains(1) gained_refl by blast
  show "gained srv (ph_resources h') w w' \<and> ph_resources h \<subseteq> ph_resources h'" if "?f d h w = (Inr h', w')" for d h w h' w'
    using run [OF that] start_ph_process_gains(2) by blast
  show "pred_option token_ok (ab_sender (d\<lparr>ab_sender := Some h'\<rparr>)) \<and> pred_option token_ok (ab_receiver (d\<lparr>ab_sender := Some h'\<rparr>))"
    if "?f d h w = (Inr h', w')" "ab_sender d = Some h" "pred_option token_ok (ab_sender d) \<and> pred_option token_ok (ab_receiver d)" for d h w h' w'
    using run [OF that(1)] start_ph_process_gains(2) [of os _ h w "Inr h'" w' h' srv] that by (auto simp: token_ok_def)
qed (auto simp: attack_resources_def opt_resources_def)

lemma receiver_step: "keeps_cover srv w0 (on_receiver (\<lambda>d h. andthen (of_res (q d)) (\<lambda>kw. start_path_hopping_receiver os kw h)))"
  unfolding on_receiver_def
proof (rule on_part_keeps [where R = ph_resources])
  let ?f = "\<lambda>d h. andthen (of_res (q d)) (\<lambda>kw. start_path_hopping_receiver os kw h)"
  have run: "(\<exists>e. r = Inl e \<and> w' = w) \<or> (\<exists>args. start_ph_process os args h w = (r, w'))" if "?f d h w = (r, w')" for d h w r w'
    using that by (cases "q d") (auto simp: start_path_hopping_receiver_def)
  show "gained srv {} w w'" if "?f d h w = (Inl e, w')" for d h w e w'
    using run [OF that] start_ph_process_gains(1) gained_refl by blast
  show "gained srv (ph_resources h') w w' \<and> ph_resources h \<subseteq> ph_resources h'" if "?f d h w = (Inr h', w')" for d h w h' w'
    using run [OF that] start_ph_process_gains(2) by blast
  show "pred_option token_ok (ab_sender (d\<lparr>ab_receiver := Some h'\<rparr>)) \<and> pred_option token_ok (ab_receiver (d\<lparr>ab_receiver := Some h'\<rparr>))"
    if "?f d h w = (Inr h', w')" "ab_receiver d = Some h" "pred_option token_ok (ab_sender d) \<and> pred_option token_ok (ab_receiver d)" for d h w h' w'
    using run [OF that(1)] start_ph_process_gains(2) [of os _ h w "Inr h'" w' h' srv] that by (auto simp: token_ok_def)
qed (auto simp: attack_resources_def opt_resources_def)

lemma start_capture_step: "keeps_cover srv w0 (on_capture (\<lambda>_. start_capture os))"
  unfolding on_capture_def
proof (rule on_part_keeps [where R = capture_resources])
  show "gained srv {} w w'" if "start_capture os c w = (Inl e, w')" for c w e w'
    using that by (auto simp: start_capture_def andthen_def raise_def split: if_splits prod.splits sum.splits dest: start_process(2))
  show "gained srv (capture_resources c') w w' \<and> capture_resources c \<subseteq> capture_resources c'" if "start_capture os c w = (Inr c', w')" for c w c' w'
    using that by (auto simp: start_capture_def andthen_def raise_def capture_resources_def split: if_splits prod.splits sum.splits
        intro: start_process(1) [OF _ refl])
qed (auto simp: attack_resources_def opt_resources_def)

lemma stop_capture_run:
  assumes "on_capture (\<lambda>_. stop_capture) (d, w) = (r, (d', w'))" and "covered srv w0 (d, w)"
  shows "covered srv w0 (d', w')"
proof -
  obtain evs sent where w: "w = (evs, sent)" by (cases w)
  have cases: "(d' = d \<and> w' = w) \<or> (\<exists>c p. ab_capture d = Some c \<and> cap_process c = Some p \<and> d' = d\<lparr>ab_capture := Some (c\<lparr>cap_process := None\<rparr>)\<rparr> \<and> w' = (evs @ [Terminated p], sent))"
    using assms(1) by (auto simp: on_capture_def on_part_def stop_capture_def w andthen_def raise_def split: option.splits)
  show "covered srv w0 (d', w')" using cases
  proof (elim disjE exE conjE)
    fix c p assume c: "ab_capture d = Some c" "cap_process c = Some p" "d' = d\<lparr>ab_capture := Some (c\<lparr>cap_process := None\<rparr>)\<rparr>" "w' = (evs @ [Terminated p], sent)"
    have "attack_resources d = attack_resources d' \<union> {Process p}" using c by (auto simp: attack_resources_def opt_resources_def capture_resources_def)
    then have "gained srv (attack_resources d' \<union> {Process p}) w0 w" using assms(2) by (simp add: covered_def)
    then have "gained srv (attack_resources d') w0 w'" using gained_released signal_process(2) [of srv p evs sent] c(4) w by metis
    then show ?thesis using assms(2) c(3) by (simp add: covered_def)
  qed (use assms(2) in simp)
qed

lemma stop_capture_step: "keeps_cover srv w0 (on_capture (\<lambda>_. stop_capture))"
  by (rule tripleI) (metis stop_capture_run surj_pair)+

lemma with_part_keeps:
  assumes "\<And>p w r w'. f p w = (r, w') \<Longrightarrow> gained srv {} w w'"
  shows "keeps_cover srv w0 (with_part part f)"
proof -
  have "triple (\<lambda>s. covered srv w0 s \<and> part (fst s) = p) (with_part part f) (\<lambda>_. covered srv w0) (covered srv w0)" for p
  proof (cases p)
    case (Some x)
    have "triple (covered srv w0) (on_snd (f x)) (\<lambda>_. covered srv w0) (covered srv w0)" by (rule quiet_keeps) (rule assms)
    then show ?thesis using Some by (simp add: triple_def with_part_def split_def)
  qed (auto simp: triple_def with_part_def)
  then show ?thesis by (simp add: triple_def)
qed

lemma wait_quiet: "wait_until_done os h w = (r, w') \<Longrightarrow> gained srv {} w w'"
  using signal_process(3) [of srv _ "fst w" "snd w"]
  by (cases w) (auto simp: wait_until_done_def andthen_def raise_def released_def split: option.splits)

lemma collect_quiet:
  assumes "collect_mpc_sender_hopping_times ae w = (r, w')"
  shows "gained srv {} w w'"
proof -
  obtain evs sent where w: "w = (evs, sent)" by (cases w)
  have "gained srv {} (evs, sent) (evs @ [Unlinked ''hopping-time-record.txt''], sent)" by (rule note_event, rule allI, case_tac r) auto
  then show ?thesis using assms by (auto simp: w collect_mpc_sender_hopping_times_def andthen_def split: sum.splits)
qed

lemma process_quiet:
  assumes "process_capture_data os ae c w = (r, w')"
  shows "gained srv {} w w'"
proof -
  define args where "args = map ArgStr (split_on (CHR '' '') (''/home/cpsc-net-user/repos/physical-testbed-testing/pcap-analysis/src/cap_analysis '' @ cap_file_name c))"
  have run: "andthen (os_start os args) (\<lambda>p. andthen (os_note (Reaped p)) (\<lambda>_. os_ask (\<lambda>evs. rbind (ae_packets ae evs) (map_res packet_info)))) w = (r, w')"
    using assms unfolding process_capture_data_def args_def .
  obtain r1 evs sent where one: "os_start os args w = (r1, (evs, sent))" by (metis surj_pair)
  show ?thesis
  proof (cases r1)
    case (Inl e)
    then have "w' = w" using run one start_process(2) [OF one Inl] by (simp add: andthen_def)
    then show ?thesis by simp
  next
    case (Inr p)
    then have "w' = (evs @ [Reaped p], sent)" using run one by (auto simp: andthen_def)
    then show ?thesis using gained_released [of srv "{}" "{Process p}" w, simplified, OF start_process(1) [OF one Inr] signal_process(3)] by simp
  qed
qed

lemma create_pair_host_gains:
  assumes "reads_back os srv" and "cleanup_works os srv" and "create_pair_host os srv ids k w = (r, w')"
  shows "r = Inl e \<Longrightarrow> gained srv {} w w'" and "r = Inr h \<Longrightarrow> gained srv (ph_resources h) w w' \<and> token_ok h \<and> ph_process h = None"
proof -
  let ?init = "\<lambda>dev. initialize_virtual_host_persistent_state os srv (''00:02:00:00:00:'' @ two_digits k)
      (''10.10.0.'' @ show_int k) (''192.168.1.'' @ show_int k) dev w"
  have cases: "(\<exists>e. r = Inl e \<and> w' = w) \<or> (\<exists>dev e. ?init dev = (Inl e, w') \<and> r = Inl e) \<or>
    (\<exists>dev mac tok h. ?init dev = (Inr (mac, tok), w') \<and> r = Inr h
       \<and> vh_actual_host_ip h = ''192.168.1.'' @ show_int k \<and> vh_token h = tok \<and> ph_process h = None)"
    using assms(3) unfolding create_pair_host_def create_ph_host_def
    by (auto simp: andthen_def of_res_def ret_def split: sum.splits prod.splits)
  show "gained srv {} w w'" if "r = Inl e"
    using cases that persistent_state(2) [OF assms(1,2)] gained_refl by blast
  show "gained srv (ph_resources h) w w' \<and> token_ok h \<and> ph_process h = None" if h: "r = Inr h"
  proof -
    obtain dev mac where "?init dev = (Inr (mac, vh_token h), w')" "vh_actual_host_ip h = ''192.168.1.'' @ show_int k" "ph_process h = None"
      using cases h by auto
    then show ?thesis using persistent_state(1) [OF assms(1,2) _ refl] by (simp add: ph_resources_def token_ok_def)
  qed
qed

lemma destroy_pair_releases:
  assumes "cleanup_works os srv" and "pred_option token_ok s" and "pred_option token_ok q"
    and "destroy_sender_receiver_pair os srv s q w = (r, w')"
  shows "r = Inr ()" and "released srv (opt_resources ph_resources s \<union> opt_resources ph_resources q) w w'"
proof -
  have one: "r = Inr () \<and> released srv (opt_resources ph_resources x) w w'"
    if "pred_option token_ok x" "(case x of Some h \<Rightarrow> destroy_ph_host os srv h | None \<Rightarrow> ret ()) w = (r, w')" for x w r w'
    using that destroy_ph_host_releases [OF assms(1)] by (cases x) (auto simp: opt_resources_def token_ok_def)
  obtain r1 w1 where first: "(case s of Some h \<Rightarrow> destroy_ph_host os srv h | None \<Rightarrow> ret ()) w = (r1, w1)" by (metis surj_pair)
  note a = one [OF assms(2) first]
  have "(case q of Some h \<Rightarrow> destroy_ph_host os srv h | None \<Rightarrow> ret ()) w1 = (r, w')"
    using assms(4) first a unfolding destroy_sender_receiver_pair_def by (auto simp: andthen_def)
  note b = one [OF assms(3) this]
  show "r = Inr ()" "released srv (opt_resources ph_resources s \<union> opt_resources ph_resources q) w w'"
    using b released_trans [OF conjunct2 [OF a] conjunct2 [OF b]] by auto
qed

lemma create_pair_gains:
  assumes "reads_back os srv" and "cleanup_works os srv" and "create_sender_receiver_pair os srv ids w = (r, w')"
  shows "r = Inl e \<Longrightarrow> gained srv {} w w'" and "r = Inr (s, q) \<Longrightarrow> gained srv (ph_resources s \<union> ph_resources q) w w' \<and> token_ok s \<and> token_ok q"
proof -
  obtain r1 w1 where one: "create_pair_host os srv ids 1 w = (r1, w1)" by (metis surj_pair)
  note h1 = create_pair_host_gains [OF assms(1,2) one]
  have "(r = Inl e \<longrightarrow> gained srv {} w w') \<and> (r = Inr (s, q) \<longrightarrow> gained srv (ph_resources s \<union> ph_resources q) w w' \<and> token_ok s \<and> token_ok q)"
  proof (cases r1)
    case (Inl e1)
    then have "r = Inl e1 \<and> w' = w1" using assms(3) one by (simp add: create_sender_receiver_pair_def andthen_def)
    then show ?thesis using h1(1) [OF Inl] by simp
  next
    case (Inr s1)
    note s1 = h1(2) [OF Inr]
    obtain r2 w2 where two: "create_pair_host os srv ids 2 w1 = (r2, w2)" by (metis surj_pair)
    note h2 = create_pair_host_gains [OF assms(1,2) two]
    show ?thesis
    proof (cases r2)
      case (Inl e2)
      obtain r3 w3 where three: "destroy_sender_receiver_pair os srv (Some s1) None w2 = (r3, w3)" by (metis surj_pair)
      have d: "r3 = Inr ()" "released srv (ph_resources s1) w2 w3"
        using destroy_pair_releases [OF assms(2) _ _ three] s1 by (simp_all add: opt_resources_def)
      then have "r = Inl e2 \<and> w' = w3" using assms(3) one two three Inl \<open>r1 = Inr s1\<close>
        by (simp add: create_sender_receiver_pair_def andthen_def try_except_def raise_def of_res_def)
      moreover have "gained srv (ph_resources s1) w w2" using gained_nothing_trans s1 h2(1) [OF Inl] by blast
      ultimately show ?thesis using gained_released [of srv "{}" "ph_resources s1"] d(2) by auto
    next
      case (Inr q1)
      then have "r = Inr (s1, q1) \<and> w' = w2" using assms(3) one two \<open>r1 = Inr s1\<close>
        by (simp add: create_sender_receiver_pair_def andthen_def try_except_def ret_def)
      then show ?thesis using gained_trans [OF conjunct1 [OF s1] conjunct1 [OF h2(2) [OF Inr]]] s1 h2(2) [OF Inr] by auto
    qed
  qed
  then show "r = Inl e \<Longrightarrow> gained srv {} w w'" "r = Inr (s, q) \<Longrightarrow> gained srv (ph_resources s \<union> ph_resources q) w w' \<and> token_ok s \<and> token_ok q" by blast+
qed

abbreviation no_hosts :: "attack_bed \<Rightarrow> bool" where
  "no_hosts d \<equiv> ab_sender d = None \<and> ab_receiver d = None \<and> ab_capture d = None"

lemma create_pair_step:
  assumes "reads_back os srv" and "cleanup_works os srv"
  shows "triple (\<lambda>s. covered srv w0 s \<and> no_hosts (fst s)) (andthen (on_snd (create_sender_receiver_pair os srv ids)) (\<lambda>(sender, receiver).
       modify_fst (\<lambda>d. d\<lparr>ab_sender := Some sender, ab_receiver := Some receiver\<rparr>)))
     (\<lambda>_ s. covered srv w0 s \<and> ab_capture (fst s) = None) (covered srv w0)"
proof -
  let ?m = "andthen (on_snd (create_sender_receiver_pair os srv ids)) (\<lambda>(sender, receiver). modify_fst (\<lambda>d. d\<lparr>ab_sender := Some sender, ab_receiver := Some receiver\<rparr>))"
  have step: "covered srv w0 s' \<and> ab_capture (fst s') = None" if start: "covered srv w0 s \<and> no_hosts (fst s)" and run: "?m s = (r, s')" for s r s'
  proof -
    obtain d w where s: "s = (d, w)" by (cases s)
    obtain r1 w1 where one: "create_sender_receiver_pair os srv ids w = (r1, w1)" by (metis surj_pair)
    show ?thesis
    proof (cases r1)
      case (Inl e)
      then have "s' = (d, w1)" using run one by (simp add: s andthen_def on_snd_run)
      then show ?thesis using start create_pair_gains(1) [OF assms one Inl] covered_quiet [of srv w0 d w w1] by (simp add: s)
    next
      case (Inr p)
      obtain x y where p: "p = (x, y)" by (cases p)
      note new = create_pair_gains(2) [OF assms one Inr [unfolded p]]
      have s': "s' = (d\<lparr>ab_sender := Some x, ab_receiver := Some y\<rparr>, w1)" using run one Inr p by (simp add: s andthen_def on_snd_run)
      have "gained srv (attack_resources d \<union> (ph_resources x \<union> ph_resources y)) w0 w1"
        using start gained_trans [OF _ conjunct1 [OF new]] by (simp add: s covered_def)
      then show ?thesis using start new by (simp add: s s' covered_def attack_resources_def opt_resources_def)
    qed
  qed
  show ?thesis by (rule tripleI) (metis step)+
qed

lemma attack_body_step:
  assumes "reads_back os srv" and "cleanup_works os srv"
  shows "triple (\<lambda>s. covered srv w0 s \<and> no_hosts (fst s)) (attack_body os ae srv gm) (\<lambda>_. covered srv w0) (covered srv w0)"
proof -
  have topology: "triple (\<lambda>s. covered srv w0 s \<and> no_hosts (fst s)) (on_snd (on_snd (get_and_validate_onos_topo_x srv gm g)))
      (\<lambda>_ s. covered srv w0 s \<and> no_hosts (fst s)) (covered srv w0)" for g
    by (rule quiet_keeps_cover) (rule gets_gain_nothing [OF only_gets_topology])
  have capture: "triple (\<lambda>s. covered srv w0 s \<and> ab_capture (fst s) = None) (modify_fst (\<lambda>d. d\<lparr>ab_capture := Some (new_capture ae i)\<rparr>))
      (\<lambda>_. covered srv w0) (covered srv w0)" for i
    by (rule tripleI) (auto simp: modify_fst_def covered_def attack_resources_def opt_resources_def new_capture_def capture_resources_def)
  have monitors: "keeps_cover srv w0 (on_snd (on_snd (monitor_start srv m)))" "keeps_cover srv w0 (on_snd (on_snd (monitor_stop srv m)))" for m
    by (rule quiet_keeps, erule monitor_quiet)+
  have clock: "keeps_cover srv w0 (ask_clock ae)" unfolding ask_clock_def by (rule quiet_keeps) (auto simp: os_ask_def)
  have wait: "keeps_cover srv w0 (with_part ab_receiver (wait_until_done os))" by (rule with_part_keeps) (rule wait_quiet)
  have analyse: "keeps_cover srv w0 (with_part ab_capture (process_capture_data os ae))" by (rule with_part_keeps) (rule process_quiet)
  have hops: "keeps_cover srv w0 (on_snd (collect_mpc_sender_hopping_times ae))" by (rule quiet_keeps) (rule collect_quiet)
  have add: "keeps_cover srv w0 (add_attack_parameter k v)" for k v
    by (rule tripleI) (auto simp: add_attack_parameter_def covered_def attack_resources_def split: sum.splits)
  show ?thesis unfolding attack_body_def
    by (rule triple_andthen [OF topology triple_andthen [OF create_pair_step [OF assms] triple_andthen [OF capture]]])
      (intro triple_andthen [where R = "\<lambda>_. covered srv w0"] start_capture_step stop_capture_step monitors sender_step receiver_step
        clock wait analyse hops triple_of_res add; assumption)
qed

lemma attack_cleanup_run:
  assumes "cleanup_works os srv" and "covered srv w0 (d, w)" and "attack_cleanup os srv (d, w) = (r, (d', w'))"
  shows "r = Inr ()" and "gained srv {} w0 w'"
proof -
  obtain r1 w1 where one: "destroy_sender_receiver_pair os srv (ab_sender d) (ab_receiver d) w = (r1, w1)" by (metis surj_pair)
  have c: "pred_option token_ok (ab_sender d)" "pred_option token_ok (ab_receiver d)" "gained srv (attack_resources d) w0 w"
    using assms(2) by (simp_all add: covered_def)
  note pair = destroy_pair_releases [OF assms(1) c(1,2) one]
  let ?d = "d\<lparr>ab_sender := None, ab_receiver := None\<rparr>"
  have "gained srv (opt_resources capture_resources (ab_capture d) \<union> (opt_resources ph_resources (ab_sender d) \<union> opt_resources ph_resources (ab_receiver d))) w0 w"
    using c(3) by (simp add: attack_resources_def Un_ac)
  from gained_released [OF this pair(2)] have cov: "gained srv (opt_resources capture_resources (ab_capture d)) w0 w1" .
  have two: "(if (case ab_capture d of None \<Rightarrow> False | Some c \<Rightarrow> is_capture_running c) then on_capture (\<lambda>_. stop_capture) else ret ()) (d, w1) = (r, (d', w'))"
    using assms(3) one pair(1) by (simp add: attack_cleanup_def andthen_def on_snd_run)
  have "r = Inr () \<and> gained srv {} w0 w'"
  proof (cases "case ab_capture d of None \<Rightarrow> False | Some c \<Rightarrow> is_capture_running c")
    case True
    then obtain k p where k: "ab_capture d = Some k" "cap_process k = Some p" by (auto simp: is_capture_running_def split: option.splits)
    obtain evs sent where w1: "w1 = (evs, sent)" by (cases w1)
    have "r = Inr () \<and> w' = (evs @ [Terminated p], sent)"
      using two True k by (auto simp: on_capture_def on_part_def stop_capture_def w1 andthen_def)
    moreover have "gained srv ({} \<union> {Process p}) w0 (evs, sent)" using cov k by (simp add: opt_resources_def capture_resources_def w1)
    ultimately show ?thesis using gained_released [OF _ signal_process(2)] by blast
  next
    case False
    then have "opt_resources capture_resources (ab_capture d) = {}"
      by (auto simp: opt_resources_def capture_resources_def is_capture_running_def split: option.splits)
    then show ?thesis using two False cov by auto
  qed
  then show "r = Inr ()" "gained srv {} w0 w'" by blast+
qed

subsection \<open>Delays on the interface\<close>

text \<open>The commands have no quotes, so that \<open>shlex.split\<close> splits them at their spaces.\<close>

definition execute_shell_command :: "os_env \<Rightarrow> attack_env \<Rightarrow> string \<Rightarrow> string act" where
  "execute_shell_command os ae cmd_to_exec =
     andthen (os_run os (filter (\<lambda>w. w \<noteq> '''') (split_on (CHR '' '') cmd_to_exec))) (\<lambda>_. os_ask (ae_output ae))"

definition root_handle :: "string \<Rightarrow> string res" where
  "root_handle cmd_output = rbind (py_nth (filter (\<lambda>line. contains_str line ''root'') (splitlines cmd_output)) 0) (\<lambda>root_line.
     rbind (py_nth (split_on (CHR '' '') root_line) 2) (\<lambda>w. Inr (butlast w)))"

definition get_root_qdisc_handle :: "os_env \<Rightarrow> attack_env \<Rightarrow> string \<Rightarrow> string act" where
  "get_root_qdisc_handle os ae iface =
     andthen (execute_shell_command os ae (''tc qdisc show dev '' @ iface)) (\<lambda>cmd_output. of_res (root_handle cmd_output))"

text \<open>The delays are drawn by \<open>delay_fn\<close>; the list holds what it gives.\<close>

definition create_child_qdisc_cmd :: "string \<Rightarrow> string \<Rightarrow> int \<Rightarrow> int \<Rightarrow> string" where
  "create_child_qdisc_cmd iface major child delay_ms = ''sudo tc qdisc add dev '' @ iface @ '' parent '' @ major @ '':'' @ show_int child
     @ '' netem delay '' @ show_int delay_ms @ ''ms''"

definition create_filter_cmd :: "string \<Rightarrow> string \<Rightarrow> int \<Rightarrow> int \<Rightarrow> string" where
  "create_filter_cmd iface major child udp_port_num = ''sudo tc filter add dev '' @ iface @ '' parent '' @ major
     @ '':0 prio 99 protocol ip u32 match ip sport '' @ show_int udp_port_num @ '' 0xffff flowid '' @ major @ '':'' @ show_int child"

definition add_path_hopping_delays :: "os_env \<Rightarrow> attack_env \<Rightarrow> string \<Rightarrow> int \<Rightarrow> (int \<Rightarrow> int) \<Rightarrow> unit act" where
  "add_path_hopping_delays os ae iface N delay_of =
     andthen (execute_shell_command os ae (''sudo tc qdisc add dev '' @ iface @ '' root prio bands '' @ show_int N
       @ '' priomap 0 0 0 0 0 0 0 0 0 0 0 0 0 0 0 0'')) (\<lambda>_.
     andthen (get_root_qdisc_handle os ae iface) (\<lambda>classful_major.
     andthen (each (\<lambda>child. andthen (execute_shell_command os ae (create_child_qdisc_cmd iface classful_major child (delay_of child))) (\<lambda>_. ret ())) [1..N]) (\<lambda>_.
     each (\<lambda>(child, udp_port_num). andthen (execute_shell_command os ae (create_filter_cmd iface classful_major child udp_port_num)) (\<lambda>_. ret ()))
       (zip [1..N] (map (\<lambda>i. 50200 + i) [0..8])))))"

definition remove_path_hopping_delays :: "os_env \<Rightarrow> attack_env \<Rightarrow> string \<Rightarrow> unit act" where
  "remove_path_hopping_delays os ae iface =
     andthen (execute_shell_command os ae (''sudo tc qdisc del dev '' @ iface @ '' root'')) (\<lambda>_. ret ())"

text \<open>The shell runs the commands, and its output shows the root handle.\<close>

definition shell_works :: "os_env \<Rightarrow> attack_env \<Rightarrow> bool" where
  "shell_works os ae \<longleftrightarrow> (\<forall>evs cmd. is_ok (run_code os evs cmd)) \<and> (\<forall>evs. is_ok (rbind (ae_output ae evs) root_handle))"

text \<open>Ends normally and gains nothing.\<close>

definition smooth :: "server \<Rightarrow> 'a act \<Rightarrow> bool" where
  "smooth srv m \<longleftrightarrow> (\<forall>w. \<exists>x w'. m w = (Inr x, w') \<and> gained srv {} w w')"

lemma smooth_ret [simp]: "smooth srv (ret x)"
  by (simp add: smooth_def)

lemma smooth_andthen: "smooth srv m \<Longrightarrow> (\<And>x. smooth srv (f x)) \<Longrightarrow> smooth srv (andthen m f)"
  unfolding smooth_def by (metis andthen_run(1) gained_nothing_trans)

lemma smooth_each: "(\<And>x. smooth srv (f x)) \<Longrightarrow> smooth srv (each f xs)"
  by (induction xs) (auto intro: smooth_andthen)

lemma hd_ip_addr_cmd: "ip_addr_cmd v ip i \<noteq> [] \<and> hd (ip_addr_cmd v ip i) = ''ip''"
  by (simp add: ip_addr_cmd_def)

lemma smooth_command:
  assumes "shell_works os ae" and "hd (filter (\<lambda>w. w \<noteq> '''') (split_on (CHR '' '') cmd)) \<noteq> ''ip''"
  shows "smooth srv (execute_shell_command os ae cmd)"
  unfolding smooth_def
proof
  fix w :: world
  obtain evs sent where w: "w = (evs, sent)" by (cases w)
  let ?ws = "filter (\<lambda>w. w \<noteq> '''') (split_on (CHR '' '') cmd)"
  obtain c where c: "run_code os evs ?ws = Inr c" using assms(1) unfolding shell_works_def is_ok_iff by blast
  obtain out where out: "ae_output ae (evs @ [Ran ?ws c]) = Inr out"
    using assms(1) unfolding shell_works_def is_ok_iff rbind_Inr_iff by blast
  have "gained srv {} (evs, sent) (evs @ [Ran ?ws c], sent)"
    by (rule note_event, rule allI, case_tac r) (use assms(2) hd_ip_addr_cmd in auto)
  then show "\<exists>x w'. execute_shell_command os ae cmd w = (Inr x, w') \<and> gained srv {} w w'"
    using c out by (simp add: execute_shell_command_def os_run_def andthen_def w)
qed

lemma smooth_handle:
  assumes "shell_works os ae"
  shows "smooth srv (get_root_qdisc_handle os ae iface)"
  unfolding smooth_def
proof
  fix w :: world
  let ?cmd = "''tc qdisc show dev '' @ iface"
  have "smooth srv (execute_shell_command os ae ?cmd)" by (rule smooth_command [OF assms]) simp
  then obtain out w' where run: "execute_shell_command os ae ?cmd w = (Inr out, w')" "gained srv {} w w'" unfolding smooth_def by blast
  then have "\<exists>evs. ae_output ae evs = Inr out"
    by (cases w) (auto simp: execute_shell_command_def os_run_def andthen_def split: sum.splits prod.splits)
  then have "is_ok (root_handle out)" using assms unfolding shell_works_def by (metis rbind_simps(2))
  then show "\<exists>x w'. get_root_qdisc_handle os ae iface w = (Inr x, w') \<and> gained srv {} w w'"
    using run by (auto simp: get_root_qdisc_handle_def andthen_def is_ok_iff)
qed

lemma smooth_delays:
  assumes "shell_works os ae"
  shows "smooth srv (add_path_hopping_delays os ae iface N delay_of)" "smooth srv (remove_path_hopping_delays os ae iface)"
  unfolding add_path_hopping_delays_def remove_path_hopping_delays_def create_child_qdisc_cmd_def create_filter_cmd_def
  by (intro smooth_andthen smooth_each smooth_command [OF assms] smooth_handle [OF assms] smooth_ret; simp split: prod.splits;
      intro allI impI smooth_andthen smooth_command [OF assms] smooth_ret; simp)+

lemma attack_outcome:
  assumes "reads_back os srv" and "cleanup_works os srv" and "conduct_attacker_trial os ae srv gm (t, w) = (r, (t', w'))"
  shows "gained srv {} w w'" and "r = Inr ()"
proof -
  let ?d = "\<lparr>ab_sender = None, ab_receiver = None, ab_capture = None, ab_trial = t\<rparr>"
  have start: "covered srv w (?d, w) \<and> no_hosts (fst (?d, w))" by (simp add: covered_def)
  obtain r1 d1 w1 where body: "try_except (attack_body os ae srv gm) (\<lambda>_. ret ()) (?d, w) = (r1, (d1, w1))" by (metis surj_pair)
  have "triple (\<lambda>s. covered srv w s \<and> no_hosts (fst s)) (try_except (attack_body os ae srv gm) (\<lambda>_. ret ())) (\<lambda>_. covered srv w) (\<lambda>_. False)"
    by (rule triple_try_except [OF attack_body_step [OF assms(1,2)]]) (rule triple_ret)
  from tripleD [OF this start] have acc: "covered srv w (d1, w1)" and r1: "r1 = Inr ()" using body by (cases r1; auto)+
  obtain r2 d2 w2 where fin: "attack_cleanup os srv (d1, w1) = (r2, (d2, w2))" by (metis surj_pair)
  note clean = attack_cleanup_run [OF assms(2) acc fin]
  have "try_finally (try_except (attack_body os ae srv gm) (\<lambda>_. ret ())) (attack_cleanup os srv) (?d, w) = (Inr (), (d2, w2))"
    using fin clean(1) r1 by (simp add: try_finally_def body andthen_def)
  then have "conduct_attacker_trial os ae srv gm (t, w) = (Inr (), (ab_trial d2, w2))" by (simp add: conduct_attacker_trial_def)
  then show "gained srv {} w w'" "r = Inr ()" using clean(2) assms(3) by simp_all
qed

subsection \<open>Properties\<close>


definition ex_attack_env :: attack_env where
  "ex_attack_env = \<lparr>ae_packets = (\<lambda>_. Inr []), ae_hops = (\<lambda>_. Inr ''12''), ae_output = (\<lambda>_. Inr ''qdisc prio 8001: root refcnt 2 bands 9''),
     ae_clock = (\<lambda>evs. of_nat (length evs)), ae_capture_number = 7\<rparr>"


end
