(* ===== verification/Testbed_Main.thy ===== *)
theory Testbed_Main
  imports Attacker_Testbed Path_Hopping_Trials Sim_Trials Results_Repository
begin

section \<open>The testbed programs\<close>

text \<open>
  Models \<open>main\<close> of \<open>rest_client/path_hopping.py\<close> and of \<open>rest_client/path_hopping_attacker_testing.py\<close>: open the
  repository, make the trials, conduct each of them on the testbed and store the provider.  Of the first the
  mode \<open>testbed\<close> is modelled, which is the one that is set; the graph \<open>G\<close> stands for \<open>TARGET_GRAPH\<close> as the
  allocators see it.
\<close>

definition ph_base :: fpath where
  "ph_base = [''home'', ''cpsc-net-user'', ''results-repositories'', ''benchmarks'']"

text \<open>A loop that conducts trials; each is changed in place.\<close>

fun conduct_all :: "(trial \<times> world, unit) prog \<Rightarrow> trial list \<Rightarrow> trial list act" where
  "conduct_all conduct [] = ret []"
| "conduct_all conduct (t # ts) = (\<lambda>w. case conduct (t, w) of
       (Inl e, (_, w')) \<Rightarrow> (Inl e, w')
     | (Inr _, (t', w')) \<Rightarrow> andthen (conduct_all conduct ts) (\<lambda>ts'. ret (t' # ts')) w')"

definition path_hopping_main ::
    "os_env \<Rightarrow> server \<Rightarrow> matcher \<Rightarrow> 'q randint \<Rightarrow> 'r ph_env \<Rightarrow> ph_graph \<Rightarrow> nat \<Rightarrow> fs \<Rightarrow> 'q \<Rightarrow> world \<Rightarrow> (fs \<times> 'q) res option \<times> world" where
  "path_hopping_main os srv gm randint env G fuel fs q w =
     (case create_repository fs ph_base ''/provider-name'' ''path-hopping-trial-results'' of
        Inl e \<Rightarrow> (Some (Inl e), w)
      | Inr (fs1, results_repository) \<Rightarrow> (case multiflow_tests_uniform randint env G fuel q of
          None \<Rightarrow> (None, w)
        | Some (Inl e) \<Rightarrow> (Some (Inl e), w)
        | Some (Inr (tp, q')) \<Rightarrow> (case conduct_all (conduct_path_hopping_trial os srv gm) (tp_trials tp) w of
            (Inl e, w') \<Rightarrow> (Some (Inl e), w')
          | (Inr ts, w') \<Rightarrow>
              (Some (rbind (write_trial_provider results_repository fs1 [(''provider-name'', provider_name tp)] (tp\<lparr>tp_trials := ts\<rparr>) True False)
                 (\<lambda>(fs2, _). Inr (fs2, q'))), w'))))"

text \<open>
  In the attacker tests the number \<open>K\<close> of a trial is printed with \<open>%d\<close> before it is conducted; \<open>delay_of\<close> are the
  delays that numpy draws.
\<close>

definition announce :: "trial \<Rightarrow> unit res" where
  "announce t = rbind (get_parameter t ''K'') (\<lambda>v. case v of PInt _ \<Rightarrow> Inr () | PFloat _ \<Rightarrow> Inr () | _ \<Rightarrow> Inl TypeError)"

definition attacker_main ::
    "os_env \<Rightarrow> attack_env \<Rightarrow> server \<Rightarrow> matcher \<Rightarrow> 'q randint \<Rightarrow> (int \<Rightarrow> int) \<Rightarrow> fs \<Rightarrow> 'q \<Rightarrow> world \<Rightarrow> (fs \<times> 'q) res \<times> world" where
  "attacker_main os ae srv gm randint delay_of fs q =
     andthen (of_res (create_repository fs ph_base ''/provider-name'' ''path-hopping-trial-results'')) (\<lambda>(fs1, results_repository).
     andthen (of_res (test_with_varying_delta_values randint q)) (\<lambda>(tp, q').
     andthen (add_path_hopping_delays os ae ''ens192'' 9 delay_of) (\<lambda>_.
     andthen (conduct_all (\<lambda>(t, w). case announce t of Inl e \<Rightarrow> (Inl e, (t, w)) | Inr _ \<Rightarrow> conduct_attacker_trial os ae srv gm (t, w)) (tp_trials tp)) (\<lambda>ts.
     andthen (remove_path_hopping_delays os ae ''ens192'') (\<lambda>_.
     of_res (rbind (write_trial_provider results_repository fs1 [(''provider-name'', provider_name tp)] (tp\<lparr>tp_trials := ts\<rparr>) True False)
       (\<lambda>(fs2, _). Inr (fs2, q'))))))))"

subsection \<open>What the programs rely on\<close>

lemma allocated_has: "allocated_trial G n t \<Longrightarrow> has_parameter t ''seed-number'' \<and> has_parameter t ''flow-set''"
  by (auto simp: allocated_trial_def get_parameter_def has_parameter_def dict_has_iff split: option.splits)

lemma conduct_all_run:
  assumes "\<And>t w. t \<in> set ts \<Longrightarrow> \<exists>t' w'. conduct (t, w) = (Inr (), (t', w')) \<and> gained srv {} w w'"
  shows "\<exists>ts' w'. conduct_all conduct ts w = (Inr ts', w') \<and> length ts' = length ts \<and> gained srv {} w w'"
  using assms
proof (induction ts arbitrary: w)
  case (Cons t ts)
  obtain t' w1 where 1: "conduct (t, w) = (Inr (), (t', w1))" "gained srv {} w w1" using Cons.prems [of t w] by auto
  obtain ts' w2 where 2: "conduct_all conduct ts w1 = (Inr ts', w2)" "length ts' = length ts" "gained srv {} w1 w2"
    using Cons.IH [of w1] Cons.prems by auto
  have "conduct_all conduct (t # ts) w = (Inr (t' # ts'), w2)" using 1(1) 2(1) by (simp add: andthen_def)
  then show ?case using 2(2) gained_nothing_trans [OF 1(2) 2(3)] by (intro exI [of _ "t' # ts'"] exI [of _ w2]) simp
qed simp

subsection \<open>Properties\<close>



lemma delta_trials:
  "\<exists>tp q'. test_with_varying_delta_values randint q = Inr (tp, q') \<and> provider_name tp = ''delta-values-discrete-delay''
     \<and> length (tp_trials tp) = 3 \<and> (\<forall>t \<in> set (tp_trials tp). announce t = Inr ())"
  by (simp add: test_with_varying_delta_values_def attacker_test_params_def new_trial_def case_prod_unfold Let_def add_parameters_def
      add_parameter_def dict_has_def dict_set_def add_trial_def new_trial_provider_def announce_def get_parameter_def)

text \<open>
  The attacker tests run to their end whatever fails in the trials, leave no address, virtual host or process
  behind, and store their three trials in a repository that can be opened again, where the shell runs the
  commands for the delays.
\<close>

theorem attacker_main_stores:
  assumes "shell_works os ae" and "reads_back os srv" and "cleanup_works os srv"
    and "fs_wf fs" and "clear_way fs ph_base" and "\<not> fs_exists fs ph_base"
  shows "\<exists>fs' q' repo tp w'. attacker_main os ae srv gm randint delay_of fs q w = (Inr (fs', q'), w')
    \<and> (\<forall>r. holds srv r w' \<longrightarrow> holds srv r w)
    \<and> create_repository fs' ph_base ''/provider-name'' ''path-hopping-trial-results'' = Inr (fs', repo)
    \<and> read_trial_provider repo fs' ''delta-values-discrete-delay'' = Inr tp \<and> provider_len tp = 3"
proof -
  let ?n = "''delta-values-discrete-delay''" and ?name = "''path-hopping-trial-results''"
  have "plain ?n" "?n \<noteq> REPO_METADATA_FILE" by (simp_all add: plain_def REPO_METADATA_FILE_def)
  from fresh_repository_stores [OF assms(4-6) this, of ?name] obtain fs1 repo where
    1: "create_repository fs ph_base ''/provider-name'' ?name = Inr (fs1, repo)"
      "\<And>tp. provider_name tp = ?n \<Longrightarrow> stores fs1 repo ph_base ?name tp" by blast
  from delta_trials [of randint q] obtain tp q' where
    tp: "test_with_varying_delta_values randint q = Inr (tp, q')" "provider_name tp = ?n" "length (tp_trials tp) = 3"
      "\<forall>t \<in> set (tp_trials tp). announce t = Inr ()" by blast
  let ?conduct = "\<lambda>(t, w). case announce t of Inl e \<Rightarrow> (Inl e, (t, w)) | Inr _ \<Rightarrow> conduct_attacker_trial os ae srv gm (t, w)"
  obtain u w1 where w1: "add_path_hopping_delays os ae ''ens192'' 9 delay_of w = (Inr u, w1)" "gained srv {} w w1"
    using smooth_delays(1) [OF assms(1), of srv] unfolding smooth_def by blast
  have "\<exists>t' w'. ?conduct (t, w) = (Inr (), (t', w')) \<and> gained srv {} w w'" if "t \<in> set (tp_trials tp)" for t w
  proof -
    obtain r t' w' where run: "conduct_attacker_trial os ae srv gm (t, w) = (r, (t', w'))" by (metis surj_pair)
    from attack_outcome [OF assms(2,3) run] tp(4) that run show ?thesis by simp
  qed
  from conduct_all_run [where conduct = ?conduct, OF this] obtain ts w2 where
    ts: "conduct_all ?conduct (tp_trials tp) w1 = (Inr ts, w2)" "length ts = length (tp_trials tp)" "gained srv {} w1 w2" by blast
  obtain v w3 where w3: "remove_path_hopping_delays os ae ''ens192'' w2 = (Inr v, w3)" "gained srv {} w2 w3"
    using smooth_delays(2) [OF assms(1), of srv] unfolding smooth_def by blast
  let ?tp = "tp\<lparr>tp_trials := ts\<rparr>"
  obtain fs' where 2: "write_trial_provider repo fs1 [(''provider-name'', ?n)] ?tp True False = Inr (fs', ?tp)"
    "create_repository fs' ph_base ''/provider-name'' ?name = Inr (fs', repo)" "read_trial_provider repo fs' ?n = Inr ?tp"
    using 1(2) [of ?tp] tp(2) by (auto simp: stores_def)
  have "attacker_main os ae srv gm randint delay_of fs q w = (Inr (fs', q'), w3)"
    by (simp add: attacker_main_def 1(1) tp(1,2) andthen_def w1(1) ts(1) w3(1) 2(1))
  moreover have "gained srv {} w w3" using gained_nothing_trans [OF gained_nothing_trans [OF w1(2) ts(3)] w3(2)] .
  moreover have "provider_len ?tp = 3" using ts(2) tp(3) by (simp add: provider_len_def)
  ultimately show ?thesis using 2(2,3) unfolding gained_def by blast
qed

theorem attacker_main_stores_witness:
  "\<exists>fs' q' repo tp w'. attacker_main ex_os ex_attack_env ex_testbed_server ex_matcher (\<lambda>q lo hi. (lo, q)) (\<lambda>i. 100) [([''home''], Dir)] () ([], []) = (Inr (fs', q'), w')
    \<and> (\<forall>r. \<not> holds ex_testbed_server r w')
    \<and> create_repository fs' ph_base ''/provider-name'' ''path-hopping-trial-results'' = Inr (fs', repo)
    \<and> read_trial_provider repo fs' ''delta-values-discrete-delay'' = Inr tp \<and> provider_len tp = 3"
proof -
  have "shell_works ex_os ex_attack_env"
    by (simp add: shell_works_def ex_os_def ex_attack_env_def is_ok_def root_handle_def splitlines_def py_nth_def)
  moreover have "clear_way [([''home''], Dir)] ph_base" by code_simp
  moreover have "fs_wf [([''home''], Dir)]" "\<not> fs_exists [([''home''], Dir)] ph_base" by (simp_all add: fs_wf_def is_dir_def ph_base_def fs_exists_def)
  ultimately show ?thesis
    using attacker_main_stores [OF _ ex_testbed_works, of ex_attack_env "[([''home''], Dir)]" ex_matcher "\<lambda>q lo hi. (lo, q)" "\<lambda>i. 100" "()" "([], [])"] by simp
qed

end
