(* ===== verification/Traffic_Gen.thy ===== *)
theory Traffic_Gen
  imports Virtual_Host Traffic_Reports
begin

section \<open>The traffic generator\<close>

text \<open>
  Models \<open>traffic_generation/traffic_gen.py\<close>, the process a traffic generating host starts: it sends the
  packets of its flows in bursts of ten, tags each packet with one of the tags of its flow, and goes
  on until it is interrupted; the handler of the signal writes down how many packets it sent.

  The process is observed through its operations: reading a clock, drawing a random number, binding a
  socket, setting its type of service, sending a packet and counting a burst.  What they answer is a
  parameter (\<open>gen_env\<close>) that may depend on the number of the operation, and so is the number of the operation before
  which the signal is delivered: a run ends there at the latest, wherever in the program that is.
\<close>

subsection \<open>Traffic models and rates\<close>

datatype traffic_models = UNIFORM | TRUNC_NORM | RANDOM_SAMPLING | TRUNC_NORM_SYMMETRIC | GAMMA | PRECOMPUTED

definition traffic_model_from_str :: "string \<Rightarrow> traffic_models res" where
  "traffic_model_from_str string_rep = (let s = lower string_rep in
     if s = ''uniform'' then Inr UNIFORM
     else if s = ''trunc_norm'' then Inr TRUNC_NORM
     else if s = ''random_sampling'' then Inr RANDOM_SAMPLING
     else if s = ''trunc_norm_symmetric'' then Inr TRUNC_NORM_SYMMETRIC
     else if s = ''gamma'' then Inr GAMMA
     else if s = ''precomputed'' then Inr PRECOMPUTED
     else Inl ValueError)"

record precomputed_tap_distribution =
  tap_rates_list :: "pyfloat list"
  tap_rate_idx :: nat

definition precomputed_tap :: "pyfloat list \<Rightarrow> precomputed_tap_distribution" where
  "precomputed_tap rates = \<lparr>tap_rates_list = rates, tap_rate_idx = 0\<rparr>"

definition tap_next :: "precomputed_tap_distribution \<Rightarrow> (pyfloat \<times> precomputed_tap_distribution) res" where
  "tap_next d = rbind (py_nth (tap_rates_list d) (int (tap_rate_idx d))) (\<lambda>rate_to_return.
     Inr (rate_to_return, d\<lparr>tap_rate_idx := (tap_rate_idx d + 1) mod length (tap_rates_list d)\<rparr>))"

text \<open>
  The frozen distributions of \<open>scipy.stats\<close> by their arguments.  The square root of \<open>math\<close>, which is of floating point
  numbers, is a parameter.
\<close>

datatype distribution =
    Truncnorm pyfloat pyfloat pyfloat pyfloat
  | Uniform pyfloat pyfloat
  | Gamma pyfloat pyfloat
  | Tap precomputed_tap_distribution

definition uniform_paramaters :: "(pyfloat \<Rightarrow> pyfloat) \<Rightarrow> pyfloat \<Rightarrow> pyfloat \<Rightarrow> (pyfloat \<times> pyfloat) res" where
  "uniform_paramaters math_sqrt mu sigma2 = (if 12 * sigma2 < 0 then Inl ValueError else
     let b = (math_sqrt (12 * sigma2) + 2 * mu) / 2; a = 2 * mu - b in Inr (a, b))"

definition truncnorm_between :: "pyfloat \<Rightarrow> pyfloat \<Rightarrow> pyfloat \<Rightarrow> pyfloat \<Rightarrow> distribution res" where
  "truncnorm_between min_dist_val max_dist_val mu sigma =
     rbind (py_div (min_dist_val - mu) sigma) (\<lambda>a.
     rbind (py_div (max_dist_val - mu) sigma) (\<lambda>b. Inr (Truncnorm a b mu sigma)))"

fun create_distribution :: "(pyfloat \<Rightarrow> pyfloat) \<Rightarrow> pyfloat \<Rightarrow> pyfloat \<Rightarrow> traffic_models \<Rightarrow> pyfloat list option \<Rightarrow> distribution res" where
  "create_distribution math_sqrt mu sigma TRUNC_NORM transmit_rates = truncnorm_between 0 (2 ^ 32 - 1) mu sigma"
| "create_distribution math_sqrt mu sigma RANDOM_SAMPLING transmit_rates = truncnorm_between 0 (2 ^ 32 - 1) mu sigma"
| "create_distribution math_sqrt mu sigma TRUNC_NORM_SYMMETRIC transmit_rates = truncnorm_between 0 (mu * 2) mu sigma"
| "create_distribution math_sqrt mu sigma UNIFORM transmit_rates =
     rbind (uniform_paramaters math_sqrt mu sigma) (\<lambda>(a, b). Inr (Uniform a (b - a)))"
| "create_distribution math_sqrt mu sigma GAMMA transmit_rates =
     rbind (py_div sigma mu) (\<lambda>theta. rbind (py_div sigma (theta ^ 2)) (\<lambda>a. Inr (Gamma a theta)))"
| "create_distribution math_sqrt mu sigma PRECOMPUTED transmit_rates = (case transmit_rates of
       None \<Rightarrow> Inl ValueError
     | Some rates \<Rightarrow> Inr (Tap (precomputed_tap rates)))"

text \<open>
  The uniform distribution has the mean and the variance it is asked for, where the square root is exact, and so has the gamma
  distribution, whose mean and variance are \<open>a * scale\<close> and \<open>a * scale\<^sup>2\<close>.
\<close>

lemma uniform_moments:
  assumes "create_distribution math_sqrt mu sigma UNIFORM rates = Inr (Uniform a width)"
    and "math_sqrt (12 * sigma) ^ 2 = 12 * sigma"
  shows "a + width / 2 = mu" and "width ^ 2 / 12 = sigma"
proof -
  have "width = math_sqrt (12 * sigma)" "a = mu - math_sqrt (12 * sigma) / 2"
    using assms(1) by (auto simp: uniform_paramaters_def Let_def field_simps split: if_splits)
  then show "a + width / 2 = mu" "width ^ 2 / 12 = sigma" using assms(2) by simp_all
qed

lemma gamma_moments:
  assumes "create_distribution math_sqrt mu sigma GAMMA rates = Inr (Gamma a scale)"
  shows "a * scale = mu" and "a * scale ^ 2 = sigma"
  using assms by (auto simp: py_div_def rbind_Inr_iff power2_eq_square field_simps split: if_splits)

subsection \<open>Flow parameters\<close>

text \<open>
  The attributes of \<open>FlowParameters\<close>, with the types \<open>configure_flow\<close> writes them with.  A value of another type is a
  \<open>TypeError\<close> here, while the program raises it where the value is first used.
\<close>

record flow_parameters =
  fp_dest_port :: int
  fp_dest_addr :: string
  fp_prob_mat :: "pyfloat list"
  fp_tx_rate :: pyfloat
  fp_variance :: pyfloat
  fp_traffic_model :: traffic_models
  fp_packet_len :: int
  fp_src_host :: int
  fp_time_slice :: pyfloat
  fp_tag_value :: "int list option"
  fp_transmit_rates :: "pyfloat list option"
  fp_source_addr :: "string option"
  fp_data_str :: string
  fp_flow_id :: int

definition opt_dec :: "(json \<Rightarrow> 'a res) \<Rightarrow> json \<Rightarrow> 'a option res" where
  "opt_dec dec j = (if j = JNull then Inr None else rbind (dec j) (\<lambda>x. Inr (Some x)))"

definition keyword_arg :: "(string, json) dict \<Rightarrow> string \<Rightarrow> (json \<Rightarrow> 'a res) \<Rightarrow> 'a \<Rightarrow> 'a res" where
  "keyword_arg d k dec dflt = (case map_of d k of None \<Rightarrow> Inr dflt | Some v \<Rightarrow> dec v)"

definition flow_parameter_names :: "string list" where
  "flow_parameter_names = [''dest_port'', ''dest_addr'', ''prob_mat'', ''tx_rate'', ''variance'', ''traffic_model'', ''packet_len'',
     ''src_host'', ''time_slice'', ''tag_value'', ''transmit_rates'', ''source_addr'', ''flow_id'']"

text \<open>\<open>FlowParameters(**d)\<close> where \<open>d['traffic_model']\<close> is the member \<open>model\<close> already.\<close>

definition flow_parameters_of :: "(string, json) dict \<Rightarrow> traffic_models \<Rightarrow> flow_parameters res" where
  "flow_parameters_of d model =
     (if \<not> set (dict_keys d) \<subseteq> set flow_parameter_names then Inl TypeError else
      rbind (keyword_arg d ''dest_port'' json_int 0) (\<lambda>dest_port.
      rbind (keyword_arg d ''dest_addr'' json_str ''0.0.0.0'') (\<lambda>dest_addr.
      rbind (keyword_arg d ''prob_mat'' (list_dec json_float) []) (\<lambda>prob_mat.
      rbind (keyword_arg d ''tx_rate'' json_float 131072) (\<lambda>tx_rate.
      rbind (keyword_arg d ''variance'' json_float 131072) (\<lambda>variance.
      rbind (keyword_arg d ''packet_len'' json_int 1024) (\<lambda>packet_len.
      rbind (keyword_arg d ''src_host'' json_int 0) (\<lambda>src_host.
      rbind (keyword_arg d ''time_slice'' json_float 1) (\<lambda>time_slice.
      rbind (keyword_arg d ''tag_value'' (opt_dec (list_dec json_int)) None) (\<lambda>tag_value.
      rbind (keyword_arg d ''transmit_rates'' (opt_dec (list_dec json_float)) None) (\<lambda>transmit_rates.
      rbind (keyword_arg d ''source_addr'' (opt_dec json_str) None) (\<lambda>source_addr.
      rbind (keyword_arg d ''flow_id'' json_int 0) (\<lambda>flow_id.
      Inr \<lparr>fp_dest_port = dest_port, fp_dest_addr = dest_addr, fp_prob_mat = prob_mat, fp_tx_rate = tx_rate,
        fp_variance = variance, fp_traffic_model = model, fp_packet_len = packet_len, fp_src_host = src_host,
        fp_time_slice = time_slice, fp_tag_value = tag_value, fp_transmit_rates = transmit_rates,
        fp_source_addr = source_addr, fp_data_str = replicate (nat packet_len) CHR ''x'', fp_flow_id = flow_id\<rparr>)))))))))))))"

text \<open>
  \<open>d['traffic_model']\<close> is read and parsed in every dictionary before the first \<open>FlowParameters\<close> is made.
  The method \<open>lower\<close> of what is not a text is an \<open>AttributeError\<close>.
\<close>

definition parse_traffic_model :: "json \<Rightarrow> ((string, json) dict \<times> traffic_models) res" where
  "parse_traffic_model j = rbind (json_get j ''traffic_model'') (\<lambda>m. case m of
       JStr s \<Rightarrow> rbind (traffic_model_from_str s) (\<lambda>model. case j of JObj d \<Rightarrow> Inr (d, model) | _ \<Rightarrow> Inl TypeError)
     | _ \<Rightarrow> Inl AttributeError)"

definition flow_parameters_list :: "json \<Rightarrow> (nat, flow_parameters) dict res" where
  "flow_parameters_list argument_dicts =
     rbind (json_list argument_dicts) (\<lambda>ds.
     rbind (map_res parse_traffic_model ds) (\<lambda>parsed.
     rbind (map_res (\<lambda>(d, model). flow_parameters_of d model) parsed) (\<lambda>fps. Inr (enumerate 0 fps))))"

text \<open>
  The text of \<open>pathlib.Path\<close> of a text: empty components and single dots are dropped.  The operand of
  \<open>int\<close> is the fourth part of that text between dashes.
\<close>

definition path_text :: "string \<Rightarrow> string" where
  "path_text s =
     (let root = (if startswith s ''//'' \<and> \<not> startswith s ''///'' then ''//'' else if startswith s ''/'' then ''/'' else '''');
          parts = filter (\<lambda>c. c \<noteq> [] \<and> c \<noteq> ''.'') (split_on CHR ''/'' s)
      in if root = [] \<and> parts = [] then ''.'' else root @ join_with ''/'' parts)"

definition gen_get_args :: "(string \<Rightarrow> json res) \<Rightarrow> string list \<Rightarrow> (int \<times> (nat, flow_parameters) dict) res" where
  "gen_get_args files argv1 =
     (if argv1 = [] then Inl TypeError else
      let path_to_args_file = path_text (concat argv1) in
      rbind (py_nth (split_on CHR ''-'' path_to_args_file) 3) (\<lambda>part.
      rbind (py_int part) (\<lambda>instance_id.
      rbind (files path_to_args_file) (\<lambda>argument_dicts.
      rbind (flow_parameters_list argument_dicts) (\<lambda>fp_list. Inr (instance_id, fp_list))))))"

subsection \<open>State and operations of the process\<close>

text \<open>A packet carries the number of its socket, the type of service that is set there, and what \<open>sendto\<close> is given.\<close>

record packet =
  pkt_sock :: nat
  pkt_tos :: "int option"
  pkt_data :: string
  pkt_addr :: string
  pkt_port :: int

text \<open>
  The square root, and answers by the number of the operation: \<open>time.time\<close>, \<open>time.perf_counter\<close>, \<open>random.uniform(0, 1)\<close>,
  \<open>random.choice([0, 1])\<close>, \<open>rvs\<close> of a distribution, \<open>bind\<close>, \<open>sendto\<close> and the port that \<open>getsockname\<close> gives.
  The signal comes before operation number \<open>sig_at\<close>.
\<close>

record gen_env =
  sig_at :: nat
  msqrt :: "pyfloat \<Rightarrow> pyfloat"
  time_time :: "nat \<Rightarrow> pyfloat"
  perf_time :: "nat \<Rightarrow> pyfloat"
  uniform_pick :: "nat \<Rightarrow> pyfloat"
  coin :: "nat \<Rightarrow> nat"
  dist_rvs :: "nat \<Rightarrow> distribution \<Rightarrow> pyfloat"
  bind_to :: "nat \<Rightarrow> string \<Rightarrow> unit res"
  send_to :: "nat \<Rightarrow> packet \<Rightarrow> unit res"
  sock_port :: "nat \<Rightarrow> nat \<Rightarrow> int"

text \<open>The globals \<open>flow_params\<close>, \<open>sock_dict\<close>, \<open>pkt_count\<close> and \<open>INSTANCE_ID\<close>; the rest is what the system keeps.
  A socket is named by a number.\<close>

record gen_state =
  ops :: nat
  g_instance_id :: "int option"
  g_flow_params :: "(nat, flow_parameters) dict option"
  g_sock_dict :: "(nat, nat) dict option"
  g_pkt_count :: "(nat, int) dict"
  sock_tos :: "(nat, int) dict"
  sent :: "packet list"
  written :: "(string \<times> (nat, flow_info) dict) option"

definition gen_start :: gen_state where
  "gen_start = \<lparr>ops = 0, g_instance_id = None, g_flow_params = None, g_sock_dict = None, g_pkt_count = [], sock_tos = [],
     sent = [], written = None\<rparr>"

text \<open>\<open>exit()\<close> raises \<open>SystemExit\<close>, which nothing in the program catches.\<close>

datatype gen_stop = Died py_error | Exited

type_synonym 'a gen = "(gen_state, gen_stop, 'a) stop_prog"

definition lift_res :: "'a res \<Rightarrow> 'a gen" where
  "lift_res r = of_res (map_sum Died id r)"

definition modify_gen :: "(gen_state \<Rightarrow> gen_state) \<Rightarrow> unit gen" where
  "modify_gen f = (\<lambda>s. (Inr (), f s))"

definition BURST_COUNT :: nat where
  "BURST_COUNT = 10"

definition sender_file :: "int option \<Rightarrow> int option \<Rightarrow> string" where
  "sender_file src_host_id instance_id =
     (let text_of = (\<lambda>x. case x of None \<Rightarrow> ''None'' | Some i \<Rightarrow> show_int i)
      in ''/tmp/sender_'' @ text_of src_host_id @ ''-'' @ text_of instance_id @ ''.p'')"

text \<open>
  \<open>items\<close> of the global is an \<open>AttributeError\<close> while it is \<open>None\<close>, an entry of \<open>sock_dict\<close> a \<open>TypeError\<close>; \<open>src_host_id\<close> is that of
  the last flow.
\<close>

definition flow_info_of :: "gen_env \<Rightarrow> gen_state \<Rightarrow> nat \<times> flow_parameters \<Rightarrow> (nat \<times> flow_info) res" where
  "flow_info_of env s = (\<lambda>(flow_num, fp). case g_sock_dict s of
       None \<Rightarrow> Inl TypeError
     | Some socks \<Rightarrow> rbind (dict_get socks flow_num) (\<lambda>sock.
         Inr (flow_num, \<lparr>fi_pkt_count = dict_get_default (g_pkt_count s) flow_num 0, fi_src_port = sock_port env (ops s) sock,
           fi_src_host = fp_src_host fp, fi_dst_ip = fp_dest_addr fp, fi_flow_id = fp_flow_id fp\<rparr>)))"

definition handle_sig_int :: "gen_env \<Rightarrow> gen_state \<Rightarrow> gen_stop \<times> gen_state" where
  "handle_sig_int env s = (case g_flow_params s of
       None \<Rightarrow> (Died AttributeError, s)
     | Some flow_params \<Rightarrow>
        (case map_res (flow_info_of env s) flow_params of
           Inl e \<Rightarrow> (Died e, s)
         | Inr flow_info \<Rightarrow>
             (let src_host_id = (if flow_params = [] then None else Some (fp_src_host (snd (last flow_params))))
              in (Exited, s\<lparr>written := Some (sender_file src_host_id (g_instance_id s), flow_info)\<rparr>))))"

text \<open>An operation, unless the signal comes first.\<close>

definition op :: "gen_env \<Rightarrow> (nat \<Rightarrow> 'a res) \<Rightarrow> 'a gen" where
  "op env answer = (\<lambda>s. if ops s < sig_at env
     then lift_res (answer (ops s)) (s\<lparr>ops := Suc (ops s)\<rparr>)
     else case handle_sig_int env s of (stop, s') \<Rightarrow> (Inl stop, s'))"

subsection \<open>Rates and tags\<close>

definition sample_distr :: "gen_env \<Rightarrow> distribution \<Rightarrow> pyfloat gen" where
  "sample_distr env distr = op env (\<lambda>n. Inr (dist_rvs env n distr))"

text \<open>
  The rate and the distribution afterwards.  A precomputed distribution has no \<open>rvs\<close> and the others are no
  iterators, but \<open>create_distribution\<close> makes the one that the traffic model calls for.
\<close>

definition select_tx_rate :: "gen_env \<Rightarrow> flow_parameters \<Rightarrow> pyfloat \<Rightarrow> distribution \<Rightarrow> (pyfloat \<times> distribution) gen" where
  "select_tx_rate env args old_rate distr =
     (let sample = andthen (sample_distr env distr) (\<lambda>r. ret (r, distr)) in
      case fp_traffic_model args of
        UNIFORM \<Rightarrow> sample
      | TRUNC_NORM \<Rightarrow> sample
      | RANDOM_SAMPLING \<Rightarrow> andthen (op env (\<lambda>n. Inr (coin env n))) (\<lambda>c. if c = 0 then sample else ret (old_rate, distr))
      | TRUNC_NORM_SYMMETRIC \<Rightarrow> sample
      | GAMMA \<Rightarrow> sample
      | PRECOMPUTED \<Rightarrow> (case distr of
            Tap d \<Rightarrow> lift_res (rbind (tap_next d) (\<lambda>(r, d'). Inr (r, Tap d')))
          | _ \<Rightarrow> lift_res (Inl TypeError)))"

definition calc_dscp_val :: "nat \<Rightarrow> int list option \<Rightarrow> int res" where
  "calc_dscp_val flow_num tag_values = (case tag_values of
       None \<Rightarrow> Inl TypeError
     | Some tags \<Rightarrow> rbind (py_nth tags (int flow_num)) (\<lambda>tag. Inr (push_bit 2 tag)))"

fun select_path :: "pyfloat \<Rightarrow> pyfloat \<Rightarrow> nat \<Rightarrow> pyfloat list \<Rightarrow> nat option" where
  "select_path random_pick accumulator flow_num [] = None"
| "select_path random_pick accumulator flow_num (proportion # ps) =
     (if random_pick \<le> accumulator + proportion then Some flow_num
      else select_path random_pick (accumulator + proportion) (Suc flow_num) ps)"

definition select_dscp :: "gen_env \<Rightarrow> pyfloat list \<Rightarrow> int list option \<Rightarrow> int option gen" where
  "select_dscp env prob_matrix tag_values =
     andthen (op env (\<lambda>n. Inr (uniform_pick env n))) (\<lambda>random_pick.
     case select_path random_pick 0 0 prob_matrix of
       None \<Rightarrow> ret None
     | Some flow_num \<Rightarrow> lift_res (rbind (calc_dscp_val flow_num tag_values) (\<lambda>d. Inr (Some d))))"

text \<open>\<open>setsockopt\<close> wants an integer, \<open>None\<close> is a \<open>TypeError\<close>.\<close>

definition set_dscp :: "gen_env \<Rightarrow> nat \<Rightarrow> int option \<Rightarrow> unit gen" where
  "set_dscp env sock dscp =
     andthen (op env (\<lambda>_. case dscp of None \<Rightarrow> Inl TypeError | Some d \<Rightarrow> Inr d)) (\<lambda>d.
     modify_gen (\<lambda>s. s\<lparr>sock_tos := dict_set (sock_tos s) sock d\<rparr>))"

definition the_packet :: "gen_state \<Rightarrow> nat \<Rightarrow> flow_parameters \<Rightarrow> packet" where
  "the_packet s sock fp = \<lparr>pkt_sock = sock, pkt_tos = map_of (sock_tos s) sock, pkt_data = fp_data_str fp,
     pkt_addr = fp_dest_addr fp, pkt_port = fp_dest_port fp\<rparr>"

definition sendto :: "gen_env \<Rightarrow> nat \<Rightarrow> flow_parameters \<Rightarrow> unit gen" where
  "sendto env sock fp = (\<lambda>s.
     andthen (op env (\<lambda>n. send_to env n (the_packet s sock fp))) (\<lambda>_.
       modify_gen (\<lambda>t. t\<lparr>sent := sent t @ [the_packet s sock fp]\<rparr>)) s)"

definition inc_pkt_count :: "gen_env \<Rightarrow> nat \<Rightarrow> unit gen" where
  "inc_pkt_count env flow_num = andthen (op env (\<lambda>_. Inr ())) (\<lambda>_.
     modify_gen (\<lambda>s. s\<lparr>g_pkt_count :=
       dict_set (g_pkt_count s) flow_num (dict_get_default (g_pkt_count s) flow_num 0 + int BURST_COUNT)\<rparr>))"

definition compute_inter_pkt_delay :: "int \<Rightarrow> pyfloat \<Rightarrow> pyfloat \<Rightarrow> pyfloat" where
  "compute_inter_pkt_delay pkt_len tx_rate time_slice_duration =
     (if tx_rate = 0 then time_slice_duration else of_int pkt_len / tx_rate * of_nat BURST_COUNT)"

subsection \<open>Every operation counts\<close>

text \<open>Whatever a part of the program does, the number of operations does not decrease, and an operation that
  goes on is below the limit.\<close>

definition grows :: "'a gen \<Rightarrow> bool" where
  "grows m \<longleftrightarrow> (\<forall>s r s'. m s = (r, s') \<longrightarrow> ops s \<le> ops s')"

named_theorems grows_intros \<open>parts of the program that do not decrease the number of operations\<close>

lemma growsI: "(\<And>s r s'. m s = (r, s') \<Longrightarrow> ops s \<le> ops s') \<Longrightarrow> grows m"
  by (simp add: grows_def)

lemma growsD: "grows m \<Longrightarrow> m s = (r, s') \<Longrightarrow> ops s \<le> ops s'"
  by (simp add: grows_def)

lemma lift_res_run [simp, io_simps]:
  "lift_res (Inr x) s = (Inr x, s)" "lift_res (Inl e) s = (Inl (Died e), s)"
  by (simp_all add: lift_res_def of_res_def)

lemma andthen_modify_gen [simp, io_simps]: "andthen (modify_gen g) f s = f () (g s)"
  by (simp add: andthen_def modify_gen_def)

lemma lift_res_ok: "lift_res (Inr x) = ret x"
  by (simp add: lift_res_def)

lemma lift_res_Inr: "lift_res r s = (Inr x, s') \<longleftrightarrow> r = Inr x \<and> s' = s"
  by (cases r) auto

lemma lift_res_cases: "lift_res r s = (q, s') \<longleftrightarrow> s' = s \<and> q = map_sum Died id r"
  by (auto simp: lift_res_def of_res_def)

lemma handle_sig_int_cases:
  assumes "handle_sig_int env s = (stop, s')"
  obtains (died) e where "stop = Died e" "s' = s"
    | (exited) fps info host where "stop = Exited" "g_flow_params s = Some fps" "map_res (flow_info_of env s) fps = Inr info"
        "s' = s\<lparr>written := Some (sender_file host (g_instance_id s), info)\<rparr>"
        "host = (if fps = [] then None else Some (fp_src_host (snd (last fps))))"
proof (cases "g_flow_params s")
  case None
  then show thesis using assms died by (auto simp: handle_sig_int_def)
next
  case (Some fps)
  show thesis
  proof (cases "map_res (flow_info_of env s) fps")
    case (Inl e)
    then show thesis using assms Some died by (auto simp: handle_sig_int_def)
  next
    case (Inr info)
    then show thesis using assms Some exited [OF _ Some Inr _ refl] by (simp add: handle_sig_int_def Let_def)
  qed
qed

lemma op_InrD:
  assumes "op env f s = (Inr x, s')"
  shows "ops s < sig_at env \<and> f (ops s) = Inr x \<and> s' = s\<lparr>ops := Suc (ops s)\<rparr>"
proof (cases "ops s < sig_at env")
  case True
  then show ?thesis using assms by (cases "f (ops s)") (auto simp: op_def)
next
  case False
  then show ?thesis using assms by (auto simp: op_def split: prod.splits)
qed

lemma op_run [io_simps]: "ops s < sig_at env \<Longrightarrow> f (ops s) = Inr x \<Longrightarrow> op env f s = (Inr x, s\<lparr>ops := Suc (ops s)\<rparr>)"
  by (simp add: op_def)

lemma op_stopped:
  assumes "op env f s = (Inl stop, s')"
  obtains (died) e where "stop = Died e" "ops s < sig_at env" "f (ops s) = Inl e" "s' = s\<lparr>ops := Suc (ops s)\<rparr>"
    | (handled) "sig_at env \<le> ops s" "handle_sig_int env s = (stop, s')"
proof (cases "ops s < sig_at env")
  case True
  then show thesis using assms died by (cases "f (ops s)") (auto simp: op_def)
next
  case False
  then show thesis using assms handled by (auto simp: op_def split: prod.splits)
qed

lemma grows_op [grows_intros]: "grows (op env f)"
proof (rule growsI)
  fix s r s' assume run: "op env f s = (r, s')"
  show "ops s \<le> ops s'"
  proof (cases r)
    case (Inr x)
    then show ?thesis using run op_InrD [of env f s x s'] by simp
  next
    case (Inl stop)
    with run show ?thesis by (auto elim!: op_stopped elim: handle_sig_int_cases)
  qed
qed

lemma grows_simple [grows_intros]:
  "grows (ret x)" "grows (lift_res r)" "(\<And>s. ops (f s) = ops s) \<Longrightarrow> grows (modify_gen f)"
  by (auto simp: grows_def lift_res_cases modify_gen_def)

lemma grows_andthen [grows_intros]: "grows m \<Longrightarrow> (\<And>x. grows (f x)) \<Longrightarrow> grows (andthen m f)"
proof (rule growsI)
  fix s r s' assume m: "grows m" and f: "\<And>x. grows (f x)" and run: "andthen m f s = (r, s')"
  show "ops s \<le> ops s'"
  proof (cases rule: andthen_cases [of m s f])
    case raised
    then show ?thesis using run growsD [OF m] by auto
  next
    case (went x s1)
    then have "ops s \<le> ops s1" "f x s1 = (r, s')" using run growsD [OF m] by auto
    moreover from this have "ops s1 \<le> ops s'" using growsD [OF f] by blast
    ultimately show ?thesis by simp
  qed
qed

lemma grows_each [grows_intros]: "(\<And>x. grows (f x)) \<Longrightarrow> grows (each f xs)"
  by (induction xs) (auto intro: grows_intros)

lemma grows_fold_prog [grows_intros]: "(\<And>acc x. grows (f acc x)) \<Longrightarrow> grows (fold_prog f acc xs)"
  by (induction xs arbitrary: acc) (auto intro: grows_intros)

lemma grows_sendto [grows_intros]: "grows (sendto env sock fp)"
  unfolding sendto_def
  by (rule growsI, erule growsD [rotated]) (auto intro!: grows_intros)

lemma grows_send_parts [grows_intros]:
  "grows (select_dscp env prob tags)" "grows (set_dscp env sock dscp)" "grows (inc_pkt_count env i)"
  "grows (sample_distr env distr)"
  unfolding select_dscp_def set_dscp_def inc_pkt_count_def sample_distr_def
  by (auto intro!: grows_intros split: option.splits)

lemma grows_select_tx_rate [grows_intros]: "grows (select_tx_rate env args old_rate distr)"
  unfolding select_tx_rate_def Let_def
  by (auto intro!: grows_intros split: traffic_models.splits distribution.splits)

subsection \<open>Waiting and transmitting\<close>

definition perf_counter :: "gen_env \<Rightarrow> pyfloat gen" where
  "perf_counter env = op env (\<lambda>n. Inr (perf_time env n))"

definition wall_clock :: "gen_env \<Rightarrow> pyfloat gen" where
  "wall_clock env = op env (\<lambda>n. Inr (time_time env n))"

lemma clock_InrD:
  "perf_counter env s = (Inr x, s') \<Longrightarrow> ops s < sig_at env \<and> x = perf_time env (ops s) \<and> s' = s\<lparr>ops := Suc (ops s)\<rparr>"
  "wall_clock env s = (Inr x, s') \<Longrightarrow> ops s < sig_at env \<and> x = time_time env (ops s) \<and> s' = s\<lparr>ops := Suc (ops s)\<rparr>"
  by (auto simp: perf_counter_def wall_clock_def dest: op_InrD)

lemma grows_clocks [grows_intros]: "grows (perf_counter env)" "grows (wall_clock env)"
  by (auto simp: perf_counter_def wall_clock_def intro: grows_intros)

text \<open>The loop of \<open>wait\<close>.\<close>

function wait_loop :: "gen_env \<Rightarrow> pyfloat \<Rightarrow> pyfloat \<Rightarrow> unit gen" where
  "wait_loop env start t s = (case perf_counter env s of
       (Inl e, s') \<Rightarrow> (Inl e, s')
     | (Inr now, s') \<Rightarrow> if now - start < t then wait_loop env start t s' else (Inr (), s'))"
  by pat_completeness auto
termination
proof (relation "measure (\<lambda>(env, start, t, s). sig_at env - ops s)", goal_cases)
  case (2 env start t s x s' now)
  then have "perf_counter env s = (Inr now, s')" by simp
  then have "ops s < sig_at env" "s' = s\<lparr>ops := Suc (ops s)\<rparr>" by (auto dest: clock_InrD)
  then show ?case by simp
qed simp

declare wait_loop.simps [simp del]

definition wait :: "gen_env \<Rightarrow> pyfloat \<Rightarrow> unit gen" where
  "wait env t = andthen (perf_counter env) (\<lambda>start. wait_loop env start t)"

lemma grows_wait_loop [grows_intros]: "grows (wait_loop env start t)"
proof (rule growsI)
  fix s r s' assume "wait_loop env start t s = (r, s')"
  then show "ops s \<le> ops s'"
  proof (induction env start t s arbitrary: r s' rule: wait_loop.induct)
    case (1 env start t s)
    show ?case
    proof (cases "perf_counter env s")
      case (Pair q s1)
      have le: "ops s \<le> ops s1" using Pair grows_clocks(1) by (metis growsD)
      show ?thesis
      proof (cases q)
        case (Inl e)
        then show ?thesis using Pair le "1.prems" by (simp add: wait_loop.simps [of env])
      next
        case (Inr now)
        then show ?thesis using Pair le "1.prems" "1.IH" [OF Pair [symmetric] _ ]
          by (cases "now - start < t") (auto simp: wait_loop.simps [of env] intro: order_trans)
      qed
    qed
  qed
qed

lemma grows_wait [grows_intros]: "grows (wait env t)"
  unfolding wait_def by (auto intro: grows_intros)

text \<open>
  \<open>ipds\<close>: for each flow its socket and the time until its next burst.  \<open>min\<close> of an empty collection is a
  \<open>ValueError\<close>.
\<close>

type_synonym ipds = "(nat, nat \<times> pyfloat) dict"

definition create_ipds :: "(nat, nat) dict \<Rightarrow> pyfloat list \<Rightarrow> ipds res" where
  "create_ipds sock_list ipd_list =
     map_res (\<lambda>i. rbind (dict_get sock_list i) (\<lambda>sock. Inr (i, (sock, ipd_list ! i)))) [0..<length ipd_list]"

definition min_ipd :: "ipds \<Rightarrow> pyfloat res" where
  "min_ipd d = (if d = [] then Inl ValueError else Inr (Min (set (map (\<lambda>(_, _, t). t) d))))"

definition expired :: "ipds \<Rightarrow> nat list" where
  "expired d = map fst (filter (\<lambda>(_, _, t). t \<le> 0) d)"

definition send_packet :: "gen_env \<Rightarrow> nat \<Rightarrow> flow_parameters \<Rightarrow> unit gen" where
  "send_packet env sock fp =
     andthen (select_dscp env (fp_prob_mat fp) (fp_tag_value fp)) (\<lambda>dscp_val.
     andthen (set_dscp env sock dscp_val) (\<lambda>_. sendto env sock fp))"

definition send_burst :: "gen_env \<Rightarrow> (nat, flow_parameters) dict \<Rightarrow> nat \<Rightarrow> nat \<Rightarrow> unit gen" where
  "send_burst env flow_params i sock =
     andthen (each (\<lambda>_. andthen (lift_res (dict_get flow_params i)) (send_packet env sock)) [0..<BURST_COUNT]) (\<lambda>_.
     inc_pkt_count env i)"

definition serve_flow :: "gen_env \<Rightarrow> (nat, flow_parameters) dict \<Rightarrow> pyfloat list \<Rightarrow> ipds \<Rightarrow> nat \<Rightarrow> ipds gen" where
  "serve_flow env flow_params ipd_list d i =
     andthen (lift_res (dict_get d i)) (\<lambda>(sock, _).
     andthen (send_burst env flow_params i sock) (\<lambda>_.
     andthen (lift_res (py_nth ipd_list (int i))) (\<lambda>ipd. ret (dict_set d i (sock, ipd)))))"

definition count_down :: "pyfloat \<Rightarrow> ipds \<Rightarrow> ipds" where
  "count_down actual_wait d = map (\<lambda>(i, sock, t). (i, sock, t - actual_wait)) d"

text \<open>The body of the loop of \<open>transmit\<close>.\<close>

definition transmit_step :: "gen_env \<Rightarrow> (nat, flow_parameters) dict \<Rightarrow> pyfloat list \<Rightarrow> ipds \<Rightarrow> ipds gen" where
  "transmit_step env flow_params ipd_list d =
     andthen (perf_counter env) (\<lambda>loop_start.
     andthen (fold_prog (serve_flow env flow_params ipd_list) d (expired d)) (\<lambda>d'.
     andthen (perf_counter env) (\<lambda>now.
     andthen (lift_res (min_ipd d')) (\<lambda>least.
     andthen (wait env (least - max 0 (now - loop_start))) (\<lambda>_.
     andthen (perf_counter env) (\<lambda>later. ret (count_down (later - loop_start) d')))))))"

lemma grows_serve_flow [grows_intros]: "grows (serve_flow env flow_params ipd_list d i)"
  unfolding serve_flow_def send_burst_def send_packet_def
  by (auto intro!: grows_intros split: prod.splits)

lemma grows_transmit_step [grows_intros]: "grows (transmit_step env flow_params ipd_list d)"
  unfolding transmit_step_def by (auto intro!: grows_intros)

function transmit_loop ::
    "gen_env \<Rightarrow> pyfloat \<Rightarrow> pyfloat \<Rightarrow> (nat, flow_parameters) dict \<Rightarrow> pyfloat list \<Rightarrow> ipds \<Rightarrow> unit gen" where
  "transmit_loop env start_time duration flow_params ipd_list d s = (case wall_clock env s of
       (Inl e, s1) \<Rightarrow> (Inl e, s1)
     | (Inr now, s1) \<Rightarrow>
        if now - start_time < duration then
          (case transmit_step env flow_params ipd_list d s1 of
             (Inl e, s2) \<Rightarrow> (Inl e, s2)
           | (Inr d', s2) \<Rightarrow> transmit_loop env start_time duration flow_params ipd_list d' s2)
        else (Inr (), s1))"
  by pat_completeness auto
termination
proof (relation "measure (\<lambda>(env, start_time, duration, flow_params, ipd_list, d, s). sig_at env - ops s)", goal_cases)
  case (2 env start_time duration flow_params ipd_list d s x s1 now y s2 d')
  then have "wall_clock env s = (Inr now, s1)" "transmit_step env flow_params ipd_list d s1 = (Inr d', s2)" by simp_all
  then have "ops s < sig_at env" "ops s < ops s2"
    using growsD [OF grows_transmit_step] by (fastforce dest: clock_InrD)+
  then show ?case by simp
qed simp

declare transmit_loop.simps [simp del]

definition transmit ::
    "gen_env \<Rightarrow> (nat, nat) dict \<Rightarrow> pyfloat list \<Rightarrow> pyfloat \<Rightarrow> (nat, flow_parameters) dict \<Rightarrow> unit gen" where
  "transmit env sock_list ipd_list duration flow_params =
     andthen (lift_res (create_ipds sock_list ipd_list)) (\<lambda>d.
     andthen (wall_clock env) (\<lambda>start_time.
     andthen (lift_res (min_ipd d)) (\<lambda>_.
     transmit_loop env start_time duration flow_params ipd_list d)))"

lemma grows_transmit_loop [grows_intros]: "grows (transmit_loop env start_time duration flow_params ipd_list d)"
proof (rule growsI)
  fix s r s' assume "transmit_loop env start_time duration flow_params ipd_list d s = (r, s')"
  then show "ops s \<le> ops s'"
  proof (induction env start_time duration flow_params ipd_list d s arbitrary: r s' rule: transmit_loop.induct)
    case (1 env start_time duration flow_params ipd_list d s)
    show ?case
    proof (cases "wall_clock env s")
      case (Pair q s1)
      have le: "ops s \<le> ops s1" using Pair grows_clocks(2) by (metis growsD)
      show ?thesis
      proof (cases q)
        case (Inl e)
        then show ?thesis using Pair le "1.prems" by (simp add: transmit_loop.simps [of env])
      next
        case (Inr now)
        obtain q2 s2 where step: "transmit_step env flow_params ipd_list d s1 = (q2, s2)" by (metis surj_pair)
        then have le2: "ops s1 \<le> ops s2" using grows_transmit_step by (metis growsD)
        show ?thesis using Pair Inr step le le2 "1.prems" "1.IH" [OF Pair [symmetric] Inr _ step [symmetric]]
          by (cases q2; cases "now - start_time < duration") (auto simp: transmit_loop.simps [of env] intro: order_trans)
      qed
    qed
  qed
qed

lemma grows_transmit [grows_intros]: "grows (transmit env sock_list ipd_list duration flow_params)"
  unfolding transmit_def by (auto intro!: grows_intros)

text \<open>A slice that ends has read the clock.\<close>

lemma transmit_InrD:
  assumes "transmit env sock_list ipd_list duration flow_params s = (Inr u, s')"
  shows "ops s < sig_at env \<and> ops s < ops s'"
proof -
  from assms obtain d start s1 least where clock: "wall_clock env s = (Inr start, s1)"
    and loop: "transmit_loop env start duration flow_params ipd_list d s1 = (Inr u, s')"
    unfolding transmit_def by (auto elim!: andthen_InrE simp: lift_res_cases)
  from loop have "ops s1 \<le> ops s'" using grows_transmit_loop by (metis growsD)
  then show ?thesis using clock_InrD(2) [OF clock] by auto
qed

subsection \<open>The process\<close>

definition create_socket :: "gen_env \<Rightarrow> nat \<Rightarrow> string option \<Rightarrow> nat gen" where
  "create_socket env sock source_address =
     andthen (op env (\<lambda>_. Inr ())) (\<lambda>_.
     andthen (case source_address of
        None \<Rightarrow> ret ()
      | Some addr \<Rightarrow> if addr = [] then ret () else op env (\<lambda>n. bind_to env n addr)) (\<lambda>_. ret sock))"

definition create_sockets :: "gen_env \<Rightarrow> (nat, flow_parameters) dict \<Rightarrow> (nat, nat) dict gen" where
  "create_sockets env flow_params =
     gather (\<lambda>(i, fp). andthen (create_socket env i (fp_source_addr fp)) (\<lambda>sock. ret (i, sock))) flow_params"

definition create_rvs :: "gen_env \<Rightarrow> (nat, flow_parameters) dict \<Rightarrow> (nat, distribution) dict res" where
  "create_rvs env flow_params = map_res (\<lambda>(i, fp).
     rbind (create_distribution (msqrt env) (fp_tx_rate fp) (fp_variance fp) (fp_traffic_model fp) (fp_transmit_rates fp))
       (\<lambda>distr. Inr (i, distr))) flow_params"

text \<open>One round of the \<open>for\<close> loop over the flows: the delay is appended, and the distribution moves on.\<close>

definition next_delay ::
    "gen_env \<Rightarrow> (nat, distribution) dict \<times> pyfloat list \<Rightarrow> nat \<times> flow_parameters \<Rightarrow> ((nat, distribution) dict \<times> pyfloat list) gen" where
  "next_delay env = (\<lambda>(rvs, ipd_list) (i, fp).
     andthen (lift_res (dict_get rvs i)) (\<lambda>distr.
     andthen (select_tx_rate env fp (fp_tx_rate fp) distr) (\<lambda>(r, distr').
     ret (dict_set rvs i distr', ipd_list @ [compute_inter_pkt_delay (fp_packet_len fp) r (fp_time_slice fp)]))))"

text \<open>The body of the \<open>while True\<close> loop.\<close>

definition generate_slice ::
    "gen_env \<Rightarrow> (nat, flow_parameters) dict \<Rightarrow> (nat, nat) dict \<Rightarrow> (nat, distribution) dict \<Rightarrow> (nat, distribution) dict gen" where
  "generate_slice env flow_params socks rvs =
     andthen (fold_prog (next_delay env) (rvs, []) flow_params) (\<lambda>(rvs', ipd_list).
     andthen (lift_res (dict_get flow_params 0)) (\<lambda>first.
     andthen (transmit env socks ipd_list (fp_time_slice first) flow_params) (\<lambda>_. ret rvs')))"

lemma grows_next_delay [grows_intros]: "grows (next_delay env acc p)"
  unfolding next_delay_def by (auto intro!: grows_intros split: prod.splits)

lemma generate_slice_InrD:
  assumes "generate_slice env flow_params socks rvs s = (Inr rvs', s')"
  shows "ops s < sig_at env \<and> ops s < ops s'"
proof -
  from assms obtain ipd_list s1 u and first :: flow_parameters
    where delays: "fold_prog (next_delay env) (rvs, []) flow_params s = (Inr (rvs', ipd_list), s1)"
      and slice: "transmit env socks ipd_list (fp_time_slice first) flow_params s1 = (Inr u, s')"
    unfolding generate_slice_def by (auto elim!: andthen_InrE simp: lift_res_cases split: prod.splits)
  have "grows (fold_prog (next_delay env) (rvs, []) flow_params)" by (intro grows_intros)
  then have "ops s \<le> ops s1" using delays by (rule growsD)
  then show ?thesis using transmit_InrD [OF slice] by simp
qed

function generate_loop ::
    "gen_env \<Rightarrow> (nat, flow_parameters) dict \<Rightarrow> (nat, nat) dict \<Rightarrow> (nat, distribution) dict \<Rightarrow> unit gen" where
  "generate_loop env flow_params socks rvs s = (case generate_slice env flow_params socks rvs s of
       (Inl e, s') \<Rightarrow> (Inl e, s')
     | (Inr rvs', s') \<Rightarrow> generate_loop env flow_params socks rvs' s')"
  by pat_completeness auto
termination
proof (relation "measure (\<lambda>(env, flow_params, socks, rvs, s). sig_at env - ops s)", goal_cases)
  case (2 env flow_params socks rvs s x s' rvs')
  then have "ops s < sig_at env" "ops s < ops s'" using generate_slice_InrD [of env flow_params socks rvs s rvs' s'] by simp_all
  then show ?case by simp
qed simp

declare generate_loop.simps [simp del]

definition generate_traffic :: "gen_env \<Rightarrow> (nat, flow_parameters) dict \<Rightarrow> unit gen" where
  "generate_traffic env flow_params =
     andthen (create_sockets env flow_params) (\<lambda>socks.
     andthen (modify_gen (\<lambda>s. s\<lparr>g_sock_dict := Some socks\<rparr>)) (\<lambda>_.
     andthen (lift_res (create_rvs env flow_params)) (\<lambda>rvs.
     generate_loop env flow_params socks rvs)))"

text \<open>
  The handler is registered before \<open>main\<close>.  Reading the arguments counts as one operation: a signal before it is handled
  while \<open>flow_params\<close> is still \<open>None\<close>.
\<close>

definition gen_main :: "gen_env \<Rightarrow> (string \<Rightarrow> json res) \<Rightarrow> string list \<Rightarrow> unit gen" where
  "gen_main env files argv1 =
     andthen (op env (\<lambda>_. gen_get_args files argv1)) (\<lambda>(instance_id, flow_params).
     andthen (modify_gen (\<lambda>s. s\<lparr>g_instance_id := Some instance_id, g_flow_params := Some flow_params\<rparr>)) (\<lambda>_.
     generate_traffic env flow_params))"

subsection \<open>An example\<close>

text \<open>One flow of ten packets of 50 bytes every half second; an operation takes a twentieth of a second.\<close>

definition ex_gen_args :: json where
  "ex_gen_args = JList [JObj [(''dest_port'', JInt 50000), (''dest_addr'', JStr ''10.0.0.2''), (''prob_mat'', JList [JFloat (1 / 2), JFloat (1 / 2)]),
     (''tx_rate'', JInt 1000), (''traffic_model'', JStr ''Precomputed''), (''transmit_rates'', JList [JInt 1000]), (''packet_len'', JInt 50),
     (''src_host'', JInt 4), (''time_slice'', JInt 1), (''tag_value'', JList [JInt 3, JInt 5])]]"

definition ex_gen_path :: string where
  "ex_gen_path = ''/tmp/traffic-args-1-7''"

definition ex_gen_files :: "string \<Rightarrow> json res" where
  "ex_gen_files p = (if p = ex_gen_path then Inr ex_gen_args else Inl FileNotFoundError)"

definition ex_gen_env :: "nat \<Rightarrow> gen_env" where
  "ex_gen_env n = \<lparr>sig_at = n, msqrt = id, time_time = (\<lambda>k. of_nat k / 20 + 100), perf_time = (\<lambda>k. of_nat k / 20),
     uniform_pick = (\<lambda>k. of_nat (k mod 4) / 4), coin = (\<lambda>_. 0), dist_rvs = (\<lambda>_ _. 0), bind_to = (\<lambda>_ _. Inr ()),
     send_to = (\<lambda>_ _. Inr ()), sock_port = (\<lambda>_ _. 40000)\<rparr>"

definition ex_gen_flows :: "(nat, flow_parameters) dict" where
  "ex_gen_flows = (case flow_parameters_list ex_gen_args of Inl _ \<Rightarrow> [] | Inr fps \<Rightarrow> fps)"

definition ex_gen_end :: "nat \<Rightarrow> (gen_stop + unit) \<times> gen_state" where
  "ex_gen_end n = gen_main (ex_gen_env n) ex_gen_files [ex_gen_path] gen_start"

end
