(* ===== verification/Traffic_Properties.thy ===== *)
theory Traffic_Properties
  imports Traffic_Gen
begin

section \<open>What the traffic generator sends and reports\<close>

text \<open>
  Rules for the loops of the traffic generator, and what they give: the packets it has sent and the counts it keeps
  agree up to the burst it is in, a flow keeps below its rate, every packet has a tag and the destination of its
  flow, and the process goes on until the signal and then writes its report.
\<close>

subsection \<open>Rules\<close>

lemma triple_wait_loop:
  assumes "triple_stop P (perf_counter env) (\<lambda>_. P) E"
  shows "triple_stop P (wait_loop env start t) (\<lambda>_. P) E"
proof -
  have "case wait_loop env start t s of (Inr _, s') \<Rightarrow> P s' | (Inl e, s') \<Rightarrow> E e s'" if "P s" for s
    using assms that
  proof (induction env start t s rule: wait_loop.induct)
    case (1 env start t s)
    obtain q s1 where clock: "perf_counter env s = (q, s1)" by (metis surj_pair)
    show ?case
    proof (cases q)
      case (Inl e)
      then show ?thesis using clock triple_stopD(2) [OF "1.prems"] by (simp add: wait_loop.simps [of env])
    next
      case (Inr now)
      then have "P s1" using clock triple_stopD(1) [OF "1.prems"] by simp
      then show ?thesis using clock Inr "1.IH" [OF clock [symmetric] Inr _ "1.prems"(1)]
        by (cases "now - start < t") (auto simp: wait_loop.simps [of env start t s])
    qed
  qed
  then show ?thesis unfolding triple_stop_def by blast
qed

lemma triple_transmit_loop:
  assumes clock: "\<And>d. triple_stop (J d) (wall_clock env) (\<lambda>now. K now d) E"
    and step: "\<And>d now. now - start < duration \<Longrightarrow> triple_stop (K now d) (transmit_step env fps ipd_list d) J E"
  shows "triple_stop (J d) (transmit_loop env start duration fps ipd_list d)
    (\<lambda>_ s. \<exists>now d. \<not> now - start < duration \<and> K now d s) E"
proof -
  have "case transmit_loop env start duration fps ipd_list d s of
      (Inr _, s') \<Rightarrow> \<exists>now d. \<not> now - start < duration \<and> K now d s' | (Inl e, s') \<Rightarrow> E e s'" if "J d s" for s
    using assms that
  proof (induction env start duration fps ipd_list d s rule: transmit_loop.induct)
    case (1 env start duration fps ipd_list d s)
    obtain q s1 where tick: "wall_clock env s = (q, s1)" by (metis surj_pair)
    show ?case
    proof (cases q)
      case (Inl e)
      then show ?thesis using tick triple_stopD(2) [OF "1.prems"(1,3)] by (simp add: transmit_loop.simps [of env])
    next
      case (Inr now)
      then have K: "K now d s1" using tick triple_stopD(1) [OF "1.prems"(1,3)] by simp
      show ?thesis
      proof (cases "now - start < duration")
        case False
        then show ?thesis using tick Inr K by (auto simp: transmit_loop.simps [of env])
      next
        case True
        obtain q2 s2 where run: "transmit_step env fps ipd_list d s1 = (q2, s2)" by (metis surj_pair)
        show ?thesis
        proof (cases q2)
          case (Inl e)
          then show ?thesis using tick Inr run True triple_stopD(2) [OF "1.prems"(2) [OF True] K]
            by (simp add: transmit_loop.simps [of env])
        next
          case (Inr d')
          then have "J d' s2" using run triple_stopD(1) [OF "1.prems"(2) [OF True] K] by simp
          then show ?thesis using tick \<open>q = Inr now\<close> run True Inr
              "1.IH" [OF tick [symmetric] \<open>q = Inr now\<close> True run [symmetric] Inr "1.prems"(1,2)]
            by (simp add: transmit_loop.simps [of env start duration fps ipd_list d s])
        qed
      qed
    qed
  qed
  then show ?thesis unfolding triple_stop_def by blast
qed

lemma triple_generate_loop:
  assumes "\<And>rvs. triple_stop (J rvs) (generate_slice env fps socks rvs) J E"
  shows "triple_stop (J rvs) (generate_loop env fps socks rvs) (\<lambda>_ _. False) E"
proof -
  have "case generate_loop env fps socks rvs s of (Inr _, s') \<Rightarrow> False | (Inl e, s') \<Rightarrow> E e s'" if "J rvs s" for s
    using assms that
  proof (induction env fps socks rvs s rule: generate_loop.induct)
    case (1 env fps socks rvs s)
    obtain q s1 where slice: "generate_slice env fps socks rvs s = (q, s1)" by (metis surj_pair)
    show ?case
    proof (cases q)
      case (Inl e)
      then show ?thesis using slice triple_stopD(2) [OF "1.prems"] by (simp add: generate_loop.simps [of env])
    next
      case (Inr rvs')
      then have "J rvs' s1" using slice triple_stopD(1) [OF "1.prems"] by simp
      then show ?thesis using slice Inr "1.IH" [OF slice [symmetric] Inr "1.prems"(1)]
        by (simp add: generate_loop.simps [of env fps socks rvs s])
    qed
  qed
  then show ?thesis unfolding triple_stop_def by blast
qed

lemma triple_lift_res:
  "(\<And>s x. P s \<Longrightarrow> r = Inr x \<Longrightarrow> Q x s) \<Longrightarrow> (\<And>s e. P s \<Longrightarrow> r = Inl e \<Longrightarrow> E (Died e) s) \<Longrightarrow> triple_stop P (lift_res r) Q E"
  by (cases r) (auto simp: triple_stop_def)

lemma triple_modify_gen: "(\<And>s. P s \<Longrightarrow> Q () (f s)) \<Longrightarrow> triple_stop P (modify_gen f) Q E"
  by (simp add: triple_stop_def modify_gen_def)

lemma triple_gather:
  assumes "\<And>x xs ys. triple_stop (J (x # xs) ys) (f x) (\<lambda>y. J xs (ys @ [y])) E"
  shows "triple_stop (J xs ys) (gather f xs) (\<lambda>zs. J [] (ys @ zs)) E"
proof (induction xs arbitrary: ys)
  case (Cons x xs)
  have "triple_stop (J xs (ys @ [y])) (andthen (gather f xs) (\<lambda>zs. ret (y # zs))) (\<lambda>zs. J [] (ys @ zs)) E" for y
    by (rule triple_stop_andthen [OF Cons]) (simp add: triple_stop_ret)
  then show ?case by (simp add: triple_stop_andthen [OF assms])
qed (simp add: triple_stop_ret)

subsection \<open>Packets and counts\<close>

text \<open>What the handler reports, and the part of the state that only sending and counting change.\<close>

definition reported :: "gen_env \<Rightarrow> gen_state \<Rightarrow> bool" where
  "reported env s \<longleftrightarrow> (\<exists>fps info. g_flow_params s = Some fps \<and> map_res (flow_info_of env s) fps = Inr info \<and>
     written s = Some (sender_file (if fps = [] then None else Some (fp_src_host (snd (last fps)))) (g_instance_id s), info))"

type_synonym snapshot =
  "packet list \<times> (nat, int) dict \<times> (nat, flow_parameters) dict option \<times> (nat, nat) dict option \<times> int option"

definition snap :: "gen_state \<Rightarrow> snapshot" where
  "snap s = (sent s, g_pkt_count s, g_flow_params s, g_sock_dict s, g_instance_id s)"

definition stopped :: "gen_env \<Rightarrow> (gen_state \<Rightarrow> bool) \<Rightarrow> gen_stop \<Rightarrow> gen_state \<Rightarrow> bool" where
  "stopped env P e s \<longleftrightarrow> P s \<and> (e = Exited \<longrightarrow> reported env s)"

definition keeps_snap :: "gen_env \<Rightarrow> 'a gen \<Rightarrow> bool" where
  "keeps_snap env m \<longleftrightarrow> (\<forall>X. triple_stop (\<lambda>s. snap s = X) m (\<lambda>_ s. snap s = X) (stopped env (\<lambda>s. snap s = X)))"

named_theorems keeps_intros \<open>parts of the program that neither send nor count\<close>

lemma handle_sig_int_stopped:
  assumes "handle_sig_int env s = (e, s')"
  shows "snap s' = snap s \<and> ops s' = ops s \<and> (e = Exited \<longrightarrow> reported env s')"
  using assms
proof (cases rule: handle_sig_int_cases)
  case (exited fps info host)
  have "flow_info_of env s' = flow_info_of env s"
    unfolding exited(4) by (rule ext) (simp add: flow_info_of_def split: prod.splits option.splits)
  then show ?thesis using exited by (simp add: reported_def snap_def)
qed simp

lemma keeps_op [keeps_intros]: "keeps_snap env (op env f)"
proof -
  have "triple_stop (\<lambda>s. snap s = X) (op env f) (\<lambda>_ s. snap s = X) (stopped env (\<lambda>s. snap s = X))" for X
  proof (rule triple_stopI)
    fix s x s' assume "snap s = X" "op env f s = (Inr x, s')"
    then show "snap s' = X" using op_InrD [of env f s x s'] by (simp add: snap_def)
  next
    fix s e s' assume "snap s = X" and "op env f s = (Inl e, s')"
    from this(2) this(1) show "stopped env (\<lambda>s. snap s = X) e s'"
      by (cases rule: op_stopped) (auto simp: stopped_def snap_def dest: handle_sig_int_stopped)
  qed
  then show ?thesis by (simp add: keeps_snap_def)
qed

lemma keeps_simple [keeps_intros]:
  "keeps_snap env (ret x)" "keeps_snap env (lift_res r)" "(\<And>s. snap (f s) = snap s) \<Longrightarrow> keeps_snap env (modify_gen f)"
  by (auto simp: keeps_snap_def stopped_def intro!: triple_stop_ret triple_lift_res triple_modify_gen)

lemma keeps_andthen [keeps_intros]: "keeps_snap env m \<Longrightarrow> (\<And>x. keeps_snap env (f x)) \<Longrightarrow> keeps_snap env (andthen m f)"
  unfolding keeps_snap_def by (intro allI) (rule triple_stop_andthen, blast+)

lemma keeps_clocks [keeps_intros]: "keeps_snap env (perf_counter env)" "keeps_snap env (wall_clock env)"
  unfolding perf_counter_def wall_clock_def by (rule keeps_op)+

lemma keeps_wait [keeps_intros]: "keeps_snap env (wait env t)"
proof -
  have "keeps_snap env (wait_loop env start t)" for start
    using keeps_clocks(1) unfolding keeps_snap_def by (intro allI triple_wait_loop) auto
  then show ?thesis unfolding wait_def by (intro keeps_intros)
qed

lemma keepsD:
  assumes "keeps_snap env m"
  shows "m s = (Inr x, s') \<Longrightarrow> snap s' = snap s" and "m s = (Inl e, s') \<Longrightarrow> stopped env (\<lambda>t. snap t = snap s) e s'"
  using triple_stopD [OF assms [unfolded keeps_snap_def, THEN spec, of "snap s"] refl] by blast+

lemma keeps_triple:
  assumes "keeps_snap env m"
  shows "triple_stop (\<lambda>s. P (snap s)) m (\<lambda>_ s. P (snap s)) (stopped env (\<lambda>s. P (snap s)))"
  by (rule triple_stopI) (auto simp: stopped_def dest: keepsD [OF assms])

lemma keeps_select [keeps_intros]: "keeps_snap env (select_dscp env prob tags)" "keeps_snap env (set_dscp env sock dscp)"
  unfolding select_dscp_def set_dscp_def by (auto intro!: keeps_intros simp: snap_def split: option.splits)

text \<open>A packet of a flow: on its socket, to its destination, and tagged with one of its tags.\<close>

definition packet_of :: "flow_parameters \<Rightarrow> nat \<Rightarrow> packet \<Rightarrow> bool" where
  "packet_of fp sock p \<longleftrightarrow> pkt_sock p = sock \<and> pkt_data p = fp_data_str fp \<and> pkt_addr p = fp_dest_addr fp \<and>
     pkt_port p = fp_dest_port fp \<and>
     (\<exists>tags i. fp_tag_value fp = Some tags \<and> i < length tags \<and> i < length (fp_prob_mat fp) \<and> pkt_tos p = Some (4 * tags ! i))"

lemma select_path_bounds: "select_path pick acc n ps = Some i \<Longrightarrow> n \<le> i \<and> i < n + length ps"
  by (induction pick acc n ps rule: select_path.induct) (auto split: if_splits)

lemma select_path_total: "pick \<le> acc + sum_list ps \<Longrightarrow> ps \<noteq> [] \<Longrightarrow> \<exists>i. select_path pick acc n ps = Some i"
proof (induction pick acc n ps rule: select_path.induct)
  case (2 pick acc n p ps)
  then show ?case by (cases "ps = []") (auto simp: add.assoc)
qed simp

lemma select_dscp_InrD:
  assumes "select_dscp env prob tag_values s = (Inr (Some d), s')"
  shows "\<exists>tags i. tag_values = Some tags \<and> i < length tags \<and> i < length prob \<and> d = 4 * tags ! i"
proof -
  from assms obtain pick s1 where "(case select_path pick 0 0 prob of None \<Rightarrow> ret None
      | Some i \<Rightarrow> lift_res (rbind (calc_dscp_val i tag_values) (\<lambda>d. Inr (Some d)))) s1 = (Inr (Some d), s')"
    unfolding select_dscp_def by (elim andthen_InrE)
  then obtain i where "select_path pick 0 0 prob = Some i" "calc_dscp_val i tag_values = Inr d"
    by (cases "select_path pick 0 0 prob"; cases "calc_dscp_val (the (select_path pick 0 0 prob)) tag_values") auto
  then show ?thesis using select_path_bounds [of pick 0 0 prob i]
    by (auto simp: calc_dscp_val_def push_bit_eq_mult split: option.splits if_splits)
qed

lemma select_dscp_triple:
  "triple_stop (\<lambda>s. snap s = X) (select_dscp env prob tag_values)
     (\<lambda>dscp s. snap s = X \<and> (\<forall>d. dscp = Some d \<longrightarrow>
        (\<exists>tags i. tag_values = Some tags \<and> i < length tags \<and> i < length prob \<and> d = 4 * tags ! i)))
     (stopped env (\<lambda>s. snap s = X))"
proof (rule triple_stopI)
  fix s x s' assume X: "snap s = X" and run: "select_dscp env prob tag_values s = (Inr x, s')"
  show "snap s' = X \<and> (\<forall>d. x = Some d \<longrightarrow>
      (\<exists>tags i. tag_values = Some tags \<and> i < length tags \<and> i < length prob \<and> d = 4 * tags ! i))"
  proof (intro conjI allI impI)
    show "snap s' = X" using X keepsD(1) [OF keeps_select(1) run] by simp
    fix d assume "x = Some d"
    with run show "\<exists>tags i. tag_values = Some tags \<and> i < length tags \<and> i < length prob \<and> d = 4 * tags ! i"
      using select_dscp_InrD [of env prob tag_values s d s'] by simp
  qed
next
  fix s e s' assume X: "snap s = X" and run: "select_dscp env prob tag_values s = (Inl e, s')"
  show "stopped env (\<lambda>s. snap s = X) e s'" using X keepsD(2) [OF keeps_select(1) run] by simp
qed

lemma set_dscp_InrD:
  assumes "set_dscp env sock dscp s = (Inr u, s')"
  shows "\<exists>d. dscp = Some d \<and> map_of (sock_tos s') sock = Some d"
  using assms unfolding set_dscp_def
  by (cases dscp) (auto elim!: andthen_InrE dest!: op_InrD simp: modify_gen_def)

lemma sendto_triple:
  "triple_stop (\<lambda>s. snap s = (ps, X) \<and> G (map_of (sock_tos s) sock)) (sendto env sock fp)
     (\<lambda>_ s. \<exists>p. snap s = (ps @ [p], X) \<and> pkt_sock p = sock \<and> pkt_data p = fp_data_str fp \<and> pkt_addr p = fp_dest_addr fp \<and>
        pkt_port p = fp_dest_port fp \<and> G (pkt_tos p))
     (stopped env (\<lambda>s. snap s = (ps, X)))"
proof (rule triple_stopI)
  fix s u s' assume P: "snap s = (ps, X) \<and> G (map_of (sock_tos s) sock)" and "sendto env sock fp s = (Inr u, s')"
  then have "s' = s\<lparr>ops := Suc (ops s), sent := sent s @ [the_packet s sock fp]\<rparr>"
    unfolding sendto_def by (auto elim!: andthen_InrE dest!: op_InrD simp: modify_gen_def)
  then have "snap s' = (ps @ [the_packet s sock fp], X)" using P by (simp add: snap_def)
  then show "\<exists>p. snap s' = (ps @ [p], X) \<and> pkt_sock p = sock \<and> pkt_data p = fp_data_str fp \<and> pkt_addr p = fp_dest_addr fp \<and>
        pkt_port p = fp_dest_port fp \<and> G (pkt_tos p)"
    using P by (intro exI [of _ "the_packet s sock fp"]) (simp add: the_packet_def)
next
  fix s e s' assume P: "snap s = (ps, X) \<and> G (map_of (sock_tos s) sock)" and run: "sendto env sock fp s = (Inl e, s')"
  let ?m = "op env (\<lambda>n. send_to env n (the_packet s sock fp))"
  from run have "?m s = (Inl e, s')" unfolding sendto_def
    by (cases rule: andthen_cases [of ?m s "\<lambda>_. modify_gen (\<lambda>t. t\<lparr>sent := sent t @ [the_packet s sock fp]\<rparr>)"]) (auto simp: modify_gen_def)
  then show "stopped env (\<lambda>s. snap s = (ps, X)) e s'" using P keepsD(2) [OF keeps_op] by fastforce
qed

lemma send_packet_triple:
  "triple_stop (\<lambda>s. snap s = (ps, X)) (send_packet env sock fp)
     (\<lambda>_ s. \<exists>p. packet_of fp sock p \<and> snap s = (ps @ [p], X)) (stopped env (\<lambda>s. snap s = (ps, X)))"
proof -
  define tagged where "tagged d \<longleftrightarrow> (\<exists>tags i. fp_tag_value fp = Some tags \<and> i < length tags \<and> i < length (fp_prob_mat fp) \<and> d = 4 * tags ! i)" for d
  define G where "G t \<longleftrightarrow> (\<exists>d. t = Some d \<and> tagged d)" for t
  have set: "triple_stop (\<lambda>s. snap s = (ps, X) \<and> (\<forall>d. dscp = Some d \<longrightarrow> tagged d)) (set_dscp env sock dscp)
      (\<lambda>_ s. snap s = (ps, X) \<and> G (map_of (sock_tos s) sock)) (stopped env (\<lambda>s. snap s = (ps, X)))" for dscp
  proof (rule triple_stopI)
    fix s u s' assume P: "snap s = (ps, X) \<and> (\<forall>d. dscp = Some d \<longrightarrow> tagged d)" and run: "set_dscp env sock dscp s = (Inr u, s')"
    then show "snap s' = (ps, X) \<and> G (map_of (sock_tos s') sock)"
      using set_dscp_InrD [OF run] keepsD(1) [OF keeps_select(2) run] by (auto simp: G_def)
  next
    fix s e s' assume "snap s = (ps, X) \<and> (\<forall>d. dscp = Some d \<longrightarrow> tagged d)" and "set_dscp env sock dscp s = (Inl e, s')"
    then show "stopped env (\<lambda>s. snap s = (ps, X)) e s'" using keepsD(2) [OF keeps_select(2)] by fastforce
  qed
  have send: "triple_stop (\<lambda>s. snap s = (ps, X) \<and> G (map_of (sock_tos s) sock)) (sendto env sock fp)
      (\<lambda>_ s. \<exists>p. packet_of fp sock p \<and> snap s = (ps @ [p], X)) (stopped env (\<lambda>s. snap s = (ps, X)))"
    by (rule triple_stop_cons [OF sendto_triple [where G = G]]) (auto simp: packet_of_def G_def tagged_def)
  show ?thesis unfolding send_packet_def
    by (rule triple_stop_andthen [OF select_dscp_triple], rule triple_stop_andthen [OF set [unfolded tagged_def] send])
qed

text \<open>The burst of a flow: packets of the flow, ten of them when it is done, and then the count moves up by ten.\<close>

definition some_packets :: "(nat, flow_parameters) dict \<Rightarrow> nat \<Rightarrow> nat \<Rightarrow> packet list \<Rightarrow> bool" where
  "some_packets fps i sock qs \<longleftrightarrow> length qs \<le> BURST_COUNT \<and> (\<exists>fp. qs \<noteq> [] \<longrightarrow> map_of fps i = Some fp \<and> (\<forall>p \<in> set qs. packet_of fp sock p))"

lemma some_packets_snoc:
  "some_packets fps i sock qs \<Longrightarrow> length qs < BURST_COUNT \<Longrightarrow> map_of fps i = Some fp \<Longrightarrow> packet_of fp sock p \<Longrightarrow>
     some_packets fps i sock (qs @ [p])"
  by (auto simp: some_packets_def)

lemma send_burst_triple:
  "triple_stop (\<lambda>s. snap s = (ps, C, F)) (send_burst env fps i sock)
     (\<lambda>_ s. \<exists>qs. some_packets fps i sock qs \<and> length qs = BURST_COUNT \<and>
        snap s = (ps @ qs, dict_set C i (dict_get_default C i 0 + int BURST_COUNT), F))
     (stopped env (\<lambda>s. \<exists>qs. some_packets fps i sock qs \<and> snap s = (ps @ qs, C, F)))"
proof -
  let ?E = "stopped env (\<lambda>s. \<exists>qs. some_packets fps i sock qs \<and> snap s = (ps @ qs, C, F))"
  let ?one = "\<lambda>_ :: nat. andthen (lift_res (dict_get fps i)) (send_packet env sock)"
  let ?J = "\<lambda>(xs :: nat list) s. \<exists>qs. some_packets fps i sock qs \<and> length qs + length xs = BURST_COUNT \<and> snap s = (ps @ qs, C, F)"
  have one: "triple_stop (?J (x # xs)) (?one x) (\<lambda>_. ?J xs) ?E" for x xs
  proof (rule triple_stop_andthen [where R = "\<lambda>fp s. map_of fps i = Some fp \<and> ?J (x # xs) s"])
    show "triple_stop (?J (x # xs)) (lift_res (dict_get fps i)) (\<lambda>fp s. map_of fps i = Some fp \<and> ?J (x # xs) s) ?E"
      by (rule triple_lift_res) (auto simp: dict_get_Inr_iff stopped_def)
    show "triple_stop (\<lambda>s. map_of fps i = Some fp \<and> ?J (x # xs) s) (send_packet env sock fp) (\<lambda>_. ?J xs) ?E" for fp
    proof (rule triple_stopI)
      fix s u s' assume "map_of fps i = Some fp \<and> ?J (x # xs) s" and run: "send_packet env sock fp s = (Inr u, s')"
      then obtain qs where fp: "map_of fps i = Some fp" and qs: "some_packets fps i sock qs"
        "length qs + length (x # xs) = BURST_COUNT" "snap s = (ps @ qs, C, F)" by blast
      obtain p where "packet_of fp sock p" "snap s' = ((ps @ qs) @ [p], C, F)"
        using triple_stopD(1) [OF send_packet_triple qs(3) run] by blast
      then show "?J xs s'" using fp qs some_packets_snoc [OF qs(1) _ fp] by (intro exI [of _ "qs @ [p]"]) auto
    next
      fix s e s' assume "map_of fps i = Some fp \<and> ?J (x # xs) s" and run: "send_packet env sock fp s = (Inl e, s')"
      then obtain qs where qs: "some_packets fps i sock qs" "snap s = (ps @ qs, C, F)" by blast
      then show "?E e s'" using triple_stopD(2) [OF send_packet_triple qs(2) run] by (auto simp: stopped_def)
    qed
  qed
  have count: "triple_stop (?J []) (inc_pkt_count env i) (\<lambda>_ s. \<exists>qs. some_packets fps i sock qs \<and> length qs = BURST_COUNT \<and>
        snap s = (ps @ qs, dict_set C i (dict_get_default C i 0 + int BURST_COUNT), F)) ?E"
    unfolding inc_pkt_count_def
    by (rule triple_stop_andthen [where R = "\<lambda>_. ?J []"], rule triple_stop_cons [OF keeps_triple [OF keeps_op, where P = "\<lambda>x. \<exists>qs. some_packets fps i sock qs \<and> length qs = BURST_COUNT \<and> x = (ps @ qs, C, F)"]])
      (auto simp: stopped_def snap_def intro!: triple_modify_gen)
  have "triple_stop (?J [0..<BURST_COUNT]) (send_burst env fps i sock) (\<lambda>_ s. \<exists>qs. some_packets fps i sock qs \<and> length qs = BURST_COUNT \<and>
        snap s = (ps @ qs, dict_set C i (dict_get_default C i 0 + int BURST_COUNT), F)) ?E"
    unfolding send_burst_def by (rule triple_stop_andthen [OF triple_stop_each [OF one] count])
  then show ?thesis by (rule triple_stop_cons) (auto simp: some_packets_def intro!: exI [of _ "[]"])
qed

subsection \<open>The accounts\<close>

definition sent_on :: "packet list \<Rightarrow> nat \<Rightarrow> nat" where
  "sent_on ps sock = length (filter (\<lambda>p. pkt_sock p = sock) ps)"

definition own_packets :: "(nat, flow_parameters) dict \<Rightarrow> packet list \<Rightarrow> bool" where
  "own_packets fps ps \<longleftrightarrow> (\<forall>p \<in> set ps. \<exists>fp. map_of fps (pkt_sock p) = Some fp \<and> packet_of fp (pkt_sock p) p)"

text \<open>Between bursts the counts are exact; in a burst, and so when the process is stopped, they may lag behind for one
  flow, by a burst at most.\<close>

definition off_by :: "nat \<Rightarrow> nat \<Rightarrow> packet list \<Rightarrow> (nat, int) dict \<Rightarrow> bool" where
  "off_by j k ps C \<longleftrightarrow> (\<forall>i. int (sent_on ps i) = dict_get_default C i 0 + (if i = j then int k else 0))"

definition balanced :: "(nat, flow_parameters) dict \<Rightarrow> int \<Rightarrow> snapshot \<Rightarrow> bool" where
  "balanced fps inst = (\<lambda>(ps, C, F, S, I). F = Some fps \<and> I = Some inst \<and> own_packets fps ps \<and> off_by 0 0 ps C)"

definition accounted :: "(nat, flow_parameters) dict \<Rightarrow> int \<Rightarrow> snapshot \<Rightarrow> bool" where
  "accounted fps inst = (\<lambda>(ps, C, F, S, I). F = Some fps \<and> I = Some inst \<and> own_packets fps ps \<and> (\<exists>j k. k \<le> BURST_COUNT \<and> off_by j k ps C))"

lemma balanced_accounted: "balanced fps inst x \<Longrightarrow> accounted fps inst x"
  by (auto simp: balanced_def accounted_def split: prod.splits)

lemma off_by_none: "off_by j 0 ps C \<longleftrightarrow> (\<forall>i. int (sent_on ps i) = dict_get_default C i 0)"
  by (auto simp: off_by_def)

lemma sent_on_append: "sent_on (ps @ qs) i = sent_on ps i + sent_on qs i"
  by (simp add: sent_on_def)

lemma some_packets_sent_on: "some_packets fps i sock qs \<Longrightarrow> sent_on qs j = (if j = sock then length qs else 0)"
proof -
  assume "some_packets fps i sock qs"
  then have "\<forall>p \<in> set qs. pkt_sock p = sock" by (auto simp: some_packets_def packet_of_def)
  then show ?thesis by (auto simp: sent_on_def filter_id_conv filter_empty_conv)
qed

lemma burst_accounts:
  assumes "balanced fps inst (ps, C, F)" and "some_packets fps i i qs"
  shows "accounted fps inst (ps @ qs, C, F)"
    and "length qs = BURST_COUNT \<Longrightarrow> balanced fps inst (ps @ qs, dict_set C i (dict_get_default C i 0 + int BURST_COUNT), F)"
proof -
  have own: "own_packets fps (ps @ qs)"
    using assms by (auto simp: balanced_def own_packets_def some_packets_def packet_of_def split: prod.splits)
  have off: "off_by i (length qs) (ps @ qs) C"
    using assms(1) some_packets_sent_on [OF assms(2)] by (auto simp: balanced_def off_by_none off_by_def sent_on_append split: prod.splits)
  show "accounted fps inst (ps @ qs, C, F)"
    using own off assms by (auto simp: balanced_def accounted_def some_packets_def split: prod.splits)
  assume "length qs = BURST_COUNT"
  with off have "off_by 0 0 (ps @ qs) (dict_set C i (dict_get_default C i 0 + int BURST_COUNT))"
    by (simp add: off_by_def dict_get_default_def)
  then show "balanced fps inst (ps @ qs, dict_set C i (dict_get_default C i 0 + int BURST_COUNT), F)"
    using own assms(1) by (auto simp: balanced_def split: prod.splits)
qed

definition own_sockets :: "ipds \<Rightarrow> bool" where
  "own_sockets d \<longleftrightarrow> (\<forall>i sock t. map_of d i = Some (sock, t) \<longrightarrow> sock = i)"

lemma map_of_count_down: "map_of (count_down w d) i = map_option (\<lambda>(sock, t). (sock, t - w)) (map_of d i)"
  by (induction d) (auto simp: count_down_def)

lemma own_sockets_simps:
  "own_sockets d \<Longrightarrow> own_sockets (dict_set d i (i, t))" "own_sockets d \<Longrightarrow> own_sockets (count_down w d)"
  by (auto simp: own_sockets_def map_of_count_down split: if_splits)

definition account_stop :: "gen_env \<Rightarrow> (nat, flow_parameters) dict \<Rightarrow> int \<Rightarrow> gen_stop \<Rightarrow> gen_state \<Rightarrow> bool" where
  "account_stop env fps inst = stopped env (\<lambda>s. accounted fps inst (snap s))"

lemma keeps_balanced:
  "keeps_snap env m \<Longrightarrow> triple_stop (\<lambda>s. balanced fps inst (snap s)) m (\<lambda>_ s. balanced fps inst (snap s)) (account_stop env fps inst)"
  by (rule triple_stop_cons [OF keeps_triple [where P = "balanced fps inst"]]) (auto simp: account_stop_def stopped_def balanced_accounted)

lemma keeps_balanced_and:
  "keeps_snap env m \<Longrightarrow> triple_stop (\<lambda>s. A \<and> balanced fps inst (snap s)) m (\<lambda>_ s. A \<and> balanced fps inst (snap s)) (account_stop env fps inst)"
  by (rule triple_stopI) (blast dest: triple_stopD [OF keeps_balanced])+

lemma send_burst_accounts:
  "triple_stop (\<lambda>s. balanced fps inst (snap s)) (send_burst env fps i i) (\<lambda>_ s. balanced fps inst (snap s)) (account_stop env fps inst)"
proof (rule triple_stopI)
  fix s u s' assume B: "balanced fps inst (snap s)" and run: "send_burst env fps i i s = (Inr u, s')"
  obtain ps C F where snap: "snap s = (ps, C, F)" by (cases "snap s") auto
  then show "balanced fps inst (snap s')" using triple_stopD(1) [OF send_burst_triple snap run] burst_accounts(2) B by (metis)
next
  fix s e s' assume B: "balanced fps inst (snap s)" and run: "send_burst env fps i i s = (Inl e, s')"
  obtain ps C F where snap: "snap s = (ps, C, F)" by (cases "snap s") auto
  then show "account_stop env fps inst e s'" using triple_stopD(2) [OF send_burst_triple snap run] burst_accounts(1) B
    unfolding account_stop_def stopped_def by metis
qed

lemma serve_flow_accounts:
  "triple_stop (\<lambda>s. own_sockets d \<and> balanced fps inst (snap s)) (serve_flow env fps ipd_list d i)
     (\<lambda>d' s. own_sockets d' \<and> balanced fps inst (snap s)) (account_stop env fps inst)"
  unfolding serve_flow_def
proof (rule triple_stop_andthen [where R = "\<lambda>(sock, t) s. (sock = i \<and> own_sockets d) \<and> balanced fps inst (snap s)"])
  show "triple_stop (\<lambda>s. own_sockets d \<and> balanced fps inst (snap s)) (lift_res (dict_get d i))
     (\<lambda>(sock, t) s. (sock = i \<and> own_sockets d) \<and> balanced fps inst (snap s)) (account_stop env fps inst)"
    by (rule triple_lift_res)
      (auto simp: dict_get_Inr_iff account_stop_def stopped_def balanced_accounted own_sockets_def)
next
  fix x :: "nat \<times> pyfloat"
  obtain sock t where x: "x = (sock, t)" by (cases x)
  have burst: "triple_stop (\<lambda>s. (sock = i \<and> own_sockets d) \<and> balanced fps inst (snap s)) (send_burst env fps i sock)
      (\<lambda>_ s. (sock = i \<and> own_sockets d) \<and> balanced fps inst (snap s)) (account_stop env fps inst)"
    by (rule triple_stopI) (use triple_stopD [OF send_burst_accounts] in blast)+
  have "triple_stop (\<lambda>s. (sock = i \<and> own_sockets d) \<and> balanced fps inst (snap s)) (andthen (lift_res (py_nth ipd_list (int i))) (\<lambda>ipd. ret (dict_set d i (sock, ipd))))
     (\<lambda>d' s. own_sockets d' \<and> balanced fps inst (snap s)) (account_stop env fps inst)"
    by (rule triple_stop_andthen [OF keeps_balanced_and [OF keeps_simple(2)]]) (auto intro!: triple_stop_ret own_sockets_simps)
  then show "triple_stop ((\<lambda>(sock, t) s. (sock = i \<and> own_sockets d) \<and> balanced fps inst (snap s)) x)
    ((\<lambda>(sock, _). andthen (send_burst env fps i sock) (\<lambda>_. andthen (lift_res (py_nth ipd_list (int i))) (\<lambda>ipd. ret (dict_set d i (sock, ipd))))) x)
     (\<lambda>d' s. own_sockets d' \<and> balanced fps inst (snap s)) (account_stop env fps inst)"
    unfolding x prod.case by (rule triple_stop_andthen [OF burst])
qed

lemma transmit_step_accounts:
  "triple_stop (\<lambda>s. own_sockets d \<and> balanced fps inst (snap s)) (transmit_step env fps ipd_list d)
     (\<lambda>d' s. own_sockets d' \<and> balanced fps inst (snap s)) (account_stop env fps inst)"
  unfolding transmit_step_def
  by (rule triple_stop_andthen [OF keeps_balanced_and [OF keeps_clocks(1)]],
      rule triple_stop_andthen [OF triple_stop_fold_prog [where J = "\<lambda>_ d s. own_sockets d \<and> balanced fps inst (snap s)", OF serve_flow_accounts]],
      rule triple_stop_andthen [OF keeps_balanced_and [OF keeps_clocks(1)]],
      rule triple_stop_andthen [OF keeps_balanced_and [OF keeps_simple(2)]],
      rule triple_stop_andthen [OF keeps_balanced_and [OF keeps_wait]],
      rule triple_stop_andthen [OF keeps_balanced_and [OF keeps_clocks(1)]])
    (auto intro!: triple_stop_ret own_sockets_simps)

text \<open>The sockets of a dictionary made by \<open>create_sockets\<close> are named after their flows.\<close>

definition named_sockets :: "(nat, nat) dict \<Rightarrow> bool" where
  "named_sockets socks \<longleftrightarrow> (\<forall>(i, sock) \<in> set socks. sock = i)"

lemma create_ipds_own_sockets:
  assumes "create_ipds socks ipd_list = Inr d" and "named_sockets socks"
  shows "own_sockets d"
  unfolding own_sockets_def
proof (intro allI impI)
  fix i sock t assume "map_of d i = Some (sock, t)"
  then have "(i, sock, t) \<in> set d" by (rule map_of_SomeD)
  then obtain j where "rbind (dict_get socks j) (\<lambda>sock. Inr (j, (sock, ipd_list ! j))) = Inr (i, sock, t)"
    using assms(1) unfolding create_ipds_def map_res_Inr_iff by (auto simp: list_all2_conv_all_nth in_set_conv_nth)
  then have "map_of socks i = Some sock" by (auto simp: rbind_Inr_iff dict_get_Inr_iff)
  then show "sock = i" using assms(2) map_of_SomeD by (fastforce simp: named_sockets_def)
qed

lemma transmit_accounts:
  assumes "named_sockets socks"
  shows "triple_stop (\<lambda>s. balanced fps inst (snap s)) (transmit env socks ipd_list duration fps)
    (\<lambda>_ s. balanced fps inst (snap s)) (account_stop env fps inst)"
proof -
  have loop: "triple_stop (\<lambda>s. own_sockets d \<and> balanced fps inst (snap s)) (transmit_loop env start duration fps ipd_list d)
      (\<lambda>_ s. balanced fps inst (snap s)) (account_stop env fps inst)" for start d
    by (rule triple_stop_cons [OF triple_transmit_loop [where J = "\<lambda>d s. own_sockets d \<and> balanced fps inst (snap s)"
          and K = "\<lambda>_ d s. own_sockets d \<and> balanced fps inst (snap s)", OF keeps_balanced_and [OF keeps_clocks(2)] transmit_step_accounts]]) auto
  have make: "triple_stop (\<lambda>s. balanced fps inst (snap s)) (lift_res (create_ipds socks ipd_list))
      (\<lambda>d s. own_sockets d \<and> balanced fps inst (snap s)) (account_stop env fps inst)"
    by (rule triple_lift_res)
      (auto simp: create_ipds_own_sockets [OF _ assms] account_stop_def stopped_def balanced_accounted)
  show ?thesis unfolding transmit_def
    by (rule triple_stop_andthen [OF make], rule triple_stop_andthen [OF keeps_balanced_and [OF keeps_clocks(2)]],
        rule triple_stop_andthen [OF keeps_balanced_and [OF keeps_simple(2)] loop])
qed

lemma keeps_select_tx_rate [keeps_intros]: "keeps_snap env (select_tx_rate env args old_rate distr)"
  unfolding select_tx_rate_def Let_def sample_distr_def
  by (auto intro!: keeps_intros split: traffic_models.splits distribution.splits)

lemma keeps_next_delay [keeps_intros]: "keeps_snap env (next_delay env acc p)"
  unfolding next_delay_def by (auto intro!: keeps_intros split: prod.splits)

lemma keeps_fold_prog [keeps_intros]: "(\<And>acc x. keeps_snap env (f acc x)) \<Longrightarrow> keeps_snap env (fold_prog f acc xs)"
  by (induction xs arbitrary: acc) (auto intro: keeps_intros)

lemma keeps_gather [keeps_intros]: "(\<And>x. keeps_snap env (f x)) \<Longrightarrow> keeps_snap env (gather f xs)"
  by (induction xs) (auto intro: keeps_intros)

lemma generate_slice_accounts:
  assumes "named_sockets socks"
  shows "triple_stop (\<lambda>s. balanced fps inst (snap s)) (generate_slice env fps socks rvs)
    (\<lambda>_ s. balanced fps inst (snap s)) (account_stop env fps inst)"
proof -
  have rest: "triple_stop (\<lambda>s. balanced fps inst (snap s))
     (andthen (lift_res (dict_get fps 0)) (\<lambda>first. andthen (transmit env socks ipd_list (fp_time_slice first) fps) (\<lambda>_. ret rvs')))
     (\<lambda>_ s. balanced fps inst (snap s)) (account_stop env fps inst)" for ipd_list rvs'
    by (rule triple_stop_andthen [OF keeps_balanced [OF keeps_simple(2)]], rule triple_stop_andthen [OF transmit_accounts [OF assms]])
      (rule triple_stop_ret)
  have delays: "keeps_snap env (fold_prog (next_delay env) (rvs, []) fps)" by (intro keeps_intros)
  show ?thesis unfolding generate_slice_def
    by (rule triple_stop_andthen [OF keeps_balanced [OF delays]]) (use rest in \<open>auto split: prod.splits\<close>)
qed

lemma keeps_create_sockets: "keeps_snap env (create_sockets env fps)"
  unfolding create_sockets_def create_socket_def
  by (auto intro!: keeps_intros split: prod.splits option.splits)

lemma create_sockets_named:
  assumes "create_sockets env fps s = (Inr socks, s')"
  shows "named_sockets socks \<and> dict_keys socks = dict_keys fps"
  using assms unfolding create_sockets_def
proof (induction fps arbitrary: socks s)
  case (Cons p fps)
  obtain i fp where p: "p = (i, fp)" by (cases p)
  from Cons.prems obtain socks' s1 where "gather (\<lambda>(i, fp). andthen (create_socket env i (fp_source_addr fp)) (\<lambda>sock. ret (i, sock))) fps s1 = (Inr socks', s')"
    and "socks = (i, i) # socks'"
    by (auto simp: p create_socket_def elim!: andthen_InrE)
  then show ?case using Cons.IH [of s1 socks'] p by (auto simp: named_sockets_def)
qed (simp add: named_sockets_def)

lemma generate_traffic_accounts:
  "triple_stop (\<lambda>s. balanced fps inst (snap s)) (generate_traffic env fps) (\<lambda>_ _. False) (account_stop env fps inst)"
proof -
  have sockets: "triple_stop (\<lambda>s. balanced fps inst (snap s)) (create_sockets env fps)
      (\<lambda>socks s. named_sockets socks \<and> balanced fps inst (snap s)) (account_stop env fps inst)"
    by (rule triple_stopI) (use triple_stopD [OF keeps_balanced [OF keeps_create_sockets]] create_sockets_named in blast)+
  have global: "triple_stop (\<lambda>s. named_sockets socks \<and> balanced fps inst (snap s)) (modify_gen (\<lambda>s. s\<lparr>g_sock_dict := Some socks\<rparr>))
      (\<lambda>_ s. named_sockets socks \<and> balanced fps inst (snap s)) (account_stop env fps inst)" for socks
    by (rule triple_modify_gen) (simp add: balanced_def snap_def)
  have loop: "triple_stop (\<lambda>s. named_sockets socks \<and> balanced fps inst (snap s)) (generate_loop env fps socks rvs) (\<lambda>_ _. False)
      (account_stop env fps inst)" for socks rvs
  proof (cases "named_sockets socks")
    case True
    show ?thesis
      by (rule triple_stop_cons [OF triple_generate_loop [where J = "\<lambda>_ s. balanced fps inst (snap s)", OF generate_slice_accounts [OF True]]]) auto
  qed (simp add: triple_stop_def)
  show ?thesis unfolding generate_traffic_def
    by (rule triple_stop_andthen [OF sockets], rule triple_stop_andthen [OF global],
        rule triple_stop_andthen [OF keeps_balanced_and [OF keeps_simple(2)] loop])
qed

lemma gen_main_outcome:
  assumes "gen_main env files argv1 gen_start = (r, s)"
  obtains (early) e where "r = Inl (Died e)" "sent s = []" "g_pkt_count s = []" "written s = None"
    | (ran) e inst fps where "gen_get_args files argv1 = Inr (inst, fps)" "r = Inl e" "account_stop env fps inst e s"
proof (cases rule: andthen_cases [of "op env (\<lambda>_. gen_get_args files argv1)" gen_start
    "\<lambda>(instance_id, flow_params). andthen (modify_gen (\<lambda>s. s\<lparr>g_instance_id := Some instance_id, g_flow_params := Some flow_params\<rparr>)) (\<lambda>_. generate_traffic env flow_params)"])
  case (raised e s')
  then have r: "r = Inl e" "s' = s" using assms by (simp_all add: gen_main_def)
  show thesis
    using raised(1) by (cases rule: op_stopped) (use r early in \<open>auto simp: gen_start_def handle_sig_int_def\<close>)
next
  case (went x s1)
  obtain inst fps where x: "x = (inst, fps)" by (cases x)
  then have args: "gen_get_args files argv1 = Inr (inst, fps)" and s1: "s1 = gen_start\<lparr>ops := 1\<rparr>"
    using op_InrD [OF went(1)] by (simp_all add: gen_start_def)
  define s2 where "s2 = s1\<lparr>g_instance_id := Some inst, g_flow_params := Some fps\<rparr>"
  have run: "generate_traffic env fps s2 = (r, s)"
    using went(2) assms by (simp add: gen_main_def x s2_def)
  have "balanced fps inst (snap s2)"
    by (simp add: s2_def s1 gen_start_def snap_def balanced_def own_packets_def off_by_none sent_on_def dict_get_default_def)
  then show thesis using run ran [OF args] triple_stopD [OF generate_traffic_accounts, of fps inst s2 env] by (cases r) auto
qed

lemma flow_info_of_count:
  assumes "map_res (flow_info_of env s) fps = Inr info"
  shows "dict_keys info = dict_keys fps" and "(i, f) \<in> set info \<Longrightarrow> fi_pkt_count f = dict_get_default (g_pkt_count s) i 0"
proof -
  have one: "flow_info_of env s p = Inr q \<Longrightarrow> fst q = fst p \<and> fi_pkt_count (snd q) = dict_get_default (g_pkt_count s) (fst p) 0" for p q
    by (auto simp: flow_info_of_def rbind_Inr_iff split: prod.splits option.splits)
  have len: "length fps = length info" and at: "\<And>n. n < length info \<Longrightarrow> flow_info_of env s (fps ! n) = Inr (info ! n)"
    using assms by (auto simp: map_res_Inr_iff list_all2_conv_all_nth)
  show "dict_keys info = dict_keys fps"
    by (rule nth_equalityI) (use len one [OF at] in simp_all)
  assume "(i, f) \<in> set info"
  then obtain n where "n < length info" "info ! n = (i, f)" by (auto simp: in_set_conv_nth)
  then show "fi_pkt_count f = dict_get_default (g_pkt_count s) i 0" using one [OF at, of n] by simp
qed

text \<open>
  C21.  When the traffic generator is interrupted and leaves its report, wherever it was interrupted, the report is for the
  flows of its arguments, and for every flow but at most one the reported number of packets is exactly the
  number it sent; for the one flow whose burst was interrupted it is less by at most ten.
\<close>

theorem report_counts_packets:
  assumes "gen_main env files argv1 gen_start = (Inl Exited, s)"
  shows "\<exists>inst fps info j. gen_get_args files argv1 = Inr (inst, fps) \<and>
    written s = Some (sender_file (if fps = [] then None else Some (fp_src_host (snd (last fps)))) (Some inst), info) \<and>
    dict_keys info = dict_keys fps \<and>
    (\<forall>(i, f) \<in> set info. fi_pkt_count f \<le> int (sent_on (sent s) i) \<and>
       int (sent_on (sent s) i) \<le> fi_pkt_count f + (if i = j then 10 else 0))"
  using assms
proof (cases rule: gen_main_outcome)
  case (ran e inst fps)
  then have "accounted fps inst (snap s)" and "reported env s" by (auto simp: account_stop_def stopped_def)
  then obtain j k info where k: "k \<le> 10" "off_by j k (sent s) (g_pkt_count s)" and g: "g_flow_params s = Some fps" "g_instance_id s = Some inst"
    and info: "map_res (flow_info_of env s) fps = Inr info"
      "written s = Some (sender_file (if fps = [] then None else Some (fp_src_host (snd (last fps)))) (Some inst), info)"
    by (auto simp: accounted_def reported_def snap_def BURST_COUNT_def)
  have "fi_pkt_count f \<le> int (sent_on (sent s) i) \<and> int (sent_on (sent s) i) \<le> fi_pkt_count f + (if i = j then 10 else 0)"
    if "(i, f) \<in> set info" for i f
    using flow_info_of_count(2) [OF info(1) that] k by (auto simp: off_by_def)
  then show ?thesis using ran(1) info flow_info_of_count(1) [OF info(1)] by blast
qed simp

theorem report_counts_packets_witness:
  "fst (ex_gen_end 80) = Inl Exited \<and> sent_on (sent (snd (ex_gen_end 80))) 0 = 12 \<and>
   map_option (\<lambda>(p, info). map (\<lambda>(i, f). (i, fi_pkt_count f)) info) (written (snd (ex_gen_end 80))) = Some [(0, 10)] \<and>
   (\<exists>inst fps info. gen_get_args ex_gen_files [ex_gen_path] = Inr (inst, fps) \<and>
     written (snd (ex_gen_end 80)) = Some (sender_file (if fps = [] then None else Some (fp_src_host (snd (last fps)))) (Some inst), info) \<and>
     dict_keys info = dict_keys fps)"
proof -
  have stop: "fst (ex_gen_end 80) = Inl Exited" by code_simp
  then have run: "gen_main (ex_gen_env 80) ex_gen_files [ex_gen_path] gen_start = (Inl Exited, snd (ex_gen_end 80))"
    by (simp add: ex_gen_end_def prod_eq_iff)
  have "sent_on (sent (snd (ex_gen_end 80))) 0 = 12" by code_simp
  moreover have "map_option (\<lambda>(p, info). map (\<lambda>(i, f). (i, fi_pkt_count f)) info) (written (snd (ex_gen_end 80))) = Some [(0, 10)]" by code_simp
  ultimately show ?thesis using stop report_counts_packets [OF run] by blast
qed

text \<open>
  C23.  Every packet the traffic generator sends, on whatever way it ends, goes to the destination of the flow whose socket
  it is sent on, carries the payload of that flow, and has one of the flow's tags, shifted by two, as its type
  of service.
\<close>

theorem packets_of_their_flows:
  assumes "gen_main env files argv1 gen_start = (r, s)" and "p \<in> set (sent s)"
  shows "\<exists>inst fps fp tags i. gen_get_args files argv1 = Inr (inst, fps) \<and> map_of fps (pkt_sock p) = Some fp \<and>
    pkt_addr p = fp_dest_addr fp \<and> pkt_port p = fp_dest_port fp \<and> pkt_data p = fp_data_str fp \<and>
    fp_tag_value fp = Some tags \<and> i < length tags \<and> i < length (fp_prob_mat fp) \<and> pkt_tos p = Some (4 * tags ! i)"
  using assms(1)
proof (cases rule: gen_main_outcome)
  case (ran e inst fps)
  then have "own_packets fps (sent s)" by (simp add: account_stop_def stopped_def accounted_def snap_def)
  then show ?thesis using assms(2) ran(1) unfolding own_packets_def packet_of_def by blast
qed (use assms(2) in simp)

theorem packets_of_their_flows_witness:
  "hd (sent (snd (ex_gen_end 25))) \<in> set (sent (snd (ex_gen_end 25))) \<and> pkt_tos (hd (sent (snd (ex_gen_end 25)))) = Some 20 \<and>
   (\<exists>inst fps fp tags i. gen_get_args ex_gen_files [ex_gen_path] = Inr (inst, fps) \<and>
     map_of fps (pkt_sock (hd (sent (snd (ex_gen_end 25))))) = Some fp \<and> pkt_addr (hd (sent (snd (ex_gen_end 25)))) = fp_dest_addr fp \<and>
     fp_tag_value fp = Some tags \<and> i < length tags \<and> pkt_tos (hd (sent (snd (ex_gen_end 25)))) = Some (4 * tags ! i))"
proof -
  have run: "gen_main (ex_gen_env 25) ex_gen_files [ex_gen_path] gen_start = (fst (ex_gen_end 25), snd (ex_gen_end 25))"
    by (simp add: ex_gen_end_def)
  have sent: "hd (sent (snd (ex_gen_end 25))) \<in> set (sent (snd (ex_gen_end 25)))" by code_simp
  have "pkt_tos (hd (sent (snd (ex_gen_end 25)))) = Some 20" by code_simp
  then show ?thesis using sent packets_of_their_flows [OF run sent] by blast
qed

end
