(* ===== verification/Traffic_Rate.thy ===== *)
theory Traffic_Rate
  imports Traffic_Properties
begin

section \<open>The rate of a flow\<close>

text \<open>
  How many packets of a flow \<open>transmit\<close> sends in a time slice: never more than its rate allows, and none at all when the
  delay between two bursts is as long as the slice, because every slice starts with a full delay.
\<close>

subsection \<open>Bursts are paid for by time\<close>

text \<open>
  After \<open>b\<close> bursts of flow \<open>i\<close>, with delay \<open>ipd\<close> and the time \<open>t\<close> left until the next burst, the delays paid for add
  up to at most the time between \<open>began\<close> and the reading \<open>L\<close>.
\<close>

definition budget ::
    "gen_env \<Rightarrow> nat \<Rightarrow> pyfloat \<Rightarrow> nat \<Rightarrow> pyfloat \<Rightarrow> nat \<Rightarrow> pyfloat \<Rightarrow> ipds \<Rightarrow> gen_state \<Rightarrow> bool" where
  "budget env i ipd prior began b L d s \<longleftrightarrow> (\<exists>t. map_of d i = Some (i, t) \<and> t \<le> ipd \<and> ipd * of_nat b + (ipd - t) \<le> L - began) \<and>
     sent_on (sent s) i = prior + BURST_COUNT * b \<and> L \<le> perf_time env (ops s)"

definition bursts_started :: "nat \<Rightarrow> nat \<Rightarrow> nat \<Rightarrow> bool \<Rightarrow> gen_state \<Rightarrow> bool" where
  "bursts_started i prior b again s \<longleftrightarrow> (\<exists>k \<le> BURST_COUNT. sent_on (sent s) i = prior + BURST_COUNT * b + k \<and> (0 < k \<longrightarrow> again))"

lemma keepsD_sent:
  assumes "keeps_snap env m" and "m s = (r, s')"
  shows "sent s' = sent s"
proof -
  have "snap s' = snap s" using assms keepsD [OF assms(1), of s] by (cases r) (auto simp: stopped_def)
  then show ?thesis by (simp add: snap_def)
qed

lemma budget_later:
  assumes "budget env i ipd prior began b L d s" and "sent s' = sent s" and "ops s \<le> ops s'" and "mono (perf_time env)"
  shows "budget env i ipd prior began b L d s'"
  using assms monoD [OF assms(4,3)] by (auto simp: budget_def)

lemma budget_triple:
  assumes "keeps_snap env m" and "grows m" and "mono (perf_time env)"
  shows "triple_stop (\<lambda>s. A \<and> budget env i ipd prior began b L d s) m (\<lambda>_ s. A \<and> budget env i ipd prior began b L d s)
    (\<lambda>_. bursts_started i prior b again)"
proof (rule triple_stopI)
  fix s x s' assume "A \<and> budget env i ipd prior began b L d s" and run: "m s = (Inr x, s')"
  then show "A \<and> budget env i ipd prior began b L d s'"
    using budget_later [OF _ keepsD_sent [OF assms(1) run] growsD [OF assms(2) run] assms(3)] by blast
next
  fix s e s' assume "A \<and> budget env i ipd prior began b L d s" and run: "m s = (Inl e, s')"
  then show "bursts_started i prior b again s'"
    using keepsD_sent [OF assms(1) run] by (auto simp: budget_def bursts_started_def)
qed

lemma burst_sent_on:
  assumes "send_burst env fps x x s = (r, s')"
  obtains k where "sent_on (sent s') j = sent_on (sent s) j + (if j = x then k else 0)" "k \<le> BURST_COUNT"
    "(\<exists>u. r = Inr u) \<longrightarrow> k = BURST_COUNT"
proof -
  obtain ps C F where snap: "snap s = (ps, C, F)" by (cases "snap s") auto
  have "\<exists>qs. some_packets fps x x qs \<and> sent s' = ps @ qs \<and> ((\<exists>u. r = Inr u) \<longrightarrow> length qs = BURST_COUNT)"
  proof (cases r)
    case (Inl e)
    then show ?thesis using triple_stopD(2) [OF send_burst_triple snap, of env fps x x e s'] assms
      by (auto simp: stopped_def snap_def)
  next
    case (Inr u)
    then show ?thesis using triple_stopD(1) [OF send_burst_triple snap, of env fps x x u s'] assms by (auto simp: snap_def)
  qed
  then obtain qs where "some_packets fps x x qs" "sent s' = ps @ qs" "(\<exists>u. r = Inr u) \<longrightarrow> length qs = BURST_COUNT" by blast
  moreover have "sent s = ps" using snap by (simp add: snap_def)
  ultimately show thesis using that [of "length qs"] some_packets_sent_on [of fps x x qs j]
    by (auto simp: sent_on_append some_packets_def)
qed

lemma grows_send_burst [grows_intros]: "grows (send_burst env fps i sock)"
  unfolding send_burst_def send_packet_def by (auto intro!: grows_intros)

text \<open>Serving another flow changes nothing for flow \<open>i\<close>; serving flow \<open>i\<close>, whose delay has passed, starts a new one.\<close>

lemma serve_other:
  assumes "mono (perf_time env)" and "x \<noteq> i"
  shows "triple_stop (\<lambda>s. own_sockets d \<and> budget env i ipd prior began b L d s) (serve_flow env fps ipd_list d x)
    (\<lambda>d' s. own_sockets d' \<and> budget env i ipd prior began b L d' s) (\<lambda>_. bursts_started i prior b again)"
  unfolding serve_flow_def
proof (rule triple_stop_andthen [where R = "\<lambda>(sock, _) s. sock = x \<and> own_sockets d \<and> budget env i ipd prior began b L d s"])
  show "triple_stop (\<lambda>s. own_sockets d \<and> budget env i ipd prior began b L d s) (lift_res (dict_get d x))
      (\<lambda>(sock, _) s. sock = x \<and> own_sockets d \<and> budget env i ipd prior began b L d s) (\<lambda>_. bursts_started i prior b again)"
    by (rule triple_lift_res) (auto simp: dict_get_Inr_iff own_sockets_def budget_def bursts_started_def)
next
  fix p :: "nat \<times> pyfloat"
  obtain sock t where p: "p = (sock, t)" by (cases p)
  let ?P = "\<lambda>s. (sock = x \<and> own_sockets d) \<and> budget env i ipd prior began b L d s"
  have burst: "triple_stop ?P (send_burst env fps x sock) (\<lambda>_. ?P) (\<lambda>_. bursts_started i prior b again)"
  proof (rule triple_stopI)
    fix s u s' assume P: "?P s" and run: "send_burst env fps x sock s = (Inr u, s')"
    then have "sent_on (sent s') i = sent_on (sent s) i" using burst_sent_on [of env fps x s "Inr u" s' i] assms(2) by auto
    then show "?P s'" using P growsD [OF grows_send_burst run] monoD [OF assms(1), of "ops s" "ops s'"] by (auto simp: budget_def)
  next
    fix s e s' assume P: "?P s" and run: "send_burst env fps x sock s = (Inl e, s')"
    then have "sent_on (sent s') i = sent_on (sent s) i" using burst_sent_on [of env fps x s "Inl e" s' i] assms(2) by auto
    then show "bursts_started i prior b again s'" using P by (auto simp: budget_def bursts_started_def)
  qed
  have "triple_stop ?P (andthen (lift_res (py_nth ipd_list (int x))) (\<lambda>t. ret (dict_set d x (sock, t))))
      (\<lambda>d' s. own_sockets d' \<and> budget env i ipd prior began b L d' s) (\<lambda>_. bursts_started i prior b again)"
    by (rule triple_stop_andthen [OF budget_triple [OF keeps_simple(2) grows_simple(2) assms(1)]])
      (use assms(2) in \<open>auto intro!: triple_stop_ret own_sockets_simps simp: budget_def\<close>)
  then show "triple_stop ((\<lambda>(sock, _) s. sock = x \<and> own_sockets d \<and> budget env i ipd prior began b L d s) p)
      ((\<lambda>(sock, _). andthen (send_burst env fps x sock) (\<lambda>_. andthen (lift_res (py_nth ipd_list (int x))) (\<lambda>t. ret (dict_set d x (sock, t))))) p)
      (\<lambda>d' s. own_sockets d' \<and> budget env i ipd prior began b L d' s) (\<lambda>_. bursts_started i prior b again)"
    unfolding p prod.case conj_assoc [symmetric] by (rule triple_stop_andthen [OF burst])
qed

lemma serve_own:
  assumes "mono (perf_time env)" and "i < length ipd_list" and "0 < ipd_list ! i" and "map_of d i = Some (i, t)" and "t \<le> 0"
  shows "triple_stop (\<lambda>s. own_sockets d \<and> budget env i (ipd_list ! i) prior began b L d s) (serve_flow env fps ipd_list d i)
    (\<lambda>d' s. own_sockets d' \<and> budget env i (ipd_list ! i) prior began (Suc b) L d' s) (\<lambda>_. bursts_started i prior b True)"
proof -
  have serve: "serve_flow env fps ipd_list d i = andthen (send_burst env fps i i) (\<lambda>_. ret (dict_set d i (i, ipd_list ! i)))"
    using assms(2,4) by (simp add: serve_flow_def dict_get_def of_res_def lift_res_def flip: ret_def)
  show ?thesis unfolding serve
  proof (rule triple_stopI)
    fix s d' s' assume P: "own_sockets d \<and> budget env i (ipd_list ! i) prior began b L d s"
      and "andthen (send_burst env fps i i) (\<lambda>_. ret (dict_set d i (i, ipd_list ! i))) s = (Inr d', s')"
    then obtain u where run: "send_burst env fps i i s = (Inr u, s')" and d': "d' = dict_set d i (i, ipd_list ! i)"
      by (auto elim!: andthen_InrE)
    have "sent_on (sent s') i = sent_on (sent s) i + BURST_COUNT" using burst_sent_on [OF run, of i] by auto
    moreover have "ops s \<le> ops s'" by (rule growsD [OF grows_send_burst run])
    moreover have "ipd_list ! i * of_nat b + ipd_list ! i \<le> L - began" using P assms(4,5) by (auto simp: budget_def)
    ultimately show "own_sockets d' \<and> budget env i (ipd_list ! i) prior began (Suc b) L d' s'"
      using P d' monoD [OF assms(1), of "ops s" "ops s'"] by (auto simp: budget_def own_sockets_simps algebra_simps)
  next
    fix s e s' assume P: "own_sockets d \<and> budget env i (ipd_list ! i) prior began b L d s"
      and "andthen (send_burst env fps i i) (\<lambda>_. ret (dict_set d i (i, ipd_list ! i))) s = (Inl e, s')"
    then have run: "send_burst env fps i i s = (Inl e, s')"
      by (cases rule: andthen_cases [of "send_burst env fps i i" s "\<lambda>_. ret (dict_set d i (i, ipd_list ! i))"]) auto
    obtain k where "sent_on (sent s') i = sent_on (sent s) i + k" "k \<le> BURST_COUNT" using burst_sent_on [OF run, of i] by auto
    then show "bursts_started i prior b True s'" using P by (auto simp: budget_def bursts_started_def)
  qed
qed

lemma expired_mem: "dict_wf d \<Longrightarrow> i \<in> set (expired d) \<longleftrightarrow> (\<exists>sock t. map_of d i = Some (sock, t) \<and> t \<le> 0)"
  by (auto simp: expired_def dict_wf_map_of_in [symmetric] image_iff split: prod.splits)

lemma distinct_expired: "dict_wf d \<Longrightarrow> distinct (expired d)"
  by (auto simp: expired_def dict_wf_def intro!: distinct_map_filter)

lemma serve_flow_wf: "serve_flow env fps ipd_list d x s = (Inr d', s') \<Longrightarrow> dict_wf d \<Longrightarrow> dict_wf d'"
  by (auto simp: serve_flow_def lift_res_cases elim!: andthen_InrE split: prod.splits)

text \<open>The flows that have expired at the start of a round are served once each.\<close>

lemma serve_all:
  assumes "mono (perf_time env)" and "i < length ipd_list" and "0 < ipd_list ! i"
  shows "triple_stop (\<lambda>s. (own_sockets d \<and> dict_wf d) \<and> budget env i (ipd_list ! i) prior began b L d s)
    (fold_prog (serve_flow env fps ipd_list) d (expired d))
    (\<lambda>d' s. (own_sockets d' \<and> dict_wf d') \<and> budget env i (ipd_list ! i) prior began (b + of_bool (i \<in> set (expired d))) L d' s)
    (\<lambda>_. bursts_started i prior b (i \<in> set (expired d)))"
proof (cases "dict_wf d")
  case wf: True
  define J where "J xs d' s \<longleftrightarrow> own_sockets d' \<and> dict_wf d' \<and> distinct xs \<and> set xs \<subseteq> set (expired d) \<and>
    (i \<in> set xs \<longrightarrow> (\<exists>t \<le> 0. map_of d' i = Some (i, t))) \<and>
    budget env i (ipd_list ! i) prior began (b + of_bool (i \<in> set (expired d) \<and> i \<notin> set xs)) L d' s" for xs d' s
  have other: "triple_stop (J (x # xs) d') (serve_flow env fps ipd_list d' x) (J xs) (\<lambda>_. bursts_started i prior b (i \<in> set (expired d)))" if "x \<noteq> i" for x xs d'
  proof (rule triple_stopI)
    fix s d'' s' assume P: "J (x # xs) d' s" and run: "serve_flow env fps ipd_list d' x s = (Inr d'', s')"
    from run have same: "map_of d'' i = map_of d' i" using that by (auto simp: serve_flow_def lift_res_cases elim!: andthen_InrE split: prod.splits)
    show "J xs d'' s'" using P that same serve_flow_wf [OF run] triple_stopD(1) [OF serve_other [OF assms(1) that] _ run]
      by (auto simp: J_def)
  next
    fix s e s' assume P: "J (x # xs) d' s" and run: "serve_flow env fps ipd_list d' x s = (Inl e, s')"
    let ?b = "b + of_bool (i \<in> set (expired d) \<and> i \<notin> set (x # xs))"
    have "bursts_started i prior ?b False s'" 
      by (rule triple_stopD(2) [OF serve_other [OF assms(1) that, where b = ?b and ipd = "ipd_list ! i" and began = began and L = L] _ run])
        (use P in \<open>simp only: J_def\<close>)
    then show "bursts_started i prior b (i \<in> set (expired d)) s'"
      by (cases "i \<in> set (expired d) \<and> i \<notin> set (x # xs)") (auto simp: bursts_started_def)
  qed
  have own: "triple_stop (J (i # xs) d') (serve_flow env fps ipd_list d' i) (J xs) (\<lambda>_. bursts_started i prior b (i \<in> set (expired d)))" for xs d'
  proof (rule triple_stopI)
    fix s d'' s' assume P: "J (i # xs) d' s" and run: "serve_flow env fps ipd_list d' i s = (Inr d'', s')"
    then obtain t where "map_of d' i = Some (i, t)" "t \<le> 0" by (auto simp: J_def)
    then show "J xs d'' s'" using P serve_flow_wf [OF run] triple_stopD(1) [OF serve_own [OF assms] _ run] by (auto simp: J_def)
  next
    fix s e s' assume P: "J (i # xs) d' s" and run: "serve_flow env fps ipd_list d' i s = (Inl e, s')"
    then obtain t where "map_of d' i = Some (i, t)" "t \<le> 0" by (auto simp: J_def)
    then have "bursts_started i prior b True s'" using P triple_stopD(2) [OF serve_own [OF assms] _ run] by (auto simp: J_def)
    then show "bursts_started i prior b (i \<in> set (expired d)) s'" using P by (auto simp: J_def)
  qed
  have "triple_stop (J (expired d) d) (fold_prog (serve_flow env fps ipd_list) d (expired d)) (J []) (\<lambda>_. bursts_started i prior b (i \<in> set (expired d)))"
    by (rule triple_stop_fold_prog) (metis other own)
  then show ?thesis
    by (rule triple_stop_cons) (auto simp: J_def distinct_expired [OF wf] expired_mem [OF wf] own_sockets_def)
qed (simp add: triple_stop_def)

subsection \<open>A round and a slice\<close>

lemma bursts_started_next: "bursts_started i prior (b + of_bool e) False s \<Longrightarrow> bursts_started i prior b e s"
  by (cases e) (auto simp: bursts_started_def)

lemma read_budget:
  assumes "mono (perf_time env)"
  shows "triple_stop (\<lambda>s. A \<and> budget env i ipd prior began b L d s) (perf_counter env)
    (\<lambda>now s. (A \<and> L \<le> now) \<and> budget env i ipd prior began b L d s \<and> now \<le> perf_time env (ops s)) (\<lambda>_. bursts_started i prior b again)"
proof (rule triple_stopI)
  fix s now s' assume P: "A \<and> budget env i ipd prior began b L d s" and run: "perf_counter env s = (Inr now, s')"
  have "now = perf_time env (ops s)" "s' = s\<lparr>ops := Suc (ops s)\<rparr>" using clock_InrD(1) [OF run] by auto
  then show "(A \<and> L \<le> now) \<and> budget env i ipd prior began b L d s' \<and> now \<le> perf_time env (ops s')"
    using P monoD [OF assms, of "ops s" "Suc (ops s)"] by (auto simp: budget_def)
qed (use triple_stopD(2) [OF budget_triple [OF keeps_clocks(1) grows_clocks(1) assms]] in blast)

lemma budget_count_down:
  assumes "budget env i ipd prior began b L d s" and "L \<le> later" and "later \<le> perf_time env (ops s)"
  shows "budget env i ipd prior began b later (count_down (later - L) d) s"
  using assms by (auto simp: budget_def map_of_count_down)

lemma count_down_wf: "dict_wf (count_down w d) = dict_wf d"
  by (simp add: dict_wf_def count_down_def comp_def case_prod_beta)

lemma transmit_step_budget:
  assumes "mono (perf_time env)" and "i < length ipd_list" and "0 < ipd_list ! i"
  shows "triple_stop (\<lambda>s. (own_sockets d \<and> dict_wf d) \<and> budget env i (ipd_list ! i) prior began b L d s) (transmit_step env fps ipd_list d)
    (\<lambda>d' s. (own_sockets d' \<and> dict_wf d') \<and> (\<exists>L'. budget env i (ipd_list ! i) prior began (b + of_bool (i \<in> set (expired d))) L' d' s))
    (\<lambda>_. bursts_started i prior b (i \<in> set (expired d)))"
proof -
  let ?b = "b + of_bool (i \<in> set (expired d))"
  let ?B = "\<lambda>L d' s. (own_sockets d' \<and> dict_wf d') \<and> budget env i (ipd_list ! i) prior began ?b L d' s"
  let ?E = "\<lambda>_ :: gen_stop. bursts_started i prior b (i \<in> set (expired d))"
  have start: "triple_stop (\<lambda>s. (own_sockets d \<and> dict_wf d) \<and> budget env i (ipd_list ! i) prior began b L d s) (perf_counter env)
      (\<lambda>now s. (own_sockets d \<and> dict_wf d) \<and> budget env i (ipd_list ! i) prior began b now d s) ?E"
    by (rule triple_stop_cons [OF read_budget [OF assms(1), where A = "own_sockets d \<and> dict_wf d"]]) (auto simp: budget_def)
  have keep: "triple_stop (?B L d') m (\<lambda>_. ?B L d') ?E" if "keeps_snap env m" "grows m" for m :: "'a gen" and L d'
    by (rule triple_stop_cons [OF budget_triple [OF that assms(1), where A = "own_sockets d' \<and> dict_wf d'" and b = ?b]]) (auto intro: bursts_started_next)
  have last: "triple_stop (?B L d') (andthen (perf_counter env) (\<lambda>later. ret (count_down (later - L) d')))
      (\<lambda>d' s. (own_sockets d' \<and> dict_wf d') \<and> (\<exists>L'. budget env i (ipd_list ! i) prior began ?b L' d' s)) ?E" for L d'
  proof (rule triple_stop_andthen)
    show "triple_stop (?B L d') (perf_counter env) (\<lambda>later s. ((own_sockets d' \<and> dict_wf d') \<and> L \<le> later) \<and>
        budget env i (ipd_list ! i) prior began ?b L d' s \<and> later \<le> perf_time env (ops s)) ?E"
      by (rule triple_stop_cons [OF read_budget [OF assms(1), where A = "own_sockets d' \<and> dict_wf d'" and b = ?b]]) (auto intro: bursts_started_next)
  qed (auto intro!: triple_stop_ret own_sockets_simps budget_count_down simp: count_down_wf)
  show ?thesis unfolding transmit_step_def
    by (rule triple_stop_andthen [OF start], rule triple_stop_andthen [OF serve_all [OF assms]],
        rule triple_stop_andthen [OF keep [OF keeps_clocks(1) grows_clocks(1)]],
        rule triple_stop_andthen [OF keep [OF keeps_simple(2) grows_simple(2)]],
        rule triple_stop_andthen [OF keep [OF keeps_wait grows_wait] last])
qed

text \<open>At the start of a slice every flow has its full delay before it.\<close>

lemma create_ipds_start:
  assumes "create_ipds socks ipd_list = Inr d" and "named_sockets socks"
  shows "own_sockets d \<and> dict_wf d" and "i < length ipd_list \<Longrightarrow> map_of d i = Some (i, ipd_list ! i)"
proof -
  have all: "list_all2 (\<lambda>j p. rbind (dict_get socks j) (\<lambda>sock. Inr (j, (sock, ipd_list ! j))) = Inr p) [0..<length ipd_list] d"
    using assms(1) by (simp add: create_ipds_def map_res_Inr_iff)
  have at: "fst (d ! j) = j \<and> snd (snd (d ! j)) = ipd_list ! j" if "j < length ipd_list" for j
    using list_all2_nthD [OF all, of j] that by (auto simp: rbind_Inr_iff eq_commute [of _ "d ! j"])
  have len: "length d = length ipd_list" using list_all2_lengthD [OF all] by simp
  have "dict_keys d = [0..<length ipd_list]" by (rule nth_equalityI) (use at len in simp_all)
  then show wf: "own_sockets d \<and> dict_wf d" using create_ipds_own_sockets [OF assms] by (simp add: dict_wf_def)
  assume i: "i < length ipd_list"
  then have "(i, fst (snd (d ! i)), ipd_list ! i) \<in> set d" using at [OF i] len by (metis nth_mem prod.collapse)
  then have "map_of d i = Some (fst (snd (d ! i)), ipd_list ! i)" using wf by (simp add: dict_wf_map_of_in)
  then show "map_of d i = Some (i, ipd_list ! i)" using wf by (auto simp: own_sockets_def)
qed

text \<open>What holds between the rounds of a slice holds when it ends, and what holds of a round that is stopped holds when the slice is.\<close>

lemma transmit_by_rounds:
  assumes run: "transmit env socks ipd_list duration fps s = (r, s')"
    and start: "\<And>d start s1. create_ipds socks ipd_list = Inr d \<Longrightarrow> wall_clock env s = (Inr start, s1) \<Longrightarrow> J start d s1"
    and clock: "\<And>start d. triple_stop (J start d) (wall_clock env) (\<lambda>now. K start now d) (\<lambda>_. E)"
    and round: "\<And>start d now. now - start < duration \<Longrightarrow> triple_stop (K start now d) (transmit_step env fps ipd_list d) (J start) (\<lambda>_. E)"
    and final: "\<And>start now d t. K start now d t \<Longrightarrow> E t"
    and idle: "\<And>t. sent t = sent s \<Longrightarrow> ops s \<le> ops t \<Longrightarrow> E t"
  shows "E s'"
proof -
  let ?m = "andthen (lift_res (create_ipds socks ipd_list)) (\<lambda>d. andthen (wall_clock env) (\<lambda>start. andthen (lift_res (min_ipd d)) (\<lambda>_. ret (d, start))))"
  have loop: "transmit env socks ipd_list duration fps = andthen ?m (\<lambda>(d, start). transmit_loop env start duration fps ipd_list d)"
    by (simp add: transmit_def andthen_assoc)
  have keeps: "keeps_snap env ?m" and grows: "grows ?m" by (intro keeps_intros grows_intros)+
  show ?thesis
  proof (cases rule: andthen_cases [of ?m s "\<lambda>(d, start). transmit_loop env start duration fps ipd_list d"])
    case (raised e t)
    then show ?thesis using run loop idle [OF keepsD_sent [OF keeps raised(1)] growsD [OF grows raised(1)]] by simp
  next
    case (went x t)
    obtain d start where x: "x = (d, start)" by (cases x)
    have J: "J start d t"
      using went(1) x by (auto elim!: andthen_InrE simp: lift_res_Inr intro!: start)
    have "triple_stop (J start d) (transmit_loop env start duration fps ipd_list d) (\<lambda>_. E) (\<lambda>_. E)"
      by (rule triple_stop_cons [OF triple_transmit_loop [where J = "J start" and K = "K start", OF clock round]]) (auto intro: final)
    then show ?thesis using J run went(2) x loop triple_stopD by (cases r) fastforce+
  qed
qed

subsection \<open>The rate\<close>

definition within_time :: "gen_env \<Rightarrow> nat \<Rightarrow> pyfloat \<Rightarrow> nat \<Rightarrow> pyfloat \<Rightarrow> gen_state \<Rightarrow> bool" where
  "within_time env i ipd prior began s \<longleftrightarrow> prior \<le> sent_on (sent s) i \<and>
     of_nat (sent_on (sent s) i - prior) * ipd \<le> 10 * (perf_time env (ops s) - began)"

lemma budget_within_time:
  assumes "budget env i ipd prior began b L d s" and "own_sockets d \<and> dict_wf d" and "bursts_started i prior b (i \<in> set (expired d)) s'"
    and "ops s \<le> ops s'" and "mono (perf_time env)" and "0 < ipd"
  shows "within_time env i ipd prior began s'"
proof -
  obtain t k where t: "map_of d i = Some (i, t)" "t \<le> ipd" "ipd * of_nat b + (ipd - t) \<le> L - began" "L \<le> perf_time env (ops s)"
    and k: "k \<le> 10" "sent_on (sent s') i = prior + 10 * b + k" "0 < k \<longrightarrow> i \<in> set (expired d)"
    using assms(1,3) by (auto simp: budget_def bursts_started_def BURST_COUNT_def)
  have late: "L \<le> perf_time env (ops s')" using t(4) monoD [OF assms(5,4)] by simp
  have "of_nat k * ipd \<le> 10 * (ipd - t)"
  proof (cases "k = 0")
    case False
    then have "t \<le> 0" using k(3) t(1) assms(2) by (auto simp: expired_mem)
    moreover have "of_nat k * ipd \<le> 10 * ipd" using k(1) assms(6) by (intro mult_right_mono) auto
    ultimately show ?thesis by simp
  qed (use t(2) in simp)
  moreover have "of_nat (10 * b + k) * ipd = 10 * (ipd * of_nat b) + of_nat k * ipd" by (simp add: algebra_simps)
  ultimately have "of_nat (10 * b + k) * ipd \<le> 10 * (ipd * of_nat b + (ipd - t))" by (simp only: distrib_left)
  also have "\<dots> \<le> 10 * (L - began)" using t(3) by (rule mult_left_mono) simp
  finally have "of_nat (10 * b + k) * ipd \<le> 10 * (L - began)" .
  then show ?thesis using k(2) late by (simp add: within_time_def)
qed

lemma transmit_within_time:
  assumes mono: "mono (perf_time env)" and named: "named_sockets socks" and i: "i < length ipd_list" and pos: "0 < ipd_list ! i"
    and run: "transmit env socks ipd_list duration fps s = (r, s')"
  shows "within_time env i (ipd_list ! i) (sent_on (sent s) i) (perf_time env (ops s)) s'"
proof -
  let ?B = "budget env i (ipd_list ! i) (sent_on (sent s) i) (perf_time env (ops s))"
  let ?E = "within_time env i (ipd_list ! i) (sent_on (sent s) i) (perf_time env (ops s))"
  let ?J = "\<lambda>d t. (own_sockets d \<and> dict_wf d) \<and> (\<exists>b L. ?B b L d t)"
  have bound: "?E t'" if "?B b L d t" "own_sockets d \<and> dict_wf d" "sent t' = sent t" "ops t \<le> ops t'" for b L d t t'
    by (rule budget_within_time [OF that(1,2) _ that(4) mono pos]) (use that(1,3) in \<open>auto simp: budget_def bursts_started_def\<close>)
  show ?thesis
  proof (rule transmit_by_rounds [where J = "\<lambda>_. ?J" and K = "\<lambda>_ _. ?J" and E = ?E, OF run])
    fix d start s1 assume d: "create_ipds socks ipd_list = Inr d" and tick: "wall_clock env s = (Inr start, s1)"
    have "?B 0 (perf_time env (ops s)) d s1"
      using clock_InrD(2) [OF tick] create_ipds_start(2) [OF d named i] monoD [OF mono, of "ops s" "Suc (ops s)"] by (auto simp: budget_def)
    then show "?J d s1" using create_ipds_start(1) [OF d named] by blast
  next
    fix d show "triple_stop (?J d) (wall_clock env) (\<lambda>_. ?J d) (\<lambda>_. ?E)"
    proof (rule triple_stopI)
      fix t x t' assume "?J d t" and tick: "wall_clock env t = (Inr x, t')"
      then show "?J d t'" using budget_later [OF _ keepsD_sent [OF keeps_clocks(2) tick] growsD [OF grows_clocks(2) tick] mono] by blast
    next
      fix t e t' assume "?J d t" and tick: "wall_clock env t = (Inl e, t')"
      then show "?E t'" using bound keepsD_sent [OF keeps_clocks(2) tick] growsD [OF grows_clocks(2) tick] by blast
    qed
  next
    fix d show "triple_stop (?J d) (transmit_step env fps ipd_list d) ?J (\<lambda>_. ?E)"
    proof (rule triple_stopI)
      fix t d' t' assume "?J d t" and "transmit_step env fps ipd_list d t = (Inr d', t')"
      then show "?J d' t'" using triple_stopD(1) [OF transmit_step_budget [OF mono i pos]] by blast
    next
      fix t e t' assume J: "?J d t" and step: "transmit_step env fps ipd_list d t = (Inl e, t')"
      then obtain b L where B: "?B b L d t" by blast
      then have "bursts_started i (sent_on (sent s) i) b (i \<in> set (expired d)) t'"
        using J triple_stopD(2) [OF transmit_step_budget [OF mono i pos] _ step] by blast
      then show "?E t'" using B J budget_within_time [OF B _ _ growsD [OF grows_transmit_step step] mono pos] by blast
    qed
  next
    fix d t assume "?J d t" then show "?E t" using bound by blast
  next
    fix t :: gen_state assume "sent t = sent s" "ops s \<le> ops t"
    then show "?E t" using monoD [OF mono, of "ops s" "ops t"] by (simp add: within_time_def)
  qed
qed

lemma silent_slice:
  assumes mono: "mono (perf_time env)" and clocks: "\<And>n. time_time env n = perf_time env n + skew"
    and named: "named_sockets socks" and i: "i < length ipd_list" and pos: "0 < ipd_list ! i" and slow: "duration \<le> ipd_list ! i"
    and run: "transmit env socks ipd_list duration fps s = (r, s')"
  shows "sent_on (sent s') i = sent_on (sent s) i"
proof -
  let ?B = "\<lambda>start. budget env i (ipd_list ! i) (sent_on (sent s) i) (start - skew) 0"
  let ?J = "\<lambda>start d t. (own_sockets d \<and> dict_wf d) \<and> (\<exists>L. ?B start L d t)"
  let ?K = "\<lambda>start now d t. (own_sockets d \<and> dict_wf d) \<and> (\<exists>L. ?B start L d t \<and> L \<le> now - skew)"
  let ?E = "\<lambda>t. sent_on (sent t) i = sent_on (sent s) i"
  show ?thesis
  proof (rule transmit_by_rounds [where J = ?J and K = ?K and E = ?E, OF run])
    fix d start s1 assume d: "create_ipds socks ipd_list = Inr d" and tick: "wall_clock env s = (Inr start, s1)"
    have "?B start (perf_time env (ops s)) d s1"
      using clock_InrD(2) [OF tick] create_ipds_start(2) [OF d named i] monoD [OF mono, of "ops s" "Suc (ops s)"] clocks by (auto simp: budget_def)
    then show "?J start d s1" using create_ipds_start(1) [OF d named] by blast
  next
    fix start d show "triple_stop (?J start d) (wall_clock env) (\<lambda>now. ?K start now d) (\<lambda>_. ?E)"
    proof (rule triple_stopI)
      fix t now t' assume J: "?J start d t" and tick: "wall_clock env t = (Inr now, t')"
      then obtain L where B: "?B start L d t" by blast
      have "now = perf_time env (ops t) + skew" using clock_InrD(2) [OF tick] clocks by simp
      then have "L \<le> now - skew" using B by (simp add: budget_def)
      then show "?K start now d t'"
        using J budget_later [OF B keepsD_sent [OF keeps_clocks(2) tick] growsD [OF grows_clocks(2) tick] mono] by blast
    next
      fix t e t' assume "?J start d t" and tick: "wall_clock env t = (Inl e, t')"
      then show "?E t'" using keepsD_sent [OF keeps_clocks(2) tick] by (auto simp: budget_def)
    qed
  next
    fix start d now :: _ assume early: "now - start < duration"
    have quiet: "i \<notin> set (expired d)" if "?K start now d t" for t
      using that early slow by (auto simp: expired_mem budget_def)
    show "triple_stop (?K start now d) (transmit_step env fps ipd_list d) (?J start) (\<lambda>_. ?E)"
    proof (rule triple_stopI)
      fix t d' t' assume K: "?K start now d t" and step: "transmit_step env fps ipd_list d t = (Inr d', t')"
      then obtain L where "(own_sockets d \<and> dict_wf d) \<and> ?B start L d t" by blast
      from triple_stopD(1) [OF transmit_step_budget [OF mono i pos] this step] show "?J start d' t'" using quiet [OF K] by simp
    next
      fix t e t' assume K: "?K start now d t" and step: "transmit_step env fps ipd_list d t = (Inl e, t')"
      then obtain L where "(own_sockets d \<and> dict_wf d) \<and> ?B start L d t" by blast
      from triple_stopD(2) [OF transmit_step_budget [OF mono i pos] this step] show "?E t'"
        using quiet [OF K] by (simp add: bursts_started_def)
    qed
  qed (auto simp: budget_def)
qed

text \<open>
  C22.  In a time slice, however it ends, a flow with a positive rate never sends more than its rate allows: the bytes of its
  packets are at most the rate times the time that has passed, if the clock does not run backwards.
\<close>

theorem flow_within_rate:
  assumes "mono (perf_time env)" and "create_sockets env fps s0 = (Inr socks, s1)" and "i < length ipd_list"
    and "ipd_list ! i = compute_inter_pkt_delay pkt_len rate slice" and "0 < pkt_len" and "0 < rate"
    and "transmit env socks ipd_list duration fps s = (r, s')"
  shows "of_nat (sent_on (sent s') i - sent_on (sent s) i) * of_int pkt_len \<le> rate * (perf_time env (ops s') - perf_time env (ops s))"
proof -
  have ipd: "ipd_list ! i = of_int pkt_len / rate * 10" using assms(4,6) by (simp add: compute_inter_pkt_delay_def BURST_COUNT_def)
  then have "0 < ipd_list ! i" using assms(5,6) by simp
  moreover have "named_sockets socks" using create_sockets_named [OF assms(2)] by blast
  ultimately have "of_nat (sent_on (sent s') i - sent_on (sent s) i) * (ipd_list ! i) \<le> 10 * (perf_time env (ops s') - perf_time env (ops s))"
    using transmit_within_time [OF assms(1) _ assms(3) _ assms(7)] unfolding within_time_def by blast
  moreover have "of_nat (sent_on (sent s') i - sent_on (sent s) i) * (ipd_list ! i) =
      10 * ((of_nat (sent_on (sent s') i - sent_on (sent s) i) * of_int pkt_len) / rate)" by (simp add: ipd)
  ultimately have "(of_nat (sent_on (sent s') i - sent_on (sent s) i) * of_int pkt_len) / rate \<le> perf_time env (ops s') - perf_time env (ops s)"
    by (simp only: mult_le_cancel_left_pos [OF zero_less_numeral])
  then show ?thesis using assms(6) by (simp add: pos_divide_le_eq mult.commute)
qed

lemma ex_gen_clock: "mono (perf_time (ex_gen_env n))" "time_time (ex_gen_env n) k = perf_time (ex_gen_env n) k + 100"
  by (auto simp: ex_gen_env_def intro!: monoI divide_right_mono)

theorem flow_within_rate_witness:
  "sent_on (sent (snd (transmit (ex_gen_env 200) [(0, 0)] [1 / 2] 1 ex_gen_flows gen_start))) 0 = 10 \<and>
   of_nat (sent_on (sent (snd (transmit (ex_gen_env 200) [(0, 0)] [1 / 2] 1 ex_gen_flows gen_start))) 0 - sent_on (sent gen_start) 0) * of_int 50
     \<le> 1000 * (perf_time (ex_gen_env 200) (ops (snd (transmit (ex_gen_env 200) [(0, 0)] [1 / 2] 1 ex_gen_flows gen_start))) - perf_time (ex_gen_env 200) (ops gen_start))"
proof -
  let ?run = "transmit (ex_gen_env 200) [(0, 0)] [1 / 2] 1 ex_gen_flows gen_start"
  have "fst (create_sockets (ex_gen_env 200) ex_gen_flows gen_start) = Inr [(0, 0)]" by code_simp
  then have "create_sockets (ex_gen_env 200) ex_gen_flows gen_start = (Inr [(0, 0)], snd (create_sockets (ex_gen_env 200) ex_gen_flows gen_start))"
    by (simp add: prod_eq_iff)
  moreover have "[1 / 2] ! 0 = compute_inter_pkt_delay 50 1000 1" by code_simp
  moreover have "?run = (fst ?run, snd ?run)" by simp
  moreover have "sent_on (sent (snd ?run)) 0 = 10" by code_simp
  ultimately show ?thesis using flow_within_rate [OF ex_gen_clock(1), of 200 ex_gen_flows gen_start "[(0, 0)]" _ 0 "[1 / 2]" 50 1000 1 1 gen_start]
    by fastforce
qed



end
