(* ===== verification/Traffic_Liveness.thy ===== *)
theory Traffic_Liveness
  imports Traffic_Rate
begin

section \<open>The traffic generator runs until it is interrupted\<close>

text \<open>
  With arguments as the hosts configure them, and as long as the network takes the packets, nothing but the signal
  ends the traffic generator, and then it writes its report.
\<close>

subsection \<open>Well-formed flows\<close>

text \<open>The ratios add up to one or more, every ratio has a tag, and the traffic model has its parameters.\<close>

definition flow_ok :: "gen_env \<Rightarrow> flow_parameters \<Rightarrow> bool" where
  "flow_ok env fp \<longleftrightarrow> 1 \<le> sum_list (fp_prob_mat fp) \<and>
     (case fp_tag_value fp of None \<Rightarrow> False | Some tags \<Rightarrow> length (fp_prob_mat fp) \<le> length tags) \<and>
     is_ok (create_distribution (msqrt env) (fp_tx_rate fp) (fp_variance fp) (fp_traffic_model fp) (fp_transmit_rates fp)) \<and>
     fp_transmit_rates fp \<noteq> Some []"

definition network_ok :: "gen_env \<Rightarrow> bool" where
  "network_ok env \<longleftrightarrow> (\<forall>n. uniform_pick env n \<le> 1) \<and> (\<forall>n addr. bind_to env n addr = Inr ()) \<and> (\<forall>n p. send_to env n p = Inr ())"

definition flows_ok :: "gen_env \<Rightarrow> (nat, flow_parameters) dict \<Rightarrow> bool" where
  "flows_ok env fps \<longleftrightarrow> fps \<noteq> [] \<and> dict_keys fps = [0..<length fps] \<and> (\<forall>(i, fp) \<in> set fps. flow_ok env fp)"

definition ready :: "(nat, flow_parameters) dict \<Rightarrow> (nat, nat) dict \<Rightarrow> gen_state \<Rightarrow> bool" where
  "ready fps socks s \<longleftrightarrow> g_flow_params s = Some fps \<and> g_sock_dict s = Some socks \<and> dict_keys socks = dict_keys fps"

definition safe :: "(nat, flow_parameters) dict \<Rightarrow> (nat, nat) dict \<Rightarrow> 'a gen \<Rightarrow> bool" where
  "safe fps socks m \<longleftrightarrow> triple_stop (ready fps socks) m (\<lambda>_. ready fps socks) (\<lambda>e _. e = Exited)"

named_theorems safe_intros \<open>parts of the program that only the signal stops\<close>

lemma flows_ok_at:
  assumes "flows_ok env fps" and "i < length fps"
  shows "\<exists>fp. map_of fps i = Some fp \<and> flow_ok env fp"
proof -
  have keys: "dict_keys fps = [0..<length fps]" using assms(1) by (simp add: flows_ok_def)
  then have "i \<in> set (dict_keys fps)" using assms(2) by simp
  then obtain fp where "map_of fps i = Some fp" using keys_lookup by fastforce
  moreover from this have "flow_ok env fp" using assms(1) map_of_SomeD by (fastforce simp: flows_ok_def)
  ultimately show ?thesis by blast
qed

lemma handler_exits:
  assumes "ready fps socks s"
  shows "\<exists>s'. handle_sig_int env s = (Exited, s')"
proof -
  have "\<exists>q. flow_info_of env s p = Inr q" if "p \<in> set fps" for p
  proof -
    obtain i fp where p: "p = (i, fp)" by (cases p)
    then have "i \<in> set (dict_keys socks)" using that assms by (force simp: ready_def)
    then obtain sock where "map_of socks i = Some sock" using keys_lookup by fastforce
    then show ?thesis using assms by (simp add: p flow_info_of_def ready_def dict_get_def)
  qed
  then obtain info where "map_res (flow_info_of env s) fps = Inr info" using map_res_total [of fps "flow_info_of env s"] by metis
  then show ?thesis using assms by (simp add: handle_sig_int_def ready_def Let_def)
qed

lemma safe_op [safe_intros]:
  assumes "\<And>n. \<exists>x. f n = Inr x"
  shows "safe fps socks (op env f)"
  unfolding safe_def
proof (rule triple_stopI)
  fix s x s' assume "ready fps socks s" "op env f s = (Inr x, s')"
  then show "ready fps socks s'" using op_InrD [of env f s x s'] by (simp add: ready_def)
next
  fix s e s' assume "ready fps socks s" and stop: "op env f s = (Inl e, s')"
  from stop show "e = Exited"
  proof (cases rule: op_stopped)
    case (died e')
    then show ?thesis using assms [of "ops s"] by auto
  next
    case handled
    then show ?thesis using handler_exits [OF \<open>ready fps socks s\<close>, of env] by auto
  qed
qed

lemma safe_simple [safe_intros]:
  "safe fps socks (ret x)" "r = Inr x \<Longrightarrow> safe fps socks (lift_res r)"
  "(\<And>s. ready fps socks s \<Longrightarrow> ready fps socks (f s)) \<Longrightarrow> safe fps socks (modify_gen f)"
  by (auto simp: safe_def intro: triple_stop_ret triple_lift_res triple_modify_gen)

lemma safe_andthen [safe_intros]: "safe fps socks m \<Longrightarrow> (\<And>x. safe fps socks (f x)) \<Longrightarrow> safe fps socks (andthen m f)"
  unfolding safe_def by (rule triple_stop_andthen)

lemma safe_andthen_result:
  assumes "safe fps socks m" and "\<And>s x s'. m s = (Inr x, s') \<Longrightarrow> V x" and "\<And>x. V x \<Longrightarrow> safe fps socks (f x)"
  shows "safe fps socks (andthen m f)"
  unfolding safe_def
proof (rule triple_stop_andthen)
  show "triple_stop (ready fps socks) m (\<lambda>x s. V x \<and> ready fps socks s) (\<lambda>e _. e = Exited)"
    by (rule triple_stopI) (use assms(1,2) in \<open>auto simp: safe_def dest: triple_stopD\<close>)
  show "triple_stop (\<lambda>s. V x \<and> ready fps socks s) (f x) (\<lambda>_. ready fps socks) (\<lambda>e _. e = Exited)" for x
    using assms(3) [of x] by (cases "V x") (auto simp: safe_def triple_stop_def)
qed

lemma safe_each [safe_intros]: "(\<And>x. x \<in> set xs \<Longrightarrow> safe fps socks (f x)) \<Longrightarrow> safe fps socks (each f xs)"
  by (induction xs) (auto intro: safe_intros)

lemma safe_clocks [safe_intros]: "safe fps socks (perf_counter env)" "safe fps socks (wall_clock env)"
  unfolding perf_counter_def wall_clock_def by (auto intro: safe_intros)

lemma safe_wait [safe_intros]: "safe fps socks (wait env t)"
proof -
  have "safe fps socks (wait_loop env start t)" for start
    using safe_clocks(1) unfolding safe_def by (rule triple_wait_loop)
  then show ?thesis unfolding wait_def by (intro safe_intros)
qed

subsection \<open>Sending\<close>

lemma safe_select_dscp:
  assumes "network_ok env" and "flow_ok env fp"
  shows "safe fps socks (select_dscp env (fp_prob_mat fp) (fp_tag_value fp))"
    and "select_dscp env (fp_prob_mat fp) (fp_tag_value fp) s = (Inr x, s') \<Longrightarrow> x \<noteq> None"
proof -
  obtain tags where tags: "fp_tag_value fp = Some tags" "length (fp_prob_mat fp) \<le> length tags" and one: "1 \<le> sum_list (fp_prob_mat fp)"
    using assms(2) by (auto simp: flow_ok_def split: option.splits)
  have path: "\<exists>i d. select_path pick 0 0 (fp_prob_mat fp) = Some i \<and> calc_dscp_val i (fp_tag_value fp) = Inr d" if "pick \<le> 1" for pick
  proof -
    have "fp_prob_mat fp \<noteq> []" "pick \<le> 0 + sum_list (fp_prob_mat fp)" using one that by auto
    then obtain i where i: "select_path pick 0 0 (fp_prob_mat fp) = Some i" using select_path_total by blast
    then show ?thesis using tags select_path_bounds [OF i] by (auto simp: calc_dscp_val_def)
  qed
  have pick: "op env (\<lambda>n. Inr (uniform_pick env n)) t = (Inr x, t') \<Longrightarrow> x \<le> 1" for t x t'
    using assms(1) by (auto simp: network_ok_def dest: op_InrD)
  show "safe fps socks (select_dscp env (fp_prob_mat fp) (fp_tag_value fp))"
    unfolding select_dscp_def
    by (rule safe_andthen_result [where V = "\<lambda>p. p \<le> 1"]) (use path in \<open>fastforce intro: safe_intros pick\<close>)+
  assume "select_dscp env (fp_prob_mat fp) (fp_tag_value fp) s = (Inr x, s')"
  then show "x \<noteq> None"
    unfolding select_dscp_def using path pick by (elim andthen_InrE) (fastforce simp: lift_res_Inr)
qed

lemma safe_send_packet [safe_intros]:
  assumes "network_ok env" and "flow_ok env fp"
  shows "safe fps socks (send_packet env sock fp)"
proof -
  have set: "safe fps socks (set_dscp env sock x)" if "x \<noteq> None" for x
    using that unfolding set_dscp_def by (auto intro!: safe_intros simp: ready_def)
  have send: "safe fps socks (sendto env sock fp)"
  proof -
    have "safe fps socks (andthen (op env (\<lambda>n. send_to env n p)) (\<lambda>_. modify_gen (\<lambda>t. t\<lparr>sent := sent t @ [p]\<rparr>)))" for p
      using assms(1) by (auto intro!: safe_intros simp: ready_def network_ok_def)
    then show ?thesis unfolding safe_def sendto_def triple_stop_def by presburger
  qed
  show ?thesis unfolding send_packet_def
    by (rule safe_andthen_result [where V = "\<lambda>x. x \<noteq> None", OF safe_select_dscp(1) [OF assms] safe_select_dscp(2) [OF assms]])
      (auto intro: safe_intros set send)
qed

lemma safe_send_burst [safe_intros]:
  assumes "network_ok env" and "flows_ok env fps" and "i < length fps"
  shows "safe fps socks (send_burst env fps i sock)"
proof -
  obtain fp where "map_of fps i = Some fp" "flow_ok env fp" using flows_ok_at [OF assms(2,3)] by blast
  then show ?thesis unfolding send_burst_def inc_pkt_count_def
    using assms(1) by (auto intro!: safe_intros simp: ready_def dict_get_def lift_res_ok)
qed

subsection \<open>Slices\<close>

lemma fold_prog_result:
  assumes "\<And>acc x s acc' s'. V acc \<Longrightarrow> x \<in> set xs \<Longrightarrow> f acc x s = (Inr acc', s') \<Longrightarrow> V acc'" and "V acc"
    and "fold_prog f acc xs s = (Inr acc', s')"
  shows "V acc'"
  using assms
proof (induction xs arbitrary: acc s)
  case (Cons x xs)
  from Cons.prems(3) obtain acc1 s1 where "f acc x s = (Inr acc1, s1)" "fold_prog f acc1 xs s1 = (Inr acc', s')"
    by (auto elim: andthen_InrE)
  then show ?case using Cons.IH [of acc1 s1] Cons.prems(1,2) by (meson list.set_intros)
qed simp

lemma safe_fold_prog:
  assumes "\<And>acc x. V acc \<Longrightarrow> x \<in> set xs \<Longrightarrow> safe fps socks (f acc x)"
    and "\<And>acc x s acc' s'. V acc \<Longrightarrow> x \<in> set xs \<Longrightarrow> f acc x s = (Inr acc', s') \<Longrightarrow> V acc'" and "V acc"
  shows "safe fps socks (fold_prog f acc xs)"
  using assms
proof (induction xs arbitrary: acc)
  case (Cons x xs)
  show ?case unfolding fold_prog.simps
  proof (rule safe_andthen_result [where V = V])
    show "safe fps socks (f acc x)" using Cons.prems(1,3) by simp
    show "V acc'" if "f acc x s = (Inr acc', s')" for s acc' s' using Cons.prems(2,3) that by (meson list.set_intros(1))
    show "safe fps socks (fold_prog f acc' xs)" if "V acc'" for acc'
      using Cons.IH [of acc'] Cons.prems(1,2) that by (meson list.set_intros(2))
  qed
qed (simp add: safe_intros)

definition slots :: "pyfloat list \<Rightarrow> ipds \<Rightarrow> bool" where
  "slots ipd_list d \<longleftrightarrow> dict_keys d = [0..<length ipd_list]"

lemma slots_at: "slots ipd_list d \<Longrightarrow> i < length ipd_list \<Longrightarrow> \<exists>sock t. map_of d i = Some (sock, t)"
  using keys_lookup [of i d] by (auto simp: slots_def)

lemma slots_expired: "slots ipd_list d \<Longrightarrow> i \<in> set (expired d) \<Longrightarrow> i < length ipd_list"
proof -
  assume keys: "slots ipd_list d" and "i \<in> set (expired d)"
  then have "i \<in> set (dict_keys d)" by (auto simp: expired_def)
  then show ?thesis using keys unfolding slots_def by (metis atLeastLessThan_iff set_upt)
qed


lemma safe_serve_flow:
  assumes "network_ok env" and "flows_ok env fps" and "length ipd_list = length fps" and "slots ipd_list d" and "i < length ipd_list"
  shows "safe fps socks (serve_flow env fps ipd_list d i)"
proof -
  obtain sock t where "map_of d i = Some (sock, t)" using slots_at [OF assms(4,5)] by blast
  then show ?thesis unfolding serve_flow_def
    using assms by (auto intro!: safe_intros simp: dict_get_def lift_res_ok)
qed

lemma serve_flow_slots:
  assumes "slots ipd_list d" and "i < length ipd_list" and "serve_flow env fps ipd_list d i s = (Inr d', s')"
  shows "slots ipd_list d'"
  using assms by (auto simp: serve_flow_def slots_def lift_res_Inr elim!: andthen_InrE split: prod.splits if_splits)

lemma transmit_step_slots:
  assumes "slots ipd_list d" and "transmit_step env fps ipd_list d s = (Inr d', s')"
  shows "slots ipd_list d'"
proof -
  from assms(2) obtain d1 w s1 s2 where "fold_prog (serve_flow env fps ipd_list) d (expired d) s1 = (Inr d1, s2)" "d' = count_down w d1"
    unfolding transmit_step_def by (auto elim!: andthen_InrE)
  moreover from this(1) have "slots ipd_list d1"
    by (rule fold_prog_result [where V = "slots ipd_list", rotated 2]) (use assms(1) slots_expired serve_flow_slots in blast)+
  ultimately show ?thesis by (simp add: slots_def count_down_def comp_def case_prod_beta)
qed

lemma slots_least:
  assumes "slots ipd_list d" and "length ipd_list = length fps" and "flows_ok env fps"
  shows "\<exists>t. min_ipd d = Inr t"
proof -
  have "length (dict_keys d) = length fps" using assms(1,2) by (simp add: slots_def)
  then have "d \<noteq> []" using assms(3) by (auto simp: flows_ok_def)
  then show ?thesis by (simp add: min_ipd_def)
qed

lemma safe_transmit_step:
  assumes "network_ok env" and "flows_ok env fps" and "length ipd_list = length fps" and "slots ipd_list d"
  shows "safe fps socks (transmit_step env fps ipd_list d)"
proof -
  have serve: "safe fps socks (fold_prog (serve_flow env fps ipd_list) d (expired d))"
    by (rule safe_fold_prog [where V = "slots ipd_list"])
      (use assms(4) slots_expired [OF assms(4)] serve_flow_slots safe_serve_flow [OF assms(1,2,3)] in blast)+
  have kept: "slots ipd_list d'" if "fold_prog (serve_flow env fps ipd_list) d (expired d) s = (Inr d', s')" for s d' s'
    by (rule fold_prog_result [where V = "slots ipd_list", OF _ assms(4) that]) (use slots_expired [OF assms(4)] serve_flow_slots in blast)
  have rest: "safe fps socks (andthen (perf_counter env) (\<lambda>now. andthen (lift_res (min_ipd d')) (\<lambda>least.
      andthen (wait env (least - max 0 (now - start))) (\<lambda>_.
      andthen (perf_counter env) (\<lambda>later. ret (count_down (later - start) d'))))))" if "slots ipd_list d'" for d' start
    using slots_least [OF that assms(3,2)] by (auto intro!: safe_intros simp: lift_res_ok)
  show ?thesis unfolding transmit_step_def
    by (rule safe_andthen [OF safe_clocks(1)], rule safe_andthen_result [where V = "slots ipd_list", OF serve kept rest])
qed

lemma create_ipds_slots:
  assumes "dict_keys socks = [0..<length ipd_list]"
  shows "\<exists>d. create_ipds socks ipd_list = Inr d \<and> slots ipd_list d"
proof -
  let ?f = "\<lambda>i. rbind (dict_get socks i) (\<lambda>sock. Inr (i, (sock, ipd_list ! i)))"
  have at: "\<exists>sock. map_of socks i = Some sock" if "i < length ipd_list" for i
    using keys_lookup [of i socks] that assms by simp
  have "map_res ?f [0..<length ipd_list] = Inr (map (\<lambda>i. (i, the (map_of socks i), ipd_list ! i)) [0..<length ipd_list])"
    by (rule map_res_Inr_map) (use at in \<open>force simp: dict_get_def\<close>)
  then show ?thesis by (simp add: create_ipds_def slots_def comp_def)
qed

lemma safe_transmit:
  assumes "network_ok env" and "flows_ok env fps" and "length ipd_list = length fps" and "dict_keys socks = dict_keys fps"
  shows "safe fps socks (transmit env socks ipd_list duration fps)"
proof -
  have keys: "dict_keys socks = [0..<length ipd_list]" using assms(2,3,4) by (simp add: flows_ok_def)
  obtain d where d: "create_ipds socks ipd_list = Inr d" "slots ipd_list d" using create_ipds_slots [OF keys] by blast
  obtain t where t: "min_ipd d = Inr t" using slots_least [OF d(2) assms(3,2)] by blast
  have clock: "triple_stop (\<lambda>s. slots ipd_list d \<and> ready fps socks s) (wall_clock env) (\<lambda>_ s. slots ipd_list d \<and> ready fps socks s) (\<lambda>e _. e = Exited)" for d
    by (rule triple_stopI) (use safe_clocks(2) in \<open>auto simp: safe_def dest: triple_stopD\<close>)
  have round: "triple_stop (\<lambda>s. slots ipd_list d \<and> ready fps socks s) (transmit_step env fps ipd_list d)
      (\<lambda>d s. slots ipd_list d \<and> ready fps socks s) (\<lambda>e _. e = Exited)" for d
    by (rule triple_stopI)
      (use safe_transmit_step [OF assms(1,2,3), of d socks] transmit_step_slots [of ipd_list d env fps] in \<open>auto simp: safe_def dest: triple_stopD\<close>)
  have loop: "triple_stop (\<lambda>s. slots ipd_list d \<and> ready fps socks s) (transmit_loop env start duration fps ipd_list d)
      (\<lambda>_. ready fps socks) (\<lambda>e _. e = Exited)" for start
    by (rule triple_stop_cons [OF triple_transmit_loop [where J = "\<lambda>d s. slots ipd_list d \<and> ready fps socks s"
          and K = "\<lambda>_ d s. slots ipd_list d \<and> ready fps socks s", OF clock round]]) auto
  have "safe fps socks (transmit_loop env start duration fps ipd_list d)" for start
    unfolding safe_def by (rule triple_stop_cons [OF loop]) (use d(2) in auto)
  then show ?thesis unfolding transmit_def by (auto intro!: safe_intros simp: d(1) t lift_res_ok)
qed

subsection \<open>Rates\<close>

definition dist_ok :: "flow_parameters \<Rightarrow> distribution \<Rightarrow> bool" where
  "dist_ok fp distr \<longleftrightarrow> (fp_traffic_model fp = PRECOMPUTED \<longrightarrow>
     (\<exists>d. distr = Tap d \<and> tap_rate_idx d < length (tap_rates_list d)))"

definition rvs_ok :: "(nat, flow_parameters) dict \<Rightarrow> (nat, distribution) dict \<Rightarrow> bool" where
  "rvs_ok fps rvs \<longleftrightarrow> (\<forall>(i, fp) \<in> set fps. \<exists>distr. map_of rvs i = Some distr \<and> dist_ok fp distr)"

lemma select_tx_rate_ok:
  assumes "dist_ok fp distr"
  shows "safe fps socks (select_tx_rate env fp old_rate distr)"
    and "select_tx_rate env fp old_rate distr s = (Inr (r, distr'), s') \<Longrightarrow> dist_ok fp distr'"
proof -
  show "safe fps socks (select_tx_rate env fp old_rate distr)"
    using assms unfolding select_tx_rate_def Let_def sample_distr_def
    by (auto intro!: safe_intros simp: dist_ok_def tap_next_def lift_res_ok split: traffic_models.splits)
  assume "select_tx_rate env fp old_rate distr s = (Inr (r, distr'), s')"
  then show "dist_ok fp distr'"
    using assms unfolding select_tx_rate_def Let_def sample_distr_def
    by (auto elim!: andthen_InrE simp: dist_ok_def tap_next_def lift_res_ok split: traffic_models.splits if_splits)
      (metis mod_less_divisor gr_zeroI not_less_zero)
qed

lemma next_delay_ok:
  assumes "dict_wf fps" and "rvs_ok fps rvs" and "(i, fp) \<in> set fps"
  shows "safe fps socks (next_delay env (rvs, ipd_list) (i, fp))"
    and "next_delay env (rvs, ipd_list) (i, fp) s = (Inr acc, s') \<Longrightarrow> rvs_ok fps (fst acc) \<and> length (snd acc) = Suc (length ipd_list)"
proof -
  obtain distr where distr: "map_of rvs i = Some distr" "dist_ok fp distr" using assms(2,3) by (auto simp: rvs_ok_def)
  then show "safe fps socks (next_delay env (rvs, ipd_list) (i, fp))"
    unfolding next_delay_def by (auto intro!: safe_intros select_tx_rate_ok simp: dict_get_def lift_res_ok split: prod.splits)
  assume "next_delay env (rvs, ipd_list) (i, fp) s = (Inr acc, s')"
  then obtain r distr' s1 where rate: "select_tx_rate env fp (fp_tx_rate fp) distr s1 = (Inr (r, distr'), s')"
    and acc: "acc = (dict_set rvs i distr', ipd_list @ [compute_inter_pkt_delay (fp_packet_len fp) r (fp_time_slice fp)])"
    using distr(1) unfolding next_delay_def by (auto elim!: andthen_InrE simp: dict_get_def lift_res_ok)
  have same: "fp' = fp" if "(i, fp') \<in> set fps" for fp' using assms(1,3) that by (simp add: dict_wf_map_of_in)
  show "rvs_ok fps (fst acc) \<and> length (snd acc) = Suc (length ipd_list)"
    using assms(2) acc select_tx_rate_ok(2) [OF distr(2) rate] same by (auto simp: rvs_ok_def)
qed

lemma create_rvs_ok:
  assumes "flows_ok env fps"
  shows "\<exists>rvs. create_rvs env fps = Inr rvs \<and> rvs_ok fps rvs"
proof -
  let ?dist = "\<lambda>fp. create_distribution (msqrt env) (fp_tx_rate fp) (fp_variance fp) (fp_traffic_model fp) (fp_transmit_rates fp)"
  have wf: "dict_wf fps" using assms by (simp add: dict_wf_def flows_ok_def)
  have ok: "\<exists>distr. ?dist fp = Inr distr \<and> dist_ok fp distr" if "(i, fp) \<in> set fps" for i fp
  proof -
    have "flow_ok env fp" using assms that by (auto simp: flows_ok_def)
    then show ?thesis
      by (auto simp: flow_ok_def is_ok_iff dist_ok_def precomputed_tap_def split: option.splits)
  qed
  let ?g = "\<lambda>(i, fp). (i, projr (?dist fp))"
  have "create_rvs env fps = Inr (map ?g fps)"
    unfolding create_rvs_def by (rule map_res_Inr_map) (use ok in force)
  moreover have "rvs_ok fps (map ?g fps)"
    unfolding rvs_ok_def
  proof (intro ballI, clarify)
    fix i fp assume in_fps: "(i, fp) \<in> set fps"
    then have "map_of (map ?g fps) i = Some (projr (?dist fp))"
      using wf map_of_map [of "\<lambda>fp. projr (?dist fp)" fps] by (simp add: dict_wf_map_of_in)
    then show "\<exists>distr. map_of (map ?g fps) i = Some distr \<and> dist_ok fp distr" using ok [OF in_fps] by force
  qed
  ultimately show ?thesis by blast
qed

lemma delays_length:
  "fold_prog (next_delay env) acc fps s = (Inr acc', s') \<Longrightarrow> length (snd acc') = length (snd acc) + length fps"
proof (induction fps arbitrary: acc s)
  case (Cons p fps)
  from Cons.prems obtain acc1 s1 where one: "next_delay env acc p s = (Inr acc1, s1)" and rest: "fold_prog (next_delay env) acc1 fps s1 = (Inr acc', s')"
    by (auto elim: andthen_InrE)
  have "length (snd acc1) = Suc (length (snd acc))"
    using one by (cases acc; cases p) (auto simp: next_delay_def elim!: andthen_InrE split: prod.splits)
  then show ?case using Cons.IH [OF rest] by simp
qed simp

lemma delays_ok:
  assumes "flows_ok env fps" and "rvs_ok fps rvs"
  shows "safe fps socks (fold_prog (next_delay env) (rvs, []) fps)"
    and "fold_prog (next_delay env) (rvs, []) fps s = (Inr acc, s') \<Longrightarrow> rvs_ok fps (fst acc) \<and> length (snd acc) = length fps"
proof -
  have wf: "dict_wf fps" using assms(1) by (simp add: dict_wf_def flows_ok_def)
  let ?V = "\<lambda>acc. rvs_ok fps (fst acc)"
  have one: "safe fps socks (next_delay env acc p)" if "?V acc" "p \<in> set fps" for acc p
    using next_delay_ok(1) [OF wf, of "fst acc" "fst p" "snd p" socks env "snd acc"] that by simp
  have keep: "?V acc'" if "?V acc" "p \<in> set fps" "next_delay env acc p s = (Inr acc', s')" for acc p s acc' s'
    using next_delay_ok(2) [OF wf, of "fst acc" "fst p" "snd p" env "snd acc" s acc' s'] that by simp
  show "safe fps socks (fold_prog (next_delay env) (rvs, []) fps)"
    by (rule safe_fold_prog [where V = ?V]) (use one keep assms(2) in auto)
  assume run: "fold_prog (next_delay env) (rvs, []) fps s = (Inr acc, s')"
  have "?V acc" by (rule fold_prog_result [where V = ?V, OF _ _ run]) (use keep assms(2) in auto)
  then show "rvs_ok fps (fst acc) \<and> length (snd acc) = length fps" using delays_length [OF run] by simp
qed

lemma generate_slice_ok:
  assumes "network_ok env" and "flows_ok env fps" and "dict_keys socks = dict_keys fps" and "rvs_ok fps rvs"
  shows "safe fps socks (generate_slice env fps socks rvs)"
    and "generate_slice env fps socks rvs s = (Inr rvs', s') \<Longrightarrow> rvs_ok fps rvs'"
proof -
  obtain first where first: "map_of fps 0 = Some first" using flows_ok_at [OF assms(2), of 0] assms(2) by (auto simp: flows_ok_def)
  show "safe fps socks (generate_slice env fps socks rvs)"
    unfolding generate_slice_def
  proof (rule safe_andthen_result [where V = "\<lambda>acc. length (snd acc) = length fps", OF delays_ok(1) [OF assms(2,4)]])
    show "length (snd acc) = length fps" if "fold_prog (next_delay env) (rvs, []) fps s = (Inr acc, s')" for s acc s'
      using delays_ok(2) [OF assms(2,4) that] by simp
    show "safe fps socks (case acc of (rvs', ipd_list) \<Rightarrow> andthen (lift_res (dict_get fps 0)) (\<lambda>first.
        andthen (transmit env socks ipd_list (fp_time_slice first) fps) (\<lambda>_. ret rvs')))" if "length (snd acc) = length fps" for acc
      using that by (auto intro!: safe_intros safe_transmit [OF assms(1,2) _ assms(3)] simp: first dict_get_def lift_res_ok split: prod.splits)
  qed
  assume "generate_slice env fps socks rvs s = (Inr rvs', s')"
  then obtain ipd_list s1 where "fold_prog (next_delay env) (rvs, []) fps s = (Inr (rvs', ipd_list), s1)"
    unfolding generate_slice_def by (auto elim!: andthen_InrE split: prod.splits)
  then show "rvs_ok fps rvs'" using delays_ok(2) [OF assms(2,4)] by fastforce
qed

lemma generate_loop_ok:
  assumes "network_ok env" and "flows_ok env fps" and "dict_keys socks = dict_keys fps"
  shows "triple_stop (\<lambda>s. rvs_ok fps rvs \<and> ready fps socks s) (generate_loop env fps socks rvs) (\<lambda>_ _. False) (\<lambda>e _. e = Exited)"
proof (rule triple_generate_loop [where J = "\<lambda>rvs s. rvs_ok fps rvs \<and> ready fps socks s"])
  fix rvs
  show "triple_stop (\<lambda>s. rvs_ok fps rvs \<and> ready fps socks s) (generate_slice env fps socks rvs) (\<lambda>rvs s. rvs_ok fps rvs \<and> ready fps socks s) (\<lambda>e _. e = Exited)"
    by (rule triple_stopI)
      (use generate_slice_ok [OF assms, of rvs] in \<open>auto simp: safe_def dest: triple_stopD\<close>)
qed

subsection \<open>The start and the theorem\<close>

text \<open>Two operations at most for each socket.\<close>

lemma create_sockets_runs:
  assumes "network_ok env" and "ops s + 2 * length fps \<le> sig_at env"
  shows "\<exists>socks n. create_sockets env fps s = (Inr socks, s\<lparr>ops := n\<rparr>)"
proof -
  let ?f = "\<lambda>(i, fp). andthen (create_socket env i (fp_source_addr fp)) (\<lambda>sock. ret (i, sock))"
  have "\<exists>socks n. gather ?f fps s = (Inr socks, s\<lparr>ops := n\<rparr>)"
    using assms(2)
  proof (induction fps arbitrary: s)
    case Nil
    show ?case by (auto intro: exI [of _ "ops s"])
  next
    case (Cons p fps)
    obtain i fp where p: "p = (i, fp)" by (cases p)
    have "\<exists>n. create_socket env i (fp_source_addr fp) s = (Inr i, s\<lparr>ops := n\<rparr>) \<and> n \<le> ops s + 2"
      using assms(1) Cons.prems
      by (auto simp: create_socket_def andthen_run(1) [OF op_run] network_ok_def op_run split: option.splits)
    then obtain n where one: "create_socket env i (fp_source_addr fp) s = (Inr i, s\<lparr>ops := n\<rparr>)" "n \<le> ops s + 2" by blast
    then obtain socks m where rest: "gather ?f fps (s\<lparr>ops := n\<rparr>) = (Inr socks, s\<lparr>ops := n\<rparr>\<lparr>ops := m\<rparr>)"
      using Cons.IH [of "s\<lparr>ops := n\<rparr>"] Cons.prems by auto
    show ?case using one rest by (auto simp: p andthen_def ret_def)
  qed
  then show ?thesis by (simp add: create_sockets_def)
qed

lemma gen_get_args_keys: "gen_get_args files argv1 = Inr (inst, fps) \<Longrightarrow> dict_keys fps = [0..<length fps]"
  by (auto simp: gen_get_args_def flow_parameters_list_def Let_def rbind_Inr_iff enumerate_eq_zip split: if_splits)

lemma generate_traffic_ok:
  assumes "network_ok env" and "flows_ok env fps" and "ops s + 2 * length fps \<le> sig_at env" and "g_flow_params s = Some fps"
  shows "\<exists>s'. generate_traffic env fps s = (Inl Exited, s')"
proof -
  obtain socks n where sockets: "create_sockets env fps s = (Inr socks, s\<lparr>ops := n\<rparr>)" using create_sockets_runs [OF assms(1,3)] by blast
  obtain rvs where rvs: "create_rvs env fps = Inr rvs" "rvs_ok fps rvs" using create_rvs_ok [OF assms(2)] by blast
  have keys: "dict_keys socks = dict_keys fps" using create_sockets_named [OF sockets] by simp
  let ?s = "s\<lparr>ops := n, g_sock_dict := Some socks\<rparr>"
  have run: "generate_traffic env fps s = generate_loop env fps socks rvs ?s"
    by (simp add: generate_traffic_def rvs(1) lift_res_ok andthen_run(1) [where m = "create_sockets env fps", OF sockets])
  have "rvs_ok fps rvs \<and> ready fps socks ?s" using rvs(2) assms(4) keys by (simp add: ready_def)
  moreover obtain r s' where "generate_loop env fps socks rvs ?s = (r, s')" by (metis surj_pair)
  ultimately show ?thesis using run triple_stopD [OF generate_loop_ok [OF assms(1,2) keys]] by (cases r) auto
qed

lemma generator_reports:
  assumes "gen_get_args files argv1 = Inr (inst, fps)" and "fps \<noteq> []" and "\<forall>(i, fp) \<in> set fps. flow_ok env fp"
    and "network_ok env" and "1 + 2 * length fps \<le> sig_at env"
  shows "\<exists>s info. gen_main env files argv1 gen_start = (Inl Exited, s) \<and> map_res (flow_info_of env s) fps = Inr info \<and>
    written s = Some (sender_file (Some (fp_src_host (snd (last fps)))) (Some inst), info)"
proof -
  let ?s = "gen_start\<lparr>ops := 1, g_instance_id := Some inst, g_flow_params := Some fps\<rparr>"
  have flows: "flows_ok env fps" using assms(2,3) gen_get_args_keys [OF assms(1)] by (simp add: flows_ok_def)
  have op: "op env (\<lambda>_. gen_get_args files argv1) gen_start = (Inr (inst, fps), gen_start\<lparr>ops := 1\<rparr>)"
    using assms(1,5) op_run [of gen_start env "\<lambda>_. gen_get_args files argv1" "(inst, fps)"] by (simp add: gen_start_def)
  have "gen_main env files argv1 gen_start = generate_traffic env fps ?s"
    by (simp add: gen_main_def andthen_run(1) [where m = "op env (\<lambda>_. gen_get_args files argv1)", OF op])
  moreover have "\<exists>s'. generate_traffic env fps ?s = (Inl Exited, s')"
    by (rule generate_traffic_ok [OF assms(4) flows]) (use assms(5) in \<open>simp_all add: gen_start_def\<close>)
  ultimately obtain s where run: "gen_main env files argv1 gen_start = (Inl Exited, s)" by metis
  from run show ?thesis
  proof (cases rule: gen_main_outcome)
    case (ran e inst' fps')
    then have same: "inst' = inst" "fps' = fps" using assms(1) by simp_all
    have "accounted fps inst (snap s)" "reported env s" using ran(2,3) same by (simp_all add: account_stop_def stopped_def)
    then obtain info where "map_res (flow_info_of env s) fps = Inr info"
      "written s = Some (sender_file (Some (fp_src_host (snd (last fps)))) (Some inst), info)"
      using assms(2) by (auto simp: accounted_def reported_def snap_def)
    then show ?thesis using run by blast
  qed simp
qed

lemma ex_gen_env_network: "network_ok (ex_gen_env n)"
proof -
  have "k mod 4 < 4" for k :: nat by simp
  then have "(of_nat (k mod 4) :: rat) \<le> 4" for k :: nat by (metis of_nat_le_iff of_nat_numeral less_imp_le)
  then show ?thesis by (simp add: network_ok_def ex_gen_env_def)
qed



end
