(* ===== verification/Traffic_Hosts.thy ===== *)
theory Traffic_Hosts
  imports Traffic_Liveness
begin

section \<open>Traffic generating hosts and the traffic server\<close>

text \<open>
  What connects the hosts of \<open>virtual_host.py\<close> with the processes they start: the flows a host is configured with are the flow
  parameters the traffic generator reads, the precomputed rates come in a cycle, and \<open>traffic_generation/traffic_server.py\<close>
  counts the packets it receives by their source.
\<close>

subsection \<open>Precomputed rates\<close>

text \<open>\<open>k\<close> calls of \<open>next\<close>.\<close>

fun tap_take :: "nat \<Rightarrow> precomputed_tap_distribution \<Rightarrow> pyfloat list res" where
  "tap_take 0 d = Inr []"
| "tap_take (Suc k) d = rbind (tap_next d) (\<lambda>(r, d'). rbind (tap_take k d') (\<lambda>rs. Inr (r # rs)))"

lemma tap_take_from:
  assumes "tap_rate_idx d < length (tap_rates_list d)"
  shows "tap_take k d = Inr (map (\<lambda>j. tap_rates_list d ! ((tap_rate_idx d + j) mod length (tap_rates_list d))) [0..<k])"
  using assms
proof (induction k arbitrary: d)
  case (Suc k)
  let ?n = "length (tap_rates_list d)"
  let ?d = "d\<lparr>tap_rate_idx := (tap_rate_idx d + 1) mod ?n\<rparr>"
  have "0 < ?n" using Suc.prems by (cases "tap_rates_list d") auto
  then have "tap_take k ?d = Inr (map (\<lambda>j. tap_rates_list d ! ((tap_rate_idx d + Suc j) mod ?n)) [0..<k])"
    using Suc.IH [of ?d] by (simp add: mod_simps)
  then show ?case using Suc.prems by (simp add: tap_next_def upt_conv_Cons map_Suc_upt [symmetric] comp_def del: upt_Suc)
qed simp

text \<open>
  The rates of a flow with a precomputed list are the rates of the list in order, over and over: the
  \<open>k\<close>-th rate drawn is the one at position \<open>k\<close> modulo the length of the list.  An empty list gives no rate but an \<open>IndexError\<close>.
\<close>

theorem precomputed_rates_cycle:
  "tap_take k (precomputed_tap rates) =
     (if rates = [] \<and> 0 < k then Inl IndexError else Inr (map (\<lambda>j. rates ! (j mod length rates)) [0..<k]))"
proof (cases "rates = []")
  case True
  then show ?thesis by (cases k) (simp_all add: precomputed_tap_def tap_next_def py_nth_def)
next
  case False
  then show ?thesis using tap_take_from [of "precomputed_tap rates" k] by (simp add: precomputed_tap_def)
qed

subsection \<open>Configured flows\<close>

definition configured_parameters ::
    "traffic_host \<Rightarrow> pyfloat \<Rightarrow> pyfloat \<Rightarrow> traffic_models \<Rightarrow> string \<Rightarrow> int \<Rightarrow> pyfloat list \<Rightarrow> int \<Rightarrow> int list \<Rightarrow> int \<Rightarrow> flow_parameters" where
  "configured_parameters h tx_rate tx_rate_std_dev model dest_ip port_num k_mat time_slice tag_values pkt_len =
     \<lparr>fp_dest_port = port_num, fp_dest_addr = dest_ip, fp_prob_mat = k_mat, fp_tx_rate = tx_rate, fp_variance = tx_rate_std_dev ^ 2,
      fp_traffic_model = model, fp_packet_len = pkt_len, fp_src_host = vh_host_id h, fp_time_slice = of_int time_slice,
      fp_tag_value = Some tag_values, fp_transmit_rates = None, fp_source_addr = Some (vh_actual_host_ip h),
      fp_data_str = replicate (nat pkt_len) CHR ''x'', fp_flow_id = 0\<rparr>"

lemma client_args_parsed:
  assumes "traffic_model_from_str traffic_model = Inr model"
  shows "\<exists>d. parse_traffic_model (client_args h tx_rate tx_rate_std_dev traffic_model dest_ip port_num k_mat time_slice tag_values pkt_len) = Inr (d, model) \<and>
    flow_parameters_of d model = Inr (configured_parameters h tx_rate tx_rate_std_dev model dest_ip port_num k_mat time_slice tag_values pkt_len)"
proof -
  have tags: "opt_dec (list_dec json_int) (list_enc JInt tag_values) = Inr (Some tag_values)"
    using ints_codec.dec_enc by (simp add: opt_dec_def list_enc_def)
  have "opt_dec json_str (JStr s) = Inr (Some s)" for s by (simp add: opt_dec_def)
  then show ?thesis using assms(1) tags floats_codec.dec_enc
    by (simp add: client_args_def parse_traffic_model_def dict_get_def flow_parameters_of_def flow_parameter_names_def
        keyword_arg_def configured_parameters_def)
qed

text \<open>
  What \<open>configure_flow\<close> adds to a host is read back by the traffic generator: the flows that were
  configured before keep their numbers, and the new one follows with the rate, the variance (the square of the standard deviation), the model,
  the destination, the ratios and the tags it was configured with, the id and the address of the host, and a payload of the
  packet length.
\<close>

theorem configured_flow_read_back:
  assumes "flow_parameters_list (JList (configured_flows h)) = Inr fps" and "traffic_model_from_str traffic_model = Inr model"
  shows "flow_parameters_list (JList (configured_flows
      (configure_flow h tx_rate tx_rate_std_dev traffic_model dest_ip port_num k_mat time_slice tag_values pkt_len))) =
    Inr (fps @ [(length fps, configured_parameters h tx_rate tx_rate_std_dev model dest_ip port_num k_mat time_slice tag_values pkt_len)])"
proof -
  let ?j = "client_args h tx_rate tx_rate_std_dev traffic_model dest_ip port_num k_mat time_slice tag_values pkt_len"
  obtain d where d: "parse_traffic_model ?j = Inr (d, model)"
    "flow_parameters_of d model = Inr (configured_parameters h tx_rate tx_rate_std_dev model dest_ip port_num k_mat time_slice tag_values pkt_len)"
    using client_args_parsed [OF assms(2)] by blast
  from assms(1) obtain parsed fs where "map_res parse_traffic_model (configured_flows h) = Inr parsed"
    "map_res (\<lambda>(d, model). flow_parameters_of d model) parsed = Inr fs" "fps = enumerate 0 fs"
    by (auto simp: flow_parameters_list_def rbind_Inr_iff)
  then show ?thesis using d by (simp add: configure_flow_def flow_parameters_list_def map_res_append enumerate_append_eq)
qed

definition ex_traffic_host :: traffic_host where
  "ex_traffic_host = \<lparr>vh_actual_host_mac = ''m'', vh_actual_host_ip = ''192.168.0.4'', vh_virtual_host_mac = ''v'', vh_virtual_host_ip = ''10.0.0.4'',
     vh_ingress_node_device_id = ''of:1'', vh_token = JInt 1, vh_host_id = 4, server_process = None, client_process = None, configured_flows = []\<rparr>"

theorem configured_flow_read_back_witness:
  "flow_parameters_list (JList (configured_flows (configure_flow ex_traffic_host 1000 20 ''Gamma'' ''10.0.0.2'' 50000 [1 / 2, 1 / 2] 1 [3, 5] 1066))) =
    Inr [(0, configured_parameters ex_traffic_host 1000 20 GAMMA ''10.0.0.2'' 50000 [1 / 2, 1 / 2] 1 [3, 5] 1066)]"
proof -
  have "flow_parameters_list (JList (configured_flows ex_traffic_host)) = Inr []" by code_simp
  moreover have "traffic_model_from_str ''Gamma'' = Inr GAMMA" by code_simp
  ultimately show ?thesis using configured_flow_read_back [of ex_traffic_host "[]" "''Gamma''" GAMMA 1000 20 "''10.0.0.2''" 50000 "[1 / 2, 1 / 2]" 1 "[3, 5]" 1066] by simp
qed

subsection \<open>The traffic server\<close>

text \<open>
  \<open>main\<close> of the server with the texts of its two options, what \<open>bind\<close> answers, and the datagrams that arrive
  before the signal; the result is the file the handler of the signal writes.  A signal that comes before the arguments are read
  finds no host number and is not modelled.
\<close>


definition inc_pkt_counts :: "(net_source, int) dict \<Rightarrow> net_source \<Rightarrow> nat \<Rightarrow> (net_source, int) dict" where
  "inc_pkt_counts byte_counts src bc = dict_set byte_counts src (dict_get_default byte_counts src 0 + 1)"

definition server_file :: "int \<Rightarrow> string" where
  "server_file args = ''/tmp/receiver_'' @ show_int args @ ''.p''"

definition traffic_server_main ::
    "(string \<Rightarrow> int \<Rightarrow> unit res) \<Rightarrow> string \<Rightarrow> string \<Rightarrow> (string \<times> net_source) list \<Rightarrow> (string \<times> (net_source, int) dict) res" where
  "traffic_server_main bind_addr host_num source_addr datagrams =
     rbind (py_int host_num) (\<lambda>args.
     rbind (bind_addr source_addr 50000) (\<lambda>_.
     Inr (server_file args, foldl (\<lambda>byte_counts (data, src). inc_pkt_counts byte_counts src (length data)) [] datagrams)))"

lemma inc_pkt_counts_total:
  "dict_get_default (foldl (\<lambda>c (data, src). inc_pkt_counts c src (length data)) c datagrams) src 0 =
     dict_get_default c src 0 + int (length (filter (\<lambda>(_, from). from = src) datagrams))"
  by (induction datagrams arbitrary: c) (auto simp: inc_pkt_counts_def dict_get_default_def)

text \<open>
  The report of the traffic server for the host started with number \<open>i\<close> is the file named after \<open>i\<close>, and it has for every source the number
  of packets that came from it (zero for a source that is not in the report), not the number of bytes the name of the
  dictionary promises.
\<close>

theorem server_counts_packets:
  assumes "bind_addr source_addr 50000 = Inr ()"
  shows "\<exists>counts. traffic_server_main bind_addr (show_int i) source_addr datagrams = Inr (server_file i, counts) \<and>
    dict_get_default counts src 0 = int (length (filter (\<lambda>(_, from). from = src) datagrams))"
  using assms inc_pkt_counts_total [of "[]" datagrams src] by (simp add: traffic_server_main_def dict_get_default_def)

theorem server_counts_packets_witness:
  "\<exists>counts. traffic_server_main (\<lambda>_ _. Inr ()) (show_int 7) ''10.0.0.2'' [(''xx'', ''10.0.0.4'', 40000), (''x'', ''10.0.0.5'', 40000), (''x'', ''10.0.0.4'', 40000)] =
     Inr (server_file 7, counts) \<and> dict_get_default counts (''10.0.0.4'', 40000) 0 = 2"
  using server_counts_packets [of "\<lambda>_ _. Inr ()" "''10.0.0.2''" 7 "[(''xx'', ''10.0.0.4'', 40000), (''x'', ''10.0.0.5'', 40000), (''x'', ''10.0.0.4'', 40000)]" "(''10.0.0.4'', 40000)"]
  by simp

end
