(* ===== verification/Mininet_Host.thy ===== *)
theory Mininet_Host
  imports Traffic_Hosts
begin

section \<open>Remote hosts\<close>

text \<open>
  Models \<open>nw_control/host_rewrite.py\<close>: hosts that are reached by ssh and run the traffic generator and the traffic
  server.  The remote machine is a parameter that answers from everything that was done before; the state is the
  object and the list of what was done with it.
\<close>

subsection \<open>The remote machine\<close>

text \<open>What a file fetched from the remote machine holds: a text, or the pickled report of a sender or of a receiver.\<close>

datatype remote_file =
    TextFile string
  | SenderReport "(nat, flow_info) dict"
  | ReceiverReport "(net_source, int) dict"

datatype remote_event =
    Connected string int
  | Closed
  | Executed string
  | Fetched string
  | WroteLocal string json
  | Sent string

text \<open>\<open>connect\<close> and \<open>exec_command\<close> of \<open>paramiko\<close>, \<open>get\<close> and \<open>put\<close> of \<open>scp\<close>.\<close>

record remote_env =
  ssh_connect :: "remote_event list \<Rightarrow> string \<Rightarrow> int \<Rightarrow> unit res"
  ssh_exec :: "remote_event list \<Rightarrow> string \<Rightarrow> unit res"
  scp_get :: "remote_event list \<Rightarrow> string \<Rightarrow> remote_file res"
  scp_put :: "remote_event list \<Rightarrow> string \<Rightarrow> unit res"

subsection \<open>Hosts\<close>

text \<open>
  The attributes of \<open>MininetHost\<close>; \<open>mh_ssh_tunnel\<close> says whether the attribute is set.  Of a command result only the process id is
  used again.
\<close>

record mininet_host =
  mh_hostname :: string
  mh_remote_username :: string
  mh_remote_password :: string
  mh_host_id :: int
  mh_ssh_port :: int
  mh_host_ip :: string
  mh_ssh_tunnel :: bool
  mh_server_proc :: "int option"
  mh_client_procs :: "int list"
  mh_configured_flows :: "json list"

type_synonym 'a host_prog = "(mininet_host \<times> remote_event list, 'a) prog"

text \<open>The name is resolved, which may raise, although the address that was found is then replaced.\<close>

definition new_mininet_host :: "(string \<Rightarrow> string res) \<Rightarrow> string \<Rightarrow> string \<Rightarrow> string \<Rightarrow> string \<Rightarrow> int \<Rightarrow> int \<Rightarrow> mininet_host res" where
  "new_mininet_host resolve_hostname host_ip hostname remote_username remote_password host_id ssh_port =
     rbind (resolve_hostname hostname) (\<lambda>_. Inr
       \<lparr>mh_hostname = hostname, mh_remote_username = remote_username, mh_remote_password = remote_password, mh_host_id = host_id,
        mh_ssh_port = ssh_port, mh_host_ip = host_ip, mh_ssh_tunnel = False, mh_server_proc = None, mh_client_procs = [],
        mh_configured_flows = []\<rparr>)"

definition remote_op :: "(remote_event list \<Rightarrow> 'a res) \<Rightarrow> remote_event \<Rightarrow> 'a host_prog" where
  "remote_op answer ev = (\<lambda>(h, evs). (answer evs, (h, evs @ [ev])))"

definition update_host :: "(mininet_host \<Rightarrow> mininet_host) \<Rightarrow> unit host_prog" where
  "update_host f = (\<lambda>(h, evs). (Inr (), (f h, evs)))"

definition with_host :: "(mininet_host \<Rightarrow> 'a host_prog) \<Rightarrow> 'a host_prog" where
  "with_host f = (\<lambda>(h, evs). f h (h, evs))"

text \<open>A client that could not connect stays the attribute: \<open>ssh_tunnel\<close> is assigned before \<open>connect\<close> is called.\<close>

definition host_connect :: "remote_env \<Rightarrow> unit host_prog" where
  "host_connect env = with_host (\<lambda>h.
     andthen (if mh_ssh_tunnel h then remote_op (\<lambda>_. Inr ()) Closed else ret ()) (\<lambda>_.
     andthen (update_host (\<lambda>h. h\<lparr>mh_ssh_tunnel := True\<rparr>)) (\<lambda>_.
     remote_op (\<lambda>evs. ssh_connect env evs (mh_host_ip h) (mh_ssh_port h)) (Connected (mh_host_ip h) (mh_ssh_port h)))))"

definition ensure_connected :: "remote_env \<Rightarrow> unit host_prog" where
  "ensure_connected env = with_host (\<lambda>h. if mh_ssh_tunnel h then ret () else host_connect env)"

definition exec_on_remote :: "remote_env \<Rightarrow> string \<Rightarrow> unit host_prog" where
  "exec_on_remote env command_str = andthen (ensure_connected env) (\<lambda>_.
     remote_op (\<lambda>evs. ssh_exec env evs command_str) (Executed command_str))"

definition host_run :: "remote_env \<Rightarrow> string \<Rightarrow> unit host_prog" where
  "host_run env command_str = exec_on_remote env command_str"

definition get_file :: "remote_env \<Rightarrow> string \<Rightarrow> (remote_file \<Rightarrow> 'a res) \<Rightarrow> 'a host_prog" where
  "get_file env path_like reader = andthen (ensure_connected env) (\<lambda>_.
     andthen (remote_op (\<lambda>evs. scp_get env evs path_like) (Fetched path_like)) (\<lambda>content. of_res (reader content)))"

definition put_file :: "remote_env \<Rightarrow> string \<Rightarrow> unit host_prog" where
  "put_file env path_like = andthen (ensure_connected env) (\<lambda>_.
     remote_op (\<lambda>evs. scp_put env evs path_like) (Sent path_like))"

text \<open>Reading a text that is no text is a \<open>ValueError\<close> (\<open>UnicodeDecodeError\<close>), unpickling what is no pickle an exception of its own.\<close>

fun read_text :: "remote_file \<Rightarrow> string res" where
  "read_text (TextFile s) = Inr s"
| "read_text _ = Inl ValueError"

fun load_sender :: "remote_file \<Rightarrow> (nat, flow_info) dict res" where
  "load_sender (SenderReport d) = Inr d"
| "load_sender _ = Inl ValueError"

fun load_receiver :: "remote_file \<Rightarrow> (net_source, int) dict res" where
  "load_receiver (ReceiverReport d) = Inr d"
| "load_receiver _ = Inl ValueError"

definition last_proc_path :: string where
  "last_proc_path = ''/tmp/last-proc.pid''"

definition run_async :: "remote_env \<Rightarrow> string \<Rightarrow> int host_prog" where
  "run_async env command_str =
     andthen (exec_on_remote env (''( '' @ command_str @ '' ) & echo $! > /tmp/last-proc.pid'')) (\<lambda>_.
     andthen (get_file env last_proc_path read_text) (\<lambda>pid_text. of_res (py_int pid_text)))"

definition ping_command :: "nat \<Rightarrow> string \<Rightarrow> string" where
  "ping_command n remote_host_ip = ''ping -c '' @ show_nat n @ '' '' @ remote_host_ip"

definition ping :: "remote_env \<Rightarrow> string \<Rightarrow> nat \<Rightarrow> unit host_prog" where
  "ping env remote_host_ip n = host_run env (ping_command n remote_host_ip)"

subsection \<open>Traffic generation\<close>

definition traffic_server_bin :: string where
  "traffic_server_bin = ''/home/alexj/repos/cpsc_of_testbed/traffic_generation/traffic_server.py''"

definition traffic_gen_bin :: string where
  "traffic_gen_bin = ''/home/alexj/repos/cpsc_of_testbed/traffic_generation/traffic_gen.py''"

definition mh_start_server :: "remote_env \<Rightarrow> unit host_prog" where
  "mh_start_server env = with_host (\<lambda>h.
     andthen (run_async env (traffic_server_bin @ '' -host '' @ show_int (mh_host_id h) @ '' -source_addr '' @ mh_host_ip h)) (\<lambda>pid.
     update_host (\<lambda>h. h\<lparr>mh_server_proc := Some pid\<rparr>)))"

definition kill_command :: "int \<Rightarrow> string" where
  "kill_command pid = ''kill -s SIGINT '' @ show_int pid"

definition mh_stop_server :: "remote_env \<Rightarrow> unit host_prog" where
  "mh_stop_server env = with_host (\<lambda>h. case mh_server_proc h of None \<Rightarrow> ret () | Some pid \<Rightarrow> host_run env (kill_command pid))"

definition mh_client_args ::
    "mininet_host \<Rightarrow> pyfloat \<Rightarrow> pyfloat \<Rightarrow> string \<Rightarrow> string \<Rightarrow> int \<Rightarrow> pyfloat list \<Rightarrow> int \<Rightarrow> int list \<Rightarrow> int \<Rightarrow> json" where
  "mh_client_args h tx_rate tx_rate_std_dev traffic_model dest_ip dest_port k_matrix time_slice_duration tag_values packet_length =
     JObj [(''dest_port'', JInt dest_port), (''dest_addr'', JStr dest_ip), (''prob_mat'', list_enc JFloat k_matrix),
       (''tx_rate'', JFloat tx_rate), (''variance'', JFloat tx_rate_std_dev), (''traffic_model'', JStr traffic_model),
       (''packet_len'', JInt packet_length), (''src_host'', JInt (mh_host_id h)), (''time_slice'', JInt time_slice_duration),
       (''tag_value'', list_enc JInt tag_values), (''source_addr'', JStr (mh_host_ip h))]"

definition mh_configure_flow ::
    "pyfloat \<Rightarrow> pyfloat \<Rightarrow> string \<Rightarrow> string \<Rightarrow> int \<Rightarrow> pyfloat list \<Rightarrow> int \<Rightarrow> int list \<Rightarrow> int \<Rightarrow> unit host_prog" where
  "mh_configure_flow tx_rate tx_rate_std_dev traffic_model dest_ip dest_port k_matrix time_slice_duration tag_values packet_length =
     update_host (\<lambda>h. h\<lparr>mh_configured_flows := mh_configured_flows h @
       [mh_client_args h tx_rate tx_rate_std_dev traffic_model dest_ip dest_port k_matrix time_slice_duration tag_values packet_length]\<rparr>)"

definition precomputed_args ::
    "pyfloat list \<Rightarrow> string \<Rightarrow> int \<Rightarrow> pyfloat list \<Rightarrow> int \<Rightarrow> int \<Rightarrow> int list \<Rightarrow> int \<Rightarrow> int \<Rightarrow> json" where
  "precomputed_args rate_list destination_ip destination_port_number k_matrix host_number time_slice_duration tag_values flow_id packet_length =
     JObj [(''dest_port'', JInt destination_port_number), (''dest_addr'', JStr destination_ip), (''prob_mat'', list_enc JFloat k_matrix),
       (''transmit_rates'', list_enc JFloat rate_list), (''traffic_model'', JStr ''precomputed''), (''packet_len'', JInt packet_length),
       (''src_host'', JInt host_number), (''time_slice'', JInt time_slice_duration), (''tag_value'', list_enc JInt tag_values),
       (''flow_id'', JInt flow_id)]"

definition configure_flow_with_precomputed_transmit_rates ::
    "pyfloat list \<Rightarrow> string \<Rightarrow> int \<Rightarrow> pyfloat list \<Rightarrow> int \<Rightarrow> int \<Rightarrow> int list \<Rightarrow> int \<Rightarrow> int \<Rightarrow> unit host_prog" where
  "configure_flow_with_precomputed_transmit_rates rate_list destination_ip destination_port_number k_matrix host_number time_slice_duration
       tag_values flow_id packet_length =
     update_host (\<lambda>h. h\<lparr>mh_configured_flows := mh_configured_flows h @
       [precomputed_args rate_list destination_ip destination_port_number k_matrix host_number time_slice_duration tag_values flow_id packet_length]\<rparr>)"

definition args_file_path :: "int \<Rightarrow> nat \<Rightarrow> string" where
  "args_file_path host_id flow_idx = ''/tmp/host-'' @ show_int host_id @ ''-instance-'' @ show_nat flow_idx @ ''-traffic-gen-args.json''"

definition flow_groups :: "json list \<Rightarrow> json list list" where
  "flow_groups flows = (let flow_count = length flows div 2 in [take flow_count flows, drop flow_count flows])"

definition start_instance :: "remote_env \<Rightarrow> nat \<times> json list \<Rightarrow> unit host_prog" where
  "start_instance env = (\<lambda>(flow_idx, flow_group). with_host (\<lambda>h.
     let p = args_file_path (mh_host_id h) flow_idx in
     andthen (remote_op (\<lambda>_. Inr ()) (WroteLocal p (JList flow_group))) (\<lambda>_.
     andthen (put_file env p) (\<lambda>_.
     andthen (run_async env (traffic_gen_bin @ '' '' @ p)) (\<lambda>pid.
     update_host (\<lambda>h. h\<lparr>mh_client_procs := mh_client_procs h @ [pid]\<rparr>))))))"

definition mh_start_client :: "remote_env \<Rightarrow> unit host_prog" where
  "mh_start_client env = with_host (\<lambda>h.
     if length (mh_configured_flows h) = 0 then ret ()
     else each (start_instance env) (enumerate 0 (flow_groups (mh_configured_flows h))))"

definition mh_stop_client :: "remote_env \<Rightarrow> unit host_prog" where
  "mh_stop_client env = with_host (\<lambda>h. each (\<lambda>pid. host_run env (kill_command pid)) (mh_client_procs h))"

definition host_disconnect :: "remote_env \<Rightarrow> unit host_prog" where
  "host_disconnect env = andthen (mh_stop_server env) (\<lambda>_. andthen (mh_stop_client env) (\<lambda>_.
     with_host (\<lambda>h. andthen (if mh_ssh_tunnel h then remote_op (\<lambda>_. Inr ()) Closed else ret ()) (\<lambda>_.
     update_host (\<lambda>h. h\<lparr>mh_ssh_tunnel := False\<rparr>)))))"

definition sender_file_path :: "int \<Rightarrow> nat \<Rightarrow> string" where
  "sender_file_path host_id instance_id = ''/tmp/sender_'' @ show_int host_id @ ''-'' @ show_nat instance_id @ ''.p''"

text \<open>The results of all instances under new numbers, in order.\<close>

definition aggregate_results :: "(nat, flow_info) dict list \<Rightarrow> (nat, flow_info) dict" where
  "aggregate_results sender_results = enumerate 0 (concat (map dict_values sender_results))"

definition get_sender_results :: "remote_env \<Rightarrow> (nat, flow_info) dict host_prog" where
  "get_sender_results env = with_host (\<lambda>h.
     andthen (gather (\<lambda>instance_id. try_except (get_file env (sender_file_path (mh_host_id h) instance_id) load_sender) (\<lambda>_. raise ValueError))
       [0..<length (mh_client_procs h)]) (\<lambda>sender_results. ret (aggregate_results sender_results)))"

definition get_receiver_results :: "remote_env \<Rightarrow> (net_source, int) dict host_prog" where
  "get_receiver_results env = with_host (\<lambda>h.
     try_except (get_file env (server_file (mh_host_id h)) load_receiver) (\<lambda>_. raise ValueError))"

subsection \<open>The hosts and the traffic generator\<close>

lemma show_int_nonneg: "0 \<le> i \<Longrightarrow> show_int i = show_nat (nat i)"
  by (simp add: show_int_def)

lemma no_dash: "CHR ''-'' \<notin> set (show_nat n)" "CHR ''/'' \<notin> set (show_nat n)"
  by (rule not_in_show_nat, code_simp)+

lemma args_file_parts:
  assumes "0 \<le> host_id"
  shows "split_on CHR ''-'' (args_file_path host_id k) =
    [''/tmp/host'', show_int host_id, ''instance'', show_nat k, ''traffic'', ''gen'', ''args.json'']"
proof -
  let ?parts = "[''/tmp/host'', show_int host_id, ''instance'', show_nat k, ''traffic'', ''gen'', ''args.json'']"
  have path: "args_file_path host_id k = join_with ''-'' ?parts" by (simp add: args_file_path_def)
  show ?thesis unfolding path by (rule split_join) (use no_dash(1) in \<open>simp_all add: show_int_nonneg [OF assms]\<close>)
qed

lemma args_file_text:
  assumes "0 \<le> host_id"
  shows "path_text (args_file_path host_id k) = args_file_path host_id k"
proof -
  let ?name = "''host-'' @ show_int host_id @ ''-instance-'' @ show_nat k @ ''-traffic-gen-args.json''"
  have path: "args_file_path host_id k = join_with ''/'' ['''', ''tmp'', ?name]" by (simp add: args_file_path_def)
  have "CHR ''/'' \<notin> set ?name" using no_dash(2) by (simp add: show_int_nonneg [OF assms])
  then have "split_on CHR ''/'' (args_file_path host_id k) = ['''', ''tmp'', ?name]"
    unfolding path by (intro split_join) simp_all
  then show ?thesis by (simp add: path_text_def Let_def) (simp add: args_file_path_def)
qed

text \<open>The number of the instance is the fourth part of the name of its file of arguments.\<close>

lemma instance_args:
  assumes "0 \<le> host_id" and "files (args_file_path host_id k) = Inr (JList flow_group)"
  shows "gen_get_args files [args_file_path host_id k] = rbind (flow_parameters_list (JList flow_group)) (\<lambda>fps. Inr (int k, fps))"
  using assms by (simp add: gen_get_args_def args_file_text args_file_parts py_nth_def)

lemma instance_report_path: "sender_file (Some host_id) (Some (int k)) = sender_file_path host_id k"
  by (simp add: sender_file_def sender_file_path_def show_int_def)

lemma flow_parameters_split:
  assumes "flow_parameters_list (JList flows) = Inr fps"
  shows "flow_parameters_list (JList (take n flows)) = Inr (enumerate 0 (map snd (take n fps)))"
    and "flow_parameters_list (JList (drop n flows)) = Inr (enumerate 0 (map snd (drop n fps)))"
proof -
  let ?p = "\<lambda>(d, model). flow_parameters_of d model"
  from assms obtain parsed fs where p: "list_all2 (\<lambda>x y. parse_traffic_model x = Inr y) flows parsed"
      "list_all2 (\<lambda>x y. ?p x = Inr y) parsed fs" and fps: "fps = enumerate 0 fs"
    by (auto simp: flow_parameters_list_def rbind_Inr_iff map_res_Inr_iff)
  have fs: "map snd fps = fs" by (simp add: fps)
  have "map_res parse_traffic_model (take n flows) = Inr (take n parsed)" "map_res ?p (take n parsed) = Inr (take n fs)"
    "map_res parse_traffic_model (drop n flows) = Inr (drop n parsed)" "map_res ?p (drop n parsed) = Inr (drop n fs)"
    unfolding map_res_Inr_iff using p by (simp_all add: list_all2_takeI list_all2_dropI)
  then show "flow_parameters_list (JList (take n flows)) = Inr (enumerate 0 (map snd (take n fps)))"
    "flow_parameters_list (JList (drop n flows)) = Inr (enumerate 0 (map snd (drop n fps)))"
    by (simp_all add: flow_parameters_list_def fs flip: take_map drop_map)
qed

text \<open>What a report says of the flows.\<close>

definition report_fields :: "flow_info list \<Rightarrow> (int \<times> string \<times> int) list" where
  "report_fields fs = map (\<lambda>f. (fi_flow_id f, fi_dst_ip f, fi_src_host f)) fs"

definition flow_fields :: "flow_parameters list \<Rightarrow> (int \<times> string \<times> int) list" where
  "flow_fields fps = map (\<lambda>fp. (fp_flow_id fp, fp_dest_addr fp, fp_src_host fp)) fps"

lemma flow_info_fields:
  assumes "map_res (flow_info_of env s) fps = Inr info"
  shows "report_fields (dict_values info) =
    flow_fields (dict_values fps)"
proof -
  have one: "flow_info_of env s p = Inr q \<Longrightarrow> (fi_flow_id (snd q), fi_dst_ip (snd q), fi_src_host (snd q)) =
      (fp_flow_id (snd p), fp_dest_addr (snd p), fp_src_host (snd p))" for p q
    by (auto simp: flow_info_of_def rbind_Inr_iff split: prod.splits option.splits)
  have "list_all2 (\<lambda>p q. flow_info_of env s p = Inr q) fps info" using assms by (simp add: map_res_Inr_iff)
  then show ?thesis
    by (induction rule: list_all2_induct) (use one in \<open>auto simp: report_fields_def flow_fields_def\<close>)
qed

lemma get_file_connected:
  "mh_ssh_tunnel h \<Longrightarrow> get_file env p reader (h, evs) = (rbind (scp_get env evs p) reader, (h, evs @ [Fetched p]))"
  by (cases "scp_get env evs p")
    (simp_all add: get_file_def ensure_connected_def with_host_def andthen_def remote_op_def of_res_def)

lemma fetch_reports:
  assumes "mh_ssh_tunnel h" and "\<And>k evs. k \<in> set ks \<Longrightarrow> scp_get env evs (sender_file_path (mh_host_id h) k) = Inr (SenderReport (R k))"
  shows "\<exists>evs'. gather (\<lambda>k. try_except (get_file env (sender_file_path (mh_host_id h) k) load_sender) (\<lambda>_. raise ValueError)) ks (h, evs) =
    (Inr (map R ks), (h, evs'))"
  using assms
proof (induction ks arbitrary: evs)
  case (Cons k ks)
  let ?get = "\<lambda>k. try_except (get_file env (sender_file_path (mh_host_id h) k) load_sender) (\<lambda>_. raise ValueError)"
  have one: "?get k (h, evs) = (Inr (R k), (h, evs @ [Fetched (sender_file_path (mh_host_id h) k)]))"
    by (rule try_except_run(1)) (simp add: get_file_connected [OF Cons.prems(1)] Cons.prems(2))
  obtain evs' where rest: "gather ?get ks (h, evs @ [Fetched (sender_file_path (mh_host_id h) k)]) = (Inr (map R ks), (h, evs'))"
    using Cons.IH Cons.prems by (metis list.set_intros(2))
  show ?case using one rest by (auto simp: andthen_def ret_def)
qed (simp add: ret_def)

text \<open>An instance with flows of the host leaves its report under the name the host looks for.\<close>

lemma instance_reports:
  assumes "0 \<le> host_id" and "files (args_file_path host_id k) = Inr (JList flow_group)"
    and "flow_parameters_list (JList flow_group) = Inr fps" and "fps \<noteq> []"
    and "\<forall>(i, fp) \<in> set fps. flow_ok env fp \<and> fp_src_host fp = host_id" and "network_ok env" and "1 + 2 * length fps \<le> sig_at env"
  shows "\<exists>info. written (snd (gen_main env files [args_file_path host_id k] gen_start)) = Some (sender_file_path host_id k, info) \<and>
    report_fields (dict_values info) =
      flow_fields (dict_values fps)"
proof -
  have args: "gen_get_args files [args_file_path host_id k] = Inr (int k, fps)" using instance_args [where files = files, OF assms(1,2)] assms(3) by simp
  have "fp_src_host (snd (last fps)) = host_id" using assms(4,5) last_in_set [OF assms(4)] by (cases "last fps") auto
  moreover obtain s info where "gen_main env files [args_file_path host_id k] gen_start = (Inl Exited, s)"
      "map_res (flow_info_of env s) fps = Inr info" "written s = Some (sender_file (Some (fp_src_host (snd (last fps)))) (Some (int k)), info)"
    using generator_reports [OF args assms(4) _ assms(6,7)] assms(5) by fast
  ultimately show ?thesis using flow_info_fields by (simp add: instance_report_path)
qed

lemma set_enumerate_snd: "(i, x) \<in> set (enumerate n (map snd ps)) \<Longrightarrow> \<exists>j. (j, x) \<in> set ps"
proof -
  assume "(i, x) \<in> set (enumerate n (map snd ps))"
  then have "x \<in> snd ` set (enumerate n (map snd ps))" by (metis image_eqI snd_conv)
  then have "x \<in> set (map snd ps)" by (metis list.set_map map_snd_enumerate)
  then show ?thesis by auto
qed

text \<open>
  C28.  A remote host with at least two configured flows, all of them its own, divides them among two traffic generators.  When both are
  interrupted and their reports can be fetched, \<open>get_sender_results\<close> returns one entry for every configured flow, numbered from zero in the order in which
  the flows were configured, with the id, the destination and the source of the flow.
\<close>

theorem sender_results_complete:
  assumes host: "0 \<le> mh_host_id h" "mh_ssh_tunnel h" "length (mh_client_procs h) = 2"
    and flows: "flow_parameters_list (JList (mh_configured_flows h)) = Inr fps" "2 \<le> length fps"
      "\<forall>(i, fp) \<in> set fps. fp_src_host fp = mh_host_id h"
    and files: "\<And>k. k < 2 \<Longrightarrow> files (args_file_path (mh_host_id h) k) = Inr (JList (flow_groups (mh_configured_flows h) ! k))"
    and gens: "\<And>k. k < 2 \<Longrightarrow> network_ok (genv k) \<and> (\<forall>(i, fp) \<in> set fps. flow_ok (genv k) fp) \<and> 1 + 2 * length fps \<le> sig_at (genv k)"
    and fetched: "\<And>k p info evs. k < 2 \<Longrightarrow>
      written (snd (gen_main (genv k) files [args_file_path (mh_host_id h) k] gen_start)) = Some (p, info) \<Longrightarrow> scp_get env evs p = Inr (SenderReport info)"
  shows "\<exists>results evs'. get_sender_results env (h, evs) = (Inr results, (h, evs')) \<and> dict_keys results = [0..<length fps] \<and>
    report_fields (dict_values results) =
      flow_fields (dict_values fps)"
proof -
  let ?id = "mh_host_id h"
  let ?n = "length fps div 2"
  let ?part = "\<lambda>k. if k = 0 then take ?n fps else drop ?n fps"
  have len: "length (mh_configured_flows h) = length fps"
    using flows(1) by (auto simp: flow_parameters_list_def rbind_Inr_iff dest!: map_res_length)
  have group: "flow_parameters_list (JList (flow_groups (mh_configured_flows h) ! k)) = Inr (enumerate 0 (map snd (?part k)))" if "k < 2" for k
    using that flow_parameters_split [OF flows(1), of ?n] by (cases k) (auto simp: flow_groups_def Let_def len less_Suc_eq)
  have report: "\<exists>info. written (snd (gen_main (genv k) files [args_file_path ?id k] gen_start)) = Some (sender_file_path ?id k, info) \<and>
      report_fields (dict_values info) =
        flow_fields (dict_values (?part k))" if k: "k < 2" for k
  proof -
    have "\<forall>(i, fp) \<in> set (enumerate 0 (map snd (?part k))). flow_ok (genv k) fp \<and> fp_src_host fp = ?id"
      using gens [OF k] flows(3) by (auto dest!: set_enumerate_snd dest: in_set_takeD in_set_dropD split: if_splits)
    moreover have "1 + 2 * length (enumerate 0 (map snd (?part k))) \<le> sig_at (genv k)" using gens [OF k] by (auto split: if_splits)
    moreover have "enumerate 0 (map snd (?part k)) \<noteq> []" using flows(2) by (auto simp: enumerate_eq_zip)
    ultimately show ?thesis using instance_reports [where files = files, OF host(1) files [OF k] group [OF k]] gens [OF k] by simp
  qed
  obtain a where a: "written (snd (gen_main (genv 0) files [args_file_path ?id 0] gen_start)) = Some (sender_file_path ?id 0, a)"
      "report_fields (dict_values a) = flow_fields (dict_values (take ?n fps))" using report [of 0] by (auto simp: report_fields_def flow_fields_def)
  obtain b where b: "written (snd (gen_main (genv 1) files [args_file_path ?id 1] gen_start)) = Some (sender_file_path ?id 1, b)"
      "report_fields (dict_values b) = flow_fields (dict_values (drop ?n fps))" using report [of 1] by (auto simp: report_fields_def flow_fields_def)
  define R where "R k = (if k = 0 then a else b)" for k :: nat
  have get: "scp_get env evs (sender_file_path ?id k) = Inr (SenderReport (R k))" if "k \<in> set [0..<2]" for k evs
  proof (cases "k = 0")
    case True
    then show ?thesis using fetched [OF _ a(1)] by (simp add: R_def)
  next
    case False
    then have "k = 1" using that by auto
    then show ?thesis using fetched [OF _ b(1)] by (simp add: R_def)
  qed
  let ?get = "\<lambda>k. try_except (get_file env (sender_file_path ?id k) load_sender) (\<lambda>_. raise ValueError)"
  obtain evs' where run: "gather ?get [0..<2] (h, evs) = (Inr (map R [0..<2]), (h, evs'))"
    using fetch_reports [OF host(2) get] by blast
  let ?res = "aggregate_results (map R [0..<2])"
  have "get_sender_results env (h, evs) = (Inr ?res, (h, evs'))"
    using run by (simp add: get_sender_results_def with_host_def host(3) andthen_def ret_def)
  moreover have fields: "report_fields (dict_values ?res) = flow_fields (dict_values fps)"
  proof -
    have "report_fields (dict_values ?res) = report_fields (dict_values a) @ report_fields (dict_values b)"
      by (simp add: aggregate_results_def R_def upt_conv_Cons report_fields_def)
    also have "\<dots> = flow_fields (dict_values (take ?n fps @ drop ?n fps))" unfolding a(2) b(2) flow_fields_def by (simp only: map_append)
    finally show ?thesis by simp
  qed
  moreover have "dict_keys ?res = [0..<length fps]"
    using arg_cong [OF fields, of length] by (simp add: aggregate_results_def enumerate_eq_zip report_fields_def flow_fields_def)
  ultimately show ?thesis by blast
qed

text \<open>A host with two flows, and a remote machine that has the reports of its two generators.\<close>

definition ex_mn_host :: mininet_host where
  "ex_mn_host = \<lparr>mh_hostname = ''h4'', mh_remote_username = ''u'', mh_remote_password = ''p'', mh_host_id = 4, mh_ssh_port = 22,
     mh_host_ip = ''10.0.0.4'', mh_ssh_tunnel = True, mh_server_proc = None, mh_client_procs = [101, 102],
     mh_configured_flows = [precomputed_args [1000] ''10.0.0.2'' 50000 [1] 4 1 [3] 8 50, precomputed_args [2000] ''10.0.0.3'' 50000 [1] 4 1 [5] 9 50]\<rparr>"

definition ex_mn_files :: "string \<Rightarrow> json res" where
  "ex_mn_files p = (if p = args_file_path 4 0 then Inr (JList (flow_groups (mh_configured_flows ex_mn_host) ! 0))
     else if p = args_file_path 4 1 then Inr (JList (flow_groups (mh_configured_flows ex_mn_host) ! 1)) else Inl FileNotFoundError)"

definition ex_mn_written :: "nat \<Rightarrow> (string \<times> (nat, flow_info) dict) option" where
  "ex_mn_written k = written (snd (gen_main (ex_gen_env 30) ex_mn_files [args_file_path 4 k] gen_start))"

definition ex_remote :: remote_env where
  "ex_remote = \<lparr>ssh_connect = (\<lambda>_ _ _. Inr ()), ssh_exec = (\<lambda>_ _. Inr ()),
     scp_get = (\<lambda>_ p. case find (\<lambda>w. map_option fst w = Some p) (map ex_mn_written [0, 1]) of
       Some (Some (_, info)) \<Rightarrow> Inr (SenderReport info) | _ \<Rightarrow> Inl FileNotFoundError),
     scp_put = (\<lambda>_ _. Inr ())\<rparr>"

theorem sender_results_complete_witness:
  "\<exists>results evs'. get_sender_results ex_remote (ex_mn_host, []) = (Inr results, (ex_mn_host, evs')) \<and> dict_keys results = [0, 1] \<and>
    report_fields (dict_values results) = [(8, ''10.0.0.2'', 4), (9, ''10.0.0.3'', 4)]"
proof -
  define fps where "fps = (case flow_parameters_list (JList (mh_configured_flows ex_mn_host)) of Inl _ \<Rightarrow> [] | Inr f \<Rightarrow> f)"
  have flows: "flow_parameters_list (JList (mh_configured_flows ex_mn_host)) = Inr fps" unfolding fps_def by code_simp
  have len: "length fps = 2" unfolding fps_def by code_simp
  have host: "0 \<le> mh_host_id ex_mn_host" "mh_ssh_tunnel ex_mn_host" "length (mh_client_procs ex_mn_host) = 2" "mh_host_id ex_mn_host = 4"
    by (simp_all add: ex_mn_host_def)
  have own: "\<forall>(i, fp) \<in> set fps. fp_src_host fp = mh_host_id ex_mn_host" unfolding fps_def by code_simp
  have ok: "\<forall>(i, fp) \<in> set fps. flow_ok (ex_gen_env 30) fp" unfolding fps_def by code_simp
  have fields: "flow_fields (dict_values fps) = [(8, ''10.0.0.2'', 4), (9, ''10.0.0.3'', 4)]" unfolding fps_def by code_simp
  have two: "k = 0 \<or> k = 1" if "k < 2" for k :: nat using that by auto
  have paths: "args_file_path 4 1 \<noteq> args_file_path 4 0" by code_simp
  have files: "ex_mn_files (args_file_path (mh_host_id ex_mn_host) k) = Inr (JList (flow_groups (mh_configured_flows ex_mn_host) ! k))" if "k < 2" for k
    using two [OF that] paths by (auto simp: ex_mn_files_def host(4))
  have late: "sig_at (ex_gen_env 30) = 30" by (simp add: ex_gen_env_def)
  have names: "map_option fst (ex_mn_written 0) = Some (sender_file_path 4 0)" "map_option fst (ex_mn_written 1) = Some (sender_file_path 4 1)"
    "sender_file_path 4 0 \<noteq> sender_file_path 4 1" by code_simp+
  have fetched: "scp_get ex_remote evs p = Inr (SenderReport info)"
    if "k < 2" "written (snd (gen_main (ex_gen_env 30) ex_mn_files [args_file_path (mh_host_id ex_mn_host) k] gen_start)) = Some (p, info)" for k p info evs
    using two [OF that(1)] that(2) names by (auto simp: ex_remote_def host(4) simp flip: ex_mn_written_def)
  have gens: "network_ok (ex_gen_env 30) \<and> (\<forall>(i, fp) \<in> set fps. flow_ok (ex_gen_env 30) fp) \<and> 1 + 2 * length fps \<le> sig_at (ex_gen_env 30)"
    using ok ex_gen_env_network late by (simp add: len)
  have "\<exists>results evs'. get_sender_results ex_remote (ex_mn_host, []) = (Inr results, (ex_mn_host, evs')) \<and>
      dict_keys results = [0..<length fps] \<and> report_fields (dict_values results) = flow_fields (dict_values fps)"
  proof (rule sender_results_complete [where genv = "\<lambda>_. ex_gen_env 30" and files = ex_mn_files, OF host(1-3) flows _ own])
    show "2 \<le> length fps" using len by simp
  qed (use files gens fetched in blast)+
  then show ?thesis using fields len by (auto simp: upt_conv_Cons)
qed

subsection \<open>A host with one flow\<close>

lemma generator_without_flows:
  assumes "gen_get_args files argv1 = Inr (inst, [])" and "1 \<le> sig_at env"
  shows "fst (gen_main env files argv1 gen_start) = Inl (Died KeyError)" and "written (snd (gen_main env files argv1 gen_start)) = None"
proof -
  have op: "op env (\<lambda>_. gen_get_args files argv1) gen_start = (Inr (inst, []), gen_start\<lparr>ops := 1\<rparr>)"
    using assms op_run [of gen_start env "\<lambda>_. gen_get_args files argv1" "(inst, [])"] by (simp add: gen_start_def)
  have slice: "generate_slice env [] [] [] s = (Inl (Died KeyError), s)" for s
    by (simp add: generate_slice_def dict_get_def andthen_def)
  have "gen_main env files argv1 gen_start =
      (Inl (Died KeyError), gen_start\<lparr>ops := 1, g_instance_id := Some inst, g_flow_params := Some [], g_sock_dict := Some []\<rparr>)"
    by (simp add: gen_main_def andthen_run(1) [where m = "op env (\<lambda>_. gen_get_args files argv1)", OF op] generate_traffic_def
        create_sockets_def create_rvs_def lift_res_ok generate_loop.simps [of env "[]"] slice)
  then show "fst (gen_main env files argv1 gen_start) = Inl (Died KeyError)" "written (snd (gen_main env files argv1 gen_start)) = None"
    by (simp_all add: gen_start_def)
qed

text \<open>
  C29.  A remote host with a single configured flow gives its first traffic generator no flow at all: that generator ends with a
  \<open>KeyError\<close> without a report, and since there is no file to fetch, \<open>get_sender_results\<close> raises \<open>ValueError\<close> although the second generator has the flow.
\<close>

theorem single_flow_results_fail:
  assumes "0 \<le> mh_host_id h" and "mh_ssh_tunnel h" and "length (mh_client_procs h) = 2" and "length (mh_configured_flows h) = 1"
    and "files (args_file_path (mh_host_id h) 0) = Inr (JList (flow_groups (mh_configured_flows h) ! 0))" and "1 \<le> sig_at genv"
    and "\<And>evs. written (snd (gen_main genv files [args_file_path (mh_host_id h) 0] gen_start)) = None \<Longrightarrow>
      scp_get env evs (sender_file_path (mh_host_id h) 0) = Inl FileNotFoundError"
  shows "fst (gen_main genv files [args_file_path (mh_host_id h) 0] gen_start) = Inl (Died KeyError) \<and>
    fst (get_sender_results env (h, evs)) = Inl ValueError"
proof -
  have "flow_groups (mh_configured_flows h) ! 0 = []" using assms(4) by (simp add: flow_groups_def)
  then have "gen_get_args files [args_file_path (mh_host_id h) 0] = Inr (0, [])"
    using instance_args [where files = files, OF assms(1,5)] by (simp add: flow_parameters_list_def)
  note none = generator_without_flows [OF this assms(6)]
  have "get_file env (sender_file_path (mh_host_id h) 0) load_sender (h, evs) =
      (Inl FileNotFoundError, (h, evs @ [Fetched (sender_file_path (mh_host_id h) 0)]))"
    using assms(7) [OF none(2)] by (simp add: get_file_connected [OF assms(2)])
  then have "fst (get_sender_results env (h, evs)) = Inl ValueError"
    by (simp add: get_sender_results_def with_host_def assms(3) upt_conv_Cons andthen_def try_except_def raise_def of_res_def)
  then show ?thesis using none(1) by simp
qed

definition ex_single_host :: mininet_host where
  "ex_single_host = ex_mn_host\<lparr>mh_configured_flows := [hd (mh_configured_flows ex_mn_host)]\<rparr>"

theorem single_flow_results_fail_witness:
  "fst (gen_main (ex_gen_env 30) (\<lambda>_. Inr (JList [])) [args_file_path 4 0] gen_start) = Inl (Died KeyError) \<and>
   fst (get_sender_results (ex_remote\<lparr>scp_get := \<lambda>_ _. Inl FileNotFoundError\<rparr>) (ex_single_host, [])) = Inl ValueError"
proof -
  have "mh_host_id ex_single_host = 4" "mh_ssh_tunnel ex_single_host" "length (mh_client_procs ex_single_host) = 2"
    "length (mh_configured_flows ex_single_host) = 1" "flow_groups (mh_configured_flows ex_single_host) ! 0 = []" "1 \<le> sig_at (ex_gen_env 30)"
    by code_simp+
  then show ?thesis
    using single_flow_results_fail [of ex_single_host "\<lambda>_. Inr (JList [])" "ex_gen_env 30" "ex_remote\<lparr>scp_get := \<lambda>_ _. Inl FileNotFoundError\<rparr>" "[]"]
    by simp
qed

end
