(* ===== verification/Tuiti_Trial.thy ===== *)
theory Tuiti_Trial
  imports Trial_Provider
begin

section \<open>Trials of bulk transfers\<close>

text \<open>
  Models \<open>rest_client/tuiti/tuiti_trial.py\<close>: the solver's allocation of bulk transfers to paths and time slots becomes a trial with one
  flow per path, whose rates are given second by second, and one flow of background traffic per path that leaves free what the
  solver assumed to be free.  The parameters come from a pickled object of a package that is not part of the repository; its
  attributes are the fields of \<open>tuiti_parameters\<close>.  The disjoint paths of \<open>networkx\<close> are a parameter.
\<close>

record tuiti_parameters =
  tu_trial_type :: string
  tu_trial_duration :: pyfloat
  tu_timeslot_seconds :: int
  tu_number_of_timeslots :: int
  tu_maximum_bandwidth_variation :: pyfloat
  tu_flow_arrival_rate :: pyfloat
  tu_mean_flow_duration :: pyfloat
  tu_mean_flow_demand :: pyfloat
  tu_number_of_admitted_flows :: int
  tu_number_of_successful_flows :: int
  tu_number_of_paths :: int
  tu_flow_bandwidth_requirements :: "pyfloat list"
  tu_deviation_mode :: string
  tu_confidence_interval :: "pyfloat option"
  tu_flow_allocations :: "pyfloat list list list"
  tu_path_capacities :: "pyfloat list list"

text \<open>\<open>tu_confidence_interval\<close> is there when the object is an \<open>EbTrialParameters\<close>.\<close>

definition TX_RATE_SCALING_FACTOR :: pyfloat where
  "TX_RATE_SCALING_FACTOR = 10000"

definition add_request :: "(nat, pyfloat) dict \<Rightarrow> pyfloat list \<Rightarrow> (nat, pyfloat) dict" where
  "add_request d volumes = foldl (\<lambda>d (timeslot, x). dict_set d timeslot (dict_get_default d timeslot 0 + TX_RATE_SCALING_FACTOR * x))
     d (enumerate 0 volumes)"

definition prune_flow_allocations_list :: "pyfloat list list list \<Rightarrow> (nat, pyfloat list) dict" where
  "prune_flow_allocations_list flow_allocations = map (\<lambda>(path_id, requests). (path_id, dict_values (foldl add_request [] requests)))
     (enumerate 0 flow_allocations)"

definition prune_path_capacity_list :: "pyfloat list list \<Rightarrow> (nat, pyfloat list) dict" where
  "prune_path_capacity_list path_capacities = enumerate 0 (map (map (\<lambda>tx_rate. tx_rate * TX_RATE_SCALING_FACTOR)) path_capacities)"

definition py_max :: "pyfloat list \<Rightarrow> pyfloat res" where
  "py_max xs = (if xs = [] then Inl ValueError else Inr (Max (set xs)))"

definition total_path_volume_per_second :: pyfloat where
  "total_path_volume_per_second = (50 / 8) * 2 ^ 20"

text \<open>The factor computed for a path; the factor that is then used is one for every path.\<close>

definition scaling_factor_of :: "tuiti_parameters \<Rightarrow> (nat, pyfloat list) dict \<Rightarrow> nat \<Rightarrow> pyfloat res" where
  "scaling_factor_of p path_capacities path_id =
     rbind (dict_get path_capacities path_id) (\<lambda>capacities.
     rbind (py_max capacities) (\<lambda>max_remaining_capacity.
     let trial_duration = of_int (tu_timeslot_seconds p * tu_number_of_timeslots p);
         total_path_volume = total_path_volume_per_second * of_int (tu_number_of_timeslots p) * of_int (tu_timeslot_seconds p)
     in py_div (85 / 100 * total_path_volume) (max_remaining_capacity * trial_duration)))"

text \<open>A rate per time slot as entries per second, and the list of a flow.\<close>

definition per_second :: "int \<Rightarrow> (pyfloat \<Rightarrow> pyfloat) \<Rightarrow> pyfloat list \<Rightarrow> pyfloat list res" where
  "per_second duration f rates =
     rbind (map_res (\<lambda>tx_rate. rbind (py_div (tx_rate * 1) (of_int duration)) (\<lambda>x. Inr (replicate (nat duration) (f x)))) rates)
       (\<lambda>entries. Inr (concat entries))"

definition tuiti_flow :: "tuiti_parameters \<Rightarrow> fa_node list list \<Rightarrow> pyfloat list \<Rightarrow> rate_flow" where
  "tuiti_flow p paths rates = \<lparr>rf_source = 0, rf_destination = 1, rf_tx_rates = rates, rf_paths = paths,
     rf_splitting_ratio = replicate (nat (tu_number_of_paths p)) 0\<rparr>"

definition background_rates :: "tuiti_parameters \<Rightarrow> nat list \<Rightarrow> nat \<times> pyfloat list \<Rightarrow> (pyfloat list \<times> pyfloat list) res" where
  "background_rates p scaled_paths = (\<lambda>(path_id, tx_rate_list).
     rbind (py_max tx_rate_list) (\<lambda>_.
     if path_id \<notin> set scaled_paths then Inl KeyError else
     rbind (per_second (tu_timeslot_seconds p) (\<lambda>scaled_capacity. total_path_volume_per_second - scaled_capacity) tx_rate_list) (\<lambda>scaled_tx_rate_list.
     rbind (per_second (tu_timeslot_seconds p) (\<lambda>scaled_capacity. scaled_capacity) tx_rate_list) (\<lambda>scaled_remaining_capacities.
     Inr (scaled_tx_rate_list, scaled_remaining_capacities)))))"

definition tuiti_first_parameters :: "tuiti_parameters \<Rightarrow> (string \<times> param_value) list" where
  "tuiti_first_parameters p =
     [(''duration'', PFloat (tu_trial_duration p)), (''seed-number'', PStr ''1234''), (''timeslot-duration'', PInt (tu_timeslot_seconds p)),
      (''number-of-timeslots'', PInt (tu_number_of_timeslots p)), (''maximum-bandwidth-variation'', PFloat (tu_maximum_bandwidth_variation p)),
      (''flow-arrival-rate'', PFloat (tu_flow_arrival_rate p)), (''mean-flow-duration'', PFloat (tu_mean_flow_duration p)),
      (''mean-flow-demand'', PFloat (tu_mean_flow_demand p)), (''number-of-admitted-flows'', PInt (tu_number_of_admitted_flows p)),
      (''number-of-successful-flows'', PInt (tu_number_of_successful_flows p)), (''number-of-paths'', PInt (tu_number_of_paths p)),
      (''flow-bandwidth-requirements'', PFloatMap (enumerate 0 (tu_flow_bandwidth_requirements p))),
      (''deviation-mode'', PStr (tu_deviation_mode p))] @
     (case tu_confidence_interval p of None \<Rightarrow> [] | Some c \<Rightarrow> [(''confidence-interval'', PFloat c)])"

text \<open>
  \<open>from_solver_file\<close> on the loaded parameters.  \<open>scaling_factor\<close> keeps the value of the last path; without paths it is unbound
  where it is used, a \<open>NameError\<close>.
\<close>

definition from_solver_file ::
    "'q randint \<Rightarrow> (fa_node \<Rightarrow> fa_node \<Rightarrow> fa_node list list res) \<Rightarrow> tuiti_parameters \<Rightarrow> 'q \<Rightarrow> trial res" where
  "from_solver_file randint node_disjoint_paths p q =
     (let flow_allocations = prune_flow_allocations_list (tu_flow_allocations p);
          path_capacities = prune_path_capacity_list (tu_path_capacities p) in
      rbind (node_disjoint_paths 0 1) (\<lambda>paths.
      if int (length paths) < tu_number_of_paths p then Inl ValueError else
      rbind (add_parameters (fst (new_trial randint (tu_trial_type p) q)) (tuiti_first_parameters p)) (\<lambda>the_trial.
      rbind (map_res (scaling_factor_of p path_capacities) (dict_keys flow_allocations)) (\<lambda>factors.
      rbind (map_res (\<lambda>(_, rates). per_second (tu_timeslot_seconds p) (\<lambda>x. x) rates) flow_allocations) (\<lambda>scaled.
      rbind (add_parameter the_trial ''flow-set'' (PRateFlows (map (tuiti_flow p paths) scaled))) (\<lambda>the_trial.
      rbind (map_res (background_rates p (dict_keys flow_allocations)) path_capacities) (\<lambda>background.
      rbind (add_parameter the_trial ''background-traffic-flow-set'' (PRateFlows (map (tuiti_flow p paths) (map fst background)))) (\<lambda>the_trial.
      if factors = [] then Inl NameError else
      add_parameters the_trial [(''transfer-volume-scaling-factor'', PFloat (last factors)),
        (''expected-path-bandwidth-in-bytes-per-second'', PFloat total_path_volume_per_second),
        (''remaining-capacities'', PFloatLists (map snd background))]))))))))"

text \<open>The files of a directory that end in \<open>.p\<close>, in the order the directory gives them; every trial draws its id.\<close>

fun batch_from_directory :: "'q randint \<Rightarrow> (fa_node \<Rightarrow> fa_node \<Rightarrow> fa_node list list res) \<Rightarrow> (string \<times> tuiti_parameters) list \<Rightarrow> 'q \<Rightarrow> trial list res" where
  "batch_from_directory randint node_disjoint_paths [] q = Inr []"
| "batch_from_directory randint node_disjoint_paths ((suffix, p) # entries) q =
     (if suffix = ''.p'' then
        rbind (from_solver_file randint node_disjoint_paths p q) (\<lambda>t.
        rbind (batch_from_directory randint node_disjoint_paths entries (snd (new_trial randint (tu_trial_type p) q))) (\<lambda>ts. Inr (t # ts)))
      else batch_from_directory randint node_disjoint_paths entries q)"

subsection \<open>Volumes\<close>

lemma sum_dict_add:
  "dict_wf d \<Longrightarrow> sum_list (dict_values (dict_set d k (dict_get_default d k 0 + x))) = sum_list (dict_values d) + (x :: pyfloat)"
proof (induction d)
  case (Cons p d)
  obtain k' v where p: "p = (k', v)" by (cases p)
  show ?case
  proof (cases "k' = k")
    case False
    then have "dict_get_default (p # d) k 0 = dict_get_default d k 0" by (simp add: p dict_get_default_def)
    then show ?thesis using Cons False by (simp add: p dict_set_def dict_wf_def)
  qed (simp add: p dict_set_def dict_get_default_def)
qed (simp add: dict_set_def dict_get_default_def)

lemma add_request_sum:
  assumes "dict_wf d"
  shows "dict_wf (add_request d volumes) \<and> sum_list (dict_values (add_request d volumes)) = sum_list (dict_values d) + TX_RATE_SCALING_FACTOR * sum_list volumes"
proof -
  have "dict_wf (foldl (\<lambda>d (t, x). dict_set d t (dict_get_default d t 0 + TX_RATE_SCALING_FACTOR * x)) d (enumerate n volumes)) \<and>
      sum_list (dict_values (foldl (\<lambda>d (t, x). dict_set d t (dict_get_default d t 0 + TX_RATE_SCALING_FACTOR * x)) d (enumerate n volumes))) =
        sum_list (dict_values d) + TX_RATE_SCALING_FACTOR * sum_list volumes" for n
    using assms by (induction volumes arbitrary: d n) (simp_all add: sum_dict_add distrib_left add.assoc)
  then show ?thesis by (simp add: add_request_def)
qed

text \<open>The volumes of all requests over a path.\<close>

definition path_volume :: "pyfloat list list \<Rightarrow> pyfloat" where
  "path_volume requests = TX_RATE_SCALING_FACTOR * sum_list (map sum_list requests)"

lemma pruned_volume: "sum_list (dict_values (foldl add_request [] requests)) = path_volume requests"
proof -
  have "dict_wf d \<Longrightarrow> sum_list (dict_values (foldl add_request d requests)) = sum_list (dict_values d) + path_volume requests" for d
    by (induction requests arbitrary: d) (use add_request_sum in \<open>simp_all add: path_volume_def algebra_simps\<close>)
  then show ?thesis by simp
qed

lemma per_second_run:
  "0 < duration \<Longrightarrow> per_second duration f rates = Inr (concat (map (\<lambda>r. replicate (nat duration) (f (r / of_int duration))) rates))"
  unfolding per_second_def by (subst map_res_Inr_map) (auto simp: py_div_def)

lemma per_second_sum:
  assumes "0 < duration"
  shows "sum_list (concat (map (\<lambda>r. replicate (nat duration) (r / of_int duration)) rates)) = (sum_list rates :: pyfloat)"
proof -
  have n: "of_nat (nat duration) = (of_int duration :: rat)" using assms by simp
  show ?thesis using assms by (induction rates) (simp_all add: sum_list_replicate n)
qed

lemma per_second_pointwise:
  assumes "\<And>r. P (f r) (g r)"
  shows "list_all2 P (concat (map (\<lambda>r. replicate n (f r)) rates)) (concat (map (\<lambda>r. replicate n (g r)) rates))"
proof (induction rates)
  case (Cons r rates)
  have "list_all2 P (replicate n (f r)) (replicate n (g r))" using assms by (simp add: list_all2_conv_all_nth)
  then show ?case using Cons by (simp add: list_all2_appendI)
qed simp

lemma add_parameter_new:
  "k \<notin> set (dict_keys (tr_parameters t)) \<Longrightarrow> add_parameter t k v = Inr (t\<lparr>tr_parameters := tr_parameters t @ [(k, v)]\<rparr>)"
  using update_new [of k "tr_parameters t" v] by (simp add: add_parameter_def dict_has_def)

subsection \<open>The trial\<close>

text \<open>The parameters a trial can be made of: enough paths, a duration, and for every path of the allocation a capacity that is
  not all zero.\<close>

definition tuiti_ok :: "tuiti_parameters \<Rightarrow> bool" where
  "tuiti_ok p \<longleftrightarrow> 0 < tu_timeslot_seconds p \<and> 0 < tu_number_of_timeslots p \<and> tu_flow_allocations p \<noteq> [] \<and>
     length (tu_path_capacities p) = length (tu_flow_allocations p) \<and>
     (\<forall>capacities \<in> set (tu_path_capacities p). capacities \<noteq> [] \<and> Max (set capacities) \<noteq> 0)"

lemma pruned_keys: "dict_keys (prune_flow_allocations_list fa) = [0..<length fa]"
  by (simp add: prune_flow_allocations_list_def comp_def case_prod_beta enumerate_eq_zip)

lemma scaling_factors_ok:
  assumes "tuiti_ok p"
  shows "\<exists>factors. map_res (scaling_factor_of p (prune_path_capacity_list (tu_path_capacities p))) [0..<length (tu_flow_allocations p)] = Inr factors \<and> factors \<noteq> []"
proof -
  have one: "\<exists>x. scaling_factor_of p (prune_path_capacity_list (tu_path_capacities p)) k = Inr x" if "k < length (tu_flow_allocations p)" for k
  proof -
    let ?c = "tu_path_capacities p ! k"
    have k: "k < length (tu_path_capacities p)" using that assms by (simp add: tuiti_ok_def)
    then have c: "?c \<noteq> []" "Max (set ?c) \<noteq> 0" using assms by (auto simp: tuiti_ok_def)
    have "Max ((\<lambda>x. x * TX_RATE_SCALING_FACTOR) ` set ?c) = Max (set ?c) * TX_RATE_SCALING_FACTOR"
      by (rule hom_Max_commute [symmetric]) (use c in \<open>auto simp: TX_RATE_SCALING_FACTOR_def max_def\<close>)
    moreover have "map_of (prune_path_capacity_list (tu_path_capacities p)) k = Some (map (\<lambda>x. x * TX_RATE_SCALING_FACTOR) ?c)"
      using k by (auto simp: prune_path_capacity_list_def enumerate_eq_zip map_of_zip_nth in_set_zip intro!: map_of_is_SomeI exI [of _ k])
    ultimately show ?thesis
      using assms c by (simp add: scaling_factor_of_def dict_get_def py_max_def py_div_def Let_def TX_RATE_SCALING_FACTOR_def tuiti_ok_def)
  qed
  have "\<forall>k \<in> set [0..<length (tu_flow_allocations p)]. \<exists>x. scaling_factor_of p (prune_path_capacity_list (tu_path_capacities p)) k = Inr x"
    using one by simp
  then obtain factors where f: "map_res (scaling_factor_of p (prune_path_capacity_list (tu_path_capacities p))) [0..<length (tu_flow_allocations p)] = Inr factors"
    using map_res_total by metis
  then have "length factors = length (tu_flow_allocations p)" using map_res_length [OF f] by simp
  then show ?thesis using f assms by (auto simp: tuiti_ok_def)
qed

definition second_rates :: "int \<Rightarrow> (pyfloat \<Rightarrow> pyfloat) \<Rightarrow> pyfloat list \<Rightarrow> pyfloat list" where
  "second_rates duration f rates = concat (map (\<lambda>r. replicate (nat duration) (f (r / of_int duration))) rates)"

lemma background_ok:
  assumes "tuiti_ok p"
  shows "map_res (background_rates p [0..<length (tu_flow_allocations p)]) (prune_path_capacity_list (tu_path_capacities p)) =
    Inr (map (\<lambda>(_, rates). (second_rates (tu_timeslot_seconds p) (\<lambda>x. total_path_volume_per_second - x) rates, second_rates (tu_timeslot_seconds p) (\<lambda>x. x) rates))
      (prune_path_capacity_list (tu_path_capacities p)))"
proof (rule map_res_Inr_map)
  fix x assume x: "x \<in> set (prune_path_capacity_list (tu_path_capacities p))"
  then obtain k where k: "k < length (tu_path_capacities p)" "x = (k, map (\<lambda>x. x * TX_RATE_SCALING_FACTOR) (tu_path_capacities p ! k))"
    by (auto simp: prune_path_capacity_list_def enumerate_eq_zip in_set_zip)
  then show "background_rates p [0..<length (tu_flow_allocations p)] x =
      Inr (case x of (_, rates) \<Rightarrow> (second_rates (tu_timeslot_seconds p) (\<lambda>x. total_path_volume_per_second - x) rates, second_rates (tu_timeslot_seconds p) (\<lambda>x. x) rates))"
    using assms by (auto simp: background_rates_def py_max_def per_second_run second_rates_def tuiti_ok_def)
qed

lemma flows_ok_volume:
  assumes "0 < duration"
  shows "\<exists>scaled. map_res (\<lambda>(_, rates). per_second duration (\<lambda>x. x) rates) (prune_flow_allocations_list fa) = Inr scaled \<and>
    map sum_list scaled = map path_volume fa"
proof -
  let ?pruned = "prune_flow_allocations_list fa"
  have "map_res (\<lambda>(_, rates). per_second duration (\<lambda>x. x) rates) ?pruned = Inr (map (\<lambda>(_, rates). second_rates duration (\<lambda>x. x) rates) ?pruned)"
    by (rule map_res_Inr_map) (auto simp: per_second_run [OF assms] second_rates_def)
  moreover have "map sum_list (map (\<lambda>(_, rates). second_rates duration (\<lambda>x. x) rates) ?pruned) = map (\<lambda>(_, rates). sum_list rates) ?pruned"
    using per_second_sum [OF assms] by (simp add: second_rates_def case_prod_beta)
  moreover have "map (\<lambda>(_, rates). sum_list rates) ?pruned = map path_volume fa"
    by (rule nth_equalityI) (simp_all add: prune_flow_allocations_list_def pruned_volume nth_enumerate_eq case_prod_beta)
  ultimately show ?thesis by metis
qed

lemma first_parameter_names:
  "set (dict_keys (tuiti_first_parameters p)) \<inter> {''flow-set'', ''background-traffic-flow-set'', ''transfer-volume-scaling-factor'',
     ''expected-path-bandwidth-in-bytes-per-second'', ''remaining-capacities''} = {}"
  by (cases "tu_confidence_interval p") (simp_all add: tuiti_first_parameters_def)

lemma first_parameters_added:
  obtains n where "add_parameters (fst (new_trial randint name q)) (tuiti_first_parameters p) =
    Inr \<lparr>tr_name = name, tr_parameters = [(''trial-name'', PStr name), (''id'', PStr n)] @ tuiti_first_parameters p\<rparr>"
proof -
  obtain n where new: "fst (new_trial randint name q) = \<lparr>tr_name = name, tr_parameters = [(''trial-name'', PStr name), (''id'', PStr n)]\<rparr>"
    by (cases "randint q 0 (2 ^ 64)") (auto simp: new_trial_def)
  show thesis
    by (rule that [of n], unfold new, subst add_parameters_new) (auto simp: tuiti_first_parameters_def split: option.splits)
qed

lemma tuiti_trial_made:
  assumes "tuiti_ok p" and "node_disjoint_paths 0 1 = Inr paths" and "tu_number_of_paths p \<le> int (length paths)"
  shows "\<exists>t rates background. from_solver_file randint node_disjoint_paths p q = Inr t \<and> get_parameter t ''seed-number'' = Inr (PStr ''1234'') \<and>
    get_parameter t ''flow-set'' = Inr (PRateFlows (map (tuiti_flow p paths) rates)) \<and>
    get_parameter t ''background-traffic-flow-set'' = Inr (PRateFlows (map (tuiti_flow p paths) (map fst background))) \<and>
    get_parameter t ''remaining-capacities'' = Inr (PFloatLists (map snd background)) \<and> map sum_list rates = map path_volume (tu_flow_allocations p) \<and>
    (\<forall>(b, c) \<in> set background. list_all2 (\<lambda>x y. x + y = 50 / 8 * 2 ^ 20) b c)"
proof -
  let ?fa = "prune_flow_allocations_list (tu_flow_allocations p)" and ?pc = "prune_path_capacity_list (tu_path_capacities p)"
  let ?dur = "tu_timeslot_seconds p"
  let ?bg = "map (\<lambda>(_, rates). (second_rates ?dur (\<lambda>x. total_path_volume_per_second - x) rates, second_rates ?dur (\<lambda>x. x) rates)) ?pc"
  obtain factors where factors: "map_res (scaling_factor_of p ?pc) (dict_keys ?fa) = Inr factors" "factors \<noteq> []"
    using scaling_factors_ok [OF assms(1)] pruned_keys by metis
  obtain scaled where scaled: "map_res (\<lambda>(_, rates). per_second ?dur (\<lambda>x. x) rates) ?fa = Inr scaled" "map sum_list scaled = map path_volume (tu_flow_allocations p)"
    using flows_ok_volume [of ?dur "tu_flow_allocations p"] assms(1) by (auto simp: tuiti_ok_def)
  have bg: "map_res (background_rates p (dict_keys ?fa)) ?pc = Inr ?bg" using background_ok [OF assms(1)] by (simp only: pruned_keys)
  obtain n where first: "add_parameters (fst (new_trial randint (tu_trial_type p) q)) (tuiti_first_parameters p) =
      Inr \<lparr>tr_name = tu_trial_type p, tr_parameters = [(''trial-name'', PStr (tu_trial_type p)), (''id'', PStr n)] @ tuiti_first_parameters p\<rparr>"
    by (rule first_parameters_added)
  note keys = first_parameter_names [of p]
  let ?flows = "map (tuiti_flow p paths) scaled" and ?bflows = "map (tuiti_flow p paths) (map fst ?bg)"
  let ?ps = "[(''trial-name'', PStr (tu_trial_type p)), (''id'', PStr n)] @ tuiti_first_parameters p"
  let ?rest = "[(''transfer-volume-scaling-factor'', PFloat (last factors)),
        (''expected-path-bandwidth-in-bytes-per-second'', PFloat total_path_volume_per_second),
        (''remaining-capacities'', PFloatLists (map snd ?bg))]"
  let ?all = "?ps @ [(''flow-set'', PRateFlows ?flows), (''background-traffic-flow-set'', PRateFlows ?bflows)] @ ?rest"
  have run: "from_solver_file randint node_disjoint_paths p q = Inr \<lparr>tr_name = tu_trial_type p, tr_parameters = ?all\<rparr>"
    using keys assms(2,3) factors(2)
    by (simp add: from_solver_file_def Let_def first factors(1) scaled(1) bg add_parameter_new add_parameters_new)
  have "map_of (tuiti_first_parameters p) k = None" if "k \<in> {''flow-set'', ''background-traffic-flow-set'', ''remaining-capacities''}" for k
    using keys that by (simp add: map_of_eq_None_iff disjoint_iff) blast
  then have "map_of ?all ''flow-set'' = Some (PRateFlows ?flows)" "map_of ?all ''background-traffic-flow-set'' = Some (PRateFlows ?bflows)"
    "map_of ?all ''remaining-capacities'' = Some (PFloatLists (map snd ?bg))"
    by (simp_all add: map_add_def)
  moreover have "map_of ?all ''seed-number'' = Some (PStr ''1234'')" by (simp add: tuiti_first_parameters_def)
  moreover have "\<forall>(b, c) \<in> set ?bg. list_all2 (\<lambda>x y. x + y = 50 / 8 * 2 ^ 20) b c"
    by (auto simp: second_rates_def total_path_volume_per_second_def intro!: per_second_pointwise)
  ultimately show ?thesis using run scaled(2) by (intro exI [of _ "\<lparr>tr_name = tu_trial_type p, tr_parameters = ?all\<rparr>"] exI [of _ scaled] exI [of _ ?bg]) (simp add: get_parameter_def)
qed


definition ex_tuiti :: tuiti_parameters where
  "ex_tuiti = \<lparr>tu_trial_type = ''optimal'', tu_trial_duration = 4, tu_timeslot_seconds = 2, tu_number_of_timeslots = 2, tu_maximum_bandwidth_variation = 0,
     tu_flow_arrival_rate = 1, tu_mean_flow_duration = 1, tu_mean_flow_demand = 1, tu_number_of_admitted_flows = 2, tu_number_of_successful_flows = 2,
     tu_number_of_paths = 1, tu_flow_bandwidth_requirements = [1, 2], tu_deviation_mode = ''none'', tu_confidence_interval = None,
     tu_flow_allocations = [[[1, 2], [3, 4]]], tu_path_capacities = [[20, 30]]\<rparr>"


text \<open>Without any path the factor that is recorded at the end was never assigned.\<close>

lemma no_allocations_raise:
  assumes "tu_flow_allocations p = []" and "tu_path_capacities p = []" and "node_disjoint_paths 0 1 = Inr paths" and "tu_number_of_paths p \<le> int (length paths)"
  shows "from_solver_file randint node_disjoint_paths p q = Inl NameError"
proof -
  obtain n where "add_parameters (fst (new_trial randint (tu_trial_type p) q)) (tuiti_first_parameters p) =
      Inr \<lparr>tr_name = tu_trial_type p, tr_parameters = [(''trial-name'', PStr (tu_trial_type p)), (''id'', PStr n)] @ tuiti_first_parameters p\<rparr>"
    by (rule first_parameters_added)
  then show ?thesis using assms first_parameter_names [of p]
    by (simp add: from_solver_file_def Let_def prune_flow_allocations_list_def prune_path_capacity_list_def add_parameter_new)
qed

end
