(* ===== verification/Mininet_Tuiti.thy ===== *)
theory Mininet_Tuiti
  imports Testbed_Trial Mininet_Host Tuiti_Trial Results_Repository
begin

section \<open>Trials of bulk transfers on mininet\<close>

text \<open>
  Models \<open>rest_client/mininet_tuiti.py\<close> with \<open>tuiti/config.py\<close>: the driver maps five disjoint paths to the network, installs the
  paths of every flow under tags of their own, configures the flows of the trial and the background traffic at two remote
  hosts, lets them send while the switches are sampled, collects the reports and stores everything in the trial.  The functions
  \<open>simple_paths_to_flow_json\<close> and \<open>remove_all_flows\<close> of the driver are those of \<open>path_hopping.py\<close> word for word and are shared with
  \<open>Testbed_Trial\<close>.  The functions that only print (\<open>looking_at_trials\<close>, \<open>serialization_testing\<close>) and the variant for tests, which
  waits for a key, are left out, as are sleeping and printing.
\<close>

subsection \<open>Utilisation from counters of sent bytes\<close>

text \<open>The functions of \<open>stat_monitor.py\<close> on what the controller sends.\<close>

definition sent_count :: "json \<Rightarrow> int res" where
  "sent_count d = json_field d ''bytesSent'' json_int"

definition sent_rates :: "json \<Rightarrow> json \<Rightarrow> (string \<times> string, pyfloat) dict res" where
  "sent_rates t_0 t_1 = rbind (json_list t_0) (\<lambda>ifaces.
     rbind (fold_res (count_delta sent_count t_1) [] ifaces) (\<lambda>deltas. Inr (map (\<lambda>(k, n). (k, compute_tx_rate n)) deltas)))"

definition sent_rates_over_time :: "json list \<Rightarrow> (string \<times> string, pyfloat) dict list res" where
  "sent_rates_over_time link_byte_counts = map_res (\<lambda>(t_0, t_1). sent_rates t_0 t_1) (zip link_byte_counts (tl link_byte_counts))"

definition mean_sent_rates :: "json list \<Rightarrow> (string \<times> string, pyfloat) dict res" where
  "mean_sent_rates link_byte_counts = rbind (sent_rates_over_time link_byte_counts) (\<lambda>link_util_t.
     Inr (map (\<lambda>k. (k, mean (List.map_filter (\<lambda>d. map_of d k) link_util_t))) (collect_all_link_keys link_util_t)))"

subsection \<open>The network and the hosts\<close>

definition build_n_paths_networkx_graph :: "nat \<Rightarrow> int topo_graph" where
  "build_n_paths_networkx_graph number_of_paths =
     \<lparr>tg_nodes = [0, 1] @ map int [2..<number_of_paths + 2],
      tg_edges = concat (map (\<lambda>switch_id. [(0, int switch_id), (1, int switch_id)]) [2..<number_of_paths + 2])\<rparr>"

definition EXPECTED_TOPO :: "int topo_graph" where
  "EXPECTED_TOPO = build_n_paths_networkx_graph 5"

text \<open>
  The variables of \<open>conduct_mininet_trial\<close> that the \<open>finally\<close> block uses, the trial that is changed, what was done on the remote
  machines (mininet hosts share one file system, so there is one list for both), and the local files written, with the value that
  is printed into them.
\<close>

record mn_bed =
  mb_hosts :: "(int, mininet_host) dict"
  mb_events :: "remote_event list"
  mb_tokens :: "json list"
  mb_trial :: trial
  mb_local :: "(string \<times> param_value) list"

type_synonym 'a mn_act = "(mn_bed \<times> world, 'a) prog"

definition on_host :: "int \<Rightarrow> 'a host_prog \<Rightarrow> 'a mn_act" where
  "on_host k m = (\<lambda>(d, w). case dict_get (mb_hosts d) k of
       Inl e \<Rightarrow> (Inl e, (d, w))
     | Inr h \<Rightarrow> (case m (h, mb_events d) of (r, (h', evs)) \<Rightarrow>
         (r, (d\<lparr>mb_hosts := dict_set (mb_hosts d) k h', mb_events := evs\<rparr>, w))))"

definition for_mininet_hosts :: "unit host_prog \<Rightarrow> unit mn_act" where
  "for_mininet_hosts m = (\<lambda>(d, w). each (\<lambda>k. on_host k m) (dict_keys (mb_hosts d)) (d, w))"

definition mininet_host_ip :: "int \<Rightarrow> string mn_act" where
  "mininet_host_ip k = (\<lambda>(d, w). (rbind (dict_get (mb_hosts d) k) (\<lambda>h. Inr (mh_host_ip h)), (d, w)))"

definition create_mininet_host :: "json list \<Rightarrow> (int, string) dict \<Rightarrow> int \<Rightarrow> (int \<times> mininet_host) res" where
  "create_mininet_host connected_hosts id_to_dpid host_id =
     rbind (dict_get id_to_dpid host_id) (\<lambda>switch_dpid.
     rbind (rbind (get_ip_of_connected_host connected_hosts switch_dpid) json_str) (\<lambda>host_ip.
     rbind (new_mininet_host mininet_resolve_hostname host_ip (''h'' @ show_int host_id) ''alexj'' ''password'' host_id 22) (\<lambda>h.
     Inr (host_id, h))))"

definition create_mininet_hosts :: "server \<Rightarrow> (int, string) dict \<Rightarrow> int list \<Rightarrow> (int, mininet_host) dict io" where
  "create_mininet_hosts srv id_to_dpid host_ids = andthen (get_nw_hosts srv) (\<lambda>connected_hosts.
     of_res (rbind (json_list connected_hosts) (\<lambda>hs.
       rbind (map_res (create_mininet_host hs id_to_dpid) host_ids) (\<lambda>hosts. Inr (dict_of hosts)))))"

definition except_value_error :: "('s, 'a) prog \<Rightarrow> ('s, 'a option) prog" where
  "except_value_error m = (\<lambda>s. case m s of (Inl ValueError, s') \<Rightarrow> (Inr None, s') | (Inl e, s') \<Rightarrow> (Inl e, s') | (Inr x, s') \<Rightarrow> (Inr (Some x), s'))"

definition collect_end_host_results :: "remote_env \<Rightarrow> (int, end_host_results) dict mn_act" where
  "collect_end_host_results env = (\<lambda>(d, w).
     gather (\<lambda>host_id.
       andthen (on_host host_id (get_receiver_results env)) (\<lambda>receiver_results.
       andthen (on_host host_id (except_value_error (get_sender_results env))) (\<lambda>sender_results.
       ret (host_id, \<lparr>eh_receiver = receiver_results, eh_sender = sender_results\<rparr>)))) (dict_keys (mb_hosts d)) (d, w))"

definition destroy_all_mininet_hosts :: "remote_env \<Rightarrow> unit mn_act" where
  "destroy_all_mininet_hosts env = for_mininet_hosts (host_disconnect env)"

subsection \<open>A trial\<close>

definition mn_add_parameter :: "string \<Rightarrow> param_value \<Rightarrow> unit mn_act" where
  "mn_add_parameter k v = (\<lambda>(d, w). case add_parameter (mb_trial d) k v of
       Inl e \<Rightarrow> (Inl e, (d, w)) | Inr t \<Rightarrow> (Inr (), (d\<lparr>mb_trial := t\<rparr>, w)))"

definition mn_get_parameter :: "string \<Rightarrow> param_value mn_act" where
  "mn_get_parameter k = (\<lambda>(d, w). (get_parameter (mb_trial d) k, (d, w)))"

definition mn_add_token :: "json \<Rightarrow> unit mn_act" where
  "mn_add_token tok = (if hashable tok then modify_fst (\<lambda>d. d\<lparr>mb_tokens := set_add (mb_tokens d) tok\<rparr>) else raise TypeError)"

definition write_local :: "string \<Rightarrow> param_value \<Rightarrow> unit mn_act" where
  "write_local name v = modify_fst (\<lambda>d. d\<lparr>mb_local := mb_local d @ [(name, v)]\<rparr>)"

definition rate_flows_of :: "param_value \<Rightarrow> rate_flow list res" where
  "rate_flows_of v = (case v of PRateFlows fs \<Rightarrow> Inr fs | _ \<Rightarrow> Inl TypeError)"

text \<open>\<open>k_matrix\<close> while the flow is configured: all zero but for the entry of the flow.\<close>

definition k_matrix :: "nat \<Rightarrow> nat \<Rightarrow> pyfloat list res" where
  "k_matrix n flow_id = (if flow_id < n then Inr ((replicate n 0)[flow_id := 1]) else Inl IndexError)"

definition configure_rates :: "nat \<Rightarrow> int list \<Rightarrow> nat \<times> rate_flow \<Rightarrow> unit mn_act" where
  "configure_rates n tag_values_for_flow = (\<lambda>(flow_id, flow).
     andthen (of_res (k_matrix n flow_id)) (\<lambda>ratios.
     andthen (mininet_host_ip (rf_source flow)) (\<lambda>_.
     andthen (mininet_host_ip (rf_destination flow)) (\<lambda>destination_ip.
     on_host (rf_source flow) (with_host (\<lambda>h.
       configure_flow_with_precomputed_transmit_rates (rf_tx_rates flow) destination_ip 50000 ratios (mh_host_id h) 1
         tag_values_for_flow (int flow_id) 1066))))))"

text \<open>\<open>tag_values\<close> and the variable \<open>tag_values_for_flow\<close>, which outlives the loop.\<close>

definition add_bulk_flow ::
    "server \<Rightarrow> (int, string) dict \<Rightarrow> nat \<Rightarrow> (int \<times> int, int) dict \<times> int list \<Rightarrow> nat \<times> rate_flow \<Rightarrow> ((int \<times> int, int) dict \<times> int list) mn_act" where
  "add_bulk_flow srv id_to_dpid n = (\<lambda>(tag_values, _) (flow_id, flow).
     andthen (of_res (simple_paths_to_flow_json (rf_paths flow) tag_values id_to_dpid)) (\<lambda>(flow_json, tag_values_for_flow, tag_values').
     andthen (on_snd (on_snd (install_flow srv flow_json))) (\<lambda>flow_token.
     andthen (mn_add_token flow_token) (\<lambda>_.
     andthen (configure_rates n tag_values_for_flow (flow_id, flow)) (\<lambda>_.
     ret (tag_values', tag_values_for_flow))))))"

definition configure_trial :: "server \<Rightarrow> (int, string) dict \<Rightarrow> rate_flow list \<Rightarrow> unit mn_act" where
  "configure_trial srv id_to_dpid flows =
     andthen (fold_prog (add_bulk_flow srv id_to_dpid (length flows)) ([], []) (enumerate 0 flows)) (\<lambda>(_, tag_values_for_flow).
     andthen (mn_get_parameter ''background-traffic-flow-set'') (\<lambda>v.
     andthen (of_res (rate_flows_of v)) (\<lambda>background.
     each (configure_rates (length flows) tag_values_for_flow) (enumerate 0 background))))"

definition duration_arg :: "param_value \<Rightarrow> unit res" where
  "duration_arg v = (case v of PInt _ \<Rightarrow> Inr () | PFloat _ \<Rightarrow> Inr () | PStr s \<Rightarrow> rbind (py_int s) (\<lambda>_. Inr ()) | _ \<Rightarrow> Inl TypeError)"

definition record_results :: "remote_env \<Rightarrow> json list \<Rightarrow> unit mn_act" where
  "record_results env utilization_results =
     andthen (of_res (sent_rates_over_time utilization_results)) (\<lambda>link_utilization_over_time.
     andthen (of_res (mean_sent_rates utilization_results)) (\<lambda>mean_link_utilization.
     andthen (collect_end_host_results env) (\<lambda>end_host_results.
     andthen (write_local ''./mean-link-utilization.txt'' (PLinkRates mean_link_utilization)) (\<lambda>_.
     andthen (write_local ''./raw-utilization-results.txt'' (PJson (JList utilization_results))) (\<lambda>_.
     andthen (write_local ''./host-utilization-results.txt'' (PEndHosts end_host_results)) (\<lambda>_.
     andthen (mn_add_parameter ''byte-counts-over-time'' (PJson (JList utilization_results))) (\<lambda>_.
     andthen (mn_add_parameter ''link-utilization-over-time'' (PLinkRatesOverTime link_utilization_over_time)) (\<lambda>_.
     andthen (mn_add_parameter ''measured-link-utilization'' (PLinkRates mean_link_utilization)) (\<lambda>_.
     mn_add_parameter ''end-host-results'' (PEndHosts end_host_results))))))))))"

definition mininet_body :: "server \<Rightarrow> matcher \<Rightarrow> remote_env \<Rightarrow> param_value \<Rightarrow> unit mn_act" where
  "mininet_body srv gm env flows =
     andthen (on_snd (on_snd (get_and_validate_onos_topo_x srv gm EXPECTED_TOPO))) (\<lambda>id_to_dpid.
     andthen (on_snd (on_snd (create_mininet_hosts srv id_to_dpid [0, 1]))) (\<lambda>hosts.
     andthen (modify_fst (\<lambda>d. d\<lparr>mb_hosts := hosts\<rparr>)) (\<lambda>_.
     andthen (for_mininet_hosts (mh_start_server env)) (\<lambda>_.
     andthen (of_res (rate_flows_of flows)) (\<lambda>fs.
     andthen (configure_trial srv id_to_dpid fs) (\<lambda>_.
     andthen (on_snd (on_snd (monitor_start srv new_on_monitor))) (\<lambda>traffic_monitor.
     andthen (for_mininet_hosts (mh_start_client env)) (\<lambda>_.
     andthen (mininet_host_ip 0) (\<lambda>_.
     andthen (mn_get_parameter ''duration'') (\<lambda>trial_duration.
     andthen (of_res (duration_arg trial_duration)) (\<lambda>_.
     andthen (for_mininet_hosts (mh_stop_client env)) (\<lambda>_.
     andthen (for_mininet_hosts (mh_stop_server env)) (\<lambda>_.
     andthen (on_snd (on_snd (monitor_stop srv traffic_monitor))) (\<lambda>traffic_monitor'.
     andthen (of_res (get_monitor_statistics traffic_monitor')) (record_results env)))))))))))))))"

definition mininet_cleanup :: "server \<Rightarrow> remote_env \<Rightarrow> unit mn_act" where
  "mininet_cleanup srv env = andthen (destroy_all_mininet_hosts env) (\<lambda>_ (d, w). on_snd (remove_all_flows srv (mb_tokens d)) (d, w))"

definition mininet_run :: "server \<Rightarrow> matcher \<Rightarrow> remote_env \<Rightarrow> param_value \<Rightarrow> unit mn_act" where
  "mininet_run srv gm env flows = try_finally (try_except (mininet_body srv gm env flows) (\<lambda>_. ret ())) (mininet_cleanup srv env)"

definition mn_start :: "trial \<Rightarrow> remote_event list \<Rightarrow> mn_bed" where
  "mn_start t evs = \<lparr>mb_hosts = [], mb_events = evs, mb_tokens = [], mb_trial = t, mb_local = []\<rparr>"

definition conduct_mininet_trial :: "server \<Rightarrow> matcher \<Rightarrow> remote_env \<Rightarrow> (trial \<times> remote_event list) \<times> world \<Rightarrow> unit res \<times> (trial \<times> remote_event list) \<times> world" where
  "conduct_mininet_trial srv gm env = (\<lambda>((t, evs), w).
     case rbind (get_parameter t ''seed-number'') (\<lambda>_. get_parameter t ''flow-set'') of
       Inl e \<Rightarrow> (Inl e, ((t, evs), w))
     | Inr flows \<Rightarrow>
         (case mininet_run srv gm env flows (mn_start t evs, w) of
            (r, (d, w')) \<Rightarrow> (r, ((mb_trial d, mb_events d), w'))))"

end
