(* ===== verification/Mininet_Safety.thy ===== *)
theory Mininet_Safety
  imports Mininet_Tuiti
begin

section \<open>What a mininet trial leaves behind\<close>

text \<open>
  However a trial of \<open>Mininet_Tuiti\<close> goes, its routes are removed, its hosts are disconnected and the processes it knows are signalled,
  as long as the hosts can be reached for that.  Disconnecting is not protected: a host that cannot be reached in the end leaves
  all routes installed.
\<close>

subsection \<open>Disconnecting\<close>

text \<open>What the clean-up relies on: a connection can be made, and a signal can be sent.  Everything else may fail.\<close>

definition disconnects :: "remote_env \<Rightarrow> bool" where
  "disconnects env \<longleftrightarrow> (\<forall>evs ip port. ssh_connect env evs ip port = Inr ()) \<and> (\<forall>evs pid. ssh_exec env evs (kill_command pid) = Inr ())"

definition host_processes :: "mininet_host \<Rightarrow> int list" where
  "host_processes h = (case mh_server_proc h of None \<Rightarrow> [] | Some pid \<Rightarrow> [pid]) @ mh_client_procs h"

definition signalled :: "mininet_host \<Rightarrow> remote_event list \<Rightarrow> bool" where
  "signalled h evs \<longleftrightarrow> (\<forall>pid \<in> set (host_processes h). Executed (kill_command pid) \<in> set evs)"

definition let_go :: "mininet_host \<Rightarrow> remote_event list \<Rightarrow> bool" where
  "let_go h evs \<longleftrightarrow> \<not> mh_ssh_tunnel h \<and> signalled h evs"

lemma run_connected:
  assumes "disconnects env"
  shows "\<exists>b evs'. host_run env (kill_command pid) (h, evs) = (Inr (), (h\<lparr>mh_ssh_tunnel := b\<rparr>, evs')) \<and>
    set evs \<subseteq> set evs' \<and> Executed (kill_command pid) \<in> set evs'"
proof (cases "mh_ssh_tunnel h")
  case True
  have "host_run env (kill_command pid) (h, evs) = (Inr (), (h\<lparr>mh_ssh_tunnel := mh_ssh_tunnel h\<rparr>, evs @ [Executed (kill_command pid)]))"
    using True assms by (simp add: host_run_def exec_on_remote_def ensure_connected_def with_host_def andthen_def remote_op_def disconnects_def)
  then show ?thesis by fastforce
next
  case False
  have "host_run env (kill_command pid) (h, evs) = (Inr (), (h\<lparr>mh_ssh_tunnel := True\<rparr>,
      (evs @ [Connected (mh_host_ip h) (mh_ssh_port h)]) @ [Executed (kill_command pid)]))"
    using False assms by (simp add: host_run_def exec_on_remote_def ensure_connected_def host_connect_def with_host_def andthen_def remote_op_def
        update_host_def ret_def disconnects_def)
  then show ?thesis by fastforce
qed

lemma kill_all:
  assumes "disconnects env"
  shows "\<exists>b evs'. each (\<lambda>pid. host_run env (kill_command pid)) pids (h, evs) = (Inr (), (h\<lparr>mh_ssh_tunnel := b\<rparr>, evs')) \<and>
    set evs \<subseteq> set evs' \<and> (\<forall>pid \<in> set pids. Executed (kill_command pid) \<in> set evs')"
proof (induction pids arbitrary: h evs)
  case Nil
  have "h\<lparr>mh_ssh_tunnel := mh_ssh_tunnel h\<rparr> = h" by simp
  then show ?case by (metis each.simps(1) empty_iff list.set(1) ret_def subset_refl)
next
  case (Cons pid pids)
  obtain b evs1 where one: "host_run env (kill_command pid) (h, evs) = (Inr (), (h\<lparr>mh_ssh_tunnel := b\<rparr>, evs1))"
      "set evs \<subseteq> set evs1" "Executed (kill_command pid) \<in> set evs1" using run_connected [OF assms] by blast
  obtain b' evs' where rest: "each (\<lambda>pid. host_run env (kill_command pid)) pids (h\<lparr>mh_ssh_tunnel := b\<rparr>, evs1) =
      (Inr (), (h\<lparr>mh_ssh_tunnel := b, mh_ssh_tunnel := b'\<rparr>, evs'))" "set evs1 \<subseteq> set evs'" "\<forall>pid \<in> set pids. Executed (kill_command pid) \<in> set evs'"
    using Cons.IH [of "h\<lparr>mh_ssh_tunnel := b\<rparr>" evs1] by blast
  show ?case
    by (rule exI [of _ b'], rule exI [of _ evs']) (use one rest in \<open>auto simp: andthen_run(1) [where m = \<open>host_run env (kill_command pid)\<close>, OF one(1)]\<close>)
qed

lemma disconnect_run:
  assumes "disconnects env"
  shows "\<exists>evs'. host_disconnect env (h, evs) = (Inr (), (h\<lparr>mh_ssh_tunnel := False\<rparr>, evs')) \<and> set evs \<subseteq> set evs' \<and>
    let_go (h\<lparr>mh_ssh_tunnel := False\<rparr>) evs'"
proof -
  have "\<exists>b evs1. mh_stop_server env (h, evs) = (Inr (), (h\<lparr>mh_ssh_tunnel := b\<rparr>, evs1)) \<and> set evs \<subseteq> set evs1 \<and>
      (\<forall>pid. mh_server_proc h = Some pid \<longrightarrow> Executed (kill_command pid) \<in> set evs1)"
  proof (cases "mh_server_proc h")
    case None
    then show ?thesis by (intro exI [of _ "mh_ssh_tunnel h"] exI [of _ evs]) (simp add: mh_stop_server_def with_host_def ret_def)
  next
    case (Some pid)
    then show ?thesis using run_connected [OF assms, of pid h evs] by (simp add: mh_stop_server_def with_host_def)
  qed
  then obtain b evs1 where server: "mh_stop_server env (h, evs) = (Inr (), (h\<lparr>mh_ssh_tunnel := b\<rparr>, evs1))" "set evs \<subseteq> set evs1"
      "\<forall>pid. mh_server_proc h = Some pid \<longrightarrow> Executed (kill_command pid) \<in> set evs1" by blast
  obtain b' evs2 where clients: "mh_stop_client env (h\<lparr>mh_ssh_tunnel := b\<rparr>, evs1) = (Inr (), (h\<lparr>mh_ssh_tunnel := b'\<rparr>, evs2))"
      "set evs1 \<subseteq> set evs2" "\<forall>pid \<in> set (mh_client_procs h). Executed (kill_command pid) \<in> set evs2"
    using kill_all [OF assms, of "mh_client_procs h" "h\<lparr>mh_ssh_tunnel := b\<rparr>" evs1] by (auto simp: mh_stop_client_def with_host_def)
  have "host_disconnect env (h, evs) = (Inr (), (h\<lparr>mh_ssh_tunnel := False\<rparr>, evs2 @ (if b' then [Closed] else [])))"
    using server(1) clients(1) by (simp add: host_disconnect_def andthen_def with_host_def remote_op_def update_host_def ret_def)
  then show ?thesis using server(2,3) clients(2,3) by (auto simp: let_go_def signalled_def host_processes_def split: option.splits)
qed

lemma let_go_mono: "let_go h evs \<Longrightarrow> set evs \<subseteq> set evs' \<Longrightarrow> let_go h evs'"
  by (auto simp: let_go_def signalled_def)

lemma on_host_disconnect:
  assumes "disconnects env" and "map_of (mb_hosts d) k = Some h"
  shows "\<exists>evs'. on_host k (host_disconnect env) (d, w) = (Inr (),
      (d\<lparr>mb_hosts := dict_set (mb_hosts d) k (h\<lparr>mh_ssh_tunnel := False\<rparr>), mb_events := evs'\<rparr>, w)) \<and> set (mb_events d) \<subseteq> set evs' \<and>
      let_go (h\<lparr>mh_ssh_tunnel := False\<rparr>) evs'"
  using disconnect_run [OF assms(1), of h "mb_events d"] assms(2) by (auto simp: on_host_def dict_get_def)

lemma destroy_run:
  assumes "disconnects env"
  shows "set ks \<subseteq> set (dict_keys (mb_hosts d)) \<Longrightarrow> \<exists>d'. each (\<lambda>k. on_host k (host_disconnect env)) ks (d, w) = (Inr (), (d', w)) \<and>
    mb_tokens d' = mb_tokens d \<and> mb_trial d' = mb_trial d \<and> set (dict_keys (mb_hosts d')) = set (dict_keys (mb_hosts d)) \<and> set (mb_events d) \<subseteq> set (mb_events d') \<and>
    (\<forall>k h. map_of (mb_hosts d') k = Some h \<longrightarrow> let_go h (mb_events d') \<or> (k \<notin> set ks \<and> map_of (mb_hosts d) k = Some h))"
proof (induction ks arbitrary: d)
  case (Cons k ks)
  obtain h where h: "map_of (mb_hosts d) k = Some h" using Cons.prems by (cases "map_of (mb_hosts d) k") (auto simp: map_of_eq_None_iff)
  obtain evs where one: "on_host k (host_disconnect env) (d, w) = (Inr (),
      (d\<lparr>mb_hosts := dict_set (mb_hosts d) k (h\<lparr>mh_ssh_tunnel := False\<rparr>), mb_events := evs\<rparr>, w))" "set (mb_events d) \<subseteq> set evs"
      "let_go (h\<lparr>mh_ssh_tunnel := False\<rparr>) evs" using on_host_disconnect [OF assms h] by blast
  let ?d = "d\<lparr>mb_hosts := dict_set (mb_hosts d) k (h\<lparr>mh_ssh_tunnel := False\<rparr>), mb_events := evs\<rparr>"
  have keys: "set (dict_keys (mb_hosts ?d)) = set (dict_keys (mb_hosts d))"
    using h by (auto simp: dom_map_of_conv_image_fst [symmetric] dom_def)
  obtain d' where rest: "each (\<lambda>k. on_host k (host_disconnect env)) ks (?d, w) = (Inr (), (d', w))" "mb_tokens d' = mb_tokens d" "mb_trial d' = mb_trial d"
      "set (dict_keys (mb_hosts d')) = set (dict_keys (mb_hosts ?d))" "set evs \<subseteq> set (mb_events d')"
      "\<forall>k h. map_of (mb_hosts d') k = Some h \<longrightarrow> let_go h (mb_events d') \<or> (k \<notin> set ks \<and> map_of (mb_hosts ?d) k = Some h)"
    using Cons.IH [of ?d] Cons.prems keys by auto
  have "let_go h' (mb_events d') \<or> (k' \<notin> set (k # ks) \<and> map_of (mb_hosts d) k' = Some h')" if "map_of (mb_hosts d') k' = Some h'" for k' h'
    using rest(6) that let_go_mono [OF one(3) rest(5)] by (fastforce split: if_splits)
  then show ?case using rest one keys by (intro exI [of _ d']) (auto simp: andthen_run(1) [where m = \<open>on_host k (host_disconnect env)\<close>, OF one(1)])
qed (auto simp: ret_def)

subsection \<open>Routes\<close>

text \<open>Whatever route is held more than at the start has its token in the variable that the clean-up reads.\<close>

definition routes_accounted :: "server \<Rightarrow> world \<Rightarrow> mn_bed \<times> world \<Rightarrow> bool" where
  "routes_accounted srv w0 = (\<lambda>(d, w). gained srv (Route ` set (mb_tokens d)) w0 w \<and> (\<forall>t \<in> set (mb_tokens d). is_ok (token_text t)))"

definition accounts :: "server \<Rightarrow> world \<Rightarrow> 'a mn_act \<Rightarrow> bool" where
  "accounts srv w0 m \<longleftrightarrow> triple (routes_accounted srv w0) m (\<lambda>_. routes_accounted srv w0) (routes_accounted srv w0)"

named_theorems accounts_intros \<open>steps of a trial that keep account of the routes\<close>

lemma accountsI:
  assumes "\<And>s r s'. routes_accounted srv w0 s \<Longrightarrow> m s = (r, s') \<Longrightarrow> routes_accounted srv w0 s'"
  shows "accounts srv w0 m"
  unfolding accounts_def by (rule tripleI) (use assms in blast)+

lemma accountsD: "accounts srv w0 m \<Longrightarrow> routes_accounted srv w0 s \<Longrightarrow> m s = (r, s') \<Longrightarrow> routes_accounted srv w0 s'"
  unfolding accounts_def by (cases r) (auto dest: tripleD)

lemma accounts_andthen [accounts_intros]:
  assumes "accounts srv w0 m" and "\<And>x. accounts srv w0 (f x)"
  shows "accounts srv w0 (andthen m f)"
  using assms unfolding accounts_def by (blast intro: triple_andthen)

lemma accounts_pure [accounts_intros]: "accounts srv w0 (ret x)" "accounts srv w0 (of_res r)" "accounts srv w0 (raise e)"
  by (auto simp: raise_def intro!: accountsI)

lemma accounts_each [accounts_intros]: "(\<And>x. accounts srv w0 (f x)) \<Longrightarrow> accounts srv w0 (each f xs)"
  by (induction xs) (auto intro: accounts_intros)

lemma accounts_gather [accounts_intros]: "(\<And>x. accounts srv w0 (f x)) \<Longrightarrow> accounts srv w0 (gather f xs)"
  by (induction xs) (auto intro!: accounts_intros)

lemma accounts_fold_prog [accounts_intros]: "(\<And>acc x. accounts srv w0 (f acc x)) \<Longrightarrow> accounts srv w0 (fold_prog f acc xs)"
  by (induction xs arbitrary: acc) (auto intro!: accounts_intros)

text \<open>A step that reads a variable first.\<close>

lemma accounts_read [accounts_intros]: "(\<And>d. accounts srv w0 (f d)) \<Longrightarrow> accounts srv w0 (\<lambda>(d, w). f d (d, w))"
  by (rule accountsI) (auto dest: accountsD split: prod.splits)

lemma accounts_quiet:
  assumes "\<And>w r w'. m w = (r, w') \<Longrightarrow> gained srv {} w w'"
  shows "accounts srv w0 (on_snd m)"
proof (rule accountsI)
  fix s r s' assume acc: "routes_accounted srv w0 s" and run: "on_snd m s = (r, s')"
  obtain d w w' where s: "s = (d, w)" "s' = (d, w')" "m w = (r, w')" using run by (auto simp: on_snd_def split: prod.splits)
  show "routes_accounted srv w0 s'"
    using acc gained_nothing_trans [OF _ assms [OF s(3)], of _ w0] unfolding s routes_accounted_def prod.case by blast
qed

lemma accounts_local:
  assumes "\<And>d w r s'. m (d, w) = (r, s') \<Longrightarrow> \<exists>d'. s' = (d', w) \<and> mb_tokens d' = mb_tokens d"
  shows "accounts srv w0 m"
  by (rule accountsI) (use assms in \<open>fastforce simp: routes_accounted_def split: prod.splits\<close>)

lemma accounts_locals [accounts_intros]:
  "accounts srv w0 (on_host k m)" "accounts srv w0 (mininet_host_ip k)" "accounts srv w0 (mn_add_parameter p v)"
  "accounts srv w0 (mn_get_parameter p)" "accounts srv w0 (write_local p v)" "accounts srv w0 (modify_fst (\<lambda>d. d\<lparr>mb_hosts := hosts\<rparr>))"
  by (rule accounts_local; auto simp: on_host_def mininet_host_ip_def mn_add_parameter_def mn_get_parameter_def write_local_def split: sum.splits prod.splits)+

lemma accounts_hosts [accounts_intros]: "accounts srv w0 (for_mininet_hosts m)"
  unfolding for_mininet_hosts_def by (intro accounts_intros)

lemma accounts_requests [accounts_intros]:
  "accounts srv w0 (on_snd (on_snd (get_and_validate_onos_topo_x srv gm g)))"
  "accounts srv w0 (on_snd (on_snd (create_mininet_hosts srv ids ks)))"
  "accounts srv w0 (on_snd (on_snd (monitor_start srv mon)))" "accounts srv w0 (on_snd (on_snd (monitor_stop srv mon)))"
proof -
  have "only_gets (create_mininet_hosts srv ids ks)"
    unfolding create_mininet_hosts_def get_nw_hosts_def
    by (intro only_gets_andthen only_gets_ret only_gets_send_checked) (simp add: onos_get_def)
  then show "accounts srv w0 (on_snd (on_snd (create_mininet_hosts srv ids ks)))" by (intro accounts_quiet) (rule gets_gain_nothing)
  show "accounts srv w0 (on_snd (on_snd (get_and_validate_onos_topo_x srv gm g)))"
    by (intro accounts_quiet) (rule gets_gain_nothing [OF only_gets_topology])
  show "accounts srv w0 (on_snd (on_snd (monitor_start srv mon)))" "accounts srv w0 (on_snd (on_snd (monitor_stop srv mon)))"
    by (intro accounts_quiet, erule monitor_quiet)+
qed

lemma accounts_install:
  assumes "routes_named srv"
  shows "accounts srv w0 (andthen (on_snd (on_snd (install_flow srv j))) mn_add_token)"
proof (rule accountsI)
  fix s r s' assume acc: "routes_accounted srv w0 s" and run: "andthen (on_snd (on_snd (install_flow srv j))) mn_add_token s = (r, s')"
  obtain d w where s: "s = (d, w)" by (cases s)
  obtain r1 w1 where one: "on_snd (install_flow srv j) w = (r1, w1)" by (metis surj_pair)
  show "routes_accounted srv w0 s'"
  proof (cases r1)
    case (Inl e)
    then have "s' = (d, w1)" using run one by (simp add: s andthen_def on_snd_run)
    then show ?thesis using acc gained_nothing_trans [OF _ install_route(2) [OF assms one Inl]] by (auto simp: s routes_accounted_def)
  next
    case (Inr tok)
    note new = install_route(1) [OF assms one Inr]
    have "s' = (d\<lparr>mb_tokens := set_add (mb_tokens d) tok\<rparr>, w1)"
      using run one Inr token_hashable new by (simp add: s andthen_def on_snd_run mn_add_token_def)
    then show ?thesis using acc gained_trans [OF _ conjunct1 [OF new]] new by (auto simp: s routes_accounted_def)
  qed
qed

lemma accounts_configure [accounts_intros]: "accounts srv w0 (configure_rates n tags x)"
  unfolding configure_rates_def by (cases x) (auto intro!: accounts_intros)

lemma accounts_installed:
  assumes "routes_named srv" and "accounts srv w0 f"
  shows "accounts srv w0 (andthen (on_snd (on_snd (install_flow srv j))) (\<lambda>tok. andthen (mn_add_token tok) (\<lambda>_. f)))"
  unfolding andthen_assoc [symmetric] by (rule accounts_andthen [OF accounts_install [OF assms(1)] assms(2)])

lemma accounts_add_bulk_flow [accounts_intros]:
  assumes "routes_named srv"
  shows "accounts srv w0 (add_bulk_flow srv ids n acc x)"
  unfolding add_bulk_flow_def case_prod_unfold
  by (rule accounts_andthen [OF accounts_pure(2)]) (intro accounts_installed assms accounts_intros)

lemma accounts_body:
  assumes "routes_named srv"
  shows "accounts srv w0 (mininet_body srv gm env flows)"
proof -
  have "accounts srv w0 (configure_trial srv ids fs)" for ids fs
    unfolding configure_trial_def by (auto intro!: accounts_intros assms split: prod.splits)
  moreover have "accounts srv w0 (collect_end_host_results env)"
    unfolding collect_end_host_results_def by (intro accounts_intros)
  then have "accounts srv w0 (record_results env u)" for u unfolding record_results_def by (intro accounts_intros)
  ultimately show ?thesis unfolding mininet_body_def by (intro accounts_intros)
qed

subsection \<open>The clean-up\<close>

lemma cleanup_outcome:
  assumes "routes_removable srv" and "disconnects env" and "routes_accounted srv w0 (d, w)"
  shows "\<exists>d' w'. mininet_cleanup srv env (d, w) = (Inr (), (d', w')) \<and> gained srv {} w0 w' \<and> mb_trial d' = mb_trial d \<and>
    (\<forall>k h. map_of (mb_hosts d') k = Some h \<longrightarrow> let_go h (mb_events d'))"
proof -
  obtain d' where hosts: "destroy_all_mininet_hosts env (d, w) = (Inr (), (d', w))" "mb_tokens d' = mb_tokens d" "mb_trial d' = mb_trial d"
      "set (dict_keys (mb_hosts d')) = set (dict_keys (mb_hosts d))"
      "\<forall>k h. map_of (mb_hosts d') k = Some h \<longrightarrow> let_go h (mb_events d') \<or> (k \<notin> set (dict_keys (mb_hosts d)) \<and> map_of (mb_hosts d) k = Some h)"
    using destroy_run [OF assms(2), of "dict_keys (mb_hosts d)" d w] unfolding destroy_all_mininet_hosts_def for_mininet_hosts_def by fastforce
  have gone: "let_go h (mb_events d')" if "map_of (mb_hosts d') k = Some h" for k h
    using hosts(5) [rule_format, OF that] by (force dest: map_of_SomeD)
  have acc: "gained srv (Route ` set (mb_tokens d)) w0 w" "\<forall>t \<in> set (mb_tokens d). is_ok (token_text t)"
    using assms(3) by (simp_all add: routes_accounted_def)
  obtain r w' where flows: "remove_all_flows srv (mb_tokens d) w = (r, w')" by (metis surj_pair)
  note rel = remove_flows_releases [OF assms(1) acc(2) flows]
  have "mininet_cleanup srv env (d, w) = (Inr (), (d', w'))"
    using flows rel(1) hosts(2)
    by (simp add: mininet_cleanup_def on_snd_run andthen_run(1) [where m = \<open>destroy_all_mininet_hosts env\<close>, OF hosts(1)])
  moreover have "gained srv {} w0 w'" using gained_released [of srv "{}" "Route ` set (mb_tokens d)"] acc(1) rel(2) by simp
  ultimately show ?thesis using hosts(3) gone by blast
qed

lemma mininet_run_outcome:
  assumes "routes_named srv" and "routes_removable srv" and "disconnects env"
  shows "\<exists>d' w'. mininet_run srv gm env flows (mn_start t evs, w) = (Inr (), (d', w')) \<and> gained srv {} w w' \<and>
    (\<forall>k h. map_of (mb_hosts d') k = Some h \<longrightarrow> let_go h (mb_events d'))"
proof -
  have start: "routes_accounted srv w (mn_start t evs, w)" by (simp add: routes_accounted_def mn_start_def)
  obtain r d1 w1 where body: "mininet_body srv gm env flows (mn_start t evs, w) = (r, (d1, w1))" by (metis surj_pair)
  from accountsD [OF accounts_body [OF assms(1)] start body] have acc: "routes_accounted srv w (d1, w1)" .
  have tried: "try_except (mininet_body srv gm env flows) (\<lambda>_. ret ()) (mn_start t evs, w) = (Inr (), (d1, w1))"
    using body by (cases r) (simp_all add: try_except_def ret_def)
  from cleanup_outcome [OF assms(2,3) acc] obtain d' w' where "mininet_cleanup srv env (d1, w1) = (Inr (), (d', w'))" "gained srv {} w w'"
    "\<forall>k h. map_of (mb_hosts d') k = Some h \<longrightarrow> let_go h (mb_events d')" by blast
  then show ?thesis unfolding mininet_run_def using tried by (auto simp: try_finally_def andthen_def)
qed

subsection \<open>Properties\<close>


definition ex_deaf_remote :: remote_env where
  "ex_deaf_remote = \<lparr>ssh_connect = (\<lambda>_ _ _. Inr ()), ssh_exec = (\<lambda>_ _. Inr ()), scp_get = (\<lambda>_ _. Inl FileNotFoundError), scp_put = (\<lambda>_ _. Inr ())\<rparr>"


text \<open>
  A host that cannot be reached any more ends the clean-up: the exception of the signal is raised out of the \<open>finally\<close> block, the hosts after it stay
  connected, and no request is sent, so every route stays installed.
\<close>

theorem unreachable_host_keeps_routes:
  assumes "mb_hosts d = (k, h) # others" and "mh_ssh_tunnel h" and "mh_server_proc h = Some pid" and "\<And>evs. ssh_exec env evs (kill_command pid) = Inl e"
  shows "mininet_cleanup srv env (d, w) = (Inl e, (d\<lparr>mb_events := mb_events d @ [Executed (kill_command pid)]\<rparr>, w))"
proof -
  have "host_disconnect env (h, mb_events d) = (Inl e, (h, mb_events d @ [Executed (kill_command pid)]))"
    using assms(2-4) by (simp add: host_disconnect_def mh_stop_server_def with_host_def host_run_def exec_on_remote_def ensure_connected_def andthen_def remote_op_def ret_def)
  moreover have "dict_set ((k, h) # others) k h = (k, h) # others" by (simp add: dict_set_self)
  ultimately have "on_host k (host_disconnect env) (d, w) = (Inl e, (d\<lparr>mb_events := mb_events d @ [Executed (kill_command pid)]\<rparr>, w))"
    using assms(1) by (simp add: on_host_def dict_get_def)
  then show ?thesis by (simp add: mininet_cleanup_def destroy_all_mininet_hosts_def for_mininet_hosts_def assms(1) andthen_def)
qed

end
