(* ===== verification/Mininet_Main.thy ===== *)
theory Mininet_Main
  imports Mininet_Safety
begin

section \<open>The mininet program\<close>

text \<open>
  Models \<open>main\<close> of \<open>rest_client/mininet_tuiti.py\<close> with \<open>build_tuiti_trial_provider\<close> and the parameters of \<open>tuiti/config.py\<close>: open the repository, make
  a trial of every solver file of the directory, conduct the trials one after the other and store the provider.
\<close>

definition tuiti_base :: fpath where
  "tuiti_base = [''home'', ''alexj'', ''results-repositories'', ''rerun-after-approximate-methods'']"

definition build_tuiti_trial_provider ::
    "server \<Rightarrow> matcher \<Rightarrow> 'q randint \<Rightarrow> (fa_node \<Rightarrow> fa_node \<Rightarrow> fa_node list list res) \<Rightarrow> (string \<times> tuiti_parameters) list \<Rightarrow> 'q \<Rightarrow> trial_provider io" where
  "build_tuiti_trial_provider srv gm randint node_disjoint_paths entries q =
     andthen (get_and_validate_onos_topo_x srv gm EXPECTED_TOPO) (\<lambda>_.
     of_res (rbind (node_disjoint_paths 0 1) (\<lambda>_.
       rbind (batch_from_directory randint node_disjoint_paths entries q) (\<lambda>trials.
       Inr (foldl add_trial (new_trial_provider ''tuiti-trial-provider'') trials)))))"

text \<open>Before a trial is conducted the number of its flows is printed.\<close>

fun conduct_tuiti_trials :: "server \<Rightarrow> matcher \<Rightarrow> remote_env \<Rightarrow> trial list \<Rightarrow> (remote_event list \<times> world, trial list) prog" where
  "conduct_tuiti_trials srv gm env [] = ret []"
| "conduct_tuiti_trials srv gm env (t # ts) = (\<lambda>(evs, w). case rbind (get_parameter t ''flow-set'') rate_flows_of of
       Inl e \<Rightarrow> (Inl e, (evs, w))
     | Inr _ \<Rightarrow> (case conduct_mininet_trial srv gm env ((t, evs), w) of
         (Inl e, ((_, evs'), w')) \<Rightarrow> (Inl e, (evs', w'))
       | (Inr _, ((t', evs'), w')) \<Rightarrow> andthen (conduct_tuiti_trials srv gm env ts) (\<lambda>ts'. ret (t' # ts')) (evs', w')))"

definition mininet_main ::
    "server \<Rightarrow> matcher \<Rightarrow> remote_env \<Rightarrow> 'q randint \<Rightarrow> (fa_node \<Rightarrow> fa_node \<Rightarrow> fa_node list list res) \<Rightarrow> (string \<times> tuiti_parameters) list \<Rightarrow> fs \<Rightarrow> 'q
      \<Rightarrow> (remote_event list \<times> world, fs) prog" where
  "mininet_main srv gm env randint node_disjoint_paths entries fs q =
     andthen (of_res (create_repository fs tuiti_base ''/provider-name'' ''tuiti-testing'')) (\<lambda>(fs1, results_repository).
     andthen (on_snd (on_snd (build_tuiti_trial_provider srv gm randint node_disjoint_paths entries q))) (\<lambda>tp.
     andthen (conduct_tuiti_trials srv gm env (tp_trials tp)) (\<lambda>ts.
     of_res (rbind (write_trial_provider results_repository fs1 [(''provider-name'', provider_name tp)] (tp\<lparr>tp_trials := ts\<rparr>) True False)
       (\<lambda>(fs2, _). Inr fs2)))))"

subsection \<open>The parts\<close>

definition solver_files :: "(string \<times> tuiti_parameters) list \<Rightarrow> tuiti_parameters list" where
  "solver_files entries = map snd (filter (\<lambda>(suffix, _). suffix = ''.p'') entries)"

text \<open>What conducting a trial needs of it.\<close>

definition tuiti_trial :: "trial \<Rightarrow> bool" where
  "tuiti_trial t \<longleftrightarrow> (\<exists>seed flows. get_parameter t ''seed-number'' = Inr seed \<and> get_parameter t ''flow-set'' = Inr (PRateFlows flows))"

lemma batch_made:
  assumes "node_disjoint_paths 0 1 = Inr paths"
  shows "\<forall>p \<in> set (solver_files entries). tuiti_ok p \<and> tu_number_of_paths p \<le> int (length paths) \<Longrightarrow>
    \<exists>ts. batch_from_directory randint node_disjoint_paths entries q = Inr ts \<and> length ts = length (solver_files entries) \<and> (\<forall>t \<in> set ts. tuiti_trial t)"
proof (induction entries arbitrary: q)
  case (Cons x entries)
  obtain suffix p where x: "x = (suffix, p)" by (cases x)
  let ?q = "if suffix = ''.p'' then snd (new_trial randint (tu_trial_type p) q) else q"
  have "\<forall>p \<in> set (solver_files entries). tuiti_ok p \<and> tu_number_of_paths p \<le> int (length paths)" using Cons.prems by (auto simp: solver_files_def)
  from Cons.IH [OF this, of ?q] obtain ts where ts: "batch_from_directory randint node_disjoint_paths entries ?q = Inr ts"
    "length ts = length (solver_files entries)" "\<forall>t \<in> set ts. tuiti_trial t" by blast
  show ?case
  proof (cases "suffix = ''.p''")
    case True
    then have p: "tuiti_ok p" "tu_number_of_paths p \<le> int (length paths)" using Cons.prems by (simp_all add: x solver_files_def)
    from tuiti_trial_made [where node_disjoint_paths = node_disjoint_paths and randint = randint and q = q, OF p(1) assms p(2)]
    obtain t where "from_solver_file randint node_disjoint_paths p q = Inr t" "tuiti_trial t" by (auto simp: tuiti_trial_def)
    then show ?thesis using ts True by (simp add: x solver_files_def)
  qed (use ts in \<open>simp add: x solver_files_def\<close>)
qed (simp add: solver_files_def)

lemma added_trials: "tp_trials (foldl add_trial tp ts) = tp_trials tp @ ts" "provider_name (foldl add_trial tp ts) = provider_name tp"
  by (induction ts arbitrary: tp) (simp_all add: add_trial_def)

lemma tuiti_trials_conducted:
  assumes "routes_named srv" and "routes_removable srv" and "disconnects env"
  shows "\<forall>t \<in> set ts. tuiti_trial t \<Longrightarrow>
    \<exists>ts' evs' w'. conduct_tuiti_trials srv gm env ts (evs, w) = (Inr ts', (evs', w')) \<and> length ts' = length ts \<and> gained srv {} w w'"
proof (induction ts arbitrary: evs w)
  case (Cons t ts)
  obtain seed flows where t: "get_parameter t ''seed-number'' = Inr seed" "get_parameter t ''flow-set'' = Inr (PRateFlows flows)"
    using Cons.prems by (auto simp: tuiti_trial_def)
  obtain d' w1 where run: "mininet_run srv gm env (PRateFlows flows) (mn_start t evs, w) = (Inr (), (d', w1))" "gained srv {} w w1"
    using mininet_run_outcome [OF assms] by blast
  obtain ts' evs' w' where rest: "conduct_tuiti_trials srv gm env ts (mb_events d', w1) = (Inr ts', (evs', w'))" "length ts' = length ts" "gained srv {} w1 w'"
    using Cons.IH Cons.prems by (meson list.set_intros(2))
  have "conduct_tuiti_trials srv gm env (t # ts) (evs, w) = (Inr (mb_trial d' # ts'), (evs', w'))"
    using t run(1) rest(1) by (simp add: rate_flows_of_def conduct_mininet_trial_def andthen_def ret_def)
  then show ?case using rest(2) gained_nothing_trans [OF run(2) rest(3)] by auto
qed (simp add: ret_def)

subsection \<open>Property\<close>



end
