(* ===== verification/Mininet_Paths.thy ===== *)
theory Mininet_Paths
  imports Mininet_Tuiti
begin

section \<open>The paths of bulk transfers\<close>

text \<open>
  What \<open>configure_trial\<close> sets up for a trial of \<open>Tuiti_Trial\<close>: all flows have the same end points and the same disjoint paths, the flows of the
  trial are installed one by one under consecutive tags, and a flow, of the trial or of the background, is to send on the path with
  its number.  The last step from the configuration to a packet is made by the traffic generator: it reads the arguments, draws a number and looks
  up the tag.  The property puts the three together.
\<close>

subsection \<open>The requests\<close>

definition bulk_path :: "(int, string) dict \<Rightarrow> int list \<Rightarrow> bool" where
  "bulk_path ids p \<longleftrightarrow> p \<noteq> [] \<and> hd p = 0 \<and> last p = 1 \<and> (\<forall>x \<in> set p. map_of ids x \<noteq> None)"

definition dpids :: "(int, string) dict \<Rightarrow> int list \<Rightarrow> string list" where
  "dpids ids p = map (\<lambda>x. the (map_of ids x)) p"

definition path_entry :: "int \<Rightarrow> string list \<Rightarrow> json" where
  "path_entry tag nodes = JObj [(''nodes'', list_enc JStr nodes), (''tagValue'', JInt tag)]"

definition route_request :: "json \<Rightarrow> http_request" where
  "route_request body = \<lparr>rq_method = POST, rq_url = onos_url @ ''multipath-routing/v1/add-route'', rq_body = Some body\<rparr>"

definition bulk_json :: "(int, string) dict \<Rightarrow> int list list \<Rightarrow> int \<Rightarrow> json" where
  "bulk_json ids paths tag = JObj [(''paths'', JList (map (\<lambda>(j, p). path_entry (tag + int j) (dpids ids p)) (enumerate 0 paths)))]"

text \<open>A tag is installed for the switches of a path.\<close>

definition tag_leads :: "http_request list \<Rightarrow> int \<Rightarrow> string list \<Rightarrow> bool" where
  "tag_leads rqs tag nodes \<longleftrightarrow> (\<exists>entries. route_request (JObj [(''paths'', JList entries)]) \<in> set rqs \<and> path_entry tag nodes \<in> set entries)"

definition consecutive :: "int \<Rightarrow> nat \<Rightarrow> int list" where
  "consecutive tag n = map (\<lambda>j. tag + int j) [0..<n]"

lemma path_json_step:
  assumes "bulk_path ids p"
  shows "path_to_json ids (pd, ts, tv) p = (let tag = dict_get_default tv (0, 1) 0 in
    Inr (pd @ [path_entry tag (dpids ids p)], ts @ [tag], dict_set tv (0, 1) (tag + 1)))"
proof -
  have nodes: "map_res (dict_get ids) p = Inr (dpids ids p)"
    using assms by (auto simp: bulk_path_def dpids_def dict_get_def intro!: map_res_Inr_map)
  have "py_nth p 0 = Inr 0" "py_nth p (- 1) = Inr 1"
    using assms py_nth_last [of p] py_nth_first by (auto simp: bulk_path_def neq_Nil_conv)
  then show ?thesis using nodes by (simp add: path_to_json_def Let_def path_entry_def)
qed

lemma paths_json_run:
  assumes "\<forall>p \<in> set paths. bulk_path ids p" and "dict_get_default tv (0, 1) 0 = tag + int n"
  shows "\<exists>tv'. fold_res (path_to_json ids) (pd, ts, tv) paths =
      Inr (pd @ map (\<lambda>(j, p). path_entry (tag + int j) (dpids ids p)) (enumerate n paths), ts @ map (\<lambda>j. tag + int j) [n..<n + length paths], tv') \<and>
    dict_get_default tv' (0, 1) 0 = tag + int (n + length paths)"
  using assms
proof (induction paths arbitrary: pd ts tv n)
  case (Cons p paths)
  let ?tv = "dict_set tv (0, 1) (tag + int n + 1)"
  have up: "[n..<n + length (p # paths)] = n # [Suc n..<Suc n + length paths]" by (simp add: upt_conv_Cons del: upt_Suc)
  have "dict_get_default ?tv (0, 1) 0 = tag + int (Suc n)" by (simp add: dict_get_default_def)
  from Cons.IH [OF _ this, of "pd @ [path_entry (tag + int n) (dpids ids p)]" "ts @ [tag + int n]"] Cons.prems obtain tv' where
    rest: "fold_res (path_to_json ids) (pd @ [path_entry (tag + int n) (dpids ids p)], ts @ [tag + int n], ?tv) paths =
      Inr (pd @ map (\<lambda>(j, p). path_entry (tag + int j) (dpids ids p)) (enumerate n (p # paths)), ts @ map (\<lambda>j. tag + int j) [n..<n + length (p # paths)], tv')"
    "dict_get_default tv' (0, 1) 0 = tag + int (n + length (p # paths))"
    unfolding up by auto
  show ?case using Cons.prems rest by (intro exI [of _ tv']) (simp add: path_json_step Let_def)
qed simp

lemma flow_json_run:
  assumes "\<forall>p \<in> set paths. bulk_path ids p"
  shows "\<exists>tv'. simple_paths_to_flow_json paths tv ids =
      Inr (bulk_json ids paths (dict_get_default tv (0, 1) 0), consecutive (dict_get_default tv (0, 1) 0) (length paths), tv') \<and>
    dict_get_default tv' (0, 1) 0 = dict_get_default tv (0, 1) 0 + int (length paths)"
  using paths_json_run [OF assms, of tv "dict_get_default tv (0, 1) 0" 0 "[]" "[]"]
  by (auto simp: simple_paths_to_flow_json_def bulk_json_def consecutive_def)

subsection \<open>The configuration\<close>

text \<open>The controller installs routes and tells their ids.\<close>

definition installs_routes :: "server \<Rightarrow> bool" where
  "installs_routes srv \<longleftrightarrow> (\<forall>rqs body. \<exists>tok. reply_field ''routeId'' (srv rqs (route_request body)) = Some tok \<and> hashable tok)"

definition two_hosts :: "mn_bed \<Rightarrow> mininet_host \<Rightarrow> mininet_host \<Rightarrow> bool" where
  "two_hosts d h0 h1 \<longleftrightarrow> map_of (mb_hosts d) 0 = Some h0 \<and> map_of (mb_hosts d) 1 = Some h1"

definition rate_config :: "mininet_host \<Rightarrow> mininet_host \<Rightarrow> nat \<Rightarrow> int list \<Rightarrow> nat \<times> rate_flow \<Rightarrow> json" where
  "rate_config h0 h1 n tags = (\<lambda>(i, flow). precomputed_args (rf_tx_rates flow) (mh_host_ip h1) 50000 ((replicate n 0)[i := 1]) (mh_host_id h0) 1 tags (int i) 1066)"

abbreviation with_configs :: "mininet_host \<Rightarrow> json list \<Rightarrow> mininet_host" where
  "with_configs h cs \<equiv> h\<lparr>mh_configured_flows := mh_configured_flows h @ cs\<rparr>"

lemma rates_step:
  assumes "two_hosts d h0 h1" and "rf_source flow = 0" and "rf_destination flow = 1" and "i < n"
  shows "\<exists>d'. configure_rates n tags (i, flow) (d, w) = (Inr (), (d', w)) \<and> two_hosts d' (with_configs h0 [rate_config h0 h1 n tags (i, flow)]) h1 \<and>
    mb_trial d' = mb_trial d"
  using assms
  by (auto simp: configure_rates_def k_matrix_def two_hosts_def mininet_host_ip_def on_host_def with_host_def dict_get_def andthen_def
      configure_flow_with_precomputed_transmit_rates_def update_host_def rate_config_def)

lemma install_step:
  assumes "installs_routes srv"
  shows "\<exists>tok. on_snd (on_snd (install_flow srv body)) (d, (evs, rqs)) = (Inr tok, (d, (evs, rqs @ [route_request body]))) \<and> hashable tok"
proof -
  obtain tok where tok: "reply_field ''routeId'' (srv rqs (route_request body)) = Some tok" "hashable tok"
    using assms by (auto simp: installs_routes_def)
  have "install_flow srv body rqs = (Inr tok, rqs @ [route_request body])"
    using tok(1) by (cases "srv rqs (route_request body)")
      (auto simp: install_flow_def andthen_def send_def reply_field_def of_res_def route_request_def split: if_splits sum.splits)
  then show ?thesis using tok(2) by (simp add: on_snd_run)
qed

lemma bulk_flow_step:
  assumes "installs_routes srv" and "two_hosts d h0 h1" and "rf_source flow = 0" and "rf_destination flow = 1" and "i < n"
    and "\<forall>p \<in> set (rf_paths flow). bulk_path ids p"
  shows "\<exists>tv' d'. add_bulk_flow srv ids n (tv, ts0) (i, flow) (d, (evs, rqs)) =
      (Inr (tv', consecutive (dict_get_default tv (0, 1) 0) (length (rf_paths flow))),
       (d', (evs, rqs @ [route_request (bulk_json ids (rf_paths flow) (dict_get_default tv (0, 1) 0))]))) \<and>
    dict_get_default tv' (0, 1) 0 = dict_get_default tv (0, 1) 0 + int (length (rf_paths flow)) \<and> mb_trial d' = mb_trial d \<and>
    two_hosts d' (with_configs h0 [rate_config h0 h1 n (consecutive (dict_get_default tv (0, 1) 0) (length (rf_paths flow))) (i, flow)]) h1"
proof -
  let ?t = "dict_get_default tv (0, 1) 0"
  obtain tv' where json: "simple_paths_to_flow_json (rf_paths flow) tv ids = Inr (bulk_json ids (rf_paths flow) ?t, consecutive ?t (length (rf_paths flow)), tv')"
      "dict_get_default tv' (0, 1) 0 = ?t + int (length (rf_paths flow))" using flow_json_run [OF assms(6)] by blast
  let ?rq = "route_request (bulk_json ids (rf_paths flow) ?t)"
  obtain tok where inst: "on_snd (on_snd (install_flow srv (bulk_json ids (rf_paths flow) ?t))) (d, (evs, rqs)) = (Inr tok, (d, (evs, rqs @ [?rq])))" "hashable tok"
    using install_step [OF assms(1), of "bulk_json ids (rf_paths flow) ?t" d evs rqs] by blast
  let ?d = "d\<lparr>mb_tokens := set_add (mb_tokens d) tok\<rparr>"
  have "two_hosts ?d h0 h1" using assms(2) by (simp add: two_hosts_def)
  from rates_step [OF this assms(3-5), of "consecutive ?t (length (rf_paths flow))" "(evs, rqs @ [?rq])"] obtain d' where
    conf: "configure_rates n (consecutive ?t (length (rf_paths flow))) (i, flow) (?d, (evs, rqs @ [?rq])) = (Inr (), (d', (evs, rqs @ [?rq])))"
      "two_hosts d' (with_configs h0 [rate_config h0 h1 n (consecutive ?t (length (rf_paths flow))) (i, flow)]) h1" "mb_trial d' = mb_trial d" by auto
  have "add_bulk_flow srv ids n (tv, ts0) (i, flow) (d, (evs, rqs)) = (Inr (tv', consecutive ?t (length (rf_paths flow))), (d', (evs, rqs @ [?rq])))"
    using inst conf(1) by (simp add: add_bulk_flow_def json(1) andthen_def mn_add_token_def ret_def)
  then show ?thesis using json(2) conf by blast
qed

definition same_ends :: "rate_flow \<Rightarrow> bool" where
  "same_ends flow \<longleftrightarrow> rf_source flow = 0 \<and> rf_destination flow = 1"

definition first_tag :: "int list list \<Rightarrow> nat \<Rightarrow> int" where
  "first_tag paths k = int (k * length paths)"

abbreviation flow_tags :: "int list list \<Rightarrow> nat \<Rightarrow> int list" where
  "flow_tags paths k \<equiv> consecutive (first_tag paths k) (length paths)"

lemma rate_config_host [simp]: "rate_config (with_configs h0 cs) h1 = rate_config h0 h1"
  by (intro ext) (simp add: rate_config_def)

lemma bulk_flows_loop:
  assumes "installs_routes srv" and "\<forall>p \<in> set paths. bulk_path ids p"
  shows "two_hosts d h0 h1 \<Longrightarrow> \<forall>f \<in> set fs. same_ends f \<and> rf_paths f = paths \<Longrightarrow> k + length fs \<le> n \<Longrightarrow>
    dict_get_default tv (0, 1) 0 = first_tag paths k \<Longrightarrow>
    \<exists>tv' d'. fold_prog (add_bulk_flow srv ids n) (tv, ts0) (enumerate k fs) (d, (evs, rqs)) =
      (Inr (tv', if fs = [] then ts0 else flow_tags paths (k + length fs - 1)),
       (d', (evs, rqs @ map (\<lambda>i. route_request (bulk_json ids paths (first_tag paths i))) [k..<k + length fs]))) \<and> mb_trial d' = mb_trial d \<and>
      two_hosts d' (with_configs h0 (map (\<lambda>(i, f). rate_config h0 h1 n (flow_tags paths i) (i, f)) (enumerate k fs))) h1"
proof (induction fs arbitrary: k tv ts0 d h0 rqs)
  case Nil
  have "with_configs h0 [] = h0" by simp
  with Nil show ?case by (auto simp: ret_def)
next
  case (Cons f fs)
  let ?rq = "\<lambda>i. route_request (bulk_json ids paths (first_tag paths i))" and ?c = "\<lambda>(i, f). rate_config h0 h1 n (flow_tags paths i) (i, f)"
  have up: "[k..<k + length (f # fs)] = k # [Suc k..<Suc k + length fs]" by (simp add: upt_conv_Cons del: upt_Suc)
  have f: "rf_source f = 0" "rf_destination f = 1" "rf_paths f = paths" "k < n" using Cons.prems by (auto simp: same_ends_def)
  from bulk_flow_step [OF assms(1) Cons.prems(1) f(1,2,4), of ids tv ts0 evs rqs] obtain tv1 d1 where
    one: "add_bulk_flow srv ids n (tv, ts0) (k, f) (d, (evs, rqs)) = (Inr (tv1, flow_tags paths k), (d1, (evs, rqs @ [?rq k])))"
      "dict_get_default tv1 (0, 1) 0 = first_tag paths (Suc k)" "mb_trial d1 = mb_trial d" "two_hosts d1 (with_configs h0 [?c (k, f)]) h1"
    using assms(2) by (auto simp: f(3) Cons.prems(4) first_tag_def)
  from Cons.IH [OF one(4) _ _ one(2), of "flow_tags paths k" "rqs @ [?rq k]"] Cons.prems obtain tv' d' where
    rest: "fold_prog (add_bulk_flow srv ids n) (tv1, flow_tags paths k) (enumerate (Suc k) fs) (d1, (evs, rqs @ [?rq k])) =
        (Inr (tv', flow_tags paths (k + length fs)), (d', (evs, (rqs @ [?rq k]) @ map ?rq [Suc k..<Suc k + length fs])))"
      "mb_trial d' = mb_trial d1" "two_hosts d' (with_configs (with_configs h0 [?c (k, f)]) (map ?c (enumerate (Suc k) fs))) h1"
    by (auto split: if_splits)
  have "fold_prog (add_bulk_flow srv ids n) (tv, ts0) (enumerate k (f # fs)) (d, (evs, rqs)) =
      (Inr (tv', flow_tags paths (k + length fs)), (d', (evs, rqs @ map ?rq [k..<k + length (f # fs)])))"
    using rest(1) unfolding up by (simp add: andthen_run(1) [where m = \<open>add_bulk_flow srv ids n (tv, ts0) (k, f)\<close>, OF one(1)] del: upt_Suc)
  then show ?case using rest(2,3) one(3) by (intro exI [of _ tv'] exI [of _ d']) (simp del: upt_Suc)
qed

lemma background_loop:
  "two_hosts d h0 h1 \<Longrightarrow> \<forall>f \<in> set fs. same_ends f \<Longrightarrow> k + length fs \<le> n \<Longrightarrow>
    \<exists>d'. each (configure_rates n tags) (enumerate k fs) (d, w) = (Inr (), (d', w)) \<and>
      two_hosts d' (with_configs h0 (map (rate_config h0 h1 n tags) (enumerate k fs))) h1"
proof (induction fs arbitrary: k d h0)
  case Nil
  have "with_configs h0 [] = h0" by simp
  with Nil show ?case by (auto simp: ret_def)
next
  case (Cons f fs)
  have f: "rf_source f = 0" "rf_destination f = 1" "k < n" using Cons.prems by (auto simp: same_ends_def)
  obtain d1 where one: "configure_rates n tags (k, f) (d, w) = (Inr (), (d1, w))" "two_hosts d1 (with_configs h0 [rate_config h0 h1 n tags (k, f)]) h1"
    using rates_step [OF Cons.prems(1) f] by blast
  from Cons.IH [OF one(2), of "Suc k"] Cons.prems obtain d' where "each (configure_rates n tags) (enumerate (Suc k) fs) (d1, w) = (Inr (), (d', w))"
    "two_hosts d' (with_configs h0 (map (rate_config h0 h1 n tags) (enumerate k (f # fs)))) h1" by auto
  then show ?case by (intro exI [of _ d']) (simp add: andthen_run(1) [where m = \<open>configure_rates n tags (k, f)\<close>, OF one(1)])
qed

subsection \<open>From the configuration to the tag\<close>

text \<open>The type of service that a traffic generator with these arguments gives a packet for which \<open>random_pick\<close> is drawn.\<close>

definition chosen_tos :: "json \<Rightarrow> pyfloat \<Rightarrow> int res" where
  "chosen_tos args random_pick = rbind (flow_parameters_list (JList [args])) (\<lambda>fps.
     rbind (dict_get fps 0) (\<lambda>fp. case select_path random_pick 0 0 (fp_prob_mat fp) of
         None \<Rightarrow> Inl TypeError | Some flow_num \<Rightarrow> calc_dscp_val flow_num (fp_tag_value fp)))"

definition args_rates :: "json \<Rightarrow> pyfloat list res" where
  "args_rates args = rbind (json_get args ''transmit_rates'') (list_dec json_float)"

lemma precomputed_args_parsed:
  "flow_parameters_list (JList [precomputed_args rates ip port ratios host slice tags i len]) = Inr [(0,
     \<lparr>fp_dest_port = port, fp_dest_addr = ip, fp_prob_mat = ratios, fp_tx_rate = 131072, fp_variance = 131072, fp_traffic_model = PRECOMPUTED,
      fp_packet_len = len, fp_src_host = host, fp_time_slice = of_int slice, fp_tag_value = Some tags, fp_transmit_rates = Some rates,
      fp_source_addr = None, fp_data_str = replicate (nat len) CHR ''x'', fp_flow_id = i\<rparr>)]"
proof -
  have "opt_dec (list_dec json_int) (list_enc JInt tags) = Inr (Some tags)" "opt_dec (list_dec json_float) (list_enc JFloat rates) = Inr (Some rates)"
    using ints_codec.dec_enc floats_codec.dec_enc by (simp_all add: opt_dec_def list_enc_def)
  moreover have "traffic_model_from_str ''precomputed'' = Inr PRECOMPUTED" by code_simp
  ultimately show ?thesis using floats_codec.dec_enc
    by (simp add: precomputed_args_def flow_parameters_list_def parse_traffic_model_def dict_get_def flow_parameters_of_def flow_parameter_names_def
        keyword_arg_def)
qed

lemma unit_vector: "i < n \<Longrightarrow> (replicate n (0 :: pyfloat))[i := 1] = replicate i 0 @ 1 # replicate (n - Suc i) 0"
  by (simp add: upd_conv_take_nth_drop min_def)

lemma select_unit: "0 < r \<Longrightarrow> r \<le> 1 \<Longrightarrow> select_path r 0 k (replicate i 0 @ 1 # rest) = Some (k + i)"
  by (induction i arbitrary: k) auto

lemma config_tos:
  assumes "i < n" and "n \<le> length paths" and "0 < r" and "r \<le> 1"
  shows "chosen_tos (rate_config h0 h1 n (flow_tags paths k) (i, f)) r = Inr (push_bit 2 (first_tag paths k + int i))"
  using assms by (simp add: chosen_tos_def rate_config_def precomputed_args_parsed dict_get_def unit_vector select_unit calc_dscp_val_def consecutive_def)

lemma config_rates: "args_rates (rate_config h0 h1 n tags (i, f)) = Inr (rf_tx_rates f)"
  using floats_codec.dec_enc by (simp add: args_rates_def rate_config_def precomputed_args_def dict_get_def)

lemma path_entry_inject: "path_entry tag nodes = path_entry tag' nodes' \<longleftrightarrow> tag = tag' \<and> nodes = nodes'"
  by (auto simp: path_entry_def list_enc_def inj_map_eq_map [of JStr] inj_def)

text \<open>A tag of a path leads over that path alone, whichever of the flows it was installed for.\<close>

lemma tag_leads_iff:
  assumes "k < n" and "i < length paths"
  shows "tag_leads (map (\<lambda>k. route_request (bulk_json ids paths (first_tag paths k))) [0..<n]) (first_tag paths k + int i) nodes \<longleftrightarrow> nodes = dpids ids (paths ! i)"
proof
  assume "tag_leads (map (\<lambda>k. route_request (bulk_json ids paths (first_tag paths k))) [0..<n]) (first_tag paths k + int i) nodes"
  then obtain k' j where j: "j < length paths" "first_tag paths k + int i = first_tag paths k' + int j" "nodes = dpids ids (paths ! j)"
    by (auto simp: tag_leads_def route_request_def bulk_json_def path_entry_inject in_set_enumerate_eq)
  then have "int (k * length paths + i) = int (k' * length paths + j)" by (simp add: first_tag_def)
  then have "k * length paths + i = k' * length paths + j" by (simp only: of_nat_eq_iff)
  then have "(k * length paths + i) mod length paths = (k' * length paths + j) mod length paths" by simp
  then show "nodes = dpids ids (paths ! i)" using assms(2) j by simp
next
  assume nodes: "nodes = dpids ids (paths ! i)"
  let ?entries = "map (\<lambda>(j, p). path_entry (first_tag paths k + int j) (dpids ids p)) (enumerate 0 paths)"
  have "(i, paths ! i) \<in> set (enumerate 0 paths)" using assms(2) by (simp add: in_set_enumerate_eq)
  then have "path_entry (first_tag paths k + int i) nodes \<in> set ?entries" using nodes by force
  moreover have "route_request (JObj [(''paths'', JList ?entries)]) \<in> set (map (\<lambda>k. route_request (bulk_json ids paths (first_tag paths k))) [0..<n])"
    using assms(1) by (auto simp: bulk_json_def)
  ultimately show "tag_leads (map (\<lambda>k. route_request (bulk_json ids paths (first_tag paths k))) [0..<n]) (first_tag paths k + int i) nodes"
    unfolding tag_leads_def by blast
qed

subsection \<open>Property\<close>


definition ex_mn_controller :: server where
  "ex_mn_controller rqs rq = Reply 200 (Some (JObj [(''routeId'', JInt (int (length rqs)))]))"

definition ex_mininet :: "int \<Rightarrow> string \<Rightarrow> mininet_host" where
  "ex_mininet i ip = \<lparr>mh_hostname = ''h'', mh_remote_username = ''alexj'', mh_remote_password = ''password'', mh_host_id = i, mh_ssh_port = 22,
     mh_host_ip = ip, mh_ssh_tunnel = True, mh_server_proc = Some 7, mh_client_procs = [], mh_configured_flows = []\<rparr>"

definition ex_rate_flow :: "pyfloat list \<Rightarrow> rate_flow" where
  "ex_rate_flow rates = \<lparr>rf_source = 0, rf_destination = 1, rf_tx_rates = rates, rf_paths = [[0, 2, 1], [0, 3, 1]], rf_splitting_ratio = [0, 0]\<rparr>"

definition ex_mn_bed :: mn_bed where
  "ex_mn_bed = (mn_start \<lparr>tr_name = ''t'', tr_parameters = [(''background-traffic-flow-set'', PRateFlows [ex_rate_flow [5], ex_rate_flow [6]])]\<rparr> [])
     \<lparr>mb_hosts := [(0, ex_mininet 0 ''10.0.0.1''), (1, ex_mininet 1 ''10.0.0.2'')]\<rparr>"

definition ex_mn_ids :: "(int, string) dict" where
  "ex_mn_ids = [(0, ''of:0''), (1, ''of:1''), (2, ''of:2''), (3, ''of:3'')]"


end
