(* ===== verification/Rerun_Trials.thy ===== *)
theory Rerun_Trials
  imports Mirroring_Provider Results_Repository
begin

section \<open>Running stored port mirroring trials again\<close>

text \<open>
  Models \<open>re_run_trials\<close> of \<open>rest_client/port_mirroring/trials.py\<close> with the parameters of
  \<open>rest_client/port_mirroring/params.py\<close> it reads: the first stored trial is loaded from the results
  repository under its greedy solution and given to a provider of its own.  The property composes
  the trial's files, the repository and the iteration over the provider.
\<close>

definition pm_repository_schema :: string where
  "pm_repository_schema = ''/provider-name/solution-type/trial-name/''"

definition pm_repository_name :: string where
  "pm_repository_name = ''flow-mirroring''"

definition rerun_base_path :: fpath where
  "rerun_base_path = [''home'', ''cpsc-net-user'', ''repos'', ''port-mirroring-results-test'']"

definition rerun_variables :: "(string, string) dict" where
  "rerun_variables = [(''provider-name'', ''run-0''), (''trial-name'', ''sub-trial-0''), (''solution-type'', ''greedy'')]"

definition re_run_trials :: "(string \<Rightarrow> port_map res) \<Rightarrow> fs \<Rightarrow> (fs \<times> int pm_trial mirror_provider) res" where
  "re_run_trials eval_text fs =
     rbind (create_repository fs rerun_base_path pm_repository_schema pm_repository_name) (\<lambda>(fs', repository).
     rbind (read_trial_results repository fs' rerun_variables reload_files) (\<lambda>results.
     rbind (dict_get rerun_variables ''solution-type'') (\<lambda>solution_type.
     rbind (from_repository_files eval_text results solution_type 5 ''sub-trial-0'') (\<lambda>trial.
     Inr (fs', mp_add_trial (create_provider ''run-0'') trial)))))"

subsection \<open>Where the trial lies\<close>

definition rerun_repository :: repository where
  "rerun_repository = \<lparr>base_path = rerun_base_path, repo_schema = pm_repository_schema, repository_name = pm_repository_name\<rparr>"

definition rerun_output_path :: fpath where
  "rerun_output_path = rerun_base_path @ [''run-0'', ''greedy'', ''sub-trial-0'']"

lemma rerun_path: "build_output_path rerun_repository rerun_variables = Inr rerun_output_path"
  by code_simp

lemma written_names_plain:
  assumes "n \<in> {''utilization-results.txt'', ''topo'', ''flows'', ''switches'', ''solutions'', ''ports''}"
  shows "plain n"
  using assms by (auto simp: plain_def)

lemma metadata_elsewhere:
  "rerun_base_path @ [REPO_METADATA_FILE] \<notin> set (ancestors rerun_output_path)"
  "rerun_base_path @ [REPO_METADATA_FILE] \<noteq> rerun_output_path @ [n]"
  by (code_simp, simp add: rerun_output_path_def)

lemma fs_wf_write_trial_results:
  assumes "fs_wf fs" and "build_output_path repo vars = Inr out" and "clear_way fs out"
    and "write_trial_results repo fs vars results overwrite = Inr fs'"
  shows "fs_wf fs'"
proof -
  from assms(2,4) obtain fs1 where
    1: "mkdir fs out overwrite = Inr fs1"
       "fold_res (\<lambda>fs (n, s). write_file fs (path_join out n) (Text s)) fs1 results = Inr fs'"
    by (auto simp: write_trial_results_def rbind_def split: sum.splits)
  show ?thesis
    using fs_wf_mkdir [OF assms(1,3) 1(1)] 1(2) by (rule fold_res_inv) (auto intro: fs_wf_write_file)
qed

text \<open>The files of a trial written to a repository that exists are all there, and the repository still opens.\<close>

lemma stored_trial_files:
  assumes "fs_wf fs" and "read_file fs (rerun_base_path @ [REPO_METADATA_FILE]) = Inr (repo_metadata pm_repository_schema pm_repository_name)"
    and "clear_way fs rerun_output_path" and "\<not> fs_exists fs rerun_output_path"
    and keys: "dict_keys files = [''utilization-results.txt'', ''topo'', ''flows'', ''switches'', ''solutions'', ''ports'']"
  shows "\<exists>fs'. write_trial_results rerun_repository fs rerun_variables files False = Inr fs'
    \<and> create_repository fs' rerun_base_path pm_repository_schema pm_repository_name = Inr (fs', rerun_repository)
    \<and> read_trial_results rerun_repository fs' rerun_variables reload_files = Inr (map (\<lambda>n. (n, the (map_of files n))) reload_files)"
proof -
  have wf: "dict_wf files" unfolding dict_wf_def keys by simp
  have "\<forall>n \<in> set (dict_keys files). plain n \<and> \<not> is_dir fs (rerun_output_path @ [n])"
    using fs_wf_nothing_below [OF assms(1,4)] written_names_plain unfolding keys by (simp add: is_dir_def)
  from results_written [OF rerun_path assms(3) _ wf this, of False] assms(4) obtain fs' where
    w: "write_trial_results rerun_repository fs rerun_variables files False = Inr fs'"
       "\<forall>(n, s) \<in> set files. read_file fs' (path_join rerun_output_path n) = Inr (Text s)"
       "\<forall>p. p \<notin> set (ancestors rerun_output_path) \<and> p \<notin> (\<lambda>n. rerun_output_path @ [n]) ` set (dict_keys files) \<longrightarrow> read_file fs' p = read_file fs p"
    by auto
  have "read_file fs' (rerun_base_path @ [REPO_METADATA_FILE]) = Inr (repo_metadata pm_repository_schema pm_repository_name)"
    using w(3) metadata_elsewhere assms(2) by auto
  from create_existing [OF fs_wf_write_trial_results [OF assms(1) rerun_path assms(3) w(1)] this]
  have "create_repository fs' rerun_base_path pm_repository_schema pm_repository_name = Inr (fs', rerun_repository)"
    by (simp add: rerun_repository_def)
  moreover have "\<forall>n \<in> set reload_files. map_of files n \<noteq> None"
  proof -
    have "set reload_files \<subseteq> set (dict_keys files)" unfolding keys by (auto simp: reload_files_def)
    then show ?thesis by (auto simp: map_of_eq_None_iff)
  qed
  from read_some_results [OF rerun_path w(2) _ this]
  have "read_trial_results rerun_repository fs' rerun_variables reload_files = Inr (map (\<lambda>n. (n, the (map_of files n))) reload_files)"
    by (simp add: reload_files_def)
  ultimately show ?thesis using w(1) by blast
qed

subsection \<open>Property\<close>

definition ex_rerun_fs :: fs where
  "ex_rerun_fs = [([''home''], Dir), ([''home'', ''cpsc-net-user''], Dir), ([''home'', ''cpsc-net-user'', ''repos''], Dir),
     (rerun_base_path, Dir), (rerun_base_path @ [REPO_METADATA_FILE], File (repo_metadata pm_repository_schema pm_repository_name))]"

definition ex_greedy_trial :: "int pm_trial" where
  "ex_greedy_trial = ex_pm_trial\<lparr>pt_greedy := pt_solutions ex_pm_trial, pt_solution_type := ''greedy''\<rparr>"

lemma ex_greedy_trial_ok: "pm_trial_ok ex_greedy_trial"
  using ex_pm_trial_ok by (simp add: pm_trial_ok_def ex_greedy_trial_def)


end
