(* ===== verification/Spec2Isabelle.thy ===== *)
theory Spec2Isabelle
  imports Conduct Mcf_Allocation Mirroring_Provider Mp_Trial Stat_Monitor Path_Hopping_Trials Sim_Main
    Onos_Helpers Route_Adder Mp_Monitor Stats_Processor File_Parsing Testbed_Main Mininet_Main Mininet_Paths Rerun_Trials
begin

text \<open>
  \<^bold>\<open>Verification of the OpenFlow testbed.\<close>  The repository drives experiments on a software defined network:
  it simulates multi-path hopping against eavesdroppers, allocates flows to a network, describes and
  stores trials of several kinds, and evaluates what the switches report.  This development models the
  Python packages under \<open>src/rest_client\<close> that hold this logic, and the traffic generator of \<open>src/traffic_generation\<close>, and proves what makes them correct.

  \<^bold>\<open>Parts and theories.\<close>
  \<^item> \<open>Prelude\<close>, \<open>Strings\<close>, \<open>Float_Text\<close>, \<open>Json\<close>, \<open>Numpy\<close>: what the sources use of Python and its libraries.
    An exception is a value of the type \<open>py_error + 'a\<close>; dictionaries are association lists in insertion
    order; floats are exact rationals (rounding is not modelled, \<open>%f\<close> prints six places); random generators
    and third-party packages are parameters with their documented behaviour as named hypotheses.
  \<^item> \<open>Simulator\<close>, \<open>Attackers\<close>, \<open>Network_Invariant\<close>, \<open>Simulation\<close>, \<open>Attacker_Totality\<close>, \<open>Simulation_Properties\<close>:
    \<open>path_hopping_simulator/simulator.py\<close> and \<open>attackers.py\<close>.  Shares, nodes, flows and the simulation are
    records; \<open>sim_step\<close> is \<open>PathHoppingSimulation.step\<close>.  The invariant of the network is kept by every step;
    the shares in flight refine an abstract description by sequence numbers and path choices; an
    attacker recovers a message exactly when it saw every path of it.
  \<^item> \<open>Parallel_Graph\<close>, \<open>Conduct\<close>: \<open>build_n_parallel_graph\<close> and \<open>conduct_path_hopping_simulation\<close> of
    \<open>path_hopping_simulator.py\<close>: for sensible parameters a run never raises and its outcome is known.
  \<^item> \<open>Admission\<close>, \<open>Flow_Allocation\<close>, \<open>Lp_Models\<close>, \<open>Lp_Allocation\<close>, \<open>Mcf_Routes\<close>, \<open>Mcf_Allocation\<close>:
    \<open>path_hopping/flow_allocation.py\<close>.  The allocators admit random flows until one does not fit; linear
    programs are data, the solver is a parameter assumed sound (what it returns satisfies the model).
    Every allocator ends and respects the capacities; the routes read off a multi-commodity flow are
    exactly the simple paths over links in use.
  \<^item> \<open>Trial_Provider\<close>, \<open>Sim_Trials\<close>, \<open>Path_Hopping_Trials\<close>: \<open>nw_control/trial_provider.py\<close>,
    \<open>path_hopping_simulator/trials.py\<close>, \<open>attacker_tests/trials.py\<close> and \<open>path_hopping/trials.py\<close>: the trials are
    built over the simulator and the allocators, whose theorems carry over to what the trials hold.
  \<^item> \<open>Results_Repository\<close>, \<open>Sim_Main\<close>: \<open>nw_control/results_repository.py\<close> over a model of the file system, and
    \<open>main\<close> of \<open>path_hopping_simulator.py\<close>: what is written is read back, and the whole program runs from
    an empty repository to stored results.
  \<^item> \<open>Flow_Mirroring\<close>, \<open>Port_Mirroring\<close>, \<open>Mirroring_Provider\<close>, \<open>Rerun_Trials\<close>: \<open>trials/flow_mirroring_trial.py\<close>,
    \<open>trials/port_mirroring_trial.py\<close>, \<open>port_mirroring/trial_provider.py\<close> and \<open>port_mirroring/trials.py\<close>: text formats
    with their round trips, solution types and the iteration over them, the mapping to physical ports; a stored
    trial is loaded from the repository and run again.
  \<^item> \<open>Mp_Trial\<close>: \<open>mp_routing/trial.py\<close>, \<open>mp_routing/vle_trial.py\<close>, \<open>simulations/simulation.py\<close> and
    \<open>simulations/simulation_trial.py\<close>: records, checks and lossless JSON forms.
  \<^item> \<open>Http\<close>: programs that send HTTP requests.  A program takes the requests sent so far to a result and the
    requests sent after it; a server answers from that history, so a controller with any state is a server.
  \<^item> \<open>Openflow\<close>: \<open>nw_control/flowmod.py\<close>, \<open>of_rest_client.py\<close> and \<open>of_processor.py\<close>: flow modifications, requests, answers
    and the processor.  The adjacency of a reported topology is exact, and no flow modification is ever sent.
  \<^item> \<open>Topo_Mapper\<close>, \<open>Host_Mapper\<close>: \<open>nw_control/topo_mapper.py\<close> and \<open>host_mapper.py\<close>: the map from node numbers to switches is
    an isomorphism when the matcher is sound, and the two checks of flows agree.
  \<^item> \<open>Onos_Helpers\<close>: \<open>port_mirroring/onos_rest_helpers.py\<close> and \<open>add_flows\<close> of the mirroring trials: exactly one request per flow.
  \<^item> \<open>Route_Adder\<close>, \<open>Mp_Monitor\<close>: \<open>mp_routing/onos_route_adder.py\<close> and \<open>multipath_orchestrator.py\<close>: the tags of paths with the
    same end points are consecutive; the monitor and its timers are a step relation.
  \<^item> \<open>Stats_Processor\<close>, \<open>File_Parsing\<close>: \<open>mp_routing/stats_processor.py\<close> and \<open>file_parsing.py\<close>: link utilisation, loss rates, and
    the files of routes and rates.
  \<^item> \<open>Virtual_Host\<close>, \<open>Testbed_Resources\<close>: \<open>virtual_hosts/virtual_host.py\<close> over an operating system that is a parameter, and an
    abstract view of what exists (addresses, virtual hosts, routes, processes) read off what was done.
  \<^item> \<open>Testbed_Trial\<close>, \<open>Attacker_Testbed\<close>, \<open>Testbed_Main\<close>: the drivers \<open>path_hopping.py\<close> and \<open>path_hopping_attacker_testing.py\<close> with
    \<open>nw_control/packet_capture.py\<close>: whatever fails in a trial, nothing is left behind and the results are stored.
  \<^item> \<open>Traffic_Gen\<close>, \<open>Traffic_Properties\<close>, \<open>Traffic_Rate\<close>, \<open>Traffic_Liveness\<close>, \<open>Traffic_Hosts\<close>: \<open>traffic_generation/traffic_gen.py\<close> and
    \<open>traffic_server.py\<close>.  The generator is a program over its operations (clocks, random numbers, sockets) that a signal may
    stop before any of them.  Its counts are right up to one burst wherever it is stopped, a flow never exceeds its rate, every packet has
    a tag of its flow, and with well-formed flows only the signal ends it; a flow below one burst per time slice sends nothing.
  \<^item> \<open>Mininet_Host\<close>: \<open>nw_control/host_rewrite.py\<close>: hosts reached by ssh that run two traffic generators each.  The results collected
    from a host are complete when it has at least two flows; with one flow they cannot be collected.
  \<^item> \<open>Tuiti_Trial\<close>: \<open>tuiti/tuiti_trial.py\<close>: trials of bulk transfers carry exactly the volume that the solver allocated.
  \<^item> \<open>Mininet_Tuiti\<close>, \<open>Mininet_Paths\<close>, \<open>Mininet_Safety\<close>, \<open>Mininet_Main\<close>: \<open>mininet_tuiti.py\<close>, the driver that conducts these trials at two remote
    hosts.  From the solver's allocation to the tag of a packet: the i-th flow is sent on the i-th path.  Whatever fails in a
    trial, its routes are removed and its hosts let go, unless a host cannot be reached any more, and the results are stored.
  \<^item> \<open>Traffic_Reports\<close>: what the traffic generator and server report, shared by hosts and trials.
  \<^item> \<open>Stat_Monitor\<close>: \<open>nw_control/stat_monitor.py\<close>: link utilisation from interface counters, and the monitor
    handle as a state machine.

  \<^bold>\<open>Interfaces.\<close>  \<open>admission\<close> (what makes an admission loop end) is interpreted on the greedy loop and
  instantiated for the linear programming and the multi-commodity loops; \<open>ratio_bounds\<close> on the two path models; \<open>codec\<close>, \<open>wf_codec\<close> and
  \<open>line_codec\<close> on the JSON and text formats; \<open>solution_chooser\<close> on the port mirroring trial; \<open>file_store\<close> on the
  file system.

  \<^bold>\<open>Fuel.\<close>  The allocators loop until a flow does not fit.  The loops take fuel, and running out is \<open>None\<close>: with
  more than ten times as many rounds as links they return, because every admitted flow adds at least a
  tenth of a link's capacity to a total that the capacities bound.  The recursion over multi-commodity
  flows has a measure instead, and the retry loop of the mirroring trials takes fuel with the hypothesis
  that an answer verifies within it.  The loops of the traffic generator end with the signal: the operations left until it comes are
  their measure.

  \<^bold>\<open>Not modelled.\<close>  The driver scripts of the multipath and mirroring tests, with the older \<open>nw_control/host.py\<close>: their
  effects are outside the program.  The plots of
  \<open>data_visualization\<close> call matplotlib.  External solver processes, the graph matcher, name servers and the
  SDN controllers are parameters.  Printing is left out throughout.
\<close>

end
